(* ===== verification/Prelude.thy ===== *)
theory Prelude
  imports Main "HOL-Library.Word" "HOL-Library.List_Lexorder" "HOL-Library.Char_ord"
begin

text \<open>
  Shared vocabulary of the development.

  \<^item> the machine types of the Rust sources (\<open>u8\<close>, \<open>u32\<close>, \<open>u64\<close>, byte strings) and the saturating and
    checked operations of the standard library on them;
  \<^item> results: \<open>Result<T, E>\<close> is the sum type \<open>'e + 'a\<close> with \<open>Inl\<close> the error, and \<open>tryE\<close> is the
    question-mark operator;
  \<^item> \<open>BTreeMap\<close> as a strictly sorted association list with the operations the sources use, behind the
    interface \<open>ordered_map\<close>.
\<close>

section \<open>Machine types\<close>

type_synonym u8 = "8 word"
type_synonym u16 = "16 word"
type_synonym u32 = "32 word"
type_synonym u64 = "64 word"
type_synonym bytes = "u8 list"

text \<open>A digest \<open>[u8; 32]\<close>.  Where the sources convert a slice into a digest the length is checked, and the
  check is a branch of the model.\<close>
type_synonym hash32 = bytes

named_theorems word_ops \<open>saturating and checked word operations, read through unat\<close>
named_theorems result_simps \<open>inversion of the result combinators\<close>

definition zero_hash :: hash32 where
  "zero_hash = replicate 32 0"

lemma length_zero_hash [simp]: "length zero_hash = 32"
  by (simp add: zero_hash_def)

definition saturating_sub :: "'a::len word \<Rightarrow> 'a word \<Rightarrow> 'a word" where
  "saturating_sub a b = (if b \<le> a then a - b else 0)"

definition saturating_add :: "'a::len word \<Rightarrow> 'a word \<Rightarrow> 'a word" where
  "saturating_add a b = (if a + b < a then - 1 else a + b)"

definition checked_add :: "'a::len word \<Rightarrow> 'a word \<Rightarrow> 'a word option" where
  "checked_add a b = (if a + b < a then None else Some (a + b))"

definition checked_sub :: "'a::len word \<Rightarrow> 'a word \<Rightarrow> 'a word option" where
  "checked_sub a b = (if b \<le> a then Some (a - b) else None)"

lemma unat_saturating_sub [word_ops]: "unat (saturating_sub a b) = unat a - unat b"
  by (auto simp: saturating_sub_def unat_sub word_le_nat_alt)

lemma unat_pos: "0 < unat b \<longleftrightarrow> b \<noteq> 0"
  by (metis gr0I less_irrefl unat_0 unat_eq_zero)

lemma unat_le_max: "unat v \<le> 18446744073709551615" for v :: "64 word"
proof -
  have "unat v < 2 ^ LENGTH(64)"
    by (rule unsigned_less)
  then show ?thesis
    by simp
qed

lemma word_add_wraps_iff: "(a + b < a) = (2 ^ LENGTH('a) \<le> unat a + unat b)" for a b :: "'a::len word"
proof -
  have *: "unat a < 2 ^ LENGTH('a)" "unat b < 2 ^ LENGTH('a)"
    by (rule unsigned_less)+
  show ?thesis
  proof (cases "unat a + unat b < 2 ^ LENGTH('a)")
    case True
    then have "unat (a + b) = unat a + unat b"
      by (simp only: unat_add_lem)
    with True show ?thesis
      by (simp add: word_less_nat_alt)
  next
    case False
    then have "unat (a + b) = unat a + unat b - 2 ^ LENGTH('a)"
      by (simp add: unat_plus_if')
    with False * show ?thesis
      by (simp only: word_less_nat_alt) linarith
  qed
qed

lemma unat_add_no_wrap: "\<not> a + b < a \<Longrightarrow> unat (a + b) = unat a + unat b" for a b :: "'a::len word"
  by (simp only: word_add_wraps_iff not_le unat_add_lem)

lemma unat_saturating_add [word_ops]:
  "unat (saturating_add a b) = min (unat a + unat b) (2 ^ LENGTH('a) - 1)" for a b :: "'a::len word"
proof (cases "a + b < a")
  case True
  then show ?thesis
    by (simp add: saturating_add_def word_add_wraps_iff min_absorb2 unsigned_minus_1_eq_mask
        mask_eq_exp_minus_1 le_diff_conv)
next
  case False
  then show ?thesis
    by (simp add: saturating_add_def unat_add_no_wrap min_absorb1 word_add_wraps_iff)
qed

lemma checked_add_Some [word_ops]:
  "(checked_add a b = Some c) \<longleftrightarrow> unat a + unat b < 2 ^ LENGTH('a) \<and> c = a + b" for a b :: "'a::len word"
  by (auto simp: checked_add_def word_add_wraps_iff)

lemma checked_add_unat: "checked_add a b = Some c \<Longrightarrow> unat c = unat a + unat b" for a b :: "'a::len word"
  by (auto simp: checked_add_def unat_add_no_wrap split: if_splits)

lemma checked_sub_Some [word_ops]: "(checked_sub a b = Some c) \<longleftrightarrow> b \<le> a \<and> c = a - b"
  by (auto simp: checked_sub_def)

lemma saturating_sub_0 [simp]: "saturating_sub a a = 0" "saturating_sub 0 b = 0" "saturating_sub a 0 = a"
  by (auto simp: saturating_sub_def)

text \<open>Image membership with the equation oriented as the record selectors leave it.\<close>
lemma in_image_conv: "b \<in> f ` A \<longleftrightarrow> (\<exists>x\<in>A. f x = b)"
  by auto

section \<open>Results\<close>

definition tryE :: "'e + 'a \<Rightarrow> ('a \<Rightarrow> 'e + 'b) \<Rightarrow> 'e + 'b" where
  "tryE m f = (case m of Inl e \<Rightarrow> Inl e | Inr x \<Rightarrow> f x)"

definition ensure :: "bool \<Rightarrow> 'e \<Rightarrow> 'e + unit" where
  "ensure b e = (if b then Inr () else Inl e)"

definition ok_or :: "'e \<Rightarrow> 'a option \<Rightarrow> 'e + 'a" where
  "ok_or e x = (case x of None \<Rightarrow> Inl e | Some y \<Rightarrow> Inr y)"

definition map_err :: "('e \<Rightarrow> 'f) \<Rightarrow> 'e + 'a \<Rightarrow> 'f + 'a" where
  "map_err g m = (case m of Inl e \<Rightarrow> Inl (g e) | Inr x \<Rightarrow> Inr x)"

primrec is_ok :: "'e + 'a \<Rightarrow> bool" where
  "is_ok (Inl e) = False"
| "is_ok (Inr x) = True"

primrec mapE :: "('a \<Rightarrow> 'e + 'b) \<Rightarrow> 'a list \<Rightarrow> 'e + 'b list" where
  "mapE f [] = Inr []"
| "mapE f (x # xs) = tryE (f x) (\<lambda>y. tryE (mapE f xs) (\<lambda>ys. Inr (y # ys)))"

lemma tryE_simps [simp]: "tryE (Inl e) f = Inl e" "tryE (Inr x) f = f x"
  by (simp_all add: tryE_def)

lemma ensure_simps [simp]: "ensure True e = Inr ()" "ensure False e = Inl e"
  by (simp_all add: ensure_def)

lemma ok_or_simps [simp]: "ok_or e None = Inl e" "ok_or e (Some x) = Inr x"
  by (simp_all add: ok_or_def)

lemma map_err_simps [simp]: "map_err g (Inl e) = Inl (g e)" "map_err g (Inr x) = Inr x"
  by (simp_all add: map_err_def)

lemma tryE_eq_Inr [result_simps]: "(tryE m f = Inr y) \<longleftrightarrow> (\<exists>x. m = Inr x \<and> f x = Inr y)"
  by (cases m) auto

lemma tryE_eq_Inl [result_simps]: "(tryE m f = Inl e) \<longleftrightarrow> m = Inl e \<or> (\<exists>x. m = Inr x \<and> f x = Inl e)"
  by (cases m) auto

lemma ensure_eq_Inr [result_simps]: "(ensure b e = Inr u) \<longleftrightarrow> b"
  by (cases b) auto

lemma ensure_eq_Inl [result_simps]: "(ensure b e = Inl e') \<longleftrightarrow> \<not> b \<and> e' = e"
  by (cases b) auto

lemma ok_or_eq_Inr [result_simps]: "(ok_or e x = Inr y) \<longleftrightarrow> x = Some y"
  by (cases x) auto

lemma ok_or_eq_Inl [result_simps]: "(ok_or e x = Inl e') \<longleftrightarrow> x = None \<and> e' = e"
  by (cases x) auto

lemma map_err_eq_Inr [result_simps]: "(map_err g m = Inr y) \<longleftrightarrow> m = Inr y"
  by (cases m) auto

lemma map_err_eq_Inl [result_simps]: "(map_err g m = Inl e) \<longleftrightarrow> (\<exists>e'. m = Inl e' \<and> e = g e')"
  by (cases m) auto

lemma is_ok_iff: "is_ok m \<longleftrightarrow> (\<exists>x. m = Inr x)"
  by (cases m) auto

lemma mapE_eq_Inr: "(mapE f xs = Inr ys) \<longleftrightarrow> list_all2 (\<lambda>x y. f x = Inr y) xs ys"
  by (induction xs arbitrary: ys) (auto simp: result_simps list_all2_Cons1)

section \<open>Ordered maps\<close>

text \<open>The contract of \<open>BTreeMap\<close> that the components rely on: what \<open>get\<close> returns after each update, and that
  every update keeps the representation invariant.\<close>

locale ordered_map =
  fixes empty :: "'m"
    and get :: "'m \<Rightarrow> 'k \<Rightarrow> 'v option"
    and insert :: "'k \<Rightarrow> 'v \<Rightarrow> 'm \<Rightarrow> 'm"
    and remove :: "'k \<Rightarrow> 'm \<Rightarrow> 'm"
    and entries :: "'m \<Rightarrow> ('k \<times> 'v) list"
    and inv :: "'m \<Rightarrow> bool"
  assumes get_empty: "get empty k = None"
    and inv_empty: "inv empty"
    and inv_insert: "inv m \<Longrightarrow> inv (insert k v m)"
    and inv_remove: "inv m \<Longrightarrow> inv (remove k m)"
    and get_insert: "get (insert k v m) k' = (if k' = k then Some v else get m k')"
    and get_remove: "inv m \<Longrightarrow> get (remove k m) k' = (if k' = k then None else get m k')"
    and get_entries: "inv m \<Longrightarrow> get m k = Some v \<longleftrightarrow> (k, v) \<in> set (entries m)"
    and distinct_entries: "inv m \<Longrightarrow> distinct (map fst (entries m))"
begin

lemma get_insert_same: "get (insert k v m) k = Some v"
  by (simp add: get_insert)

lemma insert_insert_get: "get (insert k v (insert k v' m)) k' = get (insert k v m) k'"
  by (simp add: get_insert)

lemma remove_insert_get: "inv m \<Longrightarrow> get m k = None \<Longrightarrow> get (remove k (insert k v m)) k' = get m k'"
  by (simp add: get_insert get_remove inv_insert)

lemma entries_insert:
  "inv m \<Longrightarrow> (k', w) \<in> set (entries (insert k v m)) \<longleftrightarrow>
     (k' = k \<and> w = v) \<or> (k' \<noteq> k \<and> (k', w) \<in> set (entries m))"
  by (auto simp: get_entries [symmetric] inv_insert get_insert)

lemma entries_remove:
  "inv m \<Longrightarrow> (k', w) \<in> set (entries (remove k m)) \<longleftrightarrow> k' \<noteq> k \<and> (k', w) \<in> set (entries m)"
  by (auto simp: get_entries [symmetric] inv_remove get_remove)

lemma dom_insert: "inv m \<Longrightarrow> fst ` set (entries (insert k v m)) = {k} \<union> fst ` set (entries m)"
  by (rule set_eqI) (auto simp: entries_insert image_iff Bex_def)

lemma dom_remove: "inv m \<Longrightarrow> fst ` set (entries (remove k m)) = fst ` set (entries m) - {k}"
  by (rule set_eqI) (auto simp: entries_remove image_iff Bex_def)

lemma length_insert:
  assumes "inv m"
  shows "length (entries (insert k v m)) =
    (if get m k = None then Suc (length (entries m)) else length (entries m))"
proof -
  have card: "length (entries n) = card (fst ` set (entries n))" if "inv n" for n
    using distinct_card [OF distinct_entries [OF that]] by simp
  have "get m k = None \<longleftrightarrow> k \<notin> fst ` set (entries m)"
    using get_entries [OF assms, of k] by (cases "get m k") force+
  then show ?thesis
    using assms by (simp add: card inv_insert dom_insert insert_absorb)
qed

end

type_synonym ('k, 'v) btree = "('k \<times> 'v) list"

definition bt_inv :: "('k::linorder, 'v) btree \<Rightarrow> bool" where
  "bt_inv m \<longleftrightarrow> sorted_wrt (<) (map fst m)"

abbreviation bt_get :: "('k, 'v) btree \<Rightarrow> 'k \<Rightarrow> 'v option" where
  "bt_get \<equiv> map_of"

fun bt_insert :: "'k::linorder \<Rightarrow> 'v \<Rightarrow> ('k, 'v) btree \<Rightarrow> ('k, 'v) btree" where
  "bt_insert k v [] = [(k, v)]"
| "bt_insert k v ((k', v') # m) =
     (if k < k' then (k, v) # (k', v') # m
      else if k = k' then (k, v) # m
      else (k', v') # bt_insert k v m)"

fun bt_remove :: "'k \<Rightarrow> ('k, 'v) btree \<Rightarrow> ('k, 'v) btree" where
  "bt_remove k [] = []"
| "bt_remove k ((k', v') # m) = (if k = k' then m else (k', v') # bt_remove k m)"

lemma bt_inv_simps [simp]:
  "bt_inv []" "bt_inv ((k, v) # m) \<longleftrightarrow> (\<forall>k' \<in> fst ` set m. k < k') \<and> bt_inv m"
  by (auto simp: bt_inv_def)

lemma bt_inv_distinct: "bt_inv m \<Longrightarrow> distinct (map fst m)"
  by (simp add: bt_inv_def strict_sorted_iff)

lemma set_bt_insert: "fst ` set (bt_insert k v m) = {k} \<union> fst ` set m"
  by (induction k v m rule: bt_insert.induct) auto

lemma set_bt_remove: "set (bt_remove k m) \<subseteq> set m"
  by (induction k m rule: bt_remove.induct) auto

lemma bt_inv_insert [simp]: "bt_inv m \<Longrightarrow> bt_inv (bt_insert k v m)"
  by (induction k v m rule: bt_insert.induct) (auto simp: set_bt_insert)

lemma bt_inv_remove [simp]: "bt_inv m \<Longrightarrow> bt_inv (bt_remove k m)"
  by (induction k m rule: bt_remove.induct) (use set_bt_remove in fastforce)+

lemma bt_inv_filter [simp]: "bt_inv m \<Longrightarrow> bt_inv (filter P m)"
  by (induction m) auto

lemma bt_get_insert [simp]: "bt_get (bt_insert k v m) k' = (if k' = k then Some v else bt_get m k')"
  by (induction k v m rule: bt_insert.induct) auto

lemma bt_get_below: "\<forall>kv\<in>set m. k < fst kv \<Longrightarrow> bt_get m k = None" for k :: "'k::linorder"
  by (induction m) auto

lemma bt_get_remove [simp]: "bt_inv m \<Longrightarrow> bt_get (bt_remove k m) k' = (if k' = k then None else bt_get m k')"
proof (induction m)
  case (Cons kv m)
  then show ?case
    by (cases kv) (auto simp: bt_get_below)
qed simp

interpretation bt: ordered_map "[] :: ('k::linorder, 'v) btree" bt_get bt_insert bt_remove "\<lambda>m. m" bt_inv
  by unfold_locales (auto simp: bt_inv_distinct Some_eq_map_of_iff)

end
