(* ===== verification/MultiHeadWindow.thy ===== *)
theory MultiHeadWindow
  imports Prelude
begin

text \<open>
  The logical acceptance clock (\<open>msphf-orchestrator/src/time.rs\<close>) and the multi-head window
  (\<open>msphf-orchestrator/src/mhw.rs\<close>): for every window identifier the list of live heads, with a reverse index
  from epoch identifier to window.  The operations take \<open>&mut self\<close>, so each returns the window it leaves behind,
  on the error branches as well.  The lemmas show when an operation succeeds, what it leaves in each window, that
  the index never points at a window that does not hold the head, and that it is complete as long as no epoch
  identifier is accepted twice.
\<close>

section \<open>Clock\<close>

record Duration =
  dur_secs :: u64
  dur_nanos :: u32

definition from_secs :: "u64 \<Rightarrow> Duration" where
  "from_secs s = \<lparr>dur_secs = s, dur_nanos = 0\<rparr>"

definition dur_le :: "Duration \<Rightarrow> Duration \<Rightarrow> bool" where
  "dur_le a b \<longleftrightarrow> dur_secs a < dur_secs b \<or> (dur_secs a = dur_secs b \<and> dur_nanos a \<le> dur_nanos b)"

lemma from_secs_le [simp]: "dur_le (from_secs s) d \<longleftrightarrow> s \<le> dur_secs d"
  by (auto simp: dur_le_def from_secs_def)

lemma dur_secs_from_secs: "dur_secs (from_secs s) = s"
  by (simp add: from_secs_def)

record AcceptInstant =
  ticks :: u64

definition from_ticks :: "u64 \<Rightarrow> AcceptInstant" where
  "from_ticks t = \<lparr>ticks = t\<rparr>"

definition duration_since :: "AcceptInstant \<Rightarrow> AcceptInstant \<Rightarrow> Duration" where
  "duration_since now earlier = from_secs (saturating_sub (ticks now) (ticks earlier))"

record AcceptClock =
  next_tick :: u64
  last_instant :: AcceptInstant

definition clock_new :: AcceptClock where
  "clock_new = \<lparr>next_tick = 0, last_instant = from_ticks 0\<rparr>"

definition clock_now :: "AcceptClock \<Rightarrow> AcceptInstant" where
  "clock_now c = last_instant c"

definition clock_tick :: "AcceptClock \<Rightarrow> AcceptInstant \<times> AcceptClock" where
  "clock_tick c =
     (let instant = from_ticks (next_tick c)
      in (instant, c\<lparr>next_tick := saturating_add (next_tick c) 1, last_instant := instant\<rparr>))"

section \<open>State\<close>

record FreezeError =
  fe_code :: nat
  fe_reason :: string

definition WINDOW_FULL :: FreezeError where
  "WINDOW_FULL = \<lparr>fe_code = 925, fe_reason = ''mh_window_full''\<rparr>"

definition MERGE_INVALID :: FreezeError where
  "MERGE_INVALID = \<lparr>fe_code = 927, fe_reason = ''mh_merge_invalid''\<rparr>"

record HeadRecord =
  hr_we_epoch_id :: hash32
  hr_msphf_hp_commit :: hash32
  hr_seed_ctx_hash :: hash32
  hr_rho_commit :: hash32
  hr_seed_commit :: hash32
  hr_xk_hash :: hash32
  hr_join_delta_root :: hash32
  hr_revoked_since_root :: hash32
  hr_revoked_root :: hash32
  hr_accept_seq :: u64
  hr_accept_time :: AcceptInstant

type_synonym weid_map = "hash32 \<rightharpoonup> bytes"

record MultiHeadWindow =
  h_max :: nat
  ttl :: Duration
  heads :: "(bytes, HeadRecord list) btree"
  weid_index :: weid_map

definition DEFAULT_H_MAX :: nat where
  "DEFAULT_H_MAX = 16"

definition DEFAULT_T_WINDOW :: Duration where
  "DEFAULT_T_WINDOW = from_secs 120"

definition mhw_new :: "nat \<Rightarrow> Duration \<Rightarrow> MultiHeadWindow" where
  "mhw_new h t = \<lparr>h_max = h, ttl = t, heads = [], weid_index = (\<lambda>_. None)\<rparr>"

definition mhw_with_defaults :: MultiHeadWindow where
  "mhw_with_defaults = mhw_new DEFAULT_H_MAX DEFAULT_T_WINDOW"

section \<open>Operations\<close>

text \<open>\<open>entry(wid).or_default()\<close>: the heads of a window, none when it has no entry.\<close>
definition window :: "MultiHeadWindow \<Rightarrow> bytes \<Rightarrow> HeadRecord list" where
  "window w wid = (case bt_get (heads w) wid of None \<Rightarrow> [] | Some rs \<Rightarrow> rs)"

definition live :: "Duration \<Rightarrow> AcceptInstant \<Rightarrow> HeadRecord \<Rightarrow> bool" where
  "live t now r \<longleftrightarrow> dur_le (duration_since now (hr_accept_time r)) t"

text \<open>\<open>Vec::retain\<close> with the closure of \<open>prune\<close>, \<open>prune_all\<close> and \<open>accept_merge\<close>: records are visited in order, an
  expired one is dropped and its epoch identifier is removed from the index.\<close>
fun retain_live :: "Duration \<Rightarrow> AcceptInstant \<Rightarrow> HeadRecord list \<Rightarrow> weid_map \<Rightarrow> HeadRecord list \<times> weid_map" where
  "retain_live t now [] idx = ([], idx)"
| "retain_live t now (r # rs) idx =
     (if live t now r
      then (case retain_live t now rs idx of (rs', idx') \<Rightarrow> (r # rs', idx'))
      else retain_live t now rs (idx(hr_we_epoch_id r := None)))"

definition prune :: "MultiHeadWindow \<Rightarrow> bytes \<Rightarrow> AcceptInstant \<Rightarrow> MultiHeadWindow" where
  "prune w wid now =
     (case retain_live (ttl w) now (window w wid) (weid_index w) of (rs, idx) \<Rightarrow>
        w\<lparr>heads := bt_insert wid rs (heads w), weid_index := idx\<rparr>)"

definition push_head :: "MultiHeadWindow \<Rightarrow> bytes \<Rightarrow> HeadRecord \<Rightarrow> MultiHeadWindow" where
  "push_head w wid r =
     w\<lparr>heads := bt_insert wid (window w wid @ [r]) (heads w),
       weid_index := (weid_index w)(hr_we_epoch_id r := Some wid)\<rparr>"

definition accept_head ::
  "MultiHeadWindow \<Rightarrow> bytes \<Rightarrow> HeadRecord \<Rightarrow> AcceptInstant \<Rightarrow> (FreezeError + unit) \<times> MultiHeadWindow" where
  "accept_head w wid record now =
     (let record = record\<lparr>hr_accept_time := now\<rparr>;
          w = prune w wid now
      in if h_max w \<le> length (window w wid) then (Inl WINDOW_FULL, w)
         else (Inr (), push_head w wid record))"

fun is_sorted_unique_from :: "hash32 \<Rightarrow> hash32 list \<Rightarrow> bool" where
  "is_sorted_unique_from x [] = True"
| "is_sorted_unique_from x (y # ys) = (if y \<le> x then False else is_sorted_unique_from y ys)"

fun is_sorted_unique :: "hash32 list \<Rightarrow> bool" where
  "is_sorted_unique [] = False"
| "is_sorted_unique (x # xs) = is_sorted_unique_from x xs"

text \<open>\<open>iter().position(..)\<close> followed by \<open>remove(pos)\<close>: drop the first record with the identifier, if there is one.\<close>
fun take_head :: "hash32 \<Rightarrow> HeadRecord list \<Rightarrow> HeadRecord list option" where
  "take_head h [] = None"
| "take_head h (r # rs) =
     (if hr_we_epoch_id r = h then Some rs else map_option ((#) r) (take_head h rs))"

text \<open>The loop over \<open>mh_heads\<close>: the flag says whether it ran to its end.\<close>
fun retire_heads :: "hash32 list \<Rightarrow> HeadRecord list \<Rightarrow> weid_map \<Rightarrow> bool \<times> HeadRecord list \<times> weid_map" where
  "retire_heads [] rs idx = (True, rs, idx)"
| "retire_heads (h # hs) rs idx =
     (case take_head h rs of
        None \<Rightarrow> (False, rs, idx)
      | Some rs' \<Rightarrow> retire_heads hs rs' (idx(h := None)))"

text \<open>The block of \<open>accept_merge\<close> that looks the old window up and retires the listed heads from it, in place.\<close>
definition merge_retire :: "MultiHeadWindow \<Rightarrow> bytes \<Rightarrow> hash32 list \<Rightarrow> bool \<times> HeadRecord list \<times> MultiHeadWindow" where
  "merge_retire w wid_old mh_heads =
     (case bt_get (heads w) wid_old of
        None \<Rightarrow> (False, [], w)
      | Some entry_old \<Rightarrow>
        (case retire_heads mh_heads entry_old (weid_index w) of (finished, entry_old, idx) \<Rightarrow>
           (finished, entry_old, w\<lparr>heads := bt_insert wid_old entry_old (heads w), weid_index := idx\<rparr>)))"

text \<open>The rest of \<open>accept_merge\<close>: place the new head, dropping the old window when it has become empty.\<close>
definition merge_install ::
  "MultiHeadWindow \<Rightarrow> bytes \<Rightarrow> bytes \<Rightarrow> HeadRecord list \<Rightarrow> HeadRecord \<Rightarrow> AcceptInstant \<Rightarrow>
     (FreezeError + unit) \<times> MultiHeadWindow" where
  "merge_install w wid_old wid_new entry_old new_record now =
     (if wid_old = wid_new then
        (if h_max w \<le> length entry_old then (Inl WINDOW_FULL, w)
         else (Inr (), push_head w wid_old new_record))
      else
        let w = (if entry_old = [] then w\<lparr>heads := bt_remove wid_old (heads w)\<rparr> else w);
            w = prune w wid_new now
        in if h_max w \<le> length (window w wid_new) then (Inl WINDOW_FULL, w)
           else (Inr (), push_head w wid_new new_record))"

definition accept_merge ::
  "MultiHeadWindow \<Rightarrow> bytes \<Rightarrow> bytes \<Rightarrow> hash32 list \<Rightarrow> HeadRecord \<Rightarrow> AcceptInstant \<Rightarrow>
     (FreezeError + unit) \<times> MultiHeadWindow" where
  "accept_merge w wid_old wid_new mh_heads new_record now =
     (if \<not> is_sorted_unique mh_heads then (Inl MERGE_INVALID, w)
      else
        (case merge_retire (prune w wid_old now) wid_old mh_heads of (finished, entry_old, w) \<Rightarrow>
           if \<not> finished then (Inl MERGE_INVALID, w)
           else merge_install w wid_old wid_new entry_old (new_record\<lparr>hr_accept_time := now\<rparr>) now))"

definition active_heads :: "MultiHeadWindow \<Rightarrow> bytes \<Rightarrow> nat" where
  "active_heads w wid = (case bt_get (heads w) wid of None \<Rightarrow> 0 | Some rs \<Rightarrow> length rs)"

definition iter_heads :: "MultiHeadWindow \<Rightarrow> bytes \<Rightarrow> HeadRecord list" where
  "iter_heads w wid = (case bt_get (heads w) wid of None \<Rightarrow> [] | Some rs \<Rightarrow> rs)"

definition find_head :: "MultiHeadWindow \<Rightarrow> bytes \<Rightarrow> hash32 \<Rightarrow> HeadRecord option" where
  "find_head w wid weid =
     (case bt_get (heads w) wid of None \<Rightarrow> None | Some rs \<Rightarrow> find (\<lambda>r. hr_we_epoch_id r = weid) rs)"

definition find_head_window :: "MultiHeadWindow \<Rightarrow> hash32 \<Rightarrow> bytes option" where
  "find_head_window w weid = weid_index w weid"

definition set_h_max :: "MultiHeadWindow \<Rightarrow> nat \<Rightarrow> MultiHeadWindow" where
  "set_h_max w h = w\<lparr>h_max := h\<rparr>"

text \<open>\<open>BTreeMap::retain\<close> in key order, threading the index through the inner retains.\<close>
fun retain_windows ::
  "Duration \<Rightarrow> AcceptInstant \<Rightarrow> (bytes, HeadRecord list) btree \<Rightarrow> weid_map \<Rightarrow>
     (bytes, HeadRecord list) btree \<times> weid_map" where
  "retain_windows t now [] idx = ([], idx)"
| "retain_windows t now ((wid, rs) # m) idx =
     (case retain_live t now rs idx of (rs', idx') \<Rightarrow>
        case retain_windows t now m idx' of (m', idx'') \<Rightarrow>
          (if rs' = [] then m' else (wid, rs') # m', idx''))"

definition prune_all :: "MultiHeadWindow \<Rightarrow> AcceptInstant \<Rightarrow> MultiHeadWindow" where
  "prune_all w now =
     (case retain_windows (ttl w) now (heads w) (weid_index w) of (hs, idx) \<Rightarrow>
        w\<lparr>heads := hs, weid_index := idx\<rparr>)"

definition set_ttl :: "MultiHeadWindow \<Rightarrow> Duration \<Rightarrow> AcceptInstant \<Rightarrow> MultiHeadWindow" where
  "set_ttl w t now = prune_all (w\<lparr>ttl := t\<rparr>) now"

definition mhw_snapshot :: "MultiHeadWindow \<Rightarrow> (bytes \<times> HeadRecord list) list" where
  "mhw_snapshot w = heads w"

section \<open>Windows and index after each operation\<close>

named_theorems mhw_simps \<open>window contents and index after an operation\<close>

lemma window_set [mhw_simps]:
  "window (w\<lparr>heads := bt_insert k rs m\<rparr>) k' = (if k' = k then rs else window (w\<lparr>heads := m\<rparr>) k')"
  "window (w\<lparr>weid_index := i\<rparr>) k' = window w k'"
  "window (w\<lparr>heads := heads w\<rparr>) k' = window w k'"
  by (auto simp: window_def)

lemma window_remove [mhw_simps]:
  "bt_inv m \<Longrightarrow> window (w\<lparr>heads := bt_remove k m\<rparr>) k' = (if k' = k then [] else window (w\<lparr>heads := m\<rparr>) k')"
  by (auto simp: window_def)

definition dead_ids :: "Duration \<Rightarrow> AcceptInstant \<Rightarrow> HeadRecord list \<Rightarrow> hash32 set" where
  "dead_ids t now rs = hr_we_epoch_id ` {r \<in> set rs. \<not> live t now r}"

lemma retain_live_eq:
  "retain_live t now rs idx =
     (filter (live t now) rs, \<lambda>x. if x \<in> dead_ids t now rs then None else idx x)"
  by (induction rs arbitrary: idx) (auto simp: fun_eq_iff dead_ids_def)

definition expired :: "MultiHeadWindow \<Rightarrow> bytes \<Rightarrow> AcceptInstant \<Rightarrow> hash32 set" where
  "expired w wid now = dead_ids (ttl w) now (window w wid)"

lemma prune_simps [mhw_simps]:
  "window (prune w wid now) wid' =
     (if wid' = wid then filter (live (ttl w) now) (window w wid) else window w wid')"
  "weid_index (prune w wid now) x = (if x \<in> expired w wid now then None else weid_index w x)"
  "h_max (prune w wid now) = h_max w"
  "ttl (prune w wid now) = ttl w"
  "bt_inv (heads w) \<Longrightarrow> bt_inv (heads (prune w wid now))"
  "bt_get (heads (prune w wid now)) wid = Some (filter (live (ttl w) now) (window w wid))"
  by (auto simp: prune_def retain_live_eq window_def expired_def)

lemma push_head_simps [mhw_simps]:
  "window (push_head w wid r) wid' = (if wid' = wid then window w wid @ [r] else window w wid')"
  "weid_index (push_head w wid r) x = (if x = hr_we_epoch_id r then Some wid else weid_index w x)"
  "h_max (push_head w wid r) = h_max w"
  "ttl (push_head w wid r) = ttl w"
  "bt_inv (heads w) \<Longrightarrow> bt_inv (heads (push_head w wid r))"
  by (auto simp: push_head_def window_def)

lemma take_head_None: "take_head h rs = None \<longleftrightarrow> h \<notin> hr_we_epoch_id ` set rs"
  by (induction rs) auto

lemma take_head_SomeD:
  "take_head h rs = Some rs' \<Longrightarrow>
     set rs' \<subseteq> set rs \<and> h \<in> hr_we_epoch_id ` set rs \<and> length rs = Suc (length rs') \<and>
     filter (\<lambda>r. hr_we_epoch_id r \<noteq> h) rs' = filter (\<lambda>r. hr_we_epoch_id r \<noteq> h) rs"
  by (induction rs arbitrary: rs') (auto split: if_splits)

lemma take_head_other:
  assumes "take_head h rs = Some rs'" and "\<And>r. P r \<Longrightarrow> hr_we_epoch_id r \<noteq> h"
  shows "filter P rs' = filter P rs"
  using assms by (induction rs arbitrary: rs') (auto split: if_splits)

lemma take_head_members:
  "take_head h rs = Some rs' \<Longrightarrow> x \<noteq> h \<Longrightarrow> x \<in> hr_we_epoch_id ` set rs' \<longleftrightarrow> x \<in> hr_we_epoch_id ` set rs"
  by (induction rs arbitrary: rs') (auto split: if_splits)

lemma take_head_distinct:
  "take_head h rs = Some rs' \<Longrightarrow> distinct (map hr_we_epoch_id rs) \<Longrightarrow>
     rs' = filter (\<lambda>r. hr_we_epoch_id r \<noteq> h) rs"
proof (induction rs arbitrary: rs')
  case (Cons r rs)
  have "filter (\<lambda>r'. hr_we_epoch_id r' \<noteq> hr_we_epoch_id r) rs = rs"
    using Cons.prems(2) by (intro filter_True) (auto simp: in_image_conv)
  with Cons show ?case
    by (auto split: if_splits)
qed simp

lemma retire_heads_finished:
  "distinct hs \<Longrightarrow> fst (retire_heads hs rs idx) \<longleftrightarrow> set hs \<subseteq> hr_we_epoch_id ` set rs"
proof (induction hs arbitrary: rs idx)
  case (Cons h hs)
  show ?case
  proof (cases "take_head h rs")
    case None
    moreover from None have "h \<notin> hr_we_epoch_id ` set rs"
      by (simp only: take_head_None not_False_eq_True)
    ultimately show ?thesis by simp
  next
    case (Some rs')
    have "t \<in> hr_we_epoch_id ` set rs' \<longleftrightarrow> t \<in> hr_we_epoch_id ` set rs" if "t \<in> set hs" for t
      using that Cons.prems by (intro take_head_members [OF Some]) auto
    then have "set hs \<subseteq> hr_we_epoch_id ` set rs' \<longleftrightarrow> set hs \<subseteq> hr_we_epoch_id ` set rs"
      by (simp add: subset_iff)
    with Some Cons show ?thesis by (simp add: take_head_SomeD)
  qed
qed simp

lemma retire_heads_unchanged:
  "retire_heads hs rs idx = (f, rs', idx') \<Longrightarrow> idx' x = Some v \<Longrightarrow>
     idx x = Some v \<and> (x \<in> hr_we_epoch_id ` set rs' \<longleftrightarrow> x \<in> hr_we_epoch_id ` set rs)"
proof (induction hs arbitrary: rs idx)
  case (Cons h hs)
  show ?case
  proof (cases "take_head h rs")
    case None
    with Cons.prems show ?thesis by simp
  next
    case (Some rs1)
    with Cons.prems have *: "(idx(h := None)) x = Some v \<and>
        (x \<in> hr_we_epoch_id ` set rs' \<longleftrightarrow> x \<in> hr_we_epoch_id ` set rs1)"
      by (intro Cons.IH [of rs1 "idx(h := None)"]) (simp_all del: fun_upd_apply)
    then have "x \<noteq> h" by auto
    with * take_head_members [OF Some] show ?thesis by simp
  qed
qed simp

lemma retire_heads_subset: "retire_heads hs rs idx = (f, rs', idx') \<Longrightarrow> set rs' \<subseteq> set rs"
proof (induction hs arbitrary: rs idx)
  case (Cons h hs)
  then show ?case
    by (cases "take_head h rs") (fastforce dest: take_head_SomeD)+
qed simp

lemma retire_heads_result:
  assumes "retire_heads hs rs idx = (True, rs', idx')"
  shows "length rs = length hs + length rs'"
    and "idx' = (\<lambda>x. if x \<in> set hs then None else idx x)"
    and "distinct (map hr_we_epoch_id rs) \<Longrightarrow> rs' = filter (\<lambda>r. hr_we_epoch_id r \<notin> set hs) rs"
  using assms
proof (induction hs arbitrary: rs idx)
  case (Cons h hs)
  {
    case 1
    with Cons.IH(1) show ?case
      by (fastforce split: option.splits dest: take_head_SomeD)
  next
    case 2
    with Cons.IH(2) show ?case
      by (fastforce split: option.splits simp: fun_eq_iff)
  next
    case 3
    from 3(2) obtain rs1 where rs1: "take_head h rs = Some rs1"
      and rest: "retire_heads hs rs1 (idx(h := None)) = (True, rs', idx')"
      by (auto split: option.splits)
    have "rs1 = filter (\<lambda>r. hr_we_epoch_id r \<noteq> h) rs"
      using take_head_distinct [OF rs1 3(1)] .
    moreover have "distinct (map hr_we_epoch_id rs1)"
      using 3(1) by (simp add: calculation distinct_map_filter)
    ultimately show ?case
      using Cons.IH(3) [OF _ rest] by (auto intro: filter_cong)
  }
qed auto

lemma retire_heads_all:
  "retire_heads hs rs idx = (True, rs', idx') \<Longrightarrow> h \<in> set hs \<Longrightarrow> h \<in> hr_we_epoch_id ` set rs"
proof (induction hs arbitrary: rs idx)
  case (Cons h' hs)
  then show ?case
    by (cases "take_head h' rs") (fastforce dest: take_head_SomeD)+
qed simp

lemma is_sorted_unique_from_iff: "is_sorted_unique_from x xs \<longleftrightarrow> sorted_wrt (<) (x # xs)"
  by (induction x xs rule: is_sorted_unique_from.induct) auto

lemma is_sorted_unique_iff: "is_sorted_unique xs \<longleftrightarrow> xs \<noteq> [] \<and> sorted_wrt (<) xs"
  by (cases xs) (simp_all add: is_sorted_unique_from_iff)

lemma is_sorted_unique_distinct: "is_sorted_unique xs \<Longrightarrow> distinct xs"
  by (simp add: is_sorted_unique_iff strict_sorted_iff)

lemma retain_windows_Cons:
  "retain_windows t now ((wid, rs) # m) idx =
     (let (m', idx') = retain_windows t now m (\<lambda>x. if x \<in> dead_ids t now rs then None else idx x)
      in (if filter (live t now) rs = [] then m' else (wid, filter (live t now) rs) # m', idx'))"
  by (simp add: retain_live_eq split: prod.splits)

lemma retain_windows_index:
  "snd (retain_windows t now m idx) x =
     (if \<exists>kv \<in> set m. x \<in> dead_ids t now (snd kv) then None else idx x)"
proof (induction m arbitrary: idx)
  case (Cons kv m)
  then show ?case
    by (cases kv) (auto simp: retain_windows_Cons case_prod_beta Let_def simp del: retain_windows.simps)
qed simp

lemma retain_windows_keys: "fst ` set (fst (retain_windows t now m idx)) \<subseteq> fst ` set m"
proof (induction m arbitrary: idx)
  case (Cons kv m)
  then show ?case
    by (cases kv) (simp add: retain_windows_Cons case_prod_beta Let_def subset_insertI2 del: retain_windows.simps)
qed simp

lemma retain_windows_inv: "bt_inv m \<Longrightarrow> bt_inv (fst (retain_windows t now m idx))"
proof (induction m arbitrary: idx)
  case (Cons kv m)
  obtain wid rs where kv: "kv = (wid, rs)" by fastforce
  have "wid < k" if "k \<in> fst ` set (fst (retain_windows t now m idx))" for k idx
    using that Cons.prems retain_windows_keys kv by fastforce
  with Cons kv show ?case
    by (simp add: retain_windows_Cons case_prod_beta Let_def del: retain_windows.simps)
qed simp

lemma retain_windows_get:
  "bt_inv m \<Longrightarrow> bt_get (fst (retain_windows t now m idx)) wid =
     (case bt_get m wid of
        None \<Rightarrow> None
      | Some rs \<Rightarrow> if filter (live t now) rs = [] then None else Some (filter (live t now) rs))"
proof (induction m arbitrary: idx)
  case (Cons kv m)
  obtain wid' rs where kv: "kv = (wid', rs)" by fastforce
  have "bt_get m wid' = None"
    using Cons.prems kv by (intro bt_get_below) auto
  with Cons kv show ?case
    by (cases "wid = wid'") (simp_all add: retain_windows_Cons case_prod_beta Let_def del: retain_windows.simps)
qed simp

lemma window_entries:
  assumes "bt_inv (heads w)" and "\<not> P []"
  shows "(\<exists>kv \<in> set (heads w). P (snd kv)) \<longleftrightarrow> (\<exists>wid. P (window w wid))"
proof
  assume "\<exists>kv \<in> set (heads w). P (snd kv)"
  then obtain wid rs where "(wid, rs) \<in> set (heads w)" "P rs" by auto
  moreover from this(1) have "window w wid = rs"
    using assms(1) by (simp add: window_def bt.get_entries [THEN iffD2])
  ultimately show "\<exists>wid. P (window w wid)" by blast
next
  assume "\<exists>wid. P (window w wid)"
  then obtain wid where "P (window w wid)" by blast
  moreover from this obtain rs where "bt_get (heads w) wid = Some rs"
    using assms(2) by (cases "bt_get (heads w) wid") (auto simp: window_def)
  ultimately show "\<exists>kv \<in> set (heads w). P (snd kv)"
    by (intro bexI [of _ "(wid, rs)"]) (auto simp: window_def dest: map_of_SomeD)
qed

lemma prune_all_simps [mhw_simps]:
  "bt_inv (heads w) \<Longrightarrow> window (prune_all w now) wid = filter (live (ttl w) now) (window w wid)"
  "bt_inv (heads w) \<Longrightarrow> weid_index (prune_all w now) x = (if \<exists>wid. x \<in> expired w wid now then None else weid_index w x)"
  "h_max (prune_all w now) = h_max w"
  "ttl (prune_all w now) = ttl w"
  "bt_inv (heads w) \<Longrightarrow> bt_inv (heads (prune_all w now))"
proof -
  obtain hs idx where p: "retain_windows (ttl w) now (heads w) (weid_index w) = (hs, idx)"
    by fastforce
  have eq: "prune_all w now = w\<lparr>heads := hs, weid_index := idx\<rparr>"
    by (simp add: prune_all_def p)
  show "h_max (prune_all w now) = h_max w" "ttl (prune_all w now) = ttl w"
    by (simp_all add: eq)
  assume inv: "bt_inv (heads w)"
  show "bt_inv (heads (prune_all w now))"
    using retain_windows_inv [OF inv, of "ttl w" now "weid_index w"] by (simp add: eq p)
  show "window (prune_all w now) wid = filter (live (ttl w) now) (window w wid)"
    using retain_windows_get [OF inv, of "ttl w" now "weid_index w" wid]
    by (simp add: eq p window_def split: option.splits if_splits)
  have "(\<exists>kv \<in> set (heads w). x \<in> dead_ids (ttl w) now (snd kv)) \<longleftrightarrow> (\<exists>wid. x \<in> expired w wid now)"
    using inv window_entries [of w "\<lambda>rs. x \<in> dead_ids (ttl w) now rs"]
    by (simp add: expired_def dead_ids_def)
  then show "weid_index (prune_all w now) x = (if \<exists>wid. x \<in> expired w wid now then None else weid_index w x)"
    using retain_windows_index [of "ttl w" now "heads w" "weid_index w" x] by (simp add: eq p)
qed

lemma find_head_window_eq: "find_head w wid x = find (\<lambda>r. hr_we_epoch_id r = x) (window w wid)"
  by (simp add: find_head_def window_def split: option.splits)

lemma find_head_exists: "(\<exists>r. find_head w wid x = Some r) \<longleftrightarrow> x \<in> hr_we_epoch_id ` set (window w wid)"
  using find_None_iff [of "\<lambda>r. hr_we_epoch_id r = x" "window w wid"]
  by (cases "find_head w wid x") (auto simp: find_head_window_eq in_image_conv)

section \<open>The index invariant\<close>

definition index_sound :: "MultiHeadWindow \<Rightarrow> bool" where
  "index_sound w \<longleftrightarrow> (\<forall>x wid. weid_index w x = Some wid \<longrightarrow> x \<in> hr_we_epoch_id ` set (window w wid))"

definition mhw_inv :: "MultiHeadWindow \<Rightarrow> bool" where
  "mhw_inv w \<longleftrightarrow> bt_inv (heads w) \<and> index_sound w"

lemma live_filter_image:
  "x \<in> hr_we_epoch_id ` set (window w wid) \<Longrightarrow> x \<notin> expired w wid now \<Longrightarrow>
     x \<in> hr_we_epoch_id ` set (filter (live (ttl w) now) (window w wid))"
  by (auto simp: expired_def dead_ids_def in_image_conv)

lemma mhw_inv_new: "mhw_inv (mhw_new h t)"
  by (simp add: mhw_inv_def index_sound_def mhw_new_def)

lemma mhw_inv_prune: "mhw_inv w \<Longrightarrow> mhw_inv (prune w wid now)"
  using live_filter_image by (auto simp: mhw_inv_def index_sound_def mhw_simps)

lemma mhw_inv_push: "mhw_inv w \<Longrightarrow> mhw_inv (push_head w wid r)"
  by (auto simp: mhw_inv_def index_sound_def mhw_simps)

lemma mhw_inv_prune_all: "mhw_inv w \<Longrightarrow> mhw_inv (prune_all w now)"
  using live_filter_image by (fastforce simp: mhw_inv_def index_sound_def mhw_simps split: if_splits)

lemma mhw_inv_drop_empty:
  assumes "mhw_inv w" and "window w wid = []"
  shows "mhw_inv (w\<lparr>heads := bt_remove wid (heads w)\<rparr>)"
  using assms by (force simp: mhw_inv_def index_sound_def mhw_simps)

lemmas mhw_inv_intros = mhw_inv_new mhw_inv_prune mhw_inv_push mhw_inv_prune_all mhw_inv_drop_empty

lemma mhw_inv_merge_retire:
  assumes "mhw_inv w" and "merge_retire w wid hs = (f, rs, w')"
  shows "mhw_inv w'"
proof (cases "bt_get (heads w) wid")
  case None
  with assms show ?thesis by (simp add: merge_retire_def)
next
  case (Some rs0)
  then have win: "window w wid = rs0"
    by (simp add: window_def)
  from Some assms(2) obtain idx where ret: "retire_heads hs rs0 (weid_index w) = (f, rs, idx)"
    and w': "w' = w\<lparr>heads := bt_insert wid rs (heads w), weid_index := idx\<rparr>"
    by (auto simp: merge_retire_def split: prod.splits)
  show ?thesis
    using assms(1) retire_heads_unchanged [OF ret] win
    by (auto simp: w' mhw_inv_def index_sound_def mhw_simps)
qed

lemma merge_retire_window:
  "merge_retire w wid hs = (True, rs, w') \<Longrightarrow> window w' wid = rs"
  by (auto simp: merge_retire_def mhw_simps split: option.splits prod.splits)

lemma mhw_inv_merge_install:
  "mhw_inv w \<Longrightarrow> window w wid_old = rs \<Longrightarrow> mhw_inv (snd (merge_install w wid_old wid_new rs r now))"
  by (simp add: merge_install_def Let_def mhw_inv_intros)

lemma mhw_inv_accept_head: "mhw_inv w \<Longrightarrow> mhw_inv (snd (accept_head w wid r now))"
  by (simp add: accept_head_def Let_def mhw_inv_intros)

lemma mhw_inv_accept_merge:
  assumes "mhw_inv w"
  shows "mhw_inv (snd (accept_merge w wid_old wid_new hs r now))"
proof -
  obtain f rs w' where ret: "merge_retire (prune w wid_old now) wid_old hs = (f, rs, w')"
    using prod_cases3 by blast
  have inv: "mhw_inv w'"
    using mhw_inv_merge_retire [OF mhw_inv_prune [OF assms] ret] .
  show ?thesis
    using assms inv mhw_inv_merge_install [OF inv merge_retire_window] ret
    by (cases f) (simp_all add: accept_merge_def)
qed

section \<open>The window as a state machine\<close>

inductive mhw_step :: "MultiHeadWindow \<Rightarrow> MultiHeadWindow \<Rightarrow> bool" where
  head: "mhw_step w (snd (accept_head w wid r now))"
| merge: "mhw_step w (snd (accept_merge w wid_old wid_new hs r now))"
| prune_all: "mhw_step w (prune_all w now)"
| set_ttl: "mhw_step w (set_ttl w t now)"
| set_h_max: "mhw_step w (set_h_max w h)"

inductive mhw_reachable :: "MultiHeadWindow \<Rightarrow> bool" where
  new: "mhw_reachable (mhw_new h t)"
| step: "mhw_reachable w \<Longrightarrow> mhw_step w w' \<Longrightarrow> mhw_reachable w'"

inductive_cases mhw_stepE: "mhw_step w w'"

lemma mhw_inv_step: "mhw_step w w' \<Longrightarrow> mhw_inv w \<Longrightarrow> mhw_inv w'"
proof (induction rule: mhw_step.induct)
  case (set_ttl w t now)
  then have "mhw_inv (w\<lparr>ttl := t\<rparr>)"
    by (simp add: mhw_inv_def index_sound_def window_def)
  then show ?case
    by (simp add: set_ttl_def mhw_inv_prune_all)
next
  case (set_h_max w h)
  then show ?case
    by (simp add: set_h_max_def mhw_inv_def index_sound_def window_def)
qed (simp_all add: mhw_inv_accept_head mhw_inv_accept_merge mhw_inv_prune_all)

lemma mhw_inv_reachable: "mhw_reachable w \<Longrightarrow> mhw_inv w"
  by (induction rule: mhw_reachable.induct) (auto intro: mhw_inv_new mhw_inv_step)

definition windows_bounded :: "MultiHeadWindow \<Rightarrow> bool" where
  "windows_bounded w \<longleftrightarrow> (\<forall>wid. length (window w wid) \<le> h_max w)"

section \<open>What a merge decides and leaves\<close>

abbreviation live_heads :: "MultiHeadWindow \<Rightarrow> bytes \<Rightarrow> AcceptInstant \<Rightarrow> HeadRecord list" where
  "live_heads w wid now \<equiv> filter (live (ttl w) now) (window w wid)"

lemma merge_retire_pruned:
  assumes "distinct hs" and "merge_retire (prune w wid now) wid hs = (f, rs, w')"
  shows "f \<longleftrightarrow> set hs \<subseteq> hr_we_epoch_id ` set (live_heads w wid now)"
    and "h_max w' = h_max w" "ttl w' = ttl w"
    and "bt_inv (heads w) \<Longrightarrow> bt_inv (heads w')"
    and "window w' wid' = (if wid' = wid then rs else window w wid')"
    and "f \<Longrightarrow> length (live_heads w wid now) = length hs + length rs"
    and "f \<Longrightarrow> distinct (map hr_we_epoch_id (window w wid)) \<Longrightarrow>
           rs = filter (\<lambda>r. hr_we_epoch_id r \<notin> set hs) (live_heads w wid now)"
    and "f \<Longrightarrow> weid_index w' x = (if x \<in> set hs \<or> x \<in> expired w wid now then None else weid_index w x)"
proof -
  obtain idx where ret: "retire_heads hs (live_heads w wid now) (weid_index (prune w wid now)) = (f, rs, idx)"
    and w': "w' = (prune w wid now)\<lparr>heads := bt_insert wid rs (heads (prune w wid now)), weid_index := idx\<rparr>"
    using assms(2) by (auto simp: merge_retire_def mhw_simps split: prod.splits)
  show "f \<longleftrightarrow> set hs \<subseteq> hr_we_epoch_id ` set (live_heads w wid now)"
    using retire_heads_finished [OF assms(1), of "live_heads w wid now" "weid_index (prune w wid now)"] ret by simp
  show "h_max w' = h_max w" "ttl w' = ttl w" "bt_inv (heads w) \<Longrightarrow> bt_inv (heads w')"
    "window w' wid' = (if wid' = wid then rs else window w wid')"
    by (simp_all add: w' mhw_simps)
  assume f
  with ret have ret': "retire_heads hs (live_heads w wid now) (weid_index (prune w wid now)) = (True, rs, idx)"
    by simp
  show "length (live_heads w wid now) = length hs + length rs"
    by (rule retire_heads_result(1) [OF ret'])
  show "rs = filter (\<lambda>r. hr_we_epoch_id r \<notin> set hs) (live_heads w wid now)"
    if "distinct (map hr_we_epoch_id (window w wid))"
    by (rule retire_heads_result(3) [OF ret']) (simp add: that distinct_map_filter)
  show "weid_index w' x = (if x \<in> set hs \<or> x \<in> expired w wid now then None else weid_index w x)"
    by (simp add: w' retire_heads_result(2) [OF ret'] mhw_simps)
qed

lemma retire_heads_length: "retire_heads hs rs idx = (f, rs', idx') \<Longrightarrow> length rs' \<le> length rs"
proof (induction hs arbitrary: rs idx)
  case (Cons h hs)
  then show ?case
    by (cases "take_head h rs") (fastforce dest: take_head_SomeD)+
qed simp

lemma merge_retire_length:
  "merge_retire (prune w wid now) wid hs = (f, rs, w') \<Longrightarrow> length rs \<le> length (window w wid)"
  using le_trans [OF retire_heads_length length_filter_le]
  by (fastforce simp: merge_retire_def mhw_simps split: prod.splits)

lemma merge_install_simps:
  assumes "bt_inv (heads w)" and "window w old = rs" and "merge_install w old new rs r now = (res, w')"
  shows "res = (if h_max w \<le> length (if old = new then rs else live_heads w new now) then Inl WINDOW_FULL else Inr ())"
    and "h_max w' = h_max w" "ttl w' = ttl w" "bt_inv (heads w')"
    and "res = Inr () \<Longrightarrow> window w' wid =
           (if wid = new then (if old = new then rs else live_heads w new now) @ [r] else window w wid)"
    and "res \<noteq> Inr () \<Longrightarrow> window w' wid = (if wid = new \<and> old \<noteq> new then live_heads w new now else window w wid)"
    and "res = Inr () \<Longrightarrow> weid_index w' x =
           (if x = hr_we_epoch_id r then Some new
            else if old \<noteq> new \<and> x \<in> expired w new now then None else weid_index w x)"
  using assms by (auto simp: merge_install_def Let_def mhw_simps expired_def split: if_splits)

lemma bounded_window: "windows_bounded w \<Longrightarrow> length (window w wid) \<le> h_max w"
  by (simp add: windows_bounded_def)

lemma bounded_filter: "windows_bounded w \<Longrightarrow> length (filter P (window w wid)) \<le> h_max w"
  by (rule le_trans [OF length_filter_le bounded_window])

lemma bounded_accept_head:
  "windows_bounded w \<Longrightarrow> windows_bounded (snd (accept_head w wid r now))"
  by (simp add: accept_head_def Let_def windows_bounded_def [of "prune w wid now"]
      windows_bounded_def [of "push_head v wid q" for v q] mhw_simps bounded_filter bounded_window)

lemma bounded_accept_merge:
  assumes "bt_inv (heads w)" and "windows_bounded w"
  shows "windows_bounded (snd (accept_merge w old new hs r now))"
proof (cases "is_sorted_unique hs")
  case True
  obtain f rs w1 where ret: "merge_retire (prune w old now) old hs = (f, rs, w1)"
    using prod_cases3 by blast
  note w1 = merge_retire_pruned(2-5) [OF is_sorted_unique_distinct [OF True] ret]
  have b1: "windows_bounded w1"
    using assms(2) le_trans [OF merge_retire_length [OF ret]] by (auto simp: windows_bounded_def w1)
  have "windows_bounded (snd (merge_install w1 old new rs q now))" for q
  proof -
    obtain res w2 where ins: "merge_install w1 old new rs q now = (res, w2)" by fastforce
    have "window w1 old = rs" by (simp add: w1)
    note w2 = merge_install_simps [OF w1(3) [OF assms(1)] this ins]
    have len: "length rs \<le> h_max w1" "length (live_heads w1 wid now) \<le> h_max w1" for wid
      using bounded_window [OF b1, of old] bounded_filter [OF b1] \<open>window w1 old = rs\<close> by auto
    show ?thesis
      using b1 len w2(1,2,5,6) ins by (cases "res = Inr ()") (auto simp: windows_bounded_def split: if_splits)
  qed
  with True b1 ret show ?thesis
    by (simp add: accept_merge_def)
qed (simp add: accept_merge_def assms)

lemma merge_refused:
  "fst (accept_merge w old new hs r now) = Inl MERGE_INVALID \<longleftrightarrow>
     \<not> is_sorted_unique hs \<or> \<not> set hs \<subseteq> hr_we_epoch_id ` set (live_heads w old now)"
proof (cases "is_sorted_unique hs")
  case True
  obtain f rs w' where ret: "merge_retire (prune w old now) old hs = (f, rs, w')"
    using prod_cases3 by blast
  have "fst (merge_install w' old new rs q now) \<noteq> Inl MERGE_INVALID" for q
    by (simp add: merge_install_def Let_def WINDOW_FULL_def MERGE_INVALID_def)
  then show ?thesis
    using True merge_retire_pruned(1) [OF is_sorted_unique_distinct [OF True] ret]
    by (cases f) (simp_all add: accept_merge_def ret)
qed (simp add: accept_merge_def)

section \<open>The exact index\<close>

text \<open>When no epoch identifier is accepted twice, the index is exactly the relation that holds of a head and its
  window: the abstract specification that \<open>find_head_window\<close> refines.\<close>
definition holds :: "MultiHeadWindow \<Rightarrow> bytes \<Rightarrow> hash32 \<Rightarrow> bool" where
  "holds w wid x \<longleftrightarrow> x \<in> hr_we_epoch_id ` set (window w wid)"

definition index_exact :: "MultiHeadWindow \<Rightarrow> bool" where
  "index_exact w \<longleftrightarrow> bt_inv (heads w) \<and>
     (\<forall>x wid. weid_index w x = Some wid \<longleftrightarrow> holds w wid x) \<and>
     (\<forall>wid. distinct (map hr_we_epoch_id (window w wid)))"

lemma index_exactD:
  assumes "index_exact w"
  shows "bt_inv (heads w)" "weid_index w x = Some wid \<longleftrightarrow> holds w wid x"
    "distinct (map hr_we_epoch_id (window w wid))"
  using assms by (auto simp: index_exact_def)

lemma holds_unique: "index_exact w \<Longrightarrow> holds w wid x \<Longrightarrow> holds w wid' x \<Longrightarrow> wid = wid'"
  by (metis index_exactD(2) option.inject)

lemma holds_filter:
  "distinct (map hr_we_epoch_id rs) \<Longrightarrow>
     x \<in> hr_we_epoch_id ` set (filter P rs) \<longleftrightarrow>
     x \<in> hr_we_epoch_id ` set rs \<and> x \<notin> hr_we_epoch_id ` {r \<in> set rs. \<not> P r}"
  by (auto simp: distinct_map inj_on_def)

lemma expired_holds: "x \<in> expired w wid now \<Longrightarrow> holds w wid x"
  by (auto simp: expired_def dead_ids_def holds_def)

lemma holds_live:
  "index_exact w \<Longrightarrow> x \<in> hr_we_epoch_id ` set (live_heads w wid now) \<longleftrightarrow> holds w wid x \<and> x \<notin> expired w wid now"
  using holds_filter [OF index_exactD(3)] by (simp add: holds_def expired_def dead_ids_def del: set_filter)

text \<open>A state whose windows and index are those of an exact state after removing the identifiers \<open>D\<close> is exact.\<close>
lemma exact_shrink:
  assumes "index_exact w" and "bt_inv (heads w')"
    and "\<And>wid. \<exists>P. window w' wid = filter P (window w wid)"
    and "\<And>wid x. holds w' wid x \<longleftrightarrow> holds w wid x \<and> x \<notin> D"
    and "\<And>x. weid_index w' x = (if x \<in> D then None else weid_index w x)"
  shows "index_exact w'"
proof -
  have "distinct (map hr_we_epoch_id (window w' wid))" for wid
    using assms(3) [of wid] index_exactD(3) [OF assms(1)] by (auto simp: distinct_map_filter)
  then show ?thesis
    using assms(2,4,5) index_exactD(2) [OF assms(1)] by (auto simp: index_exact_def)
qed

lemma exact_prune:
  assumes "index_exact w"
  shows "index_exact (prune w wid now)"
proof (rule exact_shrink [OF assms, where D = "expired w wid now"])
  show "\<exists>P. window (prune w wid now) wid' = filter P (window w wid')" for wid'
    by (cases "wid' = wid") (auto simp: mhw_simps intro: exI [of _ "\<lambda>_. True"])
  show "holds (prune w wid now) wid' x \<longleftrightarrow> holds w wid' x \<and> x \<notin> expired w wid now" for wid' x
    using holds_live [OF assms, of x now wid] holds_unique [OF assms] expired_holds [of x w wid now]
    by (cases "wid' = wid") (auto simp: holds_def mhw_simps simp del: set_filter)
qed (auto simp: mhw_simps index_exactD [OF assms])

lemma exact_prune_all:
  assumes "index_exact w"
  shows "index_exact (prune_all w now)"
proof (rule exact_shrink [OF assms, where D = "{x. \<exists>wid. x \<in> expired w wid now}"])
  show "holds (prune_all w now) wid x \<longleftrightarrow> holds w wid x \<and> x \<notin> {x. \<exists>wid. x \<in> expired w wid now}" for wid x
    using holds_live [OF assms, of x now wid] holds_unique [OF assms] expired_holds [of x w _ now]
      index_exactD(1) [OF assms]
    by (auto simp: holds_def [of "prune_all w now"] mhw_simps simp del: set_filter)
qed (auto simp: mhw_simps index_exactD [OF assms])

lemma exact_push:
  assumes "index_exact w" and "weid_index w (hr_we_epoch_id r) = None"
  shows "index_exact (push_head w wid r)"
proof -
  have "\<not> holds w wid' (hr_we_epoch_id r)" for wid'
    using assms index_exactD(2) [OF assms(1), of "hr_we_epoch_id r" wid'] by simp
  then show ?thesis
    using assms(1) by (auto simp: index_exact_def holds_def mhw_simps)
qed

lemma exact_accept_head:
  "index_exact w \<Longrightarrow> weid_index w (hr_we_epoch_id r) = None \<Longrightarrow> index_exact (snd (accept_head w wid r now))"
  by (auto simp: accept_head_def Let_def mhw_simps intro!: exact_push exact_prune)

lemma retire_heads_prefix:
  "retire_heads hs rs idx = (f, rs', idx') \<Longrightarrow>
     \<exists>ps qs. hs = ps @ qs \<and> retire_heads ps rs idx = (True, rs', idx')"
proof (induction hs arbitrary: rs idx)
  case (Cons h hs)
  show ?case
  proof (cases "take_head h rs")
    case None
    with Cons.prems show ?thesis by (intro exI [of _ "[]"] exI [of _ "h # hs"]) simp
  next
    case (Some rs1)
    with Cons.prems Cons.IH [of rs1 "idx(h := None)"] obtain ps qs
      where "hs = ps @ qs" "retire_heads ps rs1 (idx(h := None)) = (True, rs', idx')"
      by (auto simp del: fun_upd_apply)
    with Some show ?thesis by (intro exI [of _ "h # ps"] exI [of _ qs]) simp
  qed
qed simp

lemma exact_merge_retire:
  assumes "index_exact w" and "merge_retire w wid hs = (f, rs, w')"
  shows "index_exact w'"
proof (cases "bt_get (heads w) wid")
  case None
  with assms show ?thesis by (simp add: merge_retire_def)
next
  case (Some rs0)
  then have win: "window w wid = rs0"
    by (simp add: window_def)
  from Some assms(2) obtain idx where ret: "retire_heads hs rs0 (weid_index w) = (f, rs, idx)"
    and w': "w' = w\<lparr>heads := bt_insert wid rs (heads w), weid_index := idx\<rparr>"
    by (auto simp: merge_retire_def split: prod.splits)
  from retire_heads_prefix [OF ret] obtain ps where ps: "retire_heads ps rs0 (weid_index w) = (True, rs, idx)"
    by blast
  note res = retire_heads_result(2,3) [OF ps]
  have rs: "rs = filter (\<lambda>r. hr_we_epoch_id r \<notin> set ps) (window w wid)"
    using res(2) index_exactD(3) [OF assms(1), of wid] win by simp
  have sub: "x \<in> set ps \<Longrightarrow> holds w wid x" for x
    using ps win by (auto simp: holds_def dest: retire_heads_all)
  show ?thesis
  proof (rule exact_shrink [OF assms(1), where D = "set ps"])
    show "\<exists>P. window w' wid' = filter P (window w wid')" for wid'
      by (cases "wid' = wid") (auto simp: w' rs mhw_simps intro: exI [of _ "\<lambda>_. True"])
    show "holds w' wid' x \<longleftrightarrow> holds w wid' x \<and> x \<notin> set ps" for wid' x
      using sub [of x] holds_unique [OF assms(1)] by (cases "wid' = wid") (auto simp: holds_def w' rs mhw_simps)
  qed (auto simp: w' res(1) index_exactD [OF assms(1)])
qed

lemma exact_merge_install:
  assumes "index_exact w" and "window w wid_old = rs" and "weid_index w (hr_we_epoch_id r) = None"
  shows "index_exact (snd (merge_install w wid_old wid_new rs r now))"
proof -
  define w1 where "w1 = (if rs = [] then w\<lparr>heads := bt_remove wid_old (heads w)\<rparr> else w)"
  have win: "window w1 wid = window w wid" for wid
    using assms(1,2) by (auto simp: w1_def index_exact_def mhw_simps)
  have "index_exact w1"
    using assms(1) win by (auto simp: index_exact_def holds_def w1_def)
  moreover have "weid_index w1 = weid_index w"
    by (simp add: w1_def)
  ultimately show ?thesis
    using assms by (auto simp: merge_install_def Let_def w1_def [symmetric] mhw_simps intro!: exact_push exact_prune)
qed

lemma exact_accept_merge:
  assumes "index_exact w" and "weid_index w (hr_we_epoch_id r) = None"
  shows "index_exact (snd (accept_merge w old new hs r now))"
proof -
  obtain f rs w' where ret: "merge_retire (prune w old now) old hs = (f, rs, w')"
    using prod_cases3 by blast
  have exact: "index_exact w'"
    using exact_merge_retire [OF exact_prune [OF assms(1)] ret] .
  have "weid_index w' (hr_we_epoch_id r) = None" if "f" "is_sorted_unique hs"
    using merge_retire_pruned(8) [OF is_sorted_unique_distinct [OF that(2)] ret that(1)] assms(2) by simp
  then show ?thesis
    using assms exact exact_merge_install [OF exact merge_retire_window] ret
    by (cases f) (simp_all add: accept_merge_def)
qed

text \<open>Runs in which no epoch identifier that the index already knows is offered again.\<close>
inductive mhw_fresh_run :: "MultiHeadWindow \<Rightarrow> bool" where
  new: "mhw_fresh_run (mhw_new h t)"
| head: "mhw_fresh_run w \<Longrightarrow> find_head_window w (hr_we_epoch_id r) = None \<Longrightarrow>
    mhw_fresh_run (snd (accept_head w wid r now))"
| merge: "mhw_fresh_run w \<Longrightarrow> find_head_window w (hr_we_epoch_id r) = None \<Longrightarrow>
    mhw_fresh_run (snd (accept_merge w wid_old wid_new hs r now))"
| prune_all: "mhw_fresh_run w \<Longrightarrow> mhw_fresh_run (prune_all w now)"
| set_ttl: "mhw_fresh_run w \<Longrightarrow> mhw_fresh_run (set_ttl w t now)"
| set_h_max: "mhw_fresh_run w \<Longrightarrow> mhw_fresh_run (set_h_max w h)"

lemma exact_limits: "index_exact w \<Longrightarrow> index_exact (w\<lparr>ttl := t\<rparr>)" "index_exact w \<Longrightarrow> index_exact (w\<lparr>h_max := h\<rparr>)"
  by (simp_all add: index_exact_def holds_def window_def)

lemma exact_fresh_run: "mhw_fresh_run w \<Longrightarrow> index_exact w"
proof (induction rule: mhw_fresh_run.induct)
  case (new h t)
  then show ?case
    by (simp add: index_exact_def holds_def window_def mhw_new_def)
qed (simp_all add: exact_accept_head exact_accept_merge find_head_window_def exact_prune_all exact_limits
    set_ttl_def set_h_max_def)

section \<open>Properties\<close>

text \<open>In every window state reachable from a fresh one through heads, merges, pruning and changes of the
  limits, the reverse index is sound: if \<open>find_head_window\<close> answers with a window, that window holds a head with
  the epoch identifier that was asked for.\<close>
theorem find_head_window_sound:
  assumes "mhw_reachable w" and "find_head_window w weid = Some wid"
  shows "\<exists>r. find_head w wid weid = Some r \<and> hr_we_epoch_id r = weid"
proof -
  have "weid \<in> hr_we_epoch_id ` set (window w wid)"
    using mhw_inv_reachable [OF assms(1)] assms(2)
    by (auto simp: mhw_inv_def index_sound_def find_head_window_def)
  then obtain r where "find_head w wid weid = Some r"
    using find_head_exists by blast
  then show ?thesis
    by (auto simp: find_head_window_eq find_Some_iff)
qed

text \<open>The answer of \<open>accept_merge\<close> in full.  It is \<open>MERGE_INVALID\<close> exactly when the list of heads is not strictly
  ascending (the empty list included) or names a head that is not live in the old window; otherwise it is
  \<open>WINDOW_FULL\<close> exactly when the heads that stay in the receiving window fill it; otherwise the merge is accepted.\<close>
theorem accept_merge_result:
  assumes "bt_inv (heads w)"
  shows "fst (accept_merge w old new hs r now) =
    (if \<not> is_sorted_unique hs \<or> \<not> set hs \<subseteq> hr_we_epoch_id ` set (live_heads w old now) then Inl MERGE_INVALID
     else if h_max w \<le> (if old = new then length (live_heads w old now) - length hs else length (live_heads w new now))
     then Inl WINDOW_FULL else Inr ())"
proof (cases "fst (accept_merge w old new hs r now) = Inl MERGE_INVALID")
  case False
  then have sorted: "is_sorted_unique hs" and sub: "set hs \<subseteq> hr_we_epoch_id ` set (live_heads w old now)"
    by (simp_all add: merge_refused)
  obtain f rs w1 where ret: "merge_retire (prune w old now) old hs = (f, rs, w1)"
    using prod_cases3 by blast
  note w1 = merge_retire_pruned [OF is_sorted_unique_distinct [OF sorted] ret]
  have f using w1(1) sub by simp
  obtain res w2 where ins: "merge_install w1 old new rs (r\<lparr>hr_accept_time := now\<rparr>) now = (res, w2)"
    by fastforce
  have "res = (if h_max w \<le> length (if old = new then rs else live_heads w new now) then Inl WINDOW_FULL else Inr ())"
    using merge_install_simps(1) [OF w1(4) [OF assms] _ ins] w1(2,3,5) by simp
  then show ?thesis
    using sorted sub w1(6) [OF \<open>f\<close>] \<open>f\<close> ret ins by (cases "old = new") (simp_all add: accept_merge_def)
qed (simp add: merge_refused)

text \<open>An accepted merge retires the listed heads and nothing else.  When the epoch identifiers of the old window
  are distinct, the old window keeps exactly its live heads that are not listed, the new head is appended to the live
  heads of the receiving window stamped with the acceptance time, and every other window is untouched.\<close>
theorem accept_merge_windows:
  assumes "bt_inv (heads w)" and "distinct (map hr_we_epoch_id (window w old))"
    and "accept_merge w old new hs r now = (Inr (), w')"
  shows "window w' wid =
    (let kept = filter (\<lambda>r. hr_we_epoch_id r \<notin> set hs) (live_heads w old now);
         placed = r\<lparr>hr_accept_time := now\<rparr>
     in if wid = new then (if old = new then kept else live_heads w new now) @ [placed]
        else if wid = old then kept else window w wid)"
proof -
  have sorted: "is_sorted_unique hs"
    using assms(3) by (auto simp: accept_merge_def split: if_splits)
  obtain f rs w1 where ret: "merge_retire (prune w old now) old hs = (f, rs, w1)"
    using prod_cases3 by blast
  note w1 = merge_retire_pruned [OF is_sorted_unique_distinct [OF sorted] ret]
  from assms(3) sorted ret have f
    and ins: "merge_install w1 old new rs (r\<lparr>hr_accept_time := now\<rparr>) now = (Inr (), w')"
    by (auto simp: accept_merge_def split: if_splits)
  show ?thesis
    using merge_install_simps(5) [OF w1(4) [OF assms(1)] _ ins, of wid] w1(2,3,5) w1(7) [OF \<open>f\<close> assms(2)]
    by (simp add: Let_def)
qed

text \<open>No window ever holds more than \<open>h_max\<close> heads.  Every operation keeps the bound, the error branches
  included, unless it lowers \<open>h_max\<close> itself.\<close>
theorem mhw_step_bounded:
  assumes "mhw_step w w'" and "bt_inv (heads w)" and "windows_bounded w" and "h_max w \<le> h_max w'"
  shows "windows_bounded w'"
  using assms
proof (induction rule: mhw_step.induct)
  case (prune_all w now)
  then show ?case
    by (simp add: windows_bounded_def [of "prune_all w now"] mhw_simps bounded_filter)
next
  case (set_ttl w t now)
  then have "windows_bounded (w\<lparr>ttl := t\<rparr>)" "bt_inv (heads (w\<lparr>ttl := t\<rparr>))"
    by (simp_all add: windows_bounded_def window_def)
  then show ?case
    using bounded_filter [of "w\<lparr>ttl := t\<rparr>"]
    by (simp add: windows_bounded_def [of "prune_all v now" for v] mhw_simps set_ttl_def)
next
  case (set_h_max w h)
  then show ?case
    by (simp add: windows_bounded_def set_h_max_def window_def) (meson le_trans)
qed (simp_all add: bounded_accept_head bounded_accept_merge)

text \<open>As long as no epoch identifier the index knows is offered again, the index is also complete:
  \<open>find_head_window\<close> answers with a window exactly when that window holds the head, so a head is in one window
  only and the constant-time lookup agrees with a search through all windows.\<close>
theorem find_head_window_exact:
  assumes "mhw_fresh_run w"
  shows "find_head_window w weid = Some wid \<longleftrightarrow> (\<exists>r. find_head w wid weid = Some r)"
  using index_exactD(2) [OF exact_fresh_run [OF assms]]
  by (simp add: find_head_window_def find_head_exists holds_def)

text \<open>A small window, for the instances of the properties below.\<close>
definition sample_id :: "u8 \<Rightarrow> hash32" where
  "sample_id b = b # replicate 31 0"

lemma sample_id_less [simp]: "sample_id a < sample_id b \<longleftrightarrow> a < b" "sample_id a \<le> sample_id b \<longleftrightarrow> a \<le> b"
  "sample_id a = sample_id b \<longleftrightarrow> a = b"
  by (auto simp: sample_id_def)

definition sample_head :: "u8 \<Rightarrow> HeadRecord" where
  "sample_head b = \<lparr>hr_we_epoch_id = sample_id b, hr_msphf_hp_commit = zero_hash, hr_seed_ctx_hash = zero_hash,
     hr_rho_commit = zero_hash, hr_seed_commit = zero_hash, hr_xk_hash = zero_hash, hr_join_delta_root = zero_hash,
     hr_revoked_since_root = zero_hash, hr_revoked_root = zero_hash, hr_accept_seq = 0,
     hr_accept_time = from_ticks 0\<rparr>"

definition sample_window :: MultiHeadWindow where
  "sample_window = snd (accept_head (snd (accept_head (mhw_new 2 (from_secs 5)) [1] (sample_head 2) (from_ticks 3)))
     [1] (sample_head 3) (from_ticks 4))"

lemmas sample_defs = sample_window_def sample_head_def mhw_new_def accept_head_def prune_def push_head_def
  window_def live_def duration_since_def dur_secs_from_secs from_ticks_def saturating_sub_def Let_def

lemma sample_window_eq:
  "sample_window = \<lparr>h_max = 2, ttl = from_secs 5,
     heads = [([1], [(sample_head 2)\<lparr>hr_accept_time := from_ticks 3\<rparr>, (sample_head 3)\<lparr>hr_accept_time := from_ticks 4\<rparr>])],
     weid_index = [sample_id 2 \<mapsto> [1], sample_id 3 \<mapsto> [1]]\<rparr>"
  by (simp add: sample_defs)

lemma sample_reachable: "mhw_reachable sample_window"
  unfolding sample_window_def
  by (rule mhw_reachable.step [OF mhw_reachable.step [OF mhw_reachable.new mhw_step.head] mhw_step.head])

theorem find_head_window_sound_witness:
  "find_head_window sample_window (sample_id 3) = Some [1] \<and>
   (\<exists>r. find_head sample_window [1] (sample_id 3) = Some r \<and> hr_we_epoch_id r = sample_id 3)"
proof -
  have "find_head_window sample_window (sample_id 3) = Some [1]"
    by (simp add: find_head_window_def sample_window_eq)
  then show ?thesis
    using find_head_window_sound [OF sample_reachable] by blast
qed

theorem accept_merge_result_witness:
  "fst (accept_merge sample_window [1] [1] [sample_id 2, sample_id 3] (sample_head 4) (from_ticks 6)) = Inr ()"
  using accept_merge_result [of sample_window "[1]" "[1]" "[sample_id 2, sample_id 3]" "sample_head 4" "from_ticks 6"]
  by (simp add: sample_window_eq sample_defs)

theorem mhw_step_bounded_witness:
  "windows_bounded (snd (accept_head sample_window [1] (sample_head 4) (from_ticks 6)))"
  by (rule mhw_step_bounded [OF mhw_step.head])
    (simp_all add: sample_window_eq windows_bounded_def accept_head_def Let_def mhw_simps window_def)

theorem find_head_window_exact_witness:
  "find_head_window sample_window (sample_id 2) = Some [1] \<longleftrightarrow>
     (\<exists>r. find_head sample_window [1] (sample_id 2) = Some r)"
proof (rule find_head_window_exact)
  show "mhw_fresh_run sample_window"
    unfolding sample_window_def
    by (intro mhw_fresh_run.intros) (simp_all add: sample_defs find_head_window_def)
qed

theorem accept_merge_windows_witness:
  "window (snd (accept_merge sample_window [1] [7] [sample_id 2] (sample_head 4) (from_ticks 6))) [1] =
     [(sample_head 3)\<lparr>hr_accept_time := from_ticks 4\<rparr>]"
proof -
  obtain res w' where m: "accept_merge sample_window [1] [7] [sample_id 2] (sample_head 4) (from_ticks 6) = (res, w')"
    by fastforce
  have "res = Inr ()"
    using m by (simp add: sample_window_eq sample_defs accept_merge_def merge_retire_def merge_install_def)
  with m show ?thesis
    using accept_merge_windows [of sample_window "[1]" "[7]" "[sample_id 2]" "sample_head 4" "from_ticks 6" w' "[1]"]
    by (simp add: sample_window_eq sample_defs)
qed

end
