(* ===== verification/Rpo256.thy ===== *)
theory Rpo256
  imports Prelude
begin

text \<open>
  The hash registry entries \<open>rpo-256/v1\<close> and \<open>rpo-256/v2\<close> (\<open>msphf-core/src/rpo256.rs\<close>): byte mapping, domain
  separation, absorb schedule and squeeze over the Rescue-Prime permutation.  The permutation and the Goldilocks
  field arithmetic come from the \<open>winter_crypto\<close> and \<open>winter_math\<close> packages and are the parameter \<open>RpoExt\<close>; the
  twelve lanes of the sponge are a function from lane number to field element.  The lemmas show that every digest
  has 32 bytes, that the byte mapping loses exactly the trailing zeros of the last chunk, which \<open>v2\<close> recovers
  through the byte length, and that reduction into the field identifies distinct 32-byte strings.
\<close>

section \<open>Errors of the core crate\<close>

datatype WitnessValidationError = CborMalformed | NonCanonical | LeafBindMismatch | ProjEvalFail | PathOversize

primrec wve_code :: "WitnessValidationError \<Rightarrow> u16" where
  "wve_code CborMalformed = 9071"
| "wve_code NonCanonical = 9072"
| "wve_code LeafBindMismatch = 9073"
| "wve_code ProjEvalFail = 9074"
| "wve_code PathOversize = 9075"

primrec wve_reason :: "WitnessValidationError \<Rightarrow> string" where
  "wve_reason CborMalformed = ''cbor_malformed''"
| "wve_reason NonCanonical = ''nonmem_noncanonical''"
| "wve_reason LeafBindMismatch = ''leaf_bind_mismatch''"
| "wve_reason ProjEvalFail = ''proj_eval_fail''"
| "wve_reason PathOversize = ''path_oversize''"

datatype WitnessReplayField = XkHash | RhoCommit

datatype MsphfError =
    Unimplemented string
  | Serialization string
  | InvalidInput string
  | WitnessReplayMismatch WitnessReplayField
  | Witness WitnessValidationError

section \<open>Sponge\<close>

type_synonym felt = u64
type_synonym rpo_state = "nat \<Rightarrow> felt"

record RpoExt =
  fe_zero :: felt
  fe_new :: "u64 \<Rightarrow> felt"
  fe_add :: "felt \<Rightarrow> felt \<Rightarrow> felt"
  fe_as_int :: "felt \<Rightarrow> u64"
  apply_permutation :: "rpo_state \<Rightarrow> rpo_state"

definition RATE_WIDTH :: nat where "RATE_WIDTH = 8"
definition RATE_OFFSET :: nat where "RATE_OFFSET = 4"

definition DS_MT_LEAF_U64 :: u64 where "DS_MT_LEAF_U64 = 0x4D545F4C45414600"
definition DS_MT_NODE_U64 :: u64 where "DS_MT_NODE_U64 = 0x4D545F4E4F444500"
definition DS_NONMEM_INTNODE_U64 :: u64 where "DS_NONMEM_INTNODE_U64 = 0x4D545F4E4D494E54"
definition DS_NONMEM_BIND_U64 :: u64 where "DS_NONMEM_BIND_U64 = 0x4D545F4E4D42494E"
definition DS_SET_HASH_U64 :: u64 where "DS_SET_HASH_U64 = 0x5345545F48415348"

text \<open>\<open>u64::from_be_bytes\<close> and \<open>u64::to_be_bytes\<close>.\<close>
definition from_be_bytes :: "bytes \<Rightarrow> u64" where
  "from_be_bytes bs = foldl (\<lambda>acc b. acc * 256 + ucast b) 0 bs"

definition to_be_bytes :: "u64 \<Rightarrow> bytes" where
  "to_be_bytes w = map (\<lambda>i. ucast (drop_bit (56 - 8 * i) w)) [0..<8]"

text \<open>\<open>slice::chunks(8)\<close>: the last chunk may be shorter.\<close>
fun chunks8 :: "'a list \<Rightarrow> 'a list list" where
  "chunks8 [] = []"
| "chunks8 (x # xs) = take 8 (x # xs) # chunks8 (drop 7 xs)"

definition pad8 :: "bytes \<Rightarrow> bytes" where
  "pad8 chunk = chunk @ replicate (8 - length chunk) 0"

definition bytes_to_words :: "bytes \<Rightarrow> u64 list" where
  "bytes_to_words bs = map (\<lambda>chunk. from_be_bytes (pad8 chunk)) (chunks8 bs)"

definition bytes_to_field_elements :: "RpoExt \<Rightarrow> bytes \<Rightarrow> felt list" where
  "bytes_to_field_elements P bs = map (fe_new P) (bytes_to_words bs)"

fun absorb_loop :: "RpoExt \<Rightarrow> felt list \<Rightarrow> nat \<Rightarrow> rpo_state \<Rightarrow> nat \<times> rpo_state" where
  "absorb_loop P [] lane st = (lane, st)"
| "absorb_loop P (w # ws) lane st =
     (let (lane, st) = (if lane = RATE_WIDTH then (0, apply_permutation P st) else (lane, st))
      in absorb_loop P ws (lane + 1) (st(RATE_OFFSET + lane := fe_add P (st (RATE_OFFSET + lane)) w)))"

definition absorb_words :: "RpoExt \<Rightarrow> rpo_state \<Rightarrow> felt list \<Rightarrow> rpo_state" where
  "absorb_words P st ws =
     (if ws = [] then st
      else (case absorb_loop P ws 0 st of (lane, st) \<Rightarrow> if lane \<noteq> 0 then apply_permutation P st else st))"

definition squeeze :: "RpoExt \<Rightarrow> rpo_state \<Rightarrow> hash32" where
  "squeeze P st = concat (map (\<lambda>i. to_be_bytes (fe_as_int P (st (RATE_OFFSET + i)))) [0..<4])"

definition rpo_hash :: "RpoExt \<Rightarrow> u64 \<Rightarrow> bytes \<Rightarrow> hash32" where
  "rpo_hash P ds_tag payload =
     (let st = (\<lambda>_. fe_zero P);
          st = absorb_words P st [fe_new P ds_tag];
          field_words = bytes_to_field_elements P payload;
          st = absorb_words P st [fe_new P (of_nat (length field_words))];
          st = (if field_words \<noteq> [] then absorb_words P st field_words else st)
      in squeeze P (apply_permutation P st))"

definition rpo_hash_v2 :: "RpoExt \<Rightarrow> u64 \<Rightarrow> bytes \<Rightarrow> hash32" where
  "rpo_hash_v2 P ds_tag payload =
     (let st = (\<lambda>_. fe_zero P);
          st = absorb_words P st [fe_new P ds_tag];
          field_words = bytes_to_field_elements P payload;
          st = absorb_words P st [fe_new P (of_nat (length payload))];
          st = (if field_words \<noteq> [] then absorb_words P st field_words else st)
      in squeeze P (apply_permutation P st))"

section \<open>Registry helpers\<close>

definition rpo_leaf :: "RpoExt \<Rightarrow> bytes \<Rightarrow> hash32" where
  "rpo_leaf P d = rpo_hash P DS_MT_LEAF_U64 d"

definition rpo_node :: "RpoExt \<Rightarrow> hash32 \<Rightarrow> hash32 \<Rightarrow> hash32" where
  "rpo_node P l r = rpo_hash P DS_MT_NODE_U64 (l @ r)"

definition rpo_interval_node :: "RpoExt \<Rightarrow> hash32 \<Rightarrow> hash32 \<Rightarrow> hash32" where
  "rpo_interval_node P l r = rpo_hash P DS_NONMEM_INTNODE_U64 (l @ r)"

definition rpo_interval_binding ::
  "RpoExt \<Rightarrow> hash32 \<Rightarrow> hash32 \<Rightarrow> hash32 \<Rightarrow> hash32 \<Rightarrow> u8 \<Rightarrow> u8 \<Rightarrow> hash32" where
  "rpo_interval_binding P left_id left_leaf right_id right_leaf lca_left lca_right =
     rpo_hash P DS_NONMEM_BIND_U64 (left_id @ left_leaf @ right_id @ right_leaf @ [lca_left, lca_right])"

text \<open>\<open>windows(2).any(|w| w[0] >= w[1])\<close>: some adjacent pair is out of order.\<close>
fun any_unsorted :: "'a::linorder list \<Rightarrow> bool" where
  "any_unsorted (x # y # xs) = (y \<le> x \<or> any_unsorted (y # xs))"
| "any_unsorted _ = False"

definition rpo_set_hash :: "RpoExt \<Rightarrow> hash32 list \<Rightarrow> MsphfError + hash32" where
  "rpo_set_hash P items =
     (if any_unsorted items then Inl (InvalidInput ''set must be strict-sorted (lex asc)'')
      else Inr (rpo_hash P DS_SET_HASH_U64 (concat items)))"

definition digest_from_slice :: "bytes \<Rightarrow> MsphfError + hash32" where
  "digest_from_slice bs =
     (if length bs = 32 then Inr bs else Inl (InvalidInput ''expected 32-byte digest''))"

definition v2_leaf :: "RpoExt \<Rightarrow> bytes \<Rightarrow> hash32" where
  "v2_leaf P d = rpo_hash_v2 P DS_MT_LEAF_U64 d"

definition v2_node :: "RpoExt \<Rightarrow> hash32 \<Rightarrow> hash32 \<Rightarrow> hash32" where
  "v2_node P l r = rpo_hash_v2 P DS_MT_NODE_U64 (l @ r)"

definition v2_interval_node :: "RpoExt \<Rightarrow> hash32 \<Rightarrow> hash32 \<Rightarrow> hash32" where
  "v2_interval_node P l r = rpo_hash_v2 P DS_NONMEM_INTNODE_U64 (l @ r)"

definition v2_set_hash :: "RpoExt \<Rightarrow> hash32 list \<Rightarrow> MsphfError + hash32" where
  "v2_set_hash P items =
     (if any_unsorted items then Inl (InvalidInput ''set must be strict-sorted (lex asc)'')
      else Inr (rpo_hash_v2 P DS_SET_HASH_U64 (concat items)))"

section \<open>Lemmas\<close>

lemma any_unsorted_iff: "any_unsorted xs \<longleftrightarrow> \<not> sorted_wrt (<) xs"
  by (induction xs rule: any_unsorted.induct)
    (auto simp: not_less sorted_wrt1 sorted_wrt2 [OF transp_on_less] simp del: sorted_wrt.simps(2))

lemma length_to_be_bytes [simp]: "length (to_be_bytes w) = 8"
  by (simp add: to_be_bytes_def)

lemma length_squeeze [simp]: "length (squeeze P st) = 32"
  by (simp add: squeeze_def length_concat upt_rec)

lemma length_rpo_hash [simp]: "length (rpo_hash P t p) = 32" "length (rpo_hash_v2 P t p) = 32"
  by (simp_all add: rpo_hash_def rpo_hash_v2_def Let_def)

lemma digest_from_slice_Inr [result_simps]: "(digest_from_slice b = Inr d) \<longleftrightarrow> length b = 32 \<and> d = b"
  by (auto simp: digest_from_slice_def)

subsection \<open>The byte mapping\<close>

definition be_nat :: "bytes \<Rightarrow> nat" where
  "be_nat bs = foldl (\<lambda>acc b. acc * 256 + unat b) 0 bs"

lemma be_nat_snoc [simp]: "be_nat (bs @ [b]) = be_nat bs * 256 + unat b"
  by (simp add: be_nat_def)

lemma be_nat_less: "be_nat bs < 256 ^ length bs"
proof (induction bs rule: rev_induct)
  case (snoc b bs)
  have "unat b < 256"
    using unsigned_less [of b] by simp
  with snoc show ?case by simp
qed (simp add: be_nat_def)

lemma be_nat_inject: "length xs = length ys \<Longrightarrow> be_nat xs = be_nat ys \<Longrightarrow> xs = ys"
proof (induction xs arbitrary: ys rule: rev_induct)
  case (snoc x xs)
  from snoc.prems(1) obtain y ys' where ys: "ys = ys' @ [y]" "length xs = length ys'"
    by (cases ys rule: rev_cases) auto
  have b: "unat x < 256" "unat y < 256"
    using unsigned_less [of x] unsigned_less [of y] by simp_all
  have eq: "be_nat xs * 256 + unat x = be_nat ys' * 256 + unat y"
    using snoc.prems(2) ys(1) by simp
  have "be_nat xs = be_nat ys'" "unat x = unat y"
    using arg_cong [OF eq, of "\<lambda>n. n div 256"] arg_cong [OF eq, of "\<lambda>n. n mod 256"] b by simp_all
  with snoc.IH [OF ys(2)] ys(1) show ?case by (simp add: unsigned_word_eqI)
qed simp

lemma unat_from_be_bytes: "length bs \<le> 8 \<Longrightarrow> unat (from_be_bytes bs) = be_nat bs"
proof (induction bs rule: rev_induct)
  case (snoc b bs)
  have "be_nat bs < 256 ^ 7"
    using be_nat_less [of bs] snoc.prems power_increasing [of "length bs" 7 "256 :: nat"] by simp
  moreover have "unat b < 256"
    using unsigned_less [of b] by simp
  ultimately have "be_nat bs * 256 + unat b < 2 ^ 64"
    by simp
  moreover have "from_be_bytes (bs @ [b]) = from_be_bytes bs * 256 + ucast b"
    by (simp add: from_be_bytes_def)
  ultimately show ?case
    using snoc by (simp add: unat_word_ariths unsigned_ucast_eq take_bit_nat_eq_self)
qed (simp add: from_be_bytes_def be_nat_def)

lemma from_be_bytes_inject:
  "length xs = length ys \<Longrightarrow> length ys \<le> 8 \<Longrightarrow> from_be_bytes xs = from_be_bytes ys \<Longrightarrow> xs = ys"
  using be_nat_inject [of xs ys] by (simp flip: unat_from_be_bytes)

lemma chunks8_Cons: "p \<noteq> [] \<Longrightarrow> chunks8 p = take 8 p # chunks8 (drop 8 p)"
  by (cases p) (simp_all add: drop_Cons')

lemma bytes_to_words_Cons:
  "p \<noteq> [] \<Longrightarrow> bytes_to_words p = from_be_bytes (pad8 (take 8 p)) # bytes_to_words (drop 8 p)"
  by (simp add: bytes_to_words_def chunks8_Cons)

lemma bytes_to_words_Nil [simp]: "bytes_to_words [] = []"
  by (simp add: bytes_to_words_def)

lemma pad8_inject: "length xs = length ys \<Longrightarrow> length ys \<le> 8 \<Longrightarrow>
    from_be_bytes (pad8 xs) = from_be_bytes (pad8 ys) \<Longrightarrow> xs = ys"
  using from_be_bytes_inject [of "pad8 xs" "pad8 ys"] by (simp add: pad8_def)

lemma bytes_to_words_inject: "length p = length q \<Longrightarrow> bytes_to_words p = bytes_to_words q \<Longrightarrow> p = q"
proof (induction p arbitrary: q rule: length_induct)
  case (1 p)
  show ?case
  proof (cases "p = []")
    case False
    with 1 have "q \<noteq> []" by auto
    with False 1 have *: "from_be_bytes (pad8 (take 8 p)) = from_be_bytes (pad8 (take 8 q))"
      "bytes_to_words (drop 8 p) = bytes_to_words (drop 8 q)"
      by (simp_all add: bytes_to_words_Cons)
    have "take 8 p = take 8 q"
      using *(1) 1(2) by (intro pad8_inject) auto
    moreover have "drop 8 p = drop 8 q"
      using *(2) 1(2) False by (intro 1(1) [rule_format]) (cases p, auto)
    ultimately show ?thesis
      by (metis append_take_drop_id)
  qed (use 1 in simp)
qed

lemma length_bytes_to_words: "length (bytes_to_words p) = (length p + 7) div 8"
proof (induction p rule: length_induct)
  case (1 p)
  show ?case
  proof (cases "p = []")
    case False
    then have "length (bytes_to_words (drop 8 p)) = (length p - 8 + 7) div 8"
      using 1 by (cases p) auto
    moreover have "Suc ((length p - 8 + 7) div 8) = (length p + 7) div 8"
      using False by (cases "length p") (simp, arith)
    ultimately show ?thesis
      using False by (simp add: bytes_to_words_Cons)
  qed simp
qed

lemma div8_same_chunk:
  assumes "(n + k + 7) div 8 = (n + 7) div (8 :: nat)" and "0 < n" and "n \<le> 8"
  shows "n + k \<le> 8"
proof -
  have "(n + 7) div 8 < 2"
    using assms(3) by (simp add: div_less_iff_less_mult)
  then have "n + k + 7 < 2 * 8"
    by (simp add: assms(1) [symmetric] div_less_iff_less_mult)
  then show ?thesis by simp
qed

lemma bytes_to_words_zeros:
  "(length p + k + 7) div 8 = (length p + 7) div 8 \<Longrightarrow> bytes_to_words (p @ replicate k 0) = bytes_to_words p"
proof (induction p rule: length_induct)
  case (1 p)
  show ?case
  proof (cases "length p < 8")
    case True
    with 1(2) have "k = 0 \<or> (p \<noteq> [] \<and> length p + k \<le> 8)"
      using div8_same_chunk [of "length p" k] by (cases "p = []") auto
    then consider "k = 0" | "p \<noteq> []" "length p + k \<le> 8" by blast
    then show ?thesis
    proof cases
      case 2
      then have "8 - (length p + k) + k = 8 - length p" by simp
      then have "pad8 (p @ replicate k 0) = pad8 p"
        by (simp add: pad8_def replicate_add [symmetric] add.commute)
      with 2 True show ?thesis
        using bytes_to_words_Cons [of p] bytes_to_words_Cons [of "p @ replicate k 0"] by simp
    qed simp
  next
    case False
    then obtain m where m: "length p = m + 8"
      using le_Suc_ex [of 8 "length p"] by auto
    have "(m + 8 + j + 7) div 8 = Suc ((m + j + 7) div 8)" for j
      by presburger
    from this [of k] this [of 0] have "(m + k + 7) div 8 = (m + 7) div 8"
      using 1(2) m by simp
    then have "bytes_to_words (drop 8 p @ replicate k 0) = bytes_to_words (drop 8 p)"
      using m by (intro 1(1) [rule_format]) auto
    moreover have "p \<noteq> []" using False by auto
    ultimately show ?thesis
      using False bytes_to_words_Cons [of p] bytes_to_words_Cons [of "p @ replicate k 0"] by simp
  qed
qed

section \<open>Properties\<close>

text \<open>The limitation of \<open>rpo-256/v1\<close> that the registry documents.  Appending zero bytes that do not start a new
  8-byte chunk does not change the \<open>v1\<close> digest, under every tag and for every permutation.\<close>
theorem rpo_hash_v1_trailing_zeros:
  assumes "(length p + k + 7) div 8 = (length p + 7) div 8"
  shows "rpo_hash P tag (p @ replicate k 0) = rpo_hash P tag p"
  using bytes_to_words_zeros [OF assms] by (simp add: rpo_hash_def bytes_to_field_elements_def)

text \<open>The repair in \<open>rpo-256/v2\<close>.  What the \<open>v2\<close> sponge is fed before reduction into the field, the byte length
  and the 64-bit words of the payload, determines the payload, so inputs that differ in trailing zeros are absorbed
  differently.\<close>
theorem rpo_v2_absorbed_words_inject:
  assumes "length p < 2 ^ 64" and "length q < 2 ^ 64"
    and "(of_nat (length p) :: u64) = of_nat (length q)" and "bytes_to_words p = bytes_to_words q"
  shows "p = q"
proof -
  have "unat (of_nat (length p) :: u64) = length p" "unat (of_nat (length q) :: u64) = length q"
    using assms(1,2) by (simp_all add: unat_of_nat)
  with assms(3) have "length p = length q" by metis
  from bytes_to_words_inject [OF this assms(4)] show ?thesis .
qed

text \<open>The Merkle node hash is not injective on 32-byte digests for a reason that has nothing to do with the
  permutation.  If field elements are created modulo the Goldilocks prime \<open>2^64 - 2^32 + 1\<close>, two left children
  whose first 8-byte words differ by the prime are different and have the same parent.\<close>
theorem v2_node_field_alias:
  assumes "\<And>x y. unat x + 0xFFFFFFFF00000001 = unat y \<Longrightarrow> fe_new P x = fe_new P y"
    and "length c = 8" and "length c' = 8" and "length rest = 24"
    and "unat (from_be_bytes c) + 0xFFFFFFFF00000001 = unat (from_be_bytes c')"
  shows "v2_node P (c @ rest) r = v2_node P (c' @ rest) r \<and> c @ rest \<noteq> c' @ rest"
proof
  have "fe_new P (from_be_bytes (pad8 c)) = fe_new P (from_be_bytes (pad8 c'))"
    using assms(1) [OF assms(5)] assms(2,3) by (simp add: pad8_def)
  then have "bytes_to_field_elements P (c @ rest @ r) = bytes_to_field_elements P (c' @ rest @ r)"
    using assms(2,3) by (cases c; cases c') (simp_all add: bytes_to_field_elements_def bytes_to_words_Cons)
  then show "v2_node P (c @ rest) r = v2_node P (c' @ rest) r"
    using assms(2,3) by (simp add: v2_node_def rpo_hash_v2_def)
  show "c @ rest \<noteq> c' @ rest"
    using assms(2,3,5) by auto
qed

section \<open>Instances\<close>

text \<open>A concrete field and permutation: residues modulo the Goldilocks prime and a rotation of the lanes.\<close>
definition goldilocks :: u64 where
  "goldilocks = 0xFFFFFFFF00000001"

definition sample_rpo :: RpoExt where
  "sample_rpo = \<lparr>fe_zero = 0, fe_new = (\<lambda>x. x mod goldilocks),
     fe_add = (\<lambda>a b. of_nat ((unat a + unat b) mod unat goldilocks)), fe_as_int = (\<lambda>a. a),
     apply_permutation = (\<lambda>st i. if i < 12 then st ((i + 5) mod 12) + of_nat i else 0)\<rparr>"

theorem rpo_hash_v1_trailing_zeros_witness:
  "rpo_hash sample_rpo DS_MT_LEAF_U64 [1, 0, 0] = rpo_hash sample_rpo DS_MT_LEAF_U64 [1]"
  using rpo_hash_v1_trailing_zeros [of "[1]" 2 sample_rpo DS_MT_LEAF_U64] by (simp add: numeral_2_eq_2)

theorem rpo_v2_absorbed_words_inject_witness: "bytes_to_words [1, 0] \<noteq> bytes_to_words [2, 0]"
  using rpo_v2_absorbed_words_inject [of "[1, 0]" "[2, 0]"] by auto

theorem v2_node_field_alias_witness:
  "v2_node sample_rpo (replicate 8 0 @ replicate 24 0) zero_hash =
     v2_node sample_rpo ([0xFF, 0xFF, 0xFF, 0xFF, 0, 0, 0, 1] @ replicate 24 0) zero_hash"
proof -
  have al: "fe_new sample_rpo x = fe_new sample_rpo y" if "unat x + 0xFFFFFFFF00000001 = unat y" for x y
  proof -
    have "unat (goldilocks) = 0xFFFFFFFF00000001"
      by (simp add: goldilocks_def)
    then have "unat (x mod goldilocks) = unat (y mod goldilocks)"
      using that by (simp add: unat_mod flip: that)
    then show ?thesis
      by (simp add: sample_rpo_def unsigned_word_eqI)
  qed
  have "from_be_bytes (replicate 8 0) = 0"
    by (simp add: from_be_bytes_def numeral_eq_Suc)
  moreover have "from_be_bytes [0xFF, 0xFF, 0xFF, 0xFF, 0, 0, 0, 1] = 0xFFFFFFFF00000001"
    by (simp add: from_be_bytes_def)
  ultimately show ?thesis
    using v2_node_field_alias [of sample_rpo "replicate 8 0" "[0xFF, 0xFF, 0xFF, 0xFF, 0, 0, 0, 1]"
        "replicate 24 0" zero_hash] al by simp
qed

end
