(* ===== verification/FreezeCodes.thy ===== *)
theory FreezeCodes
  imports MultiHeadWindow Rpo256
begin

text \<open>
  Rejections of the acceptance pipeline: the freeze codes of \<open>accept/errors.rs\<close> and \<open>accept/mod.rs\<close>, the error
  type of acceptance and the conversion of an \<open>msphf-core\<close> error into it.
\<close>

named_theorems freeze_defs \<open>codes and reasons of the freeze errors\<close>

definition FREEZE_SEEDCTX_MISMATCH :: FreezeError where [freeze_defs]:
  "FREEZE_SEEDCTX_MISMATCH = \<lparr>fe_code = 922, fe_reason = ''msphf_seedctx_mismatch''\<rparr>"
definition FREEZE_STARK_OVERSIZE :: FreezeError where [freeze_defs]:
  "FREEZE_STARK_OVERSIZE = \<lparr>fe_code = 923, fe_reason = ''msphf_hp_binding_invalid''\<rparr>"
definition FREEZE_RHO_PARITY :: FreezeError where [freeze_defs]:
  "FREEZE_RHO_PARITY = \<lparr>fe_code = 924, fe_reason = ''msphf_rho_parity''\<rparr>"
definition FREEZE_MSPHF_RHO_PARITY :: FreezeError where [freeze_defs]:
  "FREEZE_MSPHF_RHO_PARITY = \<lparr>fe_code = 924, fe_reason = ''msphf_rho_parity''\<rparr>"
definition FREEZE_MH_HEADS_INVALID :: FreezeError where [freeze_defs]:
  "FREEZE_MH_HEADS_INVALID = \<lparr>fe_code = 927, fe_reason = ''mh_heads_invalid''\<rparr>"
definition FREEZE_EPOCHID_MISMATCH :: FreezeError where [freeze_defs]:
  "FREEZE_EPOCHID_MISMATCH = \<lparr>fe_code = 928, fe_reason = ''epochid_mismatch''\<rparr>"
definition FREEZE_HASH_CBOR :: FreezeError where [freeze_defs]:
  "FREEZE_HASH_CBOR = \<lparr>fe_code = 9071, fe_reason = ''cbor_malformed''\<rparr>"
definition FREEZE_HASH_NONCANONICAL :: FreezeError where [freeze_defs]:
  "FREEZE_HASH_NONCANONICAL = \<lparr>fe_code = 9072, fe_reason = ''nonmem_noncanonical''\<rparr>"
definition FREEZE_HASH_LEAF_BIND :: FreezeError where [freeze_defs]:
  "FREEZE_HASH_LEAF_BIND = \<lparr>fe_code = 9073, fe_reason = ''leaf_bind_mismatch''\<rparr>"
definition FREEZE_HASH_PROJ_FAIL :: FreezeError where [freeze_defs]:
  "FREEZE_HASH_PROJ_FAIL = \<lparr>fe_code = 9074, fe_reason = ''proj_eval_fail''\<rparr>"
definition FREEZE_HASH_PATH_OVERSIZE :: FreezeError where [freeze_defs]:
  "FREEZE_HASH_PATH_OVERSIZE = \<lparr>fe_code = 9075, fe_reason = ''path_oversize''\<rparr>"
definition FREEZE_HASH_MEM_MALFORMED :: FreezeError where [freeze_defs]:
  "FREEZE_HASH_MEM_MALFORMED = \<lparr>fe_code = 90721, fe_reason = ''mem_malformed''\<rparr>"
definition FREEZE_FIELD_MISSING :: FreezeError where [freeze_defs]:
  "FREEZE_FIELD_MISSING = \<lparr>fe_code = 9071, fe_reason = ''cbor_malformed''\<rparr>"
definition FREEZE_TSWE_ALG_INVALID :: FreezeError where [freeze_defs]:
  "FREEZE_TSWE_ALG_INVALID = \<lparr>fe_code = 921, fe_reason = ''msphf_crs_untrusted''\<rparr>"
definition FREEZE_MERKLE_SUITE_INVALID :: FreezeError where [freeze_defs]:
  "FREEZE_MERKLE_SUITE_INVALID = \<lparr>fe_code = 921, fe_reason = ''msphf_crs_untrusted''\<rparr>"
definition FREEZE_KBROAD_ALG_INVALID :: FreezeError where [freeze_defs]:
  "FREEZE_KBROAD_ALG_INVALID = \<lparr>fe_code = 921, fe_reason = ''msphf_crs_untrusted''\<rparr>"
definition FREEZE_KBROAD_PARENT_MISMATCH :: FreezeError where [freeze_defs]:
  "FREEZE_KBROAD_PARENT_MISMATCH = \<lparr>fe_code = 921, fe_reason = ''kbroad_parent_mismatch''\<rparr>"
definition FREEZE_PARENT_EID_FORBIDDEN :: FreezeError where [freeze_defs]:
  "FREEZE_PARENT_EID_FORBIDDEN = \<lparr>fe_code = 921, fe_reason = ''parent_eid_forbidden''\<rparr>"
definition FREEZE_MSPHF_CRS_INVALID :: FreezeError where [freeze_defs]:
  "FREEZE_MSPHF_CRS_INVALID = \<lparr>fe_code = 921, fe_reason = ''msphf_crs_untrusted''\<rparr>"
definition FREEZE_MERGE_JOIN_KEYS :: FreezeError where [freeze_defs]:
  "FREEZE_MERGE_JOIN_KEYS = \<lparr>fe_code = 921, fe_reason = ''msphf_crs_untrusted''\<rparr>"
definition FREEZE_PARAMS_ID_INVALID :: FreezeError where [freeze_defs]:
  "FREEZE_PARAMS_ID_INVALID = \<lparr>fe_code = 921, fe_reason = ''msphf_crs_untrusted''\<rparr>"
definition FREEZE_FS_POLICY_WINDOW_INCOMPATIBLE :: FreezeError where [freeze_defs]:
  "FREEZE_FS_POLICY_WINDOW_INCOMPATIBLE = \<lparr>fe_code = 9480, fe_reason = ''fs_policy_window_incompatible''\<rparr>"
definition FREEZE_FS_JOIN_MISSING :: FreezeError where [freeze_defs]:
  "FREEZE_FS_JOIN_MISSING = \<lparr>fe_code = 9441, fe_reason = ''fs_join_missing''\<rparr>"
definition FREEZE_FS_BASE_MISMATCH :: FreezeError where [freeze_defs]:
  "FREEZE_FS_BASE_MISMATCH = \<lparr>fe_code = 9450, fe_reason = ''fs_base_mismatch''\<rparr>"
definition FREEZE_FS_DEV_CHAIN_BREAK :: FreezeError where [freeze_defs]:
  "FREEZE_FS_DEV_CHAIN_BREAK = \<lparr>fe_code = 9470, fe_reason = ''fs_dev_chain_break''\<rparr>"
definition FREEZE_FS_DEV_CHAIN_BIND_MISMATCH :: FreezeError where [freeze_defs]:
  "FREEZE_FS_DEV_CHAIN_BIND_MISMATCH = \<lparr>fe_code = 9472, fe_reason = ''fs_dev_chain_bind_mismatch''\<rparr>"
definition FREEZE_FS_POLICY_VERSION_UNSUPPORTED :: FreezeError where [freeze_defs]:
  "FREEZE_FS_POLICY_VERSION_UNSUPPORTED = \<lparr>fe_code = 9446, fe_reason = ''fs_policy_version_unsupported''\<rparr>"
definition FREEZE_FS_FORWARD_JUMP_DEVICE :: FreezeError where [freeze_defs]:
  "FREEZE_FS_FORWARD_JUMP_DEVICE = \<lparr>fe_code = 9474, fe_reason = ''fs_forward_jump_device''\<rparr>"
definition FREEZE_FS_FORWARD_JUMP_FIRST :: FreezeError where [freeze_defs]:
  "FREEZE_FS_FORWARD_JUMP_FIRST = \<lparr>fe_code = 9475, fe_reason = ''fs_forward_jump_first''\<rparr>"
definition FREEZE_FS_FORWARD_JUMP_GROUP :: FreezeError where [freeze_defs]:
  "FREEZE_FS_FORWARD_JUMP_GROUP = \<lparr>fe_code = 9476, fe_reason = ''fs_forward_jump_group''\<rparr>"
definition FREEZE_FS_CHECKPOINT_BACKDATE :: FreezeError where [freeze_defs]:
  "FREEZE_FS_CHECKPOINT_BACKDATE = \<lparr>fe_code = 9471, fe_reason = ''fs_checkpoint_backdate''\<rparr>"
definition FREEZE_FS_CHECKPOINT_MONOTONICITY :: FreezeError where [freeze_defs]:
  "FREEZE_FS_CHECKPOINT_MONOTONICITY = \<lparr>fe_code = 9473, fe_reason = ''fs_checkpoint_monotonicity''\<rparr>"
definition FREEZE_BARRIER_EXPECTEDPAIRS_FAILURE :: FreezeError where [freeze_defs]:
  "FREEZE_BARRIER_EXPECTEDPAIRS_FAILURE = \<lparr>fe_code = 9603, fe_reason = ''barrier_expectedpairs_failure''\<rparr>"
definition FREEZE_BARRIER_UPDATER_INVALID :: FreezeError where [freeze_defs]:
  "FREEZE_BARRIER_UPDATER_INVALID = \<lparr>fe_code = 9601, fe_reason = ''barrier_updater_invalid''\<rparr>"
definition FREEZE_BARRIER_MERGE_DELEGATION_FORBIDDEN :: FreezeError where [freeze_defs]:
  "FREEZE_BARRIER_MERGE_DELEGATION_FORBIDDEN = \<lparr>fe_code = 9604, fe_reason = ''barrier_merge_delegation_forbidden''\<rparr>"
definition FREEZE_BARRIER_PROACTIVE_FORBIDDEN :: FreezeError where [freeze_defs]:
  "FREEZE_BARRIER_PROACTIVE_FORBIDDEN = \<lparr>fe_code = 9605, fe_reason = ''barrier_proactive_forbidden''\<rparr>"
definition FREEZE_BARRIER_UPDATE_MALFORMED :: FreezeError where [freeze_defs]:
  "FREEZE_BARRIER_UPDATE_MALFORMED = \<lparr>fe_code = 9607, fe_reason = ''barrier_update_malformed''\<rparr>"
definition FREEZE_BARRIER_TREE_HASH_CHAIN_FAILURE :: FreezeError where [freeze_defs]:
  "FREEZE_BARRIER_TREE_HASH_CHAIN_FAILURE = \<lparr>fe_code = 9608, fe_reason = ''barrier_tree_hash_chain_failure''\<rparr>"
definition FREEZE_BARRIER_TREE_SNAPSHOT_AUTH_FAILURE :: FreezeError where [freeze_defs]:
  "FREEZE_BARRIER_TREE_SNAPSHOT_AUTH_FAILURE = \<lparr>fe_code = 9609, fe_reason = ''barrier_tree_snapshot_auth_failure''\<rparr>"
definition FREEZE_BARRIER_GENESIS_REQUIRED :: FreezeError where [freeze_defs]:
  "FREEZE_BARRIER_GENESIS_REQUIRED = \<lparr>fe_code = 96010, fe_reason = ''barrier_genesis_required''\<rparr>"
definition FREEZE_BARRIER_NON_REVOCATION_REASON_FORBIDDEN_WHILE_PENDING_REVOCATIONS :: FreezeError where [freeze_defs]:
  "FREEZE_BARRIER_NON_REVOCATION_REASON_FORBIDDEN_WHILE_PENDING_REVOCATIONS = \<lparr>fe_code = 96013, fe_reason = ''barrier_non_revocation_reason_forbidden_while_pending_revocations''\<rparr>"

definition FREEZE_BARRIER_UPDATE_REQUIRED_ON_REVOCATION_CHANGE :: FreezeError where [freeze_defs]:
  "FREEZE_BARRIER_UPDATE_REQUIRED_ON_REVOCATION_CHANGE = \<lparr>fe_code = 96011, fe_reason = ''barrier_update_required_on_revocation_change''\<rparr>"
definition FREEZE_BARRIER_PCS_REFRESH_RATE_LIMITED :: FreezeError where [freeze_defs]:
  "FREEZE_BARRIER_PCS_REFRESH_RATE_LIMITED = \<lparr>fe_code = 96012, fe_reason = ''pcs_refresh_rate_limited''\<rparr>"
definition FREEZE_TSWE_SALT_MISMATCH :: FreezeError where [freeze_defs]:
  "FREEZE_TSWE_SALT_MISMATCH = \<lparr>fe_code = 922, fe_reason = ''msphf_seedctx_mismatch''\<rparr>"
definition FREEZE_SRX_REQUIRED :: FreezeError where [freeze_defs]:
  "FREEZE_SRX_REQUIRED = \<lparr>fe_code = 929, fe_reason = ''srx_required''\<rparr>"
definition FREEZE_SRX_INVALID :: FreezeError where [freeze_defs]:
  "FREEZE_SRX_INVALID = \<lparr>fe_code = 930, fe_reason = ''srx_invalid''\<rparr>"
definition FREEZE_SRX_SET_CONFLICT_PARENT :: FreezeError where [freeze_defs]:
  "FREEZE_SRX_SET_CONFLICT_PARENT = \<lparr>fe_code = 9076, fe_reason = ''set_conflict_parent''\<rparr>"
definition FREEZE_SRX_SET_CONFLICT_REVOKE :: FreezeError where [freeze_defs]:
  "FREEZE_SRX_SET_CONFLICT_REVOKE = \<lparr>fe_code = 9077, fe_reason = ''set_conflict_revoke''\<rparr>"
definition FREEZE_SRX_SET_CONFLICT_SUBSET :: FreezeError where [freeze_defs]:
  "FREEZE_SRX_SET_CONFLICT_SUBSET = \<lparr>fe_code = 9078, fe_reason = ''set_conflict_subset''\<rparr>"
definition FREEZE_SRX_HINT_UNDER :: FreezeError where [freeze_defs]:
  "FREEZE_SRX_HINT_UNDER = \<lparr>fe_code = 930, fe_reason = ''srx_hint_under''\<rparr>"
definition FREEZE_SRX_OVERSIZE_HINT :: FreezeError where [freeze_defs]:
  "FREEZE_SRX_OVERSIZE_HINT = \<lparr>fe_code = 930, fe_reason = ''srx_oversize_hint''\<rparr>"
definition FREEZE_SRX_FRONTIER_MISMATCH :: FreezeError where [freeze_defs]:
  "FREEZE_SRX_FRONTIER_MISMATCH = \<lparr>fe_code = 930, fe_reason = ''srx_frontier_mismatch''\<rparr>"
definition FREEZE_SRX_ANCHOR_MISSING :: FreezeError where [freeze_defs]:
  "FREEZE_SRX_ANCHOR_MISSING = \<lparr>fe_code = 930, fe_reason = ''srx_anchor_missing''\<rparr>"
definition FREEZE_SRX_ANCHOR_MISMATCH :: FreezeError where [freeze_defs]:
  "FREEZE_SRX_ANCHOR_MISMATCH = \<lparr>fe_code = 930, fe_reason = ''srx_anchor_mismatch''\<rparr>"
definition FREEZE_SRX_ANCHOR_OOB :: FreezeError where [freeze_defs]:
  "FREEZE_SRX_ANCHOR_OOB = \<lparr>fe_code = 930, fe_reason = ''srx_anchor_oob''\<rparr>"
definition FREEZE_SRX_ANCHOR_POOL_UNSORTED :: FreezeError where [freeze_defs]:
  "FREEZE_SRX_ANCHOR_POOL_UNSORTED = \<lparr>fe_code = 930, fe_reason = ''srx_anchor_pool_unsorted''\<rparr>"
definition FREEZE_SRX_COMMIT_MISMATCH :: FreezeError where [freeze_defs]:
  "FREEZE_SRX_COMMIT_MISMATCH = \<lparr>fe_code = 930, fe_reason = ''srx_commit_mismatch''\<rparr>"
definition FREEZE_SRX_SMALLWOOD_INVALID :: FreezeError where [freeze_defs]:
  "FREEZE_SRX_SMALLWOOD_INVALID = \<lparr>fe_code = 929, fe_reason = ''srx_smallwood_invalid''\<rparr>"
definition FREEZE_NONMEM_ADJ_INCOHERENT :: FreezeError where [freeze_defs]:
  "FREEZE_NONMEM_ADJ_INCOHERENT = \<lparr>fe_code = 9072, fe_reason = ''nonmem_adj_incoherent''\<rparr>"
definition FREEZE_CAPSS_INVALID :: FreezeError where [freeze_defs]:
  "FREEZE_CAPSS_INVALID = \<lparr>fe_code = 923, fe_reason = ''msphf_lin_invalid''\<rparr>"
definition FREEZE_VRF_INVALID :: FreezeError where [freeze_defs]:
  "FREEZE_VRF_INVALID = \<lparr>fe_code = 923, fe_reason = ''vrf_invalid''\<rparr>"
definition FREEZE_PROOFS_COMMIT_INVALID :: FreezeError where [freeze_defs]:
  "FREEZE_PROOFS_COMMIT_INVALID = \<lparr>fe_code = 923, fe_reason = ''proof_invalid''\<rparr>"
definition FREEZE_POP_INVALID :: FreezeError where [freeze_defs]:
  "FREEZE_POP_INVALID = \<lparr>fe_code = 921, fe_reason = ''msphf_crs_untrusted''\<rparr>"
definition FREEZE_BOOTSTRAP_INVALID :: FreezeError where [freeze_defs]:
  "FREEZE_BOOTSTRAP_INVALID = \<lparr>fe_code = 931, fe_reason = ''bootstrap_invalid''\<rparr>"
definition FREEZE_BOOTSTRAP_UNSUPPORTED :: FreezeError where [freeze_defs]:
  "FREEZE_BOOTSTRAP_UNSUPPORTED = \<lparr>fe_code = 932, fe_reason = ''bootstrap_unsupported''\<rparr>"
definition FREEZE_SUITE_DEPRECATED :: FreezeError where [freeze_defs]:
  "FREEZE_SUITE_DEPRECATED = \<lparr>fe_code = 934, fe_reason = ''suite_deprecated''\<rparr>"
definition FREEZE_SUITE_FORBIDDEN :: FreezeError where [freeze_defs]:
  "FREEZE_SUITE_FORBIDDEN = \<lparr>fe_code = 934, fe_reason = ''suite_forbidden''\<rparr>"

text \<open>The tables of the codes, in the order of the source.\<close>
definition FREEZE_ERRORS :: "FreezeError list" where
  "FREEZE_ERRORS =
    [FREEZE_SEEDCTX_MISMATCH, FREEZE_STARK_OVERSIZE, FREEZE_RHO_PARITY, FREEZE_MSPHF_RHO_PARITY,
     FREEZE_MH_HEADS_INVALID, FREEZE_EPOCHID_MISMATCH, FREEZE_HASH_CBOR, FREEZE_HASH_NONCANONICAL,
     FREEZE_HASH_LEAF_BIND, FREEZE_HASH_PROJ_FAIL, FREEZE_HASH_PATH_OVERSIZE, FREEZE_HASH_MEM_MALFORMED,
     FREEZE_FIELD_MISSING, FREEZE_TSWE_ALG_INVALID, FREEZE_MERKLE_SUITE_INVALID, FREEZE_KBROAD_ALG_INVALID,
     FREEZE_KBROAD_PARENT_MISMATCH, FREEZE_PARENT_EID_FORBIDDEN, FREEZE_MSPHF_CRS_INVALID, FREEZE_MERGE_JOIN_KEYS,
     FREEZE_PARAMS_ID_INVALID]"

definition FREEZE_FS_ERRORS :: "FreezeError list" where
  "FREEZE_FS_ERRORS =
    [FREEZE_FS_POLICY_WINDOW_INCOMPATIBLE, FREEZE_FS_JOIN_MISSING, FREEZE_FS_BASE_MISMATCH,
     FREEZE_FS_DEV_CHAIN_BREAK, FREEZE_FS_DEV_CHAIN_BIND_MISMATCH, FREEZE_FS_POLICY_VERSION_UNSUPPORTED,
     FREEZE_FS_FORWARD_JUMP_DEVICE, FREEZE_FS_FORWARD_JUMP_FIRST, FREEZE_FS_FORWARD_JUMP_GROUP,
     FREEZE_FS_CHECKPOINT_BACKDATE, FREEZE_FS_CHECKPOINT_MONOTONICITY]"

definition FREEZE_BARRIER_ERRORS :: "FreezeError list" where
  "FREEZE_BARRIER_ERRORS =
    [FREEZE_BARRIER_EXPECTEDPAIRS_FAILURE, FREEZE_BARRIER_UPDATER_INVALID, FREEZE_BARRIER_MERGE_DELEGATION_FORBIDDEN,
     FREEZE_BARRIER_PROACTIVE_FORBIDDEN, FREEZE_BARRIER_UPDATE_MALFORMED, FREEZE_BARRIER_TREE_HASH_CHAIN_FAILURE,
     FREEZE_BARRIER_TREE_SNAPSHOT_AUTH_FAILURE, FREEZE_BARRIER_GENESIS_REQUIRED,
     FREEZE_BARRIER_UPDATE_REQUIRED_ON_REVOCATION_CHANGE, FREEZE_BARRIER_PCS_REFRESH_RATE_LIMITED,
     FREEZE_BARRIER_NON_REVOCATION_REASON_FORBIDDEN_WHILE_PENDING_REVOCATIONS]"

definition FREEZE_PROOF_ERRORS :: "FreezeError list" where
  "FREEZE_PROOF_ERRORS =
    [FREEZE_SRX_REQUIRED, FREEZE_SRX_INVALID, FREEZE_SRX_SET_CONFLICT_PARENT, FREEZE_SRX_SET_CONFLICT_REVOKE,
     FREEZE_SRX_SET_CONFLICT_SUBSET, FREEZE_SRX_HINT_UNDER, FREEZE_SRX_OVERSIZE_HINT, FREEZE_SRX_FRONTIER_MISMATCH,
     FREEZE_SRX_ANCHOR_MISSING, FREEZE_SRX_ANCHOR_MISMATCH, FREEZE_SRX_ANCHOR_OOB, FREEZE_SRX_ANCHOR_POOL_UNSORTED,
     FREEZE_SRX_COMMIT_MISMATCH, FREEZE_SRX_SMALLWOOD_INVALID, FREEZE_NONMEM_ADJ_INCOHERENT, FREEZE_CAPSS_INVALID,
     FREEZE_VRF_INVALID, FREEZE_PROOFS_COMMIT_INVALID, FREEZE_POP_INVALID, FREEZE_BOOTSTRAP_INVALID,
     FREEZE_BOOTSTRAP_UNSUPPORTED, FREEZE_SUITE_DEPRECATED, FREEZE_SUITE_FORBIDDEN]"

datatype AcceptanceError = Freeze FreezeError | Msphf MsphfError

text \<open>\<open>From<MsphfError>\<close>: witness failures become freeze codes, every other error is passed through.\<close>
fun acc_err :: "MsphfError \<Rightarrow> AcceptanceError" where
  "acc_err (Witness CborMalformed) = Freeze FREEZE_HASH_CBOR"
| "acc_err (Witness NonCanonical) = Freeze FREEZE_HASH_NONCANONICAL"
| "acc_err (Witness LeafBindMismatch) = Freeze FREEZE_HASH_LEAF_BIND"
| "acc_err (Witness ProjEvalFail) = Freeze FREEZE_HASH_PROJ_FAIL"
| "acc_err (Witness PathOversize) = Freeze FREEZE_HASH_PATH_OVERSIZE"
| "acc_err (Unimplemented m) = Msphf (Unimplemented m)"
| "acc_err (Serialization m) = Msphf (Serialization m)"
| "acc_err (InvalidInput m) = Msphf (InvalidInput m)"
| "acc_err (WitnessReplayMismatch f) = Msphf (WitnessReplayMismatch f)"

text \<open>A check that freezes: \<open>if bad { return Err(AcceptanceError::Freeze(code)) }\<close>.\<close>
abbreviation freeze_unless :: "bool \<Rightarrow> FreezeError \<Rightarrow> AcceptanceError + unit" where
  "freeze_unless b code \<equiv> ensure b (Freeze code)"

abbreviation freeze_if :: "bool \<Rightarrow> FreezeError \<Rightarrow> AcceptanceError + unit" where
  "freeze_if b code \<equiv> ensure (\<not> b) (Freeze code)"

end
