(* ===== verification/HeaderKeys.thy ===== *)
theory HeaderKeys
  imports Prelude
begin

text \<open>
  Header keys of an anchor (\<open>msphf-orchestrator/src/hdr.rs\<close>): the indices of the CBOR map an anchor carries.
\<close>

named_theorems hdr_keys \<open>the numbers of the header keys\<close>

definition HDR_TSWE_ALG :: u64 where [hdr_keys]: "HDR_TSWE_ALG = 90"
definition HDR_SEED_CTX_HASH :: u64 where [hdr_keys]: "HDR_SEED_CTX_HASH = 91"
definition HDR_MERKLE_SUITE :: u64 where [hdr_keys]: "HDR_MERKLE_SUITE = 92"
definition HDR_RHO_COMMIT :: u64 where [hdr_keys]: "HDR_RHO_COMMIT = 93"
definition HDR_SEED_BUNDLE_COMMIT :: u64 where [hdr_keys]: "HDR_SEED_BUNDLE_COMMIT = 94"
definition HDR_VRF_PROOF :: u64 where [hdr_keys]: "HDR_VRF_PROOF = 95"
definition HDR_HP_BYTES :: u64 where [hdr_keys]: "HDR_HP_BYTES = 97"
definition HDR_CRS_ID :: u64 where [hdr_keys]: "HDR_CRS_ID = 98"
definition HDR_HP_COMMIT :: u64 where [hdr_keys]: "HDR_HP_COMMIT = 99"
definition HDR_KBROAD_ALG :: u64 where [hdr_keys]: "HDR_KBROAD_ALG = 104"
definition HDR_KBROAD_PUB :: u64 where [hdr_keys]: "HDR_KBROAD_PUB = 105"
definition HDR_PARAMS_ID :: u64 where [hdr_keys]: "HDR_PARAMS_ID = 106"
definition HDR_POP_ALG :: u64 where [hdr_keys]: "HDR_POP_ALG = 107"
definition HDR_POP_PK :: u64 where [hdr_keys]: "HDR_POP_PK = 108"
definition HDR_POP_SIG :: u64 where [hdr_keys]: "HDR_POP_SIG = 109"
definition HDR_PARENT_ROOT :: u64 where [hdr_keys]: "HDR_PARENT_ROOT = 110"
definition HDR_JOIN_DELTA_ROOT :: u64 where [hdr_keys]: "HDR_JOIN_DELTA_ROOT = 111"
definition HDR_VRF_ID :: u64 where [hdr_keys]: "HDR_VRF_ID = 116"
definition HDR_PROOF_MODE :: u64 where [hdr_keys]: "HDR_PROOF_MODE = 119"
definition HDR_SRX_MODE :: u64 where [hdr_keys]: "HDR_SRX_MODE = 120"
definition HDR_SRX_COMMIT :: u64 where [hdr_keys]: "HDR_SRX_COMMIT = 121"
definition HDR_SRX_PAYLOAD :: u64 where [hdr_keys]: "HDR_SRX_PAYLOAD = 122"
definition HDR_SRX_HINT_COUNTS :: u64 where [hdr_keys]: "HDR_SRX_HINT_COUNTS = 123"
definition HDR_SRX_HINT_SIZES :: u64 where [hdr_keys]: "HDR_SRX_HINT_SIZES = 124"
definition HDR_PROOFS_COMMIT :: u64 where [hdr_keys]: "HDR_PROOFS_COMMIT = 125"
definition HDR_SRX_ROOT_SW :: u64 where [hdr_keys]: "HDR_SRX_ROOT_SW = 160"
definition HDR_SRX_SMALLWOOD :: u64 where [hdr_keys]: "HDR_SRX_SMALLWOOD = 161"
definition HDR_MH_HEADS :: u64 where [hdr_keys]: "HDR_MH_HEADS = 130"
definition HDR_ROLLUP_PIVOT_WEID :: u64 where [hdr_keys]: "HDR_ROLLUP_PIVOT_WEID = 131"
definition HDR_ROLLUP_PROVENANCE_COMMIT :: u64 where [hdr_keys]: "HDR_ROLLUP_PROVENANCE_COMMIT = 132"
definition HDR_ROLLUP_EPOCH_REPLAY :: u64 where [hdr_keys]: "HDR_ROLLUP_EPOCH_REPLAY = 133"
definition HDR_ROLLUP_VCK_COMMIT :: u64 where [hdr_keys]: "HDR_ROLLUP_VCK_COMMIT = 134"
definition HDR_MERGE_DELEGATION_SIG :: u64 where [hdr_keys]: "HDR_MERGE_DELEGATION_SIG = 135"
definition HDR_KBROAD_REPLAY :: u64 where [hdr_keys]: "HDR_KBROAD_REPLAY = 136"
definition HDR_ROLLUP_FS_MODE :: u64 where [hdr_keys]: "HDR_ROLLUP_FS_MODE = 138"
definition HDR_BOOTSTRAP_ALG :: u64 where [hdr_keys]: "HDR_BOOTSTRAP_ALG = 170"
definition HDR_BOOTSTRAP_SIG :: u64 where [hdr_keys]: "HDR_BOOTSTRAP_SIG = 171"
definition HDR_BOOTSTRAP_PK :: u64 where [hdr_keys]: "HDR_BOOTSTRAP_PK = 172"
definition HDR_BARRIER_UPDATE :: u64 where [hdr_keys]: "HDR_BARRIER_UPDATE = 175"
definition HDR_BARRIER_VERSION :: u64 where [hdr_keys]: "HDR_BARRIER_VERSION = 176"
definition HDR_BARRIER_LEAF_PK :: u64 where [hdr_keys]: "HDR_BARRIER_LEAF_PK = 177"
definition HDR_BARRIER_UPDATE_REASON :: u64 where [hdr_keys]: "HDR_BARRIER_UPDATE_REASON = 178"
definition HDR_JOIN_FINALIZE_AUTH :: u64 where [hdr_keys]: "HDR_JOIN_FINALIZE_AUTH = 179"
definition HDR_BARRIER_HISTORY_COMMITMENT :: u64 where [hdr_keys]: "HDR_BARRIER_HISTORY_COMMITMENT = 180"
definition HDR_BARRIER_FULL_VERIFICATION_RECEIPT :: u64 where [hdr_keys]: "HDR_BARRIER_FULL_VERIFICATION_RECEIPT = 181"
definition HDR_BARRIER_GLOBAL_HISTORY_ATTESTATION :: u64 where [hdr_keys]: "HDR_BARRIER_GLOBAL_HISTORY_ATTESTATION = 182"
definition HDR_BARRIER_FULL_VERIFICATION_WITNESS :: u64 where [hdr_keys]: "HDR_BARRIER_FULL_VERIFICATION_WITNESS = 183"
definition HDR_POLICY_VERSION :: u64 where [hdr_keys]: "HDR_POLICY_VERSION = 140"
definition HDR_FS_POLICY_VERSION :: u64 where [hdr_keys]: "HDR_FS_POLICY_VERSION = 139"
definition HDR_FS_EC :: u64 where [hdr_keys]: "HDR_FS_EC = 141"
definition HDR_FS_EPOCH_COMMIT :: u64 where [hdr_keys]: "HDR_FS_EPOCH_COMMIT = 142"
definition HDR_FS_EPOCH_BASE_TS :: u64 where [hdr_keys]: "HDR_FS_EPOCH_BASE_TS = 143"
definition HDR_FS_EVOLUTION_BOUNDARY :: u64 where [hdr_keys]: "HDR_FS_EVOLUTION_BOUNDARY = 144"
definition HDR_FS_PURGE_TIMES :: u64 where [hdr_keys]: "HDR_FS_PURGE_TIMES = 145"
definition HDR_FS_CAPSS :: u64 where [hdr_keys]: "HDR_FS_CAPSS = 146"
definition HDR_FS_DEV_PREV_COMMIT :: u64 where [hdr_keys]: "HDR_FS_DEV_PREV_COMMIT = 152"
definition HDR_FS_DEV_COMMIT :: u64 where [hdr_keys]: "HDR_FS_DEV_COMMIT = 153"
definition HDR_VRF_MASK_A :: u64 where [hdr_keys]: "HDR_VRF_MASK_A = 154"
definition HDR_VRF_MASK_B :: u64 where [hdr_keys]: "HDR_VRF_MASK_B = 155"
definition HDR_VRF_PUBLIC_KEY :: u64 where [hdr_keys]: "HDR_VRF_PUBLIC_KEY = 156"
definition HDR_FS_CHECKPOINT_EC :: u64 where [hdr_keys]: "HDR_FS_CHECKPOINT_EC = 148"
definition HDR_REVOKED_SINCE_ROOT :: u64 where [hdr_keys]: "HDR_REVOKED_SINCE_ROOT = 112"
definition HDR_REVOKED_ROOT :: u64 where [hdr_keys]: "HDR_REVOKED_ROOT = 113"

text \<open>The table of the keys, in the order of the source.\<close>
definition HDR_KEYS :: "u64 list" where
  "HDR_KEYS =
    [HDR_TSWE_ALG, HDR_SEED_CTX_HASH, HDR_MERKLE_SUITE, HDR_RHO_COMMIT, HDR_SEED_BUNDLE_COMMIT, HDR_VRF_PROOF,
     HDR_HP_BYTES, HDR_CRS_ID, HDR_HP_COMMIT, HDR_KBROAD_ALG, HDR_KBROAD_PUB, HDR_PARAMS_ID, HDR_POP_ALG, HDR_POP_PK,
     HDR_POP_SIG, HDR_PARENT_ROOT, HDR_JOIN_DELTA_ROOT, HDR_VRF_ID, HDR_PROOF_MODE, HDR_SRX_MODE, HDR_SRX_COMMIT,
     HDR_SRX_PAYLOAD, HDR_SRX_HINT_COUNTS, HDR_SRX_HINT_SIZES, HDR_PROOFS_COMMIT, HDR_SRX_ROOT_SW, HDR_SRX_SMALLWOOD,
     HDR_MH_HEADS, HDR_ROLLUP_PIVOT_WEID, HDR_ROLLUP_PROVENANCE_COMMIT, HDR_ROLLUP_EPOCH_REPLAY,
     HDR_ROLLUP_VCK_COMMIT, HDR_MERGE_DELEGATION_SIG, HDR_KBROAD_REPLAY, HDR_ROLLUP_FS_MODE, HDR_BOOTSTRAP_ALG,
     HDR_BOOTSTRAP_SIG, HDR_BOOTSTRAP_PK, HDR_BARRIER_UPDATE, HDR_BARRIER_VERSION, HDR_BARRIER_LEAF_PK,
     HDR_BARRIER_UPDATE_REASON, HDR_JOIN_FINALIZE_AUTH, HDR_BARRIER_HISTORY_COMMITMENT,
     HDR_BARRIER_FULL_VERIFICATION_RECEIPT, HDR_BARRIER_GLOBAL_HISTORY_ATTESTATION,
     HDR_BARRIER_FULL_VERIFICATION_WITNESS, HDR_POLICY_VERSION, HDR_FS_POLICY_VERSION, HDR_FS_EC,
     HDR_FS_EPOCH_COMMIT, HDR_FS_EPOCH_BASE_TS, HDR_FS_EVOLUTION_BOUNDARY, HDR_FS_PURGE_TIMES, HDR_FS_CAPSS,
     HDR_FS_DEV_PREV_COMMIT, HDR_FS_DEV_COMMIT, HDR_VRF_MASK_A, HDR_VRF_MASK_B, HDR_VRF_PUBLIC_KEY,
     HDR_FS_CHECKPOINT_EC, HDR_REVOKED_SINCE_ROOT, HDR_REVOKED_ROOT]"

text \<open>No two header fields share a key.\<close>
lemma hdr_keys_distinct: "distinct HDR_KEYS"
  by (simp add: HDR_KEYS_def hdr_keys)

end
