(* ===== verification/Hashing.thy ===== *)
theory Hashing
  imports Rpo256 HeaderKeys "HOL-Library.Countable"
begin

text \<open>
  The labelled hashes of the protocol: \<open>msphf-core/src/hash.rs\<close>, \<open>instance.rs\<close>, \<open>ds.rs\<close>, \<open>serde_utils.rs\<close>, the
  seed-context derivation of \<open>anchor-seed/src/lib.rs\<close> and the identifier helpers of
  \<open>msphf-orchestrator/src/lib.rs\<close>.

  A value that the code serialises is translated to the CBOR data item that serde produces for it: a struct is a map
  from field names, a tuple struct an array, a newtype its content, \<open>serde_bytes\<close> a byte string.  The encoder
  (\<open>ciborium\<close>), BLAKE3 in derive-key mode and ML-DSA verification are third-party packages: the parameter \<open>Ext\<close>.
\<close>

section \<open>CBOR values and the external packages\<close>

datatype cbor =
    CInt int
  | CBytes bytes
  | CFloat u64
  | CText string
  | CBool bool
  | CNull
  | CTag u64 cbor
  | CArray "cbor list"
  | CMap "(cbor \<times> cbor) list"

type_synonym header = "(u64, cbor) btree"

datatype MlDsa65VerifyError =
    InvalidPublicKeyLength | InvalidSignatureLength | InvalidPublicKey | InvalidSignature | VerificationFailed

record Ext =
  rpo :: RpoExt
  cbor_ser :: "cbor \<Rightarrow> string + bytes"
  cbor_de :: "bytes \<Rightarrow> cbor option"
  blake3_derive :: "string \<Rightarrow> bytes \<Rightarrow> hash32"
  dilithium_verify :: "bytes \<Rightarrow> bytes \<Rightarrow> bytes \<Rightarrow> MlDsa65VerifyError + unit"

definition cstruct :: "(string \<times> cbor) list \<Rightarrow> cbor" where
  "cstruct fs = CMap (map (\<lambda>(k, v). (CText k, v)) fs)"

definition cu64 :: "u64 \<Rightarrow> cbor" where
  "cu64 n = CInt (uint n)"

primrec copt_bytes :: "bytes option \<Rightarrow> cbor" where
  "copt_bytes None = CNull"
| "copt_bytes (Some b) = CBytes b"

text \<open>\<open>str::as_bytes\<close>: a string is kept as the list of its UTF-8 code units.\<close>
definition as_bytes :: "string \<Rightarrow> bytes" where
  "as_bytes s = map (\<lambda>c. of_nat (of_char c)) s"

section \<open>Labelled hashing\<close>

definition CITY_G_PREFIX :: bytes where
  "CITY_G_PREFIX = as_bytes ''city-g|''"

definition CITY_G_HL_DERIVE_CTX :: string where
  "CITY_G_HL_DERIVE_CTX = ''city-g|h_l|v1''"

definition validate_label :: "string \<Rightarrow> MsphfError + unit" where
  "validate_label label =
     (if take 4 label = ''xof|''
      then Inl (InvalidInput ''label must not start with 'xof|' (reserved for XOF namespace)'')
      else if 0 \<in> set (as_bytes label) then Inl (InvalidInput ''label must not contain embedded NUL bytes'')
      else Inr ())"

definition to_cbor_vec :: "Ext \<Rightarrow> cbor \<Rightarrow> MsphfError + bytes" where
  "to_cbor_vec E v = map_err Serialization (cbor_ser E v)"

definition hl_preimage :: "string \<Rightarrow> bytes \<Rightarrow> bytes" where
  "hl_preimage label enc = CITY_G_PREFIX @ as_bytes label @ [0] @ enc"

definition h_l :: "Ext \<Rightarrow> string \<Rightarrow> cbor \<Rightarrow> MsphfError + hash32" where
  "h_l E label v =
     tryE (validate_label label) (\<lambda>_.
     tryE (map_err Serialization (cbor_ser E v)) (\<lambda>enc.
     Inr (blake3_derive E CITY_G_HL_DERIVE_CTX (hl_preimage label enc))))"

definition h_branch_bytes ::
  "Ext \<Rightarrow> string \<Rightarrow> string \<Rightarrow> string \<Rightarrow> string \<Rightarrow> bytes list \<Rightarrow> MsphfError + hash32" where
  "h_branch_bytes E label branch crs_id params_id args =
     h_l E label (cstruct [(''branch'', CText branch), (''crs'', CText crs_id), (''params'', CText params_id),
       (''args'', CArray (map CBytes args))])"

definition h_epoch :: "Ext \<Rightarrow> cbor \<Rightarrow> cbor \<Rightarrow> MsphfError + hash32" where
  "h_epoch E xk y = h_l E ''msphf/epoch'' (CArray [xk, y])"

definition eid_from_epoch :: "Ext \<Rightarrow> bytes \<Rightarrow> MsphfError + hash32" where
  "eid_from_epoch E epoch_key = h_l E ''we/eid'' (CBytes epoch_key)"

definition hash_bytes_with_label :: "Ext \<Rightarrow> string \<Rightarrow> bytes \<Rightarrow> MsphfError + hash32" where
  "hash_bytes_with_label E label b = h_l E label (CBytes b)"

section \<open>The public instance\<close>

record AnchorInstance =
  ai_gid :: bytes
  ai_cat :: bytes
  ai_we_epoch_id :: hash32
  ai_anchor_hdr_ctx :: bytes
  ai_tswe_salt_hash :: bytes
  ai_parent_root :: bytes
  ai_join_delta_root :: bytes
  ai_revoked_since_prev_root :: bytes
  ai_revoked_root :: bytes
  ai_pox_r_commit :: "bytes option"
  ai_msphf_hp_commit :: "bytes option"

definition as_cbor_tuple :: "AnchorInstance \<Rightarrow> cbor" where
  "as_cbor_tuple a = CArray [CBytes (ai_gid a), CBytes (ai_cat a), CBytes (ai_we_epoch_id a),
     CBytes (ai_anchor_hdr_ctx a), CBytes (ai_tswe_salt_hash a), CBytes (ai_parent_root a),
     CBytes (ai_join_delta_root a), CBytes (ai_revoked_since_prev_root a), CBytes (ai_revoked_root a),
     copt_bytes (ai_pox_r_commit a)]"

definition to_cbor_bytes :: "Ext \<Rightarrow> AnchorInstance \<Rightarrow> MsphfError + bytes" where
  "to_cbor_bytes E a = to_cbor_vec E (as_cbor_tuple a)"

definition xk_hash :: "Ext \<Rightarrow> AnchorInstance \<Rightarrow> MsphfError + hash32" where
  "xk_hash E a = h_l E ''msphf/xk'' (as_cbor_tuple a)"

definition epoch_key :: "Ext \<Rightarrow> AnchorInstance \<Rightarrow> bytes \<Rightarrow> MsphfError + hash32" where
  "epoch_key E a y_star = h_epoch E (as_cbor_tuple a) (CBytes y_star)"

definition tswe_salt_hash :: "Ext \<Rightarrow> bytes \<Rightarrow> bytes \<Rightarrow> MsphfError + hash32" where
  "tswe_salt_hash E gid parent_root =
     h_l E ''tswe/salt'' (cstruct [(''gid'', CBytes gid), (''parent_root'', CBytes parent_root)])"

section \<open>Seed context\<close>

definition VOLATILE_KEYS :: "u64 list" where
  "VOLATILE_KEYS = [11, 16, 43, 46, 89, 91]"

definition FORBIDDEN_SEED_CTX_KEYS :: "u64 list" where
  "FORBIDDEN_SEED_CTX_KEYS =
     [93, 94, 95, 96, 97, 98, 99, 100, 102, 107, 108, 109, 116, 118, 119, 125, 120, 121, 122, 123, 124,
      130, 131, 132, 133, 134, 135, 136, 137, 138, 144, 145, 146, 147, 148, 154, 155, 156, 170, 171, 172]"

definition seed_ctx_key :: "u64 \<Rightarrow> bool" where
  "seed_ctx_key k \<longleftrightarrow> k \<notin> set VOLATILE_KEYS \<and> k \<notin> set FORBIDDEN_SEED_CTX_KEYS"

definition seed_ctx_map :: "header \<Rightarrow> header" where
  "seed_ctx_map h = filter (\<lambda>(k, v). seed_ctx_key k) h"

definition cheader :: "header \<Rightarrow> cbor" where
  "cheader h = CMap (map (\<lambda>(k, v). (cu64 k, v)) h)"

definition build_anchor_seed_ctx :: "Ext \<Rightarrow> header \<Rightarrow> MsphfError + bytes" where
  "build_anchor_seed_ctx E h = map_err Serialization (cbor_ser E (cheader (seed_ctx_map h)))"

definition compute_seed_ctx_hash :: "Ext \<Rightarrow> bytes \<Rightarrow> MsphfError + hash32" where
  "compute_seed_ctx_hash E ctx = h_l E ''seedctx'' (CBytes ctx)"

record SeedCommitFields =
  sc_gid :: bytes
  sc_cat :: bytes
  sc_we_epoch_id :: hash32

definition compute_seed_commit :: "Ext \<Rightarrow> bytes \<Rightarrow> SeedCommitFields \<Rightarrow> MsphfError + hash32" where
  "compute_seed_commit E ctx f =
     h_l E ''msphf/kgen/seed'' (cstruct [(''anchor_seed_ctx'', CBytes ctx), (''gid'', CBytes (sc_gid f)),
       (''cat'', CBytes (sc_cat f)), (''we_epoch_id'', CBytes (sc_we_epoch_id f))])"

definition compute_seed_bundle_commit ::
  "Ext \<Rightarrow> bytes \<Rightarrow> hash32 \<Rightarrow> bytes \<Rightarrow> bytes \<Rightarrow> hash32 \<Rightarrow> MsphfError + hash32" where
  "compute_seed_bundle_commit E ctx rho_commit gid cat parent_root =
     h_l E ''msphf/seed/bundle'' (cstruct [(''anchor_seed_ctx'', CBytes ctx), (''rho_commit'', CBytes rho_commit),
       (''gid'', CBytes gid), (''cat'', CBytes cat), (''parent_root'', CBytes parent_root)])"

definition derive_seed_artifacts ::
  "Ext \<Rightarrow> header \<Rightarrow> SeedCommitFields \<Rightarrow> MsphfError + bytes \<times> hash32 \<times> hash32" where
  "derive_seed_artifacts E h f =
     tryE (build_anchor_seed_ctx E h) (\<lambda>ctx.
     tryE (compute_seed_ctx_hash E ctx) (\<lambda>ctx_hash.
     tryE (compute_seed_commit E ctx f) (\<lambda>seed_commit.
     Inr (ctx, ctx_hash, seed_commit))))"

section \<open>Identifiers of the orchestrator\<close>

definition compute_window_id :: "Ext \<Rightarrow> bytes \<Rightarrow> hash32 \<Rightarrow> hash32 \<Rightarrow> MsphfError + hash32" where
  "compute_window_id E gid parent_root seed_ctx_hash =
     h_l E ''mhw/window'' (cstruct [(''gid'', CBytes gid), (''parent_root'', CBytes parent_root),
       (''seed_ctx_hash'', CBytes seed_ctx_hash)])"

definition derive_we_epoch_id :: "Ext \<Rightarrow> bytes \<Rightarrow> bytes \<Rightarrow> hash32 \<Rightarrow> MsphfError + hash32" where
  "derive_we_epoch_id E gid parent_root seed_ctx_hash =
     h_l E ''weid'' (cstruct [(''gid'', CBytes gid), (''parent_root'', CBytes parent_root),
       (''seed_ctx_hash'', CBytes seed_ctx_hash)])"

definition derive_rho_from_pop :: "Ext \<Rightarrow> bytes \<Rightarrow> hash32 \<Rightarrow> MsphfError + hash32 \<times> hash32" where
  "derive_rho_from_pop E pop_sig xk =
     tryE (h_l E ''msphf/rho/der'' (cstruct [(''pop_sig'', CBytes pop_sig), (''xk_hash'', CBytes xk)])) (\<lambda>rho_raw.
     tryE (hash_bytes_with_label E ''msphf/kgen/rho'' rho_raw) (\<lambda>rho_commit.
     Inr (rho_raw, rho_commit)))"

definition derive_nonce :: "Ext \<Rightarrow> string \<Rightarrow> hash32 \<Rightarrow> hash32 \<Rightarrow> MsphfError + bytes" where
  "derive_nonce E label xk commit =
     tryE (h_l E label (cstruct [(''xk_hash'', CBytes xk), (''hp_commit'', CBytes commit)])) (\<lambda>derived.
     Inr (take 12 derived))"

definition compute_proofs_commit_bytes ::
  "Ext \<Rightarrow> bytes \<Rightarrow> bytes \<Rightarrow> bytes option \<Rightarrow> bytes option \<Rightarrow> MsphfError + hash32" where
  "compute_proofs_commit_bytes E vrf_pi fs_capss srx_root_sw srx_smallwood =
     (if (srx_root_sw \<noteq> None) \<noteq> (srx_smallwood \<noteq> None)
      then Inl (InvalidInput ''srx_root_sw and srx_smallwood must be both present or both absent'')
      else h_l E ''msphf/proofs'' (CArray (map CBytes
        ([vrf_pi, fs_capss] @ (case srx_root_sw of None \<Rightarrow> [] | Some r \<Rightarrow> [r])
           @ (case srx_smallwood of None \<Rightarrow> [] | Some p \<Rightarrow> [p])))))"

text \<open>\<open>u64::try_from(Integer)\<close>: CBOR integers lie in \<open>-2^64 .. 2^64 - 1\<close>.\<close>
definition u64_try_from :: "int \<Rightarrow> u64 option" where
  "u64_try_from i = (if 0 \<le> i \<and> i < 2 ^ 64 then Some (of_int i) else None)"

definition parse_barrier_version_for_fs_dev_chain :: "header \<Rightarrow> MsphfError + u64" where
  "parse_barrier_version_for_fs_dev_chain h =
     (case bt_get h HDR_BARRIER_VERSION of
        None \<Rightarrow> Inl (InvalidInput ''missing barrier_version'')
      | Some (CInt i) \<Rightarrow> ok_or (InvalidInput ''barrier_version out of range'') (u64_try_from i)
      | Some _ \<Rightarrow> Inl (InvalidInput ''barrier_version must be uint''))"

definition barrier_update_digest_for_fs_dev_chain :: "Ext \<Rightarrow> header \<Rightarrow> MsphfError + hash32" where
  "barrier_update_digest_for_fs_dev_chain E h =
     (case bt_get h HDR_BARRIER_UPDATE of
        None \<Rightarrow> Inr zero_hash
      | Some (CBytes raw) \<Rightarrow> h_l E ''barrier/update/digest'' (CBytes raw)
      | Some _ \<Rightarrow> Inl (InvalidInput ''barrier_update must be bytes''))"

definition compute_fs_dev_commit_v2 ::
  "Ext \<Rightarrow> bytes \<Rightarrow> u64 \<Rightarrow> hash32 \<Rightarrow> u64 \<Rightarrow> hash32 \<Rightarrow> MsphfError + hash32" where
  "compute_fs_dev_commit_v2 E device_pk fs_ec prev_commit barrier_version barrier_update_digest =
     h_l E ''fs/dev/chain/v2'' (cstruct [(''device_pk'', CBytes device_pk), (''fs_ec'', cu64 fs_ec),
       (''prev_commit'', CBytes prev_commit), (''barrier_version'', cu64 barrier_version),
       (''barrier_update_digest'', CBytes barrier_update_digest)])"

datatype LeafIdMode = PerGroup | Global

text \<open>\<open>LeafIdTuple\<close> and \<open>LeafIdTupleGlobal\<close>.\<close>
primrec leaf_id_tuple :: "LeafIdMode \<Rightarrow> bytes \<Rightarrow> string \<Rightarrow> bytes \<Rightarrow> cbor" where
  "leaf_id_tuple PerGroup gid alg pk = CArray [CBytes gid, CText alg, CBytes pk]"
| "leaf_id_tuple Global gid alg pk = CArray [CText alg, CBytes pk]"

definition compute_leaf_id :: "Ext \<Rightarrow> LeafIdMode \<Rightarrow> bytes \<Rightarrow> string \<Rightarrow> bytes \<Rightarrow> MsphfError + hash32" where
  "compute_leaf_id E mode gid alg pk = h_l E ''leaf-id'' (leaf_id_tuple mode gid alg pk)"

text \<open>\<open>cityg_pqc::verify_ml_dsa_65_detached_signature\<close>: length checks in front of the Dilithium backend.\<close>
definition verify_cityg_pop_signature :: "Ext \<Rightarrow> bytes \<Rightarrow> bytes \<Rightarrow> bytes \<Rightarrow> MlDsa65VerifyError + unit" where
  "verify_cityg_pop_signature E pk msg sig =
     (if length pk \<noteq> 2592 then Inl InvalidPublicKeyLength
      else if length sig \<noteq> 4627 then Inl InvalidSignatureLength
      else dilithium_verify E pk msg sig)"

section \<open>Lemmas\<close>

lemma as_bytes_inject [simp]: "as_bytes s = as_bytes t \<longleftrightarrow> s = t"
proof -
  have "inj (\<lambda>c. of_nat (of_char c) :: u8)"
  proof (rule injI)
    fix c d :: char
    assume "(of_nat (of_char c) :: u8) = of_nat (of_char d)"
    then have "unat (of_nat (of_char c) :: u8) = unat (of_nat (of_char d) :: u8)"
      by simp
    then show "c = d"
      by (simp add: unat_of_nat)
  qed
  then show ?thesis
    by (simp add: as_bytes_def inj_map_eq_map)
qed

lemma cu64_inject [simp]: "cu64 a = cu64 b \<longleftrightarrow> a = b"
  by (auto simp: cu64_def intro: unsigned_word_eqI)

lemma validate_label_Inr [result_simps]:
  "validate_label l = Inr u \<longleftrightarrow> take 4 l \<noteq> ''xof|'' \<and> 0 \<notin> set (as_bytes l)"
  by (simp add: validate_label_def)

lemma zero_separated:
  "xs @ (0 :: u8) # r = ys @ 0 # r' \<Longrightarrow> 0 \<notin> set xs \<Longrightarrow> 0 \<notin> set ys \<Longrightarrow> xs = ys \<and> r = r'"
proof (induction xs arbitrary: ys)
  case Nil
  then show ?case by (cases ys) auto
next
  case (Cons x xs)
  then show ?case by (cases ys) auto
qed

lemma hl_preimage_eqD:
  "hl_preimage l e = hl_preimage l' e' \<Longrightarrow> validate_label l = Inr () \<Longrightarrow> validate_label l' = Inr () \<Longrightarrow>
     l = l' \<and> e = e'"
  using zero_separated [of "as_bytes l" e "as_bytes l'" e'] by (simp add: hl_preimage_def result_simps)

lemma h_l_Inr [result_simps]:
  "h_l E l v = Inr d \<longleftrightarrow> validate_label l = Inr () \<and>
     (\<exists>enc. cbor_ser E v = Inr enc \<and> d = blake3_derive E CITY_G_HL_DERIVE_CTX (hl_preimage l enc))"
  by (auto simp: h_l_def tryE_eq_Inr map_err_eq_Inr)

lemma seed_ctx_map_get: "bt_inv h \<Longrightarrow> bt_get (seed_ctx_map h) k = (if seed_ctx_key k then bt_get h k else None)"
  by (induction h) (auto simp: seed_ctx_map_def bt_get_below)

lemma seed_ctx_map_insert:
  "bt_inv h \<Longrightarrow> \<not> seed_ctx_key k \<Longrightarrow> seed_ctx_map (bt_insert k v h) = seed_ctx_map h"
  by (induction k v h rule: bt_insert.induct) (auto simp: seed_ctx_map_def)

lemma seed_ctx_map_remove:
  "bt_inv h \<Longrightarrow> \<not> seed_ctx_key k \<Longrightarrow> seed_ctx_map (bt_remove k h) = seed_ctx_map h"
  by (induction k h rule: bt_remove.induct) (auto simp: seed_ctx_map_def)

lemma cheader_inject [simp]: "cheader h = cheader h' \<longleftrightarrow> h = h'"
proof -
  have "inj (\<lambda>(k, v). (cu64 k, v :: cbor))"
    by (auto simp: inj_def)
  from inj_map_eq_map [OF this] show ?thesis
    by (simp add: cheader_def)
qed

text \<open>The encoder loses nothing: the round trip that \<open>ciborium\<close> documents, read as injectivity.\<close>
definition ser_injective :: "Ext \<Rightarrow> bool" where
  "ser_injective E \<longleftrightarrow> (\<forall>v w b. cbor_ser E v = Inr b \<longrightarrow> cbor_ser E w = Inr b \<longrightarrow> v = w)"

section \<open>Properties\<close>

text \<open>Domain separation of \<open>h_l\<close>.  If two calls return the same digest, then either both hashed the same bytes
  under the same label, or the two byte strings given to BLAKE3 are different and collide.\<close>
theorem h_l_domain_separated:
  assumes "h_l E l v = Inr d" and "h_l E l' v' = Inr d"
  shows "(l = l' \<and> cbor_ser E v = cbor_ser E v') \<or>
    (\<exists>enc enc'. cbor_ser E v = Inr enc \<and> cbor_ser E v' = Inr enc' \<and> hl_preimage l enc \<noteq> hl_preimage l' enc' \<and>
       blake3_derive E CITY_G_HL_DERIVE_CTX (hl_preimage l enc) =
       blake3_derive E CITY_G_HL_DERIVE_CTX (hl_preimage l' enc'))"
  using assms hl_preimage_eqD by (fastforce simp: h_l_Inr)

text \<open>The seed artifacts bind exactly the non-volatile part of the header.  Writing or removing a header key that
  is volatile or excluded changes neither the seed context, nor its hash, nor the seed commitment.\<close>
theorem seed_artifacts_ignore_excluded_keys:
  assumes "bt_inv h" and "\<not> seed_ctx_key k"
  shows "derive_seed_artifacts E (bt_insert k v h) f = derive_seed_artifacts E h f \<and>
    derive_seed_artifacts E (bt_remove k h) f = derive_seed_artifacts E h f"
  using assms by (simp add: derive_seed_artifacts_def build_anchor_seed_ctx_def seed_ctx_map_insert seed_ctx_map_remove)

text \<open>Conversely, headers with the same seed context agree on every key that is not excluded, when the CBOR
  encoder is injective.\<close>
theorem seed_ctx_binds_retained_keys:
  assumes "ser_injective E" and "bt_inv h" and "bt_inv h'"
    and "build_anchor_seed_ctx E h = Inr ctx" and "build_anchor_seed_ctx E h' = Inr ctx" and "seed_ctx_key k"
  shows "bt_get h k = bt_get h' k"
proof -
  have "seed_ctx_map h = seed_ctx_map h'"
    using assms(1,4,5) unfolding ser_injective_def build_anchor_seed_ctx_def map_err_eq_Inr
    by (metis cheader_inject)
  then show ?thesis
    using seed_ctx_map_get [OF assms(2), of k] seed_ctx_map_get [OF assms(3), of k] assms(6) by simp
qed

section \<open>Instances\<close>

text \<open>A concrete instance of the packages: an injective encoder and a transparent stand-in for the hash.\<close>
instance cbor :: countable
  by countable_datatype

definition sample_ext :: Ext where
  "sample_ext = \<lparr>rpo = sample_rpo, cbor_ser = (\<lambda>v. Inr (replicate (to_nat v) 0)), cbor_de = (\<lambda>_. None),
     blake3_derive = (\<lambda>c b. take 32 (b @ replicate 32 0)), dilithium_verify = (\<lambda>_ _ _. Inr ())\<rparr>"

definition sample_fields :: SeedCommitFields where
  "sample_fields = \<lparr>sc_gid = [1], sc_cat = [2], sc_we_epoch_id = zero_hash\<rparr>"

lemma sample_ser_injective: "ser_injective sample_ext"
proof -
  have "v = w" if "replicate (to_nat v) (0::u8) = replicate (to_nat w) 0" for v w :: cbor
    using arg_cong [OF that, of length] by simp
  then show ?thesis
    by (auto simp: ser_injective_def sample_ext_def)
qed

lemma take_zero_padded:
  "length p = k \<Longrightarrow> k \<le> m \<Longrightarrow> take m (p @ replicate n 0 @ replicate m 0) = p @ replicate (m - k) 0"
  using diff_le_self [of m k] by (simp add: min_def replicate_add [symmetric] trans_le_add2)

lemma sample_digest:
  assumes "validate_label l = Inr ()" and "length l \<le> 24"
  shows "h_l sample_ext l v = Inr (hl_preimage l [] @ replicate (24 - length l) 0)"
proof -
  have "length (hl_preimage l []) = 8 + length l"
    by (simp add: hl_preimage_def CITY_G_PREFIX_def as_bytes_def)
  from take_zero_padded [OF this, of 32 "to_nat v"]
  have "take 32 (hl_preimage l (replicate (to_nat v) 0) @ replicate 32 0) = hl_preimage l [] @ replicate (24 - length l) 0"
    using assms(2) by (simp add: hl_preimage_def)
  with assms(1) show ?thesis
    by (simp add: h_l_def sample_ext_def)
qed

lemma sample_labels:
  "validate_label ''weid'' = Inr ()" "validate_label ''leaf-id'' = Inr ()" "validate_label ''msphf/pop/msg'' = Inr ()"
  by (simp_all add: validate_label_def as_bytes_def)

text \<open>The stand-in hash reads 32 bytes only, so it collides; the property exhibits the two colliding inputs.\<close>
theorem h_l_domain_separated_witness:
  "\<exists>enc enc'. cbor_ser sample_ext (CBytes []) = Inr enc \<and> cbor_ser sample_ext (CBytes [0]) = Inr enc' \<and>
     hl_preimage ''weid'' enc \<noteq> hl_preimage ''weid'' enc'"
proof -
  have "cbor_ser sample_ext (CBytes []) \<noteq> cbor_ser sample_ext (CBytes [0])"
    using sample_ser_injective by (auto simp: ser_injective_def sample_ext_def)
  then show ?thesis
    using h_l_domain_separated [of sample_ext "''weid''" "CBytes []" _ "''weid''" "CBytes [0]"]
      sample_digest [OF sample_labels(1)] by simp blast
qed

theorem seed_artifacts_ignore_excluded_keys_witness:
  "derive_seed_artifacts sample_ext (bt_insert 91 (CBytes [7]) [(90, CInt 31)]) sample_fields =
     derive_seed_artifacts sample_ext [(90, CInt 31)] sample_fields \<and>
   derive_seed_artifacts sample_ext (bt_remove 91 [(90, CInt 31)]) sample_fields =
     derive_seed_artifacts sample_ext [(90, CInt 31)] sample_fields"
  by (rule seed_artifacts_ignore_excluded_keys) (simp_all add: seed_ctx_key_def VOLATILE_KEYS_def)

theorem seed_ctx_binds_retained_keys_witness:
  "bt_get [(90 :: u64, CInt 31), (91, CBytes [1])] 90 = bt_get [(90 :: u64, CInt 31), (91, CBytes [2])] 90"
  by (rule seed_ctx_binds_retained_keys [OF sample_ser_injective, where ctx = "replicate (to_nat (cheader [(90, CInt 31)])) 0"])
    (simp_all add: build_anchor_seed_ctx_def seed_ctx_map_def seed_ctx_key_def VOLATILE_KEYS_def
      FORBIDDEN_SEED_CTX_KEYS_def sample_ext_def)

end
