(* ===== verification/Strings.thy ===== *)
theory Strings
  imports Hashing
begin

text \<open>
  The string functions of the Rust standard library that header parsing uses: \<open>str::from_utf8\<close> with the validity
  table of the Unicode standard, \<open>str::parse::<u64>\<close> and \<open>u64::to_string\<close>.  A string is the list of its UTF-8 code units.
\<close>

section \<open>UTF-8\<close>

definition utf8_cont :: "u8 \<Rightarrow> bool" where
  "utf8_cont b \<longleftrightarrow> 0x80 \<le> b \<and> b \<le> 0xBF"

definition utf8_lead2 :: "u8 \<Rightarrow> bool" where
  "utf8_lead2 b \<longleftrightarrow> 0xC2 \<le> b \<and> b \<le> 0xDF"

definition utf8_lead3 :: "u8 \<Rightarrow> u8 \<Rightarrow> bool" where
  "utf8_lead3 b c \<longleftrightarrow> b = 0xE0 \<and> 0xA0 \<le> c \<and> c \<le> 0xBF \<or> 0xE1 \<le> b \<and> b \<le> 0xEC \<and> utf8_cont c \<or>
     b = 0xED \<and> 0x80 \<le> c \<and> c \<le> 0x9F \<or> 0xEE \<le> b \<and> b \<le> 0xEF \<and> utf8_cont c"

definition utf8_lead4 :: "u8 \<Rightarrow> u8 \<Rightarrow> bool" where
  "utf8_lead4 b c \<longleftrightarrow> b = 0xF0 \<and> 0x90 \<le> c \<and> c \<le> 0xBF \<or> 0xF1 \<le> b \<and> b \<le> 0xF3 \<and> utf8_cont c \<or>
     b = 0xF4 \<and> 0x80 \<le> c \<and> c \<le> 0x8F"

fun utf8_valid :: "bytes \<Rightarrow> bool" where
  "utf8_valid [] \<longleftrightarrow> True"
| "utf8_valid (b0 # r) \<longleftrightarrow>
     (if b0 < 0x80 then utf8_valid r
      else (case r of [] \<Rightarrow> False | b1 # r1 \<Rightarrow>
        if utf8_lead2 b0 then utf8_cont b1 \<and> utf8_valid r1
        else (case r1 of [] \<Rightarrow> False | b2 # r2 \<Rightarrow>
          if utf8_lead3 b0 b1 then utf8_cont b2 \<and> utf8_valid r2
          else (case r2 of [] \<Rightarrow> False | b3 # r3 \<Rightarrow>
            utf8_lead4 b0 b1 \<and> utf8_cont b2 \<and> utf8_cont b3 \<and> utf8_valid r3))))"

definition from_utf8 :: "bytes \<Rightarrow> string option" where
  "from_utf8 b = (if utf8_valid b then Some (map (\<lambda>x. char_of (unat x)) b) else None)"

section \<open>Decimal numbers\<close>

definition digit_of :: "char \<Rightarrow> nat option" where
  "digit_of c = (let n = of_char c :: nat in if 48 \<le> n \<and> n \<le> 57 then Some (n - 48) else None)"

fun parse_digits :: "nat \<Rightarrow> string \<Rightarrow> nat option" where
  "parse_digits acc [] = Some acc"
| "parse_digits acc (c # cs) = (case digit_of c of None \<Rightarrow> None | Some d \<Rightarrow> parse_digits (10 * acc + d) cs)"

text \<open>A leading plus sign is accepted, the empty string and a value above \<open>u64::MAX\<close> are not.\<close>
definition parse_u64 :: "string \<Rightarrow> u64 option" where
  "parse_u64 s =
     (let ds = (if s \<noteq> [] \<and> hd s = CHR ''+'' then tl s else s)
      in if ds = [] then None
         else (case parse_digits 0 ds of None \<Rightarrow> None | Some n \<Rightarrow> if n < 2 ^ 64 then Some (of_nat n) else None))"

definition digit_char :: "nat \<Rightarrow> char" where
  "digit_char d = char_of (48 + d)"

fun nat_to_string :: "nat \<Rightarrow> string" where
  "nat_to_string n = (if n < 10 then [digit_char n] else nat_to_string (n div 10) @ [digit_char (n mod 10)])"

declare nat_to_string.simps [simp del]

definition u64_to_string :: "u64 \<Rightarrow> string" where
  "u64_to_string v = nat_to_string (unat v)"

section \<open>Lemmas\<close>

lemma word_of_nat_mod_256: "word_of_nat (unat x mod 256) = (x :: u8)"
proof -
  have "unat x < 256"
    using unsigned_less [of x] by simp
  then show ?thesis
    by simp
qed

lemma from_utf8_as_bytes: "from_utf8 b = Some s \<Longrightarrow> as_bytes s = b"
  by (auto simp: from_utf8_def as_bytes_def comp_def word_of_nat_mod_256 intro: map_idI split: if_splits)

lemma from_utf8_inject: "from_utf8 b = Some s \<Longrightarrow> from_utf8 c = Some s \<Longrightarrow> b = c"
  by (auto dest!: from_utf8_as_bytes)

lemma digit_of_digit_char: "d < 10 \<Longrightarrow> digit_of (digit_char d) = Some d"
  by (simp add: digit_of_def digit_char_def of_char_of Let_def)

lemma parse_digits_append:
  "parse_digits acc (xs @ ys) = (case parse_digits acc xs of None \<Rightarrow> None | Some a \<Rightarrow> parse_digits a ys)"
  by (induction xs arbitrary: acc) (auto split: option.split)

lemma parse_digits_nat_to_string: "parse_digits 0 (nat_to_string n) = Some n"
proof (induction n rule: nat_to_string.induct)
  case (1 n)
  then show ?case
    by (cases "n < 10")
      (simp_all add: nat_to_string.simps [of n] parse_digits_append digit_of_digit_char)
qed

lemma nat_to_string_digits: "nat_to_string n \<noteq> [] \<and> (\<forall>c \<in> set (nat_to_string n). digit_of c \<noteq> None)"
proof (induction n rule: nat_to_string.induct)
  case (1 n)
  then show ?case
    by (cases "n < 10") (simp_all add: nat_to_string.simps [of n] digit_of_digit_char)
qed

lemma parse_u64_to_string [simp]: "parse_u64 (u64_to_string v) = Some v"
proof -
  have "digit_of (hd (nat_to_string (unat v))) \<noteq> None"
    using nat_to_string_digits [of "unat v"] by simp
  moreover have "digit_of CHR ''+'' = None"
    by (simp add: digit_of_def)
  ultimately have "hd (nat_to_string (unat v)) \<noteq> CHR ''+''"
    by metis
  moreover have "unat v < 2 ^ 64"
    using unsigned_less [of v] by simp
  ultimately show ?thesis
    using nat_to_string_digits [of "unat v"]
    by (simp add: parse_u64_def u64_to_string_def parse_digits_nat_to_string)
qed

lemma u64_to_string_inject [simp]: "u64_to_string v = u64_to_string w \<longleftrightarrow> v = w"
  by (metis option.inject parse_u64_to_string)

end
