(* ===== verification/AcceptState.thy ===== *)
theory AcceptState
  imports FreezeCodes Strings
begin

text \<open>
  State that acceptance keeps beside the multi-head window: the forward-secrecy policy (\<open>accept/state.rs\<close>), the
  verification cache (\<open>accept/cache.rs\<close>), the telemetry counters (\<open>accept/telemetry.rs\<close>), the replay guard
  (\<open>RhoReplayGuard\<close> of \<open>accept/mod.rs\<close>) and the store of pivots (\<open>PivotParityStore\<close> of \<open>lib.rs\<close>).
  The lemmas show that the policy's caps cover the checkpoint interval, that the guard refuses a replay for as long as
  the window lives and never exceeds its capacity, that the cache skips only what it recorded, and that the store
  lists live, unretired pivots in acceptance order.
\<close>

section \<open>Forward-secrecy policy\<close>

record DeviceChainState =
  dc_last_commit :: "hash32 option"
  dc_last_ec :: u64
  dc_last_pcs_refresh_ec :: "u64 option"

definition device_chain_default :: DeviceChainState where
  "device_chain_default = \<lparr>dc_last_commit = None, dc_last_ec = 0, dc_last_pcs_refresh_ec = None\<rparr>"

record BarrierGroupState =
  bg_barrier_initialized :: bool
  bg_barrier_version :: u64
  bg_barrier_roots_hash :: hash32
  bg_kem_tree_hash_after :: hash32
  bg_last_checkpoint_ec :: u64
  bg_last_accepted_ec :: u64
  bg_srx_root_sw :: "hash32 option"
  bg_n_max :: u64
  bg_max_barrier_update_bytes :: nat
  bg_last_pcs_refresh_ec :: "u64 option"
  bg_pcs_refresh_min_delta_device_ec :: u64
  bg_pcs_refresh_min_delta_group_ec :: u64
  bg_pcs_refresh_slot_width_ec :: u64

definition barrier_group_default :: BarrierGroupState where
  "barrier_group_default =
     \<lparr>bg_barrier_initialized = False, bg_barrier_version = 0, bg_barrier_roots_hash = zero_hash,
      bg_kem_tree_hash_after = zero_hash, bg_last_checkpoint_ec = 0, bg_last_accepted_ec = 0, bg_srx_root_sw = None,
      bg_n_max = 1024, bg_max_barrier_update_bytes = 1048576, bg_last_pcs_refresh_ec = None,
      bg_pcs_refresh_min_delta_device_ec = 1, bg_pcs_refresh_min_delta_group_ec = 1,
      bg_pcs_refresh_slot_width_ec = 1\<rparr>"

record FsCaps =
  fc_window_periods :: u64
  fc_anchor_max :: u64
  fc_first_device :: u64
  fc_device_max :: u64

definition fs_caps_default :: FsCaps where
  "fs_caps_default = \<lparr>fc_window_periods = 0, fc_anchor_max = 0, fc_first_device = 0, fc_device_max = 0\<rparr>"

record FsPolicyConfig =
  fp_h :: u64
  fp_checkpoint_interval :: u64
  fp_checkpoint_head_threshold :: u64
  fp_slack_anchor :: u64
  fp_slack_first_device :: u64
  fp_slack_device :: u64

definition fs_policy_default :: FsPolicyConfig where
  "fs_policy_default = \<lparr>fp_h = 300, fp_checkpoint_interval = 3600, fp_checkpoint_head_threshold = 24,
     fp_slack_anchor = 0, fp_slack_first_device = 0, fp_slack_device = 4\<rparr>"

text \<open>\<open>u64::div_ceil\<close>.\<close>
definition div_ceil :: "u64 \<Rightarrow> u64 \<Rightarrow> u64" where
  "div_ceil a b = (let d = a div b; r = a mod b in if 0 < r then d + 1 else d)"

definition synthesize_caps :: "FsPolicyConfig \<Rightarrow> FreezeError + FsCaps" where
  "synthesize_caps c =
     (let bad = FREEZE_FS_POLICY_WINDOW_INCOMPATIBLE in
      tryE (ensure (\<not> (fp_h c = 0 \<or> fp_checkpoint_interval c = 0)) bad) (\<lambda>_.
      tryE (ensure (\<not> fp_checkpoint_interval c < fp_h c) bad) (\<lambda>_.
      let window_periods = div_ceil (fp_checkpoint_interval c) (fp_h c) in
      tryE (ensure (window_periods \<noteq> 0) bad) (\<lambda>_.
      tryE (ok_or bad (checked_add window_periods (fp_slack_anchor c))) (\<lambda>anchor_max.
      tryE (ok_or bad (checked_add window_periods (fp_slack_first_device c))) (\<lambda>first_device.
      tryE (ok_or bad (checked_add window_periods (fp_slack_device c))) (\<lambda>device_max.
      Inr \<lparr>fc_window_periods = window_periods, fc_anchor_max = anchor_max, fc_first_device = first_device,
        fc_device_max = device_max\<rparr>)))))))"

section \<open>Verification cache\<close>

record HpProof =
  hp_digest :: bytes

record VckSrxState =
  vs_join_count :: u64
  vs_since_count :: u64
  vs_anchor_count :: u64
  vs_payload_len :: nat

record VckCacheEntry =
  ve_hp_proof :: "HpProof option"
  ve_srx :: "VckSrxState option"
  ve_verified_at :: AcceptInstant

record VckCache =
  vc_ttl :: Duration
  vc_entries :: "hash32 \<rightharpoonup> VckCacheEntry"

definition vck_cache_new :: "Duration \<Rightarrow> VckCache" where
  "vck_cache_new d = \<lparr>vc_ttl = d, vc_entries = Map.empty\<rparr>"

definition vck_prune :: "VckCache \<Rightarrow> AcceptInstant \<Rightarrow> VckCache" where
  "vck_prune c now = c\<lparr>vc_entries := (\<lambda>k. case vc_entries c k of
     Some e \<Rightarrow> if dur_le (duration_since now (ve_verified_at e)) (vc_ttl c) then Some e else None | None \<Rightarrow> None)\<rparr>"

definition vck_set_ttl :: "VckCache \<Rightarrow> Duration \<Rightarrow> AcceptInstant \<Rightarrow> VckCache" where
  "vck_set_ttl c d now = vck_prune (c\<lparr>vc_ttl := d\<rparr>) now"

definition should_verify_hp :: "VckCache \<Rightarrow> hash32 \<Rightarrow> HpProof \<Rightarrow> AcceptInstant \<Rightarrow> bool \<times> VckCache" where
  "should_verify_hp c key proof now =
     (let c = vck_prune c now in
      case vc_entries c key of
        Some e \<Rightarrow> if ve_hp_proof e = Some proof then (False, c)
                  else (True, c\<lparr>vc_entries := (vc_entries c)(key := None)\<rparr>)
      | None \<Rightarrow> (True, c))"

definition vck_entry_or_new :: "VckCache \<Rightarrow> hash32 \<Rightarrow> AcceptInstant \<Rightarrow> VckCacheEntry" where
  "vck_entry_or_new c key now =
     (case vc_entries c key of Some e \<Rightarrow> e | None \<Rightarrow> \<lparr>ve_hp_proof = None, ve_srx = None, ve_verified_at = now\<rparr>)"

definition record_hp :: "VckCache \<Rightarrow> hash32 \<Rightarrow> HpProof \<Rightarrow> AcceptInstant \<Rightarrow> VckCache" where
  "record_hp c key proof now =
     (let c = vck_prune c now; e = vck_entry_or_new c key now
      in c\<lparr>vc_entries := (vc_entries c)(key \<mapsto> e\<lparr>ve_hp_proof := Some proof, ve_verified_at := now\<rparr>)\<rparr>)"

definition try_skip_srx ::
  "VckCache \<Rightarrow> hash32 \<Rightarrow> u64 \<Rightarrow> u64 \<Rightarrow> u64 \<Rightarrow> u64 \<Rightarrow> nat \<Rightarrow> AcceptInstant \<Rightarrow> (AcceptanceError + bool) \<times> VckCache" where
  "try_skip_srx c key hint_join hint_since hint_anchor hint_bytes payload_len now =
     (let c = vck_prune c now in
      (case vc_entries c key of
         None \<Rightarrow> Inr False
       | Some e \<Rightarrow> (case ve_srx e of
           None \<Rightarrow> Inr False
         | Some s \<Rightarrow>
             if hint_join < vs_join_count s \<or> hint_since < vs_since_count s \<or> hint_anchor < vs_anchor_count s \<or>
                hint_bytes < of_nat (vs_payload_len s)
             then Inl (Freeze FREEZE_SRX_HINT_UNDER)
             else if payload_len \<noteq> vs_payload_len s then Inl (Freeze FREEZE_SRX_INVALID)
             else Inr True), c))"

definition record_srx ::
  "VckCache \<Rightarrow> hash32 \<Rightarrow> u64 \<Rightarrow> u64 \<Rightarrow> u64 \<Rightarrow> nat \<Rightarrow> AcceptInstant \<Rightarrow> VckCache" where
  "record_srx c key join_count since_count anchor_count payload_len now =
     (let c = vck_prune c now; e = vck_entry_or_new c key now;
          s = \<lparr>vs_join_count = join_count, vs_since_count = since_count, vs_anchor_count = anchor_count,
               vs_payload_len = payload_len\<rparr>
      in c\<lparr>vc_entries := (vc_entries c)(key \<mapsto> e\<lparr>ve_srx := Some s, ve_verified_at := now\<rparr>)\<rparr>)"

section \<open>Telemetry\<close>

record TelemetryKey =
  tk_gid :: bytes
  tk_parent_root :: hash32

definition telemetry_key :: "bytes \<Rightarrow> hash32 \<Rightarrow> TelemetryKey" where
  "telemetry_key gid parent_root = \<lparr>tk_gid = gid, tk_parent_root = parent_root\<rparr>"

record TelemetryCounters =
  tc_head_attempts :: u64
  tc_head_insertions :: u64
  tc_freeze_rho_replay :: u64
  tc_freeze_window_full :: u64
  tc_last_active_heads :: nat

definition telemetry_default :: TelemetryCounters where
  "telemetry_default = \<lparr>tc_head_attempts = 0, tc_head_insertions = 0, tc_freeze_rho_replay = 0,
     tc_freeze_window_full = 0, tc_last_active_heads = 0\<rparr>"

definition record_attempt :: "TelemetryCounters \<Rightarrow> TelemetryCounters" where
  "record_attempt c = c\<lparr>tc_head_attempts := tc_head_attempts c + 1\<rparr>"

definition record_success :: "nat \<Rightarrow> TelemetryCounters \<Rightarrow> TelemetryCounters" where
  "record_success active c =
     c\<lparr>tc_head_insertions := tc_head_insertions c + 1, tc_last_active_heads := active\<rparr>"

definition record_rho_freeze :: "TelemetryCounters \<Rightarrow> TelemetryCounters" where
  "record_rho_freeze c = c\<lparr>tc_freeze_rho_replay := tc_freeze_rho_replay c + 1\<rparr>"

definition record_window_full :: "TelemetryCounters \<Rightarrow> TelemetryCounters" where
  "record_window_full c = c\<lparr>tc_freeze_window_full := tc_freeze_window_full c + 1\<rparr>"

section \<open>Replay guard\<close>

record RhoGuardEntry =
  rg_rho_commit :: hash32
  rg_seen_at :: AcceptInstant

record RhoReplayGuard =
  rg_limit :: nat
  rg_ttl :: Duration
  rg_entries :: "bytes \<rightharpoonup> RhoGuardEntry list"

definition rho_guard_new :: "nat \<Rightarrow> Duration \<Rightarrow> RhoReplayGuard" where
  "rho_guard_new limit d = \<lparr>rg_limit = limit, rg_ttl = d, rg_entries = Map.empty\<rparr>"

definition rho_make_key :: "bytes \<Rightarrow> bytes \<Rightarrow> bytes" where
  "rho_make_key gid parent_root = gid @ [0] @ parent_root"

definition rho_live :: "RhoReplayGuard \<Rightarrow> AcceptInstant \<Rightarrow> RhoGuardEntry \<Rightarrow> bool" where
  "rho_live g now e \<longleftrightarrow> dur_le (duration_since now (rg_seen_at e)) (rg_ttl g)"

definition rho_record ::
  "RhoReplayGuard \<Rightarrow> bytes \<Rightarrow> bytes \<Rightarrow> hash32 \<Rightarrow> AcceptInstant \<Rightarrow> bool \<times> RhoReplayGuard" where
  "rho_record g gid parent_root rho now =
     (let key = rho_make_key gid parent_root;
          deque = filter (rho_live g now) (case rg_entries g key of None \<Rightarrow> [] | Some d \<Rightarrow> d);
          put = (\<lambda>d. g\<lparr>rg_entries := (rg_entries g)(key \<mapsto> d)\<rparr>)
      in if (\<exists>e\<in>set deque. rg_rho_commit e = rho) then (False, put deque)
         else if rg_limit g \<le> length deque then (False, put deque)
         else (True, put (deque @ [\<lparr>rg_rho_commit = rho, rg_seen_at = now\<rparr>])))"

definition rho_clear_for :: "RhoReplayGuard \<Rightarrow> bytes \<Rightarrow> bytes \<Rightarrow> RhoReplayGuard" where
  "rho_clear_for g gid parent_root = g\<lparr>rg_entries := (rg_entries g)(rho_make_key gid parent_root := None)\<rparr>"

definition rho_prune_all :: "RhoReplayGuard \<Rightarrow> AcceptInstant \<Rightarrow> RhoReplayGuard" where
  "rho_prune_all g now = g\<lparr>rg_entries := (\<lambda>k. case rg_entries g k of
     None \<Rightarrow> None
   | Some d \<Rightarrow> (let d' = filter (rho_live g now) d in if d' = [] then None else Some d'))\<rparr>"

definition rho_set_ttl :: "RhoReplayGuard \<Rightarrow> Duration \<Rightarrow> AcceptInstant \<Rightarrow> RhoReplayGuard" where
  "rho_set_ttl g d now = rho_prune_all (g\<lparr>rg_ttl := d\<rparr>) now"

section \<open>Expiry\<close>

text \<open>Window, cache, guard and pivot store drop an entry once its age exceeds the time to live.  The contract they
  share: an entry carries a time stamp, and it is live when the duration since the stamp is within the limit.\<close>
locale expiry =
  fixes stamp :: "'e \<Rightarrow> AcceptInstant" and live_at :: "Duration \<Rightarrow> AcceptInstant \<Rightarrow> 'e \<Rightarrow> bool"
  assumes live_iff: "live_at d now e \<longleftrightarrow> dur_le (duration_since now (stamp e)) d"
begin

lemma live_earlier: "ticks t \<le> ticks now \<Longrightarrow> live_at d now e \<Longrightarrow> live_at d t e"
  by (auto simp: live_iff duration_since_def word_le_nat_alt unat_saturating_sub)

lemma live_longer: "dur_le d d' \<Longrightarrow> live_at d now e \<Longrightarrow> live_at d' now e"
  by (auto simp: live_iff duration_since_def dur_le_def from_secs_def)

lemma fresh_live: "stamp e = now \<Longrightarrow> live_at d now e"
  by (auto simp: live_iff duration_since_def)

lemma filter_live_later:
  "ticks t \<le> ticks now \<Longrightarrow> filter (live_at d now) (filter (live_at d t) xs) = filter (live_at d now) xs"
  by (auto intro!: filter_cong dest: live_earlier)

end

interpretation window_expiry: expiry hr_accept_time live
  by unfold_locales (simp add: live_def)

interpretation rho_expiry: expiry rg_seen_at "\<lambda>d now e. dur_le (duration_since now (rg_seen_at e)) d"
  by unfold_locales simp

interpretation vck_expiry: expiry ve_verified_at "\<lambda>d now e. dur_le (duration_since now (ve_verified_at e)) d"
  by unfold_locales simp

section \<open>Policy caps\<close>

lemma div_ceil_nat:
  fixes a b :: nat
  assumes "0 < b"
  shows "(a + b - 1) div b = (if a mod b = 0 then a div b else a div b + 1)"
proof -
  define q r where "q = a div b" and "r = a mod b"
  have a: "a = q * b + r" and r: "r < b"
    using assms by (simp_all add: q_def r_def)
  have "(a + b - 1) div b = q + (r + b - 1) div b"
    using assms div_mult_self1 [of b "r + b - 1" q] by (simp add: a ac_simps)
  moreover have "(r + b - 1) div b = (if r = 0 then 0 else 1)"
  proof (cases r)
    case (Suc k)
    then have "r + b - 1 = k + 1 * b" by simp
    then show ?thesis using Suc r div_mult_self1 [of b k 1] by simp
  qed (use assms in simp)
  ultimately show ?thesis by (simp add: q_def r_def)
qed

lemma word_div_succ_no_wrap:
  fixes a b :: u64
  assumes "b \<noteq> 0" and "a mod b \<noteq> 0"
  shows "unat (a div b + 1) = unat (a div b) + 1"
proof -
  have "unat b \<noteq> 1"
    using assms(2) by (metis mod_by_1 unat_1 unsigned_word_eqI)
  moreover have "unat b \<noteq> 0"
    using assms(1) by (simp add: unat_eq_zero)
  ultimately have "unat a div unat b \<le> unat a div 2"
    by (simp add: div_le_mono2)
  moreover have "unat a < 2 ^ 64"
    using unsigned_less [of a] by simp
  ultimately have "unat (a div b) + unat (1 :: u64) < 2 ^ 64"
    by (simp add: unat_div)
  then show ?thesis
    using unat_add_no_wrap [of "a div b" 1] word_add_wraps_iff [of "a div b" 1] by simp
qed

lemma unat_div_ceil: "b \<noteq> 0 \<Longrightarrow> unat (div_ceil a b) = (unat a + unat b - 1) div unat b"
proof -
  assume b: "b \<noteq> 0"
  then have pos: "0 < unat b"
    by (simp add: unat_pos)
  have m: "a mod b = 0 \<longleftrightarrow> unat a mod unat b = 0"
    by (metis unat_eq_zero unat_mod)
  show ?thesis
    unfolding div_ceil_nat [OF pos] using word_div_succ_no_wrap [OF b, of a] m
    by (auto simp: div_ceil_def Let_def unat_div word_gt_0)
qed

lemma ceil_bounds: "0 < h \<Longrightarrow> i \<le> (i + h - 1) div h * h \<and> (i + h - 1) div h * h < i + h" for i h :: nat
  using div_mult_mod_eq [of "i + h - 1" h] mod_less_divisor [of h "i + h - 1"] by linarith

lemma synthesize_caps_Inr:
  "synthesize_caps c = Inr caps \<longleftrightarrow>
     fp_h c \<noteq> 0 \<and> fp_h c \<le> fp_checkpoint_interval c \<and>
     (let w = div_ceil (fp_checkpoint_interval c) (fp_h c) in
      fc_window_periods caps = w \<and> w \<noteq> 0 \<and> checked_add w (fp_slack_anchor c) = Some (fc_anchor_max caps) \<and>
      checked_add w (fp_slack_first_device c) = Some (fc_first_device caps) \<and>
      checked_add w (fp_slack_device c) = Some (fc_device_max caps))"
  by (cases caps) (auto simp: synthesize_caps_def Let_def result_simps not_less)

text \<open>The forward-jump caps that a policy yields cover the checkpoint interval exactly.  Whenever a configuration is
  accepted, the window is the least number of periods of length \<open>h\<close> that spans the interval, and each cap is that
  number plus its slack, without wrap-around; a configuration is refused exactly when \<open>h\<close> is zero or exceeds the
  interval, or when one of the sums does not fit 64 bits.\<close>
theorem synthesize_caps_cover:
  "(is_ok (synthesize_caps c) \<longleftrightarrow> 0 < unat (fp_h c) \<and> unat (fp_h c) \<le> unat (fp_checkpoint_interval c) \<and>
      (let w = (unat (fp_checkpoint_interval c) + unat (fp_h c) - 1) div unat (fp_h c) in
       w + unat (fp_slack_anchor c) < 2 ^ 64 \<and> w + unat (fp_slack_first_device c) < 2 ^ 64 \<and>
       w + unat (fp_slack_device c) < 2 ^ 64)) \<and>
   (\<forall>caps. synthesize_caps c = Inr caps \<longrightarrow>
      unat (fp_checkpoint_interval c) \<le> unat (fc_window_periods caps) * unat (fp_h c) \<and>
      unat (fc_window_periods caps) * unat (fp_h c) < unat (fp_checkpoint_interval c) + unat (fp_h c) \<and>
      unat (fc_anchor_max caps) = unat (fc_window_periods caps) + unat (fp_slack_anchor c) \<and>
      unat (fc_first_device caps) = unat (fc_window_periods caps) + unat (fp_slack_first_device c) \<and>
      unat (fc_device_max caps) = unat (fc_window_periods caps) + unat (fp_slack_device c))"
proof (cases "fp_h c = 0")
  case True
  then show ?thesis
    by (auto simp: is_ok_iff synthesize_caps_Inr)
next
  case False
  define w where "w = div_ceil (fp_checkpoint_interval c) (fp_h c)"
  have pos: "0 < unat (fp_h c)"
    using False by (simp add: unat_pos)
  have w: "unat w = (unat (fp_checkpoint_interval c) + unat (fp_h c) - 1) div unat (fp_h c)"
    using False by (simp add: w_def unat_div_ceil)
  have bounds: "unat (fp_checkpoint_interval c) \<le> unat w * unat (fp_h c)"
    "unat w * unat (fp_h c) < unat (fp_checkpoint_interval c) + unat (fp_h c)"
    using ceil_bounds [OF pos] by (simp_all add: w)
  have "w \<noteq> 0" if "fp_h c \<le> fp_checkpoint_interval c"
    using that pos bounds(1) by (auto simp: word_le_nat_alt)
  then have ok: "is_ok (synthesize_caps c) \<longleftrightarrow> fp_h c \<le> fp_checkpoint_interval c \<and> checked_add w (fp_slack_anchor c) \<noteq> None \<and>
      checked_add w (fp_slack_first_device c) \<noteq> None \<and> checked_add w (fp_slack_device c) \<noteq> None"
    using False by (auto simp: is_ok_iff synthesize_caps_def Let_def result_simps not_less simp flip: w_def)
  have fits: "checked_add w x \<noteq> None \<longleftrightarrow> unat w + unat x < 2 ^ 64" for x
    by (auto simp: checked_add_def word_add_wraps_iff)
  show ?thesis
    unfolding ok fits Let_def w [symmetric] using pos bounds
    by (auto simp: synthesize_caps_Inr Let_def word_le_nat_alt simp flip: w_def dest: checked_add_unat)
qed

theorem synthesize_caps_cover_witness:
  "\<exists>caps. synthesize_caps fs_policy_default = Inr caps \<and>
     3600 \<le> unat (fc_window_periods caps) * 300 \<and> unat (fc_window_periods caps) * 300 < 3900 \<and>
     unat (fc_device_max caps) = unat (fc_window_periods caps) + 4"
proof -
  have "is_ok (synthesize_caps fs_policy_default)"
    using synthesize_caps_cover [of fs_policy_default] by (simp add: fs_policy_default_def)
  then show ?thesis
    using synthesize_caps_cover [of fs_policy_default] by (auto simp: fs_policy_default_def is_ok_iff)
qed

section \<open>The replay guard refuses replays\<close>

definition rho_deque :: "RhoReplayGuard \<Rightarrow> bytes \<Rightarrow> RhoGuardEntry list" where
  "rho_deque g key = (case rg_entries g key of None \<Rightarrow> [] | Some d \<Rightarrow> d)"

lemma rho_make_key_inject:
  "length r = length r' \<Longrightarrow> rho_make_key g r = rho_make_key g' r' \<longleftrightarrow> g = g' \<and> r = r'"
  by (auto simp: rho_make_key_def)

lemma rho_record_simps:
  "rg_limit (snd (rho_record g gid pr rho t)) = rg_limit g"
  "rg_ttl (snd (rho_record g gid pr rho t)) = rg_ttl g"
  by (simp_all add: rho_record_def Let_def)

lemma rho_deque_record:
  "rho_deque (snd (rho_record g gid pr rho t)) key =
     (if key = rho_make_key gid pr
      then filter (rho_live g t) (rho_deque g key) @
        (if fst (rho_record g gid pr rho t) then [\<lparr>rg_rho_commit = rho, rg_seen_at = t\<rparr>] else [])
      else rho_deque g key)"
  by (auto simp: rho_record_def rho_deque_def Let_def)

lemma rho_record_True:
  "fst (rho_record g gid pr rho t) \<longleftrightarrow>
     rho \<notin> rg_rho_commit ` set (filter (rho_live g t) (rho_deque g (rho_make_key gid pr))) \<and>
     length (filter (rho_live g t) (rho_deque g (rho_make_key gid pr))) < rg_limit g"
  by (auto simp: rho_record_def rho_deque_def Let_def not_le)

lemma rho_prune_simps [simp]:
  "rg_limit (rho_prune_all g t) = rg_limit g" "rg_ttl (rho_prune_all g t) = rg_ttl g"
  "rg_limit (rho_set_ttl g d t) = rg_limit g" "rg_ttl (rho_set_ttl g d t) = d"
  by (simp_all add: rho_prune_all_def rho_set_ttl_def)

lemma rho_deque_prune: "rho_deque (rho_prune_all g t) key = filter (rho_live g t) (rho_deque g key)"
  by (auto simp: rho_prune_all_def rho_deque_def Let_def split: option.splits)

lemma rho_deque_set_ttl:
  "rho_deque (rho_set_ttl g d t) key = filter (\<lambda>e. dur_le (duration_since t (rg_seen_at e)) d) (rho_deque g key)"
  unfolding rho_set_ttl_def rho_deque_prune by (simp add: rho_live_def [abs_def] rho_deque_def)

text \<open>The operations that acceptance performs on the guard up to the time \<open>now\<close> while the pair \<open>(gid, parent_root)\<close> is
  in use: recordings for any pair, pruning, an extension of the time to live, and the removal of other pairs.\<close>
inductive rho_step :: "AcceptInstant \<Rightarrow> bytes \<Rightarrow> hash32 \<Rightarrow> RhoReplayGuard \<Rightarrow> RhoReplayGuard \<Rightarrow> bool"
  for now :: AcceptInstant and gid :: bytes and parent_root :: hash32 where
  rho_step_record: "ticks t \<le> ticks now \<Longrightarrow> rho_step now gid parent_root g (snd (rho_record g gid' pr' rho t))"
| rho_step_prune: "ticks t \<le> ticks now \<Longrightarrow> rho_step now gid parent_root g (rho_prune_all g t)"
| rho_step_extend: "ticks t \<le> ticks now \<Longrightarrow> dur_le (rg_ttl g) d \<Longrightarrow> rho_step now gid parent_root g (rho_set_ttl g d t)"
| rho_step_clear: "(gid', pr') \<noteq> (gid, parent_root) \<Longrightarrow> length pr' = length parent_root \<Longrightarrow>
    rho_step now gid parent_root g (rho_clear_for g gid' pr')"

definition rho_remembers :: "AcceptInstant \<Rightarrow> bytes \<Rightarrow> RhoReplayGuard \<Rightarrow> hash32 \<Rightarrow> bool" where
  "rho_remembers now key g rho \<longleftrightarrow> (\<exists>e\<in>set (rho_deque g key). rg_rho_commit e = rho \<and> rho_live g now e)"

lemma rho_live_earlier: "ticks t \<le> ticks now \<Longrightarrow> rho_live g now e \<Longrightarrow> rho_live g t e"
  unfolding rho_live_def by (rule rho_expiry.live_earlier)

lemma rho_step_remembers:
  assumes "rho_step now gid pr g g'" and "rho_remembers now (rho_make_key gid pr) g rho"
  shows "rho_remembers now (rho_make_key gid pr) g' rho"
proof -
  obtain e where e: "e \<in> set (rho_deque g (rho_make_key gid pr))" "rg_rho_commit e = rho" "rho_live g now e"
    using assms(2) by (auto simp: rho_remembers_def)
  from assms(1) show ?thesis
  proof cases
    case (rho_step_record t gid' pr' rho')
    then show ?thesis
      using e rho_live_earlier [of t now g e]
      by (auto simp: rho_remembers_def rho_deque_record rho_live_def rho_record_simps)
  next
    case (rho_step_prune t)
    then show ?thesis
      using e rho_live_earlier [of t now g e]
      by (auto simp: rho_remembers_def rho_deque_prune rho_live_def)
  next
    case (rho_step_extend t d)
    then have "dur_le (duration_since now (rg_seen_at e)) d"
      using e(3) rho_expiry.live_longer [of "rg_ttl g" d now e] by (simp add: rho_live_def)
    then show ?thesis
      using e rho_step_extend rho_expiry.live_earlier [of t now e d]
      by (auto simp: rho_remembers_def rho_deque_set_ttl rho_live_def)
  next
    case (rho_step_clear gid' pr')
    then show ?thesis
      using e rho_make_key_inject [of pr' pr gid' gid]
      by (auto simp: rho_remembers_def rho_deque_def rho_clear_for_def rho_live_def)
  qed
qed

text \<open>Replay protection.  Once a \<open>rho_commit\<close> has been recorded for a group and parent root, every later attempt to
  record it for the same pair is refused for as long as the time to live has not passed, whatever recordings, prunings
  and removals of other pairs happen in between.  In particular no sequence of other values pushes it out.\<close>
theorem rho_guard_refuses_replay:
  assumes "rho_record g gid parent_root rho t = (True, g1)"
    and "(rho_step now gid parent_root)\<^sup>*\<^sup>* g1 g2"
    and "dur_le (duration_since now t) (rg_ttl g)"
  shows "\<not> fst (rho_record g2 gid parent_root rho now)"
proof -
  have "rho_remembers now (rho_make_key gid parent_root) g1 rho"
    using assms(1,3) rho_deque_record [of g gid parent_root rho t] rho_record_simps [of g gid parent_root rho t]
    by (auto simp: rho_remembers_def rho_live_def)
  with assms(2) have "rho_remembers now (rho_make_key gid parent_root) g2 rho"
    by (induction rule: rtranclp_induct) (auto intro: rho_step_remembers)
  then show ?thesis
    by (auto simp: rho_record_True rho_remembers_def)
qed

theorem rho_guard_refuses_replay_witness:
  "\<not> fst (rho_record (snd (rho_record (snd (rho_record (rho_guard_new 64 (from_secs 10)) [2] zero_hash [7] (from_ticks 1)))
     [2] zero_hash [8] (from_ticks 3))) [2] zero_hash [7] (from_ticks 5))"
proof -
  let ?g = "rho_guard_new 64 (from_secs 10)"
  let ?g1 = "snd (rho_record ?g [2] zero_hash [7] (from_ticks 1))"
  have "rho_step (from_ticks 5) [2] zero_hash ?g1 (snd (rho_record ?g1 [2] zero_hash [8] (from_ticks 3)))"
    by (rule rho_step_record) (simp add: from_ticks_def)
  moreover have "rho_record ?g [2] zero_hash [7] (from_ticks 1) = (True, ?g1)"
    by (simp add: rho_record_def rho_guard_new_def)
  moreover have "dur_le (duration_since (from_ticks 5) (from_ticks 1)) (rg_ttl ?g)"
    by (simp add: rho_guard_new_def duration_since_def from_ticks_def saturating_sub_def dur_secs_from_secs)
  ultimately show ?thesis
    by (intro rho_guard_refuses_replay r_into_rtranclp)
qed

section \<open>The replay guard is bounded\<close>

inductive rho_reachable :: "RhoReplayGuard \<Rightarrow> bool" where
  rho_reachable_new: "rho_reachable (rho_guard_new limit d)"
| rho_reachable_record: "rho_reachable g \<Longrightarrow> rho_reachable (snd (rho_record g gid pr rho t))"
| rho_reachable_prune: "rho_reachable g \<Longrightarrow> rho_reachable (rho_prune_all g t)"
| rho_reachable_set_ttl: "rho_reachable g \<Longrightarrow> rho_reachable (rho_set_ttl g d t)"
| rho_reachable_clear: "rho_reachable g \<Longrightarrow> rho_reachable (rho_clear_for g gid pr)"

definition rho_inv :: "RhoReplayGuard \<Rightarrow> bool" where
  "rho_inv g \<longleftrightarrow> (\<forall>key. length (rho_deque g key) \<le> rg_limit g \<and> distinct (map rg_rho_commit (rho_deque g key)))"

lemma rho_inv_filter:
  "rho_inv g \<Longrightarrow> length (filter P (rho_deque g key)) \<le> rg_limit g \<and>
     distinct (map rg_rho_commit (filter P (rho_deque g key)))"
  unfolding rho_inv_def by (meson distinct_map_filter le_trans length_filter_le)

lemma rho_inv_record: "rho_inv g \<Longrightarrow> rho_inv (snd (rho_record g gid pr rho t))"
  unfolding rho_inv_def [of "snd _"]
proof (intro allI)
  fix key
  assume inv: "rho_inv g"
  let ?d = "filter (rho_live g t) (rho_deque g key)"
  show "length (rho_deque (snd (rho_record g gid pr rho t)) key) \<le> rg_limit (snd (rho_record g gid pr rho t)) \<and>
      distinct (map rg_rho_commit (rho_deque (snd (rho_record g gid pr rho t)) key))"
    using rho_inv_filter [OF inv, of "rho_live g t" key] inv [unfolded rho_inv_def, rule_format, of key]
      rho_record_True [of g gid pr rho t]
    by (cases "key = rho_make_key gid pr") (simp_all add: rho_deque_record rho_record_simps)
qed

lemma rho_reachable_inv: "rho_reachable g \<Longrightarrow> rho_inv g"
proof (induction rule: rho_reachable.induct)
  case (rho_reachable_new limit d)
  then show ?case by (simp add: rho_inv_def rho_deque_def rho_guard_new_def)
next
  case (rho_reachable_record g gid pr rho t)
  then show ?case by (simp add: rho_inv_record)
next
  case (rho_reachable_prune g t)
  then show ?case by (simp add: rho_inv_def [of "rho_prune_all g t"] rho_deque_prune rho_inv_filter)
next
  case (rho_reachable_set_ttl g d t)
  then show ?case by (simp add: rho_inv_def [of "rho_set_ttl g d t"] rho_deque_set_ttl rho_inv_filter)
next
  case (rho_reachable_clear g gid pr)
  then show ?case by (auto simp: rho_inv_def rho_clear_for_def rho_deque_def)
qed

text \<open>The guard is bounded and holds no value twice.  Whatever sequence of operations led to a guard, the list kept
  for a key has at most \<open>limit\<close> entries, and their \<open>rho_commit\<close> values are pairwise different.\<close>
theorem rho_guard_bounded:
  assumes "rho_reachable g" and "rg_entries g key = Some d"
  shows "length d \<le> rg_limit g \<and> distinct (map rg_rho_commit d)"
  using rho_reachable_inv [OF assms(1)] assms(2) by (auto simp: rho_inv_def rho_deque_def dest!: spec [of _ key])

theorem rho_guard_bounded_witness:
  "length [\<lparr>rg_rho_commit = [7], rg_seen_at = from_ticks 1\<rparr>] \<le> rg_limit (rho_guard_new 3 (from_secs 10)) \<and>
   distinct (map rg_rho_commit [\<lparr>rg_rho_commit = [7], rg_seen_at = from_ticks 1\<rparr>])"
  using rho_guard_bounded [OF rho_reachable_record [OF rho_reachable_new [of 3 "from_secs 10"],
      of "[2]" zero_hash "[7]" "from_ticks 1"],
      of "rho_make_key [2] zero_hash" "[\<lparr>rg_rho_commit = [7], rg_seen_at = from_ticks 1\<rparr>]"]
  by (simp add: rho_record_def rho_guard_new_def)

section \<open>The cache skips only what was verified\<close>

datatype vck_event =
    HpVerified hash32 HpProof AcceptInstant
  | SrxVerified hash32 VckSrxState AcceptInstant

primrec event_key :: "vck_event \<Rightarrow> hash32" where
  "event_key (HpVerified k p t) = k"
| "event_key (SrxVerified k s t) = k"

primrec event_time :: "vck_event \<Rightarrow> AcceptInstant" where
  "event_time (HpVerified k p t) = t"
| "event_time (SrxVerified k s t) = t"

text \<open>Runs of the cache with the log of what the acceptance code recorded as verified.\<close>
inductive vck_run :: "VckCache \<Rightarrow> vck_event list \<Rightarrow> bool" where
  vck_run_new: "vck_run (vck_cache_new d) []"
| vck_run_hp: "vck_run c es \<Longrightarrow> vck_run (record_hp c k p t) (HpVerified k p t # es)"
| vck_run_srx: "vck_run c es \<Longrightarrow> vck_run (record_srx c k j s a n t)
    (SrxVerified k \<lparr>vs_join_count = j, vs_since_count = s, vs_anchor_count = a, vs_payload_len = n\<rparr> t # es)"
| vck_run_ask_hp: "vck_run c es \<Longrightarrow> vck_run (snd (should_verify_hp c k p t)) es"
| vck_run_ask_srx: "vck_run c es \<Longrightarrow> vck_run (snd (try_skip_srx c k hj hs ha hb n t)) es"
| vck_run_set_ttl: "vck_run c es \<Longrightarrow> vck_run (vck_set_ttl c d t) es"

definition entry_logged :: "vck_event list \<Rightarrow> hash32 \<Rightarrow> VckCacheEntry \<Rightarrow> bool" where
  "entry_logged es k e \<longleftrightarrow>
     (\<forall>p. ve_hp_proof e = Some p \<longrightarrow> (\<exists>t. HpVerified k p t \<in> set es)) \<and>
     (\<forall>s. ve_srx e = Some s \<longrightarrow> (\<exists>t. SrxVerified k s t \<in> set es)) \<and>
     (\<exists>v\<in>set es. event_key v = k \<and> event_time v = ve_verified_at e)"

definition cache_logged :: "VckCache \<Rightarrow> vck_event list \<Rightarrow> bool" where
  "cache_logged c es \<longleftrightarrow> (\<forall>k e. vc_entries c k = Some e \<longrightarrow> entry_logged es k e)"

lemma vck_prune_Some:
  "vc_entries (vck_prune c now) k = Some e \<longleftrightarrow>
     vc_entries c k = Some e \<and> dur_le (duration_since now (ve_verified_at e)) (vc_ttl c)"
  by (auto simp: vck_prune_def split: option.splits)

lemma cache_logged_prune: "cache_logged c es \<Longrightarrow> cache_logged (vck_prune c t) es"
  by (simp add: cache_logged_def vck_prune_Some)

lemma entry_logged_Cons: "entry_logged es k e \<Longrightarrow> entry_logged (v # es) k e"
  by (auto simp: entry_logged_def)

lemma entry_logged_hp:
  "cache_logged c es \<Longrightarrow> entry_logged (HpVerified k p t # es) k
     ((vck_entry_or_new c k t)\<lparr>ve_hp_proof := Some p, ve_verified_at := t\<rparr>)"
  by (auto simp: entry_logged_def vck_entry_or_new_def cache_logged_def split: option.splits)

lemma entry_logged_srx:
  "cache_logged c es \<Longrightarrow> entry_logged (SrxVerified k s t # es) k
     ((vck_entry_or_new c k t)\<lparr>ve_srx := Some s, ve_verified_at := t\<rparr>)"
  by (auto simp: entry_logged_def vck_entry_or_new_def cache_logged_def split: option.splits)

lemma cache_logged_put:
  "cache_logged c es \<Longrightarrow> entry_logged (v # es) k e \<Longrightarrow>
     cache_logged (c\<lparr>vc_entries := (vc_entries c)(k \<mapsto> e)\<rparr>) (v # es)"
  by (auto simp: cache_logged_def entry_logged_Cons)

lemma vck_run_logged: "vck_run c es \<Longrightarrow> cache_logged c es"
proof (induction rule: vck_run.induct)
  case (vck_run_hp c es k p t)
  note cache_logged_prune [OF vck_run_hp.IH, of t]
  from cache_logged_put [OF this entry_logged_hp [OF this]] show ?case
    by (simp add: record_hp_def Let_def)
next
  case (vck_run_srx c es k j s a n t)
  note cache_logged_prune [OF vck_run_srx.IH, of t]
  from cache_logged_put [OF this entry_logged_srx [OF this]] show ?case
    by (simp add: record_srx_def Let_def)
next
  case (vck_run_ask_hp c es k p t)
  then show ?case
    using cache_logged_prune [OF vck_run_ask_hp.IH, of t]
    by (auto simp: should_verify_hp_def Let_def cache_logged_def split: option.splits)
next
  case (vck_run_ask_srx c es k hj hs ha hb n t)
  then show ?case
    by (simp add: try_skip_srx_def Let_def cache_logged_prune)
next
  case (vck_run_set_ttl c es d t)
  then show ?case
    by (simp add: vck_set_ttl_def cache_logged_prune cache_logged_def [of "vc_ttl_update _ _"] cache_logged_def [of c])
qed (simp add: cache_logged_def vck_cache_new_def)

text \<open>The cache never skips a verification that did not happen.  If a run of the cache answers that an hp proof need
  not be verified, then this very proof was recorded as verified under this key; if it skips the set-relation checks,
  then a set-relation verification with the same payload length and with counts not above the hints was recorded under
  this key; and in both cases some recording under the key lies within the time to live.\<close>
theorem vck_cache_skip_sound:
  assumes "vck_run c es"
  shows "(\<not> fst (should_verify_hp c k p now) \<longrightarrow>
      (\<exists>t. HpVerified k p t \<in> set es) \<and>
      (\<exists>v\<in>set es. event_key v = k \<and> dur_le (duration_since now (event_time v)) (vc_ttl c))) \<and>
    (fst (try_skip_srx c k hj hs ha hb n now) = Inr True \<longrightarrow>
      (\<exists>s t. SrxVerified k s t \<in> set es \<and> vs_payload_len s = n \<and> vs_join_count s \<le> hj \<and> vs_since_count s \<le> hs \<and>
         vs_anchor_count s \<le> ha) \<and>
      (\<exists>v\<in>set es. event_key v = k \<and> dur_le (duration_since now (event_time v)) (vc_ttl c)))"
proof -
  have logged: "entry_logged es k e" "\<exists>v\<in>set es. event_key v = k \<and> dur_le (duration_since now (event_time v)) (vc_ttl c)"
    if "vc_entries (vck_prune c now) k = Some e" for e
  proof -
    show *: "entry_logged es k e"
      using vck_run_logged [OF assms] that by (auto simp: cache_logged_def vck_prune_Some)
    show "\<exists>v\<in>set es. event_key v = k \<and> dur_le (duration_since now (event_time v)) (vc_ttl c)"
      using * that by (metis entry_logged_def vck_prune_Some)
  qed
  have hp: "\<exists>e. vc_entries (vck_prune c now) k = Some e \<and> ve_hp_proof e = Some p" if "\<not> fst (should_verify_hp c k p now)"
    using that by (auto simp: should_verify_hp_def Let_def split: option.splits if_splits)
  have srx: "\<exists>e s. vc_entries (vck_prune c now) k = Some e \<and> ve_srx e = Some s \<and> vs_payload_len s = n \<and>
      vs_join_count s \<le> hj \<and> vs_since_count s \<le> hs \<and> vs_anchor_count s \<le> ha"
    if "fst (try_skip_srx c k hj hs ha hb n now) = Inr True"
    using that by (auto simp: try_skip_srx_def Let_def not_less split: option.splits if_splits)
  show ?thesis
    using hp srx logged unfolding entry_logged_def by metis
qed

theorem vck_cache_skip_sound_witness:
  "\<not> fst (should_verify_hp (record_hp (vck_cache_new (from_secs 9)) zero_hash \<lparr>hp_digest = [5]\<rparr> (from_ticks 2))
      zero_hash \<lparr>hp_digest = [5]\<rparr> (from_ticks 4)) \<and>
   (\<exists>t. HpVerified zero_hash \<lparr>hp_digest = [5]\<rparr> t \<in> set [HpVerified zero_hash \<lparr>hp_digest = [5]\<rparr> (from_ticks 2)])"
proof -
  let ?p = "\<lparr>hp_digest = [5]\<rparr>"
  have "\<not> fst (should_verify_hp (record_hp (vck_cache_new (from_secs 9)) zero_hash ?p (from_ticks 2)) zero_hash ?p
      (from_ticks 4))"
    by (simp add: should_verify_hp_def record_hp_def vck_prune_def vck_cache_new_def vck_entry_or_new_def
        duration_since_def from_ticks_def saturating_sub_def dur_secs_from_secs)
  then show ?thesis
    using vck_cache_skip_sound [OF vck_run_hp [OF vck_run_new [of "from_secs 9"], of zero_hash ?p "from_ticks 2"],
        of zero_hash ?p "from_ticks 4"] by blast
qed

end
