(* ===== verification/Pivots.thy ===== *)
theory Pivots
  imports AcceptState "HOL-Library.Multiset"
begin

text \<open>
  Pivots: \<open>PivotParity\<close> and \<open>PivotParityStore\<close> of \<open>msphf-orchestrator/src/lib.rs\<close>, and the verification-context key
  (VCK) in its two forms, \<open>PivotParity::compute_vck\<close> and \<open>compute_vck_key\<close>/\<open>compute_vck_from_parity\<close> of
  \<open>accept/mod.rs\<close>.  The lemmas show that the store is a map from epoch identifiers to live pivots listed in acceptance
  order, and that the two forms of the key never hash the same bytes.
\<close>

section \<open>Pivots and their store\<close>

record PivotParity =
  pp_gid :: bytes
  pp_cat :: bytes
  pp_parent_root :: hash32
  pp_we_epoch_id :: hash32
  pp_rho_commit :: hash32
  pp_seed_ctx_hash :: hash32
  pp_seed_commit :: hash32
  pp_hp_commit :: hash32
  pp_xk_hash :: hash32
  pp_join_delta_root :: hash32
  pp_revoked_since_root :: hash32
  pp_revoked_root :: hash32
  pp_accept_seq :: u64
  pp_crs_id :: bytes
  pp_params_id :: bytes
  pp_policy_version :: string
  pp_proof_mode :: string
  pp_vrf_id :: string
  pp_vrf_proof :: bytes
  pp_vrf_public :: bytes
  pp_mask_a :: hash32
  pp_mask_b :: hash32
  pp_fs_capss :: bytes
  pp_proofs_commit :: hash32
  pp_srx_commit :: "hash32 option"
  pp_srx_root_sw :: "hash32 option"
  pp_is_join :: bool
  pp_hp_envelope :: bytes
  pp_fs_epoch_commit :: "hash32 option"
  pp_fs_ec :: "u64 option"
  pp_fs_dev_commit :: "hash32 option"

record PivotParityEntry =
  pe_parity :: PivotParity
  pe_accept_time :: AcceptInstant

record PivotParityStore =
  ps_ttl :: Duration
  ps_entries :: "bytes \<times> hash32 \<rightharpoonup> PivotParityEntry list"

definition pivot_store_new :: "Duration \<Rightarrow> PivotParityStore" where
  "pivot_store_new d = \<lparr>ps_ttl = d, ps_entries = Map.empty\<rparr>"

definition pivot_live :: "Duration \<Rightarrow> AcceptInstant \<Rightarrow> PivotParityEntry \<Rightarrow> bool" where
  "pivot_live d now e \<longleftrightarrow> dur_le (duration_since now (pe_accept_time e)) d"

definition pivot_prune :: "PivotParityStore \<Rightarrow> AcceptInstant \<Rightarrow> PivotParityStore" where
  "pivot_prune s now = s\<lparr>ps_entries := (\<lambda>k. case ps_entries s k of
     None \<Rightarrow> None
   | Some l \<Rightarrow> (let l' = filter (pivot_live (ps_ttl s) now) l in if l' = [] then None else Some l'))\<rparr>"

definition pivot_set_ttl :: "PivotParityStore \<Rightarrow> Duration \<Rightarrow> AcceptInstant \<Rightarrow> PivotParityStore" where
  "pivot_set_ttl s d now = pivot_prune (s\<lparr>ps_ttl := d\<rparr>) now"

text \<open>The entry with the same epoch identifier is replaced in place, otherwise the entry is pushed.\<close>
fun put_pivot :: "PivotParityEntry \<Rightarrow> PivotParityEntry list \<Rightarrow> PivotParityEntry list" where
  "put_pivot e [] = [e]"
| "put_pivot e (x # xs) =
     (if pp_we_epoch_id (pe_parity x) = pp_we_epoch_id (pe_parity e) then e # xs else x # put_pivot e xs)"

definition pivot_insert :: "PivotParityStore \<Rightarrow> PivotParity \<Rightarrow> AcceptInstant \<Rightarrow> PivotParityStore" where
  "pivot_insert s p accept_time =
     (let key = (pp_gid p, pp_parent_root p);
          entry = \<lparr>pe_parity = p, pe_accept_time = accept_time\<rparr>;
          l = (case ps_entries s key of None \<Rightarrow> [] | Some l \<Rightarrow> l)
      in s\<lparr>ps_entries := (ps_entries s)(key \<mapsto> put_pivot entry l)\<rparr>)"

definition pivot_retire :: "PivotParityStore \<Rightarrow> bytes \<Rightarrow> hash32 \<Rightarrow> hash32 list \<Rightarrow> PivotParityStore" where
  "pivot_retire s gid parent_root retired =
     (if retired = [] then s
      else (case ps_entries s (gid, parent_root) of
        None \<Rightarrow> s
      | Some l \<Rightarrow>
          (let l' = filter (\<lambda>e. pp_we_epoch_id (pe_parity e) \<notin> set retired) l
           in s\<lparr>ps_entries := (ps_entries s)((gid, parent_root) := (if l' = [] then None else Some l'))\<rparr>)))"

definition pivot_list :: "PivotParityStore \<Rightarrow> bytes \<Rightarrow> hash32 \<Rightarrow> AcceptInstant \<Rightarrow> PivotParity list \<times> PivotParityStore" where
  "pivot_list s gid parent_root now =
     (let s = pivot_prune s now
      in (case ps_entries s (gid, parent_root) of
            None \<Rightarrow> []
          | Some l \<Rightarrow> sort_key pp_accept_seq (map pe_parity l), s))"

definition pivot_clear_gid :: "PivotParityStore \<Rightarrow> bytes \<Rightarrow> PivotParityStore" where
  "pivot_clear_gid s gid = s\<lparr>ps_entries := (\<lambda>(g, r). if g \<noteq> gid then ps_entries s (g, r) else None)\<rparr>"

section \<open>Verification-context keys\<close>

text \<open>The CBOR map of \<open>VckPreimage\<close>; the two structs of that name differ in the name of their last field.\<close>
definition vck_preimage ::
  "string \<Rightarrow> hash32 \<Rightarrow> hash32 \<Rightarrow> hash32 \<Rightarrow> hash32 \<Rightarrow> bytes \<Rightarrow> bytes \<Rightarrow> hash32 \<Rightarrow> hash32 \<Rightarrow> string \<Rightarrow> string \<Rightarrow> u64 \<Rightarrow> cbor" where
  "vck_preimage version_field xk seed_commit rho_commit hp_commit crs params srx_commit proofs_commit proof_mode vrf_id v =
     cstruct [(''xk_hash'', CBytes xk), (''seed_commit'', CBytes seed_commit), (''rho_commit'', CBytes rho_commit),
       (''hp_commit'', CBytes hp_commit), (''crs_id'', CBytes crs), (''params_id'', CBytes params),
       (''srx_commit'', CBytes srx_commit), (''proofs_commit'', CBytes proofs_commit),
       (''proof_mode'', CText proof_mode), (''vrf_id'', CText vrf_id), (version_field, cu64 v)]"

definition compute_vck :: "Ext \<Rightarrow> PivotParity \<Rightarrow> MsphfError + hash32" where
  "compute_vck E p =
     (let srx_commit = (case pp_srx_commit p of None \<Rightarrow> zero_hash | Some c \<Rightarrow> c) in
      tryE (ok_or (InvalidInput ''pivot policy_version must be uint'') (parse_u64 (pp_policy_version p))) (\<lambda>v.
      h_l E ''msphf/vck'' (vck_preimage ''policy_version'' (pp_xk_hash p) (pp_seed_commit p) (pp_rho_commit p)
        (pp_hp_commit p) (pp_crs_id p) (pp_params_id p) srx_commit (pp_proofs_commit p) (pp_proof_mode p) (pp_vrf_id p) v)))"

definition header_value_bytes :: "header \<Rightarrow> u64 \<Rightarrow> FreezeError \<Rightarrow> AcceptanceError + bytes" where
  "header_value_bytes h key freeze =
     (case bt_get h key of
        Some (CBytes b) \<Rightarrow> Inr b
      | Some (CText t) \<Rightarrow> Inr (as_bytes t)
      | _ \<Rightarrow> Inl (Freeze freeze))"

text \<open>An optional 32-byte field: absent is the zero digest, anything but 32 bytes is refused.\<close>
definition header_digest_or_zero :: "header \<Rightarrow> u64 \<Rightarrow> FreezeError \<Rightarrow> AcceptanceError + hash32" where
  "header_digest_or_zero h key freeze =
     (case bt_get h key of
        None \<Rightarrow> Inr zero_hash
      | Some (CBytes b) \<Rightarrow> if length b \<noteq> 32 then Inl (Freeze freeze) else Inr b
      | Some _ \<Rightarrow> Inl (Freeze freeze))"

definition header_text :: "header \<Rightarrow> u64 \<Rightarrow> FreezeError \<Rightarrow> AcceptanceError + string" where
  "header_text h key freeze =
     (case bt_get h key of
        Some (CText t) \<Rightarrow> Inr t
      | Some (CBytes b) \<Rightarrow> ok_or (Freeze freeze) (from_utf8 b)
      | _ \<Rightarrow> Inl (Freeze freeze))"

text \<open>The forward-secrecy policy version with the check against the legacy field.\<close>
definition header_policy_version :: "header \<Rightarrow> AcceptanceError + u64" where
  "header_policy_version h =
     (let bad = Freeze FREEZE_FS_POLICY_VERSION_UNSUPPORTED in
      tryE (case bt_get h HDR_FS_POLICY_VERSION of
              Some (CInt i) \<Rightarrow> ok_or bad (u64_try_from i)
            | _ \<Rightarrow> Inl bad) (\<lambda>v.
      case bt_get h HDR_POLICY_VERSION of
        None \<Rightarrow> Inr v
      | Some (CInt i) \<Rightarrow> tryE (ok_or bad (u64_try_from i)) (\<lambda>legacy. if legacy \<noteq> v then Inl bad else Inr v)
      | Some _ \<Rightarrow> Inl bad))"

definition compute_vck_key :: "Ext \<Rightarrow> hash32 \<Rightarrow> hash32 \<Rightarrow> hash32 \<Rightarrow> hash32 \<Rightarrow> header \<Rightarrow> AcceptanceError + hash32" where
  "compute_vck_key E xk seed_commit rho_commit hp_commit h =
     tryE (header_value_bytes h 98 FREEZE_MSPHF_CRS_INVALID) (\<lambda>crs.
     tryE (header_value_bytes h 106 FREEZE_PARAMS_ID_INVALID) (\<lambda>params.
     tryE (header_digest_or_zero h HDR_SRX_COMMIT FREEZE_SRX_INVALID) (\<lambda>srx_commit.
     tryE (header_digest_or_zero h HDR_PROOFS_COMMIT FREEZE_CAPSS_INVALID) (\<lambda>proofs_commit.
     tryE (header_text h HDR_PROOF_MODE FREEZE_FIELD_MISSING) (\<lambda>proof_mode.
     tryE (header_text h HDR_VRF_ID FREEZE_FIELD_MISSING) (\<lambda>vrf_id.
     tryE (header_policy_version h) (\<lambda>v.
     map_err acc_err (h_l E ''msphf/vck'' (vck_preimage ''fs_policy_version'' xk seed_commit rho_commit hp_commit
       crs params srx_commit proofs_commit proof_mode vrf_id v)))))))))"

text \<open>The header map that \<open>compute_vck_from_parity\<close> builds.\<close>
definition parity_header :: "PivotParity \<Rightarrow> u64 \<Rightarrow> header" where
  "parity_header p v =
     (let m = bt_insert HDR_CRS_ID (CBytes (pp_crs_id p)) [];
          m = bt_insert HDR_PARAMS_ID (CBytes (pp_params_id p)) m;
          m = bt_insert HDR_PROOFS_COMMIT (CBytes (pp_proofs_commit p)) m;
          m = bt_insert HDR_PROOF_MODE (CText (pp_proof_mode p)) m;
          m = bt_insert HDR_VRF_ID (CText (pp_vrf_id p)) m;
          m = (case pp_srx_commit p of None \<Rightarrow> m | Some c \<Rightarrow> bt_insert HDR_SRX_COMMIT (CBytes c) m)
      in bt_insert HDR_FS_POLICY_VERSION (cu64 v) m)"

definition compute_vck_from_parity :: "Ext \<Rightarrow> PivotParity \<Rightarrow> AcceptanceError + hash32" where
  "compute_vck_from_parity E p =
     tryE (ok_or (Freeze FREEZE_FS_POLICY_VERSION_UNSUPPORTED) (parse_u64 (pp_policy_version p))) (\<lambda>v.
     compute_vck_key E (pp_xk_hash p) (pp_seed_commit p) (pp_rho_commit p) (pp_hp_commit p) (parity_header p v))"

section \<open>The store as a map of epoch identifiers\<close>

interpretation pivot_expiry: expiry pe_accept_time pivot_live
  by unfold_locales (simp add: pivot_live_def)

abbreviation pivot_weid :: "PivotParityEntry \<Rightarrow> hash32" where
  "pivot_weid e \<equiv> pp_we_epoch_id (pe_parity e)"

definition pivot_entries :: "PivotParityStore \<Rightarrow> bytes \<times> hash32 \<Rightarrow> PivotParityEntry list" where
  "pivot_entries s k = (case ps_entries s k of None \<Rightarrow> [] | Some l \<Rightarrow> l)"

abbreviation live_pivots :: "PivotParityStore \<Rightarrow> bytes \<times> hash32 \<Rightarrow> AcceptInstant \<Rightarrow> PivotParityEntry list" where
  "live_pivots s k now \<equiv> filter (pivot_live (ps_ttl s) now) (pivot_entries s k)"

lemma set_put_pivot:
  "distinct (map pivot_weid l) \<Longrightarrow> set (put_pivot e l) = insert e {x \<in> set l. pivot_weid x \<noteq> pivot_weid e}"
  by (induction e l rule: put_pivot.induct) (auto simp: image_iff)

lemma pivots_put_pivot:
  assumes "distinct (map pivot_weid l)" and "L e"
  shows "pe_parity ` set (filter L (put_pivot e l)) =
    insert (pe_parity e) {q \<in> pe_parity ` set (filter L l). pp_we_epoch_id q \<noteq> pivot_weid e}"
proof -
  have "set (filter L (put_pivot e l)) = insert e {x \<in> set (filter L l). pivot_weid x \<noteq> pivot_weid e}"
    using assms by (auto simp: set_put_pivot)
  then show ?thesis by auto
qed

lemma put_pivot_distinct: "distinct (map pivot_weid l) \<Longrightarrow> distinct (map pivot_weid (put_pivot e l))"
  by (induction e l rule: put_pivot.induct) (auto simp: set_put_pivot)

lemma pivot_entries_prune:
  "pivot_entries (pivot_prune s t) k = filter (pivot_live (ps_ttl s) t) (pivot_entries s k)"
  by (auto simp: pivot_entries_def pivot_prune_def Let_def split: option.splits)

lemma pivot_entries_insert:
  "pivot_entries (pivot_insert s p t) k =
     (if k = (pp_gid p, pp_parent_root p) then put_pivot \<lparr>pe_parity = p, pe_accept_time = t\<rparr> (pivot_entries s k)
      else pivot_entries s k)"
  by (auto simp: pivot_entries_def pivot_insert_def Let_def split: option.splits)

lemma pivot_entries_retire:
  "pivot_entries (pivot_retire s gid root ws) k =
     (if k = (gid, root) then filter (\<lambda>e. pivot_weid e \<notin> set ws) (pivot_entries s k) else pivot_entries s k)"
  by (auto simp: pivot_entries_def pivot_retire_def Let_def split: option.splits)

lemma pivot_entries_clear: "pivot_entries (pivot_clear_gid s gid) (g, r) = (if g = gid then [] else pivot_entries s (g, r))"
  by (auto simp: pivot_entries_def pivot_clear_gid_def)

lemma pivot_ttl_simps [simp]:
  "ps_ttl (pivot_prune s t) = ps_ttl s" "ps_ttl (pivot_insert s p t) = ps_ttl s"
  "ps_ttl (pivot_retire s gid root ws) = ps_ttl s"
  by (auto simp: pivot_prune_def pivot_insert_def pivot_retire_def Let_def split: option.splits)

lemma pivot_list_eq:
  "fst (pivot_list s gid root now) =
     sort_key pp_accept_seq (map pe_parity (filter (pivot_live (ps_ttl s) now) (pivot_entries s (gid, root))))"
  using pivot_entries_prune [of s now "(gid, root)"]
  by (auto simp: pivot_list_def Let_def pivot_entries_def split: option.splits)

inductive pivot_reachable :: "PivotParityStore \<Rightarrow> bool" where
  pivot_reachable_new: "pivot_reachable (pivot_store_new d)"
| pivot_reachable_insert: "pivot_reachable s \<Longrightarrow> pivot_reachable (pivot_insert s p t)"
| pivot_reachable_retire: "pivot_reachable s \<Longrightarrow> pivot_reachable (pivot_retire s gid root ws)"
| pivot_reachable_list: "pivot_reachable s \<Longrightarrow> pivot_reachable (snd (pivot_list s gid root t))"
| pivot_reachable_set_ttl: "pivot_reachable s \<Longrightarrow> pivot_reachable (pivot_set_ttl s d t)"
| pivot_reachable_clear: "pivot_reachable s \<Longrightarrow> pivot_reachable (pivot_clear_gid s gid)"

definition pivot_inv :: "PivotParityStore \<Rightarrow> bool" where
  "pivot_inv s \<longleftrightarrow> (\<forall>k. distinct (map pivot_weid (pivot_entries s k)) \<and>
     (\<forall>e\<in>set (pivot_entries s k). (pp_gid (pe_parity e), pp_parent_root (pe_parity e)) = k))"

lemma pivot_inv_filter:
  assumes "pivot_inv s" and "\<And>k. \<exists>P. pivot_entries s' k = filter P (pivot_entries s k)"
  shows "pivot_inv s'"
  unfolding pivot_inv_def
proof
  fix k
  obtain P where "pivot_entries s' k = filter P (pivot_entries s k)"
    using assms(2) by blast
  with assms(1) [unfolded pivot_inv_def, THEN spec, of k]
  show "distinct (map pivot_weid (pivot_entries s' k)) \<and>
      (\<forall>e\<in>set (pivot_entries s' k). (pp_gid (pe_parity e), pp_parent_root (pe_parity e)) = k)"
    by (simp add: distinct_map_filter)
qed

lemma pivot_inv_prune: "pivot_inv s \<Longrightarrow> pivot_inv (pivot_prune s t)"
  by (erule pivot_inv_filter) (auto simp: pivot_entries_prune)

lemma pivot_inv_retire: "pivot_inv s \<Longrightarrow> pivot_inv (pivot_retire s gid root ws)"
  by (erule pivot_inv_filter) (auto simp: pivot_entries_retire intro: exI [of _ "\<lambda>_. True"])

lemma pivot_inv_clear: "pivot_inv s \<Longrightarrow> pivot_inv (pivot_clear_gid s gid)"
proof (erule pivot_inv_filter)
  show "\<exists>P. pivot_entries (pivot_clear_gid s gid) k = filter P (pivot_entries s k)" for k
    by (cases k) (auto simp: pivot_entries_clear intro: exI [of _ "\<lambda>_. True"] exI [of _ "\<lambda>_. False"])
qed

lemma pivot_inv_insert: "pivot_inv s \<Longrightarrow> pivot_inv (pivot_insert s p t)"
  unfolding pivot_inv_def pivot_entries_insert by (simp add: put_pivot_distinct set_put_pivot) blast

lemma pivot_reachable_inv: "pivot_reachable s \<Longrightarrow> pivot_inv s"
proof (induction rule: pivot_reachable.induct)
  case (pivot_reachable_new d)
  then show ?case by (simp add: pivot_inv_def pivot_entries_def pivot_store_new_def)
next
  case (pivot_reachable_list s gid root t)
  then show ?case by (simp add: pivot_list_def Let_def pivot_inv_prune)
next
  case (pivot_reachable_set_ttl s d t)
  then have "pivot_inv (s\<lparr>ps_ttl := d\<rparr>)"
    by (simp add: pivot_inv_def pivot_entries_def)
  then show ?case by (simp add: pivot_set_ttl_def pivot_inv_prune)
qed (simp_all add: pivot_inv_insert pivot_inv_retire pivot_inv_clear)

lemma distinct_map_sort_key: "distinct (map f (sort_key g l)) = distinct (map f l)"
  by (metis mset_eq_imp_distinct_iff mset_map mset_sort)

text \<open>The listing of pivots.  In every reachable store the pivots listed for a group and parent root are in
  acceptance order, have pairwise different epoch identifiers and belong to that group and root.\<close>
theorem pivot_list_ordered:
  assumes "pivot_reachable s"
  shows "sorted (map pp_accept_seq (fst (pivot_list s gid root now))) \<and>
    distinct (map pp_we_epoch_id (fst (pivot_list s gid root now))) \<and>
    (\<forall>p\<in>set (fst (pivot_list s gid root now)). pp_gid p = gid \<and> pp_parent_root p = root)"
proof -
  have inv: "distinct (map pivot_weid (pivot_entries s (gid, root)))"
    "\<forall>e\<in>set (pivot_entries s (gid, root)). pp_gid (pe_parity e) = gid \<and> pp_parent_root (pe_parity e) = root"
    using pivot_reachable_inv [OF assms] by (auto simp: pivot_inv_def)
  let ?l = "map pe_parity (filter (pivot_live (ps_ttl s) now) (pivot_entries s (gid, root)))"
  have "distinct (map pp_we_epoch_id (sort_key pp_accept_seq ?l))"
    using inv(1) by (simp add: distinct_map_sort_key distinct_map_filter comp_def)
  then show ?thesis
    using inv(2) by (auto simp: pivot_list_eq)
qed

text \<open>The store refines a map from epoch identifiers to pivots.  Inserting a pivot replaces the one with its epoch
  identifier and leaves every other listed pivot alone, for as long as the pivot is live; retiring a list of
  identifiers removes exactly the pivots with these identifiers.\<close>
theorem pivot_store_refines_map:
  assumes "pivot_reachable s" and "dur_le (duration_since now t) (ps_ttl s)"
  shows "set (fst (pivot_list (pivot_insert s p t) (pp_gid p) (pp_parent_root p) now)) =
      insert p {q \<in> set (fst (pivot_list s (pp_gid p) (pp_parent_root p) now)). pp_we_epoch_id q \<noteq> pp_we_epoch_id p} \<and>
    set (fst (pivot_list (pivot_retire s gid root ws) gid root now)) =
      {q \<in> set (fst (pivot_list s gid root now)). pp_we_epoch_id q \<notin> set ws} \<and>
    ((gid, root) \<noteq> (pp_gid p, pp_parent_root p) \<longrightarrow>
      fst (pivot_list (pivot_insert s p t) gid root now) = fst (pivot_list s gid root now))"
proof -
  let ?e = "\<lparr>pe_parity = p, pe_accept_time = t\<rparr>"
  have "distinct (map pivot_weid (pivot_entries s (pp_gid p, pp_parent_root p)))"
    using pivot_reachable_inv [OF assms(1)] by (simp add: pivot_inv_def)
  from pivots_put_pivot [OF this, of "pivot_live (ps_ttl s) now" ?e] assms(2)
  have "set (fst (pivot_list (pivot_insert s p t) (pp_gid p) (pp_parent_root p) now)) =
      insert p {q \<in> set (fst (pivot_list s (pp_gid p) (pp_parent_root p) now)). pp_we_epoch_id q \<noteq> pp_we_epoch_id p}"
    by (simp add: pivot_list_eq pivot_entries_insert pivot_live_def)
  then show ?thesis
    by (auto simp: pivot_list_eq pivot_entries_insert pivot_entries_retire)
qed

section \<open>The two forms of the verification-context key\<close>

lemma u64_try_from_uint [simp]: "u64_try_from (uint v) = Some v"
  using unsigned_less [of v] by (simp add: u64_try_from_def)

lemma bt_get_parity_header:
  "bt_get (parity_header p v) k =
     (if k = 139 then Some (cu64 v)
      else if k = 121 \<and> pp_srx_commit p \<noteq> None then Some (CBytes (the (pp_srx_commit p)))
      else if k = 116 then Some (CText (pp_vrf_id p))
      else if k = 119 then Some (CText (pp_proof_mode p))
      else if k = 125 then Some (CBytes (pp_proofs_commit p))
      else if k = 106 then Some (CBytes (pp_params_id p))
      else if k = 98 then Some (CBytes (pp_crs_id p))
      else None)"
  unfolding parity_header_def Let_def hdr_keys by (auto simp del: bt_insert.simps split: option.splits)

lemmas parity_header_lookups = bt_get_parity_header hdr_keys cu64_def header_value_bytes_def header_digest_or_zero_def
  header_text_def header_policy_version_def

lemma compute_vck_from_parity_Inr:
  "compute_vck_from_parity E p = Inr d \<Longrightarrow>
     \<exists>v. parse_u64 (pp_policy_version p) = Some v \<and>
       h_l E ''msphf/vck'' (vck_preimage ''fs_policy_version'' (pp_xk_hash p) (pp_seed_commit p) (pp_rho_commit p)
         (pp_hp_commit p) (pp_crs_id p) (pp_params_id p) (case pp_srx_commit p of None \<Rightarrow> zero_hash | Some c \<Rightarrow> c)
         (pp_proofs_commit p) (pp_proof_mode p) (pp_vrf_id p) v) = Inr d"
  by (auto simp: compute_vck_from_parity_def compute_vck_key_def result_simps parity_header_lookups
      split: option.splits if_splits)

lemma vck_preimage_field:
  "vck_preimage f xk sc rc hc crs pm sx pc pmode vrf v = vck_preimage f' xk' sc' rc' hc' crs' pm' sx' pc' pmode' vrf' v'
     \<Longrightarrow> f = f'"
  by (simp add: vck_preimage_def cstruct_def)

text \<open>The two computations of the verification-context key never agree by construction.  For every pivot,
  \<open>PivotParity::compute_vck\<close> (used when a merge is built) and \<open>compute_vck_from_parity\<close> (used when a merge is accepted)
  hash two different byte strings, because they give the policy version different field names; the digests can only be
  equal through a collision of the hash on these two strings.\<close>
theorem vck_forms_differ:
  assumes "ser_injective E" and "compute_vck E p = Inr d" and "compute_vck_from_parity E p = Inr d'"
  shows "\<exists>v enc enc'. parse_u64 (pp_policy_version p) = Some v \<and>
    cbor_ser E (vck_preimage ''policy_version'' (pp_xk_hash p) (pp_seed_commit p) (pp_rho_commit p) (pp_hp_commit p)
      (pp_crs_id p) (pp_params_id p) (case pp_srx_commit p of None \<Rightarrow> zero_hash | Some c \<Rightarrow> c) (pp_proofs_commit p)
      (pp_proof_mode p) (pp_vrf_id p) v) = Inr enc \<and>
    cbor_ser E (vck_preimage ''fs_policy_version'' (pp_xk_hash p) (pp_seed_commit p) (pp_rho_commit p) (pp_hp_commit p)
      (pp_crs_id p) (pp_params_id p) (case pp_srx_commit p of None \<Rightarrow> zero_hash | Some c \<Rightarrow> c) (pp_proofs_commit p)
      (pp_proof_mode p) (pp_vrf_id p) v) = Inr enc' \<and>
    hl_preimage ''msphf/vck'' enc \<noteq> hl_preimage ''msphf/vck'' enc' \<and>
    d = blake3_derive E CITY_G_HL_DERIVE_CTX (hl_preimage ''msphf/vck'' enc) \<and>
    d' = blake3_derive E CITY_G_HL_DERIVE_CTX (hl_preimage ''msphf/vck'' enc')"
proof -
  let ?pre = "\<lambda>f v. vck_preimage f (pp_xk_hash p) (pp_seed_commit p) (pp_rho_commit p) (pp_hp_commit p)
      (pp_crs_id p) (pp_params_id p) (case pp_srx_commit p of None \<Rightarrow> zero_hash | Some c \<Rightarrow> c) (pp_proofs_commit p)
      (pp_proof_mode p) (pp_vrf_id p) v"
  obtain v where v: "parse_u64 (pp_policy_version p) = Some v"
    and l: "h_l E ''msphf/vck'' (?pre ''policy_version'' v) = Inr d"
    using assms(2) by (auto simp: compute_vck_def Let_def result_simps)
  have l': "h_l E ''msphf/vck'' (?pre ''fs_policy_version'' v) = Inr d'"
    using compute_vck_from_parity_Inr [OF assms(3)] v by auto
  obtain enc where enc: "cbor_ser E (?pre ''policy_version'' v) = Inr enc"
    "d = blake3_derive E CITY_G_HL_DERIVE_CTX (hl_preimage ''msphf/vck'' enc)"
    using l by (auto simp: h_l_Inr)
  obtain enc' where enc': "cbor_ser E (?pre ''fs_policy_version'' v) = Inr enc'"
    "d' = blake3_derive E CITY_G_HL_DERIVE_CTX (hl_preimage ''msphf/vck'' enc')"
    using l' by (auto simp: h_l_Inr)
  have "?pre ''policy_version'' v \<noteq> ?pre ''fs_policy_version'' v"
    by (auto dest: vck_preimage_field)
  then have "enc \<noteq> enc'"
    using assms(1) enc(1) enc'(1) unfolding ser_injective_def by blast
  then have "hl_preimage ''msphf/vck'' enc \<noteq> hl_preimage ''msphf/vck'' enc'"
    by (simp add: hl_preimage_def)
  with v enc enc' show ?thesis
    by blast
qed

section \<open>Instances\<close>

definition sample_pivot :: PivotParity where
  "sample_pivot =
     \<lparr>pp_gid = [2], pp_cat = [3], pp_parent_root = zero_hash, pp_we_epoch_id = zero_hash, pp_rho_commit = zero_hash,
      pp_seed_ctx_hash = zero_hash, pp_seed_commit = zero_hash, pp_hp_commit = zero_hash, pp_xk_hash = zero_hash,
      pp_join_delta_root = zero_hash, pp_revoked_since_root = zero_hash, pp_revoked_root = zero_hash, pp_accept_seq = 0,
      pp_crs_id = [4], pp_params_id = [5], pp_policy_version = ''1'', pp_proof_mode = ''lin+zkvrf'',
      pp_vrf_id = ''lb-vrf/v1'', pp_vrf_proof = [], pp_vrf_public = [], pp_mask_a = zero_hash, pp_mask_b = zero_hash,
      pp_fs_capss = [], pp_proofs_commit = zero_hash, pp_srx_commit = None, pp_srx_root_sw = None, pp_is_join = True,
      pp_hp_envelope = [], pp_fs_epoch_commit = None, pp_fs_ec = None, pp_fs_dev_commit = None\<rparr>"

lemma parse_sample_version: "parse_u64 ''1'' = Some 1"
  by (simp add: parse_u64_def digit_of_def)

lemma validate_vck_label: "validate_label ''msphf/vck'' = Inr ()"
  by (simp add: validate_label_def as_bytes_def)

theorem pivot_list_ordered_witness:
  "distinct (map pp_we_epoch_id (fst (pivot_list (pivot_insert (pivot_store_new (from_secs 9)) sample_pivot (from_ticks 1))
     [2] zero_hash (from_ticks 3))))"
  using pivot_list_ordered [OF pivot_reachable_insert [OF pivot_reachable_new]] by blast

theorem pivot_store_refines_map_witness:
  "sample_pivot \<in> set (fst (pivot_list (pivot_insert (pivot_store_new (from_secs 9)) sample_pivot (from_ticks 1))
     (pp_gid sample_pivot) (pp_parent_root sample_pivot) (from_ticks 3)))"
proof -
  have "dur_le (duration_since (from_ticks 3) (from_ticks 1)) (ps_ttl (pivot_store_new (from_secs 9)))"
    by (simp add: pivot_store_new_def duration_since_def from_ticks_def saturating_sub_def dur_secs_from_secs)
  from pivot_store_refines_map [OF pivot_reachable_new this, of sample_pivot] show ?thesis
    by blast
qed

theorem vck_forms_differ_witness:
  "\<exists>enc enc'. hl_preimage ''msphf/vck'' enc \<noteq> hl_preimage ''msphf/vck'' enc' \<and>
     compute_vck sample_ext sample_pivot = Inr (blake3_derive sample_ext CITY_G_HL_DERIVE_CTX (hl_preimage ''msphf/vck'' enc)) \<and>
     compute_vck_from_parity sample_ext sample_pivot =
       Inr (blake3_derive sample_ext CITY_G_HL_DERIVE_CTX (hl_preimage ''msphf/vck'' enc'))"
proof -
  have "is_ok (compute_vck sample_ext sample_pivot)"
    by (simp add: compute_vck_def sample_pivot_def parse_sample_version sample_digest [OF validate_vck_label])
  moreover have "is_ok (compute_vck_from_parity sample_ext sample_pivot)"
    by (simp add: compute_vck_from_parity_def sample_pivot_def parse_sample_version compute_vck_key_def
        parity_header_lookups sample_digest [OF validate_vck_label])
  ultimately obtain d d' where "compute_vck sample_ext sample_pivot = Inr d"
    "compute_vck_from_parity sample_ext sample_pivot = Inr d'"
    by (auto simp: is_ok_iff)
  with vck_forms_differ [OF sample_ser_injective this] show ?thesis
    by auto
qed

end
