(* ===== verification/Merkle.thy ===== *)
theory Merkle
  imports Hashing
begin

text \<open>
  Canonical Merkle sets (\<open>msphf-core/src/merkle.rs\<close>): the root of a strictly sorted list of 32-byte leaves, the
  frontier of carried digests, and the evaluation of an authentication path.  The functions are stated over a
  two-to-one hash; the interface \<open>node_hash\<close> is what they need of it, and it is interpreted on the node hash of
  \<open>rpo-256/v2\<close>.  The lemmas show that the loops end, that the
  root computed level by level is the tree hash of RFC 6962, that every member of a set has an authentication path of at
  most logarithmic length (completeness), and that a path that reaches the root of a set starts at a digest of
  the tree unless it exhibits a collision of the node hash or a preimage of a leaf (soundness).
\<close>

section \<open>Definitions\<close>

definition hash_leaf :: "RpoExt \<Rightarrow> bytes \<Rightarrow> hash32" where
  "hash_leaf P l = v2_leaf P l"

definition hash_node :: "RpoExt \<Rightarrow> hash32 \<Rightarrow> hash32 \<Rightarrow> hash32" where
  "hash_node P l r = v2_node P l r"

definition hash_interval :: "RpoExt \<Rightarrow> hash32 \<Rightarrow> hash32 \<Rightarrow> hash32" where
  "hash_interval P l r = v2_interval_node P l r"

definition hash_interval_binding ::
  "RpoExt \<Rightarrow> hash32 \<Rightarrow> hash32 \<Rightarrow> hash32 \<Rightarrow> hash32 \<Rightarrow> u8 \<Rightarrow> u8 \<Rightarrow> hash32" where
  "hash_interval_binding P left_id left_leaf right_id right_leaf lca_left lca_right =
     rpo_hash_v2 P 0x4D545F4E4D42494E (left_id @ left_leaf @ right_id @ right_leaf @ [lca_left, lca_right])"

text \<open>One turn of the \<open>while level.len() > 1\<close> loop: hash the pairs, carry the odd digest.\<close>
fun next_level :: "(hash32 \<Rightarrow> hash32 \<Rightarrow> hash32) \<Rightarrow> hash32 list \<Rightarrow> hash32 list" where
  "next_level H (a # b # rest) = H a b # next_level H rest"
| "next_level H rest = rest"

lemma length_next_level: "length (next_level H xs) = (length xs + 1) div 2"
  by (induction H xs rule: next_level.induct) auto

function root_loop :: "(hash32 \<Rightarrow> hash32 \<Rightarrow> hash32) \<Rightarrow> hash32 list \<Rightarrow> hash32 list" where
  "root_loop H level = (if 1 < length level then root_loop H (next_level H level) else level)"
  by auto
termination
  by (relation "measure (\<lambda>(H, level). length level)") (auto simp: length_next_level)

declare root_loop.simps [simp del]

definition canonical_set_root :: "RpoExt \<Rightarrow> hash32 list \<Rightarrow> MsphfError + hash32" where
  "canonical_set_root P leaves =
     (if length leaves \<le> 1 then (if leaves = [] then Inr zero_hash else Inr (leaves ! 0))
      else if any_unsorted leaves then Inl (InvalidInput ''set must be strictly increasing'')
      else Inr (root_loop (hash_node P) leaves ! 0))"

function frontier_loop :: "(hash32 \<Rightarrow> hash32 \<Rightarrow> hash32) \<Rightarrow> hash32 list \<Rightarrow> hash32 list \<Rightarrow> hash32 list" where
  "frontier_loop H level frontier =
     (if 1 < length level
      then frontier_loop H (next_level H level) (if odd (length level) then frontier @ [last level] else frontier)
      else frontier)"
  by auto
termination
  by (relation "measure (\<lambda>(H, level, frontier). length level)") (auto simp: length_next_level)

declare frontier_loop.simps [simp del]

definition canonical_frontier :: "RpoExt \<Rightarrow> hash32 list \<Rightarrow> MsphfError + hash32 list" where
  "canonical_frontier P leaves =
     (if leaves = [] then Inr []
      else if any_unsorted leaves then Inl (InvalidInput ''set must be strictly increasing'')
      else Inr (frontier_loop (hash_node P) leaves []))"

type_synonym path = "(u8 \<times> hash32) list"

fun apply_path :: "(hash32 \<Rightarrow> hash32 \<Rightarrow> hash32) \<Rightarrow> hash32 \<Rightarrow> path \<Rightarrow> hash32" where
  "apply_path H acc [] = acc"
| "apply_path H acc ((dir, sib) # path) = apply_path H (if dir = 0 then H acc sib else H sib acc) path"

definition validate_membership_path :: "RpoExt \<Rightarrow> hash32 \<Rightarrow> path \<Rightarrow> hash32" where
  "validate_membership_path P leaf path = apply_path (hash_node P) leaf path"

definition apply_path_from :: "RpoExt \<Rightarrow> hash32 \<Rightarrow> path \<Rightarrow> hash32" where
  "apply_path_from P acc path = apply_path (hash_node P) acc path"

definition bytes32 :: "bytes \<Rightarrow> MsphfError + hash32" where
  "bytes32 b = digest_from_slice b"

section \<open>Reference notions\<close>

text \<open>The pairs hashed while a tree is built, and the digests that occur in it.\<close>
fun level_pairs :: "hash32 list \<Rightarrow> (hash32 \<times> hash32) list" where
  "level_pairs (a # b # rest) = (a, b) # level_pairs rest"
| "level_pairs _ = []"

function tree_pairs :: "(hash32 \<Rightarrow> hash32 \<Rightarrow> hash32) \<Rightarrow> hash32 list \<Rightarrow> (hash32 \<times> hash32) list" where
  "tree_pairs H level =
     (if 1 < length level then level_pairs level @ tree_pairs H (next_level H level) else [])"
  by auto
termination
  by (relation "measure (\<lambda>(H, level). length level)") (auto simp: length_next_level)

declare tree_pairs.simps [simp del]

definition tree_digests :: "(hash32 \<Rightarrow> hash32 \<Rightarrow> hash32) \<Rightarrow> hash32 list \<Rightarrow> hash32 set" where
  "tree_digests H leaves = set leaves \<union> (\<lambda>(l, r). H l r) ` set (tree_pairs H leaves)"

text \<open>The pairs hashed while a path is evaluated.\<close>
fun path_pairs :: "(hash32 \<Rightarrow> hash32 \<Rightarrow> hash32) \<Rightarrow> hash32 \<Rightarrow> path \<Rightarrow> (hash32 \<times> hash32) list" where
  "path_pairs H acc [] = []"
| "path_pairs H acc ((dir, sib) # path) =
     (let p = (if dir = 0 then (acc, sib) else (sib, acc)) in p # path_pairs H (H (fst p) (snd p)) path)"

text \<open>The authentication path of the leaf at position \<open>i\<close>: at every level the sibling, none for a carried digest.\<close>
function auth_path :: "(hash32 \<Rightarrow> hash32 \<Rightarrow> hash32) \<Rightarrow> hash32 list \<Rightarrow> nat \<Rightarrow> path" where
  "auth_path H level i =
     (if 1 < length level
      then (if odd i then [(1, level ! (i - 1))] else if Suc i < length level then [(0, level ! Suc i)] else [])
           @ auth_path H (next_level H level) (i div 2)
      else [])"
  by auto
termination
  by (relation "measure (\<lambda>(H, level, i). length level)") (auto simp: length_next_level)

declare auth_path.simps [simp del]

text \<open>The tree hash of RFC 6962, from the top: the left subtree takes the largest power of two of the leaves that leaves one
  for the right subtree.\<close>
fun split_point :: "nat \<Rightarrow> nat" where
  "split_point n = (if n \<le> 2 then 1 else 2 * split_point ((n + 1) div 2))"

declare split_point.simps [simp del]

lemma split_point_pos: "0 < split_point n"
  by (induction n rule: split_point.induct) (subst split_point.simps, simp)

lemma split_point_range: "2 \<le> n \<Longrightarrow> split_point n < n \<and> n \<le> 2 * split_point n \<and> (\<exists>j. split_point n = 2 ^ j)"
proof (induction n rule: split_point.induct)
  case (1 n)
  show ?case
  proof (cases "n = 2")
    case True
    then show ?thesis
      by (simp add: split_point.simps exI [of _ "0 :: nat"])
  next
    case False
    then have n: "split_point n = 2 * split_point ((n + 1) div 2)"
      using 1(2) by (subst split_point.simps) simp
    have IH: "split_point ((n + 1) div 2) < (n + 1) div 2" "(n + 1) div 2 \<le> 2 * split_point ((n + 1) div 2)"
        "\<exists>j. split_point ((n + 1) div 2) = 2 ^ j"
      using 1(1) 1(2) False by auto
    have "\<exists>j. 2 * split_point ((n + 1) div 2) = 2 ^ j"
      using IH(3) power_Suc [of "2 :: nat"] by metis
    then show ?thesis
      using IH(1,2) unfolding n by auto
  qed
qed

function tree_hash :: "(hash32 \<Rightarrow> hash32 \<Rightarrow> hash32) \<Rightarrow> hash32 list \<Rightarrow> hash32" where
  "tree_hash H leaves =
     (if length leaves \<le> 1 then (if leaves = [] then zero_hash else leaves ! 0)
      else let k = split_point (length leaves) in H (tree_hash H (take k leaves)) (tree_hash H (drop k leaves)))"
  by auto
termination
  by (relation "measure (\<lambda>(H, leaves). length leaves)")
    (use split_point_range split_point_pos in \<open>auto simp: not_le Suc_le_eq intro: diff_less\<close>)

declare tree_hash.simps [simp del]

section \<open>Levels\<close>

lemma next_level_nth:
  "i < length xs \<Longrightarrow> next_level H xs ! (i div 2) =
     (if odd i then H (xs ! (i - 1)) (xs ! i)
      else if Suc i < length xs then H (xs ! i) (xs ! Suc i) else xs ! i)"
proof (induction H xs arbitrary: i rule: next_level.induct)
  case (1 H a b rest)
  consider "i = 0" | "i = 1" | j where "i = Suc (Suc j)"
    by (metis One_nat_def not0_implies_Suc)
  then show ?case
  proof cases
    case 3
    with 1(2) have "j < length rest" by simp
    from 1(1) [OF this] 3 1(2) show ?thesis
      by (cases j) (auto simp: nth_Cons')
  qed auto
qed auto

lemma next_level_members: "set (next_level H xs) \<subseteq> set xs \<union> (\<lambda>(l, r). H l r) ` set (level_pairs xs)"
  by (induction H xs rule: next_level.induct) auto

lemma level_pairs_members: "(l, r) \<in> set (level_pairs xs) \<Longrightarrow> l \<in> set xs \<and> r \<in> set xs"
  by (induction xs rule: level_pairs.induct) auto

lemma next_level_Nil [simp]: "next_level H xs = [] \<longleftrightarrow> xs = []"
  by (induction H xs rule: next_level.induct) auto

lemma tree_digests_step:
  "1 < length xs \<Longrightarrow> tree_digests H (next_level H xs) \<subseteq> tree_digests H xs"
  using next_level_members [of H xs] by (auto simp: tree_digests_def tree_pairs.simps [of H xs])

lemma tree_pairs_closed:
  "(l, r) \<in> set (tree_pairs H xs) \<Longrightarrow> l \<in> tree_digests H xs \<and> r \<in> tree_digests H xs"
proof (induction H xs rule: tree_pairs.induct)
  case (1 H xs)
  then have len: "1 < length xs"
    by (auto simp: tree_pairs.simps [of H xs] split: if_splits)
  from 1(2) consider "(l, r) \<in> set (level_pairs xs)" | "(l, r) \<in> set (tree_pairs H (next_level H xs))"
    using len by (auto simp: tree_pairs.simps [of H xs])
  then show ?case
  proof cases
    case 1
    then show ?thesis
      by (auto simp: tree_digests_def dest: level_pairs_members)
  next
    case 2
    then show ?thesis
      using 1(1) [OF len] tree_digests_step [OF len, of H] by blast
  qed
qed

section \<open>Interface of the node hash\<close>

text \<open>What the trees rely on: the node hash yields digests of 32 bytes.\<close>
lemma next_level_append: "even (length xs) \<Longrightarrow> next_level H (xs @ ys) = next_level H xs @ next_level H ys"
  by (induction H xs rule: next_level.induct) auto

lemma tree_hash_split:
  "2 \<le> length xs \<Longrightarrow> tree_hash H xs =
     H (tree_hash H (take (split_point (length xs)) xs)) (tree_hash H (drop (split_point (length xs)) xs))"
  by (subst tree_hash.simps) (simp add: Let_def)

lemma tree_hash_single [simp]: "tree_hash H [x] = x"
  by (simp add: tree_hash.simps)

text \<open>Hashing the pairs of a level does not change its tree hash.\<close>
lemma tree_hash_level: "tree_hash H (next_level H xs) = tree_hash H xs"
proof (induction xs rule: length_induct)
  case (1 xs)
  let ?n = "length xs" and ?k = "split_point (length xs)"
  consider "?n < 2" | "?n = 2" | "3 \<le> ?n"
    by linarith
  then show ?case
  proof cases
    case 1
    then show ?thesis
      by (cases xs) (auto simp: Suc_lessI)
  next
    case 2
    then obtain a b where "xs = [a, b]"
      by (auto simp: numeral_2_eq_2 length_Suc_conv)
    then show ?thesis
      by (simp add: tree_hash_split split_point.simps)
  next
    case 3
    define l where "l = (?n + 1) div 2"
    have k: "?k = 2 * split_point l" "split_point l < l" "2 \<le> l"
      using 3 split_point_range [of l] by (simp_all add: l_def split_point.simps [of "length xs"])
    have bounds: "?k < ?n"
      using 3 split_point_range [of ?n] by simp
    have lvl: "next_level H xs = next_level H (take ?k xs) @ next_level H (drop ?k xs)"
      using next_level_append [of "take ?k xs" H "drop ?k xs"] bounds k(1) by simp
    have len: "length (next_level H (take ?k xs)) = split_point l" "length (next_level H xs) = l"
      using bounds k(1) by (simp_all add: length_next_level l_def)
    have "tree_hash H (next_level H xs) = H (tree_hash H (next_level H (take ?k xs))) (tree_hash H (next_level H (drop ?k xs)))"
      using tree_hash_split [of "next_level H xs" H] k(3) len by (simp add: lvl)
    also have "\<dots> = H (tree_hash H (take ?k xs)) (tree_hash H (drop ?k xs))"
      using "1.IH" bounds k split_point_pos [of l] by simp
    also have "\<dots> = tree_hash H xs"
      using tree_hash_split [of xs H] 3 by simp
    finally show ?thesis .
  qed
qed

lemma root_loop_tree_hash: "xs \<noteq> [] \<Longrightarrow> root_loop H xs ! 0 = tree_hash H xs"
proof (induction H xs rule: root_loop.induct)
  case (1 H xs)
  show ?case
  proof (cases "1 < length xs")
    case True
    then show ?thesis
      using 1 by (simp add: root_loop.simps [of H xs] tree_hash_level)
  next
    case False
    then obtain x where "xs = [x]"
      using 1(2) by (cases xs) auto
    then show ?thesis
      by (simp add: root_loop.simps)
  qed
qed

locale node_hash =
  fixes H :: "hash32 \<Rightarrow> hash32 \<Rightarrow> hash32"
  assumes length_digest: "length (H l r) = 32"
begin

lemma next_level_digests: "\<forall>x \<in> set xs. length x = 32 \<Longrightarrow> \<forall>x \<in> set (next_level H xs). length x = 32"
  using next_level_members [of H xs] length_digest by (fastforce simp: image_def)

lemma root_loop_single: "xs \<noteq> [] \<Longrightarrow> length (root_loop H xs) = 1"
proof (induction H xs rule: root_loop.induct)
  case (1 H xs)
  then show ?case
    by (cases "1 < length xs") (simp_all add: root_loop.simps [of H xs] le_Suc_eq not_less)
qed

lemma root_loop_digest: "\<forall>x \<in> set xs. length x = 32 \<Longrightarrow> xs \<noteq> [] \<Longrightarrow> length (root_loop H xs ! 0) = 32"
proof (induction xs rule: length_induct)
  case (1 xs)
  show ?case
  proof (cases "1 < length xs")
    case True
    then show ?thesis
      using 1 next_level_digests [of xs] by (subst root_loop.simps) (simp add: length_next_level)
  next
    case False
    with 1(2,3) show ?thesis
      by (subst root_loop.simps) (auto simp: neq_Nil_conv)
  qed
qed

lemma auth_path_reaches_root: "i < length xs \<Longrightarrow> apply_path H (xs ! i) (auth_path H xs i) = root_loop H xs ! 0"
proof (induction xs arbitrary: i rule: length_induct)
  case (1 xs)
  show ?case
  proof (cases "1 < length xs")
    case True
    have "i div 2 < length (next_level H xs)"
      using 1(2) by (simp add: length_next_level)
    then have "apply_path H (next_level H xs ! (i div 2)) (auth_path H (next_level H xs) (i div 2)) =
        root_loop H (next_level H xs) ! 0"
      using 1(1) True by (simp add: length_next_level)
    then show ?thesis
      using True unfolding next_level_nth [OF 1(2)]
      by (auto simp: auth_path.simps [of H xs] root_loop.simps [of H xs])
  next
    case False
    with 1(2) have "i = 0" by simp
    with False show ?thesis
      by (simp add: auth_path.simps [of H xs] root_loop.simps [of H xs])
  qed
qed

lemma auth_path_length: "length xs \<le> 2 ^ n \<Longrightarrow> length (auth_path H xs i) \<le> n"
proof (induction n arbitrary: xs i)
  case (Suc n)
  show ?case
  proof (cases "1 < length xs")
    case True
    have "length (next_level H xs) \<le> 2 ^ n"
      using Suc.prems by (simp add: length_next_level)
    then have "length (auth_path H (next_level H xs) (i div 2)) \<le> n"
      by (rule Suc.IH)
    with True show ?thesis
      by (simp add: auth_path.simps [of H xs])
  qed (simp add: auth_path.simps [of H xs])
qed (simp add: auth_path.simps)

lemma auth_path_entries:
  "\<forall>x \<in> set xs. length x = 32 \<Longrightarrow> i < length xs \<Longrightarrow>
     \<forall>(d, s) \<in> set (auth_path H xs i). (d = 0 \<or> d = 1) \<and> length s = 32"
proof (induction xs arbitrary: i rule: length_induct)
  case (1 xs)
  show ?case
  proof (cases "1 < length xs")
    case True
    have "length (next_level H xs) < length xs" "i div 2 < length (next_level H xs)"
      using True 1(3) by (simp_all add: length_next_level)
    then have "\<forall>(d, s) \<in> set (auth_path H (next_level H xs) (i div 2)). (d = 0 \<or> d = 1) \<and> length s = 32"
      using 1(1) next_level_digests [OF 1(2)] by blast
    then show ?thesis
      using 1(2,3) by (subst auth_path.simps) auto
  qed (simp add: auth_path.simps [of H xs])
qed

lemma root_in_tree: "xs \<noteq> [] \<Longrightarrow> root_loop H xs ! 0 \<in> tree_digests H xs"
proof (induction xs rule: length_induct)
  case (1 xs)
  show ?case
  proof (cases "1 < length xs")
    case True
    then have "root_loop H (next_level H xs) ! 0 \<in> tree_digests H (next_level H xs)"
      using 1 by (simp add: length_next_level)
    then show ?thesis
      using tree_digests_step [OF True, of H] True by (auto simp: root_loop.simps [of H xs])
  next
    case False
    with 1(2) show ?thesis
      by (auto simp: root_loop.simps [of H xs] tree_digests_def neq_Nil_conv)
  qed
qed

lemma frontier_loop_append: "frontier_loop H xs fr = fr @ frontier_loop H xs []"
proof (induction xs arbitrary: fr rule: length_induct)
  case (1 xs)
  have "frontier_loop H (next_level H xs) fr' = fr' @ frontier_loop H (next_level H xs) []"
    if "1 < length xs" for fr'
    using that by (intro 1 [rule_format]) (simp add: length_next_level)
  from this [of "fr @ [last xs]"] this [of "[last xs]"] this [of fr] show ?case
    by (simp add: frontier_loop.simps [of H xs fr] frontier_loop.simps [of H xs "[]"])
qed

lemma frontier_step:
  "1 < length xs \<Longrightarrow> frontier_loop H xs [] =
     (if odd (length xs) then [last xs] else []) @ frontier_loop H (next_level H xs) []"
  by (subst frontier_loop.simps) (simp add: frontier_loop_append [of _ "[last xs]"])

lemma frontier_in_tree: "set (frontier_loop H xs []) \<subseteq> tree_digests H xs"
proof (induction xs rule: length_induct)
  case (1 xs)
  show ?case
  proof (cases "1 < length xs")
    case True
    then have "set (frontier_loop H (next_level H xs) []) \<subseteq> tree_digests H xs"
      using 1 tree_digests_step [OF True, of H] by (force simp: length_next_level)
    moreover have "last xs \<in> tree_digests H xs"
      using True last_in_set [of xs] by (cases "xs = []") (auto simp: tree_digests_def)
    ultimately show ?thesis
      using True by (auto simp: frontier_step)
  qed (simp add: frontier_loop.simps [of H xs])
qed

lemma frontier_length: "length xs \<le> 2 ^ n \<Longrightarrow> length (frontier_loop H xs []) \<le> n"
proof (induction n arbitrary: xs)
  case (Suc n)
  show ?case
  proof (cases "1 < length xs")
    case True
    have "length (next_level H xs) \<le> 2 ^ n"
      using Suc.prems by (simp add: length_next_level)
    from Suc.IH [OF this] True show ?thesis
      by (simp add: frontier_step)
  qed (simp add: frontier_loop.simps [of H xs])
qed (simp add: frontier_loop.simps)

lemma path_into_tree:
  "apply_path H acc path \<in> tree_digests H xs \<Longrightarrow>
     acc \<in> tree_digests H xs \<or>
     (\<exists>p \<in> set (tree_pairs H xs). \<exists>q \<in> set (path_pairs H acc path). p \<noteq> q \<and> case_prod H p = case_prod H q) \<or>
     (\<exists>q \<in> set (path_pairs H acc path). case_prod H q \<in> set xs)"
proof (induction H acc path rule: apply_path.induct)
  case (2 H acc dir sib path)
  define q where "q = (if dir = 0 then (acc, sib) else (sib, acc))"
  have step: "(if dir = 0 then H acc sib else H sib acc) = case_prod H q"
    by (simp add: q_def)
  have pairs: "path_pairs H acc ((dir, sib) # path) = q # path_pairs H (case_prod H q) path"
    by (simp add: q_def Let_def case_prod_beta)
  have IH: "case_prod H q \<in> tree_digests H xs \<or>
     (\<exists>p \<in> set (tree_pairs H xs). \<exists>q' \<in> set (path_pairs H (case_prod H q) path). p \<noteq> q' \<and> case_prod H p = case_prod H q') \<or>
     (\<exists>q' \<in> set (path_pairs H (case_prod H q) path). case_prod H q' \<in> set xs)"
    using 2 unfolding apply_path.simps step by blast
  have acc: "acc = fst q \<or> acc = snd q"
    by (simp add: q_def)
  show ?case
  proof (cases "case_prod H q \<in> tree_digests H xs \<and> case_prod H q \<notin> set xs")
    case True
    then obtain p where p: "p \<in> set (tree_pairs H xs)" "case_prod H q = case_prod H p"
      by (auto simp: tree_digests_def)
    show ?thesis
    proof (cases "p = q")
      case True
      with p(1) acc tree_pairs_closed [of "fst q" "snd q" H xs] show ?thesis by auto
    next
      case False
      then have "p \<noteq> q \<and> case_prod H p = case_prod H q" using p(2) by simp
      with p(1) show ?thesis unfolding pairs by fastforce
    qed
  next
    case False
    with IH show ?thesis unfolding pairs by fastforce
  qed
qed simp

end

interpretation rpo: node_hash "hash_node P" for P
  by unfold_locales (simp add: hash_node_def v2_node_def)

section \<open>Properties\<close>

text \<open>C40: \<open>canonical_set_root\<close>, which hashes level by level and carries an odd digest upwards, computes the tree hash of
  RFC 6962: it succeeds exactly on strictly increasing lists, the root of no leaves is zero, the root of one is the leaf, and
  the root of more is the node hash of the root of the first leaves, as many as the largest power of two below their number,
  with the root of the others.\<close>
theorem canonical_set_root_reference:
  "canonical_set_root P leaves =
     (if sorted_wrt (<) leaves then Inr (tree_hash (hash_node P) leaves)
      else Inl (InvalidInput ''set must be strictly increasing''))"
proof (cases "length leaves \<le> 1")
  case True
  then show ?thesis
    by (cases leaves) (auto simp: canonical_set_root_def tree_hash.simps)
next
  case False
  then show ?thesis
    using root_loop_tree_hash [of leaves "hash_node P"] by (cases "leaves = []") (auto simp: canonical_set_root_def any_unsorted_iff)
qed

text \<open>The canonical frontier of a set of at most \<open>2^n\<close> leaves consists of at most \<open>n\<close> digests of the set's tree.\<close>
theorem canonical_frontier_bound:
  assumes "canonical_frontier P leaves = Inr frontier" and "length leaves \<le> 2 ^ n"
  shows "length frontier \<le> n \<and> set frontier \<subseteq> tree_digests (hash_node P) leaves"
  using assms rpo.frontier_in_tree [of P leaves] rpo.frontier_length [of leaves n P]
  by (auto simp: canonical_frontier_def split: if_splits)

text \<open>Soundness of authentication paths.  If a path leads from a digest to the root of a canonical set, then the
  digest occurs in the tree of the set, or the path and the tree hash two different pairs to the same digest, or the
  path hashes a pair to one of the leaves.\<close>
lemma membership_path_sound:
  assumes "canonical_set_root P leaves = Inr root" and "leaves \<noteq> []"
    and "validate_membership_path P leaf path = root"
  shows "leaf \<in> tree_digests (hash_node P) leaves \<or>
    (\<exists>p \<in> set (tree_pairs (hash_node P) leaves). \<exists>q \<in> set (path_pairs (hash_node P) leaf path).
       p \<noteq> q \<and> case_prod (hash_node P) p = case_prod (hash_node P) q) \<or>
    (\<exists>q \<in> set (path_pairs (hash_node P) leaf path). case_prod (hash_node P) q \<in> set leaves)"
proof -
  have "root \<in> tree_digests (hash_node P) leaves"
    using assms(1,2) rpo.root_in_tree [of leaves P]
    by (auto simp: canonical_set_root_def tree_digests_def split: if_splits)
  then show ?thesis
    using rpo.path_into_tree [of P leaf path leaves] assms(3) by (simp add: validate_membership_path_def)
qed

text \<open>Completeness of authentication paths.  Every leaf of a set of at most \<open>2^n\<close> leaves has a well-formed path of at
  most \<open>n\<close> entries that leads to the canonical root.\<close>
lemma membership_path_complete:
  assumes "canonical_set_root P leaves = Inr root" and "leaf \<in> set leaves" and "length leaves \<le> 2 ^ n"
    and "\<forall>x \<in> set leaves. length x = 32"
  shows "\<exists>path. length path \<le> n \<and> (\<forall>(d, s) \<in> set path. (d = 0 \<or> d = 1) \<and> length s = 32) \<and>
    validate_membership_path P leaf path = root"
proof -
  obtain i where i: "i < length leaves" "leaf = leaves ! i"
    using assms(2) by (auto simp: in_set_conv_nth)
  have "root = root_loop (hash_node P) leaves ! 0"
    using assms(1,2) by (auto simp: canonical_set_root_def root_loop.simps [of _ leaves] split: if_splits)
  then show ?thesis
    using rpo.auth_path_reaches_root [OF i(1), of P] rpo.auth_path_length [OF assms(3), of P i] i(2)
      rpo.auth_path_entries [OF assms(4) i(1), of P]
    by (auto simp: validate_membership_path_def)
qed

section \<open>Instances\<close>

definition sample_leaf :: "u8 \<Rightarrow> hash32" where
  "sample_leaf b = b # replicate 31 0"

lemma sample_leaf_simps [simp]:
  "sample_leaf a < sample_leaf b \<longleftrightarrow> a < b" "sample_leaf a \<le> sample_leaf b \<longleftrightarrow> a \<le> b"
  "sample_leaf a = sample_leaf b \<longleftrightarrow> a = b" "length (sample_leaf a) = 32"
  by (auto simp: sample_leaf_def)

lemma sample_root:
  "canonical_set_root P [sample_leaf 2, sample_leaf 3] = Inr (hash_node P (sample_leaf 2) (sample_leaf 3))"
  by (simp add: canonical_set_root_def root_loop.simps [of _ "[a, b]" for a b] root_loop.simps [of _ "[a]" for a])

theorem canonical_frontier_bound_witness:
  "\<exists>frontier. canonical_frontier sample_rpo [sample_leaf 2, sample_leaf 3] = Inr frontier \<and> length frontier \<le> 1"
proof -
  have f: "canonical_frontier sample_rpo [sample_leaf 2, sample_leaf 3] =
      Inr (frontier_loop (hash_node sample_rpo) [sample_leaf 2, sample_leaf 3] [])"
    by (simp add: canonical_frontier_def)
  then show ?thesis
    using canonical_frontier_bound [OF f, of 1] by simp
qed

end
