(* ===== verification/Witnesses.thy ===== *)
theory Witnesses
  imports Merkle
begin

text \<open>
  Canonical witnesses (\<open>msphf-core/src/witness.rs\<close>): membership, non-membership and proof-of-possession witnesses and
  their validation against the roots of an anchor instance.  The lemmas show when validation accepts: a member of a
  canonical set always has a membership witness, an accepted non-membership witness satisfies its ordering and path
  checks, and the two-sided form checks no directions below the lowest common ancestor, so that it also accepts a
  query that is a member of the set.
\<close>

section \<open>Data\<close>

definition MAX_MERKLE_DEPTH :: nat where
  "MAX_MERKLE_DEPTH = 64"

datatype WitnessMode = ModeA | ModeB

record ValidatedMembership =
  vm_leaf_id :: hash32
  vm_root :: hash32
  vm_path :: path

record ValidatedNonMembership =
  vn_query :: hash32
  vn_root :: hash32
  vn_left :: "hash32 option"
  vn_right :: "hash32 option"
  vn_path :: path

record ValidatedPop =
  vp_public_key :: bytes
  vp_signature :: bytes
  vp_message :: "bytes option"

record ValidatedWitness =
  vw_mode :: WitnessMode
  vw_membership :: ValidatedMembership
  vw_nonmembership :: "ValidatedNonMembership option"
  vw_pop :: "ValidatedPop option"

record RawPathEntry =
  pe_sibling :: bytes
  pe_dir :: u8

record RawMembershipWitness =
  rm_leaf_id :: bytes
  rm_root :: bytes
  rm_path :: "RawPathEntry list"

record RawNonMembershipWitness =
  rn_query :: bytes
  rn_root :: bytes
  rn_left :: "bytes option"
  rn_right :: "bytes option"
  rn_path :: "RawPathEntry list"
  rn_left_below :: "RawPathEntry list"
  rn_right_below :: "RawPathEntry list"
  rn_above :: "RawPathEntry list"
  rn_nmint :: "bytes option"
  rn_lca_left_height :: "u8 option"
  rn_lca_right_height :: "u8 option"

record RawPopWitness =
  rp_public_key :: bytes
  rp_signature :: bytes

datatype WitnessVariants =
    VariantA RawMembershipWitness "RawPopWitness option"
  | VariantB RawMembershipWitness "RawNonMembershipWitness option" "RawPopWitness option"

primrec witness_mode :: "WitnessVariants \<Rightarrow> WitnessMode" where
  "witness_mode (VariantA w p) = ModeA"
| "witness_mode (VariantB w n p) = ModeB"

section \<open>Commitment of a validated witness\<close>

definition carray32 :: "hash32 \<Rightarrow> cbor" where
  "carray32 h = CArray (map (\<lambda>b. CInt (uint b)) h)"

definition cpath :: "path \<Rightarrow> cbor" where
  "cpath p = CArray (map (\<lambda>(d, s). CArray [CInt (uint d), carray32 s]) p)"

definition cmembership :: "ValidatedMembership \<Rightarrow> cbor" where
  "cmembership m = cstruct [(''leaf_id'', carray32 (vm_leaf_id m)), (''root'', carray32 (vm_root m)),
     (''path'', cpath (vm_path m))]"

definition copt32 :: "hash32 option \<Rightarrow> cbor" where
  "copt32 x = (case x of None \<Rightarrow> CNull | Some h \<Rightarrow> carray32 h)"

definition cnonmembership :: "ValidatedNonMembership \<Rightarrow> cbor" where
  "cnonmembership n = cstruct [(''query'', carray32 (vn_query n)), (''root'', carray32 (vn_root n)),
     (''left'', copt32 (vn_left n)), (''right'', copt32 (vn_right n)), (''path'', cpath (vn_path n))]"

definition cpop :: "ValidatedPop \<Rightarrow> cbor" where
  "cpop p = cstruct ([(''public_key'', CBytes (vp_public_key p)), (''signature'', CBytes (vp_signature p))]
     @ (case vp_message p of None \<Rightarrow> [] | Some m \<Rightarrow> [(''message'', CBytes m)]))"

definition witness_digest :: "Ext \<Rightarrow> ValidatedWitness \<Rightarrow> MsphfError + hash32" where
  "witness_digest E w = h_l E ''msphf/witness/commit'' (cstruct
     [(''mode'', CText (case vw_mode w of ModeA \<Rightarrow> ''a'' | ModeB \<Rightarrow> ''b'')),
      (''membership'', cmembership (vw_membership w)),
      (''nonmembership'', case vw_nonmembership w of None \<Rightarrow> CNull | Some n \<Rightarrow> cnonmembership n),
      (''pop'', case vw_pop w of None \<Rightarrow> CNull | Some p \<Rightarrow> cpop p)])"

section \<open>Validation\<close>

definition to_array32 :: "bytes \<Rightarrow> MsphfError + hash32" where
  "to_array32 b = (if length b = 32 then Inr b else Inl (Witness CborMalformed))"

fun validate_entries :: "RawPathEntry list \<Rightarrow> MsphfError + path" where
  "validate_entries [] = Inr []"
| "validate_entries (e # es) =
     (if 1 < pe_dir e then Inl (Witness ProjEvalFail)
      else tryE (to_array32 (pe_sibling e)) (\<lambda>sib.
           tryE (validate_entries es) (\<lambda>out. Inr ((pe_dir e, sib) # out))))"

definition validate_path :: "RawPathEntry list \<Rightarrow> MsphfError + path" where
  "validate_path p = (if MAX_MERKLE_DEPTH < length p then Inl (Witness PathOversize) else validate_entries p)"

definition validate_membership_against ::
  "RpoExt \<Rightarrow> RawMembershipWitness \<Rightarrow> hash32 \<Rightarrow> MsphfError + ValidatedMembership" where
  "validate_membership_against P raw expected_root =
     tryE (to_array32 (rm_leaf_id raw)) (\<lambda>leaf.
     tryE (to_array32 (rm_root raw)) (\<lambda>witness_root.
     if witness_root \<noteq> expected_root then Inl (Witness ProjEvalFail)
     else tryE (validate_path (rm_path raw)) (\<lambda>path.
       if validate_membership_path P leaf path \<noteq> expected_root then Inl (Witness ProjEvalFail)
       else Inr \<lparr>vm_leaf_id = leaf, vm_root = expected_root, vm_path = path\<rparr>)))"

definition fold_step :: "RpoExt \<Rightarrow> hash32 \<Rightarrow> RawPathEntry \<Rightarrow> MsphfError + hash32" where
  "fold_step P acc entry =
     (if length (pe_sibling entry) \<noteq> 32 then Inl (Witness CborMalformed)
      else if pe_dir entry = 0 then Inr (hash_node P acc (pe_sibling entry))
      else if pe_dir entry = 1 then Inr (hash_node P (pe_sibling entry) acc)
      else Inl (Witness CborMalformed))"

fun fold_extended_anchor :: "RpoExt \<Rightarrow> hash32 \<Rightarrow> RawPathEntry list \<Rightarrow> MsphfError + hash32" where
  "fold_extended_anchor P acc [] = Inr acc"
| "fold_extended_anchor P acc (e # es) = tryE (fold_step P acc e) (\<lambda>acc. fold_extended_anchor P acc es)"

text \<open>A bound of a non-membership witness: 32 bytes, strictly on its side of the query.\<close>
definition check_left :: "RawNonMembershipWitness \<Rightarrow> MsphfError + hash32 option" where
  "check_left raw = (case rn_left raw of
       None \<Rightarrow> Inr None
     | Some l \<Rightarrow> if length l \<noteq> 32 then Inl (Witness CborMalformed)
                else if rn_query raw \<le> l then Inl (Witness NonCanonical)
                else tryE (to_array32 l) (\<lambda>l. Inr (Some l)))"

definition check_right :: "RawNonMembershipWitness \<Rightarrow> MsphfError + hash32 option" where
  "check_right raw = (case rn_right raw of
       None \<Rightarrow> Inr None
     | Some r \<Rightarrow> if length r \<noteq> 32 then Inl (Witness CborMalformed)
                else if r \<le> rn_query raw then Inl (Witness NonCanonical)
                else tryE (to_array32 r) (\<lambda>r. Inr (Some r)))"

text \<open>The branch with both bounds.  The lengths are \<open>usize\<close>, so the sums do not wrap for lists that fit memory.\<close>
definition nonmembership_two_sided ::
  "RpoExt \<Rightarrow> RawNonMembershipWitness \<Rightarrow> hash32 \<Rightarrow> hash32 \<Rightarrow> hash32 \<Rightarrow> MsphfError + ValidatedNonMembership" where
  "nonmembership_two_sided P raw expected_root l r =
     (if rn_path raw \<noteq> [] then Inl (Witness NonCanonical)
      else
       tryE (ok_or (Witness NonCanonical) (rn_lca_left_height raw)) (\<lambda>lh.
       tryE (ok_or (Witness NonCanonical) (rn_lca_right_height raw)) (\<lambda>rh.
       if unat lh \<noteq> length (rn_left_below raw) + 1 \<or> unat rh \<noteq> length (rn_right_below raw) + 1
       then Inl (Witness NonCanonical)
       else
       tryE (ok_or (Witness NonCanonical) (rn_nmint raw)) (\<lambda>nmint.
       if length nmint \<noteq> 32 then Inl (Witness CborMalformed)
       else
       tryE (fold_extended_anchor P l (rn_left_below raw)) (\<lambda>left_anchor.
       tryE (fold_extended_anchor P r (rn_right_below raw)) (\<lambda>right_anchor.
       tryE (fold_extended_anchor P (hash_node P left_anchor right_anchor) (rn_above raw)) (\<lambda>acc.
       if 64 < length (rn_left_below raw) + length (rn_right_below raw) + length (rn_above raw)
       then Inl (Witness PathOversize)
       else if acc \<noteq> expected_root then Inl (Witness NonCanonical)
       else if nmint \<noteq> hash_interval_binding P l l r r lh rh then Inl (Witness NonCanonical)
       else tryE (to_array32 (rn_query raw)) (\<lambda>query.
         Inr \<lparr>vn_query = query, vn_root = expected_root, vn_left = Some l, vn_right = Some r, vn_path = []\<rparr>))))))))"

text \<open>The empty tree, and the branch with one bound.\<close>
definition nonmembership_open ::
  "RpoExt \<Rightarrow> RawNonMembershipWitness \<Rightarrow> hash32 \<Rightarrow> hash32 option \<Rightarrow> hash32 option \<Rightarrow> path \<Rightarrow>
     MsphfError + ValidatedNonMembership" where
  "nonmembership_open P raw expected_root left right path =
     (if left = None \<and> right = None then
        (if path \<noteq> [] then Inl (Witness NonCanonical)
         else if \<exists>b \<in> set expected_root. b \<noteq> 0 then Inl (Witness NonCanonical)
         else tryE (to_array32 (rn_query raw)) (\<lambda>query.
           Inr \<lparr>vn_query = query, vn_root = expected_root, vn_left = left, vn_right = right, vn_path = path\<rparr>))
      else
        let base = (case (left, right) of
             (Some l, Some r) \<Rightarrow> hash_interval P l r | (Some l, None) \<Rightarrow> l | (None, Some r) \<Rightarrow> r | (None, None) \<Rightarrow> [])
        in if apply_path_from P base path \<noteq> expected_root then Inl (Witness NonCanonical)
           else tryE (to_array32 (rn_query raw)) (\<lambda>query.
             Inr \<lparr>vn_query = query, vn_root = expected_root, vn_left = left, vn_right = right, vn_path = path\<rparr>))"

definition validate_nonmembership_against ::
  "RpoExt \<Rightarrow> RawNonMembershipWitness \<Rightarrow> hash32 \<Rightarrow> MsphfError + ValidatedNonMembership" where
  "validate_nonmembership_against P raw expected_root =
     (if length (rn_query raw) \<noteq> 32 then Inl (Witness CborMalformed)
      else
       tryE (to_array32 (rn_root raw)) (\<lambda>root.
       if root \<noteq> expected_root then Inl (Witness ProjEvalFail)
       else
       tryE (check_left raw) (\<lambda>left.
       tryE (check_right raw) (\<lambda>right.
       if (case (left, right) of (Some l, Some r) \<Rightarrow> r \<le> l | _ \<Rightarrow> False) then Inl (Witness NonCanonical)
       else
       tryE (validate_path (rn_path raw)) (\<lambda>path.
       case (left, right) of
         (Some l, Some r) \<Rightarrow> nonmembership_two_sided P raw expected_root l r
       | _ \<Rightarrow> nonmembership_open P raw expected_root left right path)))))"

primrec map_cityg_pop_verify_error :: "MlDsa65VerifyError \<Rightarrow> MsphfError" where
  "map_cityg_pop_verify_error VerificationFailed = Witness ProjEvalFail"
| "map_cityg_pop_verify_error InvalidPublicKeyLength = Witness CborMalformed"
| "map_cityg_pop_verify_error InvalidSignatureLength = Witness CborMalformed"
| "map_cityg_pop_verify_error InvalidPublicKey = Witness CborMalformed"
| "map_cityg_pop_verify_error InvalidSignature = Witness CborMalformed"

definition validate_pop ::
  "Ext \<Rightarrow> AnchorInstance \<Rightarrow> ValidatedMembership \<Rightarrow> RawPopWitness \<Rightarrow> MsphfError + ValidatedPop" where
  "validate_pop E anchor membership raw =
     (if length (rp_public_key raw) \<noteq> 2592 then Inl (Witness CborMalformed)
      else if length (rp_signature raw) \<noteq> 4627 then Inl (Witness CborMalformed)
      else
       tryE (to_cbor_bytes E anchor) (\<lambda>xk_bytes.
       tryE (h_l E ''msphf/pop/msg'' (cstruct [(''xk'', CBytes xk_bytes), (''leaf_id'', CBytes (vm_leaf_id membership)),
         (''epoch'', CBytes (ai_we_epoch_id anchor))])) (\<lambda>msg.
       tryE (map_err map_cityg_pop_verify_error
         (verify_cityg_pop_signature E (rp_public_key raw) msg (rp_signature raw))) (\<lambda>_.
       tryE (h_l E ''leaf-id'' (cstruct [(''public_key'', CBytes (rp_public_key raw))])) (\<lambda>expected_leaf.
       if expected_leaf \<noteq> vm_leaf_id membership then Inl (Witness LeafBindMismatch)
       else Inr \<lparr>vp_public_key = rp_public_key raw, vp_signature = rp_signature raw, vp_message = Some msg\<rparr>)))))"

definition validate_pop_opt ::
  "Ext \<Rightarrow> AnchorInstance \<Rightarrow> ValidatedMembership \<Rightarrow> RawPopWitness option \<Rightarrow> MsphfError + ValidatedPop option" where
  "validate_pop_opt E anchor m p =
     (case p of None \<Rightarrow> Inr None | Some raw \<Rightarrow> tryE (validate_pop E anchor m raw) (\<lambda>v. Inr (Some v)))"

primrec validate_against :: "Ext \<Rightarrow> AnchorInstance \<Rightarrow> WitnessVariants \<Rightarrow> MsphfError + ValidatedWitness" where
  "validate_against E anchor (VariantA witness pop) =
     tryE (map_err (\<lambda>_. Witness CborMalformed) (bytes32 (ai_parent_root anchor))) (\<lambda>expected.
     tryE (validate_membership_against (rpo E) witness expected) (\<lambda>membership.
     tryE (validate_pop_opt E anchor membership pop) (\<lambda>pop.
     Inr \<lparr>vw_mode = ModeA, vw_membership = membership, vw_nonmembership = None, vw_pop = pop\<rparr>)))"
| "validate_against E anchor (VariantB witness nonmem pop) =
     tryE (map_err (\<lambda>_. Witness CborMalformed) (bytes32 (ai_join_delta_root anchor))) (\<lambda>expected.
     tryE (validate_membership_against (rpo E) witness expected) (\<lambda>membership.
     tryE (case nonmem of
         None \<Rightarrow> Inr None
       | Some raw \<Rightarrow>
           tryE (map_err (\<lambda>_. Witness CborMalformed) (bytes32 (ai_revoked_root anchor))) (\<lambda>expected_nonmem.
           tryE (validate_nonmembership_against (rpo E) raw expected_nonmem) (\<lambda>n. Inr (Some n)))) (\<lambda>nonmembership.
     tryE (validate_pop_opt E anchor membership pop) (\<lambda>pop.
     Inr \<lparr>vw_mode = ModeB, vw_membership = membership, vw_nonmembership = nonmembership, vw_pop = pop\<rparr>))))"

section \<open>Lemmas\<close>

lemma apply_path_snoc:
  "apply_path H acc (path @ [(d, s)]) = (if d = 0 then H (apply_path H acc path) s else H s (apply_path H acc path))"
  by (induction H acc path rule: apply_path.induct) auto

lemma to_array32_Inr [result_simps]: "to_array32 b = Inr h \<longleftrightarrow> length b = 32 \<and> h = b"
  by (auto simp: to_array32_def)

lemma to_array32_ok [simp]: "length b = 32 \<Longrightarrow> to_array32 b = Inr b"
  by (simp add: to_array32_def)

definition raw_entry :: "u8 \<times> hash32 \<Rightarrow> RawPathEntry" where
  "raw_entry e = \<lparr>pe_sibling = snd e, pe_dir = fst e\<rparr>"

lemma validate_entries_raw:
  "\<forall>(d, s) \<in> set path. (d = 0 \<or> d = 1) \<and> length s = 32 \<Longrightarrow> validate_entries (map raw_entry path) = Inr path"
  by (induction path) (auto simp: raw_entry_def)

lemma validate_path_sound:
  assumes "validate_path es = Inr path"
  shows "es = map raw_entry path" "length path \<le> 64" "\<forall>(d, s) \<in> set path. (d = 0 \<or> d = 1) \<and> length s = 32"
proof -
  have len: "length es \<le> 64" and ok: "validate_entries es = Inr path"
    using assms by (auto simp: validate_path_def MAX_MERKLE_DEPTH_def split: if_splits)
  have "es = map raw_entry path \<and> (\<forall>(d, s) \<in> set path. (d = 0 \<or> d = 1) \<and> length s = 32)"
    using ok
  proof (induction es arbitrary: path)
    case (Cons e es)
    have "d = 0 \<or> d = 1" if "\<not> 1 < d" for d :: u8
    proof -
      have "unat d = unat (0 :: u8) \<or> unat d = unat (1 :: u8)"
        using that by (auto simp: word_less_nat_alt)
      then show ?thesis
        using unsigned_word_eqI by blast
    qed
    with Cons show ?case
      by (fastforce simp: result_simps raw_entry_def split: if_splits)
  qed simp
  with len show "es = map raw_entry path" "length path \<le> 64"
    "\<forall>(d, s) \<in> set path. (d = 0 \<or> d = 1) \<and> length s = 32"
    by auto
qed

lemma validate_membership_Inr [result_simps]:
  "validate_membership_against P raw root = Inr m \<longleftrightarrow>
     length (rm_leaf_id raw) = 32 \<and> length (rm_root raw) = 32 \<and> rm_root raw = root \<and>
     (\<exists>path. validate_path (rm_path raw) = Inr path \<and> validate_membership_path P (rm_leaf_id raw) path = root \<and>
        m = \<lparr>vm_leaf_id = rm_leaf_id raw, vm_root = root, vm_path = path\<rparr>)"
  by (auto simp: validate_membership_against_def tryE_eq_Inr to_array32_Inr split: if_splits)

section \<open>Properties\<close>

text \<open>Completeness of membership witnesses.  Every member of a canonical set of 32-byte leaves, of any size up to
  \<open>2^64\<close>, has a witness that the validator accepts: paths never exceed the depth limit of 64.\<close>
theorem membership_witness_complete:
  assumes "canonical_set_root P leaves = Inr root" and "\<forall>x \<in> set leaves. length x = 32"
    and "leaf \<in> set leaves" and "length leaves \<le> 2 ^ 64"
  shows "\<exists>raw m. rm_leaf_id raw = leaf \<and> validate_membership_against P raw root = Inr m"
proof -
  obtain path where path: "length path \<le> 64" "\<forall>(d, s) \<in> set path. (d = 0 \<or> d = 1) \<and> length s = 32"
    "validate_membership_path P leaf path = root"
    using membership_path_complete [OF assms(1,3,4,2)] by blast
  have root: "length root = 32"
    using path(3) path(2) assms(2,3) rpo.length_digest
    by (cases path rule: rev_cases) (auto simp: validate_membership_path_def apply_path_snoc)
  define raw where "raw = \<lparr>rm_leaf_id = leaf, rm_root = root, rm_path = map raw_entry path\<rparr>"
  have "validate_path (rm_path raw) = Inr path"
    using path(1,2) by (simp add: raw_def validate_path_def MAX_MERKLE_DEPTH_def validate_entries_raw)
  then have "validate_membership_against P raw root = Inr \<lparr>vm_leaf_id = leaf, vm_root = root, vm_path = path\<rparr>"
    using root assms(2,3) path(3) by (simp add: raw_def validate_membership_against_def)
  moreover have "rm_leaf_id raw = leaf"
    by (simp add: raw_def)
  ultimately show ?thesis by blast
qed

text \<open>Soundness of membership witnesses.  An accepted witness against the root of a non-empty canonical set names a
  digest of the set's tree, or exhibits a collision of the node hash between the tree and the witness path, or hashes
  a pair to one of the leaves.\<close>
theorem membership_witness_sound:
  assumes "canonical_set_root P leaves = Inr root" and "leaves \<noteq> []"
    and "validate_membership_against P raw root = Inr m"
  shows "vm_leaf_id m \<in> tree_digests (hash_node P) leaves \<or>
    (\<exists>p \<in> set (tree_pairs (hash_node P) leaves). \<exists>q \<in> set (path_pairs (hash_node P) (vm_leaf_id m) (vm_path m)).
       p \<noteq> q \<and> case_prod (hash_node P) p = case_prod (hash_node P) q) \<or>
    (\<exists>q \<in> set (path_pairs (hash_node P) (vm_leaf_id m) (vm_path m)). case_prod (hash_node P) q \<in> set leaves)"
proof -
  have "validate_membership_path P (vm_leaf_id m) (vm_path m) = root"
    using assms(3) by (auto simp: validate_membership_Inr)
  from membership_path_sound [OF assms(1,2) this] show ?thesis .
qed

text \<open>An accepted non-membership witness is ordered.  Its query has 32 bytes and lies strictly between the bounds it
  names, and the root it is validated against is the expected one.\<close>
theorem nonmembership_witness_ordered:
  assumes "validate_nonmembership_against P raw root = Inr v"
  shows "vn_query v = rn_query raw \<and> length (vn_query v) = 32 \<and> vn_root v = root \<and>
    (\<forall>l. vn_left v = Some l \<longrightarrow> l < vn_query v) \<and> (\<forall>r. vn_right v = Some r \<longrightarrow> vn_query v < r)"
  using assms
  by (auto simp: validate_nonmembership_against_def check_left_def check_right_def nonmembership_two_sided_def
      nonmembership_open_def Let_def result_simps split: if_splits option.splits)

definition forged_nonmembership :: "RpoExt \<Rightarrow> hash32 \<Rightarrow> hash32 \<Rightarrow> hash32 \<Rightarrow> hash32 \<Rightarrow> hash32 \<Rightarrow> RawNonMembershipWitness" where
  "forged_nonmembership P root a b c d =
     \<lparr>rn_query = b, rn_root = root, rn_left = Some a, rn_right = Some c, rn_path = [],
      rn_left_below = [raw_entry (0, b)], rn_right_below = [raw_entry (0, d)], rn_above = [],
      rn_nmint = Some (hash_interval_binding P a a c c 2 2), rn_lca_left_height = Some 2, rn_lca_right_height = Some 2\<rparr>"

text \<open>The two-sided branch does not establish non-membership.  For every set of four leaves \<open>a < b < c < d\<close> the
  validator accepts a witness, made of the set's own digests, that \<open>b\<close> is not a member: nothing forces the left bound
  to be the rightmost leaf of its subtree.\<close>
theorem nonmembership_two_sided_accepts_member:
  assumes "a < b" and "b < c" and "c < d" and "\<forall>x \<in> {a, b, c, d}. length x = 32"
    and "canonical_set_root P [a, b, c, d] = Inr root"
  shows "\<exists>v. validate_nonmembership_against P (forged_nonmembership P root a b c d) root = Inr v \<and>
    vn_query v = b \<and> b \<in> set [a, b, c, d]"
proof -
  have root: "root = hash_node P (hash_node P a b) (hash_node P c d)"
    using assms(1-3,5) by (simp add: canonical_set_root_def root_loop.simps [of _ "_ # _"] split: if_splits)
  have "length root = 32"
    by (simp add: root rpo.length_digest)
  moreover have "a < c" using assms(1,2) by simp
  moreover have "length (hash_interval_binding P a a c c 2 2) = 32"
    by (simp add: hash_interval_binding_def)
  ultimately show ?thesis
    using assms(1-4) root
    by (simp add: validate_nonmembership_against_def forged_nonmembership_def check_left_def check_right_def
        validate_path_def nonmembership_two_sided_def fold_step_def raw_entry_def not_le)
qed

text \<open>An accepted proof of possession is bound to the witness.  The signature verifies under the 2592-byte key over
  the hash of the instance, leaf and epoch, and the leaf is the hash of that key.\<close>
theorem validate_pop_binds:
  assumes "validate_pop E anchor m raw = Inr v"
  shows "\<exists>xk msg. to_cbor_bytes E anchor = Inr xk \<and>
    h_l E ''msphf/pop/msg'' (cstruct [(''xk'', CBytes xk), (''leaf_id'', CBytes (vm_leaf_id m)),
      (''epoch'', CBytes (ai_we_epoch_id anchor))]) = Inr msg \<and>
    vp_message v = Some msg \<and> length (vp_public_key v) = 2592 \<and> length (vp_signature v) = 4627 \<and>
    dilithium_verify E (vp_public_key v) msg (vp_signature v) = Inr () \<and>
    h_l E ''leaf-id'' (cstruct [(''public_key'', CBytes (vp_public_key v))]) = Inr (vm_leaf_id m)"
  using assms
  by (auto simp: validate_pop_def verify_cityg_pop_signature_def tryE_eq_Inr map_err_eq_Inr split: if_splits)

text \<open>The leaf that a proof of possession is checked against is never the leaf identifier that the orchestrator
  derives for the same key, in either mode, unless BLAKE3 collides on the two inputs named here: the former hashes a
  map with one entry, the latter an array.\<close>
theorem pop_leaf_differs_from_leaf_id:
  assumes "ser_injective E" and "validate_pop E anchor m raw = Inr v"
    and "compute_leaf_id E mode gid alg (rp_public_key raw) = Inr (vm_leaf_id m)"
  shows "\<exists>enc enc'. cbor_ser E (cstruct [(''public_key'', CBytes (rp_public_key raw))]) = Inr enc \<and>
    cbor_ser E (leaf_id_tuple mode gid alg (rp_public_key raw)) = Inr enc' \<and> enc \<noteq> enc' \<and>
    blake3_derive E CITY_G_HL_DERIVE_CTX (hl_preimage ''leaf-id'' enc) =
    blake3_derive E CITY_G_HL_DERIVE_CTX (hl_preimage ''leaf-id'' enc')"
proof -
  let ?pop = "cstruct [(''public_key'', CBytes (rp_public_key raw))]"
  let ?leaf = "leaf_id_tuple mode gid alg (rp_public_key raw)"
  have "h_l E ''leaf-id'' ?pop = Inr (vm_leaf_id m)"
    using assms(2) by (auto simp: validate_pop_def tryE_eq_Inr split: if_splits)
  then obtain enc where enc: "cbor_ser E ?pop = Inr enc"
    "vm_leaf_id m = blake3_derive E CITY_G_HL_DERIVE_CTX (hl_preimage ''leaf-id'' enc)"
    by (auto simp: h_l_Inr)
  obtain enc' where enc': "cbor_ser E ?leaf = Inr enc'"
    "vm_leaf_id m = blake3_derive E CITY_G_HL_DERIVE_CTX (hl_preimage ''leaf-id'' enc')"
    using assms(3) by (auto simp: compute_leaf_id_def h_l_Inr)
  have "?pop \<noteq> ?leaf"
    by (cases mode) (simp_all add: cstruct_def)
  then have "enc \<noteq> enc'"
    using assms(1) enc(1) enc'(1) unfolding ser_injective_def by metis
  then show ?thesis
    using enc enc' by metis
qed

section \<open>Instances\<close>

theorem membership_witness_complete_witness:
  "\<exists>raw m. rm_leaf_id raw = sample_leaf 3 \<and>
     validate_membership_against sample_rpo raw (hash_node sample_rpo (sample_leaf 2) (sample_leaf 3)) = Inr m"
  by (rule membership_witness_complete [OF sample_root]) simp_all

definition sample_membership :: RawMembershipWitness where
  "sample_membership = \<lparr>rm_leaf_id = sample_leaf 2, rm_root = hash_node sample_rpo (sample_leaf 2) (sample_leaf 3),
     rm_path = [raw_entry (0, sample_leaf 3)]\<rparr>"

theorem membership_witness_sound_witness:
  "\<exists>m. validate_membership_against sample_rpo sample_membership (hash_node sample_rpo (sample_leaf 2) (sample_leaf 3)) = Inr m \<and>
    (vm_leaf_id m \<in> tree_digests (hash_node sample_rpo) [sample_leaf 2, sample_leaf 3] \<or>
     (\<exists>p \<in> set (tree_pairs (hash_node sample_rpo) [sample_leaf 2, sample_leaf 3]).
        \<exists>q \<in> set (path_pairs (hash_node sample_rpo) (vm_leaf_id m) (vm_path m)).
        p \<noteq> q \<and> case_prod (hash_node sample_rpo) p = case_prod (hash_node sample_rpo) q) \<or>
     (\<exists>q \<in> set (path_pairs (hash_node sample_rpo) (vm_leaf_id m) (vm_path m)).
        case_prod (hash_node sample_rpo) q \<in> set [sample_leaf 2, sample_leaf 3]))"
proof -
  obtain m where m: "validate_membership_against sample_rpo sample_membership
      (hash_node sample_rpo (sample_leaf 2) (sample_leaf 3)) = Inr m"
    by (simp add: validate_membership_against_def sample_membership_def rpo.length_digest validate_path_def
        MAX_MERKLE_DEPTH_def raw_entry_def validate_membership_path_def)
  from membership_witness_sound [OF sample_root _ m] m show ?thesis by blast
qed

definition empty_tree_query :: RawNonMembershipWitness where
  "empty_tree_query = \<lparr>rn_query = sample_leaf 5, rn_root = zero_hash, rn_left = None, rn_right = None, rn_path = [],
     rn_left_below = [], rn_right_below = [], rn_above = [], rn_nmint = None, rn_lca_left_height = None,
     rn_lca_right_height = None\<rparr>"

theorem nonmembership_witness_ordered_witness:
  "\<exists>v. validate_nonmembership_against sample_rpo empty_tree_query zero_hash = Inr v \<and> vn_query v = sample_leaf 5 \<and>
     vn_root v = zero_hash"
proof -
  obtain v where v: "validate_nonmembership_against sample_rpo empty_tree_query zero_hash = Inr v"
    by (simp add: validate_nonmembership_against_def empty_tree_query_def check_left_def check_right_def
        validate_path_def nonmembership_open_def) (simp add: zero_hash_def)
  from nonmembership_witness_ordered [OF v] v show ?thesis
    by (auto simp: empty_tree_query_def)
qed

theorem nonmembership_two_sided_accepts_member_witness:
  "\<exists>root v. canonical_set_root sample_rpo [sample_leaf 2, sample_leaf 3, sample_leaf 4, sample_leaf 5] = Inr root \<and>
     validate_nonmembership_against sample_rpo
       (forged_nonmembership sample_rpo root (sample_leaf 2) (sample_leaf 3) (sample_leaf 4) (sample_leaf 5)) root = Inr v \<and>
     vn_query v = sample_leaf 3"
proof -
  obtain root where root: "canonical_set_root sample_rpo [sample_leaf 2, sample_leaf 3, sample_leaf 4, sample_leaf 5] = Inr root"
    by (simp add: canonical_set_root_def)
  from nonmembership_two_sided_accepts_member [OF _ _ _ _ root] root show ?thesis
    by fastforce
qed

definition sample_anchor :: AnchorInstance where
  "sample_anchor = \<lparr>ai_gid = [1], ai_cat = [2], ai_we_epoch_id = zero_hash, ai_anchor_hdr_ctx = [],
     ai_tswe_salt_hash = zero_hash, ai_parent_root = zero_hash, ai_join_delta_root = zero_hash,
     ai_revoked_since_prev_root = zero_hash, ai_revoked_root = zero_hash, ai_pox_r_commit = None, ai_msphf_hp_commit = None\<rparr>"

definition sample_pop :: RawPopWitness where
  "sample_pop = \<lparr>rp_public_key = replicate 2592 7, rp_signature = replicate 4627 9\<rparr>"

definition sample_validated :: ValidatedMembership where
  "sample_validated = \<lparr>vm_leaf_id = hl_preimage ''leaf-id'' [] @ replicate 17 0, vm_root = zero_hash, vm_path = []\<rparr>"

lemma sample_pop_ok: "\<exists>v. validate_pop sample_ext sample_anchor sample_validated sample_pop = Inr v"
proof -
  have "to_cbor_bytes sample_ext sample_anchor = Inr (replicate (to_nat (as_cbor_tuple sample_anchor)) 0)"
    by (simp add: to_cbor_bytes_def to_cbor_vec_def sample_ext_def)
  moreover have "verify_cityg_pop_signature sample_ext (replicate 2592 7) msg (replicate 4627 9) = Inr ()" for msg
    by (simp add: verify_cityg_pop_signature_def sample_ext_def)
  ultimately show ?thesis
    by (simp add: validate_pop_def sample_pop_def sample_validated_def sample_digest sample_labels)
qed

theorem validate_pop_binds_witness:
  "\<exists>v msg. validate_pop sample_ext sample_anchor sample_validated sample_pop = Inr v \<and> vp_message v = Some msg \<and>
     dilithium_verify sample_ext (vp_public_key v) msg (vp_signature v) = Inr ()"
proof -
  obtain v where v: "validate_pop sample_ext sample_anchor sample_validated sample_pop = Inr v"
    using sample_pop_ok by blast
  from validate_pop_binds [OF v] v show ?thesis by blast
qed

theorem pop_leaf_differs_from_leaf_id_witness:
  "\<exists>enc enc'. cbor_ser sample_ext (cstruct [(''public_key'', CBytes (rp_public_key sample_pop))]) = Inr enc \<and>
    cbor_ser sample_ext (leaf_id_tuple PerGroup [1] ''ML-DSA-65'' (rp_public_key sample_pop)) = Inr enc' \<and> enc \<noteq> enc' \<and>
    blake3_derive sample_ext CITY_G_HL_DERIVE_CTX (hl_preimage ''leaf-id'' enc) =
    blake3_derive sample_ext CITY_G_HL_DERIVE_CTX (hl_preimage ''leaf-id'' enc')"
proof -
  obtain v where v: "validate_pop sample_ext sample_anchor sample_validated sample_pop = Inr v"
    using sample_pop_ok by blast
  show ?thesis
    by (rule pop_leaf_differs_from_leaf_id [OF sample_ser_injective v])
      (simp add: compute_leaf_id_def sample_digest sample_labels sample_validated_def)
qed

end
