(* ===== verification/Headers.thy ===== *)
theory Headers
  imports Pivots Witnesses
begin

text \<open>
  Reading an anchor's header (\<open>accept/mod.rs\<close>): classification of the anchor, the rules on which keys may be present,
  the typed accessors, the roll-up replay list, the envelope of the HP payload and the bootstrap signature.
\<close>

section \<open>Constants\<close>

definition MAX_HP_PROOF_BYTES :: nat where "MAX_HP_PROOF_BYTES = 512 * 1024"
definition MAX_VRF_PROOF_BYTES :: nat where "MAX_VRF_PROOF_BYTES = 8192"
definition RHO_GUARD_CAPACITY :: nat where "RHO_GUARD_CAPACITY = 64"
definition MIN_SRX_MAX_BYTES :: nat where "MIN_SRX_MAX_BYTES = 256 * 1024"
definition DEFAULT_SRX_MAX_BYTES :: nat where "DEFAULT_SRX_MAX_BYTES = 1024 * 1024"
definition FS_CAPSS_MAX_BYTES :: nat where "FS_CAPSS_MAX_BYTES = 16384"
definition BARRIER_LEAF_PUBLIC_KEY_BYTES :: nat where "BARRIER_LEAF_PUBLIC_KEY_BYTES = 1184"

definition MERGE_ONLY_KEYS :: "u64 list" where
  "MERGE_ONLY_KEYS =
     [HDR_MH_HEADS, HDR_ROLLUP_PIVOT_WEID, HDR_ROLLUP_PROVENANCE_COMMIT, HDR_ROLLUP_EPOCH_REPLAY,
      HDR_ROLLUP_VCK_COMMIT, HDR_MERGE_DELEGATION_SIG, HDR_KBROAD_REPLAY, HDR_ROLLUP_FS_MODE,
      HDR_FS_EVOLUTION_BOUNDARY, HDR_FS_PURGE_TIMES, HDR_FS_CHECKPOINT_EC]"

definition SRX_ONLY_KEYS :: "u64 list" where
  "SRX_ONLY_KEYS = [HDR_SRX_COMMIT, HDR_SRX_PAYLOAD, HDR_SRX_ROOT_SW, HDR_SRX_SMALLWOOD]"

definition LEGACY_SRX_KEYS :: "u64 list" where
  "LEGACY_SRX_KEYS = [HDR_SRX_MODE, HDR_SRX_HINT_COUNTS, HDR_SRX_HINT_SIZES]"

definition MAX_HP_BYTES :: nat where "MAX_HP_BYTES = 16 * 1024"
definition AEAD_TAG_LEN :: nat where "AEAD_TAG_LEN = 16"
definition HP_MAX_CIPHERTEXT_BYTES :: nat where "HP_MAX_CIPHERTEXT_BYTES = MAX_HP_BYTES + AEAD_TAG_LEN"
definition MERKLE_DS_ID :: string where "MERKLE_DS_ID = ''rpo-256/v2''"
definition TSWE_ALG_CODE :: u8 where "TSWE_ALG_CODE = 31"
definition TSWE_ALG_LABEL :: string where "TSWE_ALG_LABEL = ''tswe/msphf-we/fs-hybrid''"
definition BARRIER_HP_MODE :: string where "BARRIER_HP_MODE = ''barrier-sealed-v1''"
definition BARRIER_HP_CONTEXT_AUTHOR_LOCAL :: string where "BARRIER_HP_CONTEXT_AUTHOR_LOCAL = ''author-local''"
definition BARRIER_HP_CONTEXT_BARRIER_RECOVERY :: string where
  "BARRIER_HP_CONTEXT_BARRIER_RECOVERY = ''barrier-recovery''"
definition KBROAD_ML_KEM_ALG :: string where "KBROAD_ML_KEM_ALG = ''ml-kem-768''"
definition HP_AEAD_SUITE :: string where "HP_AEAD_SUITE = ''chacha20-poly1305''"
definition DEFAULT_PROOF_MODE :: string where "DEFAULT_PROOF_MODE = ''lin+zkvrf''"
definition DEFAULT_VRF_ID :: string where "DEFAULT_VRF_ID = ''lb-vrf/v1''"

section \<open>Accessors\<close>

abbreviation has_key :: "header \<Rightarrow> u64 \<Rightarrow> bool" where
  "has_key h k \<equiv> bt_get h k \<noteq> None"

definition value_bytes32 :: "cbor \<Rightarrow> FreezeError \<Rightarrow> AcceptanceError + hash32" where
  "value_bytes32 v freeze =
     (case v of CBytes b \<Rightarrow> if length b \<noteq> 32 then Inl (Freeze freeze) else Inr b | _ \<Rightarrow> Inl (Freeze freeze))"

definition header_bytes32_or_freeze :: "header \<Rightarrow> u64 \<Rightarrow> FreezeError \<Rightarrow> AcceptanceError + hash32" where
  "header_bytes32_or_freeze h key freeze =
     (case bt_get h key of None \<Rightarrow> Inl (Freeze freeze) | Some v \<Rightarrow> value_bytes32 v freeze)"

definition header_u64_or_freeze :: "header \<Rightarrow> u64 \<Rightarrow> FreezeError \<Rightarrow> AcceptanceError + u64" where
  "header_u64_or_freeze h key freeze =
     (case bt_get h key of
        Some (CInt i) \<Rightarrow> ok_or (Freeze freeze) (u64_try_from i)
      | _ \<Rightarrow> Inl (Freeze freeze))"

definition header_string_or_freeze :: "header \<Rightarrow> u64 \<Rightarrow> AcceptanceError + string" where
  "header_string_or_freeze h key = header_text h key FREEZE_FIELD_MISSING"

definition header_bytes_or_freeze :: "header \<Rightarrow> u64 \<Rightarrow> AcceptanceError + bytes" where
  "header_bytes_or_freeze h key =
     (case bt_get h key of Some (CBytes b) \<Rightarrow> Inr b | _ \<Rightarrow> Inl (Freeze FREEZE_FIELD_MISSING))"

text \<open>\<open>Value::as_bytes\<close>.\<close>
definition value_as_bytes :: "cbor \<Rightarrow> bytes option" where
  "value_as_bytes v = (case v of CBytes b \<Rightarrow> Some b | _ \<Rightarrow> None)"

text \<open>A text, or bytes that decode to a text, equal to a fixed label.\<close>
definition value_is_label :: "cbor \<Rightarrow> string \<Rightarrow> bool" where
  "value_is_label v s = (case v of CText t \<Rightarrow> t = s | CBytes b \<Rightarrow> from_utf8 b = Some s | _ \<Rightarrow> False)"

section \<open>Classification and presence of keys\<close>

datatype AnchorType = JoinAnchor | MergeAnchor | RegularAnchor

definition classify_anchor_type :: "header \<Rightarrow> AnchorType" where
  "classify_anchor_type h =
     (if has_key h HDR_BARRIER_UPDATE \<or> has_key h HDR_BARRIER_UPDATE_REASON \<or> list_ex (has_key h) MERGE_ONLY_KEYS
      then MergeAnchor
      else if has_key h HDR_BARRIER_LEAF_PK then JoinAnchor
      else RegularAnchor)"

definition is_merge_anchor :: "header \<Rightarrow> bool" where
  "is_merge_anchor h \<longleftrightarrow> classify_anchor_type h = MergeAnchor"

definition is_known_header_key :: "u64 \<Rightarrow> bool \<Rightarrow> bool" where
  "is_known_header_key key is_merge \<longleftrightarrow>
     is_merge \<and> key \<in> set MERGE_ONLY_KEYS \<or>
     key \<in> set
       [20, HDR_TSWE_ALG, HDR_SEED_CTX_HASH, HDR_MERKLE_SUITE, HDR_RHO_COMMIT, HDR_SEED_BUNDLE_COMMIT, HDR_VRF_PROOF,
        HDR_HP_BYTES, HDR_CRS_ID, HDR_HP_COMMIT, 102, HDR_KBROAD_ALG, HDR_KBROAD_PUB, HDR_PARAMS_ID, HDR_POP_ALG,
        HDR_POP_PK, HDR_POP_SIG, HDR_PARENT_ROOT, HDR_JOIN_DELTA_ROOT, HDR_REVOKED_SINCE_ROOT, HDR_REVOKED_ROOT,
        HDR_VRF_ID, HDR_PROOF_MODE, HDR_SRX_MODE, HDR_SRX_COMMIT, HDR_SRX_PAYLOAD, HDR_SRX_HINT_COUNTS,
        HDR_SRX_HINT_SIZES, HDR_PROOFS_COMMIT, HDR_POLICY_VERSION, HDR_FS_POLICY_VERSION, HDR_FS_EC,
        HDR_FS_EPOCH_COMMIT, HDR_FS_EPOCH_BASE_TS, HDR_FS_CAPSS, HDR_FS_DEV_PREV_COMMIT, HDR_FS_DEV_COMMIT,
        HDR_BARRIER_UPDATE, HDR_BARRIER_VERSION, HDR_BARRIER_LEAF_PK, HDR_BARRIER_UPDATE_REASON,
        HDR_JOIN_FINALIZE_AUTH, HDR_BARRIER_HISTORY_COMMITMENT, HDR_BARRIER_FULL_VERIFICATION_RECEIPT,
        HDR_BARRIER_GLOBAL_HISTORY_ATTESTATION, HDR_BARRIER_FULL_VERIFICATION_WITNESS, HDR_VRF_MASK_A,
        HDR_VRF_MASK_B, HDR_VRF_PUBLIC_KEY, HDR_SRX_ROOT_SW, HDR_SRX_SMALLWOOD, HDR_BOOTSTRAP_ALG,
        HDR_BOOTSTRAP_SIG, HDR_BOOTSTRAP_PK]"

definition ensure_known_header_keys :: "header \<Rightarrow> bool \<Rightarrow> AcceptanceError + unit" where
  "ensure_known_header_keys h is_merge =
     freeze_unless (list_all (\<lambda>(k, _). is_known_header_key k is_merge) h) FREEZE_HASH_CBOR"

definition enforce_anchor_presence_rules :: "header \<Rightarrow> AnchorType \<Rightarrow> AcceptanceError + unit" where
  "enforce_anchor_presence_rules h t =
     (case t of
        MergeAnchor \<Rightarrow> freeze_if (has_key h HDR_BARRIER_LEAF_PK) FREEZE_HASH_CBOR
      | JoinAnchor \<Rightarrow>
          (case bt_get h HDR_BARRIER_LEAF_PK of
             Some (CBytes leaf_pk) \<Rightarrow> freeze_if (length leaf_pk \<noteq> BARRIER_LEAF_PUBLIC_KEY_BYTES) FREEZE_HASH_CBOR
           | _ \<Rightarrow> Inl (Freeze FREEZE_HASH_CBOR))
      | RegularAnchor \<Rightarrow> freeze_if (has_key h HDR_BARRIER_LEAF_PK) FREEZE_HASH_CBOR)"

definition parse_barrier_update_reason :: "header \<Rightarrow> AcceptanceError + u64 option" where
  "parse_barrier_update_reason h =
     (let malformed = Freeze FREEZE_BARRIER_UPDATE_MALFORMED in
      if \<not> has_key h HDR_BARRIER_UPDATE
      then (if has_key h HDR_BARRIER_UPDATE_REASON then Inl malformed else Inr None)
      else (case bt_get h HDR_BARRIER_UPDATE_REASON of
        Some (CInt i) \<Rightarrow> tryE (ok_or malformed (u64_try_from i)) (\<lambda>reason.
          if 2 < reason then Inl malformed else Inr (Some reason))
      | _ \<Rightarrow> Inl malformed))"

definition compute_barrier_update_digest :: "Ext \<Rightarrow> header \<Rightarrow> AcceptanceError + hash32" where
  "compute_barrier_update_digest E h =
     (case bt_get h HDR_BARRIER_UPDATE of
        None \<Rightarrow> Inr zero_hash
      | Some (CBytes raw) \<Rightarrow> map_err acc_err (h_l E ''barrier/update/digest'' (CBytes raw))
      | Some _ \<Rightarrow> Inl (Freeze FREEZE_BARRIER_UPDATE_MALFORMED))"

definition compute_revocation_roots_hash :: "Ext \<Rightarrow> header \<Rightarrow> AcceptanceError + hash32" where
  "compute_revocation_roots_hash E h =
     tryE (header_bytes32_or_freeze h HDR_REVOKED_SINCE_ROOT FREEZE_FIELD_MISSING) (\<lambda>since.
     tryE (header_bytes32_or_freeze h HDR_REVOKED_ROOT FREEZE_FIELD_MISSING) (\<lambda>revoked.
     map_err acc_err (h_l E ''barrier/roots'' (CArray [CBytes since, CBytes revoked]))))"

section \<open>Heads, notes and the roll-up replay list\<close>

text \<open>\<open>heads.windows(2).all(|w| w[0] < w[1])\<close>.\<close>
definition heads_increasing :: "hash32 list \<Rightarrow> bool" where
  "heads_increasing hs \<longleftrightarrow> list_all (\<lambda>(a, b). a < b) (zip hs (tl hs))"

definition parse_mh_heads :: "header \<Rightarrow> AcceptanceError + hash32 list option" where
  "parse_mh_heads h =
     (case bt_get h HDR_MH_HEADS of
        Some (CArray entries) \<Rightarrow>
          tryE (mapE (\<lambda>v. value_bytes32 v FREEZE_MH_HEADS_INVALID) entries) (\<lambda>heads.
          if heads = [] \<or> \<not> heads_increasing heads then Inl (Freeze FREEZE_MH_HEADS_INVALID) else Inr (Some heads))
      | _ \<Rightarrow> Inr None)"

definition parse_mh_note :: "header \<Rightarrow> MsphfError + string option" where
  "parse_mh_note h =
     (case bt_get h 102 of
        None \<Rightarrow> Inr None
      | Some (CText note) \<Rightarrow> Inr (Some note)
      | Some _ \<Rightarrow> Inl (InvalidInput ''mh_note not text''))"

record RollupEpochEntry =
  re_weid :: hash32
  re_xk_hash :: hash32
  re_parent_root :: hash32
  re_join_delta_root :: hash32
  re_revoked_since_root :: hash32
  re_revoked_root :: hash32
  re_is_join :: bool

definition parse_rollup_roots :: "cbor \<Rightarrow> AcceptanceError + hash32 \<times> hash32 \<times> hash32 \<times> hash32" where
  "parse_rollup_roots v =
     (case v of
        CArray [a, b, c, d] \<Rightarrow>
          tryE (value_bytes32 a FREEZE_HASH_CBOR) (\<lambda>a. tryE (value_bytes32 b FREEZE_HASH_CBOR) (\<lambda>b.
          tryE (value_bytes32 c FREEZE_HASH_CBOR) (\<lambda>c. tryE (value_bytes32 d FREEZE_HASH_CBOR) (\<lambda>d. Inr (a, b, c, d)))))
      | _ \<Rightarrow> Inl (Freeze FREEZE_HASH_CBOR))"

fun parse_rollup_entries :: "hash32 option \<Rightarrow> cbor list \<Rightarrow> AcceptanceError + RollupEpochEntry list" where
  "parse_rollup_entries prev [] = Inr []"
| "parse_rollup_entries prev (e # es) =
     (case e of
        CArray [f0, f1, f2, f3] \<Rightarrow>
          tryE (value_bytes32 f0 FREEZE_HASH_CBOR) (\<lambda>weid.
          tryE (freeze_if (case prev of None \<Rightarrow> False | Some p \<Rightarrow> weid \<le> p) FREEZE_HASH_CBOR) (\<lambda>_.
          tryE (value_bytes32 f1 FREEZE_HASH_CBOR) (\<lambda>xk.
          tryE (parse_rollup_roots f2) (\<lambda>(parent, join_delta, since, revoked).
          tryE (case f3 of CBool flag \<Rightarrow> Inr flag | _ \<Rightarrow> Inl (Freeze FREEZE_HASH_CBOR)) (\<lambda>is_join.
          tryE (parse_rollup_entries (Some weid) es) (\<lambda>out.
          Inr (\<lparr>re_weid = weid, re_xk_hash = xk, re_parent_root = parent, re_join_delta_root = join_delta,
                re_revoked_since_root = since, re_revoked_root = revoked, re_is_join = is_join\<rparr> # out)))))))
      | _ \<Rightarrow> Inl (Freeze FREEZE_HASH_CBOR))"

definition parse_rollup_epoch_replay :: "cbor \<Rightarrow> AcceptanceError + RollupEpochEntry list" where
  "parse_rollup_epoch_replay v =
     (case v of CArray entries \<Rightarrow> parse_rollup_entries None entries | _ \<Rightarrow> Inl (Freeze FREEZE_HASH_CBOR))"

end
