(* ===== verification/BarrierUpdate.thy ===== *)
theory BarrierUpdate
  imports Headers
begin

text \<open>
  Barrier updates on the wire (\<open>accept/barrier.rs\<close>): deterministic decoding, and the structural checks of the cover
  payload of the KEM tree.  The tree has \<open>n_max\<close> leaves, a power of two; node 0 is the root, the children of \<open>i\<close> are
  \<open>2 i + 1\<close> and \<open>2 i + 2\<close>, and the leaves are the nodes from \<open>n_max - 1\<close> on.  The lemmas show that an accepted update
  names exactly the path from the updater's leaf to the root, and new keys for exactly the inner nodes of that path.

  The serde decoders of the two wire tuples are parameters, the record \<open>WireDecoders\<close>.
\<close>

section \<open>Wire format\<close>

record ParsedBarrierUpdate =
  pb_barrier_version :: u64
  pb_prev_barrier_version :: u64
  pb_tree_size :: u64
  pb_updater_slot_index :: u64
  pb_updater_slot_generation :: u64
  pb_revocation_roots_hash :: hash32
  pb_kem_tree_hash_before :: hash32
  pb_kem_tree_hash_after :: hash32

record BarrierUpdateWire =
  bw_mode :: string
  bw_barrier_version :: u64
  bw_prev_barrier_version :: u64
  bw_tree_size :: u64
  bw_revocation_roots_hash :: bytes
  bw_kem_tree_hash_before :: bytes
  bw_kem_tree_hash_after :: bytes
  bw_cover_payload :: bytes

record NodeCiphertextWire =
  nc_source :: u64
  nc_target :: u64
  nc_target_pk_hash :: bytes
  nc_kem_ct :: bytes
  nc_wrapped_ps :: bytes

record NewPublicKeyWire =
  nk_node_index :: u64
  nk_ek :: bytes

record KemTreeCoverPayloadWire =
  kc_updater_slot_index :: u64
  kc_updater_slot_generation :: u64
  kc_path_nodes :: "u64 list"
  kc_revoked_leaf_indices_hint :: "u64 list option"
  kc_node_ciphertexts :: "NodeCiphertextWire list"
  kc_new_public_keys :: "NewPublicKeyWire list"

record WireDecoders =
  de_update :: "bytes \<Rightarrow> BarrierUpdateWire option"
  de_cover :: "bytes \<Rightarrow> KemTreeCoverPayloadWire option"

definition cbarrier_update :: "BarrierUpdateWire \<Rightarrow> cbor" where
  "cbarrier_update w = CArray [CText (bw_mode w), cu64 (bw_barrier_version w), cu64 (bw_prev_barrier_version w),
     cu64 (bw_tree_size w), CBytes (bw_revocation_roots_hash w), CBytes (bw_kem_tree_hash_before w),
     CBytes (bw_kem_tree_hash_after w), CBytes (bw_cover_payload w)]"

definition ccover_payload :: "KemTreeCoverPayloadWire \<Rightarrow> cbor" where
  "ccover_payload w = CArray [cu64 (kc_updater_slot_index w), cu64 (kc_updater_slot_generation w),
     CArray (map cu64 (kc_path_nodes w)),
     (case kc_revoked_leaf_indices_hint w of None \<Rightarrow> CNull | Some l \<Rightarrow> CArray (map cu64 l)),
     CArray (map (\<lambda>c. CArray [cu64 (nc_source c), cu64 (nc_target c), CBytes (nc_target_pk_hash c), CBytes (nc_kem_ct c),
       CBytes (nc_wrapped_ps c)]) (kc_node_ciphertexts w)),
     CArray (map (\<lambda>k. CArray [cu64 (nk_node_index k), CBytes (nk_ek k)]) (kc_new_public_keys w))]"

definition malformed :: AcceptanceError where
  "malformed = Freeze FREEZE_BARRIER_UPDATE_MALFORMED"

text \<open>Decode, re-encode and compare: only canonical encodings are accepted.\<close>
definition parse_deterministic :: "Ext \<Rightarrow> (bytes \<Rightarrow> 'w option) \<Rightarrow> ('w \<Rightarrow> cbor) \<Rightarrow> bytes \<Rightarrow> AcceptanceError + 'w" where
  "parse_deterministic E decode encode raw =
     tryE (ok_or malformed (decode raw)) (\<lambda>decoded.
     tryE (map_err (\<lambda>_. malformed) (to_cbor_vec E (encode decoded))) (\<lambda>canonical.
     tryE (ensure (canonical = raw) malformed) (\<lambda>_. Inr decoded)))"

section \<open>Structural checks\<close>

definition ml_kem_public_key_bytes :: nat where
  "ml_kem_public_key_bytes = 1184"

definition ml_kem_ciphertext_bytes :: nat where
  "ml_kem_ciphertext_bytes = 1088"

definition vec32 :: "bytes \<Rightarrow> AcceptanceError + hash32" where
  "vec32 b = (if length b = 32 then Inr b else Inl malformed)"

definition ensure_range :: "u64 \<Rightarrow> u64 \<Rightarrow> AcceptanceError + unit" where
  "ensure_range index max_index = ensure (\<not> max_index < index) malformed"

fun strictly_increasing_from :: "'a::linorder option \<Rightarrow> 'a list \<Rightarrow> bool" where
  "strictly_increasing_from prev [] \<longleftrightarrow> True"
| "strictly_increasing_from prev (x # xs) \<longleftrightarrow>
     \<not> (case prev of None \<Rightarrow> False | Some p \<Rightarrow> x \<le> p) \<and> strictly_increasing_from (Some x) xs"

definition validate_revoked_hint :: "u64 list option \<Rightarrow> AcceptanceError + unit" where
  "validate_revoked_hint hint =
     (case hint of None \<Rightarrow> Inr () | Some l \<Rightarrow> ensure (strictly_increasing_from None l) malformed)"

fun nodes_distinct_in_range :: "u64 \<Rightarrow> u64 set \<Rightarrow> u64 list \<Rightarrow> AcceptanceError + unit" where
  "nodes_distinct_in_range max_index seen [] = Inr ()"
| "nodes_distinct_in_range max_index seen (n # ns) =
     tryE (ensure_range n max_index) (\<lambda>_.
     tryE (ensure (n \<notin> seen) malformed) (\<lambda>_. nodes_distinct_in_range max_index (insert n seen) ns))"

fun parent_chain :: "u64 list \<Rightarrow> AcceptanceError + unit" where
  "parent_chain (child # parent # rest) =
     tryE (ok_or malformed (map_option (\<lambda>v. v div 2) (checked_sub child 1))) (\<lambda>expected.
     tryE (ensure (expected = parent) malformed) (\<lambda>_. parent_chain (parent # rest)))"
| "parent_chain _ = Inr ()"

definition validate_path_nodes :: "u64 list \<Rightarrow> u64 \<Rightarrow> u64 \<Rightarrow> u64 \<Rightarrow> AcceptanceError + unit" where
  "validate_path_nodes path_nodes updater_slot_index n_max max_index =
     tryE (ensure (path_nodes \<noteq> []) malformed) (\<lambda>_.
     tryE (ensure (\<not> n_max \<le> updater_slot_index) malformed) (\<lambda>_.
     tryE (ok_or malformed (checked_add (saturating_sub n_max 1) updater_slot_index)) (\<lambda>expected_first.
     tryE (ensure (hd path_nodes = expected_first) malformed) (\<lambda>_.
     tryE (ensure (last path_nodes = 0) malformed) (\<lambda>_.
     tryE (nodes_distinct_in_range max_index {} path_nodes) (\<lambda>_.
     parent_chain path_nodes))))))"

fun check_new_keys :: "u64 \<Rightarrow> u64 \<Rightarrow> u64 set \<Rightarrow> u64 option \<Rightarrow> NewPublicKeyWire list \<Rightarrow> AcceptanceError + u64 set" where
  "check_new_keys leaf_base max_index seen prev [] = Inr seen"
| "check_new_keys leaf_base max_index seen prev (k # ks) =
     tryE (ensure_range (nk_node_index k) max_index) (\<lambda>_.
     tryE (ensure (\<not> leaf_base \<le> nk_node_index k) malformed) (\<lambda>_.
     tryE (ensure (length (nk_ek k) = ml_kem_public_key_bytes) malformed) (\<lambda>_.
     tryE (ensure (\<not> (case prev of None \<Rightarrow> False | Some p \<Rightarrow> nk_node_index k \<le> p)) malformed) (\<lambda>_.
     tryE (ensure (nk_node_index k \<notin> seen) malformed) (\<lambda>_.
     check_new_keys leaf_base max_index (insert (nk_node_index k) seen) (Some (nk_node_index k)) ks)))))"

definition validate_new_public_keys :: "NewPublicKeyWire list \<Rightarrow> u64 list \<Rightarrow> u64 \<Rightarrow> u64 \<Rightarrow> AcceptanceError + unit" where
  "validate_new_public_keys keys path_nodes n_max max_index =
     (let leaf_base = saturating_sub n_max 1; expected_set = set (drop 1 path_nodes) in
      tryE (ensure (length keys = card expected_set) malformed) (\<lambda>_.
      tryE (check_new_keys leaf_base max_index {} None keys) (\<lambda>seen.
      ensure (seen = expected_set) malformed)))"

fun check_ciphertexts :: "u64 \<Rightarrow> (u64 \<times> u64) option \<Rightarrow> NodeCiphertextWire list \<Rightarrow> AcceptanceError + unit" where
  "check_ciphertexts max_index prev [] = Inr ()"
| "check_ciphertexts max_index prev (c # cs) =
     tryE (ensure_range (nc_source c) max_index) (\<lambda>_.
     tryE (ensure_range (nc_target c) max_index) (\<lambda>_.
     tryE (ensure (length (nc_target_pk_hash c) = 16) malformed) (\<lambda>_.
     tryE (ensure (length (nc_kem_ct c) = ml_kem_ciphertext_bytes) malformed) (\<lambda>_.
     tryE (ensure (length (nc_wrapped_ps c) = 48) malformed) (\<lambda>_.
     tryE (ensure (\<not> (case prev of None \<Rightarrow> False
         | Some (s, t) \<Rightarrow> nc_source c < s \<or> nc_source c = s \<and> nc_target c \<le> t)) malformed) (\<lambda>_.
     check_ciphertexts max_index (Some (nc_source c, nc_target c)) cs))))))"

definition validate_node_ciphertexts :: "NodeCiphertextWire list \<Rightarrow> u64 \<Rightarrow> AcceptanceError + unit" where
  "validate_node_ciphertexts cs max_index = check_ciphertexts max_index None cs"

text \<open>\<open>u64::is_power_of_two\<close> and \<open>u64::checked_mul\<close>.\<close>
definition is_power_of_two :: "u64 \<Rightarrow> bool" where
  "is_power_of_two n \<longleftrightarrow> list_ex (\<lambda>k. unat n = 2 ^ k) [0..<64]"

definition checked_mul :: "u64 \<Rightarrow> u64 \<Rightarrow> u64 option" where
  "checked_mul a b = (if unat a * unat b < 2 ^ 64 then Some (a * b) else None)"

definition parse_barrier_update_from_header ::
  "Ext \<Rightarrow> WireDecoders \<Rightarrow> header \<Rightarrow> u64 \<Rightarrow> nat \<Rightarrow> AcceptanceError + ParsedBarrierUpdate" where
  "parse_barrier_update_from_header E W h expected_n_max max_barrier_update_bytes =
     tryE (ensure (\<not> (expected_n_max = 0 \<or> \<not> is_power_of_two expected_n_max)) malformed) (\<lambda>_.
     tryE (case bt_get h HDR_BARRIER_UPDATE of Some (CBytes raw) \<Rightarrow> Inr raw | _ \<Rightarrow> Inl malformed) (\<lambda>raw_update.
     tryE (ensure (\<not> max_barrier_update_bytes < length raw_update) malformed) (\<lambda>_.
     tryE (parse_deterministic E (de_update W) cbarrier_update raw_update) (\<lambda>w.
     tryE (ensure (bw_mode w = ''barrier-v1'') malformed) (\<lambda>_.
     tryE (ensure (bw_tree_size w = expected_n_max) malformed) (\<lambda>_.
     tryE (parse_deterministic E (de_cover W) ccover_payload (bw_cover_payload w)) (\<lambda>c.
     tryE (ok_or malformed (Option.bind (checked_mul expected_n_max 2) (\<lambda>v. checked_sub v 2))) (\<lambda>max_index.
     tryE (validate_revoked_hint (kc_revoked_leaf_indices_hint c)) (\<lambda>_.
     tryE (validate_path_nodes (kc_path_nodes c) (kc_updater_slot_index c) expected_n_max max_index) (\<lambda>_.
     tryE (validate_node_ciphertexts (kc_node_ciphertexts c) max_index) (\<lambda>_.
     tryE (validate_new_public_keys (kc_new_public_keys c) (kc_path_nodes c) expected_n_max max_index) (\<lambda>_.
     tryE (vec32 (bw_revocation_roots_hash w)) (\<lambda>roots_hash.
     tryE (vec32 (bw_kem_tree_hash_before w)) (\<lambda>before.
     tryE (vec32 (bw_kem_tree_hash_after w)) (\<lambda>after.
     Inr \<lparr>pb_barrier_version = bw_barrier_version w, pb_prev_barrier_version = bw_prev_barrier_version w,
       pb_tree_size = bw_tree_size w, pb_updater_slot_index = kc_updater_slot_index c,
       pb_updater_slot_generation = kc_updater_slot_generation c, pb_revocation_roots_hash = roots_hash,
       pb_kem_tree_hash_before = before, pb_kem_tree_hash_after = after\<rparr>)))))))))))))))"

section \<open>Paths of the KEM tree\<close>

text \<open>The reference: the nodes from node \<open>i\<close> up to the root.\<close>
fun tree_path :: "nat \<Rightarrow> nat list" where
  "tree_path i = (if i = 0 then [0] else i # tree_path ((i - 1) div 2))"

declare tree_path.simps [simp del]

lemma tree_path_0 [simp]: "tree_path 0 = [0]"
  by (simp add: tree_path.simps)

lemma tree_path_pos: "0 < i \<Longrightarrow> tree_path i = i # tree_path ((i - 1) div 2)"
  by (simp add: tree_path.simps)

lemma tree_path_ne [simp]: "tree_path i \<noteq> []" "[] \<noteq> tree_path i"
  by (simp_all add: tree_path.simps [of i])

lemma hd_tree_path [simp]: "hd (tree_path i) = i"
  by (simp add: tree_path.simps [of i])

lemma last_tree_path [simp]: "last (tree_path i) = 0"
  by (induction i rule: tree_path.induct) (simp add: tree_path.simps)

lemma tree_path_le: "x \<in> set (tree_path i) \<Longrightarrow> x \<le> i"
proof (induction i rule: tree_path.induct)
  case (1 i)
  then show ?case
    by (cases "i = 0") (auto simp: tree_path_pos)
qed

lemma tree_path_sorted: "sorted_wrt (>) (tree_path i)"
proof (induction i rule: tree_path.induct)
  case (1 i)
  show ?case
  proof (cases "i = 0")
    case False
    then have "(i - 1) div 2 < i"
      by simp
    with False 1 show ?thesis
      by (auto simp: tree_path_pos dest!: tree_path_le)
  qed simp
qed

text \<open>A leaf of a tree with \<open>2 ^ k\<close> leaves lies \<open>k\<close> levels below the root.\<close>
lemma tree_path_length: "s < 2 ^ k \<Longrightarrow> length (tree_path (2 ^ k - 1 + s)) = Suc k"
proof (induction k arbitrary: s)
  case (Suc k)
  obtain q :: nat where q: "2 ^ k = Suc q"
    by (metis not0_implies_Suc power_not_zero zero_neq_numeral)
  have "(2 * q + s) div 2 = q + s div 2"
    by simp
  then have "(2 ^ Suc k - 1 + s - 1) div 2 = 2 ^ k - 1 + s div 2"
    using q by simp
  moreover have "s div 2 < 2 ^ k"
    using Suc.prems by simp
  ultimately show ?case
    using Suc.IH [of "s div 2"] by (subst tree_path_pos) auto
qed simp

lemma parent_chain_iff:
  assumes "path \<noteq> []" "last path = 0"
  shows "parent_chain path = Inr () \<longleftrightarrow> map unat path = tree_path (unat (hd path))"
  using assms
proof (induction path rule: parent_chain.induct)
  case (1 child parent rest)
  have *: "unat ((child - 1) div 2) = (unat child - 1) div 2" if "1 \<le> child"
    using that by (simp add: unat_div unat_sub)
  have **: "(child - 1) div 2 = parent \<longleftrightarrow> (unat child - 1) div 2 = unat parent" if "1 \<le> child"
    using * [OF that] by (metis word_unat_eq_iff)
  have pos: "1 \<le> child \<longleftrightarrow> 0 < unat child"
    by (simp add: word_le_nat_alt Suc_le_eq)
  show ?case
  proof (cases "1 \<le> child")
    case True
    with 1 * ** pos show ?thesis
      by (auto simp: result_simps checked_sub_Some tree_path_pos) (metis hd_tree_path list.sel(1))+
  next
    case False
    with pos show ?thesis
      by (simp add: result_simps checked_sub_Some)
  qed
qed simp_all

lemma nodes_distinct_in_range_iff:
  "nodes_distinct_in_range m seen ns = Inr () \<longleftrightarrow>
     distinct ns \<and> set ns \<inter> seen = {} \<and> (\<forall>x \<in> set ns. x \<le> m)"
  by (induction m seen ns rule: nodes_distinct_in_range.induct) (auto simp: result_simps ensure_range_def not_less)

lemma sorted_wrt_greater_distinct: "sorted_wrt (>) xs \<Longrightarrow> distinct xs" for xs :: "'a::linorder list"
  by (induction xs) auto

lemma check_new_keys_iff:
  "check_new_keys b m seen prev ks = Inr out \<longleftrightarrow>
     (\<forall>k \<in> set ks. nk_node_index k \<le> m \<and> nk_node_index k < b \<and> length (nk_ek k) = ml_kem_public_key_bytes) \<and>
     strictly_increasing_from prev (map nk_node_index ks) \<and> nk_node_index ` set ks \<inter> seen = {} \<and>
     distinct (map nk_node_index ks) \<and> out = seen \<union> nk_node_index ` set ks"
  by (induction b m seen prev ks arbitrary: out rule: check_new_keys.induct)
    (auto simp: result_simps ensure_range_def not_less not_le)

lemma strictly_increasing_from_iff:
  "strictly_increasing_from prev xs \<longleftrightarrow>
     sorted_wrt (<) xs \<and> (\<forall>p. prev = Some p \<longrightarrow> (\<forall>x \<in> set xs. p < x))"
proof (induction prev xs rule: strictly_increasing_from.induct)
  case (2 prev x xs)
  then show ?case
    by (cases prev) (auto simp: not_le intro: less_trans)
qed simp

lemma strict_sorted_unique:
  fixes xs ys :: "'a::linorder list"
  assumes "sorted_wrt (<) xs" "sorted_wrt (<) ys" "set xs = set ys"
  shows "xs = ys"
  using assms by (simp add: strict_sorted_equal)

lemma power_two_word:
  fixes n_max slot :: u64
  assumes n: "unat n_max = 2 ^ k" and k: "k < 63" and s: "slot < n_max"
  shows "checked_add (saturating_sub n_max 1) slot = Some (n_max - 1 + slot)"
    and "unat (n_max - 1 + slot) = 2 ^ k - 1 + unat slot"
    and "2 ^ k - 1 + unat slot \<le> unat (2 * n_max - 2)"
proof -
  have k': "(2::nat) ^ k \<le> 2 ^ 62"
    using k by (intro power_increasing) auto
  have one: "1 \<le> n_max"
    using n by (simp add: word_le_nat_alt)
  have sl: "unat slot < 2 ^ k"
    using s n by (simp add: word_less_nat_alt)
  have b: "unat (saturating_sub n_max 1) = 2 ^ k - 1"
    by (simp add: word_ops n)
  have eq: "saturating_sub n_max 1 = n_max - 1"
    using one by (simp add: saturating_sub_def)
  show "checked_add (saturating_sub n_max 1) slot = Some (n_max - 1 + slot)"
    using b sl k' eq by (simp add: word_ops)
  then show "unat (n_max - 1 + slot) = 2 ^ k - 1 + unat slot"
    using b by (simp add: checked_add_unat)
  have two: "unat (2 * n_max) = 2 * 2 ^ k"
    using n k' by (simp add: unat_word_ariths)
  then have "2 \<le> 2 * n_max"
    by (simp add: word_le_nat_alt)
  then have "unat (2 * n_max - 2) = 2 * 2 ^ k - 2"
    using two by (simp add: unat_sub)
  then show "2 ^ k - 1 + unat slot \<le> unat (2 * n_max - 2)"
    using sl by simp
qed

lemma path_decreasing:
  fixes path :: "u64 list"
  assumes "map unat path = tree_path i"
  shows "sorted_wrt (>) path" "\<forall>x \<in> set path. unat x \<le> i" "path \<noteq> []" "unat (hd path) = i" "last path = 0"
proof -
  have "sorted_wrt (>) (map unat path)"
    using tree_path_sorted [of i] assms by simp
  then show "sorted_wrt (>) path"
    by (simp add: sorted_wrt_map word_less_nat_alt)
  show "\<forall>x \<in> set path. unat x \<le> i"
    using assms tree_path_le [of _ i] by (metis image_eqI list.set_map)
  show ne: "path \<noteq> []"
    using assms by auto
  show "unat (hd path) = i"
    using assms ne by (metis hd_map hd_tree_path)
  have "unat (last path) = 0"
    using assms ne by (metis last_map last_tree_path)
  then show "last path = 0"
    by (simp add: unat_eq_zero)
qed

lemma path_exact:
  assumes n: "unat n_max = 2 ^ k" and k: "k < 63"
  shows "validate_path_nodes path slot n_max (2 * n_max - 2) = Inr () \<longleftrightarrow>
     slot < n_max \<and> map unat path = tree_path (2 ^ k - 1 + unat slot)"
proof (cases "slot < n_max")
  case True
  note p2 = power_two_word [OF n k True]
  show ?thesis
  proof
    assume "validate_path_nodes path slot n_max (2 * n_max - 2) = Inr ()"
    then have "path \<noteq> []" "hd path = n_max - 1 + slot" "last path = 0" "parent_chain path = Inr ()"
      using p2(1) by (auto simp: validate_path_nodes_def result_simps)
    then show "slot < n_max \<and> map unat path = tree_path (2 ^ k - 1 + unat slot)"
      using True p2(2) by (simp add: parent_chain_iff)
  next
    assume "slot < n_max \<and> map unat path = tree_path (2 ^ k - 1 + unat slot)"
    then have eq: "map unat path = tree_path (2 ^ k - 1 + unat slot)" ..
    note d = path_decreasing [OF eq]
    have hd: "hd path = n_max - 1 + slot"
      using d(4) p2(2) by (metis word_unat_eq_iff)
    have "nodes_distinct_in_range (2 * n_max - 2) {} path = Inr ()"
      using d(1,2) p2(3) by (auto simp: nodes_distinct_in_range_iff sorted_wrt_greater_distinct word_le_nat_alt
        intro: order_trans)
    moreover have "parent_chain path = Inr ()"
      using d eq by (simp add: parent_chain_iff)
    ultimately show "validate_path_nodes path slot n_max (2 * n_max - 2) = Inr ()"
      using True d(3,5) hd p2(1) by (simp add: validate_path_nodes_def result_simps)
  qed
qed (auto simp: validate_path_nodes_def result_simps)

text \<open>In a tree with a power of two of leaves, the path check accepts a list of nodes exactly when it is the path from the
  leaf of the updater's slot to the root.
\<close>
theorem barrier_path_exact:
  assumes "unat n_max = 2 ^ k" "k < 63"
  shows "validate_path_nodes path slot n_max (2 * n_max - 2) = Inr () \<longleftrightarrow>
     slot < n_max \<and> map unat path = tree_path (2 ^ k - 1 + unat slot)"
  using path_exact [OF assms] .

theorem barrier_path_exact_witness:
  "validate_path_nodes [4, 1, 0] 1 4 (2 * 4 - 2) = Inr () \<and> validate_path_nodes [4, 2, 0] 1 4 (2 * 4 - 2) \<noteq> Inr ()"
  using barrier_path_exact [of 4 2 "[4, 1, 0]" 1] barrier_path_exact [of 4 2 "[4, 2, 0]" 1]
  by (simp add: tree_path.simps)

text \<open>Every refusal of the barrier parser carries the same freeze code.\<close>
definition fails_only :: "'e \<Rightarrow> 'e + 'a \<Rightarrow> bool" where
  "fails_only e m \<longleftrightarrow> (\<forall>e'. m = Inl e' \<longrightarrow> e' = e)"

named_theorems fails_intro \<open>the error a computation can end with\<close>

lemma fails_only_basic [fails_intro]:
  "fails_only e (Inr x)" "fails_only e (Inl e)" "fails_only e (ensure b e)" "fails_only e (ok_or e y)"
  "fails_only e (map_err (\<lambda>_. e) m)"
  by (auto simp: fails_only_def result_simps)

lemma fails_only_try [fails_intro]:
  "fails_only e m \<Longrightarrow> (\<And>x. fails_only e (f x)) \<Longrightarrow> fails_only e (tryE m f)"
  by (auto simp: fails_only_def result_simps)

lemma malformed_helpers [fails_intro]:
  "fails_only malformed (parse_deterministic E d c raw)" "fails_only malformed (vec32 b)"
  "fails_only malformed (ensure_range i m)" "fails_only malformed (validate_revoked_hint hint)"
  by (auto simp: parse_deterministic_def vec32_def ensure_range_def validate_revoked_hint_def split: option.split
    intro!: fails_intro)

lemma malformed_nodes [fails_intro]: "fails_only malformed (nodes_distinct_in_range m seen ns)"
  by (induction m seen ns rule: nodes_distinct_in_range.induct) (auto intro!: fails_intro)

lemma malformed_chain [fails_intro]: "fails_only malformed (parent_chain ns)"
  by (induction ns rule: parent_chain.induct) (auto intro!: fails_intro)

lemma malformed_keys [fails_intro]: "fails_only malformed (check_new_keys b m seen prev ks)"
  by (induction b m seen prev ks rule: check_new_keys.induct) (auto intro!: fails_intro)

lemma malformed_ciphertexts [fails_intro]: "fails_only malformed (check_ciphertexts m prev cs)"
  by (induction m prev cs rule: check_ciphertexts.induct) (auto intro!: fails_intro)

lemma update_error: "fails_only malformed (parse_barrier_update_from_header E W h n_max limit)"
  unfolding parse_barrier_update_from_header_def validate_path_nodes_def validate_node_ciphertexts_def
    validate_new_public_keys_def Let_def
  by (intro fails_intro) (auto split: option.split cbor.split intro!: fails_intro)

lemma keys_exact:
  assumes "validate_new_public_keys keys path n_max m = Inr ()" "sorted_wrt (>) path"
  shows "map nk_node_index keys = rev (tl path)"
    and "list_all (\<lambda>x. length (nk_ek x) = ml_kem_public_key_bytes) keys"
proof -
  have inc: "sorted_wrt (<) (map nk_node_index keys)" and set: "nk_node_index ` set keys = set (tl path)"
    using assms(1) by (auto simp: validate_new_public_keys_def Let_def result_simps check_new_keys_iff
      strictly_increasing_from_iff drop_Suc)
  have "sorted_wrt (<) (rev (tl path))"
    using assms(2) by (cases path) (simp_all add: sorted_wrt_rev)
  then show "map nk_node_index keys = rev (tl path)"
    using inc set by (intro strict_sorted_unique) simp_all
  show "list_all (\<lambda>x. length (nk_ek x) = ml_kem_public_key_bytes) keys"
    using assms(1) by (auto simp: validate_new_public_keys_def Let_def result_simps check_new_keys_iff list_all_iff)
qed

lemma update_shape:
  assumes "parse_barrier_update_from_header E W h n_max limit = Inr p"
  shows "\<exists>raw w c k.
       bt_get h HDR_BARRIER_UPDATE = Some (CBytes raw) \<and> length raw \<le> limit \<and>
       cbor_ser E (cbarrier_update w) = Inr raw \<and> cbor_ser E (ccover_payload c) = Inr (bw_cover_payload w) \<and>
       unat n_max = 2 ^ k \<and> k < 63 \<and> pb_tree_size p = n_max \<and> pb_updater_slot_index p < n_max \<and>
       map unat (kc_path_nodes c) = tree_path (2 ^ k - 1 + unat (pb_updater_slot_index p)) \<and>
       length (kc_path_nodes c) = Suc k \<and>
       map nk_node_index (kc_new_public_keys c) = rev (tl (kc_path_nodes c)) \<and>
       list_all (\<lambda>x. length (nk_ek x) = ml_kem_public_key_bytes) (kc_new_public_keys c)"
proof -
  obtain raw w c m where raw: "bt_get h HDR_BARRIER_UPDATE = Some (CBytes raw)" "length raw \<le> limit"
    and w: "cbor_ser E (cbarrier_update w) = Inr raw" "bw_tree_size w = n_max"
    and c: "cbor_ser E (ccover_payload c) = Inr (bw_cover_payload w)"
    and m: "Option.bind (checked_mul n_max 2) (\<lambda>v. checked_sub v 2) = Some m"
    and v: "validate_path_nodes (kc_path_nodes c) (kc_updater_slot_index c) n_max m = Inr ()"
      "validate_new_public_keys (kc_new_public_keys c) (kc_path_nodes c) n_max m = Inr ()"
    and pow: "is_power_of_two n_max"
    and p: "pb_tree_size p = bw_tree_size w" "pb_updater_slot_index p = kc_updater_slot_index c"
    using assms by (fastforce simp: parse_barrier_update_from_header_def parse_deterministic_def to_cbor_vec_def
      result_simps split: option.splits cbor.splits)
  obtain k where k: "unat n_max = 2 ^ k" "k < 64"
    using pow by (auto simp: is_power_of_two_def list_ex_iff)
  have m': "unat n_max * 2 < 2 ^ 64" "m = 2 * n_max - 2"
    using m by (auto simp: checked_mul_def checked_sub_Some mult.commute split: if_splits)
  then have k63: "k < 63"
    using k power_increasing [of 63 k "2::nat"] by (cases "k < 63") auto
  have path: "kc_updater_slot_index c < n_max"
      "map unat (kc_path_nodes c) = tree_path (2 ^ k - 1 + unat (kc_updater_slot_index c))"
    using v(1) path_exact [OF k(1) k63] m' by simp_all
  have len: "length (kc_path_nodes c) = Suc k"
    using arg_cong [OF path(2), of length] tree_path_length path(1) k(1) by (simp add: word_less_nat_alt)
  show ?thesis
    using raw w c p k k63 path len keys_exact [OF v(2) path_decreasing(1) [OF path(2)]] by metis
qed

text \<open>Every other header is refused with the freeze code of a malformed barrier update, and an accepted one carries a
  canonical encoding within the size limit, the path of the updater's leaf with one node per level, and new public keys of
  the right size for exactly the inner nodes of that path, from the root down.
\<close>
theorem barrier_update_shape:
  "case parse_barrier_update_from_header E W h n_max limit of
     Inl e \<Rightarrow> e = Freeze FREEZE_BARRIER_UPDATE_MALFORMED
   | Inr p \<Rightarrow> (\<exists>raw w c k.
       bt_get h HDR_BARRIER_UPDATE = Some (CBytes raw) \<and> length raw \<le> limit \<and>
       cbor_ser E (cbarrier_update w) = Inr raw \<and> cbor_ser E (ccover_payload c) = Inr (bw_cover_payload w) \<and>
       unat n_max = 2 ^ k \<and> k < 63 \<and> pb_tree_size p = n_max \<and> pb_updater_slot_index p < n_max \<and>
       map unat (kc_path_nodes c) = tree_path (2 ^ k - 1 + unat (pb_updater_slot_index p)) \<and>
       length (kc_path_nodes c) = Suc k \<and>
       map nk_node_index (kc_new_public_keys c) = rev (tl (kc_path_nodes c)) \<and>
       list_all (\<lambda>x. length (nk_ek x) = ml_kem_public_key_bytes) (kc_new_public_keys c))"
  using update_shape [of E W h n_max limit] update_error [of E W h n_max limit]
  by (simp add: fails_only_def malformed_def split: sum.split)

end
