(* ===== verification/Stages.thy ===== *)
theory Stages
  imports BarrierUpdate
begin

text \<open>
  The validation stages shared by the join and merge handlers (\<open>accept/stages.rs\<close>, the bootstrap check of
  \<open>accept/mod.rs\<close>, the binding digest of \<open>proofs/hp_binding.rs\<close>): which keys must be absent, the proof of possession,
  the HP envelope, the suite identifiers and the commitment to the proofs.

  The SmallWood and LB-VRF verifiers, the recomputation of the CAPSS witness and the serde decoders of a membership
  witness and of a barrier update are parameters, the record \<open>Verifiers\<close>.
\<close>

section \<open>Verifiers\<close>

record VrfCtx =
  vx_xk_hash :: hash32
  vx_rho_commit :: hash32
  vx_seed_bundle_commit :: hash32
  vx_crs_id :: string
  vx_hp_commit :: hash32
  vx_params_id :: string
  vx_parent_root :: bytes
  vx_join_delta_root :: bytes
  vx_revoked_since_prev_root :: bytes
  vx_revoked_root :: bytes
  vx_proof_mode :: string
  vx_profile_version :: string
  vx_fs_policy_version :: u64
  vx_meor_vrf_id :: string
  vx_fs_epoch_commit :: hash32
  vx_fs_ec :: u64
  vx_fs_dev_prev_commit :: hash32
  vx_fs_dev_commit :: hash32
  vx_srx_root_sw :: "hash32 option"
  vx_we_epoch_id :: hash32

record CapssStrictInputs =
  cs_crs_id :: string
  cs_params_id :: string
  cs_seed_commit :: hash32
  cs_seed_ctx_hash :: hash32
  cs_xk_hash :: hash32
  cs_rho_commit :: hash32
  cs_pop_alg :: string
  cs_pop_pk :: bytes
  cs_anchor :: AnchorInstance
  cs_leaf_id :: bytes
  cs_pop_sig :: bytes

text \<open>The statement given to the SmallWood verifier: label and Fiat-Shamir domain of the configuration, the two
  elements of the public key, and the message.\<close>
record SmallwoodStatement =
  sw_label :: string
  sw_fs_domain :: string
  sw_iv :: hash32
  sw_y :: hash32
  sw_message :: bytes

record Verifiers =
  ext :: Ext
  de_membership :: "bytes \<Rightarrow> RawMembershipWitness option"
  smallwood_decodes :: "bytes \<Rightarrow> bool"
  smallwood_verify :: "SmallwoodStatement \<Rightarrow> bytes \<Rightarrow> bool"
  vrf_verify :: "bytes \<Rightarrow> VrfCtx \<Rightarrow> hash32 \<times> hash32 \<Rightarrow> bytes \<Rightarrow> string + bool"
  recompute_capss_witness :: "CapssStrictInputs \<Rightarrow> MsphfError + cbor"
  wire :: WireDecoders

section \<open>Presence of keys\<close>

definition ensure_merge_join_keys_absent :: "header \<Rightarrow> AcceptanceError + unit" where
  "ensure_merge_join_keys_absent h =
     freeze_if (list_ex (has_key h) [HDR_BARRIER_LEAF_PK, HDR_POP_ALG, HDR_POP_SIG, HDR_BOOTSTRAP_ALG, HDR_BOOTSTRAP_SIG,
       HDR_BOOTSTRAP_PK]) FREEZE_MERGE_JOIN_KEYS"

definition srx_only_presence :: "header \<Rightarrow> bool list" where
  "srx_only_presence h = map (has_key h) SRX_ONLY_KEYS"

definition has_legacy_srx_keys :: "header \<Rightarrow> bool" where
  "has_legacy_srx_keys h \<longleftrightarrow> list_ex (has_key h) LEGACY_SRX_KEYS"

definition ensure_join_srx_keys_absent :: "header \<Rightarrow> AcceptanceError + unit" where
  "ensure_join_srx_keys_absent h =
     freeze_if (list_ex (\<lambda>p. p) (srx_only_presence h) \<or> has_legacy_srx_keys h) FREEZE_SRX_INVALID"

definition ensure_merge_srx_keys :: "header \<Rightarrow> bool \<Rightarrow> AcceptanceError + unit" where
  "ensure_merge_srx_keys h required =
     tryE (freeze_if (has_legacy_srx_keys h) FREEZE_SRX_INVALID) (\<lambda>_.
     let present_count = length (filter (\<lambda>p. p) (srx_only_presence h)) in
     if required then freeze_if (present_count \<noteq> 4) FREEZE_SRX_REQUIRED
     else freeze_if (present_count \<noteq> 0) FREEZE_SRX_INVALID)"

definition ensure_bootstrap_absent :: "header \<Rightarrow> AcceptanceError + unit" where
  "ensure_bootstrap_absent h =
     tryE (freeze_if (has_key h HDR_BOOTSTRAP_SIG) FREEZE_BOOTSTRAP_INVALID) (\<lambda>_.
     tryE (freeze_if (has_key h HDR_BOOTSTRAP_ALG) FREEZE_BOOTSTRAP_INVALID) (\<lambda>_.
     freeze_if (has_key h HDR_BOOTSTRAP_PK) FREEZE_BOOTSTRAP_INVALID))"

section \<open>Suites\<close>

definition ensure_tswe_alg :: "header \<Rightarrow> AcceptanceError + unit" where
  "ensure_tswe_alg h =
     (case bt_get h HDR_TSWE_ALG of
        None \<Rightarrow> Inl (Freeze FREEZE_TSWE_ALG_INVALID)
      | Some v \<Rightarrow> freeze_unless
          (case v of CInt i \<Rightarrow> 0 \<le> i \<and> i < 256 \<and> of_int i = TSWE_ALG_CODE | _ \<Rightarrow> value_is_label v TSWE_ALG_LABEL)
          FREEZE_TSWE_ALG_INVALID)"

definition ensure_merkle_suite :: "header \<Rightarrow> AcceptanceError + unit" where
  "ensure_merkle_suite h =
     (case bt_get h HDR_MERKLE_SUITE of
        None \<Rightarrow> Inl (Freeze FREEZE_MERKLE_SUITE_INVALID)
      | Some v \<Rightarrow> freeze_unless (value_is_label v MERKLE_DS_ID) FREEZE_MERKLE_SUITE_INVALID)"

definition ensure_kbroad_alg :: "header \<Rightarrow> AcceptanceError + unit" where
  "ensure_kbroad_alg h =
     (case bt_get h HDR_KBROAD_ALG of
        None \<Rightarrow> Inl (Freeze FREEZE_KBROAD_ALG_INVALID)
      | Some v \<Rightarrow> freeze_unless (value_is_label v KBROAD_ML_KEM_ALG) FREEZE_KBROAD_ALG_INVALID)"

definition is_supported_proof_mode :: "string \<Rightarrow> bool" where
  "is_supported_proof_mode mode \<longleftrightarrow> mode = DEFAULT_PROOF_MODE"

definition is_supported_vrf_id :: "string \<Rightarrow> bool" where
  "is_supported_vrf_id vrf_id \<longleftrightarrow> vrf_id = DEFAULT_VRF_ID"

section \<open>Proof of possession and HP envelope\<close>

definition pop_message_value :: "bytes \<Rightarrow> hash32 \<Rightarrow> hash32 \<Rightarrow> cbor" where
  "pop_message_value xk leaf_id epoch =
     cstruct [(''xk'', CBytes xk), (''leaf_id'', CBytes leaf_id), (''epoch'', CBytes epoch)]"

definition ensure_join_pop :: "Ext \<Rightarrow> header \<Rightarrow> AnchorInstance \<Rightarrow> LeafIdMode \<Rightarrow> AcceptanceError + unit" where
  "ensure_join_pop E h anchor mode =
     (let bad = Freeze FREEZE_POP_INVALID in
      tryE (ok_or bad (bt_get h HDR_POP_ALG)) (\<lambda>alg.
      tryE (ensure (value_is_label alg ''ML-DSA-65'') bad) (\<lambda>_.
      tryE (case bt_get h HDR_POP_PK of Some (CBytes b) \<Rightarrow> if length b = 2592 then Inr b else Inl bad | _ \<Rightarrow> Inl bad) (\<lambda>pk.
      tryE (case bt_get h HDR_POP_SIG of Some (CBytes b) \<Rightarrow> if length b = 4627 then Inr b else Inl bad | _ \<Rightarrow> Inl bad) (\<lambda>sig.
      tryE (map_err acc_err (compute_leaf_id E mode (ai_gid anchor) ''ML-DSA-65'' pk)) (\<lambda>leaf_id.
      tryE (map_err acc_err (to_cbor_bytes E anchor)) (\<lambda>xk.
      tryE (map_err acc_err (h_l E ''msphf/pop/msg'' (pop_message_value xk leaf_id (ai_we_epoch_id anchor)))) (\<lambda>msg.
      map_err (\<lambda>_. bad) (verify_cityg_pop_signature E pk msg sig)))))))))"

definition extract_pop_signature :: "header \<Rightarrow> AcceptanceError + bytes" where
  "extract_pop_signature h =
     (case bt_get h HDR_POP_SIG of Some (CBytes b) \<Rightarrow> Inr b | _ \<Rightarrow> Inl (Freeze FREEZE_POP_INVALID))"

definition derive_rho_commit_from_pop :: "Ext \<Rightarrow> bytes \<Rightarrow> hash32 \<Rightarrow> AcceptanceError + hash32" where
  "derive_rho_commit_from_pop E pop_sig xk =
     tryE (map_err acc_err (h_l E ''msphf/rho/der'' (cstruct [(''pop_sig'', CBytes pop_sig), (''xk_hash'', CBytes xk)]))) (\<lambda>rho_raw.
     map_err acc_err (hash_bytes_with_label E ''msphf/kgen/rho'' rho_raw))"

text \<open>The checks of an envelope's ciphertext and AEAD items.\<close>
definition check_envelope_tail :: "cbor \<Rightarrow> cbor \<Rightarrow> AcceptanceError + unit" where
  "check_envelope_tail ct aead =
     tryE (case ct of
             CBytes b \<Rightarrow> freeze_unless (AEAD_TAG_LEN \<le> length b \<and> length b \<le> HP_MAX_CIPHERTEXT_BYTES) FREEZE_HASH_CBOR
           | _ \<Rightarrow> Inl (Freeze FREEZE_HASH_CBOR)) (\<lambda>_.
     case aead of
       CText t \<Rightarrow> freeze_unless (t = HP_AEAD_SUITE) FREEZE_HASH_CBOR
     | _ \<Rightarrow> Inl (Freeze FREEZE_HASH_CBOR))"

definition verify_join_payload_hp_envelope :: "header \<Rightarrow> cbor option \<Rightarrow> string \<Rightarrow> AcceptanceError + unit" where
  "verify_join_payload_hp_envelope h envelope_override expected_context =
     tryE (case envelope_override of
             Some v \<Rightarrow> Inr v
           | None \<Rightarrow> ok_or (Freeze FREEZE_FIELD_MISSING) (bt_get h HDR_HP_BYTES)) (\<lambda>v.
     case v of
       CArray (m # items) \<Rightarrow>
         tryE (case m of
                 CText mode \<Rightarrow> freeze_unless (mode = BARRIER_HP_MODE) FREEZE_PARENT_EID_FORBIDDEN
               | _ \<Rightarrow> Inl (Freeze FREEZE_HASH_CBOR)) (\<lambda>_.
         case items of
           [c, ct, aead] \<Rightarrow>
             tryE (case c of
                     CText context \<Rightarrow> freeze_unless (context = expected_context) FREEZE_HASH_CBOR
                   | _ \<Rightarrow> Inl (Freeze FREEZE_HASH_CBOR)) (\<lambda>_. check_envelope_tail ct aead)
         | _ \<Rightarrow> Inl (Freeze FREEZE_HASH_CBOR))
     | _ \<Rightarrow> Inl (Freeze FREEZE_HASH_CBOR))"

definition validate_barrier_hp_envelope_bytes :: "Ext \<Rightarrow> bytes \<Rightarrow> AcceptanceError + unit" where
  "validate_barrier_hp_envelope_bytes E b =
     tryE (ok_or (Freeze FREEZE_HASH_CBOR) (cbor_de E b)) (\<lambda>v.
     case v of
       CArray [m, c, ct, aead] \<Rightarrow>
         tryE (case m of
                 CText mode \<Rightarrow> freeze_unless (mode = BARRIER_HP_MODE) FREEZE_PARENT_EID_FORBIDDEN
               | _ \<Rightarrow> Inl (Freeze FREEZE_HASH_CBOR)) (\<lambda>_.
         tryE (case c of
                 CText context \<Rightarrow> freeze_unless
                   (context = BARRIER_HP_CONTEXT_AUTHOR_LOCAL \<or> context = BARRIER_HP_CONTEXT_BARRIER_RECOVERY)
                   FREEZE_HASH_CBOR
               | _ \<Rightarrow> Inl (Freeze FREEZE_HASH_CBOR)) (\<lambda>_.
         check_envelope_tail ct aead))
     | _ \<Rightarrow> Inl (Freeze FREEZE_HASH_CBOR))"

section \<open>Bootstrap\<close>

datatype BootstrapPolicy = BootstrapDisabled | CaMlDsa bytes

definition is_all_zero :: "bytes \<Rightarrow> bool" where
  "is_all_zero b \<longleftrightarrow> list_all (\<lambda>x. x = 0) b"

definition build_bootstrap_digest ::
  "Ext \<Rightarrow> header \<Rightarrow> AnchorInstance \<Rightarrow> hash32 \<Rightarrow> hash32 \<Rightarrow> hash32 \<Rightarrow> hash32 \<Rightarrow> AcceptanceError + bytes" where
  "build_bootstrap_digest E h anchor hp_commit seed_ctx_hash rho_commit seed_bundle_commit =
     (let bad = Freeze FREEZE_BOOTSTRAP_INVALID in
      tryE (case bt_get h HDR_CRS_ID of
              Some (CText t) \<Rightarrow> Inr (CText t) | Some (CBytes b) \<Rightarrow> Inr (CBytes b) | _ \<Rightarrow> Inl bad) (\<lambda>crs.
      tryE (case bt_get h HDR_PARAMS_ID of
              Some (CText t) \<Rightarrow> Inr (CText t)
            | Some (CBytes b) \<Rightarrow> if length b = 32 then Inr (CBytes b) else Inl bad
            | _ \<Rightarrow> Inl bad) (\<lambda>params.
      map_err (\<lambda>_. bad) (cbor_ser E (CArray
        [CBytes (ai_gid anchor), CBytes (ai_cat anchor), CBytes (ai_we_epoch_id anchor), CBytes (ai_anchor_hdr_ctx anchor),
         CBytes (ai_tswe_salt_hash anchor), CBytes (ai_join_delta_root anchor), CBytes (ai_revoked_root anchor), crs, params,
         CBytes hp_commit, CBytes seed_ctx_hash, CBytes rho_commit, CBytes seed_bundle_commit])))))"

definition validate_bootstrap ::
  "Ext \<Rightarrow> header \<Rightarrow> AnchorInstance \<Rightarrow> hash32 \<Rightarrow> hash32 \<Rightarrow> hash32 \<Rightarrow> hash32 \<Rightarrow> BootstrapPolicy \<Rightarrow> AcceptanceError + unit" where
  "validate_bootstrap E h anchor hp_commit seed_ctx_hash rho_commit seed_bundle_commit policy =
     (let bad = Freeze FREEZE_BOOTSTRAP_INVALID in
      case bt_get h HDR_BOOTSTRAP_ALG of
        None \<Rightarrow>
          if has_key h HDR_BOOTSTRAP_SIG \<or> has_key h HDR_BOOTSTRAP_PK then Inl bad
          else (case policy of BootstrapDisabled \<Rightarrow> Inr () | CaMlDsa _ \<Rightarrow> Inl bad)
      | Some v \<Rightarrow>
          tryE (case v of CText t \<Rightarrow> Inr t | CBytes b \<Rightarrow> ok_or bad (from_utf8 b) | _ \<Rightarrow> Inl bad) (\<lambda>mode.
          if mode = ''oob-ca-v1'' then
            (case policy of
               BootstrapDisabled \<Rightarrow> Inl (Freeze FREEZE_BOOTSTRAP_UNSUPPORTED)
             | CaMlDsa public_key \<Rightarrow>
                 tryE (case bt_get h HDR_BOOTSTRAP_SIG of Some (CBytes b) \<Rightarrow> Inr b | _ \<Rightarrow> Inl bad) (\<lambda>sig.
                 tryE (ensure (\<not> (length public_key \<noteq> 2592 \<or> length sig \<noteq> 4627)) bad) (\<lambda>_.
                 tryE (build_bootstrap_digest E h anchor hp_commit seed_ctx_hash rho_commit seed_bundle_commit) (\<lambda>digest.
                 map_err (\<lambda>_. bad) (verify_cityg_pop_signature E public_key digest sig)))))
          else Inl (Freeze FREEZE_BOOTSTRAP_UNSUPPORTED)))"

section \<open>Proof artefacts\<close>

record ProofArtifacts =
  pa_commit :: hash32
  pa_vrf_pi :: bytes
  pa_fs_capss :: bytes
  pa_srx_root_sw :: "hash32 option"
  pa_srx_smallwood :: "bytes option"
  pa_proof_mode :: string
  pa_vrf_id :: string
  pa_mask_a :: hash32
  pa_mask_b :: hash32
  pa_fs_policy_version :: u64
  pa_vrf_public :: bytes

definition SRX_SMALLWOOD_MAX_BYTES :: nat where
  "SRX_SMALLWOOD_MAX_BYTES = 16384"

text \<open>The checks of a suite identifier against the supported, allowed and deprecated sets.\<close>
definition ensure_suite :: "bool \<Rightarrow> string set option \<Rightarrow> string set \<Rightarrow> string \<Rightarrow> AcceptanceError + unit" where
  "ensure_suite supported allowed deprecated name =
     tryE (freeze_unless supported FREEZE_SUITE_FORBIDDEN) (\<lambda>_.
     tryE (freeze_if (case allowed of None \<Rightarrow> False | Some a \<Rightarrow> name \<notin> a) FREEZE_SUITE_FORBIDDEN) (\<lambda>_.
     freeze_if (name \<in> deprecated) FREEZE_SUITE_DEPRECATED))"

text \<open>A field of exactly 32 bytes, with one code for every other shape.\<close>
definition field32 :: "header \<Rightarrow> u64 \<Rightarrow> FreezeError \<Rightarrow> AcceptanceError + hash32" where
  "field32 h key freeze =
     (case bt_get h key of Some (CBytes b) \<Rightarrow> if length b = 32 then Inr b else Inl (Freeze freeze) | _ \<Rightarrow> Inl (Freeze freeze))"

definition ensure_srx_proof_fields :: "header \<Rightarrow> AcceptanceError + hash32 option \<times> bytes option" where
  "ensure_srx_proof_fields h =
     tryE (freeze_if (has_key h HDR_SRX_ROOT_SW \<noteq> has_key h HDR_SRX_SMALLWOOD) FREEZE_SRX_INVALID) (\<lambda>_.
     if has_key h HDR_SRX_ROOT_SW then
       tryE (field32 h HDR_SRX_ROOT_SW FREEZE_SRX_SMALLWOOD_INVALID) (\<lambda>root.
       tryE (case bt_get h HDR_SRX_SMALLWOOD of
               Some (CBytes b) \<Rightarrow> if SRX_SMALLWOOD_MAX_BYTES < length b then Inl (Freeze FREEZE_SRX_SMALLWOOD_INVALID) else Inr b
             | _ \<Rightarrow> Inl (Freeze FREEZE_SRX_SMALLWOOD_INVALID)) (\<lambda>proof.
       Inr (Some root, Some proof)))
     else Inr (None, None))"

definition ensure_proofs ::
  "Ext \<Rightarrow> header \<Rightarrow> string set option \<Rightarrow> string set \<Rightarrow> string set option \<Rightarrow> string set \<Rightarrow> AcceptanceError + ProofArtifacts" where
  "ensure_proofs E h allowed_proof_modes deprecated_proof_modes allowed_vrf_ids deprecated_vrf_ids =
     tryE (header_string_or_freeze h HDR_PROOF_MODE) (\<lambda>proof_mode.
     tryE (ensure_suite (is_supported_proof_mode proof_mode) allowed_proof_modes deprecated_proof_modes proof_mode) (\<lambda>_.
     tryE (header_string_or_freeze h HDR_VRF_ID) (\<lambda>vrf_id.
     tryE (ensure_suite (is_supported_vrf_id vrf_id) allowed_vrf_ids deprecated_vrf_ids vrf_id) (\<lambda>_.
     tryE (header_policy_version h) (\<lambda>version.
     tryE (field32 h HDR_VRF_MASK_A FREEZE_FIELD_MISSING) (\<lambda>mask_a.
     tryE (field32 h HDR_VRF_MASK_B FREEZE_FIELD_MISSING) (\<lambda>mask_b.
     tryE (header_bytes_or_freeze h HDR_VRF_PROOF) (\<lambda>vrf_pi.
     tryE (header_bytes_or_freeze h HDR_VRF_PUBLIC_KEY) (\<lambda>vrf_public.
     tryE (header_bytes_or_freeze h HDR_FS_CAPSS) (\<lambda>fs_capss.
     tryE (ensure_srx_proof_fields h) (\<lambda>(srx_root_sw, srx_smallwood).
     tryE (header_bytes32_or_freeze h HDR_PROOFS_COMMIT FREEZE_FIELD_MISSING) (\<lambda>stored_commit.
     tryE (freeze_if (FS_CAPSS_MAX_BYTES < length fs_capss) FREEZE_CAPSS_INVALID) (\<lambda>_.
     tryE (map_err acc_err (compute_proofs_commit_bytes E vrf_pi fs_capss srx_root_sw srx_smallwood)) (\<lambda>recomputed.
     tryE (freeze_if (recomputed \<noteq> stored_commit) FREEZE_PROOFS_COMMIT_INVALID) (\<lambda>_.
     Inr \<lparr>pa_commit = stored_commit, pa_vrf_pi = vrf_pi, pa_fs_capss = fs_capss, pa_srx_root_sw = srx_root_sw,
          pa_srx_smallwood = srx_smallwood, pa_proof_mode = proof_mode, pa_vrf_id = vrf_id, pa_mask_a = mask_a,
          pa_mask_b = mask_b, pa_fs_policy_version = version, pa_vrf_public = vrf_public\<rparr>)))))))))))))))"

section \<open>Statements of the proofs\<close>

record CapssInputs =
  ci_seed_bundle_commit :: hash32
  ci_rho_commit :: hash32
  ci_hp_commit :: hash32
  ci_xk_hash :: hash32
  ci_crs_id :: string
  ci_params_id :: string
  ci_proof_mode :: string
  ci_fs_policy_version :: u64
  ci_vrf_id :: string
  ci_parent_root :: bytes
  ci_join_delta_root :: bytes
  ci_revoked_since_prev_root :: bytes
  ci_revoked_root :: bytes
  ci_fs_epoch_commit :: hash32
  ci_fs_ec :: u64
  ci_fs_dev_prev_commit :: hash32
  ci_fs_dev_commit :: hash32

definition build_public_tuple :: "Ext \<Rightarrow> CapssInputs \<Rightarrow> MsphfError + bytes" where
  "build_public_tuple E i =
     to_cbor_vec E (CArray
       [CBytes (ci_xk_hash i), CBytes (ci_rho_commit i), CBytes (ci_seed_bundle_commit i), CText (ci_crs_id i),
        CBytes (ci_hp_commit i), CText (ci_params_id i), CBytes (ci_parent_root i), CBytes (ci_join_delta_root i),
        CBytes (ci_revoked_since_prev_root i), CBytes (ci_revoked_root i), CText (ci_proof_mode i),
        cu64 (ci_fs_policy_version i), CText (ci_vrf_id i), CBytes (ci_fs_epoch_commit i), cu64 (ci_fs_ec i),
        CBytes (ci_fs_dev_prev_commit i), CBytes (ci_fs_dev_commit i)])"

definition capss_proof_from_bytes :: "Verifiers \<Rightarrow> bytes \<Rightarrow> AcceptanceError + bytes" where
  "capss_proof_from_bytes V b = (if smallwood_decodes V b then Inr b else Inl (Freeze FREEZE_CAPSS_INVALID))"

definition capss_verify :: "Verifiers \<Rightarrow> CapssInputs \<Rightarrow> bytes \<Rightarrow> AcceptanceError + unit" where
  "capss_verify V i proof =
     tryE (map_err acc_err (build_public_tuple (ext V) i)) (\<lambda>message.
     freeze_unless (smallwood_verify V \<lparr>sw_label = ''capss-smallwood'', sw_fs_domain = ''msphf/smallwood/chal'',
       sw_iv = ci_fs_epoch_commit i, sw_y = ci_hp_commit i, sw_message = message\<rparr> proof) FREEZE_CAPSS_INVALID)"

record SrxInputs =
  si_shadow_root_before :: hash32
  si_shadow_root_after :: hash32
  si_parent_root :: hash32
  si_join_root :: hash32
  si_revoked_since_root :: hash32
  si_revoked_root :: hash32
  si_srx_commit :: hash32
  si_srx_payload_digest :: hash32
  si_srx_bridge_ctx :: hash32
  si_proof_mode :: string
  si_fs_policy_version :: u64
  si_vrf_id :: string

definition srx_encode_statement :: "Ext \<Rightarrow> SrxInputs \<Rightarrow> MsphfError + bytes" where
  "srx_encode_statement E i =
     to_cbor_vec E (cstruct
       [(''shadow_root_before'', CBytes (si_shadow_root_before i)), (''shadow_root_after'', CBytes (si_shadow_root_after i)),
        (''parent_root'', CBytes (si_parent_root i)), (''join_root'', CBytes (si_join_root i)),
        (''revoked_since_root'', CBytes (si_revoked_since_root i)), (''revoked_root'', CBytes (si_revoked_root i)),
        (''srx_commit'', CBytes (si_srx_commit i)), (''srx_payload_digest'', CBytes (si_srx_payload_digest i)),
        (''srx_bridge_ctx'', CBytes (si_srx_bridge_ctx i)), (''proof_mode'', CText (si_proof_mode i)),
        (''fs_policy_version'', cu64 (si_fs_policy_version i)), (''vrf_id'', CText (si_vrf_id i))])"

definition srx_payload_digest :: "Ext \<Rightarrow> bytes \<Rightarrow> MsphfError + hash32" where
  "srx_payload_digest E payload = h_l E ''srx/payload/digest'' (CBytes payload)"

definition compute_bridge_ctx ::
  "Ext \<Rightarrow> hash32 \<Rightarrow> hash32 \<Rightarrow> hash32 \<Rightarrow> hash32 \<Rightarrow> hash32 \<Rightarrow> hash32 \<Rightarrow> hash32 \<Rightarrow> MsphfError + hash32" where
  "compute_bridge_ctx E parent_root join_root since_root revoked_root srx_commit payload_digest root_sw =
     h_l E ''srx/bridge/v1'' (cstruct [(''parent_root'', CBytes parent_root), (''join_root'', CBytes join_root),
       (''revoked_since_root'', CBytes since_root), (''revoked_root'', CBytes revoked_root),
       (''srx_commit'', CBytes srx_commit), (''srx_payload_digest'', CBytes payload_digest),
       (''srx_root_sw'', CBytes root_sw)])"

definition srx_proof_from_bytes :: "Verifiers \<Rightarrow> bytes \<Rightarrow> AcceptanceError + bytes" where
  "srx_proof_from_bytes V b = (if smallwood_decodes V b then Inr b else Inl (Freeze FREEZE_SRX_SMALLWOOD_INVALID))"

definition srx_verify :: "Verifiers \<Rightarrow> SrxInputs \<Rightarrow> bytes \<Rightarrow> AcceptanceError + unit" where
  "srx_verify V i proof =
     tryE (map_err acc_err (srx_encode_statement (ext V) i)) (\<lambda>message.
     freeze_unless (smallwood_verify V \<lparr>sw_label = ''capss-srx-smallwood'', sw_fs_domain = ''msphf/srx_smallwood'',
       sw_iv = si_shadow_root_before i, sw_y = si_shadow_root_after i, sw_message = message\<rparr> proof)
       FREEZE_SRX_SMALLWOOD_INVALID)"

section \<open>HP binding digest\<close>

record HpBindingInputs =
  hb_msphf_crs_id :: string
  hb_params_id :: string
  hb_seed_ctx_hash :: hash32
  hb_seed_commit :: hash32
  hb_rho_commit :: hash32
  hb_xk_hash :: hash32
  hb_hp_commit :: hash32

definition hp_transcript :: "HpBindingInputs \<Rightarrow> cbor" where
  "hp_transcript i =
     cstruct [(''msphf_crs_id'', CText (hb_msphf_crs_id i)), (''params_id'', CText (hb_params_id i)),
       (''seed_ctx_hash'', CBytes (hb_seed_ctx_hash i)), (''seed_commit'', CBytes (hb_seed_commit i)),
       (''rho_commit'', CBytes (hb_rho_commit i)), (''xk_hash'', CBytes (hb_xk_hash i)),
       (''hp_commit'', CBytes (hb_hp_commit i))]"

definition prove_hp_k :: "Ext \<Rightarrow> HpBindingInputs \<Rightarrow> MsphfError + HpProof" where
  "prove_hp_k E i =
     tryE (to_cbor_vec E (hp_transcript i)) (\<lambda>b.
     tryE (hash_bytes_with_label E ''msphf/hp-binding/proof'' b) (\<lambda>digest.
     Inr \<lparr>hp_digest = digest\<rparr>))"

definition verify_hp_k :: "Ext \<Rightarrow> HpBindingInputs \<Rightarrow> HpProof \<Rightarrow> MsphfError + unit" where
  "verify_hp_k E i proof =
     tryE (prove_hp_k E i) (\<lambda>expected.
     if hp_digest expected = hp_digest proof then Inr () else Inl (InvalidInput ''hp_k proof mismatch''))"

end
