(* ===== verification/Srx.thy ===== *)
theory Srx
  imports Stages
begin

text \<open>
  Set relations (SRX) of a merge: the payload parser and the validation helpers of \<open>accept/mod.rs\<close> and
  \<open>ensure_srx_relations\<close> of \<open>accept/stages.rs\<close>.  The lemmas show what an accepted payload establishes - the two roots,
  the coverage of every leaf, and that every leaf revoked since the last anchor is in the revoked set - and what it does
  not establish.
\<close>

section \<open>Parsing the payload\<close>

record AnchoredNonMembership =
  an_witness :: RawNonMembershipWitness
  an_left_ref :: "nat option"
  an_right_ref :: "nat option"

record SrxPayload =
  sp_join_nonmem_parent :: "AnchoredNonMembership list"
  sp_join_nonmem_revoked_since :: "AnchoredNonMembership list"
  sp_revoked_since_mem_in_revoked :: "RawMembershipWitness list"
  sp_join_leaf_ids :: "hash32 list"
  sp_join_frontier :: "hash32 list option"
  sp_since_leaf_ids :: "hash32 list"
  sp_since_frontier :: "hash32 list option"
  sp_anchor_mem_pool :: "RawMembershipWitness list"

abbreviation srx_bad :: "AcceptanceError" where
  "srx_bad \<equiv> Freeze FREEZE_SRX_INVALID"

definition integer_to_u64 :: "cbor \<Rightarrow> AcceptanceError + u64" where
  "integer_to_u64 v = (case v of CInt i \<Rightarrow> ok_or srx_bad (u64_try_from i) | _ \<Rightarrow> Inl srx_bad)"

definition parse_leaf_array :: "cbor \<Rightarrow> AcceptanceError + hash32 list" where
  "parse_leaf_array v = (case v of CArray es \<Rightarrow> mapE (\<lambda>e. value_bytes32 e FREEZE_SRX_INVALID) es | _ \<Rightarrow> Inl srx_bad)"

definition parse_optional_frontier :: "cbor \<Rightarrow> AcceptanceError + hash32 list option" where
  "parse_optional_frontier v =
     (case v of
        CNull \<Rightarrow> Inr None
      | CArray es \<Rightarrow> tryE (parse_leaf_array v) (\<lambda>l. Inr (Some l))
      | _ \<Rightarrow> Inl srx_bad)"

text \<open>One path entry: a map with the keys 1 (sibling) and 2 (direction), later occurrences overwriting earlier ones.\<close>
fun parse_path_fields :: "(cbor \<times> cbor) list \<Rightarrow> bytes option \<Rightarrow> u8 option \<Rightarrow> AcceptanceError + RawPathEntry" where
  "parse_path_fields [] sibling dir =
     tryE (ok_or srx_bad sibling) (\<lambda>s. tryE (ok_or srx_bad dir) (\<lambda>d. Inr \<lparr>pe_sibling = s, pe_dir = d\<rparr>))"
| "parse_path_fields ((key, val) # m) sibling dir =
     tryE (integer_to_u64 key) (\<lambda>idx.
     if idx = 1 then tryE (value_bytes32 val FREEZE_SRX_INVALID) (\<lambda>b. parse_path_fields m (Some b) dir)
     else if idx = 2 then
       tryE (integer_to_u64 val) (\<lambda>x. if 1 < x then Inl srx_bad else parse_path_fields m sibling (Some (ucast x)))
     else Inl srx_bad)"

definition parse_path_entries :: "cbor \<Rightarrow> AcceptanceError + RawPathEntry list" where
  "parse_path_entries v =
     (case v of
        CArray es \<Rightarrow> mapE (\<lambda>e. case e of CMap m \<Rightarrow> parse_path_fields m None None | _ \<Rightarrow> Inl srx_bad) es
      | _ \<Rightarrow> Inl srx_bad)"

text \<open>The mutable variables of the loop in \<open>parse_nonmem_anchor\<close>.\<close>
record NonmemFields =
  nf_query :: "hash32 option"
  nf_root :: "hash32 option"
  nf_left :: "hash32 option"
  nf_right :: "hash32 option"
  nf_path :: "RawPathEntry list option"
  nf_left_ref :: "nat option"
  nf_right_ref :: "nat option"
  nf_left_below :: "RawPathEntry list"
  nf_right_below :: "RawPathEntry list"
  nf_above :: "RawPathEntry list"
  nf_nmint :: "bytes option"
  nf_lca_left_height :: "u8 option"
  nf_lca_right_height :: "u8 option"

definition nonmem_fields_init :: NonmemFields where
  "nonmem_fields_init = \<lparr>nf_query = None, nf_root = None, nf_left = None, nf_right = None, nf_path = None,
     nf_left_ref = None, nf_right_ref = None, nf_left_below = [], nf_right_below = [], nf_above = [], nf_nmint = None,
     nf_lca_left_height = None, nf_lca_right_height = None\<rparr>"

definition optional_bytes32 :: "cbor \<Rightarrow> AcceptanceError + hash32 option" where
  "optional_bytes32 v =
     (case v of
        CNull \<Rightarrow> Inr None
      | CBytes b \<Rightarrow> tryE (value_bytes32 v FREEZE_SRX_INVALID) (\<lambda>x. Inr (Some x))
      | _ \<Rightarrow> Inl srx_bad)"

definition optional_index :: "cbor \<Rightarrow> AcceptanceError + nat option" where
  "optional_index v =
     (case v of
        CNull \<Rightarrow> Inr None
      | CInt i \<Rightarrow> tryE (integer_to_u64 v) (\<lambda>x. Inr (Some (unat x)))
      | _ \<Rightarrow> Inl srx_bad)"

definition optional_height :: "cbor \<Rightarrow> AcceptanceError + u8 option" where
  "optional_height v =
     (case v of
        CNull \<Rightarrow> Inr None
      | CInt i \<Rightarrow> tryE (integer_to_u64 v) (\<lambda>x. if 255 < x then Inl srx_bad else Inr (Some (ucast x)))
      | _ \<Rightarrow> Inl srx_bad)"

text \<open>The match on the map index in the loop body.\<close>
definition nonmem_field :: "u64 \<Rightarrow> cbor \<Rightarrow> NonmemFields \<Rightarrow> AcceptanceError + NonmemFields" where
  "nonmem_field idx val f =
     (if idx = 1 then tryE (value_bytes32 val FREEZE_SRX_INVALID) (\<lambda>b. Inr (f\<lparr>nf_query := Some b\<rparr>))
      else if idx = 2 then tryE (value_bytes32 val FREEZE_SRX_INVALID) (\<lambda>b. Inr (f\<lparr>nf_root := Some b\<rparr>))
      else if idx = 3 then tryE (optional_bytes32 val) (\<lambda>b. Inr (f\<lparr>nf_left := b\<rparr>))
      else if idx = 4 then tryE (optional_bytes32 val) (\<lambda>b. Inr (f\<lparr>nf_right := b\<rparr>))
      else if idx = 5 then tryE (parse_path_entries val) (\<lambda>p. Inr (f\<lparr>nf_path := Some p\<rparr>))
      else if idx = 6 then tryE (optional_index val) (\<lambda>i. Inr (f\<lparr>nf_left_ref := i\<rparr>))
      else if idx = 7 then tryE (optional_index val) (\<lambda>i. Inr (f\<lparr>nf_right_ref := i\<rparr>))
      else if idx = 8 then tryE (parse_path_entries val) (\<lambda>p. Inr (f\<lparr>nf_left_below := p\<rparr>))
      else if idx = 9 then tryE (parse_path_entries val) (\<lambda>p. Inr (f\<lparr>nf_right_below := p\<rparr>))
      else if idx = 10 then tryE (parse_path_entries val) (\<lambda>p. Inr (f\<lparr>nf_above := p\<rparr>))
      else if idx = 11 then tryE (optional_bytes32 val) (\<lambda>b. Inr (f\<lparr>nf_nmint := b\<rparr>))
      else if idx = 12 then tryE (optional_height val) (\<lambda>x. Inr (f\<lparr>nf_lca_left_height := x\<rparr>))
      else if idx = 13 then tryE (optional_height val) (\<lambda>x. Inr (f\<lparr>nf_lca_right_height := x\<rparr>))
      else Inl srx_bad)"

fun nonmem_fields :: "(cbor \<times> cbor) list \<Rightarrow> NonmemFields \<Rightarrow> AcceptanceError + NonmemFields" where
  "nonmem_fields [] f = Inr f"
| "nonmem_fields ((key, val) # m) f =
     tryE (integer_to_u64 key) (\<lambda>idx. tryE (nonmem_field idx val f) (\<lambda>f. nonmem_fields m f))"

definition parse_nonmem_anchor :: "cbor \<Rightarrow> AcceptanceError + AnchoredNonMembership" where
  "parse_nonmem_anchor v =
     (case v of
        CMap m \<Rightarrow>
          tryE (nonmem_fields m nonmem_fields_init) (\<lambda>f.
          tryE (ok_or srx_bad (nf_query f)) (\<lambda>query.
          tryE (ok_or srx_bad (nf_root f)) (\<lambda>root.
          tryE (ok_or srx_bad (nf_path f)) (\<lambda>path.
          Inr \<lparr>an_witness = \<lparr>rn_query = query, rn_root = root, rn_left = nf_left f, rn_right = nf_right f, rn_path = path,
                 rn_left_below = nf_left_below f, rn_right_below = nf_right_below f, rn_above = nf_above f,
                 rn_nmint = nf_nmint f, rn_lca_left_height = nf_lca_left_height f,
                 rn_lca_right_height = nf_lca_right_height f\<rparr>,
               an_left_ref = nf_left_ref f, an_right_ref = nf_right_ref f\<rparr>))))
      | _ \<Rightarrow> Inl srx_bad)"

definition parse_nonmem_anchor_list :: "cbor \<Rightarrow> AcceptanceError + AnchoredNonMembership list" where
  "parse_nonmem_anchor_list v = (case v of CArray es \<Rightarrow> mapE parse_nonmem_anchor es | _ \<Rightarrow> Inl srx_bad)"

definition deserialize_membership :: "Verifiers \<Rightarrow> cbor \<Rightarrow> AcceptanceError + RawMembershipWitness" where
  "deserialize_membership V v =
     tryE (map_err (\<lambda>_. srx_bad) (cbor_ser (ext V) v)) (\<lambda>b. ok_or srx_bad (de_membership V b))"

definition parse_mem_list :: "Verifiers \<Rightarrow> cbor \<Rightarrow> AcceptanceError + RawMembershipWitness list" where
  "parse_mem_list V v = (case v of CArray es \<Rightarrow> mapE (deserialize_membership V) es | _ \<Rightarrow> Inl srx_bad)"

definition parse_srx_payload :: "Verifiers \<Rightarrow> cbor \<Rightarrow> AcceptanceError + SrxPayload" where
  "parse_srx_payload V v =
     (case v of
        CArray [i0, i1, i2, i3, i4, i5, i6, i7, i8] \<Rightarrow>
          tryE (parse_nonmem_anchor_list i0) (\<lambda>join_parent.
          tryE (parse_nonmem_anchor_list i1) (\<lambda>join_revoked.
          tryE (parse_mem_list V i2) (\<lambda>subset.
          tryE (case i3 of CNull \<Rightarrow> Inr () | CMap _ \<Rightarrow> Inr () | _ \<Rightarrow> Inl srx_bad) (\<lambda>_.
          tryE (parse_leaf_array i4) (\<lambda>join_leaf_ids.
          tryE (parse_optional_frontier i5) (\<lambda>join_frontier.
          tryE (parse_leaf_array i6) (\<lambda>since_leaf_ids.
          tryE (parse_optional_frontier i7) (\<lambda>since_frontier.
          tryE (parse_mem_list V i8) (\<lambda>pool.
          Inr \<lparr>sp_join_nonmem_parent = join_parent, sp_join_nonmem_revoked_since = join_revoked,
            sp_revoked_since_mem_in_revoked = subset, sp_join_leaf_ids = join_leaf_ids, sp_join_frontier = join_frontier,
            sp_since_leaf_ids = since_leaf_ids, sp_since_frontier = since_frontier, sp_anchor_mem_pool = pool\<rparr>)))))))))
      | _ \<Rightarrow> Inl srx_bad)"

definition srx_contains_leaf_id :: "Verifiers \<Rightarrow> header \<Rightarrow> hash32 \<Rightarrow> AcceptanceError + bool option" where
  "srx_contains_leaf_id V h leaf_id =
     (case bt_get h HDR_SRX_PAYLOAD of
        None \<Rightarrow> Inr None
      | Some payload \<Rightarrow>
          tryE (case payload of
                  CBytes b \<Rightarrow> ok_or srx_bad (cbor_de (ext V) b)
                | CArray _ \<Rightarrow> Inr payload
                | _ \<Rightarrow> Inl srx_bad) (\<lambda>v.
          tryE (parse_srx_payload V v) (\<lambda>parsed. Inr (Some (leaf_id \<in> set (sp_join_leaf_ids parsed))))))"

section \<open>Validating the payload\<close>

text \<open>The errors of the two witness validators as the callers report them.\<close>
fun subset_error :: "MsphfError \<Rightarrow> AcceptanceError" where
  "subset_error (Witness ProjEvalFail) = Freeze FREEZE_SRX_SET_CONFLICT_SUBSET"
| "subset_error (Witness w) = Freeze FREEZE_HASH_MEM_MALFORMED"
| "subset_error e = acc_err e"

fun anchor_error :: "MsphfError \<Rightarrow> AcceptanceError" where
  "anchor_error (Witness ProjEvalFail) = Freeze FREEZE_SRX_ANCHOR_MISMATCH"
| "anchor_error (Witness w) = Freeze FREEZE_HASH_MEM_MALFORMED"
| "anchor_error e = acc_err e"

fun nonmem_error :: "FreezeError \<Rightarrow> MsphfError \<Rightarrow> AcceptanceError" where
  "nonmem_error conflict (Witness ProjEvalFail) = Freeze conflict"
| "nonmem_error conflict e = acc_err e"

fun validate_membership_loop ::
  "RpoExt \<Rightarrow> hash32 \<Rightarrow> hash32 set \<Rightarrow> RawMembershipWitness list \<Rightarrow> AcceptanceError + ValidatedMembership list" where
  "validate_membership_loop P root seen [] = Inr []"
| "validate_membership_loop P root seen (w # ws) =
     tryE (map_err subset_error (validate_membership_against P w root)) (\<lambda>entry.
     tryE (freeze_if (vm_leaf_id entry \<in> seen) FREEZE_SRX_INVALID) (\<lambda>_.
     tryE (validate_membership_loop P root (insert (vm_leaf_id entry) seen) ws) (\<lambda>out. Inr (entry # out))))"

definition validate_membership_array ::
  "RpoExt \<Rightarrow> RawMembershipWitness list \<Rightarrow> hash32 \<Rightarrow> AcceptanceError + ValidatedMembership list" where
  "validate_membership_array P ws root = validate_membership_loop P root {} ws"

definition validate_anchor_reference ::
  "RpoExt \<Rightarrow> RawMembershipWitness list \<Rightarrow> hash32 \<Rightarrow> bytes option \<Rightarrow> nat option \<Rightarrow> AcceptanceError + ValidatedMembership option" where
  "validate_anchor_reference P pool root bound index =
     (case (bound, index) of
        (None, None) \<Rightarrow> Inr None
      | (None, Some _) \<Rightarrow> Inl (Freeze FREEZE_SRX_ANCHOR_MISSING)
      | (Some _, None) \<Rightarrow> Inl (Freeze FREEZE_SRX_ANCHOR_MISSING)
      | (Some b, Some idx) \<Rightarrow>
          tryE (freeze_if (length b \<noteq> 32) FREEZE_SRX_ANCHOR_MISMATCH) (\<lambda>_.
          tryE (if idx < length pool then Inr (pool ! idx) else Inl (Freeze FREEZE_SRX_ANCHOR_OOB)) (\<lambda>w.
          tryE (freeze_if (length (rm_leaf_id w) \<noteq> 32 \<or> length (rm_root w) \<noteq> 32) FREEZE_HASH_MEM_MALFORMED) (\<lambda>_.
          tryE (freeze_if (64 < length (rm_path w)) FREEZE_HASH_PATH_OVERSIZE) (\<lambda>_.
          tryE (map_err anchor_error (validate_membership_against P w root)) (\<lambda>v.
          tryE (freeze_if (vm_root v \<noteq> root \<or> vm_leaf_id v \<noteq> b) FREEZE_SRX_ANCHOR_MISMATCH) (\<lambda>_.
          Inr (Some v))))))))"

text \<open>One side of the adjacency check: an anchor is present exactly when the bound is, and it is the bound.\<close>
definition anchor_matches_bound :: "ValidatedMembership option \<Rightarrow> hash32 option \<Rightarrow> bool" where
  "anchor_matches_bound anchor bound =
     (case (anchor, bound) of
        (None, None) \<Rightarrow> True
      | (Some a, Some b) \<Rightarrow> vm_leaf_id a = b
      | _ \<Rightarrow> False)"

definition verify_anchored_adjacency ::
  "ValidatedNonMembership \<Rightarrow> ValidatedMembership option \<Rightarrow> ValidatedMembership option \<Rightarrow> AcceptanceError + unit" where
  "verify_anchored_adjacency entry left_anchor right_anchor =
     tryE (freeze_unless (anchor_matches_bound left_anchor (vn_left entry)) FREEZE_NONMEM_ADJ_INCOHERENT) (\<lambda>_.
     tryE (freeze_unless (anchor_matches_bound right_anchor (vn_right entry)) FREEZE_NONMEM_ADJ_INCOHERENT) (\<lambda>_.
     freeze_unless
       (case (left_anchor, right_anchor) of
          (Some _, Some _) \<Rightarrow>
            (case (vn_left entry, vn_right entry) of
               (Some l, Some r) \<Rightarrow> l < vn_query entry \<and> vn_query entry < r
             | _ \<Rightarrow> False)
        | (None, Some r) \<Rightarrow> list_all (\<lambda>(dir, _). dir = 0) (vm_path r) \<and> vn_path entry = vm_path r
        | (Some l, None) \<Rightarrow> list_all (\<lambda>(dir, _). dir = 1) (vm_path l) \<and> vn_path entry = vm_path l
        | (None, None) \<Rightarrow> True) FREEZE_NONMEM_ADJ_INCOHERENT))"

fun validate_nonmem_loop ::
  "RpoExt \<Rightarrow> RawMembershipWitness list \<Rightarrow> hash32 \<Rightarrow> FreezeError \<Rightarrow> hash32 set \<Rightarrow> AnchoredNonMembership list \<Rightarrow>
     AcceptanceError + ValidatedNonMembership list" where
  "validate_nonmem_loop P pool root conflict seen [] = Inr []"
| "validate_nonmem_loop P pool root conflict seen (a # as) =
     tryE (map_err (nonmem_error conflict) (validate_nonmembership_against P (an_witness a) root)) (\<lambda>entry.
     tryE (freeze_if (vn_query entry \<in> seen) FREEZE_SRX_INVALID) (\<lambda>_.
     tryE (validate_anchor_reference P pool root (rn_left (an_witness a)) (an_left_ref a)) (\<lambda>left_anchor.
     tryE (validate_anchor_reference P pool root (rn_right (an_witness a)) (an_right_ref a)) (\<lambda>right_anchor.
     tryE (verify_anchored_adjacency entry left_anchor right_anchor) (\<lambda>_.
     tryE (validate_nonmem_loop P pool root conflict (insert (vn_query entry) seen) as) (\<lambda>out.
     Inr (entry # out)))))))"

definition validate_anchored_nonmem_array ::
  "RpoExt \<Rightarrow> AnchoredNonMembership list \<Rightarrow> RawMembershipWitness list \<Rightarrow> hash32 \<Rightarrow> FreezeError \<Rightarrow>
     AcceptanceError + ValidatedNonMembership list" where
  "validate_anchored_nonmem_array P ws pool root conflict = validate_nonmem_loop P pool root conflict {} ws"

fun validate_anchor_pool_from :: "(hash32 \<times> hash32) option \<Rightarrow> RawMembershipWitness list \<Rightarrow> AcceptanceError + unit" where
  "validate_anchor_pool_from prev [] = Inr ()"
| "validate_anchor_pool_from prev (w # ws) =
     tryE (freeze_if (length (rm_leaf_id w) \<noteq> 32 \<or> length (rm_root w) \<noteq> 32) FREEZE_HASH_MEM_MALFORMED) (\<lambda>_.
     tryE (freeze_if (64 < length (rm_path w)) FREEZE_HASH_PATH_OVERSIZE) (\<lambda>_.
     tryE (freeze_if (case prev of None \<Rightarrow> False
         | Some (r, l) \<Rightarrow> rm_root w < r \<or> rm_root w = r \<and> rm_leaf_id w \<le> l) FREEZE_SRX_ANCHOR_POOL_UNSORTED) (\<lambda>_.
     validate_anchor_pool_from (Some (rm_root w, rm_leaf_id w)) ws)))"

definition validate_anchor_pool :: "RawMembershipWitness list \<Rightarrow> AcceptanceError + unit" where
  "validate_anchor_pool pool = validate_anchor_pool_from None pool"

definition interval_contains :: "ValidatedNonMembership \<Rightarrow> hash32 \<Rightarrow> bool" where
  "interval_contains w leaf =
     (if vn_left w = None \<and> vn_right w = None then list_all (\<lambda>b. b = 0) (vn_root w)
      else if (case vn_left w of None \<Rightarrow> False | Some l \<Rightarrow> leaf \<le> l) then False
      else if (case vn_right w of None \<Rightarrow> False | Some r \<Rightarrow> r \<le> leaf) then False
      else True)"

definition ensure_nonmem_coverage :: "hash32 list \<Rightarrow> ValidatedNonMembership list \<Rightarrow> AcceptanceError + unit" where
  "ensure_nonmem_coverage leaves ws =
     (if leaves = [] then Inr ()
      else freeze_unless (list_all (\<lambda>leaf. list_ex (\<lambda>w. interval_contains w leaf) ws) leaves) FREEZE_SRX_INVALID)"

definition ensure_mem_coverage :: "hash32 list \<Rightarrow> ValidatedMembership list \<Rightarrow> AcceptanceError + unit" where
  "ensure_mem_coverage leaves ws =
     freeze_unless (list_all (\<lambda>leaf. leaf \<in> vm_leaf_id ` set ws) leaves) FREEZE_SRX_SET_CONFLICT_SUBSET"

section \<open>The set-relation stage\<close>

definition check_root :: "RpoExt \<Rightarrow> hash32 list \<Rightarrow> hash32 \<Rightarrow> AcceptanceError + unit" where
  "check_root P leaves expected =
     tryE (map_err (\<lambda>_. srx_bad) (canonical_set_root P leaves)) (\<lambda>root. freeze_if (root \<noteq> expected) FREEZE_SRX_INVALID)"

definition check_frontier :: "RpoExt \<Rightarrow> hash32 list \<Rightarrow> hash32 list option \<Rightarrow> AcceptanceError + unit" where
  "check_frontier P leaves frontier =
     (case frontier of
        None \<Rightarrow> Inr ()
      | Some f \<Rightarrow> tryE (map_err (\<lambda>_. srx_bad) (canonical_frontier P leaves)) (\<lambda>expected.
          freeze_if (expected \<noteq> f) FREEZE_SRX_FRONTIER_MISMATCH))"

text \<open>Size, commitment and parsing of the payload.\<close>
definition srx_read_payload :: "Verifiers \<Rightarrow> header \<Rightarrow> nat \<Rightarrow> AcceptanceError + hash32 \<times> bytes \<times> SrxPayload" where
  "srx_read_payload V h max_bytes =
     tryE (header_bytes32_or_freeze h 121 FREEZE_SRX_INVALID) (\<lambda>commit.
     tryE (case bt_get h HDR_SRX_PAYLOAD of Some (CBytes b) \<Rightarrow> Inr b | _ \<Rightarrow> Inl srx_bad) (\<lambda>payload.
     tryE (freeze_if (max_bytes < length payload) FREEZE_SRX_INVALID) (\<lambda>_.
     tryE (map_err acc_err (h_l (ext V) ''srx/commit'' (CBytes payload))) (\<lambda>recomputed.
     tryE (freeze_if (recomputed \<noteq> commit) FREEZE_SRX_COMMIT_MISMATCH) (\<lambda>_.
     tryE (ok_or srx_bad (cbor_de (ext V) payload)) (\<lambda>v.
     tryE (parse_srx_payload V v) (\<lambda>srx. Inr (commit, payload, srx))))))))"

text \<open>The set relations proper: pool, roots, frontiers, disjointness from the parent set and from the leaves revoked
  since the previous anchor, and inclusion of the latter in the revoked set.\<close>
definition srx_check_relations ::
  "RpoExt \<Rightarrow> SrxPayload \<Rightarrow> hash32 \<Rightarrow> hash32 \<Rightarrow> hash32 \<Rightarrow> hash32 \<Rightarrow> AcceptanceError + unit" where
  "srx_check_relations P srx parent_root join_delta_root revoked_since_root revoked_root =
     tryE (validate_anchor_pool (sp_anchor_mem_pool srx)) (\<lambda>_.
     tryE (check_root P (sp_join_leaf_ids srx) join_delta_root) (\<lambda>_.
     tryE (check_root P (sp_since_leaf_ids srx) revoked_since_root) (\<lambda>_.
     tryE (check_frontier P (sp_join_leaf_ids srx) (sp_join_frontier srx)) (\<lambda>_.
     tryE (check_frontier P (sp_since_leaf_ids srx) (sp_since_frontier srx)) (\<lambda>_.
     tryE (validate_anchored_nonmem_array P (sp_join_nonmem_parent srx) (sp_anchor_mem_pool srx) parent_root
       FREEZE_SRX_SET_CONFLICT_PARENT) (\<lambda>validated_parent.
     tryE (ensure_nonmem_coverage (sp_join_leaf_ids srx) validated_parent) (\<lambda>_.
     tryE (validate_anchored_nonmem_array P (sp_join_nonmem_revoked_since srx) (sp_anchor_mem_pool srx) revoked_since_root
       FREEZE_SRX_SET_CONFLICT_REVOKE) (\<lambda>validated_since.
     tryE (ensure_nonmem_coverage (sp_join_leaf_ids srx) validated_since) (\<lambda>_.
     tryE (validate_membership_array P (sp_revoked_since_mem_in_revoked srx) revoked_root) (\<lambda>validated_subset.
     ensure_mem_coverage (sp_since_leaf_ids srx) validated_subset))))))))))"

text \<open>The SmallWood proof over the shadow roots.\<close>
definition srx_check_smallwood ::
  "Verifiers \<Rightarrow> ProofArtifacts \<Rightarrow> hash32 \<Rightarrow> bytes \<Rightarrow> hash32 \<Rightarrow> hash32 \<Rightarrow> hash32 \<Rightarrow> hash32 \<Rightarrow> hash32 \<Rightarrow> AcceptanceError + unit" where
  "srx_check_smallwood V proofs commit payload parent_root join_root revoked_since_root revoked_root root_before =
     tryE (ok_or (Freeze FREEZE_SRX_SMALLWOOD_INVALID) (pa_srx_root_sw proofs)) (\<lambda>root_sw.
     tryE (ok_or (Freeze FREEZE_SRX_SMALLWOOD_INVALID) (pa_srx_smallwood proofs)) (\<lambda>proof_bytes.
     tryE (map_err acc_err (srx_payload_digest (ext V) payload)) (\<lambda>digest.
     tryE (map_err acc_err (compute_bridge_ctx (ext V) parent_root join_root revoked_since_root revoked_root commit digest
       root_sw)) (\<lambda>bridge.
     tryE (srx_proof_from_bytes V proof_bytes) (\<lambda>proof.
     srx_verify V \<lparr>si_shadow_root_before = root_before, si_shadow_root_after = root_sw, si_parent_root = parent_root,
       si_join_root = join_root, si_revoked_since_root = revoked_since_root, si_revoked_root = revoked_root,
       si_srx_commit = commit, si_srx_payload_digest = digest, si_srx_bridge_ctx = bridge,
       si_proof_mode = pa_proof_mode proofs, si_fs_policy_version = pa_fs_policy_version proofs,
       si_vrf_id = pa_vrf_id proofs\<rparr> proof)))))"

record SrxArgs =
  sa_parent_root :: hash32
  sa_join_delta_root :: hash32
  sa_revoked_since_root :: hash32
  sa_revoked_root :: hash32
  sa_xk_hash :: hash32
  sa_seed_commit :: hash32
  sa_rho_commit :: hash32
  sa_hp_commit :: hash32

definition ensure_srx_relations ::
  "Verifiers \<Rightarrow> header \<Rightarrow> SrxArgs \<Rightarrow> bool \<Rightarrow> nat \<Rightarrow> AcceptInstant \<Rightarrow> VckCache \<Rightarrow> ProofArtifacts \<Rightarrow> hash32 \<Rightarrow>
     (AcceptanceError + unit) \<times> VckCache" where
  "ensure_srx_relations V h a require srx_max_bytes now cache proofs root_before =
     (let max_bytes = max srx_max_bytes MIN_SRX_MAX_BYTES in
      case ensure_merge_srx_keys h require of Inl e \<Rightarrow> (Inl e, cache) | Inr _ \<Rightarrow>
      if \<not> require then (Inr (), cache)
      else (case srx_read_payload V h max_bytes of Inl e \<Rightarrow> (Inl e, cache) | Inr (commit, payload, srx) \<Rightarrow>
      if max_bytes < length payload then (Inl (Freeze FREEZE_SRX_OVERSIZE_HINT), cache)
      else (case compute_vck_key (ext V) (sa_xk_hash a) (sa_seed_commit a) (sa_rho_commit a) (sa_hp_commit a) h of
        Inl e \<Rightarrow> (Inl e, cache) | Inr key \<Rightarrow>
      let join_count = of_nat (length (sp_join_leaf_ids srx)); since_count = of_nat (length (sp_since_leaf_ids srx));
          anchor_count = of_nat (length (sp_anchor_mem_pool srx)) in
      (case try_skip_srx cache key join_count since_count anchor_count (of_nat (length payload)) (length payload) now of
        (Inl e, cache) \<Rightarrow> (Inl e, cache)
      | (Inr True, cache) \<Rightarrow> (Inr (), cache)
      | (Inr False, cache) \<Rightarrow>
          (case tryE (srx_check_relations (rpo (ext V)) srx (sa_parent_root a) (sa_join_delta_root a)
                   (sa_revoked_since_root a) (sa_revoked_root a)) (\<lambda>_.
                 srx_check_smallwood V proofs commit payload (sa_parent_root a) (sa_join_delta_root a)
                   (sa_revoked_since_root a) (sa_revoked_root a) root_before) of
             Inl e \<Rightarrow> (Inl e, cache)
           | Inr _ \<Rightarrow> (Inr (), record_srx cache key join_count since_count anchor_count (length payload) now))))))"

section \<open>What an accepted payload establishes\<close>

lemma validate_membership_loop_Inr:
  "validate_membership_loop P root seen ws = Inr vs \<Longrightarrow> \<forall>v\<in>set vs. \<exists>w\<in>set ws. validate_membership_against P w root = Inr v"
  by (induction ws arbitrary: seen vs) (fastforce simp: tryE_eq_Inr map_err_eq_Inr ensure_eq_Inr)+

definition anchored_bound :: "RpoExt \<Rightarrow> RawMembershipWitness list \<Rightarrow> hash32 \<Rightarrow> hash32 option \<Rightarrow> bool" where
  "anchored_bound P pool root b \<longleftrightarrow>
     (case b of None \<Rightarrow> True
      | Some l \<Rightarrow> \<exists>w\<in>set pool. \<exists>v. validate_membership_against P w root = Inr v \<and> vm_leaf_id v = l)"

lemma validate_anchor_reference_Inr:
  "validate_anchor_reference P pool root bound idx = Inr a \<Longrightarrow>
     (case a of None \<Rightarrow> True | Some v \<Rightarrow> \<exists>w\<in>set pool. validate_membership_against P w root = Inr v)"
  by (auto simp: validate_anchor_reference_def tryE_eq_Inr map_err_eq_Inr ensure_eq_Inr split: option.splits if_splits
      intro!: bexI [OF _ nth_mem])

lemma validate_nonmem_loop_Inr:
  "validate_nonmem_loop P pool root conflict seen as = Inr vs \<Longrightarrow> v \<in> set vs \<Longrightarrow>
     (\<exists>a\<in>set as. validate_nonmembership_against P (an_witness a) root = Inr v) \<and>
     anchored_bound P pool root (vn_left v) \<and> anchored_bound P pool root (vn_right v)"
proof (induction as arbitrary: seen vs)
  case (Cons a as)
  then obtain entry la ra out where *: "validate_nonmembership_against P (an_witness a) root = Inr entry"
    "validate_anchor_reference P pool root (rn_left (an_witness a)) (an_left_ref a) = Inr la"
    "validate_anchor_reference P pool root (rn_right (an_witness a)) (an_right_ref a) = Inr ra"
    "verify_anchored_adjacency entry la ra = Inr ()"
    "validate_nonmem_loop P pool root conflict (insert (vn_query entry) seen) as = Inr out" "vs = entry # out"
    by (auto simp: tryE_eq_Inr map_err_eq_Inr ensure_eq_Inr)
  have adj: "anchor_matches_bound la (vn_left entry)" "anchor_matches_bound ra (vn_right entry)"
    using *(4) by (auto simp: verify_anchored_adjacency_def tryE_eq_Inr ensure_eq_Inr)
  have "anchored_bound P pool root (vn_left entry)" "anchored_bound P pool root (vn_right entry)"
    using adj validate_anchor_reference_Inr [OF *(2)] validate_anchor_reference_Inr [OF *(3)]
    by (auto simp: anchored_bound_def anchor_matches_bound_def split: option.splits)
  then show ?case
    using Cons.IH [OF *(5)] Cons.prems(2) *(1,6) by auto
qed simp

lemma nonmem_coverage:
  assumes "validate_anchored_nonmem_array P ws pool root conflict = Inr vs" and "ensure_nonmem_coverage leaves vs = Inr ()"
    and "leaf \<in> set leaves"
  shows "\<exists>v a. a \<in> set ws \<and> validate_nonmembership_against P (an_witness a) root = Inr v \<and> interval_contains v leaf \<and>
    anchored_bound P pool root (vn_left v) \<and> anchored_bound P pool root (vn_right v)"
proof -
  have "\<exists>v\<in>set vs. interval_contains v leaf"
    using assms(2,3) by (auto simp: ensure_nonmem_coverage_def ensure_eq_Inr list_all_iff list_ex_iff split: if_splits)
  then show ?thesis
    using validate_nonmem_loop_Inr [OF assms(1) [unfolded validate_anchored_nonmem_array_def]] by blast
qed

lemma check_root_Inr: "check_root P leaves root = Inr u \<longleftrightarrow> canonical_set_root P leaves = Inr root"
  by (auto simp: check_root_def tryE_eq_Inr map_err_eq_Inr ensure_eq_Inr)

lemma mem_coverage:
  "validate_membership_array P ws root = Inr vs \<Longrightarrow> ensure_mem_coverage leaves vs = Inr () \<Longrightarrow> leaf \<in> set leaves \<Longrightarrow>
     \<exists>w\<in>set ws. \<exists>v. validate_membership_against P w root = Inr v \<and> vm_leaf_id v = leaf"
  using validate_membership_loop_Inr [of P root "{}" ws vs]
  by (fastforce simp: validate_membership_array_def ensure_mem_coverage_def ensure_eq_Inr list_all_iff)

lemmas srx_check_relations_cases = srx_check_relations_def tryE_eq_Inr check_root_Inr

text \<open>C16: what the set-relation check establishes.  When it accepts a payload, the join and revoked-since roots are the
  canonical roots of the listed leaves; every join leaf lies in an interval, validated against the parent root and
  against the revoked-since root, whose bounds are anchored by membership witnesses of the pool; and every revoked-since
  leaf has a membership witness in the revoked set.\<close>
theorem srx_relations_established:
  assumes "srx_check_relations P srx parent_root join_root since_root revoked_root = Inr ()"
  shows "canonical_set_root P (sp_join_leaf_ids srx) = Inr join_root \<and>
    canonical_set_root P (sp_since_leaf_ids srx) = Inr since_root \<and>
    (\<forall>leaf\<in>set (sp_join_leaf_ids srx). \<forall>root\<in>{parent_root, since_root}.
       \<exists>v raw. validate_nonmembership_against P raw root = Inr v \<and> interval_contains v leaf \<and>
         anchored_bound P (sp_anchor_mem_pool srx) root (vn_left v) \<and>
         anchored_bound P (sp_anchor_mem_pool srx) root (vn_right v)) \<and>
    (\<forall>leaf\<in>set (sp_since_leaf_ids srx).
       \<exists>w v. validate_membership_against P w revoked_root = Inr v \<and> vm_leaf_id v = leaf)"
proof -
  obtain vp vs vm where
    roots: "canonical_set_root P (sp_join_leaf_ids srx) = Inr join_root"
      "canonical_set_root P (sp_since_leaf_ids srx) = Inr since_root" and
    parent: "validate_anchored_nonmem_array P (sp_join_nonmem_parent srx) (sp_anchor_mem_pool srx) parent_root
        FREEZE_SRX_SET_CONFLICT_PARENT = Inr vp" "ensure_nonmem_coverage (sp_join_leaf_ids srx) vp = Inr ()" and
    since: "validate_anchored_nonmem_array P (sp_join_nonmem_revoked_since srx) (sp_anchor_mem_pool srx) since_root
        FREEZE_SRX_SET_CONFLICT_REVOKE = Inr vs" "ensure_nonmem_coverage (sp_join_leaf_ids srx) vs = Inr ()" and
    subset: "validate_membership_array P (sp_revoked_since_mem_in_revoked srx) revoked_root = Inr vm"
      "ensure_mem_coverage (sp_since_leaf_ids srx) vm = Inr ()"
    using assms by (auto simp: srx_check_relations_cases)
  show ?thesis
    using roots nonmem_coverage [OF parent] nonmem_coverage [OF since] mem_coverage [OF subset] by blast
qed

text \<open>The leaves revoked since the previous anchor are revoked.  If the set-relation check accepts against the root
  of a non-empty revoked set, then each revoked-since leaf is a digest of that set's tree, unless the witness path
  exhibits a collision of the node hash or a preimage of a leaf.\<close>
theorem srx_revoked_since_is_revoked:
  assumes "srx_check_relations P srx parent_root join_root since_root revoked_root = Inr ()"
    and "canonical_set_root P revoked = Inr revoked_root" and "revoked \<noteq> []" and "leaf \<in> set (sp_since_leaf_ids srx)"
  shows "leaf \<in> tree_digests (hash_node P) revoked \<or>
    (\<exists>w\<in>set (sp_revoked_since_mem_in_revoked srx). \<exists>path. validate_path (rm_path w) = Inr path \<and> rm_leaf_id w = leaf \<and>
      ((\<exists>p\<in>set (tree_pairs (hash_node P) revoked). \<exists>q\<in>set (path_pairs (hash_node P) leaf path).
          p \<noteq> q \<and> case_prod (hash_node P) p = case_prod (hash_node P) q) \<or>
       (\<exists>q\<in>set (path_pairs (hash_node P) leaf path). case_prod (hash_node P) q \<in> set revoked)))"
proof -
  obtain vm where "validate_membership_array P (sp_revoked_since_mem_in_revoked srx) revoked_root = Inr vm"
    "ensure_mem_coverage (sp_since_leaf_ids srx) vm = Inr ()"
    using assms(1) by (auto simp: srx_check_relations_cases)
  from mem_coverage [OF this assms(4)] obtain w v where w: "w \<in> set (sp_revoked_since_mem_in_revoked srx)"
    "validate_membership_against P w revoked_root = Inr v" "vm_leaf_id v = leaf"
    by blast
  then obtain path where path: "validate_path (rm_path w) = Inr path" "rm_leaf_id w = leaf"
    "validate_membership_path P leaf path = revoked_root"
    by (auto simp: validate_membership_Inr)
  from membership_path_sound [OF assms(2,3) path(3)] path(1,2) w(1) show ?thesis
    by blast
qed

section \<open>What it does not establish\<close>

definition pool_entry :: "hash32 \<Rightarrow> hash32 \<Rightarrow> path \<Rightarrow> RawMembershipWitness" where
  "pool_entry root leaf path = \<lparr>rm_leaf_id = leaf, rm_root = root, rm_path = map raw_entry path\<rparr>"

definition empty_set_query :: "hash32 \<Rightarrow> AnchoredNonMembership" where
  "empty_set_query q =
     \<lparr>an_witness = \<lparr>rn_query = q, rn_root = zero_hash, rn_left = None, rn_right = None, rn_path = [], rn_left_below = [],
        rn_right_below = [], rn_above = [], rn_nmint = None, rn_lca_left_height = None, rn_lca_right_height = None\<rparr>,
      an_left_ref = None, an_right_ref = None\<rparr>"

text \<open>A payload that re-adds the leaf \<open>b\<close> of the parent set \<open>{a, b, c, d}\<close>.\<close>
definition readding_payload :: "RpoExt \<Rightarrow> hash32 \<Rightarrow> hash32 \<Rightarrow> hash32 \<Rightarrow> hash32 \<Rightarrow> hash32 \<Rightarrow> SrxPayload" where
  "readding_payload P root a b c d =
     \<lparr>sp_join_nonmem_parent = [\<lparr>an_witness = forged_nonmembership P root a b c d, an_left_ref = Some 0, an_right_ref = Some 1\<rparr>],
      sp_join_nonmem_revoked_since = [empty_set_query b],
      sp_revoked_since_mem_in_revoked = [], sp_join_leaf_ids = [b], sp_join_frontier = None, sp_since_leaf_ids = [],
      sp_since_frontier = None,
      sp_anchor_mem_pool = [pool_entry root a [(0, b), (0, hash_node P c d)], pool_entry root c [(0, d), (1, hash_node P a b)]]\<rparr>"

lemma forged_nonmembership_accepted:
  assumes "a < b" and "b < c" and "\<forall>x\<in>{a, b, c, d}. length x = 32"
    and "root = hash_node P (hash_node P a b) (hash_node P c d)"
  shows "validate_nonmembership_against P (forged_nonmembership P root a b c d) root =
    Inr \<lparr>vn_query = b, vn_root = root, vn_left = Some a, vn_right = Some c, vn_path = []\<rparr>"
proof -
  have "length root = 32" "length (hash_interval_binding P a a c c 2 2) = 32" "a < c"
    using assms by (simp_all add: rpo.length_digest hash_interval_binding_def)
  with assms show ?thesis
    by (simp add: validate_nonmembership_against_def forged_nonmembership_def check_left_def check_right_def
        validate_path_def nonmembership_two_sided_def fold_step_def raw_entry_def not_le)
qed

lemma pool_entry_accepted:
  assumes "length leaf = 32" and "length root = 32" and "\<forall>(d, s)\<in>set path. (d = 0 \<or> d = 1) \<and> length s = 32"
    and "length path \<le> 64" and "validate_membership_path P leaf path = root"
  shows "validate_membership_against P (pool_entry root leaf path) root =
    Inr \<lparr>vm_leaf_id = leaf, vm_root = root, vm_path = path\<rparr>"
  using assms
  by (simp add: pool_entry_def validate_membership_against_def validate_path_def MAX_MERKLE_DEPTH_def validate_entries_raw)

lemma readding_pool:
  assumes "\<forall>x\<in>{a, b, c, d}. length x = 32" and "root = hash_node P (hash_node P a b) (hash_node P c d)"
  shows "validate_membership_against P (pool_entry root a [(0, b), (0, hash_node P c d)]) root =
      Inr \<lparr>vm_leaf_id = a, vm_root = root, vm_path = [(0, b), (0, hash_node P c d)]\<rparr>"
    and "validate_membership_against P (pool_entry root c [(0, d), (1, hash_node P a b)]) root =
      Inr \<lparr>vm_leaf_id = c, vm_root = root, vm_path = [(0, d), (1, hash_node P a b)]\<rparr>"
  using assms rpo.length_digest by (simp_all add: pool_entry_accepted validate_membership_path_def)

lemma empty_set_query_accepted:
  "length q = 32 \<Longrightarrow> validate_anchored_nonmem_array P [empty_set_query q] pool zero_hash conflict =
     Inr [\<lparr>vn_query = q, vn_root = zero_hash, vn_left = None, vn_right = None, vn_path = []\<rparr>]"
  by (simp add: validate_anchored_nonmem_array_def empty_set_query_def validate_nonmembership_against_def
      check_left_def check_right_def validate_path_def nonmembership_open_def validate_anchor_reference_def
      verify_anchored_adjacency_def anchor_matches_bound_def zero_hash_def MAX_MERKLE_DEPTH_def)

lemma readding_refs:
  assumes "\<forall>x\<in>{a, b, c, d}. length x = 32" and "root = hash_node P (hash_node P a b) (hash_node P c d)"
  shows "validate_anchor_reference P (sp_anchor_mem_pool (readding_payload P root a b c d)) root (Some a) (Some 0) =
      Inr (Some \<lparr>vm_leaf_id = a, vm_root = root, vm_path = [(0, b), (0, hash_node P c d)]\<rparr>)"
    and "validate_anchor_reference P (sp_anchor_mem_pool (readding_payload P root a b c d)) root (Some c) (Some 1) =
      Inr (Some \<lparr>vm_leaf_id = c, vm_root = root, vm_path = [(0, d), (1, hash_node P a b)]\<rparr>)"
  using assms rpo.length_digest [of P] readding_pool [OF assms]
  by (simp_all add: readding_payload_def validate_anchor_reference_def) (simp_all add: pool_entry_def)

lemma readding_nonmem:
  assumes "a < b" and "b < c" and "\<forall>x\<in>{a, b, c, d}. length x = 32"
    and "root = hash_node P (hash_node P a b) (hash_node P c d)"
  shows "validate_anchored_nonmem_array P (sp_join_nonmem_parent (readding_payload P root a b c d))
      (sp_anchor_mem_pool (readding_payload P root a b c d)) root FREEZE_SRX_SET_CONFLICT_PARENT =
    Inr [\<lparr>vn_query = b, vn_root = root, vn_left = Some a, vn_right = Some c, vn_path = []\<rparr>]"
  using forged_nonmembership_accepted [OF assms] readding_refs [OF assms(3,4)] assms(1,2)
  by (simp add: readding_payload_def validate_anchored_nonmem_array_def verify_anchored_adjacency_def
      anchor_matches_bound_def forged_nonmembership_def)

lemma readding_accepted:
  assumes "a < b" and "b < c" and "\<forall>x\<in>{a, b, c, d}. length x = 32"
    and "root = hash_node P (hash_node P a b) (hash_node P c d)"
  shows "srx_check_relations P (readding_payload P root a b c d) root b zero_hash revoked_root = Inr ()"
proof -
  have len: "length root = 32"
    by (simp add: assms(4) rpo.length_digest)
  have "a < c" using assms(1,2) by simp
  then have pool: "validate_anchor_pool (sp_anchor_mem_pool (readding_payload P root a b c d)) = Inr ()"
    using assms(3) len by (simp add: readding_payload_def validate_anchor_pool_def pool_entry_def not_le)
  have cover: "ensure_nonmem_coverage [b] [\<lparr>vn_query = b, vn_root = root, vn_left = Some a, vn_right = Some c, vn_path = []\<rparr>] = Inr ()"
    "ensure_nonmem_coverage [b] [\<lparr>vn_query = b, vn_root = zero_hash, vn_left = None, vn_right = None, vn_path = []\<rparr>] = Inr ()"
    using assms(1,2) by (simp_all add: ensure_nonmem_coverage_def interval_contains_def not_le zero_hash_def list_all_iff)
  have roots: "canonical_set_root P [b] = Inr b" "canonical_set_root P [] = Inr zero_hash"
    by (simp_all add: canonical_set_root_def)
  show ?thesis
    using pool readding_nonmem [OF assms] empty_set_query_accepted [of b P] assms(3) cover roots
    by (simp add: srx_check_relations_def check_root_def validate_membership_array_def ensure_mem_coverage_def)
      (simp add: readding_payload_def check_frontier_def)
qed

text \<open>C39: the set-relation check does not establish that a join leaf is new.  For every parent set of four leaves
  \<open>a < b < c < d\<close> there is a payload, made of digests of the parent's own tree, that joins \<open>b\<close> again and that the whole
  check accepts, anchors and coverage included.\<close>
theorem srx_accepts_readding_member:
  assumes "a < b" and "b < c" and "c < d" and "\<forall>x\<in>{a, b, c, d}. length x = 32"
    and "canonical_set_root P [a, b, c, d] = Inr root"
  shows "srx_check_relations P (readding_payload P root a b c d) root b zero_hash revoked_root = Inr () \<and>
    sp_join_leaf_ids (readding_payload P root a b c d) = [b] \<and> b \<in> set [a, b, c, d]"
proof -
  have root: "root = hash_node P (hash_node P a b) (hash_node P c d)"
    using assms(1-3,5) by (simp add: canonical_set_root_def root_loop.simps [of _ "_ # _"] split: if_splits)
  from readding_accepted [OF assms(1,2,4) this] show ?thesis
    by (simp add: readding_payload_def)
qed

section \<open>Instances\<close>

definition sample_parent_root :: hash32 where
  "sample_parent_root = hash_node sample_rpo (hash_node sample_rpo (sample_leaf 2) (sample_leaf 3))
     (hash_node sample_rpo (sample_leaf 4) (sample_leaf 5))"

definition sample_readding :: SrxPayload where
  "sample_readding = readding_payload sample_rpo sample_parent_root (sample_leaf 2) (sample_leaf 3) (sample_leaf 4) (sample_leaf 5)"

definition sample_revocation :: SrxPayload where
  "sample_revocation =
     \<lparr>sp_join_nonmem_parent = [], sp_join_nonmem_revoked_since = [],
      sp_revoked_since_mem_in_revoked = [pool_entry (sample_leaf 2) (sample_leaf 2) []], sp_join_leaf_ids = [],
      sp_join_frontier = None, sp_since_leaf_ids = [sample_leaf 2], sp_since_frontier = None, sp_anchor_mem_pool = []\<rparr>"

lemma sample_readding_accepted:
  "srx_check_relations sample_rpo sample_readding sample_parent_root (sample_leaf 3) zero_hash zero_hash = Inr ()"
  unfolding sample_readding_def by (rule readding_accepted) (simp_all add: sample_parent_root_def)

lemma sample_revocation_accepted:
  "srx_check_relations sample_rpo sample_revocation zero_hash zero_hash (sample_leaf 2) (sample_leaf 2) = Inr ()"
  by (simp add: sample_revocation_def srx_check_relations_def validate_anchor_pool_def check_root_def check_frontier_def
      canonical_set_root_def validate_anchored_nonmem_array_def ensure_nonmem_coverage_def validate_membership_array_def
      pool_entry_accepted validate_membership_path_def ensure_mem_coverage_def)

theorem srx_relations_established_witness:
  "\<exists>v raw. validate_nonmembership_against sample_rpo raw sample_parent_root = Inr v \<and> interval_contains v (sample_leaf 3)"
proof -
  have "sample_leaf 3 \<in> set (sp_join_leaf_ids sample_readding)"
    by (simp add: sample_readding_def readding_payload_def)
  with srx_relations_established [OF sample_readding_accepted] show ?thesis
    by blast
qed

theorem srx_revoked_since_is_revoked_witness:
  "\<exists>w. sample_leaf 2 \<in> tree_digests (hash_node sample_rpo) [sample_leaf 2] \<or>
     w \<in> set (sp_revoked_since_mem_in_revoked sample_revocation) \<and> rm_leaf_id w = sample_leaf 2"
proof -
  have "canonical_set_root sample_rpo [sample_leaf 2] = Inr (sample_leaf 2)"
    by (simp add: canonical_set_root_def)
  from srx_revoked_since_is_revoked [OF sample_revocation_accepted this, of "sample_leaf 2"] show ?thesis
    by (auto simp: sample_revocation_def)
qed

theorem srx_accepts_readding_member_witness:
  "srx_check_relations sample_rpo sample_readding sample_parent_root (sample_leaf 3) zero_hash zero_hash = Inr () \<and>
   sp_join_leaf_ids sample_readding = [sample_leaf 3]"
proof -
  have "canonical_set_root sample_rpo [sample_leaf 2, sample_leaf 3, sample_leaf 4, sample_leaf 5] = Inr sample_parent_root"
    by (simp add: canonical_set_root_def root_loop.simps [of _ "_ # _"] sample_parent_root_def)
  from srx_accepts_readding_member [OF _ _ _ _ this] show ?thesis
    by (simp add: sample_readding_def)
qed

end
