(* ===== verification/Effects.thy ===== *)
theory Effects
  imports Prelude
begin

text \<open>
  Operations on \<open>&mut self\<close> that return a \<open>Result\<close>: functions from a state to a result and the state left behind, on errors
  too.  \<open>tryS\<close> is the question mark operator, \<open>liftS\<close> a check that only reads the state, \<open>getS\<close> a read and \<open>updS\<close> a
  mutation.  The collection \<open>eff_simps\<close> inverts a run; \<open>evolves R\<close> says that every run relates its first and last state
  by \<open>R\<close>, for a relation that satisfies the contract of the locale \<open>state_relation\<close>.
\<close>

type_synonym ('s, 'e, 'a) eff = "'s \<Rightarrow> ('e + 'a) \<times> 's"

named_theorems eff_simps \<open>inversion of runs\<close>

definition tryS :: "('s, 'e, 'a) eff \<Rightarrow> ('a \<Rightarrow> ('s, 'e, 'b) eff) \<Rightarrow> ('s, 'e, 'b) eff" where
  "tryS m f s = (case m s of (Inl e, t) \<Rightarrow> (Inl e, t) | (Inr x, t) \<Rightarrow> f x t)"

definition liftS :: "('s \<Rightarrow> 'e + 'a) \<Rightarrow> ('s, 'e, 'a) eff" where
  "liftS g s = (g s, s)"

definition getS :: "('s \<Rightarrow> 'a) \<Rightarrow> ('s, 'e, 'a) eff" where
  "getS g s = (Inr (g s), s)"

definition updS :: "('s \<Rightarrow> 's) \<Rightarrow> ('s, 'e, unit) eff" where
  "updS g s = (Inr (), g s)"

section \<open>Inversion\<close>

lemma tryS_eq_Inr [eff_simps]:
  "tryS m f s = (Inr y, t) \<longleftrightarrow> (\<exists>x u. m s = (Inr x, u) \<and> f x u = (Inr y, t))"
  by (auto simp: tryS_def split: prod.splits sum.splits)

lemma tryS_eq_Inl [eff_simps]:
  "tryS m f s = (Inl e, t) \<longleftrightarrow> m s = (Inl e, t) \<or> (\<exists>x u. m s = (Inr x, u) \<and> f x u = (Inl e, t))"
  by (auto simp: tryS_def split: prod.splits sum.splits)

lemma liftS_eq [eff_simps]: "liftS g s = (r, t) \<longleftrightarrow> g s = r \<and> t = s"
  by (auto simp: liftS_def)

lemma getS_eq [eff_simps]: "getS g s = (r, t) \<longleftrightarrow> r = Inr (g s) \<and> t = s"
  by (auto simp: getS_def)

lemma updS_eq [eff_simps]: "updS g s = (r, t) \<longleftrightarrow> r = Inr () \<and> t = g s"
  by (auto simp: updS_def)

section \<open>Relations between the first and the last state\<close>

definition evolves :: "('s \<Rightarrow> 's \<Rightarrow> bool) \<Rightarrow> ('s, 'e, 'a) eff \<Rightarrow> bool" where
  "evolves R m \<longleftrightarrow> (\<forall>s. R s (snd (m s)))"

lemma evolvesD: "evolves R m \<Longrightarrow> m s = (r, t) \<Longrightarrow> R s t"
  unfolding evolves_def by (metis snd_conv)

lemma evolvesI: "(\<And>s r t. m s = (r, t) \<Longrightarrow> R s t) \<Longrightarrow> evolves R m"
  unfolding evolves_def by (metis prod.collapse)

text \<open>The contract of a relation that runs can be composed with.\<close>
locale state_relation =
  fixes R :: "'s \<Rightarrow> 's \<Rightarrow> bool"
  assumes refl: "R s s"
    and trans: "R s t \<Longrightarrow> R t u \<Longrightarrow> R s u"
begin

lemma evolves_try:
  assumes "evolves R m" "\<And>x. evolves R (f x)"
  shows "evolves R (tryS m f)"
proof (rule evolvesI)
  fix s r t
  assume run: "tryS m f s = (r, t)"
  show "R s t"
    using run assms by (cases r) (auto simp: eff_simps, (metis evolvesD trans)+)
qed

lemma evolves_lift: "evolves R (liftS g)"
  by (simp add: evolves_def liftS_def refl)

lemma evolves_get: "evolves R (getS g)"
  by (simp add: evolves_def getS_def refl)

lemma evolves_upd: "(\<And>s. R s (g s)) \<Longrightarrow> evolves R (updS g)"
  by (simp add: evolves_def updS_def)

lemma evolves_return: "evolves R (\<lambda>s. (r, s))"
  by (simp add: evolves_def refl)

lemmas evolves_intro = evolves_try evolves_lift evolves_get evolves_return

end

end
