(* ===== verification/AcceptContext.thy ===== *)
theory AcceptContext
  imports Srx Effects "HOL-Library.Sublist"
begin

text \<open>
  The acceptance context (\<open>AcceptanceContext\<close> of \<open>accept/mod.rs\<close>): its fields, constructors and setters, the checks of
  suite identifiers, the forward-secrecy check of a device chain, and the barrier gate with its commit.  The lemmas show
  that the gate followed by its commit refines an abstract state machine on the barrier version and the revocation roots,
  that the rate limits of refreshes hold, and that a device chain can only be extended by a link to its last commitment,
  within the caps of the policy.
\<close>

section \<open>State\<close>

record AcceptanceContext =
  ax_mh_window :: MultiHeadWindow
  ax_rho_guard :: RhoReplayGuard
  ax_vck_cache :: VckCache
  ax_bootstrap_policy :: BootstrapPolicy
  ax_srx_max_bytes :: nat
  ax_srx_required :: bool
  ax_allowed_crs_ids :: "string set option"
  ax_allowed_params_ids :: "bytes set option"
  ax_deprecated_crs_ids :: "string set"
  ax_deprecated_params_ids :: "bytes set"
  ax_allowed_vrf_ids :: "string set option"
  ax_deprecated_vrf_ids :: "string set"
  ax_allowed_proof_modes :: "string set option"
  ax_deprecated_proof_modes :: "string set"
  ax_allowed_srx_modes :: "string set option"
  ax_deprecated_srx_modes :: "string set"
  ax_leaf_id_mode :: LeafIdMode
  ax_pivot_store :: PivotParityStore
  ax_next_accept_seq :: u64
  ax_kbroad_registry :: "(bytes \<rightharpoonup> bytes) option"
  ax_pending_capss_witness :: "cbor option"
  ax_telemetry :: "TelemetryKey \<rightharpoonup> TelemetryCounters"
  ax_policy_version :: string
  ax_policy_timestamp :: "int option"
  ax_device_chains :: "bytes \<rightharpoonup> (bytes \<rightharpoonup> DeviceChainState)"
  ax_barrier_groups :: "bytes \<rightharpoonup> BarrierGroupState"
  ax_fs_caps :: FsCaps
  ax_srx_root_sw :: "hash32 option"
  ax_srx_empty_root_sw :: hash32
  ax_srx_migration_root_sw :: "hash32 option"
  ax_fs_base_ts :: "u64 option"
  ax_fs_policy_version :: "string option"
  ax_allowed_fs_policy_version :: "string option"
  ax_fs_period :: u64
  ax_checkpoint_interval :: u64
  ax_checkpoint_head_threshold :: u64
  ax_clock :: AcceptClock

record AcceptanceOptions =
  ao_bootstrap_policy :: BootstrapPolicy
  ao_srx_max_bytes :: nat
  ao_srx_required :: bool
  ao_allowed_crs_ids :: "string set option"
  ao_allowed_params_ids :: "bytes set option"
  ao_deprecated_crs_ids :: "string set"
  ao_deprecated_params_ids :: "bytes set"
  ao_allowed_vrf_ids :: "string set option"
  ao_deprecated_vrf_ids :: "string set"
  ao_allowed_proof_modes :: "string set option"
  ao_deprecated_proof_modes :: "string set"
  ao_allowed_srx_modes :: "string set option"
  ao_deprecated_srx_modes :: "string set"
  ao_leaf_id_mode :: LeafIdMode
  ao_kbroad_registry :: "(bytes \<rightharpoonup> bytes) option"
  ao_fs_policy_config :: FsPolicyConfig
  ao_rho_guard_capacity :: nat

definition acceptance_options_default :: AcceptanceOptions where
  "acceptance_options_default =
     \<lparr>ao_bootstrap_policy = BootstrapDisabled, ao_srx_max_bytes = DEFAULT_SRX_MAX_BYTES, ao_srx_required = True,
      ao_allowed_crs_ids = None, ao_allowed_params_ids = None, ao_deprecated_crs_ids = {}, ao_deprecated_params_ids = {},
      ao_allowed_vrf_ids = Some {''lb-vrf/v1''}, ao_deprecated_vrf_ids = {},
      ao_allowed_proof_modes = Some {''lin+zkvrf''}, ao_deprecated_proof_modes = {},
      ao_allowed_srx_modes = Some {''srx/v1-complete''}, ao_deprecated_srx_modes = {}, ao_leaf_id_mode = PerGroup,
      ao_kbroad_registry = None, ao_fs_policy_config = fs_policy_default, ao_rho_guard_capacity = RHO_GUARD_CAPACITY\<rparr>"

datatype AcceptanceKind = NonMerge | Merge (retired_heads: "hash32 list")

record AcceptanceOutcome =
  oc_kind :: AcceptanceKind
  oc_we_epoch_id :: hash32
  oc_wid :: hash32
  oc_seed_ctx_hash :: hash32
  oc_seed_commit :: hash32
  oc_rho_commit :: hash32
  oc_hp_commit :: hash32
  oc_xk_hash :: hash32
  oc_accept_seq :: u64
  oc_accept_time :: AcceptInstant
  oc_mh_note :: "string option"
  oc_fs_epoch_commit :: "hash32 option"
  oc_fs_ec :: "u64 option"
  oc_fs_dev_commit :: "hash32 option"

type_synonym 'a acc = "(AcceptanceContext, AcceptanceError, 'a) eff"

section \<open>Construction\<close>

definition DEFAULT_SRX_SMALLWOOD_PROFILE :: string where
  "DEFAULT_SRX_SMALLWOOD_PROFILE = ''smallwood-v1/anemoi-jive-a1''"

definition DEFAULT_POLICY_VERSION :: string where
  "DEFAULT_POLICY_VERSION = ''0''"

definition derive_srx_empty_root_sw :: "Ext \<Rightarrow> string \<Rightarrow> MsphfError + hash32" where
  "derive_srx_empty_root_sw E profile = h_l E ''srx/root_sw/empty'' (CText profile)"

definition apply_fs_policy_config :: "FsPolicyConfig \<Rightarrow> AcceptanceContext \<Rightarrow> (FreezeError + unit) \<times> AcceptanceContext" where
  "apply_fs_policy_config config ctx =
     (case synthesize_caps config of
        Inl e \<Rightarrow> (Inl e, ctx)
      | Inr caps \<Rightarrow> (Inr (), ctx\<lparr>ax_fs_caps := caps, ax_fs_period := fp_h config,
          ax_checkpoint_interval := fp_checkpoint_interval config,
          ax_checkpoint_head_threshold := fp_checkpoint_head_threshold config\<rparr>))"

definition ctx_with_options :: "Ext \<Rightarrow> nat \<Rightarrow> Duration \<Rightarrow> AcceptanceOptions \<Rightarrow> AcceptanceContext" where
  "ctx_with_options E hm d opts =
     (let mh = mhw_new hm d; verify_ttl = ttl mh;
          empty_root = (case derive_srx_empty_root_sw E DEFAULT_SRX_SMALLWOOD_PROFILE of Inl _ \<Rightarrow> zero_hash | Inr r \<Rightarrow> r);
          ctx = \<lparr>ax_mh_window = mh, ax_rho_guard = rho_guard_new (max (ao_rho_guard_capacity opts) 1) verify_ttl,
            ax_vck_cache = vck_cache_new verify_ttl, ax_bootstrap_policy = ao_bootstrap_policy opts,
            ax_srx_max_bytes = max (ao_srx_max_bytes opts) MIN_SRX_MAX_BYTES, ax_srx_required = ao_srx_required opts,
            ax_allowed_crs_ids = ao_allowed_crs_ids opts, ax_allowed_params_ids = ao_allowed_params_ids opts,
            ax_deprecated_crs_ids = ao_deprecated_crs_ids opts, ax_deprecated_params_ids = ao_deprecated_params_ids opts,
            ax_allowed_vrf_ids = ao_allowed_vrf_ids opts, ax_deprecated_vrf_ids = ao_deprecated_vrf_ids opts,
            ax_allowed_proof_modes = ao_allowed_proof_modes opts, ax_deprecated_proof_modes = ao_deprecated_proof_modes opts,
            ax_allowed_srx_modes = ao_allowed_srx_modes opts, ax_deprecated_srx_modes = ao_deprecated_srx_modes opts,
            ax_leaf_id_mode = ao_leaf_id_mode opts, ax_pivot_store = pivot_store_new verify_ttl, ax_next_accept_seq = 0,
            ax_kbroad_registry = ao_kbroad_registry opts, ax_pending_capss_witness = None, ax_telemetry = Map.empty,
            ax_policy_version = DEFAULT_POLICY_VERSION, ax_policy_timestamp = None, ax_device_chains = Map.empty,
            ax_barrier_groups = Map.empty, ax_fs_caps = fs_caps_default, ax_srx_root_sw = Some empty_root,
            ax_srx_empty_root_sw = empty_root, ax_srx_migration_root_sw = None, ax_fs_base_ts = None,
            ax_fs_policy_version = None, ax_allowed_fs_policy_version = None, ax_fs_period = 0,
            ax_checkpoint_interval = 0, ax_checkpoint_head_threshold = 0, ax_clock = clock_new\<rparr>
      in (case apply_fs_policy_config (ao_fs_policy_config opts) ctx of
            (Inl _, ctx) \<Rightarrow> ctx\<lparr>ax_fs_caps := fs_caps_default, ax_fs_period := 0, ax_checkpoint_interval := 0,
              ax_checkpoint_head_threshold := 0\<rparr>
          | (Inr _, ctx) \<Rightarrow> ctx))"

definition ctx_new :: "Ext \<Rightarrow> nat \<Rightarrow> Duration \<Rightarrow> AcceptanceContext" where
  "ctx_new E hm d = ctx_with_options E hm d acceptance_options_default"

definition ctx_with_defaults :: "Ext \<Rightarrow> AcceptanceContext" where
  "ctx_with_defaults E = ctx_with_options E DEFAULT_H_MAX DEFAULT_T_WINDOW acceptance_options_default"

section \<open>Accessors and setters\<close>

definition barrier_group_state :: "AcceptanceContext \<Rightarrow> bytes \<Rightarrow> BarrierGroupState option" where
  "barrier_group_state ctx gid = ax_barrier_groups ctx gid"

text \<open>\<open>entry(gid).or_default()\<close>, then a mutation of the entry.\<close>
definition barrier_group_state_entry_mut ::
  "bytes \<Rightarrow> (BarrierGroupState \<Rightarrow> BarrierGroupState) \<Rightarrow> AcceptanceContext \<Rightarrow> AcceptanceContext" where
  "barrier_group_state_entry_mut gid f ctx =
     (let st = (case ax_barrier_groups ctx gid of None \<Rightarrow> barrier_group_default | Some st \<Rightarrow> st)
      in ctx\<lparr>ax_barrier_groups := (ax_barrier_groups ctx)(gid \<mapsto> f st)\<rparr>)"

definition insert_barrier_group_state :: "bytes \<Rightarrow> BarrierGroupState \<Rightarrow> AcceptanceContext \<Rightarrow> AcceptanceContext" where
  "insert_barrier_group_state gid st ctx = ctx\<lparr>ax_barrier_groups := (ax_barrier_groups ctx)(gid \<mapsto> st)\<rparr>"

definition device_chain_get :: "AcceptanceContext \<Rightarrow> bytes \<Rightarrow> bytes \<Rightarrow> DeviceChainState option" where
  "device_chain_get ctx gid device_pk = Option.bind (ax_device_chains ctx gid) (\<lambda>per_gid. per_gid device_pk)"

definition device_chain_entry_mut ::
  "bytes \<Rightarrow> bytes \<Rightarrow> (DeviceChainState \<Rightarrow> DeviceChainState) \<Rightarrow> AcceptanceContext \<Rightarrow> AcceptanceContext" where
  "device_chain_entry_mut gid device_pk f ctx =
     (let per_gid = (case ax_device_chains ctx gid of None \<Rightarrow> Map.empty | Some m \<Rightarrow> m);
          st = (case per_gid device_pk of None \<Rightarrow> device_chain_default | Some st \<Rightarrow> st)
      in ctx\<lparr>ax_device_chains := (ax_device_chains ctx)(gid \<mapsto> per_gid(device_pk \<mapsto> f st))\<rparr>)"

definition insert_device_chain_state :: "bytes \<Rightarrow> bytes \<Rightarrow> DeviceChainState \<Rightarrow> AcceptanceContext \<Rightarrow> AcceptanceContext" where
  "insert_device_chain_state gid device_pk st ctx =
     (let per_gid = (case ax_device_chains ctx gid of None \<Rightarrow> Map.empty | Some m \<Rightarrow> m)
      in ctx\<lparr>ax_device_chains := (ax_device_chains ctx)(gid \<mapsto> per_gid(device_pk \<mapsto> st))\<rparr>)"

definition clear_device_chains :: "AcceptanceContext \<Rightarrow> AcceptanceContext" where
  "clear_device_chains ctx = ctx\<lparr>ax_device_chains := Map.empty\<rparr>"

definition clear_device_chains_for_gid :: "bytes \<Rightarrow> AcceptanceContext \<Rightarrow> AcceptanceContext" where
  "clear_device_chains_for_gid gid ctx = ctx\<lparr>ax_device_chains := (ax_device_chains ctx)(gid := None)\<rparr>"

definition clear_pivot_parities_for_gid :: "bytes \<Rightarrow> AcceptanceContext \<Rightarrow> AcceptanceContext" where
  "clear_pivot_parities_for_gid gid ctx = ctx\<lparr>ax_pivot_store := pivot_clear_gid (ax_pivot_store ctx) gid\<rparr>"

definition set_last_checkpoint_ec :: "bytes \<Rightarrow> u64 \<Rightarrow> AcceptanceContext \<Rightarrow> AcceptanceContext" where
  "set_last_checkpoint_ec gid ec =
     barrier_group_state_entry_mut gid (\<lambda>st. st\<lparr>bg_last_checkpoint_ec := ec,
       bg_last_accepted_ec := (if bg_last_accepted_ec st < ec then ec else bg_last_accepted_ec st)\<rparr>)"

definition last_checkpoint_ec :: "AcceptanceContext \<Rightarrow> bytes \<Rightarrow> u64" where
  "last_checkpoint_ec ctx gid =
     (case barrier_group_state ctx gid of None \<Rightarrow> 0 | Some st \<Rightarrow> bg_last_checkpoint_ec st)"

definition last_accepted_ec :: "AcceptanceContext \<Rightarrow> bytes \<Rightarrow> u64" where
  "last_accepted_ec ctx gid =
     (case barrier_group_state ctx gid of None \<Rightarrow> 0 | Some st \<Rightarrow> bg_last_accepted_ec st)"

definition set_last_accepted_ec :: "bytes \<Rightarrow> u64 \<Rightarrow> AcceptanceContext \<Rightarrow> AcceptanceContext" where
  "set_last_accepted_ec gid ec = barrier_group_state_entry_mut gid (\<lambda>st. st\<lparr>bg_last_accepted_ec := ec\<rparr>)"

definition record_accepted_ec :: "bytes \<Rightarrow> u64 \<Rightarrow> AcceptanceContext \<Rightarrow> AcceptanceContext" where
  "record_accepted_ec gid ec = barrier_group_state_entry_mut gid (\<lambda>st.
     if bg_last_accepted_ec st < ec then st\<lparr>bg_last_accepted_ec := ec\<rparr> else st)"

definition group_srx_root_sw :: "AcceptanceContext \<Rightarrow> bytes \<Rightarrow> hash32 option" where
  "group_srx_root_sw ctx gid =
     (case Option.bind (barrier_group_state ctx gid) bg_srx_root_sw of
        Some r \<Rightarrow> Some r | None \<Rightarrow> Some (ax_srx_empty_root_sw ctx))"

definition set_group_srx_root_sw :: "bytes \<Rightarrow> hash32 option \<Rightarrow> AcceptanceContext \<Rightarrow> AcceptanceContext" where
  "set_group_srx_root_sw gid root = barrier_group_state_entry_mut gid (\<lambda>st. st\<lparr>bg_srx_root_sw := root\<rparr>)"

definition ensure_group_srx_root_sw :: "bytes \<Rightarrow> hash32 acc" where
  "ensure_group_srx_root_sw gid ctx =
     (let fallback = (case ax_srx_migration_root_sw ctx of Some r \<Rightarrow> r | None \<Rightarrow> ax_srx_empty_root_sw ctx);
          ctx = barrier_group_state_entry_mut gid (\<lambda>st. st) ctx
      in (case Option.bind (barrier_group_state ctx gid) bg_srx_root_sw of
            Some root \<Rightarrow> (Inr root, ctx)
          | None \<Rightarrow> (Inr fallback, set_group_srx_root_sw gid (Some fallback) ctx)))"

definition ensure_srx_root_sw :: "hash32 acc" where
  "ensure_srx_root_sw ctx =
     (case ax_srx_root_sw ctx of
        Some root \<Rightarrow> (Inr root, ctx)
      | None \<Rightarrow> (case ax_srx_migration_root_sw ctx of
          Some root \<Rightarrow> (Inr root, ctx\<lparr>ax_srx_root_sw := Some root\<rparr>)
        | None \<Rightarrow> (Inl (Freeze FREEZE_SUITE_FORBIDDEN), ctx)))"

definition set_srx_empty_root_sw :: "hash32 \<Rightarrow> AcceptanceContext \<Rightarrow> AcceptanceContext" where
  "set_srx_empty_root_sw root ctx =
     (let previous = ax_srx_empty_root_sw ctx; ctx' = ctx\<lparr>ax_srx_empty_root_sw := root\<rparr>
      in if ax_srx_root_sw ctx' = Some previous then ctx'\<lparr>ax_srx_root_sw := Some root\<rparr> else ctx')"

text \<open>Clock, window limits and caches.\<close>

definition current_time :: "AcceptanceContext \<Rightarrow> AcceptInstant" where
  "current_time ctx = clock_now (ax_clock ctx)"

definition next_accept_instant :: "AcceptInstant acc" where
  "next_accept_instant ctx = (let (now, clock) = clock_tick (ax_clock ctx) in (Inr now, ctx\<lparr>ax_clock := clock\<rparr>))"

definition invalidate_policy_caches :: "AcceptanceContext \<Rightarrow> AcceptanceContext" where
  "invalidate_policy_caches ctx =
     ctx\<lparr>ax_vck_cache := vck_cache_new (ttl (ax_mh_window ctx)),
         ax_pivot_store := pivot_set_ttl (ax_pivot_store ctx) (ttl (ax_mh_window ctx)) (current_time ctx)\<rparr>"

definition ctx_set_h_max :: "nat \<Rightarrow> AcceptanceContext \<Rightarrow> AcceptanceContext" where
  "ctx_set_h_max h ctx =
     (if h_max (ax_mh_window ctx) \<noteq> h
      then invalidate_policy_caches (ctx\<lparr>ax_mh_window := set_h_max (ax_mh_window ctx) h\<rparr>) else ctx)"

definition update_window_limits :: "nat option \<Rightarrow> Duration option \<Rightarrow> AcceptanceContext \<Rightarrow> AcceptanceContext" where
  "update_window_limits h d ctx =
     (let ctx = (case h of None \<Rightarrow> ctx | Some h \<Rightarrow> ctx\<lparr>ax_mh_window := set_h_max (ax_mh_window ctx) h\<rparr>)
      in (case d of
            None \<Rightarrow> ctx
          | Some d \<Rightarrow> (let now = current_time ctx in
              ctx\<lparr>ax_mh_window := set_ttl (ax_mh_window ctx) d now, ax_rho_guard := rho_set_ttl (ax_rho_guard ctx) d now,
                ax_vck_cache := vck_set_ttl (ax_vck_cache ctx) d now,
                ax_pivot_store := pivot_set_ttl (ax_pivot_store ctx) d now\<rparr>)))"

definition set_rho_guard_capacity :: "nat \<Rightarrow> AcceptanceContext \<Rightarrow> AcceptanceContext" where
  "set_rho_guard_capacity capacity ctx =
     ctx\<lparr>ax_rho_guard := rho_guard_new (max capacity 1) (ttl (ax_mh_window ctx))\<rparr>"

definition clear_rho_guard_for :: "bytes \<Rightarrow> bytes \<Rightarrow> AcceptanceContext \<Rightarrow> AcceptanceContext" where
  "clear_rho_guard_for gid parent_root ctx = ctx\<lparr>ax_rho_guard := rho_clear_for (ax_rho_guard ctx) gid parent_root\<rparr>"

definition pivot_parities_for :: "bytes \<Rightarrow> hash32 \<Rightarrow> AcceptanceContext \<Rightarrow> PivotParity list \<times> AcceptanceContext" where
  "pivot_parities_for gid parent_root ctx =
     (let (ps, store) = pivot_list (ax_pivot_store ctx) gid parent_root (current_time ctx)
      in (ps, ctx\<lparr>ax_pivot_store := store\<rparr>))"

definition insert_pivot_parity :: "PivotParity \<Rightarrow> AcceptInstant \<Rightarrow> AcceptanceContext \<Rightarrow> AcceptanceContext" where
  "insert_pivot_parity parity now ctx = ctx\<lparr>ax_pivot_store := pivot_insert (ax_pivot_store ctx) parity now\<rparr>"

definition take_pending_capss_witness :: "cbor option acc" where
  "take_pending_capss_witness ctx = (Inr (ax_pending_capss_witness ctx), ctx\<lparr>ax_pending_capss_witness := None\<rparr>)"

text \<open>Setters of the policy; those that change what a cached verification relied on drop the caches.\<close>

definition set_kbroad_registry :: "(bytes \<rightharpoonup> bytes) option \<Rightarrow> AcceptanceContext \<Rightarrow> AcceptanceContext" where
  "set_kbroad_registry v ctx = ctx\<lparr>ax_kbroad_registry := v\<rparr>"

definition set_fs_caps :: "FsCaps \<Rightarrow> AcceptanceContext \<Rightarrow> AcceptanceContext" where
  "set_fs_caps v ctx = ctx\<lparr>ax_fs_caps := v\<rparr>"

definition set_fs_base_ts :: "u64 option \<Rightarrow> AcceptanceContext \<Rightarrow> AcceptanceContext" where
  "set_fs_base_ts v ctx = ctx\<lparr>ax_fs_base_ts := v\<rparr>"

definition set_srx_root_sw :: "hash32 option \<Rightarrow> AcceptanceContext \<Rightarrow> AcceptanceContext" where
  "set_srx_root_sw v ctx = ctx\<lparr>ax_srx_root_sw := v\<rparr>"

definition set_srx_migration_root_sw :: "hash32 option \<Rightarrow> AcceptanceContext \<Rightarrow> AcceptanceContext" where
  "set_srx_migration_root_sw v ctx = ctx\<lparr>ax_srx_migration_root_sw := v\<rparr>"

definition set_fs_policy_version :: "string option \<Rightarrow> AcceptanceContext \<Rightarrow> AcceptanceContext" where
  "set_fs_policy_version v ctx = ctx\<lparr>ax_fs_policy_version := v\<rparr>"

definition set_allowed_fs_policy_version :: "string option \<Rightarrow> AcceptanceContext \<Rightarrow> AcceptanceContext" where
  "set_allowed_fs_policy_version v ctx = ctx\<lparr>ax_allowed_fs_policy_version := v\<rparr>"

definition set_pending_capss_witness :: "cbor option \<Rightarrow> AcceptanceContext \<Rightarrow> AcceptanceContext" where
  "set_pending_capss_witness v ctx = ctx\<lparr>ax_pending_capss_witness := v\<rparr>"

definition set_srx_required :: "bool \<Rightarrow> AcceptanceContext \<Rightarrow> AcceptanceContext" where
  "set_srx_required v ctx = ctx\<lparr>ax_srx_required := v\<rparr>"

definition set_allowed_crs_ids :: "string set option \<Rightarrow> AcceptanceContext \<Rightarrow> AcceptanceContext" where
  "set_allowed_crs_ids v ctx = ctx\<lparr>ax_allowed_crs_ids := v\<rparr>"

definition set_allowed_params_ids :: "bytes set option \<Rightarrow> AcceptanceContext \<Rightarrow> AcceptanceContext" where
  "set_allowed_params_ids v ctx = ctx\<lparr>ax_allowed_params_ids := v\<rparr>"

definition set_deprecated_crs_ids :: "string set \<Rightarrow> AcceptanceContext \<Rightarrow> AcceptanceContext" where
  "set_deprecated_crs_ids v ctx = ctx\<lparr>ax_deprecated_crs_ids := v\<rparr>"

definition set_deprecated_params_ids :: "bytes set \<Rightarrow> AcceptanceContext \<Rightarrow> AcceptanceContext" where
  "set_deprecated_params_ids v ctx = ctx\<lparr>ax_deprecated_params_ids := v\<rparr>"

definition set_bootstrap_policy :: "BootstrapPolicy \<Rightarrow> AcceptanceContext \<Rightarrow> AcceptanceContext" where
  "set_bootstrap_policy v ctx = invalidate_policy_caches (ctx\<lparr>ax_bootstrap_policy := v\<rparr>)"

definition set_allowed_vrf_ids :: "string set option \<Rightarrow> AcceptanceContext \<Rightarrow> AcceptanceContext" where
  "set_allowed_vrf_ids v ctx = invalidate_policy_caches (ctx\<lparr>ax_allowed_vrf_ids := v\<rparr>)"

definition set_deprecated_vrf_ids :: "string set \<Rightarrow> AcceptanceContext \<Rightarrow> AcceptanceContext" where
  "set_deprecated_vrf_ids v ctx = invalidate_policy_caches (ctx\<lparr>ax_deprecated_vrf_ids := v\<rparr>)"

definition set_allowed_proof_modes :: "string set option \<Rightarrow> AcceptanceContext \<Rightarrow> AcceptanceContext" where
  "set_allowed_proof_modes v ctx = invalidate_policy_caches (ctx\<lparr>ax_allowed_proof_modes := v\<rparr>)"

definition set_deprecated_proof_modes :: "string set \<Rightarrow> AcceptanceContext \<Rightarrow> AcceptanceContext" where
  "set_deprecated_proof_modes v ctx = invalidate_policy_caches (ctx\<lparr>ax_deprecated_proof_modes := v\<rparr>)"

definition set_allowed_srx_modes :: "string set option \<Rightarrow> AcceptanceContext \<Rightarrow> AcceptanceContext" where
  "set_allowed_srx_modes v ctx = invalidate_policy_caches (ctx\<lparr>ax_allowed_srx_modes := v\<rparr>)"

definition set_deprecated_srx_modes :: "string set \<Rightarrow> AcceptanceContext \<Rightarrow> AcceptanceContext" where
  "set_deprecated_srx_modes v ctx = invalidate_policy_caches (ctx\<lparr>ax_deprecated_srx_modes := v\<rparr>)"

definition set_leaf_id_mode :: "LeafIdMode \<Rightarrow> AcceptanceContext \<Rightarrow> AcceptanceContext" where
  "set_leaf_id_mode v ctx = invalidate_policy_caches (ctx\<lparr>ax_leaf_id_mode := v\<rparr>)"

definition set_srx_max_bytes :: "nat \<Rightarrow> AcceptanceContext \<Rightarrow> AcceptanceContext" where
  "set_srx_max_bytes n ctx = ctx\<lparr>ax_srx_max_bytes := max n MIN_SRX_MAX_BYTES\<rparr>"

definition set_policy_state :: "string \<Rightarrow> int option \<Rightarrow> AcceptanceContext \<Rightarrow> AcceptanceContext" where
  "set_policy_state version timestamp ctx = ctx\<lparr>ax_policy_version := version, ax_policy_timestamp := timestamp\<rparr>"

text \<open>Telemetry; the log events are not modelled.\<close>

definition telemetry_entry_mut :: "TelemetryKey \<Rightarrow> (TelemetryCounters \<Rightarrow> TelemetryCounters) \<Rightarrow> AcceptanceContext \<Rightarrow> AcceptanceContext" where
  "telemetry_entry_mut key f ctx =
     (let c = (case ax_telemetry ctx key of None \<Rightarrow> telemetry_default | Some c \<Rightarrow> c)
      in ctx\<lparr>ax_telemetry := (ax_telemetry ctx)(key \<mapsto> f c)\<rparr>)"

definition telemetry_record_attempt :: "bytes \<Rightarrow> bytes \<Rightarrow> TelemetryKey acc" where
  "telemetry_record_attempt gid parent_root ctx =
     (let key = telemetry_key gid parent_root in (Inr key, telemetry_entry_mut key record_attempt ctx))"

definition telemetry_record_success :: "TelemetryKey \<Rightarrow> nat \<Rightarrow> AcceptanceContext \<Rightarrow> AcceptanceContext" where
  "telemetry_record_success key active = telemetry_entry_mut key (record_success active)"

definition telemetry_record_rho_freeze :: "TelemetryKey \<Rightarrow> AcceptanceContext \<Rightarrow> AcceptanceContext" where
  "telemetry_record_rho_freeze key = telemetry_entry_mut key record_rho_freeze"

definition telemetry_record_window_full :: "TelemetryKey \<Rightarrow> AcceptanceContext \<Rightarrow> AcceptanceContext" where
  "telemetry_record_window_full key = telemetry_entry_mut key record_window_full"

definition merge_telemetry_from :: "AcceptanceContext \<Rightarrow> AcceptanceContext \<Rightarrow> AcceptanceContext" where
  "merge_telemetry_from other ctx = ctx\<lparr>ax_telemetry := ax_telemetry ctx ++ ax_telemetry other\<rparr>"

section \<open>Suite checks\<close>

definition ensure_crs_id :: "AcceptanceContext \<Rightarrow> header \<Rightarrow> AcceptanceError + unit" where
  "ensure_crs_id ctx h =
     tryE (header_text h HDR_CRS_ID FREEZE_MSPHF_CRS_INVALID) (\<lambda>crs_id.
     tryE (freeze_if (crs_id = []) FREEZE_MSPHF_CRS_INVALID) (\<lambda>_.
     tryE (freeze_if (case ax_allowed_crs_ids ctx of None \<Rightarrow> False | Some a \<Rightarrow> crs_id \<notin> a) FREEZE_MSPHF_CRS_INVALID) (\<lambda>_.
     freeze_if (crs_id \<in> ax_deprecated_crs_ids ctx) FREEZE_SUITE_DEPRECATED)))"

definition ensure_params_id :: "AcceptanceContext \<Rightarrow> header \<Rightarrow> AcceptanceError + unit" where
  "ensure_params_id ctx h =
     (let bad = Freeze FREEZE_PARAMS_ID_INVALID in
      tryE (case bt_get h HDR_PARAMS_ID of
              Some (CBytes b) \<Rightarrow> if length b \<noteq> 32 then Inl bad else Inr b
            | Some (CText t) \<Rightarrow> if t = [] then Inl bad else Inr (as_bytes t)
            | _ \<Rightarrow> Inl bad) (\<lambda>canonical.
      tryE (ensure (\<not> (case ax_allowed_params_ids ctx of None \<Rightarrow> False | Some a \<Rightarrow> canonical \<notin> a)) bad) (\<lambda>_.
      freeze_if (canonical \<in> ax_deprecated_params_ids ctx) FREEZE_SUITE_DEPRECATED)))"

definition ensure_kbroad_pub :: "AcceptanceContext \<Rightarrow> bytes \<Rightarrow> header \<Rightarrow> AcceptanceError + unit" where
  "ensure_kbroad_pub ctx gid h =
     (case bt_get h HDR_KBROAD_PUB of
        None \<Rightarrow> Inl (Freeze FREEZE_FIELD_MISSING)
      | Some (CBytes b) \<Rightarrow>
          tryE (freeze_if (length b \<noteq> ml_kem_public_key_bytes) FREEZE_KBROAD_PARENT_MISMATCH) (\<lambda>_.
          case ax_kbroad_registry ctx of
            None \<Rightarrow> Inr ()
          | Some registry \<Rightarrow> freeze_unless (registry gid = Some b) FREEZE_KBROAD_PARENT_MISMATCH)
      | Some _ \<Rightarrow> Inl (Freeze FREEZE_KBROAD_PARENT_MISMATCH))"

definition ensure_fs_policy_version_allowed :: "AcceptanceContext \<Rightarrow> string \<Rightarrow> AcceptanceError + unit" where
  "ensure_fs_policy_version_allowed ctx version =
     freeze_if (case ax_allowed_fs_policy_version ctx of None \<Rightarrow> False | Some expected \<Rightarrow> expected \<noteq> version)
       FREEZE_FS_POLICY_VERSION_UNSUPPORTED"

section \<open>Device chains\<close>

record DeviceChainVerification =
  dv_pop_pk :: bytes
  dv_fs_ec :: u64
  dv_fs_dev_prev_commit :: hash32
  dv_fs_dev_commit :: hash32
  dv_barrier_version :: u64
  dv_barrier_update_digest :: hash32

definition verify_device_chain_state ::
  "Ext \<Rightarrow> AcceptanceContext \<Rightarrow> bytes \<Rightarrow> DeviceChainState option \<Rightarrow> DeviceChainVerification \<Rightarrow> AcceptanceError + unit" where
  "verify_device_chain_state E ctx gid existing v =
     (let group_cap = saturating_add (last_accepted_ec ctx gid) (fc_anchor_max (ax_fs_caps ctx)) in
      tryE (freeze_if (group_cap < dv_fs_ec v) FREEZE_FS_FORWARD_JUMP_GROUP) (\<lambda>_.
      tryE (case existing of
              Some st \<Rightarrow>
                tryE (freeze_if (dv_fs_ec v < dc_last_ec st) FREEZE_FS_DEV_CHAIN_BREAK) (\<lambda>_.
                tryE (freeze_if (saturating_add (dc_last_ec st) (fc_device_max (ax_fs_caps ctx)) < dv_fs_ec v)
                  FREEZE_FS_FORWARD_JUMP_DEVICE) (\<lambda>_.
                Inr (case dc_last_commit st of None \<Rightarrow> zero_hash | Some c \<Rightarrow> c)))
            | None \<Rightarrow>
                tryE (freeze_if (list_ex (\<lambda>b. b \<noteq> 0) (dv_fs_dev_prev_commit v)) FREEZE_FS_DEV_CHAIN_BREAK) (\<lambda>_.
                tryE (freeze_if (saturating_add (last_accepted_ec ctx gid) (fc_first_device (ax_fs_caps ctx)) < dv_fs_ec v)
                  FREEZE_FS_FORWARD_JUMP_FIRST) (\<lambda>_.
                Inr zero_hash))) (\<lambda>expected_prev_commit.
      tryE (freeze_if (expected_prev_commit \<noteq> dv_fs_dev_prev_commit v) FREEZE_FS_DEV_CHAIN_BREAK) (\<lambda>_.
      tryE (map_err acc_err (compute_fs_dev_commit_v2 E (dv_pop_pk v) (dv_fs_ec v) (dv_fs_dev_prev_commit v)
        (dv_barrier_version v) (dv_barrier_update_digest v))) (\<lambda>expected_dev_commit.
      freeze_if (expected_dev_commit \<noteq> dv_fs_dev_commit v) FREEZE_FS_DEV_CHAIN_BIND_MISMATCH)))))"

section \<open>Barrier gate\<close>

record BarrierGateDecision =
  gd_barrier_version :: u64
  gd_fs_ec :: u64
  gd_revocation_roots_hash :: hash32
  gd_barrier_update_digest :: hash32
  gd_barrier_update_reason :: "u64 option"
  gd_parsed_barrier_update :: "ParsedBarrierUpdate option"

text \<open>The fields of the header the gate decides on.\<close>
definition read_barrier_gate ::
  "Verifiers \<Rightarrow> AcceptanceContext \<Rightarrow> bytes \<Rightarrow> header \<Rightarrow> AcceptanceError + BarrierGateDecision" where
  "read_barrier_gate V ctx gid h =
     tryE (header_u64_or_freeze h HDR_BARRIER_VERSION FREEZE_FS_JOIN_MISSING) (\<lambda>barrier_version.
     tryE (header_u64_or_freeze h HDR_FS_EC FREEZE_FS_JOIN_MISSING) (\<lambda>fs_ec.
     tryE (parse_barrier_update_reason h) (\<lambda>reason.
     tryE (compute_barrier_update_digest (ext V) h) (\<lambda>digest.
     tryE (compute_revocation_roots_hash (ext V) h) (\<lambda>roots_hash.
     tryE (freeze_if (reason \<noteq> None \<and> has_key h HDR_MERGE_DELEGATION_SIG) FREEZE_BARRIER_MERGE_DELEGATION_FORBIDDEN) (\<lambda>_.
     let snapshot = (case barrier_group_state ctx gid of None \<Rightarrow> barrier_group_default | Some st \<Rightarrow> st) in
     tryE (if reason \<noteq> None
           then tryE (parse_barrier_update_from_header (ext V) (wire V) h (bg_n_max snapshot)
             (bg_max_barrier_update_bytes snapshot)) (\<lambda>p. Inr (Some p))
           else Inr None) (\<lambda>parsed.
     Inr \<lparr>gd_barrier_version = barrier_version, gd_fs_ec = fs_ec, gd_revocation_roots_hash = roots_hash,
       gd_barrier_update_digest = digest, gd_barrier_update_reason = reason, gd_parsed_barrier_update = parsed\<rparr>)))))))"

text \<open>A merge that carries a well-formed update from \<open>prev\<close> to \<open>next\<close> under the header's revocation roots.\<close>
definition update_steps :: "BarrierGateDecision \<Rightarrow> AnchorType \<Rightarrow> u64 \<Rightarrow> u64 \<Rightarrow> ParsedBarrierUpdate \<Rightarrow> bool" where
  "update_steps d t prev next p \<longleftrightarrow>
     t = MergeAnchor \<and> gd_barrier_version d = next \<and> pb_barrier_version p = gd_barrier_version d \<and>
     pb_prev_barrier_version p = prev \<and> pb_revocation_roots_hash p = gd_revocation_roots_hash d"

text \<open>The rate limits of a refresh with reason 1: since the group's last refresh, in the group's slot grid, and since
  the last refresh of the device in the header.\<close>
definition check_pcs_rate :: "AcceptanceContext \<Rightarrow> bytes \<Rightarrow> header \<Rightarrow> BarrierGroupState \<Rightarrow> u64 \<Rightarrow> AcceptanceError + unit" where
  "check_pcs_rate ctx gid h st fs_ec =
     tryE (case bg_last_pcs_refresh_ec st of
             None \<Rightarrow> Inr ()
           | Some last_refresh \<Rightarrow>
               tryE (freeze_if (fs_ec < saturating_add last_refresh (max (bg_pcs_refresh_min_delta_group_ec st) 1))
                 FREEZE_BARRIER_PCS_REFRESH_RATE_LIMITED) (\<lambda>_.
               let slot_width = max (bg_pcs_refresh_slot_width_ec st) 1 in
               freeze_if (fs_ec div slot_width = last_refresh div slot_width) FREEZE_BARRIER_PCS_REFRESH_RATE_LIMITED)) (\<lambda>_.
     case Option.bind (Option.bind (Option.bind (bt_get h HDR_POP_PK) value_as_bytes) (device_chain_get ctx gid))
         dc_last_pcs_refresh_ec of
       None \<Rightarrow> Inr ()
     | Some last_refresh \<Rightarrow>
         freeze_if (fs_ec < saturating_add last_refresh (max (bg_pcs_refresh_min_delta_device_ec st) 1))
           FREEZE_BARRIER_PCS_REFRESH_RATE_LIMITED)"

definition gate_uninitialized :: "BarrierGateDecision \<Rightarrow> AnchorType \<Rightarrow> AcceptanceError + BarrierGateDecision" where
  "gate_uninitialized d t =
     (if gd_barrier_update_reason d \<noteq> None then
        (case gd_parsed_barrier_update d of
           None \<Rightarrow> Inl (Freeze FREEZE_BARRIER_UPDATE_MALFORMED)
         | Some p \<Rightarrow>
             if gd_barrier_update_reason d = Some 0 \<and> update_steps d t 0 0 p then Inr d
             else Inl (Freeze FREEZE_BARRIER_GENESIS_REQUIRED))
      else Inl (Freeze FREEZE_BARRIER_GENESIS_REQUIRED))"

definition gate_revocation :: "BarrierGateDecision \<Rightarrow> AnchorType \<Rightarrow> u64 \<Rightarrow> AcceptanceError + BarrierGateDecision" where
  "gate_revocation d t current_bv =
     (if gd_barrier_update_reason d \<in> {Some 1, Some 2}
      then Inl (Freeze FREEZE_BARRIER_NON_REVOCATION_REASON_FORBIDDEN_WHILE_PENDING_REVOCATIONS)
      else (case gd_parsed_barrier_update d of
        None \<Rightarrow> Inl (Freeze FREEZE_BARRIER_UPDATE_REQUIRED_ON_REVOCATION_CHANGE)
      | Some p \<Rightarrow>
          if gd_barrier_update_reason d = Some 0 \<and> update_steps d t current_bv (saturating_add current_bv 1) p then Inr d
          else Inl (Freeze FREEZE_BARRIER_UPDATE_REQUIRED_ON_REVOCATION_CHANGE)))"

definition gate_proactive ::
  "AcceptanceContext \<Rightarrow> bytes \<Rightarrow> header \<Rightarrow> BarrierGroupState \<Rightarrow> BarrierGateDecision \<Rightarrow> AnchorType \<Rightarrow> AcceptanceError + BarrierGateDecision" where
  "gate_proactive ctx gid h st d t =
     (if gd_barrier_update_reason d \<noteq> None then
        (case gd_parsed_barrier_update d of
           None \<Rightarrow> Inl (Freeze FREEZE_BARRIER_UPDATE_MALFORMED)
         | Some p \<Rightarrow>
             tryE (freeze_unless (gd_barrier_update_reason d \<in> {Some 1, Some 2} \<and>
               update_steps d t (bg_barrier_version st) (saturating_add (bg_barrier_version st) 1) p)
               FREEZE_BARRIER_PROACTIVE_FORBIDDEN) (\<lambda>_.
             tryE (if gd_barrier_update_reason d = Some 1 then check_pcs_rate ctx gid h st (gd_fs_ec d) else Inr ()) (\<lambda>_.
             Inr d)))
      else if gd_barrier_version d \<noteq> bg_barrier_version st then Inl (Freeze FREEZE_BARRIER_PROACTIVE_FORBIDDEN)
      else Inr d)"

definition enforce_barrier_acceptance_gating ::
  "Verifiers \<Rightarrow> AcceptanceContext \<Rightarrow> bytes \<Rightarrow> header \<Rightarrow> AnchorType \<Rightarrow> AcceptanceError + BarrierGateDecision" where
  "enforce_barrier_acceptance_gating V ctx gid h t =
     tryE (read_barrier_gate V ctx gid h) (\<lambda>d.
     case barrier_group_state ctx gid of
       None \<Rightarrow> Inr d
     | Some st \<Rightarrow>
         tryE (freeze_if (bg_last_pcs_refresh_ec st = Some (gd_fs_ec d)) FREEZE_FS_DEV_CHAIN_BREAK) (\<lambda>_.
         tryE (freeze_if (bg_barrier_initialized st \<and> gd_barrier_update_reason d \<noteq> None \<and>
           gd_parsed_barrier_update d = None) FREEZE_BARRIER_UPDATE_MALFORMED) (\<lambda>_.
         if \<not> bg_barrier_initialized st then gate_uninitialized d t
         else if gd_revocation_roots_hash d \<noteq> bg_barrier_roots_hash st then gate_revocation d t (bg_barrier_version st)
         else gate_proactive ctx gid h st d t)))"

definition apply_barrier_acceptance_commit :: "bytes \<Rightarrow> header \<Rightarrow> BarrierGateDecision \<Rightarrow> AcceptanceContext \<Rightarrow> AcceptanceContext" where
  "apply_barrier_acceptance_commit gid h gate ctx =
     (if gd_barrier_update_reason gate = None then ctx
      else
        let ctx = barrier_group_state_entry_mut gid (\<lambda>st.
              let st = st\<lparr>bg_barrier_initialized := True, bg_barrier_version := gd_barrier_version gate,
                     bg_barrier_roots_hash := gd_revocation_roots_hash gate\<rparr>;
                  st = (case gd_parsed_barrier_update gate of
                          None \<Rightarrow> st
                        | Some p \<Rightarrow> st\<lparr>bg_kem_tree_hash_after := pb_kem_tree_hash_after p, bg_n_max := pb_tree_size p\<rparr>)
              in if gd_barrier_update_reason gate = Some 1 then st\<lparr>bg_last_pcs_refresh_ec := Some (gd_fs_ec gate)\<rparr> else st) ctx
        in (case Option.bind (bt_get h HDR_POP_PK) value_as_bytes of
              Some device_pk \<Rightarrow>
                if gd_barrier_update_reason gate = Some 1
                then device_chain_entry_mut gid device_pk (\<lambda>d. d\<lparr>dc_last_pcs_refresh_ec := Some (gd_fs_ec gate)\<rparr>) ctx
                else ctx
            | None \<Rightarrow> ctx))"

section \<open>Frame lemmas\<close>

lemma barrier_group_state_entry [simp]:
  "barrier_group_state (barrier_group_state_entry_mut gid f ctx) gid' =
     (if gid' = gid then Some (f (case barrier_group_state ctx gid of None \<Rightarrow> barrier_group_default | Some st \<Rightarrow> st))
      else barrier_group_state ctx gid')"
  by (simp add: barrier_group_state_def barrier_group_state_entry_mut_def Let_def)

lemma device_chain_get_entry [simp]:
  "device_chain_get (device_chain_entry_mut gid pk f ctx) gid' pk' =
     (if gid' = gid \<and> pk' = pk then Some (f (case device_chain_get ctx gid pk of None \<Rightarrow> device_chain_default | Some d \<Rightarrow> d))
      else device_chain_get ctx gid' pk')"
  by (auto simp: device_chain_get_def device_chain_entry_mut_def Let_def split: option.split)

lemma barrier_entry_device [simp]:
  "device_chain_get (barrier_group_state_entry_mut gid f ctx) gid' pk = device_chain_get ctx gid' pk"
  "barrier_group_state (device_chain_entry_mut gid pk g ctx) gid' = barrier_group_state ctx gid'"
  by (simp_all add: device_chain_get_def device_chain_entry_mut_def barrier_group_state_def
    barrier_group_state_entry_mut_def Let_def)

named_theorems ctx_simps \<open>fields of the context after an operation\<close>

lemma telemetry_fields [ctx_simps]:
  "device_chain_get (telemetry_entry_mut key f ctx) gid pk = device_chain_get ctx gid pk"
  "barrier_group_state (telemetry_entry_mut key f ctx) gid = barrier_group_state ctx gid"
  "ax_mh_window (telemetry_entry_mut key f ctx) = ax_mh_window ctx"
  "ax_pivot_store (telemetry_entry_mut key f ctx) = ax_pivot_store ctx"
  "ax_rho_guard (telemetry_entry_mut key f ctx) = ax_rho_guard ctx"
  "ax_fs_caps (telemetry_entry_mut key f ctx) = ax_fs_caps ctx"
  by (simp_all add: telemetry_entry_mut_def device_chain_get_def barrier_group_state_def Let_def)

lemma window_fields [ctx_simps]:
  "device_chain_get (ctx\<lparr>ax_mh_window := w\<rparr>) gid pk = device_chain_get ctx gid pk"
  "barrier_group_state (ctx\<lparr>ax_mh_window := w\<rparr>) gid = barrier_group_state ctx gid"
  by (simp_all add: device_chain_get_def barrier_group_state_def)

lemma pivot_fields [ctx_simps]:
  "device_chain_get (insert_pivot_parity q now ctx) gid pk = device_chain_get ctx gid pk"
  "barrier_group_state (insert_pivot_parity q now ctx) gid = barrier_group_state ctx gid"
  "ax_mh_window (insert_pivot_parity q now ctx) = ax_mh_window ctx"
  "ax_pivot_store (insert_pivot_parity q now ctx) = pivot_insert (ax_pivot_store ctx) q now"
  "ax_rho_guard (insert_pivot_parity q now ctx) = ax_rho_guard ctx"
  by (simp_all add: insert_pivot_parity_def device_chain_get_def barrier_group_state_def)

lemma entry_fields [ctx_simps]:
  "ax_mh_window (barrier_group_state_entry_mut gid g ctx) = ax_mh_window ctx"
  "ax_pivot_store (barrier_group_state_entry_mut gid g ctx) = ax_pivot_store ctx"
  "ax_rho_guard (barrier_group_state_entry_mut gid g ctx) = ax_rho_guard ctx"
  "ax_fs_caps (barrier_group_state_entry_mut gid g ctx) = ax_fs_caps ctx"
  "ax_mh_window (device_chain_entry_mut gid pk f ctx) = ax_mh_window ctx"
  "ax_pivot_store (device_chain_entry_mut gid pk f ctx) = ax_pivot_store ctx"
  "ax_rho_guard (device_chain_entry_mut gid pk f ctx) = ax_rho_guard ctx"
  "ax_fs_caps (device_chain_entry_mut gid pk f ctx) = ax_fs_caps ctx"
  by (simp_all add: barrier_group_state_entry_mut_def device_chain_entry_mut_def Let_def)

text \<open>What validation leaves alone: device chains, caps, clock, window, and of a group everything but the shadow root it may
  be given on first use.\<close>
definition group_or_default :: "AcceptanceContext \<Rightarrow> bytes \<Rightarrow> BarrierGroupState" where
  "group_or_default ctx gid = (case barrier_group_state ctx gid of None \<Rightarrow> barrier_group_default | Some st \<Rightarrow> st)"

definition core_frame :: "AcceptanceContext \<Rightarrow> AcceptanceContext \<Rightarrow> bool" where
  "core_frame s t \<longleftrightarrow>
     ax_device_chains t = ax_device_chains s \<and> ax_fs_caps t = ax_fs_caps s \<and> ax_mh_window t = ax_mh_window s \<and>
     ax_clock t = ax_clock s \<and>
     (\<forall>gid. (group_or_default t gid)\<lparr>bg_srx_root_sw := None\<rparr> = (group_or_default s gid)\<lparr>bg_srx_root_sw := None\<rparr> \<and>
        (barrier_group_state s gid \<noteq> None \<longrightarrow> barrier_group_state t gid \<noteq> None))"

interpretation core: state_relation core_frame
  by unfold_locales (auto simp: core_frame_def)

text \<open>The policy fields that validation reads and no anchor changes.\<close>
definition policy_frame :: "AcceptanceContext \<Rightarrow> AcceptanceContext \<Rightarrow> bool" where
  "policy_frame s t \<longleftrightarrow>
     ax_bootstrap_policy t = ax_bootstrap_policy s \<and> ax_leaf_id_mode t = ax_leaf_id_mode s \<and>
     ax_allowed_proof_modes t = ax_allowed_proof_modes s \<and> ax_deprecated_proof_modes t = ax_deprecated_proof_modes s \<and>
     ax_allowed_vrf_ids t = ax_allowed_vrf_ids s \<and> ax_deprecated_vrf_ids t = ax_deprecated_vrf_ids s"

interpretation policy: state_relation policy_frame
  by unfold_locales (auto simp: policy_frame_def)

lemma last_ec_default:
  "last_accepted_ec ctx gid = bg_last_accepted_ec (group_or_default ctx gid)"
  "last_checkpoint_ec ctx gid = bg_last_checkpoint_ec (group_or_default ctx gid)"
  by (simp_all add: last_accepted_ec_def last_checkpoint_ec_def group_or_default_def barrier_group_default_def
    split: option.split)

lemma group_srx_eq:
  assumes "(x :: BarrierGroupState)\<lparr>bg_srx_root_sw := None\<rparr> = y\<lparr>bg_srx_root_sw := None\<rparr>"
  shows "bg_last_accepted_ec x = bg_last_accepted_ec y" "bg_last_checkpoint_ec x = bg_last_checkpoint_ec y"
    "bg_barrier_initialized x = bg_barrier_initialized y" "bg_barrier_version x = bg_barrier_version y"
    "bg_barrier_roots_hash x = bg_barrier_roots_hash y" "bg_n_max x = bg_n_max y"
  by (metis assms BarrierGroupState.select_convs BarrierGroupState.surjective BarrierGroupState.update_convs(7))+

lemma core_frameD:
  assumes "core_frame s t"
  shows "device_chain_get t gid pk = device_chain_get s gid pk" "ax_fs_caps t = ax_fs_caps s"
    "last_accepted_ec t gid = last_accepted_ec s gid" "last_checkpoint_ec t gid = last_checkpoint_ec s gid"
    "ax_mh_window t = ax_mh_window s"
proof -
  show "device_chain_get t gid pk = device_chain_get s gid pk" "ax_fs_caps t = ax_fs_caps s"
      "ax_mh_window t = ax_mh_window s"
    using assms by (simp_all add: core_frame_def device_chain_get_def)
  have "(group_or_default t gid)\<lparr>bg_srx_root_sw := None\<rparr> = (group_or_default s gid)\<lparr>bg_srx_root_sw := None\<rparr>"
    using assms by (simp add: core_frame_def)
  from group_srx_eq [OF this] show "last_accepted_ec t gid = last_accepted_ec s gid"
      "last_checkpoint_ec t gid = last_checkpoint_ec s gid"
    by (simp_all add: last_ec_default)
qed

named_theorems frame_intro \<open>operations that keep the core of the context\<close>

lemma core_frame_fields:
  "core_frame s (ctx\<lparr>ax_rho_guard := g\<rparr>) \<longleftrightarrow> core_frame s ctx"
  "core_frame s (ctx\<lparr>ax_telemetry := m\<rparr>) \<longleftrightarrow> core_frame s ctx"
  "core_frame s (ctx\<lparr>ax_vck_cache := c\<rparr>) \<longleftrightarrow> core_frame s ctx"
  "core_frame s (ctx\<lparr>ax_pivot_store := st\<rparr>) \<longleftrightarrow> core_frame s ctx"
  "core_frame s (ctx\<lparr>ax_next_accept_seq := n\<rparr>) \<longleftrightarrow> core_frame s ctx"
  "core_frame s (ctx\<lparr>ax_pending_capss_witness := w\<rparr>) \<longleftrightarrow> core_frame s ctx"
  "core_frame s (ctx\<lparr>ax_fs_policy_version := v\<rparr>) \<longleftrightarrow> core_frame s ctx"
  "core_frame s (ctx\<lparr>ax_fs_base_ts := b\<rparr>) \<longleftrightarrow> core_frame s ctx"
  by (simp_all add: core_frame_def group_or_default_def barrier_group_state_def)

lemma core_frame_telemetry [simp]: "core_frame s (telemetry_entry_mut key f ctx) \<longleftrightarrow> core_frame s ctx"
  by (simp add: telemetry_entry_mut_def Let_def core_frame_fields)

lemma evolves_policy [frame_intro]:
  "evolves policy_frame (telemetry_record_attempt gid root)" "evolves policy_frame take_pending_capss_witness"
  by (rule evolvesI, auto simp: telemetry_record_attempt_def telemetry_entry_mut_def Let_def policy_frame_def
    take_pending_capss_witness_def)+

lemma evolves_telemetry [frame_intro]: "evolves core_frame (telemetry_record_attempt gid root)"
  by (rule evolvesI) (auto simp: telemetry_record_attempt_def Let_def core.refl)

lemma evolves_pending [frame_intro]: "evolves core_frame take_pending_capss_witness"
  by (rule evolvesI) (auto simp: take_pending_capss_witness_def core_frame_fields core.refl)

lemma evolves_group_root [frame_intro]: "evolves core_frame (ensure_group_srx_root_sw gid)"
  by (rule evolvesI) (auto simp: ensure_group_srx_root_sw_def Let_def core_frame_def group_or_default_def
    set_group_srx_root_sw_def barrier_group_state_entry_mut_def barrier_group_state_def split: option.splits if_splits)

section \<open>The barrier as a state machine\<close>

text \<open>What the group knows of its barrier: nothing before the genesis merge, then the version and the hash of the
  revocation roots.\<close>
definition barrier_view :: "AcceptanceContext \<Rightarrow> bytes \<Rightarrow> (u64 \<times> hash32) option" where
  "barrier_view ctx gid =
     (case barrier_group_state ctx gid of
        None \<Rightarrow> None
      | Some st \<Rightarrow> if bg_barrier_initialized st then Some (bg_barrier_version st, bg_barrier_roots_hash st) else None)"

text \<open>The specification: a genesis merge starts at version 0; an anchor without an update leaves the barrier alone; a
  merge with reason 0 moves to new revocation roots, one with reason 1 or 2 keeps them, and both step the version.\<close>
inductive barrier_step :: "AnchorType \<Rightarrow> u64 option \<Rightarrow> (u64 \<times> hash32) option \<Rightarrow> (u64 \<times> hash32) option \<Rightarrow> bool" where
  genesis: "barrier_step MergeAnchor (Some 0) None (Some (0, r))"
| keep: "barrier_step t None (Some (v, r)) (Some (v, r))"
| revoke: "r' \<noteq> r \<Longrightarrow> barrier_step MergeAnchor (Some 0) (Some (v, r)) (Some (saturating_add v 1, r'))"
| refresh: "reason \<in> {1, 2} \<Longrightarrow> barrier_step MergeAnchor (Some reason) (Some (v, r)) (Some (saturating_add v 1, r))"

inductive_simps barrier_step_simps: "barrier_step t reason s s'"

lemma barrier_step_version:
  assumes "barrier_step t reason (Some (v, r)) (Some (v', r'))"
  shows "unat v \<le> unat v' \<and> unat v' \<le> unat v + 1"
  using assms unat_le_max [of v] by (auto simp: barrier_step_simps unat_saturating_add)

lemma gate_steps:
  assumes st: "barrier_group_state ctx gid = Some st" and gate: "enforce_barrier_acceptance_gating V ctx gid h t = Inr d"
  shows "barrier_step t (gd_barrier_update_reason d) (barrier_view ctx gid)
    (barrier_view (apply_barrier_acceptance_commit gid h d ctx) gid)"
proof -
  have view: "barrier_view (apply_barrier_acceptance_commit gid h d ctx) gid =
      (if gd_barrier_update_reason d = None then barrier_view ctx gid
       else Some (gd_barrier_version d, gd_revocation_roots_hash d))"
    by (auto simp: barrier_view_def apply_barrier_acceptance_commit_def Let_def split: option.split)
  have "if \<not> bg_barrier_initialized st then gate_uninitialized d t = Inr d
        else if gd_revocation_roots_hash d \<noteq> bg_barrier_roots_hash st then gate_revocation d t (bg_barrier_version st) = Inr d
        else gate_proactive ctx gid h st d t = Inr d"
    using gate st by (auto simp: enforce_barrier_acceptance_gating_def result_simps gate_uninitialized_def
      gate_revocation_def gate_proactive_def split: if_splits option.splits)
  then show ?thesis
    unfolding view using st by (auto simp: barrier_view_def barrier_step_simps gate_uninitialized_def gate_revocation_def
      gate_proactive_def update_steps_def result_simps split: if_splits option.splits)
qed

lemma gate_parsed:
  assumes "enforce_barrier_acceptance_gating V ctx gid h t = Inr d" "gd_parsed_barrier_update d = Some p"
    "barrier_group_state ctx gid = Some st"
  shows "pb_tree_size p = bg_n_max st"
proof -
  have "read_barrier_gate V ctx gid h = Inr d"
    using assms by (auto simp: enforce_barrier_acceptance_gating_def result_simps gate_uninitialized_def
      gate_revocation_def gate_proactive_def split: if_splits option.splits)
  then have "parse_barrier_update_from_header (ext V) (wire V) h (bg_n_max st) (bg_max_barrier_update_bytes st) = Inr p"
    using assms(2,3) by (auto simp: read_barrier_gate_def result_simps Let_def split: if_splits)
  then show ?thesis
    using update_shape by blast
qed

lemma commit_n_max:
  assumes "barrier_group_state ctx gid = Some st" "enforce_barrier_acceptance_gating V ctx gid h t = Inr d"
  shows "map_option bg_n_max (barrier_group_state (apply_barrier_acceptance_commit gid h d ctx) gid) = Some (bg_n_max st)"
  using gate_parsed [OF assms(2) _ assms(1)] assms(1)
  by (auto simp: apply_barrier_acceptance_commit_def Let_def split: option.split)

lemma commit_other_group:
  "gid' \<noteq> gid \<Longrightarrow>
     barrier_group_state (apply_barrier_acceptance_commit gid h d ctx) gid' = barrier_group_state ctx gid'"
  by (auto simp: apply_barrier_acceptance_commit_def Let_def split: option.split)

lemma check_pcs_rate_Inr:
  assumes "check_pcs_rate ctx gid h st ec = Inr ()"
  shows "bg_last_pcs_refresh_ec st = Some l \<Longrightarrow>
      saturating_add l (max (bg_pcs_refresh_min_delta_group_ec st) 1) \<le> ec \<and>
      l div max (bg_pcs_refresh_slot_width_ec st) 1 < ec div max (bg_pcs_refresh_slot_width_ec st) 1"
    and "bt_get h HDR_POP_PK = Some (CBytes pk) \<Longrightarrow> device_chain_get ctx gid pk = Some dev \<Longrightarrow>
      dc_last_pcs_refresh_ec dev = Some ld \<Longrightarrow>
      saturating_add ld (max (bg_pcs_refresh_min_delta_device_ec st) 1) \<le> ec"
proof -
  show "saturating_add ld (max (bg_pcs_refresh_min_delta_device_ec st) 1) \<le> ec"
    if "bt_get h HDR_POP_PK = Some (CBytes pk)" "device_chain_get ctx gid pk = Some dev" "dc_last_pcs_refresh_ec dev = Some ld"
    using assms that by (auto simp: check_pcs_rate_def result_simps value_as_bytes_def)
  assume l: "bg_last_pcs_refresh_ec st = Some l"
  let ?w = "max (bg_pcs_refresh_slot_width_ec st) 1"
  have le: "saturating_add l (max (bg_pcs_refresh_min_delta_group_ec st) 1) \<le> ec" and ne: "ec div ?w \<noteq> l div ?w"
    using assms l by (auto simp: check_pcs_rate_def result_simps Let_def)
  have "l \<le> ec"
    using le unat_le_max [of l] by (auto simp: word_le_nat_alt unat_saturating_add)
  then have "l div ?w \<le> ec div ?w"
    by (simp add: word_le_nat_alt unat_div div_le_mono)
  with le ne show "saturating_add l (max (bg_pcs_refresh_min_delta_group_ec st) 1) \<le> ec \<and> l div ?w < ec div ?w"
    by auto
qed

lemma gate_rate:
  assumes "barrier_group_state ctx gid = Some st" "enforce_barrier_acceptance_gating V ctx gid h t = Inr d"
    "bg_last_pcs_refresh_ec st = Some l"
  shows "gd_fs_ec d \<noteq> l"
    and "bg_barrier_initialized st \<Longrightarrow> gd_barrier_update_reason d = Some 1 \<Longrightarrow> check_pcs_rate ctx gid h st (gd_fs_ec d) = Inr ()"
  using assms by (auto simp: enforce_barrier_acceptance_gating_def result_simps gate_uninitialized_def
    gate_revocation_def gate_proactive_def split: if_splits option.splits)

text \<open>In a group the context knows, an accepted gate followed by its commit is one step of the barrier machine.  The
  tree size of the group never changes, and no other group is touched.\<close>
theorem barrier_gate_refines:
  assumes "barrier_group_state ctx gid = Some st" and "enforce_barrier_acceptance_gating V ctx gid h t = Inr d"
  shows "barrier_step t (gd_barrier_update_reason d) (barrier_view ctx gid)
      (barrier_view (apply_barrier_acceptance_commit gid h d ctx) gid) \<and>
    map_option bg_n_max (barrier_group_state (apply_barrier_acceptance_commit gid h d ctx) gid) = Some (bg_n_max st) \<and>
    (\<forall>gid'. gid' \<noteq> gid \<longrightarrow>
       barrier_group_state (apply_barrier_acceptance_commit gid h d ctx) gid' = barrier_group_state ctx gid')"
  using gate_steps [OF assms] commit_n_max [OF assms] commit_other_group by auto

text \<open>Refreshes are rate limited.  An accepted merge with reason 1 comes at least the minimal delta after the group's
  last refresh, in a later slot of the group's grid, and at least the minimal delta after the last refresh of its device;
  and no anchor at all is accepted in the epoch of the group's last refresh.\<close>
theorem pcs_refresh_rate_limited:
  assumes "barrier_group_state ctx gid = Some st" and "enforce_barrier_acceptance_gating V ctx gid h t = Inr d"
    and "bg_last_pcs_refresh_ec st = Some l"
  shows "gd_fs_ec d \<noteq> l \<and>
    (bg_barrier_initialized st \<and> gd_barrier_update_reason d = Some 1 \<longrightarrow>
       saturating_add l (max (bg_pcs_refresh_min_delta_group_ec st) 1) \<le> gd_fs_ec d \<and>
       l div max (bg_pcs_refresh_slot_width_ec st) 1 < gd_fs_ec d div max (bg_pcs_refresh_slot_width_ec st) 1 \<and>
       (\<forall>pk dev ld. bt_get h HDR_POP_PK = Some (CBytes pk) \<longrightarrow> device_chain_get ctx gid pk = Some dev \<longrightarrow>
          dc_last_pcs_refresh_ec dev = Some ld \<longrightarrow>
          saturating_add ld (max (bg_pcs_refresh_min_delta_device_ec st) 1) \<le> gd_fs_ec d))"
  using gate_rate [OF assms] check_pcs_rate_Inr [of ctx gid h st "gd_fs_ec d"] assms(3) by blast

section \<open>Device chains: what an accepted link is\<close>

definition chain_tip :: "DeviceChainState option \<Rightarrow> hash32" where
  "chain_tip d = (case Option.bind d dc_last_commit of None \<Rightarrow> zero_hash | Some c \<Rightarrow> c)"

text \<open>The latest epoch a device may jump to: from its own last epoch, or from the group's for a new device.\<close>
definition device_cap :: "AcceptanceContext \<Rightarrow> bytes \<Rightarrow> DeviceChainState option \<Rightarrow> u64" where
  "device_cap ctx gid d =
     (case d of
        None \<Rightarrow> saturating_add (last_accepted_ec ctx gid) (fc_first_device (ax_fs_caps ctx))
      | Some st \<Rightarrow> saturating_add (dc_last_ec st) (fc_device_max (ax_fs_caps ctx)))"

lemma zero_hash_iff: "length b = 32 \<Longrightarrow> list_ex (\<lambda>x. x \<noteq> 0) b \<longleftrightarrow> b \<noteq> zero_hash"
proof -
  have "(\<forall>x \<in> set b. x = 0) \<longleftrightarrow> b = replicate (length b) 0"
    by (metis in_set_replicate replicate_eqI)
  then show "list_ex (\<lambda>x. x \<noteq> 0) b \<longleftrightarrow> b \<noteq> zero_hash" if "length b = 32"
    using that by (auto simp: list_ex_iff zero_hash_def)
qed

lemma device_chain_exact:
  assumes "length (dv_fs_dev_prev_commit v) = 32"
  shows "verify_device_chain_state E ctx gid d v = Inr () \<longleftrightarrow>
    dv_fs_ec v \<le> saturating_add (last_accepted_ec ctx gid) (fc_anchor_max (ax_fs_caps ctx)) \<and>
    dv_fs_ec v \<le> device_cap ctx gid d \<and> (\<forall>st. d = Some st \<longrightarrow> dc_last_ec st \<le> dv_fs_ec v) \<and>
    dv_fs_dev_prev_commit v = chain_tip d \<and>
    compute_fs_dev_commit_v2 E (dv_pop_pk v) (dv_fs_ec v) (chain_tip d) (dv_barrier_version v) (dv_barrier_update_digest v) =
      Inr (dv_fs_dev_commit v)"
  using zero_hash_iff [OF assms]
  by (cases d) (auto simp: verify_device_chain_state_def result_simps device_cap_def chain_tip_def Let_def not_less
    split: option.splits)

text \<open>The commitment of a history of links, newest first.\<close>
type_synonym chain_history = "(u64 \<times> u64 \<times> hash32) list"

fun link_commit :: "Ext \<Rightarrow> bytes \<Rightarrow> u64 \<times> u64 \<times> hash32 \<Rightarrow> hash32 \<Rightarrow> MsphfError + hash32" where
  "link_commit E pk (ec, bv, digest) prev = compute_fs_dev_commit_v2 E pk ec prev bv digest"

primrec chain_commit :: "Ext \<Rightarrow> bytes \<Rightarrow> chain_history \<Rightarrow> MsphfError + hash32" where
  "chain_commit E pk [] = Inr zero_hash"
| "chain_commit E pk (l # ls) = tryE (chain_commit E pk ls) (link_commit E pk l)"

lemma chain_commit_history:
  assumes "chain_commit E pk ls = Inr c" "chain_commit E pk ls' = Inr c"
  shows "ls = ls' \<or>
    (\<exists>l t p l' t' p'. suffix (l # t) ls \<and> suffix (l' # t') ls' \<and> chain_commit E pk t = Inr p \<and> chain_commit E pk t' = Inr p' \<and>
       (l, p) \<noteq> (l', p') \<and> link_commit E pk l p = link_commit E pk l' p') \<or>
    (\<exists>l t. (suffix (l # t) ls \<or> suffix (l # t) ls') \<and> chain_commit E pk (l # t) = Inr zero_hash)"
  using assms
proof (induction ls arbitrary: ls' c)
  case Nil
  then show ?case
    by (cases ls') (auto intro: suffix_order.order_refl)
next
  case (Cons l t)
  show ?case
  proof (cases ls')
    case Nil
    then have "chain_commit E pk (l # t) = Inr zero_hash"
      using Cons.prems by simp
    then show ?thesis
      by (meson suffix_order.order_refl)
  next
    case (Cons l' t')
    obtain p p' where p: "chain_commit E pk t = Inr p" "chain_commit E pk t' = Inr p'"
        "link_commit E pk l p = Inr c" "link_commit E pk l' p' = Inr c"
      using Cons.prems Cons by (auto simp: result_simps)
    show ?thesis
    proof (cases "(l, p) = (l', p')")
      case False
      then show ?thesis
        using p Cons by (metis suffix_order.order_refl)
    next
      case True
      then have "chain_commit E pk t' = Inr p" "l = l'"
        using p by simp_all
      from Cons.IH [OF p(1) this(1)] this(2) show ?thesis
        unfolding Cons by (elim disjE) (simp, meson suffix_ConsI, meson suffix_ConsI)
    qed
  qed
qed

text \<open>The forward-secrecy check accepts a link exactly when its epoch lies between the device's last epoch and the
  caps of group and device, its predecessor is the device's last commitment, and its commitment is the hash of the device
  key, the epoch, the predecessor and the barrier state.\<close>
theorem device_chain_check_exact:
  assumes "length (dv_fs_dev_prev_commit v) = 32"
  shows "verify_device_chain_state E ctx gid d v = Inr () \<longleftrightarrow>
    dv_fs_ec v \<le> saturating_add (last_accepted_ec ctx gid) (fc_anchor_max (ax_fs_caps ctx)) \<and>
    dv_fs_ec v \<le> device_cap ctx gid d \<and> (\<forall>st. d = Some st \<longrightarrow> dc_last_ec st \<le> dv_fs_ec v) \<and>
    dv_fs_dev_prev_commit v = chain_tip d \<and>
    compute_fs_dev_commit_v2 E (dv_pop_pk v) (dv_fs_ec v) (chain_tip d) (dv_barrier_version v) (dv_barrier_update_digest v) =
      Inr (dv_fs_dev_commit v)"
  by (rule device_chain_exact [OF assms])

text \<open>The last commitment of a device determines its whole history of epochs, barrier versions and update digests, up
  to a collision of the link hash inside the two histories or a link that hashes to the zero digest.\<close>
theorem device_chain_commits_history:
  assumes "chain_commit E pk ls = Inr c" and "chain_commit E pk ls' = Inr c"
  shows "ls = ls' \<or>
    (\<exists>l t p l' t' p'. suffix (l # t) ls \<and> suffix (l' # t') ls' \<and> chain_commit E pk t = Inr p \<and> chain_commit E pk t' = Inr p' \<and>
       (l, p) \<noteq> (l', p') \<and> link_commit E pk l p = link_commit E pk l' p') \<or>
    (\<exists>l t. (suffix (l # t) ls \<or> suffix (l # t) ls') \<and> chain_commit E pk (l # t) = Inr zero_hash)"
  by (rule chain_commit_history [OF assms])

section \<open>Instances\<close>

text \<open>Packages whose encoder and hash are constant and whose verifiers accept, so that runs of the handlers evaluate.\<close>
definition plain_digest :: hash32 where
  "plain_digest = replicate 32 7"

definition plain_ext :: Ext where
  "plain_ext = \<lparr>rpo = sample_rpo, cbor_ser = (\<lambda>_. Inr [9]), cbor_de = (\<lambda>_. Some CNull),
     blake3_derive = (\<lambda>_ _. plain_digest), dilithium_verify = (\<lambda>_ _ _. Inr ())\<rparr>"

definition plain_cover :: KemTreeCoverPayloadWire where
  "plain_cover = \<lparr>kc_updater_slot_index = 0, kc_updater_slot_generation = 0, kc_path_nodes = [1, 0],
     kc_revoked_leaf_indices_hint = None, kc_node_ciphertexts = [],
     kc_new_public_keys = [\<lparr>nk_node_index = 0, nk_ek = replicate 1184 5\<rparr>]\<rparr>"

definition plain_update :: BarrierUpdateWire where
  "plain_update = \<lparr>bw_mode = ''barrier-v1'', bw_barrier_version = 4, bw_prev_barrier_version = 3, bw_tree_size = 2,
     bw_revocation_roots_hash = plain_digest, bw_kem_tree_hash_before = plain_digest,
     bw_kem_tree_hash_after = plain_digest, bw_cover_payload = [9]\<rparr>"

definition plain_verifiers :: Verifiers where
  "plain_verifiers = \<lparr>ext = plain_ext, de_membership = (\<lambda>_. None), smallwood_decodes = (\<lambda>_. True),
     smallwood_verify = (\<lambda>_ _. True), vrf_verify = (\<lambda>_ _ _ _. Inr True), recompute_capss_witness = (\<lambda>_. Inr CNull),
     wire = \<lparr>de_update = (\<lambda>_. Some plain_update), de_cover = (\<lambda>_. Some plain_cover)\<rparr>\<rparr>"

lemma plain_simps [simp]:
  "cbor_ser plain_ext v = Inr [9]" "cbor_de plain_ext b = Some CNull" "blake3_derive plain_ext c b = plain_digest"
  "dilithium_verify plain_ext pk m sg = Inr ()" "length plain_digest = 32" "to_cbor_vec plain_ext v = Inr [9]"
  "ext plain_verifiers = plain_ext"
  by (simp_all add: plain_ext_def plain_digest_def to_cbor_vec_def plain_verifiers_def)

lemma plain_h_l: "h_l plain_ext l v = (case validate_label l of Inl e \<Rightarrow> Inl e | Inr _ \<Rightarrow> Inr plain_digest)"
  by (simp add: h_l_def split: sum.split)

lemma plain_parse_update:
  assumes "bt_get h HDR_BARRIER_UPDATE = Some (CBytes [9])" "0 < limit"
  shows "parse_barrier_update_from_header plain_ext (wire plain_verifiers) h 2 limit =
    Inr \<lparr>pb_barrier_version = 4, pb_prev_barrier_version = 3, pb_tree_size = 2, pb_updater_slot_index = 0,
      pb_updater_slot_generation = 0, pb_revocation_roots_hash = plain_digest, pb_kem_tree_hash_before = plain_digest,
      pb_kem_tree_hash_after = plain_digest\<rparr>"
proof -
  have "is_power_of_two 2"
    by (simp add: is_power_of_two_def list_ex_iff) (rule bexI [of _ 1], simp_all)
  then show ?thesis
    using assms by (simp add: parse_barrier_update_from_header_def parse_deterministic_def plain_verifiers_def
      plain_update_def plain_cover_def checked_mul_def checked_sub_def validate_revoked_hint_def validate_path_nodes_def
      ensure_range_def checked_add_def saturating_sub_def validate_node_ciphertexts_def validate_new_public_keys_def
      ml_kem_public_key_bytes_def vec32_def Let_def)
qed

text \<open>A group at version 3 of its barrier, refreshed last in epoch 5, after nine ticks of the clock, and a merge that
  refreshes it in epoch 9.\<close>
definition plain_group :: BarrierGroupState where
  "plain_group = barrier_group_default\<lparr>bg_barrier_initialized := True, bg_barrier_version := 3,
     bg_barrier_roots_hash := plain_digest, bg_n_max := 2, bg_last_pcs_refresh_ec := Some 5, bg_last_accepted_ec := 5\<rparr>"

definition plain_context :: AcceptanceContext where
  "plain_context = (insert_barrier_group_state [1] plain_group (ctx_with_defaults plain_ext))
     \<lparr>ax_clock := \<lparr>next_tick = 9, last_instant = from_ticks 8\<rparr>\<rparr>"

definition refresh_header :: header where
  "refresh_header = [(HDR_POP_PK, CBytes [5]), (HDR_REVOKED_SINCE_ROOT, CBytes plain_digest), (HDR_REVOKED_ROOT, CBytes plain_digest),
     (HDR_FS_EC, CInt 9), (HDR_BARRIER_UPDATE, CBytes [9]), (HDR_BARRIER_VERSION, CInt 4), (HDR_BARRIER_UPDATE_REASON, CInt 1)]"

lemma plain_context_group: "barrier_group_state plain_context [1] = Some plain_group"
  by (simp add: barrier_group_state_def plain_context_def insert_barrier_group_state_def)

lemma plain_context_device: "device_chain_get plain_context [1] pk = None"
  by (simp add: device_chain_get_def plain_context_def insert_barrier_group_state_def ctx_with_defaults_def
    ctx_with_options_def apply_fs_policy_config_def Let_def split: sum.split)

lemma refresh_gate:
  "\<exists>d. enforce_barrier_acceptance_gating plain_verifiers plain_context [1] refresh_header MergeAnchor = Inr d \<and>
     gd_fs_ec d = 9 \<and> gd_barrier_version d = 4 \<and> gd_barrier_update_reason d = Some 1"
proof -
  have "bt_get refresh_header HDR_BARRIER_UPDATE = Some (CBytes [9])"
    by (simp add: refresh_header_def hdr_keys)
  note parse = plain_parse_update [OF this, of 1048576]
  have "validate_label ''barrier/update/digest'' = Inr ()" "validate_label ''barrier/roots'' = Inr ()"
    by (simp_all add: validate_label_def as_bytes_def)
  then have "read_barrier_gate plain_verifiers plain_context [1] refresh_header =
      Inr \<lparr>gd_barrier_version = 4, gd_fs_ec = 9, gd_revocation_roots_hash = plain_digest,
        gd_barrier_update_digest = plain_digest, gd_barrier_update_reason = Some 1,
        gd_parsed_barrier_update = Some \<lparr>pb_barrier_version = 4, pb_prev_barrier_version = 3, pb_tree_size = 2,
          pb_updater_slot_index = 0, pb_updater_slot_generation = 0, pb_revocation_roots_hash = plain_digest,
          pb_kem_tree_hash_before = plain_digest, pb_kem_tree_hash_after = plain_digest\<rparr>\<rparr>"
    using parse by (simp add: read_barrier_gate_def plain_context_group header_u64_or_freeze_def refresh_header_def hdr_keys
      u64_try_from_def parse_barrier_update_reason_def compute_barrier_update_digest_def compute_revocation_roots_hash_def
      header_bytes32_or_freeze_def value_bytes32_def plain_h_l plain_group_def barrier_group_default_def)
  then show ?thesis
    by (simp add: enforce_barrier_acceptance_gating_def plain_context_group plain_context_device plain_group_def
      barrier_group_default_def gate_proactive_def update_steps_def check_pcs_rate_def saturating_add_def value_as_bytes_def
      refresh_header_def hdr_keys)
qed

theorem barrier_gate_refines_witness:
  "\<exists>d. enforce_barrier_acceptance_gating plain_verifiers plain_context [1] refresh_header MergeAnchor = Inr d \<and>
     barrier_step MergeAnchor (Some 1) (barrier_view plain_context [1])
       (barrier_view (apply_barrier_acceptance_commit [1] refresh_header d plain_context) [1])"
  using refresh_gate barrier_gate_refines [OF plain_context_group] by metis

theorem pcs_refresh_rate_limited_witness:
  "\<exists>d. enforce_barrier_acceptance_gating plain_verifiers plain_context [1] refresh_header MergeAnchor = Inr d \<and>
     saturating_add 5 (max (bg_pcs_refresh_min_delta_group_ec plain_group) 1) \<le> gd_fs_ec d"
proof -
  obtain d where d: "enforce_barrier_acceptance_gating plain_verifiers plain_context [1] refresh_header MergeAnchor = Inr d"
      "gd_barrier_update_reason d = Some 1"
    using refresh_gate by blast
  have "bg_last_pcs_refresh_ec plain_group = Some 5" "bg_barrier_initialized plain_group"
    by (simp_all add: plain_group_def)
  with pcs_refresh_rate_limited [OF plain_context_group d(1), of 5] d show ?thesis
    by blast
qed

definition first_link :: DeviceChainVerification where
  "first_link = \<lparr>dv_pop_pk = [5], dv_fs_ec = 6, dv_fs_dev_prev_commit = zero_hash, dv_fs_dev_commit = plain_digest,
     dv_barrier_version = 3, dv_barrier_update_digest = zero_hash\<rparr>"

lemma plain_context_caps:
  "last_accepted_ec plain_context [1] = 5" "ax_fs_caps plain_context =
     \<lparr>fc_window_periods = 12, fc_anchor_max = 12, fc_first_device = 12, fc_device_max = 16\<rparr>"
  by (simp_all add: last_accepted_ec_def plain_context_group plain_group_def)
    (simp add: plain_context_def insert_barrier_group_state_def ctx_with_defaults_def
      ctx_with_options_def apply_fs_policy_config_def Let_def acceptance_options_default_def synthesize_caps_def
      fs_policy_default_def div_ceil_def checked_add_def)

lemma plain_link: "compute_fs_dev_commit_v2 plain_ext pk ec prev bv dg = Inr plain_digest"
proof -
  have "validate_label ''fs/dev/chain/v2'' = Inr ()"
    by (simp add: validate_label_def as_bytes_def)
  then show ?thesis
    by (simp add: compute_fs_dev_commit_v2_def plain_h_l)
qed

theorem device_chain_check_exact_witness:
  "verify_device_chain_state plain_ext plain_context [1] None first_link = Inr () \<and>
   verify_device_chain_state plain_ext plain_context [1] None (first_link\<lparr>dv_fs_ec := 18\<rparr>) \<noteq> Inr ()"
  using device_chain_check_exact [of first_link plain_ext plain_context "[1]" None]
    device_chain_check_exact [of "first_link\<lparr>dv_fs_ec := 18\<rparr>" plain_ext plain_context "[1]" None]
  by (simp add: first_link_def zero_hash_def plain_context_caps device_cap_def chain_tip_def plain_link saturating_add_def)

theorem device_chain_commits_history_witness:
  "\<exists>l t p l' t' p'. suffix (l # t) [(6, 3, zero_hash)] \<and> suffix (l' # t') [(7, 3, zero_hash)] \<and> chain_commit plain_ext [5] t = Inr p \<and>
     chain_commit plain_ext [5] t' = Inr p' \<and> (l, p) \<noteq> (l', p') \<and>
     link_commit plain_ext [5] l p = link_commit plain_ext [5] l' p'"
proof -
  have "plain_digest \<noteq> zero_hash"
    by (simp add: plain_digest_def zero_hash_def)
  moreover have "chain_commit plain_ext [5] (l # t) = Inr plain_digest" if "chain_commit plain_ext [5] t = Inr p" for l t p
    using that by (cases l) (simp add: plain_link)
  ultimately show ?thesis
    using device_chain_commits_history [of plain_ext "[5]" "[(6, 3, zero_hash)]" plain_digest "[(7, 3, zero_hash)]"]
    by (auto simp: plain_link result_simps)
qed

end
