(* ===== verification/RefusalCodes.thy ===== *)
theory RefusalCodes
  imports AcceptContext
begin

text \<open>
  The code \<open>mh_window_full\<close> is reported by the multi-head window and by nothing else.  \<open>unfilled\<close> says so of a result and
  \<open>never_full\<close> of a run; the collection \<open>unfilled_intro\<close> holds the rules for the combinators and for every check of
  \<open>Headers\<close>, \<open>Stages\<close>, \<open>Srx\<close> and \<open>AcceptContext\<close> that a join or a merge calls.  Whoever sees the code knows therefore
  that every check before the window has passed.
\<close>

section \<open>Results\<close>

definition unfilled :: "AcceptanceError + 'a \<Rightarrow> bool" where
  "unfilled r \<longleftrightarrow> r \<noteq> Inl (Freeze WINDOW_FULL)"

named_theorems unfilled_intro \<open>checks that never report a full window\<close>

lemma unfilled_simps [simp]:
  "unfilled (Inr x)" "unfilled (Inl (Freeze c)) \<longleftrightarrow> c \<noteq> WINDOW_FULL" "unfilled (Inl (Msphf e))"
  by (simp_all add: unfilled_def)

lemma unfilled_result [unfilled_intro]:
  "unfilled m \<Longrightarrow> (\<And>x. unfilled (f x)) \<Longrightarrow> unfilled (tryE m f)"
  "unfilled (Inl e) \<Longrightarrow> unfilled (ensure b e)"
  "unfilled (Inl e) \<Longrightarrow> unfilled (ok_or e y)"
  "(\<And>e. unfilled (Inl (g e) :: AcceptanceError + 'a)) \<Longrightarrow> unfilled (map_err g (r :: 'e + 'a))"
  by (auto simp: unfilled_def result_simps dest: sym)

lemma unfilled_mapE [unfilled_intro]: "(\<And>x. unfilled (f x)) \<Longrightarrow> unfilled (mapE f xs)"
  by (induction xs) (auto intro!: unfilled_intro)

lemma unfilled_cases [unfilled_intro]:
  "(b \<Longrightarrow> unfilled x) \<Longrightarrow> (\<not> b \<Longrightarrow> unfilled y) \<Longrightarrow> unfilled (if b then x else y)"
  "unfilled n \<Longrightarrow> (\<And>x. unfilled (s x)) \<Longrightarrow> unfilled (case opt of None \<Rightarrow> n | Some x \<Rightarrow> s x)"
  "(\<And>x y. unfilled (p x y)) \<Longrightarrow> unfilled (case pr of (x, y) \<Rightarrow> p x y)"
  "unfilled n \<Longrightarrow> (\<And>x xs. unfilled (c x xs)) \<Longrightarrow> unfilled (case l of [] \<Rightarrow> n | x # xs \<Rightarrow> c x xs)"
  "unfilled d \<Longrightarrow> (\<And>k. unfilled (c' k)) \<Longrightarrow> unfilled (case policy of BootstrapDisabled \<Rightarrow> d | CaMlDsa k \<Rightarrow> c' k)"
  "unfilled (g v) \<Longrightarrow> unfilled (let x = v in g x)"
  by (auto split: option.split prod.split list.split BootstrapPolicy.split)

lemma unfilled_case_cbor [unfilled_intro]:
  assumes "\<And>x. unfilled (i x)" "\<And>x. unfilled (b x)" "\<And>x. unfilled (f x)" "\<And>x. unfilled (t x)" "\<And>x. unfilled (bo x)"
    "unfilled n" "\<And>x y. unfilled (ta x y)" "\<And>x. unfilled (a x)" "\<And>x. unfilled (m x)"
  shows "unfilled (case_cbor i b f t bo n ta a m v)"
  using assms by (simp split: cbor.split)

lemma unfilled_acc_err [simp]: "unfilled (Inl (acc_err e))"
  by (cases e rule: acc_err.cases) (simp_all add: freeze_defs WINDOW_FULL_def)

section \<open>Headers and stages\<close>

lemma unfilled_header [unfilled_intro]:
  "unfilled (Inl (Freeze c) :: AcceptanceError + hash32) \<Longrightarrow> unfilled (value_bytes32 v c)"
  "unfilled (Inl (Freeze c) :: AcceptanceError + hash32) \<Longrightarrow> unfilled (header_bytes32_or_freeze h key c)"
  "unfilled (Inl (Freeze c) :: AcceptanceError + u64) \<Longrightarrow> unfilled (header_u64_or_freeze h key c)"
  "unfilled (Inl (Freeze c) :: AcceptanceError + string) \<Longrightarrow> unfilled (header_text h key c)"
  "unfilled (Inl (Freeze c) :: AcceptanceError + bytes) \<Longrightarrow> unfilled (header_value_bytes h key c)"
  "unfilled (Inl (Freeze c) :: AcceptanceError + hash32) \<Longrightarrow> unfilled (header_digest_or_zero h key c)"
  "unfilled (Inl (Freeze c) :: AcceptanceError + hash32) \<Longrightarrow> unfilled (field32 h key c)"
  by (auto simp: value_bytes32_def header_bytes32_or_freeze_def header_u64_or_freeze_def header_text_def header_value_bytes_def
    header_digest_or_zero_def field32_def intro!: unfilled_intro)

lemma unfilled_header_fields [unfilled_intro]:
  "unfilled (header_string_or_freeze h key)" "unfilled (header_bytes_or_freeze h key)" "unfilled (header_policy_version h)"
  by (auto simp: header_string_or_freeze_def header_bytes_or_freeze_def header_policy_version_def freeze_defs WINDOW_FULL_def
    intro!: unfilled_intro)

lemma unfilled_suites [unfilled_intro]:
  "unfilled (ensure_tswe_alg h)" "unfilled (ensure_merkle_suite h)" "unfilled (ensure_kbroad_alg h)"
  "unfilled (ensure_crs_id ctx h)" "unfilled (ensure_params_id ctx h)" "unfilled (ensure_kbroad_pub ctx gid h)"
  "unfilled (ensure_join_srx_keys_absent h)" "unfilled (ensure_merge_srx_keys h b)" "unfilled (ensure_merge_join_keys_absent h)"
  "unfilled (ensure_bootstrap_absent h)" "unfilled (ensure_fs_policy_version_allowed ctx v)" "unfilled (ensure_suite s a d name)"
  unfolding ensure_tswe_alg_def ensure_merkle_suite_def ensure_kbroad_alg_def ensure_crs_id_def ensure_params_id_def
    ensure_kbroad_pub_def ensure_join_srx_keys_absent_def ensure_merge_srx_keys_def ensure_merge_join_keys_absent_def
    ensure_bootstrap_absent_def ensure_fs_policy_version_allowed_def ensure_suite_def
  by (auto simp: freeze_defs WINDOW_FULL_def intro!: unfilled_intro)

lemma unfilled_possession [unfilled_intro]:
  "unfilled (ensure_join_pop E h a mode)" "unfilled (extract_pop_signature h)" "unfilled (derive_rho_commit_from_pop E sg xk)"
  "unfilled (check_envelope_tail ct aead)" "unfilled (build_bootstrap_digest E h a hp sch rho sbc)"
  "unfilled (ensure_srx_proof_fields h)" "unfilled (capss_proof_from_bytes V b)" "unfilled (capss_verify V i proof)"
  "unfilled (srx_proof_from_bytes V b)" "unfilled (srx_verify V si proof)"
  unfolding ensure_join_pop_def extract_pop_signature_def derive_rho_commit_from_pop_def check_envelope_tail_def
    build_bootstrap_digest_def ensure_srx_proof_fields_def capss_proof_from_bytes_def capss_verify_def srx_proof_from_bytes_def
    srx_verify_def
  by (auto simp: freeze_defs WINDOW_FULL_def intro!: unfilled_intro)

lemma unfilled_envelope [unfilled_intro]:
  "unfilled (verify_join_payload_hp_envelope h ov ctx)" "unfilled (validate_barrier_hp_envelope_bytes E b)"
  "unfilled (validate_bootstrap E h a hp sch rho sbc policy)" "unfilled (ensure_proofs E h apm dpm av dv)"
  unfolding verify_join_payload_hp_envelope_def validate_barrier_hp_envelope_bytes_def validate_bootstrap_def ensure_proofs_def
  by (auto simp: freeze_defs WINDOW_FULL_def intro!: unfilled_intro)

section \<open>Set relations\<close>

lemma unfilled_integer [unfilled_intro]: "unfilled (integer_to_u64 v)"
  by (auto simp: integer_to_u64_def freeze_defs WINDOW_FULL_def intro!: unfilled_intro)

lemma unfilled_path_fields [unfilled_intro]: "unfilled (parse_path_fields m s d)"
  by (induction m s d rule: parse_path_fields.induct) (auto simp: freeze_defs WINDOW_FULL_def intro!: unfilled_intro)

lemma unfilled_srx_values [unfilled_intro]:
  "unfilled (parse_leaf_array v)" "unfilled (parse_optional_frontier v)" "unfilled (parse_path_entries v)"
  "unfilled (optional_bytes32 v)" "unfilled (optional_index v)" "unfilled (optional_height v)"
  by (auto simp: parse_leaf_array_def parse_optional_frontier_def parse_path_entries_def optional_bytes32_def optional_index_def
    optional_height_def freeze_defs WINDOW_FULL_def intro!: unfilled_intro)

lemma unfilled_nonmem_field [unfilled_intro]: "unfilled (nonmem_field idx v f)"
  by (auto simp: nonmem_field_def freeze_defs WINDOW_FULL_def intro!: unfilled_intro)

lemma unfilled_nonmem_fields [unfilled_intro]: "unfilled (nonmem_fields m f)"
  by (induction m f rule: nonmem_fields.induct) (auto intro!: unfilled_intro)

lemma unfilled_nonmem_anchor [unfilled_intro]: "unfilled (parse_nonmem_anchor v)"
  by (auto simp: parse_nonmem_anchor_def freeze_defs WINDOW_FULL_def intro!: unfilled_intro)

lemma unfilled_payload_lists [unfilled_intro]:
  "unfilled (parse_nonmem_anchor_list v)" "unfilled (deserialize_membership V v)" "unfilled (parse_mem_list V v)"
  by (auto simp: parse_nonmem_anchor_list_def deserialize_membership_def parse_mem_list_def freeze_defs WINDOW_FULL_def
    intro!: unfilled_intro)

lemma unfilled_payload [unfilled_intro]: "unfilled (parse_srx_payload V v)"
  unfolding parse_srx_payload_def
  by (cases v) (auto simp: freeze_defs WINDOW_FULL_def intro!: unfilled_intro)

lemma unfilled_srx_payload [unfilled_intro]: "unfilled (srx_contains_leaf_id V h leaf)" "unfilled (srx_read_payload V h n)"
  unfolding srx_contains_leaf_id_def srx_read_payload_def
  by (auto simp: freeze_defs WINDOW_FULL_def intro!: unfilled_intro)

lemma unfilled_witness_errors [simp]: "unfilled (Inl (subset_error e))" "unfilled (Inl (anchor_error e))"
  by (cases e rule: subset_error.cases; simp add: freeze_defs WINDOW_FULL_def)+

lemma unfilled_nonmem_error: "c \<noteq> WINDOW_FULL \<Longrightarrow> unfilled (Inl (nonmem_error c e))"
  by (cases "(c, e)" rule: nonmem_error.cases) (simp_all add: freeze_defs WINDOW_FULL_def)

lemma unfilled_memberships [unfilled_intro]: "unfilled (validate_membership_loop P root seen ws)"
  by (induction ws arbitrary: seen) (auto simp: freeze_defs WINDOW_FULL_def intro!: unfilled_intro)

lemma unfilled_anchor_checks [unfilled_intro]:
  "unfilled (validate_anchor_reference P pool root b i)" "unfilled (verify_anchored_adjacency entry l r)"
  unfolding validate_anchor_reference_def verify_anchored_adjacency_def
  by (auto simp: freeze_defs WINDOW_FULL_def intro!: unfilled_intro)

lemma unfilled_nonmemberships [unfilled_intro]:
  "unfilled (Inl (Freeze c) :: AcceptanceError + unit) \<Longrightarrow> unfilled (validate_nonmem_loop P pool root c seen ws)"
  by (induction ws arbitrary: seen)
    (auto simp: unfilled_nonmem_error freeze_defs WINDOW_FULL_def intro!: unfilled_intro)

lemma unfilled_pool [unfilled_intro]: "unfilled (validate_anchor_pool_from prev ws)"
  by (induction ws arbitrary: prev) (auto simp: freeze_defs WINDOW_FULL_def intro!: unfilled_intro)

lemma unfilled_relations [unfilled_intro]:
  "unfilled (srx_check_relations P srx pr jr sr rr)" "unfilled (srx_check_smallwood V proofs commit payload pr jr sr rr before)"
  unfolding srx_check_relations_def srx_check_smallwood_def validate_anchor_pool_def check_root_def check_frontier_def
    validate_anchored_nonmem_array_def ensure_nonmem_coverage_def validate_membership_array_def ensure_mem_coverage_def
  by (auto simp: freeze_defs WINDOW_FULL_def intro!: unfilled_intro)

lemma unfilled_vck [unfilled_intro]: "unfilled (compute_vck_key E xk sc rc hc h)" "unfilled (compute_vck_from_parity E q)"
  unfolding compute_vck_from_parity_def compute_vck_key_def
  by (auto simp: freeze_defs WINDOW_FULL_def intro!: unfilled_intro)

lemma unfilled_skip: "unfilled (fst (try_skip_srx c key hj hs ha hb n now))"
  by (auto simp: try_skip_srx_def freeze_defs WINDOW_FULL_def Let_def intro!: unfilled_intro)

lemma unfilled_srx: "unfilled (fst (ensure_srx_relations V h a b n now c proofs before))"
proof -
  have skip: "try_skip_srx c' key hj hs ha hb m now \<noteq> (Inl (Freeze WINDOW_FULL), c'')" for c' key hj hs ha hb m c''
    using unfilled_skip [of c' key hj hs ha hb m now] by (auto simp: unfilled_def)
  have checks: "unfilled (tryE (srx_check_relations P srx pr jr sr rr) (\<lambda>_. srx_check_smallwood V proofs commit payload pr jr sr rr before))"
    for P srx pr jr sr rr commit payload
    by (intro unfilled_intro)
  show ?thesis
    using skip checks unfilled_suites(8) unfilled_srx_payload(2) unfilled_vck(1)
    by (auto simp: unfilled_def ensure_srx_relations_def freeze_defs WINDOW_FULL_def Let_def
      split: sum.split prod.split bool.split)
qed

section \<open>Runs\<close>

definition never_full :: "'a acc \<Rightarrow> bool" where
  "never_full m \<longleftrightarrow> (\<forall>ctx. unfilled (fst (m ctx)))"

lemma never_full_intro [unfilled_intro]:
  "never_full m \<Longrightarrow> (\<And>x. never_full (f x)) \<Longrightarrow> never_full (tryS m f)"
  "(\<And>ctx. unfilled (g ctx)) \<Longrightarrow> never_full (liftS g)" "never_full (updS u)" "never_full (\<lambda>ctx. (Inr x, ctx))"
proof -
  show "never_full (tryS m f)" if "never_full m" "\<And>x. never_full (f x)"
    unfolding never_full_def
  proof
    fix ctx
    show "unfilled (fst (tryS m f ctx))"
      using that(1) that(2) unfolding never_full_def tryS_def unfilled_def
      by (auto split: prod.split sum.split dest: spec [of _ ctx])
  qed
qed (simp_all add: never_full_def liftS_def updS_def)

lemma never_fullD: "never_full m \<Longrightarrow> m ctx = (Inl e, ctx') \<Longrightarrow> e \<noteq> Freeze WINDOW_FULL"
  unfolding never_full_def unfilled_def by (metis fst_conv)

lemma never_full_steps [unfilled_intro]:
  "never_full (telemetry_record_attempt gid root)" "never_full take_pending_capss_witness" "never_full (ensure_group_srx_root_sw gid)"
  by (auto simp: never_full_def telemetry_record_attempt_def take_pending_capss_witness_def ensure_group_srx_root_sw_def Let_def
    split: option.split)

lemma unfilled_device_chain [unfilled_intro]: "unfilled (verify_device_chain_state E ctx gid existing v)"
  unfolding verify_device_chain_state_def
  by (auto simp: freeze_defs WINDOW_FULL_def intro!: unfilled_intro)

lemma unfilled_update_digest [unfilled_intro]: "unfilled (compute_barrier_update_digest E h)"
  unfolding compute_barrier_update_digest_def by (auto simp: freeze_defs WINDOW_FULL_def intro!: unfilled_intro)

end
