(* ===== verification/Join.thy ===== *)
theory Join
  imports RefusalCodes
begin

text \<open>
  The join handler (\<open>accept/join.rs\<close>), in the order of the code: suite and root checks, replay guard, seed commitments,
  forward-secrecy fields, epoch and window identifiers, proof of possession, proofs, then the commit to device chain,
  window and pivot store.  The lemmas show what an accepted join has verified and which state every run leaves behind.
\<close>

section \<open>Shared by join and merge\<close>

record AnchorInstanceParts =
  ap_gid :: bytes
  ap_cat :: bytes
  ap_tswe_salt_hash :: bytes
  ap_parent_root :: bytes
  ap_join_delta_root :: bytes
  ap_revoked_since_prev_root :: bytes
  ap_revoked_root :: bytes
  ap_pox_r_commit :: "bytes option"

definition BASE_PROFILE_VERSION :: string where
  "BASE_PROFILE_VERSION = ''v0.1.4''"

text \<open>A root of the header that must equal the caller's.\<close>
definition matching_root :: "header \<Rightarrow> u64 \<Rightarrow> bytes \<Rightarrow> AcceptanceError + hash32" where
  "matching_root h key expected =
     tryE (header_bytes32_or_freeze h key FREEZE_FIELD_MISSING) (\<lambda>root.
     tryE (freeze_if (expected \<noteq> root) FREEZE_FIELD_MISSING) (\<lambda>_. Inr root))"

definition check_roots :: "AnchorInstanceParts \<Rightarrow> header \<Rightarrow> AcceptanceError + hash32" where
  "check_roots p h =
     tryE (matching_root h HDR_PARENT_ROOT (ap_parent_root p)) (\<lambda>parent_root.
     tryE (matching_root h HDR_JOIN_DELTA_ROOT (ap_join_delta_root p)) (\<lambda>_.
     tryE (matching_root h 112 (ap_revoked_since_prev_root p)) (\<lambda>_.
     tryE (matching_root h HDR_REVOKED_ROOT (ap_revoked_root p)) (\<lambda>_.
     Inr parent_root))))"

text \<open>\<open>match self.fs_base_ts()\<close>: the first anchor fixes the base time stamp, later ones must repeat it.\<close>
definition bind_fs_base_ts :: "u64 \<Rightarrow> unit acc" where
  "bind_fs_base_ts v ctx =
     (case ax_fs_base_ts ctx of
        Some stored \<Rightarrow> if stored \<noteq> v then (Inl (Freeze FREEZE_FS_BASE_MISMATCH), ctx) else (Inr (), ctx)
      | None \<Rightarrow> (Inr (), set_fs_base_ts (Some v) ctx))"

definition take_accept_seq :: "u64 acc" where
  "take_accept_seq ctx = (Inr (ax_next_accept_seq ctx), ctx\<lparr>ax_next_accept_seq := ax_next_accept_seq ctx + 1\<rparr>)"

definition ctx_accept_non_merge ::
  "bytes \<Rightarrow> HeadRecord \<Rightarrow> AcceptInstant \<Rightarrow> AcceptanceContext \<Rightarrow> (FreezeError + unit) \<times> AcceptanceContext" where
  "ctx_accept_non_merge wid record now ctx =
     (let (r, w) = accept_head (ax_mh_window ctx) wid record now in (r, ctx\<lparr>ax_mh_window := w\<rparr>))"

definition ctx_accept_merge ::
  "bytes \<Rightarrow> bytes \<Rightarrow> hash32 list \<Rightarrow> HeadRecord \<Rightarrow> AcceptInstant \<Rightarrow> AcceptanceContext \<Rightarrow> (FreezeError + unit) \<times> AcceptanceContext" where
  "ctx_accept_merge wid_old wid_new mh_heads record now ctx =
     (if h_max (ax_mh_window ctx) < length mh_heads then (Inl WINDOW_FULL, ctx)
      else (let (r, w) = accept_merge (ax_mh_window ctx) wid_old wid_new mh_heads record now in (r, ctx\<lparr>ax_mh_window := w\<rparr>)))"

text \<open>\<open>match\<close> on the window's answer: count the success or the full window, and pass an error on.\<close>
definition window_result :: "TelemetryKey \<Rightarrow> hash32 \<Rightarrow> (AcceptanceContext \<Rightarrow> (FreezeError + unit) \<times> AcceptanceContext) \<Rightarrow> unit acc" where
  "window_result key wid op ctx =
     (case op ctx of
        (Inr _, ctx) \<Rightarrow> (Inr (), telemetry_record_success key (active_heads (ax_mh_window ctx) wid) ctx)
      | (Inl e, ctx) \<Rightarrow>
          (Inl (Freeze e), if e = WINDOW_FULL then telemetry_record_window_full key ctx else ctx))"

section \<open>Stages of the join\<close>

text \<open>Suites, keys and roots, before any state changes.\<close>
definition join_preflight :: "AnchorInstanceParts \<Rightarrow> header \<Rightarrow> AcceptanceContext \<Rightarrow> AcceptanceError + hash32" where
  "join_preflight p h ctx =
     tryE (ensure_tswe_alg h) (\<lambda>_.
     tryE (ensure_merkle_suite h) (\<lambda>_.
     tryE (ensure_crs_id ctx h) (\<lambda>_.
     tryE (ensure_kbroad_alg h) (\<lambda>_.
     tryE (ensure_kbroad_pub ctx (ap_gid p) h) (\<lambda>_.
     tryE (ensure_params_id ctx h) (\<lambda>_.
     tryE (ensure_join_srx_keys_absent h) (\<lambda>_.
     tryE (case bt_get h HDR_BARRIER_LEAF_PK of
             Some (CBytes pk) \<Rightarrow> freeze_if (length pk \<noteq> BARRIER_LEAF_PUBLIC_KEY_BYTES) FREEZE_HASH_CBOR
           | _ \<Rightarrow> Inl (Freeze FREEZE_HASH_CBOR)) (\<lambda>_.
     check_roots p h))))))))"

definition join_replay_guard :: "AnchorInstanceParts \<Rightarrow> hash32 \<Rightarrow> TelemetryKey \<Rightarrow> AcceptInstant \<Rightarrow> unit acc" where
  "join_replay_guard p rho_commit key now ctx =
     (let (fresh, g) = rho_record (ax_rho_guard ctx) (ap_gid p) (ap_parent_root p) rho_commit now;
          ctx = ctx\<lparr>ax_rho_guard := g\<rparr>
      in if fresh then (Inr (), ctx) else (Inl (Freeze FREEZE_RHO_PARITY), telemetry_record_rho_freeze key ctx))"

record JoinSeed =
  js_hp_commit :: hash32
  js_anchor_seed_ctx :: bytes
  js_seed_ctx_hash :: hash32
  js_seed_bundle :: hash32
  js_pop_pk :: bytes

definition join_seed :: "Ext \<Rightarrow> AnchorInstanceParts \<Rightarrow> header \<Rightarrow> hash32 \<Rightarrow> hash32 \<Rightarrow> AcceptanceError + JoinSeed" where
  "join_seed E p h parent_root rho_commit =
     tryE (header_bytes32_or_freeze h 91 FREEZE_SEEDCTX_MISMATCH) (\<lambda>provided_seed_ctx_hash.
     tryE (header_bytes32_or_freeze h 99 FREEZE_FIELD_MISSING) (\<lambda>hp_commit.
     tryE (map_err acc_err (build_anchor_seed_ctx E h)) (\<lambda>seed_ctx.
     tryE (map_err acc_err (compute_seed_ctx_hash E seed_ctx)) (\<lambda>seed_ctx_hash.
     tryE (freeze_if (seed_ctx_hash \<noteq> provided_seed_ctx_hash) FREEZE_SEEDCTX_MISMATCH) (\<lambda>_.
     tryE (header_bytes32_or_freeze h 94 FREEZE_SEEDCTX_MISMATCH) (\<lambda>provided_bundle.
     tryE (map_err acc_err (compute_seed_bundle_commit E seed_ctx rho_commit (ap_gid p) (ap_cat p) parent_root)) (\<lambda>expected_bundle.
     tryE (freeze_if (expected_bundle \<noteq> provided_bundle) FREEZE_SEEDCTX_MISMATCH) (\<lambda>_.
     tryE (header_bytes_or_freeze h HDR_POP_PK) (\<lambda>pop_pk.
     Inr \<lparr>js_hp_commit = hp_commit, js_anchor_seed_ctx = seed_ctx, js_seed_ctx_hash = seed_ctx_hash,
       js_seed_bundle = provided_bundle, js_pop_pk = pop_pk\<rparr>)))))))))"

record FsFields =
  ff_epoch_commit :: hash32
  ff_ec :: u64
  ff_dev_prev_commit :: hash32
  ff_dev_commit :: hash32
  ff_barrier_version :: u64

definition fs_verification :: "bytes \<Rightarrow> FsFields \<Rightarrow> hash32 \<Rightarrow> DeviceChainVerification" where
  "fs_verification pop_pk f digest =
     \<lparr>dv_pop_pk = pop_pk, dv_fs_ec = ff_ec f, dv_fs_dev_prev_commit = ff_dev_prev_commit f,
      dv_fs_dev_commit = ff_dev_commit f, dv_barrier_version = ff_barrier_version f, dv_barrier_update_digest = digest\<rparr>"

definition verify_fs_fields :: "Ext \<Rightarrow> bytes \<Rightarrow> bytes \<Rightarrow> FsFields \<Rightarrow> hash32 \<Rightarrow> AcceptanceContext \<Rightarrow> AcceptanceError + unit" where
  "verify_fs_fields E gid pop_pk f digest ctx =
     verify_device_chain_state E ctx gid (device_chain_get ctx gid pop_pk) (fs_verification pop_pk f digest)"

definition join_fs_stage :: "Ext \<Rightarrow> AnchorInstanceParts \<Rightarrow> header \<Rightarrow> bytes \<Rightarrow> hash32 \<Rightarrow> FsFields acc" where
  "join_fs_stage E p h pop_pk digest =
     tryS (liftS (\<lambda>_. freeze_unless (has_key h HDR_FS_EC) FREEZE_FS_JOIN_MISSING)) (\<lambda>_.
     tryS (liftS (\<lambda>_. header_u64_or_freeze h HDR_FS_POLICY_VERSION FREEZE_FS_JOIN_MISSING)) (\<lambda>version.
     tryS (liftS (\<lambda>ctx. ensure_fs_policy_version_allowed ctx (u64_to_string version))) (\<lambda>_.
     tryS (liftS (\<lambda>ctx. freeze_if (case ax_fs_policy_version ctx of None \<Rightarrow> False | Some v \<Rightarrow> v \<noteq> u64_to_string version)
       FREEZE_FS_POLICY_VERSION_UNSUPPORTED)) (\<lambda>_.
     tryS (updS (set_fs_policy_version (Some (u64_to_string version)))) (\<lambda>_.
     tryS (liftS (\<lambda>_. header_u64_or_freeze h HDR_FS_EC FREEZE_FS_JOIN_MISSING)) (\<lambda>fs_ec.
     tryS (liftS (\<lambda>_. header_bytes32_or_freeze h HDR_FS_EPOCH_COMMIT FREEZE_FS_JOIN_MISSING)) (\<lambda>epoch_commit.
     tryS (liftS (\<lambda>_. header_u64_or_freeze h HDR_FS_EPOCH_BASE_TS FREEZE_FS_JOIN_MISSING)) (\<lambda>base_ts.
     tryS (bind_fs_base_ts base_ts) (\<lambda>_.
     tryS (liftS (\<lambda>ctx. freeze_if (fc_window_periods (ax_fs_caps ctx) = 0) FREEZE_FS_POLICY_WINDOW_INCOMPATIBLE)) (\<lambda>_.
     tryS (liftS (\<lambda>_. header_bytes32_or_freeze h HDR_FS_DEV_PREV_COMMIT FREEZE_FS_JOIN_MISSING)) (\<lambda>prev_commit.
     tryS (liftS (\<lambda>_. header_bytes32_or_freeze h HDR_FS_DEV_COMMIT FREEZE_FS_JOIN_MISSING)) (\<lambda>dev_commit.
     tryS (liftS (\<lambda>_. header_u64_or_freeze h HDR_BARRIER_VERSION FREEZE_FS_JOIN_MISSING)) (\<lambda>barrier_version.
     let f = \<lparr>ff_epoch_commit = epoch_commit, ff_ec = fs_ec, ff_dev_prev_commit = prev_commit, ff_dev_commit = dev_commit,
           ff_barrier_version = barrier_version\<rparr> in
     tryS (liftS (verify_fs_fields E (ap_gid p) pop_pk f digest)) (\<lambda>_.
     (\<lambda>ctx. (Inr f, ctx))))))))))))))))"

record JoinIds =
  ji_we_epoch_id :: hash32
  ji_seed_commit :: hash32
  ji_wid :: hash32
  ji_anchor :: AnchorInstance
  ji_xk_hash :: hash32

text \<open>The salt, the epoch identifier and the seed commitment of an anchor.\<close>
definition check_epoch ::
  "Ext \<Rightarrow> AnchorInstanceParts \<Rightarrow> hash32 \<Rightarrow> hash32 \<Rightarrow> bytes \<Rightarrow> hash32 \<Rightarrow> AcceptanceError + hash32 \<times> hash32" where
  "check_epoch E p parent_root we_epoch_id_claim seed_ctx seed_ctx_hash =
     tryE (freeze_if (length (ap_tswe_salt_hash p) \<noteq> 32) FREEZE_FIELD_MISSING) (\<lambda>_.
     tryE (map_err acc_err (tswe_salt_hash E (ap_gid p) parent_root)) (\<lambda>expected_salt.
     tryE (freeze_if (ap_tswe_salt_hash p \<noteq> expected_salt) FREEZE_TSWE_SALT_MISMATCH) (\<lambda>_.
     tryE (map_err acc_err (derive_we_epoch_id E (ap_gid p) (ap_parent_root p) seed_ctx_hash)) (\<lambda>weid.
     tryE (freeze_if (weid \<noteq> we_epoch_id_claim) FREEZE_EPOCHID_MISMATCH) (\<lambda>_.
     tryE (map_err acc_err (compute_seed_commit E seed_ctx
       \<lparr>sc_gid = ap_gid p, sc_cat = ap_cat p, sc_we_epoch_id = weid\<rparr>)) (\<lambda>seed_commit.
     Inr (weid, seed_commit)))))))"

definition anchor_of :: "AnchorInstanceParts \<Rightarrow> hash32 \<Rightarrow> bytes \<Rightarrow> bytes option \<Rightarrow> AnchorInstance" where
  "anchor_of p weid seed_ctx hp_commit =
     \<lparr>ai_gid = ap_gid p, ai_cat = ap_cat p, ai_we_epoch_id = weid, ai_anchor_hdr_ctx = seed_ctx,
      ai_tswe_salt_hash = ap_tswe_salt_hash p, ai_parent_root = ap_parent_root p,
      ai_join_delta_root = ap_join_delta_root p, ai_revoked_since_prev_root = ap_revoked_since_prev_root p,
      ai_revoked_root = ap_revoked_root p, ai_pox_r_commit = ap_pox_r_commit p, ai_msphf_hp_commit = hp_commit\<rparr>"

definition join_ids :: "Ext \<Rightarrow> AnchorInstanceParts \<Rightarrow> hash32 \<Rightarrow> hash32 \<Rightarrow> JoinSeed \<Rightarrow> AcceptanceError + JoinIds" where
  "join_ids E p parent_root we_epoch_id_claim js =
     tryE (check_epoch E p parent_root we_epoch_id_claim (js_anchor_seed_ctx js) (js_seed_ctx_hash js)) (\<lambda>(weid, seed_commit).
     tryE (map_err acc_err (compute_window_id E (ap_gid p) parent_root (js_seed_ctx_hash js))) (\<lambda>wid.
     let anchor = anchor_of p weid (js_anchor_seed_ctx js) (Some (js_hp_commit js)) in
     tryE (map_err acc_err (xk_hash E anchor)) (\<lambda>xk.
     Inr \<lparr>ji_we_epoch_id = weid, ji_seed_commit = seed_commit, ji_wid = wid, ji_anchor = anchor, ji_xk_hash = xk\<rparr>)))"

text \<open>Bootstrap, proof of possession, envelope and proof artefacts.\<close>
definition join_possession ::
  "Ext \<Rightarrow> AnchorInstanceParts \<Rightarrow> header \<Rightarrow> hash32 \<Rightarrow> JoinSeed \<Rightarrow> FsFields \<Rightarrow> JoinIds \<Rightarrow> AcceptanceContext \<Rightarrow>
     AcceptanceError + bytes \<times> ProofArtifacts" where
  "join_possession E p h rho_commit js f ids ctx =
     (let is_genesis = ff_barrier_version f = 0 \<and> is_all_zero (ap_parent_root p) \<and>
            is_all_zero (ap_revoked_since_prev_root p) \<and> is_all_zero (ap_revoked_root p) in
      tryE (if is_genesis
            then validate_bootstrap E h (ji_anchor ids) (js_hp_commit js) (js_seed_ctx_hash js) rho_commit
              (js_seed_bundle js) (ax_bootstrap_policy ctx)
            else ensure_bootstrap_absent h) (\<lambda>_.
      tryE (ensure_join_pop E h (ji_anchor ids) (ax_leaf_id_mode ctx)) (\<lambda>_.
      tryE (extract_pop_signature h) (\<lambda>pop_sig.
      tryE (verify_join_payload_hp_envelope h None BARRIER_HP_CONTEXT_AUTHOR_LOCAL) (\<lambda>_.
      tryE (ensure_proofs E h (ax_allowed_proof_modes ctx) (ax_deprecated_proof_modes ctx) (ax_allowed_vrf_ids ctx)
        (ax_deprecated_vrf_ids ctx)) (\<lambda>proofs.
      Inr (pop_sig, proofs)))))))"

definition join_capss_inputs ::
  "AnchorInstanceParts \<Rightarrow> hash32 \<Rightarrow> JoinSeed \<Rightarrow> FsFields \<Rightarrow> JoinIds \<Rightarrow> ProofArtifacts \<Rightarrow> string \<Rightarrow> string \<Rightarrow> CapssInputs" where
  "join_capss_inputs p rho_commit js f ids proofs crs_id params_id =
     \<lparr>ci_seed_bundle_commit = js_seed_bundle js, ci_rho_commit = rho_commit, ci_hp_commit = js_hp_commit js,
      ci_xk_hash = ji_xk_hash ids, ci_crs_id = crs_id, ci_params_id = params_id, ci_proof_mode = pa_proof_mode proofs,
      ci_fs_policy_version = pa_fs_policy_version proofs, ci_vrf_id = pa_vrf_id proofs,
      ci_parent_root = ap_parent_root p, ci_join_delta_root = ap_join_delta_root p,
      ci_revoked_since_prev_root = ap_revoked_since_prev_root p, ci_revoked_root = ap_revoked_root p,
      ci_fs_epoch_commit = ff_epoch_commit f, ci_fs_ec = ff_ec f, ci_fs_dev_prev_commit = ff_dev_prev_commit f,
      ci_fs_dev_commit = ff_dev_commit f\<rparr>"

definition join_vrf_ctx ::
  "AnchorInstanceParts \<Rightarrow> hash32 \<Rightarrow> JoinSeed \<Rightarrow> FsFields \<Rightarrow> JoinIds \<Rightarrow> ProofArtifacts \<Rightarrow> string \<Rightarrow> string \<Rightarrow> VrfCtx" where
  "join_vrf_ctx p rho_commit js f ids proofs crs_id params_id =
     \<lparr>vx_xk_hash = ji_xk_hash ids, vx_rho_commit = rho_commit, vx_seed_bundle_commit = js_seed_bundle js,
      vx_crs_id = crs_id, vx_hp_commit = js_hp_commit js, vx_params_id = params_id, vx_parent_root = ap_parent_root p,
      vx_join_delta_root = ap_join_delta_root p, vx_revoked_since_prev_root = ap_revoked_since_prev_root p,
      vx_revoked_root = ap_revoked_root p, vx_proof_mode = pa_proof_mode proofs,
      vx_profile_version = BASE_PROFILE_VERSION, vx_fs_policy_version = pa_fs_policy_version proofs,
      vx_meor_vrf_id = pa_vrf_id proofs, vx_fs_epoch_commit = ff_epoch_commit f, vx_fs_ec = ff_ec f,
      vx_fs_dev_prev_commit = ff_dev_prev_commit f, vx_fs_dev_commit = ff_dev_commit f, vx_srx_root_sw = None,
      vx_we_epoch_id = ji_we_epoch_id ids\<rparr>"

text \<open>The checks after the pending witness has been taken: SmallWood proof, rho parity, strict witness, VRF.\<close>
definition join_proofs ::
  "Verifiers \<Rightarrow> AnchorInstanceParts \<Rightarrow> header \<Rightarrow> hash32 \<Rightarrow> JoinSeed \<Rightarrow> FsFields \<Rightarrow> JoinIds \<Rightarrow> bytes \<Rightarrow> ProofArtifacts \<Rightarrow>
     cbor option \<Rightarrow> AcceptanceContext \<Rightarrow> AcceptanceError + unit" where
  "join_proofs V p h rho_commit js f ids pop_sig proofs pending ctx =
     tryE (header_string_or_freeze h 98) (\<lambda>crs_id.
     tryE (header_string_or_freeze h 106) (\<lambda>params_id.
     tryE (capss_proof_from_bytes V (pa_fs_capss proofs)) (\<lambda>capss_proof.
     tryE (capss_verify V (join_capss_inputs p rho_commit js f ids proofs crs_id params_id) capss_proof) (\<lambda>_.
     tryE (header_string_or_freeze h 107) (\<lambda>pop_alg.
     tryE (map_err acc_err (compute_leaf_id (ext V) (ax_leaf_id_mode ctx) (ap_gid p) pop_alg (js_pop_pk js))) (\<lambda>leaf_id.
     tryE (derive_rho_commit_from_pop (ext V) pop_sig (ji_xk_hash ids)) (\<lambda>expected_rho.
     tryE (freeze_if (expected_rho \<noteq> rho_commit) FREEZE_CAPSS_INVALID) (\<lambda>_.
     tryE (if length leaf_id = 32
           then tryE (srx_contains_leaf_id V h leaf_id) (\<lambda>found. freeze_if (found = Some False) FREEZE_SRX_INVALID)
           else Inr ()) (\<lambda>_.
     tryE (case recompute_capss_witness V \<lparr>cs_crs_id = crs_id, cs_params_id = params_id, cs_seed_commit = ji_seed_commit ids,
               cs_seed_ctx_hash = js_seed_ctx_hash js, cs_xk_hash = ji_xk_hash ids, cs_rho_commit = rho_commit,
               cs_pop_alg = pop_alg, cs_pop_pk = js_pop_pk js, cs_anchor = ji_anchor ids, cs_leaf_id = leaf_id,
               cs_pop_sig = pop_sig\<rparr> of
             Inr w \<Rightarrow> Inr w
           | Inl (WitnessReplayMismatch _) \<Rightarrow> Inl (Freeze FREEZE_CAPSS_INVALID)
           | Inl other \<Rightarrow> Inl (acc_err other)) (\<lambda>strict.
     tryE (freeze_if (case pending of None \<Rightarrow> False | Some w \<Rightarrow> w \<noteq> strict) FREEZE_CAPSS_INVALID) (\<lambda>_.
     tryE (freeze_if (MAX_VRF_PROOF_BYTES < length (pa_vrf_pi proofs)) FREEZE_VRF_INVALID) (\<lambda>_.
     freeze_unless (vrf_verify V (pa_vrf_public proofs) (join_vrf_ctx p rho_commit js f ids proofs crs_id params_id)
       (pa_mask_a proofs, pa_mask_b proofs) (pa_vrf_pi proofs) = Inr True) FREEZE_VRF_INVALID))))))))))))"

section \<open>Commit of the join\<close>

text \<open>The device chain takes the new link; the group records the epoch.\<close>
definition advance_device :: "bytes \<Rightarrow> bytes \<Rightarrow> hash32 \<Rightarrow> u64 \<Rightarrow> AcceptanceContext \<Rightarrow> AcceptanceContext" where
  "advance_device gid pop_pk dev_commit fs_ec =
     device_chain_entry_mut gid pop_pk (\<lambda>d. d\<lparr>dc_last_commit := Some dev_commit, dc_last_ec := fs_ec\<rparr>)"

definition join_record :: "AnchorInstanceParts \<Rightarrow> hash32 \<Rightarrow> JoinSeed \<Rightarrow> JoinIds \<Rightarrow> u64 \<Rightarrow> AcceptInstant \<Rightarrow> HeadRecord" where
  "join_record p rho_commit js ids seq now =
     \<lparr>hr_we_epoch_id = ji_we_epoch_id ids, hr_msphf_hp_commit = js_hp_commit js, hr_seed_ctx_hash = js_seed_ctx_hash js,
      hr_rho_commit = rho_commit, hr_seed_commit = ji_seed_commit ids, hr_xk_hash = ji_xk_hash ids,
      hr_join_delta_root = ap_join_delta_root p, hr_revoked_since_root = ap_revoked_since_prev_root p,
      hr_revoked_root = ap_revoked_root p, hr_accept_seq = seq, hr_accept_time = now\<rparr>"

text \<open>The fields the join copies into the pivot store.\<close>
definition join_pivot_fields :: "header \<Rightarrow> AcceptanceError + bytes \<times> bytes \<times> hash32 option" where
  "join_pivot_fields h =
     tryE (header_value_bytes h HDR_CRS_ID FREEZE_MSPHF_CRS_INVALID) (\<lambda>crs_id.
     tryE (header_value_bytes h HDR_PARAMS_ID FREEZE_PARAMS_ID_INVALID) (\<lambda>params_id.
     tryE (case bt_get h HDR_SRX_COMMIT of
             Some (CBytes b) \<Rightarrow> if length b = 32 then Inr (Some b) else Inl (Freeze FREEZE_SRX_INVALID)
           | Some _ \<Rightarrow> Inl (Freeze FREEZE_SRX_INVALID)
           | None \<Rightarrow> Inr None) (\<lambda>srx_commit.
     Inr (crs_id, params_id, srx_commit))))"

definition join_pivot ::
  "Ext \<Rightarrow> AnchorInstanceParts \<Rightarrow> header \<Rightarrow> hash32 \<Rightarrow> hash32 \<Rightarrow> JoinSeed \<Rightarrow> FsFields \<Rightarrow> JoinIds \<Rightarrow> ProofArtifacts \<Rightarrow> u64 \<Rightarrow>
     bytes \<times> bytes \<times> hash32 option \<Rightarrow> hash32 option \<Rightarrow> PivotParity" where
  "join_pivot E p h parent_root rho_commit js f ids proofs seq pf root_sw =
     (case pf of (crs_id, params_id, srx_commit) \<Rightarrow>
      \<lparr>pp_gid = ap_gid p, pp_cat = ap_cat p, pp_parent_root = parent_root, pp_we_epoch_id = ji_we_epoch_id ids,
       pp_rho_commit = rho_commit, pp_seed_ctx_hash = js_seed_ctx_hash js, pp_seed_commit = ji_seed_commit ids,
       pp_hp_commit = js_hp_commit js, pp_xk_hash = ji_xk_hash ids, pp_join_delta_root = ap_join_delta_root p,
       pp_revoked_since_root = ap_revoked_since_prev_root p, pp_revoked_root = ap_revoked_root p, pp_accept_seq = seq,
       pp_crs_id = crs_id, pp_params_id = params_id, pp_policy_version = u64_to_string (pa_fs_policy_version proofs),
       pp_proof_mode = pa_proof_mode proofs, pp_vrf_id = pa_vrf_id proofs, pp_vrf_proof = pa_vrf_pi proofs,
       pp_vrf_public = pa_vrf_public proofs, pp_mask_a = pa_mask_a proofs, pp_mask_b = pa_mask_b proofs,
       pp_fs_capss = pa_fs_capss proofs, pp_proofs_commit = pa_commit proofs, pp_srx_commit = srx_commit,
       pp_srx_root_sw = root_sw, pp_is_join = True,
       pp_hp_envelope = (case Option.bind (bt_get h HDR_HP_BYTES) (\<lambda>v. case to_cbor_vec E v of Inr b \<Rightarrow> Some b | Inl _ \<Rightarrow> None) of
          Some b \<Rightarrow> b | None \<Rightarrow> []),
       pp_fs_epoch_commit = Some (ff_epoch_commit f), pp_fs_ec = Some (ff_ec f), pp_fs_dev_commit = Some (ff_dev_commit f)\<rparr>)"

definition join_outcome ::
  "hash32 \<Rightarrow> JoinSeed \<Rightarrow> FsFields \<Rightarrow> JoinIds \<Rightarrow> u64 \<Rightarrow> AcceptInstant \<Rightarrow> string option \<Rightarrow> AcceptanceOutcome" where
  "join_outcome rho_commit js f ids seq now mh_note =
     \<lparr>oc_kind = NonMerge, oc_we_epoch_id = ji_we_epoch_id ids, oc_wid = ji_wid ids, oc_seed_ctx_hash = js_seed_ctx_hash js,
      oc_seed_commit = ji_seed_commit ids, oc_rho_commit = rho_commit, oc_hp_commit = js_hp_commit js,
      oc_xk_hash = ji_xk_hash ids, oc_accept_seq = seq, oc_accept_time = now, oc_mh_note = mh_note,
      oc_fs_epoch_commit = Some (ff_epoch_commit f), oc_fs_ec = Some (ff_ec f), oc_fs_dev_commit = Some (ff_dev_commit f)\<rparr>"

text \<open>What validation hands to the commit.\<close>
record JoinChecked =
  jc_parent_root :: hash32
  jc_key :: TelemetryKey
  jc_rho_commit :: hash32
  jc_seed :: JoinSeed
  jc_fs :: FsFields
  jc_ids :: JoinIds
  jc_proofs :: ProofArtifacts
  jc_seq :: u64

definition join_commit ::
  "Verifiers \<Rightarrow> AnchorInstanceParts \<Rightarrow> header \<Rightarrow> JoinChecked \<Rightarrow> string option \<Rightarrow> hash32 \<Rightarrow> AcceptInstant \<Rightarrow> AcceptanceOutcome acc" where
  "join_commit V p h c mh_note digest now =
     (let js = jc_seed c; f = jc_fs c; ids = jc_ids c in
      tryS (liftS (verify_fs_fields (ext V) (ap_gid p) (js_pop_pk js) f digest)) (\<lambda>_.
      tryS (updS (advance_device (ap_gid p) (js_pop_pk js) (ff_dev_commit f) (ff_ec f))) (\<lambda>_.
      tryS (updS (record_accepted_ec (ap_gid p) (ff_ec f))) (\<lambda>_.
      tryS (window_result (jc_key c) (ji_wid ids)
        (ctx_accept_non_merge (ji_wid ids) (join_record p (jc_rho_commit c) js ids (jc_seq c) now) now)) (\<lambda>_.
      tryS (liftS (\<lambda>_. join_pivot_fields h)) (\<lambda>pf.
      tryS (updS (\<lambda>ctx. insert_pivot_parity (join_pivot (ext V) p h (jc_parent_root c) (jc_rho_commit c) js f ids (jc_proofs c)
        (jc_seq c) pf (group_srx_root_sw ctx (ap_gid p))) now ctx)) (\<lambda>_.
      (\<lambda>ctx. (Inr (join_outcome (jc_rho_commit c) js f ids (jc_seq c) now mh_note), ctx)))))))))"

section \<open>The handler\<close>

definition join_validate ::
  "Verifiers \<Rightarrow> AnchorInstanceParts \<Rightarrow> hash32 \<Rightarrow> header \<Rightarrow> hash32 \<Rightarrow> AcceptInstant \<Rightarrow> JoinChecked acc" where
  "join_validate V p we_epoch_id_claim h digest now =
     tryS (liftS (join_preflight p h)) (\<lambda>parent_root.
     tryS (telemetry_record_attempt (ap_gid p) (ap_parent_root p)) (\<lambda>key.
     tryS (liftS (\<lambda>_. header_bytes32_or_freeze h 93 FREEZE_RHO_PARITY)) (\<lambda>rho_commit.
     tryS (join_replay_guard p rho_commit key now) (\<lambda>_.
     tryS (liftS (\<lambda>_. join_seed (ext V) p h parent_root rho_commit)) (\<lambda>js.
     tryS (join_fs_stage (ext V) p h (js_pop_pk js) digest) (\<lambda>f.
     tryS (liftS (\<lambda>_. join_ids (ext V) p parent_root we_epoch_id_claim js)) (\<lambda>ids.
     tryS take_accept_seq (\<lambda>seq.
     tryS (liftS (join_possession (ext V) p h rho_commit js f ids)) (\<lambda>possession.
     tryS take_pending_capss_witness (\<lambda>pending.
     tryS (liftS (join_proofs V p h rho_commit js f ids (fst possession) (snd possession) pending)) (\<lambda>_.
     (\<lambda>ctx. (Inr \<lparr>jc_parent_root = parent_root, jc_key = key, jc_rho_commit = rho_commit, jc_seed = js, jc_fs = f,
        jc_ids = ids, jc_proofs = snd possession, jc_seq = seq\<rparr>, ctx)))))))))))))"

definition accept_anchor_join ::
  "Verifiers \<Rightarrow> AnchorInstanceParts \<Rightarrow> hash32 \<Rightarrow> header \<Rightarrow> string option \<Rightarrow> hash32 \<Rightarrow> AcceptInstant \<Rightarrow> AcceptanceOutcome acc" where
  "accept_anchor_join V p we_epoch_id_claim h mh_note digest now =
     tryS (join_validate V p we_epoch_id_claim h digest now) (\<lambda>c. join_commit V p h c mh_note digest now)"

section \<open>What a join leaves behind\<close>

lemma evolves_replay_guard [frame_intro]: "evolves core_frame (join_replay_guard p rho key now)"
  by (rule evolvesI) (auto simp: join_replay_guard_def telemetry_record_rho_freeze_def Let_def core_frame_fields core.refl
    split: prod.splits if_splits)

lemma evolves_base_ts [frame_intro]: "evolves core_frame (bind_fs_base_ts v)"
  by (rule evolvesI) (auto simp: bind_fs_base_ts_def set_fs_base_ts_def core_frame_fields core.refl split: option.splits if_splits)

lemma evolves_accept_seq [frame_intro]: "evolves core_frame take_accept_seq"
  by (rule evolvesI) (auto simp: take_accept_seq_def core_frame_fields core.refl)

lemma evolves_fs_stage [frame_intro]: "evolves core_frame (join_fs_stage E p h pk digest)"
  unfolding join_fs_stage_def Let_def
  by (intro core.evolves_intro frame_intro core.evolves_upd) (simp add: set_fs_policy_version_def core_frame_fields core.refl)

lemma evolves_validate: "evolves core_frame (join_validate V p claim h digest now)"
  unfolding join_validate_def by (intro core.evolves_intro frame_intro)

text \<open>The pivot store, which a join touches only in its commit and a merge before its commit only by listing the pivots.\<close>
definition store_frame :: "AcceptanceContext \<Rightarrow> AcceptanceContext \<Rightarrow> bool" where
  "store_frame s t \<longleftrightarrow> ax_pivot_store t = ax_pivot_store s"

interpretation store: state_relation store_frame
  by unfold_locales (auto simp: store_frame_def)

lemma evolves_store [frame_intro]:
  "evolves store_frame (bind_fs_base_ts v)" "evolves store_frame (telemetry_record_attempt gid root)"
  "evolves store_frame take_accept_seq" "evolves store_frame (join_replay_guard p rho key now)"
  "evolves store_frame take_pending_capss_witness"
  by (rule evolvesI, auto simp: bind_fs_base_ts_def set_fs_base_ts_def telemetry_record_attempt_def telemetry_entry_mut_def
    take_accept_seq_def join_replay_guard_def telemetry_record_rho_freeze_def take_pending_capss_witness_def store_frame_def Let_def
    split: option.splits prod.splits if_splits)+

lemma evolves_validate_store: "evolves store_frame (join_validate V p claim h digest now)"
proof -
  have "evolves store_frame (join_fs_stage E p h pk digest)" for E pk
    unfolding join_fs_stage_def Let_def
    by (intro store.evolves_intro frame_intro store.evolves_upd) (simp add: set_fs_policy_version_def store_frame_def)
  then show ?thesis
    unfolding join_validate_def by (intro store.evolves_intro frame_intro)
qed

lemma evolves_join_policy [frame_intro]:
  "evolves policy_frame (join_replay_guard p rho key now)" "evolves policy_frame (bind_fs_base_ts v)"
  "evolves policy_frame take_accept_seq"
  by (rule evolvesI, auto simp: join_replay_guard_def telemetry_record_rho_freeze_def telemetry_entry_mut_def Let_def
    bind_fs_base_ts_def set_fs_base_ts_def take_accept_seq_def policy_frame_def split: prod.splits option.splits if_splits)+

lemma evolves_fs_stage_policy [frame_intro]: "evolves policy_frame (join_fs_stage E p h pk digest)"
  unfolding join_fs_stage_def Let_def
  by (intro policy.evolves_intro frame_intro policy.evolves_upd) (simp add: set_fs_policy_version_def policy_frame_def)

lemma join_possession_cong:
  "policy_frame s t \<Longrightarrow> join_possession E p h rho js f ids t = join_possession E p h rho js f ids s"
  by (simp add: join_possession_def policy_frame_def)

lemma join_proofs_cong:
  "policy_frame s t \<Longrightarrow> join_proofs V p h rho js f ids sg proofs w t = join_proofs V p h rho js f ids sg proofs w s"
  by (simp add: join_proofs_def policy_frame_def)

text \<open>What validation has checked when it succeeds.\<close>
lemma join_validate_Inr:
  assumes "join_validate V p claim h digest now ctx = (Inr c, ctxm)"
  shows "join_preflight p h ctx = Inr (jc_parent_root c)"
    and "join_seed (ext V) p h (jc_parent_root c) (jc_rho_commit c) = Inr (jc_seed c)"
    and "join_ids (ext V) p (jc_parent_root c) claim (jc_seed c) = Inr (jc_ids c)"
    and "\<exists>pop_sig pending. join_possession (ext V) p h (jc_rho_commit c) (jc_seed c) (jc_fs c) (jc_ids c) ctx = Inr (pop_sig, jc_proofs c) \<and>
      join_proofs V p h (jc_rho_commit c) (jc_seed c) (jc_fs c) (jc_ids c) pop_sig (jc_proofs c) pending ctx = Inr ()"
proof -
  show "join_preflight p h ctx = Inr (jc_parent_root c)"
    "join_seed (ext V) p h (jc_parent_root c) (jc_rho_commit c) = Inr (jc_seed c)"
    "join_ids (ext V) p (jc_parent_root c) claim (jc_seed c) = Inr (jc_ids c)"
    using assms by (auto simp: join_validate_def eff_simps)
  obtain u ua ub uc pop_sig pending key where
    run: "telemetry_record_attempt (ap_gid p) (ap_parent_root p) ctx = (Inr key, u)"
      "join_replay_guard p (jc_rho_commit c) key now u = (Inr (), ua)"
      "join_fs_stage (ext V) p h (js_pop_pk (jc_seed c)) digest ua = (Inr (jc_fs c), ub)"
      "take_accept_seq ub = (Inr (jc_seq c), uc)" "take_pending_capss_witness uc = (Inr pending, ctxm)" and
    checks: "join_possession (ext V) p h (jc_rho_commit c) (jc_seed c) (jc_fs c) (jc_ids c) uc = Inr (pop_sig, jc_proofs c)"
      "join_proofs V p h (jc_rho_commit c) (jc_seed c) (jc_fs c) (jc_ids c) pop_sig (jc_proofs c) pending ctxm = Inr ()"
    using assms by (auto simp: join_validate_def eff_simps)
  have steps: "policy_frame ctx u" "policy_frame u ua" "policy_frame ua ub" "policy_frame ub uc" "policy_frame uc ctxm"
    using evolvesD [OF evolves_policy(1) run(1)] evolvesD [OF evolves_join_policy(1) run(2)]
      evolvesD [OF evolves_fs_stage_policy run(3)] evolvesD [OF evolves_join_policy(3) run(4)]
      evolvesD [OF evolves_policy(2) run(5)] by simp_all
  then have "policy_frame ctx uc"
    by (blast intro: policy.trans)
  moreover from this steps(5) have "policy_frame ctx ctxm"
    by (rule policy.trans)
  ultimately show "\<exists>pop_sig pending.
      join_possession (ext V) p h (jc_rho_commit c) (jc_seed c) (jc_fs c) (jc_ids c) ctx = Inr (pop_sig, jc_proofs c) \<and>
      join_proofs V p h (jc_rho_commit c) (jc_seed c) (jc_fs c) (jc_ids c) pop_sig (jc_proofs c) pending ctx = Inr ()"
    using checks by (auto simp: join_possession_cong join_proofs_cong)
qed

text \<open>The header fields of the pivot were checked before the commit, so nothing fails after the window took the head.\<close>
lemma join_pivot_fields_total:
  assumes "join_preflight p h ctx = Inr parent_root"
  shows "\<exists>pf. join_pivot_fields h = Inr pf"
proof -
  have "bt_get h HDR_SRX_COMMIT = None"
    using assms by (auto simp: join_preflight_def result_simps ensure_join_srx_keys_absent_def srx_only_presence_def
      SRX_ONLY_KEYS_def)
  moreover have "\<exists>b. header_value_bytes h HDR_CRS_ID FREEZE_MSPHF_CRS_INVALID = Inr b"
    using assms by (auto simp: join_preflight_def result_simps ensure_crs_id_def header_text_def header_value_bytes_def
      split: option.splits cbor.splits)
  moreover have "\<exists>b. header_value_bytes h HDR_PARAMS_ID FREEZE_PARAMS_ID_INVALID = Inr b"
    using assms by (auto simp: join_preflight_def result_simps ensure_params_id_def header_value_bytes_def Let_def
      split: option.splits cbor.splits)
  ultimately show ?thesis
    by (auto simp: join_pivot_fields_def)
qed

lemma verify_fs_cong:
  assumes "core_frame s t"
  shows "verify_fs_fields E gid pk f digest t = verify_fs_fields E gid pk f digest s"
  using core_frameD [OF assms] by (simp add: verify_fs_fields_def verify_device_chain_state_def cong: option.case_cong)

lemma join_validate_fs:
  assumes "join_validate V p claim h digest now ctx = (Inr c, ctxm)"
  shows "verify_fs_fields (ext V) (ap_gid p) (js_pop_pk (jc_seed c)) (jc_fs c) digest ctxm = Inr ()"
proof -
  obtain u ua ub uc pending key where
    run: "telemetry_record_attempt (ap_gid p) (ap_parent_root p) ctx = (Inr key, u)"
      "join_replay_guard p (jc_rho_commit c) key now u = (Inr (), ua)"
      "join_fs_stage (ext V) p h (js_pop_pk (jc_seed c)) digest ua = (Inr (jc_fs c), ub)"
      "take_accept_seq ub = (Inr (jc_seq c), uc)" "take_pending_capss_witness uc = (Inr pending, ctxm)"
    using assms by (auto simp: join_validate_def eff_simps)
  have "verify_fs_fields (ext V) (ap_gid p) (js_pop_pk (jc_seed c)) (jc_fs c) digest ub = Inr ()"
    using run(3) by (auto simp: join_fs_stage_def eff_simps Let_def)
  moreover have "core_frame ub uc" "core_frame uc ctxm"
    using evolvesD [OF evolves_accept_seq run(4)] evolvesD [OF evolves_pending run(5)] by simp_all
  ultimately show ?thesis
    by (metis core.trans verify_fs_cong)
qed

text \<open>The context once the device has advanced, before the window is asked.\<close>
definition join_advanced :: "AnchorInstanceParts \<Rightarrow> JoinChecked \<Rightarrow> AcceptanceContext \<Rightarrow> AcceptanceContext" where
  "join_advanced p c ctx =
     record_accepted_ec (ap_gid p) (ff_ec (jc_fs c))
       (advance_device (ap_gid p) (js_pop_pk (jc_seed c)) (ff_dev_commit (jc_fs c)) (ff_ec (jc_fs c)) ctx)"

lemma join_commit_cases:
  assumes "verify_fs_fields (ext V) (ap_gid p) (js_pop_pk (jc_seed c)) (jc_fs c) digest ctx = Inr ()"
    and "join_pivot_fields h = Inr pf" and "join_commit V p h c note digest now ctx = (r, ctx')"
  obtains (full) w where
      "accept_head (ax_mh_window ctx) (ji_wid (jc_ids c)) (join_record p (jc_rho_commit c) (jc_seed c) (jc_ids c) (jc_seq c) now) now =
         (Inl WINDOW_FULL, w)"
      "r = Inl (Freeze WINDOW_FULL)"
      "ctx' = telemetry_record_window_full (jc_key c) ((join_advanced p c ctx)\<lparr>ax_mh_window := w\<rparr>)"
  | (taken) w n root where
      "accept_head (ax_mh_window ctx) (ji_wid (jc_ids c)) (join_record p (jc_rho_commit c) (jc_seed c) (jc_ids c) (jc_seq c) now) now =
         (Inr (), w)"
      "r = Inr (join_outcome (jc_rho_commit c) (jc_seed c) (jc_fs c) (jc_ids c) (jc_seq c) now note)"
      "ctx' = insert_pivot_parity (join_pivot (ext V) p h (jc_parent_root c) (jc_rho_commit c) (jc_seed c) (jc_fs c) (jc_ids c)
         (jc_proofs c) (jc_seq c) pf root) now (telemetry_record_success (jc_key c) n ((join_advanced p c ctx)\<lparr>ax_mh_window := w\<rparr>))"
proof -
  let ?rec = "join_record p (jc_rho_commit c) (jc_seed c) (jc_ids c) (jc_seq c) now"
  let ?adv = "join_advanced p c ctx"
  have w: "ax_mh_window ?adv = ax_mh_window ctx"
    by (simp add: join_advanced_def record_accepted_ec_def advance_device_def ctx_simps)
  obtain q w' where q: "accept_head (ax_mh_window ctx) (ji_wid (jc_ids c)) ?rec now = (q, w')"
    by fastforce
  show thesis
  proof (cases q)
    case (Inl e)
    then have "e = WINDOW_FULL"
      using q by (auto simp: accept_head_def Let_def split: if_splits)
    then show thesis
      using full [of w'] assms q w Inl by (simp add: join_commit_def tryS_def liftS_def updS_def window_result_def
        ctx_accept_non_merge_def join_advanced_def Let_def)
  next
    case (Inr u)
    then have run: "join_commit V p h c note digest now ctx =
        (let ctx1 = telemetry_record_success (jc_key c) (active_heads w' (ji_wid (jc_ids c))) (?adv\<lparr>ax_mh_window := w'\<rparr>) in
         (Inr (join_outcome (jc_rho_commit c) (jc_seed c) (jc_fs c) (jc_ids c) (jc_seq c) now note),
          insert_pivot_parity (join_pivot (ext V) p h (jc_parent_root c) (jc_rho_commit c) (jc_seed c) (jc_fs c) (jc_ids c)
            (jc_proofs c) (jc_seq c) pf (group_srx_root_sw ctx1 (ap_gid p))) now ctx1))"
      using assms(1,2) q w by (simp add: join_commit_def tryS_def liftS_def updS_def window_result_def
        ctx_accept_non_merge_def join_advanced_def Let_def)
    show thesis
      using taken [OF _ sym sym] q Inr run assms(3) by (simp add: Let_def)
  qed
qed

lemma never_full_join_steps [unfilled_intro]:
  "never_full take_accept_seq" "never_full (join_replay_guard p rho key now)" "never_full (bind_fs_base_ts v)"
  by (auto simp: never_full_def take_accept_seq_def join_replay_guard_def bind_fs_base_ts_def freeze_defs WINDOW_FULL_def Let_def
    split: option.split prod.split)

lemma unfilled_epoch [unfilled_intro]:
  "unfilled (check_roots p h)" "unfilled (check_epoch E p root claim sc sch)"
  unfolding check_roots_def matching_root_def check_epoch_def
  by (auto simp: freeze_defs WINDOW_FULL_def intro!: unfilled_intro)

lemma unfilled_join [unfilled_intro]:
  "unfilled (join_preflight p h ctx)" "unfilled (join_seed E p h root rho)" "unfilled (join_ids E p root claim js)"
  "unfilled (join_possession E p h rho js f ids ctx)"
  unfolding join_preflight_def join_seed_def join_ids_def join_possession_def
  by (auto simp: freeze_defs WINDOW_FULL_def intro!: unfilled_intro)

lemma unfilled_join_proofs [unfilled_intro]: "unfilled (join_proofs V p h rho js f ids sg proofs w ctx)"
proof -
  have "unfilled (case r of Inr w \<Rightarrow> Inr w | Inl (WitnessReplayMismatch _) \<Rightarrow> Inl (Freeze FREEZE_CAPSS_INVALID) | Inl e \<Rightarrow> Inl (acc_err e))"
    for r :: "MsphfError + cbor"
    by (auto simp: freeze_defs WINDOW_FULL_def split: sum.split MsphfError.split)
  then show ?thesis
    unfolding join_proofs_def by (auto simp: freeze_defs WINDOW_FULL_def intro!: unfilled_intro)
qed

lemma never_full_join: "never_full (join_validate V p claim h digest now)"
  unfolding join_validate_def join_fs_stage_def verify_fs_fields_def Let_def
  by (intro unfilled_intro) (simp_all add: freeze_defs WINDOW_FULL_def)

text \<open>The frame of a run: either it failed in validation, or it passed validation and reached the commit.\<close>
lemma join_run:
  assumes "accept_anchor_join V p claim h note digest now ctx = (r, ctx')"
  obtains (validation) e where "r = Inl e" "core_frame ctx ctx'" "e \<noteq> Freeze WINDOW_FULL" "ax_pivot_store ctx' = ax_pivot_store ctx"
  | (commit) c ctxm pf where "join_validate V p claim h digest now ctx = (Inr c, ctxm)" "core_frame ctx ctxm"
      "verify_fs_fields (ext V) (ap_gid p) (js_pop_pk (jc_seed c)) (jc_fs c) digest ctxm = Inr ()"
      "join_pivot_fields h = Inr pf" "join_commit V p h c note digest now ctxm = (r, ctx')"
proof -
  obtain v ctxm where v: "join_validate V p claim h digest now ctx = (v, ctxm)"
    by fastforce
  then have frame: "core_frame ctx ctxm" and store: "store_frame ctx ctxm"
    by (rule evolvesD [OF evolves_validate], rule evolvesD [OF evolves_validate_store])
  show thesis
  proof (cases v)
    case (Inl e)
    then have "e \<noteq> Freeze WINDOW_FULL"
      using never_fullD [OF never_full_join] v by metis
    with Inl show thesis
      using validation [of e] assms v frame store by (auto simp: accept_anchor_join_def tryS_def store_frame_def)
  next
    case (Inr c)
    moreover obtain pf where "join_pivot_fields h = Inr pf"
      using join_pivot_fields_total join_validate_Inr(1) v Inr by blast
    ultimately show thesis
      using commit assms v frame join_validate_fs by (simp add: accept_anchor_join_def tryS_def)
  qed
qed

lemma join_advanced_simps:
  "device_chain_get (join_advanced p c ctx) gid pk =
     (if gid = ap_gid p \<and> pk = js_pop_pk (jc_seed c)
      then Some ((case device_chain_get ctx gid pk of None \<Rightarrow> device_chain_default | Some d \<Rightarrow> d)
        \<lparr>dc_last_commit := Some (ff_dev_commit (jc_fs c)), dc_last_ec := ff_ec (jc_fs c)\<rparr>)
      else device_chain_get ctx gid pk)"
  "last_accepted_ec (join_advanced p c ctx) gid =
     (if gid = ap_gid p then max (last_accepted_ec ctx gid) (ff_ec (jc_fs c)) else last_accepted_ec ctx gid)"
  by (auto simp: join_advanced_def record_accepted_ec_def advance_device_def last_accepted_ec_def
    barrier_group_default_def max_def word_neq_0_conv [symmetric] split: option.split)

lemma join_seed_pop_pk: "join_seed E p h root rho = Inr js \<Longrightarrow> bt_get h HDR_POP_PK = Some (CBytes (js_pop_pk js))"
  by (auto simp: join_seed_def result_simps header_bytes_or_freeze_def split: option.splits cbor.splits)

section \<open>What validation has read\<close>

lemma join_ids_Inr:
  assumes "join_ids E p root claim js = Inr ids"
  shows "ji_we_epoch_id ids = claim" "ji_anchor ids = anchor_of p claim (js_anchor_seed_ctx js) (Some (js_hp_commit js))"
    "xk_hash E (ji_anchor ids) = Inr (ji_xk_hash ids)"
    "derive_we_epoch_id E (ap_gid p) (ap_parent_root p) (js_seed_ctx_hash js) = Inr claim"
    "compute_window_id E (ap_gid p) root (js_seed_ctx_hash js) = Inr (ji_wid ids)"
  using assms by (auto simp: join_ids_def check_epoch_def result_simps Let_def split: prod.splits)

lemma join_seed_Inr:
  assumes "join_seed E p h root rho = Inr js"
  shows "build_anchor_seed_ctx E h = Inr (js_anchor_seed_ctx js)"
    "compute_seed_ctx_hash E (js_anchor_seed_ctx js) = Inr (js_seed_ctx_hash js)"
    "header_bytes32_or_freeze h 91 FREEZE_SEEDCTX_MISMATCH = Inr (js_seed_ctx_hash js)"
    "header_bytes32_or_freeze h 94 FREEZE_SEEDCTX_MISMATCH = Inr (js_seed_bundle js)"
    "header_bytes32_or_freeze h 99 FREEZE_FIELD_MISSING = Inr (js_hp_commit js)"
  using assms by (auto simp: join_seed_def result_simps)

lemma join_fs_stage_Inr:
  assumes "join_fs_stage E p h pk digest ctx = (Inr f, ctx')"
  shows "header_u64_or_freeze h HDR_FS_EC FREEZE_FS_JOIN_MISSING = Inr (ff_ec f)"
    "header_bytes32_or_freeze h HDR_FS_DEV_COMMIT FREEZE_FS_JOIN_MISSING = Inr (ff_dev_commit f)"
    "header_bytes32_or_freeze h HDR_FS_DEV_PREV_COMMIT FREEZE_FS_JOIN_MISSING = Inr (ff_dev_prev_commit f)"
    "header_bytes32_or_freeze h HDR_FS_EPOCH_COMMIT FREEZE_FS_JOIN_MISSING = Inr (ff_epoch_commit f)"
  using assms by (auto simp: join_fs_stage_def eff_simps Let_def)

lemma join_validate_fields:
  assumes "join_validate V p claim h digest now ctx = (Inr c, ctxm)"
  shows "\<exists>t t'. join_fs_stage (ext V) p h (js_pop_pk (jc_seed c)) digest t = (Inr (jc_fs c), t')"
    "jc_parent_root c = ap_parent_root p" "ax_pivot_store ctxm = ax_pivot_store ctx"
    "header_bytes32_or_freeze h 91 FREEZE_SEEDCTX_MISMATCH = Inr (js_seed_ctx_hash (jc_seed c))"
    "compute_window_id (ext V) (ap_gid p) (ap_parent_root p) (js_seed_ctx_hash (jc_seed c)) = Inr (ji_wid (jc_ids c))"
proof -
  show "\<exists>t t'. join_fs_stage (ext V) p h (js_pop_pk (jc_seed c)) digest t = (Inr (jc_fs c), t')"
    using assms by (fastforce simp: join_validate_def eff_simps)
  show root: "jc_parent_root c = ap_parent_root p"
    using join_validate_Inr(1) [OF assms] by (auto simp: join_preflight_def check_roots_def matching_root_def result_simps)
  show "ax_pivot_store ctxm = ax_pivot_store ctx"
    using evolvesD [OF evolves_validate_store assms] by (simp add: store_frame_def)
  show "header_bytes32_or_freeze h 91 FREEZE_SEEDCTX_MISMATCH = Inr (js_seed_ctx_hash (jc_seed c))"
    by (rule join_seed_Inr(3) [OF join_validate_Inr(2) [OF assms]])
  show "compute_window_id (ext V) (ap_gid p) (ap_parent_root p) (js_seed_ctx_hash (jc_seed c)) = Inr (ji_wid (jc_ids c))"
    using join_ids_Inr(5) [OF join_validate_Inr(3) [OF assms]] root by simp
qed

section \<open>What a refused join leaves behind\<close>

lemma accept_head_full:
  assumes "accept_head w wid r now = (Inl WINDOW_FULL, w')"
  shows "window w' k = (if k = wid then filter (live (ttl w) now) (window w wid) else window w k)"
    "h_max w \<le> length (filter (live (ttl w) now) (window w wid))"
  using assms by (auto simp: accept_head_def Let_def mhw_simps split: if_splits)

text \<open>The state once the device has advanced and the window has been asked.\<close>
lemma join_advanced_state:
  assumes "core_frame ctx ctxm"
  shows "device_chain_get ((join_advanced p c ctxm)\<lparr>ax_mh_window := w\<rparr>) gid pk =
      (if gid = ap_gid p \<and> pk = js_pop_pk (jc_seed c)
       then Some ((case device_chain_get ctx gid pk of None \<Rightarrow> device_chain_default | Some d \<Rightarrow> d)
         \<lparr>dc_last_commit := Some (ff_dev_commit (jc_fs c)), dc_last_ec := ff_ec (jc_fs c)\<rparr>)
       else device_chain_get ctx gid pk)"
    "last_accepted_ec ((join_advanced p c ctxm)\<lparr>ax_mh_window := w\<rparr>) gid =
      (if gid = ap_gid p then max (last_accepted_ec ctx gid) (ff_ec (jc_fs c)) else last_accepted_ec ctx gid)"
    "ax_pivot_store ((join_advanced p c ctxm)\<lparr>ax_mh_window := w\<rparr>) = ax_pivot_store ctxm"
proof -
  have "last_accepted_ec ((join_advanced p c ctxm)\<lparr>ax_mh_window := w\<rparr>) gid = last_accepted_ec (join_advanced p c ctxm) gid"
    by (simp add: last_accepted_ec_def ctx_simps)
  then show "last_accepted_ec ((join_advanced p c ctxm)\<lparr>ax_mh_window := w\<rparr>) gid =
      (if gid = ap_gid p then max (last_accepted_ec ctx gid) (ff_ec (jc_fs c)) else last_accepted_ec ctx gid)"
    by (simp add: join_advanced_simps core_frameD [OF assms])
qed (simp_all add: ctx_simps join_advanced_simps core_frameD [OF assms], simp add: join_advanced_def record_accepted_ec_def
    advance_device_def ctx_simps)

text \<open>What a full window leaves: the advanced device and epoch, and the receiving window without its expired heads.\<close>
lemma join_full_state:
  assumes "core_frame ctx ctxm" "ax_pivot_store ctxm = ax_pivot_store ctx"
    and "accept_head (ax_mh_window ctxm) wid r now = (Inl WINDOW_FULL, w)"
    and "ctx' = telemetry_record_window_full key ((join_advanced p c ctxm)\<lparr>ax_mh_window := w\<rparr>)"
  shows "device_chain_get ctx' gid pk =
      (if gid = ap_gid p \<and> pk = js_pop_pk (jc_seed c)
       then Some ((case device_chain_get ctx gid pk of None \<Rightarrow> device_chain_default | Some d \<Rightarrow> d)
         \<lparr>dc_last_commit := Some (ff_dev_commit (jc_fs c)), dc_last_ec := ff_ec (jc_fs c)\<rparr>)
       else device_chain_get ctx gid pk)"
    "last_accepted_ec ctx' gid =
      (if gid = ap_gid p then max (last_accepted_ec ctx gid) (ff_ec (jc_fs c)) else last_accepted_ec ctx gid)"
    "ax_pivot_store ctx' = ax_pivot_store ctx"
    "window (ax_mh_window ctx') k = (if k = wid then live_heads (ax_mh_window ctx) k now else window (ax_mh_window ctx) k)"
    "h_max (ax_mh_window ctx) \<le> length (live_heads (ax_mh_window ctx) wid now)"
proof -
  have "last_accepted_ec ctx' gid = last_accepted_ec ((join_advanced p c ctxm)\<lparr>ax_mh_window := w\<rparr>) gid"
    by (simp add: assms(4) telemetry_record_window_full_def last_accepted_ec_def ctx_simps)
  then show "last_accepted_ec ctx' gid =
      (if gid = ap_gid p then max (last_accepted_ec ctx gid) (ff_ec (jc_fs c)) else last_accepted_ec ctx gid)"
    by (simp only: join_advanced_state [OF assms(1)])
  show "window (ax_mh_window ctx') k = (if k = wid then live_heads (ax_mh_window ctx) k now else window (ax_mh_window ctx) k)"
      "h_max (ax_mh_window ctx) \<le> length (live_heads (ax_mh_window ctx) wid now)"
    using accept_head_full [OF assms(3)] core_frameD(5) [OF assms(1)]
    by (simp_all add: assms(4) telemetry_record_window_full_def ctx_simps)
qed (simp_all only: assms(2,4) telemetry_record_window_full_def telemetry_fields join_advanced_state [OF assms(1)])

text \<open>C33: what a refused join leaves behind.  Unless the refusal is \<open>mh_window_full\<close>, the device chains, the groups' epochs and
  barriers and the window are as before.  If it is, the window of the join holds \<open>h_max\<close> live heads, and although the join is
  refused the chain of its device and the last epoch of its group have advanced to it; no other device and no other group's
  epoch changes, and the windows only lose expired heads.  The pivot store is never touched.\<close>
theorem join_refused_state:
  assumes "accept_anchor_join V p claim h note digest now ctx = (Inl e, ctx')"
  shows "ax_pivot_store ctx' = ax_pivot_store ctx \<and>
    (if e \<noteq> Freeze WINDOW_FULL then core_frame ctx ctx'
     else \<exists>pk ec commit seed wid. bt_get h HDR_POP_PK = Some (CBytes pk) \<and>
       header_u64_or_freeze h HDR_FS_EC FREEZE_FS_JOIN_MISSING = Inr ec \<and>
       header_bytes32_or_freeze h HDR_FS_DEV_COMMIT FREEZE_FS_JOIN_MISSING = Inr commit \<and>
       (\<forall>gid' pk'. device_chain_get ctx' gid' pk' =
          (if gid' = ap_gid p \<and> pk' = pk
           then Some ((case device_chain_get ctx gid' pk' of None \<Rightarrow> device_chain_default | Some d \<Rightarrow> d)
             \<lparr>dc_last_commit := Some commit, dc_last_ec := ec\<rparr>)
           else device_chain_get ctx gid' pk')) \<and>
       (\<forall>gid'. last_accepted_ec ctx' gid' =
          (if gid' = ap_gid p then max (last_accepted_ec ctx gid') ec else last_accepted_ec ctx gid')) \<and>
       header_bytes32_or_freeze h HDR_SEED_CTX_HASH FREEZE_SEEDCTX_MISMATCH = Inr seed \<and>
       compute_window_id (ext V) (ap_gid p) (ap_parent_root p) seed = Inr wid \<and>
       h_max (ax_mh_window ctx) \<le> length (live_heads (ax_mh_window ctx) wid now) \<and>
       (\<forall>k. window (ax_mh_window ctx') k =
          (if k = wid then live_heads (ax_mh_window ctx) k now else window (ax_mh_window ctx) k)))"
  using assms
proof (cases rule: join_run)
  case (commit c ctxm pf)
  note fields = join_validate_fields [OF commit(1)]
  from commit(3-5) show ?thesis
  proof (cases rule: join_commit_cases)
    case (full w)
    note state = join_full_state [OF commit(2) fields(3) full(1,3)]
    obtain t t' where "join_fs_stage (ext V) p h (js_pop_pk (jc_seed c)) digest t = (Inr (jc_fs c), t')"
      using fields(1) by blast
    from join_fs_stage_Inr [OF this] state(5) full(2) fields(4,5) join_seed_pop_pk [OF join_validate_Inr(2) [OF commit(1)]]
    show ?thesis
      by (simp add: state(1-4) HDR_SEED_CTX_HASH_def)
  qed simp
qed simp

section \<open>What an accepted join has verified\<close>

lemma ensure_join_pop_Inr:
  assumes "ensure_join_pop E h anchor mode = Inr u"
  shows "\<exists>pk sig leaf xk msg. bt_get h HDR_POP_PK = Some (CBytes pk) \<and> bt_get h HDR_POP_SIG = Some (CBytes sig) \<and>
    compute_leaf_id E mode (ai_gid anchor) ''ML-DSA-65'' pk = Inr leaf \<and> to_cbor_bytes E anchor = Inr xk \<and>
    h_l E ''msphf/pop/msg'' (pop_message_value xk leaf (ai_we_epoch_id anchor)) = Inr msg \<and>
    dilithium_verify E pk msg sig = Inr ()"
  using assms by (auto simp: ensure_join_pop_def result_simps Let_def verify_cityg_pop_signature_def
    split: option.splits cbor.splits if_splits)

lemma anchor_of_simps [simp]:
  "ai_gid (anchor_of p weid sc hp) = ap_gid p" "ai_we_epoch_id (anchor_of p weid sc hp) = weid"
  by (simp_all add: anchor_of_def)

text \<open>An accepted join went through validation and found room in the window.\<close>
lemma join_accepted_run:
  assumes "accept_anchor_join V p claim h note digest now ctx = (Inr out, ctx')"
  obtains c ctxm pf w n root where
    "join_validate V p claim h digest now ctx = (Inr c, ctxm)" "core_frame ctx ctxm"
    "verify_fs_fields (ext V) (ap_gid p) (js_pop_pk (jc_seed c)) (jc_fs c) digest ctxm = Inr ()"
    "accept_head (ax_mh_window ctxm) (ji_wid (jc_ids c)) (join_record p (jc_rho_commit c) (jc_seed c) (jc_ids c) (jc_seq c) now) now =
       (Inr (), w)"
    "out = join_outcome (jc_rho_commit c) (jc_seed c) (jc_fs c) (jc_ids c) (jc_seq c) now note"
    "ctx' = insert_pivot_parity (join_pivot (ext V) p h (jc_parent_root c) (jc_rho_commit c) (jc_seed c) (jc_fs c) (jc_ids c)
       (jc_proofs c) (jc_seq c) pf root) now (telemetry_record_success (jc_key c) n ((join_advanced p c ctxm)\<lparr>ax_mh_window := w\<rparr>))"
  using assms
proof (cases rule: join_run)
  case (commit c ctxm pf)
  from commit(3-5) show thesis
    by (cases rule: join_commit_cases) (use that commit in auto)
qed simp

text \<open>C10: an accepted join is signed by the key in its header.  The signed message binds the epoch, the leaf of that key
  in the group and the encoding of the whole public instance; the epoch is the hash of group, parent root and seed context
  of this very header; and the \<open>rho\<close> commitment is the one derived from the signature.\<close>
theorem join_accepted_authentic:
  assumes "accept_anchor_join V p claim h note digest now ctx = (Inr out, ctx')"
  shows "\<exists>pk sig leaf xk msg seed_ctx.
    bt_get h HDR_POP_PK = Some (CBytes pk) \<and> bt_get h HDR_POP_SIG = Some (CBytes sig) \<and>
    build_anchor_seed_ctx (ext V) h = Inr seed_ctx \<and>
    compute_seed_ctx_hash (ext V) seed_ctx = Inr (oc_seed_ctx_hash out) \<and>
    derive_we_epoch_id (ext V) (ap_gid p) (ap_parent_root p) (oc_seed_ctx_hash out) = Inr claim \<and>
    oc_we_epoch_id out = claim \<and>
    to_cbor_bytes (ext V) (anchor_of p claim seed_ctx (Some (oc_hp_commit out))) = Inr xk \<and>
    compute_leaf_id (ext V) (ax_leaf_id_mode ctx) (ap_gid p) ''ML-DSA-65'' pk = Inr leaf \<and>
    h_l (ext V) ''msphf/pop/msg'' (pop_message_value xk leaf claim) = Inr msg \<and>
    dilithium_verify (ext V) pk msg sig = Inr () \<and>
    derive_rho_commit_from_pop (ext V) sig (oc_xk_hash out) = Inr (oc_rho_commit out)"
proof -
  obtain c ctxm where v: "join_validate V p claim h digest now ctx = (Inr c, ctxm)"
    and out: "out = join_outcome (jc_rho_commit c) (jc_seed c) (jc_fs c) (jc_ids c) (jc_seq c) now note"
    using assms by (rule join_accepted_run)
  note seed = join_seed_Inr [OF join_validate_Inr(2) [OF v]] and ids = join_ids_Inr [OF join_validate_Inr(3) [OF v]]
  obtain sig w where
    poss: "join_possession (ext V) p h (jc_rho_commit c) (jc_seed c) (jc_fs c) (jc_ids c) ctx = Inr (sig, jc_proofs c)" and
    proofs: "join_proofs V p h (jc_rho_commit c) (jc_seed c) (jc_fs c) (jc_ids c) sig (jc_proofs c) w ctx = Inr ()"
    using join_validate_Inr(4) [OF v] by blast
  have pop: "ensure_join_pop (ext V) h (ji_anchor (jc_ids c)) (ax_leaf_id_mode ctx) = Inr ()"
    and sig: "bt_get h HDR_POP_SIG = Some (CBytes sig)"
    using poss by (auto simp: join_possession_def result_simps Let_def extract_pop_signature_def split: option.splits cbor.splits)
  have "derive_rho_commit_from_pop (ext V) sig (ji_xk_hash (jc_ids c)) = Inr (jc_rho_commit c)"
    using proofs by (auto simp: join_proofs_def result_simps)
  with ensure_join_pop_Inr [OF pop] sig seed ids out show ?thesis
    by (auto simp: join_outcome_def)
qed

lemma ensure_proofs_fields:
  assumes "ensure_proofs E h apm dpm av dv = Inr proofs"
  shows "bt_get h HDR_FS_CAPSS = Some (CBytes (pa_fs_capss proofs))" "bt_get h HDR_VRF_PROOF = Some (CBytes (pa_vrf_pi proofs))"
    "bt_get h HDR_VRF_PUBLIC_KEY = Some (CBytes (pa_vrf_public proofs))"
    "bt_get h HDR_VRF_MASK_A = Some (CBytes (pa_mask_a proofs))" "bt_get h HDR_VRF_MASK_B = Some (CBytes (pa_mask_b proofs))"
    "header_string_or_freeze h HDR_PROOF_MODE = Inr (pa_proof_mode proofs)"
    "header_string_or_freeze h HDR_VRF_ID = Inr (pa_vrf_id proofs)"
    "header_policy_version h = Inr (pa_fs_policy_version proofs)"
  using assms by (auto simp: ensure_proofs_def result_simps header_bytes_or_freeze_def field32_def
    split: option.splits cbor.splits prod.splits if_splits)

lemma capss_verify_Inr:
  assumes "capss_verify V i proof = Inr u"
  shows "\<exists>message. build_public_tuple (ext V) i = Inr message \<and>
    smallwood_verify V \<lparr>sw_label = ''capss-smallwood'', sw_fs_domain = ''msphf/smallwood/chal'',
      sw_iv = ci_fs_epoch_commit i, sw_y = ci_hp_commit i, sw_message = message\<rparr> proof"
  using assms by (force simp: capss_verify_def result_simps)

text \<open>The two proofs that a validated join has passed, over statements assembled from what validation has read.\<close>
lemma join_validate_proofs:
  assumes "join_validate V p claim h digest now ctx = (Inr c, ctxm)"
  obtains crs params message where
    "header_string_or_freeze h HDR_CRS_ID = Inr crs" "header_string_or_freeze h HDR_PARAMS_ID = Inr params"
    "build_public_tuple (ext V) (join_capss_inputs p (jc_rho_commit c) (jc_seed c) (jc_fs c) (jc_ids c) (jc_proofs c) crs params) =
       Inr message"
    "smallwood_verify V \<lparr>sw_label = ''capss-smallwood'', sw_fs_domain = ''msphf/smallwood/chal'',
       sw_iv = ff_epoch_commit (jc_fs c), sw_y = js_hp_commit (jc_seed c), sw_message = message\<rparr> (pa_fs_capss (jc_proofs c))"
    "vrf_verify V (pa_vrf_public (jc_proofs c))
       (join_vrf_ctx p (jc_rho_commit c) (jc_seed c) (jc_fs c) (jc_ids c) (jc_proofs c) crs params)
       (pa_mask_a (jc_proofs c), pa_mask_b (jc_proofs c)) (pa_vrf_pi (jc_proofs c)) = Inr True"
    "length (pa_vrf_pi (jc_proofs c)) \<le> MAX_VRF_PROOF_BYTES"
    "\<exists>apm dpm av dv. ensure_proofs (ext V) h apm dpm av dv = Inr (jc_proofs c)"
proof -
  obtain sig w where
    poss: "join_possession (ext V) p h (jc_rho_commit c) (jc_seed c) (jc_fs c) (jc_ids c) ctx = Inr (sig, jc_proofs c)" and
    proofs: "join_proofs V p h (jc_rho_commit c) (jc_seed c) (jc_fs c) (jc_ids c) sig (jc_proofs c) w ctx = Inr ()"
    using join_validate_Inr(4) [OF assms] by blast
  obtain crs params where ids: "header_string_or_freeze h HDR_CRS_ID = Inr crs" "header_string_or_freeze h HDR_PARAMS_ID = Inr params" and
    capss: "capss_verify V (join_capss_inputs p (jc_rho_commit c) (jc_seed c) (jc_fs c) (jc_ids c) (jc_proofs c) crs params)
        (pa_fs_capss (jc_proofs c)) = Inr ()" and
    vrf: "vrf_verify V (pa_vrf_public (jc_proofs c))
        (join_vrf_ctx p (jc_rho_commit c) (jc_seed c) (jc_fs c) (jc_ids c) (jc_proofs c) crs params)
        (pa_mask_a (jc_proofs c), pa_mask_b (jc_proofs c)) (pa_vrf_pi (jc_proofs c)) = Inr True"
      "length (pa_vrf_pi (jc_proofs c)) \<le> MAX_VRF_PROOF_BYTES"
    using proofs by (auto simp: join_proofs_def result_simps capss_proof_from_bytes_def not_less HDR_CRS_ID_def HDR_PARAMS_ID_def
      split: if_splits)
  have "\<exists>apm dpm av dv. ensure_proofs (ext V) h apm dpm av dv = Inr (jc_proofs c)"
    using poss by (auto simp: join_possession_def result_simps Let_def)
  with ids vrf capss_verify_Inr [OF capss] that show thesis
    by (auto simp: join_capss_inputs_def)
qed

text \<open>C11: an accepted join carries a SmallWood proof and a VRF proof that the verifiers accept.  Their statements are given
  field by field: the outcome's instance hash, \<open>rho\<close> commitment and key commitment, the four roots of the anchor, the
  identifiers, suites and policy version of the header, and the forward-secrecy link of the header; the VRF key, the masks
  and both proofs are those of the header.\<close>
theorem join_accepted_proofs:
  assumes "accept_anchor_join V p claim h note digest now ctx = (Inr out, ctx')"
  shows "\<exists>bundle crs params mode version vrf_id epoch_commit ec prev_commit dev_commit message capss public_key mask_a mask_b pi.
    header_bytes32_or_freeze h HDR_SEED_BUNDLE_COMMIT FREEZE_SEEDCTX_MISMATCH = Inr bundle \<and>
    header_string_or_freeze h HDR_CRS_ID = Inr crs \<and> header_string_or_freeze h HDR_PARAMS_ID = Inr params \<and>
    header_string_or_freeze h HDR_PROOF_MODE = Inr mode \<and> header_policy_version h = Inr version \<and>
    header_string_or_freeze h HDR_VRF_ID = Inr vrf_id \<and>
    header_bytes32_or_freeze h HDR_FS_EPOCH_COMMIT FREEZE_FS_JOIN_MISSING = Inr epoch_commit \<and>
    header_u64_or_freeze h HDR_FS_EC FREEZE_FS_JOIN_MISSING = Inr ec \<and>
    header_bytes32_or_freeze h HDR_FS_DEV_PREV_COMMIT FREEZE_FS_JOIN_MISSING = Inr prev_commit \<and>
    header_bytes32_or_freeze h HDR_FS_DEV_COMMIT FREEZE_FS_JOIN_MISSING = Inr dev_commit \<and>
    build_public_tuple (ext V)
      \<lparr>ci_seed_bundle_commit = bundle, ci_rho_commit = oc_rho_commit out, ci_hp_commit = oc_hp_commit out,
       ci_xk_hash = oc_xk_hash out, ci_crs_id = crs, ci_params_id = params, ci_proof_mode = mode, ci_fs_policy_version = version,
       ci_vrf_id = vrf_id, ci_parent_root = ap_parent_root p, ci_join_delta_root = ap_join_delta_root p,
       ci_revoked_since_prev_root = ap_revoked_since_prev_root p, ci_revoked_root = ap_revoked_root p,
       ci_fs_epoch_commit = epoch_commit, ci_fs_ec = ec, ci_fs_dev_prev_commit = prev_commit, ci_fs_dev_commit = dev_commit\<rparr> =
      Inr message \<and>
    bt_get h HDR_FS_CAPSS = Some (CBytes capss) \<and>
    smallwood_verify V \<lparr>sw_label = ''capss-smallwood'', sw_fs_domain = ''msphf/smallwood/chal'', sw_iv = epoch_commit,
      sw_y = oc_hp_commit out, sw_message = message\<rparr> capss \<and>
    bt_get h HDR_VRF_PUBLIC_KEY = Some (CBytes public_key) \<and> bt_get h HDR_VRF_MASK_A = Some (CBytes mask_a) \<and>
    bt_get h HDR_VRF_MASK_B = Some (CBytes mask_b) \<and> bt_get h HDR_VRF_PROOF = Some (CBytes pi) \<and>
    length pi \<le> MAX_VRF_PROOF_BYTES \<and>
    vrf_verify V public_key
      \<lparr>vx_xk_hash = oc_xk_hash out, vx_rho_commit = oc_rho_commit out, vx_seed_bundle_commit = bundle, vx_crs_id = crs,
       vx_hp_commit = oc_hp_commit out, vx_params_id = params, vx_parent_root = ap_parent_root p,
       vx_join_delta_root = ap_join_delta_root p, vx_revoked_since_prev_root = ap_revoked_since_prev_root p,
       vx_revoked_root = ap_revoked_root p, vx_proof_mode = mode, vx_profile_version = BASE_PROFILE_VERSION,
       vx_fs_policy_version = version, vx_meor_vrf_id = vrf_id, vx_fs_epoch_commit = epoch_commit, vx_fs_ec = ec,
       vx_fs_dev_prev_commit = prev_commit, vx_fs_dev_commit = dev_commit, vx_srx_root_sw = None, vx_we_epoch_id = claim\<rparr>
      (mask_a, mask_b) pi = Inr True"
proof -
  obtain c ctxm where v: "join_validate V p claim h digest now ctx = (Inr c, ctxm)"
    and out: "out = join_outcome (jc_rho_commit c) (jc_seed c) (jc_fs c) (jc_ids c) (jc_seq c) now note"
    using assms by (rule join_accepted_run)
  obtain crs params message where ids: "header_string_or_freeze h HDR_CRS_ID = Inr crs" "header_string_or_freeze h HDR_PARAMS_ID = Inr params"
    and capss: "build_public_tuple (ext V) (join_capss_inputs p (jc_rho_commit c) (jc_seed c) (jc_fs c) (jc_ids c) (jc_proofs c) crs params) =
       Inr message"
      "smallwood_verify V \<lparr>sw_label = ''capss-smallwood'', sw_fs_domain = ''msphf/smallwood/chal'',
         sw_iv = ff_epoch_commit (jc_fs c), sw_y = js_hp_commit (jc_seed c), sw_message = message\<rparr> (pa_fs_capss (jc_proofs c))"
    and vrf: "vrf_verify V (pa_vrf_public (jc_proofs c))
       (join_vrf_ctx p (jc_rho_commit c) (jc_seed c) (jc_fs c) (jc_ids c) (jc_proofs c) crs params)
       (pa_mask_a (jc_proofs c), pa_mask_b (jc_proofs c)) (pa_vrf_pi (jc_proofs c)) = Inr True"
      "length (pa_vrf_pi (jc_proofs c)) \<le> MAX_VRF_PROOF_BYTES"
    and art: "\<exists>apm dpm av dv. ensure_proofs (ext V) h apm dpm av dv = Inr (jc_proofs c)"
    by (rule join_validate_proofs [OF v])
  obtain t t' where fs: "join_fs_stage (ext V) p h (js_pop_pk (jc_seed c)) digest t = (Inr (jc_fs c), t')"
    using join_validate_fields(1) [OF v] by blast
  obtain apm dpm av dv where "ensure_proofs (ext V) h apm dpm av dv = Inr (jc_proofs c)"
    using art by blast
  note header = ensure_proofs_fields [OF this] join_fs_stage_Inr [OF fs] join_seed_Inr(4) [OF join_validate_Inr(2) [OF v]]
  have "oc_hp_commit out = js_hp_commit (jc_seed c)" "oc_rho_commit out = jc_rho_commit c" "oc_xk_hash out = ji_xk_hash (jc_ids c)"
    by (simp_all add: out join_outcome_def)
  note names = this join_ids_Inr(1) [OF join_validate_Inr(3) [OF v], symmetric]
  show ?thesis
    unfolding names using ids capss(2) vrf(2) header capss(1) [unfolded join_capss_inputs_def] vrf(1) [unfolded join_vrf_ctx_def]
    unfolding HDR_SEED_BUNDLE_COMMIT_def by blast
qed

section \<open>The state after an accepted join\<close>

lemma dur_le_refl_now: "dur_le (duration_since now now) t"
  by (simp add: duration_since_def saturating_sub_def)

lemma put_pivot_member: "e \<in> set (put_pivot e l)"
  by (induction l) auto

lemma accept_head_Inr:
  assumes "accept_head w wid r now = (Inr u, w')"
  shows "window w' k = (if k = wid then filter (live (ttl w) now) (window w wid) @ [r\<lparr>hr_accept_time := now\<rparr>] else window w k)"
    "length (window w' wid) \<le> h_max w"
  using assms by (auto simp: accept_head_def Let_def mhw_simps split: if_splits)

lemma pivot_insert_listed: "q \<in> set (fst (pivot_list (pivot_insert s q now) (pp_gid q) (pp_parent_root q) now))"
proof -
  have "\<lparr>pe_parity = q, pe_accept_time = now\<rparr> \<in> set (pivot_entries (pivot_insert s q now) (pp_gid q, pp_parent_root q))"
    by (simp add: pivot_insert_def pivot_entries_def put_pivot_member Let_def)
  moreover have "pivot_live t now \<lparr>pe_parity = q, pe_accept_time = now\<rparr>" for t
    by (simp add: pivot_live_def dur_le_refl_now)
  ultimately show ?thesis
    by (force simp: pivot_list_eq)
qed

lemma put_pivot_keeps:
  "filter (\<lambda>x. pivot_weid x \<noteq> pivot_weid e) (put_pivot e l) = filter (\<lambda>x. pivot_weid x \<noteq> pivot_weid e) l"
  by (induction l) auto

text \<open>The parts of the state that the commit of a join writes.\<close>
lemma join_taken_state:
  assumes "core_frame ctx ctxm" "ax_pivot_store ctxm = ax_pivot_store ctx"
    and "accept_head (ax_mh_window ctxm) wid r now = (Inr (), w)"
    and "ctx' = insert_pivot_parity q now (telemetry_record_success key n ((join_advanced p c ctxm)\<lparr>ax_mh_window := w\<rparr>))"
  shows "device_chain_get ctx' gid' pk' = device_chain_get (join_advanced p c ctx) gid' pk'"
    and "last_accepted_ec ctx' gid' = last_accepted_ec (join_advanced p c ctx) gid'"
    and "window (ax_mh_window ctx') k = (if k = wid then live_heads (ax_mh_window ctx) k now
      @ [r\<lparr>hr_accept_time := now\<rparr>] else window (ax_mh_window ctx) k)"
    and "length (window (ax_mh_window ctx') wid) \<le> h_max (ax_mh_window ctx)"
    and "ax_pivot_store ctx' = pivot_insert (ax_pivot_store ctx) q now"
proof -
  note ops = assms(2,4) telemetry_record_success_def ctx_simps core_frameD [OF assms(1)]
  have "last_accepted_ec ctx' gid' = last_accepted_ec (join_advanced p c ctxm) gid'"
    by (simp add: assms(4) telemetry_record_success_def ctx_simps last_accepted_ec_def)
  then show "last_accepted_ec ctx' gid' = last_accepted_ec (join_advanced p c ctx) gid'"
    by (simp add: join_advanced_simps core_frameD [OF assms(1)])
  show "device_chain_get ctx' gid' pk' = device_chain_get (join_advanced p c ctx) gid' pk'"
    by (simp add: ops join_advanced_simps)
  show "window (ax_mh_window ctx') k = (if k = wid then live_heads (ax_mh_window ctx) k now
      @ [r\<lparr>hr_accept_time := now\<rparr>] else window (ax_mh_window ctx) k)"
    "length (window (ax_mh_window ctx') wid) \<le> h_max (ax_mh_window ctx)"
    using accept_head_Inr [OF assms(3)] by (simp_all add: ops)
  show "ax_pivot_store ctx' = pivot_insert (ax_pivot_store ctx) q now"
    by (simp add: ops join_advanced_def record_accepted_ec_def advance_device_def)
qed

text \<open>C14: the state after an accepted join.  The device of the header has the new link as its last one and no other device
  changes; the group's last epoch is raised to that of the join and no other group's is; the window of the outcome has lost
  its expired heads and ends with the new one, within the limit, and no other window changes; the pivot store has the new
  pivot, with the fields of the outcome and of the anchor, in place of one with the same epoch identifier or at the end of
  its group and parent root, and every pivot with another epoch identifier, there and elsewhere, is where it was.\<close>
theorem join_accepted_state:
  assumes "accept_anchor_join V p claim h note digest now ctx = (Inr out, ctx')"
  shows "\<exists>pk ec commit r q. bt_get h HDR_POP_PK = Some (CBytes pk) \<and> oc_fs_ec out = Some ec \<and> oc_fs_dev_commit out = Some commit \<and>
    (\<forall>gid' pk'. device_chain_get ctx' gid' pk' =
       (if gid' = ap_gid p \<and> pk' = pk
        then Some ((case device_chain_get ctx gid' pk' of None \<Rightarrow> device_chain_default | Some d \<Rightarrow> d)
          \<lparr>dc_last_commit := Some commit, dc_last_ec := ec\<rparr>)
        else device_chain_get ctx gid' pk')) \<and>
    (\<forall>gid'. last_accepted_ec ctx' gid' =
       (if gid' = ap_gid p then max (last_accepted_ec ctx gid') ec else last_accepted_ec ctx gid')) \<and>
    hr_we_epoch_id r = claim \<and> hr_accept_time r = now \<and> hr_accept_seq r = oc_accept_seq out \<and>
    (\<forall>k. window (ax_mh_window ctx') k =
       (if k = oc_wid out then live_heads (ax_mh_window ctx) k now @ [r] else window (ax_mh_window ctx) k)) \<and>
    length (window (ax_mh_window ctx') (oc_wid out)) \<le> h_max (ax_mh_window ctx) \<and>
    pp_gid q = ap_gid p \<and> pp_cat q = ap_cat p \<and> pp_parent_root q = ap_parent_root p \<and> pp_we_epoch_id q = claim \<and>
    pp_rho_commit q = oc_rho_commit out \<and> pp_seed_ctx_hash q = oc_seed_ctx_hash out \<and> pp_seed_commit q = oc_seed_commit out \<and>
    pp_hp_commit q = oc_hp_commit out \<and> pp_xk_hash q = oc_xk_hash out \<and> pp_join_delta_root q = ap_join_delta_root p \<and>
    pp_revoked_since_root q = ap_revoked_since_prev_root p \<and> pp_revoked_root q = ap_revoked_root p \<and>
    pp_accept_seq q = oc_accept_seq out \<and> pp_is_join q \<and> pp_fs_ec q = Some ec \<and> pp_fs_dev_commit q = Some commit \<and>
    ps_ttl (ax_pivot_store ctx') = ps_ttl (ax_pivot_store ctx) \<and>
    (\<forall>k. pivot_entries (ax_pivot_store ctx') k =
       (if k = (ap_gid p, ap_parent_root p) then put_pivot \<lparr>pe_parity = q, pe_accept_time = now\<rparr> (pivot_entries (ax_pivot_store ctx) k)
        else pivot_entries (ax_pivot_store ctx) k)) \<and>
    (\<forall>k. filter (\<lambda>e. pivot_weid e \<noteq> claim) (pivot_entries (ax_pivot_store ctx') k) =
       filter (\<lambda>e. pivot_weid e \<noteq> claim) (pivot_entries (ax_pivot_store ctx) k)) \<and>
    q \<in> set (fst (pivot_list (ax_pivot_store ctx') (ap_gid p) (ap_parent_root p) now))"
proof -
  obtain c ctxm pf w n root where v: "join_validate V p claim h digest now ctx = (Inr c, ctxm)" and frame: "core_frame ctx ctxm"
    and acc: "accept_head (ax_mh_window ctxm) (ji_wid (jc_ids c))
      (join_record p (jc_rho_commit c) (jc_seed c) (jc_ids c) (jc_seq c) now) now = (Inr (), w)"
    and out: "out = join_outcome (jc_rho_commit c) (jc_seed c) (jc_fs c) (jc_ids c) (jc_seq c) now note"
    and ctx': "ctx' = insert_pivot_parity (join_pivot (ext V) p h (jc_parent_root c) (jc_rho_commit c) (jc_seed c) (jc_fs c)
      (jc_ids c) (jc_proofs c) (jc_seq c) pf root) now
      (telemetry_record_success (jc_key c) n ((join_advanced p c ctxm)\<lparr>ax_mh_window := w\<rparr>))"
    using assms by (rule join_accepted_run)
  let ?q = "join_pivot (ext V) p h (jc_parent_root c) (jc_rho_commit c) (jc_seed c) (jc_fs c) (jc_ids c) (jc_proofs c) (jc_seq c) pf root"
  note fields = join_validate_fields [OF v]
  note state = join_taken_state [OF frame fields(3) acc ctx']
  have claim: "ji_we_epoch_id (jc_ids c) = claim"
    by (rule join_ids_Inr(1) [OF join_validate_Inr(3) [OF v]])
  have q: "pp_gid ?q = ap_gid p" "pp_parent_root ?q = ap_parent_root p" "pp_we_epoch_id ?q = claim"
    by (simp_all add: join_pivot_def claim fields(2) split: prod.split)
  have listed: "?q \<in> set (fst (pivot_list (ax_pivot_store ctx') (ap_gid p) (ap_parent_root p) now))"
    using pivot_insert_listed [of ?q] by (simp add: state(5) q)
  have kept: "filter (\<lambda>e. pivot_weid e \<noteq> claim) (put_pivot \<lparr>pe_parity = ?q, pe_accept_time = now\<rparr> l) =
      filter (\<lambda>e. pivot_weid e \<noteq> claim) l" for l
    using put_pivot_keeps [of "\<lparr>pe_parity = ?q, pe_accept_time = now\<rparr>" l] by (simp add: q)
  show ?thesis
    using join_seed_pop_pk [OF join_validate_Inr(2) [OF v]] state(4) claim listed
    by (intro exI [of _ "js_pop_pk (jc_seed c)"] exI [of _ "ff_ec (jc_fs c)"] exI [of _ "ff_dev_commit (jc_fs c)"]
        exI [of _ "join_record p (jc_rho_commit c) (jc_seed c) (jc_ids c) (jc_seq c) now"] exI [of _ ?q])
      (simp add: state(1-3,5) join_advanced_simps pivot_entries_insert q kept,
       simp add: out join_outcome_def join_record_def join_pivot_def split: prod.split)
qed

section \<open>A concrete run\<close>

text \<open>A join of the group at barrier version 3, with a device key that has no chain yet.\<close>
definition plain_pk :: bytes where "plain_pk = replicate 2592 3"
definition plain_sig :: bytes where "plain_sig = replicate 4627 3"
definition plain_kem :: bytes where "plain_kem = replicate 1184 3"

definition plain_parts :: AnchorInstanceParts where
  "plain_parts = \<lparr>ap_gid = [1], ap_cat = [2], ap_tswe_salt_hash = plain_digest, ap_parent_root = plain_digest,
     ap_join_delta_root = plain_digest, ap_revoked_since_prev_root = plain_digest, ap_revoked_root = plain_digest,
     ap_pox_r_commit = None\<rparr>"

definition join_header :: header where
  "join_header =
     [(HDR_TSWE_ALG, CInt 31), (HDR_SEED_CTX_HASH, CBytes plain_digest), (HDR_MERKLE_SUITE, CText ''rpo-256/v2''),
      (HDR_RHO_COMMIT, CBytes plain_digest), (HDR_SEED_BUNDLE_COMMIT, CBytes plain_digest), (HDR_VRF_PROOF, CBytes [4]),
      (HDR_HP_BYTES, CArray [CText ''barrier-sealed-v1'', CText ''author-local'', CBytes plain_digest, CText ''chacha20-poly1305'']),
      (HDR_CRS_ID, CText ''crs''), (HDR_HP_COMMIT, CBytes plain_digest), (HDR_KBROAD_ALG, CText ''ml-kem-768''),
      (HDR_KBROAD_PUB, CBytes plain_kem), (HDR_PARAMS_ID, CText ''params''), (HDR_POP_ALG, CText ''ML-DSA-65''),
      (HDR_POP_PK, CBytes plain_pk), (HDR_POP_SIG, CBytes plain_sig), (HDR_PARENT_ROOT, CBytes plain_digest),
      (HDR_JOIN_DELTA_ROOT, CBytes plain_digest), (HDR_REVOKED_SINCE_ROOT, CBytes plain_digest),
      (HDR_REVOKED_ROOT, CBytes plain_digest), (HDR_VRF_ID, CText ''lb-vrf/v1''), (HDR_PROOF_MODE, CText ''lin+zkvrf''),
      (HDR_PROOFS_COMMIT, CBytes plain_digest), (HDR_FS_POLICY_VERSION, CInt 1), (HDR_FS_EC, CInt 6),
      (HDR_FS_EPOCH_COMMIT, CBytes plain_digest), (HDR_FS_EPOCH_BASE_TS, CInt 100), (HDR_FS_CAPSS, CBytes [4]),
      (HDR_FS_DEV_PREV_COMMIT, CBytes zero_hash), (HDR_FS_DEV_COMMIT, CBytes plain_digest), (HDR_VRF_MASK_A, CBytes plain_digest),
      (HDR_VRF_MASK_B, CBytes plain_digest), (HDR_VRF_PUBLIC_KEY, CBytes [4]), (HDR_BARRIER_VERSION, CInt 3),
      (HDR_BARRIER_LEAF_PK, CBytes plain_kem)]"

lemma plain_lengths [simp]: "length plain_pk = 2592" "length plain_sig = 4627" "length plain_kem = 1184" "length zero_hash = 32"
  by (simp_all add: plain_pk_def plain_sig_def plain_kem_def zero_hash_def)

lemma plain_hashes:
  "compute_seed_ctx_hash plain_ext b = Inr plain_digest" "build_anchor_seed_ctx plain_ext h = Inr [9]"
  "compute_seed_bundle_commit plain_ext b rho gid cat root = Inr plain_digest"
  "compute_seed_commit plain_ext b sf = Inr plain_digest" "compute_window_id plain_ext gid root sh = Inr plain_digest"
  "derive_we_epoch_id plain_ext gid root sh = Inr plain_digest" "tswe_salt_hash plain_ext gid root = Inr plain_digest"
  "xk_hash plain_ext a = Inr plain_digest" "compute_leaf_id plain_ext mode gid alg pk = Inr plain_digest"
  "derive_rho_commit_from_pop plain_ext sg xk = Inr plain_digest"
  "compute_proofs_commit_bytes plain_ext vp fc None None = Inr plain_digest"
  "h_l plain_ext ''msphf/pop/msg'' v = Inr plain_digest" "to_cbor_bytes plain_ext a = Inr [9]"
  by (simp_all add: compute_seed_ctx_hash_def build_anchor_seed_ctx_def compute_seed_bundle_commit_def compute_seed_commit_def
    compute_window_id_def derive_we_epoch_id_def tswe_salt_hash_def xk_hash_def compute_leaf_id_def derive_rho_commit_from_pop_def
    hash_bytes_with_label_def compute_proofs_commit_bytes_def to_cbor_bytes_def plain_h_l validate_label_def as_bytes_def)

lemma plain_context_policy [simp]:
  "ax_allowed_crs_ids plain_context = None" "ax_deprecated_crs_ids plain_context = {}"
  "ax_allowed_params_ids plain_context = None" "ax_deprecated_params_ids plain_context = {}"
  "ax_kbroad_registry plain_context = None" "ax_fs_policy_version plain_context = None"
  "ax_allowed_fs_policy_version plain_context = None" "ax_fs_base_ts plain_context = None"
  "ax_pending_capss_witness plain_context = None" "ax_bootstrap_policy plain_context = BootstrapDisabled"
  "ax_allowed_proof_modes plain_context = Some {''lin+zkvrf''}" "ax_deprecated_proof_modes plain_context = {}"
  "ax_allowed_vrf_ids plain_context = Some {''lb-vrf/v1''}" "ax_deprecated_vrf_ids plain_context = {}"
  "ax_leaf_id_mode plain_context = PerGroup" "rg_entries (ax_rho_guard plain_context) = Map.empty"
  "rg_limit (ax_rho_guard plain_context) = 64"
  by (simp_all add: plain_context_def insert_barrier_group_state_def ctx_with_defaults_def ctx_with_options_def
    apply_fs_policy_config_def Let_def acceptance_options_default_def rho_guard_new_def RHO_GUARD_CAPACITY_def split: sum.split)

lemma plain_preflight: "join_preflight plain_parts join_header (plain_context\<lparr>ax_mh_window := w\<rparr>) = Inr plain_digest"
  by (simp add: join_preflight_def plain_parts_def join_header_def hdr_keys ensure_tswe_alg_def TSWE_ALG_CODE_def
    ensure_merkle_suite_def value_is_label_def MERKLE_DS_ID_def ensure_crs_id_def header_text_def ensure_kbroad_alg_def
    KBROAD_ML_KEM_ALG_def ensure_kbroad_pub_def ml_kem_public_key_bytes_def ensure_params_id_def ensure_join_srx_keys_absent_def
    srx_only_presence_def SRX_ONLY_KEYS_def has_legacy_srx_keys_def LEGACY_SRX_KEYS_def BARRIER_LEAF_PUBLIC_KEY_BYTES_def check_roots_def matching_root_def
    header_bytes32_or_freeze_def value_bytes32_def)

definition plain_seed :: JoinSeed where
  "plain_seed = \<lparr>js_hp_commit = plain_digest, js_anchor_seed_ctx = [9], js_seed_ctx_hash = plain_digest, js_seed_bundle = plain_digest,
    js_pop_pk = plain_pk\<rparr>"

lemma plain_join_seed: "join_seed plain_ext plain_parts join_header plain_digest plain_digest = Inr plain_seed"
  by (simp add: plain_seed_def join_seed_def plain_hashes header_bytes32_or_freeze_def value_bytes32_def header_bytes_or_freeze_def
    join_header_def hdr_keys)


definition plain_fs :: FsFields where
  "plain_fs = \<lparr>ff_epoch_commit = plain_digest, ff_ec = 6, ff_dev_prev_commit = zero_hash, ff_dev_commit = plain_digest,
     ff_barrier_version = 3\<rparr>"

lemma plain_fs_stage:
  assumes "ax_allowed_fs_policy_version ctx = None" "ax_fs_policy_version ctx = None" "ax_fs_base_ts ctx = None"
    "ax_fs_caps ctx = ax_fs_caps plain_context" "device_chain_get ctx [1] plain_pk = None" "last_accepted_ec ctx [1] = 5"
  shows "join_fs_stage plain_ext plain_parts join_header plain_pk zero_hash ctx =
    (Inr plain_fs, set_fs_base_ts (Some 100) (set_fs_policy_version (Some (u64_to_string 1)) ctx))"
proof -
  have "verify_fs_fields plain_ext [1] plain_pk plain_fs zero_hash
     (set_fs_base_ts (Some 100) (set_fs_policy_version (Some (u64_to_string 1)) ctx)) = Inr ()"
    using assms
    by (simp add: verify_fs_fields_def fs_verification_def plain_fs_def device_chain_exact chain_tip_def device_cap_def
      plain_context_caps plain_link saturating_add_def set_fs_base_ts_def set_fs_policy_version_def last_accepted_ec_def
      barrier_group_state_def device_chain_get_def)
  then show ?thesis
    using assms by (simp add: join_fs_stage_def tryS_def liftS_def updS_def bind_fs_base_ts_def
     header_u64_or_freeze_def header_bytes32_or_freeze_def value_bytes32_def join_header_def hdr_keys u64_try_from_def
     ensure_fs_policy_version_allowed_def plain_context_caps plain_fs_def plain_parts_def set_fs_base_ts_def set_fs_policy_version_def Let_def)
qed

definition plain_ids :: JoinIds where
  "plain_ids = \<lparr>ji_we_epoch_id = plain_digest, ji_seed_commit = plain_digest, ji_wid = plain_digest,
     ji_anchor = anchor_of plain_parts plain_digest [9] (Some plain_digest), ji_xk_hash = plain_digest\<rparr>"

lemma plain_join_ids: "join_ids plain_ext plain_parts plain_digest plain_digest plain_seed = Inr plain_ids"
  by (simp add: join_ids_def check_epoch_def plain_hashes plain_parts_def plain_seed_def plain_ids_def Let_def)

definition plain_proofs :: ProofArtifacts where
  "plain_proofs = \<lparr>pa_commit = plain_digest, pa_vrf_pi = [4], pa_fs_capss = [4], pa_srx_root_sw = None, pa_srx_smallwood = None,
     pa_proof_mode = ''lin+zkvrf'', pa_vrf_id = ''lb-vrf/v1'', pa_mask_a = plain_digest, pa_mask_b = plain_digest,
     pa_fs_policy_version = 1, pa_vrf_public = [4]\<rparr>"

lemma plain_ensure_proofs:
  "ensure_proofs plain_ext join_header (Some {''lin+zkvrf''}) {} (Some {''lb-vrf/v1''}) {} = Inr plain_proofs"
  by (simp add: ensure_proofs_def header_string_or_freeze_def header_text_def join_header_def hdr_keys ensure_suite_def
    is_supported_proof_mode_def DEFAULT_PROOF_MODE_def is_supported_vrf_id_def DEFAULT_VRF_ID_def header_policy_version_def
    u64_try_from_def field32_def header_bytes_or_freeze_def ensure_srx_proof_fields_def header_bytes32_or_freeze_def
    value_bytes32_def FS_CAPSS_MAX_BYTES_def plain_hashes plain_proofs_def)

lemma plain_possession:
  assumes "policy_frame plain_context ctx"
  shows "join_possession plain_ext plain_parts join_header plain_digest plain_seed plain_fs plain_ids ctx = Inr (plain_sig, plain_proofs)"
proof -
  have "ensure_bootstrap_absent join_header = Inr ()"
    by (simp add: ensure_bootstrap_absent_def join_header_def hdr_keys)
  moreover have "ensure_join_pop plain_ext join_header a m = Inr ()" for a m
    by (simp add: ensure_join_pop_def join_header_def hdr_keys value_is_label_def plain_hashes verify_cityg_pop_signature_def Let_def)
  moreover have "extract_pop_signature join_header = Inr plain_sig"
    by (simp add: extract_pop_signature_def join_header_def hdr_keys)
  moreover have "verify_join_payload_hp_envelope join_header None BARRIER_HP_CONTEXT_AUTHOR_LOCAL = Inr ()"
    by (simp add: verify_join_payload_hp_envelope_def join_header_def hdr_keys BARRIER_HP_MODE_def BARRIER_HP_CONTEXT_AUTHOR_LOCAL_def
      check_envelope_tail_def HP_AEAD_SUITE_def HP_MAX_CIPHERTEXT_BYTES_def MAX_HP_BYTES_def AEAD_TAG_LEN_def)
  ultimately show ?thesis
    using assms plain_ensure_proofs by (simp add: join_possession_def policy_frame_def plain_fs_def Let_def)
qed

lemma plain_join_proofs:
  "join_proofs plain_verifiers plain_parts join_header plain_digest plain_seed plain_fs plain_ids plain_sig plain_proofs None ctx = Inr ()"
  by (simp add: join_proofs_def header_string_or_freeze_def header_text_def join_header_def hdr_keys capss_proof_from_bytes_def
    capss_verify_def build_public_tuple_def plain_verifiers_def plain_hashes plain_ids_def srx_contains_leaf_id_def
    MAX_VRF_PROOF_BYTES_def plain_proofs_def)


text \<open>The context of the run: the window is left open, to try a full and an empty one.\<close>
abbreviation join_context :: "MultiHeadWindow \<Rightarrow> AcceptanceContext" where
  "join_context w \<equiv> plain_context\<lparr>ax_mh_window := w\<rparr>"

lemma plain_validate:
  "\<exists>c ctxm. join_validate plain_verifiers plain_parts plain_digest join_header zero_hash now (join_context w) = (Inr c, ctxm) \<and>
     jc_ids c = plain_ids \<and> jc_seed c = plain_seed \<and> jc_fs c = plain_fs"
proof -
  let ?key = "telemetry_key [1] plain_digest"
  define ctx1 where "ctx1 = telemetry_entry_mut ?key record_attempt (join_context w)"
  define g where "g = snd (rho_record (ax_rho_guard plain_context) [1] plain_digest plain_digest now)"
  have "rho_record (ax_rho_guard plain_context) [1] plain_digest plain_digest now = (True, g)"
    by (simp add: g_def rho_record_def Let_def)
  then have guard: "join_replay_guard plain_parts plain_digest ?key now ctx1 = (Inr (), ctx1\<lparr>ax_rho_guard := g\<rparr>)"
    by (simp add: join_replay_guard_def plain_parts_def ctx1_def telemetry_entry_mut_def Let_def)
  have attempt: "telemetry_record_attempt (ap_gid plain_parts) (ap_parent_root plain_parts) (join_context w) = (Inr ?key, ctx1)"
    by (simp add: telemetry_record_attempt_def plain_parts_def ctx1_def Let_def)
  have rho: "header_bytes32_or_freeze join_header 93 FREEZE_RHO_PARITY = Inr plain_digest"
    by (simp add: header_bytes32_or_freeze_def join_header_def hdr_keys value_bytes32_def)
  define ctx2 where "ctx2 = set_fs_base_ts (Some 100) (set_fs_policy_version (Some (u64_to_string 1)) (ctx1\<lparr>ax_rho_guard := g\<rparr>))"
  have "device_chain_get (ctx1\<lparr>ax_rho_guard := g\<rparr>) [1] plain_pk = None"
    "last_accepted_ec (ctx1\<lparr>ax_rho_guard := g\<rparr>) [1] = 5"
    using plain_context_device [of plain_pk] plain_context_caps(1)
    by (simp_all add: ctx1_def telemetry_entry_mut_def device_chain_get_def last_accepted_ec_def barrier_group_state_def Let_def)
  then have fs: "join_fs_stage plain_ext plain_parts join_header plain_pk zero_hash (ctx1\<lparr>ax_rho_guard := g\<rparr>) = (Inr plain_fs, ctx2)"
    unfolding ctx2_def by (intro plain_fs_stage) (simp_all add: ctx1_def telemetry_entry_mut_def Let_def)
  have pol: "policy_frame plain_context (ctx2\<lparr>ax_next_accept_seq := n\<rparr>)" "ax_pending_capss_witness ctx2 = None" for n
    by (simp_all add: policy_frame_def ctx2_def ctx1_def set_fs_base_ts_def set_fs_policy_version_def telemetry_entry_mut_def Let_def)
  have pk: "js_pop_pk plain_seed = plain_pk"
    by (simp add: plain_seed_def)
  show ?thesis
    using pol by (simp add: join_validate_def tryS_def liftS_def plain_preflight attempt rho guard plain_join_seed pk fs plain_join_ids
      take_accept_seq_def plain_possession take_pending_capss_witness_def plain_join_proofs)
qed

lemma plain_run:
  obtains (full) ctx' where "h_max w \<le> length (filter (live (ttl w) now) (window w plain_digest))"
      "accept_anchor_join plain_verifiers plain_parts plain_digest join_header None zero_hash now (join_context w) =
        (Inl (Freeze WINDOW_FULL), ctx')"
      "device_chain_get ctx' [1] plain_pk \<noteq> None"
  | (taken) out ctx' where "length (filter (live (ttl w) now) (window w plain_digest)) < h_max w"
      "accept_anchor_join plain_verifiers plain_parts plain_digest join_header None zero_hash now (join_context w) = (Inr out, ctx')"
proof -
  obtain r ctx' where run: "accept_anchor_join plain_verifiers plain_parts plain_digest join_header None zero_hash now (join_context w) = (r, ctx')"
    by fastforce
  obtain c ctxm where v: "join_validate plain_verifiers plain_parts plain_digest join_header zero_hash now (join_context w) = (Inr c, ctxm)"
      "jc_ids c = plain_ids" "jc_seed c = plain_seed" "jc_fs c = plain_fs"
    using plain_validate by blast
  obtain pf where pf: "join_pivot_fields join_header = Inr pf"
    using join_pivot_fields_total plain_preflight by blast
  have w: "ax_mh_window ctxm = w"
    using core_frameD(5) [OF evolvesD [OF evolves_validate v(1)]] by simp
  from join_validate_fs [OF v(1)] pf show thesis
  proof (rule join_commit_cases)
    show "join_commit plain_verifiers plain_parts join_header c None zero_hash now ctxm = (r, ctx')"
      using run v(1) by (simp add: accept_anchor_join_def tryS_def)
  next
    fix w' assume "accept_head (ax_mh_window ctxm) (ji_wid (jc_ids c))
        (join_record plain_parts (jc_rho_commit c) (jc_seed c) (jc_ids c) (jc_seq c) now) now = (Inl WINDOW_FULL, w')"
      "r = Inl (Freeze WINDOW_FULL)"
      "ctx' = telemetry_record_window_full (jc_key c) ((join_advanced plain_parts c ctxm)\<lparr>ax_mh_window := w'\<rparr>)"
    then show thesis
      using full run v w by (auto simp: accept_head_def plain_ids_def plain_seed_def plain_parts_def mhw_simps Let_def ctx_simps
        telemetry_record_window_full_def join_advanced_simps split: if_splits)
  next
    fix w' n root assume "accept_head (ax_mh_window ctxm) (ji_wid (jc_ids c))
        (join_record plain_parts (jc_rho_commit c) (jc_seed c) (jc_ids c) (jc_seq c) now) now = (Inr (), w')"
      "r = Inr (join_outcome (jc_rho_commit c) (jc_seed c) (jc_fs c) (jc_ids c) (jc_seq c) now None)"
    then show thesis
      using taken run v w by (auto simp: accept_head_def plain_ids_def mhw_simps Let_def split: if_splits)
  qed
qed


abbreviation full_window :: MultiHeadWindow where
  "full_window \<equiv> mhw_new 0 (from_secs 60)"

abbreviation open_window :: MultiHeadWindow where
  "open_window \<equiv> mhw_new 4 (from_secs 60)"

lemma window_mhw_new [simp]: "window (mhw_new h t) k = []" "h_max (mhw_new h t) = h"
  by (simp_all add: window_def mhw_new_def)

lemma join_context_device [simp]: "device_chain_get (join_context w) [1] pk = None" "last_accepted_ec (join_context w) [1] = 5"
  using plain_context_device plain_context_caps(1) by (simp_all add: last_accepted_ec_def ctx_simps)

theorem join_refused_state_witness:
  "\<exists>ctx'. accept_anchor_join plain_verifiers plain_parts plain_digest join_header None zero_hash (from_ticks 7) (join_context full_window) =
      (Inl (Freeze WINDOW_FULL), ctx') \<and>
    last_accepted_ec (join_context full_window) [1] = 5 \<and> last_accepted_ec ctx' [1] = 6 \<and>
    device_chain_get (join_context full_window) [1] plain_pk = None \<and>
    device_chain_get ctx' [1] plain_pk = Some (device_chain_default\<lparr>dc_last_commit := Some plain_digest, dc_last_ec := 6\<rparr>)"
proof (rule plain_run [of full_window "from_ticks 7"])
  fix ctx' assume run: "accept_anchor_join plain_verifiers plain_parts plain_digest join_header None zero_hash (from_ticks 7) (join_context full_window) =
      (Inl (Freeze WINDOW_FULL), ctx')"
  have "header_u64_or_freeze join_header HDR_FS_EC FREEZE_FS_JOIN_MISSING = Inr 6" "bt_get join_header HDR_POP_PK = Some (CBytes plain_pk)"
    "header_bytes32_or_freeze join_header HDR_FS_DEV_COMMIT FREEZE_FS_JOIN_MISSING = Inr plain_digest"
    by (simp_all add: header_u64_or_freeze_def header_bytes32_or_freeze_def value_bytes32_def join_header_def hdr_keys u64_try_from_def)
  with run join_refused_state [OF run] show ?thesis
    by (auto simp: plain_parts_def)
qed simp

theorem join_accepted_authentic_witness:
  "\<exists>out ctx'. accept_anchor_join plain_verifiers plain_parts plain_digest join_header None zero_hash (from_ticks 7) (join_context open_window) =
      (Inr out, ctx') \<and> derive_we_epoch_id plain_ext [1] plain_digest (oc_seed_ctx_hash out) = Inr plain_digest"
proof (rule plain_run [of open_window "from_ticks 7"])
  fix out ctx' assume run: "accept_anchor_join plain_verifiers plain_parts plain_digest join_header None zero_hash (from_ticks 7)
    (join_context open_window) = (Inr out, ctx')"
  with join_accepted_authentic [OF run] show ?thesis
    by (auto simp: plain_parts_def)
qed simp

theorem join_accepted_proofs_witness:
  "\<exists>out ctx' message x. accept_anchor_join plain_verifiers plain_parts plain_digest join_header None zero_hash (from_ticks 7)
      (join_context open_window) = (Inr out, ctx') \<and>
    smallwood_verify plain_verifiers \<lparr>sw_label = ''capss-smallwood'', sw_fs_domain = ''msphf/smallwood/chal'',
      sw_iv = plain_digest, sw_y = oc_hp_commit out, sw_message = message\<rparr> [4] \<and>
    vrf_verify plain_verifiers [4] x (plain_digest, plain_digest) [4] = Inr True \<and> vx_we_epoch_id x = plain_digest \<and>
    vx_join_delta_root x = plain_digest \<and> vx_crs_id x = ''crs''"
proof (rule plain_run [of open_window "from_ticks 7"])
  fix out ctx' assume run: "accept_anchor_join plain_verifiers plain_parts plain_digest join_header None zero_hash (from_ticks 7)
    (join_context open_window) = (Inr out, ctx')"
  have "header_bytes32_or_freeze join_header HDR_FS_EPOCH_COMMIT FREEZE_FS_JOIN_MISSING = Inr plain_digest"
    "header_string_or_freeze join_header HDR_CRS_ID = Inr ''crs''" "bt_get join_header HDR_FS_CAPSS = Some (CBytes [4])"
    "bt_get join_header HDR_VRF_PUBLIC_KEY = Some (CBytes [4])" "bt_get join_header HDR_VRF_PROOF = Some (CBytes [4])"
    "bt_get join_header HDR_VRF_MASK_A = Some (CBytes plain_digest)" "bt_get join_header HDR_VRF_MASK_B = Some (CBytes plain_digest)"
    by (simp_all add: header_bytes32_or_freeze_def value_bytes32_def header_string_or_freeze_def header_text_def join_header_def hdr_keys)
  with run join_accepted_proofs [OF run] show ?thesis
    by (fastforce simp: plain_parts_def)
qed simp

theorem join_accepted_state_witness:
  "\<exists>out ctx' r. accept_anchor_join plain_verifiers plain_parts plain_digest join_header None zero_hash (from_ticks 7)
      (join_context open_window) = (Inr out, ctx') \<and> window (ax_mh_window ctx') (oc_wid out) = [r] \<and>
      hr_we_epoch_id r = plain_digest \<and> device_chain_get ctx' [1] plain_pk \<noteq> None"
proof (rule plain_run [of open_window "from_ticks 7"])
  fix out ctx' assume run: "accept_anchor_join plain_verifiers plain_parts plain_digest join_header None zero_hash (from_ticks 7)
    (join_context open_window) = (Inr out, ctx')"
  have "bt_get join_header HDR_POP_PK = Some (CBytes plain_pk)"
    by (simp add: join_header_def hdr_keys)
  with run join_accepted_state [OF run] show ?thesis
    by (auto simp: plain_parts_def)
qed simp

end
