(* ===== verification/Merge.thy ===== *)
theory Merge
  imports Join
begin

text \<open>
  The merge handler (\<open>accept/merge.rs\<close>), in the order of the code: suite checks, forward-secrecy fields, purge metadata
  and roots, seed commitments, the heads to retire and their pivot, identifiers, parity with the pivot's proofs, the
  checkpoint, the set relations, the roll-up commitments, then the commit to window, pivot store, shadow root, device chain
  and group.  The lemmas show what an accepted merge has established and which state every run leaves behind.
\<close>

section \<open>Checks before the window is read\<close>

definition merge_preflight :: "AnchorInstanceParts \<Rightarrow> header \<Rightarrow> AcceptanceContext \<Rightarrow> AcceptanceError + unit" where
  "merge_preflight p h ctx =
     tryE (ensure_tswe_alg h) (\<lambda>_.
     tryE (ensure_merkle_suite h) (\<lambda>_.
     tryE (ensure_crs_id ctx h) (\<lambda>_.
     tryE (ensure_kbroad_alg h) (\<lambda>_.
     tryE (ensure_kbroad_pub ctx (ap_gid p) h) (\<lambda>_.
     tryE (ensure_params_id ctx h) (\<lambda>_.
     tryE (ensure_merge_join_keys_absent h) (\<lambda>_.
     freeze_if (has_key h HDR_KBROAD_REPLAY) FREEZE_HASH_CBOR)))))))"

text \<open>The policy version: checked against the context's, or taken over when the context has none.\<close>
definition merge_fs_policy :: "header \<Rightarrow> unit acc" where
  "merge_fs_policy h =
     tryS (liftS (\<lambda>_. header_u64_or_freeze h HDR_FS_POLICY_VERSION FREEZE_FS_JOIN_MISSING)) (\<lambda>version.
     tryS (liftS (\<lambda>ctx. ensure_fs_policy_version_allowed ctx (u64_to_string version))) (\<lambda>_.
     (\<lambda>ctx. case ax_fs_policy_version ctx of
        Some existing \<Rightarrow>
          if existing \<noteq> u64_to_string version then (Inl (Freeze FREEZE_FS_POLICY_VERSION_UNSUPPORTED), ctx) else (Inr (), ctx)
      | None \<Rightarrow> (Inr (), set_fs_policy_version (Some (u64_to_string version)) ctx))))"

record MergeFs =
  mf_checkpoint_ec :: u64
  mf_fields :: FsFields
  mf_local_hp_commit :: hash32
  mf_pop_pk :: "bytes option"

definition read_merge_fs :: "header \<Rightarrow> AcceptanceError + MergeFs" where
  "read_merge_fs h =
     tryE (header_u64_or_freeze h HDR_FS_CHECKPOINT_EC FREEZE_FS_JOIN_MISSING) (\<lambda>checkpoint_ec.
     tryE (header_u64_or_freeze h HDR_FS_EC FREEZE_FS_JOIN_MISSING) (\<lambda>fs_ec.
     tryE (header_u64_or_freeze h HDR_BARRIER_UPDATE_REASON FREEZE_FS_JOIN_MISSING) (\<lambda>_.
     tryE (header_u64_or_freeze h HDR_BARRIER_VERSION FREEZE_FS_JOIN_MISSING) (\<lambda>barrier_version.
     tryE (header_bytes32_or_freeze h HDR_FS_EPOCH_COMMIT FREEZE_FS_JOIN_MISSING) (\<lambda>epoch_commit.
     tryE (header_bytes32_or_freeze h HDR_FS_DEV_PREV_COMMIT FREEZE_FS_JOIN_MISSING) (\<lambda>prev_commit.
     tryE (header_bytes32_or_freeze h HDR_FS_DEV_COMMIT FREEZE_FS_JOIN_MISSING) (\<lambda>dev_commit.
     tryE (header_bytes32_or_freeze h HDR_HP_COMMIT FREEZE_FIELD_MISSING) (\<lambda>local_hp_commit.
     Inr \<lparr>mf_checkpoint_ec = checkpoint_ec,
       mf_fields = \<lparr>ff_epoch_commit = epoch_commit, ff_ec = fs_ec, ff_dev_prev_commit = prev_commit,
         ff_dev_commit = dev_commit, ff_barrier_version = barrier_version\<rparr>,
       mf_local_hp_commit = local_hp_commit, mf_pop_pk = Option.bind (bt_get h HDR_POP_PK) value_as_bytes\<rparr>))))))))"

text \<open>The device chain is checked only when the header names a device.\<close>
definition verify_merge_device :: "Ext \<Rightarrow> bytes \<Rightarrow> MergeFs \<Rightarrow> hash32 \<Rightarrow> AcceptanceContext \<Rightarrow> AcceptanceError + unit" where
  "verify_merge_device E gid m digest ctx =
     (case mf_pop_pk m of None \<Rightarrow> Inr () | Some pk \<Rightarrow> verify_fs_fields E gid pk (mf_fields m) digest ctx)"

definition merge_fs_stage :: "Ext \<Rightarrow> AnchorInstanceParts \<Rightarrow> header \<Rightarrow> MergeFs acc" where
  "merge_fs_stage E p h =
     tryS (merge_fs_policy h) (\<lambda>_.
     tryS (liftS (\<lambda>_. header_u64_or_freeze h HDR_FS_EPOCH_BASE_TS FREEZE_FS_JOIN_MISSING)) (\<lambda>base_ts.
     tryS (bind_fs_base_ts base_ts) (\<lambda>_.
     tryS (liftS (\<lambda>ctx. freeze_if (fc_window_periods (ax_fs_caps ctx) = 0) FREEZE_FS_POLICY_WINDOW_INCOMPATIBLE)) (\<lambda>_.
     tryS (liftS (\<lambda>_. read_merge_fs h)) (\<lambda>m.
     tryS (liftS (\<lambda>_. compute_barrier_update_digest E h)) (\<lambda>digest.
     tryS (liftS (verify_merge_device E (ap_gid p) m digest)) (\<lambda>_.
     (\<lambda>ctx. (Inr m, ctx)))))))))"

definition check_purge :: "header \<Rightarrow> AcceptanceError + unit" where
  "check_purge h =
     tryE (freeze_unless (bt_get h HDR_FS_EVOLUTION_BOUNDARY = Some (CBool True)) FREEZE_MH_HEADS_INVALID) (\<lambda>_.
     tryE (freeze_unless (bt_get h HDR_ROLLUP_FS_MODE = Some (CText ''fs-purge'')) FREEZE_MH_HEADS_INVALID) (\<lambda>_.
     freeze_if (case bt_get h HDR_FS_PURGE_TIMES of None \<Rightarrow> False | Some (CMap _) \<Rightarrow> False | Some _ \<Rightarrow> True) FREEZE_HASH_CBOR))"

section \<open>Seed, heads and identifiers\<close>

record MergeSeed =
  ms_rho_commit :: hash32
  ms_anchor_seed_ctx :: bytes
  ms_seed_ctx_hash :: hash32
  ms_seed_bundle :: hash32
  ms_wid_new :: hash32

definition merge_seed :: "Ext \<Rightarrow> AnchorInstanceParts \<Rightarrow> header \<Rightarrow> hash32 \<Rightarrow> AcceptanceError + MergeSeed" where
  "merge_seed E p h parent_root =
     tryE (header_bytes32_or_freeze h 93 FREEZE_RHO_PARITY) (\<lambda>rho_commit.
     tryE (header_bytes32_or_freeze h 91 FREEZE_SEEDCTX_MISMATCH) (\<lambda>provided_seed_ctx_hash.
     tryE (map_err acc_err (build_anchor_seed_ctx E h)) (\<lambda>seed_ctx.
     tryE (map_err acc_err (compute_seed_ctx_hash E seed_ctx)) (\<lambda>seed_ctx_hash.
     tryE (freeze_if (seed_ctx_hash \<noteq> provided_seed_ctx_hash) FREEZE_SEEDCTX_MISMATCH) (\<lambda>_.
     tryE (header_bytes32_or_freeze h 94 FREEZE_SEEDCTX_MISMATCH) (\<lambda>bundle.
     tryE (map_err acc_err (compute_window_id E (ap_gid p) parent_root seed_ctx_hash)) (\<lambda>wid_new.
     Inr \<lparr>ms_rho_commit = rho_commit, ms_anchor_seed_ctx = seed_ctx, ms_seed_ctx_hash = seed_ctx_hash,
       ms_seed_bundle = bundle, ms_wid_new = wid_new\<rparr>)))))))"

record MergeHeads =
  mh_wid_old :: bytes
  mh_pivot_weid :: hash32
  mh_pivot_record :: HeadRecord

definition merge_heads :: "header \<Rightarrow> hash32 list \<Rightarrow> hash32 \<Rightarrow> AcceptanceContext \<Rightarrow> AcceptanceError + MergeHeads" where
  "merge_heads h hs rho_commit ctx =
     (let bad = Freeze FREEZE_MH_HEADS_INVALID; mw = ax_mh_window ctx in
      tryE (ok_or bad (case hs of [] \<Rightarrow> None | x # _ \<Rightarrow> Some x)) (\<lambda>first_head.
      tryE (ensure (heads_increasing hs) bad) (\<lambda>_.
      tryE (ok_or bad (find_head_window mw first_head)) (\<lambda>wid_old.
      tryE (ensure (list_all (\<lambda>x. find_head mw wid_old x \<noteq> None) hs) bad) (\<lambda>_.
      tryE (header_bytes32_or_freeze h HDR_ROLLUP_PIVOT_WEID FREEZE_MH_HEADS_INVALID) (\<lambda>pivot_weid.
      tryE (ensure (pivot_weid \<in> set hs) bad) (\<lambda>_.
      tryE (ok_or bad (find_head mw wid_old pivot_weid)) (\<lambda>pivot_record.
      tryE (freeze_if (rho_commit \<noteq> hr_rho_commit pivot_record) FREEZE_MSPHF_RHO_PARITY) (\<lambda>_.
      Inr \<lparr>mh_wid_old = wid_old, mh_pivot_weid = pivot_weid, mh_pivot_record = pivot_record\<rparr>)))))))))"

record MergeIds =
  mi_we_epoch_id :: hash32
  mi_seed_commit :: hash32
  mi_xk_hash :: hash32

definition merge_ids ::
  "Ext \<Rightarrow> AnchorInstanceParts \<Rightarrow> hash32 \<Rightarrow> hash32 \<Rightarrow> MergeSeed \<Rightarrow> AcceptanceError + MergeIds" where
  "merge_ids E p parent_root we_epoch_id_claim s =
     tryE (map_err acc_err (compute_seed_bundle_commit E (ms_anchor_seed_ctx s) (ms_rho_commit s) (ap_gid p) (ap_cat p) parent_root)) (\<lambda>expected.
     tryE (freeze_if (expected \<noteq> ms_seed_bundle s) FREEZE_SEEDCTX_MISMATCH) (\<lambda>_.
     tryE (check_epoch E p parent_root we_epoch_id_claim (ms_anchor_seed_ctx s) (ms_seed_ctx_hash s)) (\<lambda>(weid, seed_commit).
     tryE (map_err acc_err (xk_hash E (anchor_of p weid (ms_anchor_seed_ctx s) None))) (\<lambda>xk.
     Inr \<lparr>mi_we_epoch_id = weid, mi_seed_commit = seed_commit, mi_xk_hash = xk\<rparr>))))"

definition merge_proofs :: "Ext \<Rightarrow> header \<Rightarrow> AcceptanceContext \<Rightarrow> AcceptanceError + ProofArtifacts" where
  "merge_proofs E h ctx =
     tryE (ensure_bootstrap_absent h) (\<lambda>_.
     tryE (ensure_proofs E h (ax_allowed_proof_modes ctx) (ax_deprecated_proof_modes ctx) (ax_allowed_vrf_ids ctx)
       (ax_deprecated_vrf_ids ctx)) (\<lambda>proofs.
     tryE (freeze_if (pa_vrf_pi proofs = [] \<or> MAX_VRF_PROOF_BYTES < length (pa_vrf_pi proofs)) FREEZE_VRF_INVALID) (\<lambda>_.
     Inr proofs)))"

section \<open>Parity with the pivot\<close>

text \<open>\<open>stored_parities.into_iter().map(..).collect::<BTreeMap<_, _>>()\<close>: a later entry replaces an earlier one.\<close>
definition parity_map :: "PivotParity list \<Rightarrow> (hash32 \<rightharpoonup> PivotParity)" where
  "parity_map ps = map_of (rev (map (\<lambda>q. (pp_we_epoch_id q, q)) ps))"

definition list_parities :: "bytes \<Rightarrow> hash32 \<Rightarrow> AcceptInstant \<Rightarrow> (hash32 \<rightharpoonup> PivotParity) acc" where
  "list_parities gid parent_root now ctx =
     (let (ps, store) = pivot_list (ax_pivot_store ctx) gid parent_root now
      in (Inr (parity_map ps), ctx\<lparr>ax_pivot_store := store\<rparr>))"

definition use_local_hp_transport :: "header \<Rightarrow> bool" where
  "use_local_hp_transport h \<longleftrightarrow>
     (case bt_get h HDR_HP_BYTES of Some (CArray (CText mode # _)) \<Rightarrow> mode = BARRIER_HP_MODE | _ \<Rightarrow> False)"

definition check_pivot_envelope :: "Ext \<Rightarrow> header \<Rightarrow> PivotParity \<Rightarrow> AcceptanceError + unit" where
  "check_pivot_envelope E h pivot =
     tryE (freeze_if (pp_hp_envelope pivot = []) FREEZE_FIELD_MISSING) (\<lambda>_.
     tryE (ok_or (Freeze FREEZE_HASH_CBOR) (cbor_de E (pp_hp_envelope pivot))) (\<lambda>pivot_envelope.
     tryE (if use_local_hp_transport h then ok_or (Freeze FREEZE_FIELD_MISSING) (bt_get h HDR_HP_BYTES)
           else Inr (case bt_get h HDR_HP_BYTES of Some v \<Rightarrow> v | None \<Rightarrow> pivot_envelope)) (\<lambda>envelope.
     verify_join_payload_hp_envelope h (Some envelope) BARRIER_HP_CONTEXT_BARRIER_RECOVERY)))"

definition check_pivot_proofs :: "ProofArtifacts \<Rightarrow> PivotParity \<Rightarrow> AcceptanceError + unit" where
  "check_pivot_proofs proofs pivot =
     tryE (freeze_if (pa_fs_capss proofs \<noteq> pp_fs_capss pivot) FREEZE_CAPSS_INVALID) (\<lambda>_.
     tryE (freeze_if (pa_vrf_pi proofs \<noteq> pp_vrf_proof pivot \<or> pa_mask_a proofs \<noteq> pp_mask_a pivot \<or>
       pa_mask_b proofs \<noteq> pp_mask_b pivot \<or> pa_vrf_public proofs \<noteq> pp_vrf_public pivot) FREEZE_VRF_INVALID) (\<lambda>_.
     freeze_if (u64_to_string (pa_fs_policy_version proofs) \<noteq> pp_policy_version pivot \<or>
       pa_proof_mode proofs \<noteq> pp_proof_mode pivot \<or> pa_vrf_id proofs \<noteq> pp_vrf_id pivot) FREEZE_SUITE_FORBIDDEN))"

fun max_fs_ec :: "(hash32 \<rightharpoonup> PivotParity) \<Rightarrow> hash32 list \<Rightarrow> u64 option \<Rightarrow> AcceptanceError + u64 option" where
  "max_fs_ec pm [] m = Inr m"
| "max_fs_ec pm (x # xs) m =
     tryE (ok_or (Freeze FREEZE_MH_HEADS_INVALID) (pm x)) (\<lambda>q.
     tryE (ok_or (Freeze FREEZE_FS_JOIN_MISSING) (pp_fs_ec q)) (\<lambda>ec.
     max_fs_ec pm xs (Some (case m of None \<Rightarrow> ec | Some current \<Rightarrow> max current ec))))"

definition check_checkpoint ::
  "bytes \<Rightarrow> (hash32 \<rightharpoonup> PivotParity) \<Rightarrow> hash32 list \<Rightarrow> u64 \<Rightarrow> AcceptanceContext \<Rightarrow> AcceptanceError + unit" where
  "check_checkpoint gid pm hs checkpoint_ec ctx =
     tryE (max_fs_ec pm hs None) (\<lambda>m.
     tryE (ok_or (Freeze FREEZE_MH_HEADS_INVALID) m) (\<lambda>max_ec.
     tryE (freeze_if (checkpoint_ec \<noteq> max_ec) FREEZE_FS_CHECKPOINT_BACKDATE) (\<lambda>_.
     tryE (freeze_if (checkpoint_ec < last_checkpoint_ec ctx gid) FREEZE_FS_CHECKPOINT_MONOTONICITY) (\<lambda>_.
     freeze_if (last_accepted_ec ctx gid < checkpoint_ec) FREEZE_FS_CHECKPOINT_BACKDATE))))"

section \<open>Set relations and roll-up commitments\<close>

definition is_reclaim_join_finalize :: "header \<Rightarrow> bool" where
  "is_reclaim_join_finalize h \<longleftrightarrow> has_key h HDR_JOIN_FINALIZE_AUTH \<and>
     (case bt_get h HDR_BARRIER_UPDATE_REASON of Some (CInt i) \<Rightarrow> u64_try_from i = Some 0 | _ \<Rightarrow> False)"

text \<open>\<open>effective_srx_required_for_merge\<close>: the roots differ from the pivot's, and the merge does not finalise a reclaim.\<close>
definition merge_srx_required :: "AnchorInstanceParts \<Rightarrow> header \<Rightarrow> HeadRecord \<Rightarrow> bool" where
  "merge_srx_required p h pivot \<longleftrightarrow>
     (ap_revoked_since_prev_root p \<noteq> hr_revoked_since_root pivot \<or> ap_revoked_root p \<noteq> hr_revoked_root pivot) \<and>
     \<not> is_reclaim_join_finalize h"

definition srx_args :: "AnchorInstanceParts \<Rightarrow> hash32 \<Rightarrow> MergeSeed \<Rightarrow> MergeIds \<Rightarrow> HeadRecord \<Rightarrow> SrxArgs" where
  "srx_args p parent_root s ids pivot =
     \<lparr>sa_parent_root = parent_root, sa_join_delta_root = ap_join_delta_root p,
      sa_revoked_since_root = ap_revoked_since_prev_root p, sa_revoked_root = ap_revoked_root p,
      sa_xk_hash = mi_xk_hash ids, sa_seed_commit = mi_seed_commit ids, sa_rho_commit = ms_rho_commit s,
      sa_hp_commit = hr_msphf_hp_commit pivot\<rparr>"

definition merge_srx_stage ::
  "Verifiers \<Rightarrow> AnchorInstanceParts \<Rightarrow> header \<Rightarrow> hash32 \<Rightarrow> MergeSeed \<Rightarrow> MergeIds \<Rightarrow> HeadRecord \<Rightarrow> ProofArtifacts \<Rightarrow> AcceptInstant \<Rightarrow> hash32 acc" where
  "merge_srx_stage V p h parent_root s ids pivot proofs now =
     tryS (liftS (\<lambda>_. ensure_merge_srx_keys h (merge_srx_required p h pivot))) (\<lambda>_.
     tryS (ensure_group_srx_root_sw (ap_gid p)) (\<lambda>root_before.
     (\<lambda>ctx. if merge_srx_required p h pivot
        then (case ensure_srx_relations V h (srx_args p parent_root s ids pivot) True (ax_srx_max_bytes ctx) now (ax_vck_cache ctx)
                proofs root_before of
          (r, cache) \<Rightarrow> (case r of Inl e \<Rightarrow> Inl e | Inr _ \<Rightarrow> Inr root_before, ctx\<lparr>ax_vck_cache := cache\<rparr>))
        else (Inr root_before, ctx))))"

text \<open>An optional digest of exactly 32 bytes.\<close>
definition rollup_digest :: "header \<Rightarrow> u64 \<Rightarrow> AcceptanceError + bytes option" where
  "rollup_digest h key =
     (case bt_get h key of
        None \<Rightarrow> Inr None
      | Some (CBytes b) \<Rightarrow> if length b = 32 then Inr (Some b) else Inl (Freeze FREEZE_HASH_CBOR)
      | Some _ \<Rightarrow> Inl (Freeze FREEZE_HASH_CBOR))"

definition replay_matches :: "RollupEpochEntry \<Rightarrow> PivotParity \<Rightarrow> bool" where
  "replay_matches e q \<longleftrightarrow>
     pp_xk_hash q = re_xk_hash e \<and> pp_parent_root q = re_parent_root e \<and> pp_join_delta_root q = re_join_delta_root e \<and>
     pp_revoked_since_root q = re_revoked_since_root e \<and> pp_revoked_root q = re_revoked_root e \<and> pp_is_join q = re_is_join e"

fun check_replay :: "Ext \<Rightarrow> (hash32 \<rightharpoonup> PivotParity) \<Rightarrow> hash32 list \<Rightarrow> RollupEpochEntry list \<Rightarrow> AcceptanceError + unit" where
  "check_replay E pm (x # xs) (e # es) =
     tryE (freeze_if (re_weid e \<noteq> x) FREEZE_HASH_CBOR) (\<lambda>_.
     tryE (ok_or (Freeze FREEZE_MH_HEADS_INVALID) (pm x)) (\<lambda>q.
     tryE (freeze_unless (replay_matches e q) FREEZE_MH_HEADS_INVALID) (\<lambda>_.
     tryE (if re_is_join e
           then tryE (validate_barrier_hp_envelope_bytes E (pp_hp_envelope q)) (\<lambda>_.
                freeze_if (pp_hp_envelope q = []) FREEZE_FIELD_MISSING)
           else Inr ()) (\<lambda>_.
     check_replay E pm xs es))))"
| "check_replay E pm _ _ = Inr ()"

definition rollup_vcks :: "Ext \<Rightarrow> (hash32 \<rightharpoonup> PivotParity) \<Rightarrow> hash32 list \<Rightarrow> AcceptanceError + (hash32 \<times> hash32 \<times> hash32) list" where
  "rollup_vcks E pm hs =
     mapE (\<lambda>weid.
       tryE (ok_or (Freeze FREEZE_MH_HEADS_INVALID) (pm weid)) (\<lambda>q.
       tryE (compute_vck_from_parity E q) (\<lambda>vck.
       Inr (weid, vck, pp_xk_hash q)))) hs"

text \<open>A canonical value is encoded, wrapped as \<open>RollupCommit\<close> and hashed under its label.\<close>
definition rollup_commit :: "Ext \<Rightarrow> string \<Rightarrow> cbor \<Rightarrow> AcceptanceError + hash32" where
  "rollup_commit E label v =
     tryE (map_err (\<lambda>_. Freeze FREEZE_HASH_CBOR) (cbor_ser E v)) (\<lambda>encoded. map_err acc_err (h_l E label (CBytes encoded)))"

definition check_provenance ::
  "Ext \<Rightarrow> (hash32 \<rightharpoonup> PivotParity) \<Rightarrow> hash32 list \<Rightarrow> bytes \<Rightarrow> bytes option \<Rightarrow> AcceptanceError + unit" where
  "check_provenance E pm hs commit vck_commit =
     tryE (rollup_vcks E pm hs) (\<lambda>entries.
     tryE (rollup_commit E ''msphf/rollup/prov''
       (CArray (map (\<lambda>(weid, vck, xk). CArray [CBytes weid, CBytes vck, CBytes xk]) entries))) (\<lambda>computed.
     tryE (freeze_if (computed \<noteq> commit) FREEZE_MH_HEADS_INVALID) (\<lambda>_.
     case vck_commit of
       None \<Rightarrow> Inr ()
     | Some c \<Rightarrow>
         tryE (rollup_commit E ''msphf/rollup/vck'' (CArray (map (\<lambda>(_, vck, _). CBytes vck) entries))) (\<lambda>computed_vck.
         freeze_if (computed_vck \<noteq> c) FREEZE_MH_HEADS_INVALID))))"

definition merge_rollup :: "Ext \<Rightarrow> header \<Rightarrow> (hash32 \<rightharpoonup> PivotParity) \<Rightarrow> hash32 list \<Rightarrow> AcceptanceError + unit" where
  "merge_rollup E h pm hs =
     tryE (rollup_digest h HDR_ROLLUP_PROVENANCE_COMMIT) (\<lambda>provenance.
     tryE (case bt_get h HDR_ROLLUP_EPOCH_REPLAY of
             None \<Rightarrow> Inr None
           | Some v \<Rightarrow> tryE (parse_rollup_epoch_replay v) (\<lambda>es. Inr (Some es))) (\<lambda>replay.
     tryE (rollup_digest h HDR_ROLLUP_VCK_COMMIT) (\<lambda>vck_commit.
     tryE (freeze_if (vck_commit \<noteq> None \<and> provenance = None) FREEZE_MH_HEADS_INVALID) (\<lambda>_.
     let has_rollup = provenance \<noteq> None \<or> replay \<noteq> None \<or> vck_commit \<noteq> None in
     tryE (freeze_if (has_rollup \<and> (provenance = None \<or> replay = None)) FREEZE_MH_HEADS_INVALID) (\<lambda>_.
     tryE (case replay of
             None \<Rightarrow> Inr ()
           | Some es \<Rightarrow> tryE (freeze_if (length es \<noteq> length hs) FREEZE_MH_HEADS_INVALID) (\<lambda>_. check_replay E pm hs es)) (\<lambda>_.
     case provenance of
       Some commit \<Rightarrow> check_provenance E pm hs commit vck_commit
     | None \<Rightarrow> freeze_if has_rollup FREEZE_MH_HEADS_INVALID))))))"

section \<open>Commit of the merge\<close>

text \<open>What validation hands to the commit.\<close>
record MergeChecked =
  mc_parent_root :: hash32
  mc_key :: TelemetryKey
  mc_fs :: MergeFs
  mc_seed :: MergeSeed
  mc_heads :: MergeHeads
  mc_ids :: MergeIds
  mc_seq :: u64
  mc_proofs :: ProofArtifacts
  mc_pivot :: PivotParity
  mc_root_before :: hash32

text \<open>The key commitment of the merged head: the merge's own with a local envelope, the pivot's otherwise.\<close>
definition merged_hp_commit :: "header \<Rightarrow> MergeChecked \<Rightarrow> hash32" where
  "merged_hp_commit h c =
     (if use_local_hp_transport h then mf_local_hp_commit (mc_fs c) else hr_msphf_hp_commit (mh_pivot_record (mc_heads c)))"

definition merge_record :: "AnchorInstanceParts \<Rightarrow> header \<Rightarrow> MergeChecked \<Rightarrow> AcceptInstant \<Rightarrow> HeadRecord" where
  "merge_record p h c now =
     \<lparr>hr_we_epoch_id = mi_we_epoch_id (mc_ids c), hr_msphf_hp_commit = merged_hp_commit h c,
      hr_seed_ctx_hash = ms_seed_ctx_hash (mc_seed c), hr_rho_commit = ms_rho_commit (mc_seed c),
      hr_seed_commit = mi_seed_commit (mc_ids c), hr_xk_hash = mi_xk_hash (mc_ids c),
      hr_join_delta_root = ap_join_delta_root p, hr_revoked_since_root = ap_revoked_since_prev_root p,
      hr_revoked_root = ap_revoked_root p, hr_accept_seq = mc_seq c, hr_accept_time = now\<rparr>"

text \<open>The identifiers the merge copies into the pivot store, and with set relations the new commitment and shadow root.\<close>
definition merge_pivot_fields ::
  "AnchorInstanceParts \<Rightarrow> header \<Rightarrow> MergeChecked \<Rightarrow> AcceptanceContext \<Rightarrow> AcceptanceError + bytes \<times> bytes \<times> hash32 option \<times> hash32 option" where
  "merge_pivot_fields p h c ctx =
     tryE (header_value_bytes h HDR_CRS_ID FREEZE_MSPHF_CRS_INVALID) (\<lambda>crs_id.
     tryE (header_value_bytes h HDR_PARAMS_ID FREEZE_PARAMS_ID_INVALID) (\<lambda>params_id.
     if merge_srx_required p h (mh_pivot_record (mc_heads c))
     then tryE (header_bytes32_or_freeze h HDR_SRX_COMMIT FREEZE_SRX_INVALID) (\<lambda>srx_commit.
          tryE (header_bytes32_or_freeze h HDR_SRX_ROOT_SW FREEZE_SRX_INVALID) (\<lambda>root_sw.
          Inr (crs_id, params_id, Some srx_commit, Some root_sw)))
     else Inr (crs_id, params_id, None, group_srx_root_sw ctx (ap_gid p))))"

definition merge_pivot ::
  "Ext \<Rightarrow> AnchorInstanceParts \<Rightarrow> header \<Rightarrow> MergeChecked \<Rightarrow> bytes \<times> bytes \<times> hash32 option \<times> hash32 option \<Rightarrow> PivotParity" where
  "merge_pivot E p h c pf =
     (case pf of (crs_id, params_id, srx_commit, root_sw) \<Rightarrow>
      let proofs = mc_proofs c; f = mf_fields (mc_fs c) in
      \<lparr>pp_gid = ap_gid p, pp_cat = ap_cat p, pp_parent_root = mc_parent_root c, pp_we_epoch_id = mi_we_epoch_id (mc_ids c),
       pp_rho_commit = ms_rho_commit (mc_seed c), pp_seed_ctx_hash = ms_seed_ctx_hash (mc_seed c),
       pp_seed_commit = mi_seed_commit (mc_ids c), pp_hp_commit = merged_hp_commit h c, pp_xk_hash = mi_xk_hash (mc_ids c),
       pp_join_delta_root = ap_join_delta_root p, pp_revoked_since_root = ap_revoked_since_prev_root p,
       pp_revoked_root = ap_revoked_root p, pp_accept_seq = mc_seq c, pp_crs_id = crs_id, pp_params_id = params_id,
       pp_policy_version = u64_to_string (pa_fs_policy_version proofs), pp_proof_mode = pa_proof_mode proofs,
       pp_vrf_id = pa_vrf_id proofs, pp_vrf_proof = pa_vrf_pi proofs, pp_vrf_public = pa_vrf_public proofs,
       pp_mask_a = pa_mask_a proofs, pp_mask_b = pa_mask_b proofs, pp_fs_capss = pa_fs_capss proofs,
       pp_proofs_commit = pa_commit proofs, pp_srx_commit = srx_commit, pp_srx_root_sw = root_sw, pp_is_join = False,
       pp_hp_envelope = (case Option.bind (bt_get h HDR_HP_BYTES) (\<lambda>v. case to_cbor_vec E v of Inr b \<Rightarrow> Some b | Inl _ \<Rightarrow> None) of
          Some b \<Rightarrow> if b = [] then pp_hp_envelope (mc_pivot c) else b | None \<Rightarrow> pp_hp_envelope (mc_pivot c)),
       pp_fs_epoch_commit = Some (ff_epoch_commit f), pp_fs_ec = Some (ff_ec f), pp_fs_dev_commit = Some (ff_dev_commit f)\<rparr>)"

definition merge_outcome :: "header \<Rightarrow> MergeChecked \<Rightarrow> hash32 list \<Rightarrow> AcceptInstant \<Rightarrow> string option \<Rightarrow> AcceptanceOutcome" where
  "merge_outcome h c hs now mh_note =
     \<lparr>oc_kind = Merge hs, oc_we_epoch_id = mi_we_epoch_id (mc_ids c), oc_wid = ms_wid_new (mc_seed c),
      oc_seed_ctx_hash = ms_seed_ctx_hash (mc_seed c), oc_seed_commit = mi_seed_commit (mc_ids c),
      oc_rho_commit = ms_rho_commit (mc_seed c), oc_hp_commit = merged_hp_commit h c, oc_xk_hash = mi_xk_hash (mc_ids c),
      oc_accept_seq = mc_seq c, oc_accept_time = now, oc_mh_note = mh_note,
      oc_fs_epoch_commit = Some (ff_epoch_commit (mf_fields (mc_fs c))), oc_fs_ec = Some (ff_ec (mf_fields (mc_fs c))),
      oc_fs_dev_commit = Some (ff_dev_commit (mf_fields (mc_fs c)))\<rparr>"

text \<open>With set relations the group's shadow root must still be the one the proof started from, and then moves on.\<close>
definition move_srx_root :: "AnchorInstanceParts \<Rightarrow> header \<Rightarrow> MergeChecked \<Rightarrow> hash32 option \<Rightarrow> unit acc" where
  "move_srx_root p h c root_sw ctx =
     (if merge_srx_required p h (mh_pivot_record (mc_heads c))
      then (if group_srx_root_sw ctx (ap_gid p) \<noteq> Some (mc_root_before c) then (Inl (Freeze FREEZE_SRX_INVALID), ctx)
            else (Inr (), set_group_srx_root_sw (ap_gid p) root_sw ctx))
      else (Inr (), ctx))"

definition advance_merge_device :: "bytes \<Rightarrow> MergeFs \<Rightarrow> AcceptanceContext \<Rightarrow> AcceptanceContext" where
  "advance_merge_device gid m =
     (case mf_pop_pk m of None \<Rightarrow> (\<lambda>ctx. ctx)
      | Some pk \<Rightarrow> advance_device gid pk (ff_dev_commit (mf_fields m)) (ff_ec (mf_fields m)))"

definition merge_commit ::
  "Verifiers \<Rightarrow> AnchorInstanceParts \<Rightarrow> header \<Rightarrow> MergeChecked \<Rightarrow> hash32 list \<Rightarrow> string option \<Rightarrow> AcceptInstant \<Rightarrow> AcceptanceOutcome acc" where
  "merge_commit V p h c hs mh_note now =
     (let gid = ap_gid p; m = mc_fs c in
      tryS (window_result (mc_key c) (ms_wid_new (mc_seed c))
        (ctx_accept_merge (mh_wid_old (mc_heads c)) (ms_wid_new (mc_seed c)) hs (merge_record p h c now) now)) (\<lambda>_.
      tryS (updS (\<lambda>ctx. ctx\<lparr>ax_pivot_store := pivot_retire (ax_pivot_store ctx) gid (mc_parent_root c) hs\<rparr>)) (\<lambda>_.
      tryS (liftS (merge_pivot_fields p h c)) (\<lambda>pf.
      tryS (move_srx_root p h c (snd (snd (snd pf)))) (\<lambda>_.
      tryS (updS (insert_pivot_parity (merge_pivot (ext V) p h c pf) now)) (\<lambda>_.
      tryS (updS (advance_merge_device gid m)) (\<lambda>_.
      tryS (updS (set_last_checkpoint_ec gid (mf_checkpoint_ec m))) (\<lambda>_.
      tryS (updS (record_accepted_ec gid (ff_ec (mf_fields m)))) (\<lambda>_.
      (\<lambda>ctx. (Inr (merge_outcome h c hs now mh_note), ctx)))))))))))"

section \<open>The handler\<close>

definition merge_validate ::
  "Verifiers \<Rightarrow> AnchorInstanceParts \<Rightarrow> hash32 \<Rightarrow> header \<Rightarrow> hash32 list \<Rightarrow> AcceptInstant \<Rightarrow> MergeChecked acc" where
  "merge_validate V p we_epoch_id_claim h hs now =
     (let E = ext V; gid = ap_gid p; bad = Freeze FREEZE_MH_HEADS_INVALID in
      tryS (liftS (merge_preflight p h)) (\<lambda>_.
      tryS (merge_fs_stage E p h) (\<lambda>m.
      tryS (liftS (\<lambda>_. check_purge h)) (\<lambda>_.
      tryS (liftS (\<lambda>_. check_roots p h)) (\<lambda>parent_root.
      tryS (telemetry_record_attempt gid (ap_parent_root p)) (\<lambda>key.
      tryS (liftS (\<lambda>_. merge_seed E p h parent_root)) (\<lambda>s.
      tryS (liftS (merge_heads h hs (ms_rho_commit s))) (\<lambda>heads.
      tryS (liftS (\<lambda>_. merge_ids E p parent_root we_epoch_id_claim s)) (\<lambda>ids.
      tryS take_accept_seq (\<lambda>seq.
      tryS (liftS (merge_proofs E h)) (\<lambda>proofs.
      tryS (list_parities gid parent_root now) (\<lambda>pm.
      tryS (liftS (\<lambda>_. ok_or bad (pm (mh_pivot_weid heads)))) (\<lambda>pivot.
      tryS (liftS (\<lambda>_. check_pivot_envelope E h pivot)) (\<lambda>_.
      tryS (liftS (\<lambda>_. check_pivot_proofs proofs pivot)) (\<lambda>_.
      tryS (liftS (check_checkpoint gid pm hs (mf_checkpoint_ec m))) (\<lambda>_.
      tryS (merge_srx_stage V p h parent_root s ids (mh_pivot_record heads) proofs now) (\<lambda>root_before.
      tryS (liftS (\<lambda>_. merge_rollup E h pm hs)) (\<lambda>_.
      tryS take_pending_capss_witness (\<lambda>_.
      (\<lambda>ctx. (Inr \<lparr>mc_parent_root = parent_root, mc_key = key, mc_fs = m, mc_seed = s, mc_heads = heads, mc_ids = ids,
         mc_seq = seq, mc_proofs = proofs, mc_pivot = pivot, mc_root_before = root_before\<rparr>, ctx)))))))))))))))))))))"

definition accept_anchor_merge ::
  "Verifiers \<Rightarrow> AnchorInstanceParts \<Rightarrow> hash32 \<Rightarrow> header \<Rightarrow> hash32 list \<Rightarrow> string option \<Rightarrow> AcceptInstant \<Rightarrow> AcceptanceOutcome acc" where
  "accept_anchor_merge V p we_epoch_id_claim h hs mh_note now =
     tryS (merge_validate V p we_epoch_id_claim h hs now) (\<lambda>c. merge_commit V p h c hs mh_note now)"

section \<open>Refusals before the window\<close>

lemma never_full_parities [unfilled_intro]: "never_full (list_parities gid root now)"
  by (auto simp: never_full_def list_parities_def split: prod.split)

lemma unfilled_max_ec [unfilled_intro]: "unfilled (max_fs_ec pm hs m)"
  by (induction hs arbitrary: m) (auto simp: freeze_defs WINDOW_FULL_def intro!: unfilled_intro)

lemma unfilled_check_replay [unfilled_intro]: "unfilled (check_replay E pm hs es)"
  by (induction E pm hs es rule: check_replay.induct) (auto simp: freeze_defs WINDOW_FULL_def intro!: unfilled_intro)

lemma unfilled_rollup_entries [unfilled_intro]: "unfilled (parse_rollup_entries prev es)"
proof (induction es arbitrary: prev)
  case (Cons e es)
  then show ?case
    by (cases e) (auto simp: parse_rollup_roots_def freeze_defs WINDOW_FULL_def intro!: unfilled_intro)
qed simp

lemma unfilled_merge [unfilled_intro]:
  "unfilled (merge_preflight p h ctx)" "unfilled (read_merge_fs h)" "unfilled (verify_merge_device E gid m digest ctx)"
  "unfilled (check_purge h)" "unfilled (merge_seed E p h root)" "unfilled (merge_heads h hs rho ctx)"
  "unfilled (merge_ids E p root claim s)" "unfilled (merge_proofs E h ctx)" "unfilled (check_pivot_envelope E h q)"
  "unfilled (check_pivot_proofs proofs q)" "unfilled (check_checkpoint gid pm hs cp ctx)"
  unfolding merge_preflight_def read_merge_fs_def verify_merge_device_def check_purge_def merge_seed_def merge_heads_def
    merge_ids_def merge_proofs_def check_pivot_envelope_def check_pivot_proofs_def check_checkpoint_def
    verify_fs_fields_def
  by (auto simp: freeze_defs WINDOW_FULL_def intro!: unfilled_intro)

lemma unfilled_rollup [unfilled_intro]: "unfilled (merge_rollup E h pm hs)"
  unfolding merge_rollup_def rollup_digest_def check_provenance_def rollup_vcks_def rollup_commit_def parse_rollup_epoch_replay_def
  by (auto simp: freeze_defs WINDOW_FULL_def intro!: unfilled_intro)

lemma never_full_srx [unfilled_intro]: "never_full (merge_srx_stage V p h root s ids pivot proofs now)"
  unfolding merge_srx_stage_def
proof (intro unfilled_intro)
  fix before
  show "never_full (\<lambda>ctx. if merge_srx_required p h pivot
        then (case ensure_srx_relations V h (srx_args p root s ids pivot) True (ax_srx_max_bytes ctx) now (ax_vck_cache ctx)
                proofs before of
          (r, cache) \<Rightarrow> (case r of Inl e \<Rightarrow> Inl e | Inr _ \<Rightarrow> Inr before, ctx\<lparr>ax_vck_cache := cache\<rparr>))
        else (Inr before, ctx))"
    using unfilled_srx [of V h "srx_args p root s ids pivot" True _ now _ proofs before]
    by (auto simp: never_full_def unfilled_def split: prod.split sum.split) (metis fst_conv)
qed

lemma never_full_merge_policy [unfilled_intro]: "never_full (merge_fs_policy h)"
  unfolding merge_fs_policy_def
  by (intro unfilled_intro) (auto simp: never_full_def freeze_defs WINDOW_FULL_def split: option.split)

lemma never_full_merge: "never_full (merge_validate V p claim h hs now)"
  unfolding merge_validate_def merge_fs_stage_def Let_def
  by (intro unfilled_intro) (simp_all add: freeze_defs WINDOW_FULL_def)

section \<open>What a merge leaves behind\<close>

lemma evolves_fs_policy_merge [frame_intro]:
  "evolves core_frame (merge_fs_policy h)" "evolves policy_frame (merge_fs_policy h)"
  unfolding merge_fs_policy_def
  by (intro core.evolves_intro policy.evolves_intro frame_intro evolvesI;
    auto simp: set_fs_policy_version_def core_frame_fields core.refl policy_frame_def split: option.splits if_splits)+

lemma evolves_merge_fs [frame_intro]:
  "evolves core_frame (merge_fs_stage E p h)" "evolves policy_frame (merge_fs_stage E p h)"
  unfolding merge_fs_stage_def by (intro core.evolves_intro policy.evolves_intro frame_intro)+

lemma evolves_list_parities [frame_intro]:
  "evolves core_frame (list_parities gid root now)" "evolves policy_frame (list_parities gid root now)"
  by (rule evolvesI, auto simp: list_parities_def core_frame_fields core.refl policy_frame_def split: prod.splits)+

lemma evolves_merge_srx [frame_intro]: "evolves core_frame (merge_srx_stage V p h root s ids pivot proofs now)"
  unfolding merge_srx_stage_def
  by (intro core.evolves_intro frame_intro evolvesI)
    (auto simp: core_frame_fields core.refl split: if_splits prod.splits)

lemma evolves_merge_validate: "evolves core_frame (merge_validate V p claim h hs now)"
  unfolding merge_validate_def Let_def by (intro core.evolves_intro frame_intro)


lemma evolves_policy_store [frame_intro]: "evolves store_frame (merge_fs_policy h)"
  unfolding merge_fs_policy_def
  by (intro store.evolves_intro evolvesI) (auto simp: set_fs_policy_version_def store_frame_def split: option.splits if_splits)

lemma evolves_merge_fs_store [frame_intro]: "evolves store_frame (merge_fs_stage E p h)"
  unfolding merge_fs_stage_def by (intro store.evolves_intro frame_intro)

lemma verify_merge_device_cong:
  "core_frame s t \<Longrightarrow> verify_merge_device E gid m digest t = verify_merge_device E gid m digest s"
  by (simp add: verify_merge_device_def verify_fs_cong split: option.split)

lemma merge_heads_cong: "core_frame s t \<Longrightarrow> merge_heads h hs rho t = merge_heads h hs rho s"
  by (simp add: merge_heads_def core_frameD(5))

lemma check_checkpoint_cong:
  "core_frame s t \<Longrightarrow> check_checkpoint gid pm hs cp t = check_checkpoint gid pm hs cp s"
  by (simp add: check_checkpoint_def core_frameD(3,4))

lemma merge_proofs_cong: "policy_frame s t \<Longrightarrow> merge_proofs E h t = merge_proofs E h s"
  by (simp add: merge_proofs_def policy_frame_def)

text \<open>The intermediate contexts of a successful validation.\<close>
lemma merge_validate_run:
  assumes "merge_validate V p claim h hs now ctx = (Inr c, ctxm)"
  obtains u1 u2 u3 u4 u5 pm w where
    "merge_preflight p h ctx = Inr ()" "merge_fs_stage (ext V) p h ctx = (Inr (mc_fs c), u1)" "check_purge h = Inr ()"
    "check_roots p h = Inr (mc_parent_root c)"
    "telemetry_record_attempt (ap_gid p) (ap_parent_root p) u1 = (Inr (mc_key c), u2)"
    "merge_seed (ext V) p h (mc_parent_root c) = Inr (mc_seed c)"
    "merge_heads h hs (ms_rho_commit (mc_seed c)) u2 = Inr (mc_heads c)"
    "merge_ids (ext V) p (mc_parent_root c) claim (mc_seed c) = Inr (mc_ids c)"
    "take_accept_seq u2 = (Inr (mc_seq c), u3)" "merge_proofs (ext V) h u3 = Inr (mc_proofs c)"
    "list_parities (ap_gid p) (mc_parent_root c) now u3 = (Inr pm, u4)"
    "pm (mh_pivot_weid (mc_heads c)) = Some (mc_pivot c)"
    "check_pivot_envelope (ext V) h (mc_pivot c) = Inr ()" "check_pivot_proofs (mc_proofs c) (mc_pivot c) = Inr ()"
    "check_checkpoint (ap_gid p) pm hs (mf_checkpoint_ec (mc_fs c)) u4 = Inr ()"
    "merge_srx_stage V p h (mc_parent_root c) (mc_seed c) (mc_ids c) (mh_pivot_record (mc_heads c)) (mc_proofs c) now u4 =
       (Inr (mc_root_before c), u5)"
    "merge_rollup (ext V) h pm hs = Inr ()" "take_pending_capss_witness u5 = (Inr w, ctxm)"
  using assms that by (auto simp: merge_validate_def eff_simps result_simps Let_def)

text \<open>Every context up to the set relations agrees with the first one on the core and the policy; the pivot store is
  first touched by the listing.\<close>
lemma merge_validate_frames:
  assumes "merge_fs_stage (ext V) p h ctx = (Inr m, u1)" "telemetry_record_attempt gid root u1 = (Inr key, u2)"
    "take_accept_seq u2 = (Inr n, u3)" "list_parities gid' root' now u3 = (Inr pm, u4)"
  shows "core_frame ctx u1" "core_frame ctx u2" "core_frame ctx u4" "policy_frame ctx u3" "ax_pivot_store u3 = ax_pivot_store ctx"
proof -
  show c1: "core_frame ctx u1"
    by (rule evolvesD [OF evolves_merge_fs(1) assms(1)])
  show c2: "core_frame ctx u2"
    by (rule core.trans [OF c1 evolvesD [OF evolves_telemetry assms(2)]])
  show "core_frame ctx u4"
    using c2 evolvesD [OF evolves_accept_seq assms(3)] evolvesD [OF evolves_list_parities(1) assms(4)]
    by (blast intro: core.trans)
  show "policy_frame ctx u3"
    using evolvesD [OF evolves_merge_fs(2) assms(1)] evolvesD [OF evolves_policy(1) assms(2)]
      evolvesD [OF evolves_join_policy(3) assms(3)] by (blast intro: policy.trans)
  have "store_frame ctx u3"
    using evolvesD [OF evolves_merge_fs_store assms(1)] evolvesD [OF evolves_store(2) assms(2)]
      evolvesD [OF evolves_store(3) assms(3)] by (blast intro: store.trans)
  then show "ax_pivot_store u3 = ax_pivot_store ctx"
    by (simp add: store_frame_def)
qed

lemma group_root_ensured:
  assumes "ensure_group_srx_root_sw gid ctx = (Inr root, ctx')"
  shows "group_srx_root_sw ctx' gid = Some root" "ax_pivot_store ctx' = ax_pivot_store ctx"
  using assms by (auto simp: ensure_group_srx_root_sw_def set_group_srx_root_sw_def group_srx_root_sw_def
    barrier_group_state_def barrier_group_state_entry_mut_def Let_def split: option.splits)

lemma merge_srx_stage_Inr:
  assumes "merge_srx_stage V p h root s ids pivot proofs now ctx = (Inr before, ctx')"
  shows "group_srx_root_sw ctx' (ap_gid p) = Some before" "ax_pivot_store ctx' = ax_pivot_store ctx"
    "merge_srx_required p h pivot \<Longrightarrow> \<exists>max_bytes cache cache'.
       ensure_srx_relations V h (srx_args p root s ids pivot) True max_bytes now cache proofs before = (Inr (), cache')"
proof -
  obtain u where u: "ensure_group_srx_root_sw (ap_gid p) ctx = (Inr before, u)"
    and r: "if merge_srx_required p h pivot
      then \<exists>cache. ensure_srx_relations V h (srx_args p root s ids pivot) True (ax_srx_max_bytes u) now (ax_vck_cache u) proofs before =
        (Inr (), cache) \<and> ctx' = u\<lparr>ax_vck_cache := cache\<rparr>
      else ctx' = u"
    using assms by (auto simp: merge_srx_stage_def eff_simps split: if_splits prod.splits sum.splits)
  show "group_srx_root_sw ctx' (ap_gid p) = Some before" "ax_pivot_store ctx' = ax_pivot_store ctx"
    using group_root_ensured [OF u] r
    by (auto simp: group_srx_root_sw_def barrier_group_state_def split: if_splits cong: option.case_cong)
  show "\<exists>max_bytes cache cache'.
       ensure_srx_relations V h (srx_args p root s ids pivot) True max_bytes now cache proofs before = (Inr (), cache')"
    if "merge_srx_required p h pivot"
    using r that by auto
qed

text \<open>What validation has checked when it succeeds, as facts about the context it started from.\<close>
lemma merge_validate_Inr:
  assumes "merge_validate V p claim h hs now ctx = (Inr c, ctxm)"
  shows "merge_heads h hs (ms_rho_commit (mc_seed c)) ctx = Inr (mc_heads c)" "merge_proofs (ext V) h ctx = Inr (mc_proofs c)"
    "read_merge_fs h = Inr (mc_fs c)" "check_roots p h = Inr (mc_parent_root c)"
    "merge_seed (ext V) p h (mc_parent_root c) = Inr (mc_seed c)"
    "merge_ids (ext V) p (mc_parent_root c) claim (mc_seed c) = Inr (mc_ids c)" "merge_preflight p h ctx = Inr ()"
    "\<exists>digest. compute_barrier_update_digest (ext V) h = Inr digest \<and> verify_merge_device (ext V) (ap_gid p) (mc_fs c) digest ctx = Inr ()"
    "check_pivot_proofs (mc_proofs c) (mc_pivot c) = Inr ()"
proof -
  from assms obtain u1 u2 u3 u4 pm where
    pure: "check_roots p h = Inr (mc_parent_root c)" "merge_seed (ext V) p h (mc_parent_root c) = Inr (mc_seed c)"
      "merge_ids (ext V) p (mc_parent_root c) claim (mc_seed c) = Inr (mc_ids c)" "merge_preflight p h ctx = Inr ()"
      "check_pivot_proofs (mc_proofs c) (mc_pivot c) = Inr ()" and
    fs: "merge_fs_stage (ext V) p h ctx = (Inr (mc_fs c), u1)"
    and
    run: "telemetry_record_attempt (ap_gid p) (ap_parent_root p) u1 = (Inr (mc_key c), u2)"
      "take_accept_seq u2 = (Inr (mc_seq c), u3)" "list_parities (ap_gid p) (mc_parent_root c) now u3 = (Inr pm, u4)"
    and checks: "merge_heads h hs (ms_rho_commit (mc_seed c)) u2 = Inr (mc_heads c)" "merge_proofs (ext V) h u3 = Inr (mc_proofs c)"
    by (rule merge_validate_run)
  show "check_roots p h = Inr (mc_parent_root c)" "merge_seed (ext V) p h (mc_parent_root c) = Inr (mc_seed c)"
      "merge_ids (ext V) p (mc_parent_root c) claim (mc_seed c) = Inr (mc_ids c)" "merge_preflight p h ctx = Inr ()"
      "check_pivot_proofs (mc_proofs c) (mc_pivot c) = Inr ()"
    by fact+
  note frames = merge_validate_frames [OF fs run]
  have "read_merge_fs h = Inr (mc_fs c) \<and> (\<exists>t digest. core_frame ctx t \<and> compute_barrier_update_digest (ext V) h = Inr digest \<and>
      verify_merge_device (ext V) (ap_gid p) (mc_fs c) digest t = Inr ())"
    using fs frames(1) by (auto simp: merge_fs_stage_def eff_simps)
  then show "read_merge_fs h = Inr (mc_fs c)"
    "\<exists>digest. compute_barrier_update_digest (ext V) h = Inr digest \<and> verify_merge_device (ext V) (ap_gid p) (mc_fs c) digest ctx = Inr ()"
    by (auto simp: verify_merge_device_cong)
  show "merge_heads h hs (ms_rho_commit (mc_seed c)) ctx = Inr (mc_heads c)" "merge_proofs (ext V) h ctx = Inr (mc_proofs c)"
    using checks merge_heads_cong [OF frames(2)] merge_proofs_cong [OF frames(4)] by simp_all
qed

lemma merge_validate_pivot:
  assumes "merge_validate V p claim h hs now ctx = (Inr c, ctxm)"
  shows "\<exists>pm. pm = parity_map (fst (pivot_list (ax_pivot_store ctx) (ap_gid p) (mc_parent_root c) now)) \<and>
      pm (mh_pivot_weid (mc_heads c)) = Some (mc_pivot c) \<and>
      check_checkpoint (ap_gid p) pm hs (mf_checkpoint_ec (mc_fs c)) ctx = Inr () \<and> merge_rollup (ext V) h pm hs = Inr ()"
    "ax_pivot_store ctxm = snd (pivot_list (ax_pivot_store ctx) (ap_gid p) (mc_parent_root c) now)"
    "group_srx_root_sw ctxm (ap_gid p) = Some (mc_root_before c)"
    "merge_srx_required p h (mh_pivot_record (mc_heads c)) \<Longrightarrow> \<exists>max_bytes cache cache'.
       ensure_srx_relations V h (srx_args p (mc_parent_root c) (mc_seed c) (mc_ids c) (mh_pivot_record (mc_heads c))) True
         max_bytes now cache (mc_proofs c) (mc_root_before c) = (Inr (), cache')"
proof -
  from assms obtain u1 u2 u3 u4 u5 pm w where
    run: "merge_fs_stage (ext V) p h ctx = (Inr (mc_fs c), u1)"
      "telemetry_record_attempt (ap_gid p) (ap_parent_root p) u1 = (Inr (mc_key c), u2)"
      "take_accept_seq u2 = (Inr (mc_seq c), u3)" "list_parities (ap_gid p) (mc_parent_root c) now u3 = (Inr pm, u4)"
    and checks: "pm (mh_pivot_weid (mc_heads c)) = Some (mc_pivot c)"
      "check_checkpoint (ap_gid p) pm hs (mf_checkpoint_ec (mc_fs c)) u4 = Inr ()" "merge_rollup (ext V) h pm hs = Inr ()"
    and srx: "merge_srx_stage V p h (mc_parent_root c) (mc_seed c) (mc_ids c) (mh_pivot_record (mc_heads c)) (mc_proofs c) now u4 =
       (Inr (mc_root_before c), u5)" and w: "take_pending_capss_witness u5 = (Inr w, ctxm)"
    by (rule merge_validate_run)
  note frames = merge_validate_frames [OF run] and srx' = merge_srx_stage_Inr [OF srx]
  have listed: "pm = parity_map (fst (pivot_list (ax_pivot_store ctx) (ap_gid p) (mc_parent_root c) now))"
      "ax_pivot_store u4 = snd (pivot_list (ax_pivot_store ctx) (ap_gid p) (mc_parent_root c) now)"
    using run(4) frames(5) by (auto simp: list_parities_def split: prod.splits)
  have ctxm: "ctxm = u5\<lparr>ax_pending_capss_witness := None\<rparr>"
    using w by (simp add: take_pending_capss_witness_def)
  show "\<exists>pm. pm = parity_map (fst (pivot_list (ax_pivot_store ctx) (ap_gid p) (mc_parent_root c) now)) \<and>
      pm (mh_pivot_weid (mc_heads c)) = Some (mc_pivot c) \<and>
      check_checkpoint (ap_gid p) pm hs (mf_checkpoint_ec (mc_fs c)) ctx = Inr () \<and> merge_rollup (ext V) h pm hs = Inr ()"
    using listed(1) checks check_checkpoint_cong [OF frames(3)] by simp
  show "ax_pivot_store ctxm = snd (pivot_list (ax_pivot_store ctx) (ap_gid p) (mc_parent_root c) now)"
    "group_srx_root_sw ctxm (ap_gid p) = Some (mc_root_before c)"
    using listed(2) srx'(1,2) by (simp_all add: ctxm group_srx_root_sw_def barrier_group_state_def cong: option.case_cong)
  show "\<exists>max_bytes cache cache'.
       ensure_srx_relations V h (srx_args p (mc_parent_root c) (mc_seed c) (mc_ids c) (mh_pivot_record (mc_heads c))) True
         max_bytes now cache (mc_proofs c) (mc_root_before c) = (Inr (), cache')"
    if "merge_srx_required p h (mh_pivot_record (mc_heads c))"
    using srx'(3) that by blast
qed


section \<open>The commit of a merge\<close>

text \<open>The fields the merge copies into the pivot store were checked before the commit.\<close>
lemma header_ids_total:
  assumes "ensure_crs_id ctx h = Inr ()" "ensure_params_id ctx h = Inr ()"
  shows "\<exists>b. header_value_bytes h HDR_CRS_ID FREEZE_MSPHF_CRS_INVALID = Inr b"
    "\<exists>b. header_value_bytes h HDR_PARAMS_ID FREEZE_PARAMS_ID_INVALID = Inr b"
  using assms by (auto simp: result_simps ensure_crs_id_def ensure_params_id_def header_text_def header_value_bytes_def Let_def
      split: option.splits cbor.splits)

lemma srx_keys_total:
  assumes "ensure_srx_relations V h a True max_bytes now cache proofs before = (Inr (), cache')"
    and "ensure_proofs E h apm dpm av dv = Inr proofs"
  shows "\<exists>b. header_bytes32_or_freeze h HDR_SRX_COMMIT FREEZE_SRX_INVALID = Inr b"
    "\<exists>b. header_bytes32_or_freeze h HDR_SRX_ROOT_SW FREEZE_SRX_INVALID = Inr b"
proof -
  have "ensure_merge_srx_keys h True = Inr ()" and "\<exists>r. srx_read_payload V h (max max_bytes MIN_SRX_MAX_BYTES) = Inr r"
    using assms(1) by (auto simp: ensure_srx_relations_def Let_def split: sum.splits prod.splits)
  then show "\<exists>b. header_bytes32_or_freeze h HDR_SRX_COMMIT FREEZE_SRX_INVALID = Inr b"
    by (auto simp: srx_read_payload_def result_simps HDR_SRX_COMMIT_def)
  have "has_key h HDR_SRX_ROOT_SW"
    using \<open>ensure_merge_srx_keys h True = Inr ()\<close>
    by (auto simp: ensure_merge_srx_keys_def result_simps srx_only_presence_def SRX_ONLY_KEYS_def Let_def split: if_splits)
  then show "\<exists>b. header_bytes32_or_freeze h HDR_SRX_ROOT_SW FREEZE_SRX_INVALID = Inr b"
    using assms(2) by (auto simp: ensure_proofs_def ensure_srx_proof_fields_def field32_def header_bytes32_or_freeze_def
      value_bytes32_def result_simps split: if_splits option.splits cbor.splits prod.splits)
qed

lemma merge_pivot_fields_total:
  assumes "merge_validate V p claim h hs now ctx = (Inr c, ctxm)"
  shows "\<exists>pf. merge_pivot_fields p h c t = Inr pf \<and>
    (merge_srx_required p h (mh_pivot_record (mc_heads c)) \<longrightarrow> (\<exists>root. snd (snd (snd pf)) = Some root))"
proof -
  have ids: "\<exists>b. header_value_bytes h HDR_CRS_ID FREEZE_MSPHF_CRS_INVALID = Inr b"
    "\<exists>b. header_value_bytes h HDR_PARAMS_ID FREEZE_PARAMS_ID_INVALID = Inr b"
    using merge_validate_Inr(7) [OF assms] header_ids_total by (auto simp: merge_preflight_def result_simps)
  have "\<exists>apm dpm av dv. ensure_proofs (ext V) h apm dpm av dv = Inr (mc_proofs c)"
    using merge_validate_Inr(2) [OF assms] by (auto simp: merge_proofs_def result_simps)
  then show ?thesis
    using ids merge_validate_pivot(4) [OF assms] srx_keys_total by (fastforce simp: merge_pivot_fields_def)
qed


text \<open>The context after the commit, once the window has taken the head.\<close>
definition merge_final ::
  "Ext \<Rightarrow> AnchorInstanceParts \<Rightarrow> header \<Rightarrow> MergeChecked \<Rightarrow> hash32 list \<Rightarrow> AcceptInstant \<Rightarrow> nat \<Rightarrow> MultiHeadWindow \<Rightarrow>
     bytes \<times> bytes \<times> hash32 option \<times> hash32 option \<Rightarrow> AcceptanceContext \<Rightarrow> AcceptanceContext" where
  "merge_final E p h c hs now n w pf ctx =
     (let gid = ap_gid p; m = mc_fs c;
          ctx = telemetry_record_success (mc_key c) n (ctx\<lparr>ax_mh_window := w\<rparr>);
          ctx = ctx\<lparr>ax_pivot_store := pivot_retire (ax_pivot_store ctx) gid (mc_parent_root c) hs\<rparr>;
          ctx = (if merge_srx_required p h (mh_pivot_record (mc_heads c))
                 then set_group_srx_root_sw gid (snd (snd (snd pf))) ctx else ctx);
          ctx = insert_pivot_parity (merge_pivot E p h c pf) now ctx;
          ctx = advance_merge_device gid m ctx
      in record_accepted_ec gid (ff_ec (mf_fields m)) (set_last_checkpoint_ec gid (mf_checkpoint_ec m) ctx))"

lemma group_srx_root_fields [simp]:
  "group_srx_root_sw (ctx\<lparr>ax_mh_window := w\<rparr>) gid = group_srx_root_sw ctx gid"
  "group_srx_root_sw (ctx\<lparr>ax_pivot_store := st\<rparr>) gid = group_srx_root_sw ctx gid"
  "group_srx_root_sw (telemetry_entry_mut key f ctx) gid = group_srx_root_sw ctx gid"
  by (simp_all add: group_srx_root_sw_def barrier_group_state_def telemetry_entry_mut_def Let_def cong: option.case_cong)

lemma window_update_inject [simp]: "ctx\<lparr>ax_mh_window := v\<rparr> = ctx\<lparr>ax_mh_window := w\<rparr> \<longleftrightarrow> v = w"
  by (auto dest: arg_cong [of _ _ ax_mh_window])

lemma ctx_accept_merge_window: "\<exists>q w. ctx_accept_merge old new hs rec now ctx = (q, ctx\<lparr>ax_mh_window := w\<rparr>)"
proof (cases "h_max (ax_mh_window ctx) < length hs")
  case True
  then show ?thesis
    by (intro exI [of _ "Inl WINDOW_FULL"] exI [of _ "ax_mh_window ctx"]) (simp add: ctx_accept_merge_def)
next
  case False
  then show ?thesis
    by (cases "accept_merge (ax_mh_window ctx) old new hs rec now") (auto simp: ctx_accept_merge_def)
qed

lemma merge_commit_cases:
  assumes v: "merge_validate V p claim h hs now ctx = (Inr c, ctxm)"
    and run: "merge_commit V p h c hs note now ctxm = (r, ctx')"
  obtains (refused) e w where
      "ctx_accept_merge (mh_wid_old (mc_heads c)) (ms_wid_new (mc_seed c)) hs (merge_record p h c now) now ctxm =
         (Inl e, ctxm\<lparr>ax_mh_window := w\<rparr>)"
      "r = Inl (Freeze e)"
      "ctx' = (if e = WINDOW_FULL then telemetry_record_window_full (mc_key c) (ctxm\<lparr>ax_mh_window := w\<rparr>)
         else ctxm\<lparr>ax_mh_window := w\<rparr>)"
  | (taken) w n pf where
      "accept_merge (ax_mh_window ctxm) (mh_wid_old (mc_heads c)) (ms_wid_new (mc_seed c)) hs (merge_record p h c now) now =
         (Inr (), w)" "length hs \<le> h_max (ax_mh_window ctxm)"
      "r = Inr (merge_outcome h c hs now note)" "ctx' = merge_final (ext V) p h c hs now n w pf ctxm"
      "merge_srx_required p h (mh_pivot_record (mc_heads c)) \<longrightarrow> (\<exists>root. snd (snd (snd pf)) = Some root)"
proof -
  let ?op = "ctx_accept_merge (mh_wid_old (mc_heads c)) (ms_wid_new (mc_seed c)) hs (merge_record p h c now) now"
  obtain q w where q: "?op ctxm = (q, ctxm\<lparr>ax_mh_window := w\<rparr>)"
    using ctx_accept_merge_window by blast
  show thesis
  proof (cases q)
    case (Inl e)
    then show thesis
      using refused [of e w] run q by (simp add: merge_commit_def tryS_def window_result_def Let_def split: if_splits)
  next
    case (Inr u)
    let ?t = "telemetry_record_success (mc_key c) (active_heads w (ms_wid_new (mc_seed c))) (ctxm\<lparr>ax_mh_window := w\<rparr>)"
    let ?u = "?t\<lparr>ax_pivot_store := pivot_retire (ax_pivot_store ?t) (ap_gid p) (mc_parent_root c) hs\<rparr>"
    have "accept_merge (ax_mh_window ctxm) (mh_wid_old (mc_heads c)) (ms_wid_new (mc_seed c)) hs (merge_record p h c now) now =
         (Inr (), w)" "length hs \<le> h_max (ax_mh_window ctxm)"
      using q Inr by (auto simp: ctx_accept_merge_def not_less split: if_splits prod.splits)
    moreover obtain pf where pf: "merge_pivot_fields p h c ?u = Inr pf"
        "merge_srx_required p h (mh_pivot_record (mc_heads c)) \<longrightarrow> (\<exists>root. snd (snd (snd pf)) = Some root)"
      using merge_pivot_fields_total [OF v] by blast
    have "group_srx_root_sw ?u (ap_gid p) = Some (mc_root_before c)"
      using merge_validate_pivot(3) [OF v] by (simp add: telemetry_record_success_def)
    then have "merge_commit V p h c hs note now ctxm =
        (Inr (merge_outcome h c hs now note), merge_final (ext V) p h c hs now (active_heads w (ms_wid_new (mc_seed c))) w pf ctxm)"
      using q Inr pf(1) by (simp add: merge_commit_def tryS_def liftS_def updS_def window_result_def move_srx_root_def
        merge_final_def Let_def)
    ultimately show thesis
      using taken pf(2) run by (metis prod.inject)
  qed
qed

text \<open>The live pivots, which a refused merge keeps although listing them may have dropped expired ones.\<close>
definition live_pivots_kept :: "AcceptInstant \<Rightarrow> AcceptanceContext \<Rightarrow> AcceptanceContext \<Rightarrow> bool" where
  "live_pivots_kept now s t \<longleftrightarrow> ps_ttl (ax_pivot_store t) = ps_ttl (ax_pivot_store s) \<and>
     (\<forall>k. live_pivots (ax_pivot_store t) k now = live_pivots (ax_pivot_store s) k now)"

interpretation kept: state_relation "live_pivots_kept now"
  by unfold_locales (auto simp: live_pivots_kept_def)

lemma evolves_kept: "evolves store_frame m \<Longrightarrow> evolves (live_pivots_kept now) m"
  by (simp add: evolves_def store_frame_def live_pivots_kept_def)

lemma evolves_kept_parities: "evolves (live_pivots_kept now) (list_parities gid root now)"
  by (rule evolvesI) (auto simp: list_parities_def live_pivots_kept_def pivot_list_def pivot_entries_prune Let_def)

lemma evolves_store_srx [frame_intro]: "evolves store_frame (merge_srx_stage V p h root s ids pivot proofs now)"
proof -
  have "evolves store_frame (ensure_group_srx_root_sw (ap_gid p))"
    by (rule evolvesI) (auto simp: ensure_group_srx_root_sw_def set_group_srx_root_sw_def barrier_group_state_entry_mut_def
      store_frame_def Let_def split: option.splits)
  then show ?thesis
    unfolding merge_srx_stage_def
    by (intro store.evolves_intro) (assumption, rule evolvesI, auto simp: store_frame_def split: if_splits prod.splits)
qed

lemma evolves_merge_kept: "evolves (live_pivots_kept now) (merge_validate V p claim h hs now)"
  unfolding merge_validate_def Let_def
  by (intro kept.evolves_intro evolves_kept_parities evolves_kept frame_intro)

lemma merge_run:
  assumes "accept_anchor_merge V p claim h hs note now ctx = (r, ctx')"
  obtains (validation) e where "r = Inl e" "core_frame ctx ctx'" "e \<noteq> Freeze WINDOW_FULL" "live_pivots_kept now ctx ctx'"
  | (commit) c ctxm where "merge_validate V p claim h hs now ctx = (Inr c, ctxm)" "core_frame ctx ctxm"
      "merge_commit V p h c hs note now ctxm = (r, ctx')"
proof -
  obtain v ctxm where v: "merge_validate V p claim h hs now ctx = (v, ctxm)"
    by fastforce
  note frame = evolvesD [OF evolves_merge_validate v] and kept = evolvesD [OF evolves_merge_kept v]
  show thesis
  proof (cases v)
    case (Inl e)
    then have "e \<noteq> Freeze WINDOW_FULL"
      using never_fullD [OF never_full_merge] v by metis
    with Inl show thesis
      using validation [of e] assms v frame kept by (auto simp: accept_anchor_merge_def tryS_def)
  next
    case (Inr c)
    then show thesis
      using commit assms v frame by (simp add: accept_anchor_merge_def tryS_def)
  qed
qed


text \<open>The part of a group that only the barrier commit changes.\<close>
definition barrier_part :: "AcceptanceContext \<Rightarrow> bytes \<Rightarrow> BarrierGroupState" where
  "barrier_part ctx gid = (group_or_default ctx gid)\<lparr>bg_srx_root_sw := None, bg_last_checkpoint_ec := 0, bg_last_accepted_ec := 0\<rparr>"

lemma group_entry_mut:
  "group_or_default (barrier_group_state_entry_mut gid f ctx) gid' =
     (if gid' = gid then f (group_or_default ctx gid) else group_or_default ctx gid')"
  by (auto simp: group_or_default_def barrier_group_state_def barrier_group_state_entry_mut_def Let_def split: option.split)

lemma barrier_part_cong:
  assumes "core_frame s t"
  shows "barrier_part t gid = barrier_part s gid"
proof -
  have "(group_or_default t gid)\<lparr>bg_srx_root_sw := None\<rparr> = (group_or_default s gid)\<lparr>bg_srx_root_sw := None\<rparr>"
    using assms by (simp add: core_frame_def)
  then show ?thesis
    unfolding barrier_part_def by simp
qed

lemma group_fields [ctx_simps]:
  "group_or_default (telemetry_entry_mut key f ctx) gid = group_or_default ctx gid"
  "group_or_default (ctx\<lparr>ax_mh_window := w\<rparr>) gid = group_or_default ctx gid"
  "group_or_default (ctx\<lparr>ax_pivot_store := st\<rparr>) gid = group_or_default ctx gid"
  "group_or_default (insert_pivot_parity q now ctx) gid = group_or_default ctx gid"
  "group_or_default (device_chain_entry_mut gid' pk g ctx) gid = group_or_default ctx gid"
  by (simp_all add: group_or_default_def ctx_simps cong: option.case_cong) (simp add: barrier_group_state_def)

lemma store_fields [ctx_simps]:
  "device_chain_get (ctx\<lparr>ax_pivot_store := st\<rparr>) gid pk = device_chain_get ctx gid pk"
  by (simp add: device_chain_get_def)

lemma advance_merge_device_fields [ctx_simps]:
  "device_chain_get (advance_merge_device gid m ctx) gid' pk =
     (if gid' = gid \<and> mf_pop_pk m = Some pk
      then Some ((case device_chain_get ctx gid' pk of None \<Rightarrow> device_chain_default | Some d \<Rightarrow> d)
        \<lparr>dc_last_commit := Some (ff_dev_commit (mf_fields m)), dc_last_ec := ff_ec (mf_fields m)\<rparr>)
      else device_chain_get ctx gid' pk)"
  "group_or_default (advance_merge_device gid m ctx) gid' = group_or_default ctx gid'"
  "ax_mh_window (advance_merge_device gid m ctx) = ax_mh_window ctx"
  "ax_pivot_store (advance_merge_device gid m ctx) = ax_pivot_store ctx"
  by (auto simp: advance_merge_device_def advance_device_def ctx_simps split: option.split)

lemma epoch_entries:
  "group_or_default (record_accepted_ec gid ec ctx) gid' =
     (if gid' = gid then (group_or_default ctx gid)\<lparr>bg_last_accepted_ec := max (bg_last_accepted_ec (group_or_default ctx gid)) ec\<rparr>
      else group_or_default ctx gid')"
  "group_or_default (set_last_checkpoint_ec gid ec ctx) gid' =
     (if gid' = gid then (group_or_default ctx gid)\<lparr>bg_last_checkpoint_ec := ec,
        bg_last_accepted_ec := max (bg_last_accepted_ec (group_or_default ctx gid)) ec\<rparr>
      else group_or_default ctx gid')"
  by (auto simp: record_accepted_ec_def set_last_checkpoint_ec_def group_entry_mut max_def)

lemma epoch_entry_fields [ctx_simps]:
  "device_chain_get (record_accepted_ec gid ec ctx) gid' pk = device_chain_get ctx gid' pk"
  "device_chain_get (set_last_checkpoint_ec gid ec ctx) gid' pk = device_chain_get ctx gid' pk"
  "device_chain_get (set_group_srx_root_sw gid root ctx) gid' pk = device_chain_get ctx gid' pk"
  "ax_mh_window (record_accepted_ec gid ec ctx) = ax_mh_window ctx"
  "ax_mh_window (set_last_checkpoint_ec gid ec ctx) = ax_mh_window ctx"
  "ax_mh_window (set_group_srx_root_sw gid root ctx) = ax_mh_window ctx"
  "ax_pivot_store (record_accepted_ec gid ec ctx) = ax_pivot_store ctx"
  "ax_pivot_store (set_last_checkpoint_ec gid ec ctx) = ax_pivot_store ctx"
  "ax_pivot_store (set_group_srx_root_sw gid root ctx) = ax_pivot_store ctx"
  by (simp_all add: record_accepted_ec_def set_last_checkpoint_ec_def set_group_srx_root_sw_def ctx_simps)

lemma merge_final_fields:
  fixes ctx :: AcceptanceContext
  assumes "ctx' = merge_final E p h c hs now n w pf ctx"
  shows "device_chain_get ctx' gid pk =
      (if gid = ap_gid p \<and> mf_pop_pk (mc_fs c) = Some pk
       then Some ((case device_chain_get ctx gid pk of None \<Rightarrow> device_chain_default | Some d \<Rightarrow> d)
         \<lparr>dc_last_commit := Some (ff_dev_commit (mf_fields (mc_fs c))), dc_last_ec := ff_ec (mf_fields (mc_fs c))\<rparr>)
       else device_chain_get ctx gid pk)"
    and "last_accepted_ec ctx' gid =
      (if gid = ap_gid p then max (max (last_accepted_ec ctx gid) (mf_checkpoint_ec (mc_fs c))) (ff_ec (mf_fields (mc_fs c)))
       else last_accepted_ec ctx gid)"
    and "last_checkpoint_ec ctx' gid = (if gid = ap_gid p then mf_checkpoint_ec (mc_fs c) else last_checkpoint_ec ctx gid)"
    and "ax_mh_window ctx' = w"
    and "ax_pivot_store ctx' = pivot_insert (pivot_retire (ax_pivot_store ctx) (ap_gid p) (mc_parent_root c) hs)
      (merge_pivot E p h c pf) now"
    and "barrier_part ctx' gid = barrier_part ctx gid"
  unfolding assms
  by (simp_all add: merge_final_def Let_def telemetry_record_success_def ctx_simps
    last_ec_default epoch_entries set_group_srx_root_sw_def group_entry_mut barrier_part_def)


section \<open>Theorems\<close>

lemma set_put_subset: "set (put_pivot e l) \<subseteq> insert e (set l)"
  by (induction l) auto

lemma pivot_replaced:
  assumes "q' \<in> set (fst (pivot_list (pivot_insert (pivot_retire s gid root hs) q now) gid root now))"
    "pp_we_epoch_id q' \<in> set hs" "pp_gid q = gid" "pp_parent_root q = root"
  shows "q' = q"
proof -
  let ?e = "\<lparr>pe_parity = q, pe_accept_time = now\<rparr>"
  obtain e where "e \<in> set (put_pivot ?e (filter (\<lambda>e. pivot_weid e \<notin> set hs) (pivot_entries s (gid, root))))" "q' = pe_parity e"
    using assms(1,3,4) by (auto simp: pivot_list_eq pivot_entries_insert pivot_entries_retire)
  then show ?thesis
    using assms(2) set_put_subset [of ?e "filter (\<lambda>e. pivot_weid e \<notin> set hs) (pivot_entries s (gid, root))"] by auto
qed

lemma max_fs_ec_Inr:
  assumes "max_fs_ec pm hs m = Inr (Some e)"
  shows "(\<forall>x\<in>set hs. \<exists>q ec. pm x = Some q \<and> pp_fs_ec q = Some ec \<and> ec \<le> e) \<and> (\<forall>k. m = Some k \<longrightarrow> k \<le> e) \<and>
    (m = Some e \<or> (\<exists>x\<in>set hs. \<exists>q. pm x = Some q \<and> pp_fs_ec q = Some e))"
  using assms
proof (induction hs arbitrary: m)
  case (Cons x xs)
  then obtain q ec where q: "pm x = Some q" "pp_fs_ec q = Some ec"
    and rest: "max_fs_ec pm xs (Some (case m of None \<Rightarrow> ec | Some current \<Rightarrow> max current ec)) = Inr (Some e)"
    by (auto simp: result_simps)
  from Cons.IH [OF rest] q show ?case
    by (cases m) (auto simp: max_def split: if_splits)
qed simp

lemma check_checkpoint_Inr:
  assumes "check_checkpoint gid pm hs cp ctx = Inr ()"
  shows "last_checkpoint_ec ctx gid \<le> cp" "cp \<le> last_accepted_ec ctx gid"
    "\<forall>x\<in>set hs. \<exists>q ec. pm x = Some q \<and> pp_fs_ec q = Some ec \<and> ec \<le> cp"
    "\<exists>x\<in>set hs. \<exists>q. pm x = Some q \<and> pp_fs_ec q = Some cp"
  using assms max_fs_ec_Inr [of pm hs None] by (auto simp: check_checkpoint_def result_simps not_less)

lemma merge_heads_Inr:
  assumes "merge_heads h hs rho ctx = Inr m"
  shows "heads_increasing hs" "hs \<noteq> []" "mh_pivot_weid m \<in> set hs"
    "\<forall>x\<in>set hs. \<exists>r. find_head (ax_mh_window ctx) (mh_wid_old m) x = Some r"
    "find_head (ax_mh_window ctx) (mh_wid_old m) (mh_pivot_weid m) = Some (mh_pivot_record m)"
    "hr_rho_commit (mh_pivot_record m) = rho"
  using assms by (auto simp: merge_heads_def result_simps Let_def list_all_iff split: list.splits)

lemma merge_ids_Inr:
  assumes "merge_ids E p root claim s = Inr ids"
  shows "mi_we_epoch_id ids = claim" "derive_we_epoch_id E (ap_gid p) (ap_parent_root p) (ms_seed_ctx_hash s) = Inr claim"
  using assms by (auto simp: merge_ids_def check_epoch_def result_simps split: prod.splits)

lemma value_as_bytes_Some [simp]: "value_as_bytes v = Some b \<longleftrightarrow> v = CBytes b"
  by (auto simp: value_as_bytes_def split: cbor.split)

lemma read_merge_fs_Inr:
  assumes "read_merge_fs h = Inr m"
  shows "header_u64_or_freeze h HDR_FS_CHECKPOINT_EC FREEZE_FS_JOIN_MISSING = Inr (mf_checkpoint_ec m)"
    "header_u64_or_freeze h HDR_FS_EC FREEZE_FS_JOIN_MISSING = Inr (ff_ec (mf_fields m))"
    "mf_pop_pk m = Some pk \<longleftrightarrow> bt_get h HDR_POP_PK = Some (CBytes pk)"
  using assms by (auto simp: read_merge_fs_def result_simps bind_eq_Some_conv)

lemma merge_accepted_run:
  assumes "accept_anchor_merge V p claim h hs note now ctx = (Inr out, ctx')"
  obtains c ctxm w n pf where
    "merge_validate V p claim h hs now ctx = (Inr c, ctxm)" "core_frame ctx ctxm"
    "accept_merge (ax_mh_window ctxm) (mh_wid_old (mc_heads c)) (ms_wid_new (mc_seed c)) hs (merge_record p h c now) now = (Inr (), w)"
    "length hs \<le> h_max (ax_mh_window ctxm)" "out = merge_outcome h c hs now note"
    "ctx' = merge_final (ext V) p h c hs now n w pf ctxm"
  using assms
proof (cases rule: merge_run)
  case (commit c ctxm)
  from commit(1,3) show thesis
    by (cases rule: merge_commit_cases) (use that commit in auto)
qed simp

text \<open>C12: what an accepted merge has checked.  Its heads are strictly ascending, live in one window and stored as pivots of
  the group; the pivot is one of them and has the merge's \<open>rho\<close> commitment; the checkpoint is the largest epoch of the
  heads, not before the group's last checkpoint and not after its last accepted epoch; and the epoch identifier is derived
  from the group, the parent root and the seed context.\<close>
theorem merge_accepted_checks:
  assumes "accept_anchor_merge V p claim h hs note now ctx = (Inr out, ctx')"
  shows "\<exists>wid pivot r pm cp. heads_increasing hs \<and> pivot \<in> set hs \<and>
    (\<forall>x\<in>set hs. \<exists>r. find_head (ax_mh_window ctx) wid x = Some r) \<and>
    find_head (ax_mh_window ctx) wid pivot = Some r \<and> hr_rho_commit r = oc_rho_commit out \<and>
    pm = parity_map (fst (pivot_list (ax_pivot_store ctx) (ap_gid p) (ap_parent_root p) now)) \<and>
    (\<forall>x\<in>set hs. \<exists>q ec. pm x = Some q \<and> pp_fs_ec q = Some ec \<and> ec \<le> cp) \<and>
    (\<exists>x\<in>set hs. \<exists>q. pm x = Some q \<and> pp_fs_ec q = Some cp) \<and>
    last_checkpoint_ec ctx (ap_gid p) \<le> cp \<and> cp \<le> last_accepted_ec ctx (ap_gid p) \<and>
    header_u64_or_freeze h HDR_FS_CHECKPOINT_EC FREEZE_FS_JOIN_MISSING = Inr cp \<and>
    derive_we_epoch_id (ext V) (ap_gid p) (ap_parent_root p) (oc_seed_ctx_hash out) = Inr claim \<and> oc_we_epoch_id out = claim"
proof -
  obtain c ctxm where v: "merge_validate V p claim h hs now ctx = (Inr c, ctxm)" and out: "out = merge_outcome h c hs now note"
    using assms by (rule merge_accepted_run)
  have root: "mc_parent_root c = ap_parent_root p"
    using merge_validate_Inr(4) [OF v] by (auto simp: check_roots_def matching_root_def result_simps)
  note heads = merge_heads_Inr [OF merge_validate_Inr(1) [OF v]] and ids = merge_ids_Inr [OF merge_validate_Inr(6) [OF v]]
  have cp: "header_u64_or_freeze h HDR_FS_CHECKPOINT_EC FREEZE_FS_JOIN_MISSING = Inr (mf_checkpoint_ec (mc_fs c))"
    by (rule read_merge_fs_Inr(1) [OF merge_validate_Inr(3) [OF v]])
  obtain pm where pm: "pm = parity_map (fst (pivot_list (ax_pivot_store ctx) (ap_gid p) (ap_parent_root p) now))"
      "check_checkpoint (ap_gid p) pm hs (mf_checkpoint_ec (mc_fs c)) ctx = Inr ()"
    using merge_validate_pivot(1) [OF v] root by auto
  have "oc_rho_commit out = ms_rho_commit (mc_seed c)" "oc_seed_ctx_hash out = ms_seed_ctx_hash (mc_seed c)"
    "oc_we_epoch_id out = mi_we_epoch_id (mc_ids c)"
    by (simp_all add: out merge_outcome_def)
  with heads ids cp pm(1) check_checkpoint_Inr [OF pm(2)] show ?thesis
    by (intro exI [of _ "mh_wid_old (mc_heads c)"] exI [of _ "mh_pivot_weid (mc_heads c)"]
        exI [of _ "mh_pivot_record (mc_heads c)"] exI [of _ pm] exI [of _ "mf_checkpoint_ec (mc_fs c)"] conjI) simp_all
qed

lemma merge_pivot_simps:
  "pp_gid (merge_pivot E p h c pf) = ap_gid p" "pp_cat (merge_pivot E p h c pf) = ap_cat p"
  "pp_parent_root (merge_pivot E p h c pf) = mc_parent_root c" "pp_we_epoch_id (merge_pivot E p h c pf) = mi_we_epoch_id (mc_ids c)"
  "pp_rho_commit (merge_pivot E p h c pf) = ms_rho_commit (mc_seed c)"
  "pp_seed_ctx_hash (merge_pivot E p h c pf) = ms_seed_ctx_hash (mc_seed c)"
  "pp_seed_commit (merge_pivot E p h c pf) = mi_seed_commit (mc_ids c)" "pp_hp_commit (merge_pivot E p h c pf) = merged_hp_commit h c"
  "pp_xk_hash (merge_pivot E p h c pf) = mi_xk_hash (mc_ids c)" "pp_join_delta_root (merge_pivot E p h c pf) = ap_join_delta_root p"
  "pp_revoked_since_root (merge_pivot E p h c pf) = ap_revoked_since_prev_root p"
  "pp_revoked_root (merge_pivot E p h c pf) = ap_revoked_root p" "pp_accept_seq (merge_pivot E p h c pf) = mc_seq c"
  "\<not> pp_is_join (merge_pivot E p h c pf)" "pp_fs_ec (merge_pivot E p h c pf) = Some (ff_ec (mf_fields (mc_fs c)))"
  "pp_fs_dev_commit (merge_pivot E p h c pf) = Some (ff_dev_commit (mf_fields (mc_fs c)))"
  by (simp_all add: merge_pivot_def Let_def split: prod.split)

text \<open>The pivot store after the commit: listing has dropped the expired pivots, the merged heads' pivots are gone and the new
  one is in.\<close>
lemma merge_final_pivots:
  assumes "merge_validate V p claim h hs now ctx = (Inr c, ctxm)"
    and "ax_pivot_store ctx' = pivot_insert (pivot_retire (ax_pivot_store ctxm) (ap_gid p) (ap_parent_root p) hs) q now"
    and "pp_gid q = ap_gid p" "pp_parent_root q = ap_parent_root p"
  shows "ps_ttl (ax_pivot_store ctx') = ps_ttl (ax_pivot_store ctx)"
    and "pivot_entries (ax_pivot_store ctx') k =
      (if k = (ap_gid p, ap_parent_root p)
       then put_pivot \<lparr>pe_parity = q, pe_accept_time = now\<rparr> (filter (\<lambda>e. pivot_weid e \<notin> set hs) (live_pivots (ax_pivot_store ctx) k now))
       else live_pivots (ax_pivot_store ctx) k now)"
proof -
  have store: "ax_pivot_store ctxm = pivot_prune (ax_pivot_store ctx) now"
    using merge_validate_pivot(2) [OF assms(1)] by (simp add: pivot_list_def Let_def)
  show "ps_ttl (ax_pivot_store ctx') = ps_ttl (ax_pivot_store ctx)"
    by (simp add: assms(2) store)
  show "pivot_entries (ax_pivot_store ctx') k =
      (if k = (ap_gid p, ap_parent_root p)
       then put_pivot \<lparr>pe_parity = q, pe_accept_time = now\<rparr> (filter (\<lambda>e. pivot_weid e \<notin> set hs) (live_pivots (ax_pivot_store ctx) k now))
       else live_pivots (ax_pivot_store ctx) k now)"
    by (simp add: assms(2-4) store pivot_entries_insert pivot_entries_retire pivot_entries_prune)
qed

text \<open>C15: the state after an accepted merge.  The device the header names, if any, has the new link as its last one and no
  other device changes; the group's checkpoint is the merge's and its last epoch is raised to the merge's; no other group
  changes, and no group's barrier does; the window has gone through its own merge of these heads.  In the pivot store the
  live pivots of the merged heads are gone and the new pivot, with the fields of the outcome and of the anchor, is in; every
  other live pivot of the group and root, and every live pivot elsewhere, is where it was.\<close>
theorem merge_accepted_state:
  assumes "accept_anchor_merge V p claim h hs note now ctx = (Inr out, ctx')"
  shows "\<exists>ec commit cp q old r. oc_fs_ec out = Some ec \<and> oc_fs_dev_commit out = Some commit \<and>
    header_u64_or_freeze h HDR_FS_CHECKPOINT_EC FREEZE_FS_JOIN_MISSING = Inr cp \<and>
    (\<forall>gid' pk'. device_chain_get ctx' gid' pk' =
       (if gid' = ap_gid p \<and> bt_get h HDR_POP_PK = Some (CBytes pk')
        then Some ((case device_chain_get ctx gid' pk' of None \<Rightarrow> device_chain_default | Some d \<Rightarrow> d)
          \<lparr>dc_last_commit := Some commit, dc_last_ec := ec\<rparr>)
        else device_chain_get ctx gid' pk')) \<and>
    (\<forall>gid'. last_accepted_ec ctx' gid' =
       (if gid' = ap_gid p then max (last_accepted_ec ctx gid') ec else last_accepted_ec ctx gid')) \<and>
    (\<forall>gid'. last_checkpoint_ec ctx' gid' = (if gid' = ap_gid p then cp else last_checkpoint_ec ctx gid')) \<and>
    (\<forall>gid'. barrier_part ctx' gid' = barrier_part ctx gid') \<and>
    accept_merge (ax_mh_window ctx) old (oc_wid out) hs r now = (Inr (), ax_mh_window ctx') \<and>
    hr_we_epoch_id r = claim \<and> hr_rho_commit r = oc_rho_commit out \<and> hr_msphf_hp_commit r = oc_hp_commit out \<and>
    hr_accept_seq r = oc_accept_seq out \<and> hr_revoked_root r = ap_revoked_root p \<and>
    pp_gid q = ap_gid p \<and> pp_cat q = ap_cat p \<and> pp_parent_root q = ap_parent_root p \<and> pp_we_epoch_id q = claim \<and>
    pp_rho_commit q = oc_rho_commit out \<and> pp_seed_ctx_hash q = oc_seed_ctx_hash out \<and> pp_seed_commit q = oc_seed_commit out \<and>
    pp_hp_commit q = oc_hp_commit out \<and> pp_xk_hash q = oc_xk_hash out \<and> pp_join_delta_root q = ap_join_delta_root p \<and>
    pp_revoked_since_root q = ap_revoked_since_prev_root p \<and> pp_revoked_root q = ap_revoked_root p \<and>
    pp_accept_seq q = oc_accept_seq out \<and> \<not> pp_is_join q \<and> pp_fs_ec q = Some ec \<and> pp_fs_dev_commit q = Some commit \<and>
    ps_ttl (ax_pivot_store ctx') = ps_ttl (ax_pivot_store ctx) \<and>
    (\<forall>k. pivot_entries (ax_pivot_store ctx') k =
       (if k = (ap_gid p, ap_parent_root p)
        then put_pivot \<lparr>pe_parity = q, pe_accept_time = now\<rparr> (filter (\<lambda>e. pivot_weid e \<notin> set hs) (live_pivots (ax_pivot_store ctx) k now))
        else live_pivots (ax_pivot_store ctx) k now)) \<and>
    (\<forall>k. filter (\<lambda>e. pivot_weid e \<noteq> claim \<and> pivot_weid e \<notin> set hs) (pivot_entries (ax_pivot_store ctx') k) =
       filter (\<lambda>e. pivot_weid e \<noteq> claim \<and> pivot_weid e \<notin> set hs) (live_pivots (ax_pivot_store ctx) k now)) \<and>
    q \<in> set (fst (pivot_list (ax_pivot_store ctx') (ap_gid p) (ap_parent_root p) now)) \<and>
    (\<forall>q'\<in>set (fst (pivot_list (ax_pivot_store ctx') (ap_gid p) (ap_parent_root p) now)). pp_we_epoch_id q' \<in> set hs \<longrightarrow> q' = q)"
proof -
  obtain c ctxm w n pf where v: "merge_validate V p claim h hs now ctx = (Inr c, ctxm)" and frame: "core_frame ctx ctxm"
    and acc: "accept_merge (ax_mh_window ctxm) (mh_wid_old (mc_heads c)) (ms_wid_new (mc_seed c)) hs (merge_record p h c now) now = (Inr (), w)"
    and out: "out = merge_outcome h c hs now note" and ctx': "ctx' = merge_final (ext V) p h c hs now n w pf ctxm"
    using assms by (rule merge_accepted_run)
  note final = merge_final_fields [OF ctx'] and core = core_frameD [OF frame]
  let ?q = "merge_pivot (ext V) p h c pf" and ?m = "mc_fs c"
  have root: "mc_parent_root c = ap_parent_root p"
    using merge_validate_Inr(4) [OF v] by (auto simp: check_roots_def matching_root_def result_simps)
  note claim = merge_ids_Inr(1) [OF merge_validate_Inr(6) [OF v]] and fs = read_merge_fs_Inr [OF merge_validate_Inr(3) [OF v]]
  have q: "pp_gid ?q = ap_gid p" "pp_parent_root ?q = ap_parent_root p" "pp_we_epoch_id ?q = claim"
    by (simp_all add: merge_pivot_simps root claim)
  note store = final(5) [unfolded root] and pivots = merge_final_pivots [OF v final(5) [unfolded root] q(1,2)]
  have "mf_checkpoint_ec ?m \<le> last_accepted_ec ctx (ap_gid p)"
    using merge_validate_pivot(1) [OF v] check_checkpoint_Inr(2) by blast
  then have ec: "last_accepted_ec ctx' gid' = (if gid' = ap_gid p then max (last_accepted_ec ctx gid') (ff_ec (mf_fields ?m))
      else last_accepted_ec ctx gid')" for gid'
    by (simp add: final(2) core(3) max_absorb1)
  have listed: "?q \<in> set (fst (pivot_list (ax_pivot_store ctx') (ap_gid p) (ap_parent_root p) now))"
    using pivot_insert_listed [of ?q] by (simp add: store q)
  have unique: "\<forall>q'\<in>set (fst (pivot_list (ax_pivot_store ctx') (ap_gid p) (ap_parent_root p) now)). pp_we_epoch_id q' \<in> set hs \<longrightarrow> q' = ?q"
    using pivot_replaced [OF _ _ q(1,2)] by (simp add: store)
  have kept: "filter (\<lambda>e. pivot_weid e \<noteq> claim \<and> P e) (put_pivot \<lparr>pe_parity = ?q, pe_accept_time = now\<rparr> l) =
      filter (\<lambda>e. pivot_weid e \<noteq> claim \<and> P e) l" for P l
    using arg_cong [OF put_pivot_keeps [of "\<lparr>pe_parity = ?q, pe_accept_time = now\<rparr>" l], of "filter P"] by (simp add: q conj_commute)
  show ?thesis
    by (rule exI [of _ "ff_ec (mf_fields ?m)"], rule exI [of _ "ff_dev_commit (mf_fields ?m)"], rule exI [of _ "mf_checkpoint_ec ?m"],
        rule exI [of _ ?q], rule exI [of _ "mh_wid_old (mc_heads c)"], rule exI [of _ "merge_record p h c now"])
      (use fs(1) ec listed unique acc in \<open>simp add: final(1,3,4,6) fs(3) core barrier_part_cong [OF frame] pivots root claim kept
        merge_pivot_simps out merge_outcome_def merge_record_def conj_ac\<close>)
qed


lemma accept_merge_full_index:
  assumes "accept_merge w old new hs r now = (Inl WINDOW_FULL, w')" "x \<in> set hs"
  shows "weid_index w' x = None"
proof -
  have sorted: "is_sorted_unique hs"
    using assms(1) by (auto simp: accept_merge_def WINDOW_FULL_def MERGE_INVALID_def split: if_splits)
  obtain f rs w1 where ret: "merge_retire (prune w old now) old hs = (f, rs, w1)"
    using prod_cases3 by blast
  then have f and ins: "merge_install w1 old new rs (r\<lparr>hr_accept_time := now\<rparr>) now = (Inl WINDOW_FULL, w')"
    using assms(1) sorted by (auto simp: accept_merge_def WINDOW_FULL_def MERGE_INVALID_def split: if_splits)
  have "weid_index w1 x = None"
    using merge_retire_pruned(8) [OF is_sorted_unique_distinct [OF sorted] ret \<open>f\<close>] assms(2) by simp
  then show ?thesis
    using ins by (auto simp: merge_install_def Let_def mhw_simps split: if_splits)
qed

lemma core_frame_window:
  "core_frame s t \<Longrightarrow> core_frame (s\<lparr>ax_mh_window := w\<rparr>) (t\<lparr>ax_mh_window := w\<rparr>)"
  by (simp add: core_frame_def ctx_simps)

lemma accept_merge_error: "accept_merge w old new hs r now = (Inl e, w') \<Longrightarrow> e = WINDOW_FULL \<or> e = MERGE_INVALID"
  by (auto simp: accept_merge_def merge_install_def Let_def split: if_splits prod.splits)

lemma heads_increasing_sorted:
  assumes "heads_increasing hs" "hs \<noteq> []"
  shows "is_sorted_unique hs"
proof -
  have "heads_increasing (x # xs) \<Longrightarrow> is_sorted_unique_from x xs" for x xs
    by (induction xs arbitrary: x) (auto simp: heads_increasing_def)
  with assms show ?thesis
    by (cases hs) auto
qed

text \<open>A refusal by the window itself, with heads in ascending order.\<close>
lemma merge_window_refused:
  assumes "accept_merge w old new hs r now = (Inl e, w')" "heads_increasing hs" "hs \<noteq> []"
  shows "e = WINDOW_FULL \<Longrightarrow> \<forall>x\<in>set hs. weid_index w' x = None"
    "e \<noteq> WINDOW_FULL \<Longrightarrow> e = MERGE_INVALID \<and> (\<exists>x\<in>set hs. x \<notin> hr_we_epoch_id ` set (live_heads w old now))"
proof -
  show "\<forall>x\<in>set hs. weid_index w' x = None" if "e = WINDOW_FULL"
    using accept_merge_full_index assms(1) that by blast
  assume "e \<noteq> WINDOW_FULL"
  then have e: "e = MERGE_INVALID"
    using accept_merge_error [OF assms(1)] by blast
  with assms(1) have "fst (accept_merge w old new hs r now) = Inl MERGE_INVALID"
    by simp
  then show "e = MERGE_INVALID \<and> (\<exists>x\<in>set hs. x \<notin> hr_we_epoch_id ` set (live_heads w old now))"
    using heads_increasing_sorted [OF assms(2,3)] e unfolding merge_refused by blast
qed

text \<open>C34: what a refused merge leaves behind.  Device chains, epochs, checkpoints and barriers of all groups and all live
  pivots are as before.  If the refusal is \<open>mh_window_full\<close> because more heads are named than the window may hold, the window
  is as before too; if it is \<open>mh_window_full\<close> for lack of room in the receiving window, the heads to be merged, all of which
  were in one window, are gone from the index although the merge is refused.  The only other refusal that can change the
  window is for a head whose lifetime has ended in a window not yet pruned.\<close>
theorem merge_refused_state:
  assumes "accept_anchor_merge V p claim h hs note now ctx = (Inl e, ctx')"
  shows "core_frame (ctx\<lparr>ax_mh_window := ax_mh_window ctx'\<rparr>) ctx' \<and> live_pivots_kept now ctx ctx' \<and>
    (e = Freeze WINDOW_FULL \<longrightarrow>
      (if h_max (ax_mh_window ctx) < length hs then ax_mh_window ctx' = ax_mh_window ctx
       else (\<exists>wid. \<forall>x\<in>set hs. find_head (ax_mh_window ctx) wid x \<noteq> None) \<and>
            (\<forall>x\<in>set hs. find_head_window (ax_mh_window ctx') x = None))) \<and>
    (e \<noteq> Freeze WINDOW_FULL \<and> ax_mh_window ctx' \<noteq> ax_mh_window ctx \<longrightarrow>
      e = Freeze MERGE_INVALID \<and>
      (\<exists>wid. \<exists>x\<in>set hs. find_head (ax_mh_window ctx) wid x \<noteq> None \<and> x \<notin> hr_we_epoch_id ` set (live_heads (ax_mh_window ctx) wid now)))"
  using assms
proof (cases rule: merge_run)
  case (validation e')
  then show ?thesis
    using core_frameD(5) [OF validation(2)] by (simp add: core_frame_window)
next
  case (commit c ctxm)
  note win = core_frameD(5) [OF commit(2)] and heads = merge_heads_Inr [OF merge_validate_Inr(1) [OF commit(1)]]
  from commit(1,3) show ?thesis
  proof (cases rule: merge_commit_cases)
    case (refused e' w)
    have "core_frame (ctxm\<lparr>ax_mh_window := w\<rparr>) ctx'" and w: "ax_mh_window ctx' = w" "ax_pivot_store ctx' = ax_pivot_store ctxm"
      by (simp_all add: refused(3) telemetry_record_window_full_def core.refl ctx_simps)
    then have frame: "core_frame (ctx\<lparr>ax_mh_window := ax_mh_window ctx'\<rparr>) ctx'"
      using core.trans [OF core_frame_window [OF commit(2)]] by simp
    have kept: "live_pivots_kept now ctx ctx'"
      using evolvesD [OF evolves_merge_kept commit(1)] unfolding live_pivots_kept_def w(2) .
    show ?thesis
    proof (cases "h_max (ax_mh_window ctx) < length hs")
      case True
      then have "e' = WINDOW_FULL" "ctxm\<lparr>ax_mh_window := w\<rparr> = ctxm"
        using refused(1) win by (simp_all add: ctx_accept_merge_def)
      then have "w = ax_mh_window ctx"
        using win arg_cong [OF \<open>ctxm\<lparr>ax_mh_window := w\<rparr> = ctxm\<close>, of ax_mh_window] by simp
      with \<open>e' = WINDOW_FULL\<close> frame kept w(1) refused(2) True show ?thesis
        by simp
    next
      case False
      then have m: "accept_merge (ax_mh_window ctx) (mh_wid_old (mc_heads c)) (ms_wid_new (mc_seed c)) hs (merge_record p h c now) now =
          (Inl e', w)"
        using refused(1) win by (auto simp: ctx_accept_merge_def split: prod.splits)
      show ?thesis
        using merge_window_refused [OF m heads(1,2)] heads(4) frame kept w(1) refused(2) False
        by (cases "e' = WINDOW_FULL") (simp add: find_head_window_def, blast, simp, blast)
    qed
  qed simp
qed

section \<open>Merges without a device\<close>

text \<open>A run that does not notice a change of the context: it returns the same and does the same to the rest.\<close>
definition blind :: "(AcceptanceContext \<Rightarrow> AcceptanceContext) \<Rightarrow> 'a acc \<Rightarrow> bool" where
  "blind u m \<longleftrightarrow> (\<forall>ctx. m (u ctx) = (fst (m ctx), u (snd (m ctx))))"

lemma blindD: "blind u m \<Longrightarrow> m ctx = (r, ctx') \<Longrightarrow> m (u ctx) = (r, u ctx')"
  by (simp add: blind_def)

lemma blind_intro:
  "blind u m \<Longrightarrow> (\<And>x. blind u (f x)) \<Longrightarrow> blind u (tryS m f)" "(\<And>ctx. g (u ctx) = g ctx) \<Longrightarrow> blind u (liftS g)"
  "(\<And>ctx. f' (u ctx) = u (f' ctx)) \<Longrightarrow> blind u (updS f')" "blind u (\<lambda>ctx. (x, ctx))"
  by (auto simp: blind_def tryS_def liftS_def updS_def split: prod.splits sum.splits)

text \<open>The caps on the epochs replaced, the window periods kept.\<close>
definition replace_caps :: "FsCaps \<Rightarrow> AcceptanceContext \<Rightarrow> AcceptanceContext" where
  "replace_caps caps ctx = ctx\<lparr>ax_fs_caps := caps\<lparr>fc_window_periods := fc_window_periods (ax_fs_caps ctx)\<rparr>\<rparr>"

lemma blind_const: "(\<And>x. c = Inr x \<Longrightarrow> blind u (f x)) \<Longrightarrow> blind u (tryS (liftS (\<lambda>_. c)) f)"
  by (cases c) (auto simp: blind_def tryS_def liftS_def)

lemma blind_steps:
  "blind (replace_caps caps) (bind_fs_base_ts v)" "blind (replace_caps caps) (telemetry_record_attempt gid root)"
  "blind (replace_caps caps) take_accept_seq" "blind (replace_caps caps) (list_parities gid root now)"
  "blind (replace_caps caps) (ensure_group_srx_root_sw gid)" "blind (replace_caps caps) take_pending_capss_witness"
  "blind (replace_caps caps) (move_srx_root p h c root')"
  by (auto simp: replace_caps_def blind_def bind_fs_base_ts_def set_fs_base_ts_def telemetry_record_attempt_def telemetry_entry_mut_def
    take_accept_seq_def list_parities_def ensure_group_srx_root_sw_def set_group_srx_root_sw_def barrier_group_state_def
    barrier_group_state_entry_mut_def take_pending_capss_witness_def move_srx_root_def group_srx_root_sw_def Let_def
    split: option.splits prod.splits)

lemma blind_srx: "blind (replace_caps caps) (merge_srx_stage V p h root s ids pivot proofs now)"
  unfolding merge_srx_stage_def
  by (intro blind_intro blind_steps) (auto simp: replace_caps_def blind_def split: prod.splits)

lemma blind_policy: "blind (replace_caps caps) (merge_fs_policy h)"
  unfolding merge_fs_policy_def
  by (intro blind_intro)
    (auto simp: replace_caps_def ensure_fs_policy_version_allowed_def blind_def set_fs_policy_version_def split: option.splits)

lemma blind_window: "blind (replace_caps caps) (window_result key wid (ctx_accept_merge old new hs r now))"
  by (auto simp: replace_caps_def blind_def window_result_def ctx_accept_merge_def telemetry_record_success_def
    telemetry_record_window_full_def telemetry_entry_mut_def Let_def split: prod.splits sum.splits)

lemma caps_suites:
  "ensure_crs_id (replace_caps caps ctx) h = ensure_crs_id ctx h" "ensure_params_id (replace_caps caps ctx) h = ensure_params_id ctx h"
  "ensure_kbroad_pub (replace_caps caps ctx) gid h = ensure_kbroad_pub ctx gid h"
  "barrier_group_state (replace_caps caps ctx) gid = barrier_group_state ctx gid"
  "ax_srx_empty_root_sw (replace_caps caps ctx) = ax_srx_empty_root_sw ctx"
  by (simp_all add: replace_caps_def ensure_crs_id_def ensure_params_id_def ensure_kbroad_pub_def barrier_group_state_def
    split: option.split cbor.split)

lemma caps_checks:
  "merge_preflight p h (replace_caps caps ctx) = merge_preflight p h ctx"
  "merge_heads h hs rho (replace_caps caps ctx) = merge_heads h hs rho ctx"
  "merge_proofs E h (replace_caps caps ctx) = merge_proofs E h ctx"
  "group_srx_root_sw (replace_caps caps ctx) gid = group_srx_root_sw ctx gid"
  "check_checkpoint gid pm hs cp (replace_caps caps ctx) = check_checkpoint gid pm hs cp ctx"
  "fc_window_periods (ax_fs_caps (replace_caps caps ctx)) = fc_window_periods (ax_fs_caps ctx)"
  by (simp_all add: merge_preflight_def caps_suites merge_heads_def merge_proofs_def group_srx_root_sw_def check_checkpoint_def
    last_checkpoint_ec_def last_accepted_ec_def cong: option.case_cong) (simp_all add: replace_caps_def)

lemma caps_pivot_fields: "merge_pivot_fields p h c (replace_caps caps ctx) = merge_pivot_fields p h c ctx"
  by (simp add: merge_pivot_fields_def caps_checks cong: if_cong)

lemma caps_updates:
  "insert_pivot_parity q now (replace_caps caps ctx) = replace_caps caps (insert_pivot_parity q now ctx)"
  "advance_merge_device gid m (replace_caps caps ctx) = replace_caps caps (advance_merge_device gid m ctx)"
  "set_last_checkpoint_ec gid ec (replace_caps caps ctx) = replace_caps caps (set_last_checkpoint_ec gid ec ctx)"
  "record_accepted_ec gid ec (replace_caps caps ctx) = replace_caps caps (record_accepted_ec gid ec ctx)"
  "(replace_caps caps ctx)\<lparr>ax_pivot_store := pivot_retire (ax_pivot_store (replace_caps caps ctx)) gid root hs\<rparr> =
     replace_caps caps (ctx\<lparr>ax_pivot_store := pivot_retire (ax_pivot_store ctx) gid root hs\<rparr>)"
  by (simp_all add: replace_caps_def insert_pivot_parity_def advance_merge_device_def advance_device_def device_chain_entry_mut_def
    set_last_checkpoint_ec_def record_accepted_ec_def barrier_group_state_entry_mut_def Let_def split: option.split)

lemma blind_merge_fs:
  assumes "\<And>pk. bt_get h HDR_POP_PK \<noteq> Some (CBytes pk)"
  shows "blind (replace_caps caps) (merge_fs_stage E p h)"
proof -
  have "verify_merge_device E gid m digest ctx = Inr ()" if "read_merge_fs h = Inr m" for gid m digest ctx
    using assms read_merge_fs_Inr(3) [OF that] by (simp add: verify_merge_device_def split: option.split)
  then show ?thesis
    unfolding merge_fs_stage_def
    by (intro blind_intro(1) [OF blind_policy] blind_intro(1) [OF blind_steps(1)] blind_const blind_intro) (simp_all add: caps_checks)
qed

text \<open>C35: a merge that names no device is decided without the epoch caps.  For every context, header and verifiers, replacing
  the caps on the epochs by any others changes neither the result nor what the run does to the rest of the context; so no
  cap bounds the epoch to which such a merge raises its group.\<close>
theorem merge_ignores_caps:
  assumes "\<And>pk. bt_get h HDR_POP_PK \<noteq> Some (CBytes pk)"
    and "accept_anchor_merge V p claim h hs note now ctx = (r, ctx')"
  shows "accept_anchor_merge V p claim h hs note now (replace_caps caps ctx) = (r, replace_caps caps ctx')"
proof -
  have "blind (replace_caps caps) (accept_anchor_merge V p claim h hs note now)"
    unfolding accept_anchor_merge_def merge_validate_def merge_commit_def Let_def
    by (intro blind_intro blind_steps blind_srx blind_window blind_merge_fs [OF assms(1)])
      (simp_all add: caps_checks caps_pivot_fields caps_updates)
  from blindD [OF this assms(2)] show ?thesis .
qed

section \<open>A concrete run\<close>

text \<open>A merge of the single head of a window, without a device key and with a free choice of its epoch.\<close>
definition merge_header :: "int \<Rightarrow> header" where
  "merge_header ec =
     [(HDR_TSWE_ALG, CInt 31), (HDR_SEED_CTX_HASH, CBytes plain_digest), (HDR_MERKLE_SUITE, CText ''rpo-256/v2''),
      (HDR_RHO_COMMIT, CBytes plain_digest), (HDR_SEED_BUNDLE_COMMIT, CBytes plain_digest), (HDR_VRF_PROOF, CBytes [4]),
      (HDR_HP_BYTES, CArray [CText ''barrier-sealed-v1'', CText ''barrier-recovery'', CBytes plain_digest, CText ''chacha20-poly1305'']),
      (HDR_CRS_ID, CText ''crs''), (HDR_HP_COMMIT, CBytes plain_digest), (HDR_KBROAD_ALG, CText ''ml-kem-768''),
      (HDR_KBROAD_PUB, CBytes plain_kem), (HDR_PARAMS_ID, CText ''params''), (HDR_PARENT_ROOT, CBytes plain_digest),
      (HDR_JOIN_DELTA_ROOT, CBytes plain_digest), (HDR_REVOKED_SINCE_ROOT, CBytes plain_digest),
      (HDR_REVOKED_ROOT, CBytes plain_digest), (HDR_VRF_ID, CText ''lb-vrf/v1''), (HDR_PROOF_MODE, CText ''lin+zkvrf''),
      (HDR_PROOFS_COMMIT, CBytes plain_digest), (HDR_MH_HEADS, CArray [CBytes plain_digest]),
      (HDR_ROLLUP_PIVOT_WEID, CBytes plain_digest), (HDR_ROLLUP_FS_MODE, CText ''fs-purge''), (HDR_FS_POLICY_VERSION, CInt 1),
      (HDR_FS_EC, CInt ec), (HDR_FS_EPOCH_COMMIT, CBytes plain_digest), (HDR_FS_EPOCH_BASE_TS, CInt 100),
      (HDR_FS_EVOLUTION_BOUNDARY, CBool True), (HDR_FS_CAPSS, CBytes [4]), (HDR_FS_CHECKPOINT_EC, CInt 5),
      (HDR_FS_DEV_PREV_COMMIT, CBytes zero_hash), (HDR_FS_DEV_COMMIT, CBytes plain_digest), (HDR_VRF_MASK_A, CBytes plain_digest),
      (HDR_VRF_MASK_B, CBytes plain_digest), (HDR_VRF_PUBLIC_KEY, CBytes [4]), (HDR_BARRIER_UPDATE, CBytes [9]),
      (HDR_BARRIER_VERSION, CInt 4), (HDR_BARRIER_UPDATE_REASON, CInt 1)]"

definition plain_head :: HeadRecord where
  "plain_head = \<lparr>hr_we_epoch_id = plain_digest, hr_msphf_hp_commit = plain_digest, hr_seed_ctx_hash = plain_digest,
     hr_rho_commit = plain_digest, hr_seed_commit = plain_digest, hr_xk_hash = plain_digest, hr_join_delta_root = plain_digest,
     hr_revoked_since_root = plain_digest, hr_revoked_root = plain_digest, hr_accept_seq = 0, hr_accept_time = from_ticks 7\<rparr>"

definition plain_pivot :: PivotParity where
  "plain_pivot = sample_pivot\<lparr>pp_gid := [1], pp_parent_root := plain_digest, pp_we_epoch_id := plain_digest,
     pp_policy_version := u64_to_string 1, pp_proof_mode := ''lin+zkvrf'', pp_vrf_id := ''lb-vrf/v1'', pp_vrf_proof := [4],
     pp_vrf_public := [4], pp_mask_a := plain_digest, pp_mask_b := plain_digest, pp_fs_capss := [4], pp_is_join := True,
     pp_hp_envelope := [9], pp_fs_ec := Some 5\<rparr>"

definition plain_store :: PivotParityStore where
  "plain_store = pivot_insert (pivot_store_new (from_secs 60)) plain_pivot (from_ticks 7)"

abbreviation merge_context :: "MultiHeadWindow \<Rightarrow> AcceptanceContext" where
  "merge_context w \<equiv> plain_context\<lparr>ax_mh_window := w, ax_pivot_store := plain_store\<rparr>"

lemma plain_merge_preflight: "merge_preflight plain_parts (merge_header ec) (merge_context w) = Inr ()"
  by (simp add: merge_preflight_def plain_parts_def merge_header_def hdr_keys ensure_tswe_alg_def TSWE_ALG_CODE_def
    ensure_merkle_suite_def value_is_label_def MERKLE_DS_ID_def ensure_crs_id_def header_text_def ensure_kbroad_alg_def
    KBROAD_ML_KEM_ALG_def ensure_kbroad_pub_def ml_kem_public_key_bytes_def ensure_params_id_def ensure_merge_join_keys_absent_def)

lemma plain_merge_roots: "check_roots plain_parts (merge_header ec) = Inr plain_digest"
  by (simp add: check_roots_def matching_root_def plain_parts_def merge_header_def hdr_keys header_bytes32_or_freeze_def value_bytes32_def)

lemma plain_merge_purge: "check_purge (merge_header ec) = Inr ()"
  by (simp add: check_purge_def merge_header_def hdr_keys)

definition plain_merge_fs :: "u64 \<Rightarrow> MergeFs" where
  "plain_merge_fs ec = \<lparr>mf_checkpoint_ec = 5, mf_fields = plain_fs\<lparr>ff_ec := ec, ff_barrier_version := 4\<rparr>,
     mf_local_hp_commit = plain_digest, mf_pop_pk = None\<rparr>"

lemma plain_read_merge_fs:
  "u64_try_from i = Some ec \<Longrightarrow> read_merge_fs (merge_header i) = Inr (plain_merge_fs ec)"
  by (simp add: read_merge_fs_def merge_header_def hdr_keys header_u64_or_freeze_def header_bytes32_or_freeze_def value_bytes32_def
    u64_try_from_def [of 5] u64_try_from_def [of 4] u64_try_from_def [of 1] plain_merge_fs_def plain_fs_def)

lemma plain_merge_fs_stage:
  assumes "u64_try_from i = Some ec"
  shows "merge_fs_stage plain_ext plain_parts (merge_header i) (merge_context w) =
    (Inr (plain_merge_fs ec), set_fs_base_ts (Some 100) (set_fs_policy_version (Some (u64_to_string 1)) (merge_context w)))"
proof -
  have "compute_barrier_update_digest plain_ext (merge_header i) = Inr plain_digest"
    by (simp add: compute_barrier_update_digest_def merge_header_def hdr_keys plain_h_l validate_label_def as_bytes_def)
  moreover have "verify_merge_device plain_ext gid (plain_merge_fs ec) digest ctx = Inr ()" for gid digest ctx
    by (simp add: verify_merge_device_def plain_merge_fs_def)
  moreover have "header_u64_or_freeze (merge_header i) HDR_FS_POLICY_VERSION FREEZE_FS_JOIN_MISSING = Inr 1"
    "header_u64_or_freeze (merge_header i) HDR_FS_EPOCH_BASE_TS FREEZE_FS_JOIN_MISSING = Inr 100"
    by (simp_all add: header_u64_or_freeze_def merge_header_def hdr_keys u64_try_from_def)
  ultimately show ?thesis
    by (simp add: merge_fs_stage_def merge_fs_policy_def tryS_def liftS_def bind_fs_base_ts_def plain_read_merge_fs [OF assms]
      ensure_fs_policy_version_allowed_def plain_context_caps plain_parts_def set_fs_base_ts_def set_fs_policy_version_def)
qed

definition plain_merge_seed :: MergeSeed where
  "plain_merge_seed = \<lparr>ms_rho_commit = plain_digest, ms_anchor_seed_ctx = [9], ms_seed_ctx_hash = plain_digest,
     ms_seed_bundle = plain_digest, ms_wid_new = plain_digest\<rparr>"

lemma plain_merge_seed: "merge_seed plain_ext plain_parts (merge_header i) plain_digest = Inr plain_merge_seed"
  by (simp add: merge_seed_def plain_merge_seed_def plain_hashes header_bytes32_or_freeze_def value_bytes32_def merge_header_def hdr_keys)

lemma plain_merge_heads:
  assumes "find_head_window w plain_digest = Some old" "find_head w old plain_digest = Some plain_head"
  shows "merge_heads (merge_header i) [plain_digest] plain_digest (ctx\<lparr>ax_mh_window := w\<rparr>) =
    Inr \<lparr>mh_wid_old = old, mh_pivot_weid = plain_digest, mh_pivot_record = plain_head\<rparr>"
  using assms by (simp add: merge_heads_def heads_increasing_def merge_header_def hdr_keys header_bytes32_or_freeze_def value_bytes32_def
    plain_head_def Let_def)


definition plain_merge_ids :: MergeIds where
  "plain_merge_ids = \<lparr>mi_we_epoch_id = plain_digest, mi_seed_commit = plain_digest, mi_xk_hash = plain_digest\<rparr>"

lemma plain_merge_ids: "merge_ids plain_ext plain_parts plain_digest plain_digest plain_merge_seed = Inr plain_merge_ids"
  by (simp add: merge_ids_def check_epoch_def plain_hashes plain_parts_def plain_merge_seed_def plain_merge_ids_def)

lemma plain_merge_proofs:
  assumes "policy_frame plain_context ctx"
  shows "merge_proofs plain_ext (merge_header i) ctx = Inr plain_proofs"
proof -
  have "ensure_bootstrap_absent (merge_header i) = Inr ()"
    by (simp add: ensure_bootstrap_absent_def merge_header_def hdr_keys)
  moreover have "ensure_proofs plain_ext (merge_header i) (Some {''lin+zkvrf''}) {} (Some {''lb-vrf/v1''}) {} = Inr plain_proofs"
    by (simp add: ensure_proofs_def header_string_or_freeze_def header_text_def merge_header_def hdr_keys ensure_suite_def
      is_supported_proof_mode_def DEFAULT_PROOF_MODE_def is_supported_vrf_id_def DEFAULT_VRF_ID_def header_policy_version_def
      u64_try_from_def field32_def header_bytes_or_freeze_def ensure_srx_proof_fields_def header_bytes32_or_freeze_def
      value_bytes32_def FS_CAPSS_MAX_BYTES_def plain_hashes plain_proofs_def)
  moreover have "pa_vrf_pi plain_proofs = [4]"
    by (simp add: plain_proofs_def)
  ultimately show ?thesis
    using assms by (simp add: merge_proofs_def policy_frame_def MAX_VRF_PROOF_BYTES_def)
qed

lemma plain_parities: "parity_map (fst (pivot_list plain_store [1] plain_digest (from_ticks 8))) plain_digest = Some plain_pivot"
proof -
  have "pivot_live (from_secs 60) (from_ticks 8) \<lparr>pe_parity = plain_pivot, pe_accept_time = from_ticks 7\<rparr>"
    by (simp add: pivot_live_def duration_since_def from_ticks_def saturating_sub_def dur_secs_from_secs)
  moreover have "pp_gid plain_pivot = [1]" "pp_parent_root plain_pivot = plain_digest"
    by (simp_all add: plain_pivot_def)
  then have "pivot_entries plain_store ([1], plain_digest) = [\<lparr>pe_parity = plain_pivot, pe_accept_time = from_ticks 7\<rparr>]"
    by (simp add: plain_store_def pivot_insert_def pivot_entries_def pivot_store_new_def)
  moreover have "ps_ttl plain_store = from_secs 60"
    by (simp add: plain_store_def pivot_store_new_def)
  ultimately have "fst (pivot_list plain_store [1] plain_digest (from_ticks 8)) = [plain_pivot]"
    by (simp add: pivot_list_eq)
  then show ?thesis
    by (simp add: parity_map_def plain_pivot_def)
qed

lemma plain_pivot_checks:
  "check_pivot_envelope plain_ext (merge_header i) plain_pivot = Inr ()" "check_pivot_proofs plain_proofs plain_pivot = Inr ()"
  by (simp_all add: check_pivot_envelope_def plain_pivot_def use_local_hp_transport_def merge_header_def hdr_keys BARRIER_HP_MODE_def
    verify_join_payload_hp_envelope_def BARRIER_HP_CONTEXT_BARRIER_RECOVERY_def check_envelope_tail_def HP_AEAD_SUITE_def
    HP_MAX_CIPHERTEXT_BYTES_def MAX_HP_BYTES_def AEAD_TAG_LEN_def check_pivot_proofs_def plain_proofs_def)

lemma plain_merge_rollup: "merge_rollup plain_ext (merge_header i) pm hs = Inr ()"
  by (simp add: merge_rollup_def rollup_digest_def merge_header_def hdr_keys Let_def)

lemma plain_merge_srx:
  "\<exists>root ctx'. merge_srx_stage plain_verifiers plain_parts (merge_header i) r s ids plain_head proofs now ctx = (Inr root, ctx')"
proof -
  have "\<not> merge_srx_required plain_parts (merge_header i) plain_head"
    by (simp add: merge_srx_required_def plain_parts_def plain_head_def)
  moreover have "ensure_merge_srx_keys (merge_header i) False = Inr ()"
    by (simp add: ensure_merge_srx_keys_def has_legacy_srx_keys_def LEGACY_SRX_KEYS_def srx_only_presence_def SRX_ONLY_KEYS_def
      merge_header_def hdr_keys)
  moreover obtain root u where "ensure_group_srx_root_sw (ap_gid plain_parts) ctx = (Inr root, u)"
    by (fastforce simp: ensure_group_srx_root_sw_def Let_def split: option.splits)
  ultimately show ?thesis
    by (simp add: merge_srx_stage_def tryS_def liftS_def)
qed

lemma plain_merge_validate:
  assumes ec: "u64_try_from i = Some ec"
    and w: "find_head_window w plain_digest = Some old" "find_head w old plain_digest = Some plain_head"
  shows "\<exists>c ctxm. merge_validate plain_verifiers plain_parts plain_digest (merge_header i) [plain_digest] (from_ticks 8) (merge_context w) =
      (Inr c, ctxm) \<and> mh_wid_old (mc_heads c) = old \<and> mc_seed c = plain_merge_seed \<and> mc_fs c = plain_merge_fs ec"
proof -
  define ctx1 where "ctx1 = set_fs_base_ts (Some 100) (set_fs_policy_version (Some (u64_to_string 1)) (merge_context w))"
  define key where "key = telemetry_key [1] plain_digest"
  define ctx2 where "ctx2 = telemetry_entry_mut key record_attempt ctx1"
  have attempt: "telemetry_record_attempt [1] (ap_parent_root plain_parts) ctx1 = (Inr key, ctx2)"
    by (simp add: telemetry_record_attempt_def plain_parts_def ctx2_def key_def Let_def)
  have "ctx2 = ctx2\<lparr>ax_mh_window := w\<rparr>"
    by (simp add: ctx2_def ctx1_def telemetry_entry_mut_def set_fs_base_ts_def set_fs_policy_version_def Let_def)
  then have heads: "merge_heads (merge_header i) [plain_digest] plain_digest ctx2 =
      Inr \<lparr>mh_wid_old = old, mh_pivot_weid = plain_digest, mh_pivot_record = plain_head\<rparr>"
    using plain_merge_heads [OF w] by metis
  define ctx3 where "ctx3 = ctx2\<lparr>ax_next_accept_seq := ax_next_accept_seq ctx2 + 1\<rparr>"
  have frame3: "policy_frame plain_context ctx3" "ax_pivot_store ctx3 = plain_store" "core_frame (merge_context w) ctx3"
    by (simp_all add: ctx3_def ctx2_def ctx1_def policy_frame_def telemetry_entry_mut_def set_fs_base_ts_def set_fs_policy_version_def
      core_frame_def group_or_default_def barrier_group_state_def Let_def)
  define pm where "pm = parity_map (fst (pivot_list plain_store [1] plain_digest (from_ticks 8)))"
  define ctx4 where "ctx4 = ctx3\<lparr>ax_pivot_store := snd (pivot_list plain_store [1] plain_digest (from_ticks 8))\<rparr>"
  have list: "list_parities [1] plain_digest (from_ticks 8) ctx3 = (Inr pm, ctx4)"
    by (simp add: list_parities_def pm_def ctx4_def frame3(2) split: prod.split)
  have pm: "pm plain_digest = Some plain_pivot"
    unfolding pm_def by (rule plain_parities)
  have "core_frame (merge_context w) ctx4"
    using frame3(3) by (simp add: ctx4_def core_frame_fields)
  then have "last_checkpoint_ec ctx4 [1] = last_checkpoint_ec (merge_context w) [1]" "last_accepted_ec ctx4 [1] = last_accepted_ec (merge_context w) [1]"
    by (simp_all add: core_frameD)
  moreover have "last_accepted_ec (merge_context w) [1] = 5" "last_checkpoint_ec (merge_context w) [1] = 0"
    using plain_context_group by (simp_all add: last_accepted_ec_def last_checkpoint_ec_def barrier_group_state_def plain_group_def
      barrier_group_default_def)
  ultimately have chk: "check_checkpoint [1] pm [plain_digest] 5 ctx4 = Inr ()"
    by (simp add: check_checkpoint_def pm plain_pivot_def)
  obtain root ctx5 where srx: "merge_srx_stage plain_verifiers plain_parts (merge_header i) plain_digest plain_merge_seed plain_merge_ids
      plain_head plain_proofs (from_ticks 8) ctx4 = (Inr root, ctx5)"
    using plain_merge_srx by blast
  have fields: "ap_gid plain_parts = [1]" "ms_rho_commit plain_merge_seed = plain_digest" "mf_checkpoint_ec (plain_merge_fs ec) = 5"
    by (simp_all add: plain_parts_def plain_merge_seed_def plain_merge_fs_def)
  show ?thesis
    by (simp add: merge_validate_def tryS_def liftS_def plain_merge_preflight plain_merge_fs_stage [OF ec] ctx1_def [symmetric]
      plain_merge_purge plain_merge_roots attempt plain_merge_seed fields heads plain_merge_ids take_accept_seq_def
      ctx3_def [symmetric] plain_merge_proofs [OF frame3(1)] list pm plain_pivot_checks chk srx plain_merge_rollup
      take_pending_capss_witness_def Let_def)
qed

lemma plain_merge_run:
  assumes ec: "u64_try_from i = Some ec"
    and w: "find_head_window w plain_digest = Some old" "find_head w old plain_digest = Some plain_head" and "0 < h_max w"
  obtains (refused) r w' ctx' e where "accept_merge w old plain_digest [plain_digest] r (from_ticks 8) = (Inl e, w')"
      "accept_anchor_merge plain_verifiers plain_parts plain_digest (merge_header i) [plain_digest] None (from_ticks 8) (merge_context w) =
        (Inl (Freeze e), ctx')" "ax_mh_window ctx' = w'"
  | (taken) r w' out ctx' where "accept_merge w old plain_digest [plain_digest] r (from_ticks 8) = (Inr (), w')"
      "accept_anchor_merge plain_verifiers plain_parts plain_digest (merge_header i) [plain_digest] None (from_ticks 8) (merge_context w) =
        (Inr out, ctx')" "oc_fs_ec out = Some ec"
proof -
  obtain r ctx' where run: "accept_anchor_merge plain_verifiers plain_parts plain_digest (merge_header i) [plain_digest] None
      (from_ticks 8) (merge_context w) = (r, ctx')"
    by fastforce
  obtain c ctxm where v: "merge_validate plain_verifiers plain_parts plain_digest (merge_header i) [plain_digest] (from_ticks 8)
      (merge_context w) = (Inr c, ctxm)" and c: "mh_wid_old (mc_heads c) = old" "mc_seed c = plain_merge_seed" "mc_fs c = plain_merge_fs ec"
    using plain_merge_validate [OF ec w] by blast
  have wm: "ax_mh_window ctxm = w"
    using core_frameD(5) [OF evolvesD [OF evolves_merge_validate v]] by simp
  have new: "ms_wid_new (mc_seed c) = plain_digest"
    by (simp add: c plain_merge_seed_def)
  have "merge_commit plain_verifiers plain_parts (merge_header i) c [plain_digest] None (from_ticks 8) ctxm = (r, ctx')"
    using run v by (simp add: accept_anchor_merge_def tryS_def)
  with v show thesis
  proof (cases rule: merge_commit_cases)
    case (refused e w')
    then show thesis
      using that(1) run wm c new \<open>0 < h_max w\<close>
      by (auto simp: ctx_accept_merge_def telemetry_record_window_full_def ctx_simps split: prod.splits if_splits)
  next
    case (taken w' n pf)
    then show thesis
      using that(2) run wm c new by (simp add: merge_outcome_def plain_merge_fs_def plain_fs_def)
  qed
qed

definition one_head_window :: MultiHeadWindow where
  "one_head_window = snd (accept_head (mhw_new 4 (from_secs 60)) plain_digest plain_head (from_ticks 7))"

text \<open>The head is in window \<open>[8]\<close>, and the receiving window is full.\<close>
definition full_merge_window :: MultiHeadWindow where
  "full_merge_window = snd (accept_head (snd (accept_head (mhw_new 1 (from_secs 60)) plain_digest
     (plain_head\<lparr>hr_we_epoch_id := zero_hash\<rparr>) (from_ticks 7))) [8] plain_head (from_ticks 7))"


lemmas window_eval = mhw_new_def accept_head_def prune_def push_head_def retain_live.simps window_def live_def duration_since_def
  from_ticks_def saturating_sub_def dur_secs_from_secs Let_def

lemma one_head_window_facts:
  "find_head_window one_head_window plain_digest = Some plain_digest"
  "find_head one_head_window plain_digest plain_digest = Some plain_head" "h_max one_head_window = 4" "0 < h_max one_head_window"
  "fst (accept_merge one_head_window plain_digest plain_digest [plain_digest] r (from_ticks 8)) = Inr ()"
  by (simp_all add: one_head_window_def window_eval find_head_window_def find_head_def plain_head_def accept_merge_def
    merge_retire_def merge_install_def)

lemma plain_digest_distinct: "plain_digest \<noteq> [8]" "[8] \<noteq> plain_digest" "plain_digest \<noteq> zero_hash" "zero_hash \<noteq> plain_digest"
  by (auto simp: plain_digest_def zero_hash_def dest: arg_cong [of _ _ length])

lemma full_merge_window_facts:
  "find_head_window full_merge_window plain_digest = Some [8]"
  "find_head full_merge_window [8] plain_digest = Some plain_head" "h_max full_merge_window = 1" "0 < h_max full_merge_window"
  "fst (accept_merge full_merge_window [8] plain_digest [plain_digest] r (from_ticks 8)) = Inl WINDOW_FULL"
  by (simp_all add: full_merge_window_def window_eval find_head_window_def find_head_def plain_head_def accept_merge_def
    merge_retire_def merge_install_def plain_digest_distinct)

text \<open>With all caps on epochs at zero, a merge still takes the group from epoch 5 to epoch 1000000.\<close>
theorem merge_ignores_caps_witness:
  "\<exists>out ctx'. accept_anchor_merge plain_verifiers plain_parts plain_digest (merge_header 1000000) [plain_digest] None (from_ticks 8)
      (replace_caps \<lparr>fc_window_periods = 0, fc_anchor_max = 0, fc_first_device = 0, fc_device_max = 0\<rparr> (merge_context one_head_window)) =
      (Inr out, ctx') \<and> oc_fs_ec out = Some 1000000"
proof -
  have ec: "u64_try_from 1000000 = Some 1000000"
    by (simp add: u64_try_from_def)
  have "bt_get (merge_header 1000000) HDR_POP_PK \<noteq> Some (CBytes pk)" for pk
    by (simp add: merge_header_def hdr_keys)
  note uncapped = merge_ignores_caps [OF this]
  from ec one_head_window_facts(1,2,4) show ?thesis
  proof (cases rule: plain_merge_run)
    case (refused r w' ctx' e)
    then show ?thesis
      using one_head_window_facts(5) [of r] by simp
  next
    case (taken r w' out ctx')
    then show ?thesis
      using uncapped by blast
  qed
qed

theorem merge_accepted_checks_witness:
  "\<exists>out ctx'. accept_anchor_merge plain_verifiers plain_parts plain_digest (merge_header 9) [plain_digest] None (from_ticks 8)
      (merge_context one_head_window) = (Inr out, ctx') \<and>
    (\<exists>wid r. find_head one_head_window wid plain_digest = Some r \<and> hr_rho_commit r = oc_rho_commit out)"
proof -
  have "u64_try_from 9 = Some 9"
    by (simp add: u64_try_from_def)
  then show ?thesis
    using one_head_window_facts(1,2,4)
  proof (cases rule: plain_merge_run)
    case (taken r w' out ctx')
    with merge_accepted_checks [OF taken(2)] show ?thesis
      by auto
  next
    case (refused r w' ctx' e)
    then show ?thesis
      using one_head_window_facts(5) [of r] by simp
  qed
qed

theorem merge_accepted_state_witness:
  "\<exists>out ctx'. accept_anchor_merge plain_verifiers plain_parts plain_digest (merge_header 9) [plain_digest] None (from_ticks 8)
      (merge_context one_head_window) = (Inr out, ctx') \<and> last_checkpoint_ec ctx' [1] = 5 \<and> barrier_part ctx' [1] = barrier_part (merge_context one_head_window) [1]"
proof -
  have ec: "u64_try_from 9 = Some 9"
    by (simp add: u64_try_from_def)
  have cp: "header_u64_or_freeze (merge_header 9) HDR_FS_CHECKPOINT_EC FREEZE_FS_JOIN_MISSING = Inr 5"
    by (simp add: header_u64_or_freeze_def merge_header_def hdr_keys u64_try_from_def)
  from ec one_head_window_facts(1,2,4) show ?thesis
  proof (cases rule: plain_merge_run)
    case (taken r w' out ctx')
    with merge_accepted_state [OF taken(2)] cp show ?thesis
      by (auto simp: plain_parts_def)
  next
    case (refused r w' ctx' e)
    then show ?thesis
      using one_head_window_facts(5) [of r] by simp
  qed
qed

theorem merge_refused_state_witness:
  "\<exists>ctx'. accept_anchor_merge plain_verifiers plain_parts plain_digest (merge_header 9) [plain_digest] None (from_ticks 8)
      (merge_context full_merge_window) = (Inl (Freeze WINDOW_FULL), ctx') \<and>
    find_head_window full_merge_window plain_digest = Some [8] \<and> find_head_window (ax_mh_window ctx') plain_digest = None"
proof -
  have "u64_try_from 9 = Some 9"
    by (simp add: u64_try_from_def)
  then show ?thesis
    using full_merge_window_facts(1,2,4)
  proof (cases rule: plain_merge_run)
    case (refused r w' ctx' e)
    then have e: "e = WINDOW_FULL"
      using full_merge_window_facts(5) [of r] by simp
    with merge_refused_state [OF refused(2)] refused(2) full_merge_window_facts(1,3) show ?thesis
      by simp
  next
    case (taken r w' out ctx')
    then show ?thesis
      using full_merge_window_facts(5) [of r] by simp
  qed
qed

end
