(* ===== verification/Accept.thy ===== *)
theory Accept
  imports Merge
begin

text \<open>
  The entry point \<open>accept_anchor\<close> (\<open>accept/mod.rs\<close>): it ticks the clock, drops expired heads, runs the checks every anchor
  passes and the barrier gate, dispatches to the merge or the join handler, and commits the barrier when the handler has
  accepted.  The lemmas say what one call does to each part of the context (\<open>accept_anchor_effect\<close>), wherever it stops; the
  theorems are the invariant of the context over every sequence of calls, the barrier machine that a group's calls follow,
  what a merge can retire and when heads expire.
\<close>

section \<open>The entry point\<close>

text \<open>The checks between the pruning and the handlers; they read the context and change nothing.\<close>
definition anchor_checks ::
  "Verifiers \<Rightarrow> AnchorInstanceParts \<Rightarrow> header \<Rightarrow> AcceptanceContext \<Rightarrow> AcceptanceError + BarrierGateDecision \<times> string option" where
  "anchor_checks V p h ctx =
     (let anchor_type = classify_anchor_type h in
      tryE (ensure_known_header_keys h (is_merge_anchor h)) (\<lambda>_.
      tryE (enforce_anchor_presence_rules h anchor_type) (\<lambda>_.
      tryE (enforce_barrier_acceptance_gating V ctx (ap_gid p) h anchor_type) (\<lambda>gate.
      tryE (freeze_if (case bt_get h HDR_FS_CAPSS of Some (CBytes b) \<Rightarrow> MAX_HP_PROOF_BYTES < length b | _ \<Rightarrow> False)
        FREEZE_STARK_OVERSIZE) (\<lambda>_.
      tryE (map_err acc_err (parse_mh_note h)) (\<lambda>mh_note.
      Inr (gate, mh_note)))))))"

definition dispatch_anchor ::
  "Verifiers \<Rightarrow> AnchorInstanceParts \<Rightarrow> hash32 \<Rightarrow> header \<Rightarrow> BarrierGateDecision \<Rightarrow> string option \<Rightarrow> AcceptInstant \<Rightarrow> AcceptanceOutcome acc" where
  "dispatch_anchor V p we_epoch_id_claim h gate mh_note now =
     (if is_merge_anchor h
      then (case parse_mh_heads h of
              Inr (Some hs) \<Rightarrow> accept_anchor_merge V p we_epoch_id_claim h hs mh_note now
            | _ \<Rightarrow> (\<lambda>ctx. (Inl (Freeze FREEZE_MH_HEADS_INVALID), ctx)))
      else accept_anchor_join V p we_epoch_id_claim h mh_note (gd_barrier_update_digest gate) now)"

definition accept_anchor :: "Verifiers \<Rightarrow> AnchorInstanceParts \<Rightarrow> hash32 \<Rightarrow> header \<Rightarrow> AcceptanceOutcome acc" where
  "accept_anchor V p we_epoch_id_claim h =
     tryS next_accept_instant (\<lambda>now.
     tryS (updS (\<lambda>ctx. ctx\<lparr>ax_mh_window := prune_all (ax_mh_window ctx) now\<rparr>)) (\<lambda>_.
     tryS (liftS (anchor_checks V p h)) (\<lambda>(gate, mh_note).
     tryS (dispatch_anchor V p we_epoch_id_claim h gate mh_note now) (\<lambda>out.
     tryS (updS (apply_barrier_acceptance_commit (ap_gid p) h gate)) (\<lambda>_.
     (\<lambda>ctx. (Inr out, ctx)))))))"

section \<open>Runs\<close>

text \<open>The context the checks and handlers see: the clock has ticked and expired heads are gone.\<close>
definition ticked :: "AcceptanceContext \<Rightarrow> AcceptInstant \<times> AcceptanceContext" where
  "ticked ctx = (let (now, clock) = clock_tick (ax_clock ctx)
     in (now, ctx\<lparr>ax_clock := clock, ax_mh_window := prune_all (ax_mh_window ctx) now\<rparr>))"

lemma accept_anchor_ticked:
  assumes "ticked ctx = (now, ctx0)"
  shows "accept_anchor V p claim h ctx =
    (case anchor_checks V p h ctx0 of
       Inl e \<Rightarrow> (Inl e, ctx0)
     | Inr (gate, mn) \<Rightarrow> (case dispatch_anchor V p claim h gate mn now ctx0 of
         (Inl e, u) \<Rightarrow> (Inl e, u)
       | (Inr out, u) \<Rightarrow> (Inr out, apply_barrier_acceptance_commit (ap_gid p) h gate u)))"
  using assms by (auto simp: accept_anchor_def ticked_def tryS_def liftS_def updS_def next_accept_instant_def Let_def
    split: sum.splits prod.splits)

text \<open>A run stops before the handlers, or in a handler, or is accepted and commits the barrier.\<close>
lemma accept_anchor_cases:
  assumes "accept_anchor V p claim h ctx = (r, ctx')" and t: "ticked ctx = (now, ctx0)"
  obtains (early) e where "r = Inl e" "ctx' = ctx0"
  | (join) gate mn u where "classify_anchor_type h \<noteq> MergeAnchor" "anchor_checks V p h ctx0 = Inr (gate, mn)"
      "accept_anchor_join V p claim h mn (gd_barrier_update_digest gate) now ctx0 = (r, u)"
      "ctx' = (case r of Inl _ \<Rightarrow> u | Inr _ \<Rightarrow> apply_barrier_acceptance_commit (ap_gid p) h gate u)"
  | (merge) gate mn hs u where "classify_anchor_type h = MergeAnchor" "anchor_checks V p h ctx0 = Inr (gate, mn)"
      "parse_mh_heads h = Inr (Some hs)" "accept_anchor_merge V p claim h hs mn now ctx0 = (r, u)"
      "ctx' = (case r of Inl _ \<Rightarrow> u | Inr _ \<Rightarrow> apply_barrier_acceptance_commit (ap_gid p) h gate u)"
proof (cases "anchor_checks V p h ctx0")
  case (Inl e)
  then show thesis
    using assms(1) early by (auto simp: accept_anchor_ticked [OF t])
next
  case (Inr g)
  obtain gate mn where g: "g = (gate, mn)"
    by fastforce
  obtain q u where q: "dispatch_anchor V p claim h gate mn now ctx0 = (q, u)"
    by fastforce
  have r: "r = q" "ctx' = (case q of Inl _ \<Rightarrow> u | Inr _ \<Rightarrow> apply_barrier_acceptance_commit (ap_gid p) h gate u)"
    using assms(1) by (auto simp: accept_anchor_ticked [OF t] Inr g q split: sum.splits)
  show thesis
  proof (cases "classify_anchor_type h = MergeAnchor")
    case True
    then show thesis
      using q r Inr g merge [of gate mn _ u] early by (auto simp: dispatch_anchor_def is_merge_anchor_def split: sum.splits option.splits)
  next
    case False
    then show thesis
      using q r Inr g join [of gate mn u] by (simp add: dispatch_anchor_def is_merge_anchor_def)
  qed
qed

lemma anchor_checks_gate:
  "anchor_checks V p h ctx = Inr (gate, mn) \<Longrightarrow>
     enforce_barrier_acceptance_gating V ctx (ap_gid p) h (classify_anchor_type h) = Inr gate"
  by (auto simp: anchor_checks_def result_simps Let_def)

text \<open>An update reason makes an anchor a merge, so the barrier commit of a join changes nothing.\<close>
lemma gate_reason_merge:
  assumes "anchor_checks V p h ctx = Inr (gate, mn)" "classify_anchor_type h \<noteq> MergeAnchor"
  shows "gd_barrier_update_reason gate = None"
proof -
  have "read_barrier_gate V ctx (ap_gid p) h = Inr gate"
    using anchor_checks_gate [OF assms(1)]
    by (auto simp: enforce_barrier_acceptance_gating_def result_simps gate_uninitialized_def gate_revocation_def gate_proactive_def
      split: if_splits option.splits)
  then have "parse_barrier_update_reason h = Inr (gd_barrier_update_reason gate)"
    by (auto simp: read_barrier_gate_def result_simps Let_def split: if_splits)
  moreover have "\<not> has_key h HDR_BARRIER_UPDATE"
    using assms(2) by (auto simp: classify_anchor_type_def split: if_splits)
  ultimately show ?thesis
    by (auto simp: parse_barrier_update_reason_def Let_def split: if_splits)
qed


section \<open>What a handler does to the parts of the context\<close>

text \<open>A head bound to its window: both identifiers are hashes of the same group, parent root and seed context.\<close>
definition bound_head :: "Ext \<Rightarrow> bytes \<Rightarrow> HeadRecord \<Rightarrow> bool" where
  "bound_head E wid r \<longleftrightarrow> (\<exists>gid root sch. compute_window_id E gid root sch = Inr wid \<and>
     derive_we_epoch_id E gid root sch = Inr (hr_we_epoch_id r))"

text \<open>The steps of the window that a handler may take.\<close>
inductive window_step :: "Ext \<Rightarrow> AcceptInstant \<Rightarrow> bool \<Rightarrow> MultiHeadWindow \<Rightarrow> MultiHeadWindow \<Rightarrow> bool" for E now where
  stay: "window_step E now ok w w"
| head: "bound_head E wid r \<Longrightarrow> accept_head w wid r now = (q, w') \<Longrightarrow> ok = (q = Inr ()) \<Longrightarrow> window_step E now ok w w'"
| merge: "bound_head E new r \<Longrightarrow> accept_merge w old new hs r now = (q, w') \<Longrightarrow> ok = (q = Inr ()) \<Longrightarrow> window_step E now ok w w'"

text \<open>A device chain that gets one more link, checked against its tip.\<close>
inductive device_step :: "Ext \<Rightarrow> AcceptanceContext \<Rightarrow> AcceptanceContext \<Rightarrow> bool" for E where
  same: "(\<And>gid pk. device_chain_get ctx' gid pk = device_chain_get ctx gid pk) \<Longrightarrow> device_step E ctx ctx'"
| link: "compute_fs_dev_commit_v2 E pk ec (chain_tip (device_chain_get ctx gid pk)) bv digest = Inr commit \<Longrightarrow>
    (\<And>st. device_chain_get ctx gid pk = Some st \<Longrightarrow> dc_last_ec st \<le> ec) \<Longrightarrow>
    (\<And>gid' pk'. device_chain_get ctx' gid' pk' =
       (if gid' = gid \<and> pk' = pk
        then Some ((case device_chain_get ctx gid pk of None \<Rightarrow> device_chain_default | Some d \<Rightarrow> d)
          \<lparr>dc_last_commit := Some commit, dc_last_ec := ec\<rparr>)
        else device_chain_get ctx gid' pk')) \<Longrightarrow>
    device_step E ctx ctx'"

lemma verified_link:
  assumes "verify_fs_fields E gid pk f digest ctx = Inr ()"
  shows "compute_fs_dev_commit_v2 E pk (ff_ec f) (chain_tip (device_chain_get ctx gid pk)) (ff_barrier_version f) digest = Inr (ff_dev_commit f)"
    "device_chain_get ctx gid pk = Some st \<Longrightarrow> dc_last_ec st \<le> ff_ec f"
  using assms by (auto simp: verify_fs_fields_def verify_device_chain_state_def fs_verification_def chain_tip_def result_simps Let_def not_less
    split: option.splits)

lemma join_checked_bound:
  assumes "join_validate V p claim h digest now ctx = (Inr c, ctxm)"
  shows "bound_head (ext V) (ji_wid (jc_ids c)) (join_record p rho js (jc_ids c) seq now)"
proof -
  have "jc_parent_root c = ap_parent_root p"
    using join_validate_Inr(1) [OF assms] by (auto simp: join_preflight_def check_roots_def matching_root_def result_simps)
  then show ?thesis
    using join_ids_Inr [OF join_validate_Inr(3) [OF assms]] by (auto simp: bound_head_def join_record_def)
qed

lemma merge_seed_Inr:
  assumes "merge_seed E p h root = Inr s"
  shows "compute_window_id E (ap_gid p) root (ms_seed_ctx_hash s) = Inr (ms_wid_new s)"
  using assms by (auto simp: merge_seed_def result_simps)

lemma merge_checked_bound:
  assumes "merge_validate V p claim h hs now ctx = (Inr c, ctxm)"
  shows "bound_head (ext V) (ms_wid_new (mc_seed c)) (merge_record p h c now)"
proof -
  have "mc_parent_root c = ap_parent_root p"
    using merge_validate_Inr(4) [OF assms] by (auto simp: check_roots_def matching_root_def result_simps)
  moreover have "compute_window_id (ext V) (ap_gid p) (mc_parent_root c) (ms_seed_ctx_hash (mc_seed c)) = Inr (ms_wid_new (mc_seed c))"
    by (rule merge_seed_Inr [OF merge_validate_Inr(5) [OF assms]])
  ultimately show ?thesis
    using merge_ids_Inr [OF merge_validate_Inr(6) [OF assms]] by (auto simp: bound_head_def merge_record_def)
qed


text \<open>The handlers keep the invariant of the pivot store.\<close>
definition pivots_kept :: "AcceptanceContext \<Rightarrow> AcceptanceContext \<Rightarrow> bool" where
  "pivots_kept s t \<longleftrightarrow> (pivot_inv (ax_pivot_store s) \<longrightarrow> pivot_inv (ax_pivot_store t))"

interpretation pivots: state_relation pivots_kept
  by unfold_locales (auto simp: pivots_kept_def)

lemma kept_store: "ax_pivot_store t = ax_pivot_store s \<Longrightarrow> pivots_kept s t"
  by (simp add: pivots_kept_def)

lemma kept_stages [frame_intro]:
  "evolves pivots_kept (join_replay_guard p rho key now)" "evolves pivots_kept take_pending_capss_witness"
  "evolves pivots_kept (window_result key wid (ctx_accept_non_merge wid r now))"
  "evolves pivots_kept (window_result key wid (ctx_accept_merge old wid hs r now))"
  "evolves pivots_kept (ensure_group_srx_root_sw gid)" "evolves pivots_kept (move_srx_root p h c root)"
  "evolves pivots_kept (telemetry_record_attempt gid rt)" "evolves pivots_kept take_accept_seq" "evolves pivots_kept (merge_fs_stage E p h)"
  "evolves pivots_kept (bind_fs_base_ts ts)"
  by (rule evolvesI, rule kept_store, auto simp: join_replay_guard_def telemetry_record_rho_freeze_def
    take_pending_capss_witness_def window_result_def ctx_accept_non_merge_def ctx_accept_merge_def ensure_group_srx_root_sw_def
    set_group_srx_root_sw_def move_srx_root_def telemetry_record_success_def telemetry_record_window_full_def ctx_simps Let_def
    dest: evolvesD [OF evolves_store(1)] evolvesD [OF evolves_store(2)] evolvesD [OF evolves_store(3)] evolvesD [OF evolves_merge_fs_store] simp: store_frame_def
    split: prod.splits if_splits sum.splits option.splits)+

lemma kept_list [frame_intro]: "evolves pivots_kept (list_parities gid root now)"
  by (rule evolvesI) (auto simp: list_parities_def pivot_list_def Let_def pivots_kept_def pivot_inv_prune)

lemma kept_join: "evolves pivots_kept (accept_anchor_join V p claim h mn digest now)"
  unfolding accept_anchor_join_def join_validate_def join_commit_def join_fs_stage_def Let_def
  by (intro pivots.evolves_intro frame_intro pivots.evolves_upd)
    (auto simp: pivots_kept_def ctx_simps pivot_inv_insert set_fs_policy_version_def advance_device_def record_accepted_ec_def)

lemma kept_srx [frame_intro]: "evolves pivots_kept (merge_srx_stage V p h root s ids pivot proofs now)"
  unfolding merge_srx_stage_def
  by (intro pivots.evolves_intro frame_intro, rule evolvesI, rule kept_store) (auto split: if_splits prod.splits)

lemma kept_merge: "evolves pivots_kept (accept_anchor_merge V p claim h hs mn now)"
  unfolding accept_anchor_merge_def merge_validate_def merge_commit_def Let_def
  by (intro pivots.evolves_intro frame_intro pivots.evolves_upd)
    (auto simp: pivots_kept_def ctx_simps pivot_inv_insert pivot_inv_retire advance_merge_device_def advance_device_def record_accepted_ec_def
      set_last_checkpoint_ec_def split: option.split)

lemma core_frame_parts:
  assumes "core_frame s t"
  shows "device_step E s t" "window_step E now ok (ax_mh_window s) (ax_mh_window t)" "barrier_part t g = barrier_part s g"
    "last_accepted_ec t g = last_accepted_ec s g" "last_checkpoint_ec t g = last_checkpoint_ec s g" "ax_clock t = ax_clock s"
  using core_frameD [OF assms] barrier_part_cong [OF assms] assms
  by (auto intro: device_step.same window_step.stay simp: core_frame_def)

text \<open>The parts of the context after a handler has run.\<close>
definition handler_effect :: "Ext \<Rightarrow> AcceptInstant \<Rightarrow> bool \<Rightarrow> AcceptanceContext \<Rightarrow> AcceptanceContext \<Rightarrow> bool" where
  "handler_effect E now ok ctx ctx' \<longleftrightarrow>
     window_step E now ok (ax_mh_window ctx) (ax_mh_window ctx') \<and> device_step E ctx ctx' \<and>
     (\<forall>g. barrier_part ctx' g = barrier_part ctx g \<and> last_accepted_ec ctx g \<le> last_accepted_ec ctx' g \<and>
       last_checkpoint_ec ctx g \<le> last_checkpoint_ec ctx' g \<and>
       (last_checkpoint_ec ctx g \<le> last_accepted_ec ctx g \<longrightarrow> last_checkpoint_ec ctx' g \<le> last_accepted_ec ctx' g)) \<and>
     pivots_kept ctx ctx' \<and> ax_clock ctx' = ax_clock ctx"

lemma core_frame_effect: "core_frame s t \<Longrightarrow> pivots_kept s t \<Longrightarrow> handler_effect E now ok s t"
  by (simp add: handler_effect_def core_frame_parts)

lemma ctx_clock_fields [ctx_simps]:
  "ax_clock (telemetry_entry_mut key f ctx) = ax_clock ctx" "ax_clock (insert_pivot_parity q now ctx) = ax_clock ctx"
  "ax_clock (barrier_group_state_entry_mut gid g ctx) = ax_clock ctx" "ax_clock (device_chain_entry_mut gid pk d ctx) = ax_clock ctx"
  by (simp_all add: telemetry_entry_mut_def insert_pivot_parity_def barrier_group_state_entry_mut_def device_chain_entry_mut_def Let_def)

lemma join_advanced_fields [ctx_simps]:
  "ax_mh_window (join_advanced p c ctx) = ax_mh_window ctx" "ax_pivot_store (join_advanced p c ctx) = ax_pivot_store ctx"
  "ax_clock (join_advanced p c ctx) = ax_clock ctx" "barrier_part (join_advanced p c ctx) g = barrier_part ctx g"
  "last_checkpoint_ec (join_advanced p c ctx) g = last_checkpoint_ec ctx g"
  by (simp_all add: join_advanced_def record_accepted_ec_def advance_device_def ctx_simps barrier_part_def last_ec_default
    group_entry_mut)

lemma part_fields [ctx_simps]:
  "barrier_part (telemetry_entry_mut key f ctx) g = barrier_part ctx g" "barrier_part (ctx\<lparr>ax_mh_window := w\<rparr>) g = barrier_part ctx g"
  "barrier_part (insert_pivot_parity q now ctx) g = barrier_part ctx g"
  "last_accepted_ec (telemetry_entry_mut key f ctx) g = last_accepted_ec ctx g"
  "last_accepted_ec (ctx\<lparr>ax_mh_window := w\<rparr>) g = last_accepted_ec ctx g"
  "last_accepted_ec (insert_pivot_parity q now ctx) g = last_accepted_ec ctx g"
  "last_checkpoint_ec (telemetry_entry_mut key f ctx) g = last_checkpoint_ec ctx g"
  "last_checkpoint_ec (ctx\<lparr>ax_mh_window := w\<rparr>) g = last_checkpoint_ec ctx g"
  "last_checkpoint_ec (insert_pivot_parity q now ctx) g = last_checkpoint_ec ctx g"
  by (simp_all add: barrier_part_def last_ec_default ctx_simps)

lemma join_device_step:
  assumes "core_frame ctx ctxm" "verify_fs_fields E (ap_gid p) (js_pop_pk (jc_seed c)) (jc_fs c) digest ctxm = Inr ()"
    "\<And>gid pk. device_chain_get ctx' gid pk = device_chain_get (join_advanced p c ctxm) gid pk"
  shows "device_step E ctx ctx'"
proof (rule device_step.link)
  have ok: "verify_fs_fields E (ap_gid p) (js_pop_pk (jc_seed c)) (jc_fs c) digest ctx = Inr ()"
    using assms(2) verify_fs_cong [OF assms(1)] by simp
  show "compute_fs_dev_commit_v2 E (js_pop_pk (jc_seed c)) (ff_ec (jc_fs c))
      (chain_tip (device_chain_get ctx (ap_gid p) (js_pop_pk (jc_seed c)))) (ff_barrier_version (jc_fs c)) digest = Inr (ff_dev_commit (jc_fs c))"
    by (rule verified_link(1) [OF ok])
  show "dc_last_ec st \<le> ff_ec (jc_fs c)" if "device_chain_get ctx (ap_gid p) (js_pop_pk (jc_seed c)) = Some st" for st
    by (rule verified_link(2) [OF ok that])
qed (simp add: assms(3) join_advanced_simps core_frameD [OF assms(1)])

lemma join_effect:
  assumes run: "accept_anchor_join V p claim h mn digest now ctx = (r, ctx')"
  shows "handler_effect (ext V) now (\<exists>out. r = Inr out) ctx ctx'"
  using assms
proof (cases rule: join_run)
  case (validation e)
  then show ?thesis
    using core_frame_effect evolvesD [OF kept_join run] by blast
next
  case (commit c ctxm pf)
  note kept = evolvesD [OF kept_join run] and core = core_frame_parts(3-6) [OF commit(2)]
  note bound = join_checked_bound [OF commit(1)]
  from commit(3-5) show ?thesis
  proof (cases rule: join_commit_cases)
    case (full w)
    have "window_step (ext V) now False (ax_mh_window ctx) w"
      using window_step.head [OF bound full(1), of False] core_frameD(5) [OF commit(2)] by simp
    moreover have "device_step (ext V) ctx ctx'"
      using commit(2,3) by (rule join_device_step) (simp add: full(3) telemetry_record_window_full_def ctx_simps)
    ultimately show ?thesis
      using kept by (simp add: handler_effect_def full telemetry_record_window_full_def ctx_simps core join_advanced_simps)
        (simp add: le_max_iff_disj)
  next
    case (taken w n root)
    have "window_step (ext V) now True (ax_mh_window ctx) w"
      using window_step.head [OF bound taken(1), of True] core_frameD(5) [OF commit(2)] by simp
    moreover have "device_step (ext V) ctx ctx'"
      using commit(2,3) by (rule join_device_step) (simp add: taken(3) telemetry_record_success_def ctx_simps)
    ultimately show ?thesis
      using kept by (simp add: handler_effect_def taken telemetry_record_success_def ctx_simps core join_advanced_simps)
        (simp add: le_max_iff_disj)
  qed
qed

lemma merge_device_step:
  assumes "core_frame ctx ctxm" "verify_merge_device E (ap_gid p) (mc_fs c) digest ctx = Inr ()"
    "ctx' = merge_final E p h c hs now n w pf ctxm"
  shows "device_step E ctx ctx'"
proof (cases "mf_pop_pk (mc_fs c)")
  case None
  then show ?thesis
    by (intro device_step.same) (simp add: merge_final_fields [OF assms(3)] core_frameD [OF assms(1)])
next
  case (Some pk)
  then have ok: "verify_fs_fields E (ap_gid p) pk (mf_fields (mc_fs c)) digest ctx = Inr ()"
    using assms(2) by (simp add: verify_merge_device_def)
  show ?thesis
    by (rule device_step.link [OF verified_link(1) [OF ok] verified_link(2) [OF ok]])
      (auto simp: merge_final_fields(1) [OF assms(3)] core_frameD [OF assms(1)] Some)
qed

lemma merge_final_clock: "ax_clock (merge_final E p h c hs now n w pf ctx) = ax_clock ctx"
  by (simp add: merge_final_def Let_def telemetry_record_success_def set_group_srx_root_sw_def advance_merge_device_def advance_device_def
    record_accepted_ec_def set_last_checkpoint_ec_def ctx_simps split: option.split)

lemma merge_effect:
  assumes run: "accept_anchor_merge V p claim h hs mn now ctx = (r, ctx')"
  shows "handler_effect (ext V) now (\<exists>out. r = Inr out) ctx ctx'"
  using assms
proof (cases rule: merge_run)
  case (validation e)
  then show ?thesis
    using core_frame_effect evolvesD [OF kept_merge run] by blast
next
  case (commit c ctxm)
  note kept = evolvesD [OF kept_merge run] and core = core_frame_parts(3-6) [OF commit(2)]
  note bound = merge_checked_bound [OF commit(1)]
  from commit(1,3) show ?thesis
  proof (cases rule: merge_commit_cases)
    case (refused e w)
    have "window_step (ext V) now False (ax_mh_window ctx) w"
    proof (cases "h_max (ax_mh_window ctxm) < length hs")
      case True
      then have "ax_mh_window (ctxm\<lparr>ax_mh_window := w\<rparr>) = ax_mh_window ctxm"
        using refused(1) by (simp add: ctx_accept_merge_def)
      then show ?thesis
        using window_step.stay core_frameD(5) [OF commit(2)] by simp
    next
      case False
      then have "accept_merge (ax_mh_window ctxm) (mh_wid_old (mc_heads c)) (ms_wid_new (mc_seed c)) hs (merge_record p h c now) now = (Inl e, w)"
        using refused(1) by (auto simp: ctx_accept_merge_def split: prod.splits dest: arg_cong [of _ _ ax_mh_window])
      then show ?thesis
        using window_step.merge [OF bound, of _ _ _ _ _ _ False] core_frameD(5) [OF commit(2)] by simp
    qed
    moreover have "device_step (ext V) ctx ctx'"
      by (rule device_step.same) (simp add: refused(3) telemetry_record_window_full_def ctx_simps core_frameD [OF commit(2)])
    ultimately show ?thesis
      using kept by (simp add: handler_effect_def refused telemetry_record_window_full_def ctx_simps core)
  next
    case (taken w n pf)
    have "window_step (ext V) now True (ax_mh_window ctx) w"
      using window_step.merge [OF bound taken(1), of True] core_frameD(5) [OF commit(2)] by simp
    moreover have "device_step (ext V) ctx ctx'"
      using merge_validate_Inr(8) [OF commit(1)] merge_device_step [OF commit(2) _ taken(4)] by blast
    moreover have clock: "ax_clock ctx' = ax_clock ctxm"
      by (simp add: taken(4) merge_final_clock)
    moreover have "last_checkpoint_ec ctx (ap_gid p) \<le> mf_checkpoint_ec (mc_fs c)" "mf_checkpoint_ec (mc_fs c) \<le> last_accepted_ec ctx (ap_gid p)"
      using merge_validate_pivot(1) [OF commit(1)] check_checkpoint_Inr(1,2) by blast+
    ultimately show ?thesis
      using kept by (simp add: handler_effect_def taken(3) merge_final_fields [OF taken(4)] core clock) (simp add: le_max_iff_disj)
  qed
qed


section \<open>One call\<close>

definition device_epoch :: "DeviceChainState option \<Rightarrow> u64" where
  "device_epoch d = (case d of None \<Rightarrow> 0 | Some st \<Rightarrow> dc_last_ec st)"

text \<open>The commitment a device is known by is the hash chain of links with ascending epochs.\<close>
definition device_history :: "Ext \<Rightarrow> AcceptanceContext \<Rightarrow> bytes \<Rightarrow> bytes \<Rightarrow> chain_history \<Rightarrow> bool" where
  "device_history E ctx gid pk ls \<longleftrightarrow>
     chain_commit E pk ls = Inr (chain_tip (device_chain_get ctx gid pk)) \<and> sorted_wrt (\<lambda>a b. fst b \<le> fst a) ls \<and>
     device_epoch (device_chain_get ctx gid pk) = (case ls of [] \<Rightarrow> 0 | l # _ \<Rightarrow> fst l)"

lemma device_history_step:
  assumes "device_step E ctx ctx'" "device_history E ctx gid pk ls"
  shows "\<exists>ls'. device_history E ctx' gid pk ls'"
  using assms(1)
proof cases
  case same
  then show ?thesis
    using assms(2) by (auto simp: device_history_def)
next
  case (link pk' ec gid' bv digest commit)
  show ?thesis
  proof (cases "gid' = gid \<and> pk' = pk")
    case True
    have "\<forall>l\<in>set ls. fst l \<le> ec"
    proof
      fix l assume "l \<in> set ls"
      then have "fst l \<le> device_epoch (device_chain_get ctx gid pk)"
        using assms(2) by (cases ls) (auto simp: device_history_def)
      also have "\<dots> \<le> ec"
        using link(2) True by (simp add: device_epoch_def split: option.split)
      finally show "fst l \<le> ec" .
    qed
    then have "device_history E ctx' gid pk ((ec, bv, digest) # ls)"
      using assms(2) link(1,3) True by (simp add: device_history_def chain_tip_def device_epoch_def)
    then show ?thesis ..
  next
    case False
    then show ?thesis
      using assms(2) link(3) by (auto simp: device_history_def)
  qed
qed

lemma commit_fields:
  "ax_mh_window (apply_barrier_acceptance_commit gid h gate ctx) = ax_mh_window ctx"
  "ax_pivot_store (apply_barrier_acceptance_commit gid h gate ctx) = ax_pivot_store ctx"
  "ax_clock (apply_barrier_acceptance_commit gid h gate ctx) = ax_clock ctx"
  "last_accepted_ec (apply_barrier_acceptance_commit gid h gate ctx) g = last_accepted_ec ctx g"
  "last_checkpoint_ec (apply_barrier_acceptance_commit gid h gate ctx) g = last_checkpoint_ec ctx g"
  "chain_tip (device_chain_get (apply_barrier_acceptance_commit gid h gate ctx) g pk) = chain_tip (device_chain_get ctx g pk)"
  "device_epoch (device_chain_get (apply_barrier_acceptance_commit gid h gate ctx) g pk) = device_epoch (device_chain_get ctx g pk)"
  by (auto simp: apply_barrier_acceptance_commit_def Let_def ctx_simps last_ec_default group_entry_mut chain_tip_def device_epoch_def
    device_chain_default_def split: option.split)

lemma device_history_commit:
  "device_history E (apply_barrier_acceptance_commit gid h gate ctx) g pk = device_history E ctx g pk"
  by (intro ext) (simp add: device_history_def commit_fields)

definition context_effect :: "Ext \<Rightarrow> AcceptInstant \<Rightarrow> bool \<Rightarrow> AcceptanceContext \<Rightarrow> AcceptanceContext \<Rightarrow> bool" where
  "context_effect E now ok ctx ctx' \<longleftrightarrow>
     window_step E now ok (ax_mh_window ctx) (ax_mh_window ctx') \<and>
     (\<forall>gid pk ls. device_history E ctx gid pk ls \<longrightarrow> (\<exists>ls'. device_history E ctx' gid pk ls')) \<and>
     (\<forall>g. last_accepted_ec ctx g \<le> last_accepted_ec ctx' g \<and> last_checkpoint_ec ctx g \<le> last_checkpoint_ec ctx' g \<and>
       (last_checkpoint_ec ctx g \<le> last_accepted_ec ctx g \<longrightarrow> last_checkpoint_ec ctx' g \<le> last_accepted_ec ctx' g)) \<and>
     pivots_kept ctx ctx' \<and> ax_clock ctx' = ax_clock ctx"

lemma handler_context_effect:
  assumes "handler_effect E now ok ctx u"
  shows "context_effect E now ok ctx u" "context_effect E now ok ctx (apply_barrier_acceptance_commit gid h gate u)"
  using assms device_history_step [of E ctx u] device_history_commit [of E gid h gate u]
  unfolding context_effect_def handler_effect_def pivots_kept_def by (simp_all add: commit_fields)

lemma accept_anchor_effect:
  assumes "accept_anchor V p claim h ctx = (r, ctx')" "ticked ctx = (now, ctx0)"
  shows "context_effect (ext V) now (\<exists>out. r = Inr out) ctx0 ctx'"
  using assms
proof (cases rule: accept_anchor_cases)
  case (early e)
  then show ?thesis
    using handler_context_effect(1) [OF core_frame_effect [OF core.refl pivots.refl]] by simp
next
  case (join gate mn u)
  then show ?thesis
    using handler_context_effect [OF join_effect [OF join(3)]] by (cases r) simp_all
next
  case (merge gate mn hs u)
  then show ?thesis
    using handler_context_effect [OF merge_effect [OF merge(4)]] by (cases r) simp_all
qed

section \<open>The window of a run\<close>

lemma merge_retire_subset:
  assumes "merge_retire (prune w old now) old hs = (f, rs, w')"
  shows "set (window w' wid) \<subseteq> set (window w wid)" "h_max w' = h_max w" "ttl w' = ttl w" "bt_inv (heads w) \<Longrightarrow> bt_inv (heads w')"
    "window w' old = rs"
proof -
  obtain idx where ret: "retire_heads hs (live_heads w old now) (weid_index (prune w old now)) = (f, rs, idx)"
    and w': "w' = (prune w old now)\<lparr>heads := bt_insert old rs (heads (prune w old now)), weid_index := idx\<rparr>"
    using assms by (auto simp: merge_retire_def mhw_simps split: prod.splits)
  show "set (window w' wid) \<subseteq> set (window w wid)" "h_max w' = h_max w" "ttl w' = ttl w" "bt_inv (heads w) \<Longrightarrow> bt_inv (heads w')"
    "window w' old = rs"
    using retire_heads_subset [OF ret] by (auto simp: w' mhw_simps)
qed

lemma accept_merge_subset:
  assumes "bt_inv (heads w)" "accept_merge w old new hs r now = (q, w')"
  shows "set (window w' wid) \<subseteq> set (window w wid) \<union> (if wid = new \<and> q = Inr () then {r\<lparr>hr_accept_time := now\<rparr>} else {}) \<and>
    ttl w' = ttl w \<and> h_max w' = h_max w"
proof (cases "is_sorted_unique hs")
  case True
  obtain f rs w1 where ret: "merge_retire (prune w old now) old hs = (f, rs, w1)"
    using prod_cases3 by blast
  note w1 = merge_retire_subset [OF ret]
  show ?thesis
  proof (cases f)
    case f: True
    have "merge_install w1 old new rs (r\<lparr>hr_accept_time := now\<rparr>) now = (q, w')"
      using assms(2) True f ret by (simp add: accept_merge_def)
    note w2 = merge_install_simps [OF w1(4) [OF assms(1)] w1(5) this]
    have "set (window w' wid) \<subseteq> set (window w1 wid) \<union> (if wid = new \<and> q = Inr () then {r\<lparr>hr_accept_time := now\<rparr>} else {})"
      using w1(5) w2(5,6) by (cases "q = Inr ()") (auto split: if_splits)
    then show ?thesis
      using w1(1) [of wid] w1(2,3) w2(2,3) by auto
  qed (use assms(2) True ret w1 in \<open>auto simp: accept_merge_def\<close>)
qed (use assms(2) in \<open>auto simp: accept_merge_def\<close>)

lemma accept_head_subset:
  assumes "accept_head w wid' r now = (q, w')"
  shows "set (window w' wid) \<subseteq> set (window w wid) \<union> (if wid = wid' \<and> q = Inr () then {r\<lparr>hr_accept_time := now\<rparr>} else {}) \<and>
    ttl w' = ttl w \<and> h_max w' = h_max w"
  using assms by (auto simp: accept_head_def Let_def mhw_simps split: if_splits)


text \<open>A head of the window: bound to it, and accepted before the next tick (unless the clock has saturated).\<close>
definition head_ok :: "Ext \<Rightarrow> AcceptClock \<Rightarrow> bytes \<Rightarrow> HeadRecord \<Rightarrow> bool" where
  "head_ok E c wid r \<longleftrightarrow> bound_head E wid r \<and> (ticks (hr_accept_time r) < next_tick c \<or> unat (next_tick c) = 2 ^ 64 - 1)"

definition window_ok :: "Ext \<Rightarrow> AcceptClock \<Rightarrow> MultiHeadWindow \<Rightarrow> bool" where
  "window_ok E c w \<longleftrightarrow> mhw_inv w \<and> windows_bounded w \<and> (\<forall>wid. \<forall>r\<in>set (window w wid). head_ok E c wid r)"

definition context_ok :: "Ext \<Rightarrow> AcceptanceContext \<Rightarrow> bool" where
  "context_ok E ctx \<longleftrightarrow> window_ok E (ax_clock ctx) (ax_mh_window ctx) \<and> pivot_inv (ax_pivot_store ctx) \<and>
     (\<forall>g. last_checkpoint_ec ctx g \<le> last_accepted_ec ctx g) \<and> (\<forall>gid pk. \<exists>ls. device_history E ctx gid pk ls)"

lemma tick_next:
  assumes "clock_tick c = (now, c')"
  shows "ticks now = next_tick c" "unat (next_tick c') = min (Suc (unat (next_tick c))) (2 ^ 64 - 1)"
proof -
  have c: "next_tick c' = saturating_add (next_tick c) 1" "ticks now = next_tick c"
    using assms by (auto simp: clock_tick_def from_ticks_def Let_def)
  show "ticks now = next_tick c" "unat (next_tick c') = min (Suc (unat (next_tick c))) (2 ^ 64 - 1)"
    using unat_saturating_add [of "next_tick c" 1] by (simp_all add: c)
qed

lemma head_ok_tick:
  assumes "clock_tick c = (now, c')"
  shows "head_ok E c wid r \<Longrightarrow> head_ok E c' wid r" "bound_head E wid r \<Longrightarrow> head_ok E c' wid (r\<lparr>hr_accept_time := now\<rparr>)"
  using tick_next [OF assms] unat_le_max [of "next_tick c"] by (auto simp: head_ok_def bound_head_def word_less_nat_alt)

lemma window_ok_prune:
  assumes "window_ok E c w" "clock_tick c = (now, c')"
  shows "window_ok E c' (prune_all w now)"
proof -
  have inv: "bt_inv (heads w)"
    using assms(1) by (simp add: window_ok_def mhw_inv_def)
  then show ?thesis
    using assms(1) head_ok_tick(1) [OF assms(2)]
    by (auto simp: window_ok_def mhw_inv_prune_all windows_bounded_def prune_all_simps intro: le_trans [OF length_filter_le])
qed

lemma window_step_subset:
  assumes "window_step E now ok w w'" "bt_inv (heads w)" "r \<in> set (window w' wid)"
  shows "r \<in> set (window w wid) \<or> (ok \<and> (\<exists>r'. bound_head E wid r' \<and> r = r'\<lparr>hr_accept_time := now\<rparr>))"
  using assms(1)
proof cases
  case (head k r' q)
  then show ?thesis
    using accept_head_subset [OF head(2), of wid] assms(3) by (auto split: if_splits)
next
  case (merge new r' old hs q)
  then show ?thesis
    using accept_merge_subset [OF assms(2) merge(2), of wid] assms(3) by (auto split: if_splits)
qed (use assms(3) in simp)

lemma window_step_ok:
  assumes "window_step E now ok w w'" "window_ok E c' w" "clock_tick c = (now, c')"
  shows "window_ok E c' w'" "ttl w' = ttl w"
proof -
  have inv: "mhw_inv w" "bt_inv (heads w)" "windows_bounded w"
    using assms(2) by (simp_all add: window_ok_def mhw_inv_def)
  have "mhw_inv w' \<and> windows_bounded w' \<and> ttl w' = ttl w"
    using assms(1)
  proof cases
    case (head k r q)
    then show ?thesis
      using mhw_inv_accept_head [OF inv(1)] bounded_accept_head [OF inv(3)] accept_head_subset [OF head(2)] by (metis snd_conv)
  next
    case (merge new r old hs q)
    then show ?thesis
      using mhw_inv_accept_merge [OF inv(1)] bounded_accept_merge [OF inv(2,3)] accept_merge_subset [OF inv(2) merge(2)] by (metis snd_conv)
  qed (use inv in simp)
  moreover have "head_ok E c' wid r" if "r \<in> set (window w' wid)" for wid r
    using window_step_subset [OF assms(1) inv(2) that] assms(2) head_ok_tick(2) [OF assms(3)] by (auto simp: window_ok_def)
  ultimately show "window_ok E c' w'" "ttl w' = ttl w"
    by (simp_all add: window_ok_def)
qed

lemma ticked_parts:
  assumes "ticked ctx = (now, ctx0)"
  shows "clock_tick (ax_clock ctx) = (now, ax_clock ctx0)" "ax_mh_window ctx0 = prune_all (ax_mh_window ctx) now"
    "ax_pivot_store ctx0 = ax_pivot_store ctx" "device_chain_get ctx0 = device_chain_get ctx"
    "barrier_group_state ctx0 = barrier_group_state ctx"
  using assms by (auto simp: ticked_def device_chain_get_def barrier_group_state_def Let_def fun_eq_iff split: prod.splits)

lemma ticked_epochs:
  assumes "ticked ctx = (now, ctx0)"
  shows "last_accepted_ec ctx0 = last_accepted_ec ctx" "last_checkpoint_ec ctx0 = last_checkpoint_ec ctx"
    "device_history E ctx0 = device_history E ctx" "barrier_view ctx0 = barrier_view ctx" "barrier_part ctx0 = barrier_part ctx"
  using ticked_parts(4,5) [OF assms]
  by (simp_all add: fun_eq_iff last_accepted_ec_def last_checkpoint_ec_def device_history_def barrier_view_def barrier_part_def group_or_default_def)

lemma context_ok_ticked: "context_ok E ctx \<Longrightarrow> ticked ctx = (now, ctx0) \<Longrightarrow> context_ok E ctx0"
  by (simp add: context_ok_def ticked_parts ticked_epochs window_ok_prune [of E "ax_clock ctx"])

lemma context_ok_accept:
  assumes "context_ok (ext V) ctx" "accept_anchor V p claim h ctx = (r, ctx')"
  shows "context_ok (ext V) ctx'"
proof -
  obtain now ctx0 where t: "ticked ctx = (now, ctx0)"
    by fastforce
  have "context_ok (ext V) ctx0"
    by (rule context_ok_ticked [OF assms(1) t])
  then show ?thesis
    using accept_anchor_effect [OF assms(2) t] window_step_ok(1) [OF _ _ ticked_parts(1) [OF t]]
    unfolding context_ok_def context_effect_def pivots_kept_def by metis
qed

inductive anchor_run :: "Verifiers \<Rightarrow> AcceptanceContext \<Rightarrow> bool" for V where
  new: "anchor_run V (ctx_with_options (ext V) hm d opts)"
| group: "anchor_run V ctx \<Longrightarrow> bg_last_checkpoint_ec st \<le> bg_last_accepted_ec st \<Longrightarrow> anchor_run V (insert_barrier_group_state gid st ctx)"
| anchor: "anchor_run V ctx \<Longrightarrow> accept_anchor V p claim h ctx = (r, ctx') \<Longrightarrow> anchor_run V ctx'"

lemma context_ok_new: "context_ok E (ctx_with_options E' hm d opts)"
proof -
  let ?c = "ctx_with_options E' hm d opts"
  have "ax_mh_window ?c = mhw_new hm d" "ax_pivot_store ?c = pivot_store_new (ttl (mhw_new hm d))" "ax_device_chains ?c = Map.empty"
    "ax_barrier_groups ?c = Map.empty"
    by (auto simp: ctx_with_options_def apply_fs_policy_config_def Let_def split: sum.split)
  then show ?thesis
    using pivot_reachable_inv [OF pivot_reachable.pivot_reachable_new]
    by (auto simp: context_ok_def window_ok_def mhw_inv_new windows_bounded_def last_accepted_ec_def last_checkpoint_ec_def
      barrier_group_state_def device_history_def device_chain_get_def chain_tip_def device_epoch_def intro!: exI [of _ "[]"])
qed

lemma context_ok_group:
  assumes "context_ok E ctx" "bg_last_checkpoint_ec st \<le> bg_last_accepted_ec st"
  shows "context_ok E (insert_barrier_group_state gid st ctx)"
  using assms by (simp add: context_ok_def insert_barrier_group_state_def last_accepted_ec_def last_checkpoint_ec_def
    barrier_group_state_def device_history_def device_chain_get_def)

lemma anchor_run_ok: "anchor_run V ctx \<Longrightarrow> context_ok (ext V) ctx"
  by (induction rule: anchor_run.induct) (auto intro: context_ok_new context_ok_group context_ok_accept)


section \<open>Theorems\<close>

text \<open>C1: the invariant of the acceptance context.  Whatever anchors it is given, the window's index is sound and its windows
  are within the limit, every head is bound to its window by the hashes of one group, parent root and seed context, the
  stored pivots are unique and filed under their own group and root, no group's checkpoint is after its last epoch, and the
  commitment of every device is the hash chain of links with ascending epochs.\<close>
theorem anchor_run_invariant:
  assumes "anchor_run V ctx"
  shows "mhw_inv (ax_mh_window ctx) \<and> windows_bounded (ax_mh_window ctx) \<and>
    (\<forall>wid. \<forall>r\<in>set (window (ax_mh_window ctx) wid). bound_head (ext V) wid r) \<and> pivot_inv (ax_pivot_store ctx) \<and>
    (\<forall>g. last_checkpoint_ec ctx g \<le> last_accepted_ec ctx g) \<and> (\<forall>gid pk. \<exists>ls. device_history (ext V) ctx gid pk ls)"
  using anchor_run_ok [OF assms] by (simp add: context_ok_def window_ok_def head_ok_def)

text \<open>C22: a merge retires one head, in every context that satisfies the invariant of a run.  A merge lists strictly ascending heads of one window, and a window and its heads are
  named by two hashes of the same group, parent root and seed context; so an accepted merge names exactly one head, unless
  two of the heads it names exhibit two different hash inputs with the same window identifier.\<close>
theorem merge_retires_one_head:
  assumes "context_ok (ext V) ctx" and "accept_anchor V p claim h ctx = (Inr out, ctx')" and "is_merge_anchor h"
  shows "(\<exists>x. oc_kind out = Merge [x]) \<or>
    (\<exists>hs wid. oc_kind out = Merge hs \<and> (\<exists>x\<in>set hs. \<exists>y\<in>set hs. \<exists>g1 p1 s1 g2 p2 s2. x \<noteq> y \<and> (g1, p1, s1) \<noteq> (g2, p2, s2) \<and>
       derive_we_epoch_id (ext V) g1 p1 s1 = Inr x \<and> compute_window_id (ext V) g1 p1 s1 = Inr wid \<and>
       derive_we_epoch_id (ext V) g2 p2 s2 = Inr y \<and> compute_window_id (ext V) g2 p2 s2 = Inr wid))"
proof -
  obtain now ctx0 where t: "ticked ctx = (now, ctx0)"
    by fastforce
  have ok: "context_ok (ext V) ctx0"
    by (rule context_ok_ticked [OF assms(1) t])
  from assms(2) t obtain hs mn u where run: "accept_anchor_merge V p claim h hs mn now ctx0 = (Inr out, u)"
    by (cases rule: accept_anchor_cases) (use assms(3) in \<open>auto simp: is_merge_anchor_def\<close>)
  then obtain c ctxm where v: "merge_validate V p claim h hs now ctx0 = (Inr c, ctxm)" and out: "out = merge_outcome h c hs now mn"
    by (rule merge_accepted_run)
  note heads = merge_heads_Inr [OF merge_validate_Inr(1) [OF v]]
  let ?wid = "mh_wid_old (mc_heads c)"
  have bound: "\<exists>g p s. derive_we_epoch_id (ext V) g p s = Inr x \<and> compute_window_id (ext V) g p s = Inr ?wid" if "x \<in> set hs" for x
  proof -
    have "x \<in> hr_we_epoch_id ` set (window (ax_mh_window ctx0) ?wid)"
      using heads(4) that by (simp flip: find_head_exists)
    then obtain r where "r \<in> set (window (ax_mh_window ctx0) ?wid)" "x = hr_we_epoch_id r"
      by blast
    then have "bound_head (ext V) ?wid r" "x = hr_we_epoch_id r"
      using ok by (simp_all add: context_ok_def window_ok_def head_ok_def)
    then show ?thesis
      by (auto simp: bound_head_def)
  qed
  have kind: "oc_kind out = Merge hs"
    by (simp add: out merge_outcome_def)
  show ?thesis
  proof (cases "\<exists>x. hs = [x]")
    case False
    then obtain x y zs where hs: "hs = x # y # zs"
      using heads(2) by (cases hs; cases "tl hs") auto
    then have ne: "x \<noteq> y"
      using heads(1) by (auto simp: heads_increasing_def)
    obtain g1 p1 s1 g2 p2 s2 where "derive_we_epoch_id (ext V) g1 p1 s1 = Inr x" "compute_window_id (ext V) g1 p1 s1 = Inr ?wid"
        "derive_we_epoch_id (ext V) g2 p2 s2 = Inr y" "compute_window_id (ext V) g2 p2 s2 = Inr ?wid"
      using bound [of x] bound [of y] hs by auto
    moreover from this ne have "(g1, p1, s1) \<noteq> (g2, p2, s2)"
      by auto
    moreover have "x \<in> set hs" "y \<in> set hs"
      using hs by simp_all
    ultimately show ?thesis
      using kind ne by blast
  qed (use kind in simp)
qed

lemma barrier_view_part: "barrier_view ctx g =
   (if bg_barrier_initialized (barrier_part ctx g) then Some (bg_barrier_version (barrier_part ctx g), bg_barrier_roots_hash (barrier_part ctx g))
    else None)"
  by (simp add: barrier_view_def barrier_part_def group_or_default_def barrier_group_default_def split: option.split)

lemma commit_view:
  "barrier_view (apply_barrier_acceptance_commit gid h d ctx) gid =
     (if gd_barrier_update_reason d = None then barrier_view ctx gid else Some (gd_barrier_version d, gd_revocation_roots_hash d))"
  by (auto simp: barrier_view_def apply_barrier_acceptance_commit_def Let_def split: option.split)

lemma commit_part: "g \<noteq> gid \<Longrightarrow> barrier_part (apply_barrier_acceptance_commit gid h d ctx) g = barrier_part ctx g"
  by (simp add: barrier_part_def group_or_default_def commit_other_group)

lemma accept_gated:
  assumes "accept_anchor V p claim h ctx = (r, ctx')" "ticked ctx = (now, ctx0)"
  obtains (refused) e where "r = Inl e" "\<And>g. barrier_part ctx' g = barrier_part ctx g"
  | (accepted) out gate u where "r = Inr out" "enforce_barrier_acceptance_gating V ctx0 (ap_gid p) h (classify_anchor_type h) = Inr gate"
      "\<And>g. barrier_part u g = barrier_part ctx0 g" "ctx' = apply_barrier_acceptance_commit (ap_gid p) h gate u"
  using assms
proof (cases rule: accept_anchor_cases)
  case (early e)
  then show thesis
    using refused ticked_epochs(5) [OF assms(2)] by auto
next
  case (join gate mn u)
  then show thesis
    using refused accepted join_effect [OF join(3)] anchor_checks_gate [OF join(2)] ticked_epochs(5) [OF assms(2)]
    by (cases r) (auto simp: handler_effect_def)
next
  case (merge gate mn hs u)
  then show thesis
    using refused accepted merge_effect [OF merge(4)] anchor_checks_gate [OF merge(2)] ticked_epochs(5) [OF assms(2)]
    by (cases r) (auto simp: handler_effect_def)
qed

lemma gate_reason:
  assumes "enforce_barrier_acceptance_gating V ctx gid h t = Inr gate"
  shows "parse_barrier_update_reason h = Inr (gd_barrier_update_reason gate)"
proof -
  have "read_barrier_gate V ctx gid h = Inr gate"
    using assms by (auto simp: enforce_barrier_acceptance_gating_def result_simps gate_uninitialized_def gate_revocation_def gate_proactive_def
      split: if_splits option.splits)
  then show ?thesis
    by (auto simp: read_barrier_gate_def result_simps Let_def split: if_splits)
qed

text \<open>C7: the barrier of a group the context knows is the barrier machine.  A refused anchor leaves every group's barrier
  alone, wherever it was refused; an accepted one is one step of the machine for its own group, with the reason the header
  gives, and leaves the other groups alone.\<close>
theorem accept_anchor_barrier:
  assumes "barrier_group_state ctx (ap_gid p) = Some st" and "accept_anchor V p claim h ctx = (r, ctx')"
  shows "case r of
      Inl _ \<Rightarrow> \<forall>g. barrier_part ctx' g = barrier_part ctx g
    | Inr _ \<Rightarrow> (\<exists>reason. parse_barrier_update_reason h = Inr reason \<and>
          barrier_step (classify_anchor_type h) reason (barrier_view ctx (ap_gid p)) (barrier_view ctx' (ap_gid p))) \<and>
        (\<forall>g. g \<noteq> ap_gid p \<longrightarrow> barrier_part ctx' g = barrier_part ctx g)"
proof -
  obtain now ctx0 where t: "ticked ctx = (now, ctx0)"
    by fastforce
  from assms(2) t show ?thesis
  proof (cases rule: accept_gated)
    case (accepted out gate u)
    have st: "barrier_group_state ctx0 (ap_gid p) = Some st"
      using assms(1) ticked_parts(5) [OF t] by simp
    have "barrier_view u (ap_gid p) = barrier_view ctx (ap_gid p)"
      using accepted(3) ticked_epochs(5) [OF t] by (simp add: barrier_view_part)
    then have "barrier_step (classify_anchor_type h) (gd_barrier_update_reason gate) (barrier_view ctx (ap_gid p)) (barrier_view ctx' (ap_gid p))"
      using gate_steps [OF st accepted(2)] ticked_epochs(4) [OF t] by (cases "gd_barrier_update_reason gate") (simp_all add: accepted(4) commit_view)
    then show ?thesis
      using accepted gate_reason [OF accepted(2)] ticked_epochs(5) [OF t] by (simp add: commit_part)
  qed simp
qed

section \<open>Expiry\<close>

text \<open>Anchors in the order they arrive.\<close>
fun accept_anchors ::
  "Verifiers \<Rightarrow> (AnchorInstanceParts \<times> hash32 \<times> header) list \<Rightarrow> AcceptanceContext \<Rightarrow> (AcceptanceError + AcceptanceOutcome) list \<times> AcceptanceContext" where
  "accept_anchors V [] ctx = ([], ctx)"
| "accept_anchors V ((p, claim, h) # as) ctx =
     (case accept_anchor V p claim h ctx of (r, ctx) \<Rightarrow> (case accept_anchors V as ctx of (rs, ctx) \<Rightarrow> (r # rs, ctx)))"

lemma live_age: "live d now r \<longleftrightarrow> unat (ticks now) - unat (ticks (hr_accept_time r)) \<le> unat (dur_secs d)"
  by (simp add: live_def duration_since_def word_le_nat_alt unat_saturating_sub)

lemma refused_window:
  assumes "context_ok (ext V) ctx" "accept_anchor V p claim h ctx = (Inl e, ctx')" "r \<in> set (window (ax_mh_window ctx') wid)"
  shows "r \<in> set (window (ax_mh_window ctx) wid)"
    "unat (next_tick (ax_clock ctx)) - unat (ticks (hr_accept_time r)) \<le> unat (dur_secs (ttl (ax_mh_window ctx)))"
proof -
  obtain now ctx0 where t: "ticked ctx = (now, ctx0)"
    by fastforce
  have inv: "bt_inv (heads (ax_mh_window ctx))" "bt_inv (heads (ax_mh_window ctx0))"
    using assms(1) context_ok_ticked [OF assms(1) t] by (simp_all add: context_ok_def window_ok_def mhw_inv_def)
  have "window_step (ext V) now False (ax_mh_window ctx0) (ax_mh_window ctx')"
    using accept_anchor_effect [OF assms(2) t] by (simp add: context_effect_def)
  then have "r \<in> set (window (ax_mh_window ctx0) wid)"
    using window_step_subset [OF _ inv(2) assms(3)] by blast
  then show "r \<in> set (window (ax_mh_window ctx) wid)"
    "unat (next_tick (ax_clock ctx)) - unat (ticks (hr_accept_time r)) \<le> unat (dur_secs (ttl (ax_mh_window ctx)))"
    using tick_next(1) [OF ticked_parts(1) [OF t]] by (simp_all add: ticked_parts(2) [OF t] prune_all_simps inv live_age)
qed

lemma accept_anchor_clock:
  assumes "context_ok (ext V) ctx" "accept_anchor V p claim h ctx = (r, ctx')"
  shows "unat (next_tick (ax_clock ctx')) = min (Suc (unat (next_tick (ax_clock ctx)))) (2 ^ 64 - 1)"
    "ttl (ax_mh_window ctx') = ttl (ax_mh_window ctx)"
proof -
  obtain now ctx0 where t: "ticked ctx = (now, ctx0)"
    by fastforce
  have ok: "window_ok (ext V) (ax_clock ctx0) (ax_mh_window ctx0)"
    using context_ok_ticked [OF assms(1) t] by (simp add: context_ok_def)
  have eff: "ax_clock ctx' = ax_clock ctx0" "window_step (ext V) now (\<exists>out. r = Inr out) (ax_mh_window ctx0) (ax_mh_window ctx')"
    using accept_anchor_effect [OF assms(2) t] by (simp_all add: context_effect_def)
  show "unat (next_tick (ax_clock ctx')) = min (Suc (unat (next_tick (ax_clock ctx)))) (2 ^ 64 - 1)"
    using tick_next(2) [OF ticked_parts(1) [OF t]] by (simp add: eff)
  show "ttl (ax_mh_window ctx') = ttl (ax_mh_window ctx)"
    using window_step_ok(2) [OF eff(2) ok ticked_parts(1) [OF t]] by (simp add: ticked_parts(2) [OF t] prune_all_simps(4))
qed

lemma refused_ages:
  assumes "context_ok (ext V) ctx" "accept_anchors V as ctx = (rs, ctx')" "\<forall>r\<in>set rs. \<exists>e. r = Inl e" "as \<noteq> []"
    "unat (next_tick (ax_clock ctx)) + length as < 2 ^ 64" "r \<in> set (window (ax_mh_window ctx') wid)"
  shows "r \<in> set (window (ax_mh_window ctx) wid) \<and>
    unat (next_tick (ax_clock ctx)) + length as \<le> Suc (unat (ticks (hr_accept_time r)) + unat (dur_secs (ttl (ax_mh_window ctx))))"
  using assms
proof (induction as arbitrary: ctx rs)
  case (Cons a as)
  obtain p claim h where a: "a = (p, claim, h)"
    by (rule prod_cases3)
  obtain e u rs' where run: "accept_anchor V p claim h ctx = (Inl e, u)" "accept_anchors V as u = (rs', ctx')" "\<forall>r\<in>set rs'. \<exists>e. r = Inl e"
    using Cons.prems(2,3) by (auto simp: a split: prod.splits)
  note clock = accept_anchor_clock [OF Cons.prems(1) run(1)]
  have next_eq: "unat (next_tick (ax_clock u)) = Suc (unat (next_tick (ax_clock ctx)))"
    using clock(1) Cons.prems(5) by simp
  show ?case
  proof (cases "as = []")
    case True
    then have "r \<in> set (window (ax_mh_window u) wid)"
      using run(2) Cons.prems(6) by simp
    from refused_window [OF Cons.prems(1) run(1) this] show ?thesis
      by (simp add: True)
  next
    case False
    have "r \<in> set (window (ax_mh_window u) wid) \<and>
        unat (next_tick (ax_clock u)) + length as \<le> Suc (unat (ticks (hr_accept_time r)) + unat (dur_secs (ttl (ax_mh_window u))))"
      using Cons.prems(5,6) by (intro Cons.IH [OF context_ok_accept [OF Cons.prems(1) run(1)] run(2,3) False]) (simp_all add: next_eq)
    then show ?thesis
      using refused_window(1) [OF Cons.prems(1) run(1)] by (simp add: next_eq clock(2))
  qed
qed simp

text \<open>C32: heads expire with the calls, not with time.  The clock ticks at every call, also at one that refuses its anchor at
  the first check; so after more refused anchors in a row than the window's duration has seconds, no window has a head left.\<close>
theorem refused_anchors_expire_heads:
  assumes "anchor_run V ctx" and "accept_anchors V as ctx = (rs, ctx')" and "\<forall>r\<in>set rs. \<exists>e. r = Inl e"
    and "unat (dur_secs (ttl (ax_mh_window ctx))) < length as" and "unat (next_tick (ax_clock ctx)) + length as < 2 ^ 64"
  shows "window (ax_mh_window ctx') wid = []"
proof (rule ccontr)
  assume "window (ax_mh_window ctx') wid \<noteq> []"
  then obtain r where r: "r \<in> set (window (ax_mh_window ctx') wid)"
    by (meson last_in_set)
  have ok: "context_ok (ext V) ctx"
    by (rule anchor_run_ok [OF assms(1)])
  have "as \<noteq> []"
    using assms(4) by auto
  note age = refused_ages [OF ok assms(2,3) this assms(5) r]
  have "unat (ticks (hr_accept_time r)) < unat (next_tick (ax_clock ctx))"
  proof -
    have "head_ok (ext V) (ax_clock ctx) wid r"
      using ok age by (simp add: context_ok_def window_ok_def)
    then show ?thesis
      using assms(4,5) by (auto simp: head_ok_def word_less_nat_alt)
  qed
  with age assms(4) show False
    by simp
qed


section \<open>A concrete run\<close>

definition start_context :: AcceptanceContext where
  "start_context = insert_barrier_group_state [1] plain_group (ctx_with_defaults plain_ext)"

abbreviation start_at :: "u64 \<Rightarrow> u64 \<Rightarrow> AcceptanceContext" where
  "start_at n k \<equiv> start_context\<lparr>ax_clock := \<lparr>next_tick = n, last_instant = from_ticks k\<rparr>\<rparr>"

text \<open>Anchors with an empty header, which are refused at the gate.\<close>
definition idle :: "nat \<Rightarrow> (AnchorInstanceParts \<times> hash32 \<times> header) list" where
  "idle n = replicate n (plain_parts, plain_digest, [])"

lemma idle_refused: "\<exists>e. accept_anchor V p claim [] ctx = (Inl e, snd (ticked ctx))"
proof -
  obtain now ctx0 where t: "ticked ctx = (now, ctx0)"
    by fastforce
  have "classify_anchor_type [] = RegularAnchor"
    by (simp add: classify_anchor_type_def list_ex_iff)
  then have "\<exists>e. anchor_checks V p [] ctx0 = Inl e"
    by (simp add: anchor_checks_def ensure_known_header_keys_def enforce_anchor_presence_rules_def enforce_barrier_acceptance_gating_def
      read_barrier_gate_def header_u64_or_freeze_def Let_def)
  then show ?thesis
    by (auto simp: accept_anchor_ticked [OF t] t)
qed

lemma start_window: "ax_mh_window start_context = mhw_new 16 (from_secs 120)" "ax_clock start_context = clock_new"
  by (simp_all add: start_context_def insert_barrier_group_state_def ctx_with_defaults_def ctx_with_options_def apply_fs_policy_config_def
    DEFAULT_H_MAX_def DEFAULT_T_WINDOW_def Let_def split: sum.split)

lemma prune_all_new [simp]: "prune_all (mhw_new h t) now = mhw_new h t"
  by (simp add: prune_all_def mhw_new_def)

lemma ticked_start: "ticked (start_at n k) = (from_ticks n, start_at (saturating_add n 1) n)"
proof -
  have "start_context\<lparr>ax_clock := c, ax_mh_window := mhw_new 16 (from_secs 120)\<rparr> = start_context\<lparr>ax_clock := c\<rparr>" for c
    by (simp flip: start_window(1))
  then show ?thesis
    by (simp add: ticked_def clock_tick_def start_window Let_def)
qed

lemma run_start: "anchor_run plain_verifiers (start_at 8 7)"
proof -
  have "start_at 0 0 = start_context"
    by (simp add: clock_new_def [symmetric] flip: start_window(2))
  then have init: "anchor_run plain_verifiers (start_at 0 0)"
    using anchor_run.group [OF anchor_run.new, of plain_group plain_verifiers]
    by (simp add: start_context_def ctx_with_defaults_def plain_group_def barrier_group_default_def)
  have step: "anchor_run plain_verifiers (start_at (saturating_add n 1) n)" if "anchor_run plain_verifiers (start_at n k)" for n k
    using idle_refused [of plain_verifiers plain_parts plain_digest "start_at n k"] anchor_run.anchor [OF that] by (auto simp: ticked_start)
  show ?thesis
    using step [OF step [OF step [OF step [OF step [OF step [OF step [OF step [OF init]]]]]]]] by (simp add: saturating_add_def)
qed

lemma ticked_join: "ticked (start_at 8 7) = (from_ticks 8, join_context (mhw_new 16 (from_secs 120)))"
proof -
  have "start_at 9 8 = plain_context"
    by (simp add: plain_context_def start_context_def)
  moreover have "ax_mh_window plain_context = mhw_new 16 (from_secs 120)"
    using start_window(1) by (simp flip: \<open>start_at 9 8 = plain_context\<close>)
  then have "plain_context\<lparr>ax_mh_window := mhw_new 16 (from_secs 120)\<rparr> = plain_context"
    by (simp flip: \<open>ax_mh_window plain_context = _\<close>)
  ultimately show ?thesis
    by (simp add: ticked_start saturating_add_def)
qed

lemma plain_known: "list_all (\<lambda>(k, _). is_known_header_key k False) join_header" "list_all (\<lambda>(k, _). is_known_header_key k True) (merge_header i)"
  by (simp_all add: join_header_def merge_header_def is_known_header_key_def MERGE_ONLY_KEYS_def hdr_keys)

lemma plain_kinds: "classify_anchor_type join_header = JoinAnchor" "classify_anchor_type (merge_header i) = MergeAnchor"
  by (simp_all add: classify_anchor_type_def join_header_def merge_header_def MERGE_ONLY_KEYS_def hdr_keys)

lemma plain_roots_hash:
  "validate_label ''barrier/update/digest'' = Inr ()" "validate_label ''barrier/roots'' = Inr ()"
  by (simp_all add: validate_label_def as_bytes_def)

lemma join_gate:
  "\<exists>gate. anchor_checks plain_verifiers plain_parts join_header (join_context w) = Inr (gate, None) \<and> gd_barrier_update_digest gate = zero_hash"
proof -
  have group: "barrier_group_state (join_context w) [1] = Some plain_group"
    using plain_context_group by (simp add: barrier_group_state_def)
  have "read_barrier_gate plain_verifiers (join_context w) [1] join_header =
      Inr \<lparr>gd_barrier_version = 3, gd_fs_ec = 6, gd_revocation_roots_hash = plain_digest, gd_barrier_update_digest = zero_hash,
        gd_barrier_update_reason = None, gd_parsed_barrier_update = None\<rparr>"
    by (simp add: read_barrier_gate_def group header_u64_or_freeze_def join_header_def hdr_keys
      u64_try_from_def parse_barrier_update_reason_def compute_barrier_update_digest_def compute_revocation_roots_hash_def
      header_bytes32_or_freeze_def value_bytes32_def plain_h_l plain_roots_hash)
  then have "enforce_barrier_acceptance_gating plain_verifiers (join_context w) [1] join_header JoinAnchor =
      Inr \<lparr>gd_barrier_version = 3, gd_fs_ec = 6, gd_revocation_roots_hash = plain_digest, gd_barrier_update_digest = zero_hash,
        gd_barrier_update_reason = None, gd_parsed_barrier_update = None\<rparr>"
    by (simp add: enforce_barrier_acceptance_gating_def group plain_group_def barrier_group_default_def gate_proactive_def)
  then show ?thesis
    by (simp add: anchor_checks_def plain_kinds ensure_known_header_keys_def is_merge_anchor_def plain_known enforce_anchor_presence_rules_def
      join_header_def [THEN arg_cong [of _ _ bt_get]] plain_parts_def parse_mh_note_def hdr_keys MAX_HP_PROOF_BYTES_def Let_def BARRIER_LEAF_PUBLIC_KEY_BYTES_def)
qed


lemma merge_gate:
  "\<exists>gate. anchor_checks plain_verifiers plain_parts (merge_header 9) (merge_context w) = Inr (gate, None)"
proof -
  have group: "barrier_group_state (merge_context w) [1] = Some plain_group"
    using plain_context_group by (simp add: barrier_group_state_def)
  have "bt_get (merge_header 9) HDR_BARRIER_UPDATE = Some (CBytes [9])"
    by (simp add: merge_header_def hdr_keys)
  note parse = plain_parse_update [OF this, of 1048576]
  then obtain gate where "read_barrier_gate plain_verifiers (merge_context w) [1] (merge_header 9) = Inr gate"
      "gd_barrier_version gate = 4" "gd_fs_ec gate = 9" "gd_revocation_roots_hash gate = plain_digest" "gd_barrier_update_reason gate = Some 1"
      "\<exists>p. gd_parsed_barrier_update gate = Some p \<and> pb_barrier_version p = 4 \<and> pb_prev_barrier_version p = 3 \<and>
        pb_revocation_roots_hash p = plain_digest"
    by (simp add: read_barrier_gate_def group header_u64_or_freeze_def merge_header_def hdr_keys
      u64_try_from_def parse_barrier_update_reason_def compute_barrier_update_digest_def compute_revocation_roots_hash_def
      header_bytes32_or_freeze_def value_bytes32_def plain_h_l plain_roots_hash plain_group_def barrier_group_default_def)
  moreover have "bt_get (merge_header 9) HDR_POP_PK = None"
    by (simp add: merge_header_def hdr_keys)
  ultimately have "enforce_barrier_acceptance_gating plain_verifiers (merge_context w) [1] (merge_header 9) MergeAnchor = Inr gate"
    by (auto simp: enforce_barrier_acceptance_gating_def group plain_group_def barrier_group_default_def gate_proactive_def update_steps_def
      check_pcs_rate_def saturating_add_def)
  then show ?thesis
    by (simp add: anchor_checks_def plain_kinds ensure_known_header_keys_def is_merge_anchor_def plain_known enforce_anchor_presence_rules_def
      merge_header_def [THEN arg_cong [of _ _ bt_get]] plain_parts_def parse_mh_note_def hdr_keys MAX_HP_PROOF_BYTES_def Let_def)
qed


lemma join_taken:
  obtains out ctx' r where "accept_anchor plain_verifiers plain_parts plain_digest join_header (start_at 8 7) = (Inr out, ctx')"
    "window (ax_mh_window ctx') plain_digest = [r]"
proof -
  obtain gate where gate: "anchor_checks plain_verifiers plain_parts join_header (join_context (mhw_new 16 (from_secs 120))) = Inr (gate, None)"
      "gd_barrier_update_digest gate = zero_hash"
    using join_gate by blast
  obtain out u where run: "accept_anchor_join plain_verifiers plain_parts plain_digest join_header None zero_hash (from_ticks 8)
      (join_context (mhw_new 16 (from_secs 120))) = (Inr out, u)"
    by (rule plain_run [of "mhw_new 16 (from_secs 120)" "from_ticks 8"]) simp_all
  let ?ctx' = "apply_barrier_acceptance_commit (ap_gid plain_parts) join_header gate u"
  have anchor: "accept_anchor plain_verifiers plain_parts plain_digest join_header (start_at 8 7) = (Inr out, ?ctx')"
    using run by (simp add: accept_anchor_ticked [OF ticked_join] gate dispatch_anchor_def is_merge_anchor_def plain_kinds)
  obtain c ctxm pf w n root where j: "join_validate plain_verifiers plain_parts plain_digest join_header zero_hash (from_ticks 8)
        (join_context (mhw_new 16 (from_secs 120))) = (Inr c, ctxm)" "core_frame (join_context (mhw_new 16 (from_secs 120))) ctxm"
      "accept_head (ax_mh_window ctxm) (ji_wid (jc_ids c)) (join_record plain_parts (jc_rho_commit c) (jc_seed c) (jc_ids c) (jc_seq c) (from_ticks 8))
        (from_ticks 8) = (Inr (), w)"
      "u = insert_pivot_parity (join_pivot plain_ext plain_parts join_header (jc_parent_root c) (jc_rho_commit c) (jc_seed c) (jc_fs c)
        (jc_ids c) (jc_proofs c) (jc_seq c) pf root) (from_ticks 8)
        (telemetry_record_success (jc_key c) n ((join_advanced plain_parts c ctxm)\<lparr>ax_mh_window := w\<rparr>))"
    using run by (rule join_accepted_run) simp
  have "ji_wid (jc_ids c) = plain_digest"
    using join_ids_Inr(5) [OF join_validate_Inr(3) [OF j(1)]] by (simp add: plain_hashes)
  then show thesis
    using that [OF anchor] join_taken_state(3) [OF j(2) join_validate_fields(3) [OF j(1)] j(3,4), of plain_digest] by (simp add: commit_fields)
qed

text \<open>A merge of the head of a window, in a context that satisfies the invariant.\<close>
abbreviation merge_start :: AcceptanceContext where
  "merge_start \<equiv> (merge_context one_head_window)\<lparr>ax_clock := \<lparr>next_tick = 8, last_instant = from_ticks 7\<rparr>\<rparr>"

lemma one_head_windows: "window one_head_window wid = (if wid = plain_digest then [plain_head] else [])"
  by (simp add: one_head_window_def window_eval plain_head_def)

lemma merge_start_ok: "context_ok plain_ext merge_start"
proof -
  have "mhw_inv one_head_window" "windows_bounded one_head_window"
    unfolding one_head_window_def using mhw_inv_accept_head [OF mhw_inv_new] bounded_accept_head
    by (simp_all add: windows_bounded_def [of "mhw_new _ _"])
  moreover have "head_ok plain_ext (ax_clock merge_start) plain_digest plain_head"
    by (simp add: head_ok_def bound_head_def plain_hashes plain_head_def from_ticks_def)
  moreover have "pivot_inv plain_store"
    unfolding plain_store_def by (rule pivot_inv_insert [OF pivot_reachable_inv [OF pivot_reachable.pivot_reachable_new]])
  moreover have "ax_barrier_groups plain_context = [[1] \<mapsto> plain_group]" "ax_device_chains plain_context = Map.empty"
    by (simp_all add: plain_context_def insert_barrier_group_state_def ctx_with_defaults_def ctx_with_options_def apply_fs_policy_config_def
      Let_def split: sum.split)
  ultimately show ?thesis
    by (auto simp: context_ok_def window_ok_def one_head_windows last_accepted_ec_def last_checkpoint_ec_def barrier_group_state_def
      device_history_def device_chain_get_def chain_tip_def device_epoch_def plain_group_def barrier_group_default_def intro!: exI [of _ "[]"])
qed

lemma ticked_merge: "ticked merge_start = (from_ticks 8, merge_context one_head_window)"
proof -
  have "prune_all one_head_window (from_ticks 8) = one_head_window"
    by (simp add: one_head_window_def window_eval plain_head_def prune_all_def)
  then show ?thesis
    by (simp add: ticked_def clock_tick_def saturating_add_def Let_def) (rule AcceptanceContext.equality, simp_all add: plain_context_def)
qed

lemma merge_taken:
  obtains out ctx' where "accept_anchor plain_verifiers plain_parts plain_digest (merge_header 9) merge_start = (Inr out, ctx')"
proof -
  obtain gate where gate: "anchor_checks plain_verifiers plain_parts (merge_header 9) (merge_context one_head_window) = Inr (gate, None)"
    using merge_gate by blast
  have heads: "parse_mh_heads (merge_header 9) = Inr (Some [plain_digest])"
    by (simp add: parse_mh_heads_def merge_header_def hdr_keys value_bytes32_def heads_increasing_def)
  have "u64_try_from 9 = Some 9"
    by (simp add: u64_try_from_def)
  then obtain out u where "accept_anchor_merge plain_verifiers plain_parts plain_digest (merge_header 9) [plain_digest] None (from_ticks 8)
      (merge_context one_head_window) = (Inr out, u)"
    using one_head_window_facts(1,2,4)
  proof (cases rule: plain_merge_run)
    case (refused r w' ctx' e)
    then show thesis
      using one_head_window_facts(5) [of r] by simp
  qed
  then show thesis
    using that by (simp add: accept_anchor_ticked [OF ticked_merge] gate dispatch_anchor_def is_merge_anchor_def plain_kinds heads)
qed

theorem anchor_run_invariant_witness:
  "\<exists>out ctx'. accept_anchor plain_verifiers plain_parts plain_digest join_header (start_at 8 7) = (Inr out, ctx') \<and>
     windows_bounded (ax_mh_window ctx') \<and> (\<exists>ls. device_history plain_ext ctx' [1] plain_pk ls)"
proof -
  obtain out ctx' r where run: "accept_anchor plain_verifiers plain_parts plain_digest join_header (start_at 8 7) = (Inr out, ctx')"
    by (rule join_taken)
  show ?thesis
    using run anchor_run_invariant [OF anchor_run.anchor [OF run_start run]] by auto
qed

theorem merge_retires_one_head_witness:
  "\<exists>out ctx'. accept_anchor plain_verifiers plain_parts plain_digest (merge_header 9) merge_start = (Inr out, ctx') \<and>
     (\<exists>hs. oc_kind out = Merge hs)"
proof -
  obtain out ctx' where run: "accept_anchor plain_verifiers plain_parts plain_digest (merge_header 9) merge_start = (Inr out, ctx')"
    by (rule merge_taken)
  show ?thesis
    using run merge_retires_one_head [OF _ run] merge_start_ok by (auto simp: is_merge_anchor_def plain_kinds)
qed

theorem accept_anchor_barrier_witness:
  "\<exists>out ctx'. accept_anchor plain_verifiers plain_parts plain_digest (merge_header 9) merge_start = (Inr out, ctx') \<and>
     barrier_step MergeAnchor (Some 1) (barrier_view merge_start [1]) (barrier_view ctx' [1])"
proof -
  obtain out ctx' where run: "accept_anchor plain_verifiers plain_parts plain_digest (merge_header 9) merge_start = (Inr out, ctx')"
    by (rule merge_taken)
  have "barrier_group_state merge_start (ap_gid plain_parts) = Some plain_group"
    using plain_context_group by (simp add: barrier_group_state_def plain_parts_def)
  moreover have "parse_barrier_update_reason (merge_header 9) = Inr (Some 1)"
    by (simp add: parse_barrier_update_reason_def merge_header_def hdr_keys u64_try_from_def)
  ultimately show ?thesis
    using run accept_anchor_barrier [OF _ run] by (auto simp: plain_kinds plain_parts_def)
qed

theorem refused_anchors_expire_heads_witness:
  "\<exists>out ctx' r rs ctx''. accept_anchor plain_verifiers plain_parts plain_digest join_header (start_at 8 7) = (Inr out, ctx') \<and>
     window (ax_mh_window ctx') plain_digest = [r] \<and> accept_anchors plain_verifiers (idle 121) ctx' = (rs, ctx'') \<and>
     window (ax_mh_window ctx'') plain_digest = []"
proof -
  obtain out ctx' r where run: "accept_anchor plain_verifiers plain_parts plain_digest join_header (start_at 8 7) = (Inr out, ctx')"
    and head: "window (ax_mh_window ctx') plain_digest = [r]"
    by (rule join_taken)
  have clock: "unat (next_tick (ax_clock ctx')) = 9" "ttl (ax_mh_window ctx') = from_secs 120"
    using accept_anchor_clock [of plain_verifiers, OF _ run] anchor_run_ok [OF run_start]
    by (simp_all add: start_window mhw_new_def)
  obtain rs ctx'' where idle: "accept_anchors plain_verifiers (idle 121) ctx' = (rs, ctx'')"
    by fastforce
  have "accept_anchors V (idle n) c = (qs, c') \<Longrightarrow> \<forall>q\<in>set qs. \<exists>e. q = Inl e" for V n c qs c'
  proof (induction n arbitrary: c qs)
    case (Suc n)
    then show ?case
      using idle_refused [of V plain_parts plain_digest c] by (fastforce simp: idle_def split: prod.splits)
  qed (simp add: idle_def)
  then have "\<forall>q\<in>set rs. \<exists>e. q = Inl e"
    using idle by blast
  then have "window (ax_mh_window ctx'') plain_digest = []"
    using refused_anchors_expire_heads [OF anchor_run.anchor [OF run_start run] idle] clock by (simp add: idle_def dur_secs_from_secs)
  then show ?thesis
    using run head idle by blast
qed

end
