(* ===== verification/Policy.thy ===== *)
theory Policy
  imports Accept
begin

text \<open>
  The policy journal of \<open>msphf-orchestrator/src/policy.rs\<close>: a list of signed payloads with strictly increasing versions, the
  document the last payload yields, and its application to the acceptance context.  JSON and CBOR encoding, base64,
  hexadecimal and RFC 3339 parsing are the parameters of \<open>PolicyExt\<close>.  The theorems say what a loaded journal guarantees,
  that a loaded document can be applied and what the context is then, and which documents block every anchor.
\<close>

section \<open>Documents\<close>

datatype PolicyError =
    PolicyParse
  | EmptyJournal
  | UnsupportedSignatureAlgorithm string
  | UnauthorizedSigner
  | InvalidPolicySignature
  | NonMonotonicVersion string string
  | InvalidLeafIdMode string
  | InvalidBase64
  | InvalidHex
  | PolicySerialization
  | InvalidHMax
  | InvalidPolicyJournalRoot
  | FsPolicyWindowIncompatible
  | InvalidSrxRoot
  | InvalidSrxEmptyRootMismatch

record PolicyTrustAnchors =
  ta_ml_dsa_public_keys :: "bytes set"

record PolicyVersion =
  pv_raw :: string
  pv_timestamp :: "int option"

record PolicyAllowList =
  al_msphf_crs_id :: "string set option"
  al_params_id :: "bytes set option"
  al_meor_vrf_id :: "string set option"
  al_proof_modes :: "string set option"
  al_srx_modes :: "string set option"

record PolicyDocument =
  pd_version :: PolicyVersion
  pd_allow :: PolicyAllowList
  pd_kbroad_registry :: "(bytes \<rightharpoonup> bytes) option"
  pd_leaf_id_mode :: LeafIdMode
  pd_proof_mode :: string
  pd_policy_journal_root :: "hash32 option"
  pd_h_max :: nat
  pd_fs_policy :: FsPolicyConfig
  pd_fs_policy_version :: string
  pd_fs_base_ts :: u64
  pd_srx_smallwood_profile :: string
  pd_srx_empty_root_sw :: hash32
  pd_srx_migration_root_sw :: "hash32 option"

text \<open>The structures of the journal file.\<close>

record PolicyAllowSer =
  as_msphf_crs_id :: "string list"
  as_params_id :: "string list"
  as_meor_vrf_id :: "string list"
  as_proof_mode :: "string list"
  as_srx_modes :: "string list"

record KbroadRegistrySer =
  kr_per_gid :: bool
  kr_keys :: "(string, string) btree"

record PolicyPayloadSer =
  py_policy_version :: string
  py_allow :: "PolicyAllowSer option"
  py_kbroad_registry :: "KbroadRegistrySer option"
  py_leaf_id_mode :: "string option"
  py_proof_mode :: "string option"
  py_policy_journal_root :: "string option"
  py_h_max :: "nat option"
  py_fs_h :: "u64 option"
  py_fs_checkpoint_interval :: "u64 option"
  py_fs_checkpoint_head_threshold :: "u64 option"
  py_fs_slack_anchor :: "u64 option"
  py_fs_slack_first :: "u64 option"
  py_fs_slack_device :: "u64 option"
  py_fs_policy_version :: "string option"
  py_fs_base_ts :: "u64 option"
  py_srx_smallwood_profile :: "string option"
  py_srx_empty_root_sw :: "string option"
  py_srx_migration_root_sw :: "string option"

record PolicySignatureSer =
  sg_algorithm :: string
  sg_public_key :: string
  sg_signature :: string

record PolicyJournalEntrySer =
  je_policy :: PolicyPayloadSer
  je_signatures :: "PolicySignatureSer list"

text \<open>The packages the journal is read with: JSON and CBOR, base64, hexadecimal, and RFC 3339 time stamps.\<close>
record PolicyExt =
  px_ext :: Ext
  px_from_json :: "bytes \<Rightarrow> PolicyJournalEntrySer list option"
  px_to_cbor :: "PolicyPayloadSer \<Rightarrow> bytes option"
  px_base64 :: "string \<Rightarrow> bytes option"
  px_hex :: "string \<Rightarrow> bytes option"
  px_rfc3339 :: "string \<Rightarrow> int option"

section \<open>Versions and signatures\<close>

definition version_parse :: "PolicyExt \<Rightarrow> string \<Rightarrow> PolicyVersion" where
  "version_parse X raw =
     (if raw = DEFAULT_POLICY_VERSION then \<lparr>pv_raw = raw, pv_timestamp = None\<rparr>
      else \<lparr>pv_raw = raw, pv_timestamp = px_rfc3339 X raw\<rparr>)"

definition is_after :: "PolicyVersion \<Rightarrow> PolicyVersion \<Rightarrow> bool" where
  "is_after v previous =
     (case (pv_timestamp v, pv_timestamp previous) of
        (Some cur, Some prev) \<Rightarrow> prev < cur
      | (Some _, None) \<Rightarrow> True
      | (None, Some _) \<Rightarrow> False
      | (None, None) \<Rightarrow> pv_raw previous < pv_raw v)"

definition serialize_payload :: "PolicyExt \<Rightarrow> PolicyPayloadSer \<Rightarrow> PolicyError + bytes" where
  "serialize_payload X payload = ok_or PolicySerialization (px_to_cbor X payload)"

definition verify_ml_dsa_65_detached_signature :: "Ext \<Rightarrow> bytes \<Rightarrow> bytes \<Rightarrow> bytes \<Rightarrow> MlDsa65VerifyError + unit" where
  "verify_ml_dsa_65_detached_signature E pk msg sig = verify_cityg_pop_signature E pk msg sig"

definition verify_ml_dsa :: "PolicyExt \<Rightarrow> PolicyTrustAnchors \<Rightarrow> bytes \<Rightarrow> PolicySignatureSer \<Rightarrow> PolicyError + bool" where
  "verify_ml_dsa X anchors message s =
     tryE (ok_or InvalidBase64 (px_base64 X (sg_public_key s))) (\<lambda>public_key.
     tryE (ok_or InvalidBase64 (px_base64 X (sg_signature s))) (\<lambda>signature.
     tryE (ensure (\<not> (length public_key \<noteq> 2592 \<or> length signature \<noteq> 4627)) InvalidPolicySignature) (\<lambda>_.
     if public_key \<notin> ta_ml_dsa_public_keys anchors then Inr False
     else tryE (map_err (\<lambda>_. InvalidPolicySignature) (verify_ml_dsa_65_detached_signature (px_ext X) public_key message signature)) (\<lambda>_.
       Inr True))))"

definition verify_signature :: "PolicyExt \<Rightarrow> PolicyTrustAnchors \<Rightarrow> bytes \<Rightarrow> PolicySignatureSer \<Rightarrow> PolicyError + bool" where
  "verify_signature X anchors message s =
     (if sg_algorithm s = ''ml-dsa-65'' \<or> sg_algorithm s = ''ML-DSA-65'' then verify_ml_dsa X anchors message s
      else Inl (UnsupportedSignatureAlgorithm (sg_algorithm s)))"

fun verify_signatures :: "PolicyExt \<Rightarrow> PolicyTrustAnchors \<Rightarrow> bytes \<Rightarrow> PolicySignatureSer list \<Rightarrow> bool \<Rightarrow> PolicyError + bool" where
  "verify_signatures X anchors message [] recognized = Inr recognized"
| "verify_signatures X anchors message (s # ss) recognized =
     tryE (verify_signature X anchors message s) (\<lambda>ok. verify_signatures X anchors message ss (if ok then True else recognized))"

section \<open>From a payload to a document\<close>

definition parse_hex32 :: "PolicyExt \<Rightarrow> string \<Rightarrow> PolicyError + hash32" where
  "parse_hex32 X value =
     tryE (ok_or InvalidHex (px_hex X value)) (\<lambda>b. if length b \<noteq> 32 then Inl InvalidSrxRoot else Inr b)"

definition none_if_empty :: "'a list \<Rightarrow> 'a set option" where
  "none_if_empty xs = (if xs = [] then None else Some (set xs))"

definition allow_list :: "PolicyExt \<Rightarrow> PolicyAllowSer \<Rightarrow> PolicyError + PolicyAllowList" where
  "allow_list X a =
     tryE (mapE (\<lambda>v. ok_or InvalidHex (px_hex X v)) (as_params_id a)) (\<lambda>params.
     Inr \<lparr>al_msphf_crs_id = none_if_empty (as_msphf_crs_id a), al_params_id = none_if_empty params,
       al_meor_vrf_id = none_if_empty (as_meor_vrf_id a), al_proof_modes = none_if_empty (as_proof_mode a),
       al_srx_modes = none_if_empty (as_srx_modes a)\<rparr>)"

fun registry_map :: "PolicyExt \<Rightarrow> (string \<times> string) list \<Rightarrow> (bytes \<rightharpoonup> bytes) \<Rightarrow> PolicyError + (bytes \<rightharpoonup> bytes)" where
  "registry_map X [] m = Inr m"
| "registry_map X ((gid_hex, key_b64) # ks) m =
     tryE (ok_or InvalidHex (px_hex X gid_hex)) (\<lambda>gid.
     tryE (ok_or InvalidBase64 (px_base64 X key_b64)) (\<lambda>key.
     registry_map X ks (m(gid \<mapsto> key))))"

definition kbroad_registry :: "PolicyExt \<Rightarrow> KbroadRegistrySer option \<Rightarrow> PolicyError + (bytes \<rightharpoonup> bytes) option" where
  "kbroad_registry X r =
     (case r of
        Some registry \<Rightarrow>
          if kr_per_gid registry then tryE (registry_map X (kr_keys registry) Map.empty) (\<lambda>m. Inr (Some m)) else Inr None
      | None \<Rightarrow> Inr None)"

definition parse_leaf_id_mode :: "string option \<Rightarrow> PolicyError + LeafIdMode" where
  "parse_leaf_id_mode m =
     (case m of
        None \<Rightarrow> Inr PerGroup
      | Some s \<Rightarrow>
          if s = ''per-group'' \<or> s = ''per_group'' then Inr PerGroup
          else if s = ''global'' then Inr Global
          else Inl (InvalidLeafIdMode s))"

definition journal_root :: "PolicyExt \<Rightarrow> string option \<Rightarrow> PolicyError + hash32 option" where
  "journal_root X r =
     (case r of
        None \<Rightarrow> Inr None
      | Some root_hex \<Rightarrow> tryE (ok_or InvalidHex (px_hex X root_hex)) (\<lambda>b.
          if length b = 32 then Inr (Some b) else Inl InvalidPolicyJournalRoot))"

abbreviation unwrap_or :: "'a option \<Rightarrow> 'a \<Rightarrow> 'a" where
  "unwrap_or v d \<equiv> (case v of None \<Rightarrow> d | Some x \<Rightarrow> x)"

definition payload_fs_policy :: "PolicyPayloadSer \<Rightarrow> FsPolicyConfig" where
  "payload_fs_policy p =
     \<lparr>fp_h = unwrap_or (py_fs_h p) (fp_h fs_policy_default),
      fp_checkpoint_interval = unwrap_or (py_fs_checkpoint_interval p) (fp_checkpoint_interval fs_policy_default),
      fp_checkpoint_head_threshold = unwrap_or (py_fs_checkpoint_head_threshold p) (fp_checkpoint_head_threshold fs_policy_default),
      fp_slack_anchor = unwrap_or (py_fs_slack_anchor p) (fp_slack_anchor fs_policy_default),
      fp_slack_first_device = unwrap_or (py_fs_slack_first p) (fp_slack_first_device fs_policy_default),
      fp_slack_device = unwrap_or (py_fs_slack_device p) (fp_slack_device fs_policy_default)\<rparr>"

definition into_document :: "PolicyExt \<Rightarrow> PolicyPayloadSer \<Rightarrow> PolicyVersion \<Rightarrow> PolicyError + PolicyDocument" where
  "into_document X p version =
     tryE (allow_list X (unwrap_or (py_allow p) \<lparr>as_msphf_crs_id = [], as_params_id = [], as_meor_vrf_id = [],
       as_proof_mode = [], as_srx_modes = []\<rparr>)) (\<lambda>allow.
     tryE (kbroad_registry X (py_kbroad_registry p)) (\<lambda>registry.
     tryE (parse_leaf_id_mode (py_leaf_id_mode p)) (\<lambda>leaf_id_mode.
     tryE (journal_root X (py_policy_journal_root p)) (\<lambda>root.
     let hm = unwrap_or (py_h_max p) DEFAULT_H_MAX; fs_policy = payload_fs_policy p;
         profile = unwrap_or (py_srx_smallwood_profile p) ''smallwood-v1/anemoi-jive-a1'' in
     tryE (ensure (hm \<noteq> 0) InvalidHMax) (\<lambda>_.
     tryE (map_err (\<lambda>_. FsPolicyWindowIncompatible) (synthesize_caps fs_policy)) (\<lambda>_.
     tryE (map_err (\<lambda>_. InvalidSrxEmptyRootMismatch) (derive_srx_empty_root_sw (px_ext X) profile)) (\<lambda>derived.
     tryE (case py_srx_empty_root_sw p of Some root_hex \<Rightarrow> parse_hex32 X root_hex | None \<Rightarrow> Inr derived) (\<lambda>empty_root.
     tryE (ensure (empty_root = derived) InvalidSrxEmptyRootMismatch) (\<lambda>_.
     tryE (case py_srx_migration_root_sw p of Some root_hex \<Rightarrow> tryE (parse_hex32 X root_hex) (\<lambda>r. Inr (Some r)) | None \<Rightarrow> Inr None)
       (\<lambda>migration.
     Inr \<lparr>pd_version = version, pd_allow = allow, pd_kbroad_registry = registry, pd_leaf_id_mode = leaf_id_mode,
       pd_proof_mode = unwrap_or (py_proof_mode p) ''lin+zkvrf'', pd_policy_journal_root = root, pd_h_max = hm,
       pd_fs_policy = fs_policy, pd_fs_policy_version = unwrap_or (py_fs_policy_version p) (pv_raw version),
       pd_fs_base_ts = unwrap_or (py_fs_base_ts p) 0, pd_srx_smallwood_profile = profile, pd_srx_empty_root_sw = empty_root,
       pd_srx_migration_root_sw = migration\<rparr>))))))))))"

section \<open>The journal\<close>

definition load_entry :: "PolicyExt \<Rightarrow> PolicyTrustAnchors \<Rightarrow> PolicyVersion option \<Rightarrow> PolicyJournalEntrySer \<Rightarrow> PolicyError + PolicyDocument" where
  "load_entry X anchors previous entry =
     tryE (serialize_payload X (je_policy entry)) (\<lambda>message.
     tryE (verify_signatures X anchors message (je_signatures entry) False) (\<lambda>ok.
     tryE (ensure ok UnauthorizedSigner) (\<lambda>_.
     let version = version_parse X (py_policy_version (je_policy entry)) in
     tryE (case previous of
             Some prev \<Rightarrow> ensure (is_after version prev) (NonMonotonicVersion (pv_raw prev) (pv_raw version))
           | None \<Rightarrow> Inr ()) (\<lambda>_.
     into_document X (je_policy entry) version))))"

fun load_entries ::
  "PolicyExt \<Rightarrow> PolicyTrustAnchors \<Rightarrow> PolicyVersion option \<Rightarrow> PolicyDocument option \<Rightarrow> PolicyJournalEntrySer list \<Rightarrow>
     PolicyError + PolicyDocument option" where
  "load_entries X anchors previous latest [] = Inr latest"
| "load_entries X anchors previous latest (entry # es) =
     tryE (load_entry X anchors previous entry) (\<lambda>document.
     load_entries X anchors (Some (pd_version document)) (Some document) es)"

definition load_policy_journal :: "PolicyExt \<Rightarrow> bytes \<Rightarrow> PolicyTrustAnchors \<Rightarrow> PolicyError + PolicyDocument" where
  "load_policy_journal X b anchors =
     tryE (ok_or PolicyParse (px_from_json X b)) (\<lambda>entries.
     tryE (ensure (entries \<noteq> []) EmptyJournal) (\<lambda>_.
     tryE (load_entries X anchors None None entries) (\<lambda>latest. ok_or EmptyJournal latest)))"

section \<open>Applying a document\<close>

definition apply_to_context :: "PolicyDocument \<Rightarrow> AcceptanceContext \<Rightarrow> (PolicyError + unit) \<times> AcceptanceContext" where
  "apply_to_context d ctx =
     (let a = pd_allow d;
          ctx = set_allowed_crs_ids (al_msphf_crs_id a) ctx;
          ctx = set_allowed_params_ids (al_params_id a) ctx;
          ctx = set_allowed_vrf_ids (al_meor_vrf_id a) ctx;
          ctx = set_allowed_proof_modes (Some (unwrap_or (al_proof_modes a) {pd_proof_mode d})) ctx;
          ctx = set_allowed_srx_modes (al_srx_modes a) ctx;
          ctx = set_leaf_id_mode (pd_leaf_id_mode d) ctx;
          ctx = ctx_set_h_max (pd_h_max d) ctx;
          ctx = set_kbroad_registry (pd_kbroad_registry d) ctx;
          ctx = set_policy_state (pv_raw (pd_version d)) (pv_timestamp (pd_version d)) ctx;
          ctx = invalidate_policy_caches ctx;
          ctx = set_allowed_fs_policy_version (Some (pd_fs_policy_version d)) ctx;
          ctx = set_fs_policy_version (Some (pd_fs_policy_version d)) ctx
      in (case apply_fs_policy_config (pd_fs_policy d) ctx of
            (Inl _, ctx) \<Rightarrow> (Inl FsPolicyWindowIncompatible, ctx)
          | (Inr _, ctx) \<Rightarrow>
              (Inr (), set_srx_migration_root_sw (pd_srx_migration_root_sw d)
                 (set_srx_empty_root_sw (pd_srx_empty_root_sw d) (set_fs_base_ts (Some (pd_fs_base_ts d)) ctx)))))"


section \<open>Lemmas\<close>

lemma is_after_trans: "is_after c b \<Longrightarrow> is_after b a \<Longrightarrow> is_after c a"
  by (auto simp: is_after_def split: option.splits)

lemma is_after_irrefl: "\<not> is_after a a"
  by (simp add: is_after_def split: option.splits)

definition entry_version :: "PolicyExt \<Rightarrow> PolicyJournalEntrySer \<Rightarrow> PolicyVersion" where
  "entry_version X e = version_parse X (py_policy_version (je_policy e))"

text \<open>An entry is endorsed when one of its signatures is a trusted key's on the encoded payload.\<close>
definition endorsed :: "PolicyExt \<Rightarrow> PolicyTrustAnchors \<Rightarrow> PolicyJournalEntrySer \<Rightarrow> bool" where
  "endorsed X anchors e \<longleftrightarrow> (\<exists>message s pk sig. px_to_cbor X (je_policy e) = Some message \<and> s \<in> set (je_signatures e) \<and>
     px_base64 X (sg_public_key s) = Some pk \<and> px_base64 X (sg_signature s) = Some sig \<and> pk \<in> ta_ml_dsa_public_keys anchors \<and>
     dilithium_verify (px_ext X) pk message sig = Inr ())"

lemma verify_signature_True:
  assumes "verify_signature X anchors message s = Inr True"
  shows "\<exists>pk sig. px_base64 X (sg_public_key s) = Some pk \<and> px_base64 X (sg_signature s) = Some sig \<and>
    pk \<in> ta_ml_dsa_public_keys anchors \<and> dilithium_verify (px_ext X) pk message sig = Inr ()"
  using assms by (auto simp: verify_signature_def verify_ml_dsa_def verify_ml_dsa_65_detached_signature_def verify_cityg_pop_signature_def
    result_simps split: if_splits)

lemma verify_signatures_True:
  "verify_signatures X anchors message ss r = Inr True \<Longrightarrow> r \<or> (\<exists>s\<in>set ss. verify_signature X anchors message s = Inr True)"
  by (induction ss arbitrary: r) (auto simp: result_simps split: if_splits)

lemma into_document_version:
  assumes "into_document X p v = Inr d"
  shows "pd_version d = v" "\<exists>caps. synthesize_caps (pd_fs_policy d) = Inr caps" "0 < pd_h_max d"
    "derive_srx_empty_root_sw (px_ext X) (pd_srx_smallwood_profile d) = Inr (pd_srx_empty_root_sw d)"
    "pd_fs_policy_version d = unwrap_or (py_fs_policy_version p) (pv_raw v)"
  using assms by (auto simp: into_document_def result_simps Let_def)

lemma load_entry_Inr:
  assumes "load_entry X anchors previous e = Inr d"
  shows "endorsed X anchors e" "into_document X (je_policy e) (entry_version X e) = Inr d"
    "case previous of None \<Rightarrow> True | Some prev \<Rightarrow> is_after (entry_version X e) prev"
proof -
  obtain message where m: "px_to_cbor X (je_policy e) = Some message" "verify_signatures X anchors message (je_signatures e) False = Inr True"
    using assms by (auto simp: load_entry_def serialize_payload_def result_simps Let_def)
  then obtain s where "s \<in> set (je_signatures e)" "verify_signature X anchors message s = Inr True"
    using verify_signatures_True by blast
  with m(1) show "endorsed X anchors e"
    using verify_signature_True unfolding endorsed_def by blast
  show "into_document X (je_policy e) (entry_version X e) = Inr d"
    "case previous of None \<Rightarrow> True | Some prev \<Rightarrow> is_after (entry_version X e) prev"
    using assms by (auto simp: load_entry_def entry_version_def result_simps Let_def split: option.splits)
qed

lemma load_entries_Inr:
  assumes "load_entries X anchors previous latest es = Inr r"
  shows "(\<forall>e\<in>set es. endorsed X anchors e) \<and> sorted_wrt (\<lambda>a b. is_after b a) (map (entry_version X) es) \<and>
    (\<forall>prev. previous = Some prev \<longrightarrow> (\<forall>e\<in>set es. is_after (entry_version X e) prev)) \<and>
    (if es = [] then r = latest else \<exists>d. r = Some d \<and> into_document X (je_policy (last es)) (entry_version X (last es)) = Inr d)"
  using assms
proof (induction es arbitrary: previous latest)
  case (Cons e es)
  then obtain d where d: "load_entry X anchors previous e = Inr d" "load_entries X anchors (Some (pd_version d)) (Some d) es = Inr r"
    by (auto simp: result_simps)
  note e = load_entry_Inr [OF d(1)]
  have v: "pd_version d = entry_version X e"
    by (rule into_document_version(1) [OF e(2)])
  from Cons.IH [OF d(2)] e v show ?case
    by (auto intro: is_after_trans split: option.splits if_splits)
qed simp

text \<open>C36: what a loaded policy journal guarantees.  Every entry carries a trusted key's valid signature on its encoded payload,
  the versions increase strictly from each entry to every later one, and the document is the last entry's.\<close>
theorem policy_journal_loaded:
  assumes "load_policy_journal X b anchors = Inr d"
  shows "\<exists>es. px_from_json X b = Some es \<and> es \<noteq> [] \<and> (\<forall>e\<in>set es. endorsed X anchors e) \<and>
    sorted_wrt (\<lambda>a b. is_after b a) (map (entry_version X) es) \<and>
    into_document X (je_policy (last es)) (entry_version X (last es)) = Inr d"
proof -
  obtain es where es: "px_from_json X b = Some es" "es \<noteq> []" "load_entries X anchors None None es = Inr (Some d)"
    using assms by (auto simp: load_policy_journal_def result_simps)
  from load_entries_Inr [OF es(3)] es(1,2) show ?thesis
    by auto
qed

section \<open>The context after a policy\<close>

lemma invalidate_fields [simp]:
  "ax_mh_window (invalidate_policy_caches ctx) = ax_mh_window ctx" "ax_allowed_crs_ids (invalidate_policy_caches ctx) = ax_allowed_crs_ids ctx"
  "ax_allowed_params_ids (invalidate_policy_caches ctx) = ax_allowed_params_ids ctx"
  "ax_allowed_vrf_ids (invalidate_policy_caches ctx) = ax_allowed_vrf_ids ctx"
  "ax_allowed_proof_modes (invalidate_policy_caches ctx) = ax_allowed_proof_modes ctx"
  "ax_allowed_srx_modes (invalidate_policy_caches ctx) = ax_allowed_srx_modes ctx"
  "ax_leaf_id_mode (invalidate_policy_caches ctx) = ax_leaf_id_mode ctx" "ax_kbroad_registry (invalidate_policy_caches ctx) = ax_kbroad_registry ctx"
  "ax_device_chains (invalidate_policy_caches ctx) = ax_device_chains ctx" "ax_barrier_groups (invalidate_policy_caches ctx) = ax_barrier_groups ctx"
  "ax_rho_guard (invalidate_policy_caches ctx) = ax_rho_guard ctx" "ax_clock (invalidate_policy_caches ctx) = ax_clock ctx"
  "ax_vck_cache (invalidate_policy_caches ctx) = vck_cache_new (ttl (ax_mh_window ctx))"
  "ax_policy_version (invalidate_policy_caches ctx) = ax_policy_version ctx"
  by (simp_all add: invalidate_policy_caches_def)

lemmas policy_setters = set_allowed_crs_ids_def set_allowed_params_ids_def set_allowed_vrf_ids_def set_allowed_proof_modes_def
  set_allowed_srx_modes_def set_leaf_id_mode_def ctx_set_h_max_def set_kbroad_registry_def set_policy_state_def
  set_allowed_fs_policy_version_def set_fs_policy_version_def set_srx_migration_root_sw_def set_srx_empty_root_sw_def set_fs_base_ts_def
  set_h_max_def apply_fs_policy_config_def

lemma apply_to_context_Inr:
  assumes "synthesize_caps (pd_fs_policy d) = Inr caps"
  shows "\<exists>ctx'. apply_to_context d ctx = (Inr (), ctx') \<and> ax_mh_window ctx' = (ax_mh_window ctx)\<lparr>h_max := pd_h_max d\<rparr> \<and>
    ax_allowed_crs_ids ctx' = al_msphf_crs_id (pd_allow d) \<and> ax_allowed_params_ids ctx' = al_params_id (pd_allow d) \<and>
    ax_allowed_vrf_ids ctx' = al_meor_vrf_id (pd_allow d) \<and>
    ax_allowed_proof_modes ctx' = Some (unwrap_or (al_proof_modes (pd_allow d)) {pd_proof_mode d}) \<and>
    ax_allowed_srx_modes ctx' = al_srx_modes (pd_allow d) \<and> ax_leaf_id_mode ctx' = pd_leaf_id_mode d \<and>
    ax_kbroad_registry ctx' = pd_kbroad_registry d \<and> ax_policy_version ctx' = pv_raw (pd_version d) \<and> ax_fs_caps ctx' = caps \<and>
    ax_allowed_fs_policy_version ctx' = Some (pd_fs_policy_version d) \<and> ax_srx_empty_root_sw ctx' = pd_srx_empty_root_sw d \<and>
    ax_vck_cache ctx' = vck_cache_new (ttl (ax_mh_window ctx)) \<and> ax_device_chains ctx' = ax_device_chains ctx \<and>
    ax_barrier_groups ctx' = ax_barrier_groups ctx \<and> ax_rho_guard ctx' = ax_rho_guard ctx \<and> ax_clock ctx' = ax_clock ctx"
  by (simp add: apply_to_context_def policy_setters assms Let_def)


text \<open>A loaded policy can be applied, and the context then carries it.  The forward-jump caps are the ones it yields, the
  verification cache is empty, the window keeps its heads under the new limit, and device chains, barriers, the replay guard
  and the clock are untouched.\<close>
theorem loaded_policy_applies:
  assumes "load_policy_journal X b anchors = Inr d"
  shows "\<exists>ctx' caps. apply_to_context d ctx = (Inr (), ctx') \<and> synthesize_caps (pd_fs_policy d) = Inr caps \<and> ax_fs_caps ctx' = caps \<and>
    ax_mh_window ctx' = (ax_mh_window ctx)\<lparr>h_max := pd_h_max d\<rparr> \<and> 0 < pd_h_max d \<and>
    ax_allowed_crs_ids ctx' = al_msphf_crs_id (pd_allow d) \<and> ax_allowed_params_ids ctx' = al_params_id (pd_allow d) \<and>
    ax_allowed_vrf_ids ctx' = al_meor_vrf_id (pd_allow d) \<and> ax_allowed_srx_modes ctx' = al_srx_modes (pd_allow d) \<and>
    ax_leaf_id_mode ctx' = pd_leaf_id_mode d \<and> ax_kbroad_registry ctx' = pd_kbroad_registry d \<and>
    ax_policy_version ctx' = pv_raw (pd_version d) \<and> vc_entries (ax_vck_cache ctx') = Map.empty \<and>
    ax_device_chains ctx' = ax_device_chains ctx \<and> ax_barrier_groups ctx' = ax_barrier_groups ctx \<and>
    ax_rho_guard ctx' = ax_rho_guard ctx \<and> ax_clock ctx' = ax_clock ctx"
proof -
  obtain es where "load_entries X anchors None None es = Inr (Some d)" "es \<noteq> []"
    using assms by (auto simp: load_policy_journal_def result_simps)
  then have doc: "into_document X (je_policy (last es)) (entry_version X (last es)) = Inr d"
    using load_entries_Inr by fastforce
  obtain caps where caps: "synthesize_caps (pd_fs_policy d) = Inr caps"
    using into_document_version(2) [OF doc] by blast
  show ?thesis
    using apply_to_context_Inr [OF caps, of ctx] caps into_document_version(3) [OF doc] by (auto simp: vck_cache_new_def)
qed

section \<open>Policies that block every anchor\<close>

lemma join_policy_version:
  assumes "join_validate V p claim h digest now ctx = (Inr c, ctxm)" "ax_allowed_fs_policy_version ctx = Some v"
  shows "\<exists>n. v = u64_to_string n"
proof -
  obtain u ua ub key where
    run: "telemetry_record_attempt (ap_gid p) (ap_parent_root p) ctx = (Inr key, u)" "join_replay_guard p (jc_rho_commit c) key now u = (Inr (), ua)"
      "join_fs_stage (ext V) p h (js_pop_pk (jc_seed c)) digest ua = (Inr (jc_fs c), ub)"
    using assms(1) by (auto simp: join_validate_def eff_simps)
  have "ax_allowed_fs_policy_version ua = Some v"
    using run(1,2) assms(2) by (auto simp: telemetry_record_attempt_def join_replay_guard_def telemetry_record_rho_freeze_def
      telemetry_entry_mut_def Let_def split: prod.splits if_splits)
  then show ?thesis
    using run(3) by (auto simp: join_fs_stage_def ensure_fs_policy_version_allowed_def eff_simps result_simps)
qed

lemma merge_policy_version:
  assumes "merge_validate V p claim h hs now ctx = (Inr c, ctxm)" "ax_allowed_fs_policy_version ctx = Some v"
  shows "\<exists>n. v = u64_to_string n"
proof -
  obtain u where "merge_fs_stage (ext V) p h ctx = (Inr (mc_fs c), u)"
    using assms(1) by (rule merge_validate_run)
  then show ?thesis
    using assms(2) by (auto simp: merge_fs_stage_def merge_fs_policy_def ensure_fs_policy_version_allowed_def eff_simps result_simps)
qed

lemma accepted_policy_version:
  assumes "accept_anchor V p claim h ctx = (Inr out, ctx')" "ax_allowed_fs_policy_version ctx = Some v"
  shows "\<exists>n. v = u64_to_string n"
proof -
  obtain now ctx0 where t: "ticked ctx = (now, ctx0)"
    by fastforce
  have v: "ax_allowed_fs_policy_version ctx0 = Some v"
    using t assms(2) by (auto simp: ticked_def Let_def split: prod.splits)
  from assms(1) t show ?thesis
  proof (cases rule: accept_anchor_cases)
    case (join gate mn u)
    then obtain c ctxm where "join_validate V p claim h (gd_barrier_update_digest gate) now ctx0 = (Inr c, ctxm)"
      by (blast elim: join_accepted_run)
    then show ?thesis
      using join_policy_version v by blast
  next
    case (merge gate mn hs u)
    then obtain c ctxm where "merge_validate V p claim h hs now ctx0 = (Inr c, ctxm)"
      by (blast elim: merge_accepted_run)
    then show ?thesis
      using merge_policy_version v by blast
  qed simp
qed

text \<open>C37: a policy that gives no forward-secrecy version is enforced with its own version string, which headers can only match
  when it is a decimal number.  After such a policy, a time stamp for instance, every anchor is refused.\<close>
theorem unversioned_policy_blocks_anchors:
  assumes "into_document X p v = Inr d" and "py_fs_policy_version p = None" and "parse_u64 (pv_raw v) = None"
    and "apply_to_context d ctx = (Inr (), ctx')"
  shows "\<exists>e. fst (accept_anchor V parts claim h ctx') = Inl e"
proof (rule ccontr)
  assume "\<nexists>e. fst (accept_anchor V parts claim h ctx') = Inl e"
  then obtain out u where run: "accept_anchor V parts claim h ctx' = (Inr out, u)"
    by (metis obj_sumE prod.collapse)
  obtain caps where "synthesize_caps (pd_fs_policy d) = Inr caps"
    using into_document_version(2) [OF assms(1)] by blast
  from apply_to_context_Inr [OF this, of ctx] assms(4) have "ax_allowed_fs_policy_version ctx' = Some (pd_fs_policy_version d)"
    by auto
  then have "ax_allowed_fs_policy_version ctx' = Some (pv_raw v)"
    using into_document_version(5) [OF assms(1)] assms(2) by simp
  then obtain n where "pv_raw v = u64_to_string n"
    using accepted_policy_version [OF run] by blast
  then show False
    using assms(3) by (simp add: parse_u64_to_string)
qed

section \<open>A concrete journal\<close>

definition plain_policy_ext :: PolicyExt where
  "plain_policy_ext = \<lparr>px_ext = plain_ext, px_from_json = (\<lambda>_. None), px_to_cbor = (\<lambda>_. Some [9]),
     px_base64 = (\<lambda>s. Some (if s = ''pk'' then plain_pk else plain_sig)), px_hex = (\<lambda>_. Some plain_digest),
     px_rfc3339 = (\<lambda>s. Some (int (length s)))\<rparr>"

definition plain_payload :: "string \<Rightarrow> PolicyPayloadSer" where
  "plain_payload v = \<lparr>py_policy_version = v, py_allow = None, py_kbroad_registry = None, py_leaf_id_mode = Some ''global'',
     py_proof_mode = None, py_policy_journal_root = None, py_h_max = Some 8, py_fs_h = None, py_fs_checkpoint_interval = None,
     py_fs_checkpoint_head_threshold = None, py_fs_slack_anchor = None, py_fs_slack_first = None, py_fs_slack_device = None,
     py_fs_policy_version = None, py_fs_base_ts = None, py_srx_smallwood_profile = None, py_srx_empty_root_sw = None,
     py_srx_migration_root_sw = None\<rparr>"

definition plain_entry :: "string \<Rightarrow> PolicyJournalEntrySer" where
  "plain_entry v = \<lparr>je_policy = plain_payload v, je_signatures = [\<lparr>sg_algorithm = ''ml-dsa-65'', sg_public_key = ''pk'', sg_signature = ''sig''\<rparr>]\<rparr>"

definition plain_journal :: PolicyExt where
  "plain_journal = plain_policy_ext\<lparr>px_from_json := (\<lambda>_. Some [plain_entry ''2025-01-01'', plain_entry ''2025-01-01T00''])\<rparr>"

lemma plain_document: "\<exists>d. into_document plain_journal (plain_payload s) v = Inr d \<and> pd_version d = v"
proof -
  have "\<exists>caps. synthesize_caps fs_policy_default = Inr caps"
    by (simp add: synthesize_caps_def fs_policy_default_def div_ceil_def checked_add_def)
  moreover have "payload_fs_policy (plain_payload s) = fs_policy_default"
    by (simp add: payload_fs_policy_def plain_payload_def)
  moreover have "derive_srx_empty_root_sw plain_ext ''smallwood-v1/anemoi-jive-a1'' = Inr plain_digest"
    by (simp add: derive_srx_empty_root_sw_def plain_h_l validate_label_def as_bytes_def)
  ultimately show ?thesis
    by (auto simp: into_document_def allow_list_def kbroad_registry_def parse_leaf_id_mode_def journal_root_def plain_journal_def plain_policy_ext_def
      plain_payload_def Let_def)
qed

abbreviation plain_anchors :: PolicyTrustAnchors where
  "plain_anchors \<equiv> \<lparr>ta_ml_dsa_public_keys = {plain_pk}\<rparr>"

lemma plain_journal_loads: "\<exists>d. load_policy_journal plain_journal [] plain_anchors = Inr d"
proof -
  have sig: "verify_signatures plain_journal plain_anchors [9] (je_signatures (plain_entry v)) False = Inr True" for v
    by (simp add: plain_entry_def verify_signature_def verify_ml_dsa_def verify_ml_dsa_65_detached_signature_def
      verify_cityg_pop_signature_def plain_journal_def plain_policy_ext_def)
  have ser: "serialize_payload plain_journal q = Inr [9]" for q
    by (simp add: serialize_payload_def plain_journal_def plain_policy_ext_def)
  obtain d where d: "into_document plain_journal (plain_payload ''2025-01-01'') (version_parse plain_journal ''2025-01-01'') = Inr d"
      "pd_version d = version_parse plain_journal ''2025-01-01''"
    using plain_document by blast
  obtain d' where d': "into_document plain_journal (plain_payload ''2025-01-01T00'') (version_parse plain_journal ''2025-01-01T00'') = Inr d'"
    using plain_document by blast
  have pol: "je_policy (plain_entry v) = plain_payload v" "py_policy_version (plain_payload v) = v" for v
    by (simp_all add: plain_entry_def plain_payload_def)
  have "is_after (version_parse plain_journal ''2025-01-01T00'') (version_parse plain_journal ''2025-01-01'')"
    by (simp add: is_after_def version_parse_def plain_journal_def plain_policy_ext_def DEFAULT_POLICY_VERSION_def)
  then have "load_entries plain_journal plain_anchors None None [plain_entry ''2025-01-01'', plain_entry ''2025-01-01T00''] = Inr (Some d')"
    by (simp add: load_entry_def ser sig pol d d')
  moreover have "px_from_json plain_journal [] = Some [plain_entry ''2025-01-01'', plain_entry ''2025-01-01T00'']"
    by (simp add: plain_journal_def)
  ultimately show ?thesis
    by (simp add: load_policy_journal_def)
qed

theorem policy_journal_loaded_witness:
  "\<exists>d es. load_policy_journal plain_journal [] plain_anchors = Inr d \<and> px_from_json plain_journal [] = Some es \<and>
     sorted_wrt (\<lambda>a b. is_after b a) (map (entry_version plain_journal) es)"
  using plain_journal_loads policy_journal_loaded [of plain_journal "[]" plain_anchors] by blast

theorem loaded_policy_applies_witness:
  "\<exists>d ctx'. load_policy_journal plain_journal [] plain_anchors = Inr d \<and> apply_to_context d plain_context = (Inr (), ctx') \<and>
     ax_barrier_groups ctx' = ax_barrier_groups plain_context"
  using plain_journal_loads loaded_policy_applies [of plain_journal "[]" plain_anchors _ plain_context] by blast

theorem unversioned_policy_blocks_anchors_witness:
  "\<exists>d ctx' e. into_document plain_journal (plain_payload ''2025-01-01'') (version_parse plain_journal ''2025-01-01'') = Inr d \<and>
     apply_to_context d (start_at 8 7) = (Inr (), ctx') \<and>
     fst (accept_anchor plain_verifiers plain_parts plain_digest join_header ctx') = Inl e"
proof -
  obtain d where d: "into_document plain_journal (plain_payload ''2025-01-01'') (version_parse plain_journal ''2025-01-01'') = Inr d"
    using plain_document by blast
  obtain caps where "synthesize_caps (pd_fs_policy d) = Inr caps"
    using into_document_version(2) [OF d] by blast
  then obtain ctx' where ctx': "apply_to_context d (start_at 8 7) = (Inr (), ctx')"
    using apply_to_context_Inr by blast
  have "py_fs_policy_version (plain_payload ''2025-01-01'') = None" "parse_u64 (pv_raw (version_parse plain_journal ''2025-01-01'')) = None"
    by (simp_all add: plain_payload_def version_parse_def DEFAULT_POLICY_VERSION_def parse_u64_def digit_of_def)
  from unversioned_policy_blocks_anchors [OF d this ctx'] d ctx' show ?thesis
    by blast
qed

end
