(* ===== verification/Receiver.thy ===== *)
theory Receiver
  imports Policy
begin

text \<open>
  What happens to an anchor around \<open>accept_anchor\<close> (\<open>msphf-orchestrator/src/lib.rs\<close> and \<open>receiver.rs\<close>): the anchor is compared
  with its header, its outcome with the binding inputs of its HP proof, its witness is validated, and the parity of the
  accepted head enters the cache of the receiver.

  The order in which an \<open>AHashMap\<close> iterates is a parameter, a function from a map to the list of its keys.  The lemmas show
  what a processed join is bound to, that processing changes nothing but the cache of verified proofs after acceptance, that
  this cache holds no proof but verified ones, each under the key it was verified for, and that the receiver's cache keeps the
  most recent entries.
\<close>

section \<open>Accepting an anchor instance\<close>

record AnchorAcceptanceResult =
  ar_outcome :: AcceptanceOutcome
  ar_pivot_parity :: PivotParity
  ar_telemetry_key :: TelemetryKey
  ar_telemetry_counters :: TelemetryCounters

definition instance_parts :: "AnchorInstance \<Rightarrow> AnchorInstanceParts" where
  "instance_parts a = \<lparr>ap_gid = ai_gid a, ap_cat = ai_cat a, ap_tswe_salt_hash = ai_tswe_salt_hash a,
     ap_parent_root = ai_parent_root a, ap_join_delta_root = ai_join_delta_root a,
     ap_revoked_since_prev_root = ai_revoked_since_prev_root a, ap_revoked_root = ai_revoked_root a,
     ap_pox_r_commit = ai_pox_r_commit a\<rparr>"

abbreviation invalid :: "string \<Rightarrow> AcceptanceError" where
  "invalid m \<equiv> Msphf (InvalidInput m)"

definition accept_anchor_or :: "Verifiers \<Rightarrow> AnchorInstance \<Rightarrow> header \<Rightarrow> AcceptanceOutcome acc" where
  "accept_anchor_or V a h =
     tryS (liftS (\<lambda>_. map_err acc_err (build_anchor_seed_ctx (ext V) h))) (\<lambda>anchor_seed_ctx.
     tryS (liftS (\<lambda>_. ensure (anchor_seed_ctx = ai_anchor_hdr_ctx a) (invalid ''anchor_hdr_ctx mismatch''))) (\<lambda>_.
     tryS (accept_anchor V (instance_parts a) (ai_we_epoch_id a) h) (\<lambda>outcome.
     tryS (liftS (\<lambda>_. ok_or (invalid ''missing msphf_hp_commit'') (ai_msphf_hp_commit a))) (\<lambda>commit.
     tryS (liftS (\<lambda>_. ensure (commit = oc_hp_commit outcome) (invalid ''msphf_hp_commit mismatch''))) (\<lambda>_.
     liftS (\<lambda>_. Inr outcome))))))"

section \<open>Witnesses\<close>

datatype WitnessVariants =
    VariantA RawMembershipWitness "RawPopWitness option"
  | VariantB RawMembershipWitness "RawNonMembershipWitness option" "RawPopWitness option"

record ValidatedWitness =
  vw_mode_a :: bool
  vw_membership :: ValidatedMembership
  vw_nonmembership :: "ValidatedNonMembership option"
  vw_pop :: "ValidatedPop option"

definition opt_validate :: "('a \<Rightarrow> 'e + 'b) \<Rightarrow> 'a option \<Rightarrow> 'e + 'b option" where
  "opt_validate f v = (case v of None \<Rightarrow> Inr None | Some x \<Rightarrow> tryE (f x) (\<lambda>y. Inr (Some y)))"

fun validate_against :: "Ext \<Rightarrow> WitnessVariants \<Rightarrow> AnchorInstance \<Rightarrow> MsphfError + ValidatedWitness" where
  "validate_against E (VariantA w pop) a =
     tryE (to_array32 (ai_parent_root a)) (\<lambda>expected.
     tryE (validate_membership_against (rpo E) w expected) (\<lambda>m.
     tryE (opt_validate (validate_pop E a m) pop) (\<lambda>p.
     Inr \<lparr>vw_mode_a = True, vw_membership = m, vw_nonmembership = None, vw_pop = p\<rparr>)))"
| "validate_against E (VariantB w nonmem pop) a =
     tryE (to_array32 (ai_join_delta_root a)) (\<lambda>expected.
     tryE (validate_membership_against (rpo E) w expected) (\<lambda>m.
     tryE (opt_validate (\<lambda>n. tryE (to_array32 (ai_revoked_root a)) (validate_nonmembership_against (rpo E) n)) nonmem) (\<lambda>nm.
     tryE (opt_validate (validate_pop E a m) pop) (\<lambda>p.
     Inr \<lparr>vw_mode_a = False, vw_membership = m, vw_nonmembership = nm, vw_pop = p\<rparr>))))"

text \<open>The decoder of a canonical witness is a parameter.\<close>
definition parse_validated_witness ::
  "Ext \<Rightarrow> (bytes \<Rightarrow> WitnessVariants option) \<Rightarrow> AnchorInstance \<Rightarrow> bytes \<Rightarrow> MsphfError + ValidatedWitness option" where
  "parse_validated_witness E de a w =
     (if w = [] then Inr None
      else tryE (ok_or (Witness CborMalformed) (de w)) (\<lambda>canonical.
           tryE (validate_against E canonical a) (\<lambda>v. Inr (Some v))))"


section \<open>The parity of an accepted head\<close>

definition text_or :: "header \<Rightarrow> u64 \<Rightarrow> string \<Rightarrow> string" where
  "text_or h k d = (case bt_get h k of Some (CText t) \<Rightarrow> t | _ \<Rightarrow> d)"

definition bytes_or_empty :: "header \<Rightarrow> u64 \<Rightarrow> bytes" where
  "bytes_or_empty h k = (case bt_get h k of Some (CBytes b) \<Rightarrow> b | _ \<Rightarrow> [])"

definition bytes32_opt :: "header \<Rightarrow> u64 \<Rightarrow> hash32 option" where
  "bytes32_opt h k = (case bt_get h k of Some (CBytes b) \<Rightarrow> if length b = 32 then Some b else None | _ \<Rightarrow> None)"

definition suite_bytes :: "header \<Rightarrow> u64 \<Rightarrow> bytes" where
  "suite_bytes h k = (case bt_get h k of Some (CBytes b) \<Rightarrow> b | Some (CText t) \<Rightarrow> as_bytes t | _ \<Rightarrow> [])"

definition policy_version_text :: "header \<Rightarrow> string" where
  "policy_version_text h =
     (case bt_get h HDR_FS_POLICY_VERSION of
        Some (CInt i) \<Rightarrow> (case u64_try_from i of Some v \<Rightarrow> u64_to_string v | None \<Rightarrow> DEFAULT_POLICY_VERSION)
      | _ \<Rightarrow> DEFAULT_POLICY_VERSION)"

definition hp_envelope_bytes :: "Ext \<Rightarrow> header \<Rightarrow> bytes" where
  "hp_envelope_bytes E h =
     (case Option.bind (bt_get h HDR_HP_BYTES) (\<lambda>v. case to_cbor_vec E v of Inr b \<Rightarrow> Some b | Inl _ \<Rightarrow> None) of
        Some b \<Rightarrow> b | None \<Rightarrow> [])"

definition root32 :: "string \<Rightarrow> bytes \<Rightarrow> AcceptanceError + hash32" where
  "root32 label b = (if length b \<noteq> 32 then Inl (invalid label) else Inr b)"

definition extracted_parity :: "Ext \<Rightarrow> AnchorInstance \<Rightarrow> header \<Rightarrow> AcceptanceOutcome \<Rightarrow> AcceptanceError + PivotParity" where
  "extracted_parity E a h out =
     tryE (root32 ''join_delta_root'' (ai_join_delta_root a)) (\<lambda>join_delta_root.
     tryE (root32 ''revoked_since_prev_root'' (ai_revoked_since_prev_root a)) (\<lambda>revoked_since_root.
     tryE (root32 ''revoked_root'' (ai_revoked_root a)) (\<lambda>revoked_root.
     Inr \<lparr>pp_gid = ai_gid a, pp_cat = ai_cat a, pp_parent_root = ai_parent_root a, pp_we_epoch_id = oc_we_epoch_id out,
       pp_rho_commit = oc_rho_commit out, pp_seed_ctx_hash = oc_seed_ctx_hash out, pp_seed_commit = oc_seed_commit out,
       pp_hp_commit = oc_hp_commit out, pp_xk_hash = oc_xk_hash out, pp_join_delta_root = join_delta_root,
       pp_revoked_since_root = revoked_since_root, pp_revoked_root = revoked_root, pp_accept_seq = oc_accept_seq out,
       pp_crs_id = suite_bytes h HDR_CRS_ID, pp_params_id = suite_bytes h HDR_PARAMS_ID,
       pp_policy_version = policy_version_text h, pp_proof_mode = text_or h HDR_PROOF_MODE DEFAULT_PROOF_MODE,
       pp_vrf_id = text_or h HDR_VRF_ID DEFAULT_VRF_ID, pp_vrf_proof = bytes_or_empty h HDR_VRF_PROOF,
       pp_vrf_public = bytes_or_empty h HDR_VRF_PUBLIC_KEY,
       pp_mask_a = (case bytes32_opt h HDR_VRF_MASK_A of Some m \<Rightarrow> m | None \<Rightarrow> zero_hash),
       pp_mask_b = (case bytes32_opt h HDR_VRF_MASK_B of Some m \<Rightarrow> m | None \<Rightarrow> zero_hash),
       pp_fs_capss = bytes_or_empty h HDR_FS_CAPSS,
       pp_proofs_commit = (case bytes32_opt h HDR_PROOFS_COMMIT of Some m \<Rightarrow> m | None \<Rightarrow> zero_hash),
       pp_srx_commit = bytes32_opt h HDR_SRX_COMMIT, pp_srx_root_sw = bytes32_opt h HDR_SRX_ROOT_SW,
       pp_is_join = (oc_kind out = NonMerge), pp_hp_envelope = hp_envelope_bytes E h,
       pp_fs_epoch_commit = oc_fs_epoch_commit out, pp_fs_ec = oc_fs_ec out, pp_fs_dev_commit = oc_fs_dev_commit out\<rparr>)))"

section \<open>Extraction\<close>

definition ctx_should_verify_hp :: "Ext \<Rightarrow> HpBindingInputs \<Rightarrow> HpProof \<Rightarrow> header \<Rightarrow> AcceptInstant \<Rightarrow> bool acc" where
  "ctx_should_verify_hp E b proof h now ctx =
     (case compute_vck_key E (hb_xk_hash b) (hb_seed_commit b) (hb_rho_commit b) (hb_hp_commit b) h of
        Inl e \<Rightarrow> (Inl e, ctx)
      | Inr key \<Rightarrow> (case should_verify_hp (ax_vck_cache ctx) key proof now of
            (v, c) \<Rightarrow> (Inr v, ctx\<lparr>ax_vck_cache := c\<rparr>)))"

definition record_verified_hp :: "Ext \<Rightarrow> HpBindingInputs \<Rightarrow> HpProof \<Rightarrow> header \<Rightarrow> AcceptInstant \<Rightarrow> unit acc" where
  "record_verified_hp E b proof h now ctx =
     (case compute_vck_key E (hb_xk_hash b) (hb_seed_commit b) (hb_rho_commit b) (hb_hp_commit b) h of
        Inl e \<Rightarrow> (Inl e, ctx)
      | Inr key \<Rightarrow> (Inr (), ctx\<lparr>ax_vck_cache := record_hp (ax_vck_cache ctx) key proof now\<rparr>))"

definition check_binding :: "Ext \<Rightarrow> AnchorInstance \<Rightarrow> HpBindingInputs \<Rightarrow> AcceptanceOutcome \<Rightarrow> AcceptanceError + unit" where
  "check_binding E a b out =
     tryE (ensure (hb_seed_ctx_hash b = oc_seed_ctx_hash out) (invalid ''seed_ctx_hash mismatch'')) (\<lambda>_.
     tryE (ensure (hb_seed_commit b = oc_seed_commit out) (invalid ''seed_commit mismatch'')) (\<lambda>_.
     tryE (ensure (hb_rho_commit b = oc_rho_commit out) (invalid ''rho_commit mismatch'')) (\<lambda>_.
     tryE (ensure (hb_hp_commit b = oc_hp_commit out) (invalid ''hp_commit mismatch'')) (\<lambda>_.
     tryE (map_err acc_err (xk_hash E a)) (\<lambda>anchor_xk_hash.
     ensure (anchor_xk_hash = hb_xk_hash b) (invalid ''xk_hash mismatch''))))))"

definition accept_and_extract_or ::
  "Verifiers \<Rightarrow> (bytes \<Rightarrow> WitnessVariants option) \<Rightarrow> AnchorInstance \<Rightarrow> header \<Rightarrow> HpProof \<Rightarrow> HpBindingInputs \<Rightarrow> bytes \<Rightarrow>
     AnchorAcceptanceResult acc" where
  "accept_and_extract_or V de a h proof b witness =
     tryS (accept_anchor_or V a h) (\<lambda>outcome.
     let key = telemetry_key (ai_gid a) (ai_parent_root a) in
     tryS (getS (\<lambda>ctx. case ax_telemetry ctx key of Some t \<Rightarrow> t | None \<Rightarrow> telemetry_default)) (\<lambda>counters.
     tryS (liftS (\<lambda>_. extracted_parity (ext V) a h outcome)) (\<lambda>parity.
     let result = \<lparr>ar_outcome = outcome, ar_pivot_parity = parity, ar_telemetry_key = key, ar_telemetry_counters = counters\<rparr> in
     if oc_kind outcome \<noteq> NonMerge then liftS (\<lambda>_. Inr result)
     else
       tryS (liftS (\<lambda>_. check_binding (ext V) a b outcome)) (\<lambda>_.
       tryS (liftS (\<lambda>_. map_err acc_err (parse_validated_witness (ext V) de a witness))) (\<lambda>_.
       tryS (ctx_should_verify_hp (ext V) b proof h (oc_accept_time outcome)) (\<lambda>should_verify.
       tryS (if should_verify
             then tryS (liftS (\<lambda>_. map_err acc_err (verify_hp_k (ext V) b proof))) (\<lambda>_.
                  record_verified_hp (ext V) b proof h (oc_accept_time outcome))
             else liftS (\<lambda>_. Inr ())) (\<lambda>_.
       liftS (\<lambda>_. Inr result))))))))"

section \<open>The cache\<close>

definition FREEZE_MH_PARENT_MISMATCH :: FreezeError where
  "FREEZE_MH_PARENT_MISMATCH = \<lparr>fe_code = 926, fe_reason = ''mh_parent_mismatch''\<rparr>"

record CacheEntry =
  ce_parent_root :: hash32
  ce_wid :: hash32
  ce_pivot_parity :: PivotParity
  ce_accept_time :: AcceptInstant

datatype ReceiverError = ReceiverFreeze FreezeError | EpochExpired | UnknownHead | ReceiverMsphf MsphfError

record ReceiverCache =
  rc_ttl :: Duration
  rc_max_entries :: nat
  rc_entries :: "hash32 \<rightharpoonup> CacheEntry"

definition receiver_new :: "Duration \<Rightarrow> ReceiverCache" where
  "receiver_new d = \<lparr>rc_ttl = d, rc_max_entries = 100000, rc_entries = Map.empty\<rparr>"

definition entry_expired :: "Duration \<Rightarrow> AcceptInstant \<Rightarrow> CacheEntry \<Rightarrow> bool" where
  "entry_expired d now e \<longleftrightarrow> \<not> dur_le (duration_since now (ce_accept_time e)) d"

definition receiver_prune :: "ReceiverCache \<Rightarrow> AcceptInstant \<Rightarrow> hash32 option \<Rightarrow> bool \<times> ReceiverCache" where
  "receiver_prune c now target =
     (case target of None \<Rightarrow> False
      | Some we \<Rightarrow> (case rc_entries c we of Some e \<Rightarrow> entry_expired (rc_ttl c) now e | None \<Rightarrow> False),
      c\<lparr>rc_entries := (\<lambda>we. case rc_entries c we of Some e \<Rightarrow> if entry_expired (rc_ttl c) now e then None else Some e | None \<Rightarrow> None)\<rparr>)"

definition receiver_insert :: "ReceiverCache \<Rightarrow> AnchorAcceptanceResult \<Rightarrow> ReceiverCache" where
  "receiver_insert c a = c\<lparr>rc_entries := (rc_entries c)(oc_we_epoch_id (ar_outcome a) \<mapsto>
     \<lparr>ce_parent_root = pp_parent_root (ar_pivot_parity a), ce_wid = oc_wid (ar_outcome a),
      ce_pivot_parity = ar_pivot_parity a, ce_accept_time = oc_accept_time (ar_outcome a)\<rparr>)\<rparr>"

text \<open>\<open>Iterator::min_by_key\<close> keeps the first of several minima.\<close>
fun oldest :: "(hash32 \<rightharpoonup> CacheEntry) \<Rightarrow> hash32 list \<Rightarrow> hash32 option" where
  "oldest m [] = None"
| "oldest m (k # ks) =
     (case oldest m ks of None \<Rightarrow> Some k
      | Some k' \<Rightarrow> if ticks (ce_accept_time (the (m k'))) < ticks (ce_accept_time (the (m k))) then Some k' else Some k)"

text \<open>The loop removes an entry in every round, so the number of entries is enough fuel.\<close>
primrec evict ::
  "((hash32 \<rightharpoonup> CacheEntry) \<Rightarrow> hash32 list) \<Rightarrow> nat \<Rightarrow> nat \<Rightarrow> (hash32 \<rightharpoonup> CacheEntry) \<Rightarrow> (hash32 \<rightharpoonup> CacheEntry)" where
  "evict iter 0 limit m = m"
| "evict iter (Suc k) limit m =
     (if length (iter m) \<le> limit then m
      else case oldest m (iter m) of None \<Rightarrow> m | Some w \<Rightarrow> evict iter k limit (m(w := None)))"

definition enforce_max_entries :: "((hash32 \<rightharpoonup> CacheEntry) \<Rightarrow> hash32 list) \<Rightarrow> ReceiverCache \<Rightarrow> ReceiverCache" where
  "enforce_max_entries iter c =
     (if rc_max_entries c = 0 then c\<lparr>rc_entries := Map.empty\<rparr>
      else c\<lparr>rc_entries := evict iter (length (iter (rc_entries c))) (rc_max_entries c) (rc_entries c)\<rparr>)"

definition receiver_set_ttl :: "((hash32 \<rightharpoonup> CacheEntry) \<Rightarrow> hash32 list) \<Rightarrow> Duration \<Rightarrow> AcceptInstant \<Rightarrow> ReceiverCache \<Rightarrow> ReceiverCache" where
  "receiver_set_ttl iter d now c = enforce_max_entries iter (snd (receiver_prune (c\<lparr>rc_ttl := d\<rparr>) now None))"

definition receiver_set_max_entries :: "((hash32 \<rightharpoonup> CacheEntry) \<Rightarrow> hash32 list) \<Rightarrow> nat \<Rightarrow> AcceptInstant \<Rightarrow> ReceiverCache \<Rightarrow> ReceiverCache" where
  "receiver_set_max_entries iter n now c = enforce_max_entries iter (snd (receiver_prune (c\<lparr>rc_max_entries := n\<rparr>) now None))"

definition apply_acceptance :: "((hash32 \<rightharpoonup> CacheEntry) \<Rightarrow> hash32 list) \<Rightarrow> ReceiverCache \<Rightarrow> AnchorAcceptanceResult \<Rightarrow> ReceiverCache" where
  "apply_acceptance iter c a =
     (let c = snd (receiver_prune c (oc_accept_time (ar_outcome a)) None);
          c = (case oc_kind (ar_outcome a) of
                 NonMerge \<Rightarrow> receiver_insert c a
               | Merge retired \<Rightarrow> receiver_insert (c\<lparr>rc_entries := fold (\<lambda>head m. m(head := None)) retired (rc_entries c)\<rparr>) a)
      in enforce_max_entries iter c)"

fun head_parities :: "(hash32 \<rightharpoonup> CacheEntry) \<Rightarrow> hash32 \<Rightarrow> hash32 list \<Rightarrow> ReceiverError + PivotParity list" where
  "head_parities m parent_root [] = Inr []"
| "head_parities m parent_root (head # hs) =
     tryE (ok_or UnknownHead (m head)) (\<lambda>entry.
     tryE (ensure (ce_parent_root entry = parent_root) (ReceiverFreeze FREEZE_MH_PARENT_MISMATCH)) (\<lambda>_.
     tryE (head_parities m parent_root hs) (\<lambda>ps. Inr (ce_pivot_parity entry # ps))))"

definition parities_for_heads ::
  "hash32 \<Rightarrow> hash32 list \<Rightarrow> AcceptInstant \<Rightarrow> ReceiverCache \<Rightarrow> (ReceiverError + PivotParity list) \<times> ReceiverCache" where
  "parities_for_heads parent_root hs now c =
     (let c = snd (receiver_prune c now None) in (head_parities (rc_entries c) parent_root hs, c))"

definition wid_for_head :: "hash32 \<Rightarrow> AcceptInstant \<Rightarrow> ReceiverCache \<Rightarrow> hash32 option \<times> ReceiverCache" where
  "wid_for_head we now c =
     (case receiver_prune c now (Some we) of (target_expired, c) \<Rightarrow>
        (if target_expired then None else map_option ce_wid (rc_entries c we), c))"

definition process_anchor_or ::
  "Verifiers \<Rightarrow> (bytes \<Rightarrow> WitnessVariants option) \<Rightarrow> ((hash32 \<rightharpoonup> CacheEntry) \<Rightarrow> hash32 list) \<Rightarrow> AnchorInstance \<Rightarrow> header \<Rightarrow>
     HpProof \<Rightarrow> HpBindingInputs \<Rightarrow> bytes \<Rightarrow> (AcceptanceContext \<times> ReceiverCache, AcceptanceError, AnchorAcceptanceResult) eff" where
  "process_anchor_or V de iter a h proof b witness s =
     (case accept_and_extract_or V de a h proof b witness (fst s) of
        (Inl e, ctx) \<Rightarrow> (Inl e, (ctx, snd s))
      | (Inr acceptance, ctx) \<Rightarrow> (Inr acceptance, (ctx, apply_acceptance iter (snd s) acceptance)))"


section \<open>Lemmas on eviction\<close>

definition iterates :: "((hash32 \<rightharpoonup> CacheEntry) \<Rightarrow> hash32 list) \<Rightarrow> bool" where
  "iterates iter \<longleftrightarrow> (\<forall>m. finite (dom m) \<longrightarrow> set (iter m) = dom m \<and> distinct (iter m))"

abbreviation age :: "(hash32 \<rightharpoonup> CacheEntry) \<Rightarrow> hash32 \<Rightarrow> u64" where
  "age m k \<equiv> ticks (ce_accept_time (the (m k)))"

lemma oldest_None [simp]: "oldest m ks = None \<longleftrightarrow> ks = []"
  by (cases ks) (auto split: option.splits)

lemma oldest_min: "oldest m ks = Some w \<Longrightarrow> w \<in> set ks \<and> (\<forall>k\<in>set ks. age m w \<le> age m k)"
proof (induction ks arbitrary: w)
  case (Cons a ks)
  show ?case
  proof (cases "oldest m ks")
    case None
    then show ?thesis
      using Cons(2) by simp
  next
    case (Some k)
    from Cons(1) [OF this] have k: "k \<in> set ks" "\<And>x. x \<in> set ks \<Longrightarrow> age m k \<le> age m x"
      by blast+
    show ?thesis
      using Cons(2) Some k by (cases "age m k < age m a") (auto dest: k(2))
  qed
qed simp

text \<open>What an eviction leaves: entries of the map, no more than the limit, and none older than one that was dropped.\<close>
definition kept_recent :: "nat \<Rightarrow> (hash32 \<rightharpoonup> CacheEntry) \<Rightarrow> (hash32 \<rightharpoonup> CacheEntry) \<Rightarrow> bool" where
  "kept_recent limit m m' \<longleftrightarrow> m' \<subseteq>\<^sub>m m \<and> card (dom m') = min limit (card (dom m)) \<and>
     (\<forall>k\<in>dom m - dom m'. \<forall>k'\<in>dom m'. age m k \<le> age m k')"

lemma evict_recent:
  assumes "iterates iter" "finite (dom m)" "card (dom m) \<le> fuel"
  shows "kept_recent limit m (evict iter fuel limit m)"
  using assms(2,3)
proof (induction fuel arbitrary: m)
  case 0
  then show ?case
    by (simp add: kept_recent_def)
next
  case (Suc fuel)
  have iter: "set (iter m) = dom m" "length (iter m) = card (dom m)"
    using assms(1) Suc(2) by (auto simp: iterates_def) (metis distinct_card)
  show ?case
  proof (cases "card (dom m) \<le> limit")
    case True
    then show ?thesis
      using iter(2) by (simp add: kept_recent_def min_absorb2)
  next
    case False
    then obtain w where w: "oldest m (iter m) = Some w"
      using iter(2) by (cases "oldest m (iter m)") auto
    then have min: "w \<in> dom m" "\<And>k. k \<in> dom m \<Longrightarrow> age m w \<le> age m k"
      using oldest_min iter(1) by blast+
    let ?m = "m(w := None)"
    have card: "card (dom ?m) = card (dom m) - 1"
      using min(1) Suc(2) by simp
    have "finite (dom ?m)" "card (dom ?m) \<le> fuel"
      using Suc(2) by simp (use card Suc(3) in linarith)
    then have "kept_recent limit ?m (evict iter fuel limit ?m)"
      by (rule Suc.IH)
    then have k: "evict iter fuel limit ?m \<subseteq>\<^sub>m ?m" "card (dom (evict iter fuel limit ?m)) = min limit (card (dom m) - 1)"
        "\<And>k k'. k \<in> dom ?m - dom (evict iter fuel limit ?m) \<Longrightarrow> k' \<in> dom (evict iter fuel limit ?m) \<Longrightarrow> age ?m k \<le> age ?m k'"
      using card by (auto simp: kept_recent_def)
    have "age m a \<le> age m b" if "a \<in> dom m - dom (evict iter fuel limit ?m)" "b \<in> dom (evict iter fuel limit ?m)" for a b
    proof -
      have b: "b \<in> dom m" "b \<noteq> w"
        using that(2) map_le_implies_dom_le [OF k(1)] by auto
      show ?thesis
      proof (cases "a = w")
        case True
        then show ?thesis
          using min(2) b(1) by simp
      next
        case False
        then show ?thesis
          using k(3) [of a b] that b by simp
      qed
    qed
    moreover have "evict iter fuel limit ?m \<subseteq>\<^sub>m m"
      by (rule map_le_trans [OF k(1)]) (auto simp: map_le_def)
    ultimately show ?thesis
      using False w k(2) iter(2) by (auto simp: kept_recent_def)
  qed
qed


section \<open>The cached HP proofs\<close>

definition vck_of :: "Ext \<Rightarrow> HpBindingInputs \<Rightarrow> header \<Rightarrow> AcceptanceError + hash32" where
  "vck_of E b h = compute_vck_key E (hb_xk_hash b) (hb_seed_commit b) (hb_rho_commit b) (hb_hp_commit b) h"

definition cached_proof :: "VckCache \<Rightarrow> hash32 \<Rightarrow> HpProof option" where
  "cached_proof c key = Option.bind (vc_entries c key) ve_hp_proof"

text \<open>Every cached proof was verified for binding inputs and a header with the key it is cached under.\<close>
definition hp_sound :: "Ext \<Rightarrow> VckCache \<Rightarrow> bool" where
  "hp_sound E c \<longleftrightarrow> (\<forall>key proof. cached_proof c key = Some proof \<longrightarrow>
     (\<exists>b h. vck_of E b h = Inr key \<and> verify_hp_k E b proof = Inr ()))"

definition proofs_kept :: "AcceptanceContext \<Rightarrow> AcceptanceContext \<Rightarrow> bool" where
  "proofs_kept s t \<longleftrightarrow> (\<forall>key proof. cached_proof (ax_vck_cache t) key = Some proof \<longrightarrow> cached_proof (ax_vck_cache s) key = Some proof)"

interpretation proofs: state_relation proofs_kept
  by unfold_locales (auto simp: proofs_kept_def)

lemma proofs_kept_same: "ax_vck_cache t = ax_vck_cache s \<Longrightarrow> proofs_kept s t"
  by (simp add: proofs_kept_def)

lemma cached_proof_new [simp]: "cached_proof (vck_cache_new d) key = None"
  by (simp add: cached_proof_def vck_cache_new_def)

lemma cached_proof_prune: "cached_proof (vck_prune c now) key = Some proof \<Longrightarrow> cached_proof c key = Some proof"
  by (auto simp: cached_proof_def vck_prune_def split: option.splits if_splits)

lemma cached_proof_srx:
  "cached_proof (record_srx c key j s a n now) k = Some proof \<Longrightarrow> cached_proof c k = Some proof"
  "try_skip_srx c key j s a n' m now = (r, c') \<Longrightarrow> cached_proof c' k = Some proof \<Longrightarrow> cached_proof c k = Some proof"
  by (auto simp: record_srx_def vck_entry_or_new_def cached_proof_def Let_def try_skip_srx_def vck_prune_def
    split: option.splits if_splits)

lemma cached_proof_relations:
  "ensure_srx_relations V h a require mx now c proofs before = (r, c') \<Longrightarrow> cached_proof c' key = Some proof \<Longrightarrow>
     cached_proof c key = Some proof"
  by (auto simp: ensure_srx_relations_def Let_def split: sum.splits if_splits prod.splits bool.splits
    dest: cached_proof_srx)

text \<open>The acceptance pipeline caches no proof.\<close>
lemma updates_vck [simp]:
  "ax_vck_cache (device_chain_entry_mut gid pk f ctx) = ax_vck_cache ctx"
  "ax_vck_cache (barrier_group_state_entry_mut gid g ctx) = ax_vck_cache ctx"
  "ax_vck_cache (insert_pivot_parity q now ctx) = ax_vck_cache ctx"
  "ax_vck_cache (apply_barrier_acceptance_commit gid h gate ctx) = ax_vck_cache ctx"
  by (simp_all add: device_chain_entry_mut_def barrier_group_state_entry_mut_def insert_pivot_parity_def
    apply_barrier_acceptance_commit_def Let_def split: option.split)

lemma proofs_stages [frame_intro]:
  "evolves proofs_kept (join_replay_guard p rho key now)" "evolves proofs_kept take_pending_capss_witness"
  "evolves proofs_kept (window_result key wid (ctx_accept_non_merge wid r now))"
  "evolves proofs_kept (window_result key wid (ctx_accept_merge old wid hs r now))"
  "evolves proofs_kept (ensure_group_srx_root_sw gid)" "evolves proofs_kept (move_srx_root p h c root)"
  "evolves proofs_kept (telemetry_record_attempt gid rt)" "evolves proofs_kept take_accept_seq"
  "evolves proofs_kept (bind_fs_base_ts ts)" "evolves proofs_kept (list_parities gid rt now)"
  "evolves proofs_kept next_accept_instant"
  by (rule evolvesI, rule proofs_kept_same, auto simp: join_replay_guard_def telemetry_record_rho_freeze_def telemetry_entry_mut_def
    take_pending_capss_witness_def window_result_def ctx_accept_non_merge_def ctx_accept_merge_def ensure_group_srx_root_sw_def
    set_group_srx_root_sw_def move_srx_root_def telemetry_record_success_def telemetry_record_window_full_def ctx_simps Let_def
    telemetry_record_attempt_def take_accept_seq_def bind_fs_base_ts_def set_fs_base_ts_def list_parities_def pivot_list_def
    next_accept_instant_def
    split: prod.splits if_splits sum.splits option.splits)+

lemma proofs_fs_policy [frame_intro]: "evolves proofs_kept (merge_fs_policy h)"
  unfolding merge_fs_policy_def
  by (intro proofs.evolves_intro evolvesI proofs_kept_same) (auto simp: set_fs_policy_version_def split: option.splits if_splits)

lemma proofs_merge_srx [frame_intro]: "evolves proofs_kept (merge_srx_stage V p h root s ids pivot proofs now)"
  unfolding merge_srx_stage_def
  by (intro proofs.evolves_intro frame_intro, rule evolvesI)
    (auto simp: proofs_kept_def dest: cached_proof_relations split: if_splits prod.splits)

lemma proofs_join [frame_intro]: "evolves proofs_kept (accept_anchor_join V p claim h mn digest now)"
  unfolding accept_anchor_join_def join_validate_def join_commit_def join_fs_stage_def Let_def
  by (intro proofs.evolves_intro frame_intro proofs.evolves_upd)
    (auto simp: proofs_kept_def ctx_simps set_fs_policy_version_def advance_device_def record_accepted_ec_def)

lemma proofs_merge [frame_intro]: "evolves proofs_kept (accept_anchor_merge V p claim h hs mn now)"
  unfolding accept_anchor_merge_def merge_validate_def merge_commit_def merge_fs_stage_def Let_def
  by (intro proofs.evolves_intro frame_intro proofs.evolves_upd)
    (auto simp: proofs_kept_def ctx_simps advance_merge_device_def advance_device_def record_accepted_ec_def
      set_last_checkpoint_ec_def split: option.split)

lemma proofs_dispatch [frame_intro]: "evolves proofs_kept (dispatch_anchor V p claim h gate mn now)"
  by (auto simp: dispatch_anchor_def split: sum.split option.split intro: proofs_join proofs_merge proofs.evolves_return)

lemma accept_anchor_proofs: "evolves proofs_kept (accept_anchor V p claim h)"
  unfolding accept_anchor_def split_def
  by (intro proofs.evolves_intro frame_intro proofs.evolves_upd) (simp_all add: proofs_kept_def)

lemma hp_sound_kept: "hp_sound E (ax_vck_cache s) \<Longrightarrow> proofs_kept s t \<Longrightarrow> hp_sound E (ax_vck_cache t)"
  by (auto simp: hp_sound_def proofs_kept_def)

text \<open>What the cache answers, and what it holds afterwards.\<close>
lemma ctx_should_verify_hp_Inr:
  assumes "ctx_should_verify_hp E b proof h now ctx = (Inr v, ctx')"
  obtains key where "vck_of E b h = Inr key" "ctx' = ctx\<lparr>ax_vck_cache := ax_vck_cache ctx'\<rparr>"
    "v \<longleftrightarrow> cached_proof (vck_prune (ax_vck_cache ctx) now) key \<noteq> Some proof"
    "\<not> v \<Longrightarrow> ax_vck_cache ctx' = vck_prune (ax_vck_cache ctx) now"
proof -
  obtain key where key: "vck_of E b h = Inr key"
    using assms by (auto simp: ctx_should_verify_hp_def vck_of_def split: sum.splits)
  have "should_verify_hp (ax_vck_cache ctx) key proof now = (v, ax_vck_cache ctx')" "ctx' = ctx\<lparr>ax_vck_cache := ax_vck_cache ctx'\<rparr>"
    using assms key by (auto simp: ctx_should_verify_hp_def vck_of_def split: prod.splits)
  with key show thesis
    using that by (auto simp: should_verify_hp_def cached_proof_def Let_def split: option.splits if_splits)
qed

lemma record_verified_hp_Inr:
  assumes "record_verified_hp E b proof h now ctx = (Inr u, ctx')"
  obtains key where "vck_of E b h = Inr key" "ctx' = ctx\<lparr>ax_vck_cache := ax_vck_cache ctx'\<rparr>"
    "cached_proof (ax_vck_cache ctx') key = Some proof"
  using assms that by (auto simp: record_verified_hp_def vck_of_def record_hp_def cached_proof_def Let_def split: sum.splits)

text \<open>The cache starts empty, and nothing that touches it caches a proof that was not verified for its key.\<close>
lemma hp_sound_new: "hp_sound E (vck_cache_new d)"
  by (simp add: hp_sound_def)

lemma hp_sound_set_ttl: "hp_sound E c \<Longrightarrow> hp_sound E (vck_set_ttl c d now)"
  using cached_proof_prune [of "c\<lparr>vc_ttl := d\<rparr>" now] by (auto simp: hp_sound_def vck_set_ttl_def cached_proof_def)

definition proofs_verified :: "Ext \<Rightarrow> AcceptanceContext \<Rightarrow> AcceptanceContext \<Rightarrow> bool" where
  "proofs_verified E s t \<longleftrightarrow> (hp_sound E (ax_vck_cache s) \<longrightarrow> hp_sound E (ax_vck_cache t))"

interpretation verified: state_relation "proofs_verified E" for E
  by unfold_locales (auto simp: proofs_verified_def)

lemma verified_kept: "evolves proofs_kept m \<Longrightarrow> evolves (proofs_verified E) m"
  by (rule evolvesI) (auto simp: proofs_verified_def dest: evolvesD intro: hp_sound_kept)

lemma kept_should_verify: "evolves proofs_kept (ctx_should_verify_hp E b proof h now)"
proof (rule evolvesI)
  fix s r t
  assume run: "ctx_should_verify_hp E b proof h now s = (r, t)"
  have "cached_proof (snd (should_verify_hp c key proof now)) k = Some q \<Longrightarrow> cached_proof (vck_prune c now) k = Some q" for c key k q
    by (auto simp: should_verify_hp_def cached_proof_def Let_def split: option.splits if_splits)
  moreover have "t = s \<or> (\<exists>key. ax_vck_cache t = snd (should_verify_hp (ax_vck_cache s) key proof now))"
    using run by (cases "vck_of E b h") (auto simp: ctx_should_verify_hp_def vck_of_def split_def)
  ultimately show "proofs_kept s t"
    using cached_proof_prune unfolding proofs_kept_def by metis
qed

lemma verified_record:
  "evolves (proofs_verified E) (tryS (liftS (\<lambda>_. map_err acc_err (verify_hp_k E b proof))) (\<lambda>_. record_verified_hp E b proof h now))"
proof (rule evolvesI)
  fix s r t
  assume run: "tryS (liftS (\<lambda>_. map_err acc_err (verify_hp_k E b proof))) (\<lambda>_. record_verified_hp E b proof h now) s = (r, t)"
  have rec: "cached_proof (record_hp c key proof now) k = Some q \<Longrightarrow> k = key \<and> q = proof \<or> cached_proof c k = Some q" for c key k q
    by (auto simp: record_hp_def cached_proof_def Let_def vck_prune_def split: if_splits option.splits)
  show "proofs_verified E s t"
  proof (cases "verify_hp_k E b proof = Inr () \<and> (\<exists>key. vck_of E b h = Inr key)")
    case True
    then show ?thesis
      using run rec by (fastforce simp: tryS_def liftS_def map_err_def record_verified_hp_def vck_of_def [symmetric] proofs_verified_def hp_sound_def)
  next
    case False
    then have "t = s"
      using run by (auto simp: tryS_def liftS_def map_err_def record_verified_hp_def vck_of_def split: sum.splits)
    then show ?thesis
      by (simp add: verified.refl)
  qed
qed

lemma verified_if: "evolves (proofs_verified E) m \<Longrightarrow> evolves (proofs_verified E) n \<Longrightarrow> evolves (proofs_verified E) (if c then m else n)"
  by simp

lemma verified_extract: "evolves (proofs_verified (ext V)) (accept_and_extract_or V de a h proof b witness)"
  unfolding accept_and_extract_or_def accept_anchor_or_def Let_def
  by (intro verified.evolves_intro verified_if verified_kept [OF accept_anchor_proofs]
    verified_kept [OF kept_should_verify] verified_record)

section \<open>Properties\<close>

text \<open>The live entries that an acceptance does not retire.\<close>
definition survivors :: "ReceiverCache \<Rightarrow> AcceptanceOutcome \<Rightarrow> (hash32 \<rightharpoonup> CacheEntry)" where
  "survivors c out = (\<lambda>k. case rc_entries c k of None \<Rightarrow> None
     | Some e \<Rightarrow> if entry_expired (rc_ttl c) (oc_accept_time out) e \<or> (\<exists>hs. oc_kind out = Merge hs \<and> k \<in> set hs) then None else Some e)"

lemma fold_remove: "fold (\<lambda>head m. m(head := None)) hs m = (\<lambda>k. if k \<in> set hs then None else m k)"
  by (induction hs arbitrary: m) auto

lemma apply_acceptance_entries:
  "apply_acceptance iter c a = enforce_max_entries iter (receiver_insert (c\<lparr>rc_entries := survivors c (ar_outcome a)\<rparr>) a)"
proof (cases "oc_kind (ar_outcome a)")
  case NonMerge
  then have "survivors c (ar_outcome a) = rc_entries (snd (receiver_prune c (oc_accept_time (ar_outcome a)) None))"
    by (auto simp: survivors_def receiver_prune_def fun_eq_iff split: option.splits)
  with NonMerge show ?thesis
    by (simp add: apply_acceptance_def Let_def receiver_prune_def)
next
  case (Merge hs)
  then have "survivors c (ar_outcome a) = fold (\<lambda>head m. m(head := None)) hs
      (rc_entries (snd (receiver_prune c (oc_accept_time (ar_outcome a)) None)))"
    by (auto simp: survivors_def receiver_prune_def fun_eq_iff fold_remove split: option.splits)
  with Merge show ?thesis
    by (simp add: apply_acceptance_def Let_def receiver_prune_def)
qed

text \<open>The receiver's cache after an acceptance.  It holds at most its maximal number of entries, among them the new head;
  every other entry was there before, has not expired and was not retired by the acceptance; and an entry that had to give way
  is no more recent than the entries that stayed.\<close>
theorem receiver_keeps_recent:
  assumes "iterates iter" "finite (dom (rc_entries c))" "0 < rc_max_entries c"
    and "\<And>k e. rc_entries c k = Some e \<Longrightarrow> ticks (ce_accept_time e) < ticks (oc_accept_time (ar_outcome a))"
  shows "card (dom (rc_entries (apply_acceptance iter c a))) \<le> rc_max_entries c \<and>
    (\<exists>e. rc_entries (apply_acceptance iter c a) (oc_we_epoch_id (ar_outcome a)) = Some e \<and> ce_pivot_parity e = ar_pivot_parity a) \<and>
    (\<forall>k e. rc_entries (apply_acceptance iter c a) k = Some e \<longrightarrow> k = oc_we_epoch_id (ar_outcome a) \<or> survivors c (ar_outcome a) k = Some e) \<and>
    (\<forall>k e k' e'. survivors c (ar_outcome a) k = Some e \<and> rc_entries (apply_acceptance iter c a) k = None \<and>
       rc_entries (apply_acceptance iter c a) k' = Some e' \<longrightarrow> ticks (ce_accept_time e) \<le> ticks (ce_accept_time e'))"
proof -
  let ?w = "oc_we_epoch_id (ar_outcome a)"
  define m where "m = rc_entries (receiver_insert (c\<lparr>rc_entries := survivors c (ar_outcome a)\<rparr>) a)"
  define m' where "m' = rc_entries (apply_acceptance iter c a)"
  obtain n where m_eq: "m = (survivors c (ar_outcome a))(?w \<mapsto> n)" and n: "ce_pivot_parity n = ar_pivot_parity a"
      "ce_accept_time n = oc_accept_time (ar_outcome a)"
    by (simp add: m_def receiver_insert_def)
  have sub: "survivors c (ar_outcome a) \<subseteq>\<^sub>m rc_entries c"
    by (auto simp: survivors_def map_le_def split: option.splits if_splits)
  then have fin: "finite (dom m)"
    using assms(2) map_le_implies_dom_le finite_subset by (fastforce simp: m_eq)
  have iter: "set (iter m) = dom m" "distinct (iter m)"
    using assms(1) fin by (auto simp: iterates_def)
  have "m' = evict iter (length (iter m)) (rc_max_entries c) m"
    using assms(3) by (simp add: m'_def m_def apply_acceptance_entries enforce_max_entries_def receiver_insert_def)
  moreover have "card (dom m) \<le> length (iter m)"
    using iter by (metis card_length)
  ultimately have kept: "m' \<subseteq>\<^sub>m m" "card (dom m') = min (rc_max_entries c) (card (dom m))"
      "\<And>k k'. k \<in> dom m - dom m' \<Longrightarrow> k' \<in> dom m' \<Longrightarrow> age m k \<le> age m k'"
    using evict_recent [OF assms(1) fin, of "length (iter m)" "rc_max_entries c"] by (auto simp: kept_recent_def)
  have old: "ticks (ce_accept_time e) < ticks (ce_accept_time n)" if "survivors c (ar_outcome a) k = Some e" for k e
    using that sub assms(4) n(2) by (metis domI map_le_def)
  have new: "?w \<in> dom m'"
  proof (rule ccontr)
    assume w: "?w \<notin> dom m'"
    have "?w \<in> dom m"
      by (simp add: m_eq)
    then have "dom m' \<subset> dom m"
      using w map_le_implies_dom_le [OF kept(1)] by blast
    from psubset_card_mono [OF fin this] have "card (dom m') = rc_max_entries c"
      using kept(2) by (simp add: min_def split: if_splits)
    then obtain k where k: "k \<in> dom m'"
      using assms(3) by fastforce
    have "k \<in> dom m" "k \<noteq> ?w"
      using k w map_le_implies_dom_le [OF kept(1)] by auto
    then obtain e where "survivors c (ar_outcome a) k = Some e" "m k = Some e"
      by (auto simp: m_eq)
    then show False
      using kept(3) [of ?w k] old w k by (fastforce simp: m_eq)
  qed
  have entries: "m' k = Some e \<longleftrightarrow> k \<in> dom m' \<and> m k = Some e" for k e
    using kept(1) by (metis domD domI map_le_def)
  have "\<exists>e. m' ?w = Some e \<and> ce_pivot_parity e = ar_pivot_parity a"
    using new n(1) by (auto simp: entries m_eq)
  moreover have "k = ?w \<or> survivors c (ar_outcome a) k = Some e" if "m' k = Some e" for k e
    using that by (auto simp: entries m_eq split: if_splits)
  moreover have "ticks (ce_accept_time e) \<le> ticks (ce_accept_time e')"
    if "survivors c (ar_outcome a) k = Some e" "m' k = None" "m' k' = Some e'" for k e k' e'
  proof -
    have "k \<noteq> ?w"
      using that(2) new by auto
    then show ?thesis
      using that kept(3) [of k k'] by (auto simp: entries m_eq split: if_splits)
  qed
  ultimately show ?thesis
    using kept(2) unfolding m'_def [symmetric] by auto
qed

lemma extract_run:
  assumes "accept_and_extract_or V de a h proof b witness ctx = (Inr r, ctx')"
  obtains (merge) "accept_anchor_or V a h ctx = (Inr (ar_outcome r), ctx')"
      "extracted_parity (ext V) a h (ar_outcome r) = Inr (ar_pivot_parity r)" "oc_kind (ar_outcome r) \<noteq> NonMerge"
  | (join) ctx1 w where "accept_anchor_or V a h ctx = (Inr (ar_outcome r), ctx1)"
      "extracted_parity (ext V) a h (ar_outcome r) = Inr (ar_pivot_parity r)"
      "check_binding (ext V) a b (ar_outcome r) = Inr ()" "parse_validated_witness (ext V) de a witness = Inr w"
      "(\<exists>ctx2. ctx_should_verify_hp (ext V) b proof h (oc_accept_time (ar_outcome r)) ctx1 = (Inr True, ctx2) \<and>
          verify_hp_k (ext V) b proof = Inr () \<and>
          record_verified_hp (ext V) b proof h (oc_accept_time (ar_outcome r)) ctx2 = (Inr (), ctx')) \<or>
        ctx_should_verify_hp (ext V) b proof h (oc_accept_time (ar_outcome r)) ctx1 = (Inr False, ctx')"
  using assms that by (auto simp: accept_and_extract_or_def Let_def eff_simps result_simps split: if_splits)

lemma parse_validated_witness_Inr:
  "parse_validated_witness E de a w = Inr v \<Longrightarrow> w \<noteq> [] \<Longrightarrow> \<exists>canonical u. de w = Some canonical \<and> validate_against E canonical a = Inr u"
  by (auto simp: parse_validated_witness_def result_simps)

lemma vck_frame_trans: "t = s\<lparr>ax_vck_cache := c\<rparr> \<Longrightarrow> u = t\<lparr>ax_vck_cache := d\<rparr> \<Longrightarrow> u = s\<lparr>ax_vck_cache := ax_vck_cache u\<rparr>"
  by simp

text \<open>What the cache says of the proof of a processed join.\<close>
lemma processed_proof:
  assumes "hp_sound E (ax_vck_cache ctx1)"
    and "(\<exists>ctx2. ctx_should_verify_hp E b proof h now ctx1 = (Inr True, ctx2) \<and> verify_hp_k E b proof = Inr () \<and>
        record_verified_hp E b proof h now ctx2 = (Inr (), ctx')) \<or>
      ctx_should_verify_hp E b proof h now ctx1 = (Inr False, ctx')"
  shows "ctx' = ctx1\<lparr>ax_vck_cache := ax_vck_cache ctx'\<rparr> \<and>
    (\<exists>key. vck_of E b h = Inr key \<and> cached_proof (ax_vck_cache ctx') key = Some proof \<and>
      (if cached_proof (vck_prune (ax_vck_cache ctx1) now) key = Some proof
       then \<exists>b' h'. vck_of E b' h' = Inr key \<and> verify_hp_k E b' proof = Inr ()
       else verify_hp_k E b proof = Inr ()))"
  using assms(2)
proof (elim disjE exE conjE)
  fix ctx2
  assume run: "ctx_should_verify_hp E b proof h now ctx1 = (Inr True, ctx2)" "verify_hp_k E b proof = Inr ()"
    "record_verified_hp E b proof h now ctx2 = (Inr (), ctx')"
  obtain key where key: "vck_of E b h = Inr key" "ctx' = ctx2\<lparr>ax_vck_cache := ax_vck_cache ctx'\<rparr>"
      "cached_proof (ax_vck_cache ctx') key = Some proof"
    by (rule record_verified_hp_Inr [OF run(3)])
  obtain key' where key': "vck_of E b h = Inr key'" "ctx2 = ctx1\<lparr>ax_vck_cache := ax_vck_cache ctx2\<rparr>"
      "cached_proof (vck_prune (ax_vck_cache ctx1) now) key' \<noteq> Some proof"
    using ctx_should_verify_hp_Inr [OF run(1)] by metis
  have "key' = key" "ctx' = ctx1\<lparr>ax_vck_cache := ax_vck_cache ctx'\<rparr>"
    using key'(1) key(1) vck_frame_trans [OF key'(2) key(2)] by simp_all
  then show ?thesis
    using run(2) key key'(3) by simp
next
  assume run: "ctx_should_verify_hp E b proof h now ctx1 = (Inr False, ctx')"
  obtain key where key: "vck_of E b h = Inr key" "ctx' = ctx1\<lparr>ax_vck_cache := ax_vck_cache ctx'\<rparr>"
      "cached_proof (vck_prune (ax_vck_cache ctx1) now) key = Some proof" "ax_vck_cache ctx' = vck_prune (ax_vck_cache ctx1) now"
    using ctx_should_verify_hp_Inr [OF run] by metis
  have "\<exists>b' h'. vck_of E b' h' = Inr key \<and> verify_hp_k E b' proof = Inr ()"
    using assms(1) cached_proof_prune [OF key(3)] by (simp add: hp_sound_def)
  then show ?thesis
    by (intro conjI [OF key(2)] exI [of _ key]) (simp add: key(1,3,4))
qed

text \<open>C24: what a processed anchor is bound to, when every proof in the cache was verified for its key.  The acceptance pipeline
  accepted exactly the anchor's parts under the header whose context the anchor carries, and nothing but the cache of verified
  proofs was changed since, which again holds verified proofs only.  For a join the binding inputs are the outcome's digests and
  the hash of the instance; a witness, if one is given, decodes and is valid for the anchor; and the HP proof is now cached under
  the verification-context key of this binding and header: if it was not cached there and alive at the acceptance time, it was
  verified against these binding inputs, and otherwise against binding inputs and a header with the same key.\<close>
theorem processed_anchor_bound:
  assumes "process_anchor_or V de iter a h proof b witness (ctx, rc) = (Inr r, (ctx', rc'))"
    and "hp_sound (ext V) (ax_vck_cache ctx)"
  shows "\<exists>ctx1. accept_anchor V (instance_parts a) (ai_we_epoch_id a) h ctx = (Inr (ar_outcome r), ctx1) \<and>
    ctx' = ctx1\<lparr>ax_vck_cache := ax_vck_cache ctx'\<rparr> \<and> hp_sound (ext V) (ax_vck_cache ctx') \<and>
    build_anchor_seed_ctx (ext V) h = Inr (ai_anchor_hdr_ctx a) \<and> ai_msphf_hp_commit a = Some (oc_hp_commit (ar_outcome r)) \<and>
    extracted_parity (ext V) a h (ar_outcome r) = Inr (ar_pivot_parity r) \<and> rc' = apply_acceptance iter rc r \<and>
    (oc_kind (ar_outcome r) = NonMerge \<longrightarrow>
      hb_seed_ctx_hash b = oc_seed_ctx_hash (ar_outcome r) \<and> hb_seed_commit b = oc_seed_commit (ar_outcome r) \<and>
      hb_rho_commit b = oc_rho_commit (ar_outcome r) \<and> hb_hp_commit b = oc_hp_commit (ar_outcome r) \<and>
      xk_hash (ext V) a = Inr (hb_xk_hash b) \<and>
      (witness \<noteq> [] \<longrightarrow> (\<exists>canonical v. de witness = Some canonical \<and> validate_against (ext V) canonical a = Inr v)) \<and>
      (\<exists>key. vck_of (ext V) b h = Inr key \<and> cached_proof (ax_vck_cache ctx') key = Some proof \<and>
        (if cached_proof (vck_prune (ax_vck_cache ctx1) (oc_accept_time (ar_outcome r))) key = Some proof
         then \<exists>b' h'. vck_of (ext V) b' h' = Inr key \<and> verify_hp_k (ext V) b' proof = Inr ()
         else verify_hp_k (ext V) b proof = Inr ())))"
proof -
  have run: "accept_and_extract_or V de a h proof b witness ctx = (Inr r, ctx')" "rc' = apply_acceptance iter rc r"
    using assms(1) by (auto simp: process_anchor_or_def split: prod.splits sum.splits)
  have sound: "hp_sound (ext V) (ax_vck_cache ctx')"
    using evolvesD [OF verified_extract run(1)] assms(2) by (simp add: proofs_verified_def)
  have pipe: "accept_anchor V (instance_parts a) (ai_we_epoch_id a) h ctx = (Inr (ar_outcome r), u)"
      "build_anchor_seed_ctx (ext V) h = Inr (ai_anchor_hdr_ctx a)" "ai_msphf_hp_commit a = Some (oc_hp_commit (ar_outcome r))"
    if "accept_anchor_or V a h ctx = (Inr (ar_outcome r), u)" for u
    using that by (auto simp: accept_anchor_or_def eff_simps result_simps)
  from run(1) show ?thesis
  proof (cases rule: extract_run)
    case merge
    then show ?thesis
      by (intro exI [of _ ctx'] conjI impI pipe [OF merge(1)] sound run(2)) auto
  next
    case (join ctx1 w)
    have "hp_sound (ext V) (ax_vck_cache ctx1)"
      using evolvesD [OF verified_kept [OF accept_anchor_proofs] pipe(1) [OF join(1)]] assms(2) by (simp add: proofs_verified_def)
    note hp = processed_proof [OF this join(5)]
    show ?thesis
      using join(3) by (intro exI [of _ ctx1] conjI impI pipe [OF join(1)] sound run(2) join(2) conjunct1 [OF hp] conjunct2 [OF hp]
        parse_validated_witness_Inr [OF join(4)]) (auto simp: check_binding_def result_simps)
  qed
qed


section \<open>Instances\<close>

definition countable_iter :: "(hash32 \<rightharpoonup> CacheEntry) \<Rightarrow> hash32 list" where
  "countable_iter m = map from_nat (sorted_list_of_set (to_nat ` dom m))"

lemma iterates_countable: "iterates countable_iter"
proof -
  have "inj_on (from_nat :: nat \<Rightarrow> hash32) (to_nat ` A)" for A :: "hash32 set"
    by (auto intro!: inj_onI)
  then show ?thesis
    by (auto simp: iterates_def countable_iter_def distinct_map image_image)
qed

definition plain_anchor :: "hash32 \<Rightarrow> AnchorInstance" where
  "plain_anchor commit = \<lparr>ai_gid = [1], ai_cat = [2], ai_we_epoch_id = plain_digest, ai_anchor_hdr_ctx = [9],
     ai_tswe_salt_hash = plain_digest, ai_parent_root = plain_digest, ai_join_delta_root = plain_digest,
     ai_revoked_since_prev_root = plain_digest, ai_revoked_root = plain_digest, ai_pox_r_commit = None,
     ai_msphf_hp_commit = Some commit\<rparr>"

definition plain_binding :: "AcceptanceOutcome \<Rightarrow> HpBindingInputs" where
  "plain_binding out = \<lparr>hb_msphf_crs_id = ''crs'', hb_params_id = ''params'', hb_seed_ctx_hash = oc_seed_ctx_hash out,
     hb_seed_commit = oc_seed_commit out, hb_rho_commit = oc_rho_commit out, hb_xk_hash = plain_digest,
     hb_hp_commit = oc_hp_commit out\<rparr>"

lemma plain_anchor_parts: "instance_parts (plain_anchor commit) = plain_parts"
  by (simp add: plain_anchor_def plain_parts_def instance_parts_def)

lemma plain_vck: "compute_vck_key plain_ext a b c d join_header = Inr plain_digest"
  by (simp add: compute_vck_key_def header_value_bytes_def header_digest_or_zero_def header_text_def header_policy_version_def
      join_header_def hdr_keys u64_try_from_def plain_h_l validate_label_def as_bytes_def)

lemma plain_proof: "verify_hp_k plain_ext b \<lparr>hp_digest = plain_digest\<rparr> = Inr ()"
  by (simp add: verify_hp_k_def prove_hp_k_def hash_bytes_with_label_def plain_h_l validate_label_def as_bytes_def)

text \<open>A membership witness for the set whose only leaf is its root, and its decoder.\<close>
definition plain_canonical :: WitnessVariants where
  "plain_canonical = VariantA \<lparr>rm_leaf_id = plain_digest, rm_root = plain_digest, rm_path = []\<rparr> None"

abbreviation plain_de :: "bytes \<Rightarrow> WitnessVariants option" where
  "plain_de \<equiv> \<lambda>w. if w = [7] then Some plain_canonical else None"

abbreviation plain_hp :: HpProof where
  "plain_hp \<equiv> \<lparr>hp_digest = plain_digest\<rparr>"

lemma plain_witness: "\<exists>v. parse_validated_witness plain_ext plain_de (plain_anchor commit) [7] = Inr (Some v)"
  by (simp add: parse_validated_witness_def plain_canonical_def plain_anchor_def to_array32_def validate_membership_against_def
    validate_path_def validate_membership_path_def opt_validate_def)

lemma start_sound: "hp_sound plain_ext (ax_vck_cache (start_at 8 7))"
  by (simp add: start_context_def ctx_with_defaults_def ctx_with_options_def insert_barrier_group_state_def apply_fs_policy_config_def hp_sound_new Let_def
    split: sum.split)

lemma plain_kind:
  assumes "accept_anchor plain_verifiers plain_parts plain_digest join_header (start_at 8 7) = (Inr out, ctx')"
  shows "oc_kind out = NonMerge"
  using assms ticked_join
proof (cases rule: accept_anchor_cases)
  case (join gate mn u)
  from join(3) show ?thesis
    by (rule join_accepted_run) (simp add: join_outcome_def)
qed (simp_all add: plain_kinds)

lemma plain_extract:
  obtains a b r ctx' where "accept_and_extract_or plain_verifiers plain_de a join_header plain_hp b [7] (start_at 8 7) = (Inr r, ctx')"
    "oc_kind (ar_outcome r) = NonMerge"
proof -
  obtain out ctx1 q where run: "accept_anchor plain_verifiers plain_parts plain_digest join_header (start_at 8 7) = (Inr out, ctx1)"
    using join_taken by metis
  let ?a = "plain_anchor (oc_hp_commit out)" and ?b = "plain_binding out"
  have acc: "accept_anchor_or plain_verifiers ?a join_header (start_at 8 7) = (Inr out, ctx1)"
    using run by (simp add: accept_anchor_or_def eff_simps result_simps plain_hashes plain_anchor_parts)
      (simp add: plain_anchor_def)
  have par: "\<exists>q. extracted_parity plain_ext ?a join_header out = Inr q"
    by (simp add: extracted_parity_def root32_def plain_anchor_def)
  have bind: "check_binding plain_ext ?a ?b out = Inr ()"
    by (simp add: check_binding_def plain_binding_def plain_hashes)
  obtain v ctx2 where sv: "ctx_should_verify_hp plain_ext ?b plain_hp join_header (oc_accept_time out) ctx1 = (Inr v, ctx2)"
    by (cases "should_verify_hp (ax_vck_cache ctx1) plain_digest plain_hp (oc_accept_time out)")
      (simp add: ctx_should_verify_hp_def plain_vck)
  obtain ctx3 where rec: "record_verified_hp plain_ext ?b plain_hp join_header (oc_accept_time out) ctx2 = (Inr (), ctx3)"
    by (simp add: record_verified_hp_def plain_vck)
  have "\<exists>r ctx'. accept_and_extract_or plain_verifiers plain_de ?a join_header plain_hp ?b [7] (start_at 8 7) = (Inr r, ctx') \<and>
      oc_kind (ar_outcome r) = NonMerge"
    using acc par bind sv rec plain_witness [of "oc_hp_commit out"] plain_kind [OF run]
    by (cases v) (auto simp: accept_and_extract_or_def Let_def eff_simps plain_proof ex_bool_eq)
  then show thesis
    using that by blast
qed

theorem processed_anchor_bound_witness:
  "\<exists>a b r ctx' rc'. process_anchor_or plain_verifiers plain_de countable_iter a join_header plain_hp b [7]
      (start_at 8 7, receiver_new (from_secs 10)) = (Inr r, (ctx', rc')) \<and> hp_sound plain_ext (ax_vck_cache ctx') \<and>
    oc_kind (ar_outcome r) = NonMerge \<and> cached_proof (ax_vck_cache ctx') plain_digest = Some plain_hp \<and>
    (\<exists>v. validate_against plain_ext plain_canonical a = Inr v) \<and>
    ai_msphf_hp_commit a = Some (oc_hp_commit (ar_outcome r)) \<and> rc' = apply_acceptance countable_iter (receiver_new (from_secs 10)) r"
proof -
  obtain a b r ctx' where ex: "accept_and_extract_or plain_verifiers plain_de a join_header plain_hp b [7] (start_at 8 7) = (Inr r, ctx')"
      and kind: "oc_kind (ar_outcome r) = NonMerge"
    by (rule plain_extract)
  then have run: "process_anchor_or plain_verifiers plain_de countable_iter a join_header plain_hp b [7]
      (start_at 8 7, receiver_new (from_secs 10)) = (Inr r, (ctx', apply_acceptance countable_iter (receiver_new (from_secs 10)) r))"
    by (simp add: process_anchor_or_def)
  have "hp_sound (ext plain_verifiers) (ax_vck_cache (start_at 8 7))"
    using start_sound by simp
  from processed_anchor_bound [OF run this] kind have "hp_sound plain_ext (ax_vck_cache ctx')"
      "cached_proof (ax_vck_cache ctx') plain_digest = Some plain_hp" "\<exists>v. validate_against plain_ext plain_canonical a = Inr v"
      "ai_msphf_hp_commit a = Some (oc_hp_commit (ar_outcome r))"
    by (auto simp: vck_of_def plain_vck)
  with run kind show ?thesis
    by blast
qed

definition plain_result :: AnchorAcceptanceResult where
  "plain_result =
     (let out = \<lparr>oc_kind = NonMerge, oc_we_epoch_id = plain_digest, oc_wid = plain_digest, oc_seed_ctx_hash = plain_digest,
        oc_seed_commit = plain_digest, oc_rho_commit = plain_digest, oc_hp_commit = plain_digest, oc_xk_hash = plain_digest,
        oc_accept_seq = 1, oc_accept_time = from_ticks 5, oc_mh_note = None, oc_fs_epoch_commit = None, oc_fs_ec = None,
        oc_fs_dev_commit = None\<rparr>
      in \<lparr>ar_outcome = out, ar_pivot_parity = projr (extracted_parity plain_ext (plain_anchor plain_digest) [] out),
        ar_telemetry_key = telemetry_key [1] plain_digest, ar_telemetry_counters = telemetry_default\<rparr>)"

definition one_entry_cache :: ReceiverCache where
  "one_entry_cache = \<lparr>rc_ttl = from_secs 10, rc_max_entries = 1, rc_entries = [zero_hash \<mapsto>
     \<lparr>ce_parent_root = zero_hash, ce_wid = zero_hash, ce_pivot_parity = ar_pivot_parity plain_result, ce_accept_time = from_ticks 3\<rparr>]\<rparr>"

theorem receiver_keeps_recent_witness:
  "card (dom (rc_entries (apply_acceptance countable_iter one_entry_cache plain_result))) \<le> 1 \<and>
   (\<exists>e. rc_entries (apply_acceptance countable_iter one_entry_cache plain_result) plain_digest = Some e)"
proof -
  have "ticks (ce_accept_time e) < ticks (oc_accept_time (ar_outcome plain_result))" if "rc_entries one_entry_cache k = Some e" for k e
    using that by (auto simp: one_entry_cache_def plain_result_def from_ticks_def Let_def split: if_splits)
  moreover have "finite (dom (rc_entries one_entry_cache))" "rc_max_entries one_entry_cache = 1"
      "oc_we_epoch_id (ar_outcome plain_result) = plain_digest"
    by (simp_all add: one_entry_cache_def plain_result_def Let_def)
  ultimately show ?thesis
    using receiver_keeps_recent [OF iterates_countable, of one_entry_cache plain_result] by fastforce
qed

end
