(* ===== verification/BarrierTree.thy ===== *)
theory BarrierTree
  imports Receiver "HOL-Library.Product_Lexorder"
begin

text \<open>
  The KEM tree of the server (\<open>cityg-server/src/lib.rs\<close>): the hash of a tree of public keys, its incremental form with a
  cache of subtree hashes, the resolution of a node, the ciphertexts that an update of a path must carry, and the blanking
  of a path.  A tree is the list of its entries in the layout of \<open>BarrierUpdate\<close>; an empty entry is a blank node.

  The lemmas show that the incremental hash is the hash computed from scratch, that the root determines every entry, that the
  resolution of a node covers every occupied leaf below it exactly once, and that the expected ciphertexts of an update
  reach every occupied leaf but the updater's exactly once and no leaf whose path was blanked.
\<close>

section \<open>Errors\<close>

text \<open>The error of an input and output operation is opaque.\<close>
datatype CityGError =
    CgMsphf MsphfError
  | CgAcceptance AcceptanceError
  | CgReceiver ReceiverError
  | CgIo
  | CgInvalidInput string

section \<open>Indices\<close>

text \<open>An index into a slice is below \<open>2 ^ 63\<close>; the sums below are on \<open>usize\<close>, with the overflow that the code checks for.\<close>
definition usize_max :: nat where
  "usize_max = 18446744073709551615"

definition tree_len :: "u64 \<Rightarrow> nat option" where
  "tree_len n_max = map_option unat (Option.bind (checked_mul n_max 2) (\<lambda>v. checked_sub v 1))"

definition child_index :: "nat \<Rightarrow> nat \<Rightarrow> nat option" where
  "child_index node k = (if 2 * node + k \<le> usize_max then Some (2 * node + k) else None)"

definition slice_get :: "'a list \<Rightarrow> nat \<Rightarrow> 'a option" where
  "slice_get xs i = (if i < length xs then Some (xs ! i) else None)"

section \<open>The hash of a tree\<close>

definition leaf_hash_args :: "u64 \<Rightarrow> nat \<Rightarrow> bytes \<Rightarrow> cbor" where
  "leaf_hash_args n_max node pk =
     cstruct [(''n_max'', cu64 n_max), (''node_index'', cu64 (of_nat node)), (''pk'', CBytes pk)]"

definition node_hash_args :: "u64 \<Rightarrow> nat \<Rightarrow> bytes \<Rightarrow> hash32 \<Rightarrow> hash32 \<Rightarrow> cbor" where
  "node_hash_args n_max node pk left_hash right_hash =
     cstruct [(''n_max'', cu64 n_max), (''node_index'', cu64 (of_nat node)), (''pk'', CBytes pk),
       (''left_hash'', CBytes left_hash), (''right_hash'', CBytes right_hash)]"

lemma tryE_cong [fundef_cong]: "m = m' \<Longrightarrow> (\<And>x. m' = Inr x \<Longrightarrow> f x = f' x) \<Longrightarrow> tryE m f = tryE m' f'"
  by (cases m') auto

lemma tryS_cong [fundef_cong]:
  "m s = m' s' \<Longrightarrow> (\<And>x t. m' s' = (Inr x, t) \<Longrightarrow> f x t = f' x t) \<Longrightarrow> tryS m f s = tryS m' f' s'"
  by (cases "m' s'"; cases "fst (m' s')") (auto simp: tryS_def)

abbreviation node_missing :: CityGError where
  "node_missing \<equiv> CgInvalidInput ''barrier node index out of range''"

abbreviation index_overflow :: CityGError where
  "index_overflow \<equiv> CgInvalidInput ''barrier tree index overflow''"

function compute_barrier_tree_hash_recursive :: "Ext \<Rightarrow> nat \<Rightarrow> u64 \<Rightarrow> nat \<Rightarrow> bytes list \<Rightarrow> CityGError + hash32" where
  "compute_barrier_tree_hash_recursive E node n_max n_max_usize es =
     tryE (ok_or node_missing (slice_get es node)) (\<lambda>pk.
     if n_max_usize - 1 \<le> node then map_err CgMsphf (h_l E ''barrier/tree/leaf-hash'' (leaf_hash_args n_max node pk))
     else
       tryE (ok_or index_overflow (child_index node 1)) (\<lambda>left.
       tryE (ok_or index_overflow (child_index node 2)) (\<lambda>right.
       tryE (compute_barrier_tree_hash_recursive E left n_max n_max_usize es) (\<lambda>left_hash.
       tryE (compute_barrier_tree_hash_recursive E right n_max n_max_usize es) (\<lambda>right_hash.
       map_err CgMsphf (h_l E ''barrier/tree/node-hash'' (node_hash_args n_max node pk left_hash right_hash)))))))"
  by pat_completeness auto
termination
  by (relation "measure (\<lambda>(E, node, n_max, u, es). length es - node)")
    (auto simp: result_simps slice_get_def child_index_def split: if_splits)

definition compute_barrier_tree_hash :: "Ext \<Rightarrow> u64 \<Rightarrow> bytes list \<Rightarrow> CityGError + hash32" where
  "compute_barrier_tree_hash E n_max es =
     tryE (ok_or (CgInvalidInput ''barrier tree size overflow'') (tree_len n_max)) (\<lambda>expected_len.
     tryE (ensure (length es = expected_len) (CgInvalidInput ''barrier tree size mismatch'')) (\<lambda>_.
     compute_barrier_tree_hash_recursive E 0 n_max (unat n_max) es))"

section \<open>The incremental hash\<close>

type_synonym BarrierHashCache = "nat \<rightharpoonup> hash32"

function compute_barrier_subtree_hash_cached ::
  "Ext \<Rightarrow> nat \<Rightarrow> u64 \<Rightarrow> nat \<Rightarrow> bytes list \<Rightarrow> BarrierHashCache option \<Rightarrow> BarrierHashCache \<Rightarrow>
     (CityGError + hash32) \<times> BarrierHashCache" where
  "compute_barrier_subtree_hash_cached E node n_max n_max_usize es base cache =
     (case cache node of Some existing \<Rightarrow> (Inr existing, cache) | None \<Rightarrow>
      case Option.bind base (\<lambda>hashes. hashes node) of Some existing \<Rightarrow> (Inr existing, cache) | None \<Rightarrow>
      tryS (liftS (\<lambda>_. ok_or node_missing (slice_get es node))) (\<lambda>pk.
      tryS (\<lambda>c.
        if n_max_usize - 1 \<le> node
        then (map_err CgMsphf (h_l E ''barrier/tree/leaf-hash'' (leaf_hash_args n_max node pk)), c)
        else
          tryS (liftS (\<lambda>_. ok_or index_overflow (child_index node 1))) (\<lambda>left.
          tryS (liftS (\<lambda>_. ok_or index_overflow (child_index node 2))) (\<lambda>right.
          tryS (\<lambda>c. compute_barrier_subtree_hash_cached E left n_max n_max_usize es base c) (\<lambda>left_hash.
          tryS (\<lambda>c. compute_barrier_subtree_hash_cached E right n_max n_max_usize es base c) (\<lambda>right_hash.
          liftS (\<lambda>_. map_err CgMsphf
            (h_l E ''barrier/tree/node-hash'' (node_hash_args n_max node pk left_hash right_hash))))))) c)
        (\<lambda>hash c. (Inr hash, c(node \<mapsto> hash)))) cache)"
  by pat_completeness auto
termination
  by (relation "measure (\<lambda>(E, node, n_max, u, es, base, cache). length es - node)")
    (auto simp: result_simps eff_simps slice_get_def child_index_def split: if_splits)

record BarrierHashAfterInput =
  hi_n_max :: u64
  hi_n_max_usize :: nat
  hi_updated_entries :: "bytes list"
  hi_impacted_nodes :: "nat set"
  hi_base_before_cache :: "BarrierHashCache option"

text \<open>The state is the pair of the caches for the tree before and after the change.\<close>
function compute_barrier_subtree_hash_after_changes ::
  "Ext \<Rightarrow> nat \<Rightarrow> BarrierHashAfterInput \<Rightarrow> BarrierHashCache \<times> BarrierHashCache \<Rightarrow>
     (CityGError + hash32) \<times> BarrierHashCache \<times> BarrierHashCache" where
  "compute_barrier_subtree_hash_after_changes E node input caches =
     (case snd caches node of Some existing \<Rightarrow> (Inr existing, caches) | None \<Rightarrow>
      if node \<notin> hi_impacted_nodes input then
        (case compute_barrier_subtree_hash_cached E node (hi_n_max input) (hi_n_max_usize input) (hi_updated_entries input)
                (hi_base_before_cache input) (fst caches) of
           (r, before) \<Rightarrow> (r, (before, snd caches)))
      else
      tryS (liftS (\<lambda>_. ok_or node_missing (slice_get (hi_updated_entries input) node))) (\<lambda>pk.
      tryS (\<lambda>c.
        if hi_n_max_usize input - 1 \<le> node
        then (map_err CgMsphf (h_l E ''barrier/tree/leaf-hash'' (leaf_hash_args (hi_n_max input) node pk)), c)
        else
          tryS (liftS (\<lambda>_. ok_or index_overflow (child_index node 1))) (\<lambda>left.
          tryS (liftS (\<lambda>_. ok_or index_overflow (child_index node 2))) (\<lambda>right.
          tryS (\<lambda>c. compute_barrier_subtree_hash_after_changes E left input c) (\<lambda>left_hash.
          tryS (\<lambda>c. compute_barrier_subtree_hash_after_changes E right input c) (\<lambda>right_hash.
          liftS (\<lambda>_. map_err CgMsphf
            (h_l E ''barrier/tree/node-hash'' (node_hash_args (hi_n_max input) node pk left_hash right_hash))))))) c)
        (\<lambda>hash c. (Inr hash, (fst c, (snd c)(node \<mapsto> hash))))) caches)"
  by pat_completeness auto
termination
  by (relation "measure (\<lambda>(E, node, input, caches). length (hi_updated_entries input) - node)")
    (auto simp: result_simps eff_simps slice_get_def child_index_def split: if_splits)

definition impacted_nodes :: "nat set \<Rightarrow> nat set" where
  "impacted_nodes changed = (\<Union>node\<in>changed. set (tree_path node))"

definition compute_barrier_tree_hash_with_changes ::
  "Ext \<Rightarrow> u64 \<Rightarrow> bytes list \<Rightarrow> nat set \<Rightarrow> BarrierHashCache option \<Rightarrow> BarrierHashCache \<Rightarrow>
     (CityGError + hash32 \<times> BarrierHashCache) \<times> BarrierHashCache" where
  "compute_barrier_tree_hash_with_changes E n_max updated changed base before =
     (case tree_len n_max of
        None \<Rightarrow> (Inl (CgInvalidInput ''barrier tree size overflow''), before)
      | Some expected_len \<Rightarrow>
          if length updated \<noteq> expected_len then (Inl (CgInvalidInput ''barrier tree size mismatch''), before)
          else if changed = {} then (tryE (compute_barrier_tree_hash E n_max updated) (\<lambda>root. Inr (root, Map.empty)), before)
          else if (\<exists>node\<in>changed. expected_len \<le> node) then (Inl node_missing, before)
          else
            case compute_barrier_subtree_hash_after_changes E 0
                   \<lparr>hi_n_max = n_max, hi_n_max_usize = unat n_max, hi_updated_entries = updated,
                    hi_impacted_nodes = impacted_nodes changed, hi_base_before_cache = base\<rparr> (before, Map.empty) of
              (r, (before, after)) \<Rightarrow> (tryE r (\<lambda>root. Inr (root, after)), before))"

declare compute_barrier_tree_hash_recursive.simps [simp del]
declare compute_barrier_subtree_hash_cached.simps [simp del]
declare compute_barrier_subtree_hash_after_changes.simps [simp del]

section \<open>Resolution and expected ciphertexts\<close>

definition compute_barrier_pkhash :: "Ext \<Rightarrow> bytes \<Rightarrow> CityGError + hash32" where
  "compute_barrier_pkhash E ek = map_err CgMsphf (h_l E ''barrier/pk-hash'' (CBytes ek))"

definition sibling_node :: "nat \<Rightarrow> nat option" where
  "sibling_node node = (if node = 0 then None else if even node then Some (node - 1) else Some (node + 1))"

function collect_resolution_nodes :: "bytes list \<Rightarrow> nat \<Rightarrow> nat \<Rightarrow> nat list" where
  "collect_resolution_nodes es node leaf_base =
     (if length es \<le> node then []
      else if es ! node \<noteq> [] then [node]
      else if leaf_base \<le> node then []
      else collect_resolution_nodes es (2 * node + 1) leaf_base @ collect_resolution_nodes es (2 * node + 2) leaf_base)"
  by pat_completeness auto
termination
  by (relation "measure (\<lambda>(es, node, leaf_base). length es - node)") auto

declare collect_resolution_nodes.simps [simp del]

fun step_pairs :: "bytes list \<Rightarrow> nat \<Rightarrow> u64 list \<Rightarrow> CityGError + (u64 \<times> u64) list" where
  "step_pairs es leaf_base (child # source # rest) =
     tryE (ok_or (CgInvalidInput ''barrier_update malformed'') (sibling_node (unat child))) (\<lambda>sibling.
     tryE (step_pairs es leaf_base (source # rest)) (\<lambda>pairs.
     Inr (map (\<lambda>target. (source, of_nat target)) (sort (collect_resolution_nodes es sibling leaf_base)) @ pairs)))"
| "step_pairs es leaf_base _ = Inr []"

definition collect_expected_pairs :: "bytes list \<Rightarrow> u64 list \<Rightarrow> u64 \<Rightarrow> CityGError + (u64 \<times> u64) list" where
  "collect_expected_pairs es path_nodes n_max =
     (if length path_nodes < 2 then Inr []
      else tryE (step_pairs es (unat (saturating_sub n_max 1)) path_nodes) (\<lambda>pairs. Inr (sort pairs)))"

section \<open>Blanking a path\<close>

definition clear_barrier_path :: "bytes list \<Rightarrow> nat \<Rightarrow> bool \<Rightarrow> bytes list" where
  "clear_barrier_path es leaf_node include_leaf =
     fold (\<lambda>node es. es[node := []]) (if include_leaf then tree_path leaf_node else tl (tree_path leaf_node)) es"

section \<open>Lemmas on paths\<close>

text \<open>The nodes above a node, itself included, are the elements of its path.\<close>
abbreviation below :: "nat \<Rightarrow> nat \<Rightarrow> bool" where
  "below node j \<equiv> node \<in> set (tree_path j)"

lemma below_refl [simp]: "below j j"
  by (simp add: tree_path.simps [of j])

lemma root_below [simp]: "below 0 j"
  by (metis last_in_set last_tree_path tree_path_ne(1))

lemma below_le: "below i j \<Longrightarrow> i \<le> j"
  by (rule tree_path_le)

lemma below_step: "below i j \<longleftrightarrow> i = j \<or> 0 < j \<and> below i ((j - 1) div 2)"
  by (cases "j = 0") (auto simp: tree_path_pos)

lemma below_parent: "below x j \<Longrightarrow> 0 < x \<Longrightarrow> below ((x - 1) div 2) j"
proof (induction j rule: tree_path.induct)
  case (1 j)
  show ?case
  proof (cases "x = j")
    case True
    then show ?thesis
      using 1(3) by (auto simp: below_step [of _ j])
  next
    case False
    then have "0 < j" "below x ((j - 1) div 2)"
      using 1(2) by (auto simp: below_step [of x j])
    then show ?thesis
      using 1(1) 1(3) by (auto simp: below_step [of _ j])
  qed
qed

lemma below_child: "below (Suc (2 * n)) j \<Longrightarrow> below n j" "below (Suc (Suc (2 * n))) j \<Longrightarrow> below n j"
  using below_parent [of "Suc (2 * n)" j] below_parent [of "Suc (Suc (2 * n))" j] by simp_all

lemma below_trans: "below i j \<Longrightarrow> below j k \<Longrightarrow> below i k"
proof (induction k rule: tree_path.induct)
  case (1 k)
  then show ?case
    by (auto simp: below_step [of _ k])
qed

text \<open>A node below another one is it, or is below one of its children, never both.\<close>
lemma below_cases:
  "below i j \<longleftrightarrow> i = j \<or> below (2 * i + 1) j \<or> below (2 * i + 2) j"
proof (induction j rule: tree_path.induct)
  case (1 j)
  show ?case
  proof (cases "j = 0")
    case True
    then show ?thesis
      by auto
  next
    case False
    have par: "i = (j - 1) div 2 \<longleftrightarrow> 2 * i + 1 = j \<or> 2 * i + 2 = j"
      using False by presburger
    show ?thesis
      using 1 [OF False] False par unfolding below_step [of _ j] by blast
  qed
qed

lemma below_siblings: "\<not> (below (2 * i + 1) j \<and> below (2 * i + 2) j)"
proof (induction j rule: tree_path.induct)
  case (1 j)
  have a: "\<not> below (2 * i + 2) ((j - 1) div 2)" if "j = 2 * i + 1"
    using that below_le [of "2 * i + 2" i] by auto
  have b: "\<not> below (2 * i + 1) ((j - 1) div 2)" if "j = 2 * i + 2"
    using that below_le [of "2 * i + 1" i] by auto
  show ?case
    using 1 a b unfolding below_step [of _ j] by auto
qed

section \<open>Lemmas on the hash\<close>

lemma slice_get_Some: "slice_get xs i = Some x \<longleftrightarrow> i < length xs \<and> x = xs ! i"
  by (auto simp: slice_get_def)

lemma child_index_Some: "child_index n k = Some m \<longleftrightarrow> m = 2 * n + k \<and> 2 * n + k \<le> usize_max"
  by (auto simp: child_index_def)

lemma tree_induct [case_names node]:
  assumes "\<And>node. (node < len \<Longrightarrow> P (2 * node + 1)) \<Longrightarrow> (node < len \<Longrightarrow> P (2 * node + 2)) \<Longrightarrow> P node"
  shows "P (node :: nat)"
proof (induction "len - node" arbitrary: node rule: less_induct)
  case less
  show ?case
    by (rule assms) (auto intro!: less)
qed

abbreviation tree_hash :: "Ext \<Rightarrow> u64 \<Rightarrow> bytes list \<Rightarrow> nat \<Rightarrow> CityGError + hash32" where
  "tree_hash E n es node \<equiv> compute_barrier_tree_hash_recursive E node n (unat n) es"

text \<open>The recursion equation, with the outcome of the two calls as parameters.\<close>
definition hash_step ::
  "Ext \<Rightarrow> u64 \<Rightarrow> bytes list \<Rightarrow> nat \<Rightarrow> CityGError + hash32 \<Rightarrow> CityGError + hash32 \<Rightarrow> CityGError + hash32" where
  "hash_step E n es node l r =
     tryE (ok_or node_missing (slice_get es node)) (\<lambda>pk.
     if unat n - 1 \<le> node then map_err CgMsphf (h_l E ''barrier/tree/leaf-hash'' (leaf_hash_args n node pk))
     else
       tryE (ok_or index_overflow (child_index node 1)) (\<lambda>_.
       tryE (ok_or index_overflow (child_index node 2)) (\<lambda>_.
       tryE l (\<lambda>left_hash. tryE r (\<lambda>right_hash.
       map_err CgMsphf (h_l E ''barrier/tree/node-hash'' (node_hash_args n node pk left_hash right_hash)))))))"

lemma tree_hash_step:
  "tree_hash E n es node = hash_step E n es node (tree_hash E n es (2 * node + 1)) (tree_hash E n es (2 * node + 2))"
  unfolding hash_step_def
  by (subst compute_barrier_tree_hash_recursive.simps)
    (auto simp: child_index_def slice_get_def ok_or_def intro!: tryE_cong split: option.splits)

text \<open>A subtree hash depends on the entries of the subtree only.\<close>
lemma tree_hash_local:
  assumes "length es' = length es"
    and "\<And>j. j < length es \<Longrightarrow> below node j \<Longrightarrow> es' ! j = es ! j"
  shows "tree_hash E n es' node = tree_hash E n es node"
  using assms(2)
proof (induction node rule: tree_induct [of "length es"])
  case (node node)
  have g: "slice_get es' node = slice_get es node"
    using node(3) [of node] assms(1) by (auto simp: slice_get_def)
  show ?case
  proof (cases "node < length es")
    case True
    have "below node j" if "below (2 * node + 1) j \<or> below (2 * node + 2) j" for j
      using that by (auto simp: below_cases [of node])
    then show ?thesis
      unfolding tree_hash_step [of E node n es'] tree_hash_step [of E node n es]
      using node(1) [OF True] node(2) [OF True] node(3) g by (simp add: hash_step_def)
  next
    case False
    then show ?thesis
      unfolding tree_hash_step [of E node n es'] tree_hash_step [of E node n es]
      using assms(1) by (simp add: hash_step_def slice_get_def ok_or_def)
  qed
qed

section \<open>The incremental hash is the hash\<close>

definition cache_ok :: "Ext \<Rightarrow> u64 \<Rightarrow> bytes list \<Rightarrow> nat set \<Rightarrow> BarrierHashCache \<Rightarrow> bool" where
  "cache_ok E n es S c \<longleftrightarrow> (\<forall>node\<in>S. \<forall>h. c node = Some h \<longrightarrow> tree_hash E n es node = Inr h)"

definition child_closed :: "nat set \<Rightarrow> bool" where
  "child_closed S \<longleftrightarrow> (\<forall>node\<in>S. 2 * node + 1 \<in> S \<and> 2 * node + 2 \<in> S)"

text \<open>The common shape of the two cached recursions: the same step, run on a state, with an update of the cache at the end.\<close>
definition hash_stepS ::
  "Ext \<Rightarrow> u64 \<Rightarrow> bytes list \<Rightarrow> nat \<Rightarrow> ('s, CityGError, hash32) eff \<Rightarrow> ('s, CityGError, hash32) eff \<Rightarrow> (hash32 \<Rightarrow> 's \<Rightarrow> 's) \<Rightarrow>
     ('s, CityGError, hash32) eff" where
  "hash_stepS E n es node ml mr put =
     tryS (liftS (\<lambda>_. ok_or node_missing (slice_get es node))) (\<lambda>pk.
     tryS (\<lambda>c.
       if unat n - 1 \<le> node then (map_err CgMsphf (h_l E ''barrier/tree/leaf-hash'' (leaf_hash_args n node pk)), c)
       else
         tryS (liftS (\<lambda>_. ok_or index_overflow (child_index node 1))) (\<lambda>_.
         tryS (liftS (\<lambda>_. ok_or index_overflow (child_index node 2))) (\<lambda>_.
         tryS ml (\<lambda>left_hash. tryS mr (\<lambda>right_hash.
         liftS (\<lambda>_. map_err CgMsphf
           (h_l E ''barrier/tree/node-hash'' (node_hash_args n node pk left_hash right_hash))))))) c)
       (\<lambda>hash c. (Inr hash, put hash c)))"

lemma hash_stepS_out:
  "length es \<le> node \<Longrightarrow> hash_stepS E n es node ml mr put s = (Inl node_missing, s)"
  "length es \<le> node \<Longrightarrow> hash_step E n es node l r = Inl node_missing"
  by (simp_all add: hash_stepS_def hash_step_def slice_get_def ok_or_def tryS_def liftS_def)

lemma hash_stepS_leaf:
  assumes "node < length es" "unat n - 1 \<le> node"
  shows "hash_stepS E n es node ml mr put s = (case hash_step E n es node l r of Inl e \<Rightarrow> (Inl e, s) | Inr h \<Rightarrow> (Inr h, put h s))"
  using assms by (simp add: hash_stepS_def hash_step_def slice_get_def ok_or_def tryS_def liftS_def split: sum.splits)

lemma hash_stepS_inner:
  assumes "ml s = (rl, t)" "mr t = (rr, u)" "node < length es" "node < unat n - 1"
  shows "hash_stepS E n es node ml mr put s = (case hash_step E n es node rl rr of
     Inl e \<Rightarrow> (Inl e, if usize_max < 2 * node + 2 then s else if isl rl then t else u) | Inr h \<Rightarrow> (Inr h, put h u))"
  using assms by (cases rl; cases rr)
    (auto simp: hash_stepS_def hash_step_def slice_get_def child_index_def ok_or_def tryS_def liftS_def not_less split: sum.splits)

lemma hash_step_inner_Inr:
  "hash_step E n es node l r = Inr h \<Longrightarrow> node < unat n - 1 \<Longrightarrow> \<exists>a b. l = Inr a \<and> r = Inr b"
  by (auto simp: hash_step_def result_simps split: if_splits)

lemma hash_stepS_run:
  assumes "ml s = (rl, t)" "mr t = (rr, u)" "hash_stepS E n es node ml mr put s = (q, v)"
  obtains (out) "length es \<le> node" "v = s" "q = hash_step E n es node x y" "\<exists>e. q = Inl e"
  | (fail) "node < length es" "v = s \<or> v = t \<or> v = u" "q = hash_step E n es node rl rr" "\<exists>e. q = Inl e"
  | (leaf) h where "node < length es" "unat n - 1 \<le> node" "v = put h s" "q = hash_step E n es node rl rr" "q = Inr h"
  | (inner) h l r where "node < length es" "node < unat n - 1" "v = put h u" "q = hash_step E n es node rl rr" "q = Inr h"
      "rl = Inr l" "rr = Inr r"
proof -
  consider (a) "length es \<le> node" | (b) "node < length es" "unat n - 1 \<le> node" | (c) "node < length es" "node < unat n - 1"
    by linarith
  then show thesis
  proof cases
    case a
    then show thesis
      using assms(3) by (intro out) (auto simp: hash_stepS_out)
  next
    case b
    note run = hash_stepS_leaf [OF b, of E ml mr put s rl rr, unfolded assms(3)]
    show thesis
    proof (cases "hash_step E n es node rl rr")
      case (Inl e)
      then show thesis using run b by (intro fail) auto
    next
      case (Inr h)
      then show thesis using run b by (intro leaf [of h]) auto
    qed
  next
    case c
    note run = hash_stepS_inner [of ml s rl t mr rr u, OF assms(1,2) c, of E put, unfolded assms(3)]
    show thesis
    proof (cases "hash_step E n es node rl rr")
      case (Inl e)
      then show thesis using run c by (intro fail) auto
    next
      case (Inr h)
      with hash_step_inner_Inr c(2) obtain l r where "rl = Inr l" "rr = Inr r" by blast
      with Inr show thesis using run c by (intro inner [of h l r]) auto
    qed
  qed
qed

lemma cached_step:
  assumes "c node = None" "Option.bind base (\<lambda>b. b node) = None"
  shows "compute_barrier_subtree_hash_cached E node n (unat n) es base c =
     hash_stepS E n es node (compute_barrier_subtree_hash_cached E (2 * node + 1) n (unat n) es base)
       (compute_barrier_subtree_hash_cached E (2 * node + 2) n (unat n) es base) (\<lambda>h c. c(node \<mapsto> h)) c"
  unfolding hash_stepS_def
  by (subst compute_barrier_subtree_hash_cached.simps)
    (auto simp: assms tryS_def liftS_def child_index_def ok_or_def split: option.splits)

lemma cached_hash:
  assumes "child_closed S" "\<And>b. base = Some b \<Longrightarrow> cache_ok E n es S b"
    and "node \<in> S" "cache_ok E n es S c"
    and "compute_barrier_subtree_hash_cached E node n (unat n) es base c = (r, c')"
  shows "r = tree_hash E n es node \<and> cache_ok E n es S c' \<and> (\<forall>i. i \<notin> S \<longrightarrow> c' i = c i)"
  using assms(3-)
proof (induction node arbitrary: c r c' rule: tree_induct [of "length es"])
  case (node node)
  let ?m = "\<lambda>i. compute_barrier_subtree_hash_cached E i n (unat n) es base"
  show ?case
  proof (cases "c node = None \<and> Option.bind base (\<lambda>b. b node) = None")
    case False
    then show ?thesis
      using node(3-) assms(2)
      by (cases "c node")
        (auto simp: compute_barrier_subtree_hash_cached.simps [of E node] cache_ok_def bind_eq_Some_conv)
  next
    case True
    obtain rl t where l: "?m (2 * node + 1) c = (rl, t)"
      by (metis surj_pair)
    obtain rr u where r: "?m (2 * node + 2) t = (rr, u)"
      by (metis surj_pair)
    have kids: "2 * node + 1 \<in> S" "2 * node + 2 \<in> S"
      using assms(1) node(3) by (auto simp: child_closed_def)
    have L: "rl = tree_hash E n es (2 * node + 1) \<and> cache_ok E n es S t \<and> (\<forall>i. i \<notin> S \<longrightarrow> t i = c i)" if "node < length es"
      by (rule node(1) [OF that kids(1) node(4) l])
    then have R: "rr = tree_hash E n es (2 * node + 2) \<and> cache_ok E n es S u \<and> (\<forall>i. i \<notin> S \<longrightarrow> u i = t i)" if "node < length es"
      using node(2) [OF that kids(2) _ r] that by blast
    from node(5) True have "hash_stepS E n es node (?m (2 * node + 1)) (?m (2 * node + 2)) (\<lambda>h c. c(node \<mapsto> h)) c = (r, c')"
      by (simp only: cached_step)
    with l r show ?thesis
    proof (cases rule: hash_stepS_run [where x = "tree_hash E n es (2 * node + 1)" and y = "tree_hash E n es (2 * node + 2)"])
      case out
      then show ?thesis
        using node(4) by (auto simp: tree_hash_step [of E node])
    next
      case fail
      then show ?thesis
        using node(4) L R by (auto simp: tree_hash_step [of E node])
    next
      case (leaf h)
      then show ?thesis
        using node(3,4) L R by (auto simp: cache_ok_def tree_hash_step [of E node])
    next
      case (inner h a b)
      then show ?thesis
        using node(3,4) L R by (auto simp: cache_ok_def tree_hash_step [of E node])
    qed
  qed
qed

text \<open>A run of the cached recursion only adds hashes, and one that succeeds from an empty cache has them all.\<close>
definition filled :: "nat \<Rightarrow> BarrierHashCache \<Rightarrow> bool" where
  "filled len c \<longleftrightarrow> (\<forall>k i. c k \<noteq> None \<longrightarrow> below k i \<longrightarrow> i < len \<longrightarrow> c i \<noteq> None)"

lemma filled_put:
  assumes "filled len c" "\<forall>i<len. below (2 * node + 1) i \<longrightarrow> c i \<noteq> None" "\<forall>i<len. below (2 * node + 2) i \<longrightarrow> c i \<noteq> None"
  shows "filled len (c(node \<mapsto> h)) \<and> (\<forall>i<len. below node i \<longrightarrow> (c(node \<mapsto> h)) i \<noteq> None)"
  using assms by (auto simp: filled_def below_cases [of node])

lemma cached_mono:
  "compute_barrier_subtree_hash_cached E node n (unat n) es base c = (r, c') \<Longrightarrow> dom c \<subseteq> dom c'"
proof (induction node arbitrary: c r c' rule: tree_induct [of "length es"])
  case (node node)
  let ?m = "\<lambda>i. compute_barrier_subtree_hash_cached E i n (unat n) es base"
  show ?case
  proof (cases "c node = None \<and> Option.bind base (\<lambda>b. b node) = None")
    case False
    then show ?thesis
      using node(3) by (cases "c node") (auto simp: compute_barrier_subtree_hash_cached.simps [of E node] split: option.splits)
  next
    case True
    obtain rl t rr u where run: "?m (2 * node + 1) c = (rl, t)" "?m (2 * node + 2) t = (rr, u)"
      by (metis surj_pair)
    from node(3) True have "hash_stepS E n es node (?m (2 * node + 1)) (?m (2 * node + 2)) (\<lambda>h c. c(node \<mapsto> h)) c = (r, c')"
      by (simp only: cached_step)
    with run show ?thesis
      by (cases rule: hash_stepS_run [where x = rl and y = rr]) (use node(1,2) run in \<open>fastforce+\<close>)
  qed
qed

lemma cached_fills:
  assumes "length es \<le> 2 * unat n - 1"
  shows "compute_barrier_subtree_hash_cached E node n (unat n) es None c = (Inr h, c') \<Longrightarrow> filled (length es) c \<Longrightarrow>
     filled (length es) c' \<and> (\<forall>i<length es. below node i \<longrightarrow> c' i \<noteq> None)"
proof (induction node arbitrary: c h c' rule: tree_induct [of "length es"])
  case (node node)
  let ?m = "\<lambda>i. compute_barrier_subtree_hash_cached E i n (unat n) es None"
  show ?case
  proof (cases "c node")
    case (Some x)
    then show ?thesis
      using node(3,4) by (auto simp: compute_barrier_subtree_hash_cached.simps [of E node] filled_def)
  next
    case None
    obtain rl t rr u where run: "?m (2 * node + 1) c = (rl, t)" "?m (2 * node + 2) t = (rr, u)"
      by (metis surj_pair)
    from node(3) None have "hash_stepS E n es node (?m (2 * node + 1)) (?m (2 * node + 2)) (\<lambda>h c. c(node \<mapsto> h)) c = (Inr h, c')"
      by (simp add: cached_step)
    with run show ?thesis
    proof (cases rule: hash_stepS_run [where x = rl and y = rr])
      case (leaf x)
      have "\<not> below (2 * node + 1) i \<and> \<not> below (2 * node + 2) i" if "i < length es" for i
        using that leaf(2) assms below_le [of "2 * node + 1" i] below_le [of "2 * node + 2" i] by linarith
      then show ?thesis
        unfolding leaf(3) using node(4) by (intro filled_put) auto
    next
      case (inner x a b)
      have "filled (length es) t \<and> (\<forall>i<length es. below (2 * node + 1) i \<longrightarrow> t i \<noteq> None)"
        using node(1) [OF inner(1)] run(1) inner(6) node(4) by blast
      moreover from this have "filled (length es) u \<and> (\<forall>i<length es. below (2 * node + 2) i \<longrightarrow> u i \<noteq> None)"
        using node(2) [OF inner(1)] run(2) inner(7) by blast
      moreover have "dom t \<subseteq> dom u"
        using cached_mono run(2) .
      ultimately show ?thesis
        unfolding inner(3) by (intro filled_put) (auto simp: domIff subset_iff)
    qed auto
  qed
qed

text \<open>The caches during an incremental run: the first is right outside the impacted nodes, the second is right everywhere
  and has, with a node, every impacted node below it.\<close>
definition caches_ok :: "Ext \<Rightarrow> u64 \<Rightarrow> bytes list \<Rightarrow> nat set \<Rightarrow> BarrierHashCache \<times> BarrierHashCache \<Rightarrow> bool" where
  "caches_ok E n es I cs \<longleftrightarrow> cache_ok E n es (- I) (fst cs) \<and> cache_ok E n es UNIV (snd cs) \<and>
     (\<forall>k i. snd cs k \<noteq> None \<longrightarrow> below k i \<longrightarrow> i \<in> I \<longrightarrow> snd cs i \<noteq> None)"

definition caches_le :: "nat set \<Rightarrow> BarrierHashCache \<times> BarrierHashCache \<Rightarrow> BarrierHashCache \<times> BarrierHashCache \<Rightarrow> bool" where
  "caches_le I cs cs' \<longleftrightarrow> (\<forall>i\<in>I. fst cs' i = fst cs i) \<and> dom (fst cs) \<subseteq> dom (fst cs') \<and> dom (snd cs) \<subseteq> dom (snd cs')"

lemma caches_le_trans: "caches_le I a b \<Longrightarrow> caches_le I b c \<Longrightarrow> caches_le I a c"
  unfolding caches_le_def using order_trans [of "dom _"] by metis

lemma caches_le_refl [simp]: "caches_le I cs cs"
  by (simp add: caches_le_def)

lemma caches_le_put [simp]: "caches_le I cs (fst cs, (snd cs)(node \<mapsto> h))"
  by (auto simp: caches_le_def)

text \<open>The impacted nodes: with a node every node above it, and none outside the tree.\<close>
definition impact_ok :: "u64 \<Rightarrow> nat set \<Rightarrow> bool" where
  "impact_ok n I \<longleftrightarrow> (\<forall>i\<in>I. i < 2 * unat n - 1 \<and> (\<forall>k. below k i \<longrightarrow> k \<in> I))"

definition covers :: "nat set \<Rightarrow> nat \<Rightarrow> BarrierHashCache \<Rightarrow> bool" where
  "covers I node a \<longleftrightarrow> (\<forall>i\<in>I. below node i \<longrightarrow> a i \<noteq> None)"

lemma caches_put:
  assumes "caches_ok E n es I cs" "tree_hash E n es node = Inr h" "node \<in> I"
    and "covers I (2 * node + 1) (snd cs)" "covers I (2 * node + 2) (snd cs)"
  shows "caches_ok E n es I (fst cs, (snd cs)(node \<mapsto> h))" "covers I node ((snd cs)(node \<mapsto> h))"
proof -
  show c: "covers I node ((snd cs)(node \<mapsto> h))"
    using assms(4,5) by (auto simp: covers_def below_cases [of node])
  then show "caches_ok E n es I (fst cs, (snd cs)(node \<mapsto> h))"
    using assms(1,2) by (auto simp: caches_ok_def cache_ok_def covers_def)
qed

lemma leaf_covers:
  assumes "impact_ok n I" "unat n - 1 \<le> node"
  shows "covers I (2 * node + 1) a" "covers I (2 * node + 2) a"
  using assms below_le by (fastforce simp: impact_ok_def covers_def)+

lemma after_step:
  assumes "snd cs node = None" "node \<in> hi_impacted_nodes input" "hi_n_max_usize input = unat (hi_n_max input)"
  shows "compute_barrier_subtree_hash_after_changes E node input cs =
     hash_stepS E (hi_n_max input) (hi_updated_entries input) node
       (compute_barrier_subtree_hash_after_changes E (2 * node + 1) input)
       (compute_barrier_subtree_hash_after_changes E (2 * node + 2) input) (\<lambda>h c. (fst c, (snd c)(node \<mapsto> h))) cs"
  unfolding hash_stepS_def
  by (subst compute_barrier_subtree_hash_after_changes.simps)
    (auto simp: assms tryS_def liftS_def child_index_def ok_or_def split: option.splits)

lemma after_changes_hash:
  assumes I: "impact_ok n I"
    and base: "\<And>b. base = Some b \<Longrightarrow> cache_ok E n es (- I) b"
    and input: "input = \<lparr>hi_n_max = n, hi_n_max_usize = unat n, hi_updated_entries = es, hi_impacted_nodes = I,
      hi_base_before_cache = base\<rparr>"
    and "caches_ok E n es I cs"
    and "compute_barrier_subtree_hash_after_changes E node input cs = (r, cs')"
  shows "r = tree_hash E n es node \<and> caches_ok E n es I cs' \<and> caches_le I cs cs' \<and>
     ((\<exists>h. r = Inr h) \<longrightarrow> covers I node (snd cs'))"
  using assms(4-)
proof (induction node arbitrary: cs r cs' rule: tree_induct [of "length es"])
  case (node node)
  let ?m = "\<lambda>i. compute_barrier_subtree_hash_after_changes E i input"
  consider (hit) h where "snd cs node = Some h" | (old) "snd cs node = None" "node \<notin> I" | (new) "snd cs node = None" "node \<in> I"
    by blast
  then show ?case
  proof cases
    case hit
    then show ?thesis
      using node(3-) by (auto simp: compute_barrier_subtree_hash_after_changes.simps [of E node] caches_ok_def cache_ok_def
          caches_le_def covers_def)
  next
    case old
    have S: "child_closed (- I)"
      using I by (auto simp: child_closed_def impact_ok_def) (metis below_child below_refl)+
    obtain b' where run: "compute_barrier_subtree_hash_cached E node n (unat n) es base (fst cs) = (r, b')" "cs' = (b', snd cs)"
      using node(4) old by (auto simp: compute_barrier_subtree_hash_after_changes.simps [of E node] input split: prod.splits)
    have "cache_ok E n es (- I) (fst cs)"
      using node(3) by (simp add: caches_ok_def)
    from cached_hash [OF S base _ this run(1)] old(2)
    have "r = tree_hash E n es node \<and> cache_ok E n es (- I) b' \<and> (\<forall>i. i \<notin> - I \<longrightarrow> b' i = fst cs i)"
      by simp
    moreover have "covers I node a" for a
      using I old(2) by (auto simp: covers_def impact_ok_def)
    ultimately show ?thesis
      using node(3) run(2) cached_mono [OF run(1)] by (simp add: caches_ok_def caches_le_def)
  next
    case new
    obtain rl t where l: "?m (2 * node + 1) cs = (rl, t)"
      by (metis surj_pair)
    obtain rr u where r: "?m (2 * node + 2) t = (rr, u)"
      by (metis surj_pair)
    note L = node(1) [OF _ node(3) l]
    then have R: "rr = tree_hash E n es (2 * node + 2) \<and> caches_ok E n es I u \<and> caches_le I t u \<and>
        ((\<exists>h. rr = Inr h) \<longrightarrow> covers I (2 * node + 2) (snd u))" if "node < length es"
      using node(2) [OF that _ r] that by blast
    from node(4) new have "hash_stepS E n es node (?m (2 * node + 1)) (?m (2 * node + 2)) (\<lambda>h c. (fst c, (snd c)(node \<mapsto> h))) cs = (r, cs')"
      using after_step [of cs node input E] by (simp add: input)
    with l r show ?thesis
    proof (cases rule: hash_stepS_run [where x = "tree_hash E n es (2 * node + 1)" and y = "tree_hash E n es (2 * node + 2)"])
      case out
      then show ?thesis
        using node(3) by (auto simp: tree_hash_step [of E node])
    next
      case fail
      then show ?thesis
        using node(3) L R by (auto simp: tree_hash_step [of E node] intro: caches_le_trans)
    next
      case (leaf h)
      then have "tree_hash E n es node = Inr h"
        using L R by (simp add: tree_hash_step [of E node])
      from caches_put [OF node(3) this new(2) leaf_covers [OF I leaf(2)]] this show ?thesis
        unfolding leaf(3,5) by (simp del: fun_upd_apply)
    next
      case (inner h a b)
      then have *: "tree_hash E n es node = Inr h"
        using L R by (simp add: tree_hash_step [of E node])
      have "covers I (2 * node + 1) (snd u)"
        using L R inner by (auto simp: covers_def caches_le_def) blast
      moreover have "caches_ok E n es I u" "covers I (2 * node + 2) (snd u)" "caches_le I cs u"
        using L R inner by (auto intro: caches_le_trans)
      ultimately show ?thesis
        unfolding inner(3,5) using caches_put [of E n es I u node h] * new(2) caches_le_trans [OF _ caches_le_put]
        by (simp del: fun_upd_apply)
    qed
  qed
qed

lemma impact_ok_impacted: "(\<And>node. node \<in> changed \<Longrightarrow> node < 2 * unat n - 1) \<Longrightarrow> impact_ok n (impacted_nodes changed)"
  unfolding impact_ok_def impacted_nodes_def by (auto dest: below_trans) (metis below_le le_less_trans)

lemma tree_len_Some: "tree_len n = Some len \<longleftrightarrow> 2 * unat n < 2 ^ 64 \<and> n \<noteq> 0 \<and> len = 2 * unat n - 1"
proof (cases "2 * unat n < 2 ^ 64 \<and> n \<noteq> 0")
  case True
  then have d: "unat (n * 2) = 2 * unat n" and pos: "0 < unat n"
    using unat_mult_lem [of n 2] by (simp_all add: mult.commute unat_pos)
  then have le: "1 \<le> n * 2"
    by (simp add: word_le_nat_alt)
  have "checked_mul n 2 = Some (n * 2)"
    using True by (simp add: checked_mul_def mult.commute)
  moreover have "checked_sub (n * 2) 1 = Some (n * 2 - 1)"
    using le by (simp add: checked_sub_def)
  moreover have "unat (n * 2 - 1) = 2 * unat n - 1"
    by (simp only: unat_sub [OF le] d unat_1)
  ultimately have "tree_len n = Some (2 * unat n - 1)"
    by (simp add: tree_len_def)
  then show ?thesis
    using True by (metis option.inject)
next
  case False
  then have "checked_mul n 2 = None \<or> n = 0"
    by (auto simp: checked_mul_def mult.commute)
  then have "tree_len n = None"
    by (auto simp: tree_len_def checked_mul_def checked_sub_def)
  with False show ?thesis
    by (metis option.distinct(1))
qed

lemma outside_impacted:
  assumes "length old = length es" "\<And>i. i < length es \<Longrightarrow> i \<notin> changed \<Longrightarrow> es ! i = old ! i"
    and "cache_ok E n old S b"
  shows "cache_ok E n es (S - impacted_nodes changed) b"
proof -
  have "tree_hash E n es node = tree_hash E n old node" if "node \<notin> impacted_nodes changed" for node
    by (rule tree_hash_local) (use that assms in \<open>auto simp: impacted_nodes_def\<close>)
  then show ?thesis
    using assms(3) by (auto simp: cache_ok_def)
qed

lemma merged_cache:
  assumes "covers I 0 a" "cache_ok E n es (- I) m" "cache_ok E n es (- I) b" "cache_ok E n es UNIV a"
  shows "cache_ok E n es UNIV (m ++ b ++ a)"
  unfolding cache_ok_def
proof (intro ballI allI impI)
  fix node h
  assume h: "(m ++ b ++ a) node = Some h"
  show "tree_hash E n es node = Inr h"
  proof (cases "a node")
    case None
    then have "node \<in> - I"
      using assms(1) by (auto simp: covers_def)
    then show ?thesis
      using h None assms(2,3) by (cases "b node") (auto simp: cache_ok_def map_add_def)
  next
    case (Some x)
    then show ?thesis
      using h assms(4) by (auto simp: cache_ok_def)
  qed
qed

lemma with_changes_hash:
  assumes "length old = length es" "\<And>i. i < length es \<Longrightarrow> i \<notin> changed \<Longrightarrow> es ! i = old ! i"
    and "\<And>i. i \<in> changed \<Longrightarrow> i < length es"
    and "\<And>b. base = Some b \<Longrightarrow> cache_ok E n old UNIV b" "cache_ok E n old UNIV before"
    and "compute_barrier_tree_hash_with_changes E n es changed base before = (r, before')"
  shows "compute_barrier_tree_hash E n es = tryE r (\<lambda>(root, _). Inr root) \<and>
    (changed \<noteq> {} \<longrightarrow> (\<forall>root after. r = Inr (root, after) \<longrightarrow>
      cache_ok E n es UNIV ((case base of None \<Rightarrow> Map.empty | Some b \<Rightarrow> b) ++ before' ++ after) \<and>
      dom before \<subseteq> dom before' \<and> impacted_nodes changed \<subseteq> dom after))"
proof (cases "tree_len n = Some (length es) \<and> changed \<noteq> {}")
  case False
  then show ?thesis
    using assms(6) by (cases "tree_hash E n es 0")
      (auto simp: compute_barrier_tree_hash_with_changes_def compute_barrier_tree_hash_def ok_or_def ensure_def
        split: option.splits if_splits)
next
  case True
  let ?I = "impacted_nodes changed"
  let ?in = "\<lparr>hi_n_max = n, hi_n_max_usize = unat n, hi_updated_entries = es, hi_impacted_nodes = ?I, hi_base_before_cache = base\<rparr>"
  have len: "length es = 2 * unat n - 1"
    using True by (simp add: tree_len_Some)
  have I: "impact_ok n ?I"
    using assms(3) len by (intro impact_ok_impacted) auto
  have out: "cache_ok E n es (- ?I) b" if "cache_ok E n old UNIV b" for b
    using outside_impacted [OF assms(1,2) that] by (simp add: Compl_eq_Diff_UNIV)
  have start: "caches_ok E n es ?I (before, Map.empty)"
    using out [OF assms(5)] by (simp add: caches_ok_def cache_ok_def)
  obtain q b a where run: "compute_barrier_subtree_hash_after_changes E 0 ?in (before, Map.empty) = (q, (b, a))"
    by (metis prod_cases3)
  moreover have "\<not> (\<exists>node\<in>changed. length es \<le> node)"
    using assms(3) by (auto simp: not_le)
  ultimately have "compute_barrier_tree_hash_with_changes E n es changed base before = (tryE q (\<lambda>root. Inr (root, a)), b)"
    using True by (simp add: compute_barrier_tree_hash_with_changes_def)
  then have res: "r = tryE q (\<lambda>root. Inr (root, a))" "before' = b"
    using assms(6) by simp_all
  have base: "\<And>b. base = Some b \<Longrightarrow> cache_ok E n es (- ?I) b"
    using out assms(4) by blast
  from after_changes_hash [OF I base refl start run]
  have *: "q = tree_hash E n es 0" "caches_ok E n es ?I (b, a)" "(\<exists>h. q = Inr h) \<longrightarrow> covers ?I 0 a" "dom before \<subseteq> dom b"
    by (auto simp: caches_le_def)
  have "compute_barrier_tree_hash E n es = q"
    using True *(1) by (simp add: compute_barrier_tree_hash_def ok_or_def ensure_def)
  moreover have "cache_ok E n es UNIV ((case base of None \<Rightarrow> Map.empty | Some b \<Rightarrow> b) ++ b ++ a)" if "covers ?I 0 a"
  proof (rule merged_cache [OF that])
    show "cache_ok E n es (- ?I) (case base of None \<Rightarrow> Map.empty | Some b \<Rightarrow> b)"
      using base by (auto simp: cache_ok_def split: option.splits)
  qed (use *(2) in \<open>simp_all add: caches_ok_def\<close>)
  moreover have "?I \<subseteq> dom a" if "covers ?I 0 a"
    using that by (auto simp: covers_def)
  ultimately show ?thesis
    using res *(3,4) by (cases q) auto
qed

text \<open>C13: the incremental hash of a changed tree is the hash computed from scratch, with the same errors.  The caches may hold
  the subtree hashes of the tree before the change; then the merged cache that the server keeps holds the subtree hashes of
  the tree after it.\<close>
theorem incremental_tree_hash:
  assumes "length old = length es" "\<And>i. i < length es \<Longrightarrow> i \<notin> changed \<Longrightarrow> es ! i = old ! i"
    and "\<And>i. i \<in> changed \<Longrightarrow> i < length es"
    and "\<And>b. base = Some b \<Longrightarrow> cache_ok E n old UNIV b" "cache_ok E n old UNIV before"
    and "compute_barrier_tree_hash_with_changes E n es changed base before = (r, before')"
  shows "compute_barrier_tree_hash E n es = tryE r (\<lambda>(root, _). Inr root) \<and>
    (changed \<noteq> {} \<longrightarrow> (\<forall>root after. r = Inr (root, after) \<longrightarrow>
      cache_ok E n es UNIV ((case base of None \<Rightarrow> Map.empty | Some b \<Rightarrow> b) ++ before' ++ after)))"
  using with_changes_hash [OF assms] by blast

section \<open>The root determines the tree\<close>

text \<open>What is hashed at a node.\<close>
definition hashed_at :: "Ext \<Rightarrow> u64 \<Rightarrow> bytes list \<Rightarrow> nat \<Rightarrow> cbor" where
  "hashed_at E n es node =
     (if unat n - 1 \<le> node then leaf_hash_args n node (es ! node)
      else node_hash_args n node (es ! node) (projr (tree_hash E n es (2 * node + 1))) (projr (tree_hash E n es (2 * node + 2))))"

lemma tree_hash_Inr:
  assumes "tree_hash E n es node = Inr h"
  shows "node < length es" "unat n - 1 \<le> node \<or> (\<exists>l r. tree_hash E n es (2 * node + 1) = Inr l \<and> tree_hash E n es (2 * node + 2) = Inr r)"
  using assms by (auto simp: tree_hash_step [of E node n es] hash_step_def result_simps slice_get_Some child_index_Some split: if_splits)

lemma hashed_at_inject:
  assumes "hashed_at E n es node = hashed_at E n es' node"
  shows "es ! node = es' ! node"
    and "node < unat n - 1 \<Longrightarrow> k \<in> {1, 2} \<Longrightarrow>
      projr (tree_hash E n es (2 * node + k)) = projr (tree_hash E n es' (2 * node + k))"
  using assms by (auto simp: hashed_at_def leaf_hash_args_def node_hash_args_def cstruct_def split: if_splits)

lemma tree_hash_binds:
  assumes "tree_hash E n es node = Inr h" "tree_hash E n es' node = Inr h"
    and "\<And>i. i < length es \<Longrightarrow> tree_hash E n es i = tree_hash E n es' i \<Longrightarrow> hashed_at E n es i = hashed_at E n es' i"
    and "length es = 2 * unat n - 1" "j < length es" "below node j"
  shows "es ! j = es' ! j"
  using assms(1-3,6)
proof (induction node arbitrary: h rule: tree_induct [of "length es"])
  case (node node)
  have same: "hashed_at E n es node = hashed_at E n es' node"
    using node(3,4,5) tree_hash_Inr(1) [OF node(3)] by simp
  consider "j = node" | k where "k \<in> {1, 2}" "below (2 * node + k) j"
    using node(6) unfolding below_cases [of node j] by (metis insert_iff)
  then show ?case
  proof cases
    case 1
    then show ?thesis
      using hashed_at_inject(1) [OF same] by simp
  next
    case 2
    have inner: "node < unat n - 1"
      using below_le [OF 2(2)] 2(1) assms(4,5) by auto
    then obtain l r l' r' where kids: "tree_hash E n es (2 * node + 1) = Inr l" "tree_hash E n es (2 * node + 2) = Inr r"
        "tree_hash E n es' (2 * node + 1) = Inr l'" "tree_hash E n es' (2 * node + 2) = Inr r'"
      using tree_hash_Inr(2) [OF node(3)] tree_hash_Inr(2) [OF node(4)] by auto
    have "l' = l" "r' = r"
      using hashed_at_inject(2) [OF same inner, of 1] hashed_at_inject(2) [OF same inner, of 2] kids by auto
    then show ?thesis
      using 2 node(1,2,5) tree_hash_Inr(1) [OF node(3)] kids by auto
  qed
qed

text \<open>C23: the root hash determines every entry of the tree, or two trees with that root hash different data to the same
  digest at some node.\<close>
theorem tree_root_binds:
  assumes "compute_barrier_tree_hash E n es = Inr root" "compute_barrier_tree_hash E n es' = Inr root"
  shows "es = es' \<or> (\<exists>i < length es. tree_hash E n es i = tree_hash E n es' i \<and> hashed_at E n es i \<noteq> hashed_at E n es' i)"
proof (rule disjCI)
  assume no: "\<not> (\<exists>i < length es. tree_hash E n es i = tree_hash E n es' i \<and> hashed_at E n es i \<noteq> hashed_at E n es' i)"
  have len: "length es = 2 * unat n - 1" "length es' = length es" and
    root: "tree_hash E n es 0 = Inr root" "tree_hash E n es' 0 = Inr root"
    using assms by (auto simp: compute_barrier_tree_hash_def result_simps tree_len_Some)
  show "es = es'"
    using no len(2) by (intro nth_equalityI tree_hash_binds [OF root _ len(1)]) auto
qed

section \<open>Resolutions and expected ciphertexts\<close>

lemma resolution_sound:
  assumes "t \<in> set (collect_resolution_nodes es node lb)"
  shows "below node t" "t < length es" "es ! t \<noteq> []"
proof -
  have "below node t \<and> t < length es \<and> es ! t \<noteq> []"
    using assms
  proof (induction node rule: tree_induct [of "length es"])
    case (node node)
    then show ?case
      by (subst (asm) (3) collect_resolution_nodes.simps) (auto simp: below_cases [of node t] split: if_splits)
  qed
  then show "below node t" "t < length es" "es ! t \<noteq> []"
    by auto
qed

text \<open>The occupied leaves of a tree of \<open>lb + 1\<close> leaves.\<close>
definition occupied :: "bytes list \<Rightarrow> nat \<Rightarrow> nat \<Rightarrow> bool" where
  "occupied es lb j \<longleftrightarrow> lb \<le> j \<and> j < length es \<and> es ! j \<noteq> []"

lemma resolution_covers:
  assumes "length es = 2 * lb + 1" "occupied es lb j" "below node j"
  shows "\<exists>!t. t \<in> set (collect_resolution_nodes es node lb) \<and> below t j"
  using assms(3)
proof (induction node rule: tree_induct [of "length es"])
  case (node node)
  have in_tree: "node < length es"
    using below_le [OF node(3)] assms(2) by (simp add: occupied_def)
  show ?case
  proof (cases "es ! node \<noteq> []")
    case True
    then show ?thesis
      using node(3) in_tree by (subst collect_resolution_nodes.simps) auto
  next
    case False
    then have "j \<noteq> node"
      using assms(2) by (auto simp: occupied_def)
    then have one: "below (2 * node + 1) j \<and> \<not> below (2 * node + 2) j \<or> below (2 * node + 2) j \<and> \<not> below (2 * node + 1) j"
      using node(3) below_siblings [of node j] below_cases [of node j] by metis
    then have "2 * node + 1 \<le> j"
      using below_le [of "2 * node + 1" j] below_le [of "2 * node + 2" j] by linarith
    then have "\<not> lb \<le> node"
      using assms(1,2) by (simp add: occupied_def)
    then have res: "collect_resolution_nodes es node lb =
        collect_resolution_nodes es (2 * node + 1) lb @ collect_resolution_nodes es (2 * node + 2) lb"
      using False in_tree by (subst collect_resolution_nodes.simps) simp
    have off: "t \<notin> set (collect_resolution_nodes es k lb) \<or> \<not> below t j" if "\<not> below k j" for k t
      using that resolution_sound(1) below_trans by blast
    from one show ?thesis
    proof
      assume *: "below (2 * node + 1) j \<and> \<not> below (2 * node + 2) j"
      then have "t \<in> set (collect_resolution_nodes es node lb) \<and> below t j \<longleftrightarrow>
          t \<in> set (collect_resolution_nodes es (2 * node + 1) lb) \<and> below t j" for t
        unfolding res set_append using off [of "2 * node + 2" t] by blast
      then show ?thesis
        using node(1) [OF in_tree] * by presburger
    next
      assume *: "below (2 * node + 2) j \<and> \<not> below (2 * node + 1) j"
      then have "t \<in> set (collect_resolution_nodes es node lb) \<and> below t j \<longleftrightarrow>
          t \<in> set (collect_resolution_nodes es (2 * node + 2) lb) \<and> below t j" for t
        unfolding res set_append using off [of "2 * node + 1" t] by blast
      then show ?thesis
        using node(2) [OF in_tree] * by presburger
    qed
  qed
qed

lemma sibling_Some: "sibling_node (2 * i + 1) = Some (2 * i + 2)" "sibling_node (2 * i + 2) = Some (2 * i + 1)"
  by (simp_all add: sibling_node_def)

text \<open>The pairs of the path above a node, on indices: for each step the sources and the resolution of the sibling.\<close>
fun update_pairs :: "bytes list \<Rightarrow> nat \<Rightarrow> nat \<Rightarrow> (nat \<times> nat) set" where
  "update_pairs es lb c =
     (if c = 0 then {}
      else (\<lambda>t. ((c - 1) div 2, t)) ` set (collect_resolution_nodes es (the (sibling_node c)) lb) \<union> update_pairs es lb ((c - 1) div 2))"

declare update_pairs.simps [simp del]

lemma child_cases:
  assumes "0 < c"
  obtains i where "c = 2 * i + 1" "the (sibling_node c) = 2 * i + 2" "(c - 1) div 2 = i"
  | i where "c = 2 * i + 2" "the (sibling_node c) = 2 * i + 1" "(c - 1) div 2 = i"
proof -
  have "c = 2 * ((c - 1) div 2) + 1 \<or> c = 2 * ((c - 1) div 2) + 2"
    using assms by presburger
  then show thesis
    using that sibling_Some by (metis option.sel)
qed

lemma below_sibling:
  assumes "0 < c" "below ((c - 1) div 2) j" "j \<noteq> (c - 1) div 2"
  shows "below (the (sibling_node c)) j \<longleftrightarrow> \<not> below c j"
  using assms(1)
proof (cases rule: child_cases)
  case (1 i)
  then show ?thesis
    using assms below_cases [of i j] below_siblings [of i j] by auto
next
  case (2 i)
  then show ?thesis
    using assms below_cases [of i j] below_siblings [of i j] by auto
qed

lemma not_below_both: "0 < c \<Longrightarrow> below c j \<Longrightarrow> \<not> below (the (sibling_node c)) j"
  by (erule child_cases) (use below_siblings in auto)

lemma below_sibling_parent: "0 < c \<Longrightarrow> below ((c - 1) div 2) (the (sibling_node c))"
  by (erule child_cases) (metis below_cases below_refl)+

text \<open>No target is above a node below the start of the path.\<close>
lemma update_pairs_off: "(s, t) \<in> update_pairs es lb c \<Longrightarrow> below t j \<Longrightarrow> \<not> below c j"
proof (induction c rule: tree_path.induct)
  case (1 c)
  show ?case
  proof (cases "c = 0")
    case False
    show ?thesis
    proof
      assume c: "below c j"
      then have p: "below ((c - 1) div 2) j"
        using False below_parent by simp
      have "below (the (sibling_node c)) j \<or> (s, t) \<in> update_pairs es lb ((c - 1) div 2)"
        using 1(2,3) False by (subst (asm) update_pairs.simps) (auto dest: resolution_sound(1) below_trans)
      then show False
        using not_below_both [of c j] False c 1(1) [OF False _ 1(3)] p by blast
    qed
  qed (use 1(2) in \<open>simp add: update_pairs.simps\<close>)
qed

lemma update_pairs_sound:
  "(s, t) \<in> update_pairs es lb c \<Longrightarrow> t < length es \<and> es ! t \<noteq> [] \<and> below s c \<and> below s t \<and> s \<noteq> c"
proof (induction c rule: tree_path.induct)
  case (1 c)
  show ?case
  proof (cases "c = 0")
    case False
    let ?p = "(c - 1) div 2" and ?s = "the (sibling_node c)"
    have up: "below ?p c" "below ?p ?s" "?p < c"
      using False below_sibling_parent [of c] by (auto simp: below_step [of _ c])
    then show ?thesis
      using 1(1) [OF False] 1(2) False below_le [of c ?p] by (subst (asm) update_pairs.simps)
        (auto dest: resolution_sound below_trans)
  qed (use 1(2) in \<open>simp add: update_pairs.simps\<close>)
qed

lemma update_pairs_cover:
  assumes "length es = 2 * lb + 1" "occupied es lb j" "c < length es" "\<not> below c j"
  shows "\<exists>!p. p \<in> update_pairs es lb c \<and> below (snd p) j"
  using assms(3,4)
proof (induction c rule: tree_path.induct)
  case (1 c)
  have c: "0 < c"
    using 1(3) root_below by (metis gr0I)
  let ?p = "(c - 1) div 2" and ?s = "the (sibling_node c)"
  have mem: "(s, t) \<in> update_pairs es lb c \<longleftrightarrow>
      s = ?p \<and> t \<in> set (collect_resolution_nodes es ?s lb) \<or> (s, t) \<in> update_pairs es lb ?p" for s t
    using c by (subst update_pairs.simps) auto
  show ?case
  proof (cases "below ?p j")
    case True
    have "?p < lb"
      using 1(2) assms(1) c by linarith
    then have "j \<noteq> ?p"
      using assms(2) by (simp add: occupied_def)
    then have "below ?s j"
      using below_sibling [OF c True] 1(3) by blast
    from resolution_covers [OF assms(1,2) this] obtain t
      where t: "t \<in> set (collect_resolution_nodes es ?s lb)" "below t j"
        "\<And>u. u \<in> set (collect_resolution_nodes es ?s lb) \<Longrightarrow> below u j \<Longrightarrow> u = t"
      by blast
    have off: "(s, u) \<notin> update_pairs es lb ?p \<or> \<not> below u j" for s u
      using update_pairs_off True by blast
    show ?thesis
    proof (rule ex1I [of _ "(?p, t)"])
      show "(?p, t) \<in> update_pairs es lb c \<and> below (snd (?p, t)) j"
        using t(1,2) by (simp add: mem)
      show "p = (?p, t)" if "p \<in> update_pairs es lb c \<and> below (snd p) j" for p
        using that mem [of "fst p" "snd p"] off [of "fst p" "snd p"] t(3) [of "snd p"] by (metis prod.collapse)
    qed
  next
    case False
    then have "\<not> (below u j \<and> u \<in> set (collect_resolution_nodes es ?s lb))" for u
      using below_sibling_parent [OF c] resolution_sound(1) [of u es ?s lb] below_trans by blast
    then have iff: "p \<in> update_pairs es lb c \<and> below (snd p) j \<longleftrightarrow> p \<in> update_pairs es lb ?p \<and> below (snd p) j" for p
      by (cases p) (simp add: mem, blast)
    have "\<exists>!p. p \<in> update_pairs es lb ?p \<and> below (snd p) j"
      using c 1(2) by (intro 1(1) False) linarith+
    then show ?thesis
      unfolding iff .
  qed
qed

lemma step_pairs_path:
  assumes "map unat path = tree_path c" "c < length es" "length es \<le> usize_max"
  shows "\<exists>ps. step_pairs es lb path = Inr ps \<and> (\<lambda>(s, t). (unat s, unat t)) ` set ps = update_pairs es lb c"
  using assms(1,2)
proof (induction c arbitrary: path rule: tree_path.induct)
  case (1 c)
  show ?case
  proof (cases "c = 0")
    case True
    then obtain x where "path = [x]"
      using 1(2) by auto
    then show ?thesis
      using True by (simp add: update_pairs.simps)
  next
    case False
    let ?p = "(c - 1) div 2" and ?s = "the (sibling_node c)"
    obtain x y rest where path: "path = x # y # rest" "unat x = c" "map unat (y # rest) = tree_path ?p"
    proof -
      have "tree_path c = c # tree_path ?p" "tree_path ?p \<noteq> []"
        using False by (simp_all add: tree_path_pos)
      with 1(2) that show thesis
        by (cases path; cases "tl path") auto
    qed
    have y: "unat y = ?p"
      using path(3) hd_tree_path [of ?p] by (metis list.sel(1) list.simps(9))
    obtain ps where ps: "step_pairs es lb (y # rest) = Inr ps"
        "(\<lambda>(s, t). (unat s, unat t)) ` set ps = update_pairs es lb ?p"
      using 1(1) [OF False path(3)] 1(3) by (meson diff_le_self div_le_dividend le_less_trans)
    have sib: "sibling_node (unat x) = Some ?s"
      using False path(2) by (simp add: sibling_node_def)
    have word: "unat (of_nat t :: u64) = t" if "t \<in> set (collect_resolution_nodes es ?s lb)" for t
      using resolution_sound(2) [OF that] assms(3) by (simp add: unat_of_nat usize_max_def)
    have "step_pairs es lb path =
        Inr (map (\<lambda>t. (y, of_nat t)) (sort (collect_resolution_nodes es ?s lb)) @ ps)"
      unfolding path(1) by (simp add: sib ps(1) ok_or_def)
    moreover have "(\<lambda>(s, t). (unat s, unat t)) ` (\<lambda>t. (y, of_nat t :: u64)) ` set (collect_resolution_nodes es ?s lb) =
        (\<lambda>t. (?p, t)) ` set (collect_resolution_nodes es ?s lb)"
      unfolding image_image by (rule image_cong) (simp_all add: y word)
    ultimately show ?thesis
      using False ps(2) by (subst update_pairs.simps) (simp add: image_Un)
  qed
qed

lemma expected_pairs_path:
  assumes "tree_len n = Some (length es)" "map unat path = tree_path u" "u < length es"
  shows "\<exists>ps. collect_expected_pairs es path n = Inr ps \<and> (\<lambda>(s, t). (unat s, unat t)) ` set ps = update_pairs es (unat n - 1) u"
proof -
  have n: "length es = 2 * unat n - 1" "2 * unat n < 2 ^ 64"
    using assms(1) by (simp_all add: tree_len_Some)
  then have "length es \<le> usize_max"
    by (simp add: usize_max_def)
  from step_pairs_path [OF assms(2,3) this, of "unat n - 1"] obtain ps
    where ps: "step_pairs es (unat n - 1) path = Inr ps" "(\<lambda>(s, t). (unat s, unat t)) ` set ps = update_pairs es (unat n - 1) u"
    by blast
  show ?thesis
  proof (cases "length path < 2")
    case True
    then have "length (tree_path u) < 2"
      using arg_cong [OF assms(2), of length] by simp
    then have "u = 0"
      using tree_path_pos [of u] by (cases "u = 0"; cases "tree_path ((u - 1) div 2)") auto
    with True show ?thesis
      by (simp add: collect_expected_pairs_def update_pairs.simps)
  next
    case False
    then show ?thesis
      using ps by (simp add: collect_expected_pairs_def unat_saturating_sub)
  qed
qed

lemma expected_pairs_members:
  assumes "tree_len n = Some (length es)" "map unat path = tree_path u" "u < length es" "unat n - 1 \<le> u"
  shows "\<exists>ps. collect_expected_pairs es path n = Inr ps \<and>
    (\<forall>j. occupied es (unat n - 1) j \<and> j \<noteq> u \<longrightarrow> (\<exists>!p. p \<in> set ps \<and> below (unat (snd p)) j)) \<and>
    (\<forall>(s, t)\<in>set ps. es ! unat t \<noteq> [] \<and> below (unat s) u \<and> below (unat s) (unat t) \<and> \<not> below (unat t) u) \<and>
    (\<forall>j. (\<forall>i<length es. below i j \<longrightarrow> es ! i = []) \<longrightarrow> (\<forall>(s, t)\<in>set ps. \<not> below (unat t) j))"
proof -
  let ?N = "\<lambda>(s :: u64, t :: u64). (unat s, unat t)"
  have len: "length es = 2 * (unat n - 1) + 1"
    using assms(1) unat_pos [of n] by (auto simp: tree_len_Some)
  obtain ps where ps: "collect_expected_pairs es path n = Inr ps" "?N ` set ps = update_pairs es (unat n - 1) u"
    using expected_pairs_path [OF assms(1-3)] by blast
  have inj: "inj ?N"
    by (auto simp: inj_def word_unat_eq_iff)
  have sound: "unat t < length es \<and> es ! unat t \<noteq> [] \<and> below (unat s) u \<and> below (unat s) (unat t) \<and> \<not> below (unat t) u"
    if "(s, t) \<in> set ps" for s t
  proof -
    have "(unat s, unat t) \<in> update_pairs es (unat n - 1) u"
      using that ps(2) by force
    then show ?thesis
      using update_pairs_sound update_pairs_off [of "unat s" "unat t" es _ u u] below_refl by blast
  qed
  moreover have "\<exists>!p. p \<in> set ps \<and> below (unat (snd p)) j" if j: "occupied es (unat n - 1) j \<and> j \<noteq> u" for j
  proof -
    have "\<not> below u j"
      using j assms(4) len below_cases [of u j] below_le [of "2 * u + 1" j] below_le [of "2 * u + 2" j]
      by (auto simp: occupied_def)
    from update_pairs_cover [OF len _ assms(3) this] j obtain q
      where q: "q \<in> ?N ` set ps" "below (snd q) j" "\<And>p. p \<in> ?N ` set ps \<Longrightarrow> below (snd p) j \<Longrightarrow> p = q"
      unfolding ps(2) by blast
    from q(1) obtain p where p: "p \<in> set ps" "q = ?N p"
      by blast
    show ?thesis
    proof (rule ex1I [of _ p])
      show "p \<in> set ps \<and> below (unat (snd p)) j"
        using p q(2) by (simp add: split_beta)
      show "p' = p" if "p' \<in> set ps \<and> below (unat (snd p')) j" for p'
        using that q(3) [of "?N p'"] p(2) injD [OF inj, of p' p] by (simp add: split_beta)
    qed
  qed
  moreover have "\<not> below (unat t) j" if "(s, t) \<in> set ps" "\<forall>i<length es. below i j \<longrightarrow> es ! i = []" for s t j
    using that sound by blast
  ultimately show ?thesis
    using ps(1) by (intro exI [of _ ps] conjI) auto
qed

text \<open>C17: the ciphertexts that an update of the path of leaf \<open>u\<close> must carry reach every other member exactly once.  For every
  occupied leaf but the updater's there is exactly one pair whose target is above the leaf, and its source is the place where
  the leaf's path meets the updater's; every target holds a key; and no target is above the updater's own leaf, or above a
  leaf whose whole path is blank, as a revoked leaf's is.\<close>
theorem expected_pairs_reach_members:
  assumes "tree_len n = Some (length es)" "map unat path = tree_path u" "u < length es" "unat n - 1 \<le> u"
  shows "\<exists>ps. collect_expected_pairs es path n = Inr ps \<and>
    (\<forall>j. occupied es (unat n - 1) j \<and> j \<noteq> u \<longrightarrow> (\<exists>!p. p \<in> set ps \<and> below (unat (snd p)) j)) \<and>
    (\<forall>(s, t)\<in>set ps. es ! unat t \<noteq> [] \<and> below (unat s) u \<and> below (unat s) (unat t) \<and> \<not> below (unat t) u) \<and>
    (\<forall>j. (\<forall>i<length es. below i j \<longrightarrow> es ! i = []) \<longrightarrow> (\<forall>(s, t)\<in>set ps. \<not> below (unat t) j))"
  by (rule expected_pairs_members [OF assms])

section \<open>Blanked paths\<close>

lemma fold_clear:
  "length (fold (\<lambda>node es. es[node := []]) ns es) = length es"
  "i < length es \<Longrightarrow> fold (\<lambda>node es. es[node := []]) ns es ! i = (if i \<in> set ns then [] else es ! i)"
  by (induction ns arbitrary: es) (auto simp: nth_list_update)

lemma clear_barrier_path_nth:
  "length (clear_barrier_path es leaf b) = length es"
  "i < length es \<Longrightarrow> clear_barrier_path es leaf b ! i = (if below i leaf \<and> (b \<or> i \<noteq> leaf) then [] else es ! i)"
proof -
  have "set (tl (tree_path leaf)) = set (tree_path leaf) - {leaf}"
  proof -
    have "tree_path leaf = leaf # tl (tree_path leaf)"
      by (metis hd_tree_path list.collapse tree_path_ne(1))
    then show ?thesis
      using tree_path_sorted [of leaf] by (metis Diff_insert_absorb less_irrefl list.simps(15) sorted_wrt.simps(2))
  qed
  then show "i < length es \<Longrightarrow> clear_barrier_path es leaf b ! i = (if below i leaf \<and> (b \<or> i \<noteq> leaf) then [] else es ! i)"
    by (auto simp: clear_barrier_path_def fold_clear)
qed (simp add: clear_barrier_path_def fold_clear)

section \<open>Instances\<close>

theorem incremental_tree_hash_witness:
  "compute_barrier_tree_hash plain_ext 2 [[9], [2], [3]] =
     tryE (fst (compute_barrier_tree_hash_with_changes plain_ext 2 [[9], [2], [3]] {0} None Map.empty)) (\<lambda>(root, _). Inr root)"
proof -
  let ?run = "compute_barrier_tree_hash_with_changes plain_ext 2 [[9], [2], [3]] {0} None Map.empty"
  have "[[9], [2], [3]] ! i = [[1], [2], [3]] ! i" if "i < length [[9 :: u8], [2], [3]]" "i \<notin> {0}" for i
    using that by (cases i) auto
  from incremental_tree_hash [of "[[1], [2], [3]]" "[[9], [2], [3]]" "{0}" None plain_ext 2 Map.empty "fst ?run" "snd ?run",
      OF _ this]
  show ?thesis
    by (simp add: cache_ok_def)
qed

theorem tree_root_binds_witness:
  "\<exists>i < length [[1 :: u8]]. tree_hash plain_ext 1 [[1]] i = tree_hash plain_ext 1 [[2]] i \<and>
     hashed_at plain_ext 1 [[1]] i \<noteq> hashed_at plain_ext 1 [[2]] i"
proof -
  have "compute_barrier_tree_hash plain_ext 1 [[b]] = Inr plain_digest" for b
    by (simp add: compute_barrier_tree_hash_def compute_barrier_tree_hash_recursive.simps tree_len_def checked_mul_def
        checked_sub_def ok_or_def ensure_def slice_get_def plain_h_l validate_label_def as_bytes_def)
  from tree_root_binds [OF this [of 1] this [of 2]] show ?thesis
    by simp
qed

definition small_tree :: "bytes list" where
  "small_tree = [[9], [8], [], [1], [2], [3], []]"

theorem expected_pairs_reach_members_witness:
  "\<exists>ps. collect_expected_pairs small_tree [3, 1, 0] 4 = Inr ps \<and> (\<exists>!p. p \<in> set ps \<and> below (unat (snd p)) 5) \<and>
     (\<forall>(s, t)\<in>set ps. \<not> below (unat t) 3)"
proof -
  have hyp: "tree_len 4 = Some (length small_tree)" "map unat [3 :: u64, 1, 0] = tree_path 3" "3 < length small_tree"
      "unat (4 :: u64) - 1 \<le> 3"
    by (simp_all add: tree_len_def checked_mul_def checked_sub_def small_tree_def tree_path.simps)
  have "occupied small_tree (unat (4 :: u64) - 1) 5"
    by (simp add: occupied_def small_tree_def)
  with expected_pairs_reach_members [OF hyp] show ?thesis
    by fastforce
qed

end
