(* ===== verification/Roster.thy ===== *)
theory Roster
  imports BarrierTree
begin

text \<open>
  The roster of the server (\<open>cityg-server/src/roster_state.rs\<close>, with the slot and capacity helpers of
  \<open>cityg-server/src/lib.rs\<close> and \<open>GroupMembership\<close> of \<open>cityg-client/src/lib.rs\<close>): the membership of every group by root, and the
  allocator that leases the leaves of the barrier tree.  A \<open>BTreeSet\<close> is a set that is iterated in ascending order.

  The lemmas show that every recorded root is the canonical root of the membership recorded for it, that no slot is held by
  two leaves and every held lease carries the generation of its slot, that a lease once released is refused from then on, and
  exactly when a join the capacity check lets through finds a slot.
\<close>

section \<open>Membership\<close>

type_synonym GroupMembership = "hash32 set"

record MembershipDelta =
  md_joined :: "hash32 list"
  md_revoked :: "hash32 list"

definition membership_apply_delta :: "MembershipDelta \<Rightarrow> GroupMembership \<Rightarrow> GroupMembership" where
  "membership_apply_delta delta members = fold Set.insert (md_joined delta) (fold Set.remove (md_revoked delta) members)"

text \<open>The removal stops at the first leaf that is absent, with the leaves before it gone.\<close>
fun remove_members :: "hash32 list \<Rightarrow> (GroupMembership, CityGError, unit) eff" where
  "remove_members [] members = (Inr (), members)"
| "remove_members (leaf # leaves) members =
     (if leaf \<in> members then remove_members leaves (Set.remove leaf members)
      else (Inl (CgInvalidInput ''revoking non-member''), members))"

definition membership_apply_delta_checked :: "MembershipDelta \<Rightarrow> (GroupMembership, CityGError, unit) eff" where
  "membership_apply_delta_checked delta =
     tryS (remove_members (md_revoked delta)) (\<lambda>_. updS (fold Set.insert (md_joined delta)))"

definition ascending :: "'a::linorder set \<Rightarrow> 'a list" where
  "ascending = sorted_list_of_set"

section \<open>The state of a group\<close>

record HistoryCommitment =
  hc_view_id :: hash32
  hc_commitment_id :: hash32
  hc_prev_commitment_id :: hash32
  hc_seq :: u64

definition history_commitment_default :: HistoryCommitment where
  "history_commitment_default =
     \<lparr>hc_view_id = zero_hash, hc_commitment_id = zero_hash, hc_prev_commitment_id = zero_hash, hc_seq = 0\<rparr>"

record SlotLease =
  sl_index :: u32
  sl_generation :: u64

record JoinLeafHistoryRecord =
  jl_leaf_id :: hash32
  jl_barrier_version :: u64
  jl_slot_index :: u32
  jl_slot_generation :: u64
  jl_device_pk :: bytes
  jl_ek_leaf :: bytes

record AcceptedBarrierMergeRecord =
  am_barrier_version :: u64
  am_fs_ec :: u64
  am_reason :: u64
  am_digest :: hash32
  am_we_epoch_id :: hash32

record JoinFinalizeAuthRecord =
  jf_leaf_id :: hash32
  jf_lease :: SlotLease
  jf_token :: hash32

record BarrierPublicTreeSnapshotRef =
  sr_blob_indices :: "u32 list"
  sr_barrier_version :: u64
  sr_history_view_id :: hash32
  sr_history_commitment :: HistoryCommitment

record GroupState =
  gs_latest_root :: "hash32 option"
  gs_snapshots :: "(hash32, GroupMembership) btree"
  gs_revoked :: "hash32 set"
  gs_next_index :: u32
  gs_free_slots :: "u32 set"
  gs_slot_generations :: "(u32, u64) btree"
  gs_leaf_slot_leases :: "(hash32, SlotLease) btree"
  gs_revoked_slot_leases :: "(hash32, SlotLease) btree"
  gs_kbroad_generation :: u64
  gs_rotation_required :: bool
  gs_barrier_initialized :: bool
  gs_barrier_version :: u64
  gs_barrier_roots_hash :: hash32
  gs_kem_tree_hash_after :: hash32
  gs_last_checkpoint_ec :: u64
  gs_last_accepted_ec :: u64
  gs_srx_root_sw :: "hash32 option"
  gs_n_max :: u64
  gs_last_pcs_refresh_ec :: "u64 option"
  gs_pcs_refresh_min_delta_device_ec :: u64
  gs_pcs_refresh_min_delta_group_ec :: u64
  gs_pcs_refresh_slot_width_ec :: u64
  gs_max_barrier_update_bytes :: nat
  gs_accepted_barrier_merges :: "(u64, AcceptedBarrierMergeRecord) btree"
  gs_join_history :: "JoinLeafHistoryRecord list"
  gs_leaf_device_pk :: "(hash32, bytes) btree"
  gs_leaf_barrier_public :: "(hash32, bytes) btree"
  gs_barrier_pk_entries :: "bytes list"
  gs_tree_blobs :: "bytes list"
  gs_tree_blob_index :: "bytes \<rightharpoonup> u32"
  gs_tree_history :: "(hash32, BarrierPublicTreeSnapshotRef) btree"
  gs_barrier_hash_cache :: "BarrierHashCache option"
  gs_current_history_commitment :: HistoryCommitment
  gs_current_accepted_barrier_update :: bytes
  gs_current_accepted_barrier_predecessor_hash :: hash32
  gs_pending_join_finalize_auth :: "(hash32, JoinFinalizeAuthRecord) btree"
  gs_room_admin_pop_keys :: "bytes set"
  gs_room_admin_proof_replay_keys :: "hash32 set"

definition DEFAULT_BARRIER_N_MAX :: u64 where
  "DEFAULT_BARRIER_N_MAX = 1024"

definition MAX_BARRIER_N_MAX :: u64 where
  "MAX_BARRIER_N_MAX = 65536"

definition group_state_default :: GroupState where
  "group_state_default =
     \<lparr>gs_latest_root = None, gs_snapshots = [], gs_revoked = {}, gs_next_index = 0, gs_free_slots = {},
      gs_slot_generations = [], gs_leaf_slot_leases = [], gs_revoked_slot_leases = [], gs_kbroad_generation = 0,
      gs_rotation_required = False, gs_barrier_initialized = False, gs_barrier_version = 0,
      gs_barrier_roots_hash = zero_hash, gs_kem_tree_hash_after = zero_hash, gs_last_checkpoint_ec = 0,
      gs_last_accepted_ec = 0, gs_srx_root_sw = None, gs_n_max = DEFAULT_BARRIER_N_MAX, gs_last_pcs_refresh_ec = None,
      gs_pcs_refresh_min_delta_device_ec = 1, gs_pcs_refresh_min_delta_group_ec = 1, gs_pcs_refresh_slot_width_ec = 1,
      gs_max_barrier_update_bytes = bg_max_barrier_update_bytes barrier_group_default,
      gs_accepted_barrier_merges = [], gs_join_history = [], gs_leaf_device_pk = [], gs_leaf_barrier_public = [],
      gs_barrier_pk_entries = [], gs_tree_blobs = [], gs_tree_blob_index = Map.empty, gs_tree_history = [],
      gs_barrier_hash_cache = None, gs_current_history_commitment = history_commitment_default,
      gs_current_accepted_barrier_update = [], gs_current_accepted_barrier_predecessor_hash = zero_hash,
      gs_pending_join_finalize_auth = [], gs_room_admin_pop_keys = {}, gs_room_admin_proof_replay_keys = {}\<rparr>"

definition is_zero_root :: "hash32 \<Rightarrow> bool" where
  "is_zero_root root \<longleftrightarrow> (\<forall>b\<in>set root. b = 0)"

text \<open>The last four bytes of a digest, in big-endian order.\<close>
definition leaf_suffix_u32 :: "hash32 \<Rightarrow> u32" where
  "leaf_suffix_u32 leaf = foldl (\<lambda>acc b. acc * 256 + ucast b) 0 (take 4 (drop 28 leaf))"

definition sequential_leaf :: "u32 \<Rightarrow> hash32" where
  "sequential_leaf index =
     replicate 28 0 @ [ucast (drop_bit 24 index), ucast (drop_bit 16 index), ucast (drop_bit 8 index), ucast index]"

definition validate_barrier_n_max :: "u64 \<Rightarrow> CityGError + u64" where
  "validate_barrier_n_max n_max =
     (if n_max = 0 \<or> \<not> is_power_of_two n_max then Inl (CgInvalidInput ''barrier n_max must be a non-zero power of two'')
      else if MAX_BARRIER_N_MAX < n_max then Inl (CgInvalidInput ''barrier n_max exceeds MAX_BARRIER_N_MAX'')
      else Inr n_max)"

section \<open>Slot leases\<close>

definition slot_capacity :: "GroupState \<Rightarrow> u32" where
  "slot_capacity st = ucast (min (max (gs_n_max st) 1) 4294967295)"

definition slot_range :: "GroupState \<Rightarrow> u32 list" where
  "slot_range st = map of_nat [0..<unat (slot_capacity st)]"

text \<open>The generations are inserted in ascending order into an empty map, which gives the list below.\<close>
definition ensure_slot_allocator_initialized :: "GroupState \<Rightarrow> GroupState" where
  "ensure_slot_allocator_initialized st =
     (let gens = (if gs_slot_generations st = [] then map (\<lambda>i. (i, 0)) (slot_range st) else gs_slot_generations st);
          free = (if gs_free_slots st = {} \<and> length gens = unat (slot_capacity st)
                  then set (slot_range st) - set (map (sl_index \<circ> snd) (gs_leaf_slot_leases st))
                    - set (map (sl_index \<circ> jf_lease \<circ> snd) (gs_pending_join_finalize_auth st))
                  else gs_free_slots st)
      in st\<lparr>gs_slot_generations := gens, gs_free_slots := free\<rparr>)"

definition allocate_slot_lease :: "hash32 \<Rightarrow> (GroupState, CityGError, SlotLease) eff" where
  "allocate_slot_lease leaf_id st =
     (case bt_get (gs_leaf_slot_leases st) leaf_id of Some existing \<Rightarrow> (Inr existing, st) | None \<Rightarrow>
      case bt_get (gs_pending_join_finalize_auth st) leaf_id of Some existing \<Rightarrow> (Inr (jf_lease existing), st) | None \<Rightarrow>
      let st = ensure_slot_allocator_initialized st in
      if gs_free_slots st = {} then (Inl (CgInvalidInput ''slot allocator exhausted''), st)
      else
        let slot_index = Min (gs_free_slots st);
            slot_generation = (case bt_get (gs_slot_generations st) slot_index of None \<Rightarrow> 0 | Some g \<Rightarrow> g)
        in (Inr \<lparr>sl_index = slot_index, sl_generation = slot_generation\<rparr>,
            st\<lparr>gs_free_slots := gs_free_slots st - {slot_index}\<rparr>))"

definition reserve_slot_lease :: "hash32 \<Rightarrow> SlotLease \<Rightarrow> (GroupState, CityGError, unit) eff" where
  "reserve_slot_lease leaf_id lease st =
     (if slot_capacity st \<le> sl_index lease then (Inl (CgInvalidInput ''slot lease index out of range''), st)
      else
        let st = ensure_slot_allocator_initialized st;
            generation = (case bt_get (gs_slot_generations st) (sl_index lease) of None \<Rightarrow> 0 | Some g \<Rightarrow> g);
            st = st\<lparr>gs_slot_generations := bt_insert (sl_index lease) generation (gs_slot_generations st)\<rparr>
        in if generation \<noteq> sl_generation lease then (Inl (CgInvalidInput ''slot lease generation mismatch''), st)
           else case bt_get (gs_leaf_slot_leases st) leaf_id of
             Some existing \<Rightarrow>
               (if existing \<noteq> lease then (Inl (CgInvalidInput ''leaf already bound to another slot lease''), st) else (Inr (), st))
           | None \<Rightarrow> (Inr (), st\<lparr>gs_free_slots := gs_free_slots st - {sl_index lease},
               gs_leaf_slot_leases := bt_insert leaf_id lease (gs_leaf_slot_leases st)\<rparr>))"

definition release_slot_lease :: "hash32 \<Rightarrow> GroupState \<Rightarrow> SlotLease option \<times> GroupState" where
  "release_slot_lease leaf_id st =
     (let st = ensure_slot_allocator_initialized st in
      case bt_get (gs_leaf_slot_leases st) leaf_id of
        None \<Rightarrow> (None, st)
      | Some lease \<Rightarrow> (Some lease,
          st\<lparr>gs_leaf_slot_leases := bt_remove leaf_id (gs_leaf_slot_leases st),
             gs_slot_generations := bt_insert (sl_index lease) (saturating_add (sl_generation lease) 1) (gs_slot_generations st),
             gs_free_slots := Set.insert (sl_index lease) (gs_free_slots st)\<rparr>))"

definition activate_slot_lease :: "hash32 \<Rightarrow> SlotLease \<Rightarrow> (GroupState, CityGError, unit) eff" where
  "activate_slot_lease leaf_id lease =
     tryS (reserve_slot_lease leaf_id lease) (\<lambda>_.
     updS (\<lambda>st. st\<lparr>gs_revoked := gs_revoked st - {leaf_id},
       gs_revoked_slot_leases := bt_remove leaf_id (gs_revoked_slot_leases st)\<rparr>))"

definition finalize_slot_reclaim :: "SlotLease \<Rightarrow> GroupState \<Rightarrow> GroupState" where
  "finalize_slot_reclaim lease st =
     fold (\<lambda>leaf st. st\<lparr>gs_revoked := gs_revoked st - {leaf}, gs_revoked_slot_leases := bt_remove leaf (gs_revoked_slot_leases st)\<rparr>)
       (map fst (filter (\<lambda>(_, revoked_lease). sl_index revoked_lease = sl_index lease) (gs_revoked_slot_leases st))) st"

definition latest_snapshot :: "GroupState \<Rightarrow> GroupMembership option" where
  "latest_snapshot st = Option.bind (gs_latest_root st) (bt_get (gs_snapshots st))"

definition allocate_leaf :: "GroupState \<Rightarrow> u32 \<times> GroupState" where
  "allocate_leaf st =
     (let index = (if gs_next_index st = 0 then 1 else gs_next_index st)
      in (index, st\<lparr>gs_next_index := saturating_add index 1\<rparr>))"

text \<open>The \<open>max\<close> of no values is \<open>unwrap_or(0)\<close>, and so the maximum may start from zero.\<close>
definition sync_next_index :: "GroupState \<Rightarrow> GroupState" where
  "sync_next_index st =
     (let candidate = saturating_add
            (fold max (concat (map (\<lambda>(_, s). map leaf_suffix_u32 (ascending s)) (gs_snapshots st))) 0) 1
      in if gs_next_index st < candidate then st\<lparr>gs_next_index := candidate\<rparr> else st)"

section \<open>Rosters\<close>

type_synonym GroupRoster = "(bytes, GroupState) btree"

definition roster_entry :: "bytes \<Rightarrow> GroupRoster \<Rightarrow> GroupState" where
  "roster_entry gid roster = (case bt_get roster gid of None \<Rightarrow> group_state_default | Some st \<Rightarrow> st)"

text \<open>An operation on \<open>groups.entry(gid).or_default()\<close>.\<close>
definition on_group :: "bytes \<Rightarrow> (GroupState, 'e, 'a) eff \<Rightarrow> (GroupRoster, 'e, 'a) eff" where
  "on_group gid m roster = (case m (roster_entry gid roster) of (r, st) \<Rightarrow> (r, bt_insert gid st roster))"

definition upd_group :: "bytes \<Rightarrow> (GroupState \<Rightarrow> GroupState) \<Rightarrow> GroupRoster \<Rightarrow> GroupRoster" where
  "upd_group gid f roster = bt_insert gid (f (roster_entry gid roster)) roster"

text \<open>The part of \<open>GroupRoster::apply_delta\<close> on the state of the group, after the snapshot of the base root was found.\<close>
definition delta_from :: "RpoExt \<Rightarrow> hash32 \<Rightarrow> MembershipDelta \<Rightarrow> GroupMembership \<Rightarrow> (GroupState, CityGError, hash32) eff" where
  "delta_from P base_root delta base =
     tryS (updS (\<lambda>st. st\<lparr>gs_snapshots := (case bt_get (gs_snapshots st) base_root of
         None \<Rightarrow> bt_insert base_root base (gs_snapshots st) | Some _ \<Rightarrow> gs_snapshots st),
       gs_revoked := fold Set.insert (md_revoked delta) (fold Set.remove (md_joined delta) (gs_revoked st))\<rparr>)) (\<lambda>_.
     tryS (liftS (\<lambda>_. ensure (\<forall>leaf\<in>set (md_revoked delta). leaf \<in> base) (CgInvalidInput ''revoking non-member''))) (\<lambda>_.
     tryS (liftS (\<lambda>_. ensure (\<forall>leaf\<in>set (md_joined delta). leaf \<notin> base) (CgInvalidInput ''duplicate join''))) (\<lambda>_.
     let members = membership_apply_delta delta base in
     tryS (liftS (\<lambda>_. map_err (\<lambda>_. CgInvalidInput ''unable to compute membership root'')
       (canonical_set_root P (ascending members)))) (\<lambda>new_root.
     tryS (updS (\<lambda>st. sync_next_index (st\<lparr>gs_snapshots := bt_insert new_root members (gs_snapshots st), gs_latest_root := Some new_root\<rparr>)))
       (\<lambda>_. getS (\<lambda>_. new_root))))))"

definition roster_apply_delta :: "RpoExt \<Rightarrow> bytes \<Rightarrow> hash32 \<Rightarrow> MembershipDelta \<Rightarrow> (GroupRoster, CityGError, hash32) eff" where
  "roster_apply_delta P gid base_root delta = on_group gid (\<lambda>st.
     case bt_get (gs_snapshots st) base_root of
       Some snapshot \<Rightarrow> delta_from P base_root delta snapshot st
     | None \<Rightarrow>
         if is_zero_root base_root \<and> gs_snapshots st = [] then delta_from P base_root delta {} st
         else (Inl (CgInvalidInput ''unknown membership base root''), st))"

definition roster_members :: "GroupRoster \<Rightarrow> bytes \<Rightarrow> hash32 list" where
  "roster_members roster gid =
     (case Option.bind (bt_get roster gid) latest_snapshot of None \<Rightarrow> [] | Some s \<Rightarrow> ascending s)"

definition members_for_root :: "GroupRoster \<Rightarrow> bytes \<Rightarrow> hash32 \<Rightarrow> hash32 list option" where
  "members_for_root roster gid root =
     map_option ascending (Option.bind (bt_get roster gid) (\<lambda>st. bt_get (gs_snapshots st) root))"

definition roster_latest_root :: "GroupRoster \<Rightarrow> bytes \<Rightarrow> hash32 option" where
  "roster_latest_root roster gid = Option.bind (bt_get roster gid) gs_latest_root"

definition roster_revoked :: "GroupRoster \<Rightarrow> bytes \<Rightarrow> hash32 list" where
  "roster_revoked roster gid = (case bt_get roster gid of None \<Rightarrow> [] | Some st \<Rightarrow> ascending (gs_revoked st))"

definition kbroad_rotation_required :: "GroupRoster \<Rightarrow> bytes \<Rightarrow> bool" where
  "kbroad_rotation_required roster gid = (case bt_get roster gid of None \<Rightarrow> False | Some st \<Rightarrow> gs_rotation_required st)"

definition mark_kbroad_rotation_required :: "bytes \<Rightarrow> GroupRoster \<Rightarrow> GroupRoster" where
  "mark_kbroad_rotation_required gid = upd_group gid (\<lambda>st. st\<lparr>gs_rotation_required := True\<rparr>)"

section \<open>Slots of a snapshot and capacity\<close>

definition barrier_pk_entry_layout :: "u64 \<Rightarrow> CityGError + nat \<times> nat \<times> nat" where
  "barrier_pk_entry_layout n_max =
     tryE (validate_barrier_n_max n_max) (\<lambda>n_max. Inr (unat n_max, 2 * unat n_max - 1, unat n_max - 1))"

definition checked_insert_unique :: "'k::linorder \<Rightarrow> 'v \<Rightarrow> string \<Rightarrow> ('k, 'v) btree \<Rightarrow> CityGError + ('k, 'v) btree" where
  "checked_insert_unique key value error m =
     (case bt_get m key of
        Some existing \<Rightarrow> if existing \<noteq> value then Inl (CgInvalidInput error) else Inr m
      | None \<Rightarrow> Inr (bt_insert key value m))"

definition require_active_slot_lease :: "GroupState \<Rightarrow> hash32 \<Rightarrow> CityGError + SlotLease" where
  "require_active_slot_lease st leaf =
     ok_or (CgInvalidInput ''missing active slot lease'') (bt_get (gs_leaf_slot_leases st) leaf)"

definition require_revoked_slot_lease :: "GroupState \<Rightarrow> hash32 \<Rightarrow> CityGError + SlotLease" where
  "require_revoked_slot_lease st leaf =
     ok_or (CgInvalidInput ''missing revoked slot lease'') (bt_get (gs_revoked_slot_leases st) leaf)"

definition pending_or_active :: "GroupState \<Rightarrow> hash32 \<Rightarrow> SlotLease option" where
  "pending_or_active st leaf =
     (case bt_get (gs_pending_join_finalize_auth st) leaf of
        Some record \<Rightarrow> Some (jf_lease record) | None \<Rightarrow> bt_get (gs_leaf_slot_leases st) leaf)"

definition require_pending_or_active_slot_lease :: "GroupState \<Rightarrow> hash32 \<Rightarrow> CityGError + SlotLease" where
  "require_pending_or_active_slot_lease st leaf =
     ok_or (CgInvalidInput ''missing pending or active slot lease'') (pending_or_active st leaf)"

fun cover_allocations :: "GroupState \<Rightarrow> hash32 list \<Rightarrow> (u32, hash32) btree \<Rightarrow> CityGError + (u32, hash32) btree" where
  "cover_allocations st [] by_index = Inr by_index"
| "cover_allocations st (leaf # leaves) by_index =
     tryE (require_active_slot_lease st leaf) (\<lambda>lease.
     tryE (checked_insert_unique (sl_index lease) leaf ''duplicate active cover leaf allocation'' by_index) (\<lambda>by_index.
     cover_allocations st leaves by_index))"

definition active_cover_leaf_allocations :: "GroupState \<Rightarrow> CityGError + (u32, hash32) btree" where
  "active_cover_leaf_allocations st =
     (case latest_snapshot st of None \<Rightarrow> Inr [] | Some snapshot \<Rightarrow> cover_allocations st (ascending snapshot) [])"

definition committed_revoked_slot_indices :: "GroupState \<Rightarrow> u32 set" where
  "committed_revoked_slot_indices st = set (map (sl_index \<circ> snd) (gs_revoked_slot_leases st))"

definition reserved_slot_indices :: "GroupState \<Rightarrow> CityGError + u32 set" where
  "reserved_slot_indices st =
     tryE (active_cover_leaf_allocations st) (\<lambda>by_index.
     Inr (set (map fst by_index) \<union> set (map (sl_index \<circ> jf_lease \<circ> snd) (gs_pending_join_finalize_auth st))))"

record BarrierLeafCapacity =
  lc_n_max :: u64
  lc_active_leaf_count :: u64
  lc_revoked_leaf_count :: u64
  lc_pending_join_ticket_count :: u64
  lc_reserved_cover_leaf_count :: u64
  lc_remaining_cover_leaf_slots :: u64

definition is_exhausted :: "BarrierLeafCapacity \<Rightarrow> bool" where
  "is_exhausted c \<longleftrightarrow> lc_remaining_cover_leaf_slots c = 0"

text \<open>Counts are lengths of collections in memory, below \<open>2 ^ 64\<close>.\<close>
definition barrier_leaf_capacity :: "GroupState \<Rightarrow> CityGError + BarrierLeafCapacity" where
  "barrier_leaf_capacity st =
     tryE (validate_barrier_n_max (gs_n_max st)) (\<lambda>n_max.
     tryE (reserved_slot_indices st) (\<lambda>reserved.
     let reserved_count = of_nat (card reserved) in
     Inr \<lparr>lc_n_max = n_max,
       lc_active_leaf_count = (case latest_snapshot st of None \<Rightarrow> 0 | Some s \<Rightarrow> of_nat (card s)),
       lc_revoked_leaf_count = of_nat (card (committed_revoked_slot_indices st)),
       lc_pending_join_ticket_count = of_nat (length (gs_pending_join_finalize_auth st)),
       lc_reserved_cover_leaf_count = reserved_count,
       lc_remaining_cover_leaf_slots = saturating_sub n_max (min reserved_count n_max)\<rparr>))"

definition saturating_mul :: "u64 \<Rightarrow> u64 \<Rightarrow> u64" where
  "saturating_mul a b = (case checked_mul a b of None \<Rightarrow> - 1 | Some c \<Rightarrow> c)"

definition barrier_leaf_capacity_limit_for_percent :: "u64 \<Rightarrow> u8 \<Rightarrow> u64" where
  "barrier_leaf_capacity_limit_for_percent n_max percent = saturating_mul n_max (ucast percent) div 100"

definition ensure_join_capacity_allows_fresh_reservation :: "GroupState \<Rightarrow> u8 \<Rightarrow> CityGError + unit" where
  "ensure_join_capacity_allows_fresh_reservation st refusal_percent =
     tryE (barrier_leaf_capacity st) (\<lambda>capacity.
     if is_exhausted capacity then Inl (CgInvalidInput ''barrier leaf capacity exhausted; retire and recreate group'')
     else if refusal_percent < 100 \<and>
       barrier_leaf_capacity_limit_for_percent (lc_n_max capacity) refusal_percent
         < saturating_add (lc_reserved_cover_leaf_count capacity) 1
     then Inl (CgInvalidInput ''barrier leaf refusal threshold reached; retire and recreate group'')
     else Inr ())"

definition ensure_join_capacity_allows_existing_leaf_reservation :: "GroupState \<Rightarrow> hash32 \<Rightarrow> u8 \<Rightarrow> CityGError + unit" where
  "ensure_join_capacity_allows_existing_leaf_reservation st leaf_id refusal_percent =
     (if bt_get (gs_pending_join_finalize_auth st) leaf_id \<noteq> None then Inr ()
      else ensure_join_capacity_allows_fresh_reservation st refusal_percent)"

definition next_available_join_leaf :: "(GroupState, CityGError, hash32) eff" where
  "next_available_join_leaf =
     tryS (liftS barrier_leaf_capacity) (\<lambda>capacity.
     tryS (liftS (\<lambda>_. ensure (\<not> is_exhausted capacity) (CgInvalidInput ''barrier leaf capacity exhausted; retire and recreate group''))) (\<lambda>_.
     tryS (updS sync_next_index) (\<lambda>_ st.
     case allocate_leaf st of (index, st) \<Rightarrow> (Inr (sequential_leaf index), st))))"

definition ensure_distinct_active_slot_indices :: "GroupState \<Rightarrow> CityGError + unit" where
  "ensure_distinct_active_slot_indices st = tryE (active_cover_leaf_allocations st) (\<lambda>_. Inr ())"

fun join_slots_free :: "GroupState \<Rightarrow> hash32 list \<Rightarrow> u32 set \<Rightarrow> CityGError + unit" where
  "join_slots_free st [] reserved = Inr ()"
| "join_slots_free st (leaf # leaves) reserved =
     tryE (require_pending_or_active_slot_lease st leaf) (\<lambda>lease.
     if sl_index lease \<in> reserved then Inl (CgInvalidInput ''cover leaf index already allocated'')
     else join_slots_free st leaves (Set.insert (sl_index lease) reserved))"

definition ensure_join_slot_indices_available :: "GroupState \<Rightarrow> hash32 list \<Rightarrow> CityGError + unit" where
  "ensure_join_slot_indices_available st joined =
     tryE (active_cover_leaf_allocations st) (\<lambda>by_index.
     join_slots_free st joined (set (map fst by_index) \<union>
       set (map (sl_index \<circ> jf_lease) (filter (\<lambda>record. jf_leaf_id record \<notin> set joined)
         (map snd (gs_pending_join_finalize_auth st))))))"

section \<open>Tickets, joins and revocations\<close>

text \<open>The block of \<open>build_join_ticket_with_leaf\<close> that picks the leaf and its slot.\<close>
definition reserve_join_leaf ::
  "RpoExt \<Rightarrow> hash32 option \<Rightarrow> u8 \<Rightarrow> (GroupState, CityGError, hash32 \<times> hash32 \<times> SlotLease \<times> hash32 list) eff" where
  "reserve_join_leaf P leaf_id_override refusal_percent =
     tryS (getS (\<lambda>st. case latest_snapshot st of None \<Rightarrow> [] | Some s \<Rightarrow> ascending s)) (\<lambda>parent_leaves.
     tryS (case leaf_id_override of
         Some leaf_id \<Rightarrow> liftS (\<lambda>_. if leaf_id \<in> set parent_leaves then Inl (CgInvalidInput ''leaf already present in roster'') else Inr leaf_id)
       | None \<Rightarrow> tryS (liftS (\<lambda>st. ensure_join_capacity_allows_fresh_reservation st refusal_percent)) (\<lambda>_. next_available_join_leaf)) (\<lambda>leaf_id.
     tryS (case leaf_id_override of
         Some _ \<Rightarrow> liftS (\<lambda>st. ensure_join_capacity_allows_existing_leaf_reservation st leaf_id refusal_percent)
       | None \<Rightarrow> getS (\<lambda>_. ())) (\<lambda>_.
     tryS (allocate_slot_lease leaf_id) (\<lambda>lease.
     tryS (liftS (\<lambda>_. if parent_leaves = [] then Inr zero_hash else map_err CgMsphf (canonical_set_root P parent_leaves))) (\<lambda>parent_root.
     getS (\<lambda>_. (parent_root, leaf_id, lease, parent_leaves)))))))"

definition record_pending_join :: "hash32 \<Rightarrow> SlotLease \<Rightarrow> hash32 \<Rightarrow> GroupState \<Rightarrow> GroupState" where
  "record_pending_join leaf_id lease token st =
     st\<lparr>gs_pending_join_finalize_auth :=
       bt_insert leaf_id \<lparr>jf_leaf_id = leaf_id, jf_lease = lease, jf_token = token\<rparr> (gs_pending_join_finalize_auth st)\<rparr>"

text \<open>The bodies of the loops of \<open>apply_bundle_to_state\<close> over the joined and the revoked leaves.\<close>
definition apply_joined_leaf ::
  "u64 \<Rightarrow> bytes option \<Rightarrow> bytes option \<Rightarrow> hash32 \<Rightarrow> (GroupState, CityGError, unit) eff" where
  "apply_joined_leaf barrier_version maybe_device_pk required_ek leaf =
     tryS (liftS (\<lambda>st. ok_or (CgInvalidInput ''missing slot lease for joined leaf'') (pending_or_active st leaf))) (\<lambda>lease.
     tryS (activate_slot_lease leaf lease) (\<lambda>_.
     tryS (liftS (\<lambda>_. ok_or (CgInvalidInput ''barrier_leaf_pk (header[177]) is required on join'') required_ek)) (\<lambda>ek_leaf.
     let device_pk = (case maybe_device_pk of None \<Rightarrow> leaf | Some pk \<Rightarrow> pk) in
     updS (\<lambda>st. st\<lparr>gs_join_history := gs_join_history st @
         [\<lparr>jl_leaf_id = leaf, jl_barrier_version = saturating_add barrier_version 1, jl_slot_index = sl_index lease,
           jl_slot_generation = sl_generation lease, jl_device_pk = device_pk, jl_ek_leaf = ek_leaf\<rparr>],
       gs_leaf_device_pk := bt_insert leaf device_pk (gs_leaf_device_pk st),
       gs_leaf_barrier_public := (if ek_leaf \<noteq> [] then bt_insert leaf ek_leaf (gs_leaf_barrier_public st)
         else gs_leaf_barrier_public st)\<rparr>))))"

definition apply_revoked_leaf :: "hash32 \<Rightarrow> (GroupState, CityGError, unit) eff" where
  "apply_revoked_leaf leaf =
     tryS (\<lambda>st. case release_slot_lease leaf st of
       (r, st) \<Rightarrow> (ok_or (CgInvalidInput ''missing slot lease for revoked leaf'') r, st)) (\<lambda>released.
     updS (\<lambda>st. st\<lparr>gs_leaf_device_pk := bt_remove leaf (gs_leaf_device_pk st),
       gs_leaf_barrier_public := bt_remove leaf (gs_leaf_barrier_public st),
       gs_pending_join_finalize_auth := bt_remove leaf (gs_pending_join_finalize_auth st),
       gs_revoked_slot_leases := bt_insert leaf released (gs_revoked_slot_leases st)\<rparr>))"

text \<open>The end of a join: the author's pending record goes, and with it the revoked leaves of the slot.\<close>
definition finalize_join :: "hash32 \<Rightarrow> GroupState \<Rightarrow> GroupState" where
  "finalize_join author_leaf_id st =
     (case bt_get (gs_pending_join_finalize_auth st) author_leaf_id of
        None \<Rightarrow> st
      | Some record \<Rightarrow> finalize_slot_reclaim (jf_lease record)
          (st\<lparr>gs_pending_join_finalize_auth := bt_remove author_leaf_id (gs_pending_join_finalize_auth st)\<rparr>))"

section \<open>The lease invariant\<close>

text \<open>A leaf holds the lease of its slot, or the one of its pending join ticket.\<close>
definition holds_lease :: "GroupState \<Rightarrow> hash32 \<Rightarrow> SlotLease \<Rightarrow> bool" where
  "holds_lease st leaf lease \<longleftrightarrow> bt_get (gs_leaf_slot_leases st) leaf = Some lease \<or>
     (\<exists>r. bt_get (gs_pending_join_finalize_auth st) leaf = Some r \<and> jf_lease r = lease)"

definition lease_excl :: "GroupState \<Rightarrow> hash32 \<Rightarrow> SlotLease \<Rightarrow> bool" where
  "lease_excl st leaf lease \<longleftrightarrow>
     (\<forall>l b. holds_lease st l b \<longrightarrow> (sl_index b = sl_index lease \<longrightarrow> l = leaf) \<and> (l = leaf \<longrightarrow> b = lease))"

text \<open>A lease that a leaf holds or may be given: no other leaf has its slot and the generation is current.\<close>
definition reserved_for :: "GroupState \<Rightarrow> hash32 \<Rightarrow> SlotLease \<Rightarrow> bool" where
  "reserved_for st leaf lease \<longleftrightarrow>
     bt_get (gs_slot_generations st) (sl_index lease) = Some (sl_generation lease) \<and> sl_index lease \<notin> gs_free_slots st \<and> lease_excl st leaf lease"

definition leases_wf :: "GroupState \<Rightarrow> bool" where
  "leases_wf st \<longleftrightarrow> bt_inv (gs_slot_generations st) \<and> bt_inv (gs_leaf_slot_leases st) \<and> bt_inv (gs_pending_join_finalize_auth st) \<and>
     (gs_slot_generations st = [] \<and> gs_free_slots st = {} \<or> map fst (gs_slot_generations st) = slot_range st) \<and>
     gs_free_slots st \<subseteq> set (slot_range st) \<and>
     (\<forall>leaf r. bt_get (gs_pending_join_finalize_auth st) leaf = Some r \<longrightarrow> jf_leaf_id r = leaf)"

definition slot_inv :: "GroupState \<Rightarrow> bool" where
  "slot_inv st \<longleftrightarrow> leases_wf st \<and> (\<forall>leaf lease. holds_lease st leaf lease \<longrightarrow> reserved_for st leaf lease)"

definition gens_le :: "GroupState \<Rightarrow> GroupState \<Rightarrow> bool" where
  "gens_le st st' \<longleftrightarrow> (\<forall>i g. bt_get (gs_slot_generations st) i = Some g \<longrightarrow>
     (\<exists>g'\<ge>g. bt_get (gs_slot_generations st') i = Some g'))"

lemma gens_le_refl [simp]: "gens_le st st"
  by (auto simp: gens_le_def)

lemma gens_le_trans: "gens_le a b \<Longrightarrow> gens_le b c \<Longrightarrow> gens_le a c"
  unfolding gens_le_def by (meson order_trans)

lemma set_slot_range: "i \<in> set (slot_range st) \<longleftrightarrow> i < slot_capacity st"
proof
  assume "i \<in> set (slot_range st)"
  then obtain n where "i = of_nat n" "n < unat (slot_capacity st)"
    by (auto simp: slot_range_def)
  then show "i < slot_capacity st"
    using unat_of_nat [where 'a = 32, of n] by (simp add: word_less_nat_alt)
next
  assume "i < slot_capacity st"
  then have "unat i < unat (slot_capacity st)" "of_nat (unat i) = i"
    by (simp_all add: word_less_nat_alt)
  then show "i \<in> set (slot_range st)"
    unfolding slot_range_def by (metis atLeastLessThan_iff image_eqI le0 list.set_map set_upt)
qed

lemma length_slot_range [simp]: "length (slot_range st) = unat (slot_capacity st)"
  by (simp add: slot_range_def)

lemma sorted_slot_range: "sorted_wrt (<) (slot_range st)"
  unfolding slot_range_def sorted_wrt_map
proof (rule sorted_wrt_mono_rel [OF _ sorted_wrt_upt])
  fix i j
  assume "i \<in> set [0..<unat (slot_capacity st)]" "j \<in> set [0..<unat (slot_capacity st)]" "i < j"
  moreover have "unat (slot_capacity st) < 2 ^ LENGTH(32)"
    by (rule unsigned_less)
  ultimately show "(of_nat i :: u32) < of_nat j"
    by (simp add: word_less_nat_alt unat_of_nat)
qed

lemma bt_insert_same: "bt_inv m \<Longrightarrow> bt_get m k = Some v \<Longrightarrow> bt_insert k v m = m" for k :: "'k::linorder"
  by (induction k v m rule: bt_insert.induct) (fastforce dest: map_of_SomeD)+

lemma saturating_add_ge: "a \<le> saturating_add a b"
  by (auto simp: saturating_add_def)

lemma saturating_succ_greater: "a \<noteq> - 1 \<Longrightarrow> a < saturating_add a 1" for a :: "'a::len word"
proof -
  assume "a \<noteq> - 1"
  then have "unat a \<noteq> 2 ^ LENGTH('a) - 1"
    by (simp add: word_unat_eq_iff unsigned_minus_1_eq_mask mask_eq_exp_minus_1)
  moreover have "unat a < 2 ^ LENGTH('a)"
    by (rule unsigned_less)
  ultimately have "unat a < 2 ^ LENGTH('a) - 1"
    by linarith
  then show ?thesis
    by (simp add: word_less_nat_alt unat_saturating_add)
qed

lemma bt_insert_keys: "bt_inv m \<Longrightarrow> bt_get m k = Some w \<Longrightarrow> map fst (bt_insert k v m) = map fst m" for k :: "'k::linorder"
  by (induction k v m rule: bt_insert.induct) (fastforce dest: map_of_SomeD)+

text \<open>The initialisation of the allocator.\<close>
abbreviation initd :: "GroupState \<Rightarrow> GroupState" where
  "initd \<equiv> ensure_slot_allocator_initialized"

lemma initd_fields [simp]:
  "gs_leaf_slot_leases (initd st) = gs_leaf_slot_leases st"
  "gs_pending_join_finalize_auth (initd st) = gs_pending_join_finalize_auth st"
  "gs_n_max (initd st) = gs_n_max st"
  "holds_lease (initd st) = holds_lease st"
  "slot_capacity (initd st) = slot_capacity st"
  "slot_range (initd st) = slot_range st"
  by (auto simp: ensure_slot_allocator_initialized_def Let_def holds_lease_def slot_capacity_def slot_range_def fun_eq_iff)

lemma in_values: "bt_inv m \<Longrightarrow> i \<in> set (map (f \<circ> snd) m) \<longleftrightarrow> (\<exists>k v. bt_get m k = Some v \<and> f v = i)"
  by (auto simp: bt.get_entries image_iff Bex_def)

lemma held_slots:
  assumes "leases_wf st"
  shows "i \<in> set (map (sl_index \<circ> snd) (gs_leaf_slot_leases st)) \<union> set (map (sl_index \<circ> jf_lease \<circ> snd) (gs_pending_join_finalize_auth st))
    \<longleftrightarrow> (\<exists>leaf lease. holds_lease st leaf lease \<and> sl_index lease = i)"
proof -
  have "bt_inv (gs_leaf_slot_leases st)" "bt_inv (gs_pending_join_finalize_auth st)"
    using assms by (auto simp: leases_wf_def)
  then show ?thesis
    unfolding Un_iff using in_values [of "gs_leaf_slot_leases st" i sl_index]
      in_values [of "gs_pending_join_finalize_auth st" i "sl_index \<circ> jf_lease"]
    unfolding holds_lease_def comp_assoc by (auto simp: o_def)
qed

lemma gens_in_range:
  assumes "leases_wf st" "bt_get (gs_slot_generations st) i = Some g"
  shows "i < slot_capacity st"
proof -
  have "(i, g) \<in> set (gs_slot_generations st)"
    by (rule map_of_SomeD [OF assms(2)])
  then have "i \<in> set (map fst (gs_slot_generations st))"
    by force
  then have "i \<in> set (slot_range st)"
    using assms(1) by (auto simp: leases_wf_def simp del: set_map)
  then show ?thesis
    by (simp add: set_slot_range)
qed

lemma initd_gens:
  assumes "leases_wf st"
  shows "map fst (gs_slot_generations (initd st)) = slot_range st"
    and "bt_get (gs_slot_generations st) i = Some g \<Longrightarrow> bt_get (gs_slot_generations (initd st)) i = Some g"
  using assms by (auto simp: leases_wf_def ensure_slot_allocator_initialized_def Let_def o_def)

lemma initd_free:
  assumes "leases_wf st" "slot_inv st"
  shows "gs_free_slots (initd st) \<subseteq> set (slot_range st)"
    and "holds_lease st leaf lease \<Longrightarrow> sl_index lease \<notin> gs_free_slots (initd st)"
    and "gs_free_slots (initd st) = {} \<Longrightarrow> i < slot_capacity st \<Longrightarrow> \<exists>leaf lease. holds_lease st leaf lease \<and> sl_index lease = i"
proof -
  have len: "length (if gs_slot_generations st = [] then map (\<lambda>i. (i, 0)) (slot_range st) else gs_slot_generations st) = unat (slot_capacity st)"
  proof (cases "gs_slot_generations st = []")
    case False
    then have "length (map fst (gs_slot_generations st)) = length (slot_range st)"
      using assms(1) by (auto simp: leases_wf_def)
    with False show ?thesis
      by simp
  qed simp
  have "gs_free_slots (initd st) = (if gs_free_slots st = {} then
      {i \<in> set (slot_range st). \<not> i \<in> set (map (sl_index \<circ> snd) (gs_leaf_slot_leases st)) \<union>
        set (map (sl_index \<circ> jf_lease \<circ> snd) (gs_pending_join_finalize_auth st))} else gs_free_slots st)"
    using len unfolding ensure_slot_allocator_initialized_def Let_def by auto
  then have free: "gs_free_slots (initd st) = (if gs_free_slots st = {} then
      {i \<in> set (slot_range st). \<not> (\<exists>leaf lease. holds_lease st leaf lease \<and> sl_index lease = i)} else gs_free_slots st)"
    unfolding held_slots [OF assms(1)] .
  show "gs_free_slots (initd st) \<subseteq> set (slot_range st)"
    using assms(1) by (auto simp: free leases_wf_def)
  show "holds_lease st leaf lease \<Longrightarrow> sl_index lease \<notin> gs_free_slots (initd st)"
    using assms(2) by (auto simp: free slot_inv_def reserved_for_def)
  show "gs_free_slots (initd st) = {} \<Longrightarrow> i < slot_capacity st \<Longrightarrow> \<exists>leaf lease. holds_lease st leaf lease \<and> sl_index lease = i"
    by (auto simp: free set_slot_range split: if_splits)
qed

lemma initd_inv:
  assumes "slot_inv st"
  shows "slot_inv (initd st)" "gens_le st (initd st)"
proof -
  have wf: "leases_wf st"
    using assms by (simp add: slot_inv_def)
  have "bt_inv (gs_slot_generations (initd st))"
    by (simp add: bt_inv_def initd_gens [OF wf] sorted_slot_range)
  then show "slot_inv (initd st)"
    using assms wf initd_gens [OF wf] initd_free [OF wf assms]
    by (auto simp: slot_inv_def leases_wf_def reserved_for_def lease_excl_def)
  show "gens_le st (initd st)"
    using initd_gens(2) [OF wf] by (auto simp: gens_le_def)
qed

lemma reserved_after_free:
  assumes "slot_inv st" "i \<in> gs_free_slots (initd st)" "gs_leaf_slot_leases st = ls" "bt_get ls leaf = None"
    "bt_get (gs_pending_join_finalize_auth st) leaf = None"
  shows "reserved_for ((initd st)\<lparr>gs_free_slots := gs_free_slots (initd st) - {i}\<rparr>) leaf
    \<lparr>sl_index = i, sl_generation = (case bt_get (gs_slot_generations (initd st)) i of None \<Rightarrow> 0 | Some g \<Rightarrow> g)\<rparr>"
proof -
  have wf: "leases_wf st"
    using assms(1) by (simp add: slot_inv_def)
  have "i \<in> fst ` set (gs_slot_generations (initd st))"
    using initd_free(1) [OF wf assms(1)] assms(2) initd_gens(1) [OF wf] by (metis list.set_map subsetD)
  then obtain g where g: "bt_get (gs_slot_generations (initd st)) i = Some g"
    by (metis domIff dom_map_of_conv_image_fst option.exhaust)
  have "holds_lease ((initd st)\<lparr>gs_free_slots := gs_free_slots (initd st) - {i}\<rparr>) = holds_lease st"
    by (auto simp: holds_lease_def fun_eq_iff)
  then show ?thesis
    using initd_free(2) [OF wf assms(1)] assms(2-) g by (auto simp: reserved_for_def lease_excl_def) (auto simp: holds_lease_def)
qed

text \<open>Changes of the tables: leases go, or one that is reserved for its leaf is added.\<close>
lemma slot_invI:
  assumes "leases_wf st'" "gs_slot_generations st' = gs_slot_generations st" "gs_free_slots st' \<subseteq> gs_free_slots st"
    and "slot_inv st" "reserved_for st leaf lease"
    and "\<And>l b. holds_lease st' l b \<Longrightarrow> holds_lease st l b \<or> (l = leaf \<and> b = lease)"
  shows "slot_inv st'"
  unfolding slot_inv_def
proof (intro conjI allI impI)
  fix l b
  assume held: "holds_lease st' l b"
  then have r: "reserved_for st l b"
    using assms(4-6) unfolding slot_inv_def by blast
  have excl: "(sl_index b' = sl_index b \<longrightarrow> l' = l) \<and> (l' = l \<longrightarrow> b' = b)" if "holds_lease st' l' b'" for l' b'
  proof -
    have "holds_lease st l b \<or> (l = leaf \<and> b = lease)" "holds_lease st l' b' \<or> (l' = leaf \<and> b' = lease)"
      using assms(6) that held by blast+
    then show ?thesis
      using r assms(5) unfolding reserved_for_def lease_excl_def by metis
  qed
  have "bt_get (gs_slot_generations st) (sl_index b) = Some (sl_generation b)" "sl_index b \<notin> gs_free_slots st"
    using r unfolding reserved_for_def by blast+
  then show "reserved_for st' l b"
    unfolding reserved_for_def lease_excl_def assms(2) using assms(3) excl by (intro conjI allI impI) blast+
qed (rule assms(1))

lemma slot_inv_less:
  assumes "leases_wf st'" "gs_slot_generations st' = gs_slot_generations st" "gs_free_slots st' \<subseteq> gs_free_slots st"
    and "slot_inv st" "\<And>l b. holds_lease st' l b \<Longrightarrow> holds_lease st l b"
  shows "slot_inv st'"
proof (cases "\<exists>l b. holds_lease st' l b")
  case True
  then obtain l b where "holds_lease st' l b"
    by blast
  then have "reserved_for st l b"
    using assms(4,5) unfolding slot_inv_def by blast
  then show ?thesis
    by (rule slot_invI [OF assms(1-4)]) (use assms(5) in blast)
qed (use assms(1) in \<open>auto simp: slot_inv_def\<close>)

lemma lease_excl_cong: "holds_lease a = holds_lease b \<Longrightarrow> lease_excl a = lease_excl b"
  by (simp add: lease_excl_def fun_eq_iff)

lemma slot_inv_cong:
  assumes "gs_slot_generations st' = gs_slot_generations st" "gs_free_slots st' = gs_free_slots st"
    "gs_leaf_slot_leases st' = gs_leaf_slot_leases st" "gs_pending_join_finalize_auth st' = gs_pending_join_finalize_auth st"
    "gs_n_max st' = gs_n_max st"
  shows "slot_inv st' = slot_inv st"
  unfolding slot_inv_def leases_wf_def reserved_for_def lease_excl_def holds_lease_def slot_range_def slot_capacity_def assms ..

lemma shrink_free:
  assumes "slot_inv st" "map fst (gs_slot_generations st) = slot_range st"
  shows "slot_inv (st\<lparr>gs_free_slots := gs_free_slots st - A\<rparr>)"
proof (rule slot_inv_less [OF _ _ _ assms(1)])
  show "leases_wf (st\<lparr>gs_free_slots := gs_free_slots st - A\<rparr>)"
    using assms by (auto simp: slot_inv_def leases_wf_def slot_range_def slot_capacity_def)
qed (auto simp: holds_lease_def)

lemma allocate_cases:
  assumes "allocate_slot_lease leaf st = (r, st')"
  obtains (held) lease where "holds_lease st leaf lease" "st' = st" "r = Inr lease"
    | (none) "gs_free_slots (initd st) = {}" "st' = initd st" "r = Inl (CgInvalidInput ''slot allocator exhausted'')"
    | (new) i where "i \<in> gs_free_slots (initd st)" "st' = (initd st)\<lparr>gs_free_slots := gs_free_slots (initd st) - {i}\<rparr>"
        "r = Inr \<lparr>sl_index = i, sl_generation = (case bt_get (gs_slot_generations (initd st)) i of None \<Rightarrow> 0 | Some g \<Rightarrow> g)\<rparr>"
        "bt_get (gs_leaf_slot_leases st) leaf = None" "bt_get (gs_pending_join_finalize_auth st) leaf = None"
proof (cases "bt_get (gs_leaf_slot_leases st) leaf")
  case (Some a)
  then show thesis
    using assms by (intro held [of a]) (simp_all add: allocate_slot_lease_def holds_lease_def)
next
  case none1: None
  show thesis
  proof (cases "bt_get (gs_pending_join_finalize_auth st) leaf")
    case (Some a)
    then show thesis
      using assms none1 by (intro held [of "jf_lease a"]) (simp_all add: allocate_slot_lease_def holds_lease_def)
  next
    case none2: None
    show thesis
    proof (cases "gs_free_slots (initd st) = {}")
      case True
      with assms none1 none2 show thesis
        by (intro none) (simp_all add: allocate_slot_lease_def)
    next
      case False
      with assms none1 none2 show thesis
        by (intro new [of "Min (gs_free_slots (initd st))"]) (simp_all add: allocate_slot_lease_def Let_def)
    qed
  qed
qed

lemma allocate_inv:
  assumes "slot_inv st" "allocate_slot_lease leaf st = (r, st')"
  shows "slot_inv st'" "gens_le st st'" "holds_lease st' = holds_lease st" "slot_capacity st' = slot_capacity st"
    "\<And>lease. r = Inr lease \<Longrightarrow> reserved_for st' leaf lease"
proof -
  have wf: "leases_wf st"
    using assms(1) by (simp add: slot_inv_def)
  have "slot_inv st' \<and> gens_le st st' \<and> holds_lease st' = holds_lease st \<and> slot_capacity st' = slot_capacity st \<and>
    (\<forall>lease. r = Inr lease \<longrightarrow> reserved_for st' leaf lease)"
    using assms(2)
  proof (cases rule: allocate_cases)
    case held
    then show ?thesis
      using assms(1) by (auto simp: slot_inv_def)
  next
    case none
    then show ?thesis
      using initd_inv [OF assms(1)] by auto
  next
    case (new i)
    then show ?thesis
      using shrink_free [OF initd_inv(1) [OF assms(1)], of "{i}"] initd_inv(2) [OF assms(1)] initd_gens(1) [OF wf]
        reserved_after_free [OF assms(1) new(1) refl new(4,5)]
      by (auto simp: gens_le_def holds_lease_def fun_eq_iff slot_capacity_def)
  qed
  then show "slot_inv st'" "gens_le st st'" "holds_lease st' = holds_lease st" "slot_capacity st' = slot_capacity st"
    "\<And>lease. r = Inr lease \<Longrightarrow> reserved_for st' leaf lease"
    by auto
qed

lemma record_pending_inv:
  assumes "slot_inv st" "reserved_for st leaf lease"
  shows "slot_inv (record_pending_join leaf lease token st)"
  by (rule slot_invI [OF _ _ _ assms])
    (use assms(1) in \<open>auto simp: record_pending_join_def holds_lease_def slot_inv_def leases_wf_def slot_range_def slot_capacity_def
      split: if_splits\<close>)

text \<open>The lease that is reserved must not be one of another leaf; a refusal changes nothing but the initialisation.\<close>
lemma reserve_cases:
  assumes "reserve_slot_lease leaf lease st = (r, st')" "slot_inv st"
  obtains (range) "slot_capacity st \<le> sl_index lease" "st' = st" "r = Inl (CgInvalidInput ''slot lease index out of range'')"
    | (stale) g where "sl_index lease < slot_capacity st" "st' = initd st" "r = Inl (CgInvalidInput ''slot lease generation mismatch'')"
        "bt_get (gs_slot_generations st') (sl_index lease) = Some g" "g \<noteq> sl_generation lease"
    | (bound) b where "sl_index lease < slot_capacity st" "st' = initd st" "bt_get (gs_leaf_slot_leases st) leaf = Some b"
        "r = (if b = lease then Inr () else Inl (CgInvalidInput ''leaf already bound to another slot lease''))"
        "bt_get (gs_slot_generations st') (sl_index lease) = Some (sl_generation lease)"
    | (fresh) "sl_index lease < slot_capacity st" "r = Inr ()" "bt_get (gs_leaf_slot_leases st) leaf = None"
        "st' = (initd st)\<lparr>gs_free_slots := gs_free_slots (initd st) - {sl_index lease},
          gs_leaf_slot_leases := bt_insert leaf lease (gs_leaf_slot_leases st)\<rparr>"
        "bt_get (gs_slot_generations (initd st)) (sl_index lease) = Some (sl_generation lease)"
proof (cases "slot_capacity st \<le> sl_index lease")
  case True
  then show thesis
    using assms(1) by (intro range) (simp_all add: reserve_slot_lease_def)
next
  case False
  have wf: "leases_wf st"
    using assms(2) by (simp add: slot_inv_def)
  have "sl_index lease \<in> fst ` set (gs_slot_generations (initd st))"
    using False initd_gens(1) [OF wf] set_slot_range [of "sl_index lease" st] by (metis list.set_map not_le)
  then obtain g where g: "bt_get (gs_slot_generations (initd st)) (sl_index lease) = Some g"
    by (metis domIff dom_map_of_conv_image_fst option.exhaust)
  have same: "bt_insert (sl_index lease) g (gs_slot_generations (initd st)) = gs_slot_generations (initd st)"
    using bt_insert_same [OF _ g] initd_inv(1) [OF assms(2)] by (simp add: slot_inv_def leases_wf_def)
  show thesis
  proof (cases "g = sl_generation lease")
    case ne: False
    show thesis
      using assms(1) False g ne by (intro stale [of g]) (simp_all add: reserve_slot_lease_def Let_def same)
  next
    case eq: True
    show thesis
    proof (cases "bt_get (gs_leaf_slot_leases st) leaf")
      case None
      then show thesis
        using assms(1) False g eq same by (intro fresh) (simp_all add: reserve_slot_lease_def Let_def)
    next
      case (Some b)
      then show thesis
        using assms(1) False g eq same by (intro bound [of b]) (auto simp: reserve_slot_lease_def Let_def split: if_splits)
    qed
  qed
qed

lemma reserve_inv:
  assumes "slot_inv st" "reserve_slot_lease leaf lease st = (r, st')"
    and excl: "lease_excl st leaf lease"
  shows "slot_inv st' \<and> gens_le st st'"
  using assms(2,1)
proof (cases rule: reserve_cases)
  case fresh
  let ?mid = "(initd st)\<lparr>gs_free_slots := gs_free_slots (initd st) - {sl_index lease}\<rparr>"
  have wf: "leases_wf st"
    using assms(1) by (simp add: slot_inv_def)
  have mid: "slot_inv ?mid"
    by (rule shrink_free [OF initd_inv(1) [OF assms(1)]]) (simp add: initd_gens(1) [OF wf])
  have holds: "holds_lease ?mid = holds_lease st"
    by (auto simp: holds_lease_def fun_eq_iff)
  have res: "reserved_for ?mid leaf lease"
    using excl fresh(5) by (simp add: reserved_for_def lease_excl_cong [OF holds])
  have "slot_inv st'"
    by (rule slot_invI [OF _ _ _ mid res])
      (use mid in \<open>auto simp: fresh(4) holds_lease_def slot_inv_def leases_wf_def slot_range_def slot_capacity_def split: if_splits\<close>)
  then show ?thesis
    using initd_inv(2) [OF assms(1)] by (auto simp: fresh(4) gens_le_def)
qed (use initd_inv [OF assms(1)] assms(1) in auto)

lemma activate_inv:
  assumes "slot_inv st" "activate_slot_lease leaf lease st = (r, st')" "lease_excl st leaf lease"
  shows "slot_inv st' \<and> gens_le st st'"
proof -
  obtain q u where u: "reserve_slot_lease leaf lease st = (q, u)"
    by fastforce
  have inv: "slot_inv u \<and> gens_le st u"
    by (rule reserve_inv [OF assms(1) u assms(3)])
  show ?thesis
  proof (cases q)
    case (Inl e)
    then show ?thesis
      using inv u assms(2) by (simp add: activate_slot_lease_def tryS_def)
  next
    case (Inr x)
    then have st': "st' = u\<lparr>gs_revoked := gs_revoked u - {leaf}, gs_revoked_slot_leases := bt_remove leaf (gs_revoked_slot_leases u)\<rparr>"
      using u assms(2) by (simp add: activate_slot_lease_def tryS_def updS_def)
    then show ?thesis
      using inv slot_inv_cong [of st' u] by (auto simp: gens_le_def)
  qed
qed

text \<open>The operations of the server on the leases.\<close>

lemma pending_or_active_holds: "pending_or_active st leaf = Some lease \<Longrightarrow> holds_lease st leaf lease"
  by (auto simp: pending_or_active_def holds_lease_def split: option.splits)

lemma held_excl: "slot_inv st \<Longrightarrow> holds_lease st leaf lease \<Longrightarrow> lease_excl st leaf lease"
  unfolding slot_inv_def reserved_for_def by blast

lemma joined_inv:
  assumes "slot_inv st" "apply_joined_leaf version device_pk ek leaf st = (r, st')"
  shows "slot_inv st' \<and> gens_le st st'"
proof (cases "pending_or_active st leaf")
  case None
  then show ?thesis
    using assms by (simp add: apply_joined_leaf_def tryS_def liftS_def)
next
  case (Some lease)
  obtain q u where u: "activate_slot_lease leaf lease st = (q, u)"
    by fastforce
  have inv: "slot_inv u \<and> gens_le st u"
    by (rule activate_inv [OF assms(1) u held_excl [OF assms(1) pending_or_active_holds [OF Some]]])
  have "gs_slot_generations st' = gs_slot_generations u" "gs_free_slots st' = gs_free_slots u"
    "gs_leaf_slot_leases st' = gs_leaf_slot_leases u" "gs_pending_join_finalize_auth st' = gs_pending_join_finalize_auth u"
    "gs_n_max st' = gs_n_max u"
    using assms(2) u Some
    by (auto simp: apply_joined_leaf_def tryS_def liftS_def updS_def Let_def split: sum.splits prod.splits option.splits)
  then show ?thesis
    using inv slot_inv_cong [of st' u] by (simp add: gens_le_def)
qed

lemma released_inv:
  assumes "slot_inv st" "bt_get (gs_leaf_slot_leases st) leaf = Some lease" "release_slot_lease leaf st = (r, u)"
    and st': "gs_slot_generations st' = gs_slot_generations u" "gs_free_slots st' = gs_free_slots u"
    "gs_leaf_slot_leases st' = gs_leaf_slot_leases u"
    "gs_pending_join_finalize_auth st' = bt_remove leaf (gs_pending_join_finalize_auth u)" "gs_n_max st' = gs_n_max u"
  shows "slot_inv st' \<and> gens_le st st' \<and> r = Some lease \<and>
    bt_get (gs_slot_generations st') (sl_index lease) = Some (saturating_add (sl_generation lease) 1)"
proof -
  have u: "r = Some lease" "u = (initd st)\<lparr>gs_leaf_slot_leases := bt_remove leaf (gs_leaf_slot_leases st),
     gs_slot_generations := bt_insert (sl_index lease) (saturating_add (sl_generation lease) 1) (gs_slot_generations (initd st)),
     gs_free_slots := Set.insert (sl_index lease) (gs_free_slots (initd st))\<rparr>"
    using assms(2,3) by (simp_all add: release_slot_lease_def Let_def)
  have inv: "slot_inv (initd st)" and wf: "leases_wf (initd st)" and full: "map fst (gs_slot_generations (initd st)) = slot_range st"
    using initd_inv [OF assms(1)] assms(1) by (simp_all add: slot_inv_def initd_gens)
  have held: "holds_lease (initd st) leaf lease"
    using assms(2) by (simp add: holds_lease_def)
  then have res: "reserved_for (initd st) leaf lease"
    using inv by (simp add: slot_inv_def)
  have other: "holds_lease (initd st) l b \<and> l \<noteq> leaf" if "holds_lease st' l b" for l b
    using that wf by (auto simp: holds_lease_def st' u leases_wf_def split: if_splits)
  have idx: "sl_index b \<noteq> sl_index lease" if "holds_lease (initd st) l b" "l \<noteq> leaf" for l b
    using res that unfolding reserved_for_def lease_excl_def by blast
  have g: "bt_get (gs_slot_generations (initd st)) (sl_index lease) = Some (sl_generation lease)"
    using res by (simp add: reserved_for_def)
  have "sl_index lease \<in> set (map fst (gs_slot_generations (initd st)))"
    using map_of_SomeD [OF g] by force
  then have same: "slot_range st' = slot_range st" "sl_index lease \<in> set (slot_range st)"
    using full by (simp_all add: slot_range_def slot_capacity_def st' u)
  have "leases_wf st'"
    using wf full bt_insert_keys [OF _ g, of "saturating_add (sl_generation lease) 1"] same
    by (auto simp: leases_wf_def st' u split: if_splits)
  moreover have "reserved_for st' l b" if "holds_lease st' l b" for l b
  proof -
    have b: "holds_lease (initd st) l b" "l \<noteq> leaf"
      using other [OF that] by simp_all
    then have r: "reserved_for (initd st) l b"
      using inv by (simp add: slot_inv_def)
    then have "lease_excl st' l b"
      using other unfolding reserved_for_def lease_excl_def by blast
    then show ?thesis
      using r idx [OF b] by (simp add: reserved_for_def st' u)
  qed
  moreover have "gens_le st st'"
    using initd_gens(2) [of st] assms(1) g by (auto simp: slot_inv_def gens_le_def st' u saturating_add_ge)
  ultimately show ?thesis
    using u by (auto simp: slot_inv_def st')
qed

lemma revoked_inv:
  assumes "slot_inv st" "apply_revoked_leaf leaf st = (r, st')"
  shows "slot_inv st' \<and> gens_le st st'"
    and "bt_get (gs_leaf_slot_leases st) leaf = Some lease \<Longrightarrow> r = Inr () \<and>
      bt_get (gs_slot_generations st') (sl_index lease) = Some (saturating_add (sl_generation lease) 1)"
proof -
  obtain q u where u: "release_slot_lease leaf st = (q, u)"
    by fastforce
  have run: "(case q of None \<Rightarrow> r = Inl (CgInvalidInput ''missing slot lease for revoked leaf'') \<and> st' = u
     | Some released \<Rightarrow> r = Inr () \<and> st' = u\<lparr>gs_leaf_device_pk := bt_remove leaf (gs_leaf_device_pk u),
         gs_leaf_barrier_public := bt_remove leaf (gs_leaf_barrier_public u),
         gs_pending_join_finalize_auth := bt_remove leaf (gs_pending_join_finalize_auth u),
         gs_revoked_slot_leases := bt_insert leaf released (gs_revoked_slot_leases u)\<rparr>)"
    using assms(2) u by (auto simp: apply_revoked_leaf_def tryS_def updS_def split: option.splits)
  show "slot_inv st' \<and> gens_le st st'"
  proof (cases "bt_get (gs_leaf_slot_leases st) leaf")
    case None
    then show ?thesis
      using u run initd_inv [OF assms(1)] by (auto simp: release_slot_lease_def Let_def)
  next
    case (Some lease)
    then have "q = Some lease"
      using u by (auto simp: release_slot_lease_def Let_def)
    then show ?thesis
      using released_inv [OF assms(1) Some u, of st'] run by auto
  qed
  show "r = Inr () \<and> bt_get (gs_slot_generations st') (sl_index lease) = Some (saturating_add (sl_generation lease) 1)"
    if "bt_get (gs_leaf_slot_leases st) leaf = Some lease"
  proof -
    have "q = Some lease"
      using u that by (auto simp: release_slot_lease_def Let_def)
    then show ?thesis
      using released_inv [OF assms(1) that u, of st'] run by auto
  qed
qed

lemma finalize_fields [simp]:
  "gs_slot_generations (finalize_slot_reclaim lease st) = gs_slot_generations st"
  "gs_free_slots (finalize_slot_reclaim lease st) = gs_free_slots st"
  "gs_leaf_slot_leases (finalize_slot_reclaim lease st) = gs_leaf_slot_leases st"
  "gs_pending_join_finalize_auth (finalize_slot_reclaim lease st) = gs_pending_join_finalize_auth st"
  "gs_n_max (finalize_slot_reclaim lease st) = gs_n_max st"
proof -
  define f :: "hash32 \<Rightarrow> GroupState \<Rightarrow> GroupState" where
    "f = (\<lambda>leaf st. st\<lparr>gs_revoked := gs_revoked st - {leaf}, gs_revoked_slot_leases := bt_remove leaf (gs_revoked_slot_leases st)\<rparr>)"
  have "gs_slot_generations (fold f ls st) = gs_slot_generations st \<and> gs_free_slots (fold f ls st) = gs_free_slots st \<and>
    gs_leaf_slot_leases (fold f ls st) = gs_leaf_slot_leases st \<and> gs_n_max (fold f ls st) = gs_n_max st \<and>
    gs_pending_join_finalize_auth (fold f ls st) = gs_pending_join_finalize_auth st" for ls and st :: GroupState
    by (induction ls arbitrary: st) (simp_all add: f_def)
  then show "gs_slot_generations (finalize_slot_reclaim lease st) = gs_slot_generations st"
    "gs_free_slots (finalize_slot_reclaim lease st) = gs_free_slots st"
    "gs_leaf_slot_leases (finalize_slot_reclaim lease st) = gs_leaf_slot_leases st"
    "gs_pending_join_finalize_auth (finalize_slot_reclaim lease st) = gs_pending_join_finalize_auth st"
    "gs_n_max (finalize_slot_reclaim lease st) = gs_n_max st"
    by (simp_all add: finalize_slot_reclaim_def flip: f_def)
qed

lemma finalize_join_inv:
  assumes "slot_inv st"
  shows "slot_inv (finalize_join leaf st) \<and> gens_le st (finalize_join leaf st)"
proof (cases "bt_get (gs_pending_join_finalize_auth st) leaf")
  case None
  with assms show ?thesis
    by (simp add: finalize_join_def)
next
  case (Some p)
  let ?mid = "st\<lparr>gs_pending_join_finalize_auth := bt_remove leaf (gs_pending_join_finalize_auth st)\<rparr>"
  have wf: "leases_wf st"
    using assms by (simp add: slot_inv_def)
  have "slot_inv ?mid"
  proof (rule slot_inv_less [OF _ _ _ assms])
    show "leases_wf ?mid"
      using wf by (auto simp: leases_wf_def slot_range_def slot_capacity_def split: if_splits)
    show "holds_lease ?mid l b \<Longrightarrow> holds_lease st l b" for l b
      using wf by (auto simp: holds_lease_def leases_wf_def split: if_splits)
  qed simp_all
  then have "slot_inv (finalize_join leaf st)"
    using slot_inv_cong [of "finalize_join leaf st" ?mid] by (simp add: finalize_join_def Some)
  then show ?thesis
    by (simp add: finalize_join_def Some gens_le_def)
qed

lemma sync_fields [simp]:
  "gs_slot_generations (sync_next_index st) = gs_slot_generations st"
  "gs_free_slots (sync_next_index st) = gs_free_slots st"
  "gs_leaf_slot_leases (sync_next_index st) = gs_leaf_slot_leases st"
  "gs_pending_join_finalize_auth (sync_next_index st) = gs_pending_join_finalize_auth st"
  "gs_n_max (sync_next_index st) = gs_n_max st"
  "gs_snapshots (sync_next_index st) = gs_snapshots st"
  "gs_latest_root (sync_next_index st) = gs_latest_root st"
  "gs_revoked (sync_next_index st) = gs_revoked st"
  by (simp_all add: sync_next_index_def Let_def)

text \<open>Runs keep the invariant and never lower a generation.\<close>
definition lease_keeps :: "GroupState \<Rightarrow> GroupState \<Rightarrow> bool" where
  "lease_keeps st st' \<longleftrightarrow> (slot_inv st \<longrightarrow> slot_inv st' \<and> gens_le st st')"

interpretation leases: state_relation lease_keeps
  by unfold_locales (auto simp: lease_keeps_def intro: gens_le_trans)

lemma keeps_next_leaf: "evolves lease_keeps next_available_join_leaf"
proof -
  have cong: "lease_keeps st st'" if "gs_slot_generations st' = gs_slot_generations st" "gs_free_slots st' = gs_free_slots st"
    "gs_leaf_slot_leases st' = gs_leaf_slot_leases st" "gs_pending_join_finalize_auth st' = gs_pending_join_finalize_auth st"
    "gs_n_max st' = gs_n_max st" for st st'
    using slot_inv_cong [OF that] that(1) by (simp add: lease_keeps_def gens_le_def)
  have "evolves lease_keeps (\<lambda>st. case allocate_leaf st of (index, st) \<Rightarrow> (Inr (sequential_leaf index), st))"
    by (auto simp: evolves_def allocate_leaf_def Let_def intro!: cong)
  moreover have "evolves lease_keeps (updS sync_next_index)"
    by (auto intro!: leases.evolves_upd cong)
  ultimately show ?thesis
    unfolding next_available_join_leaf_def by (intro leases.evolves_intro)
qed

lemma keeps_allocate: "evolves lease_keeps (allocate_slot_lease leaf)"
  by (rule evolvesI) (auto simp: lease_keeps_def dest: allocate_inv)

lemma keeps_reserve_join: "evolves lease_keeps (reserve_join_leaf P ov percent)"
  unfolding reserve_join_leaf_def
  by (cases ov) (simp_all, (intro leases.evolves_intro keeps_next_leaf keeps_allocate)+)

lemma reserve_join_reserved:
  assumes "slot_inv st" "reserve_join_leaf P ov percent st = (Inr (root, leaf, lease, leaves), st')"
  shows "reserved_for st' leaf lease"
proof -
  obtain u where u: "allocate_slot_lease leaf u = (Inr lease, st')" "lease_keeps st u"
  proof (cases ov)
    case None
    then show thesis
      using assms(2) that evolvesD [OF keeps_next_leaf]
      by (auto simp: reserve_join_leaf_def eff_simps)
  next
    case (Some l)
    then show thesis
      using assms(2) that [of st] leases.refl [of st] by (auto simp: reserve_join_leaf_def eff_simps split: if_splits)
  qed
  then show ?thesis
    using allocate_inv(5) [OF _ u(1)] assms(1) by (simp add: lease_keeps_def)
qed

text \<open>One step of the server on the leases of a group, with every outcome of the operation; a ticket may be abandoned after
  its slot was taken.  \<open>genesis\<close> is the first activation of leaves that have no ticket.\<close>
inductive lease_step :: "GroupState \<Rightarrow> GroupState \<Rightarrow> bool" where
  reserve: "reserve_join_leaf P ov percent st = (r, st') \<Longrightarrow> lease_step st st'"
| ticket: "reserve_join_leaf P ov percent st = (Inr (root, leaf, lease, leaves), st') \<Longrightarrow>
    lease_step st (record_pending_join leaf lease token st')"
| joined: "apply_joined_leaf version device_pk ek leaf st = (r, st') \<Longrightarrow> lease_step st st'"
| revoked: "apply_revoked_leaf leaf st = (r, st') \<Longrightarrow> lease_step st st'"
| finalized: "lease_step st (finalize_join leaf st)"
| genesis: "activate_slot_lease leaf lease st = (r, st') \<Longrightarrow>
    (\<And>l b. holds_lease st l b \<Longrightarrow> l \<noteq> leaf \<and> sl_index b \<noteq> sl_index lease) \<Longrightarrow> lease_step st st'"

lemma lease_step_keeps: "lease_step st st' \<Longrightarrow> lease_keeps st st'"
proof (induction rule: lease_step.induct)
  case (reserve P ov percent st r st')
  then show ?case
    by (rule evolvesD [OF keeps_reserve_join])
next
  case (ticket P ov percent st root leaf lease leaves st' token)
  have "gs_slot_generations (record_pending_join leaf lease token st') = gs_slot_generations st'"
    by (simp add: record_pending_join_def)
  then show ?case
    using evolvesD [OF keeps_reserve_join ticket] reserve_join_reserved [OF _ ticket] record_pending_inv [of st' leaf lease token]
    by (auto simp: lease_keeps_def gens_le_def)
next
  case (joined version device_pk ek leaf st r st')
  then show ?case
    using joined_inv by (auto simp: lease_keeps_def)
next
  case (revoked leaf st r st')
  then show ?case
    using revoked_inv(1) by (auto simp: lease_keeps_def)
next
  case (finalized st leaf)
  then show ?case
    using finalize_join_inv by (auto simp: lease_keeps_def)
next
  case (genesis leaf lease st r st')
  have "lease_excl st leaf lease"
    using genesis(2) unfolding lease_excl_def by blast
  then show ?case
    using activate_inv [OF _ genesis(1)] by (auto simp: lease_keeps_def)
qed

lemma lease_run_keeps: "lease_step\<^sup>*\<^sup>* st st' \<Longrightarrow> lease_keeps st st'"
  by (induction rule: rtranclp_induct) (auto intro: leases.refl leases.trans lease_step_keeps)

lemma default_slot_inv: "slot_inv (group_state_default\<lparr>gs_n_max := n\<rparr>)"
  by (simp add: slot_inv_def leases_wf_def holds_lease_def group_state_default_def)

text \<open>C6: over every sequence of join tickets, joins, revocations and completions of joins on a new group, no slot is held by
  two leaves (with an active lease or a pending ticket), no leaf holds two leases, and every held lease names a slot of the tree
  with the slot's current generation.\<close>
theorem slot_leases_exclusive:
  assumes "lease_step\<^sup>*\<^sup>* (group_state_default\<lparr>gs_n_max := n\<rparr>) st" and "holds_lease st leaf lease" and "holds_lease st leaf' lease'"
  shows "(sl_index lease = sl_index lease' \<longleftrightarrow> leaf = leaf') \<and> (leaf = leaf' \<longrightarrow> lease = lease') \<and>
    sl_index lease < slot_capacity st \<and> bt_get (gs_slot_generations st) (sl_index lease) = Some (sl_generation lease)"
proof -
  have inv: "slot_inv st"
    using lease_run_keeps [OF assms(1)] default_slot_inv by (simp add: lease_keeps_def)
  then have r: "reserved_for st leaf lease" and wf: "leases_wf st"
    using assms(2) by (auto simp: slot_inv_def)
  then have g: "bt_get (gs_slot_generations st) (sl_index lease) = Some (sl_generation lease)"
    by (simp add: reserved_for_def)
  have "sl_index lease < slot_capacity st"
    by (rule gens_in_range [OF wf g])
  then show ?thesis
    using r g assms(3) unfolding reserved_for_def lease_excl_def by metis
qed

text \<open>C28: a lease is dead once its leaf was revoked: whatever tickets, joins and revocations follow, no leaf can reserve it again,
  unless the generation of the slot has reached its largest value.\<close>
theorem revoked_lease_stays_dead:
  assumes "slot_inv st" "bt_get (gs_leaf_slot_leases st) leaf = Some lease" "sl_generation lease \<noteq> - 1"
    and "apply_revoked_leaf leaf st = (r, st\<^sub>1)" "lease_step\<^sup>*\<^sup>* st\<^sub>1 st\<^sub>2"
  shows "fst (reserve_slot_lease leaf' lease st\<^sub>2) = Inl (CgInvalidInput ''slot lease generation mismatch'')"
proof -
  note rel = revoked_inv [OF assms(1,4)]
  have inv: "slot_inv st\<^sub>2" "gens_le st\<^sub>1 st\<^sub>2"
    using lease_run_keeps [OF assms(5)] rel(1) by (simp_all add: lease_keeps_def)
  obtain g where g: "bt_get (gs_slot_generations st\<^sub>2) (sl_index lease) = Some g" "saturating_add (sl_generation lease) 1 \<le> g"
    using rel(2) [OF assms(2)] inv(2) unfolding gens_le_def by blast
  have lt: "sl_generation lease < g"
    using g(2) assms(3) by (rule order_less_le_trans [OF saturating_succ_greater, rotated])
  have wf: "leases_wf st\<^sub>2"
    using inv by (simp add: slot_inv_def)
  obtain q t where run: "reserve_slot_lease leaf' lease st\<^sub>2 = (q, t)"
    by fastforce
  show ?thesis
    using run inv(1)
    by (cases rule: reserve_cases) (use run lt initd_gens(2) [OF wf g(1)] gens_in_range [OF wf g(1)] in auto)
qed

section \<open>Capacity\<close>

lemma cover_allocations_keys:
  "cover_allocations st leaves by_index = Inr m \<Longrightarrow>
     set (map fst m) = set (map fst by_index) \<union> {sl_index b |l b. l \<in> set leaves \<and> bt_get (gs_leaf_slot_leases st) l = Some b}"
proof (induction leaves arbitrary: by_index)
  case (Cons leaf leaves)
  then obtain lease by' where l: "bt_get (gs_leaf_slot_leases st) leaf = Some lease"
    "checked_insert_unique (sl_index lease) leaf ''duplicate active cover leaf allocation'' by_index = Inr by'"
    "cover_allocations st leaves by' = Inr m"
    by (auto simp: result_simps require_active_slot_lease_def)
  consider "by' = by_index" "sl_index lease \<in> dom (bt_get by_index)" | "by' = bt_insert (sl_index lease) leaf by_index"
    using l(2) by (auto simp: checked_insert_unique_def split: option.splits if_splits)
  then have "set (map fst by') = set (map fst by_index) \<union> {sl_index lease}"
    by cases (simp_all add: set_bt_insert insert_absorb dom_map_of_conv_image_fst)
  then show ?case
    using Cons.IH [OF l(3)] l(1) by auto
qed auto

definition latest_leaves :: "GroupState \<Rightarrow> hash32 set" where
  "latest_leaves st = (case latest_snapshot st of None \<Rightarrow> {} | Some s \<Rightarrow> set (ascending s))"

text \<open>The leaves whose slot the allocator keeps and the capacity check does not count: they have an active lease, but are not
  in the latest snapshot and have no pending ticket.\<close>
definition stray_leaves :: "GroupState \<Rightarrow> hash32 set" where
  "stray_leaves st = {l. (\<exists>b. bt_get (gs_leaf_slot_leases st) l = Some b) \<and> l \<notin> latest_leaves st \<and>
     bt_get (gs_pending_join_finalize_auth st) l = None}"

definition held_indices :: "GroupState \<Rightarrow> hash32 set \<Rightarrow> u32 set" where
  "held_indices st leaves = {sl_index b |l b. holds_lease st l b \<and> l \<in> leaves}"

lemma held_indices_card:
  assumes "slot_inv st"
  shows "card (held_indices st UNIV) = card (held_indices st (- stray_leaves st)) + card (stray_leaves st)"
proof -
  have excl: "l = l'" if "holds_lease st l b" "holds_lease st l' b'" "sl_index b = sl_index b'" for l b l' b'
    using assms that unfolding slot_inv_def reserved_for_def lease_excl_def by metis
  let ?slot = "\<lambda>l. sl_index (the (bt_get (gs_leaf_slot_leases st) l))"
  have stray: "holds_lease st l b \<longleftrightarrow> bt_get (gs_leaf_slot_leases st) l = Some b" if "l \<in> stray_leaves st" for l b
    using that by (auto simp: stray_leaves_def holds_lease_def)
  have "held_indices st (stray_leaves st) = ?slot ` stray_leaves st"
    using stray by (force simp: held_indices_def stray_leaves_def)
  moreover have "inj_on ?slot (stray_leaves st)"
    by (rule inj_onI) (use excl stray in \<open>auto simp: stray_leaves_def\<close>)
  ultimately have "card (held_indices st (stray_leaves st)) = card (stray_leaves st)"
    by (simp add: card_image)
  moreover have "held_indices st UNIV = held_indices st (- stray_leaves st) \<union> held_indices st (stray_leaves st)"
    by (auto simp: held_indices_def)
  moreover have "held_indices st (- stray_leaves st) \<inter> held_indices st (stray_leaves st) = {}"
    using excl by (fastforce simp: held_indices_def)
  ultimately show ?thesis
    by (simp add: card_Un_disjoint)
qed

lemma exhausted_iff:
  assumes "slot_inv st"
  shows "gs_free_slots (initd st) = {} \<longleftrightarrow> unat (slot_capacity st) \<le> card (held_indices st UNIV)"
proof -
  have wf: "leases_wf st"
    using assms by (simp add: slot_inv_def)
  note free = initd_free [OF wf assms]
  have range: "card (set (slot_range st)) = unat (slot_capacity st)"
    using sorted_slot_range [of st] by (simp add: strict_sorted_iff distinct_card)
  have sub: "held_indices st UNIV \<subseteq> set (slot_range st)"
    using assms gens_in_range [OF wf] by (auto simp: held_indices_def slot_inv_def reserved_for_def set_slot_range)
  show ?thesis
  proof
    assume "gs_free_slots (initd st) = {}"
    then have "set (slot_range st) \<subseteq> held_indices st UNIV"
      using free(3) by (fastforce simp: held_indices_def set_slot_range)
    then show "unat (slot_capacity st) \<le> card (held_indices st UNIV)"
      using card_mono [of "held_indices st UNIV"] by (simp flip: range)
  next
    assume "unat (slot_capacity st) \<le> card (held_indices st UNIV)"
    then have "held_indices st UNIV = set (slot_range st)"
      using card_seteq [OF _ sub] by (simp add: range)
    moreover have "gs_free_slots (initd st) \<inter> held_indices st UNIV = {}"
      using free(2) by (auto simp: held_indices_def)
    ultimately show "gs_free_slots (initd st) = {}"
      using free(1) by blast
  qed
qed

lemma reserved_slots:
  assumes "reserved_slot_indices st = Inr reserved" "slot_inv st"
  shows "reserved = held_indices st (- stray_leaves st)"
proof -
  obtain m where m: "active_cover_leaf_allocations st = Inr m"
    "reserved = set (map fst m) \<union> set (map (sl_index \<circ> jf_lease \<circ> snd) (gs_pending_join_finalize_auth st))"
    using assms(1) by (auto simp: reserved_slot_indices_def result_simps)
  have cover: "set (map fst m) = {sl_index b |l b. l \<in> latest_leaves st \<and> bt_get (gs_leaf_slot_leases st) l = Some b}"
    using m(1) cover_allocations_keys [of st _ "[]" m]
    by (auto simp: active_cover_leaf_allocations_def latest_leaves_def split: option.splits)
  have get: "bt_get (gs_pending_join_finalize_auth st) l = Some r \<longleftrightarrow> (l, r) \<in> set (gs_pending_join_finalize_auth st)" for l r
    using assms(2) by (simp add: slot_inv_def leases_wf_def bt_inv_def strict_sorted_iff)
  then have pending: "set (map (sl_index \<circ> jf_lease \<circ> snd) (gs_pending_join_finalize_auth st)) =
      {sl_index (jf_lease r) |l r. bt_get (gs_pending_join_finalize_auth st) l = Some r}"
    by force
  have same: "jf_lease r = b" if "bt_get (gs_pending_join_finalize_auth st) l = Some r" "bt_get (gs_leaf_slot_leases st) l = Some b" for l r b
    using assms(2) that unfolding slot_inv_def reserved_for_def lease_excl_def holds_lease_def by metis
  have "holds_lease st l b \<and> l \<in> - stray_leaves st \<longleftrightarrow>
      l \<in> latest_leaves st \<and> bt_get (gs_leaf_slot_leases st) l = Some b \<or>
      (\<exists>r. bt_get (gs_pending_join_finalize_auth st) l = Some r \<and> jf_lease r = b)" for l b
    by (auto simp: holds_lease_def stray_leaves_def dest: same)
  then show ?thesis
    unfolding m(2) cover pending held_indices_def by auto
qed

lemma slot_capacity_valid: "validate_barrier_n_max (gs_n_max st) = Inr n \<Longrightarrow> unat (slot_capacity st) = unat n \<and> n = gs_n_max st"
proof -
  assume "validate_barrier_n_max (gs_n_max st) = Inr n"
  then have n: "n = gs_n_max st" "gs_n_max st \<noteq> 0" "gs_n_max st \<le> 65536"
    by (auto simp: validate_barrier_n_max_def MAX_BARRIER_N_MAX_def split: if_splits)
  have le: "1 \<le> gs_n_max st" "gs_n_max st \<le> 4294967295" "unat (gs_n_max st) < 2 ^ 32"
    using n(2,3) by (simp_all add: word_le_nat_alt Suc_le_eq unat_pos)
  then have "min (max (gs_n_max st) 1) 4294967295 = gs_n_max st"
    by (simp add: min_absorb1 max_absorb1)
  then show ?thesis
    using n(1) le(3) by (simp add: slot_capacity_def unsigned_ucast_eq take_bit_nat_eq_self)
qed

lemma capacity_limit:
  assumes "unat n \<le> 65536" "percent < 100"
  shows "unat (barrier_leaf_capacity_limit_for_percent n percent) = unat n * unat percent div 100"
proof -
  have "unat percent < 100"
    using assms(2) by (simp add: word_less_nat_alt)
  moreover from this have "unat percent < 2 ^ 64"
    by simp
  ultimately have p: "unat (ucast percent :: u64) = unat percent" "unat percent < 100"
    by (simp_all add: unsigned_ucast_eq take_bit_nat_eq_self)
  have lt: "unat n * unat percent < 2 ^ 64"
    using mult_le_mono [OF assms(1), of "unat percent" 100] p(2) by simp
  then have "saturating_mul n (ucast percent) = n * ucast percent"
    using p(1) by (simp add: saturating_mul_def checked_mul_def)
  moreover have "unat (n * ucast percent :: u64) = unat n * unat percent"
    using lt p(1) unat_mult_lem [of n "ucast percent :: u64"] by simp
  ultimately show ?thesis
    by (simp add: barrier_leaf_capacity_limit_for_percent_def unat_div)
qed

lemma admitted_capacity:
  assumes "ensure_join_capacity_allows_fresh_reservation st percent = Inr ()"
  obtains reserved where "reserved_slot_indices st = Inr reserved" "unat (slot_capacity st) = unat (gs_n_max st)"
    "card reserved < unat (gs_n_max st)" "percent < 100 \<Longrightarrow> 100 * (card reserved + 1) \<le> unat (gs_n_max st) * unat percent"
proof -
  obtain n reserved where cap: "validate_barrier_n_max (gs_n_max st) = Inr n" "reserved_slot_indices st = Inr reserved"
    "saturating_sub n (min (of_nat (card reserved)) n) \<noteq> 0"
    "percent < 100 \<Longrightarrow> saturating_add (of_nat (card reserved)) 1 \<le> barrier_leaf_capacity_limit_for_percent n percent"
    using assms by (auto simp: ensure_join_capacity_allows_fresh_reservation_def barrier_leaf_capacity_def Let_def result_simps
      is_exhausted_def split: if_splits)
  have "card reserved \<le> card (UNIV :: u32 set)"
    by (rule card_mono) simp_all
  then have u: "unat (of_nat (card reserved) :: u64) = card reserved"
    by (simp add: unat_of_nat card_word)
  have n: "unat (slot_capacity st) = unat n" "n = gs_n_max st" "unat n \<le> 65536"
    using slot_capacity_valid [OF cap(1)] cap(1)
    by (auto simp: validate_barrier_n_max_def MAX_BARRIER_N_MAX_def word_less_nat_alt split: if_splits)
  have lt: "card reserved < unat n"
  proof (rule ccontr)
    assume "\<not> card reserved < unat n"
    then have "min (of_nat (card reserved)) n = n"
      using u by (simp add: word_le_nat_alt min_absorb2)
    with cap(3) show False
      by simp
  qed
  have "100 * (card reserved + 1) \<le> unat n * unat percent" if "percent < 100"
    using capacity_limit [OF n(3) that] cap(4) [OF that] u lt n(3)
    by (simp add: word_le_nat_alt unat_saturating_add)
  then show thesis
    using that cap(2) n(1,2) lt by simp
qed

text \<open>C29: when a join that passes the capacity check gets a slot.  The check counts the slots of the latest snapshot and of the
  pending tickets; they stay below the capacity and, with the new one, within the configured percentage of it.  A leaf without a
  lease of its own then gets a slot if and only if the stray leaves, which have an active lease but are neither in the latest
  snapshot nor pending, leave one over: always when there are none, even when slots were taken by abandoned tickets, and
  otherwise the allocator may refuse what the check let through.\<close>
theorem admitted_join_gets_slot:
  assumes "slot_inv st" and "ensure_join_capacity_allows_fresh_reservation st percent = Inr ()"
  shows "\<exists>reserved. reserved_slot_indices st = Inr reserved \<and> card reserved < unat (gs_n_max st) \<and>
    (percent < 100 \<longrightarrow> 100 * (card reserved + 1) \<le> unat (gs_n_max st) * unat percent) \<and>
    (if (\<exists>lease. holds_lease st leaf lease) \<or> card reserved + card (stray_leaves st) < unat (gs_n_max st)
     then \<exists>lease st'. allocate_slot_lease leaf st = (Inr lease, st')
     else fst (allocate_slot_lease leaf st) = Inl (CgInvalidInput ''slot allocator exhausted''))"
proof -
  obtain reserved where cap: "reserved_slot_indices st = Inr reserved" "unat (slot_capacity st) = unat (gs_n_max st)"
    "card reserved < unat (gs_n_max st)" "percent < 100 \<Longrightarrow> 100 * (card reserved + 1) \<le> unat (gs_n_max st) * unat percent"
    using admitted_capacity [OF assms(2)] by blast
  have iff: "gs_free_slots (initd st) = {} \<longleftrightarrow> \<not> card reserved + card (stray_leaves st) < unat (gs_n_max st)"
    using exhausted_iff [OF assms(1)] held_indices_card [OF assms(1)] cap(2) by (simp add: reserved_slots [OF cap(1) assms(1)] not_less)
  obtain q st' where run: "allocate_slot_lease leaf st = (q, st')"
    by fastforce
  then have "if (\<exists>lease. holds_lease st leaf lease) \<or> gs_free_slots (initd st) \<noteq> {} then \<exists>lease. q = Inr lease
     else q = Inl (CgInvalidInput ''slot allocator exhausted'')"
    by (auto simp: allocate_slot_lease_def holds_lease_def Let_def split: option.splits if_splits)
  then show ?thesis
    using cap(1,3,4) run unfolding iff by (intro exI [of _ reserved]) (auto split: if_splits)
qed

section \<open>Fresh leaves\<close>

lemma be_bytes: "n < 4294967296 \<Longrightarrow>
   ((n div 2 ^ 24 mod 256 * 256 + n div 2 ^ 16 mod 256) * 256 + n div 2 ^ 8 mod 256) * 256 + n div 2 ^ 0 mod 256 = (n::nat)"
proof -
  assume "n < 4294967296"
  then have "n div 16777216 mod 256 = n div 16777216"
    by simp
  moreover have "n div 65536 = n div 256 div 256" "n div 16777216 = n div 256 div 256 div 256"
    by (simp_all flip: div_mult2_eq)
  ultimately show ?thesis
    by (simp add: mult.commute)
qed

lemma leaf_suffix_sequential [simp]: "leaf_suffix_u32 (sequential_leaf i) = i"
proof -
  have n: "unat i < 4294967296"
    using unsigned_less [of i] by simp
  have b: "unat (ucast (drop_bit k i) :: u8) = unat i div 2 ^ k mod 256" for k
    using n by (simp only: unsigned_ucast_eq unsigned_drop_bit_eq) (simp add: take_bit_eq_mod drop_bit_nat_def)
  have "leaf_suffix_u32 (sequential_leaf i) =
      of_nat (((unat (ucast (drop_bit 24 i) :: u8) * 256 + unat (ucast (drop_bit 16 i) :: u8)) * 256
        + unat (ucast (drop_bit 8 i) :: u8)) * 256 + unat (ucast (drop_bit 0 i) :: u8))"
    by (simp add: leaf_suffix_u32_def sequential_leaf_def)
  then show ?thesis
    unfolding b be_bytes [OF n] by simp
qed

lemma fold_max_init: "a \<le> fold max xs (a :: 'a::linorder)"
  by (induction xs arbitrary: a) (auto intro: order_trans [OF max.cobounded2])

lemma fold_max_ge: "x \<in> set xs \<Longrightarrow> x \<le> fold max xs (a :: 'a::linorder)"
  by (induction xs arbitrary: a) (auto intro: order_trans [OF max.cobounded1 fold_max_init])

lemma fold_max_in: "fold max xs (a :: 'a::linorder) = a \<or> fold max xs a \<in> set xs"
proof (induction xs arbitrary: a)
  case (Cons x xs)
  show ?case
    using Cons.IH [of "max x a"] by (auto simp: max_def split: if_splits)
qed simp

text \<open>The leaf picked for a ticket is new: it is in none of the group's memberships, as long as no leaf has the largest
  suffix.\<close>
lemma next_join_leaf_fresh:
  assumes "next_available_join_leaf st = (Inr leaf, st')"
    and members: "\<And>root m. (root, m) \<in> set (gs_snapshots st) \<Longrightarrow> finite m \<and> (\<forall>l\<in>m. leaf_suffix_u32 l \<noteq> - 1)"
    and "(root, m) \<in> set (gs_snapshots st)"
  shows "leaf \<notin> m"
proof
  let ?all = "concat (map (\<lambda>(_, s). map leaf_suffix_u32 (ascending s)) (gs_snapshots st))"
  assume "leaf \<in> m"
  then have in_all: "leaf_suffix_u32 leaf \<in> set ?all"
    using assms(3) members [OF assms(3)] by (force simp: ascending_def)
  have "x \<noteq> - 1" if "x \<in> set ?all" for x
    using that members by (fastforce simp: ascending_def)
  then have "fold max ?all 0 \<noteq> - 1"
    using fold_max_in [of ?all 0] by (metis neg_equal_0_iff_equal zero_neq_one)
  then have "leaf_suffix_u32 leaf < saturating_add (fold max ?all 0) 1"
    by (rule le_less_trans [OF fold_max_ge [OF in_all] saturating_succ_greater])
  also have "\<dots> \<le> gs_next_index (sync_next_index st)"
    by (simp add: sync_next_index_def Let_def not_less)
  also have "\<dots> \<le> leaf_suffix_u32 leaf"
    using assms(1) by (auto simp: next_available_join_leaf_def eff_simps allocate_leaf_def Let_def split: if_splits)
  finally show False
    by simp
qed

section \<open>Roots\<close>

definition snapshots_ok :: "RpoExt \<Rightarrow> GroupState \<Rightarrow> bool" where
  "snapshots_ok P st \<longleftrightarrow> bt_inv (gs_snapshots st) \<and>
     (\<forall>root members. bt_get (gs_snapshots st) root = Some members \<longrightarrow>
        finite members \<and> canonical_set_root P (ascending members) = Inr root) \<and>
     (\<forall>root. gs_latest_root st = Some root \<longrightarrow> bt_get (gs_snapshots st) root \<noteq> None)"

definition roster_ok :: "RpoExt \<Rightarrow> GroupRoster \<Rightarrow> bool" where
  "roster_ok P roster \<longleftrightarrow> (\<forall>gid st. bt_get roster gid = Some st \<longrightarrow> snapshots_ok P st)"

lemma membership_apply_delta_set [simp]: "membership_apply_delta delta m = (m - set (md_revoked delta)) \<union> set (md_joined delta)"
proof -
  have "fold Set.remove xs m = m - set xs" for xs and m :: "hash32 set"
    by (induction xs arbitrary: m) auto
  moreover have "fold Set.insert xs m = m \<union> set xs" for xs and m :: "hash32 set"
    by (induction xs arbitrary: m) auto
  ultimately show ?thesis
    by (simp add: membership_apply_delta_def)
qed

lemma zero_root: "is_zero_root root \<Longrightarrow> length root = 32 \<Longrightarrow> root = zero_hash"
  by (auto simp: is_zero_root_def zero_hash_def intro: replicate_eqI)

lemma delta_from_run:
  assumes "delta_from P base_root delta base st = (r, st')"
  obtains (failed) e where "r = Inl e" "gs_latest_root st' = gs_latest_root st"
      "gs_snapshots st' = (case bt_get (gs_snapshots st) base_root of None \<Rightarrow> bt_insert base_root base (gs_snapshots st) | Some _ \<Rightarrow> gs_snapshots st)"
      "e = CgInvalidInput ''revoking non-member'' \<and> \<not> set (md_revoked delta) \<subseteq> base \<or>
       e = CgInvalidInput ''duplicate join'' \<and> set (md_joined delta) \<inter> base \<noteq> {} \<or>
       e = CgInvalidInput ''unable to compute membership root''"
    | (applied) root members where "r = Inr root" "set (md_revoked delta) \<subseteq> base" "set (md_joined delta) \<inter> base = {}"
      "members = (base - set (md_revoked delta)) \<union> set (md_joined delta)" "canonical_set_root P (ascending members) = Inr root"
      "gs_latest_root st' = Some root" "gs_revoked st' = (gs_revoked st - set (md_joined delta)) \<union> set (md_revoked delta)"
      "gs_snapshots st' = bt_insert root members (case bt_get (gs_snapshots st) base_root of
         None \<Rightarrow> bt_insert base_root base (gs_snapshots st) | Some _ \<Rightarrow> gs_snapshots st)"
proof -
  have rem: "fold Set.remove xs m = m - set xs" and ins: "fold Set.insert xs m = m \<union> set xs" for xs and m :: "hash32 set"
    by (induction xs arbitrary: m, auto)
  have conds: "(\<forall>leaf\<in>set (md_revoked delta). leaf \<in> base) \<longleftrightarrow> set (md_revoked delta) \<subseteq> base"
    "(\<forall>leaf\<in>set (md_joined delta). leaf \<notin> base) \<longleftrightarrow> set (md_joined delta) \<inter> base = {}"
    by blast+
  note run = assms [unfolded delta_from_def tryS_def updS_def liftS_def getS_def Let_def conds membership_apply_delta_set rem ins, simplified]
  show thesis
  proof (cases "set (md_revoked delta) \<subseteq> base \<and> set (md_joined delta) \<inter> base = {}")
    case False
    then show thesis
      using run by (intro failed [of "projl r"]) (auto simp: ensure_def split: if_splits)
  next
    case True
    show thesis
    proof (cases "canonical_set_root P (ascending (base - set (md_revoked delta) \<union> set (md_joined delta)))")
      case (Inl e)
      then show thesis
        using run True by (intro failed [of "projl r"]) (auto simp: ensure_def split: if_splits)
    next
      case (Inr root)
      then show thesis
        using run True by (intro applied [OF _ _ _ refl, of root]) (auto simp: ensure_def split: if_splits)
    qed
  qed
qed

lemma base_snapshots_ok:
  assumes "snapshots_ok P st" "length base_root = 32"
    and "bt_get (gs_snapshots st) base_root = Some base \<or> is_zero_root base_root \<and> gs_snapshots st = [] \<and> base = {}"
    and "snaps = (case bt_get (gs_snapshots st) base_root of None \<Rightarrow> bt_insert base_root base (gs_snapshots st) | Some _ \<Rightarrow> gs_snapshots st)"
  shows "bt_inv snaps \<and> finite base \<and>
    (\<forall>root members. bt_get snaps root = Some members \<longrightarrow> finite members \<and> canonical_set_root P (ascending members) = Inr root) \<and>
    (\<forall>root. bt_get (gs_snapshots st) root \<noteq> None \<longrightarrow> bt_get snaps root \<noteq> None)"
  using assms(3)
proof (elim disjE conjE)
  assume "bt_get (gs_snapshots st) base_root = Some base"
  then show ?thesis
    using assms(1,4) by (auto simp: snapshots_ok_def)
next
  assume "is_zero_root base_root" "gs_snapshots st = []" "base = {}"
  then show ?thesis
    using assms(4) zero_root [OF _ assms(2)] by (simp add: canonical_set_root_def ascending_def)
qed

lemma delta_from_ok:
  assumes "snapshots_ok P st" "length base_root = 32"
    and "bt_get (gs_snapshots st) base_root = Some base \<or> is_zero_root base_root \<and> gs_snapshots st = [] \<and> base = {}"
    and "delta_from P base_root delta base st = (r, st')"
  shows "snapshots_ok P st'"
  using assms(4)
proof (cases rule: delta_from_run)
  case (failed e)
  then show ?thesis
    using base_snapshots_ok [OF assms(1-3) failed(3)] assms(1) by (auto simp: snapshots_ok_def)
next
  case (applied root members)
  let ?snaps = "case bt_get (gs_snapshots st) base_root of None \<Rightarrow> bt_insert base_root base (gs_snapshots st) | Some _ \<Rightarrow> gs_snapshots st"
  have "bt_inv ?snaps" "finite base" "\<And>root members. bt_get ?snaps root = Some members \<Longrightarrow>
      finite members \<and> canonical_set_root P (ascending members) = Inr root"
    using base_snapshots_ok [OF assms(1-3) refl] by blast+
  then show ?thesis
    unfolding snapshots_ok_def applied(6,8) using applied(4,5) by auto
qed

lemma roster_entry_ok: "roster_ok P roster \<Longrightarrow> snapshots_ok P (roster_entry gid roster)"
  by (auto simp: roster_ok_def roster_entry_def snapshots_ok_def group_state_default_def split: option.splits)

text \<open>C18: the roster's roots are canonical.  Whatever membership change is applied and whether or not it is accepted, every
  root recorded for a group stays the canonical root of the membership recorded for it, and the latest root has a membership.  An
  accepted change revokes members only and joins non-members only, its root is the canonical root of the base membership without
  the revoked and with the joined leaves, and that is the membership the group has then; other groups are as before.\<close>
theorem roster_roots_canonical:
  assumes "roster_ok P roster" "length base_root = 32" "roster_apply_delta P gid base_root delta roster = (r, roster')"
  shows "roster_ok P roster' \<and>
    (\<forall>root. r = Inr root \<longrightarrow> (\<exists>base members.
       (members_for_root roster gid base_root = Some (ascending base) \<and> finite base \<or> base_root = zero_hash \<and> base = {}) \<and>
       set (md_revoked delta) \<subseteq> base \<and> set (md_joined delta) \<inter> base = {} \<and>
       members = (base - set (md_revoked delta)) \<union> set (md_joined delta) \<and>
       canonical_set_root P (ascending members) = Inr root \<and>
       roster_latest_root roster' gid = Some root \<and> roster_members roster' gid = ascending members \<and>
       members_for_root roster' gid root = Some (ascending members))) \<and>
    (\<forall>other. other \<noteq> gid \<longrightarrow> bt_get roster' other = bt_get roster other)"
proof -
  let ?st = "roster_entry gid roster"
  have ok: "snapshots_ok P ?st"
    by (rule roster_entry_ok [OF assms(1)])
  obtain st' where st': "roster' = bt_insert gid st' roster" and
    run: "(\<exists>base. (bt_get (gs_snapshots ?st) base_root = Some base \<or> is_zero_root base_root \<and> gs_snapshots ?st = [] \<and> base = {}) \<and>
        delta_from P base_root delta base ?st = (r, st')) \<or> (r = Inl (CgInvalidInput ''unknown membership base root'') \<and> st' = ?st)"
    using assms(3) by (auto simp: roster_apply_delta_def on_group_def split: option.splits if_splits prod.splits)
  have "snapshots_ok P st'"
    using run ok delta_from_ok [OF ok assms(2)] by blast
  then have "roster_ok P roster'"
    using assms(1) by (auto simp: roster_ok_def st')
  moreover have "\<exists>base members.
       (members_for_root roster gid base_root = Some (ascending base) \<and> finite base \<or> base_root = zero_hash \<and> base = {}) \<and>
       set (md_revoked delta) \<subseteq> base \<and> set (md_joined delta) \<inter> base = {} \<and>
       members = (base - set (md_revoked delta)) \<union> set (md_joined delta) \<and>
       canonical_set_root P (ascending members) = Inr root \<and>
       roster_latest_root roster' gid = Some root \<and> roster_members roster' gid = ascending members \<and>
       members_for_root roster' gid root = Some (ascending members)" if r: "r = Inr root" for root
  proof -
    obtain base where base: "bt_get (gs_snapshots ?st) base_root = Some base \<or> is_zero_root base_root \<and> gs_snapshots ?st = [] \<and> base = {}"
      and d: "delta_from P base_root delta base ?st = (r, st')"
      using run r by blast
    have b: "members_for_root roster gid base_root = Some (ascending base) \<and> finite base \<or> base_root = zero_hash \<and> base = {}"
      using base zero_root [OF _ assms(2)] ok
      by (auto simp: members_for_root_def roster_entry_def snapshots_ok_def group_state_default_def split: option.splits)
    from d show ?thesis
    proof (cases rule: delta_from_run)
      case (applied root' members)
      then show ?thesis
        using r b by (intro exI [of _ base] exI [of _ members])
          (simp add: st' roster_latest_root_def roster_members_def members_for_root_def latest_snapshot_def)
    qed (use r in simp)
  qed
  ultimately show ?thesis
    by (auto simp: st')
qed

section \<open>Instances\<close>

definition small_group :: GroupState where
  "small_group = group_state_default\<lparr>gs_n_max := 2\<rparr>"

lemma small_range: "slot_range small_group = [0, 1]" "slot_capacity small_group = 2"
  by (simp_all add: slot_range_def slot_capacity_def small_group_def group_state_default_def upt_conv_Cons)

definition small_lease :: SlotLease where
  "small_lease = \<lparr>sl_index = 0, sl_generation = 0\<rparr>"

lemma small_init: "initd small_group = small_group\<lparr>gs_slot_generations := [(0, 0), (1, 0)], gs_free_slots := {0, 1}\<rparr>"
  by (simp add: ensure_slot_allocator_initialized_def small_range) (simp add: small_group_def group_state_default_def)

lemma two_power: "is_power_of_two (2 :: u64)"
  unfolding is_power_of_two_def list_ex_iff by (rule bexI [of _ 1]) simp_all

lemma small_capacity: "ensure_join_capacity_allows_fresh_reservation small_group 100 = Inr ()"
  by (simp add: ensure_join_capacity_allows_fresh_reservation_def barrier_leaf_capacity_def validate_barrier_n_max_def two_power
    MAX_BARRIER_N_MAX_def reserved_slot_indices_def active_cover_leaf_allocations_def latest_snapshot_def is_exhausted_def saturating_sub_def
    small_group_def group_state_default_def)

lemma small_ticket: "reserve_join_leaf sample_rpo (Some (sample_leaf 2)) 100 small_group =
   (Inr (zero_hash, sample_leaf 2, small_lease, []), (initd small_group)\<lparr>gs_free_slots := {1}\<rparr>)"
proof -
  have f: "gs_leaf_slot_leases small_group = []" "gs_pending_join_finalize_auth small_group = []" "latest_snapshot small_group = None"
    by (simp_all add: small_group_def group_state_default_def latest_snapshot_def)
  have "allocate_slot_lease (sample_leaf 2) small_group = (Inr small_lease, (initd small_group)\<lparr>gs_free_slots := {1}\<rparr>)"
    by (simp add: allocate_slot_lease_def f small_init small_lease_def Let_def)
  then show ?thesis
    using small_capacity by (simp add: reserve_join_leaf_def tryS_def getS_def liftS_def f ensure_join_capacity_allows_existing_leaf_reservation_def)
qed

theorem slot_leases_exclusive_witness:
  "\<exists>st. lease_step\<^sup>*\<^sup>* (group_state_default\<lparr>gs_n_max := 2\<rparr>) st \<and> holds_lease st (sample_leaf 2) small_lease \<and>
     sl_index small_lease < slot_capacity st"
proof -
  let ?st = "record_pending_join (sample_leaf 2) small_lease zero_hash ((initd small_group)\<lparr>gs_free_slots := {1}\<rparr>)"
  have run: "lease_step\<^sup>*\<^sup>* (group_state_default\<lparr>gs_n_max := 2\<rparr>) ?st"
    using r_into_rtranclp [of lease_step, OF lease_step.ticket [OF small_ticket]] by (simp add: small_group_def)
  moreover have "holds_lease ?st (sample_leaf 2) small_lease"
    by (simp add: record_pending_join_def holds_lease_def)
  ultimately show ?thesis
    using slot_leases_exclusive [of 2 ?st "sample_leaf 2" small_lease "sample_leaf 2" small_lease] by blast
qed

text \<open>The group with a member on slot 0, and with a stray leaf on slot 1.\<close>
definition member_group :: GroupState where
  "member_group = small_group\<lparr>gs_slot_generations := [(0, 0), (1, 0)], gs_free_slots := {1},
     gs_leaf_slot_leases := [(sample_leaf 2, small_lease)], gs_snapshots := [(sample_leaf 2, {sample_leaf 2})],
     gs_latest_root := Some (sample_leaf 2)\<rparr>"

definition stray_group :: GroupState where
  "stray_group = member_group\<lparr>gs_free_slots := {},
     gs_leaf_slot_leases := [(sample_leaf 2, small_lease), (sample_leaf 3, \<lparr>sl_index = 1, sl_generation = 0\<rparr>)]\<rparr>"

lemmas member_simps = member_group_def stray_group_def small_group_def group_state_default_def small_lease_def

lemma member_range:
  "slot_range member_group = [0, 1]" "slot_range stray_group = [0, 1]"
  using small_range(1) by (simp_all add: slot_range_def slot_capacity_def member_group_def stray_group_def)

lemma member_inv: "slot_inv member_group" "slot_inv stray_group"
  by (auto simp: slot_inv_def leases_wf_def reserved_for_def lease_excl_def holds_lease_def member_range bt_inv_def)
    (auto simp: member_simps sample_leaf_def split: if_splits)

lemma member_strays: "stray_leaves member_group = {}" "stray_leaves stray_group = {sample_leaf 3}"
  by (auto simp: stray_leaves_def latest_leaves_def latest_snapshot_def ascending_def member_simps sample_leaf_def split: if_splits)

lemma member_reserved: "reserved_slot_indices member_group = Inr {0}" "reserved_slot_indices stray_group = Inr {0}"
  by (simp_all add: reserved_slot_indices_def active_cover_leaf_allocations_def latest_snapshot_def ascending_def require_active_slot_lease_def
    checked_insert_unique_def member_simps)

lemma member_capacity:
  "ensure_join_capacity_allows_fresh_reservation member_group 100 = Inr ()"
  "ensure_join_capacity_allows_fresh_reservation stray_group 100 = Inr ()"
  using member_reserved
  by (simp_all add: ensure_join_capacity_allows_fresh_reservation_def barrier_leaf_capacity_def validate_barrier_n_max_def two_power
    MAX_BARRIER_N_MAX_def is_exhausted_def saturating_sub_def) (simp_all add: member_simps two_power)

theorem admitted_join_gets_slot_witness:
  "(\<exists>lease st'. allocate_slot_lease (sample_leaf 3) member_group = (Inr lease, st')) \<and> holds_lease member_group (sample_leaf 2) small_lease \<and>
   fst (allocate_slot_lease (sample_leaf 4) stray_group) = Inl (CgInvalidInput ''slot allocator exhausted'')"
proof -
  have "holds_lease member_group (sample_leaf 2) small_lease" "\<not> holds_lease stray_group (sample_leaf 4) lease" for lease
    by (simp_all add: holds_lease_def member_simps sample_leaf_def)
  moreover have "unat (gs_n_max member_group) = 2" "unat (gs_n_max stray_group) = 2"
    by (simp_all add: member_simps)
  ultimately show ?thesis
    using admitted_join_gets_slot [OF member_inv(1) member_capacity(1), of "sample_leaf 3"] admitted_join_gets_slot [OF member_inv(2) member_capacity(2), of "sample_leaf 4"]
    by (auto simp: member_reserved member_strays split: if_splits)
qed

theorem revoked_lease_stays_dead_witness:
  "\<exists>st r st\<^sub>1. bt_get (gs_leaf_slot_leases st) (sample_leaf 2) = Some small_lease \<and> apply_revoked_leaf (sample_leaf 2) st = (r, st\<^sub>1) \<and>
     fst (reserve_slot_lease (sample_leaf 3) small_lease st\<^sub>1) = Inl (CgInvalidInput ''slot lease generation mismatch'')"
proof -
  obtain q st where act: "activate_slot_lease (sample_leaf 2) small_lease small_group = (q, st)"
    by fastforce
  have inv: "slot_inv small_group" "lease_excl small_group (sample_leaf 2) small_lease"
    using default_slot_inv [of 2] by (simp_all add: small_group_def lease_excl_def holds_lease_def group_state_default_def)
  have held: "bt_get (gs_leaf_slot_leases st) (sample_leaf 2) = Some small_lease"
    using act by (auto simp: activate_slot_lease_def tryS_def updS_def reserve_slot_lease_def small_init Let_def small_range small_lease_def)
      (auto simp: small_group_def group_state_default_def updS_def)
  obtain r st\<^sub>1 where rev: "apply_revoked_leaf (sample_leaf 2) st = (r, st\<^sub>1)"
    by fastforce
  show ?thesis
    using revoked_lease_stays_dead [of st "sample_leaf 2" small_lease r st\<^sub>1 st\<^sub>1 "sample_leaf 3"]
      activate_inv [OF inv(1) act inv(2)] held rev by (auto simp: small_lease_def)
qed

theorem roster_roots_canonical_witness:
  "\<exists>roster'. roster_apply_delta sample_rpo [1] zero_hash \<lparr>md_joined = [sample_leaf 2], md_revoked = []\<rparr> [] = (Inr (sample_leaf 2), roster') \<and>
     roster_ok sample_rpo roster' \<and> roster_members roster' [1] = [sample_leaf 2]"
proof -
  obtain r roster' where run:
    "roster_apply_delta sample_rpo [1] zero_hash \<lparr>md_joined = [sample_leaf 2], md_revoked = []\<rparr> [] = (r, roster')"
    by fastforce
  then have "r = Inr (sample_leaf 2)" "roster_members roster' [1] = [sample_leaf 2]"
    by (auto simp: roster_apply_delta_def on_group_def roster_entry_def group_state_default_def is_zero_root_def zero_hash_def delta_from_def
      tryS_def updS_def liftS_def getS_def canonical_set_root_def ascending_def roster_members_def latest_snapshot_def split: prod.splits)
  then show ?thesis
    using run roster_roots_canonical [OF _ _ run] by (simp add: roster_ok_def)
qed

end
