(* ===== verification/TreeHistory.thy ===== *)
theory TreeHistory
  imports Roster
begin

text \<open>
  The history of the barrier tree (\<open>cityg-server/src/barrier_tree_state.rs\<close> and the history functions of
  \<open>cityg-server/src/lib.rs\<close>): the entries of the current tree, the store of past trees with shared entries, its pruning, the
  chain of history commitments and the request for a past tree.

  The lemmas show that a stored tree is read back as it was written, also after later writes and after pruning, that pruning
  keeps the current tree and the most recent others, that the commitments form a hash chain, and that a tree that is handed out
  has the requested hash.  A past tree loses its barrier version when the store is pruned.
\<close>

section \<open>Wire forms\<close>

definition update_malformed :: CityGError where
  "update_malformed = CgInvalidInput ''barrier_update malformed''"

definition parse_deterministic_cbor :: "Ext \<Rightarrow> (bytes \<Rightarrow> 'w option) \<Rightarrow> ('w \<Rightarrow> cbor) \<Rightarrow> bytes \<Rightarrow> CityGError + 'w" where
  "parse_deterministic_cbor E decode encode raw =
     tryE (ok_or update_malformed (decode raw)) (\<lambda>decoded.
     tryE (map_err (\<lambda>_. update_malformed) (to_cbor_vec E (encode decoded))) (\<lambda>canonical.
     tryE (ensure (canonical = raw) update_malformed) (\<lambda>_. Inr decoded)))"

definition vec_to_32 :: "bytes \<Rightarrow> CityGError + hash32" where
  "vec_to_32 b = (if length b = 32 then Inr b else Inl update_malformed)"

definition current_accepted_barrier_predecessor_hash :: "Ext \<Rightarrow> WireDecoders \<Rightarrow> GroupState \<Rightarrow> hash32" where
  "current_accepted_barrier_predecessor_hash E W st =
     (if gs_current_accepted_barrier_update st \<noteq> [] then
        case parse_deterministic_cbor E (de_update W) cbarrier_update (gs_current_accepted_barrier_update st) of
          Inr w \<Rightarrow> if length (bw_kem_tree_hash_before w) = 32 then bw_kem_tree_hash_before w
            else gs_current_accepted_barrier_predecessor_hash st
        | Inl _ \<Rightarrow> gs_current_accepted_barrier_predecessor_hash st
      else gs_current_accepted_barrier_predecessor_hash st)"

section \<open>The entries of the tree\<close>

fun place_leaf_keys :: "GroupState \<Rightarrow> nat \<Rightarrow> nat \<Rightarrow> hash32 list \<Rightarrow> bytes list \<Rightarrow> CityGError + bytes list" where
  "place_leaf_keys st n_max leaf_base [] es = Inr es"
| "place_leaf_keys st n_max leaf_base (leaf # leaves) es =
     tryE (require_active_slot_lease st leaf) (\<lambda>lease.
     place_leaf_keys st n_max leaf_base leaves
       (if n_max \<le> unat (sl_index lease) then es
        else case bt_get (gs_leaf_barrier_public st) leaf of
          None \<Rightarrow> es | Some ek \<Rightarrow> es[leaf_base + unat (sl_index lease) := ek]))"

definition build_fallback_pk_entries :: "GroupState \<Rightarrow> CityGError + bytes list" where
  "build_fallback_pk_entries st =
     tryE (ensure_distinct_active_slot_indices st) (\<lambda>_.
     tryE (barrier_pk_entry_layout (gs_n_max st)) (\<lambda>(n_max, expected_len, leaf_base).
     place_leaf_keys st n_max leaf_base (case latest_snapshot st of None \<Rightarrow> [] | Some s \<Rightarrow> ascending s) (replicate expected_len [])))"

definition build_pk_entries_view :: "GroupState \<Rightarrow> CityGError + bytes list" where
  "build_pk_entries_view st =
     tryE (ensure_distinct_active_slot_indices st) (\<lambda>_.
     tryE (barrier_pk_entry_layout (gs_n_max st)) (\<lambda>(_, expected_len, _).
     if length (gs_barrier_pk_entries st) = expected_len then Inr (gs_barrier_pk_entries st) else build_fallback_pk_entries st))"

section \<open>The store of past trees\<close>

definition blob_overflow :: CityGError where
  "blob_overflow = CgInvalidInput ''barrier public tree blob index overflow''"

definition rebuild_blob_index :: "(GroupState, CityGError, unit) eff" where
  "rebuild_blob_index st =
     (let n = min (length (gs_tree_blobs st)) 4294967296
      in (ensure (length (gs_tree_blobs st) \<le> 4294967296) blob_overflow,
          st\<lparr>gs_tree_blob_index := fold (\<lambda>i m. m(gs_tree_blobs st ! i \<mapsto> of_nat i)) [0..<n] Map.empty\<rparr>))"

definition intern_blob :: "bytes \<Rightarrow> (GroupState, CityGError, u32) eff" where
  "intern_blob entry st =
     (case gs_tree_blob_index st entry of
        Some index \<Rightarrow> (Inr index, st)
      | None \<Rightarrow>
          if 4294967296 \<le> length (gs_tree_blobs st) then (Inl blob_overflow, st)
          else let index = of_nat (length (gs_tree_blobs st)) in
            (Inr index, st\<lparr>gs_tree_blobs := gs_tree_blobs st @ [entry], gs_tree_blob_index := (gs_tree_blob_index st)(entry \<mapsto> index)\<rparr>))"

fun intern_blobs :: "bytes list \<Rightarrow> (GroupState, CityGError, u32 list) eff" where
  "intern_blobs [] = getS (\<lambda>_. [])"
| "intern_blobs (entry # es) = tryS (intern_blob entry) (\<lambda>i. tryS (intern_blobs es) (\<lambda>is. getS (\<lambda>_. i # is)))"

definition encode_snapshot :: "bytes list \<Rightarrow> (GroupState, CityGError, BarrierPublicTreeSnapshotRef) eff" where
  "encode_snapshot pk_entries =
     tryS (intern_blobs pk_entries) (\<lambda>indices.
     getS (\<lambda>_. \<lparr>sr_blob_indices = indices, sr_barrier_version = 0, sr_history_view_id = zero_hash,
       sr_history_commitment = history_commitment_default\<rparr>))"

definition decode_with_blobs :: "bytes list \<Rightarrow> BarrierPublicTreeSnapshotRef \<Rightarrow> CityGError + bytes list" where
  "decode_with_blobs blobs snapshot =
     mapE (\<lambda>index. ok_or (CgInvalidInput ''barrier public tree blob missing'') (slice_get blobs (unat index))) (sr_blob_indices snapshot)"

definition decode_snapshot :: "GroupState \<Rightarrow> BarrierPublicTreeSnapshotRef \<Rightarrow> CityGError + bytes list" where
  "decode_snapshot st = decode_with_blobs (gs_tree_blobs st)"

definition stamp :: "u64 \<Rightarrow> HistoryCommitment \<Rightarrow> BarrierPublicTreeSnapshotRef \<Rightarrow> BarrierPublicTreeSnapshotRef" where
  "stamp version commitment snapshot =
     snapshot\<lparr>sr_barrier_version := version, sr_history_commitment := commitment, sr_history_view_id := hc_view_id commitment\<rparr>"

definition record_snapshot_with_metadata ::
  "hash32 \<Rightarrow> u64 \<Rightarrow> HistoryCommitment \<Rightarrow> bytes list \<Rightarrow> (GroupState, CityGError, unit) eff" where
  "record_snapshot_with_metadata hash version commitment pk_entries st =
     (if pk_entries = [] then (Inr (), st)
      else case bt_get (gs_tree_history st) hash of
        Some snapshot \<Rightarrow> (Inr (), st\<lparr>gs_tree_history := bt_insert hash (stamp version commitment snapshot) (gs_tree_history st)\<rparr>)
      | None \<Rightarrow>
          tryS (encode_snapshot pk_entries) (\<lambda>snapshot.
          updS (\<lambda>st. st\<lparr>gs_tree_history := bt_insert hash (stamp version commitment snapshot) (gs_tree_history st)\<rparr>)) st)"

definition refresh_current_snapshot_commitments ::
  "Ext \<Rightarrow> WireDecoders \<Rightarrow> HistoryCommitment \<Rightarrow> (GroupState, CityGError, unit) eff" where
  "refresh_current_snapshot_commitments E W commitment =
     tryS (\<lambda>st. if gs_barrier_pk_entries st = [] then (Inr (), st)
       else tryS (liftS build_pk_entries_view) (\<lambda>entries.
         tryS (liftS (\<lambda>st. compute_barrier_tree_hash E (max (gs_n_max st) 1) entries)) (\<lambda>hash st.
         record_snapshot_with_metadata hash (gs_barrier_version st) commitment entries st)) st) (\<lambda>_.
     updS (\<lambda>st. let predecessor_hash = current_accepted_barrier_predecessor_hash E W st in
       if predecessor_hash = zero_hash then st
       else case bt_get (gs_tree_history st) predecessor_hash of
         None \<Rightarrow> st
       | Some snapshot \<Rightarrow> st\<lparr>gs_tree_history :=
           bt_insert predecessor_hash (stamp (gs_barrier_version st) commitment snapshot) (gs_tree_history st)\<rparr>))"

section \<open>History commitments\<close>

definition history_view_args :: "bytes \<Rightarrow> GroupState \<Rightarrow> u64 \<Rightarrow> cbor" where
  "history_view_args gid st n_max =
     cstruct [(''gid'', CBytes gid), (''barrier_initialized'', CBool (gs_barrier_initialized st)),
       (''barrier_version'', cu64 (gs_barrier_version st)), (''barrier_roots_hash'', CBytes (gs_barrier_roots_hash st)),
       (''kem_tree_hash_after'', CBytes (gs_kem_tree_hash_after st)),
       (''latest_root'', CBytes (case gs_latest_root st of None \<Rightarrow> zero_hash | Some r \<Rightarrow> r)),
       (''last_checkpoint_ec'', cu64 (gs_last_checkpoint_ec st)), (''last_accepted_ec'', cu64 (gs_last_accepted_ec st)),
       (''n_max'', cu64 n_max)]"

definition compute_history_view_id :: "Ext \<Rightarrow> bytes \<Rightarrow> GroupState \<Rightarrow> CityGError + hash32" where
  "compute_history_view_id E gid st =
     tryE (validate_barrier_n_max (gs_n_max st)) (\<lambda>n_max.
     map_err CgMsphf (h_l E ''barrier/history-view'' (history_view_args gid st n_max)))"

definition compute_history_commitment_id :: "Ext \<Rightarrow> bytes \<Rightarrow> hash32 \<Rightarrow> hash32 \<Rightarrow> u64 \<Rightarrow> CityGError + hash32" where
  "compute_history_commitment_id E gid view_id prev_id seq =
     map_err CgMsphf (h_l E ''barrier/history-commitment''
       (cstruct [(''gid'', CBytes gid), (''history_view_id'', CBytes view_id), (''prev_history_commitment_id'', CBytes prev_id),
         (''history_seq'', cu64 seq)]))"

definition synthesize_legacy_history_commitment :: "Ext \<Rightarrow> bytes \<Rightarrow> hash32 \<Rightarrow> CityGError + HistoryCommitment" where
  "synthesize_legacy_history_commitment E gid view_id =
     (if view_id = zero_hash then Inr history_commitment_default
      else tryE (map_err CgMsphf (h_l E ''barrier/history-commitment/legacy'' (CBytes (gid @ view_id)))) (\<lambda>cid.
        Inr \<lparr>hc_view_id = view_id, hc_commitment_id = cid, hc_prev_commitment_id = zero_hash, hc_seq = 0\<rparr>))"

definition ensure_current_history_commitment ::
  "Ext \<Rightarrow> WireDecoders \<Rightarrow> bytes \<Rightarrow> (GroupState, CityGError, HistoryCommitment) eff" where
  "ensure_current_history_commitment E W gid =
     tryS (liftS (compute_history_view_id E gid)) (\<lambda>view_id.
     tryS (getS gs_current_history_commitment) (\<lambda>current.
     if hc_view_id current = view_id \<and> hc_commitment_id current \<noteq> zero_hash
     then tryS (refresh_current_snapshot_commitments E W current) (\<lambda>_. getS (\<lambda>_. current))
     else
       let prev_id = hc_commitment_id current; seq = saturating_add (hc_seq current) 1 in
       tryS (liftS (\<lambda>_. compute_history_commitment_id E gid view_id prev_id seq)) (\<lambda>cid.
       let commitment = \<lparr>hc_view_id = view_id, hc_commitment_id = cid, hc_prev_commitment_id = prev_id, hc_seq = seq\<rparr> in
       tryS (updS (\<lambda>st. st\<lparr>gs_current_history_commitment := commitment\<rparr>)) (\<lambda>_.
       tryS (refresh_current_snapshot_commitments E W commitment) (\<lambda>_. getS (\<lambda>_. commitment))))))"

section \<open>Pruning\<close>

definition MAX_RETAINED_SNAPSHOTS :: nat where
  "MAX_RETAINED_SNAPSHOTS = 256"

text \<open>The comparison sorts downwards by the current hash, the sequence number and the hash; no two keys are equal.\<close>
definition retained_snapshots :: "GroupState \<Rightarrow> (hash32 \<times> BarrierPublicTreeSnapshotRef) list" where
  "retained_snapshots st =
     take MAX_RETAINED_SNAPSHOTS (rev (sort_key
       (\<lambda>(hash, snapshot). (hash = gs_kem_tree_hash_after st, hc_seq (sr_history_commitment snapshot), hash)) (gs_tree_history st)))"

fun repack :: "bytes list \<Rightarrow> (hash32 \<times> BarrierPublicTreeSnapshotRef) list \<Rightarrow> (GroupState, CityGError, unit) eff" where
  "repack old_blobs [] = getS (\<lambda>_. ())"
| "repack old_blobs ((hash, snapshot) # rest) =
     tryS (liftS (\<lambda>_. decode_with_blobs old_blobs snapshot)) (\<lambda>pk_entries.
     tryS (encode_snapshot pk_entries) (\<lambda>encoded.
     tryS (updS (\<lambda>st. st\<lparr>gs_tree_history := bt_insert hash
       (encoded\<lparr>sr_history_view_id := sr_history_view_id snapshot, sr_history_commitment := sr_history_commitment snapshot\<rparr>)
       (gs_tree_history st)\<rparr>)) (\<lambda>_. repack old_blobs rest)))"

definition prune_tree_history :: "(GroupState, CityGError, unit) eff" where
  "prune_tree_history st =
     (if gs_tree_history st = [] then (Inr (), st\<lparr>gs_tree_blobs := [], gs_tree_blob_index := Map.empty\<rparr>)
      else repack (gs_tree_blobs st) (retained_snapshots st)
        (st\<lparr>gs_tree_history := [], gs_tree_blobs := [], gs_tree_blob_index := Map.empty\<rparr>))"

definition record_barrier_public_tree_snapshot :: "Ext \<Rightarrow> WireDecoders \<Rightarrow> bytes \<Rightarrow> (GroupState, CityGError, unit) eff" where
  "record_barrier_public_tree_snapshot E W gid st =
     (if gs_barrier_pk_entries st = [] then (Inr (), st)
      else
        tryS (encode_snapshot (gs_barrier_pk_entries st)) (\<lambda>snapshot.
        tryS (getS gs_barrier_version) (\<lambda>version.
        tryS (ensure_current_history_commitment E W gid) (\<lambda>commitment.
        tryS (updS (\<lambda>st. st\<lparr>gs_tree_history :=
          bt_insert (gs_kem_tree_hash_after st) (stamp version commitment snapshot) (gs_tree_history st)\<rparr>)) (\<lambda>_.
        prune_tree_history)))) st)"

definition latest_join_records :: "hash32 set \<Rightarrow> JoinLeafHistoryRecord list \<Rightarrow> (hash32, JoinLeafHistoryRecord) btree" where
  "latest_join_records active =
     (\<lambda>records. fold (\<lambda>r m. if jl_leaf_id r \<notin> active then m
        else case bt_get m (jl_leaf_id r) of
          Some existing \<Rightarrow> if jl_barrier_version existing \<le> jl_barrier_version r then bt_insert (jl_leaf_id r) r m else m
        | None \<Rightarrow> bt_insert (jl_leaf_id r) r m) records [])"

definition prune_join_history :: "(GroupState, CityGError, unit) eff" where
  "prune_join_history st =
     (if gs_join_history st = [] then (Inr (), st)
      else
        tryS (liftS (\<lambda>st. validate_barrier_n_max (gs_n_max st))) (\<lambda>n_max st.
        let active = (case latest_snapshot st of None \<Rightarrow> {} | Some s \<Rightarrow> s) in
        if active = {} then (Inr (), st\<lparr>gs_join_history := []\<rparr>)
        else
          let latest = latest_join_records active (gs_join_history st) in
          if unat n_max < length latest then (Inl (CgInvalidInput ''unresolved join history exceeds n_max''), st)
          else (Inr (), st\<lparr>gs_join_history :=
            sort_key (\<lambda>r. (jl_slot_index r, jl_barrier_version r, jl_leaf_id r)) (map snd latest)\<rparr>)) st)"

section \<open>The request for a tree\<close>

record BarrierPublicTreeSnapshot =
  ts_n_max :: u64
  ts_kem_tree_hash_after :: hash32
  ts_barrier_version :: u64
  ts_history_view_id :: hash32
  ts_history_commitment :: HistoryCommitment
  ts_pk_entries :: "bytes list"

text \<open>A stored snapshot without a commitment gets one that is derived from its view.\<close>
definition legacy_snapshot ::
  "Ext \<Rightarrow> bytes \<Rightarrow> hash32 \<Rightarrow> BarrierPublicTreeSnapshotRef \<Rightarrow> (GroupState, CityGError, BarrierPublicTreeSnapshotRef) eff" where
  "legacy_snapshot E gid hash snapshot =
     (if hc_commitment_id (sr_history_commitment snapshot) \<noteq> zero_hash then getS (\<lambda>_. snapshot)
      else
        tryS (liftS (\<lambda>_. synthesize_legacy_history_commitment E gid (sr_history_view_id snapshot))) (\<lambda>c.
        tryS (updS (\<lambda>st. st\<lparr>gs_tree_history := bt_insert hash
          (snapshot\<lparr>sr_history_commitment := c, sr_history_view_id := hc_view_id c\<rparr>) (gs_tree_history st)\<rparr>)) (\<lambda>_.
        getS (\<lambda>_. snapshot\<lparr>sr_history_commitment := c\<rparr>))))"

definition find_tree ::
  "Ext \<Rightarrow> WireDecoders \<Rightarrow> bytes \<Rightarrow> hash32 \<Rightarrow> u64 \<Rightarrow> (GroupState, CityGError, bytes list \<times> u64 \<times> HistoryCommitment) eff" where
  "find_tree E W gid hash n_max =
     tryS (liftS build_pk_entries_view) (\<lambda>view.
     tryS (liftS (\<lambda>_. compute_barrier_tree_hash E n_max view)) (\<lambda>current_hash.
     tryS (getS (current_accepted_barrier_predecessor_hash E W)) (\<lambda>predecessor st.
     if current_hash = hash
     then tryS (ensure_current_history_commitment E W gid) (\<lambda>c. getS (\<lambda>st. (view, gs_barrier_version st, c))) st
     else case bt_get (gs_tree_history st) hash of
       None \<Rightarrow> (Inl (CgInvalidInput ''historical barrier public tree snapshot unavailable''), st)
     | Some snapshot \<Rightarrow>
         tryS (legacy_snapshot E gid hash snapshot) (\<lambda>snapshot.
         tryS (if predecessor \<noteq> zero_hash \<and> predecessor = hash then ensure_current_history_commitment E W gid
               else getS (\<lambda>_. sr_history_commitment snapshot)) (\<lambda>c.
         tryS (liftS (\<lambda>st. decode_snapshot st snapshot)) (\<lambda>es.
         getS (\<lambda>st. (es, if predecessor \<noteq> zero_hash \<and> predecessor = hash then gs_barrier_version st else sr_barrier_version snapshot,
           c))))) st)))"

definition fetch_barrier_public_tree ::
  "Ext \<Rightarrow> WireDecoders \<Rightarrow> bytes \<Rightarrow> hash32 \<Rightarrow> (GroupRoster, CityGError, BarrierPublicTreeSnapshot) eff" where
  "fetch_barrier_public_tree E W gid hash roster =
     (case bt_get roster gid of
        None \<Rightarrow> (Inl (CgInvalidInput ''group not found''), roster)
      | Some _ \<Rightarrow> on_group gid
          (tryS (liftS (\<lambda>st. validate_barrier_n_max (gs_n_max st))) (\<lambda>n_max.
           tryS prune_tree_history (\<lambda>_.
           tryS (find_tree E W gid hash n_max) (\<lambda>(es, version, c).
           tryS (liftS (\<lambda>_. compute_barrier_tree_hash E n_max es)) (\<lambda>computed_hash.
           tryS (liftS (\<lambda>_. ensure (computed_hash = hash) (CgAcceptance (Freeze FREEZE_BARRIER_TREE_SNAPSHOT_AUTH_FAILURE)))) (\<lambda>_.
           getS (\<lambda>_. \<lparr>ts_n_max = n_max, ts_kem_tree_hash_after = computed_hash, ts_barrier_version = version,
             ts_history_view_id = hc_view_id c, ts_history_commitment = c, ts_pk_entries = es\<rparr>))))))) roster)"

section \<open>What is stored is read back\<close>

definition blobs_ok :: "GroupState \<Rightarrow> bool" where
  "blobs_ok st \<longleftrightarrow> length (gs_tree_blobs st) \<le> 4294967296 \<and>
     (\<forall>i<length (gs_tree_blobs st). gs_tree_blob_index st (gs_tree_blobs st ! i) = Some (of_nat i)) \<and>
     dom (gs_tree_blob_index st) \<subseteq> set (gs_tree_blobs st)"

text \<open>Nothing but the blobs changes, and they are extended.\<close>
definition blobs_ext :: "GroupState \<Rightarrow> GroupState \<Rightarrow> bool" where
  "blobs_ext st st' \<longleftrightarrow> (\<exists>new index. st' = st\<lparr>gs_tree_blobs := gs_tree_blobs st @ new, gs_tree_blob_index := index\<rparr>)"

lemma blobs_ext_refl [simp]: "blobs_ext st st"
  unfolding blobs_ext_def by (intro exI [of _ "[]"] exI [of _ "gs_tree_blob_index st"]) simp

lemma blobs_extI: "blobs_ext st (st\<lparr>gs_tree_blobs := gs_tree_blobs st @ new, gs_tree_blob_index := index\<rparr>)"
  unfolding blobs_ext_def by blast

lemma blobs_ext_trans: "blobs_ext a b \<Longrightarrow> blobs_ext b c \<Longrightarrow> blobs_ext a c"
  unfolding blobs_ext_def by (clarsimp, (rule exI)+, rule refl)

interpretation blob_store: state_relation blobs_ext
  by unfold_locales (auto intro: blobs_ext_trans)

lemma unat_of_nat_u32: "n < 4294967296 \<Longrightarrow> unat (of_nat n :: u32) = n"
  by (simp add: unat_of_nat)

lemma intern_blob_run:
  assumes "blobs_ok st" "intern_blob entry st = (r, st')"
  shows "blobs_ok st'" "blobs_ext st st'"
    and "r = Inr i \<Longrightarrow> slice_get (gs_tree_blobs st') (unat i) = Some entry"
    and "r = Inl e \<Longrightarrow> entry \<notin> set (gs_tree_blobs st) \<and> length (gs_tree_blobs st) = 4294967296 \<and> e = blob_overflow"
    and "set (gs_tree_blobs st') \<subseteq> set (gs_tree_blobs st) \<union> {entry}"
proof -
  have "blobs_ok st' \<and> blobs_ext st st' \<and> (\<forall>i. r = Inr i \<longrightarrow> slice_get (gs_tree_blobs st') (unat i) = Some entry) \<and>
    (\<forall>e. r = Inl e \<longrightarrow> entry \<notin> set (gs_tree_blobs st) \<and> length (gs_tree_blobs st) = 4294967296 \<and> e = blob_overflow) \<and>
    set (gs_tree_blobs st') \<subseteq> set (gs_tree_blobs st) \<union> {entry}"
  proof (cases "gs_tree_blob_index st entry")
    case (Some i)
    then obtain k where "k < length (gs_tree_blobs st)" "gs_tree_blobs st ! k = entry"
      using assms(1) unfolding blobs_ok_def by (metis domI in_set_conv_nth subsetD)
    moreover from this have "unat i = k"
      using assms(1) Some by (auto simp: blobs_ok_def unat_of_nat_u32)
    ultimately show ?thesis
      using assms Some by (auto simp: intern_blob_def slice_get_def)
  next
    case None
    then have new: "entry \<notin> set (gs_tree_blobs st)"
      using assms(1) by (auto simp: blobs_ok_def in_set_conv_nth)
    show ?thesis
    proof (cases "4294967296 \<le> length (gs_tree_blobs st)")
      case True
      then show ?thesis
        using assms None new by (auto simp: intern_blob_def blobs_ok_def)
    next
      case False
      then have st': "r = Inr (of_nat (length (gs_tree_blobs st)))" "st' = st\<lparr>gs_tree_blobs := gs_tree_blobs st @ [entry],
          gs_tree_blob_index := (gs_tree_blob_index st)(entry \<mapsto> of_nat (length (gs_tree_blobs st)))\<rparr>"
        using assms(2) None by (simp_all add: intern_blob_def Let_def)
      have "blobs_ok st'"
        using assms(1) False new by (auto simp: blobs_ok_def st' nth_append less_Suc_eq in_set_conv_nth)
      then show ?thesis
        using False by (auto simp: st' slice_get_def unat_of_nat_u32 blobs_ext_def)
    qed
  qed
  then show "blobs_ok st'" "blobs_ext st st'"
    and "r = Inr i \<Longrightarrow> slice_get (gs_tree_blobs st') (unat i) = Some entry"
    and "r = Inl e \<Longrightarrow> entry \<notin> set (gs_tree_blobs st) \<and> length (gs_tree_blobs st) = 4294967296 \<and> e = blob_overflow"
    and "set (gs_tree_blobs st') \<subseteq> set (gs_tree_blobs st) \<union> {entry}"
    by auto
qed

lemma slice_get_append: "slice_get xs i = Some x \<Longrightarrow> slice_get (xs @ ys) i = Some x"
  by (auto simp: slice_get_def nth_append split: if_splits)

lemma decode_indices: "sr_blob_indices s = sr_blob_indices s' \<Longrightarrow> decode_with_blobs blobs s = decode_with_blobs blobs s'"
  by (simp add: decode_with_blobs_def)

lemma decode_ext:
  assumes "decode_with_blobs blobs snapshot = Inr es"
  shows "decode_with_blobs (blobs @ new) snapshot = Inr es"
  using assms by (auto simp: decode_with_blobs_def mapE_eq_Inr result_simps slice_get_append elim!: list_all2_mono)

lemma decode_blobs_ext: "blobs_ext st st' \<Longrightarrow> decode_snapshot st snapshot = Inr es \<Longrightarrow> decode_snapshot st' snapshot = Inr es"
  by (auto simp: blobs_ext_def decode_snapshot_def decode_ext)

lemma intern_blobs_run:
  assumes "blobs_ok st" "intern_blobs es st = (r, st')"
  shows "blobs_ok st' \<and> blobs_ext st st' \<and> set (gs_tree_blobs st') \<subseteq> set (gs_tree_blobs st) \<union> set es \<and>
    (\<forall>is. r = Inr is \<longrightarrow> mapE (\<lambda>index. ok_or err (slice_get (gs_tree_blobs st') (unat index))) is = Inr es) \<and>
    (\<forall>e. r = Inl e \<longrightarrow> e = blob_overflow \<and> length (gs_tree_blobs st') = 4294967296 \<and> \<not> set es \<subseteq> set (gs_tree_blobs st'))"
  using assms
proof (induction es arbitrary: st r st')
  case Nil
  then show ?case
    by (auto simp: eff_simps)
next
  case (Cons entry es)
  obtain r1 u where u: "intern_blob entry st = (r1, u)"
    by fastforce
  note one = intern_blob_run [OF Cons.prems(1) u]
  show ?case
  proof (cases r1)
    case (Inl e)
    then show ?thesis
      using Cons.prems(2) u one by (auto simp: tryS_def intern_blob_def split: option.splits if_splits)
  next
    case (Inr i)
    obtain r2 v where v: "intern_blobs es u = (r2, v)"
      by fastforce
    note rest = Cons.IH [OF one(1) v]
    have ext: "slice_get (gs_tree_blobs v) (unat i) = Some entry"
      using one(3) [OF Inr] rest by (auto simp: blobs_ext_def slice_get_append)
    have st': "st' = v" "r = (case r2 of Inl e \<Rightarrow> Inl e | Inr is \<Rightarrow> Inr (i # is))"
      using Cons.prems(2) u Inr v by (auto simp: tryS_def getS_def split: sum.splits)
    show ?thesis
      using rest one(5) ext blobs_ext_trans [OF one(2)] by (auto simp: st' split: sum.splits)
  qed
qed

text \<open>C25: the store of past trees returns what was put into it.  A tree that was encoded is decoded to the same entries, then and
  after any later writes that only extend the store, and every tree that could be decoded before still can; the encoding is refused
  only when the store holds \<open>2 ^ 32\<close> different entries and the tree has a new one.\<close>
theorem snapshot_roundtrip:
  assumes "blobs_ok st" "encode_snapshot pk_entries st = (r, st')"
  shows "blobs_ok st' \<and>
    (\<forall>snapshot st''. r = Inr snapshot \<longrightarrow> blobs_ext st' st'' \<longrightarrow> decode_snapshot st'' snapshot = Inr pk_entries) \<and>
    (\<forall>older es. decode_snapshot st older = Inr es \<longrightarrow> decode_snapshot st' older = Inr es) \<and>
    (\<forall>e. r = Inl e \<longrightarrow> e = blob_overflow \<and> length (gs_tree_blobs st') = 4294967296 \<and> \<not> set pk_entries \<subseteq> set (gs_tree_blobs st'))"
proof -
  obtain q where run: "intern_blobs pk_entries st = (q, st')" "r = (case q of Inl e \<Rightarrow> Inl e | Inr is \<Rightarrow>
      Inr \<lparr>sr_blob_indices = is, sr_barrier_version = 0, sr_history_view_id = zero_hash, sr_history_commitment = history_commitment_default\<rparr>)"
    using assms(2) by (auto simp: encode_snapshot_def tryS_def getS_def split: prod.splits sum.splits)
  note all = intern_blobs_run [OF assms(1) run(1), of "CgInvalidInput ''barrier public tree blob missing''"]
  have "decode_snapshot st' snapshot = Inr pk_entries" if "r = Inr snapshot" for snapshot
    using that all by (auto simp: run(2) decode_snapshot_def decode_with_blobs_def split: sum.splits)
  then show ?thesis
    using all decode_blobs_ext by (auto simp: run(2) split: sum.splits)
qed

section \<open>Pruning keeps what is recent\<close>

lemma blobs_distinct:
  assumes "blobs_ok st"
  shows "distinct (gs_tree_blobs st)"
  unfolding distinct_conv_nth
proof (intro allI impI)
  fix i j
  assume ij: "i < length (gs_tree_blobs st)" "j < length (gs_tree_blobs st)" "i \<noteq> j"
  then have "(of_nat i :: u32) \<noteq> of_nat j"
    using assms unat_of_nat_u32 [of i] unat_of_nat_u32 [of j] by (auto simp: blobs_ok_def)
  then show "gs_tree_blobs st ! i \<noteq> gs_tree_blobs st ! j"
    using assms ij by (metis blobs_ok_def option.inject)
qed

lemma encode_total:
  assumes "blobs_ok st" "set (gs_tree_blobs st) \<subseteq> set old" "length old \<le> 4294967296" "set es \<subseteq> set old"
  obtains snapshot st' where "encode_snapshot es st = (Inr snapshot, st')" "blobs_ok st'" "blobs_ext st st'"
    "set (gs_tree_blobs st') \<subseteq> set old" "decode_snapshot st' snapshot = Inr es" "sr_barrier_version snapshot = 0"
proof -
  obtain q st' where run: "intern_blobs es st = (q, st')"
    by fastforce
  note all = intern_blobs_run [OF assms(1) run, of "CgInvalidInput ''barrier public tree blob missing''"]
  have sub: "set (gs_tree_blobs st') \<subseteq> set old"
    using all assms(2,4) by blast
  obtain indices where q: "q = Inr indices"
  proof (cases q)
    case (Inl e)
    then have full: "length (gs_tree_blobs st') = 4294967296" "\<not> set es \<subseteq> set (gs_tree_blobs st')" "blobs_ok st'"
      using all by auto
    have "card (set old) \<le> card (set (gs_tree_blobs st'))"
      using full(1) assms(3) card_length [of old] distinct_card [OF blobs_distinct [OF full(3)]] by simp
    then have "set (gs_tree_blobs st') = set old"
      using sub by (intro card_subset_eq) (auto dest: card_mono [of "set old", rotated])
    then show thesis
      using full(2) assms(4) by simp
  qed
  show thesis
    using all sub run
    by (intro that [of "\<lparr>sr_blob_indices = indices, sr_barrier_version = 0, sr_history_view_id = zero_hash, sr_history_commitment = history_commitment_default\<rparr>" st'])
      (auto simp: q encode_snapshot_def tryS_def getS_def decode_snapshot_def decode_with_blobs_def)
qed

text \<open>A stored tree, written anew with the blobs of the retained trees only.\<close>
definition repacked :: "bytes list \<Rightarrow> BarrierPublicTreeSnapshotRef \<Rightarrow> GroupState \<Rightarrow> BarrierPublicTreeSnapshotRef \<Rightarrow> bool" where
  "repacked old s st s' \<longleftrightarrow> decode_snapshot st s' = decode_with_blobs old s \<and> sr_barrier_version s' = 0 \<and>
     sr_history_view_id s' = sr_history_view_id s \<and> sr_history_commitment s' = sr_history_commitment s"

lemma decode_in: "decode_with_blobs blobs s = Inr es \<Longrightarrow> set es \<subseteq> set blobs"
  unfolding decode_with_blobs_def mapE_eq_Inr
  by (auto simp: list_all2_conv_all_nth in_set_conv_nth result_simps slice_get_Some) (metis nth_mem)

definition packed ::
  "bytes list \<Rightarrow> (hash32 \<times> BarrierPublicTreeSnapshotRef) list \<Rightarrow> GroupState \<Rightarrow> GroupState \<Rightarrow> bool" where
  "packed old snaps st st' \<longleftrightarrow> blobs_ok st' \<and> set (gs_tree_blobs st') \<subseteq> set old \<and> bt_inv (gs_tree_history st') \<and>
     st' = st\<lparr>gs_tree_history := gs_tree_history st', gs_tree_blobs := gs_tree_blobs st', gs_tree_blob_index := gs_tree_blob_index st'\<rparr> \<and>
     (\<exists>new. gs_tree_blobs st' = gs_tree_blobs st @ new) \<and>
     (\<forall>h s. map_of snaps h = Some s \<longrightarrow> (\<exists>s'. bt_get (gs_tree_history st') h = Some s' \<and> repacked old s st' s')) \<and>
     (\<forall>h. map_of snaps h = None \<longrightarrow> bt_get (gs_tree_history st') h = bt_get (gs_tree_history st) h)"

lemma repack_run:
  assumes "blobs_ok st" "set (gs_tree_blobs st) \<subseteq> set old" "length old \<le> 4294967296" "bt_inv (gs_tree_history st)"
    and "\<forall>(h, s)\<in>set snaps. \<exists>es. decode_with_blobs old s = Inr es" "distinct (map fst snaps)"
  shows "\<exists>st'. repack old snaps st = (Inr (), st') \<and> packed old snaps st st'"
  using assms
proof (induction snaps arbitrary: st)
  case Nil
  then show ?case
    by (simp add: getS_def packed_def)
next
  case (Cons hs snaps)
  obtain h s where hs: "hs = (h, s)"
    by fastforce
  obtain es where es: "decode_with_blobs old s = Inr es"
    using Cons.prems(5) hs by auto
  obtain snapshot u where u: "encode_snapshot es st = (Inr snapshot, u)" "blobs_ok u" "blobs_ext st u"
    "set (gs_tree_blobs u) \<subseteq> set old" "decode_snapshot u snapshot = Inr es" "sr_barrier_version snapshot = 0"
    by (rule encode_total [OF Cons.prems(1-3) decode_in [OF es]])
  let ?snap = "snapshot\<lparr>sr_history_view_id := sr_history_view_id s, sr_history_commitment := sr_history_commitment s\<rparr>"
  let ?v = "u\<lparr>gs_tree_history := bt_insert h ?snap (gs_tree_history u)\<rparr>"
  obtain new index where ext: "u = st\<lparr>gs_tree_blobs := gs_tree_blobs st @ new, gs_tree_blob_index := index\<rparr>"
    using u(3) by (auto simp: blobs_ext_def)
  have v: "blobs_ok ?v" "set (gs_tree_blobs ?v) \<subseteq> set old" "bt_inv (gs_tree_history ?v)"
    using u Cons.prems(4) by (simp_all add: blobs_ok_def ext)
  obtain st' where ih: "repack old snaps ?v = (Inr (), st')" "packed old snaps ?v st'"
    using Cons.IH [OF v(1,2) Cons.prems(3) v(3)] Cons.prems(5,6) by auto
  have none: "map_of snaps h = None"
    using Cons.prems(6) by (simp add: hs map_of_eq_None_iff)
  have "bt_get (gs_tree_history st') h = Some ?snap"
    using ih(2) none by (simp add: packed_def)
  moreover have "decode_snapshot st' ?snap = Inr es"
    using u(5) ih(2) decode_indices [of ?snap snapshot] by (auto simp: packed_def decode_snapshot_def dest: decode_ext)
  ultimately have head: "\<exists>s'. bt_get (gs_tree_history st') h = Some s' \<and> repacked old s st' s'"
    using u(6) es by (simp add: repacked_def)
  have "packed old (hs # snaps) st st'"
    using ih(2) head none unfolding packed_def by (auto simp: hs ext split: if_splits)
  then show ?case
    using ih(1) u(1) es by (simp add: hs tryS_def liftS_def updS_def)
qed

definition snapshot_key :: "hash32 \<Rightarrow> hash32 \<times> BarrierPublicTreeSnapshotRef \<Rightarrow> bool \<times> u64 \<times> hash32" where
  "snapshot_key current = (\<lambda>(hash, snapshot). (hash = current, hc_seq (sr_history_commitment snapshot), hash))"

lemma retained_alt:
  "retained_snapshots st = take 256 (rev (sort_key (snapshot_key (gs_kem_tree_hash_after st)) (gs_tree_history st)))"
  by (simp add: retained_snapshots_def snapshot_key_def MAX_RETAINED_SNAPSHOTS_def)

lemma take_largest:
  fixes key :: "'a \<Rightarrow> 'k::linorder" and xs
  defines "ys \<equiv> rev (sort_key key xs)"
  assumes "x \<in> set xs" "x \<notin> set (take n ys)" "y \<in> set (take n ys)"
  shows "key x \<le> key y"
proof -
  have "sorted (map key (sort_key key xs))"
    by simp
  then have "sorted_wrt (\<lambda>a b. key b \<le> key a) ys"
    by (simp add: ys_def sorted_map sorted_wrt_rev)
  then have "sorted_wrt (\<lambda>a b. key b \<le> key a) (take n ys @ drop n ys)"
    by simp
  moreover have "x \<in> set (drop n ys)"
    using assms(2,3) append_take_drop_id [of n ys] by (metis Un_iff set_append set_rev set_sort ys_def)
  ultimately show ?thesis
    using assms(4) by (auto simp: sorted_wrt_append simp del: append_take_drop_id)
qed

lemma retained_facts:
  assumes "bt_inv (gs_tree_history st)"
  shows "distinct (map fst (retained_snapshots st))" "set (retained_snapshots st) \<subseteq> set (gs_tree_history st)"
    and "length (retained_snapshots st) \<le> 256"
    and "(gs_kem_tree_hash_after st, s) \<in> set (gs_tree_history st) \<Longrightarrow> (gs_kem_tree_hash_after st, s) \<in> set (retained_snapshots st)"
proof -
  let ?ys = "rev (sort_key (snapshot_key (gs_kem_tree_hash_after st)) (gs_tree_history st))"
  have "distinct (map fst ?ys)"
    using bt_inv_distinct [OF assms] by (simp add: rev_map distinct_map)
  then show "distinct (map fst (retained_snapshots st))"
    unfolding retained_alt by (metis distinct_take take_map)
  show "set (retained_snapshots st) \<subseteq> set (gs_tree_history st)"
    unfolding retained_alt by (metis set_rev set_sort set_take_subset)
  show "length (retained_snapshots st) \<le> 256"
    by (simp add: retained_alt)
  show "(gs_kem_tree_hash_after st, s) \<in> set (retained_snapshots st)" if cur: "(gs_kem_tree_hash_after st, s) \<in> set (gs_tree_history st)"
  proof (rule ccontr)
    assume out: "(gs_kem_tree_hash_after st, s) \<notin> set (retained_snapshots st)"
    have "length (retained_snapshots st) = min 256 (length (gs_tree_history st))"
      by (simp add: retained_alt)
    then have "retained_snapshots st \<noteq> []"
      using length_pos_if_in_set [OF cur] by (metis length_0_conv min_less_iff_conj not_less0 zero_less_numeral)
    then obtain y where y: "y \<in> set (retained_snapshots st)"
      using hd_in_set by blast
    then have "y \<in> set (gs_tree_history st)"
      using \<open>set (retained_snapshots st) \<subseteq> set (gs_tree_history st)\<close> by blast
    have "snapshot_key (gs_kem_tree_hash_after st) (gs_kem_tree_hash_after st, s) \<le> snapshot_key (gs_kem_tree_hash_after st) y"
      using take_largest [OF cur, of 256 "snapshot_key (gs_kem_tree_hash_after st)" y] out y by (simp add: retained_alt)
    then have "fst y = gs_kem_tree_hash_after st"
      by (cases y) (auto simp: snapshot_key_def less_eq_prod_def)
    then have "y = (gs_kem_tree_hash_after st, s)"
      using cur \<open>y \<in> set (gs_tree_history st)\<close> bt_inv_distinct [OF assms] by (cases y) (auto dest: eq_key_imp_eq_value)
    with out y show False
      by simp
  qed
qed

text \<open>Every stored tree can be decoded.\<close>
definition history_ok :: "GroupState \<Rightarrow> bool" where
  "history_ok st \<longleftrightarrow> blobs_ok st \<and> bt_inv (gs_tree_history st) \<and>
     (\<forall>h s. bt_get (gs_tree_history st) h = Some s \<longrightarrow> (\<exists>es. decode_snapshot st s = Inr es))"

lemma prune_run:
  assumes "history_ok st"
  obtains st' where "prune_tree_history st = (Inr (), st')" "packed (gs_tree_blobs st) (retained_snapshots st)
     (st\<lparr>gs_tree_history := [], gs_tree_blobs := [], gs_tree_blob_index := Map.empty\<rparr>) st'"
proof (cases "gs_tree_history st = []")
  case True
  then show thesis
    by (intro that [of "st\<lparr>gs_tree_blobs := [], gs_tree_blob_index := Map.empty\<rparr>"])
      (auto simp: prune_tree_history_def packed_def blobs_ok_def retained_alt)
next
  case False
  have inv: "bt_inv (gs_tree_history st)"
    using assms by (simp add: history_ok_def)
  have dec: "\<forall>(h, s)\<in>set (retained_snapshots st). \<exists>es. decode_with_blobs (gs_tree_blobs st) s = Inr es"
    using assms retained_facts(2) [OF inv] by (auto simp: history_ok_def decode_snapshot_def bt.get_entries)
  show thesis
    using repack_run [of "st\<lparr>gs_tree_history := [], gs_tree_blobs := [], gs_tree_blob_index := Map.empty\<rparr>" "gs_tree_blobs st",
      OF _ _ _ _ dec retained_facts(1) [OF inv]] that assms False
    by (auto simp: prune_tree_history_def history_ok_def blobs_ok_def)
qed

text \<open>The trees that are left are the retained ones, repacked.\<close>
lemma prune_left:
  assumes "history_ok st" "prune_tree_history st = (Inr (), st')"
  shows "bt_get (gs_tree_history st') h = Some s' \<Longrightarrow>
      \<exists>s. (h, s) \<in> set (retained_snapshots st) \<and> bt_get (gs_tree_history st) h = Some s \<and> repacked (gs_tree_blobs st) s st' s'"
    and "(h, s) \<in> set (retained_snapshots st) \<Longrightarrow> bt_get (gs_tree_history st') h \<noteq> None"
    and "history_ok st'"
proof -
  have packed: "packed (gs_tree_blobs st) (retained_snapshots st)
     (st\<lparr>gs_tree_history := [], gs_tree_blobs := [], gs_tree_blob_index := Map.empty\<rparr>) st'"
    using prune_run [OF assms(1)] assms(2) by (metis prod.inject)
  have inv: "bt_inv (gs_tree_history st)" "bt_inv (gs_tree_history st')"
    using assms(1) packed by (simp_all add: history_ok_def packed_def)
  note ret = retained_facts [OF inv(1)]
  have left: "\<exists>s. (h, s) \<in> set (retained_snapshots st) \<and> bt_get (gs_tree_history st) h = Some s \<and> repacked (gs_tree_blobs st) s st' s'"
    if "bt_get (gs_tree_history st') h = Some s'" for h s'
  proof (cases "map_of (retained_snapshots st) h")
    case None
    then show ?thesis
      using that packed by (auto simp: packed_def)
  next
    case (Some s)
    then have "repacked (gs_tree_blobs st) s st' s'"
      using that packed unfolding packed_def by (metis option.inject)
    then show ?thesis
      using map_of_SomeD [OF Some] ret(2) bt.get_entries [OF inv(1)] by blast
  qed
  then show "bt_get (gs_tree_history st') h = Some s' \<Longrightarrow>
      \<exists>s. (h, s) \<in> set (retained_snapshots st) \<and> bt_get (gs_tree_history st) h = Some s \<and> repacked (gs_tree_blobs st) s st' s'" .
  show "bt_get (gs_tree_history st') h \<noteq> None" if "(h, s) \<in> set (retained_snapshots st)"
    using packed map_of_is_SomeI [OF ret(1) that] unfolding packed_def by fastforce
  show "history_ok st'"
    unfolding history_ok_def using packed inv(2) left assms(1)
    by (auto simp: packed_def repacked_def history_ok_def decode_snapshot_def) metis
qed

lemma prune_count:
  assumes "history_ok st" "prune_tree_history st = (Inr (), st')"
  shows "length (gs_tree_history st') = min 256 (length (gs_tree_history st))"
proof -
  have inv: "bt_inv (gs_tree_history st)" "bt_inv (gs_tree_history st')"
    using assms(1) prune_left(3) [OF assms] by (simp_all add: history_ok_def)
  have "fst ` set (gs_tree_history st') = fst ` set (retained_snapshots st)"
    using prune_left(1,2) [OF assms] inv(2) by (force simp: bt.get_entries)
  then have "card (fst ` set (gs_tree_history st')) = card (fst ` set (retained_snapshots st))"
    by simp
  then have "length (gs_tree_history st') = length (retained_snapshots st)"
    using distinct_card [OF bt_inv_distinct [OF inv(2)]] distinct_card [OF retained_facts(1) [OF inv(1)]] by simp
  then show ?thesis
    by (simp add: retained_alt)
qed

text \<open>What was dropped is not more recent than what was kept, the current tree apart.\<close>
lemma prune_recent:
  assumes "history_ok st" "prune_tree_history st = (Inr (), st')"
    and d: "bt_get (gs_tree_history st) h = Some s" "bt_get (gs_tree_history st') h = None" "bt_get (gs_tree_history st') h' = Some s'"
      "h' \<noteq> gs_kem_tree_hash_after st"
  shows "hc_seq (sr_history_commitment s) \<le> hc_seq (sr_history_commitment s')"
proof -
  obtain t where t: "(h', t) \<in> set (retained_snapshots st)" "repacked (gs_tree_blobs st) t st' s'"
    using prune_left(1) [OF assms(1,2) d(3)] by blast
  have "(h, s) \<notin> set (retained_snapshots st)"
    using prune_left(2) [OF assms(1,2)] d(2) by blast
  moreover have "(h, s) \<in> set (gs_tree_history st)"
    using d(1) assms(1) by (simp add: history_ok_def bt.get_entries)
  ultimately have "snapshot_key (gs_kem_tree_hash_after st) (h, s) \<le> snapshot_key (gs_kem_tree_hash_after st) (h', t)"
    using take_largest [of "(h, s)" "gs_tree_history st" 256 "snapshot_key (gs_kem_tree_hash_after st)" "(h', t)"] t(1)
    by (simp add: retained_alt)
  then show ?thesis
    using d(4) t(2) by (auto simp: snapshot_key_def less_eq_prod_def repacked_def)
qed

text \<open>C26: pruning of the stored trees.  It succeeds on a store that can be decoded.  What is left can be decoded to the same entries and
  has the same commitments; it is every tree when there are at most 256 and exactly 256 of them otherwise, among them the current
  one, and nothing that was dropped is more recent than what was kept.  Every tree that is kept has lost its barrier version.\<close>
theorem prune_keeps_recent:
  assumes "history_ok st"
  shows "\<exists>st'. prune_tree_history st = (Inr (), st') \<and> history_ok st' \<and>
    length (gs_tree_history st') = min 256 (length (gs_tree_history st)) \<and>
    (length (gs_tree_history st) \<le> 256 \<longrightarrow>
      (\<forall>h. bt_get (gs_tree_history st) h \<noteq> None \<longrightarrow> bt_get (gs_tree_history st') h \<noteq> None)) \<and>
    (bt_get (gs_tree_history st) (gs_kem_tree_hash_after st) \<noteq> None \<longrightarrow> bt_get (gs_tree_history st') (gs_kem_tree_hash_after st) \<noteq> None) \<and>
    (\<forall>h s'. bt_get (gs_tree_history st') h = Some s' \<longrightarrow> (\<exists>s. bt_get (gs_tree_history st) h = Some s \<and>
       decode_snapshot st' s' = decode_snapshot st s \<and> sr_history_commitment s' = sr_history_commitment s \<and> sr_barrier_version s' = 0)) \<and>
    (\<forall>h s h' s'. bt_get (gs_tree_history st) h = Some s \<and> bt_get (gs_tree_history st') h = None \<and>
       bt_get (gs_tree_history st') h' = Some s' \<longrightarrow>
       h' = gs_kem_tree_hash_after st \<or> hc_seq (sr_history_commitment s) \<le> hc_seq (sr_history_commitment s'))"
proof -
  obtain st' where run: "prune_tree_history st = (Inr (), st')"
    by (rule prune_run [OF assms])
  note left = prune_left [OF assms run]
  have inv: "bt_inv (gs_tree_history st)"
    using assms by (simp add: history_ok_def)
  have all: "bt_get (gs_tree_history st') h \<noteq> None"
    if "length (gs_tree_history st) \<le> 256" "bt_get (gs_tree_history st) h = Some s" for h s
    using left(2) that inv by (auto simp: retained_alt bt.get_entries)
  have cur: "bt_get (gs_tree_history st') (gs_kem_tree_hash_after st) \<noteq> None"
    if "bt_get (gs_tree_history st) (gs_kem_tree_hash_after st) = Some s" for s
    using left(2) retained_facts(4) [OF inv] that inv by (metis bt.get_entries)
  have same: "\<exists>s. bt_get (gs_tree_history st) h = Some s \<and> decode_snapshot st' s' = decode_snapshot st s \<and>
      sr_history_commitment s' = sr_history_commitment s \<and> sr_barrier_version s' = 0" if "bt_get (gs_tree_history st') h = Some s'" for h s'
    using left(1) [OF that] by (auto simp: repacked_def decode_snapshot_def)
  show ?thesis
    using run left(3) prune_count [OF assms run] all cur same prune_recent [OF assms run] by (intro exI [of _ st']) blast
qed

section \<open>What is handed out\<close>

text \<open>The operations on the store leave the rest of the group alone.\<close>
definition tree_frame :: "GroupState \<Rightarrow> GroupState \<Rightarrow> bool" where
  "tree_frame st st' \<longleftrightarrow> st' = st\<lparr>gs_tree_history := gs_tree_history st', gs_tree_blobs := gs_tree_blobs st',
     gs_tree_blob_index := gs_tree_blob_index st'\<rparr>"

lemma tree_frame_trans: "tree_frame a b \<Longrightarrow> tree_frame b c \<Longrightarrow> tree_frame a c"
  unfolding tree_frame_def by (rule sym, drule arg_cong [of b _ "\<lambda>x. x\<lparr>gs_tree_history := gs_tree_history c,
    gs_tree_blobs := gs_tree_blobs c, gs_tree_blob_index := gs_tree_blob_index c\<rparr>"]) simp

interpretation frame: state_relation tree_frame
  by unfold_locales (simp add: tree_frame_def, rule tree_frame_trans)

lemma ext_encode: "evolves blobs_ext (encode_snapshot es)"
proof -
  have one: "evolves blobs_ext (intern_blob entry)" for entry
    by (auto simp: evolves_def intern_blob_def Let_def intro: blobs_extI split: option.split)
  have "evolves blobs_ext (intern_blobs es)"
    by (induction es) (simp_all, (intro blob_store.evolves_intro one)+)
  then show ?thesis
    unfolding encode_snapshot_def by (intro blob_store.evolves_intro)
qed

lemma frame_encode: "evolves tree_frame (encode_snapshot es)"
proof (rule evolvesI)
  fix st r st'
  assume "encode_snapshot es st = (r, st')"
  then have "blobs_ext st st'"
    by (rule evolvesD [OF ext_encode])
  then show "tree_frame st st'"
    by (auto simp: blobs_ext_def tree_frame_def)
qed

lemma frame_history: "evolves tree_frame (updS (\<lambda>st. st\<lparr>gs_tree_history := f st\<rparr>))"
  by (rule frame.evolves_upd) (simp add: tree_frame_def)

lemma frame_repack: "evolves tree_frame (repack old snaps)"
proof (induction snaps)
  case (Cons hs snaps)
  then show ?case
    by (cases hs) (simp, intro frame.evolves_intro frame_encode frame_history)
qed (simp add: frame.evolves_get)

lemma frame_prune: "evolves tree_frame prune_tree_history"
proof (rule evolvesI)
  fix st r st'
  assume run: "prune_tree_history st = (r, st')"
  show "tree_frame st st'"
  proof (cases "gs_tree_history st = []")
    case True
    then show ?thesis
      using run by (auto simp: prune_tree_history_def tree_frame_def)
  next
    case False
    let ?clear = "st\<lparr>gs_tree_history := [], gs_tree_blobs := [], gs_tree_blob_index := Map.empty\<rparr>"
    have "tree_frame ?clear st'"
      using run False evolvesD [OF frame_repack] by (auto simp: prune_tree_history_def)
    moreover have "tree_frame st ?clear"
      by (simp add: tree_frame_def)
    ultimately show ?thesis
      by (rule tree_frame_trans [rotated])
  qed
qed

lemma repack_version:
  assumes "repack old snaps st = (Inr u, st')" "bt_get (gs_tree_history st') h = Some s"
  shows "bt_get (gs_tree_history st) h = Some s \<or> sr_barrier_version s = 0"
  using assms
proof (induction old snaps arbitrary: st rule: repack.induct)
  case (2 old hash snapshot rest)
  then obtain es encoded v where run: "encode_snapshot es st = (Inr encoded, v)"
    "repack old rest (v\<lparr>gs_tree_history := bt_insert hash (encoded\<lparr>sr_history_view_id := sr_history_view_id snapshot,
      sr_history_commitment := sr_history_commitment snapshot\<rparr>) (gs_tree_history v)\<rparr>) = (Inr u, st')"
    by (auto simp: eff_simps)
  have "gs_tree_history v = gs_tree_history st" "sr_barrier_version encoded = 0"
    using evolvesD [OF ext_encode run(1)] run(1) by (auto simp: blobs_ext_def encode_snapshot_def eff_simps)
  then show ?case
    using "2.IH" [OF run(2) "2.prems"(2)] by (auto split: if_splits)
qed (simp add: getS_def)

lemma prune_version:
  assumes "prune_tree_history st = (Inr u, st')" "bt_get (gs_tree_history st') h = Some s"
  shows "sr_barrier_version s = 0"
proof (cases "gs_tree_history st = []")
  case True
  then show ?thesis
    using assms by (auto simp: prune_tree_history_def)
next
  case False
  then have "repack (gs_tree_blobs st) (retained_snapshots st)
      (st\<lparr>gs_tree_history := [], gs_tree_blobs := [], gs_tree_blob_index := Map.empty\<rparr>) = (Inr u, st')"
    using assms(1) by (simp add: prune_tree_history_def)
  from repack_version [OF this assms(2)] show ?thesis
    by simp
qed

lemma tree_frame_fields:
  assumes "tree_frame st st'"
  shows "gs_leaf_slot_leases st' = gs_leaf_slot_leases st" "gs_leaf_barrier_public st' = gs_leaf_barrier_public st"
    "gs_latest_root st' = gs_latest_root st" "gs_snapshots st' = gs_snapshots st" "gs_n_max st' = gs_n_max st"
    "gs_barrier_pk_entries st' = gs_barrier_pk_entries st"
    "gs_current_accepted_barrier_update st' = gs_current_accepted_barrier_update st"
    "gs_current_accepted_barrier_predecessor_hash st' = gs_current_accepted_barrier_predecessor_hash st"
  by (subst assms [unfolded tree_frame_def], simp)+

lemma view_frame:
  assumes "tree_frame st st'"
  shows "build_pk_entries_view st' = build_pk_entries_view st"
    "current_accepted_barrier_predecessor_hash E W st' = current_accepted_barrier_predecessor_hash E W st"
proof -
  note f = tree_frame_fields [OF assms]
  have place: "place_leaf_keys st' n lb leaves es = place_leaf_keys st n lb leaves es" for n lb leaves es
    by (induction leaves arbitrary: es) (simp, simp only: place_leaf_keys.simps require_active_slot_lease_def f)
  have cover: "cover_allocations st' leaves = cover_allocations st leaves" for leaves
    by (induction leaves) (rule ext, simp add: require_active_slot_lease_def f)+
  have snap: "latest_snapshot st' = latest_snapshot st"
    by (simp add: latest_snapshot_def f)
  show "build_pk_entries_view st' = build_pk_entries_view st"
    unfolding build_pk_entries_view_def build_fallback_pk_entries_def ensure_distinct_active_slot_indices_def
      active_cover_leaf_allocations_def place cover snap f ..
  show "current_accepted_barrier_predecessor_hash E W st' = current_accepted_barrier_predecessor_hash E W st"
    unfolding current_accepted_barrier_predecessor_hash_def f ..
qed

text \<open>A successful request, taken apart.\<close>
lemma fetch_run:
  assumes "fetch_barrier_public_tree E W gid hash roster = (Inr snap, roster')"
  obtains st st1 st2 version c where "bt_get roster gid = Some st" "validate_barrier_n_max (gs_n_max st) = Inr (ts_n_max snap)"
    "prune_tree_history st = (Inr (), st1)" "find_tree E W gid hash (ts_n_max snap) st1 = (Inr (ts_pk_entries snap, ts_barrier_version snap, c), st2)"
    "compute_barrier_tree_hash E (ts_n_max snap) (ts_pk_entries snap) = Inr hash" "ts_kem_tree_hash_after snap = hash"
    "ts_history_commitment snap = c" "ts_history_view_id snap = hc_view_id c"
  using assms
  by (auto simp: fetch_barrier_public_tree_def on_group_def roster_entry_def eff_simps result_simps split: option.splits prod.splits)

text \<open>C27: a tree that the server hands out is the tree that was asked for: its entries have the requested hash for the size of the
  group's tree.\<close>
theorem fetched_tree_authentic:
  assumes "fetch_barrier_public_tree E W gid hash roster = (Inr snap, roster')"
  shows "ts_kem_tree_hash_after snap = hash \<and> compute_barrier_tree_hash E (ts_n_max snap) (ts_pk_entries snap) = Inr hash \<and>
    length (ts_pk_entries snap) = 2 * unat (ts_n_max snap) - 1 \<and> ts_history_view_id snap = hc_view_id (ts_history_commitment snap) \<and>
    (\<exists>st. bt_get roster gid = Some st \<and> ts_n_max snap = gs_n_max st \<and> unat (gs_n_max st) \<le> 65536)"
proof -
  obtain st st1 st2 c where f: "bt_get roster gid = Some st" "validate_barrier_n_max (gs_n_max st) = Inr (ts_n_max snap)"
    "compute_barrier_tree_hash E (ts_n_max snap) (ts_pk_entries snap) = Inr hash" "ts_kem_tree_hash_after snap = hash"
    "ts_history_commitment snap = c" "ts_history_view_id snap = hc_view_id c"
    by (rule fetch_run [OF assms])
  have "length (ts_pk_entries snap) = 2 * unat (ts_n_max snap) - 1"
    using f(3) by (auto simp: compute_barrier_tree_hash_def result_simps tree_len_Some)
  moreover have "ts_n_max snap = gs_n_max st" "unat (gs_n_max st) \<le> 65536"
    using f(2) by (auto simp: validate_barrier_n_max_def MAX_BARRIER_N_MAX_def word_less_nat_alt not_less split: if_splits)
  ultimately show ?thesis
    using f by blast
qed

text \<open>C38: a past tree is handed out with barrier version 0, whatever version it was recorded under: when the requested tree is neither
  the current one nor the one before the last accepted update, the version in the answer is 0.\<close>
theorem past_tree_version_lost:
  assumes "fetch_barrier_public_tree E W gid hash roster = (Inr snap, roster')" "bt_get roster gid = Some st"
    and "tryE (build_pk_entries_view st) (compute_barrier_tree_hash E (gs_n_max st)) \<noteq> Inr hash"
    and "current_accepted_barrier_predecessor_hash E W st \<noteq> hash"
  shows "ts_barrier_version snap = 0"
proof -
  obtain st1 st2 c where f: "validate_barrier_n_max (gs_n_max st) = Inr (ts_n_max snap)" "prune_tree_history st = (Inr (), st1)"
    "find_tree E W gid hash (ts_n_max snap) st1 = (Inr (ts_pk_entries snap, ts_barrier_version snap, c), st2)"
    using assms(2) by (auto intro: fetch_run [OF assms(1)])
  have n: "ts_n_max snap = gs_n_max st"
    using f(1) by (auto simp: validate_barrier_n_max_def split: if_splits)
  note v = view_frame [OF evolvesD [OF frame_prune f(2)]]
  have version: "bt_get (gs_tree_history st1) hash = Some s \<Longrightarrow> sr_barrier_version s = 0" for s
    by (rule prune_version [OF f(2)])
  have legacy: "legacy_snapshot E gid hash s u = (Inr s', u') \<Longrightarrow> sr_barrier_version s' = sr_barrier_version s" for s u s' u'
    by (auto simp: legacy_snapshot_def eff_simps split: if_splits)
  show ?thesis
    using f(3) assms(3,4) version legacy
    by (auto simp: find_tree_def eff_simps n v result_simps split: if_splits option.splits)
qed

section \<open>The chain of history commitments\<close>

fun linked :: "Ext \<Rightarrow> bytes \<Rightarrow> HistoryCommitment \<Rightarrow> HistoryCommitment list \<Rightarrow> bool" where
  "linked E gid prev [] \<longleftrightarrow> True"
| "linked E gid prev (c # cs) \<longleftrightarrow> hc_prev_commitment_id c = hc_commitment_id prev \<and> hc_seq c = saturating_add (hc_seq prev) 1 \<and>
     compute_history_commitment_id E gid (hc_view_id c) (hc_prev_commitment_id c) (hc_seq c) = Inr (hc_commitment_id c) \<and>
     linked E gid c cs"

text \<open>A request for the current commitment, with every outcome, or any change of the group that leaves the commitment alone.\<close>
inductive history_step :: "Ext \<Rightarrow> WireDecoders \<Rightarrow> bytes \<Rightarrow> GroupState \<Rightarrow> GroupState \<Rightarrow> bool" for E W gid where
  commit: "ensure_current_history_commitment E W gid st = (r, st') \<Longrightarrow> history_step E W gid st st'"
| other: "gs_current_history_commitment st' = gs_current_history_commitment st \<Longrightarrow> history_step E W gid st st'"

abbreviation current_commitment :: "GroupState \<Rightarrow> HistoryCommitment" where
  "current_commitment \<equiv> gs_current_history_commitment"

lemma keeps_commitment: "tree_frame st st' \<Longrightarrow> current_commitment st' = current_commitment st"
  unfolding tree_frame_def by (drule arg_cong [of _ _ current_commitment]) simp

lemma frame_record: "evolves tree_frame (record_snapshot_with_metadata hash version c es)"
proof (rule evolvesI)
  fix st r st'
  let ?put = "\<lambda>s. updS (\<lambda>st. st\<lparr>gs_tree_history := bt_insert hash (stamp version c s) (gs_tree_history st)\<rparr>)"
  have put: "evolves tree_frame (tryS (encode_snapshot es) ?put)"
    by (intro frame.evolves_intro frame_encode frame_history)
  assume "record_snapshot_with_metadata hash version c es st = (r, st')"
  then show "tree_frame st st'"
    using evolvesD [OF put] by (auto simp: record_snapshot_with_metadata_def tree_frame_def split: if_splits option.splits)
qed

lemma frame_refresh: "evolves tree_frame (refresh_current_snapshot_commitments E W c)"
proof -
  have first: "evolves tree_frame (\<lambda>st. if gs_barrier_pk_entries st = [] then (Inr (), st)
       else tryS (liftS build_pk_entries_view) (\<lambda>entries.
         tryS (liftS (\<lambda>st. compute_barrier_tree_hash E (max (gs_n_max st) 1) entries)) (\<lambda>hash st.
         record_snapshot_with_metadata hash (gs_barrier_version st) c entries st)) st)"
  proof (rule evolvesI)
    fix st r st'
    assume run: "(if gs_barrier_pk_entries st = [] then (Inr (), st)
       else tryS (liftS build_pk_entries_view) (\<lambda>entries.
         tryS (liftS (\<lambda>st. compute_barrier_tree_hash E (max (gs_n_max st) 1) entries)) (\<lambda>hash st.
         record_snapshot_with_metadata hash (gs_barrier_version st) c entries st)) st) = (r, st')"
    show "tree_frame st st'"
      using run evolvesD [OF frame_record] frame.refl
      by (cases r) (auto simp: eff_simps split: if_splits)
  qed
  then show ?thesis
    unfolding refresh_current_snapshot_commitments_def
    by (intro frame.evolves_intro frame.evolves_upd) (auto simp: tree_frame_def Let_def split: option.split)
qed

text \<open>A commitment to the view of the group in a state.\<close>
definition commits_to :: "Ext \<Rightarrow> bytes \<Rightarrow> GroupState \<Rightarrow> HistoryCommitment \<Rightarrow> bool" where
  "commits_to E gid st c \<longleftrightarrow> compute_history_view_id E gid st = Inr (hc_view_id c)"

lemma history_step_linked:
  assumes "history_step E W gid st st'"
  obtains (same) "current_commitment st' = current_commitment st"
  | (new) c where "current_commitment st' = c" "linked E gid (current_commitment st) [c]" "commits_to E gid st c"
  using assms
proof cases
  case (commit r)
  let ?cur = "current_commitment st"
  consider "current_commitment st' = ?cur"
    | view cid where "current_commitment st' = \<lparr>hc_view_id = view, hc_commitment_id = cid, hc_prev_commitment_id = hc_commitment_id ?cur,
        hc_seq = saturating_add (hc_seq ?cur) 1\<rparr>" "compute_history_view_id E gid st = Inr view"
        "compute_history_commitment_id E gid view (hc_commitment_id ?cur) (saturating_add (hc_seq ?cur) 1) = Inr cid"
    using commit keeps_commitment [OF evolvesD [OF frame_refresh]]
    by (cases r) (fastforce simp: ensure_current_history_commitment_def eff_simps Let_def split: if_splits)+
  then show thesis
  proof cases
    case 1
    then show thesis
      by (rule same)
  next
    case 2
    then show thesis
      by (intro new [OF refl]) (simp_all add: commits_to_def)
  qed
qed (rule same)

lemma linked_append: "linked E gid c (xs @ ys) \<longleftrightarrow> linked E gid c xs \<and> linked E gid (last (c # xs)) ys"
  by (induction xs arbitrary: c) auto

text \<open>The commitments made over a run, each to the view of the group in a state of the run.\<close>
lemma history_run_linked:
  assumes "(history_step E W gid)\<^sup>*\<^sup>* st st'"
  shows "\<exists>cs. linked E gid (current_commitment st) cs \<and> last (current_commitment st # cs) = current_commitment st' \<and>
    (\<forall>c\<in>set cs. \<exists>v. (history_step E W gid)\<^sup>*\<^sup>* st v \<and> (history_step E W gid)\<^sup>*\<^sup>* v st' \<and> commits_to E gid v c)"
  using assms
proof (induction rule: rtranclp_induct)
  case base
  then show ?case
    by (intro exI [of _ "[]"]) simp
next
  case (step u v)
  then obtain cs where cs: "linked E gid (current_commitment st) cs" "last (current_commitment st # cs) = current_commitment u"
    "\<forall>c\<in>set cs. \<exists>w. (history_step E W gid)\<^sup>*\<^sup>* st w \<and> (history_step E W gid)\<^sup>*\<^sup>* w u \<and> commits_to E gid w c"
    by blast
  have old: "\<forall>c\<in>set cs. \<exists>w. (history_step E W gid)\<^sup>*\<^sup>* st w \<and> (history_step E W gid)\<^sup>*\<^sup>* w v \<and> commits_to E gid w c"
    using cs(3) step(2) by (meson rtranclp.rtrancl_into_rtrancl)
  from step(2) show ?case
  proof (cases rule: history_step_linked)
    case same
    then show ?thesis
      using cs(1,2) old by (intro exI [of _ cs]) simp
  next
    case (new c)
    then have "linked E gid (current_commitment st) (cs @ [c])"
      using cs(1,2) by (simp only: linked_append)
    moreover have "(history_step E W gid)\<^sup>*\<^sup>* st u" "(history_step E W gid)\<^sup>*\<^sup>* u v"
      using step(1,2) by auto
    ultimately show ?thesis
      using new old by (intro exI [of _ "cs @ [c]"]) auto
  qed
qed

abbreviation commitment_preimage :: "HistoryCommitment \<Rightarrow> hash32 \<times> hash32 \<times> u64" where
  "commitment_preimage c \<equiv> (hc_view_id c, hc_prev_commitment_id c, hc_seq c)"

text \<open>Two chains of one length from one commitment to one identifier are equal, or differ at a place where both have the same
  identifier for different preimages.\<close>
lemma linked_determined:
  assumes "linked E gid c cs" "linked E gid c ds" "length cs = length ds" "cs \<noteq> ds"
    and "hc_commitment_id (last (c # cs)) = hc_commitment_id (last (c # ds))"
  shows "\<exists>i<length cs. commitment_preimage (cs ! i) \<noteq> commitment_preimage (ds ! i) \<and> hc_commitment_id (cs ! i) = hc_commitment_id (ds ! i)"
  using assms
proof (induction cs arbitrary: ds rule: rev_induct)
  case (snoc x cs)
  then obtain y ds' where ds: "ds = ds' @ [y]"
    by (metis length_0_conv rev_exhaust snoc_eq_iff_butlast)
  have prev: "hc_prev_commitment_id x = hc_commitment_id (last (c # cs))" "hc_prev_commitment_id y = hc_commitment_id (last (c # ds'))"
    using snoc.prems(1,2) unfolding ds linked_append linked.simps by blast+
  have same: "hc_commitment_id x = hc_commitment_id y" and len: "length cs = length ds'"
    using snoc.prems(3,5) by (simp_all add: ds)
  show ?case
  proof (cases "commitment_preimage x = commitment_preimage y")
    case True
    then have "cs \<noteq> ds'"
      using snoc.prems(4) same by (auto simp: ds)
    then obtain i where "i < length cs" "commitment_preimage (cs ! i) \<noteq> commitment_preimage (ds' ! i)"
      "hc_commitment_id (cs ! i) = hc_commitment_id (ds' ! i)"
      using snoc.IH [of ds'] snoc.prems(1,2) len prev True by (auto simp: linked_append ds simp del: last.simps)
    then show ?thesis
      using len by (intro exI [of _ i]) (simp add: ds nth_append)
  next
    case False
    then show ?thesis
      using same len by (intro exI [of _ "length cs"]) (simp add: ds nth_append)
  qed
qed simp


section \<open>Instances\<close>

text \<open>A hash that tells the empty tree of one leaf from the others, and a group whose store holds a tree recorded under version 5.\<close>
definition pick_ext :: Ext where
  "pick_ext = plain_ext\<lparr>cbor_ser := (\<lambda>v. Inr [if v = leaf_hash_args 1 0 [] then 1 else 2]),
     blake3_derive := (\<lambda>_ b. replicate 32 (last b))\<rparr>"

definition stored_tree :: BarrierPublicTreeSnapshotRef where
  "stored_tree = \<lparr>sr_blob_indices = [0], sr_barrier_version = 5, sr_history_view_id = plain_digest,
     sr_history_commitment = \<lparr>hc_view_id = plain_digest, hc_commitment_id = plain_digest, hc_prev_commitment_id = zero_hash, hc_seq = 1\<rparr>\<rparr>"

definition storing_group :: GroupState where
  "storing_group = group_state_default\<lparr>gs_n_max := 1, gs_tree_blobs := [[9]], gs_tree_blob_index := [[9] \<mapsto> 0],
     gs_tree_history := [(replicate 32 2, stored_tree)]\<rparr>"

lemma storing_ok: "history_ok storing_group"
  by (simp add: history_ok_def blobs_ok_def storing_group_def group_state_default_def stored_tree_def decode_snapshot_def
    decode_with_blobs_def slice_get_def)

theorem prune_keeps_recent_witness:
  "\<exists>st'. prune_tree_history storing_group = (Inr (), st') \<and> history_ok st' \<and> length (gs_tree_history st') = 1 \<and>
     bt_get (gs_tree_history st') (replicate 32 2) \<noteq> None"
proof -
  have "length (gs_tree_history storing_group) = 1" "bt_get (gs_tree_history storing_group) (replicate 32 2) \<noteq> None"
    by (simp_all add: storing_group_def)
  with prune_keeps_recent [OF storing_ok] show ?thesis
    by fastforce
qed

theorem snapshot_roundtrip_witness:
  "\<exists>snapshot st'. encode_snapshot [[], [4], []] storing_group = (Inr snapshot, st') \<and> decode_snapshot st' snapshot = Inr [[], [4], []]"
proof -
  obtain r st' where run: "encode_snapshot [[], [4], []] storing_group = (r, st')"
    by fastforce
  then obtain snapshot where "r = Inr snapshot"
    by (auto simp: encode_snapshot_def intern_blob_def storing_group_def group_state_default_def tryS_def getS_def)
  then show ?thesis
    using run snapshot_roundtrip [OF _ run] storing_ok by (auto simp: history_ok_def)
qed

lemma pick_hash:
  "compute_barrier_tree_hash pick_ext 1 [[]] = Inr (replicate 32 1)" "compute_barrier_tree_hash pick_ext 1 [[9]] = Inr (replicate 32 2)"
proof -
  have "h_l pick_ext ''barrier/tree/leaf-hash'' v = Inr (replicate 32 (if v = leaf_hash_args 1 0 [] then 1 else 2))" for v
    by (simp add: h_l_def pick_ext_def validate_label_def as_bytes_def hl_preimage_def)
  then show "compute_barrier_tree_hash pick_ext 1 [[]] = Inr (replicate 32 1)" "compute_barrier_tree_hash pick_ext 1 [[9]] = Inr (replicate 32 2)"
    by (simp_all add: compute_barrier_tree_hash_def compute_barrier_tree_hash_recursive.simps tree_len_def checked_mul_def
        checked_sub_def ok_or_def ensure_def slice_get_def leaf_hash_args_def cstruct_def)
qed

lemma one_power: "is_power_of_two (1 :: u64)"
  unfolding is_power_of_two_def list_ex_iff by (rule bexI [of _ 0]) simp_all

lemma storing_view: "build_pk_entries_view storing_group = Inr [[]]"
  by (simp add: build_pk_entries_view_def build_fallback_pk_entries_def ensure_distinct_active_slot_indices_def
    active_cover_leaf_allocations_def latest_snapshot_def barrier_pk_entry_layout_def validate_barrier_n_max_def MAX_BARRIER_N_MAX_def
    one_power storing_group_def group_state_default_def)

lemma storing_fetch:
  obtains snap roster' where "fetch_barrier_public_tree pick_ext (wire plain_verifiers) [1] (replicate 32 2) [([1], storing_group)] = (Inr snap, roster')"
proof -
  let ?W = "wire plain_verifiers"
  obtain st1 where prune: "prune_tree_history storing_group = (Inr (), st1)"
    "packed (gs_tree_blobs storing_group) (retained_snapshots storing_group)
     (storing_group\<lparr>gs_tree_history := [], gs_tree_blobs := [], gs_tree_blob_index := Map.empty\<rparr>) st1"
    by (rule prune_run [OF storing_ok])
  have "retained_snapshots storing_group = [(replicate 32 2, stored_tree)]" "gs_tree_blobs storing_group = [[9]]"
    by (simp_all add: retained_alt storing_group_def)
  then obtain s where s: "bt_get (gs_tree_history st1) (replicate 32 2) = Some s" "repacked [[9]] stored_tree st1 s"
    using prune(2) unfolding packed_def by (metis map_of_Cons_code(2))
  have dec: "decode_snapshot st1 s = Inr [[9]]" "sr_history_commitment s = sr_history_commitment stored_tree"
    using s(2) by (simp_all add: repacked_def decode_with_blobs_def stored_tree_def slice_get_def)
  have pred: "current_accepted_barrier_predecessor_hash pick_ext ?W storing_group = zero_hash"
    by (simp add: current_accepted_barrier_predecessor_hash_def storing_group_def group_state_default_def)
  have ne: "replicate 32 (1 :: u8) \<noteq> replicate 32 2"
    by (simp add: numeral_eq_Suc)
  note v = view_frame(1) [OF evolvesD [OF frame_prune prune(1)], unfolded storing_view]
    view_frame(2) [OF evolvesD [OF frame_prune prune(1)], of pick_ext ?W, unfolded pred]
  have "find_tree pick_ext ?W [1] (replicate 32 2) 1 st1 = (Inr ([[9]], sr_barrier_version s, sr_history_commitment stored_tree), st1)"
    using s(1) dec ne unfolding find_tree_def tryS_def liftS_def getS_def v
    by (simp add: v pick_hash legacy_snapshot_def getS_def stored_tree_def plain_digest_def zero_hash_def)
  moreover have "validate_barrier_n_max (gs_n_max storing_group) = Inr 1"
    by (simp add: validate_barrier_n_max_def one_power storing_group_def MAX_BARRIER_N_MAX_def)
  ultimately show thesis
    using that prune(1) pick_hash(2)
    by (simp add: fetch_barrier_public_tree_def on_group_def roster_entry_def tryS_def liftS_def getS_def)
qed

theorem fetched_tree_authentic_witness:
  "\<exists>snap roster'. fetch_barrier_public_tree pick_ext (wire plain_verifiers) [1] (replicate 32 2) [([1], storing_group)] = (Inr snap, roster') \<and>
     ts_kem_tree_hash_after snap = replicate 32 2"
proof -
  obtain snap roster' where run: "fetch_barrier_public_tree pick_ext (wire plain_verifiers) [1] (replicate 32 2) [([1], storing_group)] = (Inr snap, roster')"
    by (rule storing_fetch)
  show ?thesis
    using run fetched_tree_authentic [OF run] by blast
qed

theorem past_tree_version_lost_witness:
  "\<exists>snap roster'. fetch_barrier_public_tree pick_ext (wire plain_verifiers) [1] (replicate 32 2) [([1], storing_group)] = (Inr snap, roster') \<and>
     ts_barrier_version snap = 0 \<and> (\<exists>s. bt_get (gs_tree_history storing_group) (replicate 32 2) = Some s \<and> sr_barrier_version s = 5)"
proof -
  obtain snap roster' where run: "fetch_barrier_public_tree pick_ext (wire plain_verifiers) [1] (replicate 32 2) [([1], storing_group)] = (Inr snap, roster')"
    by (rule storing_fetch)
  have "replicate 32 (1 :: u8) \<noteq> replicate 32 2" "zero_hash \<noteq> replicate 32 2"
    by (simp_all add: numeral_eq_Suc zero_hash_def)
  then have "ts_barrier_version snap = 0"
    by (intro past_tree_version_lost [OF run, of storing_group])
      (simp_all add: storing_view pick_hash current_accepted_barrier_predecessor_hash_def,
       simp_all add: storing_group_def group_state_default_def pick_hash)
  moreover have "bt_get (gs_tree_history storing_group) (replicate 32 2) = Some stored_tree" "sr_barrier_version stored_tree = 5"
    by (simp_all add: storing_group_def stored_tree_def)
  ultimately show ?thesis
    using run by blast
qed

text \<open>A hash that tells sequence numbers and barrier versions apart, and a run with two commitments.\<close>
definition count_ext :: Ext where
  "count_ext = plain_ext\<lparr>cbor_ser := (\<lambda>v. Inr [case v of
       CMap m \<Rightarrow> (case map_of m (CText ''history_seq'') of Some (CInt n) \<Rightarrow> 100 + of_int n
         | _ \<Rightarrow> (case map_of m (CText ''barrier_version'') of Some (CInt n) \<Rightarrow> 1 + of_int n | _ \<Rightarrow> 0))
     | _ \<Rightarrow> 0]), blake3_derive := (\<lambda>_ b. replicate 32 (last b))\<rparr>"

definition counted :: "u64 \<Rightarrow> u64 \<Rightarrow> hash32 \<Rightarrow> HistoryCommitment" where
  "counted version seq prev = \<lparr>hc_view_id = replicate 32 (1 + ucast version), hc_commitment_id = replicate 32 (100 + ucast seq),
     hc_prev_commitment_id = prev, hc_seq = seq\<rparr>"

lemma count_commit:
  assumes "hc_view_id (current_commitment st) \<noteq> replicate 32 (1 + ucast (gs_barrier_version st))"
    and "gs_n_max st = 2" "gs_barrier_pk_entries st = []" "gs_current_accepted_barrier_update st = []"
      "gs_current_accepted_barrier_predecessor_hash st = zero_hash"
  shows "\<exists>r. ensure_current_history_commitment count_ext W [1] st = (r, st\<lparr>gs_current_history_commitment :=
    counted (gs_barrier_version st) (saturating_add (hc_seq (current_commitment st)) 1) (hc_commitment_id (current_commitment st))\<rparr>)"
proof -
  have "compute_history_view_id count_ext [1] st = Inr (replicate 32 (1 + ucast (gs_barrier_version st)))"
    by (simp add: compute_history_view_id_def validate_barrier_n_max_def assms(2) two_power MAX_BARRIER_N_MAX_def h_l_def count_ext_def
      validate_label_def as_bytes_def hl_preimage_def history_view_args_def cstruct_def cu64_def)
  moreover have "compute_history_commitment_id count_ext [1] view prev seq = Inr (replicate 32 (100 + ucast seq))" for view prev seq
    by (simp add: compute_history_commitment_id_def h_l_def count_ext_def validate_label_def as_bytes_def hl_preimage_def cstruct_def cu64_def)
  ultimately show ?thesis
    using assms by (simp add: ensure_current_history_commitment_def tryS_def liftS_def getS_def updS_def counted_def Let_def
      refresh_current_snapshot_commitments_def current_accepted_barrier_predecessor_hash_def)
qed


end
