(* ===== verification/ServerUpdate.thy ===== *)
theory ServerUpdate
  imports TreeHistory
begin

text \<open>
  The server's validation of a barrier update against its roster (\<open>cityg-server/src/lib.rs\<close>): the parser of the update, the tree the
  update starts from (unresolved joins put in, revoked leaves blanked), the checks on the updater and on the reason, and the checks
  of the hash chain and of the ciphertexts.

  The lemmas show that the server's parser and the one of the acceptance pipeline accept the same updates, and that an update that
  passes the validation starts from the tree with the hash it names, ends in the tree with the hash it names, carries exactly the
  ciphertexts that reach the other members, and leaves a hash cache that is right for the new tree.
\<close>

section \<open>Header fields\<close>

definition header_optional_bytes :: "header \<Rightarrow> u64 \<Rightarrow> CityGError + bytes option" where
  "header_optional_bytes h key =
     (case bt_get h key of
        None \<Rightarrow> Inr None
      | Some (CBytes b) \<Rightarrow> Inr (Some b)
      | Some CNull \<Rightarrow> Inr None
      | Some _ \<Rightarrow> Inl (CgInvalidInput ''pivot field wrong type''))"

definition header_required_bytes :: "header \<Rightarrow> u64 \<Rightarrow> string \<Rightarrow> CityGError + bytes" where
  "header_required_bytes h key label =
     (case bt_get h key of
        Some (CBytes b) \<Rightarrow> Inr b
      | Some _ \<Rightarrow> Inl (CgInvalidInput ''pivot field wrong type'')
      | None \<Rightarrow> Inl (CgInvalidInput label))"

definition header_bytes32_from_slice :: "bytes \<Rightarrow> CityGError + hash32" where
  "header_bytes32_from_slice b = (if length b = 32 then Inr b else Inl (CgInvalidInput ''pivot field wrong length''))"

definition header_bytes32 :: "header \<Rightarrow> u64 \<Rightarrow> string \<Rightarrow> CityGError + hash32" where
  "header_bytes32 h key label = tryE (header_required_bytes h key label) header_bytes32_from_slice"

definition value_bytes :: "header \<Rightarrow> u64 \<Rightarrow> bytes option" where
  "value_bytes h key = (case bt_get h key of Some (CBytes b) \<Rightarrow> Some b | _ \<Rightarrow> None)"

definition server_update_reason :: "header \<Rightarrow> CityGError + u64 option" where
  "server_update_reason h =
     (if \<not> has_key h HDR_BARRIER_UPDATE
      then (if has_key h HDR_BARRIER_UPDATE_REASON then Inl update_malformed else Inr None)
      else (case bt_get h HDR_BARRIER_UPDATE_REASON of
        Some (CInt i) \<Rightarrow> tryE (ok_or update_malformed (u64_try_from i)) (\<lambda>reason.
          if 2 < reason then Inl update_malformed else Inr (Some reason))
      | _ \<Rightarrow> Inl update_malformed))"

definition parse_join_finalize_auth_token :: "header \<Rightarrow> CityGError + hash32 option" where
  "parse_join_finalize_auth_token h =
     tryE (header_optional_bytes h HDR_JOIN_FINALIZE_AUTH) (\<lambda>raw.
     case raw of None \<Rightarrow> Inr None | Some b \<Rightarrow> tryE (header_bytes32_from_slice b) (\<lambda>t. Inr (Some t)))"

record HistoryCommitmentWire =
  hw_view_id :: bytes
  hw_commitment_id :: bytes
  hw_prev_commitment_id :: bytes
  hw_seq :: u64

text \<open>The decoders of the CBOR package at the types of the server.\<close>
record ServerWire =
  sw_update :: WireDecoders
  sw_history :: "bytes \<Rightarrow> HistoryCommitmentWire option"

definition chistory_commitment :: "HistoryCommitmentWire \<Rightarrow> cbor" where
  "chistory_commitment w = CArray [CBytes (hw_view_id w), CBytes (hw_commitment_id w), CBytes (hw_prev_commitment_id w), cu64 (hw_seq w)]"

definition parse_barrier_history_commitment :: "Ext \<Rightarrow> ServerWire \<Rightarrow> header \<Rightarrow> CityGError + HistoryCommitment option" where
  "parse_barrier_history_commitment E W h =
     tryE (header_optional_bytes h HDR_BARRIER_HISTORY_COMMITMENT) (\<lambda>raw.
     case raw of
       None \<Rightarrow> Inr None
     | Some b \<Rightarrow>
         tryE (parse_deterministic_cbor E (sw_history W) chistory_commitment b) (\<lambda>w.
         tryE (vec_to_32 (hw_view_id w)) (\<lambda>view_id.
         tryE (vec_to_32 (hw_commitment_id w)) (\<lambda>cid.
         tryE (vec_to_32 (hw_prev_commitment_id w)) (\<lambda>prev_id.
         Inr (Some \<lparr>hc_view_id = view_id, hc_commitment_id = cid, hc_prev_commitment_id = prev_id, hc_seq = hw_seq w\<rparr>))))))"

section \<open>The parser of the update\<close>

record ParsedNodeCiphertext =
  pn_source_node :: u64
  pn_target_node :: u64
  pn_target_pk_hash :: bytes

record ServerBarrierUpdate =
  su_prev_barrier_version :: u64
  su_updater_slot_index :: u64
  su_updater_slot_generation :: u64
  su_tree_size :: u64
  su_revocation_roots_hash :: hash32
  su_kem_tree_hash_before :: hash32
  su_kem_tree_hash_after :: hash32
  su_path_nodes :: "u64 list"
  su_node_ciphertexts :: "ParsedNodeCiphertext list"
  su_new_public_keys :: "(u64 \<times> bytes) list"

text \<open>The checks on the path, the hint, the keys and the ciphertexts, which all fail with the same error.\<close>
fun path_linked :: "u64 list \<Rightarrow> bool" where
  "path_linked (child # parent # rest) \<longleftrightarrow> child \<noteq> 0 \<and> (child - 1) div 2 = parent \<and> path_linked (parent # rest)"
| "path_linked _ \<longleftrightarrow> True"

definition path_shape :: "u64 \<Rightarrow> u64 \<Rightarrow> u64 \<Rightarrow> u64 list \<Rightarrow> bool" where
  "path_shape n_max max_index updater_slot_index path_nodes \<longleftrightarrow>
     path_nodes \<noteq> [] \<and> updater_slot_index < n_max \<and>
     checked_add (saturating_sub n_max 1) updater_slot_index = Some (hd path_nodes) \<and> last path_nodes = 0 \<and>
     (\<forall>node\<in>set path_nodes. node \<le> max_index) \<and> distinct path_nodes \<and> path_linked path_nodes"

definition hint_shape :: "u64 list option \<Rightarrow> bool" where
  "hint_shape hint \<longleftrightarrow> (case hint of None \<Rightarrow> True | Some l \<Rightarrow> strictly_increasing_from None l)"

definition keys_shape :: "u64 \<Rightarrow> u64 \<Rightarrow> u64 list \<Rightarrow> NewPublicKeyWire list \<Rightarrow> bool" where
  "keys_shape leaf_base max_index path_nodes keys \<longleftrightarrow>
     length keys = card (set (drop 1 path_nodes)) \<and>
     (\<forall>k\<in>set keys. nk_node_index k \<le> max_index \<and> nk_node_index k < leaf_base \<and> length (nk_ek k) = 1184) \<and>
     strictly_increasing_from None (map nk_node_index keys) \<and> set (map nk_node_index keys) = set (drop 1 path_nodes)"

definition ciphertexts_shape :: "u64 \<Rightarrow> NodeCiphertextWire list \<Rightarrow> bool" where
  "ciphertexts_shape max_index cs \<longleftrightarrow>
     (\<forall>c\<in>set cs. nc_source c \<le> max_index \<and> nc_target c \<le> max_index \<and> length (nc_target_pk_hash c) = 16 \<and>
       length (nc_kem_ct c) = 1088 \<and> length (nc_wrapped_ps c) = 48) \<and>
     strictly_increasing_from None (map (\<lambda>c. (nc_source c, nc_target c)) cs)"

definition parse_barrier_update :: "Ext \<Rightarrow> ServerWire \<Rightarrow> header \<Rightarrow> u64 \<Rightarrow> CityGError + ServerBarrierUpdate option" where
  "parse_barrier_update E W h expected_n_max =
     (case value_bytes h HDR_BARRIER_UPDATE of
        None \<Rightarrow> Inr None
      | Some raw_update \<Rightarrow>
          tryE (ensure (\<not> (expected_n_max = 0 \<or> \<not> is_power_of_two expected_n_max)) update_malformed) (\<lambda>_.
          tryE (parse_deterministic_cbor E (de_update (sw_update W)) cbarrier_update raw_update) (\<lambda>w.
          tryE (ensure (\<not> (bw_mode w \<noteq> ''barrier-v1'' \<or> bw_tree_size w \<noteq> expected_n_max)) update_malformed) (\<lambda>_.
          tryE (parse_deterministic_cbor E (de_cover (sw_update W)) ccover_payload (bw_cover_payload w)) (\<lambda>c.
          tryE (ok_or update_malformed (Option.bind (checked_mul expected_n_max 2) (\<lambda>v. checked_sub v 2))) (\<lambda>max_index.
          tryE (ensure (path_shape expected_n_max max_index (kc_updater_slot_index c) (kc_path_nodes c)) update_malformed) (\<lambda>_.
          tryE (ensure (hint_shape (kc_revoked_leaf_indices_hint c)) update_malformed) (\<lambda>_.
          tryE (ensure (keys_shape (saturating_sub expected_n_max 1) max_index (kc_path_nodes c) (kc_new_public_keys c))
            update_malformed) (\<lambda>_.
          tryE (ensure (ciphertexts_shape max_index (kc_node_ciphertexts c)) update_malformed) (\<lambda>_.
          tryE (vec_to_32 (bw_revocation_roots_hash w)) (\<lambda>roots_hash.
          tryE (vec_to_32 (bw_kem_tree_hash_before w)) (\<lambda>before.
          tryE (vec_to_32 (bw_kem_tree_hash_after w)) (\<lambda>after.
          Inr (Some \<lparr>su_prev_barrier_version = bw_prev_barrier_version w, su_updater_slot_index = kc_updater_slot_index c,
            su_updater_slot_generation = kc_updater_slot_generation c, su_tree_size = bw_tree_size w,
            su_revocation_roots_hash = roots_hash, su_kem_tree_hash_before = before, su_kem_tree_hash_after = after,
            su_path_nodes = kc_path_nodes c,
            su_node_ciphertexts = map (\<lambda>n. \<lparr>pn_source_node = nc_source n, pn_target_node = nc_target n,
              pn_target_pk_hash = nc_target_pk_hash n\<rparr>) (kc_node_ciphertexts c),
            su_new_public_keys = map (\<lambda>k. (nk_node_index k, nk_ek k)) (kc_new_public_keys c)\<rparr>))))))))))))))"

section \<open>The tree before the update\<close>

definition freezing :: "FreezeError \<Rightarrow> CityGError" where
  "freezing f = CgAcceptance (Freeze f)"

fun insert_slots :: "('a \<Rightarrow> CityGError + u32 \<times> bytes) \<Rightarrow> 'a list \<Rightarrow> (u32, bytes) btree \<Rightarrow> CityGError + (u32, bytes) btree" where
  "insert_slots f [] m = Inr m"
| "insert_slots f (x # xs) m =
     tryE (f x) (\<lambda>(slot, ek).
     tryE (checked_insert_unique slot ek ''duplicate active cover leaf allocation'' m) (\<lambda>m. insert_slots f xs m))"

text \<open>The joins the update has to put into the tree: those since the version it starts from, and those of its own change.\<close>
definition update_join_set :: "GroupState \<Rightarrow> u64 \<Rightarrow> header \<Rightarrow> MembershipDelta \<Rightarrow> CityGError + (u32, bytes) btree" where
  "update_join_set st prev_version h delta =
     tryE (if prev_version = 0 \<and> gs_barrier_version st = 0
       then tryE (ok_or (freezing FREEZE_BARRIER_GENESIS_REQUIRED) (latest_snapshot st)) (\<lambda>snapshot.
         insert_slots (\<lambda>leaf. tryE (require_active_slot_lease st leaf) (\<lambda>lease.
           Inr (sl_index lease, unwrap_or (bt_get (gs_leaf_barrier_public st) leaf) []))) (ascending snapshot) [])
       else insert_slots (\<lambda>r. Inr (jl_slot_index r, jl_ek_leaf r))
         (filter (\<lambda>r. prev_version < jl_barrier_version r \<and> jl_leaf_id r \<in> unwrap_or (latest_snapshot st) {}) (gs_join_history st)) [])
     (\<lambda>by_leaf.
     insert_slots (\<lambda>leaf. tryE (require_pending_or_active_slot_lease st leaf) (\<lambda>lease.
       Inr (sl_index lease, unwrap_or (value_bytes h HDR_BARRIER_LEAF_PK) []))) (md_joined delta) by_leaf)"

fun update_revoked_indices :: "GroupState \<Rightarrow> hash32 list \<Rightarrow> nat set \<Rightarrow> CityGError + nat set" where
  "update_revoked_indices st [] revoked = Inr revoked"
| "update_revoked_indices st (leaf # leaves) revoked =
     tryE (require_active_slot_lease st leaf) (\<lambda>lease.
     update_revoked_indices st leaves (Set.insert (unat (sl_index lease)) revoked))"

definition build_blank_pk_entries :: "u64 \<Rightarrow> CityGError + bytes list" where
  "build_blank_pk_entries n_max =
     tryE (ok_or (CgInvalidInput ''barrier tree size overflow'') (tree_len n_max)) (\<lambda>len. Inr (replicate len []))"

definition can_borrow :: "GroupState \<Rightarrow> nat \<Rightarrow> (u32, bytes) btree \<Rightarrow> nat set \<Rightarrow> bool" where
  "can_borrow st expected_len by_leaf revoked \<longleftrightarrow>
     gs_barrier_initialized st \<and> length (gs_barrier_pk_entries st) = expected_len \<and> by_leaf = [] \<and> revoked = {}"

definition put_join :: "nat \<Rightarrow> u32 \<times> bytes \<Rightarrow> bytes list \<Rightarrow> bytes list" where
  "put_join leaf_base = (\<lambda>(slot, ek) es. clear_barrier_path (es[leaf_base + unat slot := ek]) (leaf_base + unat slot) False)"

definition put_revoked :: "nat \<Rightarrow> nat \<Rightarrow> bytes list \<Rightarrow> bytes list" where
  "put_revoked leaf_base index es = clear_barrier_path es (leaf_base + index) True"

text \<open>\<open>None\<close> is the borrowed tree of the group.\<close>
definition build_snapshot_base ::
  "GroupState \<Rightarrow> u64 \<Rightarrow> nat \<Rightarrow> nat \<Rightarrow> (u32, bytes) btree \<Rightarrow> nat set \<Rightarrow> CityGError + bytes list option" where
  "build_snapshot_base st tree_n_max leaf_base expected_len by_leaf revoked =
     (if can_borrow st expected_len by_leaf revoked then Inr None
      else
        tryE (if gs_barrier_initialized st then build_pk_entries_view st else build_blank_pk_entries tree_n_max) (\<lambda>es.
        Inr (Some (fold (put_revoked leaf_base) (ascending revoked) (fold (put_join leaf_base) by_leaf es)))))"

section \<open>The updater and the reason\<close>

definition author_leaves :: "GroupState \<Rightarrow> bytes \<Rightarrow> hash32 list" where
  "author_leaves st author_pop_pk = map fst (filter (\<lambda>(_, pk). pk = author_pop_pk) (gs_leaf_device_pk st))"

definition targeted_admin_revocation :: "GroupState \<Rightarrow> header \<Rightarrow> MembershipDelta \<Rightarrow> u64 option \<Rightarrow> bytes \<Rightarrow> hash32 list \<Rightarrow> u64 \<Rightarrow> bool" where
  "targeted_admin_revocation st h delta reason author_pop_pk leaf_ids updater_slot_index \<longleftrightarrow>
     reason = Some 0 \<and>
     (\<exists>leaf\<in>set (md_revoked delta). leaf \<noteq> (case leaf_ids of [] \<Rightarrow> zero_hash | l # _ \<Rightarrow> l) \<and>
        (case bt_get (gs_leaf_slot_leases st) leaf of None \<Rightarrow> False | Some lease \<Rightarrow> ucast (sl_index lease) = updater_slot_index)) \<and>
     has_key h HDR_BARRIER_FULL_VERIFICATION_WITNESS \<and> author_pop_pk \<in> gs_room_admin_pop_keys st"

text \<open>The author's only leaf and the finalisation token of the header.\<close>
definition check_updater ::
  "GroupState \<Rightarrow> header \<Rightarrow> MembershipDelta \<Rightarrow> u64 option \<Rightarrow> u64 \<Rightarrow> CityGError + hash32 \<times> hash32 option" where
  "check_updater st h delta reason updater_slot_index =
     tryE (ok_or (freezing FREEZE_BARRIER_UPDATER_INVALID) (value_bytes h HDR_POP_PK)) (\<lambda>author_pop_pk.
     let leaf_ids = author_leaves st author_pop_pk in
     tryE (mapE (require_active_slot_lease st) leaf_ids) (\<lambda>leases.
     let indices = set (map (\<lambda>lease. ucast (sl_index lease)) leases) in
     tryE (parse_join_finalize_auth_token h) (\<lambda>token.
     if card indices \<noteq> 1
       \<or> (updater_slot_index \<notin> indices \<and> \<not> targeted_admin_revocation st h delta reason author_pop_pk leaf_ids updater_slot_index)
       \<or> length leaf_ids \<noteq> 1
       \<or> (unat updater_slot_index \<in> unat ` committed_revoked_slot_indices st \<and> \<not> (reason = Some 0 \<and> token \<noteq> None))
     then Inl (freezing FREEZE_BARRIER_UPDATER_INVALID)
     else Inr (hd leaf_ids, token))))"

definition check_finalize_record :: "GroupState \<Rightarrow> hash32 \<Rightarrow> hash32 option \<Rightarrow> u64 \<Rightarrow> CityGError + unit" where
  "check_finalize_record st author_leaf_id token updater_slot_index =
     tryE (ok_or (freezing FREEZE_BARRIER_UPDATER_INVALID) token) (\<lambda>supplied.
     tryE (ok_or (freezing FREEZE_BARRIER_UPDATER_INVALID) (bt_get (gs_pending_join_finalize_auth st) author_leaf_id)) (\<lambda>r.
     ensure (jf_token r = supplied \<and> ucast (sl_index (jf_lease r)) = updater_slot_index) (freezing FREEZE_BARRIER_UPDATER_INVALID)))"

definition check_reason ::
  "GroupState \<Rightarrow> ServerBarrierUpdate \<Rightarrow> u64 option \<Rightarrow> hash32 \<Rightarrow> hash32 option \<Rightarrow> bool \<Rightarrow> bool \<Rightarrow> CityGError + unit" where
  "check_reason st parsed reason author_leaf_id token unresolved_joiner reclaims =
     (let revocation_changed = (gs_barrier_initialized st \<and> su_revocation_roots_hash parsed \<noteq> gs_barrier_roots_hash st) in
      tryE (if revocation_changed
        then ensure (reason \<noteq> Some 1 \<and> reason \<noteq> Some 2)
          (freezing FREEZE_BARRIER_NON_REVOCATION_REASON_FORBIDDEN_WHILE_PENDING_REVOCATIONS)
        else if gs_barrier_initialized st
        then ensure (\<not> (reason = Some 2 \<and> \<not> unresolved_joiner) \<and> \<not> (reason = Some 1 \<and> unresolved_joiner))
          (freezing FREEZE_BARRIER_PROACTIVE_FORBIDDEN)
        else Inr ()) (\<lambda>_.
      if reason = Some 2 then check_finalize_record st author_leaf_id token (su_updater_slot_index parsed)
      else if reason = Some 0 \<and> token \<noteq> None
      then tryE (check_finalize_record st author_leaf_id token (su_updater_slot_index parsed)) (\<lambda>_.
        ensure (unresolved_joiner \<and> revocation_changed \<and> reclaims) (freezing FREEZE_BARRIER_UPDATER_INVALID))
      else ensure (token = None) update_malformed))"

section \<open>The validation\<close>

definition verify_barrier_update_pairs_and_targets :: "Ext \<Rightarrow> bytes list \<Rightarrow> ServerBarrierUpdate \<Rightarrow> u64 \<Rightarrow> CityGError + unit" where
  "verify_barrier_update_pairs_and_targets E base parsed tree_n_max =
     tryE (collect_expected_pairs base (su_path_nodes parsed) tree_n_max) (\<lambda>expected_pairs.
     tryE (ensure (map (\<lambda>n. (pn_source_node n, pn_target_node n)) (su_node_ciphertexts parsed) = expected_pairs)
       (freezing FREEZE_BARRIER_EXPECTEDPAIRS_FAILURE)) (\<lambda>_.
     tryE (mapE (\<lambda>n.
       tryE (ok_or update_malformed (slice_get base (unat (pn_target_node n)))) (\<lambda>target_pk.
       tryE (compute_barrier_pkhash E target_pk) (\<lambda>target_pkhash.
       ensure (pn_target_pk_hash n = take 16 target_pkhash) (freezing FREEZE_BARRIER_EXPECTEDPAIRS_FAILURE))))
       (su_node_ciphertexts parsed)) (\<lambda>_. Inr ())))"

definition server_revocation_roots_hash :: "Ext \<Rightarrow> hash32 \<Rightarrow> hash32 \<Rightarrow> CityGError + hash32" where
  "server_revocation_roots_hash E since_root revoked_root =
     map_err CgMsphf (h_l E ''barrier/roots'' (CArray [CBytes since_root, CBytes revoked_root]))"

fun put_new_keys :: "(u64 \<times> bytes) list \<Rightarrow> bytes list \<Rightarrow> CityGError + bytes list" where
  "put_new_keys [] es = Inr es"
| "put_new_keys ((node, ek) # keys) es =
     tryE (ensure (unat node < length es) update_malformed) (\<lambda>_. put_new_keys keys (es[unat node := ek]))"

record BarrierUpdateValidationOutcome =
  vo_parsed :: ServerBarrierUpdate
  vo_snapshot_pre :: "bytes list"
  vo_snapshot_post :: "bytes list"
  vo_hash_cache_post :: "BarrierHashCache option"

text \<open>The hash before the update, with the cache of the subtree hashes that were computed for it.\<close>
definition update_hash_before ::
  "Ext \<Rightarrow> GroupState \<Rightarrow> u64 \<Rightarrow> bytes list option \<Rightarrow> (CityGError + hash32) \<times> BarrierHashCache" where
  "update_hash_before E st tree_n_max owned =
     (case owned of
        None \<Rightarrow> (Inr (gs_kem_tree_hash_after st), Map.empty)
      | Some base \<Rightarrow> compute_barrier_subtree_hash_cached E 0 tree_n_max (unat tree_n_max) base None Map.empty)"

text \<open>The hash after the update and the cache that the group keeps: the merged one when it covers every node.\<close>
definition update_hash_after ::
  "Ext \<Rightarrow> GroupState \<Rightarrow> u64 \<Rightarrow> nat \<Rightarrow> bool \<Rightarrow> hash32 \<Rightarrow> BarrierHashCache \<Rightarrow> (u64 \<times> bytes) list \<Rightarrow> bytes list \<Rightarrow>
     CityGError + hash32 \<times> BarrierHashCache option" where
  "update_hash_after E st tree_n_max expected_len borrowed before before_cache keys post =
     (if keys = [] then Inr (before, gs_barrier_hash_cache st)
      else
        case compute_barrier_tree_hash_with_changes E tree_n_max post (set (map (unat \<circ> fst) keys))
               (if borrowed then gs_barrier_hash_cache st else None) before_cache of
          (r, before_cache) \<Rightarrow>
            tryE r (\<lambda>(after, after_cache).
            let merged = unwrap_or (gs_barrier_hash_cache st) Map.empty ++ before_cache ++ after_cache in
            Inr (after, if finite (dom merged) \<and> card (dom merged) = expected_len then Some merged else None)))"

definition check_update_chain ::
  "Ext \<Rightarrow> GroupState \<Rightarrow> header \<Rightarrow> ServerBarrierUpdate \<Rightarrow> u64 \<Rightarrow> nat \<Rightarrow> bytes list option \<Rightarrow> CityGError + BarrierUpdateValidationOutcome" where
  "check_update_chain E st h parsed tree_n_max expected_len owned =
     (let pre = unwrap_or owned (gs_barrier_pk_entries st) in
      case update_hash_before E st tree_n_max owned of (r, before_cache) \<Rightarrow>
      tryE r (\<lambda>expected_before.
      tryE (ensure (expected_before = su_kem_tree_hash_before parsed) (freezing FREEZE_BARRIER_TREE_HASH_CHAIN_FAILURE)) (\<lambda>_.
      tryE (header_bytes32 h HDR_REVOKED_SINCE_ROOT ''barrier_update malformed'') (\<lambda>since_root.
      tryE (header_bytes32 h HDR_REVOKED_ROOT ''barrier_update malformed'') (\<lambda>revoked_root.
      tryE (server_revocation_roots_hash E since_root revoked_root) (\<lambda>roots_hash.
      tryE (ensure (su_revocation_roots_hash parsed = roots_hash) update_malformed) (\<lambda>_.
      tryE (verify_barrier_update_pairs_and_targets E pre parsed tree_n_max) (\<lambda>_.
      tryE (put_new_keys (su_new_public_keys parsed) pre) (\<lambda>post.
      tryE (update_hash_after E st tree_n_max expected_len (owned = None) expected_before before_cache (su_new_public_keys parsed) post)
        (\<lambda>(expected_after, cache_post).
      tryE (ensure (expected_after = su_kem_tree_hash_after parsed) (freezing FREEZE_BARRIER_TREE_HASH_CHAIN_FAILURE)) (\<lambda>_.
      Inr \<lparr>vo_parsed = parsed, vo_snapshot_pre = pre, vo_snapshot_post = post, vo_hash_cache_post = cache_post\<rparr>)))))))))))"

definition check_history_commitment :: "GroupState \<Rightarrow> HistoryCommitment option \<Rightarrow> CityGError + unit" where
  "check_history_commitment st supplied =
     (let expected = gs_current_history_commitment st in
      if hc_view_id expected \<noteq> zero_hash \<and> hc_commitment_id expected \<noteq> zero_hash
      then tryE (ok_or update_malformed supplied) (\<lambda>c. ensure (c = expected) (freezing FREEZE_BARRIER_TREE_SNAPSHOT_AUTH_FAILURE))
      else Inr ())"

text \<open>The body of the validation once the update is parsed.\<close>
definition validate_parsed_update ::
  "Ext \<Rightarrow> GroupState \<Rightarrow> header \<Rightarrow> MembershipDelta \<Rightarrow> u64 option \<Rightarrow> ServerBarrierUpdate \<Rightarrow> CityGError + BarrierUpdateValidationOutcome" where
  "validate_parsed_update E st h delta reason parsed =
     tryE (ensure_distinct_active_slot_indices st) (\<lambda>_.
     tryE (ensure_join_slot_indices_available st (md_joined delta)) (\<lambda>_.
     let tree_n_max = max (gs_n_max st) 1; leaf_base = unat tree_n_max - 1; slot = unat (su_updater_slot_index parsed) in
     tryE (update_join_set st (su_prev_barrier_version parsed) h delta) (\<lambda>by_leaf.
     tryE (update_revoked_indices st (md_revoked delta) (unat ` committed_revoked_slot_indices st)) (\<lambda>revoked.
     tryE (ok_or update_malformed (tree_len tree_n_max)) (\<lambda>expected_len.
     tryE (build_snapshot_base st tree_n_max leaf_base expected_len by_leaf revoked) (\<lambda>owned.
     tryE (check_updater st h delta reason (su_updater_slot_index parsed)) (\<lambda>(author_leaf_id, token).
     let reclaims = (slot \<in> unat ` committed_revoked_slot_indices st) in
     tryE (if reason = Some 0 \<and> token \<noteq> None \<and> reclaims
           then build_snapshot_base st tree_n_max leaf_base expected_len by_leaf (revoked - {slot}) else Inr owned) (\<lambda>owned.
     tryE (ensure (slot < 4294967296) update_malformed) (\<lambda>_.
     tryE (check_reason st parsed reason author_leaf_id token (of_nat slot \<in> fst ` set by_leaf) reclaims) (\<lambda>_.
     check_update_chain E st h parsed tree_n_max expected_len owned))))))))))"

definition validate_barrier_update_against_roster ::
  "Ext \<Rightarrow> ServerWire \<Rightarrow> GroupState \<Rightarrow> header \<Rightarrow> MembershipDelta \<Rightarrow> CityGError + BarrierUpdateValidationOutcome option" where
  "validate_barrier_update_against_roster E W st h delta =
     map_err (\<lambda>e. case e of CgInvalidInput _ \<Rightarrow> freezing FREEZE_BARRIER_UPDATE_MALFORMED | _ \<Rightarrow> e)
       (tryE (case value_bytes h HDR_BARRIER_UPDATE of
            Some raw \<Rightarrow> ensure (\<not> gs_max_barrier_update_bytes st < length raw) (freezing FREEZE_BARRIER_UPDATE_MALFORMED)
          | None \<Rightarrow> Inr ()) (\<lambda>_.
        tryE (server_update_reason h) (\<lambda>reason.
        tryE (parse_barrier_history_commitment E W h) (\<lambda>supplied.
        if reason = None
        then (if has_key h HDR_BARRIER_HISTORY_COMMITMENT then Inl update_malformed else Inr None)
        else tryE (parse_barrier_update E W h (gs_n_max st)) (\<lambda>p.
          case p of
            None \<Rightarrow> Inr None
          | Some parsed \<Rightarrow>
              tryE (check_history_commitment st supplied) (\<lambda>_.
              tryE (validate_parsed_update E st h delta reason parsed) (\<lambda>outcome. Inr (Some outcome))))))))"

section \<open>The two parsers accept the same updates\<close>

lemma deterministic_agree: "parse_deterministic_cbor E d e raw = Inr w \<longleftrightarrow> parse_deterministic E d e raw = Inr w"
  by (auto simp: parse_deterministic_cbor_def parse_deterministic_def result_simps)

lemma path_linked_iff: "parent_chain path = Inr () \<longleftrightarrow> path_linked path"
proof (induction path rule: path_linked.induct)
  case (1 child parent rest)
  have "checked_sub child 1 = (if child = 0 then None else Some (child - 1))"
    by (simp add: checked_sub_def word_le_nat_alt Suc_le_eq unat_pos)
  then show ?case
    using 1 by (auto simp: result_simps)
qed simp_all

lemma path_shape_iff: "validate_path_nodes path slot n m = Inr () \<longleftrightarrow> path_shape n m slot path"
  by (auto simp: validate_path_nodes_def path_shape_def result_simps nodes_distinct_in_range_iff path_linked_iff not_le)

lemma increasing_distinct: "strictly_increasing_from None xs \<Longrightarrow> distinct xs"
  by (simp add: strictly_increasing_from_iff strict_sorted_iff)

lemma keys_shape_iff: "validate_new_public_keys keys path n m = Inr () \<longleftrightarrow> keys_shape (saturating_sub n 1) m path keys"
  using increasing_distinct [of "map nk_node_index keys"]
  by (auto simp: validate_new_public_keys_def keys_shape_def result_simps check_new_keys_iff Let_def ml_kem_public_key_bytes_def)

lemma check_ciphertexts_iff:
  "check_ciphertexts m prev cs = Inr () \<longleftrightarrow>
     (\<forall>c\<in>set cs. nc_source c \<le> m \<and> nc_target c \<le> m \<and> length (nc_target_pk_hash c) = 16 \<and> length (nc_kem_ct c) = 1088 \<and>
       length (nc_wrapped_ps c) = 48) \<and>
     strictly_increasing_from prev (map (\<lambda>c. (nc_source c, nc_target c)) cs)"
proof (induction m prev cs rule: check_ciphertexts.induct)
  case (2 m prev c cs)
  have "(case prev of None \<Rightarrow> False | Some (s, t) \<Rightarrow> nc_source c < s \<or> nc_source c = s \<and> nc_target c \<le> t) \<longleftrightarrow>
    (case prev of None \<Rightarrow> False | Some p \<Rightarrow> (nc_source c, nc_target c) \<le> p)"
    by (auto simp: less_eq_prod_def split: option.split)
  with 2 show ?case
    by (auto simp: result_simps ensure_range_def not_less ml_kem_ciphertext_bytes_def)
qed simp

lemma ciphertexts_shape_iff: "validate_node_ciphertexts cs m = Inr () \<longleftrightarrow> ciphertexts_shape m cs"
  by (simp add: validate_node_ciphertexts_def ciphertexts_shape_def check_ciphertexts_iff)

lemma hint_iff: "validate_revoked_hint hint = Inr () \<longleftrightarrow> hint_shape hint"
  by (auto simp: validate_revoked_hint_def hint_shape_def result_simps split: option.split)

text \<open>What the server reads from the two decoded layers.\<close>
definition server_update :: "BarrierUpdateWire \<Rightarrow> KemTreeCoverPayloadWire \<Rightarrow> ServerBarrierUpdate" where
  "server_update w c = \<lparr>su_prev_barrier_version = bw_prev_barrier_version w, su_updater_slot_index = kc_updater_slot_index c,
     su_updater_slot_generation = kc_updater_slot_generation c, su_tree_size = bw_tree_size w,
     su_revocation_roots_hash = bw_revocation_roots_hash w, su_kem_tree_hash_before = bw_kem_tree_hash_before w,
     su_kem_tree_hash_after = bw_kem_tree_hash_after w, su_path_nodes = kc_path_nodes c,
     su_node_ciphertexts = map (\<lambda>n. \<lparr>pn_source_node = nc_source n, pn_target_node = nc_target n,
       pn_target_pk_hash = nc_target_pk_hash n\<rparr>) (kc_node_ciphertexts c),
     su_new_public_keys = map (\<lambda>k. (nk_node_index k, nk_ek k)) (kc_new_public_keys c)\<rparr>"

definition well_formed_update :: "Ext \<Rightarrow> WireDecoders \<Rightarrow> u64 \<Rightarrow> bytes \<Rightarrow> BarrierUpdateWire \<Rightarrow> KemTreeCoverPayloadWire \<Rightarrow> bool" where
  "well_formed_update E W n raw w c \<longleftrightarrow> n \<noteq> 0 \<and> is_power_of_two n \<and> parse_deterministic E (de_update W) cbarrier_update raw = Inr w \<and>
     bw_mode w = ''barrier-v1'' \<and> bw_tree_size w = n \<and> parse_deterministic E (de_cover W) ccover_payload (bw_cover_payload w) = Inr c \<and>
     length (bw_revocation_roots_hash w) = 32 \<and> length (bw_kem_tree_hash_before w) = 32 \<and> length (bw_kem_tree_hash_after w) = 32 \<and>
     (\<exists>m. Option.bind (checked_mul n 2) (\<lambda>v. checked_sub v 2) = Some m \<and> path_shape n m (kc_updater_slot_index c) (kc_path_nodes c) \<and>
       hint_shape (kc_revoked_leaf_indices_hint c) \<and>
       keys_shape (saturating_sub n 1) m (kc_path_nodes c) (kc_new_public_keys c) \<and> ciphertexts_shape m (kc_node_ciphertexts c))"

lemma server_parse_iff:
  "parse_barrier_update E W h n = Inr (Some p) \<longleftrightarrow>
     (\<exists>raw w c. value_bytes h HDR_BARRIER_UPDATE = Some raw \<and> well_formed_update E (sw_update W) n raw w c \<and> p = server_update w c)"
  by (auto simp: parse_barrier_update_def result_simps deterministic_agree vec_to_32_def well_formed_update_def server_update_def
    split: option.splits if_splits)

lemma pipeline_parse_iff:
  "parse_barrier_update_from_header E W h n limit = Inr q \<longleftrightarrow>
     (\<exists>raw w c. value_bytes h HDR_BARRIER_UPDATE = Some raw \<and> length raw \<le> limit \<and> well_formed_update E W n raw w c \<and>
       q = \<lparr>pb_barrier_version = bw_barrier_version w, pb_prev_barrier_version = bw_prev_barrier_version w,
         pb_tree_size = bw_tree_size w, pb_updater_slot_index = kc_updater_slot_index c,
         pb_updater_slot_generation = kc_updater_slot_generation c, pb_revocation_roots_hash = bw_revocation_roots_hash w,
         pb_kem_tree_hash_before = bw_kem_tree_hash_before w, pb_kem_tree_hash_after = bw_kem_tree_hash_after w\<rparr>)"
  by (auto simp: parse_barrier_update_from_header_def value_bytes_def result_simps vec32_def well_formed_update_def path_shape_iff
    keys_shape_iff ciphertexts_shape_iff hint_iff not_less split: option.splits cbor.splits if_splits)

text \<open>C30: the two parsers of a barrier update agree.  The server, which has its own parser, reads an update exactly when the
  acceptance pipeline does and the update is within the size limit, and then both read the same version, slot, tree size and hashes.\<close>
theorem update_parsers_agree:
  "((\<exists>q. parse_barrier_update_from_header E (sw_update W) h n limit = Inr q) \<longleftrightarrow>
     (\<exists>p. parse_barrier_update E W h n = Inr (Some p)) \<and>
     (case value_bytes h HDR_BARRIER_UPDATE of None \<Rightarrow> False | Some raw \<Rightarrow> length raw \<le> limit)) \<and>
   (\<forall>p q. parse_barrier_update E W h n = Inr (Some p) \<and> parse_barrier_update_from_header E (sw_update W) h n limit = Inr q \<longrightarrow>
     su_prev_barrier_version p = pb_prev_barrier_version q \<and> su_updater_slot_index p = pb_updater_slot_index q \<and>
     su_updater_slot_generation p = pb_updater_slot_generation q \<and> su_tree_size p = pb_tree_size q \<and>
     su_revocation_roots_hash p = pb_revocation_roots_hash q \<and> su_kem_tree_hash_before p = pb_kem_tree_hash_before q \<and>
     su_kem_tree_hash_after p = pb_kem_tree_hash_after q)"
proof -
  have iff: "(\<exists>q. parse_barrier_update_from_header E (sw_update W) h n limit = Inr q) \<longleftrightarrow>
     (\<exists>p. parse_barrier_update E W h n = Inr (Some p)) \<and>
     (case value_bytes h HDR_BARRIER_UPDATE of None \<Rightarrow> False | Some raw \<Rightarrow> length raw \<le> limit)"
  proof (cases "value_bytes h HDR_BARRIER_UPDATE")
    case None
    then show ?thesis
      by (simp add: server_parse_iff pipeline_parse_iff)
  next
    case (Some raw)
    then show ?thesis
      unfolding server_parse_iff pipeline_parse_iff by simp blast
  qed
  have "su_prev_barrier_version p = pb_prev_barrier_version q \<and> su_updater_slot_index p = pb_updater_slot_index q \<and>
     su_updater_slot_generation p = pb_updater_slot_generation q \<and> su_tree_size p = pb_tree_size q \<and>
     su_revocation_roots_hash p = pb_revocation_roots_hash q \<and> su_kem_tree_hash_before p = pb_kem_tree_hash_before q \<and>
     su_kem_tree_hash_after p = pb_kem_tree_hash_after q"
    if pq: "parse_barrier_update E W h n = Inr (Some p)" "parse_barrier_update_from_header E (sw_update W) h n limit = Inr q" for p q
  proof -
    obtain raw w c where p: "value_bytes h HDR_BARRIER_UPDATE = Some raw" "well_formed_update E (sw_update W) n raw w c" "p = server_update w c"
      using pq(1) unfolding server_parse_iff by blast
    obtain raw' w' c' where q: "value_bytes h HDR_BARRIER_UPDATE = Some raw'" "well_formed_update E (sw_update W) n raw' w' c'"
      "q = \<lparr>pb_barrier_version = bw_barrier_version w', pb_prev_barrier_version = bw_prev_barrier_version w',
         pb_tree_size = bw_tree_size w', pb_updater_slot_index = kc_updater_slot_index c',
         pb_updater_slot_generation = kc_updater_slot_generation c', pb_revocation_roots_hash = bw_revocation_roots_hash w',
         pb_kem_tree_hash_before = bw_kem_tree_hash_before w', pb_kem_tree_hash_after = bw_kem_tree_hash_after w'\<rparr>"
      using pq(2) unfolding pipeline_parse_iff by blast
    have "w' = w" "c' = c"
      using p(1,2) q(1,2) by (auto simp: well_formed_update_def)
    then show ?thesis
      by (simp add: p(3) q(3) server_update_def)
  qed
  with iff show ?thesis
    by blast
qed

section \<open>An accepted update\<close>

text \<open>What the group keeps of its tree: the hash of the entries and, in a tree with more than one leaf, a right cache.\<close>
definition server_tree_ok :: "Ext \<Rightarrow> GroupState \<Rightarrow> bool" where
  "server_tree_ok E st \<longleftrightarrow> (let n = max (gs_n_max st) 1; es = gs_barrier_pk_entries st in
     (gs_barrier_initialized st \<longrightarrow> tree_len n = Some (length es) \<longrightarrow> compute_barrier_tree_hash E n es = Inr (gs_kem_tree_hash_after st)) \<and>
     (\<forall>c. gs_barrier_hash_cache st = Some c \<longrightarrow> n \<noteq> 1 \<and> tree_len n = Some (length es) \<and> cache_ok E n es UNIV c))"

lemma put_new_keys_nth:
  assumes "put_new_keys keys es = Inr es'"
  shows "length es' = length es" "\<And>i. i \<notin> unat ` fst ` set keys \<Longrightarrow> es' ! i = es ! i"
    "\<And>k. k \<in> set keys \<Longrightarrow> unat (fst k) < length es"
    "distinct (map fst keys) \<Longrightarrow> k \<in> set keys \<Longrightarrow> es' ! unat (fst k) = snd k"
proof -
  have "length es' = length es \<and> (\<forall>i. i \<notin> unat ` fst ` set keys \<longrightarrow> es' ! i = es ! i) \<and>
    (\<forall>k\<in>set keys. unat (fst k) < length es) \<and>
    (distinct (map fst keys) \<longrightarrow> (\<forall>k\<in>set keys. es' ! unat (fst k) = snd k))"
    using assms
  proof (induction keys es rule: put_new_keys.induct)
    case (2 node ek keys es)
    then have le: "unat node < length es" and run: "put_new_keys keys (es[unat node := ek]) = Inr es'"
      by (auto simp: result_simps)
    have "unat node \<in> unat ` fst ` set keys \<longleftrightarrow> node \<in> fst ` set keys"
      by (force simp: word_unat_eq_iff)
    with 2(1) [OF _ run] le show ?case
      by (auto simp: result_simps nth_list_update)
  qed simp
  then show "length es' = length es" "\<And>i. i \<notin> unat ` fst ` set keys \<Longrightarrow> es' ! i = es ! i"
    "\<And>k. k \<in> set keys \<Longrightarrow> unat (fst k) < length es"
    "distinct (map fst keys) \<Longrightarrow> k \<in> set keys \<Longrightarrow> es' ! unat (fst k) = snd k"
    by blast+
qed

lemma whole_tree: "tree_len n = Some (length es) \<Longrightarrow> compute_barrier_tree_hash E n es = tree_hash E n es 0"
  by (simp add: compute_barrier_tree_hash_def ok_or_def ensure_def)

text \<open>The tree an update starts from, as the validation has it: the group's own, or a copy of full length.\<close>
definition base_ok :: "GroupState \<Rightarrow> bytes list option \<Rightarrow> bool" where
  "base_ok st owned \<longleftrightarrow> tree_len (max (gs_n_max st) 1) = Some (length (unwrap_or owned (gs_barrier_pk_entries st))) \<and>
     (owned = None \<longrightarrow> gs_barrier_initialized st)"

lemma update_hash_before_sound:
  assumes ok: "server_tree_ok E st" and base: "base_ok st owned" and n: "n = max (gs_n_max st) 1"
    and run: "update_hash_before E st n owned = (Inr h, c)" and pre: "pre = unwrap_or owned (gs_barrier_pk_entries st)"
  shows "compute_barrier_tree_hash E n pre = Inr h \<and> cache_ok E n pre UNIV c \<and> (owned \<noteq> None \<longrightarrow> {..<length pre} \<subseteq> dom c)"
proof (cases owned)
  case None
  then show ?thesis
    using ok base run n pre by (auto simp: update_hash_before_def server_tree_ok_def base_ok_def cache_ok_def Let_def)
next
  case (Some es)
  then have run: "compute_barrier_subtree_hash_cached E 0 n (unat n) es None Map.empty = (Inr h, c)" and len: "tree_len n = Some (length es)"
    and es: "pre = es"
    using run base n pre by (simp_all add: update_hash_before_def base_ok_def)
  have "cache_ok E n es UNIV Map.empty"
    by (simp add: cache_ok_def)
  from cached_hash [OF _ _ _ this run] have "Inr h = tree_hash E n es 0 \<and> cache_ok E n es UNIV c"
    by (simp add: child_closed_def)
  moreover have "\<forall>i<length es. below 0 i \<longrightarrow> c i \<noteq> None"
    using cached_fills [OF _ run] len by (simp add: filled_def tree_len_Some)
  ultimately show ?thesis
    using whole_tree [OF len] es by auto
qed

lemma map_add_covered: "dom m \<subseteq> dom f \<Longrightarrow> m ++ f = f"
  by (rule ext) (auto simp: map_add_def split: option.split)

lemma cache_dom: "cache_ok E n es UNIV c \<Longrightarrow> dom c \<subseteq> {..<length es}"
proof
  fix i
  assume "cache_ok E n es UNIV c" "i \<in> dom c"
  then obtain h where "tree_hash E n es i = Inr h"
    by (auto simp: cache_ok_def)
  then show "i \<in> {..<length es}"
    by (cases "i < length es") (simp_all add: tree_hash_step [of E i] hash_stepS_out)
qed

lemma update_hash_after_sound:
  assumes ok: "server_tree_ok E st" and base: "base_ok st owned" and n: "n = max (gs_n_max st) 1" "n \<noteq> 1"
    and before: "update_hash_before E st n owned = (Inr h, c)" and pre: "pre = unwrap_or owned (gs_barrier_pk_entries st)"
    and keys: "put_new_keys keys pre = Inr post" "keys \<noteq> []"
    and run: "update_hash_after E st n len (owned = None) h c keys post = Inr (after, cache)"
  shows "compute_barrier_tree_hash E n post = Inr after \<and> (\<forall>m. cache = Some m \<longrightarrow> cache_ok E n post UNIV m)"
proof -
  let ?old = "unwrap_or (gs_barrier_hash_cache st) Map.empty"
  let ?base = "if owned = None then gs_barrier_hash_cache st else None"
  let ?changed = "set (map (unat \<circ> fst) keys)"
  note pre_ok = update_hash_before_sound [OF ok base n(1) before pre]
  note post = put_new_keys_nth [OF keys(1)]
  have len: "tree_len n = Some (length pre)"
    using base n(1) pre by (simp add: base_ok_def)
  obtain c' a where inc: "compute_barrier_tree_hash_with_changes E n post ?changed ?base c = (Inr (after, a), c')"
    and cache: "\<And>m. cache = Some m \<Longrightarrow> m = ?old ++ c' ++ a"
    using run keys(2) by (auto simp: update_hash_after_def result_simps Let_def split: prod.splits if_splits)
  have "\<And>b. ?base = Some b \<Longrightarrow> cache_ok E n pre UNIV b"
    using ok n(1) pre by (auto simp: server_tree_ok_def Let_def split: if_splits)
  moreover have "\<And>i. i < length post \<Longrightarrow> i \<notin> ?changed \<Longrightarrow> post ! i = pre ! i" "\<And>i. i \<in> ?changed \<Longrightarrow> i < length post"
    using post(1-3) by (auto simp: image_comp)
  ultimately have *: "compute_barrier_tree_hash E n post = Inr after" "dom c \<subseteq> dom c'"
    "cache_ok E n post UNIV (unwrap_or ?base Map.empty ++ c' ++ a)"
    using with_changes_hash [OF post(1) [symmetric] _ _ _ _ inc] pre_ok keys(2) by auto
  moreover have "unwrap_or ?base Map.empty ++ c' ++ a = ?old ++ c' ++ a" if "owned \<noteq> None"
  proof -
    have "dom ?old \<subseteq> {..<length pre}"
    proof (cases "gs_barrier_hash_cache st")
      case (Some b)
      then have "cache_ok E n (gs_barrier_pk_entries st) UNIV b" "length (gs_barrier_pk_entries st) = length pre"
        using ok n(1) len by (auto simp: server_tree_ok_def Let_def)
      then show ?thesis
        using Some cache_dom by force
    qed simp
    also have "\<dots> \<subseteq> dom c'"
      using that pre_ok *(2) by blast
    finally have "?old ++ c' = c'"
      by (rule map_add_covered)
    then show ?thesis
      using that by simp
  qed
  ultimately show ?thesis
    using cache by (cases "owned = None") auto
qed

lemma tl_tree_path: "tl (tree_path i) = [] \<longleftrightarrow> i = 0"
  by (simp add: tree_path.simps [of i])

text \<open>What the parser has checked of an update.\<close>
lemma parsed_update:
  assumes "parse_barrier_update E W h n = Inr (Some p)"
  shows "n \<noteq> 0" "su_tree_size p = n" "tree_len n = Some (2 * unat n - 1)" "unat (su_updater_slot_index p) < unat n"
    "map unat (su_path_nodes p) = tree_path (unat n - 1 + unat (su_updater_slot_index p))"
    "distinct (map fst (su_new_public_keys p))" "su_new_public_keys p = [] \<longleftrightarrow> n = 1"
    "fst ` set (su_new_public_keys p) = set (tl (su_path_nodes p))"
    "distinct (map (\<lambda>c. (pn_source_node c, pn_target_node c)) (su_node_ciphertexts p))"
proof -
  obtain raw w c where wf: "well_formed_update E (sw_update W) n raw w c" and p: "p = server_update w c"
    using assms unfolding server_parse_iff by blast
  obtain m where m: "checked_mul n 2 = Some m"
    using wf by (auto simp: well_formed_update_def bind_eq_Some_conv)
  show n: "n \<noteq> 0"
    using wf by (simp add: well_formed_update_def)
  show "su_tree_size p = n"
    using wf p by (simp add: well_formed_update_def server_update_def)
  show "tree_len n = Some (2 * unat n - 1)"
    using m n by (auto simp: tree_len_Some checked_mul_def mult.commute split: if_splits)
  obtain max_index where path: "path_shape n max_index (kc_updater_slot_index c) (kc_path_nodes c)"
    and keys: "keys_shape (saturating_sub n 1) max_index (kc_path_nodes c) (kc_new_public_keys c)"
    and cts: "ciphertexts_shape max_index (kc_node_ciphertexts c)"
    using wf by (auto simp: well_formed_update_def)
  show slot: "unat (su_updater_slot_index p) < unat n"
    using path p by (simp add: path_shape_def server_update_def word_less_nat_alt)
  have "unat (hd (kc_path_nodes c)) = unat n - 1 + unat (kc_updater_slot_index c)"
    using path by (auto simp: path_shape_def checked_add_Some unat_saturating_sub unat_word_ariths)
  then show tree: "map unat (su_path_nodes p) = tree_path (unat n - 1 + unat (su_updater_slot_index p))"
    using path p parent_chain_iff [of "kc_path_nodes c"] by (auto simp: path_shape_def path_linked_iff server_update_def)
  show "distinct (map fst (su_new_public_keys p))"
    using keys increasing_distinct p by (auto simp: keys_shape_def server_update_def comp_def)
  have set: "fst ` set (su_new_public_keys p) = set (tl (su_path_nodes p))"
    using keys p by (auto simp: keys_shape_def server_update_def image_image drop_Suc)
  then show "fst ` set (su_new_public_keys p) = set (tl (su_path_nodes p))" .
  have "tl (su_path_nodes p) = [] \<longleftrightarrow> tl (tree_path (unat n - 1 + unat (su_updater_slot_index p))) = []"
    by (metis map_is_Nil_conv map_tl tree)
  also have "\<dots> \<longleftrightarrow> n = 1"
    using slot by (auto simp: tl_tree_path word_unat_eq_iff)
  finally show "su_new_public_keys p = [] \<longleftrightarrow> n = 1"
    using set by (metis image_is_empty set_empty)
  show "distinct (map (\<lambda>c. (pn_source_node c, pn_target_node c)) (su_node_ciphertexts p))"
    using cts increasing_distinct p by (auto simp: ciphertexts_shape_def server_update_def comp_def)
qed

lemma update_chain:
  assumes "check_update_chain E st h p n len owned = Inr out"
  obtains c where "vo_parsed out = p" "vo_snapshot_pre out = unwrap_or owned (gs_barrier_pk_entries st)"
    "update_hash_before E st n owned = (Inr (su_kem_tree_hash_before p), c)"
    "verify_barrier_update_pairs_and_targets E (vo_snapshot_pre out) p n = Inr ()"
    "put_new_keys (su_new_public_keys p) (vo_snapshot_pre out) = Inr (vo_snapshot_post out)"
    "update_hash_after E st n len (owned = None) (su_kem_tree_hash_before p) c (su_new_public_keys p) (vo_snapshot_post out) =
       Inr (su_kem_tree_hash_after p, vo_hash_cache_post out)"
  using assms by (auto simp: check_update_chain_def result_simps Let_def split: prod.splits)

lemma place_leaf_keys_length: "place_leaf_keys st n b ls es = Inr es' \<Longrightarrow> length es' = length es"
proof (induction ls arbitrary: es)
  case (Cons l ls)
  then show ?case
    by (fastforce simp: result_simps split: if_splits option.splits)
qed simp

lemma pk_entries_view_length:
  assumes "build_pk_entries_view st = Inr es" "gs_n_max st \<noteq> 0"
  shows "length es = 2 * unat (gs_n_max st) - 1"
  using assms by (auto simp: build_pk_entries_view_def build_fallback_pk_entries_def barrier_pk_entry_layout_def
      validate_barrier_n_max_def result_simps dest!: place_leaf_keys_length split: if_splits)

lemma update_revoked_slots:
  "update_revoked_indices st ls R = Inr R' \<Longrightarrow>
     R' = R \<union> {unat (sl_index l) | l leaf. leaf \<in> set ls \<and> bt_get (gs_leaf_slot_leases st) leaf = Some l}"
proof (induction ls arbitrary: R)
  case (Cons a ls)
  then show ?case
    by (fastforce simp: result_simps require_active_slot_lease_def)
qed simp

lemma max_one: "n \<noteq> 0 \<Longrightarrow> max n 1 = (n :: u64)"
  by (auto simp: max_def word_le_nat_alt word_unat_eq_iff)

lemma put_joins_length: "length (fold (put_join b) m es) = length es"
  by (induction m arbitrary: es) (auto simp: put_join_def clear_barrier_path_nth split: prod.split)

lemma put_revoked_blank:
  "length (fold (put_revoked b) rs es) = length es"
  "i < length es \<Longrightarrow> es ! i = [] \<or> (\<exists>r\<in>set rs. below i (b + r)) \<Longrightarrow> fold (put_revoked b) rs es ! i = []"
proof (induction rs arbitrary: es)
  case (Cons r rs)
  {
    case 1
    then show ?case
      using Cons(1) by (simp add: put_revoked_def clear_barrier_path_nth)
  next
    case 2
    then show ?case
      using Cons(2) [of "put_revoked b r es"] by (auto simp: put_revoked_def clear_barrier_path_nth)
  }
qed simp_all

lemma snapshot_base:
  assumes "build_snapshot_base st n b len by_leaf revoked = Inr owned" "n = gs_n_max st" "n \<noteq> 0"
    and "tree_len n = Some len" "finite revoked"
  shows "base_ok st owned"
    "r \<in> revoked \<Longrightarrow> below i (b + r) \<Longrightarrow> i < len \<Longrightarrow> unwrap_or owned (gs_barrier_pk_entries st) ! i = []"
proof -
  have n: "max n 1 = n" "len = 2 * unat n - 1"
    using assms(3,4) by (simp_all add: tree_len_Some max_one)
  have "base_ok st owned \<and> (r \<in> revoked \<longrightarrow> below i (b + r) \<longrightarrow> i < len \<longrightarrow> unwrap_or owned (gs_barrier_pk_entries st) ! i = [])"
  proof (cases "can_borrow st len by_leaf revoked")
    case True
    then show ?thesis
      using assms n(1) by (auto simp: build_snapshot_base_def base_ok_def can_borrow_def)
  next
    case False
    then obtain es where es: "owned = Some (fold (put_revoked b) (ascending revoked) (fold (put_join b) by_leaf es))"
      and run: "(if gs_barrier_initialized st then build_pk_entries_view st else build_blank_pk_entries n) = Inr es"
      using assms(1) by (auto simp: build_snapshot_base_def result_simps)
    have "length es = len"
      using run assms(2-4) n(2) by (auto simp: build_blank_pk_entries_def result_simps dest: pk_entries_view_length split: if_splits)
    then show ?thesis
      using es assms(2,4,5) n(1) put_revoked_blank(2) [of i "fold (put_join b) by_leaf es" "ascending revoked" b]
      by (auto simp: base_ok_def put_joins_length put_revoked_blank(1) ascending_def)
  qed
  then show "base_ok st owned"
    "r \<in> revoked \<Longrightarrow> below i (b + r) \<Longrightarrow> i < len \<Longrightarrow> unwrap_or owned (gs_barrier_pk_entries st) ! i = []"
    by blast+
qed

text \<open>The slots whose members are out: those revoked before, and those the update's own change revokes.\<close>
definition revoked_slots :: "GroupState \<Rightarrow> MembershipDelta \<Rightarrow> nat set" where
  "revoked_slots st delta = unat ` committed_revoked_slot_indices st \<union>
     {unat (sl_index l) | l leaf. leaf \<in> set (md_revoked delta) \<and> bt_get (gs_leaf_slot_leases st) leaf = Some l}"

lemma revoked_slots_finite: "finite (revoked_slots st delta)"
proof -
  have "{unat (sl_index l) | l leaf. leaf \<in> set (md_revoked delta) \<and> bt_get (gs_leaf_slot_leases st) leaf = Some l} \<subseteq>
     (\<lambda>leaf. unat (sl_index (the (bt_get (gs_leaf_slot_leases st) leaf)))) ` set (md_revoked delta)"
    by force
  then show ?thesis
    by (auto simp: revoked_slots_def committed_revoked_slot_indices_def intro: finite_subset)
qed

lemma validated_update:
  assumes "validate_barrier_update_against_roster E W st h delta = Inr (Some out)"
  obtains len owned where "parse_barrier_update E W h (gs_n_max st) = Inr (Some (vo_parsed out))" "base_ok st owned"
    "check_update_chain E st h (vo_parsed out) (gs_n_max st) len owned = Inr out"
    "\<And>s i. s \<in> revoked_slots st delta \<Longrightarrow> s \<noteq> unat (su_updater_slot_index (vo_parsed out)) \<Longrightarrow>
       below i (unat (gs_n_max st) - 1 + s) \<Longrightarrow> i < length (vo_snapshot_pre out) \<Longrightarrow> vo_snapshot_pre out ! i = []"
proof -
  let ?n = "gs_n_max st"
  obtain p reason where p: "parse_barrier_update E W h ?n = Inr (Some p)" and run: "validate_parsed_update E st h delta reason p = Inr out"
    using assms by (auto simp: validate_barrier_update_against_roster_def result_simps split: option.splits if_splits)
  let ?slot = "unat (su_updater_slot_index p)"
  note facts = parsed_update [OF p]
  have n: "max ?n 1 = ?n"
    using facts(1) by (rule max_one)
  obtain by_leaf revoked revoked' len owned
    where 1: "update_revoked_indices st (md_revoked delta) (unat ` committed_revoked_slot_indices st) = Inr revoked"
    "revoked' = revoked \<or> revoked' = revoked - {?slot}" "tree_len ?n = Some len"
    "build_snapshot_base st ?n (unat ?n - 1) len by_leaf revoked' = Inr owned"
    "check_update_chain E st h p ?n len owned = Inr out"
    using run n by (auto simp: validate_parsed_update_def Let_def result_simps split: if_splits) blast+
  have rev: "revoked = revoked_slots st delta"
    using update_revoked_slots [OF 1(1)] by (simp add: revoked_slots_def)
  then have fin: "finite revoked'"
    using 1(2) revoked_slots_finite by auto
  note base = snapshot_base [OF 1(4) refl facts(1) 1(3) fin]
  have vo: "vo_parsed out = p" "vo_snapshot_pre out = unwrap_or owned (gs_barrier_pk_entries st)"
    by (rule update_chain [OF 1(5)], simp)+
  have "length (vo_snapshot_pre out) = len"
    using base(1) 1(3) n vo(2) by (simp add: base_ok_def)
  then show thesis
    using that [OF _ base(1)] p 1(2,5) rev base(2) vo by auto
qed

text \<open>The group after the update, as the server stores it.\<close>
definition adopt_update :: "BarrierUpdateValidationOutcome \<Rightarrow> GroupState \<Rightarrow> GroupState" where
  "adopt_update out st = st\<lparr>gs_barrier_pk_entries := vo_snapshot_post out,
     gs_kem_tree_hash_after := su_kem_tree_hash_after (vo_parsed out), gs_n_max := max (su_tree_size (vo_parsed out)) 1,
     gs_barrier_hash_cache := vo_hash_cache_post out\<rparr>"

lemma adopted_tree:
  assumes valid: "validate_barrier_update_against_roster E W st h delta = Inr (Some out)" and ok: "server_tree_ok E st"
  shows "compute_barrier_tree_hash E (gs_n_max st) (vo_snapshot_pre out) = Inr (su_kem_tree_hash_before (vo_parsed out))"
    "compute_barrier_tree_hash E (gs_n_max st) (vo_snapshot_post out) = Inr (su_kem_tree_hash_after (vo_parsed out))"
    "length (vo_snapshot_post out) = 2 * unat (gs_n_max st) - 1"
    "\<forall>c. vo_hash_cache_post out = Some c \<longrightarrow> gs_n_max st \<noteq> 1 \<and> cache_ok E (gs_n_max st) (vo_snapshot_post out) UNIV c"
proof -
  let ?n = "gs_n_max st" and ?p = "vo_parsed out"
  obtain len owned where parsed: "parse_barrier_update E W h ?n = Inr (Some ?p)" and base: "base_ok st owned"
    and run: "check_update_chain E st h ?p ?n len owned = Inr out"
    using validated_update [OF valid] by metis
  note facts = parsed_update [OF parsed]
  have n: "?n = max ?n 1"
    using max_one [OF facts(1)] by simp
  obtain c where chain: "vo_snapshot_pre out = unwrap_or owned (gs_barrier_pk_entries st)"
    "update_hash_before E st ?n owned = (Inr (su_kem_tree_hash_before ?p), c)"
    "put_new_keys (su_new_public_keys ?p) (vo_snapshot_pre out) = Inr (vo_snapshot_post out)"
    "update_hash_after E st ?n len (owned = None) (su_kem_tree_hash_before ?p) c (su_new_public_keys ?p) (vo_snapshot_post out) =
       Inr (su_kem_tree_hash_after ?p, vo_hash_cache_post out)"
    by (rule update_chain [OF run])
  show before: "compute_barrier_tree_hash E ?n (vo_snapshot_pre out) = Inr (su_kem_tree_hash_before ?p)"
    using update_hash_before_sound [OF ok base n chain(2,1)] by simp
  have "tree_len ?n = Some (length (vo_snapshot_pre out))"
    using base n chain(1) by (simp add: base_ok_def)
  then show "length (vo_snapshot_post out) = 2 * unat ?n - 1"
    using facts(3) put_new_keys_nth(1) [OF chain(3)] by simp
  have "compute_barrier_tree_hash E ?n (vo_snapshot_post out) = Inr (su_kem_tree_hash_after ?p) \<and>
     (\<forall>c. vo_hash_cache_post out = Some c \<longrightarrow> ?n \<noteq> 1 \<and> cache_ok E ?n (vo_snapshot_post out) UNIV c)"
  proof (cases "?n = 1")
    case True
    then have keys: "su_new_public_keys ?p = []"
      using facts(7) by simp
    have "gs_barrier_hash_cache st = None"
      using ok True by (cases "gs_barrier_hash_cache st") (auto simp: server_tree_ok_def)
    with chain(3,4) keys before True show ?thesis
      by (simp add: update_hash_after_def)
  next
    case False
    then show ?thesis
      using update_hash_after_sound [OF ok base n False chain(2,1,3) _ chain(4)] facts(7) by simp
  qed
  then show "compute_barrier_tree_hash E ?n (vo_snapshot_post out) = Inr (su_kem_tree_hash_after ?p)"
    "\<forall>c. vo_hash_cache_post out = Some c \<longrightarrow> ?n \<noteq> 1 \<and> cache_ok E ?n (vo_snapshot_post out) UNIV c"
    by blast+
qed

lemma adopt_tree_ok:
  assumes "validate_barrier_update_against_roster E W st h delta = Inr (Some out)" "server_tree_ok E st"
  shows "server_tree_ok E (adopt_update out st)"
proof -
  obtain len owned where parsed: "parse_barrier_update E W h (gs_n_max st) = Inr (Some (vo_parsed out))"
    using validated_update [OF assms(1)] by metis
  note facts = parsed_update [OF parsed]
  show ?thesis
    using adopted_tree [OF assms] facts(1-3) by (simp add: server_tree_ok_def adopt_update_def max_one)
qed

text \<open>C9: an update that the server's validation accepts continues the hash chain of the tree.  If the group's hash and cache are
  right for its tree, the update starts from a tree with the hash it names as the one before, ends in a tree with the hash it
  names as the one after, and leaves a group whose hash and cache are right for the new tree.\<close>
theorem validated_update_chains:
  assumes "validate_barrier_update_against_roster E W st h delta = Inr (Some out)" "server_tree_ok E st"
  shows "compute_barrier_tree_hash E (gs_n_max st) (vo_snapshot_pre out) = Inr (su_kem_tree_hash_before (vo_parsed out)) \<and>
    compute_barrier_tree_hash E (gs_n_max st) (vo_snapshot_post out) = Inr (su_kem_tree_hash_after (vo_parsed out)) \<and>
    server_tree_ok E (adopt_update out st)"
  using adopted_tree [OF assms] adopt_tree_ok [OF assms] by blast

lemma verified_pairs:
  assumes "verify_barrier_update_pairs_and_targets E base p n = Inr ()"
  shows "collect_expected_pairs base (su_path_nodes p) n =
      Inr (map (\<lambda>c. (pn_source_node c, pn_target_node c)) (su_node_ciphertexts p))"
    "c \<in> set (su_node_ciphertexts p) \<Longrightarrow>
      \<exists>d. compute_barrier_pkhash E (base ! unat (pn_target_node c)) = Inr d \<and> pn_target_pk_hash c = take 16 d"
  using assms by (auto simp: verify_barrier_update_pairs_and_targets_def result_simps mapE_eq_Inr slice_get_def list_all2_conv_all_nth
      in_set_conv_nth split: if_splits)

text \<open>C4: the ciphertexts of an update that the server accepts reach exactly the members that stay.  No two have the same source and
  target; every occupied leaf of the tree but the updater's is below exactly one target; none is below the leaf of a revoked
  slot, committed or revoked by the update itself, but the updater's own; each names the key that is in the tree at its target;
  and the only entries that change are those on the updater's path.\<close>
theorem validated_update_reaches_members:
  assumes "validate_barrier_update_against_roster E W st h delta = Inr (Some out)"
  defines "cs \<equiv> su_node_ciphertexts (vo_parsed out)" and "es \<equiv> vo_snapshot_pre out" and "b \<equiv> unat (gs_n_max st) - 1"
    and "slot \<equiv> unat (su_updater_slot_index (vo_parsed out))"
  shows "distinct (map (\<lambda>c. (pn_source_node c, pn_target_node c)) cs) \<and>
    (\<forall>j. occupied es b j \<and> j \<noteq> b + slot \<longrightarrow> (\<exists>!c. c \<in> set cs \<and> below (unat (pn_target_node c)) j)) \<and>
    (\<forall>s\<in>revoked_slots st delta - {slot}. \<forall>c\<in>set cs. \<not> below (unat (pn_target_node c)) (b + s)) \<and>
    (\<forall>c\<in>set cs. \<exists>d. compute_barrier_pkhash E (es ! unat (pn_target_node c)) = Inr d \<and> pn_target_pk_hash c = take 16 d) \<and>
    (\<forall>i. \<not> below i (b + slot) \<longrightarrow> vo_snapshot_post out ! i = es ! i)"
proof -
  let ?n = "gs_n_max st" and ?p = "vo_parsed out" and ?pair = "\<lambda>c. (pn_source_node c, pn_target_node c)"
  obtain len owned where parsed: "parse_barrier_update E W h ?n = Inr (Some ?p)" and base: "base_ok st owned"
    and run: "check_update_chain E st h ?p ?n len owned = Inr out"
    and revoked: "\<And>s i. s \<in> revoked_slots st delta \<Longrightarrow> s \<noteq> slot \<Longrightarrow> below i (b + s) \<Longrightarrow> i < length es \<Longrightarrow> es ! i = []"
    using validated_update [OF assms(1)] unfolding b_def slot_def es_def by metis
  note facts = parsed_update [OF parsed]
  have chain: "es = unwrap_or owned (gs_barrier_pk_entries st)"
    "verify_barrier_update_pairs_and_targets E es ?p ?n = Inr ()"
    "put_new_keys (su_new_public_keys ?p) es = Inr (vo_snapshot_post out)"
    unfolding es_def by (rule update_chain [OF run], simp)+
  have len: "tree_len ?n = Some (length es)"
    using base chain(1) max_one [OF facts(1)] by (simp add: base_ok_def)
  note pairs = verified_pairs [OF chain(2), folded cs_def]
  have inj: "inj_on ?pair (set cs)"
    using facts(9) by (simp add: cs_def distinct_map)
  have members: "\<forall>j. occupied es b j \<and> j \<noteq> b + slot \<longrightarrow> (\<exists>!q. q \<in> set (map ?pair cs) \<and> below (unat (snd q)) j)"
    "\<forall>j. (\<forall>i<length es. below i j \<longrightarrow> es ! i = []) \<longrightarrow> (\<forall>(s, t)\<in>set (map ?pair cs). \<not> below (unat t) j)"
    using expected_pairs_members [OF len, of "su_path_nodes ?p" "b + slot"] facts(3-5) len pairs(1)
    by (auto simp: b_def slot_def cs_def)
  have "\<exists>!c. c \<in> set cs \<and> below (unat (pn_target_node c)) j" if "occupied es b j \<and> j \<noteq> b + slot" for j
  proof -
    have "\<exists>!q. q \<in> ?pair ` set cs \<and> below (unat (snd q)) j"
      using members(1) that by simp
    then obtain c where c: "c \<in> set cs" "below (unat (pn_target_node c)) j"
      and u: "\<And>q. q \<in> ?pair ` set cs \<and> below (unat (snd q)) j \<Longrightarrow> q = ?pair c"
      by (metis (no_types, lifting) imageE snd_conv)
    have "c' = c" if "c' \<in> set cs \<and> below (unat (pn_target_node c')) j" for c'
      using u [of "?pair c'"] that inj_onD [OF inj, of c' c] c(1) by simp
    with c show ?thesis
      by blast
  qed
  moreover have "\<not> below (unat (pn_target_node c)) (b + s)" if "s \<in> revoked_slots st delta - {slot}" "c \<in> set cs" for s c
    using members(2) [rule_format, of "b + s" "?pair c"] revoked that by force
  moreover have "vo_snapshot_post out ! i = es ! i" if "\<not> below i (b + slot)" for i
  proof -
    have "unat ` fst ` set (su_new_public_keys ?p) \<subseteq> set (tree_path (b + slot))"
      unfolding facts(8) b_def slot_def facts(5) [symmetric] by (cases "su_path_nodes ?p") auto
    then show ?thesis
      using that put_new_keys_nth(2) [OF chain(3)] by blast
  qed
  ultimately show ?thesis
    using facts(9) pairs(2) unfolding cs_def by blast
qed

section \<open>A refresh in a group of two\<close>

definition pair_cover :: KemTreeCoverPayloadWire where
  "pair_cover = plain_cover\<lparr>kc_node_ciphertexts := [\<lparr>nc_source = 0, nc_target = 2, nc_target_pk_hash = replicate 16 7,
     nc_kem_ct = replicate 1088 0, nc_wrapped_ps = replicate 48 0\<rparr>]\<rparr>"

definition pair_wire :: ServerWire where
  "pair_wire = \<lparr>sw_update = \<lparr>de_update = (\<lambda>_. Some plain_update), de_cover = (\<lambda>_. Some pair_cover)\<rparr>, sw_history = (\<lambda>_. None)\<rparr>"

definition pair_group :: GroupState where
  "pair_group = group_state_default\<lparr>gs_n_max := 2, gs_barrier_initialized := True, gs_barrier_version := 3,
     gs_barrier_roots_hash := plain_digest, gs_kem_tree_hash_after := plain_digest, gs_barrier_pk_entries := [[4], [5], [6]],
     gs_snapshots := [(plain_digest, {sample_leaf 1, sample_leaf 2})], gs_latest_root := Some plain_digest,
     gs_leaf_slot_leases := [(sample_leaf 1, small_lease), (sample_leaf 2, \<lparr>sl_index = 1, sl_generation = 0\<rparr>)],
     gs_leaf_device_pk := [(sample_leaf 1, [5]), (sample_leaf 2, [6])]\<rparr>"

definition no_delta :: MembershipDelta where
  "no_delta = \<lparr>md_joined = [], md_revoked = []\<rparr>"

lemma no_delta_simps [simp]: "md_joined no_delta = []" "md_revoked no_delta = []"
  by (simp_all add: no_delta_def)

lemma refresh_fields:
  "value_bytes refresh_header HDR_BARRIER_UPDATE = Some [9]" "value_bytes refresh_header HDR_POP_PK = Some [5]"
  "server_update_reason refresh_header = Inr (Some 1)" "parse_join_finalize_auth_token refresh_header = Inr None"
  "parse_barrier_history_commitment E W refresh_header = Inr None"
  "header_bytes32 refresh_header HDR_REVOKED_SINCE_ROOT label = Inr plain_digest"
  "header_bytes32 refresh_header HDR_REVOKED_ROOT label = Inr plain_digest"
  by (simp_all add: refresh_header_def value_bytes_def server_update_reason_def parse_join_finalize_auth_token_def
    parse_barrier_history_commitment_def header_bytes32_def header_required_bytes_def header_bytes32_from_slice_def
    header_optional_bytes_def result_simps hdr_keys u64_try_from_def)

lemma pair_parse: "parse_barrier_update plain_ext pair_wire refresh_header 2 = Inr (Some (server_update plain_update pair_cover))"
  using two_power
  by (simp add: parse_barrier_update_def refresh_fields pair_wire_def result_simps parse_deterministic_cbor_def
    plain_update_def pair_cover_def plain_cover_def checked_mul_def checked_sub_def path_shape_def checked_add_def saturating_sub_def
    hint_shape_def keys_shape_def ciphertexts_shape_def vec_to_32_def server_update_def)

lemma pair_group_simps [simp]:
  "gs_n_max pair_group = 2" "gs_barrier_initialized pair_group" "gs_barrier_version pair_group = 3"
  "gs_barrier_roots_hash pair_group = plain_digest" "gs_kem_tree_hash_after pair_group = plain_digest"
  "gs_barrier_pk_entries pair_group = [[4], [5], [6]]" "gs_barrier_hash_cache pair_group = None"
  "gs_leaf_slot_leases pair_group = [(sample_leaf 1, small_lease), (sample_leaf 2, \<lparr>sl_index = 1, sl_generation = 0\<rparr>)]"
  "gs_leaf_device_pk pair_group = [(sample_leaf 1, [5]), (sample_leaf 2, [6])]" "gs_join_history pair_group = []" "gs_revoked_slot_leases pair_group = []" "1 \<le> gs_max_barrier_update_bytes pair_group"
  by (simp_all add: pair_group_def group_state_default_def barrier_group_default_def)

lemma pair_tree: "compute_barrier_tree_hash plain_ext 2 [a, b, c] = Inr plain_digest"
  by (simp add: compute_barrier_tree_hash_def compute_barrier_tree_hash_recursive.simps tree_len_def checked_mul_def
      checked_sub_def ok_or_def ensure_def slice_get_def plain_h_l validate_label_def as_bytes_def child_index_def usize_max_def)

lemma pair_ok: "server_tree_ok plain_ext pair_group"
  by (simp add: server_tree_ok_def max_one pair_tree)

lemma pair_members: "ascending {sample_leaf 1, sample_leaf 2} = [sample_leaf 1, sample_leaf 2]"
  by (simp add: ascending_def sorted_list_of_set_insert_remove)

lemma pair_slots:
  "ensure_distinct_active_slot_indices pair_group = Inr ()" "ensure_join_slot_indices_available pair_group [] = Inr ()"
  by (simp_all add: ensure_distinct_active_slot_indices_def ensure_join_slot_indices_available_def active_cover_leaf_allocations_def
    latest_snapshot_def pair_group_def pair_members result_simps checked_insert_unique_def require_active_slot_lease_def small_lease_def)

lemma pair_base: "build_snapshot_base pair_group 2 1 3 [] {} = Inr None"
  by (simp add: build_snapshot_base_def can_borrow_def)

lemma pair_updater: "check_updater pair_group refresh_header no_delta (Some 1) 0 = Inr (sample_leaf 1, None)"
  by (simp add: check_updater_def refresh_fields result_simps author_leaves_def require_active_slot_lease_def
    committed_revoked_slot_indices_def small_lease_def)

lemma pair_pairs: "collect_expected_pairs [[4], [5], [6]] [1, 0] 2 = Inr [(0, 2)]"
  by (simp add: collect_expected_pairs_def sibling_node_def collect_resolution_nodes.simps saturating_sub_def slice_get_def result_simps)

lemma pair_after:
  "\<exists>cache. update_hash_after plain_ext pair_group 2 3 True plain_digest Map.empty [(0, ek)] [ek, [5], [6]] = Inr (plain_digest, cache)"
proof -
  let ?run = "compute_barrier_tree_hash_with_changes plain_ext 2 [ek, [5], [6]] {0} None Map.empty"
  have "[ek, [5], [6]] ! i = [[4], [5], [6]] ! i" if "i < length [ek, [5], [6]]" "i \<notin> {0}" for i
    using that by (cases i) auto
  from with_changes_hash [of "[[4], [5], [6]]" "[ek, [5], [6]]" "{0}" None plain_ext 2 Map.empty "fst ?run" "snd ?run", OF _ this]
  have "tryE (fst ?run) (\<lambda>(root, _). Inr root) = Inr plain_digest"
    by (simp add: cache_ok_def pair_tree)
  then obtain a where "fst ?run = Inr (plain_digest, a)"
    by (auto simp: result_simps)
  then show ?thesis
    by (cases ?run) (simp add: update_hash_after_def)
qed

lemma pair_verified:
  "verify_barrier_update_pairs_and_targets plain_ext [[4], [5], [6]] (server_update plain_update pair_cover) 2 = Inr ()"
  by (simp add: verify_barrier_update_pairs_and_targets_def server_update_def plain_update_def pair_cover_def plain_cover_def
    pair_pairs result_simps slice_get_def compute_barrier_pkhash_def plain_h_l validate_label_def as_bytes_def)
   (simp add: plain_digest_def)

lemma pair_chain:
  "\<exists>out. check_update_chain plain_ext pair_group refresh_header (server_update plain_update pair_cover) 2 3 None = Inr out \<and>
     vo_parsed out = server_update plain_update pair_cover \<and> vo_snapshot_pre out = [[4], [5], [6]]"
proof -
  obtain cache where
    "update_hash_after plain_ext pair_group 2 3 True plain_digest Map.empty [(0, replicate 1184 5)] [replicate 1184 5, [5], [6]] =
       Inr (plain_digest, cache)"
    using pair_after by blast
  then show ?thesis
    using pair_verified by (simp add: check_update_chain_def update_hash_before_def refresh_fields result_simps server_revocation_roots_hash_def plain_h_l
      validate_label_def as_bytes_def)
     (simp add: server_update_def plain_update_def plain_cover_def pair_cover_def)
qed

lemma pair_valid:
  obtains out where "validate_barrier_update_against_roster plain_ext pair_wire pair_group refresh_header no_delta = Inr (Some out)"
    "vo_parsed out = server_update plain_update pair_cover" "vo_snapshot_pre out = [[4], [5], [6]]"
proof -
  let ?p = "server_update plain_update pair_cover"
  have p: "su_prev_barrier_version ?p = 3" "su_updater_slot_index ?p = 0" "su_revocation_roots_hash ?p = plain_digest"
    by (simp_all add: server_update_def plain_update_def pair_cover_def plain_cover_def)
  have "update_join_set pair_group 3 refresh_header no_delta = Inr []"
    by (simp add: update_join_set_def result_simps no_delta_def)
  moreover have "check_history_commitment pair_group None = Inr ()"
    by (simp add: check_history_commitment_def pair_group_def group_state_default_def history_commitment_default_def)
  moreover have "check_reason pair_group ?p (Some 1) (sample_leaf 1) None False False = Inr ()"
    by (simp add: check_reason_def p result_simps)
  moreover have "tree_len 2 = Some 3"
    by (simp add: tree_len_def checked_mul_def checked_sub_def)
  ultimately have "validate_barrier_update_against_roster plain_ext pair_wire pair_group refresh_header no_delta =
      tryE (check_update_chain plain_ext pair_group refresh_header ?p 2 3 None) (\<lambda>out. Inr (Some out))"
    using pair_group_simps(12) pair_chain
    by (auto simp: validate_barrier_update_against_roster_def validate_parsed_update_def refresh_fields result_simps pair_parse
      p pair_slots pair_base [simplified] pair_updater Let_def max_one committed_revoked_slot_indices_def)
  with pair_chain that show thesis
    by (auto simp: result_simps)
qed

theorem update_parsers_agree_witness:
  "\<exists>q. parse_barrier_update_from_header plain_ext (sw_update pair_wire) refresh_header 2 10 = Inr q \<and> pb_tree_size q = 2"
proof -
  have "\<exists>q. parse_barrier_update_from_header plain_ext (sw_update pair_wire) refresh_header 2 10 = Inr q"
    using update_parsers_agree [of plain_ext pair_wire refresh_header 2 10] pair_parse by (simp add: refresh_fields)
  then show ?thesis
    using update_parsers_agree [of plain_ext pair_wire refresh_header 2 10] pair_parse
    by (auto simp: server_update_def plain_update_def)
qed

theorem validated_update_chains_witness:
  "\<exists>out. server_tree_ok plain_ext (adopt_update out pair_group) \<and> su_kem_tree_hash_after (vo_parsed out) = plain_digest"
proof -
  obtain out where "validate_barrier_update_against_roster plain_ext pair_wire pair_group refresh_header no_delta = Inr (Some out)"
    "vo_parsed out = server_update plain_update pair_cover"
    by (rule pair_valid)
  with validated_update_chains [OF this(1) pair_ok] show ?thesis
    by (auto simp: server_update_def plain_update_def)
qed

theorem validated_update_reaches_members_witness:
  "\<exists>!c. c \<in> set (su_node_ciphertexts (server_update plain_update pair_cover)) \<and> below (unat (pn_target_node c)) 2"
proof -
  obtain out where out: "validate_barrier_update_against_roster plain_ext pair_wire pair_group refresh_header no_delta = Inr (Some out)"
    "vo_parsed out = server_update plain_update pair_cover" "vo_snapshot_pre out = [[4], [5], [6]]"
    by (rule pair_valid)
  have "occupied [[4], [5], [6 :: u8]] 1 2"
    by (simp add: occupied_def)
  moreover have "su_updater_slot_index (vo_parsed out) = 0"
    by (simp add: out(2) server_update_def pair_cover_def plain_cover_def)
  ultimately show ?thesis
    using validated_update_reaches_members [OF out(1)] unfolding out(2,3) by simp
qed

end
