(* ===== verification/HistoryAuthority.thy ===== *)
theory HistoryAuthority
  imports ServerUpdate
begin

text \<open>
  The history authority of the server (\<open>cityg-server/src/lib.rs\<close> and \<open>history_authority_state.rs\<close>): the attestation of the current
  history commitment, the receipt with which the author of an update confirms what it has verified, the witness with which the
  authority confirms it, and the checks that the server makes on the three header fields.  ML-DSA signing and the decoders of
  the two wire structures are parameters.

  The lemmas show what a header that passes the checks carries, and that a witness the authority issues for an update passes them.
\<close>

section \<open>Authorities\<close>

datatype HistoryAuthorityMode = Disabled | Local | Global

fun extension_id :: "HistoryAuthorityMode \<Rightarrow> string" where
  "extension_id Disabled = ''''"
| "extension_id Local = ''local-history-authority-v1''"
| "extension_id Global = ''global-history-authority-v1''"

fun finality_kind :: "HistoryAuthorityMode \<Rightarrow> string" where
  "finality_kind Global = ''global-append-only''"
| "finality_kind _ = ''local-append-only''"

definition requires_full_verification_receipt :: "HistoryAuthorityMode \<Rightarrow> bool" where
  "requires_full_verification_receipt mode \<longleftrightarrow> mode \<noteq> Disabled"

definition requires_full_verification_witness :: "HistoryAuthorityMode \<Rightarrow> bool" where
  "requires_full_verification_witness mode \<longleftrightarrow> mode = Global"

definition normalize_history_authority_receipt_requirement :: "HistoryAuthorityMode \<Rightarrow> bool \<Rightarrow> bool" where
  "normalize_history_authority_receipt_requirement mode requested \<longleftrightarrow>
     (if requires_full_verification_receipt mode then True else requested)"

record HistoryAuthorityDescriptor =
  hd_scope_id :: hash32
  hd_public_key :: bytes

record HistoryAuthorityState =
  ha_mode :: HistoryAuthorityMode
  ha_descriptor :: HistoryAuthorityDescriptor
  ha_secret_key :: bytes
  ha_require_receipt :: bool

section \<open>Receipts and witnesses\<close>

record FullVerificationReceiptWire =
  fr_author_leaf_id :: bytes
  fr_barrier_update_reason :: u64
  fr_updater_slot_index :: u64
  fr_updater_slot_generation :: u64
  fr_signature :: bytes

text \<open>What a witness states; the wire structure is the statement with a signature.\<close>
record FullVerificationWitness =
  fw_scope_id :: bytes
  fw_history_authority_extension :: string
  fw_gid :: bytes
  fw_history_view_id :: bytes
  fw_history_commitment_id :: bytes
  fw_prev_history_commitment_id :: bytes
  fw_history_seq :: u64
  fw_barrier_version :: u64
  fw_kem_tree_hash_after :: bytes
  fw_author_leaf_id :: bytes
  fw_barrier_update_reason :: u64
  fw_updater_slot_index :: u64
  fw_updater_slot_generation :: u64
  fw_barrier_update_digest :: bytes
  fw_joins_digest :: bytes
  fw_revoked_digest :: bytes
  fw_manifest_digest :: bytes

record FullVerificationWitnessWire =
  fw_statement :: FullVerificationWitness
  fw_signature :: bytes

text \<open>Signing with a secret key, which fails when the key is invalid, and the decoders.\<close>
record AuthorityExt =
  ae_sign :: "bytes \<Rightarrow> bytes \<Rightarrow> bytes option"
  ae_receipt :: "bytes \<Rightarrow> FullVerificationReceiptWire option"
  ae_witness :: "bytes \<Rightarrow> FullVerificationWitnessWire option"

definition sign_history_authority_message :: "AuthorityExt \<Rightarrow> HistoryAuthorityState \<Rightarrow> bytes \<Rightarrow> CityGError + bytes" where
  "sign_history_authority_message A state payload =
     ok_or (CgInvalidInput ''invalid history authority secret key'') (ae_sign A (ha_secret_key state) payload)"

definition verify_history_authority_signature :: "Ext \<Rightarrow> HistoryAuthorityDescriptor \<Rightarrow> bytes \<Rightarrow> bytes \<Rightarrow> CityGError + unit" where
  "verify_history_authority_signature E descriptor payload signature =
     map_err (\<lambda>_. CgInvalidInput ''history authority signature verification failed'')
       (verify_cityg_pop_signature E (hd_public_key descriptor) payload signature)"

definition creceipt :: "FullVerificationReceiptWire \<Rightarrow> cbor" where
  "creceipt r = cstruct [(''author_leaf_id'', CBytes (fr_author_leaf_id r)), (''barrier_update_reason'', cu64 (fr_barrier_update_reason r)),
     (''updater_slot_index'', cu64 (fr_updater_slot_index r)), (''updater_slot_generation'', cu64 (fr_updater_slot_generation r)),
     (''signature'', CBytes (fr_signature r))]"

definition witness_fields :: "FullVerificationWitness \<Rightarrow> (string \<times> cbor) list" where
  "witness_fields w =
     [(''scope_id'', CBytes (fw_scope_id w)), (''history_authority_extension'', CText (fw_history_authority_extension w)),
      (''gid'', CBytes (fw_gid w)), (''history_view_id'', CBytes (fw_history_view_id w)),
      (''history_commitment_id'', CBytes (fw_history_commitment_id w)),
      (''prev_history_commitment_id'', CBytes (fw_prev_history_commitment_id w)), (''history_seq'', cu64 (fw_history_seq w)),
      (''barrier_version'', cu64 (fw_barrier_version w)), (''kem_tree_hash_after'', CBytes (fw_kem_tree_hash_after w)),
      (''author_leaf_id'', CBytes (fw_author_leaf_id w)), (''barrier_update_reason'', cu64 (fw_barrier_update_reason w)),
      (''updater_slot_index'', cu64 (fw_updater_slot_index w)), (''updater_slot_generation'', cu64 (fw_updater_slot_generation w)),
      (''barrier_update_digest'', CBytes (fw_barrier_update_digest w)), (''joins_digest'', CBytes (fw_joins_digest w)),
      (''revoked_digest'', CBytes (fw_revoked_digest w)), (''deployment_profile_manifest_digest'', CBytes (fw_manifest_digest w))]"

definition cwitness :: "FullVerificationWitnessWire \<Rightarrow> cbor" where
  "cwitness w = cstruct (witness_fields (fw_statement w) @ [(''signature'', CBytes (fw_signature w))])"

definition cwitness_payload :: "FullVerificationWitness \<Rightarrow> cbor" where
  "cwitness_payload w = cstruct ((''label'', CText ''cityg/full-verification-witness-v1'') # witness_fields w)"

definition full_verification_receipt_payload ::
  "Ext \<Rightarrow> hash32 \<Rightarrow> hash32 \<Rightarrow> u64 \<Rightarrow> u64 \<Rightarrow> u64 \<Rightarrow> bytes \<Rightarrow> bytes \<Rightarrow> bytes \<Rightarrow> CityGError + bytes" where
  "full_verification_receipt_payload E gid author_leaf_id reason slot_index slot_generation history_commitment attestation update =
     map_err CgMsphf (to_cbor_vec E (cstruct [(''label'', CText ''cityg/full-verification-receipt-v1''), (''gid'', CBytes gid),
       (''author_leaf_id'', CBytes author_leaf_id), (''barrier_update_reason'', cu64 reason), (''updater_slot_index'', cu64 slot_index),
       (''updater_slot_generation'', cu64 slot_generation), (''barrier_history_commitment'', CBytes history_commitment),
       (''global_history_attestation'', CBytes attestation), (''barrier_update'', CBytes update)]))"

definition compute_full_verification_barrier_update_digest :: "Ext \<Rightarrow> bytes \<Rightarrow> CityGError + hash32" where
  "compute_full_verification_barrier_update_digest E update =
     map_err CgMsphf (h_l E ''cityg/full-verification-witness/barrier-update'' (cstruct [(''barrier_update'', CBytes update)]))"

section \<open>Issuing a witness\<close>

record BarrierRevokedOccupancyRecord =
  ro_slot_index :: u32
  ro_slot_generation :: u64

record BarrierJoinOccupancyRecord =
  jo_device_pk :: bytes
  jo_slot_index :: u32
  jo_slot_generation :: u64
  jo_ek_leaf :: bytes

text \<open>A vector of bytes without the byte-string annotation is an array of integers.\<close>
definition cjoin_occupancy :: "BarrierJoinOccupancyRecord \<Rightarrow> cbor" where
  "cjoin_occupancy r = cstruct [(''device_pk'', CArray (map (\<lambda>b. CInt (uint b)) (jo_device_pk r))), (''slot_index'', CInt (uint (jo_slot_index r))),
     (''slot_generation'', cu64 (jo_slot_generation r)), (''ek_leaf'', CArray (map (\<lambda>b. CInt (uint b)) (jo_ek_leaf r)))]"

definition crevoked_occupancy :: "BarrierRevokedOccupancyRecord \<Rightarrow> cbor" where
  "crevoked_occupancy r = cstruct [(''slot_index'', CInt (uint (ro_slot_index r))), (''slot_generation'', cu64 (ro_slot_generation r))]"

definition compute_full_verification_joins_digest :: "Ext \<Rightarrow> u64 \<Rightarrow> BarrierJoinOccupancyRecord list \<Rightarrow> CityGError + hash32" where
  "compute_full_verification_joins_digest E prev_barrier_version rs =
     map_err CgMsphf (h_l E ''cityg/full-verification-witness/joins''
       (cstruct [(''prev_barrier_version'', cu64 prev_barrier_version), (''records'', CArray (map cjoin_occupancy rs))]))"

definition compute_full_verification_revoked_digest :: "Ext \<Rightarrow> hash32 \<Rightarrow> BarrierRevokedOccupancyRecord list \<Rightarrow> CityGError + hash32" where
  "compute_full_verification_revoked_digest E roots_hash rs =
     map_err CgMsphf (h_l E ''cityg/full-verification-witness/revoked''
       (cstruct [(''revocation_roots_hash'', CBytes roots_hash), (''records'', CArray (map crevoked_occupancy rs))]))"

definition compute_manifest_digest :: "Ext \<Rightarrow> bytes \<Rightarrow> CityGError + hash32" where
  "compute_manifest_digest E manifest =
     map_err CgMsphf (h_l E ''cityg/full-verification-witness/deployment-profile-manifest''
       (cstruct [(''deployment_profile_manifest'', CBytes manifest)]))"

text \<open>The statement with its three digests, and the signed wire structure.\<close>
definition full_verification_statement ::
  "Ext \<Rightarrow> HistoryAuthorityState \<Rightarrow> hash32 \<Rightarrow> HistoryCommitment \<Rightarrow> u64 \<Rightarrow> hash32 \<Rightarrow> hash32 \<Rightarrow> u64 \<Rightarrow> u64 \<Rightarrow> u64 \<Rightarrow> bytes \<Rightarrow>
     u64 \<Rightarrow> BarrierJoinOccupancyRecord list \<Rightarrow> hash32 \<Rightarrow> BarrierRevokedOccupancyRecord list \<Rightarrow> bytes \<Rightarrow> CityGError + FullVerificationWitness" where
  "full_verification_statement E state gid c barrier_version kem_tree_hash_after author_leaf_id reason slot_index slot_generation
     update prev_version joins roots_hash revoked manifest =
     tryE (compute_full_verification_barrier_update_digest E update) (\<lambda>update_digest.
     tryE (compute_full_verification_joins_digest E prev_version joins) (\<lambda>joins_digest.
     tryE (compute_full_verification_revoked_digest E roots_hash revoked) (\<lambda>revoked_digest.
     tryE (compute_manifest_digest E manifest) (\<lambda>manifest_digest.
     Inr \<lparr>fw_scope_id = hd_scope_id (ha_descriptor state), fw_history_authority_extension = extension_id (ha_mode state),
       fw_gid = gid, fw_history_view_id = hc_view_id c, fw_history_commitment_id = hc_commitment_id c,
       fw_prev_history_commitment_id = hc_prev_commitment_id c, fw_history_seq = hc_seq c, fw_barrier_version = barrier_version,
       fw_kem_tree_hash_after = kem_tree_hash_after, fw_author_leaf_id = author_leaf_id, fw_barrier_update_reason = reason,
       fw_updater_slot_index = slot_index, fw_updater_slot_generation = slot_generation, fw_barrier_update_digest = update_digest,
       fw_joins_digest = joins_digest, fw_revoked_digest = revoked_digest, fw_manifest_digest = manifest_digest\<rparr>))))"

definition encode_full_verification_witness ::
  "Ext \<Rightarrow> AuthorityExt \<Rightarrow> HistoryAuthorityState \<Rightarrow> FullVerificationWitness \<Rightarrow> CityGError + FullVerificationWitnessWire \<times> bytes" where
  "encode_full_verification_witness E A state w =
     tryE (map_err CgMsphf (to_cbor_vec E (cwitness_payload w))) (\<lambda>payload.
     tryE (sign_history_authority_message A state payload) (\<lambda>signature.
     let wire = \<lparr>fw_statement = w, fw_signature = signature\<rparr> in
     tryE (map_err CgMsphf (to_cbor_vec E (cwitness wire))) (\<lambda>raw. Inr (wire, raw))))"

section \<open>Attestations\<close>

definition global_history_parent_attestation_id :: "Ext \<Rightarrow> hash32 \<Rightarrow> hash32 \<Rightarrow> hash32 \<Rightarrow> CityGError + hash32" where
  "global_history_parent_attestation_id E scope_id gid prev =
     (if prev = zero_hash then Inr zero_hash
      else map_err CgMsphf (h_l E ''barrier/global-history/parent-attestation'' (CArray [CBytes scope_id, CBytes gid, CBytes prev])))"

text \<open>The fields of an attestation, which the signed payload has after its label and the wire structure before the signature.\<close>
definition attestation_fields ::
  "HistoryAuthorityState \<Rightarrow> hash32 \<Rightarrow> HistoryCommitment \<Rightarrow> u64 \<Rightarrow> hash32 \<Rightarrow> hash32 \<Rightarrow> cbor list" where
  "attestation_fields state gid c barrier_version kem_tree_hash_after parent =
     [CBytes (hd_scope_id (ha_descriptor state)), CBytes gid, CBytes (hc_view_id c), CBytes (hc_commitment_id c),
      CBytes (hc_prev_commitment_id c), cu64 (hc_seq c), cu64 barrier_version, CBytes kem_tree_hash_after, CBytes parent,
      CText (finality_kind (ha_mode state))]"

definition encode_global_history_attestation ::
  "Ext \<Rightarrow> AuthorityExt \<Rightarrow> HistoryAuthorityState \<Rightarrow> hash32 \<Rightarrow> HistoryCommitment \<Rightarrow> u64 \<Rightarrow> hash32 \<Rightarrow> CityGError + bytes" where
  "encode_global_history_attestation E A state gid c barrier_version kem_tree_hash_after =
     tryE (global_history_parent_attestation_id E (hd_scope_id (ha_descriptor state)) gid (hc_prev_commitment_id c)) (\<lambda>parent.
     let fields = attestation_fields state gid c barrier_version kem_tree_hash_after parent in
     tryE (map_err CgMsphf (to_cbor_vec E (CArray (CText ''cityg/global-history-attestation-v1'' # fields)))) (\<lambda>payload.
     tryE (sign_history_authority_message A state payload) (\<lambda>signature.
     map_err CgMsphf (to_cbor_vec E (CArray (fields @ [CBytes signature]))))))"

section \<open>The checks on a header\<close>

definition updater_invalid :: CityGError where
  "updater_invalid = freezing FREEZE_BARRIER_UPDATER_INVALID"

definition unique_author_leaf_for_pop_pk :: "GroupState \<Rightarrow> bytes \<Rightarrow> CityGError + hash32" where
  "unique_author_leaf_for_pop_pk st author_pop_pk =
     (case author_leaves st author_pop_pk of [leaf] \<Rightarrow> Inr leaf | _ \<Rightarrow> Inl updater_invalid)"

definition optional_raw :: "header \<Rightarrow> u64 \<Rightarrow> CityGError + bytes option" where
  "optional_raw h key = (case bt_get h key of Some (CBytes raw) \<Rightarrow> Inr (Some raw) | Some _ \<Rightarrow> Inl update_malformed | None \<Rightarrow> Inr None)"

definition expected_updater_lease :: "GroupState \<Rightarrow> hash32 \<Rightarrow> u64 \<Rightarrow> u64 \<Rightarrow> CityGError + SlotLease" where
  "expected_updater_lease st author_leaf_id reason updater_slot_index =
     (if reason = 1
      then ok_or updater_invalid (find (\<lambda>lease. ucast (sl_index lease) = updater_slot_index) (map snd (gs_leaf_slot_leases st)))
      else require_pending_or_active_slot_lease st author_leaf_id)"

definition parse_full_verification_receipt ::
  "Ext \<Rightarrow> AuthorityExt \<Rightarrow> bytes \<Rightarrow> CityGError + hash32 \<times> u64 \<times> u64 \<times> u64 \<times> bytes" where
  "parse_full_verification_receipt E A raw =
     tryE (parse_deterministic_cbor E (ae_receipt A) creceipt raw) (\<lambda>r.
     tryE (vec_to_32 (fr_author_leaf_id r)) (\<lambda>leaf.
     Inr (leaf, fr_barrier_update_reason r, fr_updater_slot_index r, fr_updater_slot_generation r, fr_signature r)))"

text \<open>What both kinds of evidence are checked against.\<close>
record EvidenceScope =
  es_gid :: hash32
  es_author_leaf_id :: hash32
  es_author_pop_pk :: bytes
  es_reason :: u64
  es_parsed :: ServerBarrierUpdate
  es_lease :: SlotLease
  es_raw_history_commitment :: bytes
  es_raw_attestation :: bytes
  es_raw_update :: bytes

definition check_receipt :: "Ext \<Rightarrow> AuthorityExt \<Rightarrow> EvidenceScope \<Rightarrow> bytes \<Rightarrow> CityGError + unit" where
  "check_receipt E A s raw =
     tryE (parse_full_verification_receipt E A raw) (\<lambda>(leaf, reason, slot_index, slot_generation, signature).
     tryE (ensure (leaf = es_author_leaf_id s \<and> reason = es_reason s \<and> slot_index = su_updater_slot_index (es_parsed s) \<and>
       su_updater_slot_generation (es_parsed s) = sl_generation (es_lease s) \<and> slot_generation = sl_generation (es_lease s))
       updater_invalid) (\<lambda>_.
     tryE (full_verification_receipt_payload E (es_gid s) (es_author_leaf_id s) (es_reason s) (su_updater_slot_index (es_parsed s))
       (sl_generation (es_lease s)) (es_raw_history_commitment s) (es_raw_attestation s) (es_raw_update s)) (\<lambda>payload.
     map_err (\<lambda>_. updater_invalid) (verify_cityg_pop_signature E (es_author_pop_pk s) payload signature))))"

text \<open>The statement that a witness must make, but for the three digests that it chooses.\<close>
definition expected_statement ::
  "HistoryAuthorityState \<Rightarrow> GroupState \<Rightarrow> EvidenceScope \<Rightarrow> hash32 \<Rightarrow> bytes \<Rightarrow> bytes \<Rightarrow> bytes \<Rightarrow> FullVerificationWitness" where
  "expected_statement authority st s update_digest joins_digest revoked_digest manifest_digest =
     (let c = gs_current_history_commitment st in
      \<lparr>fw_scope_id = hd_scope_id (ha_descriptor authority), fw_history_authority_extension = extension_id (ha_mode authority),
       fw_gid = es_gid s, fw_history_view_id = hc_view_id c, fw_history_commitment_id = hc_commitment_id c,
       fw_prev_history_commitment_id = hc_prev_commitment_id c, fw_history_seq = hc_seq c, fw_barrier_version = gs_barrier_version st,
       fw_kem_tree_hash_after = gs_kem_tree_hash_after st, fw_author_leaf_id = es_author_leaf_id s,
       fw_barrier_update_reason = es_reason s, fw_updater_slot_index = su_updater_slot_index (es_parsed s),
       fw_updater_slot_generation = sl_generation (es_lease s), fw_barrier_update_digest = update_digest,
       fw_joins_digest = joins_digest, fw_revoked_digest = revoked_digest, fw_manifest_digest = manifest_digest\<rparr>)"

definition check_witness :: "Ext \<Rightarrow> AuthorityExt \<Rightarrow> HistoryAuthorityState \<Rightarrow> GroupState \<Rightarrow> EvidenceScope \<Rightarrow> bytes \<Rightarrow> CityGError + unit" where
  "check_witness E A authority st s raw =
     tryE (parse_deterministic_cbor E (ae_witness A) cwitness raw) (\<lambda>wire.
     let w = fw_statement wire in
     tryE (mapE vec_to_32 [fw_scope_id w, fw_gid w, fw_history_view_id w, fw_history_commitment_id w, fw_prev_history_commitment_id w,
       fw_kem_tree_hash_after w, fw_author_leaf_id w, fw_barrier_update_digest w, fw_joins_digest w, fw_revoked_digest w,
       fw_manifest_digest w]) (\<lambda>_.
     tryE (compute_full_verification_barrier_update_digest E (es_raw_update s)) (\<lambda>update_digest.
     let expected = expected_statement authority st s update_digest (fw_joins_digest w) (fw_revoked_digest w) (fw_manifest_digest w) in
     tryE (ensure (w = expected \<and> su_updater_slot_generation (es_parsed s) = sl_generation (es_lease s)) updater_invalid) (\<lambda>_.
     tryE (map_err CgMsphf (to_cbor_vec E (cwitness_payload expected))) (\<lambda>payload.
     map_err (\<lambda>_. updater_invalid)
       (verify_history_authority_signature E (ha_descriptor authority) payload (fw_signature wire)))))))"

definition check_evidence ::
  "Ext \<Rightarrow> AuthorityExt \<Rightarrow> HistoryAuthorityState \<Rightarrow> GroupState \<Rightarrow> EvidenceScope \<Rightarrow> bool \<Rightarrow> bytes option \<Rightarrow> bytes option \<Rightarrow>
     CityGError + unit" where
  "check_evidence E A authority st s has_witness raw_receipt raw_witness =
     tryE (ensure (\<not> (ha_require_receipt authority \<and> raw_receipt = None)) updater_invalid) (\<lambda>_.
     tryE (ensure (\<not> (has_witness \<and> es_reason s \<noteq> 0 \<and> es_reason s \<noteq> 1)) update_malformed) (\<lambda>_.
     tryE (ensure (\<not> (requires_full_verification_witness (ha_mode authority) \<and> (es_reason s = 0 \<or> es_reason s = 1) \<and>
       raw_witness = None)) updater_invalid) (\<lambda>_.
     tryE (case raw_receipt of None \<Rightarrow> Inr () | Some raw \<Rightarrow> check_receipt E A s raw) (\<lambda>_.
     case raw_witness of None \<Rightarrow> Inr () | Some raw \<Rightarrow> check_witness E A authority st s raw))))"

definition validate_history_authority_headers ::
  "Ext \<Rightarrow> ServerWire \<Rightarrow> AuthorityExt \<Rightarrow> HistoryAuthorityState option \<Rightarrow> hash32 \<Rightarrow> GroupState \<Rightarrow> header \<Rightarrow> CityGError + unit" where
  "validate_history_authority_headers E W A authority gid st h =
     tryE (server_update_reason h) (\<lambda>reason.
     let evidence = has_key h HDR_BARRIER_FULL_VERIFICATION_RECEIPT \<or> has_key h HDR_BARRIER_GLOBAL_HISTORY_ATTESTATION \<or>
       has_key h HDR_BARRIER_FULL_VERIFICATION_WITNESS in
     case (reason, authority) of
       (Some reason, Some authority) \<Rightarrow>
         tryE (ok_or update_malformed (value_bytes h HDR_BARRIER_GLOBAL_HISTORY_ATTESTATION)) (\<lambda>raw_attestation.
         tryE (encode_global_history_attestation E A authority gid (gs_current_history_commitment st) (gs_barrier_version st)
           (gs_kem_tree_hash_after st)) (\<lambda>expected_attestation.
         tryE (ensure (raw_attestation = expected_attestation) (freezing FREEZE_BARRIER_TREE_SNAPSHOT_AUTH_FAILURE)) (\<lambda>_.
         tryE (ok_or update_malformed (value_bytes h HDR_BARRIER_HISTORY_COMMITMENT)) (\<lambda>raw_history_commitment.
         tryE (ok_or update_malformed (value_bytes h HDR_BARRIER_UPDATE)) (\<lambda>raw_update.
         tryE (ok_or updater_invalid (value_bytes h HDR_POP_PK)) (\<lambda>author_pop_pk.
         tryE (unique_author_leaf_for_pop_pk st author_pop_pk) (\<lambda>author_leaf_id.
         tryE (parse_barrier_update E W h (gs_n_max st)) (\<lambda>parsed.
         tryE (ok_or update_malformed parsed) (\<lambda>parsed.
         tryE (expected_updater_lease st author_leaf_id reason (su_updater_slot_index parsed)) (\<lambda>lease.
         let s = \<lparr>es_gid = gid, es_author_leaf_id = author_leaf_id, es_author_pop_pk = author_pop_pk, es_reason = reason,
           es_parsed = parsed, es_lease = lease, es_raw_history_commitment = raw_history_commitment,
           es_raw_attestation = raw_attestation, es_raw_update = raw_update\<rparr> in
         tryE (optional_raw h HDR_BARRIER_FULL_VERIFICATION_RECEIPT) (\<lambda>raw_receipt.
         tryE (optional_raw h HDR_BARRIER_FULL_VERIFICATION_WITNESS) (\<lambda>raw_witness.
         check_evidence E A authority st s (has_key h HDR_BARRIER_FULL_VERIFICATION_WITNESS) raw_receipt raw_witness))))))))))))
     | _ \<Rightarrow> ensure (\<not> evidence) update_malformed)"

section \<open>Which updates get a witness\<close>

fun apply_join_records_to_snapshot :: "nat \<Rightarrow> BarrierJoinOccupancyRecord list \<Rightarrow> bytes list \<Rightarrow> CityGError + bytes list" where
  "apply_join_records_to_snapshot leaf_base [] es = Inr es"
| "apply_join_records_to_snapshot leaf_base (r # rs) es =
     (let leaf_node = leaf_base + unat (jo_slot_index r) in
      tryE (ensure (leaf_node < length es) update_malformed) (\<lambda>_.
      apply_join_records_to_snapshot leaf_base rs (clear_barrier_path (es[leaf_node := jo_ek_leaf r]) leaf_node False)))"

fun apply_revoked_records_to_snapshot :: "nat \<Rightarrow> BarrierRevokedOccupancyRecord list \<Rightarrow> u32 set \<Rightarrow> bytes list \<Rightarrow> CityGError + bytes list" where
  "apply_revoked_records_to_snapshot leaf_base [] seen es = Inr es"
| "apply_revoked_records_to_snapshot leaf_base (r # rs) seen es =
     (if ro_slot_index r \<in> seen then apply_revoked_records_to_snapshot leaf_base rs seen es
      else let leaf_node = leaf_base + unat (ro_slot_index r) in
        tryE (ensure (leaf_node < length es) update_malformed) (\<lambda>_.
        apply_revoked_records_to_snapshot leaf_base rs (Set.insert (ro_slot_index r) seen) (clear_barrier_path es leaf_node True)))"

text \<open>What the author asks a witness for.\<close>
record WitnessRequest =
  wr_author_leaf_id :: hash32
  wr_reason :: u64
  wr_slot_index :: u64
  wr_slot_generation :: u64
  wr_update :: bytes
  wr_prev_version :: u64
  wr_joins :: "BarrierJoinOccupancyRecord list"
  wr_roots_hash :: hash32
  wr_revoked :: "BarrierRevokedOccupancyRecord list"
  wr_manifest :: bytes

definition validate_full_verification_witness_candidate ::
  "Ext \<Rightarrow> ServerWire \<Rightarrow> GroupState \<Rightarrow> HistoryCommitment \<Rightarrow> WitnessRequest \<Rightarrow> CityGError + unit" where
  "validate_full_verification_witness_candidate E W st c r =
     tryE (ensure (wr_reason r = 0 \<or> wr_reason r = 1) update_malformed) (\<lambda>_.
     tryE (ensure (gs_current_history_commitment st = c) (CgInvalidInput ''history commitment mismatch for full verification witness'')) (\<lambda>_.
     tryE (ensure (wr_prev_version r = gs_barrier_version st)
       (CgInvalidInput ''joins_prev_barrier_version mismatch for full verification witness'')) (\<lambda>_.
     tryE (ensure (\<not> (wr_author_leaf_id r \<in> gs_revoked st \<or> bt_get (gs_leaf_device_pk st) (wr_author_leaf_id r) = None)) updater_invalid) (\<lambda>_.
     tryE (map_err (\<lambda>_. updater_invalid) (require_pending_or_active_slot_lease st (wr_author_leaf_id r))) (\<lambda>lease.
     tryE (ensure (wr_slot_index r = ucast (sl_index lease) \<and> wr_slot_generation r = sl_generation lease) updater_invalid) (\<lambda>_.
     tryE (parse_barrier_update E W (bt_insert HDR_BARRIER_UPDATE_REASON (cu64 (wr_reason r))
       (bt_insert HDR_BARRIER_UPDATE (CBytes (wr_update r)) [])) (gs_n_max st)) (\<lambda>parsed.
     tryE (ok_or update_malformed parsed) (\<lambda>p.
     tryE (ensure (su_prev_barrier_version p = gs_barrier_version st \<and> su_updater_slot_index p = wr_slot_index r \<and>
       su_updater_slot_generation p = wr_slot_generation r \<and> su_revocation_roots_hash p = wr_roots_hash r) updater_invalid) (\<lambda>_.
     let revocation_changed = (wr_roots_hash r \<noteq> gs_barrier_roots_hash st); leaf_base = unat (saturating_sub (gs_n_max st) 1) in
     tryE (ensure (\<not> (revocation_changed \<and> wr_reason r \<noteq> 0) \<and> \<not> (\<not> revocation_changed \<and> wr_reason r \<noteq> 1)) updater_invalid) (\<lambda>_.
     tryE (build_pk_entries_view st) (\<lambda>es.
     tryE (apply_join_records_to_snapshot leaf_base (wr_joins r) es) (\<lambda>es.
     tryE (apply_revoked_records_to_snapshot leaf_base (wr_revoked r) {} es) (\<lambda>es.
     tryE (compute_barrier_tree_hash E (gs_n_max st) es) (\<lambda>before.
     tryE (ensure (before = su_kem_tree_hash_before p) (freezing FREEZE_BARRIER_TREE_HASH_CHAIN_FAILURE)) (\<lambda>_.
     tryE (verify_barrier_update_pairs_and_targets E es p (gs_n_max st)) (\<lambda>_.
     tryE (put_new_keys (su_new_public_keys p) es) (\<lambda>es.
     tryE (compute_barrier_tree_hash E (gs_n_max st) es) (\<lambda>after.
     ensure (after = su_kem_tree_hash_after p) (freezing FREEZE_BARRIER_TREE_HASH_CHAIN_FAILURE)))))))))))))))))))"

definition full_verification_witness_bytes ::
  "Ext \<Rightarrow> ServerWire \<Rightarrow> AuthorityExt \<Rightarrow> HistoryAuthorityState option \<Rightarrow> GroupState option \<Rightarrow> hash32 \<Rightarrow> HistoryCommitment \<Rightarrow> u64 \<Rightarrow> hash32 \<Rightarrow>
     WitnessRequest \<Rightarrow> CityGError + FullVerificationWitnessWire \<times> bytes" where
  "full_verification_witness_bytes E W A authority g gid c barrier_version kem_tree_hash_after r =
     tryE (ok_or (CgInvalidInput ''history authority unavailable for full verification witness'') authority) (\<lambda>authority.
     tryE (ok_or (CgInvalidInput ''group not found'') g) (\<lambda>st.
     tryE (ensure (gs_current_history_commitment st = c \<and> gs_barrier_version st = barrier_version \<and>
       gs_kem_tree_hash_after st = kem_tree_hash_after) (CgInvalidInput ''full verification witness state mismatch'')) (\<lambda>_.
     tryE (validate_full_verification_witness_candidate E W st c r) (\<lambda>_.
     tryE (full_verification_statement E authority gid c barrier_version kem_tree_hash_after (wr_author_leaf_id r) (wr_reason r)
       (wr_slot_index r) (wr_slot_generation r) (wr_update r) (wr_prev_version r) (wr_joins r) (wr_roots_hash r) (wr_revoked r)
       (wr_manifest r)) (\<lambda>statement.
     encode_full_verification_witness E A authority statement)))))"

section \<open>What the checks establish\<close>

text \<open>The author has signed what it verified; the authority has signed the statement on the update.\<close>
definition receipt_signed :: "Ext \<Rightarrow> EvidenceScope \<Rightarrow> bool" where
  "receipt_signed E s \<longleftrightarrow> su_updater_slot_generation (es_parsed s) = sl_generation (es_lease s) \<and>
     (\<exists>payload sig. full_verification_receipt_payload E (es_gid s) (es_author_leaf_id s) (es_reason s)
        (su_updater_slot_index (es_parsed s)) (sl_generation (es_lease s)) (es_raw_history_commitment s) (es_raw_attestation s)
        (es_raw_update s) = Inr payload \<and> verify_cityg_pop_signature E (es_author_pop_pk s) payload sig = Inr ())"

definition witness_signed :: "Ext \<Rightarrow> HistoryAuthorityState \<Rightarrow> GroupState \<Rightarrow> EvidenceScope \<Rightarrow> bool" where
  "witness_signed E authority st s \<longleftrightarrow> su_updater_slot_generation (es_parsed s) = sl_generation (es_lease s) \<and>
     (\<exists>d joins revoked manifest payload sig. compute_full_verification_barrier_update_digest E (es_raw_update s) = Inr d \<and>
        to_cbor_vec E (cwitness_payload (expected_statement authority st s d joins revoked manifest)) = Inr payload \<and>
        verify_cityg_pop_signature E (hd_public_key (ha_descriptor authority)) payload sig = Inr ())"

lemma receipt_checked: "check_receipt E A s raw = Inr () \<Longrightarrow> receipt_signed E s"
  by (auto simp: check_receipt_def receipt_signed_def result_simps)

lemma witness_checked: "check_witness E A authority st s raw = Inr () \<Longrightarrow> witness_signed E authority st s"
  unfolding check_witness_def witness_signed_def verify_history_authority_signature_def Let_def result_simps by auto metis

lemma evidence_checked:
  assumes "check_evidence E A authority st s has_witness receipt witness = Inr ()"
  shows "ha_require_receipt authority \<Longrightarrow> receipt_signed E s"
    "ha_mode authority = Global \<Longrightarrow> es_reason s = 0 \<or> es_reason s = 1 \<Longrightarrow> witness_signed E authority st s"
  using assms by (auto simp: check_evidence_def requires_full_verification_witness_def result_simps
      dest: receipt_checked witness_checked split: option.splits)

text \<open>C20: what the header of an update carries once it has passed the checks of a history authority.  The attestation is the one
  the authority signs for the group's current commitment, version and tree hash, and the author is the only holder of its key.
  If receipts are required, the author has signed the group, its leaf, the reason, the slot and its generation, the
  commitment, the attestation and the update.  For a global authority and reasons 0 and 1, the authority has signed the
  statement that names the current commitment, the author, the slot and the digest of the update.\<close>
theorem authority_header_evidence:
  assumes "validate_history_authority_headers E W A (Some authority) gid st h = Inr ()" "server_update_reason h = Inr (Some reason)"
  shows "\<exists>s. es_gid s = gid \<and> es_reason s = reason \<and>
    value_bytes h HDR_BARRIER_GLOBAL_HISTORY_ATTESTATION = Some (es_raw_attestation s) \<and>
    value_bytes h HDR_BARRIER_HISTORY_COMMITMENT = Some (es_raw_history_commitment s) \<and>
    value_bytes h HDR_BARRIER_UPDATE = Some (es_raw_update s) \<and> value_bytes h HDR_POP_PK = Some (es_author_pop_pk s) \<and>
    author_leaves st (es_author_pop_pk s) = [es_author_leaf_id s] \<and>
    parse_barrier_update E W h (gs_n_max st) = Inr (Some (es_parsed s)) \<and>
    expected_updater_lease st (es_author_leaf_id s) reason (su_updater_slot_index (es_parsed s)) = Inr (es_lease s) \<and>
    encode_global_history_attestation E A authority gid (gs_current_history_commitment st) (gs_barrier_version st)
      (gs_kem_tree_hash_after st) = Inr (es_raw_attestation s) \<and>
    (ha_require_receipt authority \<longrightarrow> receipt_signed E s) \<and>
    (ha_mode authority = Global \<and> (reason = 0 \<or> reason = 1) \<longrightarrow> witness_signed E authority st s)"
proof -
  obtain s has_witness receipt witness where s: "es_gid s = gid" "es_reason s = reason"
    "value_bytes h HDR_BARRIER_GLOBAL_HISTORY_ATTESTATION = Some (es_raw_attestation s)"
    "encode_global_history_attestation E A authority gid (gs_current_history_commitment st) (gs_barrier_version st)
       (gs_kem_tree_hash_after st) = Inr (es_raw_attestation s)"
    "value_bytes h HDR_BARRIER_HISTORY_COMMITMENT = Some (es_raw_history_commitment s)"
    "value_bytes h HDR_BARRIER_UPDATE = Some (es_raw_update s)" "value_bytes h HDR_POP_PK = Some (es_author_pop_pk s)"
    "unique_author_leaf_for_pop_pk st (es_author_pop_pk s) = Inr (es_author_leaf_id s)"
    "parse_barrier_update E W h (gs_n_max st) = Inr (Some (es_parsed s))"
    "expected_updater_lease st (es_author_leaf_id s) reason (su_updater_slot_index (es_parsed s)) = Inr (es_lease s)"
    and checked: "check_evidence E A authority st s has_witness receipt witness = Inr ()"
    using assms by (auto simp: validate_history_authority_headers_def result_simps Let_def) (metis EvidenceScope.select_convs)
  have "author_leaves st (es_author_pop_pk s) = [es_author_leaf_id s]"
    using s(8) by (auto simp: unique_author_leaf_for_pop_pk_def split: list.splits)
  with s evidence_checked [OF checked] show ?thesis
    by blast
qed

lemma candidate_lease:
  assumes "validate_full_verification_witness_candidate E W st c r = Inr ()"
  obtains lease where "pending_or_active st (wr_author_leaf_id r) = Some lease" "wr_slot_index r = ucast (sl_index lease)"
    "wr_slot_generation r = sl_generation lease"
  using assms unfolding validate_full_verification_witness_candidate_def require_pending_or_active_slot_lease_def result_simps by blast

lemma encoded_witness:
  assumes "encode_full_verification_witness E A authority x = Inr (w, raw)"
  shows "fw_statement w = x" "\<exists>payload. to_cbor_vec E (cwitness_payload x) = Inr payload \<and>
      ae_sign A (ha_secret_key authority) payload = Some (fw_signature w)" "to_cbor_vec E (cwitness w) = Inr raw"
  using assms by (auto simp: encode_full_verification_witness_def sign_history_authority_message_def result_simps Let_def)

lemma issued_statement:
  assumes "full_verification_witness_bytes E W A (Some authority) (Some st) gid c v k r = Inr (w, raw)"
  obtains x where "full_verification_statement E authority gid c v k (wr_author_leaf_id r) (wr_reason r) (wr_slot_index r)
      (wr_slot_generation r) (wr_update r) (wr_prev_version r) (wr_joins r) (wr_roots_hash r) (wr_revoked r) (wr_manifest r) = Inr x"
    "encode_full_verification_witness E A authority x = Inr (w, raw)" "validate_full_verification_witness_candidate E W st c r = Inr ()"
    "gs_current_history_commitment st = c" "gs_barrier_version st = v" "gs_kem_tree_hash_after st = k"
  using assms unfolding full_verification_witness_bytes_def result_simps by auto

text \<open>What ML-DSA promises of a key pair: a signature is accepted under the public key.\<close>
definition authority_signs :: "Ext \<Rightarrow> AuthorityExt \<Rightarrow> HistoryAuthorityState \<Rightarrow> bool" where
  "authority_signs E A authority \<longleftrightarrow> (\<forall>payload sig. ae_sign A (ha_secret_key authority) payload = Some sig \<longrightarrow>
     verify_cityg_pop_signature E (hd_public_key (ha_descriptor authority)) payload sig = Inr ())"

lemma issued_check:
  assumes issued: "full_verification_witness_bytes E W A (Some authority) (Some st) gid c v k r = Inr (w, raw)"
    and "authority_signs E A authority" "ae_witness A raw = Some w"
    and lengths: "\<And>ctx b. length (blake3_derive E ctx b) = 32" "length (hd_scope_id (ha_descriptor authority)) = 32" "length gid = 32"
      "length (hc_view_id c) = 32" "length (hc_commitment_id c) = 32" "length (hc_prev_commitment_id c) = 32" "length k = 32"
      "length (wr_author_leaf_id r) = 32"
    and scope: "es_gid s = gid" "es_author_leaf_id s = wr_author_leaf_id r" "es_reason s = wr_reason r" "es_raw_update s = wr_update r"
      "su_updater_slot_index (es_parsed s) = wr_slot_index r" "su_updater_slot_generation (es_parsed s) = wr_slot_generation r"
      "sl_generation (es_lease s) = wr_slot_generation r"
  shows "check_witness E A authority st s raw = Inr ()"
proof -
  obtain x where x: "full_verification_statement E authority gid c v k (wr_author_leaf_id r) (wr_reason r) (wr_slot_index r)
      (wr_slot_generation r) (wr_update r) (wr_prev_version r) (wr_joins r) (wr_roots_hash r) (wr_revoked r) (wr_manifest r) = Inr x"
    and enc: "encode_full_verification_witness E A authority x = Inr (w, raw)"
    and state: "gs_current_history_commitment st = c" "gs_barrier_version st = v" "gs_kem_tree_hash_after st = k"
    by (rule issued_statement [OF issued])
  note enc = encoded_witness [OF enc]
  obtain d where d: "compute_full_verification_barrier_update_digest E (es_raw_update s) = Inr d"
    and x': "x = expected_statement authority st s d (fw_joins_digest x) (fw_revoked_digest x) (fw_manifest_digest x)"
    and digests: "compute_full_verification_joins_digest E (wr_prev_version r) (wr_joins r) = Inr (fw_joins_digest x)"
      "compute_full_verification_revoked_digest E (wr_roots_hash r) (wr_revoked r) = Inr (fw_revoked_digest x)"
      "compute_manifest_digest E (wr_manifest r) = Inr (fw_manifest_digest x)"
    using x by (auto simp: full_verification_statement_def result_simps expected_statement_def scope state)
  have h: "length d = 32" if "map_err CgMsphf (h_l E l v) = Inr d" for l v d
    using that lengths(1) by (auto simp: h_l_def result_simps)
  have len: "length d = 32" "length (fw_joins_digest x) = 32" "length (fw_revoked_digest x) = 32" "length (fw_manifest_digest x) = 32"
    using d digests h by (auto simp: compute_full_verification_barrier_update_digest_def compute_full_verification_joins_digest_def
      compute_full_verification_revoked_digest_def compute_manifest_digest_def)
  have fields: "length (fw_scope_id x) = 32" "length (fw_gid x) = 32" "length (fw_history_view_id x) = 32"
    "length (fw_history_commitment_id x) = 32" "length (fw_prev_history_commitment_id x) = 32" "length (fw_kem_tree_hash_after x) = 32"
    "length (fw_author_leaf_id x) = 32" "length (fw_barrier_update_digest x) = 32"
    by (subst x', simp add: expected_statement_def lengths state scope len)+
  obtain payload where "to_cbor_vec E (cwitness_payload x) = Inr payload" "ae_sign A (ha_secret_key authority) payload = Some (fw_signature w)"
    using enc(2) by blast
  then show ?thesis
    using assms(2,3) enc(1,3) d x' len fields scope(6,7)
    by (simp add: check_witness_def parse_deterministic_cbor_def result_simps vec_to_32_def authority_signs_def
        verify_history_authority_signature_def Let_def)
qed

text \<open>C21: a witness that the server issues passes the server's own check.  For the group it was issued for, and an update with the
  same author, reason, bytes, slot and generation, the check of the witness succeeds, if signing matches verification, decoding
  gives back what was encoded, and the identifiers have their lengths.\<close>
theorem issued_witness_accepted:
  assumes issued: "full_verification_witness_bytes E W A (Some authority) (Some st) gid c v k r = Inr (w, raw)"
    and "authority_signs E A authority" "ae_witness A raw = Some w"
    and lengths: "\<And>ctx b. length (blake3_derive E ctx b) = 32" "length (hd_scope_id (ha_descriptor authority)) = 32" "length gid = 32"
      "length (hc_view_id c) = 32" "length (hc_commitment_id c) = 32" "length (hc_prev_commitment_id c) = 32" "length k = 32"
      "length (wr_author_leaf_id r) = 32"
    and scope: "es_gid s = gid" "es_author_leaf_id s = wr_author_leaf_id r" "es_reason s = wr_reason r" "es_raw_update s = wr_update r"
      "su_updater_slot_index (es_parsed s) = wr_slot_index r" "su_updater_slot_generation (es_parsed s) = wr_slot_generation r"
      "sl_generation (es_lease s) = wr_slot_generation r"
  shows "check_witness E A authority st s raw = Inr ()"
  using assms by (rule issued_check)

lemma widened_slot: "(ucast (a :: u32) :: u64) = ucast b \<longleftrightarrow> a = b"
proof -
  have "unat (ucast c :: u64) = unat c" for c :: u32
    using unsigned_less [of c, where ?'a = nat] by (simp add: unsigned_ucast_eq take_bit_nat_eq_self)
  then show ?thesis
    by (metis word_unat_eq_iff)
qed

lemma updater_foreign_slot:
  assumes "check_updater st h delta reason slot = Inr (leaf, token)" "bt_get (gs_leaf_slot_leases st) leaf = Some lease"
    and "slot \<noteq> ucast (sl_index lease)"
  shows "(\<exists>leaf' lease'. leaf' \<noteq> leaf \<and> bt_get (gs_leaf_slot_leases st) leaf' = Some lease' \<and> slot = ucast (sl_index lease')) \<and>
    has_key h HDR_BARRIER_FULL_VERIFICATION_WITNESS"
proof -
  obtain pk where "targeted_admin_revocation st h delta reason pk [leaf] slot"
    using assms by (auto simp: check_updater_def result_simps Let_def require_active_slot_lease_def length_Suc_conv
      mapE_eq_Inr list_all2_Cons1 split: if_splits)
  then show ?thesis
    by (auto simp: targeted_admin_revocation_def split: option.splits)
qed

text \<open>C31: no witness that the server issues admits an update whose updater slot is not the author's own.  The validation lets an
  admin update the path of the member it expels, as the server's expulsion tickets have it, only when the header has a witness;
  but the server issues witnesses for the author's own slot only, so the check of the witness fails.\<close>
theorem expulsion_never_witnessed:
  assumes "slot_inv st" "check_updater st h delta reason (su_updater_slot_index p) = Inr (leaf, token)"
    and "bt_get (gs_leaf_slot_leases st) leaf = Some lease" "su_updater_slot_index p \<noteq> ucast (sl_index lease)"
    and issued: "full_verification_witness_bytes E W A (Some authority) (Some st) gid c v k r = Inr (w, raw)" "ae_witness A raw = Some w"
    and s: "es_author_leaf_id s = leaf" "es_parsed s = p"
  shows "has_key h HDR_BARRIER_FULL_VERIFICATION_WITNESS \<and> check_witness E A authority st s raw \<noteq> Inr ()"
proof -
  obtain leaf' lease' where other: "leaf' \<noteq> leaf" "bt_get (gs_leaf_slot_leases st) leaf' = Some lease'"
    "su_updater_slot_index p = ucast (sl_index lease')" and key: "has_key h HDR_BARRIER_FULL_VERIFICATION_WITNESS"
    using updater_foreign_slot [OF assms(2-4)] by blast
  obtain x where x: "full_verification_statement E authority gid c v k (wr_author_leaf_id r) (wr_reason r) (wr_slot_index r)
      (wr_slot_generation r) (wr_update r) (wr_prev_version r) (wr_joins r) (wr_roots_hash r) (wr_revoked r) (wr_manifest r) = Inr x"
    and enc: "encode_full_verification_witness E A authority x = Inr (w, raw)"
    and cand: "validate_full_verification_witness_candidate E W st c r = Inr ()"
    by (rule issued_statement [OF issued(1)])
  obtain own where own: "pending_or_active st (wr_author_leaf_id r) = Some own" "wr_slot_index r = ucast (sl_index own)"
    by (rule candidate_lease [OF cand])
  have "fw_author_leaf_id x = wr_author_leaf_id r" "fw_updater_slot_index x = ucast (sl_index own)"
    using x own(2) by (auto simp: full_verification_statement_def result_simps)
  then have w: "fw_author_leaf_id (fw_statement w) = wr_author_leaf_id r" "fw_updater_slot_index (fw_statement w) = ucast (sl_index own)"
    by (simp_all add: encoded_witness(1) [OF enc])
  have "check_witness E A authority st s raw \<noteq> Inr ()"
  proof
    assume "check_witness E A authority st s raw = Inr ()"
    then obtain d joins revoked manifest where "fw_statement w = expected_statement authority st s d joins revoked manifest"
      using issued(2) by (auto simp: check_witness_def parse_deterministic_cbor_def result_simps Let_def)
    then have "wr_author_leaf_id r = leaf" "(ucast (sl_index own) :: u64) = ucast (sl_index lease')"
      using w s other(3) by (simp_all add: expected_statement_def Let_def)
    moreover have "sl_index own = sl_index lease'"
      using calculation(2) by (simp add: widened_slot)
    moreover have "lease_excl st (wr_author_leaf_id r) own"
      using held_excl [OF assms(1) pending_or_active_holds [OF own(1)]] .
    ultimately show False
      using other(1,2) by (auto simp: lease_excl_def holds_lease_def)
  qed
  with key show ?thesis
    by blast
qed

section \<open>A witnessed refresh in a group of two\<close>

definition global_authority :: HistoryAuthorityState where
  "global_authority = \<lparr>ha_mode = Global, ha_descriptor = \<lparr>hd_scope_id = plain_digest, hd_public_key = replicate 2592 1\<rparr>,
     ha_secret_key = [], ha_require_receipt = True\<rparr>"

definition authority_group :: GroupState where
  "authority_group = pair_group\<lparr>gs_leaf_device_pk := [(sample_leaf 1, replicate 2592 5), (sample_leaf 2, replicate 2592 6)],
     gs_slot_generations := [(0, 0), (1, 0)], gs_room_admin_pop_keys := {replicate 2592 5}\<rparr>"

definition refresh_statement :: FullVerificationWitness where
  "refresh_statement = \<lparr>fw_scope_id = plain_digest, fw_history_authority_extension = extension_id Global, fw_gid = plain_digest,
     fw_history_view_id = zero_hash, fw_history_commitment_id = zero_hash, fw_prev_history_commitment_id = zero_hash, fw_history_seq = 0,
     fw_barrier_version = 3, fw_kem_tree_hash_after = plain_digest, fw_author_leaf_id = sample_leaf 1, fw_barrier_update_reason = 1,
     fw_updater_slot_index = 0, fw_updater_slot_generation = 0, fw_barrier_update_digest = plain_digest,
     fw_joins_digest = plain_digest, fw_revoked_digest = plain_digest, fw_manifest_digest = plain_digest\<rparr>"

definition signing :: AuthorityExt where
  "signing = \<lparr>ae_sign = (\<lambda>_ _. Some (replicate 4627 0)),
     ae_receipt = (\<lambda>_. Some \<lparr>fr_author_leaf_id = sample_leaf 1, fr_barrier_update_reason = 1, fr_updater_slot_index = 0,
       fr_updater_slot_generation = 0, fr_signature = replicate 4627 0\<rparr>),
     ae_witness = (\<lambda>_. Some \<lparr>fw_statement = refresh_statement, fw_signature = replicate 4627 0\<rparr>)\<rparr>"

definition witnessed_header :: header where
  "witnessed_header = [(HDR_POP_PK, CBytes (replicate 2592 5)), (HDR_BARRIER_UPDATE, CBytes [9]), (HDR_BARRIER_UPDATE_REASON, CInt 1),
     (HDR_BARRIER_HISTORY_COMMITMENT, CBytes [9]), (HDR_BARRIER_FULL_VERIFICATION_RECEIPT, CBytes [9]),
     (HDR_BARRIER_GLOBAL_HISTORY_ATTESTATION, CBytes [9]), (HDR_BARRIER_FULL_VERIFICATION_WITNESS, CBytes [9])]"

definition refresh_request :: WitnessRequest where
  "refresh_request = \<lparr>wr_author_leaf_id = sample_leaf 1, wr_reason = 1, wr_slot_index = 0, wr_slot_generation = 0, wr_update = [9],
     wr_prev_version = 3, wr_joins = [], wr_roots_hash = plain_digest, wr_revoked = [], wr_manifest = []\<rparr>"

lemma parse_update_only: "value_bytes h HDR_BARRIER_UPDATE = value_bytes h' HDR_BARRIER_UPDATE \<Longrightarrow>
    parse_barrier_update E W h n = parse_barrier_update E W h' n"
  by (simp add: parse_barrier_update_def)

lemma authority_group_simps [simp]:
  "gs_n_max authority_group = 2" "gs_barrier_initialized authority_group" "gs_barrier_version authority_group = 3"
  "gs_barrier_roots_hash authority_group = plain_digest" "gs_kem_tree_hash_after authority_group = plain_digest"
  "gs_barrier_pk_entries authority_group = [[4], [5], [6]]" "gs_revoked authority_group = {}"
  "gs_leaf_slot_leases authority_group = [(sample_leaf 1, small_lease), (sample_leaf 2, \<lparr>sl_index = 1, sl_generation = 0\<rparr>)]"
  "gs_leaf_device_pk authority_group = [(sample_leaf 1, replicate 2592 5), (sample_leaf 2, replicate 2592 6)]"
  "gs_pending_join_finalize_auth authority_group = []" "gs_revoked_slot_leases authority_group = []"
  "gs_current_history_commitment authority_group = history_commitment_default" "gs_room_admin_pop_keys authority_group = {replicate 2592 5}"
  "gs_slot_generations authority_group = [(0, 0), (1, 0)]" "gs_free_slots authority_group = {}"
  by (simp_all add: authority_group_def) (simp_all add: pair_group_def group_state_default_def)

lemma plain_authority_hashes:
  "compute_full_verification_barrier_update_digest plain_ext u = Inr plain_digest"
  "compute_full_verification_joins_digest plain_ext v js = Inr plain_digest"
  "compute_full_verification_revoked_digest plain_ext k rs = Inr plain_digest" "compute_manifest_digest plain_ext m = Inr plain_digest"
  by (simp_all add: compute_full_verification_barrier_update_digest_def compute_full_verification_joins_digest_def
    compute_full_verification_revoked_digest_def compute_manifest_digest_def plain_h_l validate_label_def as_bytes_def)

lemma refresh_p: "su_prev_barrier_version (server_update plain_update pair_cover) = 3" "su_updater_slot_index (server_update plain_update pair_cover) = 0"
  "su_updater_slot_generation (server_update plain_update pair_cover) = 0"
  "su_revocation_roots_hash (server_update plain_update pair_cover) = plain_digest"
  "su_kem_tree_hash_before (server_update plain_update pair_cover) = plain_digest"
  "su_kem_tree_hash_after (server_update plain_update pair_cover) = plain_digest"
  "su_new_public_keys (server_update plain_update pair_cover) = [(0, replicate 1184 5)]"
  by (simp_all add: server_update_def plain_update_def pair_cover_def plain_cover_def)

lemma refresh_view: "build_pk_entries_view authority_group = Inr [[4], [5], [6]]"
proof -
  have "ensure_distinct_active_slot_indices authority_group = Inr ()"
    by (simp add: ensure_distinct_active_slot_indices_def active_cover_leaf_allocations_def latest_snapshot_def authority_group_def)
      (simp add: pair_group_def pair_members result_simps checked_insert_unique_def require_active_slot_lease_def small_lease_def)
  then show ?thesis
    using two_power by (simp add: build_pk_entries_view_def barrier_pk_entry_layout_def validate_barrier_n_max_def MAX_BARRIER_N_MAX_def result_simps)
qed

lemma refresh_candidate:
  "validate_full_verification_witness_candidate plain_ext pair_wire authority_group history_commitment_default refresh_request = Inr ()"
proof -
  have "value_bytes (bt_insert HDR_BARRIER_UPDATE_REASON v (bt_insert HDR_BARRIER_UPDATE (CBytes [9]) [])) HDR_BARRIER_UPDATE = Some [9]" for v
    by (simp add: value_bytes_def hdr_keys)
  then have "parse_barrier_update plain_ext pair_wire (bt_insert HDR_BARRIER_UPDATE_REASON v (bt_insert HDR_BARRIER_UPDATE (CBytes [9]) [])) 2 =
      Inr (Some (server_update plain_update pair_cover))" for v
    using parse_update_only [of _ refresh_header] pair_parse by (metis refresh_fields(1))
  then show ?thesis
    by (simp add: validate_full_verification_witness_candidate_def refresh_request_def result_simps refresh_view refresh_p pair_tree
      require_pending_or_active_slot_lease_def pending_or_active_def small_lease_def pair_verified)
qed

lemma refresh_issued:
  "full_verification_witness_bytes plain_ext pair_wire signing (Some global_authority) (Some authority_group) plain_digest
     history_commitment_default 3 plain_digest refresh_request =
   Inr (\<lparr>fw_statement = refresh_statement, fw_signature = replicate 4627 0\<rparr>, [9])"
  by (simp add: full_verification_witness_bytes_def refresh_candidate result_simps full_verification_statement_def plain_authority_hashes
    encode_full_verification_witness_def sign_history_authority_message_def)
    (simp add: signing_def refresh_statement_def global_authority_def refresh_request_def history_commitment_default_def)

lemma witnessed_fields:
  "server_update_reason witnessed_header = Inr (Some 1)" "value_bytes witnessed_header HDR_BARRIER_UPDATE = Some [9]"
  "value_bytes witnessed_header HDR_POP_PK = Some (replicate 2592 5)"
  "value_bytes witnessed_header HDR_BARRIER_HISTORY_COMMITMENT = Some [9]"
  "value_bytes witnessed_header HDR_BARRIER_GLOBAL_HISTORY_ATTESTATION = Some [9]"
  "optional_raw witnessed_header HDR_BARRIER_FULL_VERIFICATION_RECEIPT = Inr (Some [9])"
  "optional_raw witnessed_header HDR_BARRIER_FULL_VERIFICATION_WITNESS = Inr (Some [9])"
  "has_key witnessed_header HDR_BARRIER_FULL_VERIFICATION_WITNESS" "parse_join_finalize_auth_token witnessed_header = Inr None"
  by (simp_all add: witnessed_header_def value_bytes_def server_update_reason_def optional_raw_def parse_join_finalize_auth_token_def
    header_optional_bytes_def result_simps hdr_keys u64_try_from_def)

definition refresh_scope :: EvidenceScope where
  "refresh_scope = \<lparr>es_gid = plain_digest, es_author_leaf_id = sample_leaf 1, es_author_pop_pk = replicate 2592 5, es_reason = 1,
     es_parsed = server_update plain_update pair_cover, es_lease = small_lease, es_raw_history_commitment = [9],
     es_raw_attestation = [9], es_raw_update = [9]\<rparr>"

lemma signing_ok: "authority_signs plain_ext signing global_authority"
  by (auto simp: authority_signs_def signing_def global_authority_def verify_cityg_pop_signature_def)

lemma refresh_decoded: "ae_witness signing [9] = Some \<lparr>fw_statement = refresh_statement, fw_signature = replicate 4627 0\<rparr>"
  by (simp add: signing_def)

lemmas refresh_simps = global_authority_def history_commitment_default_def refresh_request_def refresh_scope_def refresh_p small_lease_def

theorem issued_witness_accepted_witness: "check_witness plain_ext signing global_authority authority_group refresh_scope [9] = Inr ()"
  by (rule issued_witness_accepted [OF refresh_issued signing_ok refresh_decoded]) (simp_all add: refresh_simps)

lemma refresh_witness: "check_witness plain_ext signing global_authority authority_group refresh_scope [9] = Inr ()"
  by (rule issued_check [OF refresh_issued signing_ok refresh_decoded]) (simp_all add: refresh_simps)

lemma refresh_evidence:
  "validate_history_authority_headers plain_ext pair_wire signing (Some global_authority) plain_digest authority_group witnessed_header = Inr ()"
proof -
  have "parse_barrier_update plain_ext pair_wire witnessed_header 2 = Inr (Some (server_update plain_update pair_cover))"
    using parse_update_only [of witnessed_header refresh_header] pair_parse witnessed_fields(2) refresh_fields(1) by metis
  moreover have "encode_global_history_attestation plain_ext signing global_authority plain_digest history_commitment_default 3 plain_digest = Inr [9]"
    by (simp add: encode_global_history_attestation_def global_history_parent_attestation_id_def history_commitment_default_def
      result_simps sign_history_authority_message_def) (simp add: signing_def)
  moreover have "unique_author_leaf_for_pop_pk authority_group (replicate 2592 5) = Inr (sample_leaf 1)"
    by (simp add: unique_author_leaf_for_pop_pk_def author_leaves_def)
  moreover have "expected_updater_lease authority_group (sample_leaf 1) 1 0 = Inr small_lease"
    by (simp add: expected_updater_lease_def small_lease_def ok_or_def)
  moreover have "check_receipt plain_ext signing refresh_scope [9] = Inr ()"
    by (simp add: check_receipt_def parse_full_verification_receipt_def parse_deterministic_cbor_def result_simps vec_to_32_def
      full_verification_receipt_payload_def verify_cityg_pop_signature_def refresh_scope_def refresh_p small_lease_def signing_def)
  ultimately show ?thesis
    using refresh_witness witnessed_fields
    by (simp add: validate_history_authority_headers_def check_evidence_def result_simps refresh_p refresh_scope_def Let_def)
qed

theorem authority_header_evidence_witness:
  "\<exists>s. es_gid s = plain_digest \<and> receipt_signed plain_ext s \<and> witness_signed plain_ext global_authority authority_group s"
  using authority_header_evidence [OF refresh_evidence witnessed_fields(1)] by (auto simp: global_authority_def)

text \<open>An admin who expels the other member as the ticket has it, on the other member's slot, with the witness of a refresh.\<close>
definition expulsion_header :: header where
  "expulsion_header = [(HDR_POP_PK, CBytes (replicate 2592 5)), (HDR_BARRIER_FULL_VERIFICATION_WITNESS, CBytes [9])]"

lemma authority_group_inv: "slot_inv authority_group"
proof -
  have "slot_range authority_group = [0, 1]"
    by (simp add: slot_range_def slot_capacity_def upt_conv_Cons)
  moreover have "holds_lease authority_group leaf lease \<longleftrightarrow>
      leaf = sample_leaf 1 \<and> lease = small_lease \<or> leaf = sample_leaf 2 \<and> lease = \<lparr>sl_index = 1, sl_generation = 0\<rparr>" for leaf lease
    by (auto simp: holds_lease_def split: if_splits)
  ultimately show ?thesis
    by (auto simp: slot_inv_def leases_wf_def reserved_for_def lease_excl_def small_lease_def)
qed

lemma expulsion_updater:
  "check_updater authority_group expulsion_header \<lparr>md_joined = [], md_revoked = [sample_leaf 2]\<rparr> (Some 0) 1 = Inr (sample_leaf 1, None)"
  by (simp add: check_updater_def author_leaves_def require_active_slot_lease_def targeted_admin_revocation_def
    committed_revoked_slot_indices_def parse_join_finalize_auth_token_def header_optional_bytes_def value_bytes_def expulsion_header_def
    result_simps hdr_keys small_lease_def)

theorem expulsion_never_witnessed_witness:
  "check_witness plain_ext signing global_authority authority_group
     (refresh_scope\<lparr>es_parsed := (server_update plain_update pair_cover)\<lparr>su_updater_slot_index := 1\<rparr>\<rparr>) [9] \<noteq> Inr ()"
proof -
  let ?p = "(server_update plain_update pair_cover)\<lparr>su_updater_slot_index := 1\<rparr>"
  have "check_updater authority_group expulsion_header \<lparr>md_joined = [], md_revoked = [sample_leaf 2]\<rparr> (Some 0) (su_updater_slot_index ?p) =
      Inr (sample_leaf 1, None)"
    using expulsion_updater by simp
  from expulsion_never_witnessed [OF authority_group_inv this _ _ refresh_issued refresh_decoded, of small_lease "refresh_scope\<lparr>es_parsed := ?p\<rparr>"]
  show ?thesis
    by (simp add: small_lease_def refresh_scope_def)
qed

end
