(* ===== verification/Server.thy ===== *)
theory Server
  imports HistoryAuthority
begin

text \<open>
  Accepting an epoch on the server (\<open>cityg-server/src/lib.rs\<close>, with the client's bundle of \<open>cityg-client/src/lib.rs\<close>): the
  bundle is applied to copies of the acceptance context, the receiver's cache and the roster, which replace the originals when
  everything succeeded, and whose telemetry alone is kept otherwise.

  The lemmas show that a refused bundle changes nothing but telemetry, that the context and the roster agree on the barrier
  of a group, and that over every run the tree hash on which the acceptance pipeline gates is the hash of the roster's tree.
\<close>

section \<open>Bundles\<close>

record AnchorBundle =
  ab_gid :: bytes
  ab_cat :: bytes
  ab_anchor_hdr_ctx :: bytes
  ab_tswe_salt_hash :: hash32
  ab_parent_root :: hash32
  ab_join_delta_root :: hash32
  ab_revoked_since_prev_root :: hash32
  ab_revoked_root :: hash32
  ab_pox_r_commit :: "bytes option"

record ClientEpochBundle =
  ce_anchor :: AnchorBundle
  ce_header_map :: header
  ce_hp_proof :: HpProof
  ce_hp_binding :: HpBindingInputs
  ce_witness :: "bytes option"
  ce_capss_witness :: cbor
  ce_we_epoch_id :: hash32

definition bundle_gid :: "ClientEpochBundle \<Rightarrow> bytes" where
  "bundle_gid b = ab_gid (ce_anchor b)"

definition is_merge_header :: "header \<Rightarrow> bool" where
  "is_merge_header h \<longleftrightarrow> list_ex (has_key h)
     [HDR_MH_HEADS, HDR_ROLLUP_PIVOT_WEID, HDR_ROLLUP_PROVENANCE_COMMIT, HDR_ROLLUP_EPOCH_REPLAY, HDR_ROLLUP_VCK_COMMIT,
      HDR_MERGE_DELEGATION_SIG, HDR_KBROAD_REPLAY, HDR_ROLLUP_FS_MODE, HDR_FS_EVOLUTION_BOUNDARY, HDR_FS_PURGE_TIMES,
      HDR_FS_CHECKPOINT_EC]"

definition parse_leaf_array :: "cbor \<Rightarrow> CityGError + hash32 list" where
  "parse_leaf_array v =
     (case v of
        CArray entries \<Rightarrow> mapE (\<lambda>leaf. case leaf of
            CBytes b \<Rightarrow> if length b = 32 then Inr b else Inl (CgInvalidInput ''leaf entry must be 32 bytes'')
          | _ \<Rightarrow> Inl (CgInvalidInput ''leaf entry must be 32 bytes'')) entries
      | _ \<Rightarrow> Inl (CgInvalidInput ''expected leaf array''))"

definition parse_srx_complete_membership :: "cbor \<Rightarrow> CityGError + MembershipDelta" where
  "parse_srx_complete_membership v =
     (case v of
        CArray items \<Rightarrow>
          tryE (ensure (length items = 9) (CgInvalidInput ''srx complete payload arity'')) (\<lambda>_.
          tryE (parse_leaf_array (items ! 4)) (\<lambda>joined.
          tryE (parse_leaf_array (items ! 6)) (\<lambda>revoked.
          Inr \<lparr>md_joined = joined, md_revoked = revoked\<rparr>)))
      | _ \<Rightarrow> Inl (CgInvalidInput ''srx payload must be array''))"

text \<open>The leaf of a join without a payload: that of its key in the group.\<close>
definition joined_leaf :: "Ext \<Rightarrow> bytes \<Rightarrow> header \<Rightarrow> CityGError + hash32" where
  "joined_leaf E gid h =
     tryE (case bt_get h HDR_POP_ALG of
         Some (CText alg) \<Rightarrow> if alg \<noteq> [] then Inr alg else Inl (CgInvalidInput ''pop_alg must be text'')
       | Some _ \<Rightarrow> Inl (CgInvalidInput ''pop_alg must be text'')
       | None \<Rightarrow> Inl (CgInvalidInput ''missing pop_alg'')) (\<lambda>alg.
     tryE (case bt_get h HDR_POP_PK of
         Some (CBytes pk) \<Rightarrow> if pk \<noteq> [] then Inr pk else Inl (CgInvalidInput ''pop_pk must be bytes'')
       | Some _ \<Rightarrow> Inl (CgInvalidInput ''pop_pk must be bytes'')
       | None \<Rightarrow> Inl (CgInvalidInput ''missing pop_pk'')) (\<lambda>pk.
     map_err CgMsphf (compute_leaf_id E PerGroup gid alg pk)))"

definition membership_delta :: "Ext \<Rightarrow> ClientEpochBundle \<Rightarrow> CityGError + MembershipDelta" where
  "membership_delta E b =
     (case bt_get (ce_header_map b) HDR_SRX_PAYLOAD of
        Some (CBytes payload) \<Rightarrow>
          tryE (ok_or (CgInvalidInput ''unable to decode srx payload'') (cbor_de E payload)) parse_srx_complete_membership
      | Some _ \<Rightarrow> Inl (CgInvalidInput ''srx_payload must be bytes'')
      | None \<Rightarrow>
          if is_merge_header (ce_header_map b) then Inr \<lparr>md_joined = [], md_revoked = []\<rparr>
          else tryE (joined_leaf E (bundle_gid b) (ce_header_map b)) (\<lambda>leaf. Inr \<lparr>md_joined = [leaf], md_revoked = []\<rparr>))"

definition anchor_instance :: "ClientEpochBundle \<Rightarrow> AnchorInstance" where
  "anchor_instance b = (let a = ce_anchor b in
     \<lparr>ai_gid = ab_gid a, ai_cat = ab_cat a, ai_we_epoch_id = ce_we_epoch_id b, ai_anchor_hdr_ctx = ab_anchor_hdr_ctx a,
      ai_tswe_salt_hash = ab_tswe_salt_hash a, ai_parent_root = ab_parent_root a, ai_join_delta_root = ab_join_delta_root a,
      ai_revoked_since_prev_root = ab_revoked_since_prev_root a, ai_revoked_root = ab_revoked_root a,
      ai_pox_r_commit = ab_pox_r_commit a, ai_msphf_hp_commit = Some (hb_hp_commit (ce_hp_binding b))\<rparr>)"

section \<open>The group before the bundle\<close>

text \<open>The first joins of a group need no ticket: they get the slot their update names, or the first slots in order.\<close>
definition derive_implicit_genesis_slot_leases ::
  "Ext \<Rightarrow> ServerWire \<Rightarrow> GroupState \<Rightarrow> header \<Rightarrow> MembershipDelta \<Rightarrow> CityGError + (hash32 \<times> SlotLease) list" where
  "derive_implicit_genesis_slot_leases E W st h delta =
     (if md_joined delta = [] then Inr []
      else if \<forall>leaf\<in>set (md_joined delta). pending_or_active st leaf \<noteq> None then Inr []
      else if gs_barrier_version st \<noteq> 0 \<or> gs_leaf_slot_leases st \<noteq> [] \<or> gs_pending_join_finalize_auth st \<noteq> [] \<or>
        gs_revoked_slot_leases st \<noteq> [] \<or> gs_leaf_device_pk st \<noteq> [] \<or> gs_join_history st \<noteq> [] \<or>
        (case latest_snapshot st of None \<Rightarrow> False | Some s \<Rightarrow> s \<noteq> {})
      then Inr []
      else
        tryE (parse_barrier_update E W h (gs_n_max st)) (\<lambda>parsed.
        case parsed of
          Some p \<Rightarrow>
            tryE (ensure (md_revoked delta = [] \<and> length (md_joined delta) = 1)
              (CgInvalidInput ''genesis barrier update without slot lease must contain exactly one joined leaf'')) (\<lambda>_.
            tryE (ensure (unat (su_updater_slot_index p) < 2 ^ 32 \<and> unat (su_updater_slot_index p) < unat (slot_capacity st))
              (CgInvalidInput ''slot_index out of range'')) (\<lambda>_.
            Inr [(hd (md_joined delta), \<lparr>sl_index = ucast (su_updater_slot_index p), sl_generation = su_updater_slot_generation p\<rparr>)]))
        | None \<Rightarrow>
            tryE (ensure (length (md_joined delta) \<le> unat (slot_capacity st)) (CgInvalidInput ''slot allocator exhausted'')) (\<lambda>_.
            Inr (map (\<lambda>(i, leaf). (leaf, \<lparr>sl_index = of_nat i, sl_generation = 0\<rparr>)) (enumerate 0 (md_joined delta))))))"

fun activate_leases :: "(hash32 \<times> SlotLease) list \<Rightarrow> (GroupState, CityGError, unit) eff" where
  "activate_leases [] = (\<lambda>st. (Inr (), st))"
| "activate_leases ((leaf, lease) # ls) = tryS (activate_slot_lease leaf lease) (\<lambda>_. activate_leases ls)"

text \<open>A replayed journal does not have the tickets; the record of an accepted finalisation is put back.\<close>
definition rehydrate_replay_join_finalize_auth :: "Ext \<Rightarrow> ServerWire \<Rightarrow> header \<Rightarrow> GroupState \<Rightarrow> CityGError + GroupState" where
  "rehydrate_replay_join_finalize_auth E W h st =
     tryE (server_update_reason h) (\<lambda>reason.
     if reason \<noteq> Some 0 \<and> reason \<noteq> Some 2 then Inr st
     else tryE (parse_join_finalize_auth_token h) (\<lambda>token. case token of None \<Rightarrow> Inr st | Some token \<Rightarrow>
       tryE (parse_barrier_update E W h (gs_n_max st)) (\<lambda>parsed. case parsed of None \<Rightarrow> Inr st | Some p \<Rightarrow>
       case map_option (author_leaves st) (value_bytes h HDR_POP_PK) of
         Some [leaf] \<Rightarrow>
           tryE (require_active_slot_lease st leaf) (\<lambda>lease.
           if ucast (sl_index lease) \<noteq> su_updater_slot_index p \<or>
             (reason = Some 0 \<and> sl_index lease \<notin> committed_revoked_slot_indices st) \<or>
             sl_generation lease \<noteq> su_updater_slot_generation p
           then Inr st
           else Inr (if bt_get (gs_pending_join_finalize_auth st) leaf = None
             then st\<lparr>gs_pending_join_finalize_auth := bt_insert leaf \<lparr>jf_leaf_id = leaf, jf_lease = lease, jf_token = token\<rparr>
               (gs_pending_join_finalize_auth st)\<rparr> else st))
       | _ \<Rightarrow> Inr st)))"

section \<open>Applying a bundle\<close>

text \<open>The copies that a bundle is applied to.\<close>
record Staged =
  sg_ctx :: AcceptanceContext
  sg_receiver :: ReceiverCache
  sg_roster :: GroupRoster

definition on_roster :: "(GroupRoster, 'e, 'a) eff \<Rightarrow> (Staged, 'e, 'a) eff" where
  "on_roster m s = (case m (sg_roster s) of (r, roster) \<Rightarrow> (r, s\<lparr>sg_roster := roster\<rparr>))"

definition upd_ctx :: "(AcceptanceContext \<Rightarrow> AcceptanceContext) \<Rightarrow> (Staged, 'e, unit) eff" where
  "upd_ctx f = updS (\<lambda>s. s\<lparr>sg_ctx := f (sg_ctx s)\<rparr>)"

text \<open>What stands for code outside the repository: the verifiers of the pipeline, the decoders of the server, the witness decoder
  of the receiver and the order in which a hash map iterates, and the authority's signing.\<close>
record ServerExt =
  se_verifiers :: Verifiers
  se_history :: "bytes \<Rightarrow> HistoryCommitmentWire option"
  se_witness :: "bytes \<Rightarrow> WitnessVariants option"
  se_iter :: "(hash32 \<rightharpoonup> CacheEntry) \<Rightarrow> hash32 list"
  se_authority :: AuthorityExt

abbreviation se_ext :: "ServerExt \<Rightarrow> Ext" where
  "se_ext X \<equiv> ext (se_verifiers X)"

text \<open>The server's wire type of an update has the fields of the pipeline's, and the same decoder.\<close>
abbreviation se_wire :: "ServerExt \<Rightarrow> ServerWire" where
  "se_wire X \<equiv> \<lparr>sw_update = wire (se_verifiers X), sw_history = se_history X\<rparr>"

definition server_update_digest :: "Ext \<Rightarrow> bytes \<Rightarrow> CityGError + hash32" where
  "server_update_digest E raw = map_err CgMsphf (h_l E ''barrier/update/digest'' (CBytes raw))"

definition header_u64_or :: "header \<Rightarrow> u64 \<Rightarrow> string \<Rightarrow> CityGError + u64" where
  "header_u64_or h key label =
     (case bt_get h key of Some (CInt i) \<Rightarrow> ok_or (CgInvalidInput label) (u64_try_from i) | _ \<Rightarrow> Inl (CgInvalidInput label))"

definition accepted_barrier_merge_record :: "Ext \<Rightarrow> ClientEpochBundle \<Rightarrow> CityGError + AcceptedBarrierMergeRecord option" where
  "accepted_barrier_merge_record E b = (let h = ce_header_map b in
     case value_bytes h HDR_BARRIER_UPDATE of
       None \<Rightarrow> Inr None
     | Some raw \<Rightarrow>
         tryE (header_u64_or h HDR_BARRIER_VERSION ''accepted barrier merge missing barrier_version'') (\<lambda>version.
         tryE (header_u64_or h HDR_FS_EC ''accepted barrier merge missing fs_ec'') (\<lambda>fs_ec.
         tryE (server_update_reason h) (\<lambda>reason.
         tryE (ok_or (CgInvalidInput ''accepted barrier merge missing barrier_update_reason'') reason) (\<lambda>reason.
         tryE (server_update_digest E raw) (\<lambda>digest.
         Inr (Some \<lparr>am_barrier_version = version, am_fs_ec = fs_ec, am_reason = reason, am_digest = digest,
           am_we_epoch_id = ce_we_epoch_id b\<rparr>)))))))"

text \<open>The group takes the barrier of the context, and the context that of the group.\<close>
definition pull_barrier :: "BarrierGroupState \<Rightarrow> GroupState \<Rightarrow> GroupState" where
  "pull_barrier b st = st\<lparr>gs_barrier_initialized := bg_barrier_initialized b, gs_barrier_version := bg_barrier_version b,
     gs_barrier_roots_hash := bg_barrier_roots_hash b, gs_kem_tree_hash_after := bg_kem_tree_hash_after b,
     gs_srx_root_sw := bg_srx_root_sw b, gs_n_max := max (bg_n_max b) 1, gs_last_checkpoint_ec := bg_last_checkpoint_ec b,
     gs_last_accepted_ec := bg_last_accepted_ec b, gs_last_pcs_refresh_ec := bg_last_pcs_refresh_ec b,
     gs_pcs_refresh_min_delta_device_ec := max (bg_pcs_refresh_min_delta_device_ec b) 1,
     gs_pcs_refresh_min_delta_group_ec := max (bg_pcs_refresh_min_delta_group_ec b) 1,
     gs_pcs_refresh_slot_width_ec := max (bg_pcs_refresh_slot_width_ec b) 1,
     gs_max_barrier_update_bytes := max (bg_max_barrier_update_bytes b) 1\<rparr>"

definition push_barrier :: "GroupState \<Rightarrow> BarrierGroupState \<Rightarrow> BarrierGroupState" where
  "push_barrier st b = b\<lparr>bg_barrier_initialized := gs_barrier_initialized st, bg_barrier_version := gs_barrier_version st,
     bg_barrier_roots_hash := gs_barrier_roots_hash st, bg_kem_tree_hash_after := gs_kem_tree_hash_after st,
     bg_srx_root_sw := gs_srx_root_sw st, bg_n_max := max (gs_n_max st) 1, bg_last_checkpoint_ec := gs_last_checkpoint_ec st,
     bg_last_accepted_ec := gs_last_accepted_ec st, bg_last_pcs_refresh_ec := gs_last_pcs_refresh_ec st,
     bg_pcs_refresh_min_delta_device_ec := max (gs_pcs_refresh_min_delta_device_ec st) 1,
     bg_pcs_refresh_min_delta_group_ec := max (gs_pcs_refresh_min_delta_group_ec st) 1,
     bg_pcs_refresh_slot_width_ec := max (gs_pcs_refresh_slot_width_ec st) 1,
     bg_max_barrier_update_bytes := max (gs_max_barrier_update_bytes st) 1\<rparr>"

definition required_join_leaf_pk :: "header \<Rightarrow> MembershipDelta \<Rightarrow> CityGError + bytes option" where
  "required_join_leaf_pk h delta =
     (if md_joined delta = [] then Inr None
      else case value_bytes h HDR_BARRIER_LEAF_PK of
        Some ek \<Rightarrow> if length ek = 1184 then Inr (Some ek) else Inl (CgInvalidInput ''barrier_leaf_pk must be exactly 1184 bytes on join'')
      | None \<Rightarrow> Inl (CgInvalidInput ''barrier_leaf_pk (header[177]) is required on join''))"

fun for_each :: "('a \<Rightarrow> (GroupState, CityGError, unit) eff) \<Rightarrow> 'a list \<Rightarrow> (GroupState, CityGError, unit) eff" where
  "for_each f [] = (\<lambda>st. (Inr (), st))"
| "for_each f (x # xs) = tryS (f x) (\<lambda>_. for_each f xs)"

text \<open>The leaves that join and leave, and the end of a finalised join.\<close>
definition apply_membership :: "header \<Rightarrow> MembershipDelta \<Rightarrow> u64 \<Rightarrow> bytes option \<Rightarrow> (GroupState, CityGError, unit) eff" where
  "apply_membership h delta barrier_version required_ek =
     (if md_joined delta = [] \<and> md_revoked delta = [] then (\<lambda>st. (Inr (), st))
      else
        tryS (for_each (apply_joined_leaf barrier_version (value_bytes h HDR_POP_PK) required_ek) (md_joined delta)) (\<lambda>_.
        tryS (for_each apply_revoked_leaf (md_revoked delta)) (\<lambda>_. prune_join_history)))"

definition finalize_author :: "header \<Rightarrow> hash32 option \<Rightarrow> GroupState \<Rightarrow> GroupState" where
  "finalize_author h token st =
     (case (token, value_bytes h HDR_POP_PK) of
        (Some _, Some pk) \<Rightarrow> (case author_leaves st pk of [] \<Rightarrow> st | leaf # _ \<Rightarrow> finalize_join leaf st)
      | _ \<Rightarrow> st)"

text \<open>The tree after a validated update, with the trees before and after it in the history.\<close>
definition adopt_validation :: "Ext \<Rightarrow> WireDecoders \<Rightarrow> bytes \<Rightarrow> BarrierUpdateValidationOutcome \<Rightarrow> (GroupState, CityGError, unit) eff" where
  "adopt_validation E W gid out =
     tryS (liftS (\<lambda>_. compute_barrier_tree_hash E (max (su_tree_size (vo_parsed out)) 1) (vo_snapshot_pre out))) (\<lambda>predecessor_hash.
     tryS (liftS (\<lambda>_. ensure (predecessor_hash = su_kem_tree_hash_before (vo_parsed out))
       (CgInvalidInput ''current barrier predecessor snapshot mismatch''))) (\<lambda>_.
     tryS (updS (adopt_update out)) (\<lambda>_.
     tryS (ensure_current_history_commitment E W gid) (\<lambda>commitment.
     tryS (getS gs_barrier_version) (\<lambda>version.
     tryS (record_snapshot_with_metadata predecessor_hash version commitment (vo_snapshot_pre out)) (\<lambda>_.
     record_barrier_public_tree_snapshot E W gid))))))"

text \<open>The live pivots of the parent root, or the new one, are filed under the new root.\<close>
definition mirror_parities :: "ClientEpochBundle \<Rightarrow> hash32 \<Rightarrow> AnchorAcceptanceResult \<Rightarrow> AcceptanceContext \<Rightarrow> AcceptanceContext" where
  "mirror_parities b new_root acceptance ctx =
     (let a = ce_anchor b;
          (prior, ctx) = pivot_parities_for (bundle_gid b) (ab_parent_root a) ctx;
          w = ax_mh_window ctx;
          live = filter (\<lambda>p. case find_head_window w (pp_we_epoch_id p) of
              None \<Rightarrow> False | Some wid \<Rightarrow> find_head w wid (pp_we_epoch_id p) \<noteq> None) prior
      in fold (\<lambda>p. insert_pivot_parity (p\<lparr>pp_parent_root := new_root, pp_join_delta_root := ab_join_delta_root a,
             pp_revoked_since_root := ab_revoked_since_prev_root a, pp_revoked_root := ab_revoked_root a\<rparr>)
           (oc_accept_time (ar_outcome acceptance)))
         (if live = [] then [ar_pivot_parity acceptance] else live) ctx)"

section \<open>Accepting an epoch\<close>

record ServerOutcome =
  so_we_epoch_id :: hash32
  so_wid :: hash32
  so_parent_root :: hash32
  so_new_root :: hash32

definition commit_current :: "ServerExt \<Rightarrow> bytes \<Rightarrow> header \<Rightarrow> (GroupState, CityGError, GroupState) eff" where
  "commit_current X gid h =
     tryS (if has_key h HDR_BARRIER_UPDATE
       then tryS (ensure_current_history_commitment (se_ext X) (wire (se_verifiers X)) gid) (\<lambda>_ st. (Inr (), st))
       else (\<lambda>st. (Inr (), st))) (\<lambda>_. getS (\<lambda>st. st))"

definition group_before :: "ServerExt \<Rightarrow> bool \<Rightarrow> header \<Rightarrow> (hash32 \<times> SlotLease) list \<Rightarrow> GroupState \<Rightarrow> CityGError + GroupState" where
  "group_before X replaying h leases st =
     (case activate_leases leases st of
        (Inl e, _) \<Rightarrow> Inl e
      | (Inr _, st) \<Rightarrow> if replaying then rehydrate_replay_join_finalize_auth (se_ext X) (se_wire X) h st else Inr st)"

definition process_bundle :: "ServerExt \<Rightarrow> ClientEpochBundle \<Rightarrow> (Staged, CityGError, AnchorAcceptanceResult) eff" where
  "process_bundle X b s =
     (case process_anchor_or (se_verifiers X) (se_witness X) (se_iter X) (anchor_instance b) (ce_header_map b) (ce_hp_proof b)
             (ce_hp_binding b) (case ce_witness b of None \<Rightarrow> [] | Some w \<Rightarrow> w) (sg_ctx s, sg_receiver s) of
        (r, (ctx, receiver)) \<Rightarrow> (map_err CgAcceptance r, s\<lparr>sg_ctx := ctx, sg_receiver := receiver\<rparr>))"

definition record_merge ::
  "header \<Rightarrow> AcceptedBarrierMergeRecord option \<Rightarrow> BarrierUpdateValidationOutcome option \<Rightarrow> GroupState \<Rightarrow> GroupState \<Rightarrow> GroupState" where
  "record_merge h record_opt validation before st =
     (let st = (case record_opt of None \<Rightarrow> st
          | Some r \<Rightarrow> st\<lparr>gs_accepted_barrier_merges := bt_insert (am_barrier_version r) r (gs_accepted_barrier_merges st)\<rparr>)
      in case value_bytes h HDR_BARRIER_UPDATE of
           None \<Rightarrow> st
         | Some raw \<Rightarrow> st\<lparr>gs_current_accepted_barrier_update := raw,
             gs_current_accepted_barrier_predecessor_hash := (case validation of
               Some out \<Rightarrow> su_kem_tree_hash_before (vo_parsed out) | None \<Rightarrow> gs_kem_tree_hash_after before)\<rparr>)"

text \<open>Everything that is checked before the acceptance pipeline sees the bundle.\<close>
definition check_bundle ::
  "ServerExt \<Rightarrow> HistoryAuthorityState option \<Rightarrow> bool \<Rightarrow> ClientEpochBundle \<Rightarrow>
     (Staged, CityGError, MembershipDelta \<times> (hash32 \<times> SlotLease) list \<times> GroupState \<times> BarrierUpdateValidationOutcome option) eff" where
  "check_bundle X authority replaying b = (let gid = bundle_gid b; h = ce_header_map b; E = se_ext X in
     tryS (liftS (\<lambda>_. membership_delta E b)) (\<lambda>delta.
     tryS (on_roster (on_group gid (liftS (\<lambda>st. derive_implicit_genesis_slot_leases E (se_wire X) st h delta)))) (\<lambda>leases.
     tryS (on_roster (on_group gid (commit_current X gid h))) (\<lambda>st.
     tryS (liftS (\<lambda>_. group_before X replaying h leases st)) (\<lambda>before.
     tryS (liftS (\<lambda>_. ensure_distinct_active_slot_indices before)) (\<lambda>_.
     tryS (liftS (\<lambda>_. ensure_join_slot_indices_available before (md_joined delta))) (\<lambda>_.
     tryS (liftS (\<lambda>_. validate_barrier_update_against_roster E (se_wire X) before h delta)) (\<lambda>validation.
     tryS (liftS (\<lambda>_. ensure (length gid = 32) (CgInvalidInput ''gid must be 32 bytes''))) (\<lambda>_.
     tryS (liftS (\<lambda>_. validate_history_authority_headers E (se_wire X) (se_authority X) authority gid before h)) (\<lambda>_.
     liftS (\<lambda>_. Inr (delta, leases, before, validation))))))))))))"

text \<open>What an accepted bundle does to the members of the group, and to its tree.\<close>
definition settle_members ::
  "ServerExt \<Rightarrow> ClientEpochBundle \<Rightarrow> MembershipDelta \<Rightarrow> GroupState \<Rightarrow> BarrierUpdateValidationOutcome option \<Rightarrow> u64 \<Rightarrow>
     (GroupRoster, CityGError, hash32) eff" where
  "settle_members X b delta before validation barrier_version = (let gid = bundle_gid b; h = ce_header_map b; E = se_ext X in
     tryS (liftS (\<lambda>_. accepted_barrier_merge_record E b)) (\<lambda>record_opt.
     tryS (updS (upd_group gid (record_merge h record_opt validation before))) (\<lambda>_.
     tryS (liftS (\<lambda>_. server_update_reason h)) (\<lambda>_.
     tryS (liftS (\<lambda>_. parse_join_finalize_auth_token h)) (\<lambda>token.
     tryS (liftS (\<lambda>_. required_join_leaf_pk h delta)) (\<lambda>required_ek.
     tryS (roster_apply_delta (rpo E) gid (ab_parent_root (ce_anchor b)) delta) (\<lambda>new_root.
     tryS (on_group gid (apply_membership h delta barrier_version required_ek)) (\<lambda>_.
     tryS (updS (upd_group gid (finalize_author h token))) (\<lambda>_.
     liftS (\<lambda>_. Inr new_root))))))))))"

definition settle_group ::
  "ServerExt \<Rightarrow> ClientEpochBundle \<Rightarrow> MembershipDelta \<Rightarrow> (hash32 \<times> SlotLease) list \<Rightarrow> GroupState \<Rightarrow>
     BarrierUpdateValidationOutcome option \<Rightarrow> BarrierGroupState \<Rightarrow> (GroupRoster, CityGError, hash32) eff" where
  "settle_group X b delta leases before validation barrier = (let gid = bundle_gid b in
     tryS (on_group gid (activate_leases leases)) (\<lambda>_.
     tryS (updS (upd_group gid (pull_barrier barrier))) (\<lambda>_.
     tryS (settle_members X b delta before validation (bg_barrier_version barrier)) (\<lambda>new_root.
     tryS (case validation of None \<Rightarrow> (\<lambda>roster. (Inr (), roster))
       | Some out \<Rightarrow> on_group gid (adopt_validation (se_ext X) (wire (se_verifiers X)) gid out)) (\<lambda>_.
     liftS (\<lambda>_. Inr new_root))))))"

definition apply_bundle_to_state ::
  "ServerExt \<Rightarrow> HistoryAuthorityState option \<Rightarrow> bool \<Rightarrow> ClientEpochBundle \<Rightarrow> (Staged, CityGError, ServerOutcome) eff" where
  "apply_bundle_to_state X authority replaying b = (let gid = bundle_gid b in
     tryS (check_bundle X authority replaying b) (\<lambda>(delta, leases, before, validation).
     tryS (upd_ctx (barrier_group_state_entry_mut gid (\<lambda>st. st))) (\<lambda>_.
     tryS (process_bundle X b) (\<lambda>acceptance.
     tryS (liftS (\<lambda>s. ok_or (CgInvalidInput ''context barrier state missing'') (barrier_group_state (sg_ctx s) gid))) (\<lambda>barrier.
     tryS (on_roster (settle_group X b delta leases before validation barrier)) (\<lambda>new_root.
     tryS (updS (\<lambda>s. s\<lparr>sg_ctx := barrier_group_state_entry_mut gid (push_barrier (roster_entry gid (sg_roster s))) (sg_ctx s)\<rparr>)) (\<lambda>_.
     tryS (upd_ctx (mirror_parities b new_root acceptance)) (\<lambda>_.
     tryS (updS (\<lambda>s. if md_revoked delta \<noteq> [] then s\<lparr>sg_roster := mark_kbroad_rotation_required gid (sg_roster s)\<rparr> else s)) (\<lambda>_.
     liftS (\<lambda>_. Inr \<lparr>so_we_epoch_id = oc_we_epoch_id (ar_outcome acceptance), so_wid = oc_wid (ar_outcome acceptance),
       so_parent_root = ab_parent_root (ce_anchor b), so_new_root = new_root\<rparr>))))))))))"

record CityGServer =
  cs_ctx :: AcceptanceContext
  cs_receiver :: ReceiverCache
  cs_roster :: GroupRoster
  cs_history_authority :: "HistoryAuthorityState option"
  cs_journal :: "ClientEpochBundle list option"
  cs_replaying :: bool
  cs_refusal_percent :: u8

definition stage_bundle :: "ServerExt \<Rightarrow> ClientEpochBundle \<Rightarrow> (CityGServer, CityGError, ServerOutcome \<times> Staged) eff" where
  "stage_bundle X b srv =
     (case apply_bundle_to_state X (cs_history_authority srv) (cs_replaying srv) b
             \<lparr>sg_ctx = set_pending_capss_witness (Some (ce_capss_witness b)) (cs_ctx srv), sg_receiver = cs_receiver srv,
              sg_roster = cs_roster srv\<rparr> of
        (Inr outcome, s) \<Rightarrow> (Inr (outcome, s), srv)
      | (Inl e, s) \<Rightarrow> (Inl e, srv\<lparr>cs_ctx := merge_telemetry_from (sg_ctx s) (cs_ctx srv)\<rparr>))"

definition commit_staged :: "Staged \<Rightarrow> CityGServer \<Rightarrow> CityGServer" where
  "commit_staged s srv = srv\<lparr>cs_ctx := sg_ctx s, cs_receiver := sg_receiver s, cs_roster := sg_roster s\<rparr>"

text \<open>Appending to the journal writes a file, which may fail; it is a parameter.\<close>
type_synonym JournalAppend = "ClientEpochBundle \<Rightarrow> (ClientEpochBundle list, CityGError, unit) eff"

definition append_journal :: "JournalAppend \<Rightarrow> ClientEpochBundle \<Rightarrow> (CityGServer, CityGError, unit) eff" where
  "append_journal write b srv =
     (case cs_journal srv of
        None \<Rightarrow> (Inr (), srv)
      | Some journal \<Rightarrow>
          if cs_replaying srv then (Inr (), srv)
          else case write b journal of (r, journal) \<Rightarrow> (r, srv\<lparr>cs_journal := Some journal\<rparr>))"

definition accept_epoch :: "ServerExt \<Rightarrow> JournalAppend \<Rightarrow> ClientEpochBundle \<Rightarrow> (CityGServer, CityGError, ServerOutcome) eff" where
  "accept_epoch X write b =
     tryS (liftS (\<lambda>srv. ensure (\<not> kbroad_rotation_required (cs_roster srv) (bundle_gid b))
       (CgInvalidInput ''kbroad rotation required''))) (\<lambda>_.
     tryS (stage_bundle X b) (\<lambda>(outcome, s).
     tryS (append_journal write b) (\<lambda>_.
     tryS (updS (commit_staged s)) (\<lambda>_.
     liftS (\<lambda>_. Inr outcome)))))"

section \<open>What an accepted bundle keeps\<close>

lemma evolves_if: "evolves R a \<Longrightarrow> evolves R b \<Longrightarrow> evolves R (if c then a else b)"
  by simp

lemma on_group_run [eff_simps]:
  "on_group gid m roster = (r, roster') \<longleftrightarrow> (\<exists>st. m (roster_entry gid roster) = (r, st) \<and> roster' = bt_insert gid st roster)"
  by (auto simp: on_group_def split: prod.splits)

lemma on_roster_run [eff_simps]:
  "on_roster m s = (r, s') \<longleftrightarrow> (\<exists>roster. m (sg_roster s) = (r, roster) \<and> s' = s\<lparr>sg_roster := roster\<rparr>)"
  by (auto simp: on_roster_def split: prod.splits)

lemma roster_entry_insert [simp]: "roster_entry g (bt_insert gid st roster) = (if g = gid then st else roster_entry g roster)"
  by (simp add: roster_entry_def)

text \<open>One group changes, by a given relation.\<close>
definition group_rel :: "(GroupState \<Rightarrow> GroupState \<Rightarrow> bool) \<Rightarrow> bytes \<Rightarrow> GroupRoster \<Rightarrow> GroupRoster \<Rightarrow> bool" where
  "group_rel R gid roster roster' \<longleftrightarrow> (\<forall>g. g \<noteq> gid \<longrightarrow> roster_entry g roster' = roster_entry g roster) \<and>
     R (roster_entry gid roster) (roster_entry gid roster')"

text \<open>The contract of a relation that allows changes of the tree history and of the history commitment.\<close>
locale history_relation = state_relation R for R :: "GroupState \<Rightarrow> GroupState \<Rightarrow> bool" +
  assumes tree: "tree_frame st st' \<Longrightarrow> R st st'"
    and commitment: "R st (st\<lparr>gs_current_history_commitment := c\<rparr>)"
begin

lemma evolves_tree: "evolves tree_frame m \<Longrightarrow> evolves R m"
  unfolding evolves_def using tree by blast

lemma evolves_commitment: "evolves R (ensure_current_history_commitment E W gid)"
  unfolding ensure_current_history_commitment_def Let_def
  by (intro evolves_intro evolves_upd evolves_if evolves_tree [OF frame_refresh] commitment)

lemma evolves_snapshot: "evolves R (record_barrier_public_tree_snapshot E W gid)"
proof -
  have "evolves R (tryS (encode_snapshot es) (\<lambda>snapshot.
        tryS (getS gs_barrier_version) (\<lambda>version.
        tryS (ensure_current_history_commitment E W gid) (\<lambda>commitment.
        tryS (updS (\<lambda>st. st\<lparr>gs_tree_history :=
          bt_insert (gs_kem_tree_hash_after st) (stamp version commitment snapshot) (gs_tree_history st)\<rparr>)) (\<lambda>_.
        prune_tree_history)))))" for es
    by (intro evolves_intro evolves_commitment evolves_tree [OF frame_prune] evolves_tree [OF frame_encode] evolves_tree [OF frame_history])
  then show ?thesis
    by (auto simp: evolves_def record_barrier_public_tree_snapshot_def refl)
qed

lemma evolves_commit: "evolves R (commit_current X gid h)"
  unfolding commit_current_def by (auto intro!: evolves_intro evolves_commitment)

lemma rel_on_group: "evolves R m \<Longrightarrow> evolves (group_rel R gid) (on_group gid m)"
  by (rule evolvesI) (auto simp: eff_simps group_rel_def dest: evolvesD)

lemma rel_upd_group: "(\<And>st. R st (f st)) \<Longrightarrow> evolves (group_rel R gid) (updS (upd_group gid f))"
  by (simp add: evolves_def updS_def group_rel_def upd_group_def)

sublocale rosters: state_relation "group_rel R gid" for gid
  by unfold_locales (auto simp: group_rel_def refl intro: trans)

lemma rel_adopted:
  assumes "adopt_validation E W gid out st = (Inr (), st')"
  shows "R (adopt_update out st) st'"
proof -
  obtain hash where run: "tryS (ensure_current_history_commitment E W gid) (\<lambda>commitment.
     tryS (getS gs_barrier_version) (\<lambda>version.
     tryS (record_snapshot_with_metadata hash version commitment (vo_snapshot_pre out)) (\<lambda>_.
     record_barrier_public_tree_snapshot E W gid))) (adopt_update out st) = (Inr (), st')"
    using assms unfolding adopt_validation_def by (auto simp: eff_simps)
  have "evolves R (tryS (ensure_current_history_commitment E W gid) (\<lambda>commitment.
     tryS (getS gs_barrier_version) (\<lambda>version.
     tryS (record_snapshot_with_metadata hash version commitment (vo_snapshot_pre out)) (\<lambda>_.
     record_barrier_public_tree_snapshot E W gid))))"
    by (intro evolves_intro evolves_commitment evolves_snapshot evolves_tree [OF frame_record])
  then show ?thesis
    using run by (rule evolvesD)
qed

end

text \<open>The contract of a relation that allows the records of joined and revoked leaves and of what was accepted to change.\<close>
locale record_relation = history_relation R for R :: "GroupState \<Rightarrow> GroupState \<Rightarrow> bool" +
  assumes joined: "evolves R (apply_joined_leaf version pk ek leaf)"
    and revoked: "evolves R (apply_revoked_leaf leaf)"
    and joins: "R st (st\<lparr>gs_join_history := j\<rparr>)"
    and merged: "R st (record_merge h m validation before st)"
    and author: "R st (finalize_author h token st)"
begin

lemma evolves_for_each: "(\<And>x. evolves R (f x)) \<Longrightarrow> evolves R (for_each f xs)"
  by (induction xs) (simp_all add: evolves_intro)

lemma evolves_prune_joins: "evolves R prune_join_history"
  by (auto simp: evolves_def prune_join_history_def tryS_def liftS_def Let_def refl joins split: sum.splits)

lemma evolves_membership: "evolves R (apply_membership h delta version ek)"
  unfolding apply_membership_def
  by (auto intro!: evolves_intro evolves_for_each joined revoked evolves_prune_joins)

end

text \<open>The contract of a relation that an accepted bundle respects: changes of the membership too.\<close>
locale group_relation = record_relation R for R :: "GroupState \<Rightarrow> GroupState \<Rightarrow> bool" +
  assumes members: "R st (st\<lparr>gs_snapshots := s, gs_revoked := v\<rparr>)"
    and latest: "R st (sync_next_index (st\<lparr>gs_snapshots := s, gs_latest_root := l\<rparr>))"
begin

lemma evolves_delta: "evolves R (delta_from P root delta base)"
  unfolding delta_from_def Let_def by (intro evolves_intro evolves_upd members latest)

lemma rel_delta: "evolves (group_rel R gid) (roster_apply_delta P gid root delta)"
proof -
  have "evolves R (\<lambda>st. case bt_get (gs_snapshots st) root of
       Some snapshot \<Rightarrow> delta_from P root delta snapshot st
     | None \<Rightarrow>
         if is_zero_root root \<and> gs_snapshots st = [] then delta_from P root delta {} st
         else (Inl (CgInvalidInput ''unknown membership base root''), st))"
    using evolves_delta by (auto simp: evolves_def refl split: option.split)
  then show ?thesis
    unfolding roster_apply_delta_def by (rule rel_on_group)
qed

lemma rel_members: "evolves (group_rel R (bundle_gid b)) (settle_members X b delta before validation version)"
  unfolding settle_members_def Let_def
  by (intro rosters.evolves_intro rel_on_group rel_upd_group rel_delta evolves_membership merged author)

end

section \<open>What keeps the barrier\<close>

text \<open>The tree and the barrier of a group.\<close>
definition barrier_fields where
  "barrier_fields st = ((gs_barrier_initialized st, gs_barrier_version st, gs_barrier_roots_hash st, gs_kem_tree_hash_after st, gs_n_max st),
     (gs_last_pcs_refresh_ec st, gs_pcs_refresh_min_delta_device_ec st, gs_pcs_refresh_min_delta_group_ec st,
      gs_pcs_refresh_slot_width_ec st, gs_max_barrier_update_bytes st), gs_barrier_pk_entries st, gs_barrier_hash_cache st)"

definition barrier_frame :: "GroupState \<Rightarrow> GroupState \<Rightarrow> bool" where
  "barrier_frame st st' \<longleftrightarrow> barrier_fields st' = barrier_fields st"

interpretation frames: state_relation barrier_frame
  by unfold_locales (auto simp: barrier_frame_def)

lemma barrier_upd_fields [simp]:
  "barrier_fields (ensure_slot_allocator_initialized st) = barrier_fields st"
  "barrier_fields (st\<lparr>gs_free_slots := a\<rparr>) = barrier_fields st"
  "barrier_fields (st\<lparr>gs_slot_generations := b\<rparr>) = barrier_fields st"
  "barrier_fields (st\<lparr>gs_leaf_slot_leases := c\<rparr>) = barrier_fields st"
  "barrier_fields (st\<lparr>gs_revoked_slot_leases := d\<rparr>) = barrier_fields st"
  "barrier_fields (st\<lparr>gs_revoked := e\<rparr>) = barrier_fields st"
  "barrier_fields (st\<lparr>gs_pending_join_finalize_auth := i\<rparr>) = barrier_fields st"
  "barrier_fields (st\<lparr>gs_rotation_required := j\<rparr>) = barrier_fields st"
  by (simp_all add: barrier_fields_def ensure_slot_allocator_initialized_def Let_def)

lemma barrier_reserve: "evolves barrier_frame (reserve_slot_lease leaf lease)"
  by (auto simp: evolves_def barrier_frame_def reserve_slot_lease_def Let_def split: option.splits)

lemma barrier_activate: "evolves barrier_frame (activate_slot_lease leaf lease)"
  unfolding activate_slot_lease_def
  by (intro frames.evolves_intro frames.evolves_upd barrier_reserve) (simp add: barrier_frame_def)

lemma barrier_activates: "evolves barrier_frame (activate_leases leases)"
  by (induction leases rule: activate_leases.induct) (simp_all add: frames.evolves_intro barrier_activate)

lemma barrier_joined: "evolves barrier_frame (apply_joined_leaf version pk ek leaf)"
  unfolding apply_joined_leaf_def Let_def
  by (intro frames.evolves_intro frames.evolves_upd barrier_activate) (simp add: barrier_frame_def barrier_fields_def)

lemma barrier_revoked: "evolves barrier_frame (apply_revoked_leaf leaf)"
  by (auto simp: evolves_def apply_revoked_leaf_def barrier_frame_def tryS_def updS_def release_slot_lease_def Let_def barrier_fields_def
      ensure_slot_allocator_initialized_def split: sum.splits prod.splits option.splits)

lemma reclaim_fields:
  assumes "\<And>st leaf v w. f (st\<lparr>gs_revoked := v, gs_revoked_slot_leases := w\<rparr>) = f st"
  shows "f (finalize_slot_reclaim lease st) = f st"
proof -
  have "f (fold (\<lambda>leaf st. st\<lparr>gs_revoked := gs_revoked st - {leaf}, gs_revoked_slot_leases :=
    bt_remove leaf (gs_revoked_slot_leases st)\<rparr>) leaves st) = f st" for leaves
    by (induction leaves arbitrary: st) (simp_all add: assms)
  then show ?thesis
    by (simp add: finalize_slot_reclaim_def)
qed

lemma barrier_reclaim [simp]: "barrier_fields (finalize_slot_reclaim lease st) = barrier_fields st"
  by (rule reclaim_fields) simp

interpretation barrier: group_relation barrier_frame
proof
  show "barrier_frame st st'" if "tree_frame st st'" for st st'
    using arg_cong [OF that [unfolded tree_frame_def], of barrier_fields] by (simp add: barrier_frame_def barrier_fields_def)
  show "barrier_frame st (finalize_author h token st)" for st h token
    by (simp add: finalize_author_def finalize_join_def barrier_frame_def split: option.split list.split)
qed (simp_all add: barrier_joined barrier_revoked barrier_frame_def barrier_fields_def sync_next_index_def record_merge_def Let_def
    split: option.split)

lemma barrier_pull_cong: "barrier_frame st st' \<Longrightarrow> barrier_frame (pull_barrier b st) (pull_barrier b st')"
  by (auto simp: barrier_frame_def barrier_fields_def pull_barrier_def)

lemma barrier_adopt_cong: "barrier_frame st st' \<Longrightarrow> barrier_frame (adopt_update out st) (adopt_update out st')"
  by (auto simp: barrier_frame_def barrier_fields_def adopt_update_def)

definition settled_tree :: "BarrierUpdateValidationOutcome option \<Rightarrow> BarrierGroupState \<Rightarrow> GroupState \<Rightarrow> GroupState" where
  "settled_tree validation barrier st =
     (case validation of None \<Rightarrow> pull_barrier barrier st | Some out \<Rightarrow> adopt_update out (pull_barrier barrier st))"

lemma settled_group:
  assumes "settle_group X b delta leases before validation barrier roster = (Inr root, roster')"
  shows "g \<noteq> bundle_gid b \<Longrightarrow> roster_entry g roster' = roster_entry g roster"
    "barrier_frame (settled_tree validation barrier (roster_entry (bundle_gid b) roster)) (roster_entry (bundle_gid b) roster')"
proof -
  let ?gid = "bundle_gid b"
  obtain st u where st: "activate_leases leases (roster_entry ?gid roster) = (Inr (), st)"
    and u: "settle_members X b delta before validation (bg_barrier_version barrier)
      (upd_group ?gid (pull_barrier barrier) (bt_insert ?gid st roster)) = (Inr root, u)"
    and run: "(case validation of None \<Rightarrow> (\<lambda>roster. (Inr (), roster))
       | Some out \<Rightarrow> on_group ?gid (adopt_validation (se_ext X) (wire (se_verifiers X)) ?gid out)) u = (Inr (), roster')"
    using assms unfolding settle_group_def Let_def by (auto simp: eff_simps)
  note frame = evolvesD [OF barrier.rel_members u]
  have first: "barrier_frame (roster_entry ?gid roster) st"
    by (rule evolvesD [OF barrier_activates st])
  have mid: "barrier_frame (pull_barrier barrier (roster_entry ?gid roster)) (roster_entry ?gid u)"
    using barrier_pull_cong [OF first, of barrier] frame by (auto simp: group_rel_def upd_group_def intro: frames.trans)
  show "roster_entry g roster' = roster_entry g roster" if "g \<noteq> ?gid"
    using that frame run by (cases validation) (auto simp: group_rel_def upd_group_def eff_simps)
  show "barrier_frame (settled_tree validation barrier (roster_entry ?gid roster)) (roster_entry ?gid roster')"
    using run mid by (cases validation)
      (auto simp: settled_tree_def eff_simps dest!: barrier.rel_adopted intro: frames.trans barrier_adopt_cong)
qed

section \<open>The pipeline and the roster\<close>

lemma extracted_context:
  assumes "accept_and_extract_or V de a h proof hb witness ctx = (Inr acceptance, ctx')"
  obtains ctx1 where "accept_anchor V (instance_parts a) (ai_we_epoch_id a) h ctx = (Inr (ar_outcome acceptance), ctx1)"
    "\<And>g. group_or_default ctx' g = group_or_default ctx1 g"
proof -
  have vck: "group_or_default (c\<lparr>ax_vck_cache := v\<rparr>) g = group_or_default c g" for c :: AcceptanceContext and v g
    by (simp add: group_or_default_def barrier_group_state_def)
  from assms show thesis
    unfolding accept_and_extract_or_def accept_anchor_or_def Let_def
    by (auto simp: eff_simps ctx_should_verify_hp_def record_verified_hp_def vck
        split: if_splits sum.splits prod.splits intro: that)
qed

lemma gate_bytes:
  assumes "enforce_barrier_acceptance_gating V ctx gid h t = Inr gate" "gd_barrier_update_reason gate \<noteq> None"
  shows "value_bytes h HDR_BARRIER_UPDATE \<noteq> None"
proof -
  have "read_barrier_gate V ctx gid h = Inr gate"
    using assms(1) by (auto simp: enforce_barrier_acceptance_gating_def result_simps gate_uninitialized_def gate_revocation_def
      gate_proactive_def split: if_splits option.splits)
  then obtain n m p where "parse_barrier_update_from_header (ext V) (wire V) h n m = Inr p"
    using assms(2) by (auto simp: read_barrier_gate_def result_simps Let_def split: if_splits)
  then show ?thesis
    by (auto simp: parse_barrier_update_from_header_def result_simps value_bytes_def split: option.splits cbor.splits)
qed

lemma gate_tree_size:
  assumes "enforce_barrier_acceptance_gating V ctx gid h t = Inr gate" "gd_parsed_barrier_update gate = Some p"
  shows "pb_tree_size p = bg_n_max (group_or_default ctx gid)"
proof -
  have "read_barrier_gate V ctx gid h = Inr gate"
    using assms(1) by (auto simp: enforce_barrier_acceptance_gating_def result_simps gate_uninitialized_def gate_revocation_def
      gate_proactive_def split: if_splits option.splits)
  then obtain m where "parse_barrier_update_from_header (ext V) (wire V) h (bg_n_max (group_or_default ctx gid)) m = Inr p"
    using assms(2) by (auto simp: read_barrier_gate_def result_simps Let_def group_or_default_def split: if_splits)
  then show ?thesis
    by (auto simp: pipeline_parse_iff well_formed_update_def)
qed

lemma processed:
  assumes "process_bundle X b s = (Inr acceptance, s')"
  obtains reason where "parse_barrier_update_reason (ce_header_map b) = Inr reason" "sg_roster s' = sg_roster s"
    "\<And>g. g \<noteq> bundle_gid b \<Longrightarrow> barrier_part (sg_ctx s') g = barrier_part (sg_ctx s) g"
    "reason = None \<Longrightarrow> barrier_part (sg_ctx s') (bundle_gid b) = barrier_part (sg_ctx s) (bundle_gid b)"
    "reason \<noteq> None \<Longrightarrow> bg_barrier_initialized (group_or_default (sg_ctx s') (bundle_gid b))"
    "reason \<noteq> None \<Longrightarrow> value_bytes (ce_header_map b) HDR_BARRIER_UPDATE \<noteq> None"
    "bg_n_max (group_or_default (sg_ctx s') (bundle_gid b)) = bg_n_max (group_or_default (sg_ctx s) (bundle_gid b))"
proof -
  let ?h = "ce_header_map b" and ?gid = "bundle_gid b"
  have roster: "sg_roster s' = sg_roster s"
    using assms by (auto simp: process_bundle_def split: prod.splits)
  obtain w where run: "accept_and_extract_or (se_verifiers X) (se_witness X) (anchor_instance b) ?h (ce_hp_proof b) (ce_hp_binding b) w
      (sg_ctx s) = (Inr acceptance, sg_ctx s')"
    using assms by (auto simp: process_bundle_def process_anchor_or_def map_err_def split: prod.splits sum.splits)
  obtain ctx1 where accept: "accept_anchor (se_verifiers X) (instance_parts (anchor_instance b)) (ce_we_epoch_id b) ?h (sg_ctx s) =
      (Inr (ar_outcome acceptance), ctx1)" and same: "\<And>g. group_or_default (sg_ctx s') g = group_or_default ctx1 g"
    using extracted_context [OF run] by (metis (no_types, lifting) AnchorInstance.select_convs(3) anchor_instance_def)
  have gid: "ap_gid (instance_parts (anchor_instance b)) = ?gid"
    by (simp add: instance_parts_def anchor_instance_def bundle_gid_def Let_def)
  obtain now ctx0 where t: "ticked (sg_ctx s) = (now, ctx0)"
    by fastforce
  from accept t show thesis
  proof (cases rule: accept_gated)
    case (accepted out gate u)
    have part: "barrier_part (sg_ctx s') g = barrier_part ctx1 g" for g
      by (simp add: barrier_part_def same)
    note before = accepted(3) [unfolded ticked_epochs(5) [OF t]]
    show thesis
    proof (rule that)
      show "parse_barrier_update_reason ?h = Inr (gd_barrier_update_reason gate)"
        by (rule gate_reason [OF accepted(2)])
      show "barrier_part (sg_ctx s') g = barrier_part (sg_ctx s) g" if "g \<noteq> ?gid" for g
        using that before by (simp add: part accepted(4) gid commit_part)
      show "barrier_part (sg_ctx s') ?gid = barrier_part (sg_ctx s) ?gid" if "gd_barrier_update_reason gate = None"
        using that before by (simp add: part accepted(4) gid apply_barrier_acceptance_commit_def)
      show "bg_barrier_initialized (group_or_default (sg_ctx s') ?gid)" if "gd_barrier_update_reason gate \<noteq> None"
        using that by (auto simp: same accepted(4) gid apply_barrier_acceptance_commit_def Let_def group_entry_mut ctx_simps split: option.split)
      show "value_bytes ?h HDR_BARRIER_UPDATE \<noteq> None" if "gd_barrier_update_reason gate \<noteq> None"
        by (rule gate_bytes [OF accepted(2) that])
      have parts: "barrier_part u ?gid = barrier_part (sg_ctx s) ?gid" "barrier_part ctx0 ?gid = barrier_part (sg_ctx s) ?gid"
        using before ticked_epochs(5) [OF t] by simp_all
      have n: "bg_n_max (group_or_default u ?gid) = bg_n_max (group_or_default (sg_ctx s) ?gid)"
        "bg_n_max (group_or_default ctx0 ?gid) = bg_n_max (group_or_default (sg_ctx s) ?gid)"
        using arg_cong [OF parts(1), of bg_n_max] arg_cong [OF parts(2), of bg_n_max] by (simp_all add: barrier_part_def)
      show "bg_n_max (group_or_default (sg_ctx s') ?gid) = bg_n_max (group_or_default (sg_ctx s) ?gid)"
        using gate_tree_size [OF accepted(2)] n
        by (auto simp: same accepted(4) gid apply_barrier_acceptance_commit_def Let_def group_entry_mut ctx_simps split: option.split)
    qed (rule roster)
  qed simp
qed

lemma reasons_agree: "server_update_reason h = Inr r \<Longrightarrow> parse_barrier_update_reason h = Inr r' \<Longrightarrow> r = r'"
  by (auto simp: server_update_reason_def parse_barrier_update_reason_def result_simps Let_def split: if_splits option.splits cbor.splits)

lemma validation_reason:
  assumes "validate_barrier_update_against_roster E W st h delta = Inr v" "parse_barrier_update_reason h = Inr reason"
    and "reason \<noteq> None \<Longrightarrow> value_bytes h HDR_BARRIER_UPDATE \<noteq> None"
  shows "v = None \<longleftrightarrow> reason = None"
proof -
  have "server_update_reason h = Inr reason"
    using assms(1) reasons_agree [OF _ assms(2)] by (auto simp: validate_barrier_update_against_roster_def result_simps)
  then have run: "if reason = None then v = None
      else \<exists>p. parse_barrier_update E W h (gs_n_max st) = Inr p \<and> (p \<noteq> None \<longrightarrow> v \<noteq> None)"
    using assms(1) by (auto simp: validate_barrier_update_against_roster_def result_simps split: if_splits option.splits)
  have "p \<noteq> None" if "parse_barrier_update E W h (gs_n_max st) = Inr p" "reason \<noteq> None" for p
    using assms(3) [OF that(2)] that(1) by (auto simp: parse_barrier_update_def result_simps split: option.splits)
  then show ?thesis
    using run by (auto split: if_splits)
qed

lemma commit_current_state: "commit_current X gid h st = (Inr st', u) \<Longrightarrow> st' = u"
  by (auto simp: commit_current_def eff_simps)

definition yields :: "('a \<Rightarrow> bool) \<Rightarrow> 'e + 'a \<Rightarrow> bool" where
  "yields P r \<longleftrightarrow> (\<forall>x. r = Inr x \<longrightarrow> P x)"

lemma yields_simps [simp]:
  "yields P (tryE m f) \<longleftrightarrow> (\<forall>x. m = Inr x \<longrightarrow> yields P (f x))" "yields P (Inr x) \<longleftrightarrow> P x" "yields P (Inl e)"
  by (auto simp: yields_def result_simps)

text \<open>What is put back is a ticket for the lease that its leaf holds.\<close>
lemma rehydrated:
  assumes "rehydrate_replay_join_finalize_auth E W h st = Inr st'"
  shows "st' = st \<or> (\<exists>leaf lease token. bt_get (gs_leaf_slot_leases st) leaf = Some lease \<and> st' = record_pending_join leaf lease token st)"
proof -
  have "yields (\<lambda>st'. st' = st \<or> (\<exists>leaf lease token. bt_get (gs_leaf_slot_leases st) leaf = Some lease \<and>
      st' = record_pending_join leaf lease token st)) (rehydrate_replay_join_finalize_auth E W h st)"
    unfolding rehydrate_replay_join_finalize_auth_def record_pending_join_def
    by (auto split: option.split list.split simp: require_active_slot_lease_def result_simps)
  then show ?thesis
    using assms by (simp add: yields_def)
qed

lemma barrier_rehydrate: "rehydrate_replay_join_finalize_auth E W h st = Inr st' \<Longrightarrow> barrier_frame st st'"
  by (auto dest!: rehydrated simp: barrier_frame_def record_pending_join_def)

lemma barrier_before:
  assumes "group_before X replaying h leases st = Inr st'"
  shows "barrier_frame st st'"
proof -
  obtain u where u: "activate_leases leases st = (Inr (), u)"
    "(if replaying then rehydrate_replay_join_finalize_auth (se_ext X) (se_wire X) h u else Inr u) = Inr st'"
    using assms by (auto simp: group_before_def split: prod.splits sum.splits)
  show ?thesis
    using evolvesD [OF barrier_activates u(1)] u(2) barrier_rehydrate frames.trans by (metis Inr_inject)
qed

lemma checked_run:
  assumes "check_bundle X authority replaying b s = (Inr (delta, leases, before, validation), s')"
  obtains r1 st r2 where
    "on_group (bundle_gid b) (liftS (\<lambda>st. derive_implicit_genesis_slot_leases (se_ext X) (se_wire X) st (ce_header_map b) delta))
       (sg_roster s) = (Inr leases, r1)"
    "on_group (bundle_gid b) (commit_current X (bundle_gid b) (ce_header_map b)) r1 = (Inr st, r2)"
    "group_before X replaying (ce_header_map b) leases st = Inr before" "s' = s\<lparr>sg_roster := r2\<rparr>"
    "validate_barrier_update_against_roster (se_ext X) (se_wire X) before (ce_header_map b) delta = Inr validation"
    "validate_history_authority_headers (se_ext X) (se_wire X) (se_authority X) authority (bundle_gid b) before (ce_header_map b) = Inr ()"
  using assms unfolding check_bundle_def Let_def tryS_eq_Inr on_roster_run liftS_eq by fastforce

lemma checked:
  assumes "check_bundle X authority replaying b s = (Inr (delta, leases, before, validation), s')"
  shows "sg_ctx s' = sg_ctx s" "sg_receiver s' = sg_receiver s" "group_rel barrier_frame (bundle_gid b) (sg_roster s) (sg_roster s')"
    "barrier_frame (roster_entry (bundle_gid b) (sg_roster s)) before"
    "validate_barrier_update_against_roster (se_ext X) (se_wire X) before (ce_header_map b) delta = Inr validation"
proof -
  let ?gid = "bundle_gid b" and ?h = "ce_header_map b" and ?E = "se_ext X"
  obtain r1 st r2 where r1: "on_group ?gid (liftS (\<lambda>st. derive_implicit_genesis_slot_leases ?E (se_wire X) st ?h delta)) (sg_roster s) = (Inr leases, r1)"
    and r2: "on_group ?gid (commit_current X ?gid ?h) r1 = (Inr st, r2)"
    and before: "group_before X replaying ?h leases st = Inr before" and s': "s' = s\<lparr>sg_roster := r2\<rparr>"
    and valid: "validate_barrier_update_against_roster ?E (se_wire X) before ?h delta = Inr validation"
    by (rule checked_run [OF assms])
  have f: "group_rel barrier_frame ?gid (sg_roster s) r1" "group_rel barrier_frame ?gid r1 r2"
    using evolvesD [OF barrier.rel_on_group [OF frames.evolves_lift] r1] evolvesD [OF barrier.rel_on_group [OF barrier.evolves_commit] r2] by blast+
  show "sg_ctx s' = sg_ctx s" "sg_receiver s' = sg_receiver s"
    "validate_barrier_update_against_roster ?E (se_wire X) before ?h delta = Inr validation"
    using s' valid by simp_all
  show frame: "group_rel barrier_frame ?gid (sg_roster s) (sg_roster s')"
    using barrier.rosters.trans f s' by simp
  have "roster_entry ?gid r2 = st"
    using r2 by (auto simp: eff_simps dest: commit_current_state)
  then show "barrier_frame (roster_entry ?gid (sg_roster s)) before"
    using frame barrier_before [OF before] frames.trans s' by (auto simp: group_rel_def)
qed

section \<open>The invariant of the server\<close>

text \<open>The barrier that the roster has for a group, on the fields that only a barrier update changes.\<close>
definition roster_barrier :: "GroupState \<Rightarrow> BarrierGroupState" where
  "roster_barrier st = (push_barrier st barrier_group_default)\<lparr>bg_srx_root_sw := None, bg_last_checkpoint_ec := 0, bg_last_accepted_ec := 0\<rparr>"

text \<open>The tree of a group has its size and the hash the group names; a cache is right for it.\<close>
definition tree_inv :: "Ext \<Rightarrow> GroupState \<Rightarrow> bool" where
  "tree_inv E st \<longleftrightarrow> (let n = max (gs_n_max st) 1; es = gs_barrier_pk_entries st in
     (es \<noteq> [] \<longrightarrow> tree_len n = Some (length es) \<and> compute_barrier_tree_hash E n es = Inr (gs_kem_tree_hash_after st)) \<and>
     (\<forall>c. gs_barrier_hash_cache st = Some c \<longrightarrow> gs_barrier_initialized st \<and> n \<noteq> 1 \<and> es \<noteq> [] \<and> cache_ok E n es UNIV c))"

definition server_inv :: "Ext \<Rightarrow> AcceptanceContext \<Rightarrow> GroupRoster \<Rightarrow> bool" where
  "server_inv E ctx roster \<longleftrightarrow> (\<forall>gid. barrier_part ctx gid = roster_barrier (roster_entry gid roster) \<and> tree_inv E (roster_entry gid roster))"

lemma roster_barrier_cong: "barrier_frame st st' \<Longrightarrow> roster_barrier st' = roster_barrier st"
  by (auto simp: barrier_frame_def barrier_fields_def roster_barrier_def push_barrier_def)

lemma tree_inv_cong: "barrier_frame st st' \<Longrightarrow> tree_inv E st' = tree_inv E st"
  by (simp add: barrier_frame_def barrier_fields_def tree_inv_def)

lemma server_inv_frame:
  assumes "server_inv E ctx roster" "group_rel barrier_frame gid roster roster'" "\<And>g. barrier_part ctx' g = barrier_part ctx g"
  shows "server_inv E ctx' roster'"
  unfolding server_inv_def
proof
  fix g
  have "barrier_frame (roster_entry g roster) (roster_entry g roster')"
    using assms(2) by (cases "g = gid") (simp_all add: group_rel_def frames.refl)
  then show "barrier_part ctx' g = roster_barrier (roster_entry g roster') \<and> tree_inv E (roster_entry g roster')"
    using assms(1,3) by (simp add: server_inv_def roster_barrier_cong tree_inv_cong)
qed

lemma tree_len_pos:
  assumes "n \<noteq> 0"
  shows "tree_len n \<noteq> Some 0"
proof
  assume "tree_len n = Some 0"
  then have bound: "unat n < 2 ^ 63" and zero: "unat (n * 2 - 1) = 0"
    by (auto simp: tree_len_def bind_eq_Some_conv checked_mul_def checked_sub_def split: if_splits)
  have two: "unat (n * 2) = 2 * unat n"
    using bound by (simp add: unat_word_ariths)
  have "n * 2 = 1"
    using zero by (simp add: unat_eq_zero)
  then have "unat (n * 2) = 1"
    by simp
  then show False
    using two by presburger
qed

lemma tree_inv_ok:
  assumes "tree_inv E st"
  shows "server_tree_ok E st"
proof -
  have "max (gs_n_max st) 1 \<noteq> 0"
    by (auto simp: max_def)
  from tree_len_pos [OF this] assms show ?thesis
    unfolding tree_inv_def server_tree_ok_def Let_def by (cases "gs_barrier_pk_entries st = []") auto
qed

lemma pulled_tree:
  assumes "tree_inv E st" "barrier_part ctx gid = roster_barrier st" "barrier_frame (pull_barrier (group_or_default ctx gid) st) st'"
  shows "tree_inv E st'"
proof -
  have "bg_kem_tree_hash_after (barrier_part ctx gid) = gs_kem_tree_hash_after st"
    "bg_n_max (barrier_part ctx gid) = max (gs_n_max st) 1" "bg_barrier_initialized (barrier_part ctx gid) = gs_barrier_initialized st"
    by (simp_all add: assms(2) roster_barrier_def push_barrier_def)
  then have "tree_inv E (pull_barrier (group_or_default ctx gid) st) = tree_inv E st"
    by (simp add: tree_inv_def pull_barrier_def barrier_part_def Let_def)
  then show ?thesis
    using assms(1,3) tree_inv_cong by blast
qed

lemma adopted_inv:
  assumes "validate_barrier_update_against_roster E W before h delta = Inr (Some out)" "tree_inv E before"
    and "bg_barrier_initialized b" "barrier_frame (adopt_update out (pull_barrier b st)) st'"
  shows "tree_inv E st'"
proof -
  obtain len owned where parsed: "parse_barrier_update E W h (gs_n_max before) = Inr (Some (vo_parsed out))"
    using validated_update [OF assms(1)] by metis
  note facts = parsed_update [OF parsed]
  note tree = adopted_tree [OF assms(1) tree_inv_ok [OF assms(2)]]
  have "vo_snapshot_post out \<noteq> []"
    using tree(3) tree_len_pos [OF facts(1)] facts(3) by auto
  then have "tree_inv E (adopt_update out (pull_barrier b st))"
    using tree facts(2,3) assms(3) by (simp add: tree_inv_def adopt_update_def pull_barrier_def max_one [OF facts(1)] Let_def)
  then show ?thesis
    using assms(4) tree_inv_cong by blast
qed

lemma mirrored_barrier: "group_or_default (mirror_parities b root acceptance ctx) g = group_or_default ctx g"
proof -
  have ins: "group_or_default (fold (\<lambda>p. insert_pivot_parity (f p) now) ps c) g = group_or_default c g" for f now ps c
    by (induction ps arbitrary: c) (simp_all add: ctx_simps)
  show ?thesis
    by (simp add: mirror_parities_def Let_def ins pivot_parities_for_def ctx_simps split: prod.split)
qed

text \<open>The states a successful bundle goes through.\<close>
lemma applied_run:
  assumes "apply_bundle_to_state X authority replaying b s = (Inr out, s')"
  obtains delta leases before validation s1 acceptance s2 root roster where
    "check_bundle X authority replaying b s = (Inr (delta, leases, before, validation), s1)"
    "process_bundle X b (s1\<lparr>sg_ctx := barrier_group_state_entry_mut (bundle_gid b) (\<lambda>st. st) (sg_ctx s1)\<rparr>) = (Inr acceptance, s2)"
    "settle_group X b delta leases before validation (group_or_default (sg_ctx s2) (bundle_gid b)) (sg_roster s2) = (Inr root, roster)"
    "sg_ctx s' = mirror_parities b root acceptance
       (barrier_group_state_entry_mut (bundle_gid b) (push_barrier (roster_entry (bundle_gid b) roster)) (sg_ctx s2))"
    "sg_roster s' = (if md_revoked delta \<noteq> [] then mark_kbroad_rotation_required (bundle_gid b) roster else roster)"
    "so_new_root out = root"
proof -
  have entry: "ok_or e (barrier_group_state c g) = Inr x \<Longrightarrow> group_or_default c g = x" for e :: CityGError and c g x
    by (auto simp: result_simps group_or_default_def)
  from assms show thesis
    unfolding apply_bundle_to_state_def Let_def upd_ctx_def tryS_eq_Inr on_roster_run liftS_eq updS_eq split_paired_Ex prod.case
  proof (elim exE conjE, goal_cases)
    case (1 delta leases before validation s1 _ s1' acceptance s2 barrier s2' root s3 roster)
    have "group_or_default (sg_ctx s2) (bundle_gid b) = barrier"
      by (rule entry [OF 1(5)])
    moreover have "so_new_root out = root"
      using 1 by (metis Inr_inject ServerOutcome.select_convs(4))
    ultimately show thesis
      by (intro that [of delta leases before validation s1 acceptance s2 root roster]) (use 1 in \<open>simp_all split: if_split\<close>)
  qed
qed

lemma applied_inv:
  assumes run: "apply_bundle_to_state X authority replaying b s = (Inr out, s')" and inv: "server_inv (se_ext X) (sg_ctx s) (sg_roster s)"
  shows "server_inv (se_ext X) (sg_ctx s') (sg_roster s')"
proof -
  let ?gid = "bundle_gid b" and ?E = "se_ext X"
  obtain delta leases before validation s1 acceptance s2 root roster where
    check: "check_bundle X authority replaying b s = (Inr (delta, leases, before, validation), s1)"
    and proc: "process_bundle X b (s1\<lparr>sg_ctx := barrier_group_state_entry_mut ?gid (\<lambda>st. st) (sg_ctx s1)\<rparr>) = (Inr acceptance, s2)"
    and settle: "settle_group X b delta leases before validation (group_or_default (sg_ctx s2) ?gid) (sg_roster s2) = (Inr root, roster)"
    and ctx: "sg_ctx s' = mirror_parities b root acceptance
       (barrier_group_state_entry_mut ?gid (push_barrier (roster_entry ?gid roster)) (sg_ctx s2))"
    and roster: "sg_roster s' = (if md_revoked delta \<noteq> [] then mark_kbroad_rotation_required ?gid roster else roster)"
    by (rule applied_run [OF run])
  note c = checked [OF check] and settled = settled_group [OF settle]
  have inv1: "server_inv ?E (sg_ctx s1) (sg_roster s1)"
    by (rule server_inv_frame [OF inv c(3)]) (simp add: c(1))
  obtain reason where reason: "parse_barrier_update_reason (ce_header_map b) = Inr reason" and same: "sg_roster s2 = sg_roster s1"
    and others: "\<And>g. g \<noteq> ?gid \<Longrightarrow> barrier_part (sg_ctx s2) g = barrier_part (sg_ctx s1) g"
    and none: "reason = None \<Longrightarrow> barrier_part (sg_ctx s2) ?gid = barrier_part (sg_ctx s1) ?gid"
    and some: "reason \<noteq> None \<Longrightarrow> bg_barrier_initialized (group_or_default (sg_ctx s2) ?gid)"
      "reason \<noteq> None \<Longrightarrow> value_bytes (ce_header_map b) HDR_BARRIER_UPDATE \<noteq> None"
    by (rule processed [OF proc]) (auto simp: barrier_part_def group_entry_mut)
  have iff: "validation = None \<longleftrightarrow> reason = None"
    by (rule validation_reason [OF c(5) reason some(2)])
  have tree: "tree_inv ?E (roster_entry ?gid roster)"
  proof (cases validation)
    case None
    have "barrier_part (sg_ctx s2) ?gid = roster_barrier (roster_entry ?gid (sg_roster s2))"
      using none None iff inv1 same by (simp add: server_inv_def)
    then show ?thesis
      using pulled_tree [OF _ _ settled(2) [unfolded settled_tree_def None option.case]] inv1 same by (simp add: server_inv_def)
  next
    case (Some out)
    have "tree_inv ?E before"
      using inv c(4) tree_inv_cong by (auto simp: server_inv_def)
    then show ?thesis
      using adopted_inv [OF _ _ some(1) settled(2) [unfolded settled_tree_def Some option.case]] c(5) Some iff by auto
  qed
  have mark: "group_rel barrier_frame ?gid roster (sg_roster s')"
    by (simp add: roster mark_kbroad_rotation_required_def group_rel_def upd_group_def barrier_frame_def)
  have part: "barrier_part (sg_ctx s') g = (if g = ?gid then roster_barrier (roster_entry ?gid roster) else barrier_part (sg_ctx s2) g)" for g
    by (simp add: barrier_part_def ctx mirrored_barrier group_entry_mut roster_barrier_def push_barrier_def)
  have "server_inv ?E (sg_ctx s') roster"
    unfolding server_inv_def
  proof
    fix g
    show "barrier_part (sg_ctx s') g = roster_barrier (roster_entry g roster) \<and> tree_inv ?E (roster_entry g roster)"
      using part tree inv1 same others settled(1) by (cases "g = ?gid") (simp_all add: server_inv_def)
  qed
  then show ?thesis
    by (rule server_inv_frame [OF _ mark refl])
qed

section \<open>Slots\<close>

text \<open>The slots of a group and the leases on them.\<close>
definition slot_fields where
  "slot_fields st = (gs_slot_generations st, gs_free_slots st, gs_leaf_slot_leases st, gs_pending_join_finalize_auth st, max (gs_n_max st) 1)"

lemma slot_inv_fields:
  assumes "slot_fields st' = slot_fields st"
  shows "slot_inv st' = slot_inv st"
proof -
  have eqs: "gs_slot_generations st' = gs_slot_generations st" "gs_free_slots st' = gs_free_slots st"
    "gs_leaf_slot_leases st' = gs_leaf_slot_leases st" "gs_pending_join_finalize_auth st' = gs_pending_join_finalize_auth st"
    "slot_capacity st' = slot_capacity st"
    using assms by (simp_all add: slot_fields_def slot_capacity_def)
  show ?thesis
    unfolding slot_inv_def leases_wf_def reserved_for_def lease_excl_def holds_lease_def slot_range_def eqs ..
qed

lemma slot_keeps:
  assumes "slot_fields st' = slot_fields st"
  shows "lease_keeps st st'"
proof -
  have "gs_slot_generations st' = gs_slot_generations st"
    using assms by (simp add: slot_fields_def)
  then show ?thesis
    by (simp add: lease_keeps_def slot_inv_fields [OF assms] gens_le_def)
qed

interpretation slots: group_relation lease_keeps
proof
  show "lease_keeps st st'" if "tree_frame st st'" for st st'
    using arg_cong [OF that [unfolded tree_frame_def], of slot_fields] by (intro slot_keeps) (simp add: slot_fields_def)
  show "evolves lease_keeps (apply_joined_leaf version pk ek leaf)" for version pk ek leaf
    by (rule evolvesI) (rule lease_step_keeps, rule lease_step.joined)
  show "evolves lease_keeps (apply_revoked_leaf leaf)" for leaf
    by (rule evolvesI) (rule lease_step_keeps, rule lease_step.revoked)
  show "lease_keeps st (finalize_author h token st)" for st h token
    using lease_step_keeps [OF lease_step.finalized] leases.refl by (auto simp: finalize_author_def split: option.split list.split)
qed (simp_all add: slot_keeps slot_fields_def sync_next_index_def record_merge_def Let_def split: option.split)

definition slot_frame :: "GroupState \<Rightarrow> GroupState \<Rightarrow> bool" where
  "slot_frame st st' \<longleftrightarrow> slot_fields st' = slot_fields st"

interpretation same_slots: history_relation slot_frame
proof
  show "slot_frame st st'" if "tree_frame st st'" for st st'
    using arg_cong [OF that [unfolded tree_frame_def], of slot_fields] by (simp add: slot_frame_def slot_fields_def)
qed (simp_all add: slot_frame_def slot_fields_def)

text \<open>The leases of the first joins are for different slots, of a group without leases.\<close>
lemma derived_leases:
  assumes "derive_implicit_genesis_slot_leases E W st h delta = Inr leases"
  shows "leases = [] \<or> gs_leaf_slot_leases st = [] \<and> gs_pending_join_finalize_auth st = [] \<and> distinct (map (sl_index \<circ> snd) leases)"
proof -
  have inj: "distinct (map (sl_index \<circ> snd) (map (\<lambda>(i, leaf). (leaf, \<lparr>sl_index = of_nat i :: u32, sl_generation = g\<rparr>)) (enumerate 0 ls)))"
    if "length ls \<le> unat (slot_capacity st)" for ls :: "hash32 list" and g
  proof -
    have "map (sl_index \<circ> snd) (map (\<lambda>(i, leaf). (leaf, \<lparr>sl_index = of_nat i :: u32, sl_generation = g\<rparr>)) (enumerate 0 ls)) =
      map of_nat [0..<length ls]"
      by (rule nth_equalityI) (simp_all add: nth_enumerate_eq)
    moreover have "inj_on (of_nat :: nat \<Rightarrow> u32) {0..<length ls}"
    proof (rule inj_onI)
      fix i j
      assume b: "i \<in> {0..<length ls}" "j \<in> {0..<length ls}" and eq: "(of_nat i :: u32) = of_nat j"
      have "unat (slot_capacity st) < 2 ^ 32"
        using unsigned_less [of "slot_capacity st"] by simp
      then have "i < 2 ^ 32" "j < 2 ^ 32"
        using b that by auto
      then show "i = j"
        using arg_cong [OF eq, of unat] by (simp add: unsigned_of_nat take_bit_nat_eq_self)
    qed
    ultimately show ?thesis
      by (simp add: distinct_map)
  qed
  have "yields (\<lambda>leases. leases = [] \<or> gs_leaf_slot_leases st = [] \<and> gs_pending_join_finalize_auth st = [] \<and>
      distinct (map (sl_index \<circ> snd) leases)) (derive_implicit_genesis_slot_leases E W st h delta)"
    unfolding derive_implicit_genesis_slot_leases_def using inj by (auto split: option.split simp: result_simps)
  then show ?thesis
    using assms by (simp add: yields_def)
qed

lemma held_insert:
  assumes "slot_inv st" "gs_pending_join_finalize_auth st = []" "activate_slot_lease leaf lease st = (Inr (), st')"
    and "\<And>l b. holds_lease st l b \<Longrightarrow> sl_index b \<noteq> sl_index lease"
  shows "lease_keeps st st'" "gs_pending_join_finalize_auth st' = []" "holds_lease st' l b \<Longrightarrow> holds_lease st l b \<or> b = lease"
proof -
  obtain u where u: "reserve_slot_lease leaf lease st = (Inr (), u)"
    and st': "st' = u\<lparr>gs_revoked := gs_revoked u - {leaf}, gs_revoked_slot_leases := bt_remove leaf (gs_revoked_slot_leases u)\<rparr>"
    using assms(3) by (auto simp: activate_slot_lease_def eff_simps)
  from u assms(1) have fresh: "bt_get (gs_leaf_slot_leases st) leaf = None \<and> gs_pending_join_finalize_auth u = [] \<and>
    gs_leaf_slot_leases u = bt_insert leaf lease (gs_leaf_slot_leases st)"
    using assms(2,4) by (cases rule: reserve_cases) (auto simp: holds_lease_def split: if_splits)
  then have none: "\<not> holds_lease st leaf b" for b
    using assms(2) by (simp add: holds_lease_def)
  show "lease_keeps st st'"
    by (rule lease_step_keeps, rule lease_step.genesis [OF assms(3)]) (use none assms(4) in metis)
  show "gs_pending_join_finalize_auth st' = []"
    using fresh by (simp add: st')
  show "holds_lease st' l b \<Longrightarrow> holds_lease st l b \<or> b = lease"
    using fresh by (auto simp: st' holds_lease_def split: if_splits)
qed

lemma activate_leases_keeps:
  assumes "activate_leases leases st = (Inr (), st')" "slot_inv st" "gs_pending_join_finalize_auth st = []"
    and "distinct (map (sl_index \<circ> snd) leases)" "\<And>l b. holds_lease st l b \<Longrightarrow> sl_index b \<notin> set (map (sl_index \<circ> snd) leases)"
  shows "slot_inv st'"
  using assms
proof (induction leases arbitrary: st rule: activate_leases.induct)
  case (2 leaf lease ls)
  obtain u where u: "activate_slot_lease leaf lease st = (Inr (), u)" "activate_leases ls u = (Inr (), st')"
    using 2(2) by (auto simp: eff_simps)
  have ne: "\<And>l b. holds_lease st l b \<Longrightarrow> sl_index b \<noteq> sl_index lease"
    using 2(6) by fastforce
  note held = held_insert [OF 2(3,4) u(1) ne]
  show ?case
  proof (rule 2(1) [OF u(2)])
    show "slot_inv u"
      using held(1) 2(3) by (simp add: lease_keeps_def)
    show "sl_index b \<notin> set (map (sl_index \<circ> snd) ls)" if "holds_lease u l b" for l b
      using held(3) [OF _ that] 2(5,6) by fastforce
  qed (use held(2) 2(5) in simp_all)
qed simp

lemma checked_slots:
  assumes "check_bundle X authority replaying b s = (Inr (delta, leases, before, validation), s')"
  shows "group_rel slot_frame (bundle_gid b) (sg_roster s) (sg_roster s')"
    "derive_implicit_genesis_slot_leases (se_ext X) (se_wire X) (roster_entry (bundle_gid b) (sg_roster s)) (ce_header_map b) delta = Inr leases"
proof -
  let ?gid = "bundle_gid b" and ?h = "ce_header_map b" and ?E = "se_ext X"
  obtain r1 st r2 where r1: "on_group ?gid (liftS (\<lambda>st. derive_implicit_genesis_slot_leases ?E (se_wire X) st ?h delta)) (sg_roster s) = (Inr leases, r1)"
    and r2: "on_group ?gid (commit_current X ?gid ?h) r1 = (Inr st, r2)" and s': "s' = s\<lparr>sg_roster := r2\<rparr>"
    by (rule checked_run [OF assms])
  have "group_rel slot_frame ?gid r1 r2"
    by (rule evolvesD [OF same_slots.rel_on_group [OF same_slots.evolves_commit] r2])
  then show "group_rel slot_frame ?gid (sg_roster s) (sg_roster s')"
    using r1 s' by (auto simp: eff_simps group_rel_def)
  show "derive_implicit_genesis_slot_leases ?E (se_wire X) (roster_entry ?gid (sg_roster s)) ?h delta = Inr leases"
    using r1 by (auto simp: eff_simps)
qed

lemma settled_slots:
  assumes "settle_group X b delta leases before validation barrier roster = (Inr root, roster')"
    and inv: "slot_inv (roster_entry (bundle_gid b) roster)"
    and leases: "leases = [] \<or> gs_leaf_slot_leases (roster_entry (bundle_gid b) roster) = [] \<and>
      gs_pending_join_finalize_auth (roster_entry (bundle_gid b) roster) = [] \<and> distinct (map (sl_index \<circ> snd) leases)"
    and n: "max (bg_n_max barrier) 1 = max (gs_n_max (roster_entry (bundle_gid b) roster)) 1"
    and size: "\<And>out. validation = Some out \<Longrightarrow> max (su_tree_size (vo_parsed out)) 1 = max (bg_n_max barrier) 1"
  shows "slot_inv (roster_entry (bundle_gid b) roster')"
proof -
  let ?gid = "bundle_gid b"
  obtain st u where st: "activate_leases leases (roster_entry ?gid roster) = (Inr (), st)"
    and u: "settle_members X b delta before validation (bg_barrier_version barrier)
      (upd_group ?gid (pull_barrier barrier) (bt_insert ?gid st roster)) = (Inr root, u)"
    and run: "(case validation of None \<Rightarrow> (\<lambda>roster. (Inr (), roster))
       | Some out \<Rightarrow> on_group ?gid (adopt_validation (se_ext X) (wire (se_verifiers X)) ?gid out)) u = (Inr (), roster')"
    using assms(1) unfolding settle_group_def Let_def by (auto simp: eff_simps)
  have "slot_inv st"
    using leases activate_leases_keeps [OF st inv] st inv by (auto simp: holds_lease_def)
  moreover have "gs_n_max st = gs_n_max (roster_entry ?gid roster)"
    using evolvesD [OF barrier_activates st] by (simp add: barrier_frame_def barrier_fields_def)
  ultimately have "slot_inv (pull_barrier barrier st)"
    using slot_inv_fields [of "pull_barrier barrier st" st] n by (simp add: slot_fields_def pull_barrier_def)
  then have mid: "slot_inv (roster_entry ?gid u)"
    using evolvesD [OF slots.rel_members u] by (simp add: group_rel_def upd_group_def lease_keeps_def)
  have nu: "gs_n_max (roster_entry ?gid u) = max (bg_n_max barrier) 1"
    using evolvesD [OF barrier.rel_members u] by (simp add: group_rel_def upd_group_def barrier_frame_def barrier_fields_def pull_barrier_def)
  show ?thesis
  proof (cases validation)
    case None
    then show ?thesis
      using run mid by simp
  next
    case (Some out)
    then obtain v where v: "adopt_validation (se_ext X) (wire (se_verifiers X)) ?gid out (roster_entry ?gid u) = (Inr (), v)"
      "roster' = bt_insert ?gid v u"
      using run by (auto simp: eff_simps)
    have "slot_inv (adopt_update out (roster_entry ?gid u))"
      using slot_inv_fields [of "adopt_update out (roster_entry ?gid u)" "roster_entry ?gid u"] mid nu size [OF Some]
      by (simp add: slot_fields_def adopt_update_def)
    then show ?thesis
      using slots.rel_adopted [OF v(1)] v(2) by (simp add: lease_keeps_def)
  qed
qed

definition slots_ok :: "GroupRoster \<Rightarrow> bool" where
  "slots_ok roster \<longleftrightarrow> (\<forall>gid. slot_inv (roster_entry gid roster))"

lemma applied_slots:
  assumes run: "apply_bundle_to_state X authority replaying b s = (Inr out, s')" and inv: "server_inv (se_ext X) (sg_ctx s) (sg_roster s)"
    and slots: "slots_ok (sg_roster s)"
  shows "slots_ok (sg_roster s')"
proof -
  let ?gid = "bundle_gid b" and ?E = "se_ext X"
  obtain delta leases before validation s1 acceptance s2 root roster where
    check: "check_bundle X authority replaying b s = (Inr (delta, leases, before, validation), s1)"
    and proc: "process_bundle X b (s1\<lparr>sg_ctx := barrier_group_state_entry_mut ?gid (\<lambda>st. st) (sg_ctx s1)\<rparr>) = (Inr acceptance, s2)"
    and settle: "settle_group X b delta leases before validation (group_or_default (sg_ctx s2) ?gid) (sg_roster s2) = (Inr root, roster)"
    and roster: "sg_roster s' = (if md_revoked delta \<noteq> [] then mark_kbroad_rotation_required ?gid roster else roster)"
    by (rule applied_run [OF run])
  let ?st = "roster_entry ?gid (sg_roster s)" and ?st1 = "roster_entry ?gid (sg_roster s1)"
  note c = checked [OF check] and cs = checked_slots [OF check]
  have same: "sg_roster s2 = sg_roster s1" and n: "bg_n_max (group_or_default (sg_ctx s2) ?gid) = bg_n_max (group_or_default (sg_ctx s) ?gid)"
    by (rule processed [OF proc], simp add: group_entry_mut c(1))+
  have eq: "slot_fields ?st1 = slot_fields ?st"
    using cs(1) by (simp add: group_rel_def slot_frame_def)
  have "bg_n_max (barrier_part (sg_ctx s) ?gid) = max (gs_n_max ?st) 1"
    using inv by (simp add: server_inv_def roster_barrier_def push_barrier_def)
  then have size: "max (bg_n_max (group_or_default (sg_ctx s2) ?gid)) 1 = max (gs_n_max ?st) 1"
    using n by (simp add: barrier_part_def)
  have "slot_inv (roster_entry ?gid roster)"
  proof (rule settled_slots [OF settle])
    show "slot_inv (roster_entry ?gid (sg_roster s2))"
      using slots same slot_inv_fields [OF eq] by (simp add: slots_ok_def)
    show "leases = [] \<or> gs_leaf_slot_leases (roster_entry ?gid (sg_roster s2)) = [] \<and>
        gs_pending_join_finalize_auth (roster_entry ?gid (sg_roster s2)) = [] \<and> distinct (map (sl_index \<circ> snd) leases)"
      using derived_leases [OF cs(2)] eq same by (simp add: slot_fields_def)
    show "max (bg_n_max (group_or_default (sg_ctx s2) ?gid)) 1 = max (gs_n_max (roster_entry ?gid (sg_roster s2))) 1"
      using size eq same by (simp add: slot_fields_def)
    show "max (su_tree_size (vo_parsed out)) 1 = max (bg_n_max (group_or_default (sg_ctx s2) ?gid)) 1" if some: "validation = Some out" for out
    proof -
      obtain len owned where "parse_barrier_update ?E (se_wire X) (ce_header_map b) (gs_n_max before) = Inr (Some (vo_parsed out))"
        using validated_update c(5) some by metis
      then show ?thesis
        using parsed_update(2) c(4) size by (simp add: barrier_frame_def barrier_fields_def)
    qed
  qed
  moreover have "slot_inv (roster_entry g roster)" if "g \<noteq> ?gid" for g
    using that slots settled_group(1) [OF settle that] c(3) same by (simp add: slots_ok_def group_rel_def)
  ultimately have all: "slot_inv (roster_entry g roster)" for g
    by (cases "g = ?gid") simp_all
  have "slot_inv (st\<lparr>gs_rotation_required := r\<rparr>) = slot_inv st" for st r
    by (rule slot_inv_fields) (simp add: slot_fields_def)
  then show ?thesis
    using all by (simp add: slots_ok_def roster mark_kbroad_rotation_required_def upd_group_def)
qed

section \<open>Refused bundles\<close>

lemma staged_outcome:
  assumes "stage_bundle X b srv = (r, srv')"
  shows "(\<exists>out s. r = Inr (out, s) \<and> srv' = srv \<and> apply_bundle_to_state X (cs_history_authority srv) (cs_replaying srv) b
        \<lparr>sg_ctx = set_pending_capss_witness (Some (ce_capss_witness b)) (cs_ctx srv), sg_receiver = cs_receiver srv,
         sg_roster = cs_roster srv\<rparr> = (Inr out, s)) \<or>
    (\<exists>e t. r = Inl e \<and> srv' = srv\<lparr>cs_ctx := (cs_ctx srv)\<lparr>ax_telemetry := t\<rparr>\<rparr>)"
  using assms by (auto simp: stage_bundle_def merge_telemetry_from_def split: sum.splits prod.splits)

text \<open>The server but for its telemetry and its journal.\<close>
definition same_but_logs :: "CityGServer \<Rightarrow> CityGServer \<Rightarrow> bool" where
  "same_but_logs srv srv' \<longleftrightarrow> srv' = srv\<lparr>cs_ctx := (cs_ctx srv)\<lparr>ax_telemetry := ax_telemetry (cs_ctx srv')\<rparr>, cs_journal := cs_journal srv'\<rparr>"

lemma same_but_logs_intros:
  "same_but_logs srv srv" "same_but_logs srv (srv\<lparr>cs_ctx := (cs_ctx srv)\<lparr>ax_telemetry := t\<rparr>\<rparr>)" "same_but_logs srv (srv\<lparr>cs_journal := j\<rparr>)"
  by (simp_all add: same_but_logs_def)

lemma appended: "append_journal write b srv = (r, srv') \<Longrightarrow> \<exists>j. srv' = srv\<lparr>cs_journal := j\<rparr>"
  by (auto simp: append_journal_def split: option.splits if_splits prod.splits intro: exI [of _ "cs_journal srv"])

lemma accept_epoch_run:
  assumes "accept_epoch X write b srv = (r, srv')"
  shows "case r of
      Inl e \<Rightarrow> same_but_logs srv srv'
    | Inr out \<Rightarrow> \<not> kbroad_rotation_required (cs_roster srv) (bundle_gid b) \<and>
        apply_bundle_to_state X (cs_history_authority srv) (cs_replaying srv) b
          \<lparr>sg_ctx = set_pending_capss_witness (Some (ce_capss_witness b)) (cs_ctx srv), sg_receiver = cs_receiver srv,
           sg_roster = cs_roster srv\<rparr> =
          (Inr out, \<lparr>sg_ctx = cs_ctx srv', sg_receiver = cs_receiver srv', sg_roster = cs_roster srv'\<rparr>)"
proof (cases r)
  case (Inl e)
  then consider "srv' = srv" | e where "stage_bundle X b srv = (Inl e, srv')"
    | out s e where "stage_bundle X b srv = (Inr (out, s), srv)" "append_journal write b srv = (Inl e, srv')"
    using assms staged_outcome [of X b srv "Inr _"] by (auto simp: accept_epoch_def eff_simps)
  then have "same_but_logs srv srv'"
    by cases (auto dest!: staged_outcome appended simp: same_but_logs_intros)
  then show ?thesis
    using Inl by simp
next
  case (Inr out)
  then obtain s srv1 where k: "\<not> kbroad_rotation_required (cs_roster srv) (bundle_gid b)"
    and s: "stage_bundle X b srv = (Inr (out, s), srv)" and j: "append_journal write b srv = (Inr (), srv1)" and "srv' = commit_staged s srv1"
    using assms staged_outcome [of X b srv "Inr _"] by (auto simp: accept_epoch_def eff_simps result_simps)
  then show ?thesis
    using Inr staged_outcome [OF s] appended [OF j] by (auto simp: commit_staged_def)
qed

text \<open>C5: accepting an epoch is all or nothing.  A bundle that is refused, wherever the server, the acceptance pipeline or the
  receiver refuses it, or whose journal entry cannot be written, leaves the roster, the receiver's cache and the acceptance
  context as they were, but for the telemetry counters; and an accepted one was applied as a whole to the state the server had.\<close>
theorem accept_epoch_atomic:
  assumes "accept_epoch X write b srv = (r, srv')"
  shows "case r of
      Inl e \<Rightarrow> same_but_logs srv srv'
    | Inr out \<Rightarrow> \<not> kbroad_rotation_required (cs_roster srv) (bundle_gid b) \<and>
        apply_bundle_to_state X (cs_history_authority srv) (cs_replaying srv) b
          \<lparr>sg_ctx = set_pending_capss_witness (Some (ce_capss_witness b)) (cs_ctx srv), sg_receiver = cs_receiver srv,
           sg_roster = cs_roster srv\<rparr> =
          (Inr out, \<lparr>sg_ctx = cs_ctx srv', sg_receiver = cs_receiver srv', sg_roster = cs_roster srv'\<rparr>)"
  using assms by (rule accept_epoch_run)

text \<open>What holds between any two epochs.\<close>
definition server_ok :: "Ext \<Rightarrow> CityGServer \<Rightarrow> bool" where
  "server_ok E srv \<longleftrightarrow> server_inv E (cs_ctx srv) (cs_roster srv) \<and> slots_ok (cs_roster srv)"

lemma accept_ok:
  assumes "server_ok (se_ext X) srv" "accept_epoch X write b srv = (r, srv')"
  shows "server_ok (se_ext X) srv'"
proof (cases r)
  case (Inl e)
  then have logs: "same_but_logs srv srv'"
    using accept_epoch_run [OF assms(2)] by simp
  have roster: "cs_roster srv' = cs_roster srv"
    by (subst logs [unfolded same_but_logs_def]) simp
  have ctx: "cs_ctx srv' = (cs_ctx srv)\<lparr>ax_telemetry := ax_telemetry (cs_ctx srv')\<rparr>"
    by (subst logs [unfolded same_but_logs_def]) simp
  have "barrier_part (cs_ctx srv') g = barrier_part (cs_ctx srv) g" for g
    by (subst ctx) (simp add: barrier_part_def group_or_default_def barrier_group_state_def)
  then show ?thesis
    using assms(1) roster by (simp add: server_ok_def server_inv_def)
next
  case (Inr out)
  let ?s = "\<lparr>sg_ctx = set_pending_capss_witness (Some (ce_capss_witness b)) (cs_ctx srv), sg_receiver = cs_receiver srv, sg_roster = cs_roster srv\<rparr>"
  have run: "apply_bundle_to_state X (cs_history_authority srv) (cs_replaying srv) b ?s =
      (Inr out, \<lparr>sg_ctx = cs_ctx srv', sg_receiver = cs_receiver srv', sg_roster = cs_roster srv'\<rparr>)"
    using accept_epoch_run [OF assms(2)] Inr by simp
  have inv: "server_inv (se_ext X) (sg_ctx ?s) (sg_roster ?s)" "slots_ok (sg_roster ?s)"
    using assms(1) by (simp_all add: server_ok_def server_inv_def barrier_part_def group_or_default_def barrier_group_state_def
      set_pending_capss_witness_def)
  show ?thesis
    using applied_inv [OF run inv(1)] applied_slots [OF run inv] by (simp add: server_ok_def)
qed

section \<open>Instances\<close>

definition plain_server_ext :: ServerExt where
  "plain_server_ext = \<lparr>se_verifiers = plain_verifiers, se_history = (\<lambda>_. None), se_witness = (\<lambda>_. None), se_iter = countable_iter,
     se_authority = signing\<rparr>"

definition plain_bundle :: ClientEpochBundle where
  "plain_bundle = \<lparr>ce_anchor = \<lparr>ab_gid = plain_digest, ab_cat = [2], ab_anchor_hdr_ctx = [9], ab_tswe_salt_hash = plain_digest,
       ab_parent_root = plain_digest, ab_join_delta_root = plain_digest, ab_revoked_since_prev_root = plain_digest,
       ab_revoked_root = plain_digest, ab_pox_r_commit = None\<rparr>,
     ce_header_map = [], ce_hp_proof = \<lparr>hp_digest = plain_digest\<rparr>,
     ce_hp_binding = \<lparr>hb_msphf_crs_id = ''crs'', hb_params_id = ''params'', hb_seed_ctx_hash = plain_digest,
       hb_seed_commit = plain_digest, hb_rho_commit = plain_digest, hb_xk_hash = plain_digest, hb_hp_commit = plain_digest\<rparr>,
     ce_witness = None, ce_capss_witness = CNull, ce_we_epoch_id = plain_digest\<rparr>"

definition empty_server :: CityGServer where
  "empty_server = \<lparr>cs_ctx = ctx_with_defaults plain_ext, cs_receiver = receiver_new (from_secs 10), cs_roster = [],
     cs_history_authority = None, cs_journal = None, cs_replaying = False, cs_refusal_percent = 100\<rparr>"

lemma plain_bundle_refused: "\<exists>srv. accept_epoch plain_server_ext write plain_bundle empty_server = (Inl (CgInvalidInput ''missing pop_alg''), srv)"
  by (simp add: accept_epoch_def stage_bundle_def apply_bundle_to_state_def check_bundle_def tryS_def liftS_def Let_def plain_bundle_def
      empty_server_def membership_delta_def is_merge_header_def joined_leaf_def kbroad_rotation_required_def bundle_gid_def
      plain_server_ext_def)

theorem accept_epoch_atomic_witness:
  "\<exists>srv. accept_epoch plain_server_ext (\<lambda>b j. (Inr (), j @ [b])) plain_bundle empty_server = (Inl (CgInvalidInput ''missing pop_alg''), srv) \<and>
     same_but_logs empty_server srv"
proof -
  obtain srv where run: "accept_epoch plain_server_ext (\<lambda>b j. (Inr (), j @ [b])) plain_bundle empty_server =
      (Inl (CgInvalidInput ''missing pop_alg''), srv)"
    using plain_bundle_refused by metis
  then show ?thesis
    using accept_epoch_atomic [OF run] by auto
qed

end
