(* ===== verification/BarrierClient.thy ===== *)
theory BarrierClient
  imports Server
begin

text \<open>
  The client's side of a barrier update (\<open>cityg-client\<close>: \<open>barrier.rs\<close>, \<open>barrier_crypto.rs\<close>, \<open>barrier_build.rs\<close>,
  \<open>barrier_update.rs\<close>, \<open>barrier_recovery.rs\<close>, with \<open>hkdf.rs\<close> of \<open>msphf-core\<close>).  A member that updates its path draws a secret
  for its leaf, derives a secret for every node above it, publishes the keys that belong to those secrets, and encrypts each
  secret to the resolution of the sibling it has just passed.  Another member finds the one ciphertext that is meant for a node
  of its own path, decrypts the secret, and derives the rest of the way to the root.

  ML-KEM-768, ChaCha20-Poly1305 and BLAKE3 are parameters, the record \<open>KemExt\<close>; the randomness of the code is an argument.  An
  error is the text that does not depend on a value.

  The lemmas show that the client's paths, resolutions and tree hash on \<open>u64\<close> indices are the server's on \<open>usize\<close> ones, and that
  from any node of a path the derivation gives the same secrets to the root.
\<close>

section \<open>Cryptography\<close>

type_synonym anyhow = string

text \<open>Keyed BLAKE3; ML-KEM-768 key generation from a seed (the expanded decapsulation key and the encapsulation key), the
  decoding of keys, encapsulation with the given coins (shared secret and ciphertext) and decapsulation; ChaCha20-Poly1305 on
  key, nonce, associated data and message.\<close>
record KemExt =
  kx_blake3 :: "bytes \<Rightarrow> bytes \<Rightarrow> hash32"
  kx_from_seed :: "bytes \<Rightarrow> bytes \<times> bytes"
  kx_ek_ok :: "bytes \<Rightarrow> bool"
  kx_dk_ok :: "bytes \<Rightarrow> bool"
  kx_encaps :: "bytes \<Rightarrow> bytes \<Rightarrow> bytes \<times> bytes"
  kx_decaps :: "bytes \<Rightarrow> bytes \<Rightarrow> bytes"
  kx_seal :: "bytes \<Rightarrow> bytes \<Rightarrow> bytes \<Rightarrow> bytes \<Rightarrow> bytes option"
  kx_open :: "bytes \<Rightarrow> bytes \<Rightarrow> bytes \<Rightarrow> bytes \<Rightarrow> bytes option"

text \<open>The bridge to the ML-KEM library: keys and ciphertexts from bytes, with the size that was expected.\<close>
datatype PqError = BadLength (pq_name: string) (pq_actual: nat) (pq_expected: nat)

definition decode_array :: "nat \<Rightarrow> string \<Rightarrow> bytes \<Rightarrow> PqError + bytes" where
  "decode_array n name b = tryE (ensure (length b = n) (BadLength name (length b) n)) (\<lambda>_. Inr b)"

definition public_key_from_bytes :: "KemExt \<Rightarrow> bytes \<Rightarrow> PqError + bytes" where
  "public_key_from_bytes X b = tryE (decode_array ml_kem_public_key_bytes ''kyber768::PublicKey'' b) (\<lambda>raw.
     tryE (ensure (kx_ek_ok X raw) (BadLength ''kyber768::PublicKey'' (length b) ml_kem_public_key_bytes)) (\<lambda>_. Inr raw))"

definition ml_kem_secret_key_bytes :: nat where
  "ml_kem_secret_key_bytes = 2400"

definition secret_key_from_bytes :: "KemExt \<Rightarrow> bytes \<Rightarrow> PqError + bytes" where
  "secret_key_from_bytes X b = tryE (decode_array ml_kem_secret_key_bytes ''kyber768::SecretKey'' b) (\<lambda>raw.
     tryE (ensure (kx_dk_ok X raw) (BadLength ''kyber768::SecretKey'' (length b) ml_kem_secret_key_bytes)) (\<lambda>_. Inr raw))"

definition ciphertext_from_bytes :: "bytes \<Rightarrow> PqError + bytes" where
  "ciphertext_from_bytes b = decode_array ml_kem_ciphertext_bytes ''kyber768::Ciphertext'' b"

lemma from_bytes_Inr [result_simps]:
  "public_key_from_bytes X b = Inr k \<longleftrightarrow> k = b \<and> length b = 1184 \<and> kx_ek_ok X b"
  "secret_key_from_bytes X b = Inr k \<longleftrightarrow> k = b \<and> length b = 2400 \<and> kx_dk_ok X b"
  "ciphertext_from_bytes b = Inr k \<longleftrightarrow> k = b \<and> length b = 1088"
  by (auto simp: public_key_from_bytes_def secret_key_from_bytes_def ciphertext_from_bytes_def decode_array_def result_simps
    ml_kem_public_key_bytes_def ml_kem_secret_key_bytes_def ml_kem_ciphertext_bytes_def)

definition hkdf_blake3 :: "KemExt \<Rightarrow> hash32 \<Rightarrow> bytes \<Rightarrow> bytes \<Rightarrow> hash32" where
  "hkdf_blake3 X salt ikm info = kx_blake3 X (kx_blake3 X salt ikm) (info @ [1])"

definition BARRIER_TREE_INFO :: bytes where
  "BARRIER_TREE_INFO = as_bytes ''city-g|barrier/tree|v1''"

definition BARRIER_KEY_INFO :: bytes where
  "BARRIER_KEY_INFO = as_bytes ''city-g|barrier/key|v1''"

definition BARRIER_KEYGEN_D_INFO :: bytes where
  "BARRIER_KEYGEN_D_INFO = as_bytes ''city-g|barrier/keygen-d|v1''"

definition BARRIER_KEYGEN_Z_INFO :: bytes where
  "BARRIER_KEYGEN_Z_INFO = as_bytes ''city-g|barrier/keygen-z|v1''"

definition FS_PCS_INFO :: bytes where
  "FS_PCS_INFO = as_bytes ''city-g|fs/pcs|v1''"

definition ML_KEM_EXPANDED_DK_BYTES :: nat where
  "ML_KEM_EXPANDED_DK_BYTES = 2400"

definition client_pkhash :: "Ext \<Rightarrow> bytes \<Rightarrow> anyhow + hash32" where
  "client_pkhash E ek = map_err (\<lambda>_. ''compute barrier/pk-hash'') (h_l E ''barrier/pk-hash'' (CBytes ek))"

definition client_revocation_roots_hash :: "Ext \<Rightarrow> hash32 \<Rightarrow> hash32 \<Rightarrow> anyhow + hash32" where
  "client_revocation_roots_hash E since_root revoked_root =
     map_err (\<lambda>_. ''compute revocation_roots_hash'') (h_l E ''barrier/roots'' (CArray [CBytes since_root, CBytes revoked_root]))"

definition keygen_salt_args :: "bytes \<Rightarrow> u64 \<Rightarrow> hash32 \<Rightarrow> u64 \<Rightarrow> u64 \<Rightarrow> cbor" where
  "keygen_salt_args gid version roots_hash n_max node = CArray [CBytes gid, cu64 version, CBytes roots_hash, cu64 n_max, cu64 node]"

text \<open>The decapsulation key, the hash of the encapsulation key, and the encapsulation key of a node with the given secret.\<close>
definition derive_internal_node_key_material ::
  "Ext \<Rightarrow> KemExt \<Rightarrow> bytes \<Rightarrow> hash32 \<Rightarrow> u64 \<Rightarrow> hash32 \<Rightarrow> u64 \<Rightarrow> u64 \<Rightarrow> anyhow + bytes \<times> hash32 \<times> bytes" where
  "derive_internal_node_key_material E X gid path_secret version roots_hash n_max node =
     (let args = keygen_salt_args gid version roots_hash n_max node in
      tryE (map_err (\<lambda>_. ''derive barrier keygen d_salt'') (h_l E ''barrier/keygen/d_salt'' args)) (\<lambda>d_salt.
      tryE (map_err (\<lambda>_. ''derive barrier keygen z_salt'') (h_l E ''barrier/keygen/z_salt'' args)) (\<lambda>z_salt.
      let (dk, ek) = kx_from_seed X (hkdf_blake3 X d_salt path_secret BARRIER_KEYGEN_D_INFO @
            hkdf_blake3 X z_salt path_secret BARRIER_KEYGEN_Z_INFO) in
      tryE (client_pkhash E ek) (\<lambda>pkhash. Inr (dk, pkhash, ek)))))"

definition decapsulate_internal_node_shared_secret :: "KemExt \<Rightarrow> bytes \<Rightarrow> bytes \<Rightarrow> anyhow + bytes" where
  "decapsulate_internal_node_shared_secret X dk kem_ct =
     tryE (ensure (length dk = 2400) ''internal dk_n must be 2400 bytes'') (\<lambda>_.
     tryE (ensure (kx_dk_ok X dk) ''invalid internal dk_n encoding'') (\<lambda>_.
     tryE (ensure (length kem_ct = 1088) ''invalid internal node ciphertext'') (\<lambda>_.
     Inr (kx_decaps X dk kem_ct))))"

definition derive_k_fs_after_pcs :: "Ext \<Rightarrow> KemExt \<Rightarrow> hash32 \<Rightarrow> hash32 \<Rightarrow> u64 \<Rightarrow> u64 \<Rightarrow> hash32 \<Rightarrow> anyhow + hash32" where
  "derive_k_fs_after_pcs E X k_fs_before weid fs_ec version k_barrier_new =
     tryE (map_err (\<lambda>_. ''derive fs pcs salt'') (h_l E ''fs/pcs/salt'' (CArray [CBytes weid, cu64 fs_ec, cu64 version]))) (\<lambda>salt.
     Inr (hkdf_blake3 X salt (k_fs_before @ k_barrier_new) FS_PCS_INFO))"

section \<open>The tree\<close>

definition client_n_max :: "u64 \<Rightarrow> anyhow + u64" where
  "client_n_max n_max =
     tryE (ensure (\<not> (n_max = 0 \<or> \<not> is_power_of_two n_max)) ''barrier n_max must be a non-zero power of two'') (\<lambda>_.
     tryE (ensure (\<not> MAX_BARRIER_N_MAX < n_max) ''barrier n_max exceeds MAX_BARRIER_N_MAX'') (\<lambda>_. Inr n_max))"

definition expected_barrier_tree_nodes :: "u64 \<Rightarrow> anyhow + nat" where
  "expected_barrier_tree_nodes n_max = tryE (client_n_max n_max) (\<lambda>n_max. ok_or ''invalid barrier n_max'' (tree_len n_max))"

function path_from :: "u64 \<Rightarrow> u64 list" where
  "path_from node = (if node = 0 then [node] else node # path_from ((node - 1) div 2))"
  by auto
termination
proof (relation "measure unat")
  fix node :: u64
  assume "node \<noteq> 0"
  then have "0 < unat node" "unat (node - 1) = unat node - 1"
    by (simp_all add: unat_pos unat_minus_one)
  then show "((node - 1) div 2, node) \<in> measure unat"
    by (simp add: unat_div)
qed simp

definition barrier_path_nodes :: "u64 \<Rightarrow> u64 \<Rightarrow> anyhow + u64 list" where
  "barrier_path_nodes n_max slot_index =
     tryE (client_n_max n_max) (\<lambda>n_max.
     tryE (ensure (\<not> n_max \<le> slot_index) ''invalid barrier update tree parameters'') (\<lambda>_.
     Inr (path_from (saturating_add (saturating_sub n_max 1) slot_index))))"

definition client_sibling :: "u64 \<Rightarrow> u64 option" where
  "client_sibling node = (if node = 0 then None else if even node then Some (node - 1) else Some (node + 1))"

definition client_child :: "u64 \<Rightarrow> u64 \<Rightarrow> u64 option" where
  "client_child node k = Option.bind (checked_mul node 2) (\<lambda>v. checked_add v k)"

text \<open>The hash of a tree, on \<open>u64\<close> indices.\<close>
function client_tree_hash_recursive :: "Ext \<Rightarrow> u64 \<Rightarrow> u64 \<Rightarrow> u64 \<Rightarrow> bytes list \<Rightarrow> anyhow + hash32" where
  "client_tree_hash_recursive E node leaf_base n_max es =
     tryE (ok_or ''barrier node index out of range'' (slice_get es (unat node))) (\<lambda>pk.
     if leaf_base \<le> node
     then map_err (\<lambda>_. ''compute barrier leaf hash'') (h_l E ''barrier/tree/leaf-hash'' (leaf_hash_args n_max (unat node) pk))
     else
       tryE (ok_or ''barrier tree index overflow'' (client_child node 1)) (\<lambda>left.
       tryE (ok_or ''barrier tree index overflow'' (client_child node 2)) (\<lambda>right.
       tryE (client_tree_hash_recursive E left leaf_base n_max es) (\<lambda>left_hash.
       tryE (client_tree_hash_recursive E right leaf_base n_max es) (\<lambda>right_hash.
       map_err (\<lambda>_. ''compute barrier node hash'')
         (h_l E ''barrier/tree/node-hash'' (node_hash_args n_max (unat node) pk left_hash right_hash)))))))"
  by pat_completeness auto

lemma client_child_Some: "client_child node k = Some m \<longleftrightarrow> unat m = 2 * unat node + unat k \<and> 2 * unat node + unat k < 2 ^ 64"
proof -
  have "client_child node k = Some m \<longleftrightarrow> 2 * unat node + unat k < 2 ^ 64 \<and> m = node * 2 + k"
  proof (cases "2 * unat node < 2 ^ 64")
    case True
    then have "unat (node * 2) = 2 * unat node"
      by (simp add: unat_word_ariths)
    then show ?thesis
      using True by (auto simp: client_child_def checked_mul_def checked_add_Some mult.commute)
  qed (auto simp: client_child_def checked_mul_def mult.commute)
  moreover have "unat (node * 2 + k) = 2 * unat node + unat k" if "2 * unat node + unat k < 2 ^ 64"
    using that by (simp add: unat_word_ariths mod_simps)
  ultimately show ?thesis
    by (metis unsigned_word_eqI word_unat_eq_iff)
qed

termination client_tree_hash_recursive
  by (relation "measure (\<lambda>(E, node, leaf_base, n_max, es). length es - unat node)")
    (auto simp: result_simps slice_get_def client_child_Some split: if_splits)

declare path_from.simps [simp del]
declare client_tree_hash_recursive.simps [simp del]

definition client_tree_hash :: "Ext \<Rightarrow> u64 \<Rightarrow> bytes list \<Rightarrow> anyhow + hash32" where
  "client_tree_hash E n_max es =
     tryE (client_n_max n_max) (\<lambda>n_max.
     tryE (ok_or ''barrier tree size overflow'' (tree_len n_max)) (\<lambda>expected_len.
     tryE (ensure (length es = expected_len) ''barrier tree size mismatch'') (\<lambda>_.
     client_tree_hash_recursive E 0 (saturating_sub n_max 1) n_max es)))"

function collect_resolution_targets :: "bytes list \<Rightarrow> u64 \<Rightarrow> u64 \<Rightarrow> anyhow + u64 list" where
  "collect_resolution_targets es node leaf_base =
     (case slice_get es (unat node) of
        None \<Rightarrow> Inr []
      | Some pk \<Rightarrow>
          if pk \<noteq> [] then Inr [node]
          else if leaf_base \<le> node then Inr []
          else
            tryE (ok_or ''barrier tree index overflow'' (client_child node 1)) (\<lambda>left.
            tryE (ok_or ''barrier tree index overflow'' (client_child node 2)) (\<lambda>right.
            tryE (collect_resolution_targets es left leaf_base) (\<lambda>ls.
            tryE (collect_resolution_targets es right leaf_base) (\<lambda>rs.
            Inr (ls @ rs))))))"
  by pat_completeness auto
termination
  by (relation "measure (\<lambda>(es, node, leaf_base). length es - unat node)")
    (auto simp: result_simps slice_get_def client_child_Some split: if_splits)

declare collect_resolution_targets.simps [simp del]

section \<open>Building an update\<close>

text \<open>What all the ciphertexts of an update are bound to.\<close>
record WrapContext =
  wc_gid :: hash32
  wc_barrier_version :: u64
  wc_prev_barrier_version :: u64
  wc_n_max :: u64
  wc_revocation_roots_hash :: hash32
  wc_kem_tree_hash_before :: hash32
  wc_kem_tree_hash_after :: hash32
  wc_updater_slot_index :: u64
  wc_updater_slot_generation :: u64

definition wrap_aad :: "Ext \<Rightarrow> WrapContext \<Rightarrow> u64 \<Rightarrow> u64 \<Rightarrow> hash32 \<Rightarrow> anyhow + bytes" where
  "wrap_aad E c source_node target_node target_pkhash = map_err (\<lambda>_. ''encode barrier wrap aad'') (to_cbor_vec E (CArray
     [CBytes (wc_gid c), cu64 (wc_barrier_version c), cu64 (wc_prev_barrier_version c), cu64 (wc_n_max c),
      CBytes (wc_revocation_roots_hash c), CBytes (wc_kem_tree_hash_before c), CBytes (wc_kem_tree_hash_after c),
      cu64 (wc_updater_slot_index c), cu64 (wc_updater_slot_generation c), cu64 source_node, cu64 target_node, CBytes target_pkhash]))"

definition wrap_nonce :: "Ext \<Rightarrow> u64 \<Rightarrow> u64 \<Rightarrow> anyhow + bytes" where
  "wrap_nonce E source_node target_node =
     tryE (map_err (\<lambda>_. ''derive barrier wrap nonce'') (h_l E ''barrier/wrap/nonce'' (CArray [cu64 source_node, cu64 target_node])))
       (\<lambda>nonce_full. Inr (take 12 nonce_full))"

text \<open>The secrets of the nodes above the first one, whose secret is in the map; building and recovery name the errors differently.\<close>
fun derive_path_secrets :: "Ext \<Rightarrow> KemExt \<Rightarrow> anyhow \<Rightarrow> anyhow \<Rightarrow> bytes \<Rightarrow> u64 list \<Rightarrow> (u64, hash32) btree \<Rightarrow> anyhow + (u64, hash32) btree" where
  "derive_path_secrets E X missing failed gid (child_node # parent_node # rest) secrets =
     tryE (ok_or missing (bt_get secrets child_node)) (\<lambda>child_secret.
     tryE (map_err (\<lambda>_. failed) (h_l E ''barrier/tree/path'' (CArray [CBytes gid, cu64 parent_node]))) (\<lambda>salt.
     derive_path_secrets E X missing failed gid (parent_node # rest)
       (bt_insert parent_node (hkdf_blake3 X salt child_secret BARRIER_TREE_INFO) secrets)))"
| "derive_path_secrets E X missing failed gid _ secrets = Inr secrets"

definition derive_barrier_key :: "Ext \<Rightarrow> KemExt \<Rightarrow> anyhow \<Rightarrow> bytes \<Rightarrow> u64 \<Rightarrow> hash32 \<Rightarrow> hash32 \<Rightarrow> anyhow + hash32" where
  "derive_barrier_key E X failed gid version roots_hash root_secret =
     tryE (map_err (\<lambda>_. failed)
       (h_l E ''barrier/derive/salt'' (CArray [CBytes gid, cu64 version, CBytes roots_hash]))) (\<lambda>salt.
     Inr (hkdf_blake3 X salt root_secret BARRIER_KEY_INFO))"

record NodeKeyMaterial =
  nm_dk :: bytes
  nm_pkhash :: hash32

text \<open>One turn of the loop over the nodes of the path: the key material and the key to publish.\<close>
definition build_node_key ::
  "Ext \<Rightarrow> KemExt \<Rightarrow> WrapContext \<Rightarrow> (u64, hash32) btree \<Rightarrow> u64 \<Rightarrow> anyhow + (u32 \<times> NodeKeyMaterial) \<times> NewPublicKeyWire" where
  "build_node_key E X c secrets node =
     tryE (ok_or ''missing path secret for node'' (bt_get secrets node)) (\<lambda>path_secret.
     tryE (derive_internal_node_key_material E X (wc_gid c) path_secret (wc_barrier_version c) (wc_revocation_roots_hash c)
       (wc_n_max c) node) (\<lambda>(dk, pkhash, ek).
     tryE (ensure (unat node < 2 ^ 32) ''barrier node index overflow'') (\<lambda>_.
     Inr ((ucast node, \<lparr>nm_dk = dk, nm_pkhash = pkhash\<rparr>), \<lparr>nk_node_index = node, nk_ek = ek\<rparr>))))"

fun put_keys :: "NewPublicKeyWire list \<Rightarrow> bytes list \<Rightarrow> anyhow + bytes list" where
  "put_keys [] es = Inr es"
| "put_keys (k # ks) es =
     tryE (ensure (unat (nk_node_index k) < length es) ''barrier node index out of range'') (\<lambda>_.
     put_keys ks (es[unat (nk_node_index k) := nk_ek k]))"

text \<open>The ciphertext of a secret for one target.\<close>
definition wrap_secret ::
  "Ext \<Rightarrow> KemExt \<Rightarrow> (u64 \<times> u64 \<Rightarrow> bytes) \<Rightarrow> WrapContext \<Rightarrow> (u64, hash32) btree \<Rightarrow> bytes list \<Rightarrow> u64 \<Rightarrow> u64 \<Rightarrow> anyhow + NodeCiphertextWire" where
  "wrap_secret E X coins c secrets es source_node target_node =
     tryE (ok_or ''barrier node index out of range'' (slice_get es (unat target_node))) (\<lambda>target_pk.
     tryE (ensure (target_pk \<noteq> []) ''barrier resolution produced blank target node'') (\<lambda>_.
     tryE (client_pkhash E target_pk) (\<lambda>target_pkhash.
     tryE (map_err (\<lambda>_. ''invalid ML-KEM target public key in snapshot_pre'') (public_key_from_bytes X target_pk)) (\<lambda>target_ek.
     let (ss, kem_ct) = kx_encaps X (coins (source_node, target_node)) target_ek in
     tryE (wrap_aad E c source_node target_node target_pkhash) (\<lambda>aad.
     tryE (wrap_nonce E source_node target_node) (\<lambda>nonce.
     tryE (ok_or ''missing path secret for source node'' (bt_get secrets source_node)) (\<lambda>source_secret.
     tryE (ok_or ''barrier wrap encrypt failed'' (kx_seal X ss nonce aad source_secret)) (\<lambda>wrapped_ps.
     Inr \<lparr>nc_source = source_node, nc_target = target_node, nc_target_pk_hash = take 16 target_pkhash, nc_kem_ct = kem_ct,
       nc_wrapped_ps = wrapped_ps\<rparr>))))))))"

fun wrap_path ::
  "Ext \<Rightarrow> KemExt \<Rightarrow> (u64 \<times> u64 \<Rightarrow> bytes) \<Rightarrow> WrapContext \<Rightarrow> (u64, hash32) btree \<Rightarrow> bytes list \<Rightarrow> u64 \<Rightarrow> u64 list \<Rightarrow>
     anyhow + NodeCiphertextWire list" where
  "wrap_path E X coins c secrets es leaf_base (child_node # source_node # rest) =
     tryE (ok_or ''barrier sibling missing for root'' (client_sibling child_node)) (\<lambda>sibling.
     tryE (collect_resolution_targets es sibling leaf_base) (\<lambda>targets.
     tryE (mapE (wrap_secret E X coins c secrets es source_node) (sort targets)) (\<lambda>cts.
     tryE (wrap_path E X coins c secrets es leaf_base (source_node # rest)) (\<lambda>above.
     Inr (cts @ above)))))"
| "wrap_path E X coins c secrets es leaf_base _ = Inr []"

record BarrierUpdateBuildResult =
  br_raw_update :: bytes
  br_barrier_update_digest :: hash32
  br_kem_tree_hash_after :: hash32
  br_k_barrier_new :: hash32
  br_on_path_key_material :: "(u32, NodeKeyMaterial) btree"
  br_snapshot_post :: "bytes list"

definition client_update_digest :: "Ext \<Rightarrow> bytes \<Rightarrow> anyhow + hash32" where
  "client_update_digest E raw = map_err (\<lambda>_. ''compute barrier_update_digest'') (h_l E ''barrier/update/digest'' (CBytes raw))"

text \<open>The two layers of the update on the wire.\<close>
definition built_cover :: "WrapContext \<Rightarrow> u64 list \<Rightarrow> NodeCiphertextWire list \<Rightarrow> NewPublicKeyWire list \<Rightarrow> KemTreeCoverPayloadWire" where
  "built_cover c path cts keys = \<lparr>kc_updater_slot_index = wc_updater_slot_index c, kc_updater_slot_generation = wc_updater_slot_generation c,
     kc_path_nodes = path, kc_revoked_leaf_indices_hint = None, kc_node_ciphertexts = cts, kc_new_public_keys = keys\<rparr>"

definition built_wire :: "WrapContext \<Rightarrow> bytes \<Rightarrow> BarrierUpdateWire" where
  "built_wire c cover = \<lparr>bw_mode = ''barrier-v1'', bw_barrier_version = wc_barrier_version c,
     bw_prev_barrier_version = wc_prev_barrier_version c, bw_tree_size = wc_n_max c, bw_revocation_roots_hash = wc_revocation_roots_hash c,
     bw_kem_tree_hash_before = wc_kem_tree_hash_before c, bw_kem_tree_hash_after = wc_kem_tree_hash_after c, bw_cover_payload = cover\<rparr>"

text \<open>The tail of the build, once the keys and the hash after the update are known.\<close>
definition encode_update ::
  "Ext \<Rightarrow> KemExt \<Rightarrow> (u64 \<times> u64 \<Rightarrow> bytes) \<Rightarrow> WrapContext \<Rightarrow> (u64, hash32) btree \<Rightarrow> bytes list \<Rightarrow> u64 list \<Rightarrow> NewPublicKeyWire list \<Rightarrow>
     anyhow + bytes \<times> hash32" where
  "encode_update E X coins c secrets es path keys =
     tryE (wrap_path E X coins c secrets es (saturating_sub (wc_n_max c) 1) path) (\<lambda>cts.
     tryE (map_err (\<lambda>_. ''encode barrier cover payload'') (to_cbor_vec E (ccover_payload
       (built_cover c path (sort_key (\<lambda>n. (nc_source n, nc_target n)) cts) keys)))) (\<lambda>cover.
     tryE (map_err (\<lambda>_. ''encode barrier update'') (to_cbor_vec E (cbarrier_update (built_wire c cover)))) (\<lambda>raw.
     tryE (client_update_digest E raw) (\<lambda>digest. Inr (raw, digest)))))"

text \<open>The context comes without the hash after the update, which the function computes; \<open>ps_leaf\<close> is the fresh secret.\<close>
definition build_barrier_update_bytes ::
  "Ext \<Rightarrow> KemExt \<Rightarrow> hash32 \<Rightarrow> (u64 \<times> u64 \<Rightarrow> bytes) \<Rightarrow> WrapContext \<Rightarrow> bytes list \<Rightarrow> anyhow + BarrierUpdateBuildResult" where
  "build_barrier_update_bytes E X ps_leaf coins c snapshot_pre =
     tryE (client_n_max (wc_n_max c)) (\<lambda>n_max.
     tryE (ensure (\<not> n_max \<le> wc_updater_slot_index c) ''invalid barrier update tree parameters'') (\<lambda>_.
     tryE (expected_barrier_tree_nodes n_max) (\<lambda>expected_nodes.
     tryE (ensure (length snapshot_pre = expected_nodes) ''barrier snapshot size mismatch'') (\<lambda>_.
     tryE (barrier_path_nodes n_max (wc_updater_slot_index c)) (\<lambda>path.
     tryE (derive_path_secrets E X ''barrier path secret derivation missing child'' ''derive barrier tree/path salt'' (wc_gid c) path (bt_insert (hd path) ps_leaf [])) (\<lambda>secrets.
     tryE (ok_or ''barrier path secret derivation missing root'' (bt_get secrets 0)) (\<lambda>root_secret.
     tryE (derive_barrier_key E X ''derive barrier/derive/salt'' (wc_gid c) (wc_barrier_version c) (wc_revocation_roots_hash c) root_secret) (\<lambda>k_barrier_new.
     tryE (mapE (build_node_key E X c secrets) (sort (drop 1 path))) (\<lambda>built.
     tryE (put_keys (map snd built) snapshot_pre) (\<lambda>snapshot_post.
     tryE (client_tree_hash E n_max snapshot_post) (\<lambda>after.
     tryE (encode_update E X coins (c\<lparr>wc_kem_tree_hash_after := after\<rparr>) secrets snapshot_pre path (map snd built)) (\<lambda>(raw, digest).
     Inr \<lparr>br_raw_update = raw, br_barrier_update_digest = digest, br_kem_tree_hash_after = after, br_k_barrier_new = k_barrier_new,
       br_on_path_key_material = fold (\<lambda>(node, m). bt_insert node m) (map fst built) [], br_snapshot_post = snapshot_post\<rparr>))))))))))))"

section \<open>Reading an update\<close>

record ClientBarrierUpdate =
  cb_barrier_version :: u64
  cb_prev_barrier_version :: u64
  cb_tree_size :: u64
  cb_revocation_roots_hash :: hash32
  cb_kem_tree_hash_before :: hash32
  cb_kem_tree_hash_after :: hash32
  cb_updater_slot_index :: u64
  cb_updater_slot_generation :: u64
  cb_path_nodes :: "u64 list"
  cb_node_ciphertexts :: "NodeCiphertextWire list"
  cb_new_public_keys :: "(u64, bytes) btree"

definition client_deterministic_cbor :: "Ext \<Rightarrow> (bytes \<Rightarrow> 'w option) \<Rightarrow> ('w \<Rightarrow> cbor) \<Rightarrow> bytes \<Rightarrow> anyhow + 'w" where
  "client_deterministic_cbor E decode encode raw =
     tryE (ok_or ''failed to parse'' (decode raw)) (\<lambda>decoded.
     tryE (map_err (\<lambda>_. ''failed to re-encode canonical'') (to_cbor_vec E (encode decoded))) (\<lambda>canonical.
     tryE (ensure (canonical = raw) ''non-canonical encoding'') (\<lambda>_. Inr decoded)))"

definition client_array32 :: "bytes \<Rightarrow> anyhow + hash32" where
  "client_array32 b = tryE (ensure (length b = 32) ''must be 32 bytes'') (\<lambda>_. Inr b)"

fun client_path_range :: "u64 \<Rightarrow> u64 set \<Rightarrow> u64 list \<Rightarrow> anyhow + unit" where
  "client_path_range max_index seen [] = Inr ()"
| "client_path_range max_index seen (node # nodes) =
     tryE (ensure (\<not> max_index < node) ''barrier path node out of range'') (\<lambda>_.
     tryE (ensure (node \<notin> seen) ''barrier path_nodes contains duplicate nodes'') (\<lambda>_.
     client_path_range max_index (insert node seen) nodes))"

definition client_path_shape :: "u64 \<Rightarrow> u64 \<Rightarrow> u64 list \<Rightarrow> anyhow + unit" where
  "client_path_shape max_index expected_leaf path =
     tryE (ensure (path \<noteq> []) ''barrier path_nodes must be non-empty'') (\<lambda>_.
     tryE (ensure (hd path = expected_leaf) ''barrier path_nodes must start at updater leaf node'') (\<lambda>_.
     tryE (ensure (last path = 0) ''barrier path_nodes must end at root node'') (\<lambda>_.
     tryE (client_path_range max_index {} path) (\<lambda>_.
     ensure (path_linked path) ''barrier path_nodes parent chain is invalid''))))"

fun client_new_keys :: "u64 \<Rightarrow> u64 \<Rightarrow> u64 set \<Rightarrow> u64 option \<Rightarrow> (u64, bytes) btree \<Rightarrow> NewPublicKeyWire list \<Rightarrow> anyhow + u64 set \<times> (u64, bytes) btree" where
  "client_new_keys leaf_base max_index seen prev m [] = Inr (seen, m)"
| "client_new_keys leaf_base max_index seen prev m (k # ks) =
     tryE (ensure (\<not> max_index < nk_node_index k) ''barrier new_public_keys node out of range'') (\<lambda>_.
     tryE (ensure (\<not> leaf_base \<le> nk_node_index k) ''barrier new_public_keys may reference only internal nodes'') (\<lambda>_.
     tryE (ensure (length (nk_ek k) = ml_kem_public_key_bytes) ''barrier new_public_keys ek must be ML-KEM-768 length'') (\<lambda>_.
     tryE (ensure (\<not> (case prev of None \<Rightarrow> False | Some p \<Rightarrow> nk_node_index k \<le> p)) ''barrier new_public_keys must be sorted by node index'') (\<lambda>_.
     tryE (ensure (nk_node_index k \<notin> seen) ''barrier new_public_keys contains duplicate node index'') (\<lambda>_.
     client_new_keys leaf_base max_index (insert (nk_node_index k) seen) (Some (nk_node_index k))
       (bt_insert (nk_node_index k) (nk_ek k) m) ks)))))"

definition client_keys_shape :: "u64 \<Rightarrow> u64 \<Rightarrow> u64 list \<Rightarrow> NewPublicKeyWire list \<Rightarrow> anyhow + (u64, bytes) btree" where
  "client_keys_shape leaf_base max_index path keys =
     tryE (ensure (length keys = card (set (drop 1 path))) ''barrier new_public_keys length does not match ExpectedNodeSet'') (\<lambda>_.
     tryE (client_new_keys leaf_base max_index {} None [] keys) (\<lambda>(seen, m).
     tryE (ensure (seen = set (drop 1 path)) ''barrier new_public_keys must match ExpectedNodeSet exactly'') (\<lambda>_. Inr m)))"

fun client_ciphertexts :: "u64 \<Rightarrow> (u64 \<times> u64) option \<Rightarrow> NodeCiphertextWire list \<Rightarrow> anyhow + unit" where
  "client_ciphertexts max_index prev [] = Inr ()"
| "client_ciphertexts max_index prev (n # ns) =
     tryE (ensure (\<not> (max_index < nc_source n \<or> max_index < nc_target n)) ''barrier node_ciphertext index out of range'') (\<lambda>_.
     tryE (ensure (length (nc_target_pk_hash n) = 16) ''barrier target_pk_hash must be 16 bytes'') (\<lambda>_.
     tryE (ensure (length (nc_kem_ct n) = ml_kem_ciphertext_bytes) ''barrier kem_ct length mismatch'') (\<lambda>_.
     tryE (ensure (length (nc_wrapped_ps n) = 48) ''barrier wrapped_ps must be 48 bytes'') (\<lambda>_.
     tryE (ensure (\<not> (case prev of None \<Rightarrow> False | Some p \<Rightarrow> (nc_source n, nc_target n) \<le> p))
       ''barrier node_ciphertexts must be sorted and duplicate-free'') (\<lambda>_.
     client_ciphertexts max_index (Some (nc_source n, nc_target n)) ns)))))"

definition parse_barrier_update_for_recover :: "Ext \<Rightarrow> WireDecoders \<Rightarrow> bytes \<Rightarrow> u64 \<Rightarrow> nat \<Rightarrow> anyhow + ClientBarrierUpdate" where
  "parse_barrier_update_for_recover E W raw expected_n_max max_barrier_update_bytes =
     tryE (ensure (\<not> max_barrier_update_bytes < length raw) ''barrier_update exceeds max_barrier_update_bytes'') (\<lambda>_.
     tryE (client_n_max expected_n_max) (\<lambda>n_max.
     tryE (client_deterministic_cbor E (de_update W) cbarrier_update raw) (\<lambda>w.
     tryE (ensure (bw_mode w = ''barrier-v1'') ''unsupported barrier update mode'') (\<lambda>_.
     tryE (ensure (bw_tree_size w = n_max) ''barrier tree_size mismatch'') (\<lambda>_.
     tryE (client_deterministic_cbor E (de_cover W) ccover_payload (bw_cover_payload w)) (\<lambda>c.
     tryE (ensure (\<not> n_max \<le> kc_updater_slot_index c) ''barrier updater_slot_index out of range'') (\<lambda>_.
     tryE (ok_or ''barrier tree size overflow'' (Option.bind (checked_mul n_max 2) (\<lambda>v. checked_sub v 1))) (\<lambda>expected_nodes.
     let max_index = saturating_sub expected_nodes 1; leaf_base = saturating_sub n_max 1;
         expected_leaf = saturating_add leaf_base (kc_updater_slot_index c) in
     tryE (client_path_shape max_index expected_leaf (kc_path_nodes c)) (\<lambda>_.
     tryE (client_keys_shape leaf_base max_index (kc_path_nodes c) (kc_new_public_keys c)) (\<lambda>keys.
     tryE (client_ciphertexts max_index None (kc_node_ciphertexts c)) (\<lambda>_.
     tryE (client_array32 (bw_revocation_roots_hash w)) (\<lambda>roots_hash.
     tryE (client_array32 (bw_kem_tree_hash_before w)) (\<lambda>before.
     tryE (client_array32 (bw_kem_tree_hash_after w)) (\<lambda>after.
     Inr \<lparr>cb_barrier_version = bw_barrier_version w, cb_prev_barrier_version = bw_prev_barrier_version w, cb_tree_size = bw_tree_size w,
       cb_revocation_roots_hash = roots_hash, cb_kem_tree_hash_before = before, cb_kem_tree_hash_after = after,
       cb_updater_slot_index = kc_updater_slot_index c, cb_updater_slot_generation = kc_updater_slot_generation c,
       cb_path_nodes = kc_path_nodes c, cb_node_ciphertexts = kc_node_ciphertexts c, cb_new_public_keys = keys\<rparr>))))))))))))))"

section \<open>Recovering the barrier key\<close>

record BarrierRecoveryInput =
  ri_gid :: hash32
  ri_n_max :: u64
  ri_slot_index :: u64
  ri_slot_generation :: u64
  ri_barrier_initialized :: bool
  ri_barrier_version :: u64
  ri_barrier_roots_hash :: hash32
  ri_kem_tree_hash_after :: hash32
  ri_pop_public_key :: bytes
  ri_leaf_material :: NodeKeyMaterial
  ri_node_materials :: "(u32, NodeKeyMaterial) btree"
  ri_k_fs_before :: hash32
  ri_weid :: hash32
  ri_fs_ec :: u64
  ri_raw_update :: bytes
  ri_barrier_update_reason :: u64
  ri_revoked_since_root :: hash32
  ri_revoked_root :: hash32
  ri_author_pop_public_key :: "bytes option"
  ri_max_barrier_update_bytes :: nat
  ri_expected_before_hash :: "hash32 option"
  ri_skip_local_checks :: bool

record BarrierRecoverResult =
  rr_barrier_version :: u64
  rr_k_barrier_new :: hash32
  rr_kem_tree_hash_after :: hash32
  rr_k_fs_after_pcs :: "hash32 option"
  rr_derived_node_key_material :: "(u32, NodeKeyMaterial) btree"

text \<open>The checks before any decryption.\<close>
definition check_recovery :: "Ext \<Rightarrow> BarrierRecoveryInput \<Rightarrow> u64 \<Rightarrow> ClientBarrierUpdate \<Rightarrow> anyhow + unit" where
  "check_recovery E inp n_max p =
     (let genesis = (\<not> ri_barrier_initialized inp \<and> cb_prev_barrier_version p = 0 \<and> cb_barrier_version p = 0) in
      tryE (ensure (cb_prev_barrier_version p = 0 \<and> cb_barrier_version p = 0 \<or>
        saturating_add (cb_prev_barrier_version p) 1 = cb_barrier_version p) ''barrier version progression is invalid'') (\<lambda>_.
      tryE (ensure (ri_skip_local_checks inp \<or> genesis \<or> ri_barrier_initialized inp \<and>
        cb_prev_barrier_version p = ri_barrier_version inp \<and> cb_barrier_version p = saturating_add (ri_barrier_version inp) 1)
        ''barrier version progression does not match local barrier state'') (\<lambda>_.
      tryE (ensure (cb_tree_size p = n_max) ''barrier tree_size mismatch for local state'') (\<lambda>_.
      tryE (ensure (ri_skip_local_checks inp \<or> ri_barrier_update_reason inp = 2 \<or>
        cb_kem_tree_hash_before p = unwrap_or (ri_expected_before_hash inp) (ri_kem_tree_hash_after inp))
        ''barrier hash-chain before-hash mismatch'') (\<lambda>_.
      tryE (client_revocation_roots_hash E (ri_revoked_since_root inp) (ri_revoked_root inp)) (\<lambda>expected_rrh.
      tryE (ensure (cb_revocation_roots_hash p = expected_rrh) ''barrier revocation_roots_hash mismatch'') (\<lambda>_.
      if ri_skip_local_checks inp \<or> genesis then Inr ()
      else if ri_barrier_roots_hash inp = cb_revocation_roots_hash p
      then ensure (ri_barrier_update_reason inp = 1 \<or> ri_barrier_update_reason inp = 2)
        ''barrier_update_reason must be pcs_refresh (1) or join_finalize (2) when local barrier_roots_hash is unchanged''
      else ensure (ri_barrier_update_reason inp = 0)
        ''barrier_update_reason must be revocation_or_bootstrap (0) when local barrier_roots_hash changed'')))))))"

definition update_context :: "hash32 \<Rightarrow> ClientBarrierUpdate \<Rightarrow> WrapContext" where
  "update_context gid p = \<lparr>wc_gid = gid, wc_barrier_version = cb_barrier_version p, wc_prev_barrier_version = cb_prev_barrier_version p,
     wc_n_max = cb_tree_size p, wc_revocation_roots_hash = cb_revocation_roots_hash p, wc_kem_tree_hash_before = cb_kem_tree_hash_before p,
     wc_kem_tree_hash_after = cb_kem_tree_hash_after p, wc_updater_slot_index = cb_updater_slot_index p,
     wc_updater_slot_generation = cb_updater_slot_generation p\<rparr>"

text \<open>What the loop makes of one ciphertext: it is not for this member, its decryption failed, or it gave a secret.\<close>
datatype Candidate = Skipped | CandidateFailed | Matched u64 u64 hash32

definition own_material :: "BarrierRecoveryInput \<Rightarrow> u64 \<Rightarrow> u64 \<Rightarrow> NodeKeyMaterial option" where
  "own_material inp leaf_node target_node =
     (if target_node = leaf_node then Some (ri_leaf_material inp) else bt_get (ri_node_materials inp) (ucast target_node))"

text \<open>The shared secret of a ciphertext; a key of a leaf that cannot be used is skipped without counting as a failure.\<close>
definition candidate_secret :: "KemExt \<Rightarrow> bool \<Rightarrow> bytes \<Rightarrow> bytes \<Rightarrow> Candidate + bytes" where
  "candidate_secret X is_leaf dk kem_ct =
     (if is_leaf
      then (if length dk \<noteq> ml_kem_secret_key_bytes then Inl Skipped
        else tryE (map_err (\<lambda>_. Skipped) (ciphertext_from_bytes kem_ct)) (\<lambda>ct.
          tryE (map_err (\<lambda>_. Skipped) (secret_key_from_bytes X dk)) (\<lambda>sk. Inr (kx_decaps X sk ct))))
      else if length dk = ML_KEM_EXPANDED_DK_BYTES
      then map_err (\<lambda>_. CandidateFailed) (decapsulate_internal_node_shared_secret X dk kem_ct)
      else Inl CandidateFailed)"

definition try_ciphertext ::
  "Ext \<Rightarrow> KemExt \<Rightarrow> BarrierRecoveryInput \<Rightarrow> ClientBarrierUpdate \<Rightarrow> u64 list \<Rightarrow> NodeCiphertextWire \<Rightarrow> anyhow + Candidate" where
  "try_ciphertext E X inp p self_path n =
     (let leaf_node = hd self_path in
      if nc_target n \<notin> set self_path then Inr Skipped
      else case own_material inp leaf_node (nc_target n) of
        None \<Rightarrow> Inr Skipped
      | Some m \<Rightarrow>
          if take 16 (nm_pkhash m) \<noteq> nc_target_pk_hash n then Inr Skipped
          else case candidate_secret X (nc_target n = leaf_node) (nm_dk m) (nc_kem_ct n) of
            Inl outcome \<Rightarrow> Inr outcome
          | Inr ss \<Rightarrow>
              tryE (wrap_aad E (update_context (ri_gid inp) p) (nc_source n) (nc_target n) (nm_pkhash m)) (\<lambda>aad.
              tryE (wrap_nonce E (nc_source n) (nc_target n)) (\<lambda>nonce.
              Inr (case kx_open X ss nonce aad (nc_wrapped_ps n) of
                     None \<Rightarrow> CandidateFailed
                   | Some plaintext \<Rightarrow>
                       if length plaintext \<noteq> 32 then CandidateFailed else Matched (nc_source n) (nc_target n) plaintext))))"

definition matched :: "Candidate list \<Rightarrow> (u64 \<times> u64 \<times> hash32) list" where
  "matched cs = List.map_filter (\<lambda>c. case c of Matched s t k \<Rightarrow> Some (s, t, k) | _ \<Rightarrow> None) cs"

text \<open>One node of the rest of the path: its key material, checked against the published key.\<close>
definition recover_node ::
  "Ext \<Rightarrow> KemExt \<Rightarrow> BarrierRecoveryInput \<Rightarrow> ClientBarrierUpdate \<Rightarrow> (u64, hash32) btree \<Rightarrow> u64 \<Rightarrow> anyhow + u32 \<times> NodeKeyMaterial" where
  "recover_node E X inp p secrets node =
     tryE (ok_or ''barrier recover missing path secret for node'' (bt_get secrets node)) (\<lambda>path_secret.
     tryE (derive_internal_node_key_material E X (ri_gid inp) path_secret (cb_barrier_version p) (cb_revocation_roots_hash p)
       (cb_tree_size p) node) (\<lambda>(dk, pkhash, ek).
     tryE (if node \<in> set (drop 1 (cb_path_nodes p))
       then tryE (ok_or ''barrier recover rejected: missing new_public_keys for node (960.7)'' (bt_get (cb_new_public_keys p) node))
         (\<lambda>announced. ensure (announced = ek) ''barrier recover rejected: new_public_keys mismatch for node (960.7)'')
       else Inr ()) (\<lambda>_.
     tryE (ensure (unat node < 2 ^ 32) ''barrier node index overflow'') (\<lambda>_.
     Inr (ucast node, \<lparr>nm_dk = dk, nm_pkhash = pkhash\<rparr>)))))"

text \<open>Everything after the one secret was found.\<close>
definition recover_from_secret ::
  "Ext \<Rightarrow> KemExt \<Rightarrow> BarrierRecoveryInput \<Rightarrow> ClientBarrierUpdate \<Rightarrow> u64 list \<Rightarrow> u64 \<Rightarrow> hash32 \<Rightarrow> anyhow + BarrierRecoverResult" where
  "recover_from_secret E X inp p self_path source_node source_secret =
     tryE (ensure (source_node \<in> set (cb_path_nodes p)) ''barrier recover rejected: source missing from path_nodes (960.7)'') (\<lambda>_.
     let rest = dropWhile (\<lambda>node. node \<noteq> source_node) (cb_path_nodes p) in
     tryE (derive_path_secrets E X ''barrier recover missing child path secret'' ''derive barrier tree salt'' (ri_gid inp) rest (bt_insert source_node source_secret [])) (\<lambda>secrets.
     tryE (ok_or ''barrier recover failed to derive root path secret'' (bt_get secrets 0)) (\<lambda>root_secret.
     tryE (derive_barrier_key E X ''derive barrier key salt'' (ri_gid inp) (cb_barrier_version p) (cb_revocation_roots_hash p) root_secret) (\<lambda>k_barrier_new.
     tryE (mapE (recover_node E X inp p secrets) (filter (\<lambda>node. \<not> (node = hd self_path \<or> node \<notin> set self_path)) rest)) (\<lambda>derived.
     tryE (if ri_barrier_update_reason inp = 1
       then tryE (derive_k_fs_after_pcs E X (ri_k_fs_before inp) (ri_weid inp) (ri_fs_ec inp) (cb_barrier_version p) k_barrier_new)
         (\<lambda>k. Inr (Some k))
       else Inr None) (\<lambda>k_fs.
     Inr \<lparr>rr_barrier_version = cb_barrier_version p, rr_k_barrier_new = k_barrier_new, rr_kem_tree_hash_after = cb_kem_tree_hash_after p,
       rr_k_fs_after_pcs = k_fs, rr_derived_node_key_material = fold (\<lambda>(node, m). bt_insert node m) derived []\<rparr>))))))"

definition recover_barrier_update ::
  "Ext \<Rightarrow> WireDecoders \<Rightarrow> KemExt \<Rightarrow> BarrierRecoveryInput \<Rightarrow> anyhow + BarrierRecoverResult option" where
  "recover_barrier_update E W X inp =
     tryE (ensure (ri_max_barrier_update_bytes inp \<noteq> 0) ''max_barrier_update_bytes must be positive'') (\<lambda>_.
     let n_max = max (ri_n_max inp) 1 in
     tryE (parse_barrier_update_for_recover E W (ri_raw_update inp) n_max (ri_max_barrier_update_bytes inp)) (\<lambda>p.
     tryE (check_recovery E inp n_max p) (\<lambda>_.
     if ri_author_pop_public_key inp = Some (ri_pop_public_key inp) \<and> cb_updater_slot_index p = ri_slot_index inp \<and>
        cb_updater_slot_generation p = ri_slot_generation inp
     then Inr None
     else
       tryE (barrier_path_nodes n_max (ri_slot_index inp)) (\<lambda>self_path.
       tryE (mapE (try_ciphertext E X inp p self_path) (cb_node_ciphertexts p)) (\<lambda>candidates.
       case matched candidates of
         [] \<Rightarrow> if CandidateFailed \<in> set candidates
               then Inl ''barrier recover rejected: candidate unwrap/decrypt failure (960.7)'' else Inr None
       | [(source_node, target_node, source_secret)] \<Rightarrow>
           tryE (ensure (source_node \<in> set self_path \<and> target_node \<in> set self_path)
             ''barrier recover rejected: off-path source/target (960.7)'') (\<lambda>_.
           tryE (recover_from_secret E X inp p self_path source_node source_secret) (\<lambda>r. Inr (Some r)))
       | _ \<Rightarrow> Inl ''barrier recover rejected: multi-match (960.2)'')))))"

section \<open>The client's tree is the server's\<close>

lemma path_from_tree_path: "map unat (path_from node) = tree_path (unat node)"
proof (induction node rule: path_from.induct)
  case (1 node)
  show ?case
  proof (cases "node = 0")
    case True
    then show ?thesis
      by (simp add: path_from.simps [of 0])
  next
    case False
    then have "unat ((node - 1) div 2) = (unat node - 1) div 2"
      by (simp add: unat_div unat_minus_one)
    then show ?thesis
      using 1 [OF False] False unat_pos [of node] by (subst path_from.simps) (simp add: tree_path_pos)
  qed
qed

lemma client_n_max_Inr [result_simps]:
  "client_n_max n = Inr m \<longleftrightarrow> m = n \<and> n \<noteq> 0 \<and> is_power_of_two n \<and> n \<le> MAX_BARRIER_N_MAX"
  by (auto simp: client_n_max_def result_simps not_less)

lemma n_max_small: "n \<le> MAX_BARRIER_N_MAX \<Longrightarrow> unat n \<le> 65536"
  by (simp add: MAX_BARRIER_N_MAX_def word_le_nat_alt)

lemma leaf_node_unat:
  assumes "n \<le> MAX_BARRIER_N_MAX" "n \<noteq> 0" "slot < n"
  shows "unat (saturating_sub n 1) = unat n - 1" "unat (saturating_add (saturating_sub n 1) slot) = unat n - 1 + unat slot"
proof -
  show lb: "unat (saturating_sub n 1) = unat n - 1"
    by (simp add: unat_saturating_sub)
  show "unat (saturating_add (saturating_sub n 1) slot) = unat n - 1 + unat slot"
    using n_max_small [OF assms(1)] assms(3) by (simp add: unat_saturating_add lb word_less_nat_alt)
qed

lemma barrier_path_nodes_Inr:
  "barrier_path_nodes n slot = Inr path \<longleftrightarrow>
     n \<noteq> 0 \<and> is_power_of_two n \<and> n \<le> MAX_BARRIER_N_MAX \<and> slot < n \<and> path = path_from (saturating_add (saturating_sub n 1) slot)"
  by (auto simp: barrier_path_nodes_def result_simps)

lemma barrier_path_tree:
  assumes "barrier_path_nodes n slot = Inr path"
  shows "map unat path = tree_path (unat n - 1 + unat slot)" "hd path = saturating_add (saturating_sub n 1) slot" "path \<noteq> []"
proof -
  have "map unat path = tree_path (unat (saturating_add (saturating_sub n 1) slot))"
    using assms path_from_tree_path by (simp add: barrier_path_nodes_Inr)
  then show "map unat path = tree_path (unat n - 1 + unat slot)"
    using leaf_node_unat(2) assms by (simp add: barrier_path_nodes_Inr)
  show "path \<noteq> []" "hd path = saturating_add (saturating_sub n 1) slot"
    using assms path_from.simps [of "saturating_add (saturating_sub n 1) slot"] by (auto simp: barrier_path_nodes_Inr split: if_splits)
qed

lemma client_child_unat:
  assumes "2 * unat node + unat k < 2 ^ 64"
  obtains m where "client_child node k = Some m" "unat m = 2 * unat node + unat k"
proof -
  have "unat (of_nat (2 * unat node + unat k) :: u64) = 2 * unat node + unat k"
    by (subst unat_of_nat) (use assms in simp)
  then show thesis
    using assms that client_child_Some by metis
qed

lemma client_children:
  assumes "unat node < length es" "length es < 2 ^ 62"
  obtains l r where "client_child node 1 = Some l" "unat l = 2 * unat node + 1" "client_child node 2 = Some r" "unat r = 2 * unat node + 2"
proof -
  obtain l where "client_child node 1 = Some l" "unat l = 2 * unat node + unat (1 :: u64)"
    by (rule client_child_unat [of node 1]) (use assms in simp_all)
  moreover obtain r where "client_child node 2 = Some r" "unat r = 2 * unat node + unat (2 :: u64)"
    by (rule client_child_unat [of node 2]) (use assms in simp_all)
  ultimately show thesis
    using that by simp
qed

lemma client_tree_hash_rec:
  assumes "unat lb = unat n - 1" "length es < 2 ^ 62"
  shows "client_tree_hash_recursive E node lb n es = Inr h \<longleftrightarrow>
    compute_barrier_tree_hash_recursive E (unat node) n (unat n) es = Inr h"
proof (induction "unat node" arbitrary: node h rule: tree_induct [of "length es"])
  case (node node)
  show ?case
  proof (cases "unat node < length es \<and> \<not> lb \<le> node")
    case False
    then show ?thesis
      using assms(1)
      by (subst client_tree_hash_recursive.simps, subst compute_barrier_tree_hash_recursive.simps)
        (auto simp: result_simps slice_get_Some word_le_nat_alt)
  next
    case True
    obtain l r where l: "client_child node 1 = Some l" "unat l = 2 * unat node + 1"
      and r: "client_child node 2 = Some r" "unat r = 2 * unat node + 2"
      using client_children [OF _ assms(2), of node] True by blast
    have idx: "child_index (unat node) 1 = Some (2 * unat node + 1)" "child_index (unat node) 2 = Some (2 * unat node + 2)"
      using True assms(2) by (simp_all add: child_index_def usize_max_def)
    have "\<not> unat n - 1 \<le> unat node"
      using True assms(1) by (simp add: word_le_nat_alt)
    with True show ?thesis
      using node(1) [of l] node(2) [of r] l r idx
      by (subst client_tree_hash_recursive.simps, subst compute_barrier_tree_hash_recursive.simps)
        (simp add: result_simps slice_get_Some)
  qed
qed

lemma client_tree_hash_Inr:
  "client_tree_hash E n es = Inr h \<longleftrightarrow>
     n \<noteq> 0 \<and> is_power_of_two n \<and> n \<le> MAX_BARRIER_N_MAX \<and> compute_barrier_tree_hash E n es = Inr h"
proof -
  have "client_tree_hash_recursive E 0 (saturating_sub n 1) n es = Inr h \<longleftrightarrow>
      compute_barrier_tree_hash_recursive E 0 n (unat n) es = Inr h"
    if "n \<le> MAX_BARRIER_N_MAX" "tree_len n = Some (length es)"
    using client_tree_hash_rec [of "saturating_sub n 1" n es E 0 h] n_max_small [OF that(1)] that(2)
    by (simp add: unat_saturating_sub tree_len_Some)
  then show ?thesis
    by (auto simp: client_tree_hash_def compute_barrier_tree_hash_def result_simps)
qed

lemma resolution_targets:
  assumes "length es < 2 ^ 62" "unat lb < 2 ^ 62"
  shows "\<exists>ts. collect_resolution_targets es node lb = Inr ts \<and> map unat ts = collect_resolution_nodes es (unat node) (unat lb)"
proof (induction "unat node" arbitrary: node rule: tree_induct [of "length es"])
  case (node node)
  show ?case
  proof (cases "unat node < length es \<and> es ! unat node = [] \<and> \<not> lb \<le> node")
    case False
    then show ?thesis
      by (subst collect_resolution_targets.simps, subst collect_resolution_nodes.simps)
        (auto simp: slice_get_def word_le_nat_alt)
  next
    case True
    obtain l r where l: "client_child node 1 = Some l" "unat l = 2 * unat node + 1"
      and r: "client_child node 2 = Some r" "unat r = 2 * unat node + 2"
      using client_children [OF _ assms(1), of node] True by blast
    obtain ls rs where "collect_resolution_targets es l lb = Inr ls" "map unat ls = collect_resolution_nodes es (unat l) (unat lb)"
        "collect_resolution_targets es r lb = Inr rs" "map unat rs = collect_resolution_nodes es (unat r) (unat lb)"
      using node(1) [of l] node(2) [of r] True l(2) r(2) by auto
    then show ?thesis
      using True l r
      by (subst collect_resolution_targets.simps, subst collect_resolution_nodes.simps)
        (simp add: slice_get_def word_le_nat_alt)
  qed
qed

lemma map_sort_unat: "map unat (sort ts) = sort (map unat ts)" for ts :: "u64 list"
proof (rule properties_for_sort [symmetric])
  show "mset (map unat (sort ts)) = mset (map unat ts)"
    by simp
  show "sorted (map unat (sort ts))"
    by (simp add: sorted_map word_le_nat_alt [symmetric])
qed

lemma sort_targets:
  assumes "map unat ts = ns"
  shows "map (\<lambda>t. (source, of_nat t :: u64)) (sort ns) = map (Pair source) (sort ts)"
proof -
  have "map (\<lambda>t. (source, of_nat t :: u64)) (sort ns) = map (\<lambda>t. (source, of_nat t)) (map unat (sort ts))"
    by (simp add: map_sort_unat assms)
  then show ?thesis
    by simp
qed

section \<open>Secrets along a path\<close>

text \<open>The map has a secret for every node of the path, each derived from the one below.\<close>
fun secret_chain :: "Ext \<Rightarrow> KemExt \<Rightarrow> bytes \<Rightarrow> (u64, hash32) btree \<Rightarrow> u64 list \<Rightarrow> bool" where
  "secret_chain E X gid m (a # b # rest) \<longleftrightarrow>
     (\<exists>salt s. h_l E ''barrier/tree/path'' (CArray [CBytes gid, cu64 b]) = Inr salt \<and> bt_get m a = Some s \<and>
       bt_get m b = Some (hkdf_blake3 X salt s BARRIER_TREE_INFO)) \<and> secret_chain E X gid m (b # rest)"
| "secret_chain E X gid m path \<longleftrightarrow> (\<forall>a\<in>set path. bt_get m a \<noteq> None)"

lemma secret_chain_get: "secret_chain E X gid m path \<Longrightarrow> a \<in> set path \<Longrightarrow> \<exists>s. bt_get m a = Some s"
  by (induction E X gid m path rule: secret_chain.induct) auto

lemma secret_chain_suffix: "secret_chain E X gid m (xs @ rest) \<Longrightarrow> secret_chain E X gid m rest"
proof (induction xs)
  case (Cons x xs)
  then show ?case
    by (cases "xs @ rest") (auto simp: Cons_eq_append_conv)
qed simp

lemma derive_path_secrets_chain:
  assumes "derive_path_secrets E X missing failed gid path m0 = Inr m" "distinct path" "bt_get m0 (hd path) = Some s"
  shows "secret_chain E X gid m path" "\<And>x. x \<notin> set (tl path) \<Longrightarrow> bt_get m x = bt_get m0 x"
proof -
  have "secret_chain E X gid m path \<and> (\<forall>x. x \<notin> set (tl path) \<longrightarrow> bt_get m x = bt_get m0 x)"
    using assms
  proof (induction E X missing failed gid path m0 arbitrary: s rule: derive_path_secrets.induct)
    case (1 E X missing failed gid a b rest m0)
    obtain salt where salt: "h_l E ''barrier/tree/path'' (CArray [CBytes gid, cu64 b]) = Inr salt"
      and run: "derive_path_secrets E X missing failed gid (b # rest) (bt_insert b (hkdf_blake3 X salt s BARRIER_TREE_INFO) m0) = Inr m"
      using 1(2,4) by (auto simp: result_simps)
    from 1(1) [OF _ _ run] salt 1(3,4) have ih: "secret_chain E X gid m (b # rest)"
        "\<forall>x. x \<notin> set rest \<longrightarrow> bt_get m x = bt_get (bt_insert b (hkdf_blake3 X salt s BARRIER_TREE_INFO) m0) x"
      by auto
    then show ?case
      using salt 1(3,4) by (auto simp: bt_get_insert)
  qed auto
  then show "secret_chain E X gid m path" "\<And>x. x \<notin> set (tl path) \<Longrightarrow> bt_get m x = bt_get m0 x"
    by auto
qed

text \<open>From any node of a chain the derivation gives the secrets of the chain.\<close>
lemma derive_path_secrets_follows:
  assumes "secret_chain E X gid m rest" "distinct rest" "rest \<noteq> []" "bt_get m0 (hd rest) = bt_get m (hd rest)"
  shows "\<exists>m'. derive_path_secrets E X missing failed gid rest m0 = Inr m' \<and> (\<forall>x\<in>set rest. bt_get m' x = bt_get m x)"
  using assms
proof (induction E X missing failed gid rest m0 rule: derive_path_secrets.induct)
  case (1 E X missing failed gid a b rest m0)
  obtain salt s where s: "h_l E ''barrier/tree/path'' (CArray [CBytes gid, cu64 b]) = Inr salt" "bt_get m a = Some s"
      "bt_get m b = Some (hkdf_blake3 X salt s BARRIER_TREE_INFO)" and chain: "secret_chain E X gid m (b # rest)"
    using 1(2) by auto
  let ?m1 = "bt_insert b (hkdf_blake3 X salt s BARRIER_TREE_INFO) m0"
  obtain m' where m': "derive_path_secrets E X missing failed gid (b # rest) ?m1 = Inr m'" "\<forall>x\<in>set (b # rest). bt_get m' x = bt_get m x"
    using 1(1) [of s salt] chain 1(3,5) s by (auto simp: bt_get_insert)
  have "bt_get m' a = bt_get ?m1 a"
    by (rule derive_path_secrets_chain(2) [OF m'(1)]) (use 1(3) in \<open>auto simp: bt_get_insert\<close>)
  then have "bt_get m' a = bt_get m a"
    using 1(3,5) by (auto simp: bt_get_insert)
  then show ?case
    using m' s 1(5) by (auto simp: result_simps)
qed auto

definition cbor_total :: "Ext \<Rightarrow> bool" where
  "cbor_total E \<longleftrightarrow> (\<forall>v. \<exists>b. cbor_ser E v = Inr b)"

lemma h_l_total: "cbor_total E \<Longrightarrow> validate_label l = Inr () \<Longrightarrow> \<exists>d. h_l E l v = Inr d"
  by (auto simp: cbor_total_def h_l_Inr)

lemma client_labels [simp]:
  "validate_label ''barrier/tree/path'' = Inr ()" "validate_label ''barrier/derive/salt'' = Inr ()" "validate_label ''barrier/keygen/d_salt'' = Inr ()"
  "validate_label ''barrier/keygen/z_salt'' = Inr ()" "validate_label ''barrier/wrap/nonce'' = Inr ()" "validate_label ''barrier/pk-hash'' = Inr ()"
  "validate_label ''barrier/update/digest'' = Inr ()" "validate_label ''fs/pcs/salt'' = Inr ()" "validate_label ''barrier/roots'' = Inr ()"
  "validate_label ''barrier/tree/leaf-hash'' = Inr ()" "validate_label ''barrier/tree/node-hash'' = Inr ()"
  by (simp_all add: validate_label_def as_bytes_def)

lemma derive_path_secrets_total:
  assumes "cbor_total E" "distinct path" "bt_get m0 (hd path) = Some s"
  shows "\<exists>m. derive_path_secrets E X missing failed gid path m0 = Inr m"
  using assms
proof (induction E X missing failed gid path m0 arbitrary: s rule: derive_path_secrets.induct)
  case (1 E X missing failed gid a b rest m0)
  obtain salt where salt: "h_l E ''barrier/tree/path'' (CArray [CBytes gid, cu64 b]) = Inr salt"
    using h_l_total [OF 1(2) client_labels(1)] by blast
  then show ?case
    using 1(1) [of s salt "hkdf_blake3 X salt s BARRIER_TREE_INFO"] 1(2-4) by (simp add: bt_get_insert)
qed auto

end
