(* ===== verification/BuiltUpdate.thy ===== *)
theory BuiltUpdate
  imports BarrierClient
begin

text \<open>
  What an update that a client has built looks like to those who read it.  A build that succeeds is taken apart into its
  secrets, keys and ciphertexts; the lemmas show that the result is well formed for the parsers of the server, the pipeline and
  the client, that its ciphertexts are for exactly the pairs the server expects, that every other member with a leaf finds the
  one ciphertext that is meant for it and derives the updater's barrier key and the new keys of its own path, that a member
  whose path is blank finds none, and that a build on a tree of good keys always succeeds.

  What the lemmas need of ML-KEM, the cipher, BLAKE3 and CBOR is in \<open>kem_sound\<close>, \<open>wire_law\<close>, \<open>digest32\<close> and \<open>cbor_total\<close>, together
  \<open>lawful\<close>.
\<close>

section \<open>What a built update holds\<close>

abbreviation ct_pair :: "NodeCiphertextWire \<Rightarrow> u64 \<times> u64" where
  "ct_pair n \<equiv> (nc_source n, nc_target n)"

text \<open>The intermediate values of a build.\<close>
record Built =
  bd_path :: "u64 list"
  bd_secrets :: "(u64, hash32) btree"
  bd_keys :: "((u32 \<times> NodeKeyMaterial) \<times> NewPublicKeyWire) list"
  bd_cts :: "NodeCiphertextWire list"
  bd_cover :: bytes

definition final_context :: "WrapContext \<Rightarrow> BarrierUpdateBuildResult \<Rightarrow> WrapContext" where
  "final_context c res = c\<lparr>wc_kem_tree_hash_after := br_kem_tree_hash_after res\<rparr>"

definition cover_of :: "WrapContext \<Rightarrow> BarrierUpdateBuildResult \<Rightarrow> Built \<Rightarrow> KemTreeCoverPayloadWire" where
  "cover_of c res b = built_cover (final_context c res) (bd_path b) (sort_key ct_pair (bd_cts b)) (map snd (bd_keys b))"

definition built_with :: "Ext \<Rightarrow> KemExt \<Rightarrow> hash32 \<Rightarrow> (u64 \<times> u64 \<Rightarrow> bytes) \<Rightarrow> WrapContext \<Rightarrow> bytes list \<Rightarrow> BarrierUpdateBuildResult \<Rightarrow> Built \<Rightarrow> bool" where
  "built_with E X ps coins c es res b \<longleftrightarrow>
     wc_n_max c \<noteq> 0 \<and> is_power_of_two (wc_n_max c) \<and> wc_n_max c \<le> MAX_BARRIER_N_MAX \<and> wc_updater_slot_index c < wc_n_max c \<and>
     tree_len (wc_n_max c) = Some (length es) \<and>
     barrier_path_nodes (wc_n_max c) (wc_updater_slot_index c) = Inr (bd_path b) \<and>
     secret_chain E X (wc_gid c) (bd_secrets b) (bd_path b) \<and> bt_get (bd_secrets b) (hd (bd_path b)) = Some ps \<and>
     (\<exists>root salt. bt_get (bd_secrets b) 0 = Some root \<and>
       h_l E ''barrier/derive/salt'' (CArray [CBytes (wc_gid c), cu64 (wc_barrier_version c), CBytes (wc_revocation_roots_hash c)]) = Inr salt \<and>
       br_k_barrier_new res = hkdf_blake3 X salt root BARRIER_KEY_INFO) \<and>
     mapE (build_node_key E X c (bd_secrets b)) (sort (drop 1 (bd_path b))) = Inr (bd_keys b) \<and>
     put_keys (map snd (bd_keys b)) es = Inr (br_snapshot_post res) \<and>
     compute_barrier_tree_hash E (wc_n_max c) (br_snapshot_post res) = Inr (br_kem_tree_hash_after res) \<and>
     wrap_path E X coins (final_context c res) (bd_secrets b) es (saturating_sub (wc_n_max c) 1) (bd_path b) = Inr (bd_cts b) \<and>
     to_cbor_vec E (ccover_payload (cover_of c res b)) = Inr (bd_cover b) \<and>
     to_cbor_vec E (cbarrier_update (built_wire (final_context c res) (bd_cover b))) = Inr (br_raw_update res) \<and>
     br_on_path_key_material res = fold (\<lambda>(node, m). bt_insert node m) (map fst (bd_keys b)) []"

lemma path_distinct: "barrier_path_nodes n slot = Inr path \<Longrightarrow> distinct path"
proof -
  assume "barrier_path_nodes n slot = Inr path"
  then have "map unat path = tree_path (unat n - 1 + unat slot)"
    by (rule barrier_path_tree)
  moreover have "distinct (tree_path i)" for i
    using tree_path_sorted [of i] by (induction i rule: tree_path.induct) (metis distinct_rev sorted_wrt_rev strict_sorted_iff)
  ultimately show "distinct path"
    by (metis distinct_map)
qed

lemma fresh_secrets:
  assumes "derive_path_secrets E X missing failed gid path (bt_insert (hd path) ps []) = Inr secrets" "barrier_path_nodes n slot = Inr path"
  shows "secret_chain E X gid secrets path" "bt_get secrets (hd path) = Some ps"
proof -
  have hd: "bt_get (bt_insert (hd path) ps []) (hd path) = Some ps"
    by simp
  note chain = derive_path_secrets_chain [OF assms(1) path_distinct [OF assms(2)] hd]
  have "hd path \<notin> set (tl path)"
    using path_distinct [OF assms(2)] barrier_path_tree(3) [OF assms(2)] by (cases path) auto
  then show "secret_chain E X gid secrets path" "bt_get secrets (hd path) = Some ps"
    using chain hd by simp_all
qed

lemma build_Inr:
  assumes "build_barrier_update_bytes E X ps coins c es = Inr res"
  obtains b where "built_with E X ps coins c es res b"
proof -
  obtain path secrets root k built post after raw digest
    where n: "client_n_max (wc_n_max c) = Inr (wc_n_max c)" "wc_updater_slot_index c < wc_n_max c"
      "expected_barrier_tree_nodes (wc_n_max c) = Inr (length es)"
      and path: "barrier_path_nodes (wc_n_max c) (wc_updater_slot_index c) = Inr path"
      and secrets: "derive_path_secrets E X ''barrier path secret derivation missing child'' ''derive barrier tree/path salt'' (wc_gid c) path
        (bt_insert (hd path) ps []) = Inr secrets"
      and root: "bt_get secrets 0 = Some root"
        "derive_barrier_key E X ''derive barrier/derive/salt'' (wc_gid c) (wc_barrier_version c) (wc_revocation_roots_hash c) root = Inr k"
      and built: "mapE (build_node_key E X c secrets) (sort (drop 1 path)) = Inr built" "put_keys (map snd built) es = Inr post"
        "client_tree_hash E (wc_n_max c) post = Inr after"
      and enc: "encode_update E X coins (c\<lparr>wc_kem_tree_hash_after := after\<rparr>) secrets es path (map snd built) = Inr (raw, digest)"
      and res: "res = \<lparr>br_raw_update = raw, br_barrier_update_digest = digest, br_kem_tree_hash_after = after, br_k_barrier_new = k,
        br_on_path_key_material = fold (\<lambda>(node, m). bt_insert node m) (map fst built) [], br_snapshot_post = post\<rparr>"
    using assms unfolding build_barrier_update_bytes_def by (auto simp: result_simps)
  obtain cts cover where cts: "wrap_path E X coins (final_context c res) secrets es (saturating_sub (wc_n_max c) 1) path = Inr cts"
      "to_cbor_vec E (ccover_payload (built_cover (final_context c res) path (sort_key ct_pair cts) (map snd built))) = Inr cover"
      "to_cbor_vec E (cbarrier_update (built_wire (final_context c res) cover)) = Inr raw"
    using enc unfolding encode_update_def by (auto simp: result_simps res final_context_def)
  let ?b = "\<lparr>bd_path = path, bd_secrets = secrets, bd_keys = built, bd_cts = cts, bd_cover = cover\<rparr>"
  have "built_with E X ps coins c es res ?b"
    using n path fresh_secrets [OF secrets path] root built cts unfolding built_with_def cover_of_def
    by (auto simp: res result_simps expected_barrier_tree_nodes_def derive_barrier_key_def client_tree_hash_Inr)
  then show thesis
    by (rule that)
qed

lemma wrap_secret_Inr:
  assumes "wrap_secret E X coins c secrets es s t = Inr n"
  obtains pkhash ss ct aad nonce secret wrapped where "unat t < length es" "es ! unat t \<noteq> []" "client_pkhash E (es ! unat t) = Inr pkhash"
    "length (es ! unat t) = 1184" "kx_ek_ok X (es ! unat t)" "kx_encaps X (coins (s, t)) (es ! unat t) = (ss, ct)"
    "wrap_aad E c s t pkhash = Inr aad" "wrap_nonce E s t = Inr nonce" "bt_get secrets s = Some secret"
    "kx_seal X ss nonce aad secret = Some wrapped"
    "n = \<lparr>nc_source = s, nc_target = t, nc_target_pk_hash = take 16 pkhash, nc_kem_ct = ct, nc_wrapped_ps = wrapped\<rparr>"
  using assms unfolding wrap_secret_def
  by (cases "kx_encaps X (coins (s, t)) (es ! unat t)") (auto simp: result_simps slice_get_Some)

lemma wrap_secrets_pairs:
  assumes "mapE (wrap_secret E X coins c secrets es s) ts = Inr ns"
  shows "map ct_pair ns = map (Pair s) ts"
proof -
  have "list_all2 (\<lambda>t n. wrap_secret E X coins c secrets es s t = Inr n) ts ns"
    using assms by (simp add: mapE_eq_Inr)
  then show ?thesis
    by (induction rule: list_all2_induct) (auto elim!: wrap_secret_Inr)
qed

lemma client_sibling_unat:
  assumes "unat node < 2 ^ 62"
  shows "map_option unat (client_sibling node) = sibling_node (unat node)"
proof -
  have "unat (node mod 2) = unat node mod 2"
    by (simp add: unat_mod)
  then have even: "even node \<longleftrightarrow> even (unat node)"
    by (metis even_iff_mod_2_eq_zero unat_eq_zero)
  have "unat (node + 1) = unat node + 1"
    using assms by (simp add: unat_word_ariths)
  then show ?thesis
    using even unat_minus_one [of node] by (auto simp: client_sibling_def sibling_node_def unat_eq_0)
qed

lemma wrap_path_pairs:
  assumes "wrap_path E X coins c secrets es lb path = Inr ns" "length es < 2 ^ 62" "unat lb < 2 ^ 62"
    and "\<forall>x\<in>set path. unat x < 2 ^ 62"
  shows "step_pairs es (unat lb) path = Inr (map ct_pair ns)"
  using assms
proof (induction E X coins c secrets es lb path arbitrary: ns rule: wrap_path.induct)
  case (1 E X coins c secrets es lb child source rest)
  obtain sib ts cts above where run: "client_sibling child = Some sib" "collect_resolution_targets es sib lb = Inr ts"
      "mapE (wrap_secret E X coins c secrets es source) (sort ts) = Inr cts"
      "wrap_path E X coins c secrets es lb (source # rest) = Inr above" "ns = cts @ above"
    using 1(2) by (auto simp: result_simps)
  have "sibling_node (unat child) = Some (unat sib)"
    using client_sibling_unat [of child] 1(5) run(1) by simp
  moreover have "map unat ts = collect_resolution_nodes es (unat sib) (unat lb)"
    using resolution_targets [OF 1(3,4), of sib] run(2) by simp
  moreover have "step_pairs es (unat lb) (source # rest) = Inr (map ct_pair above)"
    by (rule 1(1) [OF _ _ _ run(4) 1(3,4)]) (use run 1(5) in auto)
  ultimately show ?case
    using wrap_secrets_pairs [OF run(3)] run(5) sort_targets [of ts _ source] by (simp add: ok_or_def)
qed auto

lemma map_sort_key: "map f (sort_key f xs) = sort (map f xs)"
  by (rule properties_for_sort [symmetric]) simp_all

text \<open>The ciphertexts of a built update are for exactly the pairs that the server expects.\<close>
lemma built_pairs:
  assumes "built_with E X ps coins c es res b"
  shows "collect_expected_pairs es (bd_path b) (wc_n_max c) = Inr (map ct_pair (sort_key ct_pair (bd_cts b)))"
proof -
  have b: "wc_n_max c \<le> MAX_BARRIER_N_MAX" "tree_len (wc_n_max c) = Some (length es)"
      "barrier_path_nodes (wc_n_max c) (wc_updater_slot_index c) = Inr (bd_path b)" "wc_updater_slot_index c < wc_n_max c"
      "wrap_path E X coins (final_context c res) (bd_secrets b) es (saturating_sub (wc_n_max c) 1) (bd_path b) = Inr (bd_cts b)"
    using assms by (simp_all add: built_with_def)
  have n: "unat (wc_n_max c) \<le> 65536" "length es = 2 * unat (wc_n_max c) - 1"
    using n_max_small [OF b(1)] b(2) by (simp_all add: tree_len_Some)
  have path: "map unat (bd_path b) = tree_path (unat (wc_n_max c) - 1 + unat (wc_updater_slot_index c))"
    using barrier_path_tree(1) [OF b(3)] .
  have "unat x < 2 ^ 62" if "x \<in> set (bd_path b)" for x
  proof -
    have "unat x \<in> set (tree_path (unat (wc_n_max c) - 1 + unat (wc_updater_slot_index c)))"
      using that path by (metis image_eqI list.set_map)
    then show ?thesis
      using tree_path_le n b(4) by (fastforce simp: word_less_nat_alt)
  qed
  then have steps: "step_pairs es (unat (wc_n_max c) - 1) (bd_path b) = Inr (map ct_pair (bd_cts b))"
    using wrap_path_pairs [OF b(5)] n by (simp add: unat_saturating_sub)
  show ?thesis
  proof (cases "length (bd_path b) < 2")
    case True
    then have "bd_cts b = []"
      using b(5) by (cases "bd_path b"; cases "tl (bd_path b)") auto
    then show ?thesis
      using True by (simp add: collect_expected_pairs_def)
  next
    case False
    then show ?thesis
      using steps by (simp add: collect_expected_pairs_def unat_saturating_sub map_sort_key)
  qed
qed

lemma wrap_path_members:
  assumes "wrap_path E X coins c secrets es lb path = Inr ns" "n \<in> set ns"
  shows "wrap_secret E X coins c secrets es (nc_source n) (nc_target n) = Inr n \<and> nc_source n \<in> set (tl path)"
  using assms
proof (induction E X coins c secrets es lb path arbitrary: ns rule: wrap_path.induct)
  case (1 E X coins c secrets es lb child source rest)
  obtain sib ts cts above where run: "client_sibling child = Some sib" "collect_resolution_targets es sib lb = Inr ts"
      "mapE (wrap_secret E X coins c secrets es source) (sort ts) = Inr cts"
      "wrap_path E X coins c secrets es lb (source # rest) = Inr above" "ns = cts @ above"
    using 1(2) by (auto simp: result_simps)
  show ?case
  proof (cases "n \<in> set cts")
    case True
    then obtain t where t: "wrap_secret E X coins c secrets es source t = Inr n"
      using run(3) by (auto simp: mapE_eq_Inr list_all2_conv_all_nth in_set_conv_nth)
    then have "nc_source n = source" "nc_target n = t"
      by (auto elim!: wrap_secret_Inr)
    then show ?thesis
      using t by simp
  next
    case False
    then have "n \<in> set above"
      using 1(3) run(5) by simp
    from 1(1) [OF _ run(2,3,4) this] run(1) show ?thesis
      by auto
  qed
qed auto

lemma resolution_distinct: "distinct (collect_resolution_nodes es node lb)"
proof (induction node rule: tree_induct [of "length es"])
  case (node node)
  have "set (collect_resolution_nodes es (2 * node + 1) lb) \<inter> set (collect_resolution_nodes es (2 * node + 2) lb) = {}"
    using resolution_sound(1) below_siblings [of node] by blast
  then show ?case
    using node by (subst collect_resolution_nodes.simps) auto
qed

lemma step_pairs_distinct:
  assumes "step_pairs es lb path = Inr ps" "distinct path" "length es \<le> 2 ^ 64"
  shows "distinct ps \<and> fst ` set ps \<subseteq> set (tl path)"
  using assms
proof (induction es lb path arbitrary: ps rule: step_pairs.induct)
  case (1 es lb child source rest)
  obtain sib above where run: "sibling_node (unat child) = Some sib" "step_pairs es lb (source # rest) = Inr above"
      "ps = map (\<lambda>t. (source, of_nat t)) (sort (collect_resolution_nodes es sib lb)) @ above"
    using 1(2) by (auto simp: result_simps)
  have ih: "distinct above \<and> fst ` set above \<subseteq> set rest"
    using 1(1) [OF _ run(2)] run(1) 1(3,4) by auto
  have "inj_on (\<lambda>t. (source, of_nat t :: u64)) (set (collect_resolution_nodes es sib lb))"
  proof (rule inj_onI)
    fix t u
    assume "t \<in> set (collect_resolution_nodes es sib lb)" "u \<in> set (collect_resolution_nodes es sib lb)"
      and eq: "(source, of_nat t :: u64) = (source, of_nat u)"
    then have "t < 2 ^ 64" "u < 2 ^ 64"
      using resolution_sound(2) 1(4) by fastforce+
    then have "unat (of_nat t :: u64) = t" "unat (of_nat u :: u64) = u"
      by (simp_all add: unat_of_nat)
    moreover have "of_nat t = (of_nat u :: u64)"
      using eq by (rule Pair_inject)
    ultimately show "t = u"
      by metis
  qed
  then have "distinct (map (\<lambda>t. (source, of_nat t :: u64)) (sort (collect_resolution_nodes es sib lb)))"
    by (simp add: distinct_map resolution_distinct)
  then show ?case
    using ih run(3) 1(3) by (auto simp: rev_image_eqI)
qed auto

text \<open>The key material of a node with a secret.\<close>
definition node_key :: "Ext \<Rightarrow> KemExt \<Rightarrow> WrapContext \<Rightarrow> (u64, hash32) btree \<Rightarrow> u64 \<Rightarrow> bytes \<times> hash32 \<times> bytes \<Rightarrow> bool" where
  "node_key E X c secrets node key \<longleftrightarrow> (\<exists>s. bt_get secrets node = Some s \<and>
     derive_internal_node_key_material E X (wc_gid c) s (wc_barrier_version c) (wc_revocation_roots_hash c) (wc_n_max c) node = Inr key)"

lemma built_keys:
  assumes "built_with E X ps coins c es res b"
  shows "map (nk_node_index \<circ> snd) (bd_keys b) = sort (tl (bd_path b))"
    "\<And>k. k \<in> set (bd_keys b) \<Longrightarrow> \<exists>dk pkhash ek. node_key E X c (bd_secrets b) (nk_node_index (snd k)) (dk, pkhash, ek) \<and>
       k = ((ucast (nk_node_index (snd k)), \<lparr>nm_dk = dk, nm_pkhash = pkhash\<rparr>), \<lparr>nk_node_index = nk_node_index (snd k), nk_ek = ek\<rparr>)"
proof -
  have all: "list_all2 (\<lambda>node k. build_node_key E X c (bd_secrets b) node = Inr k) (sort (tl (bd_path b))) (bd_keys b)"
    using assms by (simp add: built_with_def mapE_eq_Inr drop_Suc)
  have key: "\<exists>dk pkhash ek. node_key E X c (bd_secrets b) node (dk, pkhash, ek) \<and>
      k = ((ucast node, \<lparr>nm_dk = dk, nm_pkhash = pkhash\<rparr>), \<lparr>nk_node_index = node, nk_ek = ek\<rparr>)"
    if "build_node_key E X c (bd_secrets b) node = Inr k" for node k
    using that unfolding build_node_key_def node_key_def by (auto simp: result_simps)
  from all show "map (nk_node_index \<circ> snd) (bd_keys b) = sort (tl (bd_path b))"
    by (induction rule: list_all2_induct) (auto dest!: key)
  show "\<exists>dk pkhash ek. node_key E X c (bd_secrets b) (nk_node_index (snd k)) (dk, pkhash, ek) \<and>
       k = ((ucast (nk_node_index (snd k)), \<lparr>nm_dk = dk, nm_pkhash = pkhash\<rparr>), \<lparr>nk_node_index = nk_node_index (snd k), nk_ek = ek\<rparr>)"
    if k: "k \<in> set (bd_keys b)" for k
  proof -
    obtain node where "build_node_key E X c (bd_secrets b) node = Inr k"
      using k all by (auto simp: list_all2_conv_all_nth in_set_conv_nth)
    then show ?thesis
      using key by fastforce
  qed
qed

section \<open>What the parameters promise\<close>

text \<open>A decapsulation key and the encapsulation key it belongs to.\<close>
definition key_pair :: "KemExt \<Rightarrow> bytes \<Rightarrow> bytes \<Rightarrow> bool" where
  "key_pair X dk ek \<longleftrightarrow> length dk = 2400 \<and> kx_dk_ok X dk \<and> length ek = 1184 \<and> kx_ek_ok X ek \<and>
     (\<forall>coins. kx_decaps X dk (snd (kx_encaps X coins ek)) = fst (kx_encaps X coins ek))"

text \<open>Generated keys belong together; ciphertexts have their size; what was sealed is opened, and sealing adds a tag of 16
  bytes and does not fail on a secret; BLAKE3 digests have 32 bytes.\<close>
definition kem_sound :: "KemExt \<Rightarrow> bool" where
  "kem_sound X \<longleftrightarrow> (\<forall>seed. key_pair X (fst (kx_from_seed X seed)) (snd (kx_from_seed X seed))) \<and>
     (\<forall>coins ek. length (snd (kx_encaps X coins ek)) = 1088) \<and>
     (\<forall>k n a m c. kx_seal X k n a m = Some c \<longrightarrow> kx_open X k n a c = Some m \<and> length c = length m + 16) \<and>
     (\<forall>k n a m. length m = 32 \<longrightarrow> kx_seal X k n a m \<noteq> None) \<and> (\<forall>k d. length (kx_blake3 X k d) = 32)"

text \<open>Decoding gives back what was encoded.\<close>
definition wire_law :: "Ext \<Rightarrow> WireDecoders \<Rightarrow> bool" where
  "wire_law E W \<longleftrightarrow> (\<forall>w raw. to_cbor_vec E (cbarrier_update w) = Inr raw \<longrightarrow> de_update W raw = Some w) \<and>
     (\<forall>w raw. to_cbor_vec E (ccover_payload w) = Inr raw \<longrightarrow> de_cover W raw = Some w)"

definition digest32 :: "Ext \<Rightarrow> bool" where
  "digest32 E \<longleftrightarrow> (\<forall>ctx b. length (blake3_derive E ctx b) = 32)"

lemma h_l_length: "digest32 E \<Longrightarrow> h_l E l v = Inr d \<Longrightarrow> length d = 32"
  by (auto simp: digest32_def h_l_Inr)

lemma derived_key:
  assumes "kem_sound X" "derive_internal_node_key_material E X gid s v r n node = Inr (dk, pkhash, ek)"
  shows "key_pair X dk ek" "client_pkhash E ek = Inr pkhash"
proof -
  obtain seed where "tryE (client_pkhash E (snd (kx_from_seed X seed))) (\<lambda>pkhash. Inr (fst (kx_from_seed X seed), pkhash, snd (kx_from_seed X seed))) = Inr (dk, pkhash, ek)"
    using assms(2) unfolding derive_internal_node_key_material_def Let_def by (auto simp: tryE_eq_Inr case_prod_beta)
  then have "kx_from_seed X seed = (dk, ek)" "client_pkhash E ek = Inr pkhash"
    by (auto simp: tryE_eq_Inr prod_eq_iff)
  moreover have "key_pair X (fst (kx_from_seed X seed)) (snd (kx_from_seed X seed))"
    using assms(1) unfolding kem_sound_def by blast
  ultimately show "key_pair X dk ek" "client_pkhash E ek = Inr pkhash"
    by simp_all
qed

lemma hkdf_length: "kem_sound X \<Longrightarrow> length (hkdf_blake3 X salt ikm info) = 32"
  unfolding hkdf_blake3_def kem_sound_def by blast

lemma chain_lengths:
  assumes "kem_sound X" "secret_chain E X gid m path" "bt_get m (hd path) = Some s" "length s = 32"
  shows "a \<in> set path \<Longrightarrow> bt_get m a = Some t \<Longrightarrow> length t = 32"
  using assms
proof (induction E X gid m path arbitrary: s rule: secret_chain.induct)
  case (1 E X gid m x y rest)
  obtain salt s' where s': "bt_get m y = Some (hkdf_blake3 X salt s' BARRIER_TREE_INFO)" "secret_chain E X gid m (y # rest)"
    using 1(5) by auto
  show ?case
  proof (cases "a \<in> set (y # rest)")
    case True
    then show ?thesis
      using 1(1) [OF True 1(3,4) s'(2)] s'(1) hkdf_length [OF 1(4)] by simp
  next
    case False
    then show ?thesis
      using 1(2,3,6,7) by simp
  qed
qed auto

lemma tree_hash_length:
  assumes "digest32 E" "compute_barrier_tree_hash E n es = Inr h"
  shows "length h = 32"
  using assms(2,1) unfolding digest32_def
  by (subst (asm) compute_barrier_tree_hash_def, subst (asm) compute_barrier_tree_hash_recursive.simps) (auto simp: result_simps split: if_splits)

section \<open>Built updates are well formed\<close>

lemma path_below:
  assumes "barrier_path_nodes n slot = Inr path"
  shows "x \<in> set path \<longleftrightarrow> below (unat x) (unat n - 1 + unat slot)"
proof -
  have "unat x \<in> set (map unat path) \<longleftrightarrow> x \<in> set path"
    by (auto simp: inj_image_mem_iff [OF inj_unsigned])
  then show ?thesis
    using barrier_path_tree(1) [OF assms] by simp
qed

lemma inner_node:
  assumes "barrier_path_nodes n slot = Inr path" "x \<in> set (tl path)"
  shows "unat x < unat n - 1" "x < saturating_sub n 1" "unat x < 65536"
proof -
  have n: "n \<le> MAX_BARRIER_N_MAX" "n \<noteq> 0" "slot < n"
    using assms(1) by (auto simp: barrier_path_nodes_Inr)
  note small = n_max_small [OF n(1)]
  let ?u = "unat n - 1 + unat slot"
  have tl: "unat x \<in> set (tl (tree_path ?u))"
    using barrier_path_tree(1) [OF assms(1)] assms(2) by (metis image_eqI list.set_map map_tl)
  then have u: "0 < ?u"
    using tree_path.simps [of 0] by (cases "?u = 0") auto
  then have "below (unat x) ((?u - 1) div 2)"
    using tl by (simp add: tree_path_pos)
  then have "unat x \<le> (?u - 1) div 2"
    by (meson below_le)
  then show le: "unat x < unat n - 1"
    using u n(3) by (auto simp: word_less_nat_alt)
  then show "x < saturating_sub n 1" "unat x < 65536"
    using small by (simp_all add: word_less_nat_alt unat_saturating_sub)
qed

lemma max_node:
  assumes "n \<noteq> 0" "n \<le> MAX_BARRIER_N_MAX"
  obtains m where "Option.bind (checked_mul n 2) (\<lambda>v. checked_sub v 2) = Some m" "unat m = 2 * unat n - 2"
    "Option.bind (checked_mul n 2) (\<lambda>v. checked_sub v 1) = Some (m + 1)" "saturating_sub (m + 1) 1 = m"
proof -
  have n: "unat n \<le> 65536" "0 < unat n"
    using n_max_small [OF assms(2)] assms(1) by (simp_all add: unat_gt_0)
  then have n2: "unat (n * 2) = 2 * unat n"
    by (simp add: unat_word_ariths)
  then have m: "unat (n * 2 - 2) = 2 * unat n - 2"
    using n(2) by (simp add: unat_sub word_le_nat_alt)
  moreover have "unat (n * 2 - 1) = 2 * unat n - 1" "n * 2 - 2 + 1 = n * 2 - 1"
    using n n2 by (simp_all add: unat_sub word_le_nat_alt)
  ultimately show thesis
    using n n2 by (intro that [of "n * 2 - 2"])
      (auto simp: checked_mul_def checked_sub_def saturating_sub_def word_le_nat_alt mult.commute)
qed

lemma client_path:
  assumes "barrier_path_nodes n slot = Inr path" "unat m = 2 * unat n - 2"
  shows "path_shape n m slot path"
proof -
  have n: "n \<le> MAX_BARRIER_N_MAX" "n \<noteq> 0" "slot < n"
    using assms(1) by (auto simp: barrier_path_nodes_Inr)
  note small = n_max_small [OF n(1)]
  have slot: "unat slot < unat n"
    using n(3) by (simp add: word_less_nat_alt)
  note path = barrier_path_tree [OF assms(1)]
  have hd: "unat (hd path) = unat n - 1 + unat slot"
    using path(2) leaf_node_unat(2) [OF n] by simp
  have "unat (last path) = 0"
    using path(1,3) last_tree_path by (metis last_map)
  then have last: "last path = 0"
    by (simp add: unat_eq_0)
  have "node \<le> m" if "node \<in> set path" for node
  proof -
    have "unat node \<le> unat n - 1 + unat slot"
      using that path_below [OF assms(1)] by (meson below_le)
    then show ?thesis
      using slot assms(2) by (simp add: word_le_nat_alt)
  qed
  moreover have "path_linked path"
    using parent_chain_iff [OF path(3) last] path(1) hd by (simp add: path_linked_iff)
  moreover have "checked_add (saturating_sub n 1) slot = Some (hd path)"
    using hd small slot by (simp add: checked_add_Some unat_saturating_sub word_unat_eq_iff unat_word_ariths(1))
  ultimately show ?thesis
    using path(3) last path_distinct [OF assms(1)] n(3) by (simp add: path_shape_def)
qed

lemma keys_shape_built:
  assumes sound: "kem_sound X" and b: "built_with E X ps coins c es res b" and m: "unat m = 2 * unat (wc_n_max c) - 2"
  shows "keys_shape (saturating_sub (wc_n_max c) 1) m (bd_path b) (map snd (bd_keys b))"
proof -
  have path: "barrier_path_nodes (wc_n_max c) (wc_updater_slot_index c) = Inr (bd_path b)"
    using b by (simp add: built_with_def)
  have nodes: "map nk_node_index (map snd (bd_keys b)) = sort (tl (bd_path b))"
    using built_keys(1) [OF b] by (simp add: comp_def)
  have dist: "distinct (tl (bd_path b))"
    using path_distinct [OF path] by (rule distinct_tl)
  have key: "nk_node_index k \<le> m \<and> nk_node_index k < saturating_sub (wc_n_max c) 1 \<and> length (nk_ek k) = 1184"
    if key: "k \<in> set (map snd (bd_keys b))" for k
  proof -
    obtain k' where k: "k' \<in> set (bd_keys b)" "k = snd k'"
      using key by auto
    obtain dk pkhash ek where "node_key E X c (bd_secrets b) (nk_node_index k) (dk, pkhash, ek)" "nk_ek k = ek"
      using built_keys(2) [OF b k(1)] k(2) by (metis NewPublicKeyWire.select_convs(2) snd_conv)
    then have "length (nk_ek k) = 1184"
      using derived_key(1) [OF sound] by (auto simp: node_key_def key_pair_def)
    moreover have "nk_node_index k \<in> set (tl (bd_path b))"
      using arg_cong [OF nodes, of set] key by auto
    ultimately show ?thesis
      using inner_node [OF path, of "nk_node_index k"] m by (simp add: word_le_nat_alt)
  qed
  have "length (map snd (bd_keys b)) = length (tl (bd_path b))"
    using nodes by (metis length_map length_sort)
  then show ?thesis
    using key nodes dist unfolding keys_shape_def
    by (simp add: drop_Suc distinct_card strictly_increasing_from_iff strict_sorted_iff)
qed

text \<open>A ciphertext of a built update.\<close>
lemma built_ct:
  assumes "built_with E X ps coins c es res b" "n \<in> set (bd_cts b)"
  obtains pkhash ss aad nonce secret where "unat (nc_target n) < length es" "es ! unat (nc_target n) \<noteq> []"
    "client_pkhash E (es ! unat (nc_target n)) = Inr pkhash" "kx_encaps X (coins (ct_pair n)) (es ! unat (nc_target n)) = (ss, nc_kem_ct n)"
    "wrap_aad E (final_context c res) (nc_source n) (nc_target n) pkhash = Inr aad" "wrap_nonce E (nc_source n) (nc_target n) = Inr nonce"
    "bt_get (bd_secrets b) (nc_source n) = Some secret" "kx_seal X ss nonce aad secret = Some (nc_wrapped_ps n)"
    "nc_target_pk_hash n = take 16 pkhash" "nc_source n \<in> set (tl (bd_path b))"
proof -
  have wrap: "wrap_path E X coins (final_context c res) (bd_secrets b) es (saturating_sub (wc_n_max c) 1) (bd_path b) = Inr (bd_cts b)"
    using assms(1) by (simp add: built_with_def)
  note n = wrap_path_members [OF wrap assms(2)]
  from n [THEN conjunct1] show thesis
  proof (rule wrap_secret_Inr)
    fix pkhash ss ct aad nonce secret wrapped
    assume w: "n = \<lparr>nc_source = nc_source n, nc_target = nc_target n, nc_target_pk_hash = take 16 pkhash, nc_kem_ct = ct, nc_wrapped_ps = wrapped\<rparr>"
      and rest: "unat (nc_target n) < length es" "es ! unat (nc_target n) \<noteq> []"
      "client_pkhash E (es ! unat (nc_target n)) = Inr pkhash" "kx_encaps X (coins (ct_pair n)) (es ! unat (nc_target n)) = (ss, ct)"
      "wrap_aad E (final_context c res) (nc_source n) (nc_target n) pkhash = Inr aad" "wrap_nonce E (nc_source n) (nc_target n) = Inr nonce"
      "bt_get (bd_secrets b) (nc_source n) = Some secret" "kx_seal X ss nonce aad secret = Some wrapped"
    have "nc_kem_ct n = ct" "nc_wrapped_ps n = wrapped" "nc_target_pk_hash n = take 16 pkhash"
      by (subst w, simp)+
    then show thesis
      using rest n by (intro that) auto
  qed
qed

lemma expected_pairs_distinct:
  assumes "collect_expected_pairs es path n = Inr ps" "distinct path" "length es \<le> 2 ^ 64"
  shows "distinct ps"
  using assms step_pairs_distinct [of es _ path] by (auto simp: collect_expected_pairs_def result_simps split: if_splits)

lemma ciphertexts_shape_built:
  assumes sound: "kem_sound X" "digest32 E" and b: "built_with E X ps coins c es res b" and m: "unat m = 2 * unat (wc_n_max c) - 2"
    and ps: "length ps = 32"
  shows "ciphertexts_shape m (sort_key ct_pair (bd_cts b))"
proof -
  have path: "barrier_path_nodes (wc_n_max c) (wc_updater_slot_index c) = Inr (bd_path b)"
    and len: "tree_len (wc_n_max c) = Some (length es)" and chain: "secret_chain E X (wc_gid c) (bd_secrets b) (bd_path b)"
      "bt_get (bd_secrets b) (hd (bd_path b)) = Some ps" and small: "wc_n_max c \<le> MAX_BARRIER_N_MAX"
    using b by (simp_all add: built_with_def)
  have one: "nc_source n \<le> m \<and> nc_target n \<le> m \<and> length (nc_target_pk_hash n) = 16 \<and> length (nc_kem_ct n) = 1088 \<and> length (nc_wrapped_ps n) = 48"
    if n: "n \<in> set (bd_cts b)" for n
  proof (rule built_ct [OF b n])
    fix pkhash ss aad nonce secret
    assume w: "unat (nc_target n) < length es" "client_pkhash E (es ! unat (nc_target n)) = Inr pkhash"
        "kx_encaps X (coins (ct_pair n)) (es ! unat (nc_target n)) = (ss, nc_kem_ct n)" "bt_get (bd_secrets b) (nc_source n) = Some secret"
        "kx_seal X ss nonce aad secret = Some (nc_wrapped_ps n)" "nc_target_pk_hash n = take 16 pkhash" "nc_source n \<in> set (tl (bd_path b))"
    have "length pkhash = 32"
      using w(2) h_l_length [OF sound(2)] unfolding client_pkhash_def by (cases "h_l E ''barrier/pk-hash'' (CBytes (es ! unat (nc_target n)))") (auto simp: map_err_def)
    moreover have "length (nc_kem_ct n) = 1088"
      using sound(1) w(3) unfolding kem_sound_def by (metis snd_conv)
    moreover have "length secret = 32"
      using chain_lengths [OF sound(1) chain ps _ w(4)] w(7) by (cases "bd_path b") auto
    moreover have "length (nc_wrapped_ps n) = length secret + 16"
      using sound(1) w(5) unfolding kem_sound_def by blast
    moreover have "nc_source n \<le> m" "nc_target n \<le> m"
      using inner_node(1) [OF path w(7)] w(1) len m by (simp_all add: tree_len_Some word_le_nat_alt)
    ultimately show ?thesis
      using w(6) by simp
  qed
  have "length es \<le> 2 ^ 64"
    using len n_max_small [OF small] by (simp add: tree_len_Some)
  then have "distinct (map ct_pair (sort_key ct_pair (bd_cts b)))"
    by (rule expected_pairs_distinct [OF built_pairs [OF b] path_distinct [OF path]])
  then have "strictly_increasing_from None (map ct_pair (sort_key ct_pair (bd_cts b)))"
    by (simp add: strictly_increasing_from_iff strict_sorted_iff map_sort_key)
  then show ?thesis
    using one by (simp add: ciphertexts_shape_def)
qed

text \<open>The server and the pipeline can read a built update.\<close>
lemma built_well_formed:
  assumes "kem_sound X" "digest32 E" "wire_law E W" and b: "built_with E X ps coins c es res b" and "length ps = 32"
    and "length (wc_revocation_roots_hash c) = 32" "length (wc_kem_tree_hash_before c) = 32"
  shows "well_formed_update E W (wc_n_max c) (br_raw_update res) (built_wire (final_context c res) (bd_cover b)) (cover_of c res b)"
proof -
  have n: "wc_n_max c \<noteq> 0" "is_power_of_two (wc_n_max c)" "wc_n_max c \<le> MAX_BARRIER_N_MAX"
    and path: "barrier_path_nodes (wc_n_max c) (wc_updater_slot_index c) = Inr (bd_path b)"
    and h: "compute_barrier_tree_hash E (wc_n_max c) (br_snapshot_post res) = Inr (br_kem_tree_hash_after res)"
    and raw: "to_cbor_vec E (ccover_payload (cover_of c res b)) = Inr (bd_cover b)"
      "to_cbor_vec E (cbarrier_update (built_wire (final_context c res) (bd_cover b))) = Inr (br_raw_update res)"
    using b by (simp_all add: built_with_def)
  obtain m where m: "Option.bind (checked_mul (wc_n_max c) 2) (\<lambda>v. checked_sub v 2) = Some m" "unat m = 2 * unat (wc_n_max c) - 2"
    using max_node [OF n(1,3)] by blast
  have "parse_deterministic E (de_update W) cbarrier_update (br_raw_update res) = Inr (built_wire (final_context c res) (bd_cover b))"
      "parse_deterministic E (de_cover W) ccover_payload (bd_cover b) = Inr (cover_of c res b)"
    using raw assms(3) by (auto simp: parse_deterministic_def wire_law_def)
  then show ?thesis
    using n m client_path [OF path m(2)] keys_shape_built [OF assms(1) b m(2)] ciphertexts_shape_built [OF assms(1,2) b m(2) assms(5)]
      tree_hash_length [OF assms(2) h] assms(6,7)
    by (simp add: well_formed_update_def built_wire_def cover_of_def built_cover_def final_context_def hint_shape_def)
qed

section \<open>The third parser\<close>

definition client_update :: "BarrierUpdateWire \<Rightarrow> KemTreeCoverPayloadWire \<Rightarrow> ClientBarrierUpdate" where
  "client_update w c = \<lparr>cb_barrier_version = bw_barrier_version w, cb_prev_barrier_version = bw_prev_barrier_version w,
     cb_tree_size = bw_tree_size w, cb_revocation_roots_hash = bw_revocation_roots_hash w,
     cb_kem_tree_hash_before = bw_kem_tree_hash_before w, cb_kem_tree_hash_after = bw_kem_tree_hash_after w,
     cb_updater_slot_index = kc_updater_slot_index c, cb_updater_slot_generation = kc_updater_slot_generation c,
     cb_path_nodes = kc_path_nodes c, cb_node_ciphertexts = kc_node_ciphertexts c,
     cb_new_public_keys = fold (\<lambda>k. bt_insert (nk_node_index k) (nk_ek k)) (kc_new_public_keys c) []\<rparr>"

lemma client_path_range_iff:
  "client_path_range m seen path = Inr () \<longleftrightarrow> (\<forall>x\<in>set path. x \<le> m) \<and> distinct path \<and> set path \<inter> seen = {}"
  by (induction m seen path rule: client_path_range.induct) (auto simp: result_simps not_less)

lemma client_new_keys_Inr:
  assumes "\<forall>k\<in>set keys. nk_node_index k \<le> max_index \<and> nk_node_index k < leaf_base \<and> length (nk_ek k) = 1184"
    and "strictly_increasing_from prev (map nk_node_index keys)" "seen \<inter> nk_node_index ` set keys = {}"
  shows "client_new_keys leaf_base max_index seen prev m keys =
    Inr (seen \<union> nk_node_index ` set keys, fold (\<lambda>k. bt_insert (nk_node_index k) (nk_ek k)) keys m)"
  using assms
proof (induction keys arbitrary: seen prev m)
  case (Cons k ks)
  have inc: "\<forall>k'\<in>set ks. nk_node_index k < nk_node_index k'" "strictly_increasing_from (Some (nk_node_index k)) (map nk_node_index ks)"
      "\<not> (case prev of None \<Rightarrow> False | Some p \<Rightarrow> nk_node_index k \<le> p)"
    using Cons(3) by (auto simp: strictly_increasing_from_iff split: option.splits)
  have "insert (nk_node_index k) seen \<inter> nk_node_index ` set ks = {}"
    using Cons(4) inc(1) by fastforce
  from Cons(1) [OF _ inc(2) this] Cons(2,4) inc(3) show ?case
    by (auto simp: result_simps tryE_def ensure_def ml_kem_public_key_bytes_def not_less)
qed simp

lemma client_ciphertexts_iff:
  "client_ciphertexts max_index prev cs = Inr () \<longleftrightarrow>
     (\<forall>c\<in>set cs. nc_source c \<le> max_index \<and> nc_target c \<le> max_index \<and> length (nc_target_pk_hash c) = 16 \<and>
       length (nc_kem_ct c) = 1088 \<and> length (nc_wrapped_ps c) = 48) \<and> strictly_increasing_from prev (map ct_pair cs)"
  by (induction max_index prev cs rule: client_ciphertexts.induct)
    (auto simp: result_simps not_less not_le ml_kem_ciphertext_bytes_def split: option.splits)

lemma client_parses:
  assumes wf: "well_formed_update E W n raw w c" and "n \<le> MAX_BARRIER_N_MAX" "length raw \<le> limit"
  shows "parse_barrier_update_for_recover E W raw n limit = Inr (client_update w c)"
proof -
  have n: "n \<noteq> 0" "is_power_of_two n"
    using wf by (simp_all add: well_formed_update_def)
  obtain m where m: "Option.bind (checked_mul n 2) (\<lambda>v. checked_sub v 2) = Some m" 
      "Option.bind (checked_mul n 2) (\<lambda>v. checked_sub v 1) = Some (m + 1)" "saturating_sub (m + 1) 1 = m"
    using max_node [OF n(1) assms(2)] by blast
  have shape: "path_shape n m (kc_updater_slot_index c) (kc_path_nodes c)" "ciphertexts_shape m (kc_node_ciphertexts c)"
      "keys_shape (saturating_sub n 1) m (kc_path_nodes c) (kc_new_public_keys c)"
    using wf m(1) by (simp_all add: well_formed_update_def)
  have slot: "kc_updater_slot_index c < n"
    using shape(1) by (simp add: path_shape_def)
  have leaf: "saturating_add (saturating_sub n 1) (kc_updater_slot_index c) = hd (kc_path_nodes c)"
    using shape(1) by (auto simp: path_shape_def checked_add_def saturating_add_def split: if_splits)
  have det: "client_deterministic_cbor E (de_update W) cbarrier_update raw = Inr w"
      "client_deterministic_cbor E (de_cover W) ccover_payload (bw_cover_payload w) = Inr c"
    using wf by (auto simp: well_formed_update_def parse_deterministic_def client_deterministic_cbor_def result_simps)
  have path: "client_path_shape m (hd (kc_path_nodes c)) (kc_path_nodes c) = Inr ()"
    using shape(1) by (auto simp: path_shape_def client_path_shape_def result_simps client_path_range_iff)
  have keys: "client_keys_shape (saturating_sub n 1) m (kc_path_nodes c) (kc_new_public_keys c) =
      Inr (cb_new_public_keys (client_update w c))"
    using shape(3) client_new_keys_Inr [of "kc_new_public_keys c" m "saturating_sub n 1" None "{}" "[]"]
    by (simp add: keys_shape_def client_keys_shape_def client_update_def)
  have cts: "client_ciphertexts m None (kc_node_ciphertexts c) = Inr ()"
    using shape(2) by (simp add: client_ciphertexts_iff ciphertexts_shape_def)
  show ?thesis
    using wf n assms(2,3) m det path keys cts slot
    by (simp add: parse_barrier_update_for_recover_def result_simps client_array32_def well_formed_update_def client_update_def leaf Let_def)
qed

section \<open>Where two paths meet\<close>

lemma meeting_point:
  "(s, t) \<in> update_pairs es lb u \<Longrightarrow> below t j \<Longrightarrow> below i u \<Longrightarrow> below i j \<Longrightarrow> below i s"
proof (induction u rule: tree_path.induct)
  case (1 u)
  have "i \<noteq> u"
    using update_pairs_off [OF 1(2,3)] 1(5) by blast
  then have u: "u \<noteq> 0" "below i ((u - 1) div 2)"
    using 1(4) by (auto simp: below_step [of i u])
  then show ?case
    using 1(1) [OF u(1) _ 1(3) u(2) 1(5)] 1(2) by (subst (asm) update_pairs.simps) auto
qed

lemma path_from_node:
  fixes x :: u64
  assumes "map unat path = tree_path u" "below (unat x) u"
  shows "map unat (dropWhile (\<lambda>y. y \<noteq> x) path) = tree_path (unat x)"
  using assms
proof (induction u arbitrary: path rule: tree_path.induct)
  case (1 u)
  obtain y rest where path: "path = y # rest" "unat y = u" "map unat rest = tl (tree_path u)"
    using 1(2) by (cases path; cases "u = 0") (auto simp: tree_path_pos)
  show ?case
  proof (cases "unat x = u")
    case True
    then have "y = x"
      using path(2) by (simp add: word_unat_eq_iff)
    then show ?thesis
      using path(1) 1(2) True by simp
  next
    case False
    then have "u \<noteq> 0" "below (unat x) ((u - 1) div 2)"
      using 1(3) by (auto simp: below_step [of "unat x" u])
    then show ?thesis
      using 1(1) path False by (auto simp: tree_path_pos)
  qed
qed

lemma bt_get_puts:
  assumes "distinct (map fst xs)"
  shows "bt_get (fold (\<lambda>(k, v). bt_insert k v) xs m) k = (case bt_get xs k of None \<Rightarrow> bt_get m k | Some v \<Rightarrow> Some v)"
  using assms
proof (induction xs arbitrary: m)
  case (Cons x xs)
  have "bt_get xs (fst x) = None"
    using Cons(2) by (simp add: map_of_eq_None_iff)
  then show ?case
    using Cons by (cases x) (auto split: option.split)
qed simp

lemma bt_inv_puts: "bt_inv m \<Longrightarrow> bt_inv (fold (\<lambda>(k, v). bt_insert k v) xs m)"
  by (induction xs arbitrary: m) auto

section \<open>What a member holds\<close>

definition holds_key :: "Ext \<Rightarrow> KemExt \<Rightarrow> NodeKeyMaterial \<Rightarrow> bytes \<Rightarrow> bool" where
  "holds_key E X m ek \<longleftrightarrow> key_pair X (nm_dk m) ek \<and> client_pkhash E ek = Inr (nm_pkhash m)"

text \<open>A member of a slot holds the key of its leaf and of every node above it that is not blank.\<close>
definition holds_path :: "Ext \<Rightarrow> KemExt \<Rightarrow> u64 \<Rightarrow> bytes list \<Rightarrow> u64 \<Rightarrow> NodeKeyMaterial \<Rightarrow> (u32, NodeKeyMaterial) btree \<Rightarrow> bool" where
  "holds_path E X n es slot leaf mats \<longleftrightarrow> holds_key E X leaf (es ! (unat n - 1 + unat slot)) \<and>
     (\<forall>node :: u64. below (unat node) (unat n - 1 + unat slot) \<longrightarrow> unat node < unat n - 1 \<longrightarrow> es ! unat node \<noteq> [] \<longrightarrow>
       (\<exists>m. bt_get mats (ucast node) = Some m \<and> holds_key E X m (es ! unat node)))"

lemma path_leaf:
  assumes "barrier_path_nodes n slot = Inr path" "x \<in> set path"
  shows "x = hd path \<longleftrightarrow> unat x = unat n - 1 + unat slot" "x \<noteq> hd path \<Longrightarrow> unat x < unat n - 1"
proof -
  have hd: "unat (hd path) = unat n - 1 + unat slot"
    using assms(1) barrier_path_tree(2) [OF assms(1)] leaf_node_unat(2) [of n slot] by (simp add: barrier_path_nodes_Inr)
  then show "x = hd path \<longleftrightarrow> unat x = unat n - 1 + unat slot"
    by (metis word_unat_eq_iff)
  assume "x \<noteq> hd path"
  then have "x \<in> set (tl path)"
    using assms(2) by (cases path) auto
  then show "unat x < unat n - 1"
    by (rule inner_node(1) [OF assms(1)])
qed

lemma holds_target:
  assumes "holds_path E X n es slot (ri_leaf_material inp) (ri_node_materials inp)" "barrier_path_nodes n slot = Inr path"
    and "t \<in> set path" "es ! unat t \<noteq> []"
  obtains m where "own_material inp (hd path) t = Some m" "holds_key E X m (es ! unat t)"
proof (cases "t = hd path")
  case True
  then have "own_material inp (hd path) t = Some (ri_leaf_material inp)" "unat t = unat n - 1 + unat slot"
    using path_leaf(1) [OF assms(2,3)] by (simp_all add: own_material_def)
  then show thesis
    using that assms(1) by (simp add: holds_path_def)
next
  case False
  have "below (unat t) (unat n - 1 + unat slot)" "unat t < unat n - 1"
    using path_below [OF assms(2)] path_leaf(2) [OF assms(2,3) False] assms(3) by simp_all
  then obtain m where "bt_get (ri_node_materials inp) (ucast t) = Some m" "holds_key E X m (es ! unat t)"
    using assms(1,4) unfolding holds_path_def by blast
  then show thesis
    using that False by (simp add: own_material_def)
qed

text \<open>What a member makes of a ciphertext of a built update.\<close>
definition outcome :: "Built \<Rightarrow> u64 list \<Rightarrow> NodeCiphertextWire \<Rightarrow> Candidate" where
  "outcome b self_path n =
     (if nc_target n \<in> set self_path then Matched (nc_source n) (nc_target n) (the (bt_get (bd_secrets b) (nc_source n))) else Skipped)"

definition update_of :: "WrapContext \<Rightarrow> BarrierUpdateBuildResult \<Rightarrow> Built \<Rightarrow> ClientBarrierUpdate" where
  "update_of c res b = client_update (built_wire (final_context c res) (bd_cover b)) (cover_of c res b)"

lemma update_of_simps:
  "cb_node_ciphertexts (update_of c res b) = sort_key ct_pair (bd_cts b)" "cb_path_nodes (update_of c res b) = bd_path b"
  "cb_barrier_version (update_of c res b) = wc_barrier_version c" "cb_tree_size (update_of c res b) = wc_n_max c"
  "cb_revocation_roots_hash (update_of c res b) = wc_revocation_roots_hash c"
  "cb_kem_tree_hash_after (update_of c res b) = br_kem_tree_hash_after res"
  "cb_updater_slot_index (update_of c res b) = wc_updater_slot_index c"
  "cb_new_public_keys (update_of c res b) = fold (\<lambda>k. bt_insert (nk_node_index k) (nk_ek k)) (map snd (bd_keys b)) []"
  "update_context (wc_gid c) (update_of c res b) = final_context c res"
  by (simp_all add: update_of_def client_update_def built_wire_def cover_of_def built_cover_def final_context_def update_context_def)

lemma try_built:
  assumes sound: "kem_sound X" and b: "built_with E X ps coins c es res b" and ps: "length ps = 32"
    and self: "barrier_path_nodes (wc_n_max c) slot = Inr self_path"
    and mine: "holds_path E X (wc_n_max c) es slot (ri_leaf_material inp) (ri_node_materials inp)" "ri_gid inp = wc_gid c"
    and n: "n \<in> set (bd_cts b)"
  shows "try_ciphertext E X inp (update_of c res b) self_path n = Inr (outcome b self_path n)"
proof (cases "nc_target n \<in> set self_path")
  case True
  show ?thesis
  proof (rule built_ct [OF b n])
    fix pkhash ss aad nonce secret
    assume w: "es ! unat (nc_target n) \<noteq> []" "client_pkhash E (es ! unat (nc_target n)) = Inr pkhash"
      "kx_encaps X (coins (ct_pair n)) (es ! unat (nc_target n)) = (ss, nc_kem_ct n)"
      "wrap_aad E (final_context c res) (nc_source n) (nc_target n) pkhash = Inr aad" "wrap_nonce E (nc_source n) (nc_target n) = Inr nonce"
      "bt_get (bd_secrets b) (nc_source n) = Some secret" "kx_seal X ss nonce aad secret = Some (nc_wrapped_ps n)"
      "nc_target_pk_hash n = take 16 pkhash" "nc_source n \<in> set (tl (bd_path b))"
    obtain m where m: "own_material inp (hd self_path) (nc_target n) = Some m" "holds_key E X m (es ! unat (nc_target n))"
      by (rule holds_target [OF mine(1) self True w(1)])
    then have pk: "nm_pkhash m = pkhash" and key: "key_pair X (nm_dk m) (es ! unat (nc_target n))"
      using w(2) by (auto simp: holds_key_def)
    have "length (nc_kem_ct n) = 1088"
      using sound w(3) unfolding kem_sound_def by (metis snd_conv)
    moreover have "kx_decaps X (nm_dk m) (nc_kem_ct n) = ss"
      using key w(3) unfolding key_pair_def by (metis fst_conv snd_conv)
    ultimately have cs: "candidate_secret X is_leaf (nm_dk m) (nc_kem_ct n) = Inr ss" for is_leaf
      using key by (simp add: candidate_secret_def decapsulate_internal_node_shared_secret_def key_pair_def ML_KEM_EXPANDED_DK_BYTES_def
          ml_kem_secret_key_bytes_def result_simps)
    have op: "kx_open X ss nonce aad (nc_wrapped_ps n) = Some secret"
      using sound w(7) unfolding kem_sound_def by blast
    have "secret_chain E X (wc_gid c) (bd_secrets b) (bd_path b)" "bt_get (bd_secrets b) (hd (bd_path b)) = Some ps"
      using b by (simp_all add: built_with_def)
    then have "length secret = 32"
      using chain_lengths [OF sound _ _ ps _ w(6)] w(9) by (cases "bd_path b") auto
    then show ?thesis
      using True m(1) pk w(4-6,8) cs op by (simp add: try_ciphertext_def outcome_def mine(2) update_of_simps)
  qed
qed (simp add: try_ciphertext_def outcome_def)

lemma one_match:
  assumes "distinct xs" "\<exists>!x. x \<in> set xs \<and> P x"
  obtains x where "filter P xs = [x]" "x \<in> set xs" "P x"
proof -
  obtain x where x: "x \<in> set xs" "P x" "\<And>y. y \<in> set xs \<Longrightarrow> P y \<Longrightarrow> y = x"
    using assms(2) by blast
  have "y \<in> set (filter P xs) \<longleftrightarrow> y = x" for y
    using x(1,2) x(3) [of y] by auto
  then have "set (filter P xs) = {x}"
    by blast
  moreover have "card (set (filter P xs)) = length (filter P xs)"
    by (rule distinct_card) (simp add: assms(1))
  ultimately have one: "set (filter P xs) = {x}" "length (filter P xs) = 1"
    by (metis, metis is_singletonI is_singleton_altdef)
  then obtain y where "filter P xs = [y]"
    by (auto simp: length_Suc_conv)
  with one(1) have "filter P xs = [x]"
    by simp
  with x that show thesis
    by blast
qed

lemma matched_outcomes:
  "matched (map (outcome b self_path) ns) =
     map (\<lambda>n. (nc_source n, nc_target n, the (bt_get (bd_secrets b) (nc_source n)))) (filter (\<lambda>n. nc_target n \<in> set self_path) ns)"
  by (induction ns) (auto simp: matched_def outcome_def List.map_filter_simps)

lemma built_announced:
  assumes "built_with E X ps coins c es res b" "node \<in> set (tl (bd_path b))"
  obtains dk pkhash ek where "node_key E X c (bd_secrets b) node (dk, pkhash, ek)" "bt_get (cb_new_public_keys (update_of c res b)) node = Some ek"
    "(((ucast node, \<lparr>nm_dk = dk, nm_pkhash = pkhash\<rparr>), \<lparr>nk_node_index = node, nk_ek = ek\<rparr>)) \<in> set (bd_keys b)"
proof -
  have path: "barrier_path_nodes (wc_n_max c) (wc_updater_slot_index c) = Inr (bd_path b)"
    using assms(1) by (simp add: built_with_def)
  have nodes: "map (nk_node_index \<circ> snd) (bd_keys b) = sort (tl (bd_path b))"
    by (rule built_keys(1) [OF assms(1)])
  have "node \<in> set (map (nk_node_index \<circ> snd) (bd_keys b))"
    using assms(2) unfolding nodes by simp
  then obtain k where k: "k \<in> set (bd_keys b)" "nk_node_index (snd k) = node"
    by auto
  obtain dk pkhash ek where key: "node_key E X c (bd_secrets b) node (dk, pkhash, ek)"
      "k = ((ucast node, \<lparr>nm_dk = dk, nm_pkhash = pkhash\<rparr>), \<lparr>nk_node_index = node, nk_ek = ek\<rparr>)"
    using built_keys(2) [OF assms(1) k(1)] k(2) by blast
  let ?puts = "map (\<lambda>k. (nk_node_index (snd k), nk_ek (snd k))) (bd_keys b)"
  have "distinct (map fst ?puts)"
    using nodes distinct_tl [OF path_distinct [OF path]] by (simp add: comp_def)
  moreover have "(node, ek) \<in> set ?puts"
    using k(1) key(2) by force
  ultimately have "bt_get (fold (\<lambda>(k, v). bt_insert k v) ?puts []) node = Some ek"
    by (simp add: bt_get_puts map_of_is_SomeI)
  then have "bt_get (cb_new_public_keys (update_of c res b)) node = Some ek"
    by (simp add: update_of_simps fold_map comp_def)
  then show thesis
    using that key k(1) by blast
qed

lemma put_keys_new: "put_keys ks es = Inr es' \<Longrightarrow> put_new_keys (map (\<lambda>k. (nk_node_index k, nk_ek k)) ks) es = Inr es'"
  by (induction ks es rule: put_keys.induct) (auto simp: result_simps)

text \<open>The tree after a built update.\<close>
lemma built_post:
  assumes "built_with E X ps coins c es res b"
  shows "length (br_snapshot_post res) = length es"
    "\<And>node :: u64. node \<notin> set (tl (bd_path b)) \<Longrightarrow> br_snapshot_post res ! unat node = es ! unat node"
    "\<And>node dk pkhash ek. node \<in> set (tl (bd_path b)) \<Longrightarrow> node_key E X c (bd_secrets b) node (dk, pkhash, ek) \<Longrightarrow> br_snapshot_post res ! unat node = ek"
proof -
  let ?puts = "map (\<lambda>k. (nk_node_index k, nk_ek k)) (map snd (bd_keys b))"
  have put: "put_new_keys ?puts es = Inr (br_snapshot_post res)"
    by (rule put_keys_new) (use assms in \<open>simp add: built_with_def\<close>)
  note nth = put_new_keys_nth [OF put]
  have path: "barrier_path_nodes (wc_n_max c) (wc_updater_slot_index c) = Inr (bd_path b)"
    using assms by (simp add: built_with_def)
  have nodes: "map fst ?puts = sort (tl (bd_path b))"
    using built_keys(1) [OF assms] by (simp add: comp_def)
  show "length (br_snapshot_post res) = length es"
    by (rule nth(1))
  have fst: "fst ` set ?puts = set (tl (bd_path b))"
    using arg_cong [OF nodes, of set] by (simp only: set_map set_sort)
  show "br_snapshot_post res ! unat node = es ! unat node" if "node \<notin> set (tl (bd_path b))" for node
    using that nth(2) [of "unat node"] unfolding fst by (simp add: inj_image_mem_iff [OF inj_unsigned])
  fix node dk pkhash ek
  assume node: "node \<in> set (tl (bd_path b))" "node_key E X c (bd_secrets b) node (dk, pkhash, ek)"
  obtain dk' pkhash' ek' where key: "node_key E X c (bd_secrets b) node (dk', pkhash', ek')"
      "(((ucast node, \<lparr>nm_dk = dk', nm_pkhash = pkhash'\<rparr>), \<lparr>nk_node_index = node, nk_ek = ek'\<rparr>)) \<in> set (bd_keys b)"
    using built_announced [OF assms node(1)] by metis
  then have "ek' = ek"
    using node(2) by (auto simp: node_key_def)
  then have "(node, ek) \<in> set ?puts"
    using key(2) by force
  moreover have "distinct (map fst ?puts)"
    unfolding nodes using distinct_tl [OF path_distinct [OF path]] by simp
  ultimately show "br_snapshot_post res ! unat node = ek"
    using nth(4) [of "(node, ek)"] by simp
qed

lemma recover_node_built:
  assumes b: "built_with E X ps coins c es res b" and gid: "ri_gid inp = wc_gid c"
    and node: "node \<in> set (tl (bd_path b))" "bt_get secrets node = bt_get (bd_secrets b) node"
    and key: "node_key E X c (bd_secrets b) node (dk, pkhash, ek)"
  shows "recover_node E X inp (update_of c res b) secrets node = Inr (ucast node, \<lparr>nm_dk = dk, nm_pkhash = pkhash\<rparr>)"
proof -
  have path: "barrier_path_nodes (wc_n_max c) (wc_updater_slot_index c) = Inr (bd_path b)"
    using b by (simp add: built_with_def)
  obtain dk' pkhash' ek' where k: "node_key E X c (bd_secrets b) node (dk', pkhash', ek')"
      "bt_get (cb_new_public_keys (update_of c res b)) node = Some ek'"
    using built_announced [OF b node(1)] by metis
  then have "ek' = ek"
    using key by (auto simp: node_key_def)
  then show ?thesis
    using key k(2) node gid inner_node(3) [OF path node(1)]
    by (auto simp: recover_node_def node_key_def update_of_simps drop_Suc tryE_def ok_or_def ensure_def)
qed

text \<open>The nodes whose keys a member derives: those above the source that are on its own path.\<close>
definition derived_nodes :: "Built \<Rightarrow> u64 list \<Rightarrow> u64 \<Rightarrow> u64 list" where
  "derived_nodes b self_path source =
     filter (\<lambda>node. \<not> (node = hd self_path \<or> node \<notin> set self_path)) (dropWhile (\<lambda>node. node \<noteq> source) (bd_path b))"

definition key_of :: "Ext \<Rightarrow> KemExt \<Rightarrow> WrapContext \<Rightarrow> (u64, hash32) btree \<Rightarrow> u64 \<Rightarrow> NodeKeyMaterial" where
  "key_of E X c secrets node =
     (case Option.bind (bt_get secrets node) (\<lambda>s. case derive_internal_node_key_material E X (wc_gid c) s (wc_barrier_version c)
          (wc_revocation_roots_hash c) (wc_n_max c) node of Inl _ \<Rightarrow> None | Inr key \<Rightarrow> Some key) of
        None \<Rightarrow> \<lparr>nm_dk = [], nm_pkhash = []\<rparr>
      | Some (dk, pkhash, ek) \<Rightarrow> \<lparr>nm_dk = dk, nm_pkhash = pkhash\<rparr>)"

lemma key_of_node: "node_key E X c secrets node (dk, pkhash, ek) \<Longrightarrow> key_of E X c secrets node = \<lparr>nm_dk = dk, nm_pkhash = pkhash\<rparr>"
  by (auto simp: node_key_def key_of_def)

lemma mapE_origin: "mapE f xs = Inr ys \<Longrightarrow> y \<in> set ys \<Longrightarrow> \<exists>x\<in>set xs. f x = Inr y"
  by (auto simp: mapE_eq_Inr list_all2_conv_all_nth in_set_conv_nth) (metis nth_mem)

lemma mapE_map: "(\<And>x. x \<in> set xs \<Longrightarrow> f x = Inr (g x)) \<Longrightarrow> mapE f xs = Inr (map g xs)"
  by (simp add: mapE_eq_Inr list_all2_conv_all_nth)

lemma rest_sub:
  assumes "distinct path" "source \<in> set (tl path)"
  shows "set (dropWhile (\<lambda>node. node \<noteq> source) path) \<subseteq> set (tl path)"
proof (cases path)
  case (Cons x xs)
  then have "x \<noteq> source"
    using assms by auto
  then show ?thesis
    using Cons by (auto dest: set_dropWhileD)
qed simp

lemma recover_from_built:
  assumes b: "built_with E X ps coins c es res b" and gid: "ri_gid inp = wc_gid c" and total: "cbor_total E"
    and source: "source \<in> set (tl (bd_path b))" "bt_get (bd_secrets b) source = Some secret"
  obtains k_fs where "recover_from_secret E X inp (update_of c res b) self_path source secret =
    Inr \<lparr>rr_barrier_version = wc_barrier_version c, rr_k_barrier_new = br_k_barrier_new res,
      rr_kem_tree_hash_after = br_kem_tree_hash_after res, rr_k_fs_after_pcs = k_fs,
      rr_derived_node_key_material = fold (\<lambda>(node, m). bt_insert node m)
        (map (\<lambda>node. (ucast node, key_of E X c (bd_secrets b) node)) (derived_nodes b self_path source)) []\<rparr>"
proof -
  let ?path = "bd_path b" and ?rest = "dropWhile (\<lambda>node. node \<noteq> source) (bd_path b)"
  have path: "barrier_path_nodes (wc_n_max c) (wc_updater_slot_index c) = Inr ?path"
    and chain: "secret_chain E X (wc_gid c) (bd_secrets b) ?path"
    using b by (simp_all add: built_with_def)
  obtain root salt where root: "bt_get (bd_secrets b) 0 = Some root"
      "h_l E ''barrier/derive/salt'' (CArray [CBytes (wc_gid c), cu64 (wc_barrier_version c), CBytes (wc_revocation_roots_hash c)]) = Inr salt"
      "br_k_barrier_new res = hkdf_blake3 X salt root BARRIER_KEY_INFO"
    using b by (auto simp: built_with_def)
  have mem: "source \<in> set ?path"
    using source(1) by (cases ?path) auto
  have rest: "?rest \<noteq> []" "hd ?rest = source" "distinct ?rest"
    using mem path_distinct [OF path] hd_dropWhile [of "\<lambda>node. node \<noteq> source" ?path] by (auto simp: dropWhile_eq_Nil_conv)
  have tree: "map unat ?rest = tree_path (unat source)"
    using path_from_node [OF barrier_path_tree(1) [OF path]] path_below [OF path] mem by simp
  have "0 \<in> unat ` set ?rest"
    using arg_cong [OF tree, of set] root_below [of "unat source"] by simp
  then have zero: "0 \<in> set ?rest"
    by (metis imageE unat_eq_0)
  have sub: "set ?rest \<subseteq> set (tl ?path)"
    by (rule rest_sub [OF path_distinct [OF path] source(1)])
  have "secret_chain E X (wc_gid c) (bd_secrets b) ?rest"
    using secret_chain_suffix [of E X _ _ "takeWhile (\<lambda>node. node \<noteq> source) ?path" ?rest] chain by simp
  moreover have "bt_get (bt_insert source secret []) (hd ?rest) = bt_get (bd_secrets b) (hd ?rest)"
    unfolding rest(2) by (simp add: source(2))
  ultimately obtain secrets
    where secrets: "derive_path_secrets E X ''barrier recover missing child path secret'' ''derive barrier tree salt'' (wc_gid c) ?rest
        (bt_insert source secret []) = Inr secrets" "\<forall>x\<in>set ?rest. bt_get secrets x = bt_get (bd_secrets b) x"
    using derive_path_secrets_follows rest(3,1) by blast
  have node: "recover_node E X inp (update_of c res b) secrets node = Inr (ucast node, key_of E X c (bd_secrets b) node)"
    if node: "node \<in> set (derived_nodes b self_path source)" for node
  proof -
    have n: "node \<in> set ?rest"
      using node by (simp add: derived_nodes_def)
    then have tl: "node \<in> set (tl ?path)" and get: "bt_get secrets node = bt_get (bd_secrets b) node"
      using sub secrets(2) by blast+
    show ?thesis
      by (rule built_announced [OF b tl]) (simp add: recover_node_built [OF b gid tl get] key_of_node)
  qed
  then have keys: "mapE (recover_node E X inp (update_of c res b) secrets) (derived_nodes b self_path source) =
      Inr (map (\<lambda>node. (ucast node, key_of E X c (bd_secrets b) node)) (derived_nodes b self_path source))"
    by (rule mapE_map)
  obtain salt' where "h_l E ''fs/pcs/salt'' (CArray [CBytes (ri_weid inp), cu64 (ri_fs_ec inp), cu64 (wc_barrier_version c)]) = Inr salt'"
    using h_l_total [OF total client_labels(8)] by blast
  then show thesis
    using that secrets zero root mem keys
    by (fastforce simp: recover_from_secret_def update_of_simps derived_nodes_def gid derive_barrier_key_def derive_k_fs_after_pcs_def
        tryE_def ok_or_def ensure_def map_err_def)
qed

text \<open>A member that has recovered an update, or whose own update was accepted, stores the new keys over the old ones.\<close>
definition insert_materials :: "(u32, NodeKeyMaterial) btree \<Rightarrow> (u32, NodeKeyMaterial) btree \<Rightarrow> (u32, NodeKeyMaterial) btree" where
  "insert_materials new mats = fold (\<lambda>(node, m). bt_insert node m) new mats"

lemma small_ucast:
  fixes x y :: u64
  assumes "unat x < 65536" "unat y < 65536" "ucast x = (ucast y :: u32)"
  shows "x = y"
proof -
  have "unat (ucast x :: u32) = unat x" "unat (ucast y :: u32) = unat y"
    using assms(1,2) by (simp_all add: unsigned_ucast_eq take_bit_nat_eq_self)
  then show ?thesis
    using assms(3) by (metis word_unat_eq_iff)
qed

lemma insert_materials_get:
  fixes nodes :: "u64 list"
  assumes "distinct nodes" "\<forall>x\<in>set nodes. unat x < 65536" "unat y < 65536"
  shows "bt_get (insert_materials (fold (\<lambda>(node, m). bt_insert node m) (map (\<lambda>node. (ucast node, f node)) nodes) []) mats) (ucast y) =
    (if y \<in> set nodes then Some (f y) else bt_get mats (ucast y))"
proof -
  let ?L = "map (\<lambda>node. (ucast node :: u32, f node)) nodes"
  have "inj_on (ucast :: u64 \<Rightarrow> u32) (set nodes)"
    using assms(2) small_ucast by (meson inj_onI)
  then have dist: "distinct (map fst ?L)"
    using assms(1) by (simp add: comp_def distinct_map)
  have L: "bt_get ?L (ucast y) = (if y \<in> set nodes then Some (f y) else None)"
    using assms(2,3) by (induction nodes) (auto dest: small_ucast)
  have "bt_get (fold (\<lambda>(node, m). bt_insert node m) ?L []) (ucast y) = (if y \<in> set nodes then Some (f y) else None)"
    using L by (simp add: bt_get_puts [OF dist])
  moreover have "distinct (map fst (fold (\<lambda>(node, m). bt_insert node m) ?L []))"
    by (intro bt_inv_distinct bt_inv_puts) simp
  ultimately show ?thesis
    by (simp add: insert_materials_def bt_get_puts)
qed

lemma key_of_holds:
  assumes "kem_sound X" "built_with E X ps coins c es res b" "node \<in> set (tl (bd_path b))"
  shows "holds_key E X (key_of E X c (bd_secrets b) node) (br_snapshot_post res ! unat node)"
proof (rule built_announced [OF assms(2,3)])
  fix dk pkhash ek
  assume key: "node_key E X c (bd_secrets b) node (dk, pkhash, ek)"
  then have "key_pair X dk ek" "client_pkhash E ek = Inr pkhash"
    using derived_key [OF assms(1)] by (auto simp: node_key_def)
  then show ?thesis
    using built_post(3) [OF assms(2,3) key] key_of_node [OF key] by (simp add: holds_key_def)
qed

text \<open>Whoever stores the new keys of the nodes that lie on its path holds its path in the new tree.\<close>
lemma holds_path_post:
  assumes sound: "kem_sound X" and b: "built_with E X ps coins c es res b" and self: "barrier_path_nodes (wc_n_max c) slot = Inr self_path"
    and mine: "holds_path E X (wc_n_max c) es slot leaf mats"
    and nodes: "distinct nodes" "set nodes = set (tl (bd_path b)) \<inter> set (tl self_path)"
  shows "holds_path E X (wc_n_max c) (br_snapshot_post res) slot leaf
    (insert_materials (fold (\<lambda>(node, m). bt_insert node m) (map (\<lambda>node. (ucast node, key_of E X c (bd_secrets b) node)) nodes) []) mats)"
    (is "holds_path E X ?n ?post slot leaf ?new")
proof -
  have path: "barrier_path_nodes ?n (wc_updater_slot_index c) = Inr (bd_path b)"
    using b by (simp add: built_with_def)
  have small: "\<forall>x\<in>set nodes. unat x < 65536"
    using inner_node(3) [OF path] nodes(2) by blast
  have hd: "hd self_path \<in> set self_path" "unat (hd self_path) = unat ?n - 1 + unat slot"
    using barrier_path_tree(3) [OF self] path_leaf(1) [OF self, of "hd self_path"] by simp_all
  then have "hd self_path \<notin> set (tl (bd_path b))"
    using inner_node(1) [OF path, of "hd self_path"] by auto
  then have leaf: "holds_key E X leaf (?post ! (unat ?n - 1 + unat slot))"
    using built_post(2) [OF b] mine hd(2) by (metis holds_path_def)
  have "\<exists>m. bt_get ?new (ucast node) = Some m \<and> holds_key E X m (?post ! unat node)"
    if node: "below (unat node) (unat ?n - 1 + unat slot)" "unat node < unat ?n - 1" "?post ! unat node \<noteq> []" for node :: u64
  proof -
    have self_tl: "node \<in> set (tl self_path)"
      using path_below [OF self, of node] path_leaf(1) [OF self, of node] node(1,2) by (cases self_path) auto
    have get: "bt_get ?new (ucast node) = (if node \<in> set nodes then Some (key_of E X c (bd_secrets b) node) else bt_get mats (ucast node))"
      by (rule insert_materials_get [OF nodes(1) small inner_node(3) [OF self self_tl]])
    show ?thesis
    proof (cases "node \<in> set nodes")
      case True
      then show ?thesis
        using key_of_holds [OF sound b] nodes(2) get by auto
    next
      case False
      then have "?post ! unat node = es ! unat node"
        using built_post(2) [OF b] self_tl nodes(2) by blast
      then show ?thesis
        using mine node get False unfolding holds_path_def by (metis (no_types))
    qed
  qed
  with leaf show ?thesis
    unfolding holds_path_def by blast
qed

lemma rest_below:
  assumes "barrier_path_nodes n slot = Inr path" "source \<in> set path"
  shows "x \<in> set (dropWhile (\<lambda>node. node \<noteq> source) path) \<longleftrightarrow> below (unat x) (unat source)"
proof -
  have "map unat (dropWhile (\<lambda>node. node \<noteq> source) path) = tree_path (unat source)"
    using path_from_node [OF barrier_path_tree(1) [OF assms(1)]] path_below [OF assms(1)] assms(2) by simp
  then have "unat ` set (dropWhile (\<lambda>node. node \<noteq> source) path) = set (tree_path (unat source))"
    by (metis set_map)
  moreover have "unat x \<in> unat ` set (dropWhile (\<lambda>node. node \<noteq> source) path) \<longleftrightarrow> x \<in> set (dropWhile (\<lambda>node. node \<noteq> source) path)"
    by (rule inj_image_mem_iff [OF inj_unsigned])
  ultimately show ?thesis
    by simp
qed

lemma ex1_inj:
  assumes "inj_on f A" "\<exists>!p. p \<in> f ` A \<and> Q p"
  shows "\<exists>!x. x \<in> A \<and> Q (f x)"
  using assms by (metis (no_types, lifting) imageE image_eqI inj_onD)

text \<open>The one ciphertext for a member, and the nodes above its source.\<close>
lemma ciphertext_for_member:
  assumes b: "built_with E X ps coins c es res b" and self: "barrier_path_nodes (wc_n_max c) slot = Inr self_path"
    and other: "slot \<noteq> wc_updater_slot_index c" "es ! (unat (wc_n_max c) - 1 + unat slot) \<noteq> []"
  obtains n where "filter (\<lambda>n. nc_target n \<in> set self_path) (sort_key ct_pair (bd_cts b)) = [n]" "n \<in> set (bd_cts b)"
    "nc_target n \<in> set self_path" "nc_source n \<in> set self_path"
    "set (derived_nodes b self_path (nc_source n)) = set (tl (bd_path b)) \<inter> set (tl self_path)"
proof -
  let ?n = "wc_n_max c" and ?cts = "sort_key ct_pair (bd_cts b)"
  let ?u = "unat ?n - 1 + unat (wc_updater_slot_index c)" and ?j = "unat ?n - 1 + unat slot"
  have path: "barrier_path_nodes ?n (wc_updater_slot_index c) = Inr (bd_path b)" and len: "tree_len ?n = Some (length es)"
    and small: "wc_n_max c \<le> MAX_BARRIER_N_MAX"
    using b by (simp_all add: built_with_def)
  have slots: "unat slot < unat ?n" "unat (wc_updater_slot_index c) < unat ?n"
    using self path by (simp_all add: barrier_path_nodes_Inr word_less_nat_alt)
  have es: "length es = 2 * unat ?n - 1"
    using len by (simp add: tree_len_Some)
  have u: "?u < length es" and j: "occupied es (unat ?n - 1) ?j" "?j \<noteq> ?u"
    using slots es other by (auto simp: occupied_def word_unat_eq_iff)
  note pairs = expected_pairs_members [OF len barrier_path_tree(1) [OF path] u]
  have members: "\<forall>j. occupied es (unat ?n - 1) j \<and> j \<noteq> ?u \<longrightarrow> (\<exists>!p. p \<in> set (map ct_pair ?cts) \<and> below (unat (snd p)) j)"
    "\<forall>(s, t)\<in>set (map ct_pair ?cts). below (unat s) (unat t)"
    using pairs built_pairs [OF b] by auto
  have "length es \<le> 2 ^ 64"
    using n_max_small [OF small] es by simp
  then have dist: "distinct (map ct_pair ?cts)"
    by (rule expected_pairs_distinct [OF built_pairs [OF b] path_distinct [OF path]])
  have "\<exists>!p. p \<in> ct_pair ` set ?cts \<and> snd p \<in> set self_path"
    using members(1) j path_below [OF self] by simp
  then have "\<exists>!n. n \<in> set ?cts \<and> nc_target n \<in> set self_path"
    using ex1_inj [of ct_pair "set ?cts" "\<lambda>p. snd p \<in> set self_path"] dist by (simp add: distinct_map)
  then obtain n where n: "filter (\<lambda>n. nc_target n \<in> set self_path) ?cts = [n]" "n \<in> set ?cts" "nc_target n \<in> set self_path"
    using one_match [of ?cts "\<lambda>n. nc_target n \<in> set self_path"] dist by (auto simp: distinct_map)
  have st: "below (unat (nc_source n)) (unat (nc_target n))"
    using members(2) n(2) by auto
  then have src: "nc_source n \<in> set self_path"
    using n(3) path_below [OF self] below_trans by blast
  have mem: "(unat (nc_source n), unat (nc_target n)) \<in> update_pairs es (unat ?n - 1) ?u"
    using expected_pairs_path [OF len barrier_path_tree(1) [OF path] u] built_pairs [OF b] n(2) by force
  have "n \<in> set (bd_cts b)"
    using n(2) by simp
  then have on: "nc_source n \<in> set (tl (bd_path b))"
    by (rule built_ct [OF b])
  have "x \<in> set (derived_nodes b self_path (nc_source n)) \<longleftrightarrow> x \<in> set (tl (bd_path b)) \<inter> set (tl self_path)" for x
  proof -
    have ends: "bd_path b \<noteq> []" "self_path \<noteq> []" "distinct (bd_path b)" "distinct self_path"
      using barrier_path_tree(3) path_distinct path self by blast+
    have "x \<in> set (tl self_path) \<longleftrightarrow> x \<in> set self_path \<and> x \<noteq> hd self_path"
      using ends by (cases self_path) auto
    moreover have "x \<in> set (dropWhile (\<lambda>node. node \<noteq> nc_source n) (bd_path b)) \<longleftrightarrow> x \<in> set (tl (bd_path b))" if "x \<in> set self_path"
      using rest_sub [OF ends(3) on] rest_below [OF path, of "nc_source n" x] on meeting_point [OF mem, of ?j "unat x"] n(3) that
        path_below [OF self] path_below [OF path] list.set_sel(2) [OF ends(1)] by blast
    ultimately show ?thesis
      by (auto simp: derived_nodes_def)
  qed
  then show thesis
    using that [of n] n src by auto
qed

section \<open>Members recover\<close>

text \<open>What holds of the parameters, and of the inputs of a build.\<close>
definition lawful :: "Ext \<Rightarrow> WireDecoders \<Rightarrow> KemExt \<Rightarrow> bool" where
  "lawful E W X \<longleftrightarrow> kem_sound X \<and> digest32 E \<and> wire_law E W \<and> cbor_total E"

definition build_sizes :: "WrapContext \<Rightarrow> hash32 \<Rightarrow> bool" where
  "build_sizes c ps \<longleftrightarrow> length ps = 32 \<and> length (wc_revocation_roots_hash c) = 32 \<and> length (wc_kem_tree_hash_before c) = 32"

text \<open>The member reads this update and is at its version, its tree and its roots.\<close>
definition in_step :: "Ext \<Rightarrow> WrapContext \<Rightarrow> bytes \<Rightarrow> BarrierRecoveryInput \<Rightarrow> bool" where
  "in_step E c raw inp \<longleftrightarrow> ri_gid inp = wc_gid c \<and> ri_n_max inp = wc_n_max c \<and> ri_raw_update inp = raw \<and>
     ri_max_barrier_update_bytes inp \<noteq> 0 \<and> length raw \<le> ri_max_barrier_update_bytes inp \<and> ri_slot_index inp < wc_n_max c \<and>
     ri_barrier_initialized inp \<and> ri_barrier_version inp = wc_prev_barrier_version c \<and>
     wc_barrier_version c = saturating_add (wc_prev_barrier_version c) 1 \<and>
     (ri_barrier_update_reason inp = 2 \<or> unwrap_or (ri_expected_before_hash inp) (ri_kem_tree_hash_after inp) = wc_kem_tree_hash_before c) \<and>
     client_revocation_roots_hash E (ri_revoked_since_root inp) (ri_revoked_root inp) = Inr (wc_revocation_roots_hash c) \<and>
     (if ri_barrier_roots_hash inp = wc_revocation_roots_hash c then ri_barrier_update_reason inp \<in> {1, 2}
      else ri_barrier_update_reason inp = 0)"

lemma in_step_checks:
  assumes "in_step E c raw inp"
  shows "check_recovery E inp (wc_n_max c) (update_of c res b) = Inr ()"
proof -
  have "cb_prev_barrier_version (update_of c res b) = wc_prev_barrier_version c"
      "cb_kem_tree_hash_before (update_of c res b) = wc_kem_tree_hash_before c"
    by (simp_all add: update_of_def client_update_def built_wire_def final_context_def)
  then show ?thesis
    using assms by (auto simp: in_step_def check_recovery_def update_of_simps tryE_def ensure_def split: if_splits)
qed

lemma built_parses:
  assumes "lawful E W X" "build_sizes c ps" "built_with E X ps coins c es res b" "in_step E c (br_raw_update res) inp"
  shows "parse_barrier_update_for_recover E W (ri_raw_update inp) (max (ri_n_max inp) 1) (ri_max_barrier_update_bytes inp) = Inr (update_of c res b)"
    "max (ri_n_max inp) 1 = wc_n_max c"
proof -
  have n: "wc_n_max c \<le> MAX_BARRIER_N_MAX" "wc_n_max c \<noteq> 0"
    using assms(3) by (simp_all add: built_with_def)
  have wf: "well_formed_update E W (wc_n_max c) (br_raw_update res) (built_wire (final_context c res) (bd_cover b)) (cover_of c res b)"
    by (rule built_well_formed) (use assms in \<open>auto simp: lawful_def build_sizes_def\<close>)
  show max: "max (ri_n_max inp) 1 = wc_n_max c"
    using assms(4) max_one [OF n(2)] by (simp add: in_step_def)
  show "parse_barrier_update_for_recover E W (ri_raw_update inp) (max (ri_n_max inp) 1) (ri_max_barrier_update_bytes inp) = Inr (update_of c res b)"
    using client_parses [OF wf n(1)] assms(4) unfolding max by (simp add: in_step_def update_of_def)
qed

lemma member_recovers:
  assumes law: "lawful E W X" "build_sizes c ps" and b: "built_with E X ps coins c es res b"
    and step: "in_step E c (br_raw_update res) inp" and other: "ri_slot_index inp \<noteq> wc_updater_slot_index c"
    and mine: "holds_path E X (wc_n_max c) es (ri_slot_index inp) (ri_leaf_material inp) (ri_node_materials inp)"
  obtains r where "recover_barrier_update E W X inp = Inr (Some r)" "rr_k_barrier_new r = br_k_barrier_new res"
    "rr_barrier_version r = wc_barrier_version c" "rr_kem_tree_hash_after r = br_kem_tree_hash_after res"
    "holds_path E X (wc_n_max c) (br_snapshot_post res) (ri_slot_index inp) (ri_leaf_material inp)
       (insert_materials (rr_derived_node_key_material r) (ri_node_materials inp))"
proof -
  let ?slot = "ri_slot_index inp" and ?p = "update_of c res b" and ?cts = "sort_key ct_pair (bd_cts b)"
  have sound: "kem_sound X" and total: "cbor_total E" and ps: "length ps = 32"
    using law by (simp_all add: lawful_def build_sizes_def)
  have slot: "?slot < wc_n_max c" and gid: "ri_gid inp = wc_gid c"
    using step by (simp_all add: in_step_def)
  obtain self_path where self: "barrier_path_nodes (wc_n_max c) ?slot = Inr self_path"
    using slot b by (simp add: barrier_path_nodes_Inr built_with_def)
  have "es ! (unat (wc_n_max c) - 1 + unat ?slot) \<noteq> []"
    using mine by (auto simp: holds_path_def holds_key_def key_pair_def)
  from ciphertext_for_member [OF b self other this] obtain n
    where one: "filter (\<lambda>n. nc_target n \<in> set self_path) ?cts = [n]" "n \<in> set (bd_cts b)"
      and on: "nc_target n \<in> set self_path" "nc_source n \<in> set self_path"
      and nodes: "set (derived_nodes b self_path (nc_source n)) = set (tl (bd_path b)) \<inter> set (tl self_path)" .
  have tries: "mapE (try_ciphertext E X inp ?p self_path) ?cts = Inr (map (outcome b self_path) ?cts)"
    using try_built [OF sound b ps self mine gid] by (intro mapE_map) simp
  obtain secret where secret: "bt_get (bd_secrets b) (nc_source n) = Some secret" "nc_source n \<in> set (tl (bd_path b))"
    by (rule built_ct [OF b one(2)])
  obtain k_fs where r: "recover_from_secret E X inp ?p self_path (nc_source n) secret =
    Inr \<lparr>rr_barrier_version = wc_barrier_version c, rr_k_barrier_new = br_k_barrier_new res,
      rr_kem_tree_hash_after = br_kem_tree_hash_after res, rr_k_fs_after_pcs = k_fs,
      rr_derived_node_key_material = fold (\<lambda>(node, m). bt_insert node m)
        (map (\<lambda>node. (ucast node, key_of E X c (bd_secrets b) node)) (derived_nodes b self_path (nc_source n))) []\<rparr>"
    by (rule recover_from_built [OF b gid total secret(2,1)])
  have "distinct (derived_nodes b self_path (nc_source n))"
    using path_distinct b unfolding derived_nodes_def built_with_def by (intro distinct_filter distinct_dropWhile) blast
  note holds = holds_path_post [OF sound b self mine this nodes]
  have "recover_barrier_update E W X inp = tryE (recover_from_secret E X inp ?p self_path (nc_source n) secret) (\<lambda>r. Inr (Some r))"
    using step other built_parses [OF law b step] in_step_checks [OF step, of res b] self tries one(1) on secret(1)
    by (simp add: recover_barrier_update_def in_step_def Let_def update_of_simps matched_outcomes ensure_def)
  then show thesis
    using that holds r by simp
qed

text \<open>Whoever has no key in the tree, as a revoked member, finds no ciphertext, whatever keys it still has.\<close>
lemma blank_path_recovers_nothing:
  assumes law: "lawful E W X" "build_sizes c ps" and b: "built_with E X ps coins c es res b"
    and step: "in_step E c (br_raw_update res) inp" and other: "ri_slot_index inp \<noteq> wc_updater_slot_index c"
    and blank: "\<And>i. i < length es \<Longrightarrow> below i (unat (wc_n_max c) - 1 + unat (ri_slot_index inp)) \<Longrightarrow> es ! i = []"
  shows "recover_barrier_update E W X inp = Inr None"
proof -
  let ?p = "update_of c res b" and ?cts = "sort_key ct_pair (bd_cts b)"
  obtain self_path where self: "barrier_path_nodes (wc_n_max c) (ri_slot_index inp) = Inr self_path"
    using step b by (simp add: barrier_path_nodes_Inr built_with_def in_step_def)
  have "nc_target n \<notin> set self_path" if "n \<in> set (bd_cts b)" for n
  proof (rule built_ct [OF b that])
    assume "unat (nc_target n) < length es" "es ! unat (nc_target n) \<noteq> []"
    then show ?thesis
      using blank path_below [OF self] by blast
  qed
  then have tries: "mapE (try_ciphertext E X inp ?p self_path) ?cts = Inr (map (\<lambda>_. Skipped) ?cts)"
    by (intro mapE_map) (simp add: try_ciphertext_def)
  have "matched (map (\<lambda>_. Skipped) ns) = []" for ns :: "NodeCiphertextWire list"
    by (induction ns) (simp_all add: matched_def List.map_filter_simps)
  moreover have "CandidateFailed \<notin> set (map (\<lambda>_. Skipped) ?cts)"
    by auto
  ultimately show ?thesis
    using step other built_parses [OF law b step] in_step_checks [OF step, of res b] self tries
    by (simp add: recover_barrier_update_def in_step_def Let_def update_of_simps)
qed

lemma built_materials:
  assumes "built_with E X ps coins c es res b"
  shows "br_on_path_key_material res =
    fold (\<lambda>(node, m). bt_insert node m) (map (\<lambda>node. (ucast node, key_of E X c (bd_secrets b) node)) (sort (tl (bd_path b)))) []"
proof -
  have "fst k = (ucast (nk_node_index (snd k)), key_of E X c (bd_secrets b) (nk_node_index (snd k)))" if mem: "k \<in> set (bd_keys b)" for k
  proof -
    obtain dk pkhash ek where key: "node_key E X c (bd_secrets b) (nk_node_index (snd k)) (dk, pkhash, ek)"
      and k: "k = ((ucast (nk_node_index (snd k)), \<lparr>nm_dk = dk, nm_pkhash = pkhash\<rparr>), \<lparr>nk_node_index = nk_node_index (snd k), nk_ek = ek\<rparr>)"
      using built_keys(2) [OF assms mem] by blast
    show ?thesis
      using key_of_node [OF key] by (subst k) simp
  qed
  then have "map fst (bd_keys b) = map (\<lambda>node. (ucast node, key_of E X c (bd_secrets b) node)) (map (nk_node_index \<circ> snd) (bd_keys b))"
    by simp
  then show ?thesis
    using assms built_keys(1) [OF assms] by (simp add: built_with_def)
qed

lemma updater_holds:
  assumes "kem_sound X" and b: "built_with E X ps coins c es res b"
    and mine: "holds_path E X (wc_n_max c) es (wc_updater_slot_index c) leaf mats"
  shows "holds_path E X (wc_n_max c) (br_snapshot_post res) (wc_updater_slot_index c) leaf (insert_materials (br_on_path_key_material res) mats)"
proof -
  have path: "barrier_path_nodes (wc_n_max c) (wc_updater_slot_index c) = Inr (bd_path b)"
    using b by (simp add: built_with_def)
  show ?thesis
    unfolding built_materials [OF b]
    by (rule holds_path_post [OF assms(1) b path mine]) (use distinct_tl [OF path_distinct [OF path]] in simp_all)
qed

section \<open>Building never fails on a tree of good keys\<close>

definition tree_keys_ok :: "KemExt \<Rightarrow> bytes list \<Rightarrow> bool" where
  "tree_keys_ok X es \<longleftrightarrow> (\<forall>ek\<in>set es. ek = [] \<or> length ek = 1184 \<and> kx_ek_ok X ek)"

lemma derive_key_total:
  assumes "cbor_total E"
  shows "\<exists>key. derive_internal_node_key_material E X gid s v r n node = Inr key"
proof -
  obtain d z where "h_l E ''barrier/keygen/d_salt'' (keygen_salt_args gid v r n node) = Inr d"
      "h_l E ''barrier/keygen/z_salt'' (keygen_salt_args gid v r n node) = Inr z"
    using h_l_total [OF assms] client_labels by metis
  moreover have "\<exists>h. client_pkhash E ek = Inr h" for ek
    using h_l_total [OF assms client_labels(6), of "CBytes ek"] by (auto simp: client_pkhash_def map_err_def)
  ultimately show ?thesis
    by (auto simp: derive_internal_node_key_material_def Let_def tryE_def map_err_def split: prod.splits) (metis old.sum.simps(6))
qed

lemma mapE_total: "(\<And>x. x \<in> set xs \<Longrightarrow> \<exists>y. f x = Inr y) \<Longrightarrow> \<exists>ys. mapE f xs = Inr ys"
  using bchoice [of "set xs" "\<lambda>x y. f x = Inr y"] mapE_map by meson

lemma to_cbor_total: "cbor_total E \<Longrightarrow> \<exists>b. to_cbor_vec E v = Inr b"
  by (auto simp: cbor_total_def to_cbor_vec_def map_err_def split: sum.splits) (metis sum.distinct(1))

lemma wrap_secret_total:
  assumes "kem_sound X" "cbor_total E" "tree_keys_ok X es" "unat t < length es" "es ! unat t \<noteq> []"
    and "bt_get secrets s = Some secret" "length secret = 32"
  shows "\<exists>n. wrap_secret E X coins c secrets es s t = Inr n"
proof -
  have ek: "length (es ! unat t) = 1184" "kx_ek_ok X (es ! unat t)"
    using assms(3-5) by (auto simp: tree_keys_ok_def)
  obtain ss ct where enc: "kx_encaps X (coins (s, t)) (es ! unat t) = (ss, ct)"
    by (rule prod.exhaust)
  obtain pkhash where h: "h_l E ''barrier/pk-hash'' (CBytes (es ! unat t)) = Inr pkhash"
    using h_l_total [OF assms(2) client_labels(6)] by blast
  obtain nonce where nonce: "h_l E ''barrier/wrap/nonce'' (CArray [cu64 s, cu64 t]) = Inr nonce"
    using h_l_total [OF assms(2) client_labels(5)] by blast
  have "\<exists>aad. wrap_aad E c s t pkhash = Inr aad"
    unfolding wrap_aad_def map_err_eq_Inr by (rule to_cbor_total [OF assms(2)])
  then obtain aad where aad: "wrap_aad E c s t pkhash = Inr aad"
    by blast
  obtain wrapped where "kx_seal X ss (take 12 nonce) aad secret = Some wrapped"
    using assms(1,7) unfolding kem_sound_def by blast
  then show ?thesis
    using assms(4-6) ek enc h nonce aad
    by (auto simp: wrap_secret_def slice_get_def client_pkhash_def wrap_nonce_def result_simps)
qed

lemma wrap_path_total:
  assumes "kem_sound X" "cbor_total E" "tree_keys_ok X es" "length es < 2 ^ 62" "unat lb < 2 ^ 62"
    and "path_linked path" "\<forall>a\<in>set (tl path). \<exists>s. bt_get secrets a = Some s \<and> length s = 32"
  shows "\<exists>ns. wrap_path E X coins c secrets es lb path = Inr ns"
  using assms
proof (induction E X coins c secrets es lb path rule: wrap_path.induct)
  case (1 E X coins c secrets es lb child source rest)
  obtain sib where sib: "client_sibling child = Some sib"
    using 1(7) by (cases "even child") (auto simp: client_sibling_def)
  obtain ts where ts: "collect_resolution_targets es sib lb = Inr ts" "map unat ts = collect_resolution_nodes es (unat sib) (unat lb)"
    using resolution_targets [OF 1(5,6)] by blast
  obtain secret where secret: "bt_get secrets source = Some secret" "length secret = 32"
    using 1(8) by auto
  have "\<exists>n. wrap_secret E X coins c secrets es source t = Inr n" if "t \<in> set (sort ts)" for t
  proof -
    have "unat t \<in> set (collect_resolution_nodes es (unat sib) (unat lb))"
      using that ts(2) by (metis image_eqI set_map set_sort)
    then have "unat t < length es" "es ! unat t \<noteq> []"
      using resolution_sound(2,3) by blast+
    then show ?thesis
      by (rule wrap_secret_total [OF 1(2-4) _ _ secret])
  qed
  then obtain cts where cts: "mapE (wrap_secret E X coins c secrets es source) (sort ts) = Inr cts"
    using mapE_total by metis
  obtain above where "wrap_path E X coins c secrets es lb (source # rest) = Inr above"
    using 1(1) [of sib ts cts] sib ts(1) cts 1(2-8) by (cases rest) auto
  then show ?case
    using sib ts(1) cts by (simp add: ok_or_def)
qed auto

lemma put_keys_total: "\<forall>k\<in>set ks. unat (nk_node_index k) < length es \<Longrightarrow> \<exists>es'. put_keys ks es = Inr es'"
  by (induction ks es rule: put_keys.induct) (auto simp: ensure_def)

lemma tree_hash_total:
  assumes "cbor_total E" "length es = 2 * unat n - 1" "unat n \<le> 65536" "node < length es"
  shows "\<exists>h. compute_barrier_tree_hash_recursive E node n (unat n) es = Inr h"
  using assms(4)
proof (induction node rule: tree_induct [of "length es"])
  case (node node)
  have labels: "\<exists>d. h_l E ''barrier/tree/leaf-hash'' v = Inr d" "\<exists>d. h_l E ''barrier/tree/node-hash'' v = Inr d" for v
    using h_l_total [OF assms(1)] client_labels by simp_all
  show ?case
  proof (cases "unat n - 1 \<le> node")
    case True
    then show ?thesis
      using node(3) labels(1) by (subst compute_barrier_tree_hash_recursive.simps) (simp add: result_simps slice_get_def)
  next
    case False
    then have "child_index node 1 = Some (2 * node + 1)" "child_index node 2 = Some (2 * node + 2)"
      using assms(2,3) by (simp_all add: child_index_def usize_max_def)
    moreover have "2 * node + 2 < length es"
      using False assms(2) by linarith
    then obtain l r where "compute_barrier_tree_hash_recursive E (2 * node + 1) n (unat n) es = Inr l"
        "compute_barrier_tree_hash_recursive E (2 * node + 2) n (unat n) es = Inr r"
      using node by fastforce
    ultimately show ?thesis
      using False node(3) labels(2) by (subst compute_barrier_tree_hash_recursive.simps) (simp add: result_simps slice_get_def)
  qed
qed

lemma encode_update_total:
  assumes "kem_sound X" "cbor_total E" "tree_keys_ok X es" "length es < 2 ^ 62" "unat (wc_n_max c) < 2 ^ 62" "path_linked path"
    and "\<forall>a\<in>set (tl path). \<exists>s. bt_get secrets a = Some s \<and> length s = 32"
  shows "\<exists>out. encode_update E X coins c secrets es path keys = Inr out"
proof -
  have "unat (saturating_sub (wc_n_max c) 1) < 2 ^ 62"
    using assms(5) by (simp add: unat_saturating_sub)
  then obtain ns where "wrap_path E X coins c secrets es (saturating_sub (wc_n_max c) 1) path = Inr ns"
    using wrap_path_total [OF assms(1-4) _ assms(6,7)] by blast
  moreover obtain cover where "to_cbor_vec E (ccover_payload (built_cover c path (sort_key ct_pair ns) keys)) = Inr cover"
    using to_cbor_total [OF assms(2)] by blast
  moreover obtain raw where "to_cbor_vec E (cbarrier_update (built_wire c cover)) = Inr raw"
    using to_cbor_total [OF assms(2)] by blast
  moreover obtain digest where "h_l E ''barrier/update/digest'' (CBytes raw) = Inr digest"
    using h_l_total [OF assms(2) client_labels(7)] by blast
  ultimately show ?thesis
    by (simp add: encode_update_def client_update_digest_def)
qed

lemma build_total:
  assumes law: "kem_sound X" "cbor_total E" "length ps = 32" and tree: "tree_keys_ok X es" "tree_len (wc_n_max c) = Some (length es)"
    and n: "wc_n_max c \<noteq> 0" "is_power_of_two (wc_n_max c)" "wc_n_max c \<le> MAX_BARRIER_N_MAX" "wc_updater_slot_index c < wc_n_max c"
  shows "\<exists>res. build_barrier_update_bytes E X ps coins c es = Inr res"
proof -
  let ?n = "wc_n_max c"
  obtain path where path: "barrier_path_nodes ?n (wc_updater_slot_index c) = Inr path"
    using n by (simp add: barrier_path_nodes_Inr)
  have es: "length es = 2 * unat ?n - 1" "unat ?n \<le> 65536"
    using tree(2) n_max_small [OF n(3)] by (simp_all add: tree_len_Some)
  then have small: "length es < 2 ^ 62" "unat ?n < 2 ^ 62"
    by simp_all
  obtain secrets where secrets: "derive_path_secrets E X ''barrier path secret derivation missing child'' ''derive barrier tree/path salt''
      (wc_gid c) path (bt_insert (hd path) ps []) = Inr secrets"
    using derive_path_secrets_total [OF law(2) path_distinct [OF path]] by fastforce
  note chain = fresh_secrets [OF secrets path]
  have secret: "\<exists>s. bt_get secrets a = Some s \<and> length s = 32" if "a \<in> set path" for a
    using secret_chain_get [OF chain(1) that] chain_lengths [OF law(1) chain law(3) that] by blast
  obtain m :: u64 where m: "unat m = 2 * unat ?n - 2"
    using max_node [OF n(1,3)] by blast
  from client_path [OF path m] have linked: "path_linked path" "0 \<in> set path"
    using last_in_set [of path] by (auto simp: path_shape_def)
  obtain root where root: "bt_get secrets 0 = Some root"
    using secret [OF linked(2)] by blast
  obtain k where k: "derive_barrier_key E X ''derive barrier/derive/salt'' (wc_gid c) (wc_barrier_version c) (wc_revocation_roots_hash c) root = Inr k"
    using h_l_total [OF law(2) client_labels(2)] by (fastforce simp: derive_barrier_key_def result_simps)
  have "\<exists>k. build_node_key E X c secrets node = Inr k" if "node \<in> set (sort (drop 1 path))" for node
  proof -
    have node: "node \<in> set (tl path)"
      using that by (simp add: drop_Suc)
    then obtain s where "bt_get secrets node = Some s"
      using secret by (cases path) auto
    then show ?thesis
      using derive_key_total [OF law(2)] inner_node(3) [OF path node]
      by (fastforce simp: build_node_key_def result_simps)
  qed
  then obtain built where built: "mapE (build_node_key E X c secrets) (sort (drop 1 path)) = Inr built"
    using mapE_total by metis
  have "unat (nk_node_index (snd k)) < length es" if k: "k \<in> set built" for k
  proof -
    obtain node where "build_node_key E X c secrets node = Inr k" "node \<in> set (tl path)"
      using mapE_origin [OF built k] by (auto simp: drop_Suc)
    then show ?thesis
      using inner_node(1) [OF path] es(1) by (fastforce simp: build_node_key_def result_simps)
  qed
  then have "\<forall>k\<in>set (map snd built). unat (nk_node_index k) < length es"
    by auto
  then obtain post where post: "put_keys (map snd built) es = Inr post"
    using put_keys_total by blast
  then have "length post = length es"
    using put_new_keys_nth(1) [OF put_keys_new] by blast
  then have "\<exists>h. compute_barrier_tree_hash E ?n post = Inr h"
    using tree_hash_total [OF law(2), of post ?n 0] es tree(2) unat_gt_0 [of ?n] n(1) whole_tree [of ?n post] by simp
  then obtain after where after: "client_tree_hash E ?n post = Inr after"
    using n by (auto simp: client_tree_hash_Inr)
  obtain raw digest where "encode_update E X coins (c\<lparr>wc_kem_tree_hash_after := after\<rparr>) secrets es path (map snd built) = Inr (raw, digest)"
    using encode_update_total [OF law(1,2) tree(1) small(1) _ linked(1), of "c\<lparr>wc_kem_tree_hash_after := after\<rparr>" secrets coins "map snd built"]
      small(2) secret list.set_sel(2) [OF barrier_path_tree(3) [OF path]] by auto
  then show ?thesis
    using n tree(2) path secrets root k built post after
    by (auto simp: build_barrier_update_bytes_def result_simps expected_barrier_tree_nodes_def)
qed

end
