(* ===== verification/ClientGroup.thy ===== *)
theory ClientGroup
  imports BuiltUpdate
begin

text \<open>
  Barrier updates from the client to the server and to the other members.  The first part models what the application does with
  the client library (\<open>cityg-gui\<close>: \<open>session_types.rs\<close>, \<open>barrier_recovery_runtime.rs\<close>, \<open>barrier_state_transitions.rs\<close>,
  \<open>barrier_epoch_sync_runtime.rs\<close>): it hands its session to the recovery and stores what was recovered, or activates its own
  update.  The second part shows that the server's checks accept what a client builds.  The third part is a room: a public tree
  and the sessions of its members, with a step relation of joins, revocations and updates, and the invariant that the members
  hold the keys of their paths and agree on the barrier key.

  Not modelled are the forward-secrecy counters that the application keeps beside the key, its caches of public trees and the
  check of the whole tree chain over the network; \<open>expected_before\<close> is the hash that check gives.
\<close>


section \<open>A member's session\<close>

text \<open>The fields of a session and of its barrier state that a barrier update reads or writes.\<close>
record AppSession =
  as_gid :: hash32
  as_pop_public_key :: bytes
  as_revoked_since_root :: hash32
  as_revoked_root :: hash32
  as_k_fs :: hash32
  as_barrier_initialized :: bool
  as_barrier_version :: u64
  as_barrier_roots_hash :: hash32
  as_k_barrier :: hash32
  as_kem_tree_hash_after :: hash32
  as_n_max :: u64
  as_slot_index :: u64
  as_slot_generation :: u64
  as_dk_leaf :: bytes
  as_pkhash_leaf :: hash32
  as_dk_nodes :: "(u32, NodeKeyMaterial) btree"
  as_barrier_recovery_pending :: bool
  as_current_barrier_full_verified :: bool

definition gui_header_u64 :: "header \<Rightarrow> u64 \<Rightarrow> u64 option" where
  "gui_header_u64 h key = (case bt_get h key of Some (CInt i) \<Rightarrow> u64_try_from i | _ \<Rightarrow> None)"

definition client_header_bytes32 :: "header \<Rightarrow> u64 \<Rightarrow> hash32 option" where
  "client_header_bytes32 h key = (case bt_get h key of Some (CBytes b) \<Rightarrow> if length b = 32 then Some b else None | _ \<Rightarrow> None)"

definition leaf_material :: "AppSession \<Rightarrow> NodeKeyMaterial" where
  "leaf_material s = \<lparr>nm_dk = as_dk_leaf s, nm_pkhash = as_pkhash_leaf s\<rparr>"

definition recovery_input ::
  "AppSession \<Rightarrow> header \<Rightarrow> bytes \<Rightarrow> u64 \<Rightarrow> hash32 \<Rightarrow> hash32 \<Rightarrow> hash32 \<Rightarrow> u64 \<Rightarrow> nat \<Rightarrow> hash32 option \<Rightarrow> bool \<Rightarrow> BarrierRecoveryInput" where
  "recovery_input s h raw_update reason revoked_since_root revoked_root weid fs_ec max_bytes expected_before_hash skip_local_checks =
     \<lparr>ri_gid = as_gid s, ri_n_max = as_n_max s, ri_slot_index = as_slot_index s, ri_slot_generation = as_slot_generation s,
      ri_barrier_initialized = as_barrier_initialized s, ri_barrier_version = as_barrier_version s,
      ri_barrier_roots_hash = as_barrier_roots_hash s, ri_kem_tree_hash_after = as_kem_tree_hash_after s,
      ri_pop_public_key = as_pop_public_key s, ri_leaf_material = leaf_material s, ri_node_materials = as_dk_nodes s,
      ri_k_fs_before = as_k_fs s, ri_weid = weid, ri_fs_ec = fs_ec, ri_raw_update = raw_update, ri_barrier_update_reason = reason,
      ri_revoked_since_root = revoked_since_root, ri_revoked_root = revoked_root,
      ri_author_pop_public_key = value_bytes h HDR_POP_PK, ri_max_barrier_update_bytes = max_bytes,
      ri_expected_before_hash = expected_before_hash, ri_skip_local_checks = skip_local_checks\<rparr>"

definition try_recover_barrier_inner ::
  "Ext \<Rightarrow> WireDecoders \<Rightarrow> KemExt \<Rightarrow> AppSession \<Rightarrow> header \<Rightarrow> hash32 \<Rightarrow> u64 \<Rightarrow> nat \<Rightarrow> hash32 option \<Rightarrow> bool \<Rightarrow>
     anyhow + BarrierRecoverResult option" where
  "try_recover_barrier_inner E W X s h weid fs_ec max_bytes expected_before_hash skip_local_checks =
     (case bt_get h HDR_BARRIER_UPDATE of
        None \<Rightarrow> Inr None
      | Some (CBytes raw_update) \<Rightarrow>
          tryE (ok_or ''barrier_update_reason is missing or malformed'' (gui_header_u64 h HDR_BARRIER_UPDATE_REASON)) (\<lambda>reason.
          tryE (ok_or ''header revoked_since_prev_root is missing or malformed'' (client_header_bytes32 h HDR_REVOKED_SINCE_ROOT)) (\<lambda>since_root.
          tryE (ok_or ''header revoked_root is missing or malformed'' (client_header_bytes32 h HDR_REVOKED_ROOT)) (\<lambda>revoked_root.
          recover_barrier_update E W X
            (recovery_input s h raw_update reason since_root revoked_root weid fs_ec max_bytes expected_before_hash skip_local_checks))))
      | Some _ \<Rightarrow> Inl ''header barrier_update must be bytes'')"

definition apply_recovered_barrier_state :: "Ext \<Rightarrow> AppSession \<Rightarrow> BarrierRecoverResult \<Rightarrow> bool \<Rightarrow> anyhow + AppSession" where
  "apply_recovered_barrier_state E s r full_verified =
     tryE (client_revocation_roots_hash E (as_revoked_since_root s) (as_revoked_root s)) (\<lambda>roots_hash.
     Inr (s\<lparr>as_barrier_initialized := True, as_barrier_version := rr_barrier_version r, as_barrier_roots_hash := roots_hash,
       as_k_barrier := rr_k_barrier_new r, as_kem_tree_hash_after := rr_kem_tree_hash_after r,
       as_dk_nodes := insert_materials (rr_derived_node_key_material r) (as_dk_nodes s),
       as_k_fs := unwrap_or (rr_k_fs_after_pcs r) (as_k_fs s),
       as_barrier_recovery_pending := False, as_current_barrier_full_verified := full_verified\<rparr>))"

text \<open>The updater's own update, once it has been accepted.\<close>
definition activate_pending :: "AppSession \<Rightarrow> u64 \<Rightarrow> hash32 \<Rightarrow> hash32 option \<Rightarrow> BarrierUpdateBuildResult \<Rightarrow> AppSession" where
  "activate_pending s barrier_version revocation_roots_hash k_fs_after_pcs res =
     s\<lparr>as_barrier_initialized := True, as_barrier_version := barrier_version, as_barrier_roots_hash := revocation_roots_hash,
       as_k_barrier := br_k_barrier_new res, as_kem_tree_hash_after := br_kem_tree_hash_after res,
       as_dk_nodes := insert_materials (br_on_path_key_material res) (as_dk_nodes s), as_k_fs := unwrap_or k_fs_after_pcs (as_k_fs s),
       as_barrier_recovery_pending := False, as_current_barrier_full_verified := True\<rparr>"

text \<open>The synchronisation of an epoch with an update of somebody else that continues the version of the session: the roots of
  the anchor, the recovery, and the comparison with the hash of the ticket.\<close>
definition sync_update ::
  "Ext \<Rightarrow> WireDecoders \<Rightarrow> KemExt \<Rightarrow> header \<Rightarrow> hash32 \<Rightarrow> hash32 \<Rightarrow> hash32 \<Rightarrow> u64 \<Rightarrow> nat \<Rightarrow> hash32 \<Rightarrow> hash32 \<Rightarrow> AppSession \<Rightarrow> anyhow + AppSession" where
  "sync_update E W X h since_root revoked_root weid fs_ec max_bytes expected_before ticket_hash_after s =
     (let s = s\<lparr>as_revoked_since_root := since_root, as_revoked_root := revoked_root\<rparr> in
      tryE (map_err (\<lambda>_. ''barrier recover failed'') (try_recover_barrier_inner E W X s h weid fs_ec max_bytes (Some expected_before) False)) (\<lambda>recovered.
      case recovered of
        None \<Rightarrow> Inl ''barrier recover produced no match (960.6) for a barrier update''
      | Some r \<Rightarrow>
          tryE (ensure (rr_kem_tree_hash_after r = ticket_hash_after)
            ''barrier recover hash-chain mismatch: recovered hash does not match merge ticket'') (\<lambda>_.
          apply_recovered_barrier_state E s r True)))"

section \<open>The server accepts what a client builds\<close>

lemma update_hash_before_Inr:
  assumes ok: "server_tree_ok E st" and base: "base_ok st owned" and n: "n = max (gs_n_max st) 1"
    and es: "es = unwrap_or owned (gs_barrier_pk_entries st)" and hash: "compute_barrier_tree_hash E n es = Inr h"
  shows "fst (update_hash_before E st n owned) = Inr h"
proof (cases owned)
  case None
  then show ?thesis
    using ok base n es hash by (auto simp: update_hash_before_def server_tree_ok_def base_ok_def Let_def)
next
  case (Some pre)
  have len: "tree_len n = Some (length es)" and pre: "pre = es"
    using base n es Some by (simp_all add: base_ok_def)
  have "cache_ok E n es UNIV Map.empty"
    by (simp add: cache_ok_def)
  from cached_hash [OF _ _ _ this, of None 0] have "fst (compute_barrier_subtree_hash_cached E 0 n (unat n) es None Map.empty) = tree_hash E n es 0"
    by (metis (no_types, lifting) UNIV_I child_closed_def option.distinct(1) prod.collapse)
  then show ?thesis
    using hash whole_tree [OF len] pre by (simp add: update_hash_before_def Some)
qed

lemma update_hash_after_Inr:
  assumes ok: "server_tree_ok E st" and base: "base_ok st owned" and n: "n = max (gs_n_max st) 1"
    and es: "es = unwrap_or owned (gs_barrier_pk_entries st)" and before: "update_hash_before E st n owned = (Inr h, c)"
    and keys: "put_new_keys keys es = Inr post" and hash: "compute_barrier_tree_hash E n post = Inr after"
  shows "\<exists>cache. update_hash_after E st n len (owned = None) h c keys post = Inr (after, cache)"
proof (cases "keys = []")
  case True
  then show ?thesis
    using update_hash_before_sound [OF ok base n before es] keys hash by (simp add: update_hash_after_def)
next
  case False
  let ?changed = "set (map (unat \<circ> fst) keys)" and ?base = "if owned = None then gs_barrier_hash_cache st else None"
  note post = put_new_keys_nth [OF keys]
  obtain r c' where run: "compute_barrier_tree_hash_with_changes E n post ?changed ?base c = (r, c')"
    by (rule prod.exhaust)
  have "\<And>b. ?base = Some b \<Longrightarrow> cache_ok E n es UNIV b"
    using ok n es by (auto simp: server_tree_ok_def Let_def split: if_splits)
  moreover have "\<And>i. i < length post \<Longrightarrow> i \<notin> ?changed \<Longrightarrow> post ! i = es ! i" "\<And>i. i \<in> ?changed \<Longrightarrow> i < length post"
    using post(1-3) by (auto simp: image_comp)
  ultimately have "compute_barrier_tree_hash E n post = tryE r (\<lambda>(root, _). Inr root)"
    using with_changes_hash [OF post(1) [symmetric] _ _ _ _ run] update_hash_before_sound [OF ok base n before es] by blast
  then obtain a where "r = Inr (after, a)"
    using hash by (cases r) auto
  then show ?thesis
    using run False by (simp add: update_hash_after_def Let_def)
qed

lemma built_verified:
  assumes "built_with E X ps coins c es res b"
  shows "verify_barrier_update_pairs_and_targets E es (server_update w (cover_of c res b)) (wc_n_max c) = Inr ()"
proof -
  have "compute_barrier_pkhash E (es ! unat (nc_target n)) = Inr d \<and> unat (nc_target n) < length es \<and> nc_target_pk_hash n = take 16 d"
    if "n \<in> set (bd_cts b)" "client_pkhash E (es ! unat (nc_target n)) = Inr d" for n d
    by (rule built_ct [OF assms that(1)]) (use that(2) in \<open>auto simp: client_pkhash_def compute_barrier_pkhash_def result_simps\<close>)
  moreover have "\<exists>d. client_pkhash E (es ! unat (nc_target n)) = Inr d" if "n \<in> set (bd_cts b)" for n
    by (rule built_ct [OF assms that]) blast
  ultimately have "mapE (\<lambda>n.
       tryE (ok_or update_malformed (slice_get es (unat (pn_target_node n)))) (\<lambda>target_pk.
       tryE (compute_barrier_pkhash E target_pk) (\<lambda>target_pkhash.
       ensure (pn_target_pk_hash n = take 16 target_pkhash) (freezing FREEZE_BARRIER_EXPECTEDPAIRS_FAILURE))))
       (su_node_ciphertexts (server_update w (cover_of c res b))) = Inr (map (\<lambda>_. ()) (su_node_ciphertexts (server_update w (cover_of c res b))))"
    by (intro mapE_map) (fastforce simp: server_update_def cover_of_def built_cover_def slice_get_def ok_or_def ensure_def)
  then show ?thesis
    using built_pairs [OF assms]
    by (simp add: verify_barrier_update_pairs_and_targets_def server_update_def cover_of_def built_cover_def comp_def ensure_def)
qed

lemma built_accepted:
  assumes law: "lawful E (sw_update W) X" "build_sizes c ps" and b: "built_with E X ps coins c es res b"
    and st: "server_tree_ok E st" "base_ok st owned" "gs_n_max st = wc_n_max c" "es = unwrap_or owned (gs_barrier_pk_entries st)"
    and before: "compute_barrier_tree_hash E (wc_n_max c) es = Inr (wc_kem_tree_hash_before c)"
    and h: "value_bytes h HDR_BARRIER_UPDATE = Some (br_raw_update res)"
      "\<And>label. header_bytes32 h HDR_REVOKED_SINCE_ROOT label = Inr since" "\<And>label. header_bytes32 h HDR_REVOKED_ROOT label = Inr revoked"
      "client_revocation_roots_hash E since revoked = Inr (wc_revocation_roots_hash c)"
  obtains p out where "parse_barrier_update E W h (wc_n_max c) = Inr (Some p)"
    "check_update_chain E st h p (wc_n_max c) len owned = Inr out" "vo_snapshot_post out = br_snapshot_post res"
    "su_kem_tree_hash_after p = br_kem_tree_hash_after res"
proof -
  let ?n = "wc_n_max c" and ?w = "built_wire (final_context c res) (bd_cover b)" and ?c = "cover_of c res b"
  let ?p = "server_update ?w ?c"
  have wf: "well_formed_update E (sw_update W) ?n (br_raw_update res) ?w ?c"
    by (rule built_well_formed) (use law b in \<open>auto simp: lawful_def build_sizes_def\<close>)
  then have parse: "parse_barrier_update E W h ?n = Inr (Some ?p)"
    using h(1) unfolding server_parse_iff by blast
  have b': "?n \<noteq> 0" "put_keys (map snd (bd_keys b)) es = Inr (br_snapshot_post res)"
      "compute_barrier_tree_hash E ?n (br_snapshot_post res) = Inr (br_kem_tree_hash_after res)"
    using b by (simp_all add: built_with_def)
  have n: "?n = max (gs_n_max st) 1"
    using max_one [OF b'(1)] st(3) by simp
  obtain cache where hb: "update_hash_before E st ?n owned = (Inr (wc_kem_tree_hash_before c), cache)"
    using update_hash_before_Inr [OF st(1,2) n st(4) before] by (metis prod.collapse)
  have p: "su_kem_tree_hash_before ?p = wc_kem_tree_hash_before c" "su_kem_tree_hash_after ?p = br_kem_tree_hash_after res"
      "su_revocation_roots_hash ?p = wc_revocation_roots_hash c" "su_path_nodes ?p = bd_path b"
      "su_new_public_keys ?p = map (\<lambda>k. (nk_node_index k, nk_ek k)) (map snd (bd_keys b))"
      "su_node_ciphertexts ?p = map (\<lambda>n. \<lparr>pn_source_node = nc_source n, pn_target_node = nc_target n, pn_target_pk_hash = nc_target_pk_hash n\<rparr>)
         (sort_key ct_pair (bd_cts b))"
    by (simp_all add: server_update_def built_wire_def cover_of_def built_cover_def final_context_def)
  have put: "put_new_keys (su_new_public_keys ?p) es = Inr (br_snapshot_post res)"
    unfolding p(5) by (rule put_keys_new [OF b'(2)])
  obtain cache' where ha: "update_hash_after E st ?n len (owned = None) (wc_kem_tree_hash_before c) cache (su_new_public_keys ?p) (br_snapshot_post res) =
      Inr (br_kem_tree_hash_after res, cache')"
    using update_hash_after_Inr [OF st(1,2) n st(4) hb put b'(3)] by blast
  have "verify_barrier_update_pairs_and_targets E es ?p ?n = Inr ()"
    by (rule built_verified [OF b])
  then show thesis
    using that [OF parse] hb ha put st(4) h(2,3,4) p(1-3)
    by (auto simp: check_update_chain_def Let_def result_simps server_revocation_roots_hash_def client_revocation_roots_hash_def ensure_def)
qed

section \<open>A room over joins, revocations and updates\<close>

text \<open>The public tree with its version and roots hash, the sessions of the members by slot, and the slots that have joined
  since the last update.\<close>
record Room =
  rm_tree :: "bytes list"
  rm_version :: u64
  rm_roots_hash :: hash32
  rm_members :: "u64 \<Rightarrow> AppSession option"
  rm_waiting :: "u64 set"

text \<open>A session of a member that is up to date with the room.\<close>
definition session_ok :: "Ext \<Rightarrow> KemExt \<Rightarrow> hash32 \<Rightarrow> u64 \<Rightarrow> Room \<Rightarrow> u64 \<Rightarrow> AppSession \<Rightarrow> bool" where
  "session_ok E X gid n r slot s \<longleftrightarrow> slot < n \<and> as_gid s = gid \<and> as_n_max s = n \<and> as_slot_index s = slot \<and> as_barrier_initialized s \<and>
     as_barrier_version s = rm_version r \<and> as_barrier_roots_hash s = rm_roots_hash r \<and>
     holds_path E X n (rm_tree r) slot (leaf_material s) (as_dk_nodes s)"

text \<open>An update as it goes around: what the updater builds it from, what it has built, and the header of its bundle.\<close>
record RoomUpdate =
  up_context :: WrapContext
  up_secret :: hash32
  up_coins :: "u64 \<times> u64 \<Rightarrow> bytes"
  up_result :: BarrierUpdateBuildResult
  up_since_root :: hash32
  up_revoked_root :: hash32
  up_reason :: u64
  up_k_fs :: "hash32 option"
  up_header :: header
  up_weid :: hash32
  up_fs_ec :: u64
  up_limit :: nat

text \<open>The update is built on the room's tree, for its next version, for the reason that the roots ask for, and the header
  carries it.\<close>
definition proper_update :: "Ext \<Rightarrow> KemExt \<Rightarrow> hash32 \<Rightarrow> u64 \<Rightarrow> Room \<Rightarrow> RoomUpdate \<Rightarrow> bool" where
  "proper_update E X gid n r u \<longleftrightarrow> (let c = up_context u in
     wc_gid c = gid \<and> wc_n_max c = n \<and> wc_prev_barrier_version c = rm_version r \<and> wc_barrier_version c = saturating_add (rm_version r) 1 \<and>
     compute_barrier_tree_hash E n (rm_tree r) = Inr (wc_kem_tree_hash_before c) \<and>
     client_revocation_roots_hash E (up_since_root u) (up_revoked_root u) = Inr (wc_revocation_roots_hash c) \<and>
     (if rm_roots_hash r = wc_revocation_roots_hash c then up_reason u \<in> {1, 2} else up_reason u = 0) \<and>
     length (up_secret u) = 32 \<and> build_barrier_update_bytes E X (up_secret u) (up_coins u) c (rm_tree r) = Inr (up_result u) \<and>
     bt_get (up_header u) HDR_BARRIER_UPDATE = Some (CBytes (br_raw_update (up_result u))) \<and>
     gui_header_u64 (up_header u) HDR_BARRIER_UPDATE_REASON = Some (up_reason u) \<and>
     client_header_bytes32 (up_header u) HDR_REVOKED_SINCE_ROOT = Some (up_since_root u) \<and>
     client_header_bytes32 (up_header u) HDR_REVOKED_ROOT = Some (up_revoked_root u) \<and>
     up_limit u \<noteq> 0 \<and> length (br_raw_update (up_result u)) \<le> up_limit u)"

text \<open>What a session is after the update: the updater activates it, everybody else synchronises, and a session whose
  synchronisation fails stays as it is.\<close>
definition after_update :: "Ext \<Rightarrow> WireDecoders \<Rightarrow> KemExt \<Rightarrow> RoomUpdate \<Rightarrow> u64 \<Rightarrow> AppSession \<Rightarrow> AppSession" where
  "after_update E W X u slot s =
     (if slot = wc_updater_slot_index (up_context u)
      then activate_pending s (wc_barrier_version (up_context u)) (wc_revocation_roots_hash (up_context u)) (up_k_fs u) (up_result u)
      else case sync_update E W X (up_header u) (up_since_root u) (up_revoked_root u) (up_weid u) (up_fs_ec u) (up_limit u)
             (wc_kem_tree_hash_before (up_context u)) (br_kem_tree_hash_after (up_result u)) s of
             Inl _ \<Rightarrow> s | Inr s' \<Rightarrow> s')"

inductive room_step :: "Ext \<Rightarrow> WireDecoders \<Rightarrow> KemExt \<Rightarrow> hash32 \<Rightarrow> u64 \<Rightarrow> Room \<Rightarrow> Room \<Rightarrow> bool" for E W X gid n where
  joins: "rm_members r slot = None \<Longrightarrow> r' = r\<lparr>rm_tree := put_join (unat n - 1) (ucast slot, ek) (rm_tree r), rm_members := (rm_members r)(slot \<mapsto> s),
       rm_waiting := insert slot (rm_waiting r)\<rparr> \<Longrightarrow> slot < n \<Longrightarrow> holds_key E X (leaf_material s) ek \<Longrightarrow>
     as_gid s = gid \<Longrightarrow> as_n_max s = n \<Longrightarrow> as_slot_index s = slot \<Longrightarrow> as_barrier_initialized s \<Longrightarrow>
     as_barrier_version s = rm_version r \<Longrightarrow> as_barrier_roots_hash s = rm_roots_hash r \<Longrightarrow> room_step E W X gid n r r'"
| leaves: "slot < n \<Longrightarrow> r' = r\<lparr>rm_tree := put_revoked (unat n - 1) (unat slot) (rm_tree r), rm_members := (rm_members r)(slot := None)\<rparr> \<Longrightarrow>
     room_step E W X gid n r r'"
| updates: "rm_members r (wc_updater_slot_index (up_context u)) = Some s \<Longrightarrow> proper_update E X gid n r u \<Longrightarrow>
     r' = r\<lparr>rm_tree := br_snapshot_post (up_result u), rm_version := wc_barrier_version (up_context u),
       rm_roots_hash := wc_revocation_roots_hash (up_context u), rm_waiting := {},
       rm_members := (\<lambda>slot. map_option (after_update E W X u slot) (rm_members r slot))\<rparr> \<Longrightarrow> room_step E W X gid n r r'"

inductive room_run :: "Ext \<Rightarrow> WireDecoders \<Rightarrow> KemExt \<Rightarrow> hash32 \<Rightarrow> u64 \<Rightarrow> Room \<Rightarrow> bool" for E W X gid n where
  empty_room: "rm_tree r = replicate (2 * unat n - 1) [] \<Longrightarrow> rm_members r = (\<lambda>_. None) \<Longrightarrow> room_run E W X gid n r"
| room_steps: "room_run E W X gid n r \<Longrightarrow> room_step E W X gid n r r' \<Longrightarrow> room_run E W X gid n r'"

text \<open>The tree has its size and good keys, every member is up to date with it, and those that do not wait share a key.\<close>
definition room_ok :: "Ext \<Rightarrow> KemExt \<Rightarrow> hash32 \<Rightarrow> u64 \<Rightarrow> Room \<Rightarrow> bool" where
  "room_ok E X gid n r \<longleftrightarrow> length (rm_tree r) = 2 * unat n - 1 \<and> tree_keys_ok X (rm_tree r) \<and>
     (\<forall>slot s. rm_members r slot = Some s \<longrightarrow> session_ok E X gid n r slot s) \<and>
     (\<exists>k. \<forall>slot s. rm_members r slot = Some s \<longrightarrow> slot \<notin> rm_waiting r \<longrightarrow> as_k_barrier s = k)"

lemma below_leaf:
  assumes "below i j" "i \<noteq> j" "j < 2 * m - 1"
  shows "i < m - 1"
proof -
  have "below i ((j - 1) div 2)" "0 < j"
    using assms(1,2) by (auto simp: below_step [of i j])
  then have "i \<le> (j - 1) div 2"
    by (meson below_le)
  then show ?thesis
    using assms(3) \<open>0 < j\<close> by linarith
qed

lemma leaves_apart:
  fixes slot :: u64
  assumes "slot' \<noteq> slot" "slot < n"
  shows "unat n - 1 + unat slot' \<noteq> unat n - 1 + unat slot" "\<not> below (unat n - 1 + unat slot') (unat n - 1 + unat slot)"
proof -
  show ne: "unat n - 1 + unat slot' \<noteq> unat n - 1 + unat slot"
    using assms(1) by (simp add: word_unat_eq_iff)
  have "unat n - 1 + unat slot < 2 * unat n - 1"
    using assms(2) by (simp add: word_less_nat_alt)
  with ne show "\<not> below (unat n - 1 + unat slot') (unat n - 1 + unat slot)"
    using below_leaf by (meson not_add_less1)
qed

lemma holds_path_blanked:
  assumes "holds_path E X n es slot leaf mats" "es' ! (unat n - 1 + unat slot) = es ! (unat n - 1 + unat slot)"
    and "\<And>node :: u64. unat node < unat n - 1 \<Longrightarrow> below (unat node) (unat n - 1 + unat slot) \<Longrightarrow> es' ! unat node = [] \<or> es' ! unat node = es ! unat node"
  shows "holds_path E X n es' slot leaf mats"
  using assms unfolding holds_path_def by metis

lemma slot_u32:
  assumes "n \<le> MAX_BARRIER_N_MAX" "slot < n"
  shows "unat (ucast slot :: u32) = unat slot"
  using n_max_small [OF assms(1)] assms(2) by (simp add: unsigned_ucast_eq take_bit_nat_eq_self word_less_nat_alt)

lemma put_join_nth:
  assumes "n \<le> MAX_BARRIER_N_MAX" "slot < n" "length es = 2 * unat n - 1"
  shows "length (put_join (unat n - 1) (ucast slot, ek) es) = length es"
    "i < length es \<Longrightarrow> put_join (unat n - 1) (ucast slot, ek) es ! i =
       (if i = unat n - 1 + unat slot then ek else if below i (unat n - 1 + unat slot) then [] else es ! i)"
  using slot_u32 [OF assms(1,2)] by (auto simp: put_join_def clear_barrier_path_nth)

lemma put_revoked_nth:
  "length (put_revoked lb slot es) = length es"
  "i < length es \<Longrightarrow> put_revoked lb slot es ! i = (if below i (lb + slot) then [] else es ! i)"
  by (simp_all add: put_revoked_def clear_barrier_path_nth)

lemma tree_keys_ok_nth: "tree_keys_ok X es \<longleftrightarrow> (\<forall>i<length es. es ! i = [] \<or> length (es ! i) = 1184 \<and> kx_ek_ok X (es ! i))"
  by (simp add: tree_keys_ok_def all_set_conv_all_nth)

lemma tree_keys_ok_step:
  assumes "tree_keys_ok X es" "length es' = length es"
    and "\<And>i. i < length es \<Longrightarrow> es' ! i = [] \<or> es' ! i = es ! i \<or> length (es' ! i) = 1184 \<and> kx_ek_ok X (es' ! i)"
  shows "tree_keys_ok X es'"
  using assms unfolding tree_keys_ok_nth by metis

lemma room_ok_joins:
  assumes n: "n \<le> MAX_BARRIER_N_MAX" "slot < n" and ok: "room_ok E X gid n r" and new: "rm_members r slot = None"
    and r': "r' = r\<lparr>rm_tree := put_join (unat n - 1) (ucast slot, ek) (rm_tree r), rm_members := (rm_members r)(slot \<mapsto> s),
       rm_waiting := insert slot (rm_waiting r)\<rparr>"
    and s: "holds_key E X (leaf_material s) ek" "as_gid s = gid" "as_n_max s = n" "as_slot_index s = slot" "as_barrier_initialized s"
      "as_barrier_version s = rm_version r" "as_barrier_roots_hash s = rm_roots_hash r"
  shows "room_ok E X gid n r'"
proof -
  let ?es = "rm_tree r" and ?es' = "put_join (unat n - 1) (ucast slot, ek) (rm_tree r)" and ?leaf = "\<lambda>slot. unat n - 1 + unat slot"
  have len: "length ?es = 2 * unat n - 1" and keys: "tree_keys_ok X ?es"
    using ok by (simp_all add: room_ok_def)
  note nth = put_join_nth [OF n len]
  have leaf: "?leaf slot' < length ?es" if "slot' < n" for slot'
    using that len by (simp add: word_less_nat_alt)
  have "holds_path E X n ?es' slot' (leaf_material s') (as_dk_nodes s')" if "rm_members r slot' = Some s'" for slot' s'
  proof (rule holds_path_blanked)
    have s': "session_ok E X gid n r slot' s'" "slot' \<noteq> slot"
      using ok that new by (auto simp: room_ok_def)
    then show "holds_path E X n ?es slot' (leaf_material s') (as_dk_nodes s')"
      by (simp add: session_ok_def)
    have "slot' < n"
      using s'(1) by (simp add: session_ok_def)
    then show "?es' ! ?leaf slot' = ?es ! ?leaf slot'"
      using nth(2) [OF leaf] leaves_apart [OF s'(2) n(2)] by simp
    show "?es' ! unat node = [] \<or> ?es' ! unat node = ?es ! unat node" if "unat node < unat n - 1" for node :: u64
      using nth(2) [of "unat node" ek] that len by auto
  qed
  moreover have "holds_path E X n ?es' slot (leaf_material s) (as_dk_nodes s)"
    using s(1) nth(2) leaf [OF n(2)] len by (auto simp: holds_path_def)
  moreover have "tree_keys_ok X ?es'"
  proof (rule tree_keys_ok_step [OF keys nth(1)])
    fix i
    assume i: "i < length ?es"
    show "?es' ! i = [] \<or> ?es' ! i = ?es ! i \<or> length (?es' ! i) = 1184 \<and> kx_ek_ok X (?es' ! i)"
      unfolding nth(2) [OF i] using s(1) by (simp add: holds_key_def key_pair_def)
  qed
  ultimately show ?thesis
    using ok s n(2) nth(1) unfolding r' room_ok_def session_ok_def by (auto split: if_splits)
qed

lemma room_ok_leaves:
  assumes n: "slot < n" and ok: "room_ok E X gid n r"
    and r': "r' = r\<lparr>rm_tree := put_revoked (unat n - 1) (unat slot) (rm_tree r), rm_members := (rm_members r)(slot := None)\<rparr>"
  shows "room_ok E X gid n r'"
proof -
  let ?es = "rm_tree r" and ?es' = "put_revoked (unat n - 1) (unat slot) (rm_tree r)" and ?leaf = "\<lambda>slot. unat n - 1 + unat slot"
  have len: "length ?es = 2 * unat n - 1" and keys: "tree_keys_ok X ?es"
    using ok by (simp_all add: room_ok_def)
  have leaf: "?leaf slot' < length ?es" if "slot' < n" for slot'
    using that len by (simp add: word_less_nat_alt)
  have "holds_path E X n ?es' slot' (leaf_material s') (as_dk_nodes s')" if "rm_members r slot' = Some s'" "slot' \<noteq> slot" for slot' s'
  proof (rule holds_path_blanked)
    have s': "session_ok E X gid n r slot' s'"
      using ok that by (auto simp: room_ok_def)
    then show "holds_path E X n ?es slot' (leaf_material s') (as_dk_nodes s')"
      by (simp add: session_ok_def)
    have "slot' < n"
      using s' by (simp add: session_ok_def)
    then show "?es' ! ?leaf slot' = ?es ! ?leaf slot'"
      using put_revoked_nth(2) [OF leaf] leaves_apart(2) [OF that(2) n] by simp
    show "?es' ! unat node = [] \<or> ?es' ! unat node = ?es ! unat node" if "unat node < unat n - 1" for node :: u64
      using put_revoked_nth(2) that len by auto
  qed
  moreover have "tree_keys_ok X ?es'"
    by (rule tree_keys_ok_step [OF keys put_revoked_nth(1)]) (auto simp: put_revoked_nth)
  ultimately show ?thesis
    using ok put_revoked_nth(1) unfolding r' room_ok_def session_ok_def by (auto split: if_splits)
qed

lemma proper_sizes:
  assumes "lawful E W X" "proper_update E X gid n r u"
  shows "build_sizes (up_context u) (up_secret u)"
  using assms tree_hash_length [of E n "rm_tree r"] h_l_length [of E]
  by (auto simp: build_sizes_def proper_update_def lawful_def Let_def client_revocation_roots_hash_def map_err_eq_Inr)

lemma other_syncs:
  assumes law: "lawful E W X" and up: "proper_update E X gid n r u" and s: "session_ok E X gid n r slot s"
    and other: "slot \<noteq> wc_updater_slot_index (up_context u)"
  obtains s' where "after_update E W X u slot s = s'" "as_k_barrier s' = br_k_barrier_new (up_result u)"
    "session_ok E X gid n (r\<lparr>rm_tree := br_snapshot_post (up_result u), rm_version := wc_barrier_version (up_context u),
       rm_roots_hash := wc_revocation_roots_hash (up_context u)\<rparr>) slot s'"
proof -
  let ?c = "up_context u" and ?res = "up_result u"
  let ?s = "s\<lparr>as_revoked_since_root := up_since_root u, as_revoked_root := up_revoked_root u\<rparr>"
  let ?inp = "recovery_input ?s (up_header u) (br_raw_update ?res) (up_reason u) (up_since_root u) (up_revoked_root u) (up_weid u)
    (up_fs_ec u) (up_limit u) (Some (wc_kem_tree_hash_before ?c)) False"
  have n: "wc_n_max ?c = n" and roots: "client_revocation_roots_hash E (up_since_root u) (up_revoked_root u) = Inr (wc_revocation_roots_hash ?c)"
    using up by (simp_all add: proper_update_def Let_def)
  obtain b where b: "built_with E X (up_secret u) (up_coins u) ?c (rm_tree r) ?res b"
    using build_Inr up by (metis proper_update_def)
  have step: "in_step E ?c (br_raw_update ?res) ?inp"
    using up s by (auto simp: in_step_def recovery_input_def proper_update_def session_ok_def Let_def)
  have "ri_slot_index ?inp \<noteq> wc_updater_slot_index ?c"
      "holds_path E X (wc_n_max ?c) (rm_tree r) (ri_slot_index ?inp) (ri_leaf_material ?inp) (ri_node_materials ?inp)"
    using s other n by (simp_all add: recovery_input_def session_ok_def leaf_material_def)
  then obtain rr where rr: "recover_barrier_update E W X ?inp = Inr (Some rr)" "rr_k_barrier_new rr = br_k_barrier_new ?res"
      "rr_barrier_version rr = wc_barrier_version ?c" "rr_kem_tree_hash_after rr = br_kem_tree_hash_after ?res"
      "holds_path E X (wc_n_max ?c) (br_snapshot_post ?res) (ri_slot_index ?inp) (ri_leaf_material ?inp)
         (insert_materials (rr_derived_node_key_material rr) (ri_node_materials ?inp))"
    using member_recovers [OF law proper_sizes [OF law up] b step] by metis
  have "try_recover_barrier_inner E W X ?s (up_header u) (up_weid u) (up_fs_ec u) (up_limit u) (Some (wc_kem_tree_hash_before ?c)) False = Inr (Some rr)"
    using up rr(1) by (simp add: try_recover_barrier_inner_def proper_update_def Let_def ok_or_def)
  then have sync: "sync_update E W X (up_header u) (up_since_root u) (up_revoked_root u) (up_weid u) (up_fs_ec u) (up_limit u)
      (wc_kem_tree_hash_before ?c) (br_kem_tree_hash_after ?res) s = apply_recovered_barrier_state E ?s rr True"
    using rr(4) by (simp add: sync_update_def Let_def ensure_def)
  show thesis
    by (rule that [OF refl]) (use other s n roots rr(2-5) in
      \<open>simp_all add: after_update_def sync apply_recovered_barrier_state_def session_ok_def recovery_input_def leaf_material_def\<close>)
qed

lemma updater_activates:
  assumes law: "lawful E W X" and up: "proper_update E X gid n r u" and s: "session_ok E X gid n r (wc_updater_slot_index (up_context u)) s"
  shows "as_k_barrier (after_update E W X u (wc_updater_slot_index (up_context u)) s) = br_k_barrier_new (up_result u) \<and>
    session_ok E X gid n (r\<lparr>rm_tree := br_snapshot_post (up_result u), rm_version := wc_barrier_version (up_context u),
       rm_roots_hash := wc_revocation_roots_hash (up_context u)\<rparr>) (wc_updater_slot_index (up_context u))
      (after_update E W X u (wc_updater_slot_index (up_context u)) s)"
proof -
  have n: "wc_n_max (up_context u) = n" and sound: "kem_sound X"
    using up law by (simp_all add: proper_update_def lawful_def Let_def)
  obtain b where b: "built_with E X (up_secret u) (up_coins u) (up_context u) (rm_tree r) (up_result u) b"
    using build_Inr up by (metis proper_update_def)
  show ?thesis
    using updater_holds [OF sound b] s n by (simp add: after_update_def activate_pending_def session_ok_def leaf_material_def)
qed

lemma tree_keys_ok_post:
  assumes sound: "kem_sound X" and keys: "tree_keys_ok X es" and b: "built_with E X ps coins c es res b"
  shows "tree_keys_ok X (br_snapshot_post res)"
proof (rule tree_keys_ok_step [OF keys built_post(1) [OF b]])
  fix i
  assume i: "i < length es"
  have "length es < 2 ^ 64"
    using b n_max_small [of "wc_n_max c"] by (auto simp: built_with_def tree_len_Some)
  then have i: "unat (of_nat i :: u64) = i"
    using i by (simp add: unat_of_nat)
  show "br_snapshot_post res ! i = [] \<or> br_snapshot_post res ! i = es ! i \<or> length (br_snapshot_post res ! i) = 1184 \<and> kx_ek_ok X (br_snapshot_post res ! i)"
  proof (cases "of_nat i \<in> set (tl (bd_path b))")
    case True
    from key_of_holds [OF sound b this] show ?thesis
      unfolding i by (simp add: holds_key_def key_pair_def)
  next
    case False
    from built_post(2) [OF b this] show ?thesis
      unfolding i by simp
  qed
qed

lemma room_ok_updates:
  assumes law: "lawful E W X" and ok: "room_ok E X gid n r" and up: "proper_update E X gid n r u"
    and r': "r' = r\<lparr>rm_tree := br_snapshot_post (up_result u), rm_version := wc_barrier_version (up_context u),
       rm_roots_hash := wc_revocation_roots_hash (up_context u), rm_waiting := {},
       rm_members := (\<lambda>slot. map_option (after_update E W X u slot) (rm_members r slot))\<rparr>"
  shows "room_ok E X gid n r'" "rm_members r' slot = Some s \<Longrightarrow> as_k_barrier s = br_k_barrier_new (up_result u)"
proof -
  obtain b where b: "built_with E X (up_secret u) (up_coins u) (up_context u) (rm_tree r) (up_result u) b"
    using build_Inr up by (metis proper_update_def)
  have member: "session_ok E X gid n r' slot s \<and> as_k_barrier s = br_k_barrier_new (up_result u)" if mem: "rm_members r' slot = Some s" for slot s
  proof -
    obtain s0 where s0: "rm_members r slot = Some s0" "s = after_update E W X u slot s0"
      using mem r' by auto
    have "session_ok E X gid n r slot s0"
      using ok s0(1) by (simp add: room_ok_def)
    then show ?thesis
      using other_syncs [OF law up, of slot s0] updater_activates [OF law up, of s0] s0(2)
      by (cases "slot = wc_updater_slot_index (up_context u)") (auto simp: r' session_ok_def)
  qed
  then show "rm_members r' slot = Some s \<Longrightarrow> as_k_barrier s = br_k_barrier_new (up_result u)"
    by blast
  have "tree_keys_ok X (rm_tree r')" "length (rm_tree r') = 2 * unat n - 1"
    using tree_keys_ok_post [OF _ _ b] built_post(1) [OF b] ok law by (simp_all add: r' room_ok_def lawful_def)
  then show "room_ok E X gid n r'"
    using member by (auto simp: room_ok_def)
qed

lemma room_run_ok:
  assumes "room_run E W X gid n r" "lawful E W X" "n \<le> MAX_BARRIER_N_MAX"
  shows "room_ok E X gid n r"
  using assms(1)
proof induction
  case (empty_room r)
  then show ?case
    by (simp add: room_ok_def tree_keys_ok_def)
next
  case (room_steps r r')
  from room_steps(2) show ?case
    by cases (use room_ok_joins [OF assms(3)] room_ok_leaves room_ok_updates(1) [OF assms(2)] room_steps(3) in blast)+
qed

section \<open>Properties\<close>

text \<open>C2: the members of a room agree on the barrier key.  Over any run of joins, revocations and updates, each update built and
  activated by one member and recovered by the others, all the members that were there at the last update have the same key.
  Every session is at the version and the roots of the room and holds the keys of its path, so that whichever member updates
  next, for whatever reason the roots ask for, every member of the room, the new ones included, has that update's key after it.\<close>
theorem members_agree:
  assumes "room_run E W X gid n r" "lawful E W X" "n \<le> MAX_BARRIER_N_MAX"
  shows "(\<exists>k. \<forall>slot s. rm_members r slot = Some s \<and> slot \<notin> rm_waiting r \<longrightarrow> as_k_barrier s = k) \<and>
    (\<forall>slot s. rm_members r slot = Some s \<longrightarrow> session_ok E X gid n r slot s) \<and>
    (\<forall>u slot s. proper_update E X gid n r u \<and> rm_members r slot = Some s \<longrightarrow>
       as_k_barrier (after_update E W X u slot s) = br_k_barrier_new (up_result u))"
proof -
  have ok: "room_ok E X gid n r"
    by (rule room_run_ok [OF assms])
  have "as_k_barrier (after_update E W X u slot s) = br_k_barrier_new (up_result u)"
    if "proper_update E X gid n r u" "rm_members r slot = Some s" for u slot s
    by (rule room_ok_updates(2) [OF assms(2) ok that(1) refl, where slot = slot]) (simp add: that(2))
  then show ?thesis
    using ok by (auto simp: room_ok_def)
qed

text \<open>C3: a client can always update, and the server accepts what it builds.  On a tree of good keys the build succeeds for
  every slot, whatever the fresh secret and coins, and the server reads the update from the header that carries it, finds the
  hash before it, the roots, the ciphertexts and the hash after it right for that tree, and puts the same tree as the client.\<close>
theorem built_update_accepted:
  assumes "lawful E (sw_update W) X" "build_sizes c ps" "tree_keys_ok X es"
    and "is_power_of_two (wc_n_max c)" "wc_n_max c \<noteq> 0" "wc_n_max c \<le> MAX_BARRIER_N_MAX" "wc_updater_slot_index c < wc_n_max c"
    and "server_tree_ok E st" "base_ok st owned" "gs_n_max st = wc_n_max c" "es = unwrap_or owned (gs_barrier_pk_entries st)"
    and "compute_barrier_tree_hash E (wc_n_max c) es = Inr (wc_kem_tree_hash_before c)"
    and "client_revocation_roots_hash E since revoked = Inr (wc_revocation_roots_hash c)"
  shows "\<exists>res. build_barrier_update_bytes E X ps coins c es = Inr res \<and>
    (\<forall>h. value_bytes h HDR_BARRIER_UPDATE = Some (br_raw_update res) \<and>
       (\<forall>label. header_bytes32 h HDR_REVOKED_SINCE_ROOT label = Inr since \<and> header_bytes32 h HDR_REVOKED_ROOT label = Inr revoked) \<longrightarrow>
       (\<exists>p out. parse_barrier_update E W h (wc_n_max c) = Inr (Some p) \<and> check_update_chain E st h p (wc_n_max c) len owned = Inr out \<and>
          vo_snapshot_post out = br_snapshot_post res \<and> su_kem_tree_hash_after p = br_kem_tree_hash_after res))"
proof -
  have len: "tree_len (wc_n_max c) = Some (length es)"
    using assms(9-11) max_one [OF assms(5)] by (simp add: base_ok_def)
  have "kem_sound X" "cbor_total E" "length ps = 32"
    using assms(1,2) by (simp_all add: lawful_def build_sizes_def)
  from build_total [OF this assms(3) len assms(5,4,6,7)] obtain res where res: "build_barrier_update_bytes E X ps coins c es = Inr res"
    by blast
  obtain b where b: "built_with E X ps coins c es res b"
    by (rule build_Inr [OF res])
  show ?thesis
    using res built_accepted [OF assms(1,2) b assms(8-12) _ _ _ assms(13), where len = len] by metis
qed

text \<open>C8: a revoked member is locked out of the update that follows.  An update built on the tree with the member's path blanked
  has no ciphertext for it: recovery gives nothing, whatever keys the member still holds.\<close>
theorem revoked_member_locked_out:
  assumes "lawful E W X" "build_sizes c ps"
    and "build_barrier_update_bytes E X ps coins c (put_revoked (unat (wc_n_max c) - 1) (unat (ri_slot_index inp)) es) = Inr res"
    and "in_step E c (br_raw_update res) inp" "ri_slot_index inp \<noteq> wc_updater_slot_index c"
  shows "recover_barrier_update E W X inp = Inr None"
proof -
  obtain b where b: "built_with E X ps coins c (put_revoked (unat (wc_n_max c) - 1) (unat (ri_slot_index inp)) es) res b"
    by (rule build_Inr [OF assms(3)])
  show ?thesis
    by (rule blank_path_recovers_nothing [OF assms(1,2) b assms(4,5)]) (simp add: put_revoked_nth)
qed

section \<open>A room of two\<close>

definition fixed_kem :: KemExt where
  "fixed_kem = \<lparr>kx_blake3 = (\<lambda>_ _. replicate 32 0), kx_from_seed = (\<lambda>_. (replicate 2400 0, replicate 1184 0)), kx_ek_ok = (\<lambda>_. True),
     kx_dk_ok = (\<lambda>_. True), kx_encaps = (\<lambda>_ _. (replicate 32 0, replicate 1088 0)), kx_decaps = (\<lambda>_ _. replicate 32 0),
     kx_seal = (\<lambda>_ _ _ m. Some (m @ replicate 16 0)), kx_open = (\<lambda>_ _ _ c. Some (take (length c - 16) c))\<rparr>"

definition sample_wire :: WireDecoders where
  "sample_wire = \<lparr>de_update = (\<lambda>raw. Some (inv cbarrier_update (from_nat (length raw)))),
     de_cover = (\<lambda>raw. Some (inv ccover_payload (from_nat (length raw))))\<rparr>"

lemma fixed_kem_sound: "kem_sound fixed_kem"
  by (simp add: kem_sound_def key_pair_def fixed_kem_def)

lemma cu64_inj: "cu64 a = cu64 b \<longleftrightarrow> a = b"
  by (simp add: cu64_def word_uint_eq_iff)

lemma inj_cbarrier_update: "inj cbarrier_update"
  by (rule injI, rule BarrierUpdateWire.equality) (simp_all add: cbarrier_update_def cu64_inj)

lemma inj_ccover_payload: "inj ccover_payload"
proof (rule injI)
  fix v w
  assume eq: "ccover_payload v = ccover_payload w"
  have "inj cu64"
    by (simp add: inj_def cu64_inj)
  moreover have "inj (\<lambda>c :: NodeCiphertextWire. CArray [cu64 (nc_source c), cu64 (nc_target c), CBytes (nc_target_pk_hash c), CBytes (nc_kem_ct c), CBytes (nc_wrapped_ps c)])"
    by (rule injI, rule NodeCiphertextWire.equality) (simp_all add: cu64_inj)
  moreover have "inj (\<lambda>k :: NewPublicKeyWire. CArray [cu64 (nk_node_index k), CBytes (nk_ek k)])"
    by (rule injI, rule NewPublicKeyWire.equality) (simp_all add: cu64_inj)
  ultimately show "v = w"
    using eq by (intro KemTreeCoverPayloadWire.equality) (auto simp: ccover_payload_def cu64_inj inj_map_eq_map split: option.splits)
qed

lemma sample_lawful: "lawful sample_ext sample_wire fixed_kem"
proof -
  have "wire_law sample_ext sample_wire"
    by (auto simp: wire_law_def sample_wire_def sample_ext_def to_cbor_vec_def inj_cbarrier_update inj_ccover_payload)
  moreover have "digest32 sample_ext"
    by (simp add: digest32_def sample_ext_def min_def)
  ultimately show ?thesis
    by (simp add: lawful_def fixed_kem_sound) (simp add: cbor_total_def sample_ext_def)
qed

text \<open>Every key is the same one in this instance of ML-KEM.\<close>
definition plain_ek :: bytes where
  "plain_ek = replicate 1184 0"

definition right_or_empty :: "'e + 'a list \<Rightarrow> 'a list" where
  "right_or_empty m = (case m of Inl _ \<Rightarrow> [] | Inr x \<Rightarrow> x)"

definition sample_roots_hash :: hash32 where
  "sample_roots_hash = right_or_empty (client_revocation_roots_hash sample_ext zero_hash zero_hash)"

definition sample_session :: "u64 \<Rightarrow> AppSession" where
  "sample_session slot = \<lparr>as_gid = [1], as_pop_public_key = [5], as_revoked_since_root = zero_hash, as_revoked_root = zero_hash, as_k_fs = zero_hash,
     as_barrier_initialized = True, as_barrier_version = 0, as_barrier_roots_hash = sample_roots_hash, as_k_barrier = [7],
     as_kem_tree_hash_after = zero_hash, as_n_max = 2, as_slot_index = slot, as_slot_generation = 0, as_dk_leaf = replicate 2400 0,
     as_pkhash_leaf = right_or_empty (client_pkhash sample_ext plain_ek), as_dk_nodes = [], as_barrier_recovery_pending = False,
     as_current_barrier_full_verified = False\<rparr>"

definition two_tree :: "bytes list" where
  "two_tree = [[], plain_ek, plain_ek]"

definition two_room :: Room where
  "two_room = \<lparr>rm_tree = two_tree, rm_version = 0, rm_roots_hash = sample_roots_hash,
     rm_members = [0 \<mapsto> sample_session 0, 1 \<mapsto> sample_session 1], rm_waiting = {0, 1}\<rparr>"

definition sample_context :: "bytes list \<Rightarrow> WrapContext" where
  "sample_context es = \<lparr>wc_gid = [1], wc_barrier_version = 1, wc_prev_barrier_version = 0, wc_n_max = 2, wc_revocation_roots_hash = sample_roots_hash,
     wc_kem_tree_hash_before = right_or_empty (compute_barrier_tree_hash sample_ext 2 es), wc_kem_tree_hash_after = [],
     wc_updater_slot_index = 0, wc_updater_slot_generation = 0\<rparr>"

definition update_header :: "bytes \<Rightarrow> header" where
  "update_header raw = [(HDR_BARRIER_UPDATE, CBytes raw), (HDR_BARRIER_UPDATE_REASON, CInt 1), (HDR_REVOKED_SINCE_ROOT, CBytes zero_hash),
     (HDR_REVOKED_ROOT, CBytes zero_hash), (HDR_POP_PK, CBytes [9])]"

definition sample_update :: "BarrierUpdateBuildResult \<Rightarrow> RoomUpdate" where
  "sample_update res = \<lparr>up_context = sample_context two_tree, up_secret = zero_hash, up_coins = (\<lambda>_. []), up_result = res, up_since_root = zero_hash,
     up_revoked_root = zero_hash, up_reason = 1, up_k_fs = None, up_header = update_header (br_raw_update res), up_weid = zero_hash,
     up_fs_ec = 0, up_limit = Suc (length (br_raw_update res))\<rparr>"

lemma sample_cbor_total: "cbor_total sample_ext" "digest32 sample_ext"
  using sample_lawful by (simp_all add: lawful_def)

lemma sample_roots: "client_revocation_roots_hash sample_ext zero_hash zero_hash = Inr sample_roots_hash"
proof -
  obtain d where "client_revocation_roots_hash sample_ext zero_hash zero_hash = Inr d"
    using h_l_total [OF sample_cbor_total(1) client_labels(9)] unfolding client_revocation_roots_hash_def map_err_eq_Inr by blast
  then show ?thesis
    by (simp add: sample_roots_hash_def right_or_empty_def)
qed

lemma sample_tree_hash:
  assumes "length es = 3"
  shows "compute_barrier_tree_hash sample_ext 2 es = Inr (wc_kem_tree_hash_before (sample_context es))"
proof -
  have "tree_len 2 = Some (length es)"
    by (simp add: tree_len_Some assms)
  moreover obtain h where "tree_hash sample_ext 2 es 0 = Inr h"
    using tree_hash_total [OF sample_cbor_total(1), of es 2 0] assms by auto
  ultimately show ?thesis
    by (simp add: sample_context_def whole_tree right_or_empty_def)
qed

lemma sample_sizes: "length es = 3 \<Longrightarrow> build_sizes (sample_context es) zero_hash"
  using tree_hash_length [OF sample_cbor_total(2) sample_tree_hash] h_l_length [OF sample_cbor_total(2)] sample_roots
  by (simp add: build_sizes_def sample_context_def client_revocation_roots_hash_def map_err_eq_Inr zero_hash_def)

lemma sample_context_simps [simp]:
  "wc_n_max (sample_context es) = 2" "wc_updater_slot_index (sample_context es) = 0" "wc_gid (sample_context es) = [1]"
  "wc_barrier_version (sample_context es) = 1" "wc_prev_barrier_version (sample_context es) = 0"
  "wc_revocation_roots_hash (sample_context es) = sample_roots_hash"
  by (simp_all add: sample_context_def)

lemma sample_builds:
  assumes "length es = 3" "tree_keys_ok fixed_kem es"
  shows "\<exists>res. build_barrier_update_bytes sample_ext fixed_kem zero_hash coins (sample_context es) es = Inr res"
  by (rule build_total [OF fixed_kem_sound sample_cbor_total(1) _ assms(2)])
    (simp_all add: zero_hash_def tree_len_Some assms(1) two_power MAX_BARRIER_N_MAX_def)

lemma sample_leaf_holds: "holds_key sample_ext fixed_kem (leaf_material (sample_session slot)) plain_ek"
proof -
  obtain d where "client_pkhash sample_ext plain_ek = Inr d"
    using h_l_total [OF sample_cbor_total(1) client_labels(6)] unfolding client_pkhash_def map_err_eq_Inr by blast
  then show ?thesis
    by (simp add: holds_key_def leaf_material_def sample_session_def right_or_empty_def key_pair_def fixed_kem_def plain_ek_def)
qed

lemma two_paths: "tree_path (Suc 0) = [Suc 0, 0]" "tree_path (Suc (Suc 0)) = [2, 0]"
  by (simp_all add: tree_path.simps)

lemma two_room_run: "room_run sample_ext sample_wire fixed_kem [1] 2 two_room"
proof -
  let ?empty = "\<lparr>rm_tree = [[], [], []], rm_version = 0, rm_roots_hash = sample_roots_hash, rm_members = (\<lambda>_. None), rm_waiting = {}\<rparr>"
  let ?one = "\<lparr>rm_tree = [[], plain_ek, []], rm_version = 0, rm_roots_hash = sample_roots_hash,
    rm_members = [0 \<mapsto> sample_session 0], rm_waiting = {0}\<rparr>"
  have s: "as_gid (sample_session slot) = [1]" "as_n_max (sample_session slot) = 2" "as_slot_index (sample_session slot) = slot"
      "as_barrier_initialized (sample_session slot)" "as_barrier_version (sample_session slot) = 0"
      "as_barrier_roots_hash (sample_session slot) = sample_roots_hash" for slot
    by (simp_all add: sample_session_def)
  have put: "put_join (unat (2 :: u64) - 1) (ucast (0 :: u64), plain_ek) [[], [], []] = [[], plain_ek, []]"
      "put_join (unat (2 :: u64) - 1) (ucast (1 :: u64), plain_ek) [[], plain_ek, []] = two_tree"
    by (simp_all add: put_join_def clear_barrier_path_def two_paths two_tree_def)
  have "room_run sample_ext sample_wire fixed_kem [1] 2 ?empty"
    by (rule empty_room) (simp_all add: numeral_3_eq_3)
  moreover have "room_step sample_ext sample_wire fixed_kem [1] 2 ?empty ?one"
    by (rule room_step.joins [where slot = 0, OF _ _ _ sample_leaf_holds [of 0]]) (simp_all add: s put [simplified])
  moreover have "room_step sample_ext sample_wire fixed_kem [1] 2 ?one two_room"
    by (rule room_step.joins [where slot = 1, OF _ _ _ sample_leaf_holds [of 1]]) (auto simp: s put [simplified] two_room_def)
  ultimately show ?thesis
    by (meson room_steps)
qed

lemma update_header_fields:
  "bt_get (update_header raw) HDR_BARRIER_UPDATE = Some (CBytes raw)" "gui_header_u64 (update_header raw) HDR_BARRIER_UPDATE_REASON = Some 1"
  "client_header_bytes32 (update_header raw) HDR_REVOKED_SINCE_ROOT = Some zero_hash"
  "client_header_bytes32 (update_header raw) HDR_REVOKED_ROOT = Some zero_hash"
  "value_bytes (update_header raw) HDR_BARRIER_UPDATE = Some raw"
  "header_bytes32 (update_header raw) HDR_REVOKED_SINCE_ROOT label = Inr zero_hash" "header_bytes32 (update_header raw) HDR_REVOKED_ROOT label = Inr zero_hash"
  by (simp_all add: update_header_def hdr_keys gui_header_u64_def client_header_bytes32_def u64_try_from_def zero_hash_def value_bytes_def header_bytes32_def
    header_required_bytes_def header_bytes32_from_slice_def)

lemma two_tree_ok: "tree_keys_ok fixed_kem two_tree" "length two_tree = 3"
  by (simp_all add: tree_keys_ok_def two_tree_def plain_ek_def fixed_kem_def)

theorem members_agree_witness:
  "\<exists>r s0 s1. room_run sample_ext sample_wire fixed_kem [1] 2 r \<and> rm_waiting r = {} \<and> rm_members r 0 = Some s0 \<and> rm_members r 1 = Some s1 \<and>
     as_k_barrier s0 = as_k_barrier s1"
proof -
  obtain res where "build_barrier_update_bytes sample_ext fixed_kem zero_hash (\<lambda>_. []) (sample_context two_tree) two_tree = Inr res"
    using sample_builds [OF two_tree_ok(2,1)] by blast
  then have up: "proper_update sample_ext fixed_kem [1] 2 two_room (sample_update res)"
    using sample_tree_hash [OF two_tree_ok(2)] sample_roots
    by (simp add: proper_update_def sample_update_def two_room_def update_header_fields saturating_add_def zero_hash_def)
  let ?r = "two_room\<lparr>rm_tree := br_snapshot_post res, rm_version := 1, rm_roots_hash := sample_roots_hash, rm_waiting := {},
    rm_members := (\<lambda>slot. map_option (after_update sample_ext sample_wire fixed_kem (sample_update res) slot) (rm_members two_room slot))\<rparr>"
  have "room_step sample_ext sample_wire fixed_kem [1] 2 two_room ?r"
    by (rule room_step.updates [OF _ up]) (simp_all add: sample_update_def two_room_def)
  then have run: "room_run sample_ext sample_wire fixed_kem [1] 2 ?r"
    by (rule room_steps [OF two_room_run])
  have "\<exists>k. \<forall>slot s. rm_members ?r slot = Some s \<and> slot \<notin> rm_waiting ?r \<longrightarrow> as_k_barrier s = k"
    using members_agree [OF run sample_lawful] by (simp add: MAX_BARRIER_N_MAX_def)
  then obtain k where k: "\<And>slot s. rm_members ?r slot = Some s \<Longrightarrow> as_k_barrier s = k"
    by auto
  have "\<exists>s0 s1. rm_members ?r 0 = Some s0 \<and> rm_members ?r 1 = Some s1"
    by (simp add: two_room_def)
  then obtain s0 s1 where s: "rm_members ?r 0 = Some s0" "rm_members ?r 1 = Some s1"
    by blast
  have "rm_waiting ?r = {}" "as_k_barrier s0 = as_k_barrier s1"
    using k [OF s(1)] k [OF s(2)] by simp_all
  then show ?thesis
    using run s by blast
qed

definition two_group :: GroupState where
  "two_group = group_state_default\<lparr>gs_n_max := 2, gs_barrier_initialized := True, gs_barrier_pk_entries := two_tree,
     gs_kem_tree_hash_after := wc_kem_tree_hash_before (sample_context two_tree)\<rparr>"

definition sample_server_wire :: ServerWire where
  "sample_server_wire = \<lparr>sw_update = sample_wire, sw_history = (\<lambda>_. None)\<rparr>"

theorem built_update_accepted_witness:
  "\<exists>res p out. build_barrier_update_bytes sample_ext fixed_kem zero_hash (\<lambda>_. []) (sample_context two_tree) two_tree = Inr res \<and>
     parse_barrier_update sample_ext sample_server_wire (update_header (br_raw_update res)) 2 = Inr (Some p) \<and>
     check_update_chain sample_ext two_group (update_header (br_raw_update res)) p 2 3 None = Inr out \<and> vo_snapshot_post out = br_snapshot_post res"
proof -
  have two: "max (2 :: u64) 1 = 2"
    by (rule max_one) simp
  have st: "server_tree_ok sample_ext two_group" "base_ok two_group None" "gs_n_max two_group = wc_n_max (sample_context two_tree)"
      "two_tree = unwrap_or None (gs_barrier_pk_entries two_group)"
    using sample_tree_hash [OF two_tree_ok(2)] two_tree_ok(2)
    by (simp_all add: server_tree_ok_def base_ok_def two_group_def group_state_default_def two tree_len_Some)
  have "lawful sample_ext (sw_update sample_server_wire) fixed_kem" "wc_n_max (sample_context two_tree) \<le> MAX_BARRIER_N_MAX"
      "is_power_of_two (wc_n_max (sample_context two_tree))" "wc_n_max (sample_context two_tree) \<noteq> 0"
      "wc_updater_slot_index (sample_context two_tree) < wc_n_max (sample_context two_tree)"
      "compute_barrier_tree_hash sample_ext (wc_n_max (sample_context two_tree)) two_tree = Inr (wc_kem_tree_hash_before (sample_context two_tree))"
      "client_revocation_roots_hash sample_ext zero_hash zero_hash = Inr (wc_revocation_roots_hash (sample_context two_tree))"
    using sample_lawful sample_tree_hash [OF two_tree_ok(2)] sample_roots two_power
    by (simp_all add: sample_server_wire_def MAX_BARRIER_N_MAX_def)
  from built_update_accepted [OF this(1) sample_sizes [OF two_tree_ok(2)] two_tree_ok(1) this(3,4,2,5) st this(6,7), of "\<lambda>_. []" 3]
  show ?thesis
    by (auto simp: update_header_fields) (metis update_header_fields(5-7))
qed

lemma revoked_tree: "put_revoked (unat (2 :: u64) - 1) (unat (1 :: u64)) two_tree = [[], plain_ek, []]"
  by (simp add: put_revoked_def clear_barrier_path_def two_paths two_tree_def)

theorem revoked_member_locked_out_witness:
  "\<exists>res. build_barrier_update_bytes sample_ext fixed_kem zero_hash (\<lambda>_. []) (sample_context [[], plain_ek, []]) [[], plain_ek, []] = Inr res \<and>
     recover_barrier_update sample_ext sample_wire fixed_kem (recovery_input (sample_session 1) (update_header (br_raw_update res)) (br_raw_update res) 1
       zero_hash zero_hash zero_hash 0 (Suc (length (br_raw_update res))) (Some (wc_kem_tree_hash_before (sample_context [[], plain_ek, []]))) False) = Inr None"
proof -
  let ?c = "sample_context [[], plain_ek, []]"
  have "tree_keys_ok fixed_kem [[], plain_ek, []]"
    by (simp add: tree_keys_ok_def plain_ek_def fixed_kem_def)
  then obtain res where res: "build_barrier_update_bytes sample_ext fixed_kem zero_hash (\<lambda>_. []) ?c [[], plain_ek, []] = Inr res"
    using sample_builds [of "[[], plain_ek, []]"] by auto
  let ?inp = "recovery_input (sample_session 1) (update_header (br_raw_update res)) (br_raw_update res) 1
       zero_hash zero_hash zero_hash 0 (Suc (length (br_raw_update res))) (Some (wc_kem_tree_hash_before ?c)) False"
  have "in_step sample_ext ?c (br_raw_update res) ?inp"
    using sample_roots by (simp add: in_step_def recovery_input_def sample_session_def saturating_add_def)
  moreover have "build_barrier_update_bytes sample_ext fixed_kem zero_hash (\<lambda>_. []) ?c
      (put_revoked (unat (wc_n_max ?c) - 1) (unat (ri_slot_index ?inp)) two_tree) = Inr res"
    using res revoked_tree by (simp add: recovery_input_def sample_session_def)
  moreover have "ri_slot_index ?inp \<noteq> wc_updater_slot_index ?c"
    by (simp add: recovery_input_def sample_session_def)
  ultimately have "recover_barrier_update sample_ext sample_wire fixed_kem ?inp = Inr None"
    using revoked_member_locked_out [OF sample_lawful sample_sizes, of "[[], plain_ek, []]"] by simp
  with res show ?thesis
    by blast
qed

end
