(* ===== verification/Spec2Isabelle.thy ===== *)
theory Spec2Isabelle
  imports ClientGroup
begin

text \<open>
  City-G is a post-quantum group messaging protocol.  Members of a group publish \<^emph>\<open>anchors\<close>: a CBOR header with commitments, proofs
  and signatures that either adds a member (\<^emph>\<open>join\<close>) or merges the open heads of the group (\<^emph>\<open>merge\<close>), with revocations, key
  updates and checkpoints on the way.  This development is a model of the program in Isabelle/HOL, translated from the Rust sources
  under \<open>src/crates\<close>, with the theorems that make its parts correct.  All definitions are functions on values that follow the code
  branch by branch; nothing is assumed but named hypotheses on the libraries that the code calls.

  \<^bold>\<open>The program and its parts.\<close>  An anchor passes through four layers.

  \<^enum> The \<^emph>\<open>core\<close> (\<open>msphf-core\<close>, \<open>anchor-seed\<close>, \<open>cityg-pqc\<close>, \<open>pqcrypto-kyber\<close>): labelled hashes, Merkle sets and their witnesses, seed
    contexts, signatures.
  \<^enum> The \<^emph>\<open>acceptance pipeline\<close> (\<open>msphf-orchestrator\<close>): \<open>accept_anchor\<close> checks an anchor against an \<open>AcceptanceContext\<close> and commits it:
    a multi-head window of recent heads, chains of device commitments, a replay guard, a barrier version per group, pivots.  The
    receiver cache in front of it answers repeated anchors; a policy journal configures it.
  \<^enum> The \<^emph>\<open>server\<close> (\<open>cityg-server\<close>): for every group a roster of leaves with leased slots, a tree of ML-KEM public keys with its
    history, and a history authority.  \<open>accept_epoch\<close> stages a bundle on copies, runs the pipeline, validates the barrier update
    against the roster and tree, appends to the journal, and only then commits.
  \<^enum> The \<^emph>\<open>client\<close> (\<open>cityg-client\<close>, and the session state of \<open>cityg-gui\<close>): builds barrier updates over the tree, reads those of others
    and recovers the barrier key from them.

  \<^bold>\<open>Conventions.\<close>  A byte is \<open>8 word\<close>, \<open>u64\<close> is \<open>64 word\<close> with the wrapping, saturating and checked operations written out, \<open>usize\<close> is
  \<open>nat\<close> with its bound where the code checks for overflow.  A \<open>Result\<close> is a sum with the error on the left, and every \<open>?\<close>, early
  return and \<open>ensure!\<close> is a branch of \<open>tryE\<close>.  An operation on \<open>&mut self\<close> that can fail is a function from a state to a result
  \<^emph>\<open>and the state left behind\<close> (theory \<open>Effects\<close>), since in Rust what was written before an error stays written.  A \<open>BTreeMap\<close> is a
  sorted association list, a \<open>HashMap\<close> a map, a \<open>HashSet\<close> or \<open>BTreeSet\<close> a set; a loop is structural recursion or a \<open>function\<close> with
  its termination proof.  No definition has fuel: the recursions over the tree end because an index grows beyond the length
  (measure \<open>length es - node\<close>), those over a path because it shrinks, those over bytes because they get shorter.
  Libraries outside the repository are fields of the records \<open>Ext\<close> (CBOR encoding, BLAKE3, RPO, ML-DSA), \<open>Verifiers\<close> (SmallWood
  and VRF proofs, wire decoders) and \<open>KemExt\<close> (ML-KEM, ChaCha20-Poly1305, keyed BLAKE3).  What a theorem needs of them is a named
  hypothesis on those fields, such as \<open>ser_injective\<close> or \<open>kem_sound\<close>, with an instance beside it that satisfies it.  Where a theorem
  depends on hashes being collision free, its conclusion offers the collision: two different inputs with one digest.

  \<^bold>\<open>The theories, in the order of the code.\<close>

  \<^item> \<open>Prelude\<close>, \<open>Effects\<close>, \<open>Strings\<close>: machine words, results, ordered maps (locale \<open>ordered_map\<close>, interpreted on \<open>btree\<close>), stateful
    operations with the locale \<open>state_relation\<close> for what every step of an operation keeps, UTF-8 and decimal strings.
  \<^item> \<open>HeaderKeys\<close>, \<open>FreezeCodes\<close>: the numbers of \<open>hdr.rs\<close> and the rejections of \<open>accept/errors.rs\<close>.
  \<^item> \<open>Rpo256\<close>, \<open>Hashing\<close>, \<open>Merkle\<close>, \<open>Witnesses\<close>: \<open>rpo256.rs\<close>, \<open>hash.rs\<close>, \<open>instance.rs\<close>, \<open>merkle.rs\<close>, \<open>witness.rs\<close> and \<open>anchor-seed\<close>.
    The locale \<open>node_hash\<close> proves the Merkle facts once for any node hash, and is interpreted on the RPO one.  Shown: a root binds
    its set or exhibits a collision; the root computed level by level is the tree hash of RFC 6962, and is given exactly for
    increasing lists; which non-membership witnesses are sound, and that the two-sided form is not.
  \<^item> \<open>MultiHeadWindow\<close>: \<open>mhw.rs\<close> and \<open>time.rs\<close>.  Windows of heads that expire, with their index; the index and window agree in every
    reachable state.
  \<^item> \<open>AcceptState\<close>, \<open>Pivots\<close>: \<open>accept/state.rs\<close>, \<open>cache.rs\<close>, \<open>telemetry.rs\<close>, the replay guard and the pivot store.  The locale \<open>expiry\<close>
    is shared by windows, replay guard, verification cache and pivots.
  \<^item> \<open>Headers\<close>, \<open>BarrierUpdate\<close>, \<open>Stages\<close>, \<open>Srx\<close>: the readers of the header, the barrier update of \<open>accept/barrier.rs\<close>, the stages of
    \<open>accept/stages.rs\<close>, the set relations of \<open>accept/mod.rs\<close>.
  \<^item> \<open>AcceptContext\<close>, \<open>RefusalCodes\<close>, \<open>Join\<close>, \<open>Merge\<close>, \<open>Accept\<close>: \<open>accept/mod.rs\<close>, \<open>accept/join.rs\<close>, \<open>accept/merge.rs\<close>.  Each handler has a
    theorem on what an accepted anchor has passed, one on the exact state after it, and one on what a refusal leaves behind;
    \<open>RefusalCodes\<close> shows that no check of the stages reports a full window, so that this refusal is the window's own.  A merge
    without a device runs the same way whatever the epoch caps (\<open>merge_ignores_caps\<close>).  \<open>Accept\<close> composes
    them: over every sequence of calls the context keeps its invariant, and in a known group a call is a step of the barrier
    automaton.
  \<^item> \<open>Policy\<close>, \<open>Receiver\<close>: \<open>policy.rs\<close>, \<open>receiver.rs\<close> and the entry points of \<open>lib.rs\<close>: what a loaded journal entry was endorsed by,
    what a processed anchor is bound to, and that the cache of verified proofs holds verified proofs only.
  \<^item> \<open>BarrierTree\<close>: the tree functions of \<open>cityg-server/src/lib.rs\<close>.  The incremental hash with its caches is the plain hash; the
    root determines the tree; the expected ciphertexts of an update reach every occupied leaf but the updater's exactly once.
  \<^item> \<open>Roster\<close>: \<open>roster_state.rs\<close>.  No two leaves ever hold one slot, a revoked lease stays dead, every recorded root is canonical; a join that
    the capacity check admits gets a slot exactly if the leases of leaves outside the latest snapshot leave one over.
  \<^item> \<open>TreeHistory\<close>: \<open>barrier_tree_state.rs\<close>.  Trees are stored once per distinct key and decoded back; pruning keeps the current tree
    and the most recent ones, 256 in all; history commitments are an append-only chain.
  \<^item> \<open>ServerUpdate\<close>, \<open>HistoryAuthority\<close>, \<open>Server\<close>: the update validation, the history authority and \<open>accept_epoch\<close>.  An accepted update
    continues the hash chain and reaches exactly the members that stay; a refused epoch leaves the server as it was.  The locales
    \<open>history_relation\<close> and \<open>group_relation\<close> carry a relation on groups through every step of the staging, and are interpreted on the
    frames and on the slot leases.
  \<^item> \<open>BarrierClient\<close>, \<open>BuiltUpdate\<close>, \<open>ClientGroup\<close>: \<open>barrier.rs\<close>, \<open>barrier_crypto.rs\<close>, \<open>barrier_build.rs\<close>, \<open>barrier_update.rs\<close>,
    \<open>barrier_recovery.rs\<close> of the client and the session state of the application.  A built update is accepted by the server's checks;
    every other member recovers the updater's key from it; over any run of joins, revocations and updates the members agree.

  \<^bold>\<open>What the theorems do not say.\<close>  They are about what the code computes, not about secrecy: ML-KEM, the cipher, the hashes and the
  proof systems are uninterpreted.  \<open>join_refused_state\<close>, \<open>merge_refused_state\<close> and \<open>refused_anchors_expire_heads\<close> concern callers that
  use an \<open>AcceptanceContext\<close> directly; the server runs the pipeline on a copy and drops it on errors.  The acceptance clock is logical
  and ticks once per call, so that time passes with calls and not with the clock on the wall.

  \<^bold>\<open>Not modelled.\<close>  The SmallWood and LB-VRF provers and verifiers and the RLWE arithmetic under them (\<open>capss\<close>, \<open>msphf-lb-vrf\<close>,
  \<open>msphf-rlwe\<close>, \<open>msphf-core/src/rlwe\<close>), which the pipeline calls as predicates; the HTTP services, database stores and configuration
  (\<open>cityg-api\<close>, \<open>cityg-worker\<close>, \<open>cityg-runtime\<close>, \<open>cityg-config\<close>), which are input and output around \<open>accept_epoch\<close>; the views of the
  application (\<open>cityg-gui\<close>) and its caches; known-answer tests, stress and timing tools.  Of the modelled crates, logging, telemetry
  text, zeroization and persistence to disk are left out.
\<close>

end
